(* ===== verification/Prelude.thy ===== *)
theory Prelude
  imports Main "HOL-Library.Word"
begin

unbundle bit_operations_syntax

section \<open>Shared types, readers and byte strings\<close>

text \<open>
  The vocabulary of the development: Go's machine integers as words, Go's error values and
  panics as a datatype, the reader of package bytes as a list of the bytes still to be read, and
  the lemmas on bytes, lists and finite intervals that the component theories share.

  A function of the code that returns \<open>(x, error)\<close> returns \<open>goerr + x\<close> here. A function that reads
  from a \<open>bytes.Reader\<close> takes the unread bytes and returns the value with the bytes that are left.
  A function that writes to a \<open>bytes.Buffer\<close> returns the bytes it appends.
\<close>

named_theorems codec \<open>round trips of readers and writers\<close>
named_theorems sizes \<open>lengths of written values\<close>

type_synonym byte = "8 word"
type_synonym uint16 = "16 word"
type_synonym uint32 = "32 word"
type_synonym uint64 = "64 word"

text \<open>
  \<open>QErr c\<close> is a \<open>qerr.QuicError\<close> with code \<open>c\<close> (its message is dropped), \<open>GoErr s\<close> an error made by
  \<open>errors.New\<close> or \<open>fmt.Errorf\<close>, \<open>Panic s\<close> a run-time panic.
\<close>

datatype goerr = EOF | UnexpectedEOF | QErr uint32 | GoErr string | Panic string

type_synonym 'a reader = "byte list \<Rightarrow> goerr + ('a \<times> byte list)"

definition rbind :: "goerr + ('a \<times> 's) \<Rightarrow> ('a \<Rightarrow> 's \<Rightarrow> goerr + 'b) \<Rightarrow> goerr + 'b" where
  "rbind m f = (case m of Inl e \<Rightarrow> Inl e | Inr (x, s) \<Rightarrow> f x s)"

lemma rbind_simps [simp]:
  "rbind (Inl e) f = Inl e"
  "rbind (Inr (x, s)) f = f x s"
  by (simp_all add: rbind_def)

lemma rbind_Inr_iff:
  "rbind m f = Inr y \<longleftrightarrow> (\<exists>x s. m = Inr (x, s) \<and> f x s = Inr y)"
  by (auto simp: rbind_def split: sum.splits)

definition ebind :: "goerr + 'a \<Rightarrow> ('a \<Rightarrow> goerr + 'b) \<Rightarrow> goerr + 'b" where
  "ebind m f = (case m of Inl e \<Rightarrow> Inl e | Inr x \<Rightarrow> f x)"

lemma ebind_simps [simp]:
  "ebind (Inl e) f = Inl e"
  "ebind (Inr x) f = f x"
  by (simp_all add: ebind_def)

lemma ebind_Inr_iff: "ebind m f = Inr y \<longleftrightarrow> (\<exists>x. m = Inr x \<and> f x = Inr y)"
  by (auto simp: ebind_def split: sum.splits)

text \<open>\<open>io.ByteReader.ReadByte\<close> and \<open>io.ReadFull\<close> into a buffer of \<open>n\<close> bytes.\<close>

definition ReadByte :: "byte reader" where
  "ReadByte r = (case r of [] \<Rightarrow> Inl EOF | b # r' \<Rightarrow> Inr (b, r'))"

definition ReadFull :: "nat \<Rightarrow> byte list reader" where
  "ReadFull n r =
     (if n \<le> length r then Inr (take n r, drop n r)
      else if r = [] then Inl EOF else Inl UnexpectedEOF)"

lemma ReadByte_simps [simp]:
  "ReadByte [] = Inl EOF"
  "ReadByte (b # r) = Inr (b, r)"
  by (simp_all add: ReadByte_def)

lemma ReadFull_append [codec]: "length bs = n \<Longrightarrow> ReadFull n (bs @ r) = Inr (bs, r)"
  by (simp add: ReadFull_def)

lemma ReadFull_Inr_iff:
  "ReadFull n r = Inr (x, r') \<longleftrightarrow> length x = n \<and> r = x @ r'"
  by (auto simp: ReadFull_def)

subsection \<open>Numbers as byte strings\<close>

text \<open>
  The value of a byte string, most significant byte first, and the \<open>n\<close> bytes that hold the low
  \<open>8 * n\<close> bits of a number. All fixed-width readers and writers of the code reduce to these two.
\<close>

fun be_nat :: "byte list \<Rightarrow> nat" where
  "be_nat [] = 0"
| "be_nat (b # bs) = unat b * 256 ^ length bs + be_nat bs"

fun be_bytes :: "nat \<Rightarrow> nat \<Rightarrow> byte list" where
  "be_bytes 0 x = []"
| "be_bytes (Suc n) x = of_nat (x div 256 ^ n) # be_bytes n x"

lemma length_be_bytes [simp, sizes]: "length (be_bytes n x) = n"
  by (induction n) simp_all

lemma unat_of_nat8: "unat (of_nat n :: byte) = n mod 256"
  by (simp add: unat_of_nat)

lemma unat_lt_256 [simp]: "unat (b :: byte) < 256"
  using unsigned_less [of b, where 'a = nat] by simp

lemma unat_le_255 [simp]: "unat (b :: byte) \<le> 255"
  using unat_lt_256 [of b] by linarith

lemma be_nat_less: "be_nat bs < 256 ^ length bs"
proof (induction bs)
  case (Cons b bs)
  have "unat b * 256 ^ length bs + be_nat bs < unat b * 256 ^ length bs + 256 ^ length bs"
    using Cons by simp
  also have "\<dots> = (unat b + 1) * 256 ^ length bs" by (simp add: algebra_simps)
  also have "\<dots> \<le> 256 * 256 ^ length bs"
    using unat_lt_256 [of b] by (intro mult_right_mono) (simp_all del: unat_lt_256)
  finally show ?case by simp
qed simp

lemma be_nat_be_bytes [simp]: "be_nat (be_bytes n x) = x mod 256 ^ n"
proof (induction n)
  case (Suc n)
  have "x mod (256 ^ n * 256) = 256 ^ n * (x div 256 ^ n mod 256) + x mod 256 ^ n"
    by (rule mod_mult2_eq)
  with Suc show ?case by (simp add: unat_of_nat8 mult.commute)
qed simp

lemma be_bytes_mod: "be_bytes n (x mod 256 ^ n) = be_bytes n x"
proof -
  have "be_bytes n (x mod 256 ^ m) = be_bytes n x" if "n \<le> m" for m
    using that
  proof (induction n)
    case (Suc n)
    then have le: "Suc n \<le> m" by simp
    then obtain k where m: "m = n + Suc k" by (metis add_Suc_right le_Suc_ex add_Suc)
    have "x mod 256 ^ m = x mod (256 ^ n * 256 ^ Suc k)" by (simp add: m power_add ac_simps)
    also have "\<dots> = 256 ^ n * (x div 256 ^ n mod 256 ^ Suc k) + x mod 256 ^ n"
      by (rule mod_mult2_eq)
    finally have "x mod 256 ^ m div 256 ^ n = x div 256 ^ n mod 256 ^ Suc k" by simp
    moreover have "(x div 256 ^ n mod 256 ^ Suc k) mod 256 = x div 256 ^ n mod 256"
      by (simp add: mod_mod_cancel)
    ultimately have "(of_nat (x mod 256 ^ m div 256 ^ n) :: byte) = of_nat (x div 256 ^ n)"
      by (metis unat_of_nat8 word_unat_eq_iff)
    with Suc le show ?case by simp
  qed simp
  then show ?thesis by simp
qed

lemma be_bytes_be_nat [simp]: "be_bytes (length bs) (be_nat bs) = bs"
proof (induction bs)
  case (Cons b bs)
  have q: "(unat b * 256 ^ length bs + be_nat bs) div 256 ^ length bs = unat b"
    using be_nat_less [of bs] by (simp add: div_mult_self3)
  have "be_bytes (length bs) (unat b * 256 ^ length bs + be_nat bs) = be_bytes (length bs) (be_nat bs)"
    by (subst be_bytes_mod [symmetric]) (simp add: be_bytes_mod)
  with Cons q show ?case by simp
qed simp

lemma be_nat_append: "be_nat (xs @ ys) = be_nat xs * 256 ^ length ys + be_nat ys"
  by (induction xs) (simp_all add: algebra_simps power_add)

lemma be_nat_inj: "length xs = length ys \<Longrightarrow> be_nat xs = be_nat ys \<Longrightarrow> xs = ys"
  by (metis be_bytes_be_nat)

subsection \<open>64-bit numbers without wrap-around\<close>

lemma unat_plus_of_nat:
  "unat (w :: uint64) + n < 2 ^ 64 \<Longrightarrow> unat (w + of_nat n) = unat w + n"
proof -
  assume a: "unat w + n < 2 ^ 64"
  have "unat (of_nat (unat w + n) :: uint64) = unat w + n"
    using a by (simp only: unat_of_nat len_of_numeral_defs) simp
  then show ?thesis by simp
qed

lemma unat_succ: "unat (a :: uint64) + 1 < 2 ^ 64 \<Longrightarrow> unat (a + 1) = unat a + 1"
  using unat_plus_of_nat [of a 1] by simp

lemma unat_add64: "unat (a :: uint64) + unat b < 2 ^ 64 \<Longrightarrow> unat (a + b) = unat a + unat b"
  using unat_plus_of_nat [of a "unat b"] by simp

lemma unat_sub64: "unat (b :: uint64) \<le> unat a \<Longrightarrow> unat (a - b) = unat a - unat b"
  by (rule unat_sub) (simp add: word_le_nat_alt)

lemma unat_of_nat64: "n < 2 ^ 64 \<Longrightarrow> unat (of_nat n :: uint64) = n"
  using unat_plus_of_nat [of 0 n] by simp

lemma sint_small: "unat (w :: uint64) < 2 ^ 63 \<Longrightarrow> sint w = int (unat w)"
proof -
  assume "unat w < 2 ^ 63"
  then have "int (unat w) < 2 ^ 63" by (metis of_nat_less_iff of_nat_numeral of_nat_power)
  then have "uint w < 2 ^ 63" by simp
  moreover have "- (2 ^ 63) \<le> uint w" by (rule order_trans [OF _ uint_ge_0]) simp
  ultimately show ?thesis by (simp add: sint_uint signed_take_bit_int_eq_self)
qed

end
