(* ===== verification/Byte_Order.thy ===== *)
theory Byte_Order
  imports Prelude
begin

unbundle bit_operations_syntax

section \<open>Byte orders\<close>

text \<open>
  \<open>internal/utils/byteorder.go\<close> and its two implementations \<open>byteorder_big_endian.go\<close> and
  \<open>byteorder_little_endian.go\<close>. Every fixed-width reader is shown to read exactly its bytes and to
  return their value, every writer to write the bytes of its argument. The Go interface
  \<open>ByteOrder\<close> is the locale \<open>byte_order\<close>, interpreted on both implementations.
\<close>

abbreviation u8 :: "'a::len word \<Rightarrow> byte" where "u8 w \<equiv> ucast w"
abbreviation u64 :: "'a::len word \<Rightarrow> uint64" where "u64 w \<equiv> ucast w"
abbreviation u32 :: "'a::len word \<Rightarrow> uint32" where "u32 w \<equiv> ucast w"
abbreviation u16 :: "'a::len word \<Rightarrow> uint16" where "u16 w \<equiv> ucast w"
abbreviation shl :: "'a::len word \<Rightarrow> nat \<Rightarrow> 'a word" where "shl w n \<equiv> push_bit n w"
abbreviation shr :: "'a::len word \<Rightarrow> nat \<Rightarrow> 'a word" where "shr w n \<equiv> drop_bit n w"

subsection \<open>Reading a number of bytes one by one\<close>

definition ReadBytes :: "nat \<Rightarrow> byte list reader" where
  "ReadBytes n r = (if n \<le> length r then Inr (take n r, drop n r) else Inl EOF)"

lemma ReadBytes_append [codec]: "length bs = n \<Longrightarrow> ReadBytes n (bs @ r) = Inr (bs, r)"
  by (simp add: ReadBytes_def)

lemma ReadBytes_0: "ReadBytes 0 r = Inr ([], r)"
  by (simp add: ReadBytes_def)

lemma ReadBytes_Suc:
  "ReadBytes (Suc n) r =
     rbind (ReadByte r) (\<lambda>b r. rbind (ReadBytes n r) (\<lambda>bs r. Inr (b # bs, r)))"
  by (cases r) (simp_all add: ReadBytes_def)

lemma rbind_assoc:
  "rbind (rbind m f) g = rbind m (\<lambda>x s. rbind (f x s) g)"
  by (auto simp: rbind_def split: sum.splits)

lemma rbind_cong [fundef_cong]:
  "m = m' \<Longrightarrow> (\<And>x s. m' = Inr (x, s) \<Longrightarrow> f x s = f' x s) \<Longrightarrow> rbind m f = rbind m' f'"
  by (auto simp: rbind_def split: sum.splits)

lemma ReadBytes_numeral:
  "ReadBytes (numeral k) r =
     rbind (ReadByte r) (\<lambda>b r. rbind (ReadBytes (pred_numeral k) r) (\<lambda>bs r. Inr (b # bs, r)))"
  by (simp only: numeral_eq_Suc ReadBytes_Suc)

lemmas ReadBytes_unfold = ReadBytes_0 ReadBytes_Suc ReadBytes_numeral rbind_assoc

lemma ucast_of_unat: "ucast w = of_nat (unat w)"
  by (simp add: word_unat_eq_iff unat_of_nat unsigned_ucast_eq take_bit_eq_mod)

lemma unat_shr: "unat (shr i n) = unat i div 2 ^ n"
  by (simp only: unat_drop_bit_eq) (simp only: drop_bit_eq_div)

lemma unat_p2: "n < 64 \<Longrightarrow> unat (2 ^ n :: uint64) = 2 ^ n"
proof -
  assume "n < 64"
  then have "(2 :: nat) ^ n < 2 ^ 64" by (intro power_strict_increasing) auto
  then have "unat (of_nat (2 ^ n) :: uint64) = 2 ^ n" by (simp only: unat_of_nat) simp
  then show ?thesis by simp
qed

lemma u8_shr: "u8 (shr i n) = of_nat (unat i div 2 ^ n)"
  by (simp only: ucast_of_unat unat_shr)

lemma be_bytes_numeral:
  "be_bytes (numeral k) x = of_nat (x div 256 ^ pred_numeral k) # be_bytes (pred_numeral k) x"
  by (simp only: numeral_eq_Suc be_bytes.simps)

lemmas word_bytes = u8_shr be_bytes_numeral

subsection \<open>Big endian\<close>

function be_ReadUintN_from :: "byte \<Rightarrow> byte \<Rightarrow> uint64 \<Rightarrow> uint64 reader" where
  "be_ReadUintN_from n i res r =
     (if i < n
      then rbind (ReadByte r) (\<lambda>bt r.
             be_ReadUintN_from n (i + 1) (res XOR shl (u64 bt) (unat ((n - 1 - i) * 8))) r)
      else Inr (res, r))"
  by pat_completeness auto
termination
proof (relation "measure (\<lambda>(n, i, res, r). unat n - unat i)", goal_cases)
  case (2 n i res r)
  then have "Suc (unat i) \<le> unat n" by (simp add: word_less_nat_alt Suc_le_eq)
  then have "unat (i + 1) = Suc (unat i)"
    using unat_lt_256 [of n] by (simp add: unat_word_ariths del: unat_lt_256)
  with 2 show ?case by (simp add: word_less_nat_alt)
qed simp

declare be_ReadUintN_from.simps [simp del]

definition be_ReadUintN :: "byte \<Rightarrow> uint64 reader" where
  "be_ReadUintN n r = be_ReadUintN_from n 0 0 r"

definition be_ReadUint64 :: "uint64 reader" where
  "be_ReadUint64 r =
     rbind (ReadByte r) (\<lambda>b8 r.
     rbind (ReadByte r) (\<lambda>b7 r.
     rbind (ReadByte r) (\<lambda>b6 r.
     rbind (ReadByte r) (\<lambda>b5 r.
     rbind (ReadByte r) (\<lambda>b4 r.
     rbind (ReadByte r) (\<lambda>b3 r.
     rbind (ReadByte r) (\<lambda>b2 r.
     rbind (ReadByte r) (\<lambda>b1 r.
       Inr (u64 b1 + shl (u64 b2) 8 + shl (u64 b3) 16 + shl (u64 b4) 24 + shl (u64 b5) 32
            + shl (u64 b6) 40 + shl (u64 b7) 48 + shl (u64 b8) 56, r)))))))))"

definition be_ReadUint32 :: "uint32 reader" where
  "be_ReadUint32 r =
     rbind (ReadByte r) (\<lambda>b4 r.
     rbind (ReadByte r) (\<lambda>b3 r.
     rbind (ReadByte r) (\<lambda>b2 r.
     rbind (ReadByte r) (\<lambda>b1 r.
       Inr (u32 b1 + shl (u32 b2) 8 + shl (u32 b3) 16 + shl (u32 b4) 24, r)))))"

definition be_ReadUint16 :: "uint16 reader" where
  "be_ReadUint16 r =
     rbind (ReadByte r) (\<lambda>b2 r.
     rbind (ReadByte r) (\<lambda>b1 r.
       Inr (u16 b1 + shl (u16 b2) 8, r)))"

definition be_WriteUint64 :: "uint64 \<Rightarrow> byte list" where
  "be_WriteUint64 i =
     [u8 (shr i 56), u8 (shr i 48), u8 (shr i 40), u8 (shr i 32),
      u8 (shr i 24), u8 (shr i 16), u8 (shr i 8), u8 i]"

definition be_WriteUint56 :: "uint64 \<Rightarrow> goerr + byte list" where
  "be_WriteUint56 i =
     (if i \<ge> shl 1 56 then Inl (Panic ''doesn't fit into 56 bits'')
      else Inr [u8 (shr i 48), u8 (shr i 40), u8 (shr i 32),
                u8 (shr i 24), u8 (shr i 16), u8 (shr i 8), u8 i])"

definition be_WriteUint48 :: "uint64 \<Rightarrow> goerr + byte list" where
  "be_WriteUint48 i =
     (if i \<ge> shl 1 48 then Inl (Panic ''doesn't fit into 48 bits'')
      else Inr [u8 (shr i 40), u8 (shr i 32),
                u8 (shr i 24), u8 (shr i 16), u8 (shr i 8), u8 i])"

definition be_WriteUint40 :: "uint64 \<Rightarrow> goerr + byte list" where
  "be_WriteUint40 i =
     (if i \<ge> shl 1 40 then Inl (Panic ''doesn't fit into 40 bits'')
      else Inr [u8 (shr i 32), u8 (shr i 24), u8 (shr i 16), u8 (shr i 8), u8 i])"

definition be_WriteUint32 :: "uint32 \<Rightarrow> byte list" where
  "be_WriteUint32 i = [u8 (shr i 24), u8 (shr i 16), u8 (shr i 8), u8 i]"

definition be_WriteUint24 :: "uint32 \<Rightarrow> goerr + byte list" where
  "be_WriteUint24 i =
     (if i \<ge> shl 1 24 then Inl (Panic ''doesn't fit into 24 bits'')
      else Inr [u8 (shr i 16), u8 (shr i 8), u8 i])"

definition be_WriteUint16 :: "uint16 \<Rightarrow> byte list" where
  "be_WriteUint16 i = [u8 (shr i 8), u8 i]"

text \<open>The writers write the bytes of their argument.\<close>

lemma be_WriteUint64_bytes: "be_WriteUint64 i = be_bytes 8 (unat i)"
  by (simp add: be_WriteUint64_def word_bytes)

lemma be_WriteUint32_bytes: "be_WriteUint32 i = be_bytes 4 (unat i)"
  by (simp add: be_WriteUint32_def word_bytes)

lemma be_WriteUint16_bytes: "be_WriteUint16 i = be_bytes 2 (unat i)"
  by (simp add: be_WriteUint16_def word_bytes)

lemma be_WriteUint56_bytes: "i < shl 1 56 \<Longrightarrow> be_WriteUint56 i = Inr (be_bytes 7 (unat i))"
  by (simp add: be_WriteUint56_def not_le word_bytes)

lemma be_WriteUint48_bytes: "i < shl 1 48 \<Longrightarrow> be_WriteUint48 i = Inr (be_bytes 6 (unat i))"
  by (simp add: be_WriteUint48_def not_le word_bytes)

lemma be_WriteUint40_bytes: "i < shl 1 40 \<Longrightarrow> be_WriteUint40 i = Inr (be_bytes 5 (unat i))"
  by (simp add: be_WriteUint40_def not_le word_bytes)

lemma be_WriteUint24_bytes: "i < shl 1 24 \<Longrightarrow> be_WriteUint24 i = Inr (be_bytes 3 (unat i))"
  by (simp add: be_WriteUint24_def not_le word_bytes)

text \<open>The readers return the value of the bytes they consume, or \<open>EOF\<close>.\<close>

lemma be_ReadUint64_eq:
  "be_ReadUint64 r = rbind (ReadBytes 8 r) (\<lambda>bs r. Inr (of_nat (be_nat bs), r))"
  by (simp add: be_ReadUint64_def ReadBytes_unfold push_bit_eq_mult ac_simps)

lemma be_ReadUint32_eq:
  "be_ReadUint32 r = rbind (ReadBytes 4 r) (\<lambda>bs r. Inr (of_nat (be_nat bs), r))"
  by (simp add: be_ReadUint32_def ReadBytes_unfold push_bit_eq_mult ac_simps)

lemma be_ReadUint16_eq:
  "be_ReadUint16 r = rbind (ReadBytes 2 r) (\<lambda>bs r. Inr (of_nat (be_nat bs), r))"
  by (simp add: be_ReadUint16_def ReadBytes_unfold push_bit_eq_mult ac_simps)

text \<open>
  \<open>ReadUintN\<close> combines the bytes with exclusive or; below eight bytes the shifted bytes do not
  overlap, so this is the sum.
\<close>

lemma xor_byte_above:
  "of_nat (x * 256 ^ Suc k) XOR shl (u64 (b :: byte)) (8 * k)
     = (of_nat (x * 256 ^ Suc k + unat b * 256 ^ k) :: uint64)"
proof -
  have "(of_nat (x * 256 ^ Suc k) :: uint64) = push_bit (8 * Suc k) (of_nat x)"
    by (simp add: push_bit_eq_mult power_add power_mult)
  moreover have "push_bit (8 * Suc k) (of_nat x) AND push_bit (8 * k) (u64 b) = 0"
    by (rule bit_eqI) (auto simp: bit_simps dest: bit_imp_le_length)
  moreover have "push_bit (8 * k) (u64 b) = (of_nat (unat b * 256 ^ k) :: uint64)"
    by (simp add: push_bit_eq_mult power_mult)
  ultimately show ?thesis
    by (simp add: disjunctive_add_eq_xor [symmetric])
qed

lemma unat_shift_index:
  assumes "i < n" and "n \<le> 8"
  shows "unat ((of_nat n - 1 - of_nat i) * 8 :: byte) = 8 * (n - 1 - i)"
proof -
  have "(of_nat n - 1 - of_nat i) * 8 = (of_nat (8 * (n - 1 - i)) :: byte)"
    using assms by (simp add: of_nat_diff)
  then show ?thesis using assms by (simp add: unat_of_nat del: of_nat_mult)
qed

lemma be_ReadUintN_from_eq:
  assumes "i \<le> n" and "n \<le> 8"
  shows "be_ReadUintN_from (of_nat n) (of_nat i) (of_nat (x * 256 ^ (n - i))) r =
     rbind (ReadBytes (n - i) r) (\<lambda>bs r. Inr (of_nat (x * 256 ^ (n - i) + be_nat bs), r))"
  using assms
proof (induction "n - i" arbitrary: i x r)
  case 0
  then show ?case by (subst be_ReadUintN_from.simps) (simp add: ReadBytes_0)
next
  case (Suc k)
  then have i: "i < n" and k: "n - i = Suc k" "n - Suc i = k" "n - 1 - i = k" by auto
  have lt: "(of_nat i :: byte) < of_nat n"
    using i Suc.prems by (simp add: word_less_nat_alt unat_of_nat)
  show ?case
  proof (cases r)
    case (Cons b r')
    have "be_ReadUintN_from (of_nat n) (of_nat i) (of_nat (x * 256 ^ (n - i))) r =
        be_ReadUintN_from (of_nat n) (of_nat (Suc i))
          (of_nat ((x * 256 + unat b) * 256 ^ (n - Suc i))) r'"
      using lt i Suc.prems
      by (simp only: be_ReadUintN_from.simps [of "of_nat n" "of_nat i"] Cons ReadByte_simps rbind_simps
            if_True unat_shift_index k xor_byte_above)
        (simp add: algebra_simps)
    also have "\<dots> = rbind (ReadBytes k r')
        (\<lambda>bs r. Inr (of_nat ((x * 256 + unat b) * 256 ^ k + be_nat bs), r))"
      using Suc.hyps(1) [of "Suc i" "x * 256 + unat b" r'] i Suc.prems k by simp
    finally show ?thesis
      by (simp add: k Cons ReadBytes_Suc rbind_assoc)
        (auto simp: rbind_def ReadBytes_def algebra_simps)
  qed (use lt k in \<open>simp add: be_ReadUintN_from.simps [of "of_nat n"] ReadBytes_Suc\<close>)
qed

lemma be_ReadUintN_eq:
  assumes "n \<le> 8"
  shows "be_ReadUintN n r = rbind (ReadBytes (unat n) r) (\<lambda>bs r. Inr (of_nat (be_nat bs), r))"
  using be_ReadUintN_from_eq [of 0 "unat n" 0 r] assms
  by (simp add: be_ReadUintN_def word_le_nat_alt)

subsection \<open>Little endian\<close>

function le_ReadUintN_from :: "byte \<Rightarrow> byte \<Rightarrow> uint64 \<Rightarrow> uint64 reader" where
  "le_ReadUintN_from n i res r =
     (if i < n
      then rbind (ReadByte r) (\<lambda>bt r.
             le_ReadUintN_from n (i + 1) (res XOR shl (u64 bt) (unat (i * 8))) r)
      else Inr (res, r))"
  by pat_completeness auto
termination
proof (relation "measure (\<lambda>(n, i, res, r). unat n - unat i)", goal_cases)
  case (2 n i res r)
  then have "Suc (unat i) \<le> unat n" by (simp add: word_less_nat_alt Suc_le_eq)
  then have "unat (i + 1) = Suc (unat i)"
    using unat_lt_256 [of n] by (simp add: unat_word_ariths del: unat_lt_256)
  with 2 show ?case by (simp add: word_less_nat_alt)
qed simp

declare le_ReadUintN_from.simps [simp del]

definition le_ReadUintN :: "byte \<Rightarrow> uint64 reader" where
  "le_ReadUintN n r = le_ReadUintN_from n 0 0 r"

definition le_ReadUint64 :: "uint64 reader" where
  "le_ReadUint64 r =
     rbind (ReadByte r) (\<lambda>b1 r.
     rbind (ReadByte r) (\<lambda>b2 r.
     rbind (ReadByte r) (\<lambda>b3 r.
     rbind (ReadByte r) (\<lambda>b4 r.
     rbind (ReadByte r) (\<lambda>b5 r.
     rbind (ReadByte r) (\<lambda>b6 r.
     rbind (ReadByte r) (\<lambda>b7 r.
     rbind (ReadByte r) (\<lambda>b8 r.
       Inr (u64 b1 + shl (u64 b2) 8 + shl (u64 b3) 16 + shl (u64 b4) 24 + shl (u64 b5) 32
            + shl (u64 b6) 40 + shl (u64 b7) 48 + shl (u64 b8) 56, r)))))))))"

definition le_ReadUint32 :: "uint32 reader" where
  "le_ReadUint32 r =
     rbind (ReadByte r) (\<lambda>b1 r.
     rbind (ReadByte r) (\<lambda>b2 r.
     rbind (ReadByte r) (\<lambda>b3 r.
     rbind (ReadByte r) (\<lambda>b4 r.
       Inr (u32 b1 + shl (u32 b2) 8 + shl (u32 b3) 16 + shl (u32 b4) 24, r)))))"

definition le_ReadUint16 :: "uint16 reader" where
  "le_ReadUint16 r =
     rbind (ReadByte r) (\<lambda>b1 r.
     rbind (ReadByte r) (\<lambda>b2 r.
       Inr (u16 b1 + shl (u16 b2) 8, r)))"

definition le_WriteUint64 :: "uint64 \<Rightarrow> byte list" where
  "le_WriteUint64 i =
     [u8 i, u8 (shr i 8), u8 (shr i 16), u8 (shr i 24),
      u8 (shr i 32), u8 (shr i 40), u8 (shr i 48), u8 (shr i 56)]"

definition le_WriteUint56 :: "uint64 \<Rightarrow> goerr + byte list" where
  "le_WriteUint56 i =
     (if i \<ge> shl 1 56 then Inl (Panic ''doesn't fit into 56 bits'')
      else Inr [u8 i, u8 (shr i 8), u8 (shr i 16), u8 (shr i 24),
                u8 (shr i 32), u8 (shr i 40), u8 (shr i 48)])"

definition le_WriteUint48 :: "uint64 \<Rightarrow> goerr + byte list" where
  "le_WriteUint48 i =
     (if i \<ge> shl 1 48 then Inl (Panic ''doesn't fit into 48 bits'')
      else Inr [u8 i, u8 (shr i 8), u8 (shr i 16), u8 (shr i 24),
                u8 (shr i 32), u8 (shr i 40)])"

definition le_WriteUint40 :: "uint64 \<Rightarrow> goerr + byte list" where
  "le_WriteUint40 i =
     (if i \<ge> shl 1 40 then Inl (Panic ''doesn't fit into 40 bits'')
      else Inr [u8 i, u8 (shr i 8), u8 (shr i 16), u8 (shr i 24), u8 (shr i 32)])"

definition le_WriteUint32 :: "uint32 \<Rightarrow> byte list" where
  "le_WriteUint32 i = [u8 i, u8 (shr i 8), u8 (shr i 16), u8 (shr i 24)]"

definition le_WriteUint24 :: "uint32 \<Rightarrow> goerr + byte list" where
  "le_WriteUint24 i =
     (if i \<ge> shl 1 24 then Inl (Panic ''doesn't fit into 24 bits'')
      else Inr [u8 i, u8 (shr i 8), u8 (shr i 16)])"

definition le_WriteUint16 :: "uint16 \<Rightarrow> byte list" where
  "le_WriteUint16 i = [u8 i, u8 (shr i 8)]"

lemma le_WriteUint64_bytes: "le_WriteUint64 i = rev (be_bytes 8 (unat i))"
  by (simp add: le_WriteUint64_def word_bytes)

lemma le_WriteUint32_bytes: "le_WriteUint32 i = rev (be_bytes 4 (unat i))"
  by (simp add: le_WriteUint32_def word_bytes)

lemma le_WriteUint16_bytes: "le_WriteUint16 i = rev (be_bytes 2 (unat i))"
  by (simp add: le_WriteUint16_def word_bytes)

lemma le_ReadUint64_eq:
  "le_ReadUint64 r = rbind (ReadBytes 8 r) (\<lambda>bs r. Inr (of_nat (be_nat (rev bs)), r))"
  by (simp add: le_ReadUint64_def ReadBytes_unfold push_bit_eq_mult ac_simps)

lemma le_ReadUint32_eq:
  "le_ReadUint32 r = rbind (ReadBytes 4 r) (\<lambda>bs r. Inr (of_nat (be_nat (rev bs)), r))"
  by (simp add: le_ReadUint32_def ReadBytes_unfold push_bit_eq_mult ac_simps)

lemma le_ReadUint16_eq:
  "le_ReadUint16 r = rbind (ReadBytes 2 r) (\<lambda>bs r. Inr (of_nat (be_nat (rev bs)), r))"
  by (simp add: le_ReadUint16_def ReadBytes_unfold push_bit_eq_mult ac_simps)

lemma xor_byte_below:
  assumes "x < 256 ^ k"
  shows "of_nat x XOR shl (u64 (b :: byte)) (8 * k) = (of_nat (x + unat b * 256 ^ k) :: uint64)"
proof -
  have "take_bit (8 * k) x = x"
    using assms by (simp add: take_bit_nat_eq_self_iff power_mult)
  then have "(of_nat x :: uint64) = take_bit (8 * k) (of_nat x)"
    by (simp add: take_bit_of_nat)
  moreover have "take_bit (8 * k) (of_nat x) AND push_bit (8 * k) (u64 b) = (0 :: uint64)"
    by (rule bit_eqI) (auto simp: bit_simps)
  moreover have "push_bit (8 * k) (u64 b) = (of_nat (unat b * 256 ^ k) :: uint64)"
    by (simp add: push_bit_eq_mult power_mult)
  ultimately show ?thesis
    by (metis disjunctive_add_eq_xor of_nat_add)
qed

lemma le_ReadUintN_from_eq:
  assumes "i \<le> n" and "n \<le> 8" and "x < 256 ^ i"
  shows "le_ReadUintN_from (of_nat n) (of_nat i) (of_nat x) r =
     rbind (ReadBytes (n - i) r) (\<lambda>bs r. Inr (of_nat (x + 256 ^ i * be_nat (rev bs)), r))"
  using assms
proof (induction "n - i" arbitrary: i x r)
  case 0
  then show ?case by (subst le_ReadUintN_from.simps) (simp add: ReadBytes_0)
next
  case (Suc k)
  then have i: "i < n" and k: "n - i = Suc k" "k = n - Suc i" by auto
  have lt: "(of_nat i :: byte) < of_nat n"
    using i Suc.prems by (simp add: word_less_nat_alt unat_of_nat)
  have sh: "unat (of_nat i * 8 :: byte) = 8 * i"
    using i Suc.prems by (simp add: unat_word_ariths unat_of_nat mult.commute)
  show ?case
  proof (cases r)
    case (Cons b r')
    have small: "x + unat b * 256 ^ i < 256 ^ Suc i"
    proof -
      have "unat b * 256 ^ i \<le> 255 * 256 ^ i" by (intro mult_right_mono) auto
      with Suc.prems(3) show ?thesis unfolding power_Suc by linarith
    qed
    have "le_ReadUintN_from (of_nat n) (of_nat i) (of_nat x) r =
        le_ReadUintN_from (of_nat n) (of_nat (Suc i)) (of_nat (x + unat b * 256 ^ i)) r'"
      using lt Suc.prems
      by (simp only: le_ReadUintN_from.simps [of "of_nat n" "of_nat i"] Cons ReadByte_simps rbind_simps
            if_True sh xor_byte_below of_nat_Suc add.commute)
    also have "\<dots> = rbind (ReadBytes k r')
        (\<lambda>bs r. Inr (of_nat (x + unat b * 256 ^ i + 256 ^ Suc i * be_nat (rev bs)), r))"
      using Suc.hyps(1) [OF k(2), of "x + unat b * 256 ^ i" r'] small i Suc.prems k by simp
    finally show ?thesis
      by (simp add: k(1) Cons ReadBytes_Suc rbind_assoc be_nat_append algebra_simps)
  qed (use lt k in \<open>simp add: le_ReadUintN_from.simps [of "of_nat n"] ReadBytes_Suc\<close>)
qed

lemma le_ReadUintN_eq:
  assumes "n \<le> 8"
  shows "le_ReadUintN n r = rbind (ReadBytes (unat n) r) (\<lambda>bs r. Inr (of_nat (be_nat (rev bs)), r))"
  using le_ReadUintN_from_eq [of 0 "unat n" 0 r] assms
  by (simp add: le_ReadUintN_def word_le_nat_alt)

subsection \<open>The interface \<open>ByteOrder\<close>\<close>

text \<open>
  The methods of the Go interface that the frame codecs use and what they rely on: each writer is
  undone by the reader of the same width, a short input is \<open>EOF\<close>, and \<open>ReadUintN\<close> generalises the
  fixed-width readers.
\<close>

locale byte_order =
  fixes ReadUintN :: "byte \<Rightarrow> uint64 reader"
    and ReadUint64 :: "uint64 reader" and ReadUint32 :: "uint32 reader" and ReadUint16 :: "uint16 reader"
    and WriteUint64 :: "uint64 \<Rightarrow> byte list" and WriteUint32 :: "uint32 \<Rightarrow> byte list"
    and WriteUint16 :: "uint16 \<Rightarrow> byte list"
  assumes ReadUint64_Write: "ReadUint64 (WriteUint64 v @ r) = Inr (v, r)"
    and ReadUint32_Write: "ReadUint32 (WriteUint32 w @ r) = Inr (w, r)"
    and ReadUint16_Write: "ReadUint16 (WriteUint16 x @ r) = Inr (x, r)"
    and ReadUint16_short: "length r < 2 \<Longrightarrow> ReadUint16 r = Inl EOF"
    and ReadUint64_N: "ReadUintN 8 r = ReadUint64 r"
    and ReadUint32_N: "ReadUintN 4 r = rbind (ReadUint32 r) (\<lambda>v r. Inr (u64 v, r))"
    and ReadUint16_N: "ReadUintN 2 r = rbind (ReadUint16 r) (\<lambda>v r. Inr (u64 v, r))"
begin

lemma ReadUintN_Write:
  "ReadUintN 8 (WriteUint64 v @ r) = Inr (v, r)"
  "ReadUintN 4 (WriteUint32 w @ r) = Inr (u64 w, r)"
  "ReadUintN 2 (WriteUint16 x @ r) = Inr (u64 x, r)"
  by (simp_all add: ReadUint64_N ReadUint32_N ReadUint16_N ReadUint64_Write ReadUint32_Write ReadUint16_Write)

lemma WriteUint64_inj: "WriteUint64 v = WriteUint64 v' \<Longrightarrow> v = v'"
  by (metis ReadUint64_Write Inr_inject prod.inject)

lemma WriteUint32_inj: "WriteUint32 w = WriteUint32 w' \<Longrightarrow> w = w'"
  by (metis ReadUint32_Write Inr_inject prod.inject)

lemma WriteUint16_inj: "WriteUint16 x = WriteUint16 x' \<Longrightarrow> x = x'"
  by (metis ReadUint16_Write Inr_inject prod.inject)

end

lemma u64_of_nat_be: "length bs \<le> 4 \<Longrightarrow> u64 (of_nat (be_nat bs) :: uint32) = of_nat (be_nat bs)"
proof -
  assume "length bs \<le> 4"
  then have "(256::nat) ^ length bs \<le> 256 ^ 4" by (intro power_increasing) auto
  with be_nat_less [of bs] have "be_nat bs < 2 ^ 32" by simp
  then show ?thesis
    by (simp add: word_unat_eq_iff unsigned_ucast_eq unat_of_nat take_bit_nat_eq_self)
qed

lemma u64_of_nat_be16: "length bs \<le> 2 \<Longrightarrow> u64 (of_nat (be_nat bs) :: uint16) = of_nat (be_nat bs)"
proof -
  assume "length bs \<le> 2"
  then have "(256::nat) ^ length bs \<le> 256 ^ 2" by (intro power_increasing) auto
  with be_nat_less [of bs] have "be_nat bs < 2 ^ 16" by simp
  then show ?thesis
    by (simp add: word_unat_eq_iff unsigned_ucast_eq unat_of_nat take_bit_nat_eq_self)
qed

lemma unat_mod_width:
  "unat (v :: uint64) mod 18446744073709551616 = unat v"
  "unat (w :: uint32) mod 4294967296 = unat w"
  "unat (x :: uint16) mod 65536 = unat x"
  using unsigned_less [of v, where 'a = nat] unsigned_less [of w, where 'a = nat]
    unsigned_less [of x, where 'a = nat] by simp_all

lemmas be_codec = be_WriteUint64_bytes be_WriteUint32_bytes be_WriteUint16_bytes
  be_ReadUint64_eq be_ReadUint32_eq be_ReadUint16_eq be_ReadUintN_eq ReadBytes_append unat_mod_width

lemmas le_codec = le_WriteUint64_bytes le_WriteUint32_bytes le_WriteUint16_bytes
  le_ReadUint64_eq le_ReadUint32_eq le_ReadUint16_eq le_ReadUintN_eq ReadBytes_append unat_mod_width

lemma ReadBytes_rbind_cong:
  "(\<And>bs r'. length bs = n \<Longrightarrow> f bs r' = g bs r') \<Longrightarrow> rbind (ReadBytes n r) f = rbind (ReadBytes n r) g"
  by (simp add: ReadBytes_def)

interpretation BigEndian: byte_order be_ReadUintN be_ReadUint64 be_ReadUint32 be_ReadUint16
    be_WriteUint64 be_WriteUint32 be_WriteUint16
  by unfold_locales
    (auto simp: be_codec rbind_assoc u64_of_nat_be u64_of_nat_be16 ReadBytes_def)

interpretation LittleEndian: byte_order le_ReadUintN le_ReadUint64 le_ReadUint32 le_ReadUint16
    le_WriteUint64 le_WriteUint32 le_WriteUint16
  by unfold_locales
    (auto simp: le_codec rbind_assoc u64_of_nat_be u64_of_nat_be16 ReadBytes_def)

lemmas be_roundtrip [codec] = BigEndian.ReadUint64_Write BigEndian.ReadUint32_Write
  BigEndian.ReadUint16_Write
lemmas le_roundtrip [codec] = LittleEndian.ReadUint64_Write LittleEndian.ReadUint32_Write
  LittleEndian.ReadUint16_Write

lemma length_be_Write [simp, sizes]:
  "length (be_WriteUint64 v) = 8" "length (be_WriteUint32 w) = 4" "length (be_WriteUint16 x) = 2"
  by (simp_all add: be_codec)

lemma length_le_Write [simp, sizes]:
  "length (le_WriteUint64 v) = 8" "length (le_WriteUint32 w) = 4" "length (le_WriteUint16 x) = 2"
  by (simp_all add: le_codec)

text \<open>The widths in between: what \<open>WriteUint24\<close> to \<open>WriteUint56\<close> write, \<open>ReadUintN\<close> reads.\<close>

lemma be_ReadUintN_be_bytes [codec]:
  assumes "n \<le> 8" and "unat v < 256 ^ unat n" and "m = unat n"
  shows "be_ReadUintN n (be_bytes m (unat v) @ r) = Inr (v, r)"
  using assms by (simp add: be_ReadUintN_eq ReadBytes_append)

text \<open>Truncating a number to a width writes its low bytes.\<close>

lemma low_bytes:
  "be_WriteUint16 (u16 w) = be_bytes 2 (unat (w :: uint64))"
  "be_WriteUint32 (u32 w) = be_bytes 4 (unat w)"
  "be_WriteUint48 (w AND (shl 1 48 - 1)) = Inr (be_bytes 6 (unat w))"
proof -
  have low: "unat (u16 w) = unat w mod 256 ^ 2" "unat (u32 w) = unat w mod 256 ^ 4"
    by (simp only: unsigned_ucast_eq take_bit_eq_mod, simp)+
  show "be_WriteUint16 (u16 w) = be_bytes 2 (unat w)"
    unfolding be_WriteUint16_bytes low by (rule be_bytes_mod)
  show "be_WriteUint32 (u32 w) = be_bytes 4 (unat w)"
    unfolding be_WriteUint32_bytes low by (rule be_bytes_mod)
  have w48: "w AND (shl 1 48 - 1) = take_bit 48 w"
    by (simp add: take_bit_eq_mask mask_eq_exp_minus_1 push_bit_eq_mult)
  have "take_bit 48 w < shl 1 48"
    by (simp only: word_less_nat_alt unsigned_take_bit_eq push_bit_eq_mult) (simp add: take_bit_eq_mod)
  moreover have "unat (take_bit 48 w) = unat w mod 256 ^ 6"
    by (simp only: unsigned_take_bit_eq) (simp add: take_bit_eq_mod)
  ultimately show "be_WriteUint48 (w AND (shl 1 48 - 1)) = Inr (be_bytes 6 (unat w))"
    unfolding w48 by (simp only: be_WriteUint48_bytes be_bytes_mod)
qed

end
