(* ===== verification/Protocol.thy ===== *)
theory Protocol
  imports Byte_Order
begin

unbundle bit_operations_syntax

section \<open>Protocol types: packet numbers, stream identifiers, versions\<close>

text \<open>
  \<open>internal/protocol\<close>: the integer types of QUIC, the truncation and reconstruction of packet
  numbers (\<open>packet_number.go\<close>), the highest stream identifier a peer may open (\<open>stream_id.go\<close>), and
  version numbers with their selection and greasing (\<open>version.go\<close>). Random bytes are an argument.
\<close>

type_synonym PacketNumber = uint64
type_synonym PacketNumberLen = byte
type_synonym StreamID = uint64
type_synonym ByteCount = uint64
type_synonym ConnectionID = uint64
type_synonym VersionNumber = uint32

datatype Perspective = PerspectiveServer | PerspectiveClient

datatype EncryptionLevel =
  EncryptionUnspecified | EncryptionUnencrypted | EncryptionSecure | EncryptionForwardSecure

abbreviation (input) PacketNumberLenInvalid :: PacketNumberLen where "PacketNumberLenInvalid \<equiv> 0"
abbreviation (input) PacketNumberLen1 :: PacketNumberLen where "PacketNumberLen1 \<equiv> 1"
abbreviation (input) PacketNumberLen2 :: PacketNumberLen where "PacketNumberLen2 \<equiv> 2"
abbreviation (input) PacketNumberLen4 :: PacketNumberLen where "PacketNumberLen4 \<equiv> 4"
abbreviation (input) PacketNumberLen6 :: PacketNumberLen where "PacketNumberLen6 \<equiv> 6"

definition MaxByteCount :: ByteCount where "MaxByteCount = shl 1 62 - 1"

subsection \<open>Packet numbers\<close>

definition delta :: "PacketNumber \<Rightarrow> PacketNumber \<Rightarrow> PacketNumber" where
  "delta a b = (if a < b then b - a else a - b)"

definition closestTo :: "PacketNumber \<Rightarrow> PacketNumber \<Rightarrow> PacketNumber \<Rightarrow> PacketNumber" where
  "closestTo target a b = (if delta target a < delta target b then a else b)"

definition InferPacketNumber ::
    "PacketNumberLen \<Rightarrow> PacketNumber \<Rightarrow> PacketNumber \<Rightarrow> PacketNumber" where
  "InferPacketNumber packetNumberLength lastPacketNumber wirePacketNumber =
     (let epochDelta = shl 1 (unat (packetNumberLength * 8));
          epoch = lastPacketNumber AND NOT (epochDelta - 1);
          prevEpochBegin = epoch - epochDelta;
          nextEpochBegin = epoch + epochDelta
      in closestTo (lastPacketNumber + 1) (epoch + wirePacketNumber)
           (closestTo (lastPacketNumber + 1) (prevEpochBegin + wirePacketNumber)
              (nextEpochBegin + wirePacketNumber)))"

definition GetPacketNumberLengthForHeader :: "PacketNumber \<Rightarrow> PacketNumber \<Rightarrow> PacketNumberLen" where
  "GetPacketNumberLengthForHeader packetNumber leastUnacked =
     (let diff = packetNumber - leastUnacked
      in if diff < shl 1 15 then PacketNumberLen2 else PacketNumberLen4)"

definition GetPacketNumberLength :: "PacketNumber \<Rightarrow> PacketNumberLen" where
  "GetPacketNumberLength packetNumber =
     (if packetNumber < shl 1 8 then PacketNumberLen1
      else if packetNumber < shl 1 16 then PacketNumberLen2
      else if packetNumber < shl 1 32 then PacketNumberLen4
      else PacketNumberLen6)"

text \<open>The candidates lie in three consecutive epochs; the closest one to the expected number wins.\<close>

lemma unat_delta:
  "unat (delta a b) = (if unat a < unat b then unat b - unat a else unat a - unat b)"
  by (auto simp: delta_def unat_sub_if' word_less_nat_alt)

lemma closestTo_cases: "closestTo t a b = a \<or> closestTo t a b = b"
  by (simp add: closestTo_def)

lemma closestTo_unique:
  assumes "a = p \<or> b = p" and "\<And>c. c \<in> {a, b} \<Longrightarrow> c \<noteq> p \<Longrightarrow> unat (delta t p) < unat (delta t c)"
  shows "closestTo t a b = p"
proof (cases "unat (delta t a) < unat (delta t b)")
  case True
  then have "closestTo t a b = a" by (simp add: closestTo_def word_less_nat_alt)
  moreover have "a = p" using assms(1) assms(2) [of a] True by force
  ultimately show ?thesis by simp
next
  case False
  then have "closestTo t a b = b" by (simp add: closestTo_def word_less_nat_alt)
  moreover have "b = p" using assms(1) assms(2) [of b] False by force
  ultimately show ?thesis by simp
qed

lemma epoch_of:
  assumes "k < 64"
  shows "unat (n AND NOT (shl 1 k - 1) :: uint64) = unat n div 2 ^ k * 2 ^ k"
proof -
  have "shl 1 k - 1 = (mask k :: uint64)" by (simp add: mask_eq_exp_minus_1 push_bit_eq_mult)
  then have "n AND NOT (shl 1 k - 1) = shl (shr n k) k"
    by (simp only:) (rule bit_eqI, auto simp: bit_simps dest: bit_imp_le_length)
  also have "unat \<dots> = unat (shr n k) * 2 ^ k"
  proof -
    have "unat (shr n k) * 2 ^ k \<le> unat n" by (simp only: unat_shr div_times_less_eq_dividend)
    then have "unat (shr n k) * 2 ^ k < 2 ^ 64" using unsigned_less [of n, where 'a = nat] by simp
    then show ?thesis
      by (simp only: unsigned_push_bit_eq push_bit_eq_mult [of _ "unat _"]) (simp add: take_bit_nat_eq_self)
  qed
  finally show ?thesis by (simp only: unat_shr)
qed

lemma multiple_apart:
  fixes p q D :: nat
  assumes "p mod D = q mod D" "p \<noteq> q"
  shows "D \<le> (if p < q then q - p else p - q)"
proof -
  have *: "D \<le> q - p" if "p < q" "p mod D = q mod D" for p q :: nat
  proof -
    have "D dvd q - p" using that by (metis mod_eq_dvd_iff_nat less_imp_le)
    then show ?thesis using that by (simp add: dvd_imp_le)
  qed
  from assms * [of p q] * [of q p] show ?thesis by auto
qed

lemma delta_farther:
  assumes "unat c mod D = unat p mod D" "c \<noteq> p" "2 * unat (delta t p) < D"
  shows "unat (delta t p) < unat (delta t c)"
proof -
  have "unat c \<noteq> unat p" using assms(2) by (simp add: word_unat_eq_iff)
  from multiple_apart [OF assms(1) this] show ?thesis
    using assms(3) unfolding unat_delta by (auto split: if_splits)
qed

lemma mod_pow2_width: "k \<le> 64 \<Longrightarrow> unat (a + b :: uint64) mod 2 ^ k = (unat a + unat b) mod 2 ^ k"
proof -
  assume "k \<le> 64"
  then have "(2 :: nat) ^ k dvd 2 ^ LENGTH(64)" by (simp add: le_imp_power_dvd del: power_numeral)
  then show ?thesis by (simp only: unat_word_ariths mod_mod_cancel)
qed

lemma infer_k:
  assumes k: "0 < k" "k \<le> 48" and l: "unat lst < 2 ^ 62" and p: "unat p < 2 ^ 62"
    and near: "2 * unat (delta (lst + 1) p) < 2 ^ k"
  defines "epoch \<equiv> lst AND NOT (shl 1 k - 1)"
  defines "A \<equiv> epoch + take_bit k p" and "P \<equiv> epoch - shl 1 k + take_bit k p"
    and "N \<equiv> epoch + shl 1 k + take_bit k p"
  shows "closestTo (lst + 1) A (closestTo (lst + 1) P N) = p"
proof -
  define D where "D = (2 :: nat) ^ k"
  define q where "q = unat lst div D"
  define w where "w = unat p mod D"
  have D: "0 < D" "2 \<le> D" "D \<le> 2 ^ 48"
    using k power_increasing [of k 48 "2 :: nat"] power_increasing [of 1 k "2 :: nat"]
    by (auto simp: D_def)
  have e: "unat epoch = q * D" unfolding epoch_def q_def D_def using k by (intro epoch_of) simp
  have d: "unat (shl 1 k :: uint64) = D"
    using k D by (simp add: push_bit_eq_mult D_def unat_p2)
  have tw: "unat (take_bit k p) = w"
    unfolding w_def D_def by (simp only: unsigned_take_bit_eq) (simp only: take_bit_eq_mod)
  have w: "w < D" using D by (simp add: w_def)
  have qD: "q * D \<le> unat lst" by (simp add: q_def)
  have t: "unat (lst + 1) = unat lst + 1" using l by (simp add: unat_word_ariths)
  have cong: "unat c mod D = unat p mod D" if "c \<in> {A, P, N}" for c
  proof -
    have width: "unat (x + y :: uint64) mod D = (unat x + unat y) mod D" for x y
      using k mod_pow2_width [of k x y] by (simp add: D_def)
    have "unat (epoch - shl 1 k + shl 1 k) mod D = (unat (epoch - shl 1 k) + unat (shl 1 k :: uint64)) mod D"
      by (rule width)
    then have "unat (epoch - shl 1 k) mod D = 0" unfolding d by (simp add: e)
    moreover have "unat (epoch + shl 1 k) mod D = 0" by (simp only: width d e) simp
    moreover have "unat epoch mod D = 0" by (simp add: e)
    moreover have "unat (x + take_bit k p) mod D = w" if "unat x mod D = 0" for x
      unfolding width tw using that w by (simp add: mod_add_eq [symmetric])
    ultimately show ?thesis using that unfolding A_def P_def N_def w_def by auto
  qed
  have A: "unat A = q * D + w" using e tw qD w D l by (simp add: A_def unat_word_ariths)
  have N: "unat N = q * D + D + w" using e d tw qD w D l by (simp add: N_def unat_word_ariths)
  have P: "unat P = (q - 1) * D + w" if "1 \<le> q"
  proof -
    have "D \<le> q * D" using that by simp
    then have "unat (epoch - shl 1 k) = q * D - D" unfolding unat_sub_if' e d by simp
    then show ?thesis using tw qD w D l by (simp add: P_def unat_word_ariths diff_mult_distrib)
  qed
  have pq: "unat p = unat p div D * D + w" unfolding w_def by (rule div_mult_mod_eq [symmetric])
  have "unat p div D = q \<or> unat p div D = q + 1 \<or> (1 \<le> q \<and> unat p div D = q - 1)"
  proof -
    have lq: "unat lst < q * D + D" using D mod_less_divisor [of D "unat lst"] div_mult_mod_eq [of "unat lst" D]
      unfolding q_def by linarith
    have n: "unat p < unat lst + 1 + D" "unat lst + 1 < unat p + D"
      using near t unfolding unat_delta D_def [symmetric] by (auto split: if_splits)
    have "unat p < (q + 2) * D" using n lq by (simp add: algebra_simps)
    moreover have "q * D < unat p + D" using n qD by simp
    ultimately have "unat p div D < q + 2" "q * D < (unat p div D + 2) * D"
      using D pq w by (auto simp: less_mult_imp_div_less)
    then have "q < unat p div D + 2" by (simp only: mult_less_cancel2)
    then show ?thesis using \<open>unat p div D < q + 2\<close> by linarith
  qed
  then have "p \<in> {A, N, P}"
    using A N P pq by (auto simp: word_unat_eq_iff)
  moreover have far: "unat (delta (lst + 1) p) < unat (delta (lst + 1) c)"
    if "c \<in> {A, P, N}" "c \<noteq> p" for c
    using delta_farther [OF cong [OF that(1)] that(2)] near by (simp add: D_def)
  ultimately consider "p = A" | "p = P \<or> p = N" by blast
  then show ?thesis
  proof cases
    case 1
    have "closestTo (lst + 1) P N \<in> {A, P, N}" using closestTo_cases [of "lst + 1" P N] by auto
    then show ?thesis using 1 far by (intro closestTo_unique) auto
  next
    case 2
    then have "closestTo (lst + 1) P N = p" using far by (intro closestTo_unique) auto
    then show ?thesis using far by (intro closestTo_unique) auto
  qed
qed

text \<open>
  The number that travels in a header is the low part of the packet number, as the big-endian write
  of \<open>n\<close> bytes leaves it.
\<close>

definition wire_number :: "PacketNumberLen \<Rightarrow> PacketNumber \<Rightarrow> PacketNumber" where
  "wire_number n p = take_bit (unat n * 8) p"

lemma InferPacketNumber_correct:
  assumes "n \<in> {PacketNumberLen1, PacketNumberLen2, PacketNumberLen4, PacketNumberLen6}"
    and "unat lst < 2 ^ 62" and "unat p < 2 ^ 62"
    and "2 * unat (delta (lst + 1) p) < 256 ^ unat n"
  shows "InferPacketNumber n lst (wire_number n p) = p"
proof -
  have n: "unat (n * 8) = unat n * 8" "0 < unat n" "unat n * 8 \<le> 48" using assms(1) by auto
  have "(256 :: nat) ^ unat n = 2 ^ (unat n * 8)"
    by (simp add: mult.commute [of _ 8] power_mult)
  then show ?thesis
    using infer_k [of "unat n * 8" lst p] assms(2-) n
    by (simp add: InferPacketNumber_def wire_number_def Let_def)
qed

lemma GetPacketNumberLength_fits:
  "unat p < 2 ^ 48 \<Longrightarrow> unat p < 256 ^ unat (GetPacketNumberLength p)"
  by (simp add: GetPacketNumberLength_def word_less_nat_alt push_bit_eq_mult)

lemma GetPacketNumberLength_minimal:
  "n \<in> {PacketNumberLen1, PacketNumberLen2, PacketNumberLen4, PacketNumberLen6} \<Longrightarrow>
   unat p < 256 ^ unat n \<Longrightarrow> GetPacketNumberLength p \<le> n"
  by (auto simp: GetPacketNumberLength_def word_less_nat_alt word_le_nat_alt push_bit_eq_mult)

lemma GetPacketNumberLengthForHeader_enough:
  assumes "leastUnacked \<le> p" and "p - leastUnacked < shl 1 31"
  shows "2 * unat (p - leastUnacked) < 256 ^ unat (GetPacketNumberLengthForHeader p leastUnacked)"
    and "GetPacketNumberLengthForHeader p leastUnacked \<in> {PacketNumberLen2, PacketNumberLen4}"
  using assms by (auto simp: GetPacketNumberLengthForHeader_def Let_def word_less_nat_alt push_bit_eq_mult)

subsection \<open>Stream identifiers\<close>

definition MaxBidiStreamID :: "int \<Rightarrow> Perspective \<Rightarrow> StreamID" where
  "MaxBidiStreamID numStreams pers =
     (if numStreams = 0 then 0
      else (if pers = PerspectiveClient then 1 else 4) + 4 * word_of_int (numStreams - 1))"

definition MaxUniStreamID :: "int \<Rightarrow> Perspective \<Rightarrow> StreamID" where
  "MaxUniStreamID numStreams pers =
     (if numStreams = 0 then 0
      else (if pers = PerspectiveClient then 3 else 2) + 4 * word_of_int (numStreams - 1))"

subsection \<open>Versions\<close>

definition gquicVersion0 :: uint32 where "gquicVersion0 = 0x51303030"
definition maxGquicVersion :: uint32 where "maxGquicVersion = 0x51303439"
definition Version39 :: VersionNumber where "Version39 = gquicVersion0 + 3 * 0x100 + 0x9 + 0"
definition VersionTLS :: VersionNumber where "VersionTLS = 101"
definition VersionWhatever :: VersionNumber where "VersionWhatever = 0"
definition VersionUnknown :: VersionNumber where "VersionUnknown = 0xffffffff"

definition SupportedVersions :: "VersionNumber list" where "SupportedVersions = [Version39]"

lemmas version_defs = gquicVersion0_def maxGquicVersion_def Version39_def VersionTLS_def
  VersionWhatever_def VersionUnknown_def SupportedVersions_def

fun IsSupportedVersion :: "VersionNumber list \<Rightarrow> VersionNumber \<Rightarrow> bool" where
  "IsSupportedVersion [] v = False"
| "IsSupportedVersion (t # supported) v = (if t = v then True else IsSupportedVersion supported v)"

definition IsValidVersion :: "VersionNumber \<Rightarrow> bool" where
  "IsValidVersion v \<longleftrightarrow> v = VersionTLS \<or> IsSupportedVersion SupportedVersions v"

definition UsesTLS :: "VersionNumber \<Rightarrow> bool" where "UsesTLS vn \<longleftrightarrow> vn = VersionTLS"

definition isGQUIC :: "VersionNumber \<Rightarrow> bool" where
  "isGQUIC vn \<longleftrightarrow> vn > gquicVersion0 \<and> vn \<le> maxGquicVersion"

definition toGQUICVersion :: "VersionNumber \<Rightarrow> int" where
  "toGQUICVersion vn = uint ((10 * (vn - gquicVersion0)) div 0x100) + uint (vn mod 0x10)"

definition CryptoStreamID :: "VersionNumber \<Rightarrow> StreamID" where
  "CryptoStreamID vn = (if isGQUIC vn then 1 else 0)"

definition UsesIETFFrameFormat :: "VersionNumber \<Rightarrow> bool" where
  "UsesIETFFrameFormat vn \<longleftrightarrow> vn \<noteq> Version39"

definition UsesStopWaitingFrames :: "VersionNumber \<Rightarrow> bool" where
  "UsesStopWaitingFrames vn \<longleftrightarrow> vn = Version39"

definition StreamContributesToConnectionFlowControl :: "VersionNumber \<Rightarrow> StreamID \<Rightarrow> bool" where
  "StreamContributesToConnectionFlowControl vn sid =
     (if sid = CryptoStreamID vn then False
      else if isGQUIC vn \<and> sid = 3 then False
      else True)"

fun findVersion :: "VersionNumber \<Rightarrow> VersionNumber list \<Rightarrow> bool" where
  "findVersion ourVer [] = False"
| "findVersion ourVer (theirVer # theirs) = (if ourVer = theirVer then True else findVersion ourVer theirs)"

fun ChooseSupportedVersion :: "VersionNumber list \<Rightarrow> VersionNumber list \<Rightarrow> VersionNumber \<times> bool" where
  "ChooseSupportedVersion [] theirs = (0, False)"
| "ChooseSupportedVersion (ourVer # ours) theirs =
     (if findVersion ourVer theirs then (ourVer, True) else ChooseSupportedVersion ours theirs)"

text \<open>\<open>rnd\<close> holds the four, respectively one, random bytes of the two greasing functions.\<close>

definition generateReservedVersion :: "uint32 \<Rightarrow> VersionNumber" where
  "generateReservedVersion rnd = (rnd OR 0x0a0a0a0a) AND 0xfafafafa"

definition GetGreasedVersions :: "byte \<Rightarrow> uint32 \<Rightarrow> VersionNumber list \<Rightarrow> VersionNumber list" where
  "GetGreasedVersions rndPos rnd supported =
     (let randPos = unat rndPos mod (length supported + 1)
      in take randPos supported @ [generateReservedVersion rnd] @ drop randPos supported)"

lemma IsSupportedVersion_iff [simp]: "IsSupportedVersion vs v \<longleftrightarrow> v \<in> set vs"
  by (induction vs) auto

lemma findVersion_iff [simp]: "findVersion v vs \<longleftrightarrow> v \<in> set vs"
  by (induction vs) auto

text \<open>The choice is the first of our versions that the peer offers, whatever the order of its offer.\<close>

lemma ChooseSupportedVersion_eq:
  "ChooseSupportedVersion ours theirs =
     (case find (\<lambda>v. v \<in> set theirs) ours of None \<Rightarrow> (0, False) | Some v \<Rightarrow> (v, True))"
  by (induction ours) auto

lemma reserved_pattern: "generateReservedVersion rnd AND 0x0f0f0f0f = 0x0a0a0a0a"
proof -
  have m: "(0xfafafafa :: uint32) AND 0x0f0f0f0f = 0x0a0a0a0a" "(0x0a0a0a0a :: uint32) AND 0x0a0a0a0a = 0x0a0a0a0a"
    by simp_all
  have "generateReservedVersion rnd AND 0x0f0f0f0f = (rnd OR 0x0a0a0a0a) AND (0xfafafafa AND 0x0f0f0f0f)"
    unfolding generateReservedVersion_def by (simp only: and.assoc)
  also have "\<dots> = (rnd OR 0x0a0a0a0a) AND 0x0a0a0a0a" by (simp only: m)
  also have "\<dots> = 0x0a0a0a0a" by (rule bit_eqI) (auto simp: bit_simps)
  finally show ?thesis .
qed

lemma set_GetGreasedVersions:
  "set (GetGreasedVersions p rnd vs) = insert (generateReservedVersion rnd) (set vs)"
proof -
  have "set (take k vs) \<union> set (drop k vs) = set vs" for k
    by (metis append_take_drop_id set_append)
  then show ?thesis by (auto simp: GetGreasedVersions_def Let_def)
qed

lemma supported_not_reserved: "v \<in> set SupportedVersions \<Longrightarrow> v AND 0x0f0f0f0f \<noteq> 0x0a0a0a0a"
  by (simp add: version_defs)

lemma Choose_greased:
  assumes "\<forall>v\<in>set ours. v AND 0x0f0f0f0f \<noteq> 0x0a0a0a0a"
  shows "ChooseSupportedVersion ours (GetGreasedVersions p rnd theirs) = ChooseSupportedVersion ours theirs"
proof -
  have "(v \<in> set (GetGreasedVersions p rnd theirs)) = (v \<in> set theirs)" if "v \<in> set ours" for v
    using that assms reserved_pattern [of rnd] by (auto simp: set_GetGreasedVersions)
  then have "find (\<lambda>v. v \<in> set (GetGreasedVersions p rnd theirs)) ours = find (\<lambda>v. v \<in> set theirs) ours"
    by (intro find_cong) auto
  then show ?thesis by (simp add: ChooseSupportedVersion_eq)
qed

subsection \<open>Properties\<close>

text \<open>A packet number sent with the length that the sender chose for it is reconstructed by the
  receiver, as long as the receiver's largest packet number is not older than the sender's least
  unacknowledged packet and not ahead of the packet by more than the same distance.\<close>

theorem packet_number_reconstructed:
  assumes "unat p < 2 ^ 62" and "unat largest < 2 ^ 62"
    and "leastUnacked \<le> p" and "p - leastUnacked < shl 1 31"
    and "leastUnacked \<le> largest + 1" and "unat largest + 1 < unat p + 2 ^ 15"
  shows "InferPacketNumber (GetPacketNumberLengthForHeader p leastUnacked) largest
           (wire_number (GetPacketNumberLengthForHeader p leastUnacked) p) = p"
proof (rule InferPacketNumber_correct [OF _ assms(2,1)])
  define n where "n = GetPacketNumberLengthForHeader p leastUnacked"
  note len = GetPacketNumberLengthForHeader_enough [OF assms(3,4), folded n_def]
  show "n \<in> {PacketNumberLen1, PacketNumberLen2, PacketNumberLen4, PacketNumberLen6}"
    using len(2) by auto
  have t: "unat (largest + 1) = unat largest + 1" using assms(2) by (simp add: unat_word_ariths)
  have p: "unat (p - leastUnacked) = unat p - unat leastUnacked"
    using assms(3) by (simp add: unat_sub_if' word_le_nat_alt)
  have two: "2 * 2 ^ 15 \<le> (256 :: nat) ^ unat n" using len(2) by auto
  have lu: "unat leastUnacked \<le> unat largest + 1" using assms(5) t by (simp add: word_le_nat_alt)
  show "2 * unat (delta (largest + 1) p) < 256 ^ unat n"
  proof (cases "unat largest + 1 < unat p")
    case True
    then have "unat (delta (largest + 1) p) \<le> unat (p - leastUnacked)" using lu p t by (simp add: unat_delta)
    then show ?thesis using len(1) by linarith
  next
    case False
    then have "unat (delta (largest + 1) p) < 2 ^ 15" using assms(6) t by (simp add: unat_delta)
    then show ?thesis using two by linarith
  qed
qed

theorem packet_number_reconstructed_witness:
  "InferPacketNumber (GetPacketNumberLengthForHeader 0x2fffe 0x2fff0) 0x30002
     (wire_number (GetPacketNumberLengthForHeader 0x2fffe 0x2fff0) 0x2fffe) = 0x2fffe"
  by (rule packet_number_reconstructed) (simp_all add: push_bit_eq_mult)

text \<open>The version chosen is the first of ours that the peer offers, and a reserved version greased
  into the offer, at any position, never changes the choice.\<close>

theorem version_choice:
  assumes "\<forall>v \<in> set ours. v AND 0x0f0f0f0f \<noteq> 0x0a0a0a0a"
  shows "ChooseSupportedVersion ours (GetGreasedVersions rndPos rnd theirs)
           = (case find (\<lambda>v. v \<in> set theirs) ours of None \<Rightarrow> (0, False) | Some v \<Rightarrow> (v, True))
       \<and> length (GetGreasedVersions rndPos rnd theirs) = length theirs + 1"
proof
  show "ChooseSupportedVersion ours (GetGreasedVersions rndPos rnd theirs)
           = (case find (\<lambda>v. v \<in> set theirs) ours of None \<Rightarrow> (0, False) | Some v \<Rightarrow> (v, True))"
    unfolding Choose_greased [OF assms] by (rule ChooseSupportedVersion_eq)
  have "unat rndPos mod (length theirs + 1) \<le> length theirs"
    using mod_less_divisor [of "length theirs + 1" "unat rndPos"] by linarith
  then show "length (GetGreasedVersions rndPos rnd theirs) = length theirs + 1"
    by (simp add: GetGreasedVersions_def Let_def)
qed

theorem version_choice_witness:
  "ChooseSupportedVersion SupportedVersions (GetGreasedVersions 1 0x12345678 [VersionTLS, Version39])
     = (Version39, True)"
  using version_choice [of SupportedVersions 1 "0x12345678" "[VersionTLS, Version39]"]
  by (simp add: version_defs)

end
