(* ===== verification/Varint.thy ===== *)
theory Varint
  imports Byte_Order
begin

unbundle bit_operations_syntax

section \<open>Variable-length integers\<close>

text \<open>
  \<open>internal/utils/varint.go\<close>: the QUIC variable-length encoding of numbers below \<open>2 ^ 62\<close>. The two
  high bits of the first byte give the logarithm of the length. Writing then reading is the
  identity, reading accepts any encoding and the writer chooses a shortest one, and a number above
  \<open>2 ^ 62 - 1\<close> panics.
\<close>

abbreviation (input) maxVarInt1 :: uint64 where "maxVarInt1 \<equiv> 63"
abbreviation (input) maxVarInt2 :: uint64 where "maxVarInt2 \<equiv> 16383"
abbreviation (input) maxVarInt4 :: uint64 where "maxVarInt4 \<equiv> 1073741823"
abbreviation (input) maxVarInt8 :: uint64 where "maxVarInt8 \<equiv> 4611686018427387903"

definition ReadVarInt :: "uint64 reader" where
  "ReadVarInt r =
     rbind (ReadByte r) (\<lambda>firstByte r.
       let ln = push_bit (unat (shr (firstByte AND 0xc0) 6)) (1 :: nat);
           b1 = firstByte AND (0xff - 0xc0)
       in if ln = 1 then Inr (u64 b1, r)
       else rbind (ReadByte r) (\<lambda>b2 r.
         if ln = 2 then Inr (u64 b2 + shl (u64 b1) 8, r)
       else rbind (ReadByte r) (\<lambda>b3 r.
         rbind (ReadByte r) (\<lambda>b4 r.
         if ln = 4 then Inr (u64 b4 + shl (u64 b3) 8 + shl (u64 b2) 16 + shl (u64 b1) 24, r)
       else rbind (ReadByte r) (\<lambda>b5 r.
         rbind (ReadByte r) (\<lambda>b6 r.
         rbind (ReadByte r) (\<lambda>b7 r.
         rbind (ReadByte r) (\<lambda>b8 r.
           Inr (u64 b8 + shl (u64 b7) 8 + shl (u64 b6) 16 + shl (u64 b5) 24 + shl (u64 b4) 32
                + shl (u64 b3) 40 + shl (u64 b2) 48 + shl (u64 b1) 56, r)))))))))"

definition WriteVarInt :: "uint64 \<Rightarrow> goerr + byte list" where
  "WriteVarInt i =
     (if i \<le> maxVarInt1 then Inr [u8 i]
      else if i \<le> maxVarInt2 then Inr [u8 (shr i 8) OR 0x40, u8 i]
      else if i \<le> maxVarInt4 then Inr [u8 (shr i 24) OR 0x80, u8 (shr i 16), u8 (shr i 8), u8 i]
      else if i \<le> maxVarInt8 then
        Inr [u8 (shr i 56) OR 0xc0, u8 (shr i 48), u8 (shr i 40), u8 (shr i 32),
             u8 (shr i 24), u8 (shr i 16), u8 (shr i 8), u8 i]
      else Inl (Panic ''doesn't fit into 62 bits''))"

definition VarIntLen :: "uint64 \<Rightarrow> goerr + uint64" where
  "VarIntLen i =
     (if i \<le> maxVarInt1 then Inr 1
      else if i \<le> maxVarInt2 then Inr 2
      else if i \<le> maxVarInt4 then Inr 4
      else if i \<le> maxVarInt8 then Inr 8
      else Inl (Panic ''doesn't fit into 62 bits''))"

subsection \<open>The bits of the first byte\<close>

lemma and_3f: "unat ((b :: byte) AND 0x3f) = unat b mod 64"
proof -
  have "b AND 0x3f = take_bit 6 b" by (simp add: take_bit_eq_mask mask_numeral)
  then show ?thesis by (simp add: unat_mod take_bit_eq_mod)
qed

lemma shr_c0: "unat (shr ((b :: byte) AND 0xc0) 6) = unat b div 64"
proof -
  have m: "(0xc0 :: byte) = push_bit 6 (mask 2)" by (simp add: mask_numeral push_bit_eq_mult)
  have "shr (b AND 0xc0) 6 = shr b 6"
    unfolding m by (rule bit_eqI) (auto simp: bit_simps dest: bit_imp_le_length)
  then show ?thesis by (simp only: unat_drop_bit_eq) (simp add: drop_bit_eq_div)
qed

lemma or_tag:
  assumes b: "unat (b :: byte) < 64" and c: "c < 4"
  shows "unat (b OR push_bit 6 (of_nat c)) = unat b + 64 * c"
proof -
  have "take_bit 6 (unat b) = unat b" using b by (simp add: take_bit_nat_eq_self_iff)
  then have "b = take_bit 6 b" by (simp add: word_unat_eq_iff unsigned_take_bit_eq)
  moreover have "take_bit 6 b AND push_bit 6 (of_nat c) = 0"
    by (rule bit_eqI) (auto simp: bit_simps)
  ultimately have "b OR push_bit 6 (of_nat c) = b + push_bit 6 (of_nat c)"
    by (metis disjunctive_add_eq_or)
  moreover have "unat (push_bit 6 (of_nat c) :: byte) = 64 * c"
    using c by (simp add: push_bit_eq_mult unat_word_ariths unat_of_nat)
  ultimately show ?thesis using b c by (simp add: unat_word_ariths)
qed

lemma or_tags:
  assumes "unat (b :: byte) < 64"
  shows "unat (b OR 0x40) = unat b + 64" "unat (b OR 0x80) = unat b + 128" "unat (b OR 0xc0) = unat b + 192"
  using or_tag [OF assms, of 1] or_tag [OF assms, of 2] or_tag [OF assms, of 3]
  by (simp_all add: push_bit_eq_mult)

subsection \<open>Reading\<close>

lemma length_exponent: "unat (b :: byte) div 64 < 4"
  using unsigned_less [of b, where 'a = nat] by (simp add: less_mult_imp_div_less)

lemma ReadVarInt_eq:
  "ReadVarInt r =
     rbind (ReadByte r) (\<lambda>b r.
       let k = 2 ^ (unat b div 64) - 1
       in rbind (ReadBytes k r) (\<lambda>bs r. Inr (of_nat (unat b mod 64 * 256 ^ k + be_nat bs), r)))"
proof (cases r)
  case (Cons b r')
  have low: "u64 (b AND 0x3f) = (of_nat (unat b mod 64) :: uint64)"
    by (metis and_3f of_nat_unat)
  consider "unat b div 64 = 0" | "unat b div 64 = 1" | "unat b div 64 = 2" | "unat b div 64 = 3"
    using length_exponent [of b] by linarith
  moreover have ln: "push_bit (unat (shr (b AND 0xc0) 6)) (1 :: nat) = 2 ^ (unat b div 64)"
    by (simp only: shr_c0 push_bit_eq_mult mult_1)
  have mask: "(0xff - 0xc0 :: byte) = 0x3f" by simp
  ultimately show ?thesis
    unfolding ReadVarInt_def Cons ReadByte_simps rbind_simps ln Let_def mask
    by cases (simp_all add: low push_bit_eq_mult ReadBytes_unfold ac_simps)
qed (simp add: ReadVarInt_def)

subsection \<open>Writing\<close>

lemma varint_shape:
  assumes "i \<le> maxVarInt8"
  obtains c b bs where "c < 4" and "WriteVarInt i = Inr (b # bs)" and "length bs = 2 ^ c - 1"
    and "unat b = 64 * c + unat i div 256 ^ (2 ^ c - 1)" and "unat i div 256 ^ (2 ^ c - 1) < 64"
    and "be_nat bs = unat i mod 256 ^ (2 ^ c - 1)" and "VarIntLen i = Inr (2 ^ c)"
proof -
  note le = word_le_nat_alt
  have small: "unat (u8 (shr i (8 * k))) = unat i div 256 ^ k" if "unat i div 256 ^ k < 64" for k
    using that by (simp add: u8_shr unat_of_nat power_mult)
  have bytes: "[u8 (shr i 48), u8 (shr i 40), u8 (shr i 32), u8 (shr i 24), u8 (shr i 16), u8 (shr i 8), u8 i]
      = be_bytes 7 (unat i)"
    "[u8 (shr i 16), u8 (shr i 8), u8 i] = be_bytes 3 (unat i)" "be_nat [u8 i] = unat i mod 256"
    by (simp_all add: word_bytes unsigned_ucast_eq take_bit_eq_mod)
  consider "unat i \<le> 63" | "63 < unat i" "unat i \<le> 16383" | "16383 < unat i" "unat i \<le> 1073741823"
    | "1073741823 < unat i" by linarith
  then show thesis
  proof cases
    case 1
    then show ?thesis
      by (intro that [of 0 "u8 i" "[]"])
        (simp_all add: WriteVarInt_def VarIntLen_def le unsigned_ucast_eq take_bit_nat_eq_self)
  next
    case 2
    then have "unat i div 256 < 64" by linarith
    with 2 show ?thesis
      using small [of 1] or_tags [of "u8 (shr i 8)"] bytes(3)
      by (intro that [of 1 "u8 (shr i 8) OR 0x40" "[u8 i]"])
        (simp_all add: WriteVarInt_def VarIntLen_def le del: be_nat.simps)
  next
    case 3
    then have "unat i div 16777216 < 64" by linarith
    with 3 show ?thesis
      using small [of 3] or_tags [of "u8 (shr i 24)"] bytes(2)
      by (intro that [of 2 "u8 (shr i 24) OR 0x80" "[u8 (shr i 16), u8 (shr i 8), u8 i]"])
        (simp_all add: WriteVarInt_def VarIntLen_def le del: be_nat.simps)
  next
    case 4
    have "unat i div 72057594037927936 < 64" using assms by (simp add: le)
    with 4 assms show ?thesis
      using small [of 7] or_tags [of "u8 (shr i 56)"] bytes(1)
      by (intro that [of 3 "u8 (shr i 56) OR 0xc0" "[u8 (shr i 48), u8 (shr i 40), u8 (shr i 32),
            u8 (shr i 24), u8 (shr i 16), u8 (shr i 8), u8 i]"])
        (simp_all add: WriteVarInt_def VarIntLen_def le del: be_nat.simps)
  qed
qed

lemma ReadVarInt_WriteVarInt [codec]:
  assumes "WriteVarInt i = Inr w"
  shows "ReadVarInt (w @ r) = Inr (i, r)"
proof -
  have "i \<le> maxVarInt8"
    using assms by (auto simp: WriteVarInt_def word_le_nat_alt split: if_splits)
  then obtain c b bs where c: "c < 4" and w: "w = b # bs" and l: "length bs = 2 ^ c - 1"
    and b: "unat b = 64 * c + unat i div 256 ^ (2 ^ c - 1)" and hi: "unat i div 256 ^ (2 ^ c - 1) < 64"
    and bs: "be_nat bs = unat i mod 256 ^ (2 ^ c - 1)"
    by (rule varint_shape) (use assms in auto)
  have "unat b div 64 = c" "unat b mod 64 = unat i div 256 ^ (2 ^ c - 1)" using b hi by simp_all
  then show ?thesis
    by (simp add: ReadVarInt_eq w Let_def ReadBytes_append l bs div_mult_mod_eq del: of_nat_add of_nat_mult)
qed

lemma WriteVarInt_defined: "(\<exists>w. WriteVarInt i = Inr w) \<longleftrightarrow> i \<le> maxVarInt8"
  by (auto simp: WriteVarInt_def word_le_nat_alt)

lemma length_WriteVarInt:
  "WriteVarInt i = Inr w \<Longrightarrow> VarIntLen i = Inr (of_nat (length w))"
  by (auto simp: WriteVarInt_def VarIntLen_def split: if_splits)

lemma WriteVarInt_lengths: "WriteVarInt i = Inr w \<Longrightarrow> length w \<in> {1, 2, 4, 8}"
  by (auto simp: WriteVarInt_def split: if_splits)

text \<open>
  The reader accepts longer encodings than the writer's; whatever it accepts can be written again
  in no more bytes than it took.
\<close>

lemma ReadVarInt_consumes:
  assumes "ReadVarInt r = Inr (i, r')"
  shows "\<exists>bs w. r = bs @ r' \<and> WriteVarInt i = Inr w \<and> length w \<le> length bs"
proof -
  obtain b r1 where r: "r = b # r1" using assms by (cases r) (auto simp: ReadVarInt_def)
  define c where "c = unat b div 64"
  define k where "k = (2 :: nat) ^ c - 1"
  obtain bs where bs: "length bs = k" "r1 = bs @ r'"
    and i: "i = of_nat (unat b mod 64 * 256 ^ k + be_nat bs)"
    using assms unfolding r ReadVarInt_eq ReadByte_simps rbind_simps Let_def
    by (auto simp: ReadBytes_def k_def c_def rbind_def split: if_splits intro: that [of "take k r1"])
  have c: "c < 4" unfolding c_def by (rule length_exponent)
  have "unat b mod 64 * 256 ^ k + be_nat bs < 64 * 256 ^ k"
  proof -
    have "unat b mod 64 * 256 ^ k + be_nat bs < (unat b mod 64 + 1) * 256 ^ k"
      using be_nat_less [of bs] bs(1) by simp
    also have "\<dots> \<le> 64 * 256 ^ k" by (intro mult_right_mono) (simp_all add: Suc_le_eq)
    finally show ?thesis .
  qed
  moreover have "c = 0 \<or> c = 1 \<or> c = 2 \<or> c = 3" using c by linarith
  then have "k = 0 \<or> k = 1 \<or> k = 3 \<or> k = 7" by (auto simp: k_def)
  ultimately have "unat i < 64 * 256 ^ k \<and> (k = 0 \<or> k = 1 \<or> k = 3 \<or> k = 7)"
    by (auto simp: i unat_of_nat simp del: of_nat_add of_nat_mult)
  then have "\<exists>w. WriteVarInt i = Inr w \<and> length w \<le> Suc k"
    by (auto simp: WriteVarInt_def word_le_nat_alt)
  with r bs show ?thesis by - (rule exI [of _ "b # bs"], auto)
qed

subsection \<open>Properties\<close>

text \<open>A number is written exactly when it is below \<open>2 ^ 62\<close>; what is written reads back as the
  number, whatever follows, and takes as many bytes as \<open>VarIntLen\<close> announces.\<close>

theorem varint_roundtrip:
  "(if i \<le> maxVarInt8
    then \<exists>w. WriteVarInt i = Inr w \<and> ReadVarInt (w @ r) = Inr (i, r) \<and> VarIntLen i = Inr (of_nat (length w))
    else (\<exists>s. WriteVarInt i = Inl (Panic s)) \<and> (\<exists>s. VarIntLen i = Inl (Panic s)))"
proof (cases "i \<le> maxVarInt8")
  case True
  then obtain w where "WriteVarInt i = Inr w" using WriteVarInt_defined [of i] by auto
  then show ?thesis using True ReadVarInt_WriteVarInt length_WriteVarInt by auto
next
  case False
  then have "\<not> i \<le> maxVarInt1" "\<not> i \<le> maxVarInt2" "\<not> i \<le> maxVarInt4" by (auto simp: word_le_nat_alt)
  with False show ?thesis by (auto simp: WriteVarInt_def VarIntLen_def)
qed

text \<open>Whatever the reader accepts, in whatever length the sender chose, the writer encodes in no
  more bytes: it always picks a shortest encoding.\<close>

theorem varint_shortest:
  assumes "ReadVarInt (bs @ r) = Inr (i, r)"
  shows "\<exists>w. WriteVarInt i = Inr w \<and> length w \<le> length bs"
  using ReadVarInt_consumes [OF assms] by auto

theorem varint_shortest_witness:
  "\<exists>w. WriteVarInt 5 = Inr w \<and> length w \<le> length [0x40 :: byte, 5]"
  by (rule varint_shortest [of "[0x40, 5]" "[7]" 5]) (simp add: ReadVarInt_def Let_def)

end
