(* ===== verification/Wire_Types.thy ===== *)
theory Wire_Types
  imports Protocol Varint
begin

unbundle bit_operations_syntax

section \<open>Frames\<close>

text \<open>
  The frame structs of \<open>internal/wire\<close>, one record each, and the interface \<open>Frame\<close> as a datatype with
  one constructor per struct that implements it. A Go string is the list of its bytes. Points in time
  and durations are nanoseconds, a duration being a signed 64-bit word. Also here: what a reader of
  bytes may do to its input, and the contract between the parser and the writer of a frame.
\<close>

type_synonym ApplicationErrorCode = uint16
type_synonym ErrorCode = uint32
type_synonym Duration = uint64

record RstStreamFrame =
  rst_StreamID :: StreamID
  rst_ErrorCode :: ApplicationErrorCode
  rst_ByteOffset :: ByteCount

record ConnectionCloseFrame =
  cc_ErrorCode :: ErrorCode
  cc_ReasonPhrase :: "byte list"

record GoawayFrame =
  ga_ErrorCode :: ErrorCode
  ga_LastGoodStream :: StreamID
  ga_ReasonPhrase :: "byte list"

record MaxDataFrame =
  md_ByteOffset :: ByteCount

record MaxStreamDataFrame =
  msd_StreamID :: StreamID
  msd_ByteOffset :: ByteCount

record StopSendingFrame =
  ss_StreamID :: StreamID
  ss_ErrorCode :: ApplicationErrorCode

record StreamBlockedFrame =
  sb_StreamID :: StreamID
  sb_Offset :: ByteCount

record BlockedFrame =
  bl_Offset :: ByteCount

record MaxStreamIDFrame =
  msi_StreamID :: StreamID

record StreamIDBlockedFrame =
  sib_StreamID :: StreamID

record windowUpdateFrame =
  wu_StreamID :: StreamID
  wu_ByteOffset :: ByteCount

record blockedFrameLegacy =
  bfl_StreamID :: StreamID

record StopWaitingFrame =
  sw_LeastUnacked :: PacketNumber
  sw_PacketNumberLen :: PacketNumberLen
  sw_PacketNumber :: PacketNumber

record StreamFrame =
  sf_StreamID :: StreamID
  sf_FinBit :: bool
  sf_DataLenPresent :: bool
  sf_Offset :: ByteCount
  sf_Data :: "byte list"

record AckRange =
  ar_First :: PacketNumber
  ar_Last :: PacketNumber

record AckFrame =
  ack_LargestAcked :: PacketNumber
  ack_LowestAcked :: PacketNumber
  ack_AckRanges :: "AckRange list"
  ack_PacketReceivedTime :: int
  ack_DelayTime :: Duration

datatype Frame =
    Frame_Stream StreamFrame
  | Frame_Ack AckFrame
  | Frame_RstStream RstStreamFrame
  | Frame_ConnectionClose ConnectionCloseFrame
  | Frame_Goaway GoawayFrame
  | Frame_MaxData MaxDataFrame
  | Frame_MaxStreamData MaxStreamDataFrame
  | Frame_MaxStreamID MaxStreamIDFrame
  | Frame_Ping
  | Frame_Blocked BlockedFrame
  | Frame_StreamBlocked StreamBlockedFrame
  | Frame_StreamIDBlocked StreamIDBlockedFrame
  | Frame_StopSending StopSendingFrame
  | Frame_StopWaiting StopWaitingFrame

text \<open>The part of \<open>wire.Header\<close> that the frame parsers use.\<close>

record Header =
  hdr_PacketNumber :: PacketNumber
  hdr_PacketNumberLen :: PacketNumberLen

text \<open>\<open>qerr.ErrorCode\<close>s of the frame layer.\<close>

abbreviation (input) InvalidFrameData :: ErrorCode where "InvalidFrameData \<equiv> 4"
abbreviation (input) InvalidRstStreamData :: ErrorCode where "InvalidRstStreamData \<equiv> 6"
abbreviation (input) InvalidConnectionCloseData :: ErrorCode where "InvalidConnectionCloseData \<equiv> 7"
abbreviation (input) InvalidGoawayData :: ErrorCode where "InvalidGoawayData \<equiv> 8"
abbreviation (input) InvalidAckData :: ErrorCode where "InvalidAckData \<equiv> 9"
abbreviation (input) DecryptionFailure :: ErrorCode where "DecryptionFailure \<equiv> 12"
abbreviation (input) InvalidStreamData :: ErrorCode where "InvalidStreamData \<equiv> 46"
abbreviation (input) MissingPayload :: ErrorCode where "MissingPayload \<equiv> 48"
abbreviation (input) EmptyStreamFrameNoFin :: ErrorCode where "EmptyStreamFrameNoFin \<equiv> 50"
abbreviation (input) InvalidWindowUpdateData :: ErrorCode where "InvalidWindowUpdateData \<equiv> 57"
abbreviation (input) InvalidBlockedData :: ErrorCode where "InvalidBlockedData \<equiv> 58"
abbreviation (input) InvalidStopWaitingData :: ErrorCode where "InvalidStopWaitingData \<equiv> 60"
abbreviation (input) UnencryptedStreamData :: ErrorCode where "UnencryptedStreamData \<equiv> 61"

definition MaxPacketSize :: ByteCount where "MaxPacketSize = 1200"

subsection \<open>Readers consume a prefix of their input\<close>

named_theorems reading \<open>readers consume a prefix of their input\<close>

definition reads_prefix :: "'a reader \<Rightarrow> bool" where
  "reads_prefix p \<longleftrightarrow> (\<forall>r x r'. p r = Inr (x, r') \<longrightarrow> (\<exists>bs. r = bs @ r'))"

lemma reads_prefix_bind [reading]:
  assumes "reads_prefix p" and "\<And>x. reads_prefix (f x)"
  shows "reads_prefix (\<lambda>r. rbind (p r) (\<lambda>x r. f x r))"
  unfolding reads_prefix_def
proof (intro allI impI)
  fix r y r''
  assume "rbind (p r) (\<lambda>x r. f x r) = Inr (y, r'')"
  then obtain x r' where "p r = Inr (x, r')" "f x r' = Inr (y, r'')"
    by (auto simp: rbind_Inr_iff)
  with assms obtain bs bs' where "r = bs @ r'" "r' = bs' @ r''"
    unfolding reads_prefix_def by meson
  then show "\<exists>bs. r = bs @ r''" by (intro exI [of _ "bs @ bs'"]) simp
qed

lemma reads_prefix_simple [reading]:
  "reads_prefix (\<lambda>r. Inr (x, r))"
  "reads_prefix (\<lambda>r. Inl e)"
  "reads_prefix (\<lambda>r. Inr (g r, r))"
  by (simp_all add: reads_prefix_def)

lemma reads_prefix_if [reading]:
  "(c \<Longrightarrow> reads_prefix p) \<Longrightarrow> (\<not> c \<Longrightarrow> reads_prefix q) \<Longrightarrow> reads_prefix (\<lambda>r. if c then p r else q r)"
  by (cases c) simp_all

lemma reads_prefix_guard [reading]:
  "reads_prefix p \<Longrightarrow> reads_prefix q \<Longrightarrow> reads_prefix (\<lambda>r. if c r then p r else q r)"
  by (auto simp: reads_prefix_def)

lemma reads_prefix_ReadByte [reading]: "reads_prefix (\<lambda>r. ReadByte r)"
  by (auto simp: reads_prefix_def ReadByte_def split: list.splits)

lemma reads_prefix_ReadBytes [reading]: "reads_prefix (\<lambda>r. ReadBytes n r)"
  unfolding reads_prefix_def ReadBytes_def by (metis Inl_Inr_False Inr_inject append_take_drop_id prod.inject)

lemma reads_prefix_ReadFull [reading]: "reads_prefix (\<lambda>r. ReadFull (n r) r)"
  by (auto simp: reads_prefix_def ReadFull_Inr_iff)

lemma reads_prefix_be [reading]:
  "reads_prefix (\<lambda>r. be_ReadUint64 r)" "reads_prefix (\<lambda>r. be_ReadUint32 r)" "reads_prefix (\<lambda>r. be_ReadUint16 r)"
  unfolding be_ReadUint64_eq be_ReadUint32_eq be_ReadUint16_eq by (intro reading)+

lemma reads_prefix_be_N [reading]: "reads_prefix (\<lambda>r. be_ReadUintN n r)"
proof -
  have "be_ReadUintN_from n i res r = Inr (x, r') \<Longrightarrow> \<exists>bs. r = bs @ r'" for i res r x r'
  proof (induction n i res r rule: be_ReadUintN_from.induct)
    case (1 n i res r)
    show ?case
    proof (cases "i < n")
      case True
      with 1(2) obtain b r1 where r: "r = b # r1"
        by (subst (asm) be_ReadUintN_from.simps) (auto simp: ReadByte_def split: list.splits)
      then have "\<exists>bs. r1 = bs @ r'"
        using 1(2) True
        by (intro 1(1) [OF True, of b r1]) (auto simp: be_ReadUintN_from.simps [of n i])
      then show ?thesis using r by auto
    qed (use 1(2) in \<open>simp add: be_ReadUintN_from.simps [of n i]\<close>)
  qed
  then show ?thesis by (auto simp: reads_prefix_def be_ReadUintN_def)
qed

lemma reads_prefix_ReadVarInt [reading]: "reads_prefix (\<lambda>r. ReadVarInt r)"
  unfolding ReadVarInt_eq Let_def by (intro reading)

text \<open>A parser of frames begins by reading the type byte, so it shortens its input.\<close>

lemma reads_type_byte:
  assumes "rbind (ReadByte r) f = Inr (x, r')" and "\<And>b. reads_prefix (f b)"
  shows "length r' < length r"
proof -
  obtain b rs where r: "r = b # rs" "f b rs = Inr (x, r')" using assms(1) by (cases r) auto
  then obtain bs where "rs = bs @ r'" using assms(2) [of b] unfolding reads_prefix_def by blast
  with r show ?thesis by simp
qed

end
