(* ===== verification/Wire_Control.thy ===== *)
theory Wire_Control
  imports Wire_Types
begin

unbundle bit_operations_syntax

section \<open>Control frames\<close>

text \<open>
  The frames of \<open>internal/wire\<close> other than STREAM and ACK: for each its parser, its writer and the
  length it announces to the packer, in the IETF format and in the gQUIC one. A writer that fails has
  no bytes here (the code's buffer is discarded then). The locale \<open>frame_codec\<close> is the contract of the
  interface \<open>Frame\<close>; it is interpreted for every frame that has a single parser.
\<close>

locale frame_codec =
  fixes Write :: "'f \<Rightarrow> VersionNumber \<Rightarrow> goerr + byte list"
    and Length :: "'f \<Rightarrow> VersionNumber \<Rightarrow> goerr + ByteCount"
    and Parse :: "VersionNumber \<Rightarrow> 'f reader"
    and wf :: "VersionNumber \<Rightarrow> 'f \<Rightarrow> bool"
  assumes wf_Write: "wf v f \<Longrightarrow> \<exists>bs. Write f v = Inr bs"
    and Length_Write: "wf v f \<Longrightarrow> Write f v = Inr bs \<Longrightarrow> Length f v = Inr (of_nat (length bs))"
    and Parse_Write: "wf v f \<Longrightarrow> Write f v = Inr bs \<Longrightarrow> Parse v (bs @ r) = Inr (f, r)"
    and Parse_shorter: "Parse v r = Inr (f, r') \<Longrightarrow> length r' < length r"
begin

lemma codec:
  assumes "wf v f"
  obtains bs where "Write f v = Inr bs" "Length f v = Inr (of_nat (length bs))"
    "bs \<noteq> []" "\<And>r. Parse v (bs @ r) = Inr (f, r)"
proof -
  obtain bs where bs: "Write f v = Inr bs" using wf_Write [OF assms] by blast
  have p: "Parse v (bs @ r) = Inr (f, r)" for r by (rule Parse_Write [OF assms bs])
  have "bs \<noteq> []" using Parse_shorter [OF p [of "[]"]] by auto
  with that bs p Length_Write [OF assms bs] show thesis by blast
qed

lemma Write_inj:
  "wf v f \<Longrightarrow> wf v g \<Longrightarrow> Write f v = Write g v \<Longrightarrow> f = g"
  by (metis codec Inr_inject prod.inject)

lemma Write_prefix_free:
  assumes "wf v f" "wf v g" "Write f v = Inr bs" "Write g v = Inr bs'" "bs @ r = bs' @ r'"
  shows "f = g \<and> r = r'"
  using Parse_Write [OF assms(1,3), of r] Parse_Write [OF assms(2,4), of r'] assms(5) by simp

text \<open>Frames written one after the other are read back one after the other.\<close>

fun Write_all :: "'f list \<Rightarrow> VersionNumber \<Rightarrow> goerr + byte list" where
  "Write_all [] v = Inr []"
| "Write_all (f # fs) v = ebind (Write f v) (\<lambda>bs. ebind (Write_all fs v) (\<lambda>bss. Inr (bs @ bss)))"

fun Parse_n :: "nat \<Rightarrow> VersionNumber \<Rightarrow> 'f list reader" where
  "Parse_n 0 v r = Inr ([], r)"
| "Parse_n (Suc n) v r = rbind (Parse v r) (\<lambda>f r. rbind (Parse_n n v r) (\<lambda>fs r. Inr (f # fs, r)))"

lemma Parse_n_Write_all:
  "(\<forall>f \<in> set fs. wf v f) \<Longrightarrow> \<exists>bs. Write_all fs v = Inr bs \<and> Parse_n (length fs) v (bs @ r) = Inr (fs, r)"
proof (induction fs arbitrary: r)
  case (Cons f fs)
  then obtain bs where bs: "Write f v = Inr bs" using wf_Write [of v f] by auto
  obtain bss where bss: "Write_all fs v = Inr bss" "Parse_n (length fs) v (bss @ r) = Inr (fs, r)"
    using Cons by auto
  have "Parse v (bs @ bss @ r) = Inr (f, bss @ r)" using Cons.prems bs by (simp add: Parse_Write)
  with bs bss show ?case by simp
qed simp

end

subsection \<open>RST_STREAM\<close>

definition ParseRstStreamFrame :: "VersionNumber \<Rightarrow> RstStreamFrame reader" where
  "ParseRstStreamFrame version r =
     rbind (ReadByte r) (\<lambda>_ r.
     if UsesIETFFrameFormat version then
       rbind (ReadVarInt r) (\<lambda>sid r.
       rbind (be_ReadUint16 r) (\<lambda>errorCode r.
       rbind (ReadVarInt r) (\<lambda>bo r.
         Inr (\<lparr> rst_StreamID = sid, rst_ErrorCode = errorCode, rst_ByteOffset = bo \<rparr>, r))))
     else
       rbind (be_ReadUint32 r) (\<lambda>sid r.
       rbind (be_ReadUint64 r) (\<lambda>bo r.
       rbind (be_ReadUint32 r) (\<lambda>ec r.
         Inr (\<lparr> rst_StreamID = u64 sid, rst_ErrorCode = u16 ec, rst_ByteOffset = bo \<rparr>, r)))))"

definition RstStreamFrame_Write :: "RstStreamFrame \<Rightarrow> VersionNumber \<Rightarrow> goerr + byte list" where
  "RstStreamFrame_Write f version =
     (if UsesIETFFrameFormat version then
        ebind (WriteVarInt (rst_StreamID f)) (\<lambda>sid.
        ebind (WriteVarInt (rst_ByteOffset f)) (\<lambda>bo.
          Inr ([0x01] @ sid @ be_WriteUint16 (rst_ErrorCode f) @ bo)))
      else Inr ([0x01] @ be_WriteUint32 (u32 (rst_StreamID f)) @ be_WriteUint64 (rst_ByteOffset f)
                @ be_WriteUint32 (u32 (rst_ErrorCode f))))"

definition RstStreamFrame_Length :: "RstStreamFrame \<Rightarrow> VersionNumber \<Rightarrow> goerr + ByteCount" where
  "RstStreamFrame_Length f version =
     (if UsesIETFFrameFormat version then
        ebind (VarIntLen (rst_StreamID f)) (\<lambda>sid.
        ebind (VarIntLen (rst_ByteOffset f)) (\<lambda>bo. Inr (1 + sid + 2 + bo)))
      else Inr (1 + 4 + 8 + 4))"

definition RstStreamFrame_wf :: "VersionNumber \<Rightarrow> RstStreamFrame \<Rightarrow> bool" where
  "RstStreamFrame_wf version f \<longleftrightarrow>
     (if UsesIETFFrameFormat version then rst_StreamID f \<le> maxVarInt8 \<and> rst_ByteOffset f \<le> maxVarInt8
      else rst_StreamID f < shl 1 32)"

subsection \<open>CONNECTION_CLOSE\<close>

definition ParseConnectionCloseFrame :: "VersionNumber \<Rightarrow> ConnectionCloseFrame reader" where
  "ParseConnectionCloseFrame version r =
     rbind (ReadByte r) (\<lambda>_ r.
     rbind (if UsesIETFFrameFormat version then
              rbind (be_ReadUint16 r) (\<lambda>ec r.
              rbind (ReadVarInt r) (\<lambda>n r. Inr ((u32 ec, n), r)))
            else
              rbind (be_ReadUint32 r) (\<lambda>ec r.
              rbind (be_ReadUint16 r) (\<lambda>n r. Inr ((ec, u64 n), r))))
       (\<lambda>(errorCode, reasonPhraseLen) r.
          if sint reasonPhraseLen > int (length r) then Inl EOF
          else rbind (ReadFull (unat reasonPhraseLen) r) (\<lambda>reasonPhrase r.
            Inr (\<lparr> cc_ErrorCode = errorCode, cc_ReasonPhrase = reasonPhrase \<rparr>, r))))"

definition ConnectionCloseFrame_Length :: "ConnectionCloseFrame \<Rightarrow> VersionNumber \<Rightarrow> goerr + ByteCount" where
  "ConnectionCloseFrame_Length f version =
     (let n = of_nat (length (cc_ReasonPhrase f)) in
      if UsesIETFFrameFormat version then ebind (VarIntLen n) (\<lambda>l. Inr (1 + 2 + l + n))
      else Inr (1 + 4 + 2 + n))"

definition ConnectionCloseFrame_Write :: "ConnectionCloseFrame \<Rightarrow> VersionNumber \<Rightarrow> goerr + byte list" where
  "ConnectionCloseFrame_Write f version =
     (if length (cc_ReasonPhrase f) > 65535 then Inl (GoErr ''ConnectionFrame: ReasonPhrase too long'')
      else if UsesIETFFrameFormat version then
        ebind (WriteVarInt (of_nat (length (cc_ReasonPhrase f)))) (\<lambda>n.
          Inr ([0x02] @ be_WriteUint16 (u16 (cc_ErrorCode f)) @ n @ cc_ReasonPhrase f))
      else Inr ([0x02] @ be_WriteUint32 (cc_ErrorCode f)
                @ be_WriteUint16 (of_nat (length (cc_ReasonPhrase f))) @ cc_ReasonPhrase f))"

definition ConnectionCloseFrame_wf :: "VersionNumber \<Rightarrow> ConnectionCloseFrame \<Rightarrow> bool" where
  "ConnectionCloseFrame_wf version f \<longleftrightarrow>
     length (cc_ReasonPhrase f) \<le> 65535 \<and> (UsesIETFFrameFormat version \<longrightarrow> cc_ErrorCode f < 65536)"

subsection \<open>GOAWAY\<close>

definition ParseGoawayFrame :: "VersionNumber \<Rightarrow> GoawayFrame reader" where
  "ParseGoawayFrame version r =
     rbind (ReadByte r) (\<lambda>_ r.
     rbind (be_ReadUint32 r) (\<lambda>errorCode r.
     rbind (be_ReadUint32 r) (\<lambda>lastGoodStream r.
     rbind (be_ReadUint16 r) (\<lambda>reasonPhraseLen r.
       if reasonPhraseLen > u16 MaxPacketSize then Inl (QErr InvalidGoawayData)
       else rbind (ReadFull (unat reasonPhraseLen) r) (\<lambda>reasonPhrase r.
         Inr (\<lparr> ga_ErrorCode = errorCode, ga_LastGoodStream = u64 lastGoodStream,
                ga_ReasonPhrase = reasonPhrase \<rparr>, r))))))"

definition GoawayFrame_Write :: "GoawayFrame \<Rightarrow> VersionNumber \<Rightarrow> goerr + byte list" where
  "GoawayFrame_Write f version =
     Inr ([0x03] @ be_WriteUint32 (ga_ErrorCode f) @ be_WriteUint32 (u32 (ga_LastGoodStream f))
          @ be_WriteUint16 (of_nat (length (ga_ReasonPhrase f))) @ ga_ReasonPhrase f)"

definition GoawayFrame_Length :: "GoawayFrame \<Rightarrow> VersionNumber \<Rightarrow> goerr + ByteCount" where
  "GoawayFrame_Length f version = Inr (of_nat (1 + 4 + 4 + 2 + length (ga_ReasonPhrase f)))"

definition GoawayFrame_wf :: "VersionNumber \<Rightarrow> GoawayFrame \<Rightarrow> bool" where
  "GoawayFrame_wf version f \<longleftrightarrow>
     ga_LastGoodStream f < shl 1 32 \<and> length (ga_ReasonPhrase f) \<le> unat MaxPacketSize"

subsection \<open>WINDOW_UPDATE, MAX_DATA and MAX_STREAM_DATA\<close>

definition windowUpdateFrame_Write :: "windowUpdateFrame \<Rightarrow> VersionNumber \<Rightarrow> goerr + byte list" where
  "windowUpdateFrame_Write f version =
     Inr ([0x4] @ be_WriteUint32 (u32 (wu_StreamID f)) @ be_WriteUint64 (wu_ByteOffset f))"

definition ParseWindowUpdateFrame :: "VersionNumber \<Rightarrow> Frame reader" where
  "ParseWindowUpdateFrame version r =
     rbind (ReadByte r) (\<lambda>_ r.
     rbind (be_ReadUint32 r) (\<lambda>streamID r.
     rbind (be_ReadUint64 r) (\<lambda>offset r.
       if streamID = 0 then Inr (Frame_MaxData \<lparr> md_ByteOffset = offset \<rparr>, r)
       else Inr (Frame_MaxStreamData \<lparr> msd_StreamID = u64 streamID, msd_ByteOffset = offset \<rparr>, r))))"

definition ParseMaxDataFrame :: "VersionNumber \<Rightarrow> MaxDataFrame reader" where
  "ParseMaxDataFrame version r =
     rbind (ReadByte r) (\<lambda>_ r. rbind (ReadVarInt r) (\<lambda>byteOffset r. Inr (\<lparr> md_ByteOffset = byteOffset \<rparr>, r)))"

definition MaxDataFrame_Write :: "MaxDataFrame \<Rightarrow> VersionNumber \<Rightarrow> goerr + byte list" where
  "MaxDataFrame_Write f version =
     (if \<not> UsesIETFFrameFormat version
      then windowUpdateFrame_Write \<lparr> wu_StreamID = 0, wu_ByteOffset = md_ByteOffset f \<rparr> version
      else ebind (WriteVarInt (md_ByteOffset f)) (\<lambda>bo. Inr ([0x4] @ bo)))"

definition MaxDataFrame_Length :: "MaxDataFrame \<Rightarrow> VersionNumber \<Rightarrow> goerr + ByteCount" where
  "MaxDataFrame_Length f version =
     (if \<not> UsesIETFFrameFormat version then Inr (1 + 4 + 8)
      else ebind (VarIntLen (md_ByteOffset f)) (\<lambda>bo. Inr (1 + bo)))"

definition ParseMaxStreamDataFrame :: "VersionNumber \<Rightarrow> MaxStreamDataFrame reader" where
  "ParseMaxStreamDataFrame version r =
     rbind (ReadByte r) (\<lambda>_ r.
     rbind (ReadVarInt r) (\<lambda>sid r.
     rbind (ReadVarInt r) (\<lambda>byteOffset r.
       Inr (\<lparr> msd_StreamID = sid, msd_ByteOffset = byteOffset \<rparr>, r))))"

definition MaxStreamDataFrame_Write :: "MaxStreamDataFrame \<Rightarrow> VersionNumber \<Rightarrow> goerr + byte list" where
  "MaxStreamDataFrame_Write f version =
     (if \<not> UsesIETFFrameFormat version
      then windowUpdateFrame_Write
             \<lparr> wu_StreamID = msd_StreamID f, wu_ByteOffset = msd_ByteOffset f \<rparr> version
      else ebind (WriteVarInt (msd_StreamID f)) (\<lambda>sid.
           ebind (WriteVarInt (msd_ByteOffset f)) (\<lambda>bo. Inr ([0x5] @ sid @ bo))))"

definition MaxStreamDataFrame_Length :: "MaxStreamDataFrame \<Rightarrow> VersionNumber \<Rightarrow> goerr + ByteCount" where
  "MaxStreamDataFrame_Length f version =
     (if \<not> UsesIETFFrameFormat version then Inr (1 + 4 + 8)
      else ebind (VarIntLen (msd_StreamID f)) (\<lambda>sid.
           ebind (VarIntLen (msd_ByteOffset f)) (\<lambda>bo. Inr (1 + sid + bo))))"

subsection \<open>BLOCKED, STREAM_BLOCKED and their gQUIC form\<close>

definition blockedFrameLegacy_Write :: "blockedFrameLegacy \<Rightarrow> VersionNumber \<Rightarrow> goerr + byte list" where
  "blockedFrameLegacy_Write f version = Inr ([0x05] @ be_WriteUint32 (u32 (bfl_StreamID f)))"

definition ParseBlockedFrameLegacy :: "VersionNumber \<Rightarrow> Frame reader" where
  "ParseBlockedFrameLegacy version r =
     rbind (ReadByte r) (\<lambda>_ r.
     rbind (be_ReadUint32 r) (\<lambda>streamID r.
       if streamID = 0 then Inr (Frame_Blocked \<lparr> bl_Offset = 0 \<rparr>, r)
       else Inr (Frame_StreamBlocked \<lparr> sb_StreamID = u64 streamID, sb_Offset = 0 \<rparr>, r)))"

definition ParseBlockedFrame :: "VersionNumber \<Rightarrow> BlockedFrame reader" where
  "ParseBlockedFrame version r =
     rbind (ReadByte r) (\<lambda>_ r. rbind (ReadVarInt r) (\<lambda>offset r. Inr (\<lparr> bl_Offset = offset \<rparr>, r)))"

definition BlockedFrame_Write :: "BlockedFrame \<Rightarrow> VersionNumber \<Rightarrow> goerr + byte list" where
  "BlockedFrame_Write f version =
     (if \<not> UsesIETFFrameFormat version
      then blockedFrameLegacy_Write \<lparr> bfl_StreamID = 0 \<rparr> version
      else ebind (WriteVarInt (bl_Offset f)) (\<lambda>offset. Inr ([0x08] @ offset)))"

definition BlockedFrame_Length :: "BlockedFrame \<Rightarrow> VersionNumber \<Rightarrow> goerr + ByteCount" where
  "BlockedFrame_Length f version =
     (if \<not> UsesIETFFrameFormat version then Inr (1 + 4)
      else ebind (VarIntLen (bl_Offset f)) (\<lambda>offset. Inr (1 + offset)))"

definition ParseStreamBlockedFrame :: "VersionNumber \<Rightarrow> StreamBlockedFrame reader" where
  "ParseStreamBlockedFrame version r =
     rbind (ReadByte r) (\<lambda>_ r.
     rbind (ReadVarInt r) (\<lambda>sid r.
     rbind (ReadVarInt r) (\<lambda>offset r.
       Inr (\<lparr> sb_StreamID = sid, sb_Offset = offset \<rparr>, r))))"

definition StreamBlockedFrame_Write :: "StreamBlockedFrame \<Rightarrow> VersionNumber \<Rightarrow> goerr + byte list" where
  "StreamBlockedFrame_Write f version =
     (if \<not> UsesIETFFrameFormat version
      then blockedFrameLegacy_Write \<lparr> bfl_StreamID = sb_StreamID f \<rparr> version
      else ebind (WriteVarInt (sb_StreamID f)) (\<lambda>sid.
           ebind (WriteVarInt (sb_Offset f)) (\<lambda>offset. Inr ([0x09] @ sid @ offset))))"

definition StreamBlockedFrame_Length :: "StreamBlockedFrame \<Rightarrow> VersionNumber \<Rightarrow> goerr + ByteCount" where
  "StreamBlockedFrame_Length f version =
     (if \<not> UsesIETFFrameFormat version then Inr (1 + 4)
      else ebind (VarIntLen (sb_StreamID f)) (\<lambda>sid.
           ebind (VarIntLen (sb_Offset f)) (\<lambda>offset. Inr (1 + sid + offset))))"

subsection \<open>MAX_STREAM_ID, STREAM_ID_BLOCKED, STOP_SENDING and PING\<close>

definition ParseMaxStreamIDFrame :: "VersionNumber \<Rightarrow> MaxStreamIDFrame reader" where
  "ParseMaxStreamIDFrame version r =
     rbind (ReadByte r) (\<lambda>_ r. rbind (ReadVarInt r) (\<lambda>streamID r. Inr (\<lparr> msi_StreamID = streamID \<rparr>, r)))"

definition MaxStreamIDFrame_Write :: "MaxStreamIDFrame \<Rightarrow> VersionNumber \<Rightarrow> goerr + byte list" where
  "MaxStreamIDFrame_Write f version = ebind (WriteVarInt (msi_StreamID f)) (\<lambda>sid. Inr ([0x6] @ sid))"

definition MaxStreamIDFrame_Length :: "MaxStreamIDFrame \<Rightarrow> VersionNumber \<Rightarrow> goerr + ByteCount" where
  "MaxStreamIDFrame_Length f version = ebind (VarIntLen (msi_StreamID f)) (\<lambda>sid. Inr (1 + sid))"

definition ParseStreamIDBlockedFrame :: "VersionNumber \<Rightarrow> StreamIDBlockedFrame reader" where
  "ParseStreamIDBlockedFrame version r =
     rbind (ReadByte r) (\<lambda>_ r. rbind (ReadVarInt r) (\<lambda>streamID r. Inr (\<lparr> sib_StreamID = streamID \<rparr>, r)))"

definition StreamIDBlockedFrame_Write :: "StreamIDBlockedFrame \<Rightarrow> VersionNumber \<Rightarrow> goerr + byte list" where
  "StreamIDBlockedFrame_Write f version = ebind (WriteVarInt (sib_StreamID f)) (\<lambda>sid. Inr ([0x0a] @ sid))"

definition StreamIDBlockedFrame_Length :: "StreamIDBlockedFrame \<Rightarrow> VersionNumber \<Rightarrow> goerr + ByteCount" where
  "StreamIDBlockedFrame_Length f version = ebind (VarIntLen (sib_StreamID f)) (\<lambda>sid. Inr (1 + sid))"

definition ParseStopSendingFrame :: "VersionNumber \<Rightarrow> StopSendingFrame reader" where
  "ParseStopSendingFrame version r =
     rbind (ReadByte r) (\<lambda>_ r.
     rbind (ReadVarInt r) (\<lambda>streamID r.
     rbind (be_ReadUint16 r) (\<lambda>errorCode r.
       Inr (\<lparr> ss_StreamID = streamID, ss_ErrorCode = errorCode \<rparr>, r))))"

definition StopSendingFrame_Length :: "StopSendingFrame \<Rightarrow> VersionNumber \<Rightarrow> goerr + ByteCount" where
  "StopSendingFrame_Length f version = ebind (VarIntLen (ss_StreamID f)) (\<lambda>sid. Inr (1 + sid + 2))"

definition StopSendingFrame_Write :: "StopSendingFrame \<Rightarrow> VersionNumber \<Rightarrow> goerr + byte list" where
  "StopSendingFrame_Write f version =
     ebind (WriteVarInt (ss_StreamID f)) (\<lambda>sid. Inr ([0x0c] @ sid @ be_WriteUint16 (ss_ErrorCode f)))"

definition ParsePingFrame :: "VersionNumber \<Rightarrow> unit reader" where
  "ParsePingFrame version r = rbind (ReadByte r) (\<lambda>_ r. Inr ((), r))"

definition PingFrame_Write :: "unit \<Rightarrow> VersionNumber \<Rightarrow> goerr + byte list" where
  "PingFrame_Write f version = Inr [0x07]"

definition PingFrame_Length :: "unit \<Rightarrow> VersionNumber \<Rightarrow> goerr + ByteCount" where
  "PingFrame_Length f version = Inr 1"

subsection \<open>STOP_WAITING\<close>

definition StopWaitingFrame_Write :: "StopWaitingFrame \<Rightarrow> VersionNumber \<Rightarrow> goerr + byte list" where
  "StopWaitingFrame_Write f v =
     (if UsesIETFFrameFormat v then Inl (GoErr ''STOP_WAITING not defined in IETF QUIC'')
      else if sw_PacketNumber f = 0 then Inl (GoErr ''StopWaitingFrame: PacketNumber not set'')
      else if sw_LeastUnacked f > sw_PacketNumber f
      then Inl (GoErr ''StopWaitingFrame: LeastUnacked can't be greater than the packet number'')
      else
        let leastUnackedDelta = sw_PacketNumber f - sw_LeastUnacked f in
        if sw_PacketNumberLen f = PacketNumberLen1 then Inr ([0x06] @ [u8 leastUnackedDelta])
        else if sw_PacketNumberLen f = PacketNumberLen2
        then Inr ([0x06] @ be_WriteUint16 (u16 leastUnackedDelta))
        else if sw_PacketNumberLen f = PacketNumberLen4
        then Inr ([0x06] @ be_WriteUint32 (u32 leastUnackedDelta))
        else if sw_PacketNumberLen f = PacketNumberLen6
        then ebind (be_WriteUint48 (leastUnackedDelta AND (shl 1 48 - 1))) (\<lambda>d. Inr ([0x06] @ d))
        else Inl (GoErr ''StopWaitingFrame: PacketNumberLen not set''))"

definition StopWaitingFrame_Length :: "StopWaitingFrame \<Rightarrow> VersionNumber \<Rightarrow> goerr + ByteCount" where
  "StopWaitingFrame_Length f v = Inr (1 + u64 (sw_PacketNumberLen f))"

definition ParseStopWaitingFrame ::
    "PacketNumber \<Rightarrow> PacketNumberLen \<Rightarrow> VersionNumber \<Rightarrow> StopWaitingFrame reader" where
  "ParseStopWaitingFrame packetNumber packetNumberLen version r =
     rbind (ReadByte r) (\<lambda>_ r.
     rbind (be_ReadUintN packetNumberLen r) (\<lambda>leastUnackedDelta r.
       if leastUnackedDelta > packetNumber then Inl (GoErr ''invalid LeastUnackedDelta'')
       else Inr (\<lparr> sw_LeastUnacked = packetNumber - leastUnackedDelta, sw_PacketNumberLen = 0,
                   sw_PacketNumber = 0 \<rparr>, r)))"

lemmas parser_defs = ParseRstStreamFrame_def ParseConnectionCloseFrame_def ParseGoawayFrame_def
  ParseWindowUpdateFrame_def ParseMaxDataFrame_def ParseMaxStreamDataFrame_def
  ParseBlockedFrameLegacy_def ParseBlockedFrame_def ParseStreamBlockedFrame_def
  ParseMaxStreamIDFrame_def ParseStreamIDBlockedFrame_def ParseStopSendingFrame_def
  ParsePingFrame_def ParseStopWaitingFrame_def

subsection \<open>Parsers shorten their input\<close>

lemma parsers_shorten:
  "ParseRstStreamFrame v r = Inr (rst, r') \<Longrightarrow> length r' < length r"
  "ParseConnectionCloseFrame v r = Inr (cc, r') \<Longrightarrow> length r' < length r"
  "ParseGoawayFrame v r = Inr (ga, r') \<Longrightarrow> length r' < length r"
  "ParseWindowUpdateFrame v r = Inr (fr, r') \<Longrightarrow> length r' < length r"
  "ParseMaxDataFrame v r = Inr (md, r') \<Longrightarrow> length r' < length r"
  "ParseMaxStreamDataFrame v r = Inr (msd, r') \<Longrightarrow> length r' < length r"
  "ParseBlockedFrameLegacy v r = Inr (fr, r') \<Longrightarrow> length r' < length r"
  "ParseBlockedFrame v r = Inr (bl, r') \<Longrightarrow> length r' < length r"
  "ParseStreamBlockedFrame v r = Inr (sb, r') \<Longrightarrow> length r' < length r"
  "ParseMaxStreamIDFrame v r = Inr (msi, r') \<Longrightarrow> length r' < length r"
  "ParseStreamIDBlockedFrame v r = Inr (sib, r') \<Longrightarrow> length r' < length r"
  "ParseStopSendingFrame v r = Inr (ss, r') \<Longrightarrow> length r' < length r"
  "ParsePingFrame v r = Inr (u, r') \<Longrightarrow> length r' < length r"
  "ParseStopWaitingFrame pn pl v r = Inr (sw, r') \<Longrightarrow> length r' < length r"
  unfolding parser_defs case_prod_beta
  by (erule reads_type_byte; (intro reading))+

subsection \<open>The contract, frame by frame\<close>

lemma ucast_ucast_small:
  fixes x :: "'a::len word"
  assumes "unat x < 2 ^ LENGTH('b::len)"
  shows "(ucast (ucast x :: 'b word) :: 'a word) = x"
proof -
  have "unat x < 2 ^ LENGTH('a)" by (rule unsigned_less)
  with assms show ?thesis
    by (simp only: word_unat_eq_iff unsigned_ucast_eq unsigned_take_bit_eq take_bit_nat_eq_self)
qed

lemma u64_u32 [simp]: "x < shl 1 32 \<Longrightarrow> u64 (u32 x) = x"
  by (rule ucast_ucast_small) (simp add: word_less_nat_alt push_bit_eq_mult)

lemma u16_u32 [simp]: "u16 (u32 (x :: uint16)) = x"
  using unsigned_less [of x, where 'a = nat] by (intro ucast_ucast_small) simp

lemma u32_u16 [simp]: "x < 65536 \<Longrightarrow> u32 (u16 (x :: uint32)) = x"
  by (rule ucast_ucast_small) (simp add: word_less_nat_alt)

lemma u64_of_nat16:
  "n \<le> 65535 \<Longrightarrow> unat (u64 (of_nat n :: uint16)) = n"
  "n \<le> 65535 \<Longrightarrow> u64 (of_nat n :: uint16) = of_nat n"
  by (simp_all add: word_unat_eq_iff unsigned_ucast_eq unat_of_nat take_bit_nat_eq_self)

lemma reason_length:
  assumes "n \<le> 65535"
  shows "sint (of_nat n :: uint64) = int n" and "unat (of_nat n :: uint64) = n"
  using assms by (simp_all add: signed_of_nat unat_of_nat signed_take_bit_int_eq_self)

lemma WriteVarInt_ok: "i \<le> maxVarInt8 \<Longrightarrow> \<exists>w. WriteVarInt i = Inr w"
  by (simp add: WriteVarInt_defined)

lemma WriteVarInt_nat_ok: "n \<le> 65535 \<Longrightarrow> \<exists>w. WriteVarInt (of_nat n) = Inr w"
  by (simp add: WriteVarInt_defined word_le_nat_alt unat_of_nat)

lemmas frame_simps = ebind_Inr_iff length_WriteVarInt codec rbind_simps

interpretation rst_stream: frame_codec RstStreamFrame_Write RstStreamFrame_Length
    ParseRstStreamFrame RstStreamFrame_wf
proof (unfold_locales, goal_cases)
  case (1 v f)
  then show ?case
    by (auto simp: RstStreamFrame_wf_def RstStreamFrame_Write_def frame_simps dest!: WriteVarInt_ok split: if_splits)
next
  case (2 v f bs)
  then show ?case
    by (auto simp: RstStreamFrame_Write_def RstStreamFrame_Length_def frame_simps split: if_splits)
next
  case (3 v f bs r)
  then show ?case
    by (auto simp: RstStreamFrame_wf_def RstStreamFrame_Write_def ParseRstStreamFrame_def frame_simps split: if_splits)
qed (rule parsers_shorten)

interpretation connection_close: frame_codec ConnectionCloseFrame_Write ConnectionCloseFrame_Length
    ParseConnectionCloseFrame ConnectionCloseFrame_wf
proof (unfold_locales, goal_cases)
  case (1 v f)
  then show ?case
    by (auto simp: ConnectionCloseFrame_wf_def ConnectionCloseFrame_Write_def frame_simps intro: WriteVarInt_nat_ok)
next
  case (2 v f bs)
  then show ?case
    by (auto simp: ConnectionCloseFrame_Write_def ConnectionCloseFrame_Length_def frame_simps split: if_splits)
next
  case (3 v f bs r)
  then show ?case
    by (auto simp: ConnectionCloseFrame_wf_def ConnectionCloseFrame_Write_def ParseConnectionCloseFrame_def
          frame_simps u64_of_nat16 reason_length split: if_splits)
qed (rule parsers_shorten)

interpretation goaway: frame_codec GoawayFrame_Write GoawayFrame_Length ParseGoawayFrame GoawayFrame_wf
proof (unfold_locales, goal_cases)
  case (3 v f bs r)
  then have n: "length (ga_ReasonPhrase f) \<le> 1200" and s: "ga_LastGoodStream f < shl 1 32"
    by (auto simp: GoawayFrame_wf_def MaxPacketSize_def)
  have "\<not> u16 MaxPacketSize < (of_nat (length (ga_ReasonPhrase f)) :: uint16)"
    "unat (of_nat (length (ga_ReasonPhrase f)) :: uint16) = length (ga_ReasonPhrase f)"
    using n by (simp_all add: word_less_nat_alt unat_of_nat MaxPacketSize_def)
  with 3 s show ?case
    by (auto simp: GoawayFrame_Write_def ParseGoawayFrame_def frame_simps)
qed (auto simp: GoawayFrame_Write_def GoawayFrame_Length_def dest: parsers_shorten)

definition varint_frame_wf :: "('f \<Rightarrow> uint64 list) \<Rightarrow> VersionNumber \<Rightarrow> 'f \<Rightarrow> bool" where
  "varint_frame_wf ints version f \<longleftrightarrow>
     UsesIETFFrameFormat version \<and> (\<forall>i \<in> set (ints f). i \<le> maxVarInt8)"

lemmas ietf_frame_defs =
  MaxDataFrame_Write_def MaxDataFrame_Length_def ParseMaxDataFrame_def
  MaxStreamDataFrame_Write_def MaxStreamDataFrame_Length_def ParseMaxStreamDataFrame_def
  BlockedFrame_Write_def BlockedFrame_Length_def ParseBlockedFrame_def
  StreamBlockedFrame_Write_def StreamBlockedFrame_Length_def ParseStreamBlockedFrame_def
  MaxStreamIDFrame_Write_def MaxStreamIDFrame_Length_def ParseMaxStreamIDFrame_def
  StreamIDBlockedFrame_Write_def StreamIDBlockedFrame_Length_def ParseStreamIDBlockedFrame_def
  StopSendingFrame_Write_def StopSendingFrame_Length_def ParseStopSendingFrame_def
  PingFrame_Write_def PingFrame_Length_def ParsePingFrame_def

interpretation max_data: frame_codec MaxDataFrame_Write MaxDataFrame_Length ParseMaxDataFrame
    "varint_frame_wf (\<lambda>f. [md_ByteOffset f])"
  by unfold_locales
    (auto simp: varint_frame_wf_def ietf_frame_defs frame_simps dest!: WriteVarInt_ok parsers_shorten(5) [unfolded ietf_frame_defs])

interpretation max_stream_data: frame_codec MaxStreamDataFrame_Write MaxStreamDataFrame_Length
    ParseMaxStreamDataFrame "varint_frame_wf (\<lambda>f. [msd_StreamID f, msd_ByteOffset f])"
  by unfold_locales
    (auto simp: varint_frame_wf_def ietf_frame_defs frame_simps dest!: WriteVarInt_ok intro: parsers_shorten)

interpretation blocked: frame_codec BlockedFrame_Write BlockedFrame_Length ParseBlockedFrame
    "varint_frame_wf (\<lambda>f. [bl_Offset f])"
  by unfold_locales
    (auto simp: varint_frame_wf_def ietf_frame_defs frame_simps dest!: WriteVarInt_ok intro: parsers_shorten)

interpretation stream_blocked: frame_codec StreamBlockedFrame_Write StreamBlockedFrame_Length
    ParseStreamBlockedFrame "varint_frame_wf (\<lambda>f. [sb_StreamID f, sb_Offset f])"
  by unfold_locales
    (auto simp: varint_frame_wf_def ietf_frame_defs frame_simps dest!: WriteVarInt_ok intro: parsers_shorten)

interpretation max_stream_id: frame_codec MaxStreamIDFrame_Write MaxStreamIDFrame_Length
    ParseMaxStreamIDFrame "varint_frame_wf (\<lambda>f. [msi_StreamID f])"
  by unfold_locales
    (auto simp: varint_frame_wf_def ietf_frame_defs frame_simps dest!: WriteVarInt_ok intro: parsers_shorten)

interpretation stream_id_blocked: frame_codec StreamIDBlockedFrame_Write StreamIDBlockedFrame_Length
    ParseStreamIDBlockedFrame "varint_frame_wf (\<lambda>f. [sib_StreamID f])"
  by unfold_locales
    (auto simp: varint_frame_wf_def ietf_frame_defs frame_simps dest!: WriteVarInt_ok intro: parsers_shorten)

interpretation stop_sending: frame_codec StopSendingFrame_Write StopSendingFrame_Length
    ParseStopSendingFrame "varint_frame_wf (\<lambda>f. [ss_StreamID f])"
  by unfold_locales
    (auto simp: varint_frame_wf_def ietf_frame_defs frame_simps dest!: WriteVarInt_ok intro: parsers_shorten)

interpretation ping: frame_codec PingFrame_Write PingFrame_Length ParsePingFrame "\<lambda>version f. True"
  by unfold_locales (auto simp: ietf_frame_defs frame_simps ReadByte_def split: list.splits)

text \<open>
  The gQUIC frames for a stream or for the whole connection share one type byte; the stream
  identifier 0 stands for the connection.
\<close>

lemma ParseWindowUpdateFrame_Write:
  assumes "\<not> UsesIETFFrameFormat v"
  shows "MaxDataFrame_Write md v = Inr bs \<Longrightarrow>
      ParseWindowUpdateFrame v (bs @ r) = Inr (Frame_MaxData md, r)"
    and "0 < msd_StreamID msd \<Longrightarrow> msd_StreamID msd < shl 1 32 \<Longrightarrow> MaxStreamDataFrame_Write msd v = Inr bs \<Longrightarrow>
      ParseWindowUpdateFrame v (bs @ r) = Inr (Frame_MaxStreamData msd, r)"
proof -
  show "MaxDataFrame_Write md v = Inr bs \<Longrightarrow>
      ParseWindowUpdateFrame v (bs @ r) = Inr (Frame_MaxData md, r)"
    using assms
    by (auto simp: ietf_frame_defs windowUpdateFrame_Write_def ParseWindowUpdateFrame_def frame_simps)
next
  assume *: "0 < msd_StreamID msd" "msd_StreamID msd < shl 1 32"
  then have "u32 (msd_StreamID msd) \<noteq> 0" using u64_u32 [OF *(2)] by (metis unsigned_0 less_irrefl)
  then show "MaxStreamDataFrame_Write msd v = Inr bs \<Longrightarrow>
      ParseWindowUpdateFrame v (bs @ r) = Inr (Frame_MaxStreamData msd, r)"
    using assms u64_u32 [OF *(2)]
    by (auto simp: ietf_frame_defs windowUpdateFrame_Write_def ParseWindowUpdateFrame_def frame_simps)
qed

lemma ParseBlockedFrameLegacy_Write:
  assumes "\<not> UsesIETFFrameFormat v"
  shows "bl_Offset bl = 0 \<Longrightarrow> BlockedFrame_Write bl v = Inr bs \<Longrightarrow>
      ParseBlockedFrameLegacy v (bs @ r) = Inr (Frame_Blocked bl, r)"
    and "sb_Offset sb = 0 \<Longrightarrow> 0 < sb_StreamID sb \<Longrightarrow> sb_StreamID sb < shl 1 32 \<Longrightarrow>
      StreamBlockedFrame_Write sb v = Inr bs \<Longrightarrow>
      ParseBlockedFrameLegacy v (bs @ r) = Inr (Frame_StreamBlocked sb, r)"
proof -
  show "bl_Offset bl = 0 \<Longrightarrow> BlockedFrame_Write bl v = Inr bs \<Longrightarrow>
      ParseBlockedFrameLegacy v (bs @ r) = Inr (Frame_Blocked bl, r)"
    using assms by (auto simp: ietf_frame_defs blockedFrameLegacy_Write_def ParseBlockedFrameLegacy_def frame_simps)
next
  assume *: "sb_Offset sb = 0" "0 < sb_StreamID sb" "sb_StreamID sb < shl 1 32"
  then have "u32 (sb_StreamID sb) \<noteq> 0" using u64_u32 [OF *(3)] by (metis unsigned_0 less_irrefl)
  then show "StreamBlockedFrame_Write sb v = Inr bs \<Longrightarrow>
      ParseBlockedFrameLegacy v (bs @ r) = Inr (Frame_StreamBlocked sb, r)"
    using assms u64_u32 [OF *(3)] *(1)
    by (auto simp: ietf_frame_defs blockedFrameLegacy_Write_def ParseBlockedFrameLegacy_def frame_simps)
qed

text \<open>
  A STOP_WAITING frame carries the distance to the number of its own packet, truncated to the length
  of that number.
\<close>

definition StopWaitingFrame_wf :: "StopWaitingFrame \<Rightarrow> bool" where
  "StopWaitingFrame_wf f \<longleftrightarrow>
     sw_PacketNumber f \<noteq> 0 \<and> sw_LeastUnacked f \<le> sw_PacketNumber f
     \<and> sw_PacketNumberLen f \<in> {PacketNumberLen1, PacketNumberLen2, PacketNumberLen4, PacketNumberLen6}
     \<and> unat (sw_PacketNumber f - sw_LeastUnacked f) < 256 ^ unat (sw_PacketNumberLen f)"

lemma be_ReadUintN_1: "be_ReadUintN 1 (b # r) = Inr (u64 b, r)"
  by (simp add: be_ReadUintN_eq ReadBytes_def)

lemma be_bytes_small: "n \<le> 8 \<Longrightarrow> unat v < 256 ^ n \<Longrightarrow> be_ReadUintN (of_nat n) (be_bytes n (unat v) @ r) = Inr (v, r)"
  by (rule be_ReadUintN_be_bytes) (simp_all add: word_le_nat_alt unat_of_nat)

lemma be_bytes_low: "be_bytes n (unat v mod 256 ^ n) = be_bytes n (unat v)"
  by (rule be_bytes_mod)

lemma StopWaitingFrame_Write_eq:
  assumes "StopWaitingFrame_wf f" and "\<not> UsesIETFFrameFormat v"
  shows "StopWaitingFrame_Write f v =
    Inr (0x06 # be_bytes (unat (sw_PacketNumberLen f)) (unat (sw_PacketNumber f - sw_LeastUnacked f)))"
proof -
  define d where "d = sw_PacketNumber f - sw_LeastUnacked f"
  have "be_bytes 1 (unat d) = [u8 d]" by simp
  then show ?thesis
    using assms by (auto simp: low_bytes low_bytes(3) [simplified] StopWaitingFrame_Write_def StopWaitingFrame_wf_def Let_def not_less d_def)
qed

lemma ParseStopWaitingFrame_Write:
  assumes "StopWaitingFrame_wf f" and "StopWaitingFrame_Write f v = Inr bs"
  shows "ParseStopWaitingFrame (sw_PacketNumber f) (sw_PacketNumberLen f) v (bs @ r)
           = Inr (\<lparr> sw_LeastUnacked = sw_LeastUnacked f, sw_PacketNumberLen = 0, sw_PacketNumber = 0 \<rparr>, r)"
    and "StopWaitingFrame_Length f v = Inr (of_nat (length bs))"
proof -
  define d where "d = sw_PacketNumber f - sw_LeastUnacked f"
  have v: "\<not> UsesIETFFrameFormat v" using assms(2) by (auto simp: StopWaitingFrame_Write_def)
  have bs: "bs = 0x06 # be_bytes (unat (sw_PacketNumberLen f)) (unat d)"
    using assms(2) StopWaitingFrame_Write_eq [OF assms(1) v] by (simp add: d_def)
  have wf: "sw_LeastUnacked f \<le> sw_PacketNumber f" "unat d < 256 ^ unat (sw_PacketNumberLen f)"
    "sw_PacketNumberLen f \<le> 8"
    using assms(1) by (auto simp: StopWaitingFrame_wf_def d_def)
  have "be_ReadUintN (sw_PacketNumberLen f) (be_bytes (unat (sw_PacketNumberLen f)) (unat d) @ r) = Inr (d, r)"
    using wf by (simp add: be_ReadUintN_be_bytes)
  moreover have "d \<le> sw_PacketNumber f" using wf(1) by (simp add: d_def word_le_nat_alt unat_sub)
  ultimately show "ParseStopWaitingFrame (sw_PacketNumber f) (sw_PacketNumberLen f) v (bs @ r)
           = Inr (\<lparr> sw_LeastUnacked = sw_LeastUnacked f, sw_PacketNumberLen = 0, sw_PacketNumber = 0 \<rparr>, r)"
    by (simp add: ParseStopWaitingFrame_def bs not_less d_def)
  show "StopWaitingFrame_Length f v = Inr (of_nat (length bs))"
    by (simp add: StopWaitingFrame_Length_def bs)
qed

end
