(* ===== verification/Wire_Stream.thy ===== *)
theory Wire_Stream
  imports Wire_Control
begin

unbundle bit_operations_syntax

section \<open>STREAM frames\<close>

text \<open>
  \<open>stream_frame.go\<close> and \<open>stream_frame_legacy.go\<close>: parsing, writing and measuring STREAM frames in the
  IETF and gQUIC formats, and splitting a frame that does not fit into a packet. A frame without a
  data length extends to the end of its packet.
\<close>

definition DataLen :: "StreamFrame \<Rightarrow> ByteCount" where
  "DataLen f = of_nat (length (sf_Data f))"

subsection \<open>The gQUIC format\<close>

definition parseLegacyStreamFrame :: "VersionNumber \<Rightarrow> StreamFrame reader" where
  "parseLegacyStreamFrame version r =
     rbind (ReadByte r) (\<lambda>typeByte r.
     let finBit = typeByte AND 0x40 > 0;
         dataLenPresent = typeByte AND 0x20 > 0;
         offsetLen = shr (typeByte AND 0x1c) 2;
         offsetLen = (if offsetLen \<noteq> 0 then offsetLen + 1 else offsetLen);
         streamIDLen = (typeByte AND 0x3) + 1
     in rbind (be_ReadUintN streamIDLen r) (\<lambda>sid r.
        rbind (be_ReadUintN offsetLen r) (\<lambda>offset r.
        rbind (if dataLenPresent then be_ReadUint16 r else Inr (0, r)) (\<lambda>dataLen r.
          if unat dataLen > length r then Inl EOF
          else
            let dataLen = (if \<not> dataLenPresent then of_nat (length r) else dataLen)
            in rbind (if dataLen \<noteq> 0 then ReadFull (unat dataLen) r else Inr ([], r)) (\<lambda>bs r.
               let frame = \<lparr> sf_StreamID = sid, sf_FinBit = finBit, sf_DataLenPresent = dataLenPresent,
                             sf_Offset = offset, sf_Data = bs \<rparr>
               in if sf_Offset frame + DataLen frame > MaxByteCount then Inl (QErr InvalidStreamData)
                  else if \<not> sf_FinBit frame \<and> DataLen frame = 0 then Inl (QErr EmptyStreamFrameNoFin)
                  else Inr (frame, r))))))"

definition calculateStreamIDLength :: "StreamFrame \<Rightarrow> byte" where
  "calculateStreamIDLength f =
     (if sf_StreamID f < shl 1 8 then 1
      else if sf_StreamID f < shl 1 16 then 2
      else if sf_StreamID f < shl 1 24 then 3
      else 4)"

definition getOffsetLength :: "StreamFrame \<Rightarrow> ByteCount" where
  "getOffsetLength f =
     (if sf_Offset f = 0 then 0
      else if sf_Offset f < shl 1 16 then 2
      else if sf_Offset f < shl 1 24 then 3
      else if sf_Offset f < shl 1 32 then 4
      else if sf_Offset f < shl 1 40 then 5
      else if sf_Offset f < shl 1 48 then 6
      else if sf_Offset f < shl 1 56 then 7
      else 8)"

definition write_StreamID :: "byte \<Rightarrow> StreamID \<Rightarrow> goerr + byte list" where
  "write_StreamID streamIDLen sid =
     (if streamIDLen = 1 then Inr [u8 sid]
      else if streamIDLen = 2 then Inr (be_WriteUint16 (u16 sid))
      else if streamIDLen = 3 then be_WriteUint24 (u32 sid)
      else if streamIDLen = 4 then Inr (be_WriteUint32 (u32 sid))
      else Inl (GoErr ''StreamFrame: Invalid StreamID length''))"

definition write_Offset :: "ByteCount \<Rightarrow> ByteCount \<Rightarrow> goerr + byte list" where
  "write_Offset offsetLength offset =
     (if offsetLength = 0 then Inr []
      else if offsetLength = 2 then Inr (be_WriteUint16 (u16 offset))
      else if offsetLength = 3 then be_WriteUint24 (u32 offset)
      else if offsetLength = 4 then Inr (be_WriteUint32 (u32 offset))
      else if offsetLength = 5 then be_WriteUint40 offset
      else if offsetLength = 6 then be_WriteUint48 offset
      else if offsetLength = 7 then be_WriteUint56 offset
      else if offsetLength = 8 then Inr (be_WriteUint64 offset)
      else Inl (GoErr ''StreamFrame: Invalid offset length''))"

definition legacy_typeByte :: "StreamFrame \<Rightarrow> byte" where
  "legacy_typeByte f =
     (let typeByte = 0x80;
          typeByte = (if sf_FinBit f then typeByte XOR 0x40 else typeByte);
          typeByte = (if sf_DataLenPresent f then typeByte XOR 0x20 else typeByte);
          offsetLength = getOffsetLength f;
          typeByte = (if offsetLength > 0 then typeByte XOR shl (u8 offsetLength - 1) 2 else typeByte)
      in typeByte XOR (calculateStreamIDLength f - 1))"

definition StreamFrame_writeLegacy :: "StreamFrame \<Rightarrow> VersionNumber \<Rightarrow> goerr + byte list" where
  "StreamFrame_writeLegacy f version =
     (if length (sf_Data f) = 0 \<and> \<not> sf_FinBit f
      then Inl (GoErr ''StreamFrame: attempting to write empty frame without FIN'')
      else
        ebind (write_StreamID (calculateStreamIDLength f) (sf_StreamID f)) (\<lambda>sid.
        ebind (write_Offset (getOffsetLength f) (sf_Offset f)) (\<lambda>offset.
          Inr ([legacy_typeByte f] @ sid @ offset
            @ (if sf_DataLenPresent f then be_WriteUint16 (of_nat (length (sf_Data f))) else [])
            @ sf_Data f))))"

definition headerLengthLegacy :: "StreamFrame \<Rightarrow> VersionNumber \<Rightarrow> ByteCount" where
  "headerLengthLegacy f version =
     (let n = 1 + u64 (calculateStreamIDLength f) + getOffsetLength f
      in if sf_DataLenPresent f then n + 2 else n)"

definition StreamFrame_lengthLegacy :: "StreamFrame \<Rightarrow> VersionNumber \<Rightarrow> ByteCount" where
  "StreamFrame_lengthLegacy f version = headerLengthLegacy f version + DataLen f"

definition maxDataLenLegacy :: "StreamFrame \<Rightarrow> ByteCount \<Rightarrow> VersionNumber \<Rightarrow> ByteCount" where
  "maxDataLenLegacy f maxFrameSize version =
     (let headerLen = headerLengthLegacy f version
      in if headerLen > maxFrameSize then 0 else maxFrameSize - headerLen)"

subsection \<open>The IETF format\<close>

definition ParseStreamFrame :: "VersionNumber \<Rightarrow> StreamFrame reader" where
  "ParseStreamFrame version r =
     (if \<not> UsesIETFFrameFormat version then parseLegacyStreamFrame version r
      else rbind (ReadByte r) (\<lambda>typeByte r.
        let finBit = typeByte AND 0x1 > 0;
            dataLenPresent = typeByte AND 0x2 > 0;
            hasOffset = typeByte AND 0x4 > 0
        in rbind (ReadVarInt r) (\<lambda>streamID r.
           rbind (if hasOffset then ReadVarInt r else Inr (0, r)) (\<lambda>offset r.
           rbind (if dataLenPresent
                  then rbind (ReadVarInt r) (\<lambda>dataLen r.
                         if unat dataLen > length r then Inl EOF else Inr (unat dataLen, r))
                  else Inr (length r, r)) (\<lambda>dataLen r.
           rbind (if dataLen \<noteq> 0 then ReadFull dataLen r else Inr ([], r)) (\<lambda>bs r.
             let frame = \<lparr> sf_StreamID = streamID, sf_FinBit = finBit, sf_DataLenPresent = dataLenPresent,
                           sf_Offset = offset, sf_Data = bs \<rparr>
             in if sf_Offset frame + DataLen frame > MaxByteCount then Inl (QErr InvalidStreamData)
                else if \<not> sf_FinBit frame \<and> DataLen frame = 0 then Inl (QErr EmptyStreamFrameNoFin)
                else Inr (frame, r)))))))"

definition StreamFrame_Write :: "StreamFrame \<Rightarrow> VersionNumber \<Rightarrow> goerr + byte list" where
  "StreamFrame_Write f version =
     (if \<not> UsesIETFFrameFormat version then StreamFrame_writeLegacy f version
      else if length (sf_Data f) = 0 \<and> \<not> sf_FinBit f
      then Inl (GoErr ''StreamFrame: attempting to write empty frame without FIN'')
      else
        let typeByte = 0x10;
            typeByte = (if sf_FinBit f then typeByte XOR 0x1 else typeByte);
            hasOffset = sf_Offset f \<noteq> 0;
            typeByte = (if sf_DataLenPresent f then typeByte XOR 0x2 else typeByte);
            typeByte = (if hasOffset then typeByte XOR 0x4 else typeByte)
        in ebind (WriteVarInt (sf_StreamID f)) (\<lambda>sid.
           ebind (if hasOffset then WriteVarInt (sf_Offset f) else Inr []) (\<lambda>offset.
           ebind (if sf_DataLenPresent f then WriteVarInt (DataLen f) else Inr []) (\<lambda>dataLen.
             Inr ([typeByte] @ sid @ offset @ dataLen @ sf_Data f)))))"

definition StreamFrame_Length :: "StreamFrame \<Rightarrow> VersionNumber \<Rightarrow> goerr + ByteCount" where
  "StreamFrame_Length f version =
     (if \<not> UsesIETFFrameFormat version then Inr (StreamFrame_lengthLegacy f version)
      else
        ebind (VarIntLen (sf_StreamID f)) (\<lambda>sid.
        ebind (if sf_Offset f \<noteq> 0 then VarIntLen (sf_Offset f) else Inr 0) (\<lambda>offset.
        ebind (if sf_DataLenPresent f then VarIntLen (DataLen f) else Inr 0) (\<lambda>dataLen.
          Inr (1 + sid + offset + dataLen + DataLen f)))))"

definition MaxDataLen :: "StreamFrame \<Rightarrow> ByteCount \<Rightarrow> VersionNumber \<Rightarrow> goerr + ByteCount" where
  "MaxDataLen f maxSize version =
     (if \<not> UsesIETFFrameFormat version then Inr (maxDataLenLegacy f maxSize version)
      else
        ebind (VarIntLen (sf_StreamID f)) (\<lambda>sid.
        ebind (if sf_Offset f \<noteq> 0 then VarIntLen (sf_Offset f) else Inr 0) (\<lambda>offset.
          let headerLen = 1 + sid + offset;
              headerLen = (if sf_DataLenPresent f then headerLen + 1 else headerLen)
          in if headerLen > maxSize then Inr 0
             else
               let maxDataLen = maxSize - headerLen
               in if sf_DataLenPresent f
                  then ebind (VarIntLen maxDataLen) (\<lambda>l.
                         Inr (if l \<noteq> 1 then maxDataLen - 1 else maxDataLen))
                  else Inr maxDataLen)))"

text \<open>
  Splitting returns the frame that was split off, if any, and the frame that remains. A slice bound
  beyond the data is a panic (a larger capacity of the slice would let the code read on).
\<close>

definition MaybeSplitOffFrame ::
    "StreamFrame \<Rightarrow> ByteCount \<Rightarrow> VersionNumber \<Rightarrow> goerr + (StreamFrame option \<times> StreamFrame)" where
  "MaybeSplitOffFrame f maxSize version =
     ebind (StreamFrame_Length f version) (\<lambda>len.
       if maxSize \<ge> len then Inr (None, f)
       else ebind (MaxDataLen f maxSize version) (\<lambda>n.
         if n = 0 then Inl (GoErr ''too small'')
         else if unat n > length (sf_Data f) then Inl (Panic ''slice bounds out of range'')
         else Inr (Some \<lparr> sf_StreamID = sf_StreamID f, sf_FinBit = False,
                          sf_DataLenPresent = sf_DataLenPresent f, sf_Offset = sf_Offset f,
                          sf_Data = take (unat n) (sf_Data f) \<rparr>,
                   f\<lparr> sf_Data := drop (unat n) (sf_Data f), sf_Offset := sf_Offset f + n \<rparr>)))"

subsection \<open>The fields of the gQUIC type byte\<close>

lemma getOffsetLength_cases: "getOffsetLength f \<in> {0, 2, 3, 4, 5, 6, 7, 8}"
  by (auto simp: getOffsetLength_def)

lemma calculateStreamIDLength_cases: "calculateStreamIDLength f \<in> {1, 2, 3, 4}"
  by (auto simp: calculateStreamIDLength_def)

lemma legacy_typeByte_bits:
  "legacy_typeByte f AND 0x40 > 0 \<longleftrightarrow> sf_FinBit f"
  "legacy_typeByte f AND 0x20 > 0 \<longleftrightarrow> sf_DataLenPresent f"
  "shr (legacy_typeByte f AND 0x1c) 2 = (if getOffsetLength f = 0 then 0 else u8 (getOffsetLength f) - 1)"
  "legacy_typeByte f AND 0x3 = calculateStreamIDLength f - 1"
  "legacy_typeByte f AND 0x80 = 0x80"
proof -
  define ob where "ob = (if getOffsetLength f > 0 then shl (u8 (getOffsetLength f) - 1) 2 else 0)"
  have o: "ob AND 0x40 = 0" "ob AND 0x20 = 0" "ob AND 0x3 = 0" "ob AND 0x80 = 0" "ob AND 0x1c = ob"
    "shr ob 2 = (if getOffsetLength f = 0 then 0 else u8 (getOffsetLength f) - 1)"
    using getOffsetLength_cases [of f] unfolding ob_def by (elim insertE; simp)+
  define sl where "sl = calculateStreamIDLength f - 1"
  have s: "sl AND 0x40 = 0" "sl AND 0x20 = 0" "sl AND 0x3 = sl" "sl AND 0x80 = 0" "sl AND 0x1c = 0"
    using calculateStreamIDLength_cases [of f] unfolding sl_def by (elim insertE; simp)+
  define t where "t = (if sf_DataLenPresent f then (if sf_FinBit f then 0x80 XOR 0x40 else 0x80) XOR 0x20
                       else (if sf_FinBit f then 0x80 XOR 0x40 else (0x80 :: byte)))"
  have eq: "legacy_typeByte f = (t XOR ob) XOR sl"
    unfolding legacy_typeByte_def Let_def ob_def sl_def t_def
    by (cases "getOffsetLength f > 0"; simp only: if_True if_False xor.right_neutral)
  note distrib = bit.conj_xor_distrib2
  show "legacy_typeByte f AND 0x40 > 0 \<longleftrightarrow> sf_FinBit f"
    unfolding eq distrib o s by (simp add: t_def)
  show "legacy_typeByte f AND 0x20 > 0 \<longleftrightarrow> sf_DataLenPresent f"
    unfolding eq distrib o s by (simp add: t_def)
  show "shr (legacy_typeByte f AND 0x1c) 2 = (if getOffsetLength f = 0 then 0 else u8 (getOffsetLength f) - 1)"
    unfolding eq distrib o s by (simp add: t_def o(6))
  show "legacy_typeByte f AND 0x3 = calculateStreamIDLength f - 1"
    unfolding eq distrib o s by (simp add: t_def sl_def)
  show "legacy_typeByte f AND 0x80 = 0x80"
    unfolding eq distrib o s by (simp add: t_def)
qed

lemma unat_getOffsetLength: "unat (getOffsetLength f) \<le> 8"
  using getOffsetLength_cases [of f] by auto

lemma unat_calculateStreamIDLength: "unat (calculateStreamIDLength f) \<le> 4"
  using calculateStreamIDLength_cases [of f] by auto

lemma getOffsetLength_fits: "unat (sf_Offset f) < 256 ^ unat (getOffsetLength f)"
  using unsigned_less [of "sf_Offset f", where 'a = nat]
  by (auto simp: getOffsetLength_def word_less_nat_alt push_bit_eq_mult unsigned_eq_0_iff)

lemma calculateStreamIDLength_fits:
  "sf_StreamID f < shl 1 32 \<Longrightarrow> unat (sf_StreamID f) < 256 ^ unat (calculateStreamIDLength f)"
  by (auto simp: calculateStreamIDLength_def word_less_nat_alt push_bit_eq_mult)

lemma low_bytes24: "unat w < 2 ^ 24 \<Longrightarrow> be_WriteUint24 (u32 w) = Inr (be_bytes 3 (unat (w :: uint64)))"
proof -
  assume w: "unat w < 2 ^ 24"
  then have "unat (u32 w) = unat w"
    by (simp only: unsigned_ucast_eq) (simp add: take_bit_nat_eq_self)
  with w show ?thesis by (simp add: be_WriteUint24_bytes word_less_nat_alt push_bit_eq_mult)
qed

lemma write_StreamID_eq:
  "sf_StreamID f < shl 1 32 \<Longrightarrow> write_StreamID (calculateStreamIDLength f) (sf_StreamID f)
     = Inr (be_bytes (unat (calculateStreamIDLength f)) (unat (sf_StreamID f)))"
  by (simp add: write_StreamID_def calculateStreamIDLength_def low_bytes low_bytes24
      word_less_nat_alt push_bit_eq_mult)

lemma write_Offset_eq:
  "write_Offset (getOffsetLength f) (sf_Offset f)
     = Inr (be_bytes (unat (getOffsetLength f)) (unat (sf_Offset f)))"
  by (simp add: write_Offset_def getOffsetLength_def low_bytes low_bytes24 be_WriteUint40_bytes
      be_WriteUint48_bytes be_WriteUint56_bytes be_WriteUint64_bytes word_less_nat_alt push_bit_eq_mult)

subsection \<open>Round trips\<close>

definition StreamFrame_wf :: "VersionNumber \<Rightarrow> StreamFrame \<Rightarrow> bool" where
  "StreamFrame_wf version f \<longleftrightarrow>
     (sf_FinBit f \<or> sf_Data f \<noteq> []) \<and> unat (sf_Offset f) + length (sf_Data f) < 2 ^ 62
     \<and> (if UsesIETFFrameFormat version then sf_StreamID f \<le> maxVarInt8
        else sf_StreamID f < shl 1 32 \<and> length (sf_Data f) \<le> 65535)"

lemma unat_DataLen: "length (sf_Data f) < 2 ^ 64 \<Longrightarrow> unat (DataLen f) = length (sf_Data f)"
  by (simp add: DataLen_def unat_of_nat)

lemma StreamFrame_wf_limits:
  assumes "StreamFrame_wf v f"
  shows "\<not> sf_Offset f + DataLen f > MaxByteCount" and "\<not> (\<not> sf_FinBit f \<and> DataLen f = 0)"
    and "sf_Offset f \<le> maxVarInt8" and "DataLen f \<le> maxVarInt8"
    and "length (sf_Data f) < 2 ^ 62" and "unat (DataLen f) = length (sf_Data f)"
proof -
  have *: "unat (sf_Offset f) + length (sf_Data f) < 2 ^ 62" using assms by (simp add: StreamFrame_wf_def)
  then show l: "length (sf_Data f) < 2 ^ 62" by linarith
  then show u: "unat (DataLen f) = length (sf_Data f)" by (intro unat_DataLen) simp
  have "unat (sf_Offset f + DataLen f) = unat (sf_Offset f) + length (sf_Data f)"
    using * u by (simp add: unat_word_ariths)
  then show "\<not> sf_Offset f + DataLen f > MaxByteCount"
    using * by (simp add: word_less_nat_alt MaxByteCount_def push_bit_eq_mult)
  show "\<not> (\<not> sf_FinBit f \<and> DataLen f = 0)"
    using assms u by (auto simp: StreamFrame_wf_def word_unat_eq_iff)
  show "sf_Offset f \<le> maxVarInt8" "DataLen f \<le> maxVarInt8"
    using * u by (simp_all add: word_le_nat_alt)
qed

lemma parseLegacyStreamFrame_writeLegacy:
  assumes wf: "StreamFrame_wf v f" "\<not> UsesIETFFrameFormat v"
    and r: "sf_DataLenPresent f \<or> r = []"
  shows "\<exists>bs. StreamFrame_writeLegacy f v = Inr bs \<and> parseLegacyStreamFrame v (bs @ r) = Inr (f, r)
    \<and> StreamFrame_lengthLegacy f v = of_nat (length bs)"
proof -
  note lim = StreamFrame_wf_limits [OF wf(1)]
  have n: "length (sf_Data f) \<le> 65535" and sid: "sf_StreamID f < shl 1 32"
    and ne: "\<not> (length (sf_Data f) = 0 \<and> \<not> sf_FinBit f)"
    using wf by (auto simp: StreamFrame_wf_def)
  define sidb where "sidb = be_bytes (unat (calculateStreamIDLength f)) (unat (sf_StreamID f))"
  define offb where "offb = be_bytes (unat (getOffsetLength f)) (unat (sf_Offset f))"
  define lenb where "lenb = (if sf_DataLenPresent f then be_WriteUint16 (of_nat (length (sf_Data f))) else [])"
  have W: "StreamFrame_writeLegacy f v = Inr ([legacy_typeByte f] @ sidb @ offb @ lenb @ sf_Data f)"
    using ne by (simp add: StreamFrame_writeLegacy_def write_StreamID_eq [OF sid] write_Offset_eq
        sidb_def offb_def lenb_def)
  have ol: "(if (if getOffsetLength f = 0 then 0 else u8 (getOffsetLength f) - 1 :: byte) \<noteq> 0
      then (if getOffsetLength f = 0 then 0 else u8 (getOffsetLength f) - 1) + 1
      else (if getOffsetLength f = 0 then 0 else u8 (getOffsetLength f) - 1)) = u8 (getOffsetLength f)"
    using getOffsetLength_cases [of f] by auto
  have sidr: "be_ReadUintN (calculateStreamIDLength f) (sidb @ x) = Inr (sf_StreamID f, x)" for x
    unfolding sidb_def using calculateStreamIDLength_cases [of f]
    by (intro be_ReadUintN_be_bytes calculateStreamIDLength_fits [OF sid]) auto
  have offr: "be_ReadUintN (u8 (getOffsetLength f)) (offb @ x) = Inr (sf_Offset f, x)" for x
    unfolding offb_def using getOffsetLength_cases [of f] getOffsetLength_fits [of f]
    by (intro be_ReadUintN_be_bytes) auto
  have data: "(if of_nat (length (sf_Data f)) \<noteq> (0 :: uint16)
      then ReadFull (unat (of_nat (length (sf_Data f)) :: uint16)) (sf_Data f @ r) else Inr ([], sf_Data f @ r))
      = Inr (sf_Data f, r)"
    using n by (auto simp: word_unat_eq_iff unat_of_nat ReadFull_append)
  have "parseLegacyStreamFrame v ([legacy_typeByte f] @ sidb @ offb @ lenb @ sf_Data f @ r) = Inr (f, r)"
    unfolding parseLegacyStreamFrame_def append_Cons append_Nil ReadByte_simps rbind_simps Let_def
      legacy_typeByte_bits ol diff_add_cancel sidr offr
  proof (cases "sf_DataLenPresent f", goal_cases)
    case 1
    have "\<not> unat (of_nat (length (sf_Data f)) :: uint16) > length (sf_Data f @ r)"
      using n by (simp add: unat_of_nat)
    then show ?case
      by (simp only: 1 lenb_def if_True append_assoc be_roundtrip rbind_simps not_True_eq_False if_False data)
        (use 1 lim(1,2) in \<open>simp add: DataLen_def\<close>)
  next
    case 2
    then have r0: "r = []" using r by simp
    note data' = data [unfolded r0 append_Nil2]
    have "\<not> unat (0 :: uint16) > length (sf_Data f)" by simp
    then show ?case
      by (simp only: 2 r0 lenb_def if_True append_Nil append_Nil2 rbind_simps not_False_eq_True if_False data')
        (use 2 lim(1,2) in \<open>simp add: DataLen_def\<close>)
  qed
  moreover have "StreamFrame_lengthLegacy f v = of_nat (length ([legacy_typeByte f] @ sidb @ offb @ lenb @ sf_Data f))"
    by (simp add: StreamFrame_lengthLegacy_def headerLengthLegacy_def Let_def DataLen_def sidb_def offb_def lenb_def)
  ultimately show ?thesis using W by simp
qed

lemma ParseStreamFrame_Write:
  assumes wf: "StreamFrame_wf v f" and r: "sf_DataLenPresent f \<or> r = []"
  shows "\<exists>bs. StreamFrame_Write f v = Inr bs \<and> ParseStreamFrame v (bs @ r) = Inr (f, r)
    \<and> StreamFrame_Length f v = Inr (of_nat (length bs))"
proof (cases "UsesIETFFrameFormat v")
  case False
  with parseLegacyStreamFrame_writeLegacy [OF wf False r] show ?thesis
    by (auto simp: StreamFrame_Write_def ParseStreamFrame_def StreamFrame_Length_def)
next
  case True
  note lim = StreamFrame_wf_limits [OF wf]
  have sid: "sf_StreamID f \<le> maxVarInt8" and ne: "\<not> (length (sf_Data f) = 0 \<and> \<not> sf_FinBit f)"
    using wf True by (auto simp: StreamFrame_wf_def)
  obtain sidb where sidb: "WriteVarInt (sf_StreamID f) = Inr sidb" using WriteVarInt_ok [OF sid] by auto
  obtain offb where offb: "WriteVarInt (sf_Offset f) = Inr offb" using WriteVarInt_ok [OF lim(3)] by auto
  obtain lenb where lenb: "WriteVarInt (DataLen f) = Inr lenb" using WriteVarInt_ok [OF lim(4)] by auto
  have bits: "(t AND 0x1 > 0) = sf_FinBit f" "(t AND 0x2 > 0) = sf_DataLenPresent f"
    "(t AND 0x4 > 0) = (sf_Offset f \<noteq> 0)"
    if "t = (let t = 0x10; t = (if sf_FinBit f then t XOR 0x1 else t);
                 t = (if sf_DataLenPresent f then t XOR 0x2 else t)
             in (if sf_Offset f \<noteq> 0 then t XOR 0x4 else t :: byte))" for t
    unfolding that Let_def by simp_all
  define t where "t = (let t = 0x10; t = (if sf_FinBit f then t XOR 0x1 else t);
                 t = (if sf_DataLenPresent f then t XOR 0x2 else t)
             in (if sf_Offset f \<noteq> 0 then t XOR 0x4 else t :: byte))"
  note bits = bits [OF t_def]
  have data: "(if length (sf_Data f) \<noteq> 0 then ReadFull (length (sf_Data f)) (sf_Data f @ r)
      else Inr ([], sf_Data f @ r)) = Inr (sf_Data f, r)"
    by (simp add: ReadFull_append)
  have W: "StreamFrame_Write f v = Inr ([t] @ sidb @ (if sf_Offset f \<noteq> 0 then offb else [])
      @ (if sf_DataLenPresent f then lenb else []) @ sf_Data f)"
    using True ne by (simp add: StreamFrame_Write_def sidb offb lenb t_def Let_def)
  moreover have "StreamFrame_Length f v = Inr (of_nat (length ([t] @ sidb
      @ (if sf_Offset f \<noteq> 0 then offb else []) @ (if sf_DataLenPresent f then lenb else []) @ sf_Data f)))"
    using True by (simp add: StreamFrame_Length_def length_WriteVarInt [OF sidb] length_WriteVarInt [OF offb]
        length_WriteVarInt [OF lenb] DataLen_def [symmetric] ac_simps)
  moreover have "ParseStreamFrame v ([t] @ sidb @ (if sf_Offset f \<noteq> 0 then offb else [])
      @ (if sf_DataLenPresent f then lenb else []) @ sf_Data f @ r) = Inr (f, r)"
  proof -
    have o: "(if sf_Offset f \<noteq> 0 then ReadVarInt ((if sf_Offset f \<noteq> 0 then offb else []) @ x)
        else Inr (0, (if sf_Offset f \<noteq> 0 then offb else []) @ x)) = Inr (sf_Offset f, x)" for x
      by (simp add: ReadVarInt_WriteVarInt [OF offb])
    have l: "(if sf_DataLenPresent f
        then rbind (ReadVarInt ((if sf_DataLenPresent f then lenb else []) @ sf_Data f @ r)) (\<lambda>dataLen r.
               if unat dataLen > length r then Inl EOF else Inr (unat dataLen, r))
        else Inr (length ((if sf_DataLenPresent f then lenb else []) @ sf_Data f @ r),
                  (if sf_DataLenPresent f then lenb else []) @ sf_Data f @ r))
        = Inr (length (sf_Data f), sf_Data f @ r)"
      using r lim(6) by (auto simp: ReadVarInt_WriteVarInt [OF lenb])
    show ?thesis
      using lim(1,2)
      unfolding ParseStreamFrame_def append_Cons append_Nil ReadByte_simps rbind_simps Let_def bits
        ReadVarInt_WriteVarInt [OF sidb] o l data
      by (simp add: True DataLen_def)
  qed
  ultimately show ?thesis by simp
qed

lemma parseLegacyStreamFrame_shorter: "parseLegacyStreamFrame v r = Inr (f, r') \<Longrightarrow> length r' < length r"
  unfolding parseLegacyStreamFrame_def Let_def by (erule reads_type_byte, intro reading)

lemma ParseStreamFrame_shorter: "ParseStreamFrame v r = Inr (f, r') \<Longrightarrow> length r' < length r"
proof (cases "UsesIETFFrameFormat v")
  case True
  then show "ParseStreamFrame v r = Inr (f, r') \<Longrightarrow> length r' < length r"
    unfolding ParseStreamFrame_def Let_def
    by (simp only: not_True_eq_False if_False) (erule reads_type_byte, intro reading)
qed (use parseLegacyStreamFrame_shorter in \<open>simp add: ParseStreamFrame_def\<close>)

interpretation stream: frame_codec StreamFrame_Write StreamFrame_Length ParseStreamFrame
    "\<lambda>version f. StreamFrame_wf version f \<and> sf_DataLenPresent f"
proof (unfold_locales, goal_cases)
  case (4 v r f r')
  then show ?case by (rule ParseStreamFrame_shorter)
qed (use ParseStreamFrame_Write in fastforce)+

subsection \<open>Splitting a frame\<close>

text \<open>
  \<open>stream_header\<close> is the length of the frame without the data length and without the data, in either
  format; a frame of \<open>m\<close> bytes of data has the length \<open>stream_header + len_field m + m\<close>.
\<close>

definition varint_size :: "nat \<Rightarrow> nat" where
  "varint_size n = (if n \<le> 63 then 1 else if n \<le> 16383 then 2 else if n \<le> 1073741823 then 4 else 8)"

definition stream_header :: "VersionNumber \<Rightarrow> StreamFrame \<Rightarrow> nat" where
  "stream_header v f =
     (if UsesIETFFrameFormat v
      then 1 + varint_size (unat (sf_StreamID f))
           + (if sf_Offset f \<noteq> 0 then varint_size (unat (sf_Offset f)) else 0)
      else 1 + unat (calculateStreamIDLength f) + unat (getOffsetLength f))"

definition len_field :: "VersionNumber \<Rightarrow> StreamFrame \<Rightarrow> nat \<Rightarrow> nat" where
  "len_field v f n =
     (if sf_DataLenPresent f then (if UsesIETFFrameFormat v then varint_size n else 2) else 0)"

lemma VarIntLen_size: "i \<le> maxVarInt8 \<Longrightarrow> VarIntLen i = Inr (of_nat (varint_size (unat i)))"
  by (simp add: VarIntLen_def varint_size_def word_le_nat_alt)

lemma varint_size_bounds: "1 \<le> varint_size n" "varint_size n \<le> 8"
  by (simp_all add: varint_size_def)

lemma stream_header_bounds: "2 \<le> stream_header v f" "stream_header v f \<le> 17"
  using varint_size_bounds [of "unat (sf_StreamID f)"] varint_size_bounds [of "unat (sf_Offset f)"]
    calculateStreamIDLength_cases [of f] getOffsetLength_cases [of f]
  by (auto simp: stream_header_def)

lemma len_field_bound: "len_field v f n \<le> 8"
  using varint_size_bounds [of n] by (simp add: len_field_def)

lemma StreamFrame_Length_eq:
  assumes "StreamFrame_wf v f"
  shows "StreamFrame_Length f v
    = Inr (of_nat (stream_header v f + len_field v f (length (sf_Data f)) + length (sf_Data f)))"
proof -
  note lim = StreamFrame_wf_limits [OF assms]
  have "VarIntLen (DataLen f) = Inr (of_nat (varint_size (length (sf_Data f))))"
    using VarIntLen_size [OF lim(4)] lim(6) by simp
  moreover have "VarIntLen (sf_Offset f) = Inr (of_nat (varint_size (unat (sf_Offset f))))"
    by (rule VarIntLen_size [OF lim(3)])
  moreover have "VarIntLen (sf_StreamID f) = Inr (of_nat (varint_size (unat (sf_StreamID f))))"
    if "UsesIETFFrameFormat v"
    using assms that by (intro VarIntLen_size) (simp add: StreamFrame_wf_def)
  ultimately show ?thesis
    by (simp add: StreamFrame_Length_def StreamFrame_lengthLegacy_def headerLengthLegacy_def Let_def
        DataLen_def stream_header_def len_field_def ac_simps)
qed

text \<open>
  The data that fits: all of \<open>maxSize\<close> is used, except when the length field of exactly the remaining
  size would need one more byte.
\<close>

lemma MaxDataLen_eq:
  assumes wf: "StreamFrame_wf v f" and m: "unat maxSize \<le> 16384"
  defines "h \<equiv> stream_header v f + len_field v f 0"
  shows "MaxDataLen f maxSize v = Inr (of_nat
    (if unat maxSize < h then 0
     else if sf_DataLenPresent f \<and> UsesIETFFrameFormat v \<and> 63 < unat maxSize - h then unat maxSize - h - 1
     else unat maxSize - h))"
proof -
  note lim = StreamFrame_wf_limits [OF wf]
  have h: "h \<le> 25" using stream_header_bounds [of v f] len_field_bound [of v f 0] by (simp add: h_def)
  have sub: "maxSize - of_nat h = of_nat (unat maxSize - h)" "of_nat h \<le> maxSize" if "h \<le> unat maxSize"
    using that h by (simp_all add: word_unat_eq_iff unat_sub_if' unat_of_nat word_le_nat_alt)
  have lt: "of_nat h > maxSize \<longleftrightarrow> unat maxSize < h"
    using h by (simp add: word_less_nat_alt unat_of_nat)
  show ?thesis
  proof (cases "UsesIETFFrameFormat v")
    case False
    then have "headerLengthLegacy f v = of_nat h"
      by (simp add: headerLengthLegacy_def h_def stream_header_def len_field_def)
    with False sub lt show ?thesis
      by (auto simp: MaxDataLen_def maxDataLenLegacy_def not_less)
  next
    case True
    have sid: "VarIntLen (sf_StreamID f) = Inr (of_nat (varint_size (unat (sf_StreamID f))))"
      using wf True by (intro VarIntLen_size) (simp add: StreamFrame_wf_def)
    have off: "VarIntLen (sf_Offset f) = Inr (of_nat (varint_size (unat (sf_Offset f))))"
      by (rule VarIntLen_size [OF lim(3)])
    define hl where "hl = 1 + of_nat (varint_size (unat (sf_StreamID f)))
        + (if sf_Offset f \<noteq> 0 then of_nat (varint_size (unat (sf_Offset f))) else (0 :: uint64))"
    have hl: "(if sf_DataLenPresent f then hl + 1 else hl) = of_nat h"
      using True by (simp add: hl_def h_def stream_header_def len_field_def varint_size_def [of 0])
    have eq: "MaxDataLen f maxSize v =
      (if of_nat h > maxSize then Inr 0
       else if sf_DataLenPresent f
       then ebind (VarIntLen (maxSize - of_nat h)) (\<lambda>l.
              Inr (if l \<noteq> 1 then maxSize - of_nat h - 1 else maxSize - of_nat h))
       else Inr (maxSize - of_nat h))"
    proof -
      have offe: "(if sf_Offset f \<noteq> 0 then VarIntLen (sf_Offset f) else Inr 0)
          = Inr (if sf_Offset f \<noteq> 0 then of_nat (varint_size (unat (sf_Offset f))) else 0)"
        by (simp add: off)
      show ?thesis
        unfolding MaxDataLen_def sid offe ebind_simps Let_def hl_def [symmetric] hl
        by (simp only: True not_True_eq_False if_False)
    qed
    show ?thesis
    proof (cases "unat maxSize < h")
      case False
      then have le: "h \<le> unat maxSize" by simp
      define n where "n = unat maxSize - h"
      have n: "n \<le> 16383"
        using m le stream_header_bounds(1) [of v f] by (simp add: n_def h_def)
      then have "unat (of_nat n :: uint64) = n" by (simp add: unat_of_nat)
      with n have "VarIntLen (of_nat n) = Inr (if n \<le> 63 then 1 else 2)"
        by (simp add: VarIntLen_def word_le_nat_alt)
      moreover have "(of_nat n - 1 :: uint64) = of_nat (n - 1)" if "63 < n" using that by simp
      ultimately show ?thesis
        using False True unfolding eq lt sub(1) [OF le] n_def [symmetric] by (auto simp: not_le)
    qed (simp add: eq lt)
  qed
qed

lemma len_field_step:
  assumes "n = (if sf_DataLenPresent f \<and> UsesIETFFrameFormat v \<and> 63 < m then m - 1 else m)" and "m \<le> 16384"
  shows "len_field v f n + n \<le> len_field v f 0 + m"
  using assms by (auto simp: len_field_def varint_size_def)

lemma split_leaves_data:
  assumes n: "n = (if sf_DataLenPresent f \<and> UsesIETFFrameFormat v \<and> 63 < m then m - 1 else m)"
    and m: "m \<le> 16384" and L: "len_field v f 0 + m < len_field v f L + L"
  shows "n < L"
  using assms by (auto simp: len_field_def varint_size_def split: if_splits)

lemma MaybeSplitOffFrame_sound:
  assumes wf: "StreamFrame_wf v f" and m: "unat maxSize \<le> 16384"
    and split: "MaybeSplitOffFrame f maxSize v = Inr (Some g, f')"
  shows "sf_Data g @ sf_Data f' = sf_Data f" and "sf_Data g \<noteq> []" and "sf_Data f' \<noteq> []"
    and "unat (sf_Offset f') = unat (sf_Offset g) + length (sf_Data g)" and "sf_Offset g = sf_Offset f"
    and "sf_StreamID g = sf_StreamID f" and "sf_StreamID f' = sf_StreamID f"
    and "\<not> sf_FinBit g" and "sf_FinBit f' = sf_FinBit f"
    and "StreamFrame_wf v g" and "StreamFrame_wf v f'"
    and "\<exists>len. StreamFrame_Length g v = Inr len \<and> len \<le> maxSize"
proof -
  note lim = StreamFrame_wf_limits [OF wf]
  define L where "L = length (sf_Data f)"
  define m' where "m' = unat maxSize - (stream_header v f + len_field v f 0)"
  define n where "n = (if sf_DataLenPresent f \<and> UsesIETFFrameFormat v \<and> 63 < m' then m' - 1 else m')"
  have L: "L < 2 ^ 62" using lim(5) by (simp add: L_def)
  have m': "m' \<le> 16384" using m by (simp add: m'_def)
  define T where "T = stream_header v f + len_field v f L + L"
  have Leq: "StreamFrame_Length f v = Inr (of_nat T)"
    unfolding L_def T_def by (rule StreamFrame_Length_eq [OF wf])
  have "T < 2 ^ 64"
    using L stream_header_bounds [of v f] len_field_bound [of v f L] by (simp add: T_def)
  then have un: "unat (of_nat T :: uint64) = T" by (simp add: unat_of_nat)
  have small: "unat maxSize < T"
    using split by (auto simp: MaybeSplitOffFrame_def Leq word_le_nat_alt un not_le split: if_splits)
  have hdr: "stream_header v f + len_field v f 0 \<le> unat maxSize" and npos: "0 < n"
    and g: "g = \<lparr> sf_StreamID = sf_StreamID f, sf_FinBit = False, sf_DataLenPresent = sf_DataLenPresent f,
              sf_Offset = sf_Offset f, sf_Data = take n (sf_Data f) \<rparr>"
    and f': "f' = f\<lparr> sf_Data := drop n (sf_Data f), sf_Offset := sf_Offset f + of_nat n \<rparr>"
  proof -
    have "MaxDataLen f maxSize v =
        Inr (of_nat (if unat maxSize < stream_header v f + len_field v f 0 then 0 else n))"
      unfolding MaxDataLen_eq [OF wf m] n_def m'_def by simp
    moreover have "unat (of_nat n :: uint64) = n" using m' by (simp add: n_def unat_of_nat)
    moreover have "of_nat n \<noteq> (0 :: uint64) \<longrightarrow> 0 < n" by (cases n) auto
    moreover have "\<not> of_nat T \<le> maxSize"
      using small by (simp only: word_le_nat_alt un)
    ultimately show "stream_header v f + len_field v f 0 \<le> unat maxSize" and "0 < n"
      and "g = \<lparr> sf_StreamID = sf_StreamID f, sf_FinBit = False, sf_DataLenPresent = sf_DataLenPresent f,
              sf_Offset = sf_Offset f, sf_Data = take n (sf_Data f) \<rparr>"
      and "f' = f\<lparr> sf_Data := drop n (sf_Data f), sf_Offset := sf_Offset f + of_nat n \<rparr>"
      using split unfolding MaybeSplitOffFrame_def Leq ebind_simps
      by (auto split: if_splits)
  qed
  have nL: "n < L" using small hdr by (intro split_leaves_data [OF n_def m']) (simp add: m'_def T_def)
  have off: "unat (sf_Offset f) + L < 2 ^ 62" using wf by (simp add: StreamFrame_wf_def L_def)
  have uoff: "unat (sf_Offset f + of_nat n) = unat (sf_Offset f) + n"
    using off nL by (simp add: unat_word_ariths unat_of_nat)
  show "sf_Data g @ sf_Data f' = sf_Data f" "sf_Data g \<noteq> []" "sf_Data f' \<noteq> []"
    "sf_Offset g = sf_Offset f" "sf_StreamID g = sf_StreamID f" "sf_StreamID f' = sf_StreamID f"
    "\<not> sf_FinBit g" "sf_FinBit f' = sf_FinBit f"
    "unat (sf_Offset f') = unat (sf_Offset g) + length (sf_Data g)"
    using npos nL uoff by (auto simp: g f' L_def)
  show wfg: "StreamFrame_wf v g" "StreamFrame_wf v f'"
    using wf npos nL uoff off by (auto simp: StreamFrame_wf_def g f' L_def split: if_splits)
  have hg: "stream_header v g = stream_header v f" "len_field v g = len_field v f" "length (sf_Data g) = n"
    using nL by (auto simp: g stream_header_def len_field_def calculateStreamIDLength_def getOffsetLength_def
        fun_eq_iff L_def)
  have "len_field v f n + n \<le> len_field v f 0 + m'" by (rule len_field_step [OF n_def m'])
  then have le: "stream_header v f + len_field v f n + n \<le> unat maxSize" using hdr by (simp add: m'_def)
  then have "of_nat (stream_header v f + len_field v f n + n) \<le> maxSize"
    using unsigned_less [of maxSize, where 'a = nat] by (simp only: word_le_nat_alt unat_of_nat) simp
  then show "\<exists>len. StreamFrame_Length g v = Inr len \<and> len \<le> maxSize"
    unfolding StreamFrame_Length_eq [OF wfg(1)] hg by blast
qed

text \<open>A frame that fits is left alone, and splitting fails only if not even one byte fits.\<close>

lemma MaybeSplitOffFrame_total:
  assumes wf: "StreamFrame_wf v f" and m: "unat maxSize \<le> 16384"
  shows "MaybeSplitOffFrame f maxSize v =
    (if stream_header v f + len_field v f (length (sf_Data f)) + length (sf_Data f) \<le> unat maxSize
     then Inr (None, f)
     else if unat maxSize \<le> stream_header v f + len_field v f 0 then Inl (GoErr ''too small'')
     else MaybeSplitOffFrame f maxSize v)
   \<and> (\<forall>e. MaybeSplitOffFrame f maxSize v = Inl e \<longrightarrow> e = GoErr ''too small'')"
proof -
  note lim = StreamFrame_wf_limits [OF wf]
  define L where "L = length (sf_Data f)"
  define T where "T = stream_header v f + len_field v f L + L"
  have Leq: "StreamFrame_Length f v = Inr (of_nat T)"
    unfolding L_def T_def by (rule StreamFrame_Length_eq [OF wf])
  have "T < 2 ^ 64"
    using lim(5) stream_header_bounds [of v f] len_field_bound [of v f L] by (simp add: T_def L_def)
  then have un: "unat (of_nat T :: uint64) = T" by (simp add: unat_of_nat)
  define h where "h = stream_header v f + len_field v f 0"
  define m' where "m' = unat maxSize - h"
  define n where "n = (if sf_DataLenPresent f \<and> UsesIETFFrameFormat v \<and> 63 < m' then m' - 1 else m')"
  have m': "m' \<le> 16384" using m by (simp add: m'_def)
  have M: "MaxDataLen f maxSize v = Inr (of_nat (if unat maxSize < h then 0 else n))"
    unfolding MaxDataLen_eq [OF wf m] n_def m'_def h_def by simp
  have nn: "unat (of_nat n :: uint64) = n" using m' by (simp add: n_def unat_of_nat)
  have nL: "unat maxSize < T \<and> h \<le> unat maxSize \<longrightarrow> n < L"
    by (intro impI split_leaves_data [OF n_def m']) (unfold m'_def T_def h_def, arith)
  have n0: "(of_nat n :: uint64) = 0 \<longleftrightarrow> m' = 0" using nn by (auto simp: word_unat_eq_iff n_def)
  show ?thesis
    unfolding L_def [symmetric] T_def [symmetric] h_def [symmetric] MaybeSplitOffFrame_def Leq ebind_simps M
    using nL n0 nn by (auto simp: word_le_nat_alt un m'_def L_def)
qed

subsection \<open>What a parsed frame satisfies\<close>

lemma rbind_InrE:
  "rbind m f = Inr y \<Longrightarrow> (\<And>x s. m = Inr (x, s) \<Longrightarrow> f x s = Inr y \<Longrightarrow> P) \<Longrightarrow> P"
  by (auto simp: rbind_Inr_iff)

lemma ReadVarInt_range: "ReadVarInt r = Inr (i, r') \<Longrightarrow> i \<le> maxVarInt8 \<and> length r' \<le> length r"
  using ReadVarInt_consumes [of r i r'] WriteVarInt_defined [of i] by auto

lemma ParseStreamFrame_limits:
  assumes "UsesIETFFrameFormat v" and "ParseStreamFrame v r = Inr (f, r')" and "length r < 2 ^ 62"
  shows "unat (sf_Offset f) + length (sf_Data f) < 2 ^ 62" and "sf_FinBit f \<or> sf_Data f \<noteq> []"
proof -
  obtain b s where r: "r = b # s" using assms(1,2) by (cases r) (auto simp: ParseStreamFrame_def)
  have "sf_Offset f \<le> maxVarInt8 \<and> length (sf_Data f) \<le> length r
    \<and> \<not> sf_Offset f + DataLen f > MaxByteCount \<and> \<not> (\<not> sf_FinBit f \<and> DataLen f = 0)"
    using assms(2) unfolding r ParseStreamFrame_def Let_def ReadByte_simps rbind_simps
    by (simp only: assms(1) not_True_eq_False if_False, elim rbind_InrE)
      (auto simp: ReadFull_Inr_iff rbind_Inr_iff dest!: ReadVarInt_range split: if_splits)
  then show "unat (sf_Offset f) + length (sf_Data f) < 2 ^ 62" and "sf_FinBit f \<or> sf_Data f \<noteq> []"
    using assms(3) unat_DataLen [of f]
    by (auto simp: word_less_nat_alt word_le_nat_alt MaxByteCount_def push_bit_eq_mult unat_word_ariths word_unat_eq_iff)
qed

subsection \<open>Properties\<close>

text \<open>C18: A well-formed STREAM frame, in the IETF or the gQUIC format, is written in exactly the length
  announced to the packer and is parsed back unchanged, provided it carries its data length or ends
  its packet.\<close>

theorem stream_frame_roundtrip:
  assumes "StreamFrame_wf v f" and "sf_DataLenPresent f \<or> r = []"
  shows "\<exists>bs. StreamFrame_Write f v = Inr bs \<and> ParseStreamFrame v (bs @ r) = Inr (f, r)
    \<and> StreamFrame_Length f v = Inr (of_nat (length bs))"
  by (rule ParseStreamFrame_Write [OF assms])

theorem stream_frame_roundtrip_witness:
  "\<exists>bs. StreamFrame_Write \<lparr> sf_StreamID = 5, sf_FinBit = False, sf_DataLenPresent = True, sf_Offset = 0x1234,
          sf_Data = [1, 2, 3] \<rparr> Version39 = Inr bs
    \<and> ParseStreamFrame Version39 (bs @ [7]) = Inr (\<lparr> sf_StreamID = 5, sf_FinBit = False,
          sf_DataLenPresent = True, sf_Offset = 0x1234, sf_Data = [1, 2, 3] \<rparr>, [7])"
  using stream_frame_roundtrip [of Version39 "\<lparr> sf_StreamID = 5, sf_FinBit = False,
      sf_DataLenPresent = True, sf_Offset = 0x1234, sf_Data = [1, 2, 3] \<rparr>" "[7]"]
  by (auto simp: StreamFrame_wf_def UsesIETFFrameFormat_def word_less_nat_alt push_bit_eq_mult)

text \<open>Splitting a frame that does not fit into \<open>maxSize\<close> bytes yields two well-formed frames of the
  same stream that carry the data without loss, overlap or gap; the first fits and is not empty, and
  only the second may end the stream.\<close>

theorem split_frame_correct:
  assumes "StreamFrame_wf v f" and "unat maxSize \<le> 16384"
    and "MaybeSplitOffFrame f maxSize v = Inr (Some g, f')"
  shows "sf_Data g @ sf_Data f' = sf_Data f \<and> sf_Data g \<noteq> [] \<and> sf_Data f' \<noteq> []
    \<and> sf_Offset g = sf_Offset f \<and> unat (sf_Offset f') = unat (sf_Offset g) + length (sf_Data g)
    \<and> sf_StreamID g = sf_StreamID f \<and> sf_StreamID f' = sf_StreamID f
    \<and> \<not> sf_FinBit g \<and> sf_FinBit f' = sf_FinBit f \<and> StreamFrame_wf v g \<and> StreamFrame_wf v f'
    \<and> (\<exists>len. StreamFrame_Length g v = Inr len \<and> len \<le> maxSize)"
  using MaybeSplitOffFrame_sound [OF assms] by blast

theorem split_frame_correct_witness:
  "\<exists>g f'. MaybeSplitOffFrame \<lparr> sf_StreamID = 5, sf_FinBit = True, sf_DataLenPresent = True, sf_Offset = 0,
          sf_Data = replicate 100 1 \<rparr> 80 VersionTLS = Inr (Some g, f')
    \<and> sf_Data g @ sf_Data f' = replicate 100 1 \<and> \<not> sf_FinBit g \<and> sf_FinBit f'"
proof -
  define f where "f = \<lparr> sf_StreamID = 5, sf_FinBit = True, sf_DataLenPresent = True, sf_Offset = 0,
          sf_Data = replicate 100 (1 :: byte) \<rparr>"
  have wf: "StreamFrame_wf VersionTLS f"
    by (simp add: f_def StreamFrame_wf_def UsesIETFFrameFormat_def version_defs)
  have "\<exists>g f'. MaybeSplitOffFrame f 80 VersionTLS = Inr (Some g, f')"
    by (simp add: f_def MaybeSplitOffFrame_def StreamFrame_Length_def MaxDataLen_def DataLen_def VarIntLen_def
        UsesIETFFrameFormat_def version_defs)
  then obtain g f' where s: "MaybeSplitOffFrame f 80 VersionTLS = Inr (Some g, f')" by blast
  show ?thesis using split_frame_correct [OF wf _ s] s by (auto simp: f_def)
qed

text \<open>A gQUIC frame whose offset and length overflow 64 bits passes the check against the largest
  offset: the sum wraps around before it is compared.\<close>

theorem gquic_offset_overflow_accepted:
  "\<exists>f. ParseStreamFrame Version39 [0xbc, 5, 0xff, 0xff, 0xff, 0xff, 0xff, 0xff, 0xff, 0xff, 0, 1, 0x41] = Inr (f, [])
     \<and> MaxByteCount < sf_Offset f \<and> sf_Offset f + DataLen f = 0"
  by (simp add: ParseStreamFrame_def parseLegacyStreamFrame_def UsesIETFFrameFormat_def Let_def be_ReadUintN_eq
      ReadBytes_def be_ReadUint16_def ReadFull_def DataLen_def MaxByteCount_def push_bit_eq_mult)

end
