(* ===== verification/Float16.thy ===== *)
theory Float16
  imports Byte_Order
begin

unbundle bit_operations_syntax

section \<open>The 16-bit floats of gQUIC\<close>

text \<open>
  \<open>internal/utils/float16.go\<close>: an unsigned float of 5 exponent and 11 mantissa bits, used for the
  ACK delay in gQUIC frames. Both functions take the byte order as a parameter, as in the code; what
  they promise is proved in the locale \<open>byte_order\<close> once and holds for both implementations.
\<close>

abbreviation (input) uFloat16MaxValue :: uint64 where "uFloat16MaxValue \<equiv> shl (shl 1 12 - 1) 30"

definition ufloat16_decode :: "uint16 \<Rightarrow> uint64" where
  "ufloat16_decode val =
     (let res = u64 val in
      if res < shl 1 12 then res
      else let exponent = shr val 11 - 1;
               res = res - shl (u64 exponent) 11
           in shl res (unat exponent))"

definition readUfloat16 :: "uint16 reader \<Rightarrow> uint64 reader" where
  "readUfloat16 readUint16 r = rbind (readUint16 r) (\<lambda>val r. Inr (ufloat16_decode val, r))"

function ufloat16_shift :: "uint16 \<Rightarrow> uint16 \<Rightarrow> uint64 \<Rightarrow> uint16 \<times> uint64" where
  "ufloat16_shift offset exponent v =
     (if offset > 0
      then if v \<ge> shl 1 (unat (11 + offset))
           then ufloat16_shift (offset div 2) (exponent + offset) (shr v (unat offset))
           else ufloat16_shift (offset div 2) exponent v
      else (exponent, v))"
  by pat_completeness auto
termination
  by (relation "measure (\<lambda>(offset, exponent, v). unat offset)")
    (auto simp: unat_div word_less_nat_alt)

declare ufloat16_shift.simps [simp del]

definition ufloat16_encode :: "uint64 \<Rightarrow> uint16" where
  "ufloat16_encode v =
     (if v < shl 1 12 then u16 v
      else if v \<ge> uFloat16MaxValue then 0xffff
      else case ufloat16_shift 16 0 v of (exponent, v) \<Rightarrow> u16 v + shl exponent 11)"

definition writeUfloat16 :: "(uint16 \<Rightarrow> byte list) \<Rightarrow> uint64 \<Rightarrow> byte list" where
  "writeUfloat16 writeUint16 v = writeUint16 (ufloat16_encode v)"

subsection \<open>The search for the exponent\<close>

text \<open>
  Starting from \<open>2 ^ k\<close> the loop finds how far the value must be shifted for its highest bit to reach
  position 11.
\<close>

lemma ufloat16_shift_correct:
  assumes "k \<le> 4" and "2 ^ 11 \<le> unat v" and "unat v < 2 ^ (11 + 2 ^ Suc k)"
  shows "\<exists>e < 2 ^ Suc k. ufloat16_shift (of_nat (2 ^ k)) x v = (x + of_nat e, shr v e)
            \<and> 2 ^ 11 \<le> unat v div 2 ^ e \<and> unat v div 2 ^ e < 2 ^ 12"
  using assms
proof (induction k arbitrary: x v)
  case 0
  have stop: "ufloat16_shift 0 y v = (y, v)" for y v by (simp add: ufloat16_shift.simps)
  show ?case
  proof (cases "2 ^ 12 \<le> unat v")
    case True
    moreover from True 0 have "2048 \<le> unat v div 2 \<and> unat v div 2 < 4096" by simp linarith
    ultimately show ?thesis
      by (intro exI [of _ 1])
        (simp add: ufloat16_shift.simps [of 1] stop word_le_nat_alt push_bit_eq_mult drop_bit_eq_div)
  next
    case False
    with 0 show ?thesis
      by (intro exI [of _ 0])
        (simp add: ufloat16_shift.simps [of 1] stop word_le_nat_alt push_bit_eq_mult)
  qed
next
  case (Suc k)
  define p where "p = (2 :: nat) ^ k"
  define o' where "o' = 2 * p"
  have o'_eq: "o' = 2 ^ Suc k" by (simp add: o'_def p_def)
  have o': "o' \<le> 16" "0 < o'"
    using Suc.prems(1) power_increasing [of "Suc k" 4 "2 :: nat"] by (auto simp: o'_eq)
  have off: "unat (of_nat o' :: uint16) = o'" "(0 :: uint16) < of_nat o'"
    "unat (11 + of_nat o' :: uint16) = 11 + o'" "of_nat o' div (2 :: uint16) = of_nat p"
    using o' by (simp_all add: unat_of_nat word_less_nat_alt unat_word_ariths word_unat_eq_iff unat_div)
      (simp add: o'_def)
  have one: "unat (shl 1 (11 + o') :: uint64) = 2 ^ (11 + o')"
    using o' by (simp add: push_bit_eq_mult unat_p2)
  note shr = unat_shr [of _ v]
  note unfold = ufloat16_shift.simps [of "of_nat o'" x v]
  show ?case
  proof (cases "2 ^ (11 + o') \<le> unat v")
    case True
    have "unat (shr v o') < 2 ^ (11 + 2 ^ Suc k)"
    proof -
      have "11 + 2 ^ Suc (Suc k) = 11 + 2 ^ Suc k + o'" by (simp add: o'_eq)
      then show ?thesis
        using Suc.prems(3) by (simp only: shr power_add less_mult_imp_div_less)
    qed
    moreover have "2 ^ 11 \<le> unat (shr v o')"
      using True by (simp add: shr power_add less_eq_div_iff_mult_less_eq)
    ultimately obtain e where e: "e < 2 ^ Suc k"
      "ufloat16_shift (of_nat p) (x + of_nat o') (shr v o')
         = (x + of_nat o' + of_nat e, shr (shr v o') e)"
      "2 ^ 11 \<le> unat v div 2 ^ o' div 2 ^ e" "unat v div 2 ^ o' div 2 ^ e < 2 ^ 12"
      using Suc.IH [of "shr v o'" "x + of_nat o'"] Suc.prems(1) by (auto simp: shr p_def)
    have "ufloat16_shift (of_nat o') x v = (x + of_nat (o' + e), shr v (o' + e))"
      using True e(2) off one by (simp add: unfold word_le_nat_alt ac_simps)
    with e show ?thesis
      by (intro exI [of _ "o' + e"]) (auto simp: o'_eq power_add div_mult2_eq)
  next
    case False
    then have "unat v < 2 ^ (11 + 2 ^ Suc k)" by (simp add: o'_eq)
    then obtain e where e: "e < 2 ^ Suc k"
      "ufloat16_shift (of_nat p) x v = (x + of_nat e, shr v e)"
      "2 ^ 11 \<le> unat v div 2 ^ e" "unat v div 2 ^ e < 2 ^ 12"
      using Suc.IH [of v x] Suc.prems by (auto simp: p_def)
    have "ufloat16_shift (of_nat o') x v = (x + of_nat e, shr v e)"
      using False e(2) off one by (simp add: unfold word_le_nat_alt)
    with e show ?thesis by (intro exI [of _ e]) (auto simp: o'_eq)
  qed
qed

subsection \<open>Encoding and decoding as arithmetic\<close>

lemma unat_ufloat16_decode:
  "unat (ufloat16_decode x) =
     (if unat x < 4096 then unat x
      else (2048 + unat x mod 2048) * 2 ^ (unat x div 2048 - 1))"
proof (cases "unat x < 4096")
  case True
  then show ?thesis
    by (simp add: ufloat16_decode_def Let_def word_less_nat_alt unsigned_ucast_eq take_bit_nat_eq_self push_bit_eq_mult)
next
  case False
  define q where "q = unat x div 2048"
  have x: "unat x = q * 2048 + unat x mod 2048" by (simp add: q_def)
  have "unat x < 65536" using unsigned_less [of x, where 'a = nat] by simp
  then have q: "2 \<le> q" "q < 32" using False unfolding q_def by linarith+
  have ux: "unat (u64 x) = unat x"
    using \<open>unat x < 65536\<close> by (simp add: unsigned_ucast_eq take_bit_nat_eq_self)
  have e: "unat (shr x 11 - 1) = q - 1"
  proof -
    have "unat (shr x 11) = q" by (simp only: unat_drop_bit_eq) (simp add: drop_bit_eq_div q_def)
    then show ?thesis using q by (simp add: unat_sub_if')
  qed
  have "unat (shl (u64 (shr x 11 - 1)) 11) = (q - 1) * 2048"
    using q by (simp add: push_bit_eq_mult unat_word_ariths unsigned_ucast_eq e take_bit_nat_eq_self)
  then have res: "unat (u64 x - shl (u64 (shr x 11 - 1)) 11) = 2048 + unat x mod 2048"
    using q x ux by (auto simp: unat_sub_if' diff_mult_distrib)
  have "(2048 + unat x mod 2048) * 2 ^ (q - 1) < 2 ^ 12 * 2 ^ 31"
    using power_strict_increasing [of "q - 1" 31 "2 :: nat"] q by (intro mult_strict_mono) auto
  then have "unat (shl (u64 x - shl (u64 (shr x 11 - 1)) 11) (q - 1)) = (2048 + unat x mod 2048) * 2 ^ (q - 1)"
    using q by (simp only: push_bit_eq_mult unat_word_ariths res [unfolded push_bit_eq_mult]) (simp add: unat_p2)
  with False show ?thesis
    by (simp add: ufloat16_decode_def Let_def word_less_nat_alt ux e push_bit_eq_mult q_def)
qed

lemma unat_ufloat16_encode:
  "\<exists>e m. unat (ufloat16_encode v) = e * 2048 + m
     \<and> (unat v < 4096 \<longrightarrow> e = 0 \<and> m = unat v)
     \<and> (4398046511104 - 1073741824 \<le> unat v \<longrightarrow> e = 30 \<and> m = 4095)
     \<and> (4096 \<le> unat v \<and> unat v < 4398046511104 - 1073741824 \<longrightarrow>
          e \<le> 31 \<and> 2048 \<le> m \<and> m < 4096 \<and> m = unat v div 2 ^ e \<and> 0 < e)"
proof -
  consider "unat v < 4096" | "4398046511104 - 1073741824 \<le> unat v"
    | "4096 \<le> unat v" "unat v < 4398046511104 - 1073741824" by linarith
  then show ?thesis
  proof cases
    case 1
    then show ?thesis
      by (intro exI [of _ 0] exI [of _ "unat v"])
        (simp add: ufloat16_encode_def word_less_nat_alt push_bit_eq_mult unsigned_ucast_eq take_bit_nat_eq_self)
  next
    case 2
    then show ?thesis
      by (intro exI [of _ 30] exI [of _ 4095])
        (simp add: ufloat16_encode_def word_less_nat_alt word_le_nat_alt push_bit_eq_mult)
  next
    case 3
    then obtain e where e: "e < 32" "ufloat16_shift 16 0 v = (of_nat e, shr v e)"
      "2048 \<le> unat v div 2 ^ e" "unat v div 2 ^ e < 4096"
      using ufloat16_shift_correct [of 4 v 0] by auto
    have "0 < e" using e(4) 3(1) by (cases e) auto
    have "e \<noteq> 31"
    proof
      assume "e = 31"
      with e(3) 3(2) show False by simp
    qed
    with e(1) have e30: "e \<le> 30" by simp
    have "unat (u16 (shr v e)) = unat v div 2 ^ e"
      using e(4) by (simp only: unsigned_ucast_eq unat_shr) (simp add: take_bit_nat_eq_self)
    moreover have "unat (shl (of_nat e :: uint16) 11) = e * 2048"
      using e(1) by (simp add: push_bit_eq_mult unat_word_ariths unat_of_nat)
    ultimately have "unat (u16 (shr v e) + shl (of_nat e) 11) = e * 2048 + unat v div 2 ^ e"
      using e e30 by (simp add: unat_word_ariths)
    then show ?thesis
      using 3 e \<open>0 < e\<close>
      by (intro exI [of _ e] exI [of _ "unat v div 2 ^ e"])
        (simp add: ufloat16_encode_def word_less_nat_alt word_le_nat_alt push_bit_eq_mult)
  qed
qed

subsection \<open>The round trips, for either byte order\<close>

lemma unat_decode_encode:
  defines "d v \<equiv> unat (ufloat16_decode (ufloat16_encode v))"
  shows "unat v < 4096 \<Longrightarrow> d v = unat v"
    and "unat uFloat16MaxValue \<le> unat v \<Longrightarrow> d v = unat uFloat16MaxValue"
    and "unat v < unat uFloat16MaxValue \<Longrightarrow> d v \<le> unat v \<and> 2048 * (unat v - d v) \<le> unat v"
proof -
  have max: "unat uFloat16MaxValue = 4398046511104 - 1073741824" by (simp add: push_bit_eq_mult)
  obtain e m where em: "unat (ufloat16_encode v) = e * 2048 + m"
    "unat v < 4096 \<Longrightarrow> e = 0 \<and> m = unat v"
    "4398046511104 - 1073741824 \<le> unat v \<Longrightarrow> e = 30 \<and> m = 4095"
    "4096 \<le> unat v \<and> unat v < 4398046511104 - 1073741824 \<Longrightarrow>
       e \<le> 31 \<and> 2048 \<le> m \<and> m < 4096 \<and> m = unat v div 2 ^ e \<and> 0 < e"
    using unat_ufloat16_encode [of v] by metis
  show "d v = unat v" if "unat v < 4096" using that em by (simp add: d_def unat_ufloat16_decode)
  show "d v = unat uFloat16MaxValue" if "unat uFloat16MaxValue \<le> unat v"
    using that em(1,3) by (simp add: d_def unat_ufloat16_decode max del: of_nat_numeral)
  have d: "d v = m * 2 ^ e" if "4096 \<le> unat v" "unat v < 4398046511104 - 1073741824"
  proof -
    have *: "2048 \<le> m" "m < 4096" "0 < e" using em(4) that by auto
    then obtain l where l: "m = 2048 + l" "l < 2048" using le_Suc_ex by force
    have "(e * 2048 + (2048 + l)) mod 2048 = l" "(e * 2048 + (2048 + l)) div 2048 = Suc e"
      using l(2) by simp_all
    with * em(1) l show ?thesis by (simp add: d_def unat_ufloat16_decode)
  qed
  show "d v \<le> unat v \<and> 2048 * (unat v - d v) \<le> unat v" if lt: "unat v < unat uFloat16MaxValue"
  proof (cases "unat v < 4096")
    case False
    with lt em(4) max have m: "2048 \<le> m" "m = unat v div 2 ^ e" by auto
    have dv: "d v = m * 2 ^ e" using d False lt max by simp
    have r: "unat v = m * 2 ^ e + unat v mod 2 ^ e" unfolding m(2) by (rule div_mult_mod_eq [symmetric])
    have "2048 * (unat v mod 2 ^ e) \<le> 2048 * 2 ^ e"
      by (intro mult_left_mono less_imp_le mod_less_divisor) auto
    also have "\<dots> \<le> m * 2 ^ e" using m(1) by simp
    finally show ?thesis using dv r by linarith
  qed (use em in \<open>simp add: d_def unat_ufloat16_decode\<close>)
qed

lemma exponent_unique:
  fixes a b m n :: nat
  assumes "2048 \<le> m" "m < 4096" "2048 \<le> n" "n < 4096" and eq: "m * 2 ^ a = n * 2 ^ b + c" "c < 2 ^ b"
  shows "a = b"
proof -
  have False if "a < b"
  proof -
    have "m * 2 ^ a < 4096 * 2 ^ a" using assms(2) by simp
    also have "\<dots> \<le> 2048 * 2 ^ b" using power_increasing [of "Suc a" b "2 :: nat"] that by simp
    also have "\<dots> \<le> n * 2 ^ b" using assms by simp
    finally show False using eq by simp
  qed
  moreover have False if "b < a"
  proof -
    have "n * 2 ^ b + c < (n + 1) * 2 ^ b" using eq(2) by simp
    also have "\<dots> \<le> 4096 * 2 ^ b" using assms(4) by (intro mult_right_mono) auto
    also have "\<dots> \<le> 2048 * 2 ^ a" using power_increasing [of "Suc b" a "2 :: nat"] that by simp
    also have "\<dots> \<le> m * 2 ^ a" using assms(1) by simp
    finally show False using eq by simp
  qed
  ultimately show ?thesis by (meson nat_neq_iff)
qed

lemma ufloat16_encode_decode: "ufloat16_encode (ufloat16_decode x) = x"
proof -
  have x16: "unat x < 65536" using unsigned_less [of x, where 'a = nat] by simp
  obtain e m where em: "unat (ufloat16_encode (ufloat16_decode x)) = e * 2048 + m"
    "unat (ufloat16_decode x) < 4096 \<Longrightarrow> e = 0 \<and> m = unat (ufloat16_decode x)"
    "4398046511104 - 1073741824 \<le> unat (ufloat16_decode x) \<Longrightarrow> e = 30 \<and> m = 4095"
    "4096 \<le> unat (ufloat16_decode x) \<and> unat (ufloat16_decode x) < 4398046511104 - 1073741824 \<Longrightarrow>
       e \<le> 31 \<and> 2048 \<le> m \<and> m < 4096 \<and> m = unat (ufloat16_decode x) div 2 ^ e \<and> 0 < e"
    using unat_ufloat16_encode [of "ufloat16_decode x"] by metis
  show ?thesis
  proof (cases "unat x < 4096")
    case True
    then have "unat (ufloat16_decode x) = unat x" by (simp add: unat_ufloat16_decode)
    with True em(1,2) show ?thesis by (simp add: word_unat_eq_iff)
  next
    case False
    define q r where "q = unat x div 2048 - 1" and "r = 2048 + unat x mod 2048"
    have "unat x div 2048 = q + 1" using False unfolding q_def by linarith
    then have q: "1 \<le> q" "q \<le> 30" and r: "2048 \<le> r" "r < 4096" and xqr: "unat x = q * 2048 + r"
      using False x16 div_mult_mod_eq [of "unat x" 2048] unfolding r_def by (linarith | simp)+
    have d: "unat (ufloat16_decode x) = r * 2 ^ q"
      using False by (simp add: unat_ufloat16_decode q_def r_def)
    have ge: "4096 \<le> r * 2 ^ q"
      using mult_mono [OF r(1) power_increasing [OF q(1), of "2 :: nat"]] by simp
    have "e = q \<and> m = r"
    proof (cases "4398046511104 - 1073741824 \<le> r * 2 ^ q")
      case True
      then have "e = 30" "m = 4095" using em(3) d by auto
      have "r * 2 ^ q < 4096 * 2 ^ q" using r by simp
      with True have "(4398046511104 - 1073741824 :: nat) < 4096 * 2 ^ q" by (rule le_less_trans)
      then have "2 * 2 ^ q > (2 :: nat) ^ 30" by simp
      then have "q = 30" using power_strict_increasing_iff [of "2 :: nat" 30 "Suc q"] q by simp
      with True r show ?thesis by (simp add: \<open>e = 30\<close> \<open>m = 4095\<close>)
    next
      case False
      then have m: "2048 \<le> m" "m < 4096" "m = r * 2 ^ q div 2 ^ e" using em(4) d ge by auto
      have "r * 2 ^ q = m * 2 ^ e + r * 2 ^ q mod 2 ^ e" unfolding m(3) by (rule div_mult_mod_eq [symmetric])
      from exponent_unique [OF r m(1,2) this] have "q = e" by simp
      with m(3) show ?thesis by simp
    qed
    with em(1) xqr show ?thesis by (simp add: word_unat_eq_iff)
  qed
qed

context byte_order
begin

lemma readUfloat16_writeUfloat16:
  "readUfloat16 ReadUint16 (writeUfloat16 WriteUint16 v @ r) = Inr (ufloat16_decode (ufloat16_encode v), r)"
  by (simp add: readUfloat16_def writeUfloat16_def ReadUint16_Write)

lemma readUfloat16_exact:
  "v < 4096 \<Longrightarrow> readUfloat16 ReadUint16 (writeUfloat16 WriteUint16 v @ r) = Inr (v, r)"
  using unat_decode_encode(1) [of v]
  by (simp add: readUfloat16_writeUfloat16 word_less_nat_alt word_unat_eq_iff)

lemma readUfloat16_rewrite:
  "writeUfloat16 WriteUint16 (ufloat16_decode x) = WriteUint16 x"
  by (simp add: writeUfloat16_def ufloat16_encode_decode)

end

subsection \<open>Properties\<close>

text \<open>The 16-bit float of an ACK delay, big endian as on the wire: it reads back exactly below
  4096, never above the value written and at most one part in 2048 below it, and values beyond the
  largest float become the largest float. Every 16-bit pattern survives reading and writing again.\<close>

theorem float16_roundtrip:
  "\<exists>d. readUfloat16 be_ReadUint16 (writeUfloat16 be_WriteUint16 v @ r) = Inr (d, r)
     \<and> (if unat v < 4096 then d = v
        else if uFloat16MaxValue \<le> v then d = uFloat16MaxValue
        else d \<le> v \<and> 2048 * (unat v - unat d) \<le> unat v)
     \<and> writeUfloat16 be_WriteUint16 (ufloat16_decode x) = be_WriteUint16 x"
  using unat_decode_encode [of v]
  by (intro exI [of _ "ufloat16_decode (ufloat16_encode v)"])
    (simp add: BigEndian.readUfloat16_writeUfloat16 BigEndian.readUfloat16_rewrite word_unat_eq_iff word_le_nat_alt)

end
