(* ===== verification/Wire_Ack.thy ===== *)
theory Wire_Ack
  imports Wire_Control Float16 "HOL-Library.Signed_Division"
begin

unbundle bit_operations_syntax

section \<open>ACK frames\<close>

text \<open>
  \<open>ack_frame.go\<close> and \<open>ack_frame_legacy.go\<close>: the ranges of packet numbers an ACK frame acknowledges,
  their validation, and the IETF and gQUIC formats. The gQUIC writer stamps the frame with the time
  since the packet was received; that duration is the argument \<open>since\<close>. Durations are divided with Go's
  truncating division. The gQUIC parser keeps the ranges in a slice whose last element it updates; the
  model keeps them newest first and reverses them at the end.
\<close>

abbreviation (input) errInvalidAckRanges :: goerr where
  "errInvalidAckRanges \<equiv> GoErr ''AckFrame: ACK frame contains invalid ACK ranges''"

definition HasMissingRanges :: "AckFrame \<Rightarrow> bool" where
  "HasMissingRanges f \<longleftrightarrow> length (ack_AckRanges f) > 0"

fun ranges_ordered :: "AckRange list \<Rightarrow> bool" where
  "ranges_ordered (lst # r # rs) =
     (if ar_First lst \<le> ar_First r then False
      else if ar_First lst \<le> ar_Last r + 1 then False
      else ranges_ordered (r # rs))"
| "ranges_ordered rs = True"

definition validateAckRanges :: "AckFrame \<Rightarrow> bool" where
  "validateAckRanges f =
     (let rs = ack_AckRanges f in
      if length rs = 0 then True
      else if length rs = 1 then False
      else if ar_Last (rs ! 0) \<noteq> ack_LargestAcked f then False
      else if (\<exists>r\<in>set rs. ar_First r > ar_Last r) then False
      else ranges_ordered rs)"

definition AcksPacket :: "AckFrame \<Rightarrow> PacketNumber \<Rightarrow> bool" where
  "AcksPacket f p =
     (if p < ack_LowestAcked f \<or> p > ack_LargestAcked f then False
      else if HasMissingRanges f
      then (\<exists>r\<in>set (ack_AckRanges f). p \<ge> ar_First r \<and> p \<le> ar_Last r)
      else p \<ge> ack_LowestAcked f \<and> p \<le> ack_LargestAcked f)"

subsection \<open>The IETF format\<close>

definition encodeAckDelay :: "Duration \<Rightarrow> uint64" where
  "encodeAckDelay delay = word_of_int (sint delay sdiv (1000 * 2 ^ 3))"

fun parse_ack_blocks :: "nat \<Rightarrow> PacketNumber \<Rightarrow> (PacketNumber \<times> AckRange list) reader" where
  "parse_ack_blocks 0 smallest r = Inr ((smallest, []), r)"
| "parse_ack_blocks (Suc n) smallest r =
     rbind (ReadVarInt r) (\<lambda>gap r.
     if smallest < gap + 2 then Inl errInvalidAckRanges
     else
       let largest = smallest - gap - 2
       in rbind (ReadVarInt r) (\<lambda>ackBlock r.
          if ackBlock > largest then Inl errInvalidAckRanges
          else
            let smallest = largest - ackBlock
            in rbind (parse_ack_blocks n smallest r) (\<lambda>(lowest, rs) r.
               Inr ((lowest, \<lparr> ar_First = smallest, ar_Last = largest \<rparr> # rs), r))))"

definition ParseAckFrame_IETF :: "AckFrame reader" where
  "ParseAckFrame_IETF r =
     rbind (ReadByte r) (\<lambda>_ r.
     rbind (ReadVarInt r) (\<lambda>largestAcked r.
     rbind (ReadVarInt r) (\<lambda>delay r.
     rbind (ReadVarInt r) (\<lambda>numBlocks r.
     rbind (ReadVarInt r) (\<lambda>ackBlock r.
       if ackBlock > largestAcked then Inl (GoErr ''invalid first ACK range'')
       else
         let smallest = largestAcked - ackBlock
         in rbind (parse_ack_blocks (unat numBlocks) smallest r) (\<lambda>(lowest, rs) r.
            let frame = \<lparr> ack_LargestAcked = largestAcked, ack_LowestAcked = lowest,
                  ack_AckRanges = (if numBlocks > 0
                     then \<lparr> ar_First = smallest, ar_Last = largestAcked \<rparr> # rs else rs),
                  ack_PacketReceivedTime = 0, ack_DelayTime = shl (delay * 1) 3 * 1000 \<rparr>
            in if \<not> validateAckRanges frame then Inl errInvalidAckRanges else Inr (frame, r)))))))"

fun write_ack_blocks :: "PacketNumber \<Rightarrow> AckRange list \<Rightarrow> goerr + byte list" where
  "write_ack_blocks lowest [] = Inr []"
| "write_ack_blocks lowest (r # rs) =
     ebind (WriteVarInt (lowest - ar_Last r - 2)) (\<lambda>gap.
     ebind (WriteVarInt (ar_Last r - ar_First r)) (\<lambda>ackBlock.
     ebind (write_ack_blocks (ar_First r) rs) (\<lambda>bs. Inr (gap @ ackBlock @ bs))))"

definition AckFrame_Write_IETF :: "AckFrame \<Rightarrow> goerr + byte list" where
  "AckFrame_Write_IETF f =
     ebind (WriteVarInt (ack_LargestAcked f)) (\<lambda>largest.
     ebind (WriteVarInt (encodeAckDelay (ack_DelayTime f))) (\<lambda>delay.
     let numBlocks = (if HasMissingRanges f then of_nat (length (ack_AckRanges f) - 1) else 0);
         lowestInFirstRange = (if HasMissingRanges f then ar_First (ack_AckRanges f ! 0) else ack_LowestAcked f)
     in ebind (WriteVarInt numBlocks) (\<lambda>num.
        ebind (WriteVarInt (ack_LargestAcked f - lowestInFirstRange)) (\<lambda>first.
        if \<not> HasMissingRanges f then Inr ([0xe] @ largest @ delay @ num @ first)
        else ebind (write_ack_blocks lowestInFirstRange (tl (ack_AckRanges f))) (\<lambda>bs.
             Inr ([0xe] @ largest @ delay @ num @ first @ bs))))))"

fun length_ack_blocks :: "PacketNumber \<Rightarrow> AckRange list \<Rightarrow> goerr + ByteCount" where
  "length_ack_blocks lowest [] = Inr 0"
| "length_ack_blocks lowest (r # rs) =
     ebind (VarIntLen (lowest - ar_Last r - 2)) (\<lambda>gap.
     ebind (VarIntLen (ar_Last r - ar_First r)) (\<lambda>ackBlock.
     ebind (length_ack_blocks (ar_First r) rs) (\<lambda>n. Inr (gap + ackBlock + n))))"

definition AckFrame_Length_IETF :: "AckFrame \<Rightarrow> goerr + ByteCount" where
  "AckFrame_Length_IETF f =
     ebind (VarIntLen (ack_LargestAcked f)) (\<lambda>largest.
     ebind (VarIntLen (encodeAckDelay (ack_DelayTime f))) (\<lambda>delay.
     let numBlocks = (if HasMissingRanges f then of_nat (length (ack_AckRanges f) - 1) else 0);
         lowestInFirstRange = (if HasMissingRanges f then ar_First (ack_AckRanges f ! 0) else ack_LowestAcked f)
     in ebind (VarIntLen numBlocks) (\<lambda>num.
        ebind (VarIntLen (ack_LargestAcked f - lowestInFirstRange)) (\<lambda>first.
        if \<not> HasMissingRanges f then Inr (1 + largest + delay + num + first)
        else ebind (length_ack_blocks lowestInFirstRange (tl (ack_AckRanges f))) (\<lambda>n.
             Inr (1 + largest + delay + num + first + n))))))"

subsection \<open>The gQUIC format: parsing\<close>

fun parse_legacy_blocks ::
    "nat \<Rightarrow> byte \<Rightarrow> bool \<Rightarrow> bool \<Rightarrow> AckRange list \<Rightarrow> (bool \<times> AckRange list) reader" where
  "parse_legacy_blocks 0 deltaLen inLongBlock lastRangeComplete rs r = Inr ((lastRangeComplete, rs), r)"
| "parse_legacy_blocks (Suc n) deltaLen inLongBlock lastRangeComplete rs r =
     rbind (ReadByte r) (\<lambda>gap r.
     rbind (be_ReadUintN deltaLen r) (\<lambda>ackBlockLength r.
       let lst = hd rs;
           complete = (if inLongBlock then lastRangeComplete else False);
           rs = (if inLongBlock
                 then lst\<lparr> ar_First := ar_First lst - (u64 gap + ackBlockLength),
                          ar_Last := ar_Last lst - u64 gap \<rparr> # tl rs
                 else (let newLast = ar_First lst - u64 gap - 1
                       in \<lparr> ar_First = newLast - ackBlockLength + 1, ar_Last = newLast \<rparr> # rs));
           complete = (if ackBlockLength > 0 then True else complete)
       in parse_legacy_blocks n deltaLen (ackBlockLength = 0) complete rs r))"

fun skip_timestamps :: "nat \<Rightarrow> unit reader" where
  "skip_timestamps 0 r = Inr ((), r)"
| "skip_timestamps (Suc n) r =
     rbind (ReadByte r) (\<lambda>_ r. rbind (be_ReadUint16 r) (\<lambda>_ r. skip_timestamps n r))"

definition parseAckFrameLegacy :: "AckFrame reader" where
  "parseAckFrameLegacy r =
     rbind (ReadByte r) (\<lambda>typeByte r.
     let hasMissingRanges = (typeByte AND 0x20 = 0x20);
         largestAckedLen = 2 * shr (typeByte AND 0x0C) 2;
         largestAckedLen = (if largestAckedLen = 0 then 1 else largestAckedLen);
         deltaLen = 2 * (typeByte AND 0x03);
         deltaLen = (if deltaLen = 0 then 1 else deltaLen)
     in rbind (be_ReadUintN largestAckedLen r) (\<lambda>largestAcked r.
        rbind (readUfloat16 be_ReadUint16 r) (\<lambda>delay r.
        rbind (if hasMissingRanges then ReadByte r else Inr (0, r)) (\<lambda>numAckBlocks r.
        if hasMissingRanges \<and> numAckBlocks = 0 then Inl errInvalidAckRanges
        else rbind (be_ReadUintN deltaLen r) (\<lambda>ackBlockLength r.
        if largestAcked > 0 \<and> ackBlockLength < 1 then Inl (GoErr ''invalid first ACK range'')
        else if ackBlockLength > largestAcked + 1 then Inl errInvalidAckRanges
        else rbind
          (if hasMissingRanges
           then rbind (parse_legacy_blocks (unat numAckBlocks) deltaLen False False
                  [\<lparr> ar_First = largestAcked - ackBlockLength + 1, ar_Last = largestAcked \<rparr>] r)
                (\<lambda>(lastRangeComplete, rs) r.
                   let rs = (if \<not> lastRangeComplete then tl rs else rs)
                   in if rs = [] then Inl (Panic ''index out of range'')
                      else Inr ((ar_First (hd rs), rev rs), r))
           else Inr ((if largestAcked = 0 then 0 else largestAcked + 1 - ackBlockLength, []), r))
          (\<lambda>(lowestAcked, rs) r.
           let frame = \<lparr> ack_LargestAcked = largestAcked, ack_LowestAcked = lowestAcked,
                 ack_AckRanges = rs, ack_PacketReceivedTime = 0, ack_DelayTime = delay * 1000 \<rparr>
           in if \<not> validateAckRanges frame then Inl errInvalidAckRanges
              else rbind (ReadByte r) (\<lambda>numTimestamp r.
                if numTimestamp > 0
                then rbind (ReadByte r) (\<lambda>_ r.
                     rbind (be_ReadUint32 r) (\<lambda>_ r.
                     rbind (skip_timestamps (unat numTimestamp - 1) r) (\<lambda>_ r. Inr (frame, r))))
                else Inr (frame, r))))))))"

subsection \<open>The gQUIC format: writing\<close>

fun max_range_length :: "PacketNumber \<Rightarrow> AckRange list \<Rightarrow> PacketNumber" where
  "max_range_length maxLen [] = maxLen"
| "max_range_length maxLen (r # rs) =
     (let rangeLength = ar_Last r - ar_First r + 1
      in max_range_length (if rangeLength > maxLen then rangeLength else maxLen) rs)"

definition getMissingSequenceNumberDeltaLen :: "AckFrame \<Rightarrow> PacketNumberLen" where
  "getMissingSequenceNumberDeltaLen f =
     (let maxRangeLength =
        (if HasMissingRanges f then max_range_length 0 (ack_AckRanges f)
         else ack_LargestAcked f - ack_LowestAcked f + 1)
      in if maxRangeLength \<le> 0xFF then PacketNumberLen1
         else if maxRangeLength \<le> 0xFFFF then PacketNumberLen2
         else if maxRangeLength \<le> 0xFFFFFFFF then PacketNumberLen4
         else PacketNumberLen6)"

fun count_writable :: "uint64 \<Rightarrow> AckRange \<Rightarrow> AckRange list \<Rightarrow> uint64" where
  "count_writable numRanges lst [] = numRanges"
| "count_writable numRanges lst (r # rs) =
     (let gap = ar_First lst - ar_Last r - 1;
          rangeLength = 1 + gap div 0xFF;
          rangeLength = (if gap mod 0xFF = 0 then rangeLength - 1 else rangeLength)
      in if numRanges + rangeLength < 0xFF then count_writable (numRanges + rangeLength) r rs
         else numRanges)"

definition numWritableNackRanges :: "AckFrame \<Rightarrow> uint64" where
  "numWritableNackRanges f =
     (case ack_AckRanges f of [] \<Rightarrow> 0 | r # rs \<Rightarrow> count_writable 0 r rs + 1)"

definition write_len :: "PacketNumberLen \<Rightarrow> uint64 \<Rightarrow> goerr + byte list" where
  "write_len n x =
     (if n = PacketNumberLen1 then Inr [u8 x]
      else if n = PacketNumberLen2 then Inr (be_WriteUint16 (u16 x))
      else if n = PacketNumberLen4 then Inr (be_WriteUint32 (u32 x))
      else if n = PacketNumberLen6 then be_WriteUint48 (x AND (shl 1 48 - 1))
      else Inr [])"

fun write_long_blocks :: "nat \<Rightarrow> PacketNumberLen \<Rightarrow> PacketNumber \<Rightarrow> PacketNumber \<Rightarrow> goerr + byte list" where
  "write_long_blocks 0 deltaLen gap len = Inr []"
| "write_long_blocks (Suc k) deltaLen gap len =
     ebind (if k = 0
            then ebind (write_len deltaLen len) (\<lambda>bs. Inr ([u8 (1 + (gap - 1) mod 255)] @ bs))
            else ebind (write_len deltaLen 0) (\<lambda>bs. Inr ([0xFF] @ bs))) (\<lambda>b.
     ebind (write_long_blocks k deltaLen gap len) (\<lambda>bs. Inr (b @ bs)))"

fun write_legacy_ranges ::
    "PacketNumberLen \<Rightarrow> uint64 \<Rightarrow> uint64 \<Rightarrow> AckRange \<Rightarrow> AckRange list \<Rightarrow> goerr + (byte list \<times> uint64)" where
  "write_legacy_ranges deltaLen numRanges numRangesWritten lst [] = Inr ([], numRangesWritten)"
| "write_legacy_ranges deltaLen numRanges numRangesWritten lst (r # rs) =
     (let len = ar_Last r - ar_First r + 1;
          gap = ar_First lst - ar_Last r - 1;
          num = gap div 0xFF + 1;
          num = (if gap mod 0xFF = 0 then num - 1 else num)
      in ebind (if num = 1 then ebind (write_len deltaLen len) (\<lambda>bs. Inr ([u8 gap] @ bs))
                else write_long_blocks (unat num) deltaLen gap len) (\<lambda>b.
         if numRangesWritten + num \<ge> numRanges then Inr (b, numRangesWritten + num)
         else ebind (write_legacy_ranges deltaLen numRanges (numRangesWritten + num) r rs) (\<lambda>(bs, n).
              Inr (b @ bs, n))))"

definition legacy_ack_typeByte :: "AckFrame \<Rightarrow> byte" where
  "legacy_ack_typeByte f =
     (let largestAckedLen = GetPacketNumberLength (ack_LargestAcked f);
          typeByte = 0x40;
          typeByte = (if largestAckedLen \<noteq> PacketNumberLen1
                      then typeByte XOR shl (largestAckedLen div 2) 2 else typeByte);
          deltaLen = getMissingSequenceNumberDeltaLen f;
          typeByte = (if deltaLen \<noteq> PacketNumberLen1 then typeByte XOR (deltaLen div 2) else typeByte)
      in if HasMissingRanges f then typeByte OR 0x20 else typeByte)"

definition AckFrame_writeLegacy :: "Duration \<Rightarrow> AckFrame \<Rightarrow> goerr + (byte list \<times> AckFrame)" where
  "AckFrame_writeLegacy since f =
     ebind (write_len (GetPacketNumberLength (ack_LargestAcked f)) (ack_LargestAcked f)) (\<lambda>largest.
     let delay = writeUfloat16 be_WriteUint16 (word_of_int (sint since sdiv 1000));
         f = f\<lparr> ack_DelayTime := since \<rparr>;
         deltaLen = getMissingSequenceNumberDeltaLen f;
         numRanges = (if HasMissingRanges f then numWritableNackRanges f else 0)
     in if HasMissingRanges f \<and> numRanges > 0xFF then Inl (Panic ''AckFrame: Too many ACK ranges'')
     else if HasMissingRanges f \<and> ack_LargestAcked f \<noteq> ar_Last (ack_AckRanges f ! 0)
     then Inl (GoErr ''internal inconsistency: LargestAcked does not match ACK ranges'')
     else if HasMissingRanges f
          \<and> ack_LowestAcked f \<noteq> ar_First (ack_AckRanges f ! (length (ack_AckRanges f) - 1))
     then Inl (GoErr ''internal inconsistency: LowestAcked does not match ACK ranges'')
     else
       let num = (if HasMissingRanges f then [u8 (numRanges - 1)] else []);
           firstAckBlockLength =
             (if \<not> HasMissingRanges f then ack_LargestAcked f - ack_LowestAcked f + 1
              else ack_LargestAcked f - ar_First (ack_AckRanges f ! 0) + 1);
           numRangesWritten = (if HasMissingRanges f then 1 else 0)
       in ebind (write_len deltaLen firstAckBlockLength) (\<lambda>first.
          ebind (case ack_AckRanges f of [] \<Rightarrow> Inr ([], numRangesWritten)
                 | r # rs \<Rightarrow> write_legacy_ranges deltaLen numRanges numRangesWritten r rs)
            (\<lambda>(bs, numRangesWritten).
             if numRanges \<noteq> numRangesWritten
             then Inl (GoErr ''BUG: Inconsistent number of ACK ranges written'')
             else Inr ([legacy_ack_typeByte f] @ largest @ delay @ num @ first @ bs @ [0], f))))"

definition AckFrame_lengthLegacy :: "AckFrame \<Rightarrow> ByteCount" where
  "AckFrame_lengthLegacy f =
     (let n = (1 + 2 + 1) + u64 (GetPacketNumberLength (ack_LargestAcked f));
          deltaLen = u64 (getMissingSequenceNumberDeltaLen f)
      in if HasMissingRanges f then n + (1 + deltaLen) * numWritableNackRanges f
         else n + deltaLen)"

subsection \<open>Dispatch on the version\<close>

definition ParseAckFrame :: "VersionNumber \<Rightarrow> AckFrame reader" where
  "ParseAckFrame version r =
     (if \<not> UsesIETFFrameFormat version then parseAckFrameLegacy r else ParseAckFrame_IETF r)"

definition AckFrame_Write :: "Duration \<Rightarrow> AckFrame \<Rightarrow> VersionNumber \<Rightarrow> goerr + (byte list \<times> AckFrame)" where
  "AckFrame_Write since f version =
     (if \<not> UsesIETFFrameFormat version then AckFrame_writeLegacy since f
      else ebind (AckFrame_Write_IETF f) (\<lambda>bs. Inr (bs, f)))"

definition AckFrame_Length :: "AckFrame \<Rightarrow> VersionNumber \<Rightarrow> goerr + ByteCount" where
  "AckFrame_Length f version =
     (if \<not> UsesIETFFrameFormat version then Inr (AckFrame_lengthLegacy f) else AckFrame_Length_IETF f)"

subsection \<open>Well-formed frames\<close>

text \<open>
  \<open>ack_wf\<close>: what a frame built from a received packet history satisfies, and what the parsers check.
  The ranges descend, with at least one missing packet between two neighbours; the first ends at the
  largest packet acknowledged and the last begins at the lowest.
\<close>

definition ack_wf :: "AckFrame \<Rightarrow> bool" where
  "ack_wf f \<longleftrightarrow>
     validateAckRanges f
     \<and> (\<forall>r \<in> set (ack_AckRanges f). ar_Last r \<le> ack_LargestAcked f)
     \<and> (if HasMissingRanges f then ack_LowestAcked f = ar_First (last (ack_AckRanges f))
        else ack_LowestAcked f \<le> ack_LargestAcked f)"

lemma ack_wf_cases:
  assumes "ack_wf f"
  obtains (single) "ack_AckRanges f = []" "\<not> HasMissingRanges f" "ack_LowestAcked f \<le> ack_LargestAcked f"
  | (ranges) r rs where "ack_AckRanges f = r # rs" "rs \<noteq> []" "HasMissingRanges f"
      "ar_Last r = ack_LargestAcked f" "ranges_ordered (r # rs)"
      "\<forall>r' \<in> set (r # rs). ar_First r' \<le> ar_Last r'" "\<forall>r' \<in> set (r # rs). ar_Last r' \<le> ack_LargestAcked f"
      "ack_LowestAcked f = ar_First (last (r # rs))"
proof (cases "ack_AckRanges f")
  case Nil
  with assms show ?thesis by (intro single) (auto simp: ack_wf_def HasMissingRanges_def)
next
  case (Cons r rs)
  with assms have "rs \<noteq> []" by (auto simp: ack_wf_def validateAckRanges_def)
  with assms Cons show ?thesis
    by (intro ranges) (auto simp: ack_wf_def validateAckRanges_def HasMissingRanges_def not_less split: if_splits)
qed

lemma ranges_step:
  assumes "ranges_ordered (lst # r # rs)" and "ar_First r \<le> ar_Last r" and "ar_Last r \<le> maxVarInt8"
  shows "unat (ar_First r) \<le> unat (ar_Last r)" and "unat (ar_Last r) + 2 \<le> unat (ar_First lst)"
    and "ranges_ordered (r # rs)"
proof -
  have "\<not> ar_First lst \<le> ar_Last r + 1" using assms(1) by (auto split: if_splits)
  moreover have "unat (ar_Last r + 1) = unat (ar_Last r) + 1"
    using assms(3) by (simp add: word_le_nat_alt unat_word_ariths)
  ultimately show "unat (ar_Last r) + 2 \<le> unat (ar_First lst)" by (simp add: word_le_nat_alt)
  show "unat (ar_First r) \<le> unat (ar_Last r)" using assms(2) by (simp add: word_le_nat_alt)
  show "ranges_ordered (r # rs)" using assms(1) by (auto split: if_splits)
qed

lemma last_below_first:
  assumes "ranges_ordered (lst # rs)" and "\<forall>r \<in> set rs. ar_First r \<le> ar_Last r \<and> ar_Last r \<le> maxVarInt8"
  shows "\<forall>r \<in> set rs. ar_Last r < ar_First lst"
  using assms
proof (induction rs arbitrary: lst)
  case (Cons r rs)
  from Cons.prems have *: "ar_First r \<le> ar_Last r" "ar_Last r \<le> maxVarInt8" by auto
  note st = ranges_step [OF Cons.prems(1) *]
  have "ar_Last r < ar_First lst" using st by (simp add: word_less_nat_alt)
  moreover have "\<forall>r' \<in> set rs. ar_Last r' < ar_First r" using Cons.IH [OF st(3)] Cons.prems(2) by auto
  ultimately show ?case using * by auto
qed simp

text \<open>The check against the bounds in \<open>AcksPacket\<close> never changes its answer on a well-formed frame.\<close>

lemma AcksPacket_eq:
  assumes "ack_wf f" and "ack_LargestAcked f \<le> maxVarInt8"
  shows "AcksPacket f p \<longleftrightarrow>
    (if HasMissingRanges f then \<exists>r \<in> set (ack_AckRanges f). ar_First r \<le> p \<and> p \<le> ar_Last r
     else ack_LowestAcked f \<le> p \<and> p \<le> ack_LargestAcked f)"
  using assms(1)
proof (cases rule: ack_wf_cases)
  case (ranges r rs)
  have low: "\<forall>r' \<in> set (r # rs). ar_First (last (r # rs)) \<le> ar_First r'"
    using ranges(5-7) assms(2)
  proof (induction rs arbitrary: r)
    case (Cons r2 rs)
    then have *: "ar_First r2 \<le> ar_Last r2" "ar_Last r2 \<le> maxVarInt8" by auto
    have IH: "\<forall>r' \<in> set (r2 # rs). ar_First (last (r2 # rs)) \<le> ar_First r'"
      using Cons ranges_step(3) [OF Cons.prems(1) *] by auto
    have "ar_First r2 \<le> ar_First r" using ranges_step(1,2) [OF Cons.prems(1) *] by (simp add: word_le_nat_alt)
    with IH have "ar_First (last (r2 # rs)) \<le> ar_First r" by (meson list.set_intros(1) order_trans)
    with IH show ?case by auto
  qed simp
  have "\<forall>r' \<in> set (r # rs). ar_First r' \<le> p \<and> p \<le> ar_Last r' \<longrightarrow>
      ack_LowestAcked f \<le> p \<and> p \<le> ack_LargestAcked f"
    using low ranges(7,8) by (metis order_trans)
  then show ?thesis unfolding AcksPacket_def ranges(1) by (auto simp: ranges(3) not_less)
qed (auto simp: AcksPacket_def)

subsection \<open>The IETF round trip\<close>

lemma parse_write_ack_blocks:
  assumes "ranges_ordered (lst # rs)" and "\<forall>r \<in> set rs. ar_First r \<le> ar_Last r \<and> ar_Last r \<le> maxVarInt8"
    and "ar_First lst \<le> maxVarInt8"
  shows "\<exists>bs. write_ack_blocks (ar_First lst) rs = Inr bs
    \<and> parse_ack_blocks (length rs) (ar_First lst) (bs @ x) = Inr ((ar_First (last (lst # rs)), rs), x)
    \<and> length_ack_blocks (ar_First lst) rs = Inr (of_nat (length bs))"
  using assms
proof (induction rs arbitrary: lst)
  case (Cons r rs)
  from Cons.prems have *: "ar_First r \<le> ar_Last r" "ar_Last r \<le> maxVarInt8" by auto
  note st = ranges_step [OF Cons.prems(1) *]
  obtain bs where bs: "write_ack_blocks (ar_First r) rs = Inr bs"
    "parse_ack_blocks (length rs) (ar_First r) (bs @ x) = Inr ((ar_First (last (r # rs)), rs), x)"
    "length_ack_blocks (ar_First r) rs = Inr (of_nat (length bs))"
    using Cons.IH [OF st(3)] Cons.prems(2) order_trans [OF *] by auto
  define gap where "gap = ar_First lst - ar_Last r - 2"
  have gap: "unat gap = unat (ar_First lst) - unat (ar_Last r) - 2"
    using st(2) unfolding gap_def by (simp add: unat_sub_if')
  then have "gap \<le> maxVarInt8" "ar_Last r - ar_First r \<le> maxVarInt8"
    using Cons.prems(3) * by (auto simp: word_le_nat_alt unat_sub_if')
  then obtain g b where g: "WriteVarInt gap = Inr g" and b: "WriteVarInt (ar_Last r - ar_First r) = Inr b"
    using WriteVarInt_ok by blast
  have "unat (gap + 2) = unat (ar_First lst) - unat (ar_Last r)"
    using gap st(2) Cons.prems(3) by (simp add: unat_word_ariths word_le_nat_alt)
  then have "\<not> ar_First lst < gap + 2" by (simp add: word_less_nat_alt)
  moreover have "ar_First lst - gap - 2 = ar_Last r" by (simp add: gap_def)
  moreover have "\<not> ar_Last r - ar_First r > ar_Last r"
    using * by (simp add: word_less_nat_alt word_le_nat_alt unat_sub_if')
  ultimately show ?case
    using bs g b by (simp add: gap_def [symmetric] ReadVarInt_WriteVarInt [OF g] ReadVarInt_WriteVarInt [OF b]
        length_WriteVarInt [OF g] length_WriteVarInt [OF b])
qed simp

text \<open>The delay is rounded down to a multiple of 8 microseconds.\<close>

definition ietf_delay :: "Duration \<Rightarrow> Duration" where
  "ietf_delay d = shl (encodeAckDelay d * 1) 3 * 1000"

lemma unat_encodeAckDelay:
  assumes "0 \<le> sint d"
  shows "unat (encodeAckDelay d) = unat d div 8000" and "encodeAckDelay d \<le> maxVarInt8"
proof -
  have "sint d < 2 ^ 63" using signed_take_bit_int_less_exp [of 63 "uint d"] by (simp add: sint_uint)
  moreover have su: "sint d = int (unat d)"
    using assms uint_lt2p [of d] by (auto simp: sint_uint signed_take_bit_eq_take_bit_minus take_bit_int_eq_self split: if_splits)
  ultimately have "int (unat d) < int (2 ^ 63)" by (simp only: of_nat_power of_nat_numeral)
  then have lt: "unat d < 2 ^ 63" by (simp only: of_nat_less_iff)
  have "sint d sdiv 8000 = int (unat d div 8000)"
    using su by (cases "d = 0") (simp_all add: signed_divide_int_def zdiv_int)
  then show *: "unat (encodeAckDelay d) = unat d div 8000"
    using lt by (simp add: encodeAckDelay_def unat_of_nat)
  show "encodeAckDelay d \<le> maxVarInt8" using * lt by (simp add: word_le_nat_alt)
qed

lemma ParseAckFrame_Write_IETF:
  assumes wf: "ack_wf f" and large: "ack_LargestAcked f \<le> maxVarInt8" and delay: "0 \<le> sint (ack_DelayTime f)"
    and len: "length (ack_AckRanges f) \<le> 2 ^ 62"
  shows "\<exists>bs. AckFrame_Write_IETF f = Inr bs \<and> AckFrame_Length_IETF f = Inr (of_nat (length bs))
    \<and> ParseAckFrame_IETF (bs @ x)
        = Inr (f\<lparr> ack_DelayTime := ietf_delay (ack_DelayTime f), ack_PacketReceivedTime := 0 \<rparr>, x)"
proof -
  note delay' = unat_encodeAckDelay(2) [OF delay]
  obtain l where l: "WriteVarInt (ack_LargestAcked f) = Inr l" using WriteVarInt_ok [OF large] by auto
  obtain d where d: "WriteVarInt (encodeAckDelay (ack_DelayTime f)) = Inr d" using WriteVarInt_ok [OF delay'] by auto
  note read = ReadVarInt_WriteVarInt [OF l] ReadVarInt_WriteVarInt [OF d] length_WriteVarInt [OF l] length_WriteVarInt [OF d]
  show ?thesis using wf
  proof (cases rule: ack_wf_cases)
    case single
    have "ack_LargestAcked f - ack_LowestAcked f \<le> maxVarInt8" "\<not> ack_LargestAcked f - ack_LowestAcked f > ack_LargestAcked f"
      using single large by (simp_all add: word_le_nat_alt word_less_nat_alt unat_sub_if')
    then obtain b where b: "WriteVarInt (ack_LargestAcked f - ack_LowestAcked f) = Inr b" using WriteVarInt_ok by blast
    obtain z where z: "WriteVarInt 0 = Inr z" using WriteVarInt_ok [of 0] by auto
    have valid: "validateAckRanges g" if "ack_AckRanges g = []" for g using that by (simp add: validateAckRanges_def)
    show ?thesis
      using single(1,2) \<open>\<not> ack_LargestAcked f - ack_LowestAcked f > ack_LargestAcked f\<close>
      by (simp add: AckFrame_Write_IETF_def AckFrame_Length_IETF_def ParseAckFrame_IETF_def l d b z read
          ReadVarInt_WriteVarInt [OF z] ReadVarInt_WriteVarInt [OF b] length_WriteVarInt [OF z]
          length_WriteVarInt [OF b] valid ietf_delay_def Let_def)
  next
    case (ranges r rs)
    have r: "ar_First r \<le> ack_LargestAcked f" using ranges(4,6) by auto
    have "ack_LargestAcked f - ar_First r \<le> maxVarInt8" "\<not> ack_LargestAcked f - ar_First r > ack_LargestAcked f"
      using r large by (simp_all add: word_le_nat_alt word_less_nat_alt unat_sub_if')
    then obtain b where b: "WriteVarInt (ack_LargestAcked f - ar_First r) = Inr b" using WriteVarInt_ok by blast
    have n: "unat (of_nat (length rs) :: uint64) = length rs" "length rs \<le> 2 ^ 62 - 1"
      using len ranges(1) by (auto simp: unat_of_nat)
    then obtain z where z: "WriteVarInt (of_nat (length rs)) = Inr z"
      using WriteVarInt_ok [of "of_nat (length rs)"] by (auto simp: word_le_nat_alt)
    have npos: "0 < (of_nat (length rs) :: uint64)" using n ranges(2) by (simp add: word_less_nat_alt)
    obtain bs where bs: "write_ack_blocks (ar_First r) rs = Inr bs"
      "parse_ack_blocks (length rs) (ar_First r) (bs @ x) = Inr ((ar_First (last (r # rs)), rs), x)"
      "length_ack_blocks (ar_First r) rs = Inr (of_nat (length bs))"
      using parse_write_ack_blocks [OF ranges(5), of x] ranges(6,7) large r by (auto intro: order_trans)
    have valid: "validateAckRanges g"
      if "ack_AckRanges g = r # rs" "ack_LargestAcked g = ack_LargestAcked f" for g
    proof -
      have "validateAckRanges f" using wf by (simp add: ack_wf_def)
      then show ?thesis using that ranges(1) by (simp only: validateAckRanges_def)
    qed
    have eta: "\<lparr> ar_First = ar_First r, ar_Last = ack_LargestAcked f \<rparr> = r" using ranges(4) by simp
    have W: "AckFrame_Write_IETF f = Inr ([0xe] @ l @ d @ z @ b @ bs)"
      using ranges(1,3) bs(1) by (simp add: AckFrame_Write_IETF_def Let_def l d z b)
    have L: "AckFrame_Length_IETF f = Inr (of_nat (length ([0xe] @ l @ d @ z @ b @ bs)))"
      using ranges(1,3) bs(3) by (simp add: AckFrame_Length_IETF_def Let_def read
          length_WriteVarInt [OF z] length_WriteVarInt [OF b] ac_simps)
    have "ParseAckFrame_IETF ([0xe] @ l @ d @ z @ b @ bs @ x) =
        Inr (f\<lparr> ack_DelayTime := ietf_delay (ack_DelayTime f), ack_PacketReceivedTime := 0 \<rparr>, x)"
      using ranges(1,8) \<open>\<not> ack_LargestAcked f - ar_First r > ack_LargestAcked f\<close> npos
      by (simp add: ParseAckFrame_IETF_def Let_def read ReadVarInt_WriteVarInt [OF z]
          ReadVarInt_WriteVarInt [OF b] n bs(2) eta valid ietf_delay_def)
    with W L show ?thesis by simp
  qed
qed

subsection \<open>The gQUIC round trip\<close>

lemma write_len_eq:
  "n \<in> {PacketNumberLen1, PacketNumberLen2, PacketNumberLen4, PacketNumberLen6} \<Longrightarrow>
   write_len n x = Inr (be_bytes (unat n) (unat x))"
  by (auto simp: write_len_def low_bytes low_bytes(3) [simplified])

lemma read_len:
  "n \<in> {PacketNumberLen1, PacketNumberLen2, PacketNumberLen4, PacketNumberLen6} \<Longrightarrow>
   unat x < 256 ^ unat n \<Longrightarrow> be_ReadUintN n (be_bytes (unat n) (unat x) @ r) = Inr (x, r)"
  by (rule be_ReadUintN_be_bytes) auto

text \<open>The number of blocks the gap between two ranges takes, and their contents.\<close>

definition gap_of :: "AckRange \<Rightarrow> AckRange \<Rightarrow> nat" where
  "gap_of lst r = unat (ar_First lst - ar_Last r - 1)"

definition blocks_of :: "AckRange \<Rightarrow> AckRange \<Rightarrow> nat" where
  "blocks_of lst r = (gap_of lst r + 254) div 255"

fun blocks_total :: "AckRange \<Rightarrow> AckRange list \<Rightarrow> nat" where
  "blocks_total lst [] = 0"
| "blocks_total lst (r # rs) = blocks_of lst r + blocks_total r rs"

lemma blocks_of_word:
  fixes gap :: uint64
  assumes "unat gap < 2 ^ 63"
  shows "unat (let n = 1 + gap div 0xFF in if gap mod 0xFF = 0 then n - 1 else n) = (unat gap + 254) div 255"
proof -
  define q m where "q = unat gap div 255" and "m = unat gap mod 255"
  have g: "unat gap = 255 * q + m" and m: "m < 255" by (simp_all add: q_def m_def)
  have q: "unat (gap div 0xFF) = q" by (simp add: unat_div q_def)
  have "unat (gap mod 0xFF) = m" by (simp add: unat_mod m_def)
  then have z: "gap mod 0xFF = 0 \<longleftrightarrow> m = 0" by (metis unat_eq_zero unsigned_0)
  show ?thesis
  proof (cases "m = 0")
    case True
    then have "(unat gap + 254) div 255 = q" using g by simp
    then show ?thesis using True z q by (simp add: Let_def)
  next
    case False
    then have "(unat gap + 254) div 255 = q + 1" using g m by (intro div_nat_eqI) simp_all
    moreover have "unat (1 + gap div 0xFF) = 1 + q"
      using q g assms by (simp add: unat_word_ariths)
    ultimately show ?thesis using False z by (simp add: Let_def)
  qed
qed

lemma write_long_blocks_eq:
  assumes dl: "dl \<in> {PacketNumberLen1, PacketNumberLen2, PacketNumberLen4, PacketNumberLen6}"
  shows "write_long_blocks (Suc k) dl gap len =
    Inr (concat (replicate k (0xFF # be_bytes (unat dl) 0))
         @ [u8 (1 + (gap - 1) mod 255)] @ be_bytes (unat dl) (unat len))"
  by (induction k) (simp_all add: write_len_eq [OF dl] replicate_append_same [symmetric]
      del: replicate.simps, simp_all)

lemma parse_long_step:
  assumes dl: "dl \<in> {PacketNumberLen1, PacketNumberLen2, PacketNumberLen4, PacketNumberLen6}"
  shows "parse_legacy_blocks (Suc n) dl True c (\<lparr> ar_First = L + 1, ar_Last = L \<rparr> # acc)
      (0xFF # be_bytes (unat dl) 0 @ x)
    = parse_legacy_blocks n dl True c (\<lparr> ar_First = (L - 255) + 1, ar_Last = L - 255 \<rparr> # acc) x"
proof -
  have "be_ReadUintN dl (be_bytes (unat dl) 0 @ x) = Inr (0, x)" using read_len [OF dl, of 0 x] by simp
  moreover have "L + 1 - 255 = L - 255 + 1" by simp
  ultimately show ?thesis by (simp add: Let_def)
qed

lemma parse_long_tail:
  assumes dl: "dl \<in> {PacketNumberLen1, PacketNumberLen2, PacketNumberLen4, PacketNumberLen6}"
    and len: "unat len < 256 ^ unat dl" "len > 0"
  shows "parse_legacy_blocks (Suc k + n) dl True c (\<lparr> ar_First = L + 1, ar_Last = L \<rparr> # acc)
      (concat (replicate k (0xFF # be_bytes (unat dl) 0)) @ [g] @ be_bytes (unat dl) (unat len) @ x)
    = parse_legacy_blocks n dl False True
        (\<lparr> ar_First = L - of_nat (255 * k) - u64 g - len + 1, ar_Last = L - of_nat (255 * k) - u64 g \<rparr> # acc) x"
proof (induction k arbitrary: L c)
  case 0
  have "len \<noteq> 0" using len(2) by auto
  then show ?case using len by (simp add: read_len [OF dl] Let_def algebra_simps)
next
  case (Suc k)
  have "parse_legacy_blocks (Suc (Suc k) + n) dl True c (\<lparr> ar_First = L + 1, ar_Last = L \<rparr> # acc)
      (concat (replicate (Suc k) (0xFF # be_bytes (unat dl) 0)) @ [g] @ be_bytes (unat dl) (unat len) @ x)
    = parse_legacy_blocks (Suc k + n) dl True c (\<lparr> ar_First = (L - 255) + 1, ar_Last = L - 255 \<rparr> # acc)
      (concat (replicate k (0xFF # be_bytes (unat dl) 0)) @ [g] @ be_bytes (unat dl) (unat len) @ x)"
    unfolding replicate_Suc concat.simps append_assoc append_Cons add_Suc [of "Suc k"]
    by (rule parse_long_step [OF dl])
  moreover have "L - 255 - of_nat (255 * k) = L - of_nat (255 * Suc k)" by simp
  ultimately show ?case by (simp only: Suc)
qed

text \<open>One range, with the gap before it: the parser undoes the writer.\<close>

definition range_bytes :: "PacketNumberLen \<Rightarrow> AckRange \<Rightarrow> AckRange \<Rightarrow> byte list" where
  "range_bytes dl lst r =
     concat (replicate (blocks_of lst r - 1) (0xFF # be_bytes (unat dl) 0))
     @ [u8 (1 + (ar_First lst - ar_Last r - 1 - 1) mod 255)]
     @ be_bytes (unat dl) (unat (ar_Last r - ar_First r + 1))"

lemma gap_facts:
  assumes st: "unat (ar_Last r) + 2 \<le> unat (ar_First lst)"
  defines "g \<equiv> 1 + (gap_of lst r - 1) mod 255"
  shows "gap_of lst r = unat (ar_First lst) - unat (ar_Last r) - 1" and "1 \<le> gap_of lst r"
    and "gap_of lst r = 255 * (blocks_of lst r - 1) + g" and "g \<le> 255" and "1 \<le> blocks_of lst r"
    and "unat (u8 (1 + (ar_First lst - ar_Last r - 1 - 1) mod 255)) = g"
proof -
  show G: "gap_of lst r = unat (ar_First lst) - unat (ar_Last r) - 1"
    using st by (simp add: gap_of_def unat_sub_if')
  then show G1: "1 \<le> gap_of lst r" using st by linarith
  define q where "q = (gap_of lst r - 1) div 255"
  have "gap_of lst r - 1 = 255 * q + (gap_of lst r - 1) mod 255" by (simp add: q_def)
  then have eq: "gap_of lst r = 255 * q + g" using G1 by (simp add: g_def)
  show g: "g \<le> 255" by (simp add: g_def Suc_le_eq)
  have "1 \<le> g" by (simp add: g_def)
  then have "blocks_of lst r = q + 1"
    using eq g unfolding blocks_of_def by (intro div_nat_eqI) auto
  then show "gap_of lst r = 255 * (blocks_of lst r - 1) + g" and "1 \<le> blocks_of lst r" using eq by simp_all
  have "unat (ar_First lst - ar_Last r - 1 - 1) = gap_of lst r - 1"
    using G1 unfolding gap_of_def by (intro unat_minus_one) auto
  then have "unat ((ar_First lst - ar_Last r - 1 - 1) mod 255) = g - 1"
    by (simp add: unat_mod g_def)
  then have "unat (1 + (ar_First lst - ar_Last r - 1 - 1) mod 255) = g"
    using g \<open>1 \<le> g\<close> by (simp add: unat_word_ariths)
  then show "unat (u8 (1 + (ar_First lst - ar_Last r - 1 - 1) mod 255)) = g"
    using g by (simp only: unsigned_ucast_eq) (simp add: take_bit_nat_eq_self)
qed

lemma parse_range_bytes:
  assumes dl: "dl \<in> {PacketNumberLen1, PacketNumberLen2, PacketNumberLen4, PacketNumberLen6}"
    and st: "unat (ar_First r) \<le> unat (ar_Last r)" "unat (ar_Last r) + 2 \<le> unat (ar_First lst)"
    and len: "unat (ar_Last r - ar_First r + 1) < 256 ^ unat dl"
  shows "parse_legacy_blocks (blocks_of lst r + n) dl False c (lst # acc) (range_bytes dl lst r @ x)
       = parse_legacy_blocks n dl False True (r # lst # acc) x"
proof -
  define len where "len = ar_Last r - ar_First r + 1"
  define gb where "gb = u8 (1 + (ar_First lst - ar_Last r - 1 - 1) mod 255)"
  note gf = gap_facts [OF st(2)]
  define k where "k = blocks_of lst r - 1"
  have ug: "unat gb = 1 + (gap_of lst r - 1) mod 255" unfolding gb_def by (rule gf(6))
  have "int (unat (ar_First lst)) - int (unat (ar_Last r)) - 1 = int (gap_of lst r)"
    using gf(1) st(2) by simp
  also have "\<dots> = 255 * int k + int (unat gb)" using gf(3) ug by (simp add: k_def)
  finally have "ar_First lst - ar_Last r - 1 = of_nat (255 * k) + u64 gb"
  proof -
    assume eq: "int (unat (ar_First lst)) - int (unat (ar_Last r)) - 1 = 255 * int k + int (unat gb)"
    have "ar_First lst - ar_Last r - 1 = word_of_int (int (unat (ar_First lst)) - int (unat (ar_Last r)) - 1)"
      by simp
    also have "\<dots> = of_nat (255 * k) + u64 gb" unfolding eq by simp
    finally show ?thesis .
  qed
  then have last: "ar_First lst - 1 - of_nat (255 * k) - u64 gb = ar_Last r" by (simp add: algebra_simps)
  have "unat len = unat (ar_Last r) - unat (ar_First r) + 1"
  proof -
    have "unat (ar_Last r) - unat (ar_First r) + 1 < 2 ^ 64"
      using st unsigned_less [of "ar_First lst", where 'a = nat] by simp
    then show ?thesis using st by (simp add: len_def unat_word_ariths unat_sub_if')
  qed
  then have lpos: "len > 0" by (simp add: word_less_nat_alt)
  have first: "ar_Last r - len + 1 = ar_First r" by (simp add: len_def)
  have eta: "\<lparr> ar_First = ar_First r, ar_Last = ar_Last r \<rparr> = r" by simp
  have rb: "range_bytes dl lst r @ x =
      concat (replicate k (0xFF # be_bytes (unat dl) 0)) @ [gb] @ be_bytes (unat dl) (unat len) @ x"
    by (simp add: range_bytes_def k_def gb_def len_def)
  have bk: "blocks_of lst r + n = Suc (k + n)" using gf(5) by (simp add: k_def)
  show ?thesis
  proof (cases k)
    case 0
    have last0: "ar_First lst - u64 gb - 1 = ar_Last r" using last 0 by (simp add: algebra_simps)
    have b: "be_ReadUintN dl (be_bytes (unat dl) (unat len) @ x) = Inr (len, x)"
      using len by (intro read_len [OF dl]) (simp add: len_def)
    have "(len = 0) = False" "(len > 0) = True" using lpos by auto
    then show ?thesis
      unfolding rb bk 0 parse_legacy_blocks.simps replicate_0 concat.simps append_Cons append_Nil ReadByte_simps
        rbind_simps b Let_def if_False last0 list.sel first eta
      by simp
  next
    case (Suc j)
    have z: "be_ReadUintN dl (be_bytes (unat dl) 0 @ y) = Inr (0, y)" for y
      using read_len [OF dl, of 0 y] by simp
    define L where "L = ar_First lst - 255 - 1"
    have L: "L - of_nat (255 * j) - u64 gb = ar_Last r" using last Suc by (simp add: L_def algebra_simps)
    have "parse_legacy_blocks (blocks_of lst r + n) dl False c (lst # acc) (range_bytes dl lst r @ x)
      = parse_legacy_blocks (Suc j + n) dl True False (\<lparr> ar_First = L + 1, ar_Last = L \<rparr> # lst # acc)
          (concat (replicate j (0xFF # be_bytes (unat dl) 0)) @ [gb] @ be_bytes (unat dl) (unat len) @ x)"
      unfolding rb bk Suc replicate_Suc concat.simps append_assoc append_Cons parse_legacy_blocks.simps
        ReadByte_simps rbind_simps z Let_def
      by (simp add: L_def)
    also have "\<dots> = parse_legacy_blocks n dl False True
        (\<lparr> ar_First = L - of_nat (255 * j) - u64 gb - len + 1, ar_Last = L - of_nat (255 * j) - u64 gb \<rparr> # lst # acc) x"
      using len lpos by (intro parse_long_tail [OF dl]) (simp_all add: len_def)
    finally show ?thesis unfolding L first eta .
  qed
qed

lemma write_legacy_range:
  assumes dl: "dl \<in> {PacketNumberLen1, PacketNumberLen2, PacketNumberLen4, PacketNumberLen6}"
    and st: "unat (ar_Last r) + 2 \<le> unat (ar_First lst)" and g63: "gap_of lst r < 2 ^ 63"
  defines "gap \<equiv> ar_First lst - ar_Last r - 1"
  defines "num \<equiv> (let n = gap div 0xFF + 1 in if gap mod 0xFF = 0 then n - 1 else n)"
  shows "unat num = blocks_of lst r"
    and "(if num = 1 then ebind (write_len dl (ar_Last r - ar_First r + 1)) (\<lambda>bs. Inr ([u8 gap] @ bs))
          else write_long_blocks (unat num) dl gap (ar_Last r - ar_First r + 1)) = Inr (range_bytes dl lst r)"
proof -
  note gf = gap_facts [OF st]
  show num: "unat num = blocks_of lst r"
    using blocks_of_word [of gap] g63 unfolding num_def gap_def blocks_of_def gap_of_def
    by (simp add: add.commute)
  show "(if num = 1 then ebind (write_len dl (ar_Last r - ar_First r + 1)) (\<lambda>bs. Inr ([u8 gap] @ bs))
          else write_long_blocks (unat num) dl gap (ar_Last r - ar_First r + 1)) = Inr (range_bytes dl lst r)"
  proof (cases "num = 1")
    case True
    then have b1: "blocks_of lst r = 1" using num by simp
    then have "gap_of lst r = 1 + (gap_of lst r - 1) mod 255" "gap_of lst r \<le> 255" using gf(3,4) by simp_all
    then have "unat (u8 gap) = unat (u8 (1 + (gap - 1) mod 255))"
      using gf(6) unfolding gap_def [symmetric]
      by (simp only: unsigned_ucast_eq) (simp add: gap_of_def gap_def take_bit_nat_eq_self)
    then show ?thesis
      using True b1 by (simp add: write_len_eq [OF dl] range_bytes_def gap_def word_unat_eq_iff)
  next
    case False
    obtain k where k: "unat num = Suc k" using gf(5) num by (metis One_nat_def Suc_le_D)
    show ?thesis
      using False unfolding k write_long_blocks_eq [OF dl] range_bytes_def num [symmetric] k
      by (simp add: gap_def)
  qed
qed

lemma length_range_bytes:
  "1 \<le> blocks_of lst r \<Longrightarrow> length (range_bytes dl lst r) = (1 + unat dl) * blocks_of lst r"
  by (cases "blocks_of lst r") (simp_all add: range_bytes_def length_concat sum_list_replicate algebra_simps)

lemma blocks_total_0: "ranges_ordered (lst # rs) \<Longrightarrow>
    \<forall>r \<in> set rs. ar_First r \<le> ar_Last r \<and> ar_Last r \<le> maxVarInt8 \<Longrightarrow> blocks_total lst rs = 0 \<longleftrightarrow> rs = []"
proof (cases rs)
  case (Cons r rs')
  assume *: "ranges_ordered (lst # rs)" "\<forall>r \<in> set rs. ar_First r \<le> ar_Last r \<and> ar_Last r \<le> maxVarInt8"
  have "1 \<le> blocks_of lst r" using * Cons by (intro gap_facts(5) ranges_step(2) [of lst r rs']) auto
  then show ?thesis by (simp add: Cons)
qed simp

lemma gap_of_limit:
  assumes "unat (ar_Last r) + 2 \<le> unat (ar_First lst)" and "ar_First lst \<le> maxVarInt8"
  shows "gap_of lst r < 2 ^ 63"
  using gap_facts(1) [OF assms(1)] assms(2) by (simp add: word_le_nat_alt)

lemma legacy_ranges_roundtrip:
  assumes dl: "dl \<in> {PacketNumberLen1, PacketNumberLen2, PacketNumberLen4, PacketNumberLen6}"
    and "ranges_ordered (lst # rs)" and "ar_First lst \<le> maxVarInt8"
    and "\<forall>r \<in> set rs. ar_First r \<le> ar_Last r \<and> ar_Last r \<le> maxVarInt8 \<and> unat (ar_Last r - ar_First r + 1) < 256 ^ unat dl"
    and "w + blocks_total lst rs < 2 ^ 62"
  shows "\<exists>bs. write_legacy_ranges dl (of_nat (w + blocks_total lst rs)) (of_nat w) lst rs
        = Inr (bs, of_nat (w + blocks_total lst rs))
      \<and> length bs = (1 + unat dl) * blocks_total lst rs
      \<and> (\<forall>n c acc x. parse_legacy_blocks (blocks_total lst rs + n) dl False c (lst # acc) (bs @ x)
          = parse_legacy_blocks n dl False (if rs = [] then c else True) (rev rs @ lst # acc) x)"
  using assms(2-)
proof (induction rs arbitrary: lst w)
  case (Cons r rs)
  have *: "ar_First r \<le> ar_Last r" "ar_Last r \<le> maxVarInt8" "unat (ar_Last r - ar_First r + 1) < 256 ^ unat dl"
    using Cons.prems(3) by auto
  note st = ranges_step [OF Cons.prems(1) *(1,2)]
  note gl = gap_of_limit [OF st(2) Cons.prems(2)]
  define gap where "gap = ar_First lst - ar_Last r - 1"
  define num where "num = (let n = gap div 0xFF + 1 in if gap mod 0xFF = 0 then n - 1 else n)"
  have num: "unat num = blocks_of lst r"
    and rb: "(if num = 1 then ebind (write_len dl (ar_Last r - ar_First r + 1)) (\<lambda>bs. Inr ([u8 gap] @ bs))
          else write_long_blocks (unat num) dl gap (ar_Last r - ar_First r + 1)) = Inr (range_bytes dl lst r)"
    using write_legacy_range [OF dl st(2) gl] unfolding gap_def num_def by blast+
  have num': "num = of_nat (blocks_of lst r)" by (metis num of_nat_unat ucast_id)
  define N where "N = w + blocks_total lst (r # rs)"
  have wn: "of_nat w + num = (of_nat (w + blocks_of lst r) :: uint64)" by (simp add: num')
  have sub: "w + blocks_of lst r + blocks_total r rs = N" by (simp add: N_def)
  have first: "ar_First r \<le> maxVarInt8" using * by (metis order_trans)
  obtain bs where bs: "write_legacy_ranges dl (of_nat N) (of_nat (w + blocks_of lst r)) r rs = Inr (bs, of_nat N)"
    "length bs = (1 + unat dl) * blocks_total r rs"
    "\<And>n c acc x. parse_legacy_blocks (blocks_total r rs + n) dl False c (r # acc) (bs @ x)
          = parse_legacy_blocks n dl False (if rs = [] then c else True) (rev rs @ r # acc) x"
    using Cons.IH [OF st(3) first, of "w + blocks_of lst r"] Cons.prems(3,4) unfolding sub by (auto simp: N_def)
  have done_iff: "of_nat N \<le> (of_nat (w + blocks_of lst r) :: uint64) \<longleftrightarrow> rs = []"
  proof -
    have lt: "m < 2 ^ 62 \<Longrightarrow> unat (of_nat m :: uint64) = m" for m by (simp add: unat_of_nat)
    have "N < 2 ^ 62" "w + blocks_of lst r < 2 ^ 62" using Cons.prems(4) by (simp_all add: N_def)
    then show ?thesis
      using blocks_total_0 [OF st(3)] Cons.prems(3)
      unfolding word_le_nat_alt lt [OF \<open>N < 2 ^ 62\<close>] lt [OF \<open>w + blocks_of lst r < 2 ^ 62\<close>]
      by (auto simp: N_def)
  qed
  have W: "write_legacy_ranges dl (of_nat N) (of_nat w) lst (r # rs) = Inr (range_bytes dl lst r @ bs, of_nat N)"
  proof -
    have "write_legacy_ranges dl (of_nat N) (of_nat w) lst (r # rs) =
      (if of_nat w + num \<ge> of_nat N then Inr (range_bytes dl lst r, of_nat w + num)
       else ebind (write_legacy_ranges dl (of_nat N) (of_nat w + num) r rs) (\<lambda>(bs, n).
              Inr (range_bytes dl lst r @ bs, n)))"
      unfolding write_legacy_ranges.simps Let_def gap_def [symmetric] num_def [unfolded Let_def, symmetric]
        rb ebind_simps by (rule refl)
    also have "\<dots> = Inr (range_bytes dl lst r @ bs, of_nat N)"
    proof (cases "rs = []")
      case True
      then show ?thesis using bs(1,2) unfolding wn done_iff by (simp add: sub [symmetric])
    next
      case False
      then show ?thesis unfolding wn done_iff using bs(1) by simp
    qed
    finally show ?thesis .
  qed
  have P: "parse_legacy_blocks (blocks_total lst (r # rs) + n) dl False c (lst # acc) ((range_bytes dl lst r @ bs) @ x)
      = parse_legacy_blocks n dl False (if r # rs = [] then c else True) (rev (r # rs) @ lst # acc) x" for n c acc x
  proof -
    have "parse_legacy_blocks (blocks_of lst r + (blocks_total r rs + n)) dl False c (lst # acc)
          (range_bytes dl lst r @ bs @ x)
        = parse_legacy_blocks (blocks_total r rs + n) dl False True (r # lst # acc) (bs @ x)"
      by (rule parse_range_bytes [OF dl st(1,2) *(3)])
    also have "\<dots> = parse_legacy_blocks n dl False True (rev rs @ r # lst # acc) x" by (simp add: bs(3))
    finally show ?thesis by (simp add: add.assoc)
  qed
  have "length (range_bytes dl lst r @ bs) = (1 + unat dl) * blocks_total lst (r # rs)"
    using length_range_bytes [OF gap_facts(5) [OF st(2)], of dl] bs(2) by (simp add: distrib_left)
  with W P show ?case unfolding N_def by blast
qed simp

lemma count_writable_fits:
  assumes "ranges_ordered (lst # rs)" and "ar_First lst \<le> maxVarInt8"
    and "\<forall>r \<in> set rs. ar_First r \<le> ar_Last r \<and> ar_Last r \<le> maxVarInt8"
    and "a + blocks_total lst rs < 255"
  shows "count_writable (of_nat a) lst rs = of_nat (a + blocks_total lst rs)"
  using assms
proof (induction rs arbitrary: lst a)
  case (Cons r rs)
  have *: "ar_First r \<le> ar_Last r" "ar_Last r \<le> maxVarInt8" using Cons.prems(3) by auto
  note st = ranges_step [OF Cons.prems(1) *]
  define gap where "gap = ar_First lst - ar_Last r - 1"
  define num where "num = (let n = 1 + gap div 0xFF in if gap mod 0xFF = 0 then n - 1 else n)"
  have "unat num = blocks_of lst r"
    using blocks_of_word [of gap] gap_of_limit [OF st(2) Cons.prems(2)]
    unfolding num_def gap_def gap_of_def blocks_of_def by simp
  then have "num = of_nat (blocks_of lst r)" by (metis of_nat_unat ucast_id)
  then have sum: "of_nat a + num = (of_nat (a + blocks_of lst r) :: uint64)" by simp
  moreover have "(of_nat (a + blocks_of lst r) :: uint64) < 0xFF"
    using Cons.prems(4) by (simp only: word_less_nat_alt unat_of_nat) simp
  moreover have "count_writable (of_nat (a + blocks_of lst r)) r rs = of_nat (a + blocks_of lst r + blocks_total r rs)"
    using Cons.prems(3,4) order_trans [OF *] by (intro Cons.IH [OF st(3)]) auto
  moreover have "count_writable (of_nat a) lst (r # rs)
      = (if of_nat a + num < 0xFF then count_writable (of_nat a + num) r rs else of_nat a)"
    unfolding count_writable.simps Let_def gap_def [symmetric] num_def [unfolded Let_def, symmetric]
    by (rule refl)
  ultimately show ?case by simp
qed simp

lemma max_range_length_ge:
  "m \<le> max_range_length m rs" "r \<in> set rs \<Longrightarrow> ar_Last r - ar_First r + 1 \<le> max_range_length m rs"
proof -
  have *: "m \<le> max_range_length m rs \<and> (r \<in> set rs \<longrightarrow> ar_Last r - ar_First r + 1 \<le> max_range_length m rs)" for m
  proof (induction rs arbitrary: m)
    case (Cons a rs)
    define m' where "m' = (if ar_Last a - ar_First a + 1 > m then ar_Last a - ar_First a + 1 else m)"
    have "m \<le> m'" "ar_Last a - ar_First a + 1 \<le> m'" by (auto simp: m'_def)
    moreover have "max_range_length m (a # rs) = max_range_length m' rs" by (simp add: Let_def m'_def)
    ultimately show ?case using Cons.IH [of m'] by (auto intro: order_trans)
  qed simp
  then show "m \<le> max_range_length m rs" "r \<in> set rs \<Longrightarrow> ar_Last r - ar_First r + 1 \<le> max_range_length m rs"
    by blast+
qed

lemma GetPacketNumberLength_cases:
  "GetPacketNumberLength p \<in> {PacketNumberLen1, PacketNumberLen2, PacketNumberLen4, PacketNumberLen6}"
  by (simp add: GetPacketNumberLength_def)

lemma deltaLen_cases:
  "getMissingSequenceNumberDeltaLen f \<in> {PacketNumberLen1, PacketNumberLen2, PacketNumberLen4, PacketNumberLen6}"
  by (simp add: getMissingSequenceNumberDeltaLen_def Let_def)

lemma deltaLen_fits:
  assumes n: "(n :: uint64) < 2 ^ 48" and m: "unat n \<le> unat (if HasMissingRanges f then max_range_length 0 (ack_AckRanges f)
    else ack_LargestAcked f - ack_LowestAcked f + 1)"
  shows "unat n < 256 ^ unat (getMissingSequenceNumberDeltaLen f)"
  using assms by (auto simp: getMissingSequenceNumberDeltaLen_def Let_def word_le_nat_alt word_less_nat_alt)

lemma legacy_ack_typeByte_bits:
  fixes f :: AckFrame
  defines "t \<equiv> legacy_ack_typeByte f"
  shows "(t AND 0x20 = 0x20) = HasMissingRanges f"
    and "(if 2 * shr (t AND 0x0C) 2 = 0 then 1 else 2 * shr (t AND 0x0C) 2)
          = GetPacketNumberLength (ack_LargestAcked f)"
    and "(if 2 * (t AND 0x03) = 0 then 1 else 2 * (t AND 0x03)) = getMissingSequenceNumberDeltaLen f"
    and "t AND 0xc0 = 0x40"
proof -
  define L where "L = GetPacketNumberLength (ack_LargestAcked f)"
  define D where "D = getMissingSequenceNumberDeltaLen f"
  have L: "L \<in> {PacketNumberLen1, PacketNumberLen2, PacketNumberLen4, PacketNumberLen6}"
    and D: "D \<in> {PacketNumberLen1, PacketNumberLen2, PacketNumberLen4, PacketNumberLen6}"
    unfolding L_def D_def by (rule GetPacketNumberLength_cases deltaLen_cases)+
  define lb where "lb = (if L \<noteq> 1 then shl (L div 2) 2 else 0)"
  define db where "db = (if D \<noteq> 1 then D div 2 else 0)"
  define hb where "hb = (if HasMissingRanges f then 0x20 else (0 :: byte))"
  have l: "lb AND 0x20 = 0" "lb AND 0x0C = lb" "lb AND 0x03 = 0" "lb AND 0xc0 = 0"
    "(if 2 * shr lb 2 = 0 then 1 else 2 * shr lb 2) = L"
    using L unfolding lb_def by (elim insertE emptyE; simp)+
  have d: "db AND 0x20 = 0" "db AND 0x0C = 0" "db AND 0x03 = db" "db AND 0xc0 = 0"
    "(if 2 * db = 0 then 1 else 2 * db) = D"
    using D unfolding db_def by (elim insertE emptyE; simp)+
  have h: "hb AND 0x20 = hb" "hb AND 0x0C = 0" "hb AND 0x03 = 0" "hb AND 0xc0 = 0"
    "(hb = 0x20) = HasMissingRanges f"
    by (simp_all add: hb_def)
  have t: "t = ((0x40 XOR lb) XOR db) OR hb"
    unfolding t_def legacy_ack_typeByte_def Let_def L_def [symmetric] D_def [symmetric] lb_def db_def hb_def
    by (cases "L = 1"; cases "D = 1"; cases "HasMissingRanges f"; simp only: if_True if_False
        not_True_eq_False not_False_eq_True xor.right_neutral or.right_neutral simp_thms)
  have n: "(0x40 :: byte) AND 0x20 = 0" "(0x40 :: byte) AND 0x0C = 0" "(0x40 :: byte) AND 0x03 = 0"
    "(0x40 :: byte) AND 0xc0 = 0x40" by simp_all
  note distrib = bit.conj_disj_distrib2 bit.conj_xor_distrib2
  note z = xor.left_neutral xor.right_neutral or.left_neutral or.right_neutral
  show "(t AND 0x20 = 0x20) = HasMissingRanges f"
    unfolding t distrib l d h n z by (simp add: hb_def)
  show "(if 2 * shr (t AND 0x0C) 2 = 0 then 1 else 2 * shr (t AND 0x0C) 2)
          = GetPacketNumberLength (ack_LargestAcked f)"
    unfolding t distrib l(2) d(2) h n z l(5) by (simp only: L_def)
  show "(if 2 * (t AND 0x03) = 0 then 1 else 2 * (t AND 0x03)) = getMissingSequenceNumberDeltaLen f"
    unfolding t distrib l d(3) h n z d(5) by (simp only: D_def)
  show "t AND 0xc0 = 0x40" unfolding t distrib l d h n z by (rule refl)
qed

definition legacy_delay :: "Duration \<Rightarrow> Duration" where
  "legacy_delay since = ufloat16_decode (ufloat16_encode (word_of_int (sint since sdiv 1000))) * 1000"

lemma read_delay:
  "readUfloat16 be_ReadUint16 (writeUfloat16 be_WriteUint16 v @ r) = Inr (ufloat16_decode (ufloat16_encode v), r)"
  by (rule BigEndian.readUfloat16_writeUfloat16)

definition legacy_fits :: "AckFrame \<Rightarrow> bool" where
  "legacy_fits f \<longleftrightarrow> ack_LargestAcked f < 2 ^ 48 - 1
     \<and> (case ack_AckRanges f of [] \<Rightarrow> True | r # rs \<Rightarrow> blocks_total r rs < 255)"

lemma parseAckFrameLegacy_writeLegacy:
  assumes wf: "ack_wf f" and fits: "legacy_fits f"
  shows "\<exists>bs. AckFrame_writeLegacy since f = Inr (bs, f\<lparr> ack_DelayTime := since \<rparr>)
    \<and> AckFrame_lengthLegacy f = of_nat (length bs)
    \<and> parseAckFrameLegacy (bs @ x)
        = Inr (f\<lparr> ack_DelayTime := legacy_delay since, ack_PacketReceivedTime := 0 \<rparr>, x)"
proof -
  define LA where "LA = ack_LargestAcked f"
  define ll where "ll = GetPacketNumberLength LA"
  define dl where "dl = getMissingSequenceNumberDeltaLen f"
  have ll: "ll \<in> {PacketNumberLen1, PacketNumberLen2, PacketNumberLen4, PacketNumberLen6}"
    and dl: "dl \<in> {PacketNumberLen1, PacketNumberLen2, PacketNumberLen4, PacketNumberLen6}"
    unfolding ll_def dl_def by (rule GetPacketNumberLength_cases deltaLen_cases)+
  have LA: "unat LA < 2 ^ 48 - 1" using fits by (simp add: legacy_fits_def LA_def word_less_nat_alt)
  have LA62: "ack_LargestAcked f \<le> maxVarInt8" using LA by (simp add: LA_def word_le_nat_alt)
  have dl': "getMissingSequenceNumberDeltaLen (f\<lparr> ack_DelayTime := since \<rparr>) = dl"
    by (simp add: dl_def getMissingSequenceNumberDeltaLen_def HasMissingRanges_def)
  have nr': "numWritableNackRanges (f\<lparr> ack_DelayTime := since \<rparr>) = numWritableNackRanges f"
    by (simp add: numWritableNackRanges_def)
  have tb': "legacy_ack_typeByte (f\<lparr> ack_DelayTime := since \<rparr>) = legacy_ack_typeByte f"
    by (simp add: legacy_ack_typeByte_def getMissingSequenceNumberDeltaLen_def HasMissingRanges_def)
  have hm': "HasMissingRanges (f\<lparr> ack_DelayTime := since \<rparr>) = HasMissingRanges f"
    by (simp add: HasMissingRanges_def)
  define lb where "lb = be_bytes (unat ll) (unat LA)"
  define db where "db = writeUfloat16 be_WriteUint16 (word_of_int (sint since sdiv 1000))"
  have "unat LA < 256 ^ unat ll" unfolding ll_def using LA by (intro GetPacketNumberLength_fits) simp
  then have rl: "be_ReadUintN ll (lb @ y) = Inr (LA, y)" for y unfolding lb_def by (rule read_len [OF ll])
  have rd: "readUfloat16 be_ReadUint16 (db @ y)
      = Inr (ufloat16_decode (ufloat16_encode (word_of_int (sint since sdiv 1000))), y)" for y
    unfolding db_def by (rule read_delay)
  have lens: "length lb = unat ll" "length db = 2" by (simp_all add: lb_def db_def writeUfloat16_def)
  note tb = legacy_ack_typeByte_bits [of f, folded LA_def, folded ll_def dl_def]
  note unfold_parse = parseAckFrameLegacy_def append_Cons append_Nil ReadByte_simps rbind_simps Let_def tb rl rd
  show ?thesis using wf
  proof (cases rule: ack_wf_cases)
    case single
    define n where "n = LA - ack_LowestAcked f + 1"
    have un: "unat n = unat LA - unat (ack_LowestAcked f) + 1"
      using single(3) LA by (simp add: n_def LA_def unat_word_ariths unat_sub_if' word_le_nat_alt)
    have "unat n < 256 ^ unat dl" unfolding dl_def
      by (rule deltaLen_fits) (use un LA single in \<open>simp_all add: word_less_nat_alt n_def LA_def\<close>)
    then have rn: "be_ReadUintN dl (be_bytes (unat dl) (unat n) @ y) = Inr (n, y)" for y by (rule read_len [OF dl])
    have "unat (LA + 1) = unat LA + 1" using LA by (simp add: unat_word_ariths)
    then have chk: "n \<noteq> 0" "\<not> n > LA + 1" using un by (auto simp: word_less_nat_alt)
    have low: "(if LA = 0 then 0 else LA + 1 - n) = ack_LowestAcked f"
      using single(3) by (auto simp: n_def LA_def)
    define bs where "bs = [legacy_ack_typeByte f] @ lb @ db @ be_bytes (unat dl) (unat n) @ [0]"
    have valid: "validateAckRanges g" if "ack_AckRanges g = []" for g using that by (simp add: validateAckRanges_def)
    have "AckFrame_writeLegacy since f = Inr (bs, f\<lparr> ack_DelayTime := since \<rparr>)"
      using single(1,2) by (simp add: AckFrame_writeLegacy_def Let_def dl' tb' hm' write_len_eq [OF ll [unfolded ll_def LA_def]]
          write_len_eq [OF dl] bs_def lb_def db_def ll_def LA_def n_def)
    moreover have "parseAckFrameLegacy (bs @ x)
        = Inr (f\<lparr> ack_DelayTime := legacy_delay since, ack_PacketReceivedTime := 0 \<rparr>, x)"
      unfolding bs_def append_assoc unfold_parse
      by (simp add: single(1,2) rn chk low valid legacy_delay_def LA_def [symmetric])
    moreover have "AckFrame_lengthLegacy f = of_nat (length bs)"
      using single(2) lens by (simp add: AckFrame_lengthLegacy_def Let_def bs_def dl_def ll_def LA_def)
    ultimately show ?thesis by blast
  next
    case (ranges r rs)
    have in_range: "unat (ar_Last r' - ar_First r' + 1) < 256 ^ unat dl"
      and len_eq: "unat (ar_Last r' - ar_First r' + 1) = unat (ar_Last r') - unat (ar_First r') + 1"
      if "r' \<in> set (r # rs)" for r'
    proof -
      have *: "ar_First r' \<le> ar_Last r'" "unat (ar_Last r') \<le> unat LA"
        using that ranges(6,7) unfolding LA_def word_le_nat_alt by blast+
      show len_eq: "unat (ar_Last r' - ar_First r' + 1) = unat (ar_Last r') - unat (ar_First r') + 1"
        using * LA by (simp add: unat_word_ariths unat_sub_if' word_le_nat_alt)
      show "unat (ar_Last r' - ar_First r' + 1) < 256 ^ unat dl" unfolding dl_def
      proof (rule deltaLen_fits)
        show "ar_Last r' - ar_First r' + 1 < 2 ^ 48"
          using len_eq * LA by (simp add: word_less_nat_alt)
        show "unat (ar_Last r' - ar_First r' + 1) \<le> unat (if HasMissingRanges f
            then max_range_length 0 (ack_AckRanges f) else ack_LargestAcked f - ack_LowestAcked f + 1)"
          using max_range_length_ge(2) [of r' "ack_AckRanges f" 0] that ranges(1,3) by (simp add: word_le_nat_alt)
      qed
    qed
    have small: "ar_First r' \<le> ar_Last r' \<and> ar_Last r' \<le> maxVarInt8" if "r' \<in> set (r # rs)" for r'
      using that ranges(6,7) order_trans [OF _ LA62] by blast
    then have first62: "ar_First r \<le> maxVarInt8" using order_trans [of "ar_First r" "ar_Last r"] by simp
    have small: "\<forall>r' \<in> set rs. ar_First r' \<le> ar_Last r' \<and> ar_Last r' \<le> maxVarInt8"
      using small by simp
    define T where "T = blocks_total r rs"
    have T: "T < 255" using fits ranges(1) by (simp add: legacy_fits_def T_def)
    have T0: "0 < T" using blocks_total_0 [OF ranges(5) small] ranges(2) by (auto simp: T_def)
    have nr: "numWritableNackRanges f = of_nat (1 + T)"
      using count_writable_fits [OF ranges(5) first62 small, of 0] T
      by (simp add: numWritableNackRanges_def ranges(1) T_def)
    obtain bs where bs: "write_legacy_ranges dl (of_nat (1 + T)) (of_nat 1) r rs = Inr (bs, of_nat (1 + T))"
      "length bs = (1 + unat dl) * T"
      "\<And>n c acc x. parse_legacy_blocks (T + n) dl False c (r # acc) (bs @ x)
          = parse_legacy_blocks n dl False (if rs = [] then c else True) (rev rs @ r # acc) x"
      using legacy_ranges_roundtrip [OF dl ranges(5) first62, of 1] small in_range T
      unfolding T_def [symmetric] by auto
    have rb: "parse_legacy_blocks T dl False False [r] (bs @ y) = Inr ((True, rev rs @ [r]), y)" for y
      using bs(3) [of 0 False "[]" y] ranges(2) by simp
    define n where "n = LA - ar_First r + 1"
    have last_r: "ar_Last r = LA" using ranges(4) by (simp add: LA_def)
    have rn: "be_ReadUintN dl (be_bytes (unat dl) (unat n) @ y) = Inr (n, y)" for y
      using in_range [of r] by (intro read_len [OF dl]) (simp add: n_def last_r)
    have un: "unat n = unat LA - unat (ar_First r) + 1" using len_eq [of r] by (simp add: n_def last_r)
    have "unat (LA + 1) = unat LA + 1" using LA by (simp add: unat_word_ariths)
    then have chk: "n \<noteq> 0" "\<not> n > LA + 1" using un by (auto simp: word_less_nat_alt)
    have r0: "\<lparr> ar_First = LA - n + 1, ar_Last = LA \<rparr> = r" using last_r by (simp add: n_def)
    define nb where "nb = u8 (of_nat (1 + T) - 1 :: uint64)"
    have nb: "unat nb = T" "nb \<noteq> 0"
      using T T0 by (auto simp: nb_def unsigned_ucast_eq unat_of_nat take_bit_nat_eq_self word_unat_eq_iff)
    have num: "\<not> of_nat (1 + T) > (0xFF :: uint64)" using T by (simp add: word_less_nat_alt unat_of_nat del: of_nat_Suc of_nat_add)
    define out where "out = [legacy_ack_typeByte f] @ lb @ db @ [nb] @ be_bytes (unat dl) (unat n) @ bs @ [0]"
    have valid: "validateAckRanges g"
      if "ack_AckRanges g = r # rs" "ack_LargestAcked g = LA" for g
    proof -
      have "validateAckRanges f" using wf by (simp add: ack_wf_def)
      then show ?thesis using that ranges(1) by (simp only: validateAckRanges_def LA_def)
    qed
    have lowest: "ar_First ((r # rs) ! (length (r # rs) - 1)) = ack_LowestAcked f"
      using ranges(8) by (metis last_conv_nth list.distinct(1))
    have W: "AckFrame_writeLegacy since f = Inr (out, f\<lparr> ack_DelayTime := since \<rparr>)"
      unfolding AckFrame_writeLegacy_def Let_def dl' tb' hm' nr' nr write_len_eq [OF ll [unfolded ll_def LA_def]]
        write_len_eq [OF dl] ebind_simps
      using ranges(1,3,4) num lowest bs(1) by (simp add: out_def lb_def db_def ll_def LA_def n_def nb_def write_len_eq [OF dl])
    have P: "parseAckFrameLegacy (out @ x)
        = Inr (f\<lparr> ack_DelayTime := legacy_delay since, ack_PacketReceivedTime := 0 \<rparr>, x)"
      unfolding out_def append_assoc unfold_parse
      using ranges(2,8) lowest
      by (simp add: ranges(1,3) rn chk nb r0 rb valid legacy_delay_def hd_rev) (simp add: LA_def ranges(1))
    have "AckFrame_lengthLegacy f = of_nat (length out)"
      using ranges(3) lens bs(2) nr by (simp add: AckFrame_lengthLegacy_def Let_def out_def dl_def ll_def LA_def algebra_simps)
    with W P show ?thesis by blast
  qed
qed

text \<open>
  When already the first gap needs 255 blocks or more, no further range counts as writable, yet the
  loop writes it before it compares the counters, and the frame is rejected as inconsistent.
\<close>

lemma writeLegacy_long_first_gap:
  assumes wf: "ack_wf f" and LA: "ack_LargestAcked f < 2 ^ 48 - 1"
    and rs: "ack_AckRanges f = r # r2 # rs" and gap: "255 \<le> blocks_of r r2"
  shows "AckFrame_writeLegacy since f = Inl (GoErr ''BUG: Inconsistent number of ACK ranges written'')"
  using wf
proof (cases rule: ack_wf_cases)
  case single
  with rs show ?thesis by simp
next
  case (ranges r' rs')
  then have r: "r' = r" "rs' = r2 # rs" using rs by auto
  have LA62: "ack_LargestAcked f \<le> maxVarInt8" using LA by (simp add: word_le_nat_alt word_less_nat_alt)
  have small: "ar_First x \<le> ar_Last x \<and> ar_Last x \<le> maxVarInt8" if "x \<in> set (r # r2 # rs)" for x
    using that ranges(6,7) r order_trans [OF _ LA62] by blast
  then have first62: "ar_First r \<le> maxVarInt8" using order_trans [of "ar_First r" "ar_Last r"] by simp
  have ord: "ranges_ordered (r # r2 # rs)" using ranges(5) r by simp
  have s2: "ar_First r2 \<le> ar_Last r2" "ar_Last r2 \<le> maxVarInt8" using small [of r2] by auto
  note st = ranges_step [OF ord s2]
  note gl = gap_of_limit [OF st(2) first62]
  define dl where "dl = getMissingSequenceNumberDeltaLen f"
  have dl: "dl \<in> {PacketNumberLen1, PacketNumberLen2, PacketNumberLen4, PacketNumberLen6}"
    unfolding dl_def by (rule deltaLen_cases)
  define g where "g = ar_First r - ar_Last r2 - 1"
  define num where "num = (let n = g div 0xFF + 1 in if g mod 0xFF = 0 then n - 1 else n)"
  note wr = write_legacy_range [OF dl st(2) gl, folded g_def, folded num_def]
  have n255: "255 \<le> unat num" using wr(1) gap by simp
  have nlt: "unat num < 2 ^ 63" using wr(1) gl unfolding blocks_of_def by simp
  have cw: "count_writable 0 r (r2 # rs) = 0"
  proof -
    have "(if g mod 0xFF = 0 then 1 + g div 0xFF - 1 else 1 + g div 0xFF) = num"
      unfolding num_def Let_def by (simp add: add.commute)
    then show ?thesis
      unfolding count_writable.simps Let_def g_def [symmetric] using n255 by (simp add: word_less_nat_alt)
  qed
  have "unat (1 + num) = 1 + unat num" using nlt by (simp add: unat_word_ariths)
  then have ge: "1 + num \<ge> 1" "1 \<noteq> 1 + num" using n255 by (auto simp: word_le_nat_alt)
  have W: "write_legacy_ranges dl 1 1 r (r2 # rs) = Inr (range_bytes dl r r2, 1 + num)"
    unfolding write_legacy_ranges.simps Let_def g_def [symmetric] num_def [unfolded Let_def, symmetric] wr(2) ebind_simps
    using ge(1) by simp
  have nr: "numWritableNackRanges f = 1" using cw by (simp add: numWritableNackRanges_def rs del: count_writable.simps)
  have eqs: "getMissingSequenceNumberDeltaLen (f\<lparr> ack_DelayTime := since \<rparr>) = dl"
    "numWritableNackRanges (f\<lparr> ack_DelayTime := since \<rparr>) = numWritableNackRanges f"
    "HasMissingRanges (f\<lparr> ack_DelayTime := since \<rparr>) = HasMissingRanges f"
    by (simp_all add: dl_def getMissingSequenceNumberDeltaLen_def HasMissingRanges_def numWritableNackRanges_def)
  have lowest: "ar_First ((r # r2 # rs) ! (length (r # r2 # rs) - 1)) = ack_LowestAcked f"
    using ranges(8) r by (metis last_conv_nth list.distinct(1))
  show ?thesis
    unfolding AckFrame_writeLegacy_def Let_def write_len_eq [OF GetPacketNumberLength_cases] ebind_simps eqs
      write_len_eq [OF dl] nr
    using ranges(3,4) r lowest ge(2) W by (simp add: rs del: write_legacy_ranges.simps)
qed

subsection \<open>The contract of the frame\<close>

definition AckFrame_wf :: "VersionNumber \<Rightarrow> AckFrame \<Rightarrow> bool" where
  "AckFrame_wf version f \<longleftrightarrow>
     ack_wf f \<and> ack_PacketReceivedTime f = 0
     \<and> (if UsesIETFFrameFormat version
        then ack_LargestAcked f \<le> maxVarInt8 \<and> 0 \<le> sint (ack_DelayTime f)
             \<and> ietf_delay (ack_DelayTime f) = ack_DelayTime f \<and> length (ack_AckRanges f) \<le> 2 ^ 62
        else legacy_fits f \<and> legacy_delay (ack_DelayTime f) = ack_DelayTime f)"

definition AckFrame_bytes :: "AckFrame \<Rightarrow> VersionNumber \<Rightarrow> goerr + byte list" where
  "AckFrame_bytes f version = ebind (AckFrame_Write (ack_DelayTime f) f version) (\<lambda>(bs, f'). Inr bs)"

lemma parse_ack_blocks_prefix: "reads_prefix (parse_ack_blocks n smallest)"
proof (induction n arbitrary: smallest)
  case 0
  show ?case by (simp add: reads_prefix_def)
next
  case (Suc n)
  have "reads_prefix (\<lambda>r. parse_ack_blocks (Suc n) smallest r)"
    unfolding parse_ack_blocks.simps Let_def case_prod_beta
    by (intro reading) (use Suc in \<open>simp_all add: reads_prefix_def\<close>)
  then show ?case .
qed

lemma parse_legacy_blocks_prefix: "reads_prefix (parse_legacy_blocks n dl b c rs)"
proof (induction n arbitrary: b c rs)
  case 0
  show ?case by (simp add: reads_prefix_def)
next
  case (Suc n)
  have "reads_prefix (\<lambda>r. parse_legacy_blocks (Suc n) dl b c rs r)"
    unfolding parse_legacy_blocks.simps Let_def
    by (intro reading) (use Suc in \<open>simp_all add: reads_prefix_def\<close>)
  then show ?case .
qed

lemma skip_timestamps_prefix: "reads_prefix (skip_timestamps n)"
proof (induction n)
  case 0
  show ?case by (simp add: reads_prefix_def)
next
  case (Suc n)
  have "reads_prefix (\<lambda>r. skip_timestamps (Suc n) r)"
    unfolding skip_timestamps.simps by (intro reading) (use Suc in \<open>simp_all add: reads_prefix_def\<close>)
  then show ?case .
qed

lemma readUfloat16_prefix [reading]: "reads_prefix (\<lambda>r. readUfloat16 be_ReadUint16 r)"
  unfolding readUfloat16_def by (intro reading)

lemma ack_prefixes [reading]:
  "reads_prefix (\<lambda>r. parse_ack_blocks n smallest r)"
  "reads_prefix (\<lambda>r. parse_legacy_blocks n dl b c rs r)"
  "reads_prefix (\<lambda>r. skip_timestamps n r)"
  using parse_ack_blocks_prefix parse_legacy_blocks_prefix skip_timestamps_prefix by simp_all

lemma ParseAckFrame_shorter: "ParseAckFrame v r = Inr (f, r') \<Longrightarrow> length r' < length r"
proof -
  have "ParseAckFrame_IETF r = Inr (f, r') \<Longrightarrow> length r' < length r"
    unfolding ParseAckFrame_IETF_def Let_def case_prod_beta by (erule reads_type_byte, intro reading)
  moreover have "parseAckFrameLegacy r = Inr (f, r') \<Longrightarrow> length r' < length r"
    unfolding parseAckFrameLegacy_def Let_def case_prod_beta by (erule reads_type_byte, intro reading)
  ultimately show "ParseAckFrame v r = Inr (f, r') \<Longrightarrow> length r' < length r"
    by (auto simp: ParseAckFrame_def split: if_splits)
qed

lemma ParseAckFrame_bytes:
  assumes "AckFrame_wf v f"
  shows "\<exists>bs. AckFrame_bytes f v = Inr bs \<and> AckFrame_Length f v = Inr (of_nat (length bs))
    \<and> ParseAckFrame v (bs @ r) = Inr (f, r)"
proof (cases "UsesIETFFrameFormat v")
  case True
  with assms ParseAckFrame_Write_IETF [of f r] show ?thesis
    by (auto simp: AckFrame_wf_def AckFrame_bytes_def AckFrame_Write_def AckFrame_Length_def ParseAckFrame_def)
next
  case False
  with assms parseAckFrameLegacy_writeLegacy [of f "ack_DelayTime f" r] show ?thesis
    by (auto simp: AckFrame_wf_def AckFrame_bytes_def AckFrame_Write_def AckFrame_Length_def ParseAckFrame_def)
qed

interpretation ack: frame_codec AckFrame_bytes AckFrame_Length ParseAckFrame AckFrame_wf
proof (unfold_locales, goal_cases)
  case (4 v r f r')
  then show ?case by (rule ParseAckFrame_shorter)
qed (use ParseAckFrame_bytes in fastforce)+

subsection \<open>Properties\<close>

text \<open>The IETF ACK frame: every range survives writing and parsing, the announced length is exact,
  and only the delay is rounded down to 8 microseconds.\<close>

theorem ietf_ack_roundtrip:
  assumes "UsesIETFFrameFormat v" and "ack_wf f" and "ack_LargestAcked f \<le> maxVarInt8"
    and "0 \<le> sint (ack_DelayTime f)" and "length (ack_AckRanges f) \<le> 2 ^ 62"
  shows "\<exists>bs. AckFrame_Write since f v = Inr (bs, f) \<and> AckFrame_Length f v = Inr (of_nat (length bs))
    \<and> ParseAckFrame v (bs @ r)
        = Inr (f\<lparr> ack_DelayTime := ietf_delay (ack_DelayTime f), ack_PacketReceivedTime := 0 \<rparr>, r)"
  using ParseAckFrame_Write_IETF [OF assms(2-5), of r] assms(1)
  by (auto simp: AckFrame_Write_def AckFrame_Length_def ParseAckFrame_def)

text \<open>The gQUIC ACK frame, whose gaps of more than 255 packets are split over several blocks: if the
  ranges take fewer than 255 blocks, all of them survive writing and parsing, the announced length is
  exact, and the delay is the rounded time since the packet was received.\<close>

theorem gquic_ack_roundtrip:
  assumes "\<not> UsesIETFFrameFormat v" and "ack_wf f" and "legacy_fits f"
  shows "\<exists>bs. AckFrame_Write since f v = Inr (bs, f\<lparr> ack_DelayTime := since \<rparr>)
    \<and> AckFrame_Length f v = Inr (of_nat (length bs))
    \<and> ParseAckFrame v (bs @ r)
        = Inr (f\<lparr> ack_DelayTime := legacy_delay since, ack_PacketReceivedTime := 0 \<rparr>, r)"
  using parseAckFrameLegacy_writeLegacy [OF assms(2,3), of since r] assms(1)
  by (auto simp: AckFrame_Write_def AckFrame_Length_def ParseAckFrame_def)

definition example_ack :: AckFrame where
  "example_ack = \<lparr> ack_LargestAcked = 1000, ack_LowestAcked = 3,
     ack_AckRanges = [\<lparr> ar_First = 900, ar_Last = 1000 \<rparr>, \<lparr> ar_First = 3, ar_Last = 200 \<rparr>],
     ack_PacketReceivedTime = 0, ack_DelayTime = 16000 \<rparr>"

lemma example_ack_wf: "ack_wf example_ack" "legacy_fits example_ack"
  by (simp_all add: example_ack_def ack_wf_def validateAckRanges_def HasMissingRanges_def legacy_fits_def
      blocks_of_def gap_of_def)

theorem ietf_ack_roundtrip_witness:
  "\<exists>bs. AckFrame_Write 0 example_ack VersionTLS = Inr (bs, example_ack)
    \<and> AckFrame_Length example_ack VersionTLS = Inr (of_nat (length bs))"
  using ietf_ack_roundtrip [of VersionTLS example_ack 0 "[]"] example_ack_wf(1)
  by (auto simp: UsesIETFFrameFormat_def version_defs example_ack_def)

theorem gquic_ack_roundtrip_witness:
  "\<exists>bs. AckFrame_Write 5000 example_ack Version39 = Inr (bs, example_ack\<lparr> ack_DelayTime := 5000 \<rparr>)
    \<and> AckFrame_Length example_ack Version39 = Inr (of_nat (length bs))"
  using gquic_ack_roundtrip [of Version39 example_ack 5000 "[]"] example_ack_wf
  by (auto simp: UsesIETFFrameFormat_def)

text \<open>An ACK frame acknowledges exactly the packets of its ranges: the check against the largest and
  lowest acknowledged packet never rejects one of them.\<close>

theorem acks_packet_iff:
  assumes "ack_wf f" and "ack_LargestAcked f \<le> maxVarInt8"
  shows "AcksPacket f p \<longleftrightarrow>
    (if HasMissingRanges f then \<exists>r \<in> set (ack_AckRanges f). ar_First r \<le> p \<and> p \<le> ar_Last r
     else ack_LowestAcked f \<le> p \<and> p \<le> ack_LargestAcked f)"
  by (rule AcksPacket_eq [OF assms])

theorem acks_packet_iff_witness:
  "AcksPacket example_ack 950 \<and> \<not> AcksPacket example_ack 500 \<and> AcksPacket example_ack 3"
  using acks_packet_iff [of example_ack 950] acks_packet_iff [of example_ack 500]
    acks_packet_iff [of example_ack 3] example_ack_wf(1)
  by (simp add: example_ack_def HasMissingRanges_def)

text \<open>A gQUIC ACK frame whose first gap is longer than 254 times 255 packets cannot be written: the
  writer fails with its own consistency check instead of dropping the ranges that do not fit.\<close>

theorem gquic_ack_long_first_gap:
  assumes "\<not> UsesIETFFrameFormat v" and "ack_wf f" and "ack_LargestAcked f < 2 ^ 48 - 1"
    and "ack_AckRanges f = r # r2 # rs" and "254 * 255 < unat (ar_First r - ar_Last r2 - 1)"
  shows "AckFrame_Write since f v = Inl (GoErr ''BUG: Inconsistent number of ACK ranges written'')"
proof -
  have "255 * 255 \<le> unat (ar_First r - ar_Last r2 - 1) + 254" using assms(5) by simp
  then have "255 \<le> blocks_of r r2"
    unfolding blocks_of_def gap_of_def by (metis div_le_mono nonzero_mult_div_cancel_right zero_neq_numeral)
  from writeLegacy_long_first_gap [OF assms(2-4) this] assms(1) show ?thesis by (simp add: AckFrame_Write_def)
qed

theorem gquic_ack_long_first_gap_witness:
  "AckFrame_Write 0 \<lparr> ack_LargestAcked = 100000, ack_LowestAcked = 1,
     ack_AckRanges = [\<lparr> ar_First = 100000, ar_Last = 100000 \<rparr>, \<lparr> ar_First = 1, ar_Last = 10 \<rparr>],
     ack_PacketReceivedTime = 0, ack_DelayTime = 0 \<rparr> Version39
   = Inl (GoErr ''BUG: Inconsistent number of ACK ranges written'')"
  by (rule gquic_ack_long_first_gap [of _ _ "\<lparr> ar_First = 100000, ar_Last = 100000 \<rparr>" "\<lparr> ar_First = 1, ar_Last = 10 \<rparr>" "[]"])
    (simp_all add: UsesIETFFrameFormat_def ack_wf_def validateAckRanges_def HasMissingRanges_def word_le_nat_alt)

end
