(* ===== verification/Unpacker.thy ===== *)
theory Unpacker
  imports Wire_Stream Wire_Ack
begin

unbundle bit_operations_syntax

section \<open>Unpacking packets\<close>

text \<open>
  \<open>packet_unpacker.go\<close>: the dispatch on the type byte of a frame, in the IETF and gQUIC formats, and
  the loop that reads all frames of a decrypted packet. The AEAD is the argument \<open>aead_Open\<close>. A parse
  error is wrapped into the error code of its frame; a panic is not caught.
\<close>

instantiation EncryptionLevel :: linorder
begin

fun level_rank :: "EncryptionLevel \<Rightarrow> nat" where
  "level_rank EncryptionUnspecified = 0"
| "level_rank EncryptionUnencrypted = 1"
| "level_rank EncryptionSecure = 2"
| "level_rank EncryptionForwardSecure = 3"

definition less_eq_EncryptionLevel :: "EncryptionLevel \<Rightarrow> EncryptionLevel \<Rightarrow> bool" where
  "less_eq_EncryptionLevel a b \<longleftrightarrow> level_rank a \<le> level_rank b"

definition less_EncryptionLevel :: "EncryptionLevel \<Rightarrow> EncryptionLevel \<Rightarrow> bool" where
  "less_EncryptionLevel a b \<longleftrightarrow> level_rank a < level_rank b"

instance
proof
  fix a b :: EncryptionLevel
  show "a \<le> b \<Longrightarrow> b \<le> a \<Longrightarrow> a = b"
    by (cases a; cases b) (simp_all add: less_eq_EncryptionLevel_def)
qed (auto simp: less_eq_EncryptionLevel_def less_EncryptionLevel_def)

end

subsection \<open>The interface \<open>Frame\<close>\<close>

definition Frame_Write :: "Duration \<Rightarrow> Frame \<Rightarrow> VersionNumber \<Rightarrow> goerr + byte list" where
  "Frame_Write since frame v =
     (case frame of
        Frame_Stream f \<Rightarrow> StreamFrame_Write f v
      | Frame_Ack f \<Rightarrow> ebind (AckFrame_Write since f v) (\<lambda>(bs, f'). Inr bs)
      | Frame_RstStream f \<Rightarrow> RstStreamFrame_Write f v
      | Frame_ConnectionClose f \<Rightarrow> ConnectionCloseFrame_Write f v
      | Frame_Goaway f \<Rightarrow> GoawayFrame_Write f v
      | Frame_MaxData f \<Rightarrow> MaxDataFrame_Write f v
      | Frame_MaxStreamData f \<Rightarrow> MaxStreamDataFrame_Write f v
      | Frame_MaxStreamID f \<Rightarrow> MaxStreamIDFrame_Write f v
      | Frame_Ping \<Rightarrow> PingFrame_Write () v
      | Frame_Blocked f \<Rightarrow> BlockedFrame_Write f v
      | Frame_StreamBlocked f \<Rightarrow> StreamBlockedFrame_Write f v
      | Frame_StreamIDBlocked f \<Rightarrow> StreamIDBlockedFrame_Write f v
      | Frame_StopSending f \<Rightarrow> StopSendingFrame_Write f v
      | Frame_StopWaiting f \<Rightarrow> StopWaitingFrame_Write f v)"

definition Frame_Length :: "Frame \<Rightarrow> VersionNumber \<Rightarrow> goerr + ByteCount" where
  "Frame_Length frame v =
     (case frame of
        Frame_Stream f \<Rightarrow> StreamFrame_Length f v
      | Frame_Ack f \<Rightarrow> AckFrame_Length f v
      | Frame_RstStream f \<Rightarrow> RstStreamFrame_Length f v
      | Frame_ConnectionClose f \<Rightarrow> ConnectionCloseFrame_Length f v
      | Frame_Goaway f \<Rightarrow> GoawayFrame_Length f v
      | Frame_MaxData f \<Rightarrow> MaxDataFrame_Length f v
      | Frame_MaxStreamData f \<Rightarrow> MaxStreamDataFrame_Length f v
      | Frame_MaxStreamID f \<Rightarrow> MaxStreamIDFrame_Length f v
      | Frame_Ping \<Rightarrow> PingFrame_Length () v
      | Frame_Blocked f \<Rightarrow> BlockedFrame_Length f v
      | Frame_StreamBlocked f \<Rightarrow> StreamBlockedFrame_Length f v
      | Frame_StreamIDBlocked f \<Rightarrow> StreamIDBlockedFrame_Length f v
      | Frame_StopSending f \<Rightarrow> StopSendingFrame_Length f v
      | Frame_StopWaiting f \<Rightarrow> StopWaitingFrame_Length f v)"

subsection \<open>Parsing one frame\<close>

definition wrap_error :: "ErrorCode \<Rightarrow> goerr + 'a \<Rightarrow> goerr + 'a" where
  "wrap_error code m =
     (case m of Inl (Panic s) \<Rightarrow> Inl (Panic s) | Inl e \<Rightarrow> Inl (QErr code) | Inr x \<Rightarrow> Inr x)"

definition as_frame :: "('f \<Rightarrow> Frame) \<Rightarrow> goerr + ('f \<times> byte list) \<Rightarrow> goerr + (Frame \<times> byte list)" where
  "as_frame C m = rbind m (\<lambda>f r. Inr (C f, r))"

definition parseIETFFrame :: "VersionNumber \<Rightarrow> byte \<Rightarrow> Header \<Rightarrow> Frame reader" where
  "parseIETFFrame v typeByte hdr r =
     (if typeByte AND 0xf8 = 0x10
      then wrap_error InvalidStreamData (as_frame Frame_Stream (ParseStreamFrame v r))
      else if typeByte = 0x1
      then wrap_error InvalidRstStreamData (as_frame Frame_RstStream (ParseRstStreamFrame v r))
      else if typeByte = 0x2
      then wrap_error InvalidConnectionCloseData (as_frame Frame_ConnectionClose (ParseConnectionCloseFrame v r))
      else if typeByte = 0x4
      then wrap_error InvalidWindowUpdateData (as_frame Frame_MaxData (ParseMaxDataFrame v r))
      else if typeByte = 0x5
      then wrap_error InvalidWindowUpdateData (as_frame Frame_MaxStreamData (ParseMaxStreamDataFrame v r))
      else if typeByte = 0x6
      then wrap_error InvalidFrameData (as_frame Frame_MaxStreamID (ParseMaxStreamIDFrame v r))
      else if typeByte = 0x7 then as_frame (\<lambda>_. Frame_Ping) (ParsePingFrame v r)
      else if typeByte = 0x8
      then wrap_error InvalidBlockedData (as_frame Frame_Blocked (ParseBlockedFrame v r))
      else if typeByte = 0x9
      then wrap_error InvalidBlockedData (as_frame Frame_StreamBlocked (ParseStreamBlockedFrame v r))
      else if typeByte = 0xa
      then wrap_error InvalidFrameData (as_frame Frame_StreamIDBlocked (ParseStreamIDBlockedFrame v r))
      else if typeByte = 0xc
      then wrap_error InvalidFrameData (as_frame Frame_StopSending (ParseStopSendingFrame v r))
      else if typeByte = 0xe
      then wrap_error InvalidAckData (as_frame Frame_Ack (ParseAckFrame v r))
      else Inl (QErr InvalidFrameData))"

definition parseGQUICFrame :: "VersionNumber \<Rightarrow> byte \<Rightarrow> Header \<Rightarrow> Frame reader" where
  "parseGQUICFrame v typeByte hdr r =
     (if typeByte AND 0x80 = 0x80
      then wrap_error InvalidStreamData (as_frame Frame_Stream (ParseStreamFrame v r))
      else if typeByte AND 0xc0 = 0x40
      then wrap_error InvalidAckData (as_frame Frame_Ack (ParseAckFrame v r))
      else if typeByte = 0x1
      then wrap_error InvalidRstStreamData (as_frame Frame_RstStream (ParseRstStreamFrame v r))
      else if typeByte = 0x2
      then wrap_error InvalidConnectionCloseData (as_frame Frame_ConnectionClose (ParseConnectionCloseFrame v r))
      else if typeByte = 0x3
      then wrap_error InvalidGoawayData (as_frame Frame_Goaway (ParseGoawayFrame v r))
      else if typeByte = 0x4 then wrap_error InvalidWindowUpdateData (ParseWindowUpdateFrame v r)
      else if typeByte = 0x5 then wrap_error InvalidBlockedData (ParseBlockedFrameLegacy v r)
      else if typeByte = 0x6
      then wrap_error InvalidStopWaitingData (as_frame Frame_StopWaiting
             (ParseStopWaitingFrame (hdr_PacketNumber hdr) (hdr_PacketNumberLen hdr) v r))
      else if typeByte = 0x7 then as_frame (\<lambda>_. Frame_Ping) (ParsePingFrame v r)
      else Inl (QErr InvalidFrameData))"

definition parseFrame :: "VersionNumber \<Rightarrow> byte \<Rightarrow> Header \<Rightarrow> Frame reader" where
  "parseFrame v typeByte hdr r =
     (if UsesIETFFrameFormat v then parseIETFFrame v typeByte hdr r
      else parseGQUICFrame v typeByte hdr r)"

lemma wrap_error_Inr [simp]: "wrap_error c m = Inr x \<longleftrightarrow> m = Inr x"
  by (auto simp: wrap_error_def split: sum.splits goerr.splits)

lemma as_frame_Inr: "as_frame C m = Inr (f, r) \<longleftrightarrow> (\<exists>x. m = Inr (x, r) \<and> f = C x)"
  by (auto simp: as_frame_def rbind_Inr_iff)

lemma parseFrame_shorter: "parseFrame v b hdr r = Inr (f, r') \<Longrightarrow> length r' < length r"
  by (auto simp: parseFrame_def parseIETFFrame_def parseGQUICFrame_def as_frame_Inr split: if_splits
      dest: parsers_shorten ParseStreamFrame_shorter ParseAckFrame_shorter)

subsection \<open>All frames of a packet\<close>

record unpackedPacket =
  up_encryptionLevel :: EncryptionLevel
  up_frames :: "Frame list"

definition unencrypted_stream_data :: "VersionNumber \<Rightarrow> EncryptionLevel \<Rightarrow> Frame \<Rightarrow> bool" where
  "unencrypted_stream_data v encryptionLevel frame =
     (case frame of
        Frame_Stream sf \<Rightarrow> sf_StreamID sf \<noteq> CryptoStreamID v \<and> encryptionLevel \<le> EncryptionUnencrypted
      | _ \<Rightarrow> False)"

function unpack_frames :: "VersionNumber \<Rightarrow> EncryptionLevel \<Rightarrow> Header \<Rightarrow> byte list \<Rightarrow> goerr + Frame list" where
  "unpack_frames v lvl hdr [] = Inr []"
| "unpack_frames v lvl hdr (typeByte # r) =
     (if typeByte = 0x0 then unpack_frames v lvl hdr r
      else case parseFrame v typeByte hdr (typeByte # r) of
        Inl e \<Rightarrow> Inl e
      | Inr (frame, r') \<Rightarrow>
          if unencrypted_stream_data v lvl frame then Inl (QErr UnencryptedStreamData)
          else ebind (unpack_frames v lvl hdr r') (\<lambda>fs. Inr (frame # fs)))"
  by pat_completeness auto
termination
  by (relation "measure (\<lambda>(v, lvl, hdr, r). length r)") (auto dest: parseFrame_shorter)

definition Unpack ::
    "(byte list \<Rightarrow> PacketNumber \<Rightarrow> byte list \<Rightarrow> goerr + byte list \<times> EncryptionLevel)
     \<Rightarrow> VersionNumber \<Rightarrow> byte list \<Rightarrow> Header \<Rightarrow> byte list \<Rightarrow> goerr + unpackedPacket" where
  "Unpack aead_Open v headerBinary hdr data =
     (case aead_Open data (hdr_PacketNumber hdr) headerBinary of
        Inl e \<Rightarrow> Inl (QErr DecryptionFailure)
      | Inr (decrypted, encryptionLevel) \<Rightarrow>
          if length decrypted = 0 then Inl (QErr MissingPayload)
          else ebind (unpack_frames v encryptionLevel hdr decrypted) (\<lambda>fs.
                 Inr \<lparr> up_encryptionLevel = encryptionLevel, up_frames = fs \<rparr>))"

subsection \<open>Failures are QUIC errors\<close>

text \<open>
  \<open>panicfree\<close>: a reader of the development never ends in a panic. The one place where the parsers
  index a slice is the list of ranges of a gQUIC ACK frame.
\<close>

named_theorems panics \<open>readers do not panic\<close>

definition panicfree :: "'a reader \<Rightarrow> bool" where
  "panicfree p \<longleftrightarrow> (\<forall>r s. p r \<noteq> Inl (Panic s))"

lemma panicfree_bind [panics]:
  "panicfree p \<Longrightarrow> (\<And>x. panicfree (f x)) \<Longrightarrow> panicfree (\<lambda>r. rbind (p r) (\<lambda>x r. f x r))"
  by (auto simp: panicfree_def rbind_def split: sum.splits)

lemma panicfree_simple [panics]:
  "panicfree (\<lambda>r. Inr (g r, r))" "panicfree (\<lambda>r. Inl EOF)" "panicfree (\<lambda>r. Inl (QErr c))" "panicfree (\<lambda>r. Inl (GoErr m))"
  by (simp_all add: panicfree_def)

lemma panicfree_if [panics]:
  "panicfree p \<Longrightarrow> panicfree q \<Longrightarrow> panicfree (\<lambda>r. if c r then p r else q r)"
  by (auto simp: panicfree_def)

lemma panicfree_bytes [panics]:
  "panicfree (\<lambda>r. ReadByte r)" "panicfree (\<lambda>r. ReadBytes n r)" "panicfree (\<lambda>r. ReadFull (m r) r)"
  by (auto simp: panicfree_def ReadByte_def ReadBytes_def ReadFull_def split: list.splits)

lemma panicfree_be [panics]:
  "panicfree (\<lambda>r. be_ReadUint64 r)" "panicfree (\<lambda>r. be_ReadUint32 r)" "panicfree (\<lambda>r. be_ReadUint16 r)"
  "panicfree (\<lambda>r. ReadVarInt r)"
  unfolding be_ReadUint64_eq be_ReadUint32_eq be_ReadUint16_eq ReadVarInt_eq Let_def by (intro panics)+

lemma panicfree_be_N [panics]: "panicfree (\<lambda>r. be_ReadUintN n r)"
proof -
  have "be_ReadUintN_from n i res r \<noteq> Inl (Panic s)" for i res r s
  proof (induction n i res r rule: be_ReadUintN_from.induct)
    case (1 n i res r)
    show ?case
    proof (cases "i < n")
      case True
      then show ?thesis
        using 1(1) [OF True] by (cases r) (simp_all add: be_ReadUintN_from.simps [of n i])
    qed (simp add: be_ReadUintN_from.simps [of n i])
  qed
  then show ?thesis by (simp add: panicfree_def be_ReadUintN_def)
qed

lemma panicfree_readUfloat16 [panics]: "panicfree (\<lambda>r. readUfloat16 be_ReadUint16 r)"
  unfolding readUfloat16_def by (intro panics)

lemma panicfree_blocks [panics]:
  "panicfree (\<lambda>r. parse_ack_blocks n smallest r)"
  "panicfree (\<lambda>r. skip_timestamps n r)"
proof -
  have "panicfree (\<lambda>r. parse_ack_blocks n smallest r)" for smallest
  proof (induction n arbitrary: smallest)
    case (Suc n)
    show ?case unfolding parse_ack_blocks.simps Let_def case_prod_beta by (intro panics Suc)
  qed (simp add: panicfree_def)
  then show "panicfree (\<lambda>r. parse_ack_blocks n smallest r)" .
  show "panicfree (\<lambda>r. skip_timestamps n r)"
  proof (induction n)
    case (Suc n)
    show ?case unfolding skip_timestamps.simps by (intro panics Suc)
  qed (simp add: panicfree_def)
qed

text \<open>
  The list of ranges never becomes empty: a range is dropped only after one was added. \<open>safe m P\<close> says
  that \<open>m\<close> does not panic and that its result satisfies \<open>P\<close>.
\<close>

definition safe :: "goerr + 'a \<Rightarrow> ('a \<Rightarrow> bool) \<Rightarrow> bool" where
  "safe m P = (case m of Inl e \<Rightarrow> \<forall>s. e \<noteq> Panic s | Inr x \<Rightarrow> P x)"

lemma safe_simps [simp]:
  "safe (Inr x) P = P x" "safe (Inl EOF) P" "safe (Inl (QErr c)) P" "safe (Inl (GoErr g)) P"
  by (simp_all add: safe_def)

lemma safe_rbind:
  "panicfree p \<Longrightarrow> safe (rbind (p r) f) P \<longleftrightarrow> (\<forall>x r'. p r = Inr (x, r') \<longrightarrow> safe (f x r') P)"
  by (auto simp: safe_def rbind_def panicfree_def split: sum.splits)

lemma safe_rbindI: "safe m (\<lambda>(x, r). safe (f x r) P) \<Longrightarrow> safe (rbind m f) P"
  by (auto simp: safe_def rbind_def split: sum.splits)

lemma safe_mono: "safe m P \<Longrightarrow> (\<And>x. P x \<Longrightarrow> Q x) \<Longrightarrow> safe m Q"
  by (auto simp: safe_def split: sum.splits)

lemma safe_if: "(c \<Longrightarrow> safe m P) \<Longrightarrow> (\<not> c \<Longrightarrow> safe m' P) \<Longrightarrow> safe (if c then m else m') P"
  by simp

lemma panicfree_iff: "panicfree p \<longleftrightarrow> (\<forall>r. safe (p r) (\<lambda>_. True))"
  by (auto simp: panicfree_def safe_def split: sum.splits)

lemma safe_ReadByte [simp]: "safe (ReadByte r) (\<lambda>_. True)"
  using panicfree_bytes(1) by (simp add: panicfree_iff)

lemmas safe_read = safe_rbind [where p = "\<lambda>r. ReadByte r", OF panicfree_bytes(1)]
  safe_rbind [where p = "\<lambda>r. be_ReadUintN n r" for n, OF panicfree_be_N]
  safe_rbind [where p = "\<lambda>r. be_ReadUint32 r", OF panicfree_be(2)]
  safe_rbind [where p = "\<lambda>r. skip_timestamps n r" for n, OF panicfree_blocks(2)]
  safe_rbind [where p = "\<lambda>r. readUfloat16 be_ReadUint16 r", OF panicfree_readUfloat16]

lemma parse_legacy_blocks_safe:
  "rs \<noteq> [] \<Longrightarrow> safe (parse_legacy_blocks n dl b c rs r) (\<lambda>((c', rs'), r'). length rs \<le> length rs')"
proof (induction n arbitrary: b c rs r)
  case (Suc n)
  have "safe (parse_legacy_blocks n dl b' c' rs' r') (\<lambda>((c'', rs''), r''). length rs \<le> length rs'')"
    if "rs' \<noteq> []" "length rs \<le> length rs'" for b' c' rs' r'
    using Suc.IH [OF that(1), of b' c' r'] by (rule safe_mono) (use that(2) in auto)
  then show ?case using Suc.prems by (simp add: safe_read Let_def)
qed simp

lemma parse_legacy_blocks_two:
  assumes "n \<noteq> 0"
  shows "safe (parse_legacy_blocks n dl False c [x] r) (\<lambda>((c', rs'), r'). 2 \<le> length rs')"
proof -
  obtain m where m: "n = Suc m" using assms by (cases n) auto
  have "safe (parse_legacy_blocks m dl b c [y, x] r) (\<lambda>((c', rs'), r'). 2 \<le> length rs')" for b c y r
    using parse_legacy_blocks_safe [of "[y, x]" m dl b c r] by (rule safe_mono) auto
  then show ?thesis by (simp add: m safe_read Let_def)
qed

lemma panicfree_parseAckFrameLegacy [panics]: "panicfree (\<lambda>r. parseAckFrameLegacy r)"
proof -
  have ranges: "safe (rbind (parse_legacy_blocks n dl False False [x] r)
    (\<lambda>(complete, rs) r.
       if (if \<not> complete then tl rs else rs) = [] then Inl (Panic ''index out of range'')
       else Inr ((ar_First (hd (if \<not> complete then tl rs else rs)), rev (if \<not> complete then tl rs else rs)), r)))
      (\<lambda>_. True)" if "n \<noteq> 0" for n dl x r
  proof (rule safe_rbindI, rule safe_mono [OF parse_legacy_blocks_two [OF that]], clarify)
    fix c' and rs :: "AckRange list" and r'
    assume "2 \<le> length rs"
    then have "rs \<noteq> []" "tl rs \<noteq> []" by (cases rs; cases "tl rs"; simp)+
    then show "safe (if (if \<not> c' then tl rs else rs) = [] then Inl (Panic ''index out of range'')
       else Inr ((ar_First (hd (if \<not> c' then tl rs else rs)), rev (if \<not> c' then tl rs else rs)), r')) (\<lambda>_. True)"
      by simp
  qed
  have tail: "safe (rbind (ReadByte r) (\<lambda>numTimestamp r.
        if numTimestamp > 0
        then rbind (ReadByte r) (\<lambda>_ r. rbind (be_ReadUint32 r) (\<lambda>_ r.
             rbind (skip_timestamps (unat numTimestamp - 1) r) (\<lambda>_ r. Inr (frame, r))))
        else Inr (frame, r))) (\<lambda>_. True)" for r and frame :: AckFrame
    by (simp add: safe_read)
  have num: "safe (rbind (if h then ReadByte r else Inr (0, r)) f) P"
    if "\<And>n r. safe (f n r) P" for h r P and f :: "byte \<Rightarrow> byte list \<Rightarrow> goerr + AckFrame \<times> byte list"
    using that by (cases h) (simp_all add: safe_read)
  have nz: "unat n \<noteq> 0" if "\<not> (h \<and> n = 0)" h for n :: byte and h using that by (simp add: unat_eq_zero)
  show ?thesis
    unfolding panicfree_iff parseAckFrameLegacy_def Let_def safe_read
    apply (intro allI impI num)
    apply (rule safe_if, simp)
    apply (simp only: safe_read, intro allI impI)
    apply (rule safe_if, simp)
    apply (rule safe_if, simp)
    apply (rule safe_rbindI)
    apply (rule safe_if)
    subgoal
      apply (rule safe_mono [OF ranges])
      apply (rule nz, assumption, assumption)
      apply (simp add: tail split: prod.splits)
      done
    apply (simp add: tail)
    done
qed

lemma panicfree_stream [panics]: "panicfree (\<lambda>r. ParseStreamFrame v r)"
proof (cases "UsesIETFFrameFormat v")
  case True
  then show ?thesis
    unfolding ParseStreamFrame_def Let_def
    by (simp only: not_True_eq_False if_False) (intro panics)
next
  case False
  then show ?thesis
    unfolding ParseStreamFrame_def parseLegacyStreamFrame_def Let_def
    by (simp only: not_False_eq_True if_True) (intro panics)
qed

lemma panicfree_ack [panics]: "panicfree (\<lambda>r. ParseAckFrame v r)"
  unfolding ParseAckFrame_def ParseAckFrame_IETF_def Let_def case_prod_beta by (intro panics)

lemma panicfree_control [panics]:
  "panicfree (\<lambda>r. ParseRstStreamFrame v r)" "panicfree (\<lambda>r. ParseConnectionCloseFrame v r)"
  "panicfree (\<lambda>r. ParseGoawayFrame v r)" "panicfree (\<lambda>r. ParseWindowUpdateFrame v r)"
  "panicfree (\<lambda>r. ParseMaxDataFrame v r)" "panicfree (\<lambda>r. ParseMaxStreamDataFrame v r)"
  "panicfree (\<lambda>r. ParseBlockedFrameLegacy v r)" "panicfree (\<lambda>r. ParseBlockedFrame v r)"
  "panicfree (\<lambda>r. ParseStreamBlockedFrame v r)" "panicfree (\<lambda>r. ParseMaxStreamIDFrame v r)"
  "panicfree (\<lambda>r. ParseStreamIDBlockedFrame v r)" "panicfree (\<lambda>r. ParseStopSendingFrame v r)"
  "panicfree (\<lambda>r. ParsePingFrame v r)" "panicfree (\<lambda>r. ParseStopWaitingFrame pn pl v r)"
  unfolding parser_defs case_prod_beta by (intro panics)+

lemma wrapped_error:
  "panicfree p \<Longrightarrow> wrap_error c (p r) = Inl e \<Longrightarrow> e = QErr c"
  by (auto simp: wrap_error_def panicfree_def split: sum.splits goerr.splits)

lemma wrapped_frame_error:
  assumes "panicfree p" and "wrap_error c (as_frame C (p r)) = Inl e"
  shows "e = QErr c"
proof -
  have "panicfree (\<lambda>r. as_frame C (p r))" unfolding as_frame_def by (intro panics assms)
  then show ?thesis using assms(2) by (rule wrapped_error)
qed

lemma parseFrame_error:
  assumes "parseFrame v b hdr (b # r) = Inl e"
  shows "\<exists>c. e = QErr c"
proof -
  note wf = wrapped_frame_error [OF panicfree_stream] wrapped_frame_error [OF panicfree_ack]
    panicfree_control(1-3,5,6,8-12,14) [THEN wrapped_frame_error] panicfree_control(4,7) [THEN wrapped_error]
  have "as_frame C (ParsePingFrame v (b # r)) \<noteq> Inl e" for C
    by (simp add: as_frame_def ParsePingFrame_def)
  then show ?thesis
    using assms by (auto simp: parseFrame_def parseIETFFrame_def parseGQUICFrame_def split: if_splits dest: wf)
qed

lemma unpack_frames_error: "unpack_frames v lvl hdr r = Inl e \<Longrightarrow> \<exists>c. e = QErr c"
proof (induction v lvl hdr r rule: unpack_frames.induct)
  case (2 v lvl hdr b r)
  show ?case
  proof (cases "b = 0")
    case False
    show ?thesis
    proof (cases "parseFrame v b hdr (b # r)")
      case (Inl e')
      with 2 False show ?thesis by (auto dest: parseFrame_error)
    next
      case (Inr a)
      obtain f r' where a: "a = (f, r')" by (cases a)
      show ?thesis
      proof (cases "unencrypted_stream_data v lvl f")
        case True
        then show ?thesis using 2(3) False Inr a by auto
      next
        case ok: False
        then have "unpack_frames v lvl hdr r' = Inl e"
          using 2(3) False Inr a by (simp add: ebind_def split: sum.splits)
        then show ?thesis by (rule 2(2) [OF False Inr a [symmetric] ok])
      qed
    qed
  qed (use 2 in simp)
qed simp

subsection \<open>No application data before encryption\<close>

lemma unpack_frames_encrypted:
  assumes "unpack_frames v lvl hdr r = Inr fs" and "lvl \<le> EncryptionUnencrypted" and "Frame_Stream f \<in> set fs"
  shows "sf_StreamID f = CryptoStreamID v"
  using assms
proof (induction v lvl hdr r arbitrary: fs rule: unpack_frames.induct)
  case (2 v lvl hdr b r)
  show ?case
  proof (cases "b = 0")
    case False
    with 2(3) obtain fr r' gs where p: "parseFrame v b hdr (b # r) = Inr (fr, r')"
      "\<not> unencrypted_stream_data v lvl fr" "unpack_frames v lvl hdr r' = Inr gs" "fs = fr # gs"
      by (auto simp: ebind_Inr_iff split: sum.splits if_splits)
    show ?thesis
    proof (cases "Frame_Stream f = fr")
      case True
      then show ?thesis using p(2) 2(4) by (auto simp: unencrypted_stream_data_def)
    next
      case neq: False
      then show ?thesis using 2(2) [OF False p(1) refl p(2) p(3) 2(4)] 2(5) p(4) by auto
    qed
  qed (use 2 in simp)
qed simp

subsection \<open>Writing frames and unpacking them\<close>

text \<open>
  \<open>Frame_wf v hdr frame\<close>: the frames a sender may put into a packet with header \<open>hdr\<close>.
  \<open>received since v frame\<close>: what the receiver is given for it. Only the delay of an ACK frame is rounded,
  and the receiver of a STOP_WAITING frame learns the least unacknowledged packet alone.
\<close>

definition Frame_wf :: "VersionNumber \<Rightarrow> Header \<Rightarrow> Frame \<Rightarrow> bool" where
  "Frame_wf v hdr frame =
     (let ietf = UsesIETFFrameFormat v in
      case frame of
        Frame_Stream f \<Rightarrow> StreamFrame_wf v f
      | Frame_Ack f \<Rightarrow> ack_wf f \<and>
          (if ietf then ack_LargestAcked f \<le> maxVarInt8 \<and> 0 \<le> sint (ack_DelayTime f)
                        \<and> length (ack_AckRanges f) \<le> 2 ^ 62
           else legacy_fits f)
      | Frame_RstStream f \<Rightarrow> RstStreamFrame_wf v f
      | Frame_ConnectionClose f \<Rightarrow> ConnectionCloseFrame_wf v f
      | Frame_Goaway f \<Rightarrow> \<not> ietf \<and> GoawayFrame_wf v f
      | Frame_MaxData f \<Rightarrow> ietf \<longrightarrow> md_ByteOffset f \<le> maxVarInt8
      | Frame_MaxStreamData f \<Rightarrow>
          (if ietf then msd_StreamID f \<le> maxVarInt8 \<and> msd_ByteOffset f \<le> maxVarInt8
           else 0 < msd_StreamID f \<and> msd_StreamID f < shl 1 32)
      | Frame_MaxStreamID f \<Rightarrow> ietf \<and> msi_StreamID f \<le> maxVarInt8
      | Frame_Ping \<Rightarrow> True
      | Frame_Blocked f \<Rightarrow> (if ietf then bl_Offset f \<le> maxVarInt8 else bl_Offset f = 0)
      | Frame_StreamBlocked f \<Rightarrow>
          (if ietf then sb_StreamID f \<le> maxVarInt8 \<and> sb_Offset f \<le> maxVarInt8
           else sb_Offset f = 0 \<and> 0 < sb_StreamID f \<and> sb_StreamID f < shl 1 32)
      | Frame_StreamIDBlocked f \<Rightarrow> ietf \<and> sib_StreamID f \<le> maxVarInt8
      | Frame_StopSending f \<Rightarrow> ietf \<and> ss_StreamID f \<le> maxVarInt8
      | Frame_StopWaiting f \<Rightarrow> \<not> ietf \<and> StopWaitingFrame_wf f
          \<and> sw_PacketNumber f = hdr_PacketNumber hdr \<and> sw_PacketNumberLen f = hdr_PacketNumberLen hdr)"

definition received :: "Duration \<Rightarrow> VersionNumber \<Rightarrow> Frame \<Rightarrow> Frame" where
  "received since v frame =
     (case frame of
        Frame_Ack f \<Rightarrow> Frame_Ack (f\<lparr> ack_DelayTime :=
            (if UsesIETFFrameFormat v then ietf_delay (ack_DelayTime f) else legacy_delay since),
            ack_PacketReceivedTime := 0 \<rparr>)
      | Frame_StopWaiting f \<Rightarrow> Frame_StopWaiting
          \<lparr> sw_LeastUnacked = sw_LeastUnacked f, sw_PacketNumberLen = 0, sw_PacketNumber = 0 \<rparr>
      | _ \<Rightarrow> frame)"

definition self_delimiting :: "Frame \<Rightarrow> bool" where
  "self_delimiting frame = (case frame of Frame_Stream f \<Rightarrow> sf_DataLenPresent f | _ \<Rightarrow> True)"

text \<open>Every writer begins with the type byte that the dispatch expects.\<close>

lemma stream_type_byte:
  assumes "StreamFrame_Write f v = Inr bs"
  shows "\<exists>t ts. bs = t # ts \<and> (if UsesIETFFrameFormat v then t AND 0xf8 = 0x10 else t AND 0x80 = 0x80)"
proof (cases "UsesIETFFrameFormat v")
  case True
  then show ?thesis using assms
    by (auto simp: StreamFrame_Write_def Let_def ebind_Inr_iff split: if_splits)
next
  case False
  then show ?thesis using assms
    by (auto simp: StreamFrame_Write_def StreamFrame_writeLegacy_def ebind_Inr_iff legacy_typeByte_bits(5)
        split: if_splits)
qed

lemma ack_type_byte:
  assumes "AckFrame_Write since f v = Inr (bs, f')"
  shows "\<exists>t ts. bs = t # ts \<and> (if UsesIETFFrameFormat v then t = 0xe else t AND 0xc0 = 0x40)"
proof (cases "UsesIETFFrameFormat v")
  case True
  then show ?thesis using assms
    by (auto simp: AckFrame_Write_def AckFrame_Write_IETF_def Let_def ebind_Inr_iff split: if_splits)
next
  case False
  have tb: "legacy_ack_typeByte (f\<lparr> ack_DelayTime := since \<rparr>) = legacy_ack_typeByte f"
    by (simp add: legacy_ack_typeByte_def getMissingSequenceNumberDeltaLen_def HasMissingRanges_def)
  from False show ?thesis using assms
    unfolding AckFrame_Write_def AckFrame_writeLegacy_def Let_def tb
    by (auto simp: ebind_Inr_iff legacy_ack_typeByte_bits(4) split: if_splits)
qed

lemma control_type_bytes:
  "RstStreamFrame_Write rst v = Inr bs \<Longrightarrow> \<exists>ts. bs = 0x1 # ts"
  "ConnectionCloseFrame_Write cc v = Inr bs \<Longrightarrow> \<exists>ts. bs = 0x2 # ts"
  "GoawayFrame_Write ga v = Inr bs \<Longrightarrow> \<exists>ts. bs = 0x3 # ts"
  "MaxDataFrame_Write md v = Inr bs \<Longrightarrow> \<exists>ts. bs = 0x4 # ts"
  "MaxStreamDataFrame_Write msd v = Inr bs \<Longrightarrow> \<exists>ts. bs = (if UsesIETFFrameFormat v then 0x5 else 0x4) # ts"
  "MaxStreamIDFrame_Write msi v = Inr bs \<Longrightarrow> \<exists>ts. bs = 0x6 # ts"
  "PingFrame_Write u v = Inr bs \<Longrightarrow> \<exists>ts. bs = 0x7 # ts"
  "BlockedFrame_Write bl v = Inr bs \<Longrightarrow> \<exists>ts. bs = (if UsesIETFFrameFormat v then 0x8 else 0x5) # ts"
  "StreamBlockedFrame_Write sb v = Inr bs \<Longrightarrow> \<exists>ts. bs = (if UsesIETFFrameFormat v then 0x9 else 0x5) # ts"
  "StreamIDBlockedFrame_Write sib v = Inr bs \<Longrightarrow> \<exists>ts. bs = 0xa # ts"
  "StopSendingFrame_Write ss v = Inr bs \<Longrightarrow> \<exists>ts. bs = 0xc # ts"
  "StopWaitingFrame_wf sw \<Longrightarrow> StopWaitingFrame_Write sw v = Inr bs \<Longrightarrow> \<exists>ts. bs = 0x6 # ts"
  by (auto simp: RstStreamFrame_Write_def ConnectionCloseFrame_Write_def GoawayFrame_Write_def ietf_frame_defs
      windowUpdateFrame_Write_def blockedFrameLegacy_Write_def ebind_Inr_iff split: if_splits)
    (auto simp: StopWaitingFrame_Write_def StopWaitingFrame_wf_def Let_def ebind_Inr_iff split: if_splits)

definition written :: "Duration \<Rightarrow> VersionNumber \<Rightarrow> Header \<Rightarrow> Frame \<Rightarrow> byte list \<Rightarrow> bool" where
  "written since v hdr frame r \<longleftrightarrow>
     (\<exists>t ts. Frame_Write since frame v = Inr (t # ts) \<and> t \<noteq> 0
       \<and> Frame_Length frame v = Inr (of_nat (length (t # ts)))
       \<and> parseFrame v t hdr (t # ts @ r) = Inr (received since v frame, r))"

lemma as_frame_intro: "m = Inr (f, r) \<Longrightarrow> as_frame C m = Inr (C f, r)"
  by (simp add: as_frame_def)

lemma written_stream:
  assumes wf: "StreamFrame_wf v f" and r: "sf_DataLenPresent f \<or> r = []"
  shows "written since v hdr (Frame_Stream f) r"
proof -
  obtain bs where bs: "StreamFrame_Write f v = Inr bs" "ParseStreamFrame v (bs @ r) = Inr (f, r)"
    "StreamFrame_Length f v = Inr (of_nat (length bs))"
    using ParseStreamFrame_Write [OF wf r] by auto
  obtain t ts where t: "bs = t # ts" "if UsesIETFFrameFormat v then t AND 0xf8 = 0x10 else t AND 0x80 = 0x80"
    using stream_type_byte [OF bs(1)] by auto
  have "t \<noteq> 0" using t(2) by (auto split: if_splits)
  moreover have "parseFrame v t hdr (t # ts @ r) = Inr (Frame_Stream f, r)"
    using bs(2) t by (auto simp: parseFrame_def parseIETFFrame_def parseGQUICFrame_def as_frame_def split: if_splits)
  ultimately show ?thesis using bs t(1) by (auto simp: written_def Frame_Write_def Frame_Length_def received_def)
qed

lemma written_ack:
  assumes wf: "Frame_wf v hdr (Frame_Ack f)"
  shows "written since v hdr (Frame_Ack f) r"
proof -
  define g where "g = f\<lparr> ack_DelayTime := (if UsesIETFFrameFormat v then ietf_delay (ack_DelayTime f)
      else legacy_delay since), ack_PacketReceivedTime := 0 \<rparr>"
  obtain bs f' where bs: "AckFrame_Write since f v = Inr (bs, f')" "ParseAckFrame v (bs @ r) = Inr (g, r)"
    "AckFrame_Length f v = Inr (of_nat (length bs))"
  proof (cases "UsesIETFFrameFormat v")
    case True
    with wf ParseAckFrame_Write_IETF [of f r] show ?thesis
      by (auto simp: Frame_wf_def Let_def AckFrame_Write_def AckFrame_Length_def ParseAckFrame_def g_def intro: that)
  next
    case False
    with wf parseAckFrameLegacy_writeLegacy [of f since r] show ?thesis
      by (auto simp: Frame_wf_def Let_def AckFrame_Write_def AckFrame_Length_def ParseAckFrame_def g_def intro: that)
  qed
  obtain t ts where t: "bs = t # ts" "if UsesIETFFrameFormat v then t = 0xe else t AND 0xc0 = 0x40"
    using ack_type_byte [OF bs(1)] by auto
  have "t \<noteq> 0" using t(2) by (auto split: if_splits)
  moreover have "t AND 0x80 \<noteq> 0x80" if "t AND 0xc0 = 0x40"
  proof
    assume "t AND 0x80 = 0x80"
    then have "t AND (0xc0 AND 0x80) = 0x80" by simp
    then have "(t AND 0xc0) AND 0x80 = 0x80" by (simp only: and.assoc)
    with that show False by simp
  qed
  then have "parseFrame v t hdr (t # ts @ r) = Inr (Frame_Ack g, r)"
    using bs(2) t by (auto simp: parseFrame_def parseIETFFrame_def parseGQUICFrame_def as_frame_def split: if_splits)
  ultimately show ?thesis
    using bs t(1) by (auto simp: written_def Frame_Write_def Frame_Length_def received_def g_def)
qed

lemma writtenI:
  assumes "Frame_Write since frame v = Inr bs" and "\<exists>ts. bs = t # ts" and "t \<noteq> 0"
    and "Frame_Length frame v = Inr (of_nat (length bs))"
    and "parseFrame v t hdr (bs @ r) = Inr (received since v frame, r)"
  shows "written since v hdr frame r"
  using assms by (auto simp: written_def)

lemmas dispatch = Frame_Write_def Frame_Length_def received_def parseFrame_def
  parseIETFFrame_def parseGQUICFrame_def as_frame_def

lemma written_control:
  "RstStreamFrame_wf v rst \<Longrightarrow> written since v hdr (Frame_RstStream rst) r"
  "ConnectionCloseFrame_wf v cc \<Longrightarrow> written since v hdr (Frame_ConnectionClose cc) r"
  "\<not> UsesIETFFrameFormat v \<Longrightarrow> GoawayFrame_wf v ga \<Longrightarrow> written since v hdr (Frame_Goaway ga) r"
  "written since v hdr Frame_Ping r"
proof -
  assume wf: "RstStreamFrame_wf v rst"
  from rst_stream.codec [OF wf] obtain bs where bs: "RstStreamFrame_Write rst v = Inr bs"
    "RstStreamFrame_Length rst v = Inr (of_nat (length bs))" "\<And>r. ParseRstStreamFrame v (bs @ r) = Inr (rst, r)" by metis
  show "written since v hdr (Frame_RstStream rst) r"
    by (rule writtenI [OF _ control_type_bytes(1) [OF bs(1)]]) (simp_all add: dispatch bs)
next
  assume wf: "ConnectionCloseFrame_wf v cc"
  from connection_close.codec [OF wf] obtain bs where bs: "ConnectionCloseFrame_Write cc v = Inr bs"
    "ConnectionCloseFrame_Length cc v = Inr (of_nat (length bs))"
    "\<And>r. ParseConnectionCloseFrame v (bs @ r) = Inr (cc, r)" by metis
  show "written since v hdr (Frame_ConnectionClose cc) r"
    by (rule writtenI [OF _ control_type_bytes(2) [OF bs(1)]]) (simp_all add: dispatch bs)
next
  assume v: "\<not> UsesIETFFrameFormat v" and wf: "GoawayFrame_wf v ga"
  from goaway.codec [OF wf] obtain bs where bs: "GoawayFrame_Write ga v = Inr bs"
    "GoawayFrame_Length ga v = Inr (of_nat (length bs))" "\<And>r. ParseGoawayFrame v (bs @ r) = Inr (ga, r)" by metis
  show "written since v hdr (Frame_Goaway ga) r"
    by (rule writtenI [OF _ control_type_bytes(3) [OF bs(1)]]) (simp_all add: dispatch bs v)
next
  show "written since v hdr Frame_Ping r"
    by (simp add: written_def dispatch PingFrame_Write_def PingFrame_Length_def ParsePingFrame_def)
qed

lemma written_windows:
  assumes "Frame_wf v hdr (Frame_MaxData md)"
  shows "written since v hdr (Frame_MaxData md) r"
proof (cases "UsesIETFFrameFormat v")
  case True
  then have wf: "varint_frame_wf (\<lambda>f. [md_ByteOffset f]) v md"
    using assms by (simp add: Frame_wf_def varint_frame_wf_def)
  from max_data.codec [OF wf] obtain bs where bs: "MaxDataFrame_Write md v = Inr bs"
    "MaxDataFrame_Length md v = Inr (of_nat (length bs))" "\<And>r. ParseMaxDataFrame v (bs @ r) = Inr (md, r)" by metis
  show ?thesis
    by (rule writtenI [OF _ control_type_bytes(4) [OF bs(1)]]) (simp_all add: dispatch bs True)
next
  case False
  obtain bs where bs: "MaxDataFrame_Write md v = Inr bs" "MaxDataFrame_Length md v = Inr (of_nat (length bs))"
    using False by (simp add: MaxDataFrame_Write_def MaxDataFrame_Length_def windowUpdateFrame_Write_def)
  show ?thesis
    by (rule writtenI [OF _ control_type_bytes(4) [OF bs(1)]]) (simp_all add: dispatch bs False ParseWindowUpdateFrame_Write(1) [OF False bs(1)])
qed

lemma written_stream_windows:
  assumes "Frame_wf v hdr (Frame_MaxStreamData msd)"
  shows "written since v hdr (Frame_MaxStreamData msd) r"
proof (cases "UsesIETFFrameFormat v")
  case True
  then have wf: "varint_frame_wf (\<lambda>f. [msd_StreamID f, msd_ByteOffset f]) v msd"
    using assms by (simp add: Frame_wf_def varint_frame_wf_def)
  from max_stream_data.codec [OF wf] obtain bs where bs: "MaxStreamDataFrame_Write msd v = Inr bs"
    "MaxStreamDataFrame_Length msd v = Inr (of_nat (length bs))"
    "\<And>r. ParseMaxStreamDataFrame v (bs @ r) = Inr (msd, r)" by metis
  show ?thesis
    by (rule writtenI [OF _ control_type_bytes(5) [OF bs(1)]]) (simp_all add: dispatch bs True)
next
  case False
  then have sid: "0 < msd_StreamID msd" "msd_StreamID msd < shl 1 32" using assms by (simp_all add: Frame_wf_def)
  obtain bs where bs: "MaxStreamDataFrame_Write msd v = Inr bs" "MaxStreamDataFrame_Length msd v = Inr (of_nat (length bs))"
    using False by (simp add: MaxStreamDataFrame_Write_def MaxStreamDataFrame_Length_def windowUpdateFrame_Write_def)
  show ?thesis
    by (rule writtenI [OF _ control_type_bytes(5) [OF bs(1)]]) (simp_all add: dispatch bs False ParseWindowUpdateFrame_Write(2) [OF False sid bs(1)])
qed

lemma written_blocked:
  assumes "Frame_wf v hdr (Frame_Blocked bl)"
  shows "written since v hdr (Frame_Blocked bl) r"
proof (cases "UsesIETFFrameFormat v")
  case True
  then have wf: "varint_frame_wf (\<lambda>f. [bl_Offset f]) v bl"
    using assms by (simp add: Frame_wf_def varint_frame_wf_def)
  from blocked.codec [OF wf] obtain bs where bs: "BlockedFrame_Write bl v = Inr bs"
    "BlockedFrame_Length bl v = Inr (of_nat (length bs))" "\<And>r. ParseBlockedFrame v (bs @ r) = Inr (bl, r)" by metis
  show ?thesis
    by (rule writtenI [OF _ control_type_bytes(8) [OF bs(1)]]) (simp_all add: dispatch bs True)
next
  case False
  then have off: "bl_Offset bl = 0" using assms by (simp add: Frame_wf_def)
  obtain bs where bs: "BlockedFrame_Write bl v = Inr bs" "BlockedFrame_Length bl v = Inr (of_nat (length bs))"
    using False by (simp add: BlockedFrame_Write_def BlockedFrame_Length_def blockedFrameLegacy_Write_def)
  show ?thesis
    by (rule writtenI [OF _ control_type_bytes(8) [OF bs(1)]]) (simp_all add: dispatch bs False ParseBlockedFrameLegacy_Write(1) [OF False off bs(1)])
qed

lemma written_stream_blocked:
  assumes "Frame_wf v hdr (Frame_StreamBlocked sb)"
  shows "written since v hdr (Frame_StreamBlocked sb) r"
proof (cases "UsesIETFFrameFormat v")
  case True
  then have wf: "varint_frame_wf (\<lambda>f. [sb_StreamID f, sb_Offset f]) v sb"
    using assms by (simp add: Frame_wf_def varint_frame_wf_def)
  from stream_blocked.codec [OF wf] obtain bs where bs: "StreamBlockedFrame_Write sb v = Inr bs"
    "StreamBlockedFrame_Length sb v = Inr (of_nat (length bs))"
    "\<And>r. ParseStreamBlockedFrame v (bs @ r) = Inr (sb, r)" by metis
  show ?thesis
    by (rule writtenI [OF _ control_type_bytes(9) [OF bs(1)]]) (simp_all add: dispatch bs True)
next
  case False
  then have sb: "sb_Offset sb = 0" "0 < sb_StreamID sb" "sb_StreamID sb < shl 1 32"
    using assms by (simp_all add: Frame_wf_def)
  obtain bs where bs: "StreamBlockedFrame_Write sb v = Inr bs" "StreamBlockedFrame_Length sb v = Inr (of_nat (length bs))"
    using False by (simp add: StreamBlockedFrame_Write_def StreamBlockedFrame_Length_def blockedFrameLegacy_Write_def)
  show ?thesis
    by (rule writtenI [OF _ control_type_bytes(9) [OF bs(1)]]) (simp_all add: dispatch bs False ParseBlockedFrameLegacy_Write(2) [OF False sb bs(1)])
qed

lemma written_ietf_only:
  assumes v: "UsesIETFFrameFormat v"
  shows "msi_StreamID msi \<le> maxVarInt8 \<Longrightarrow> written since v hdr (Frame_MaxStreamID msi) r"
    and "sib_StreamID sib \<le> maxVarInt8 \<Longrightarrow> written since v hdr (Frame_StreamIDBlocked sib) r"
    and "ss_StreamID ss \<le> maxVarInt8 \<Longrightarrow> written since v hdr (Frame_StopSending ss) r"
proof -
  assume "msi_StreamID msi \<le> maxVarInt8"
  then have wf: "varint_frame_wf (\<lambda>f. [msi_StreamID f]) v msi" using v by (simp add: varint_frame_wf_def)
  from max_stream_id.codec [OF wf] obtain bs where bs: "MaxStreamIDFrame_Write msi v = Inr bs"
    "MaxStreamIDFrame_Length msi v = Inr (of_nat (length bs))" "\<And>r. ParseMaxStreamIDFrame v (bs @ r) = Inr (msi, r)" by metis
  show "written since v hdr (Frame_MaxStreamID msi) r"
    by (rule writtenI [OF _ control_type_bytes(6) [OF bs(1)]]) (simp_all add: dispatch bs v)
next
  assume "sib_StreamID sib \<le> maxVarInt8"
  then have wf: "varint_frame_wf (\<lambda>f. [sib_StreamID f]) v sib" using v by (simp add: varint_frame_wf_def)
  from stream_id_blocked.codec [OF wf] obtain bs where bs: "StreamIDBlockedFrame_Write sib v = Inr bs"
    "StreamIDBlockedFrame_Length sib v = Inr (of_nat (length bs))" "\<And>r. ParseStreamIDBlockedFrame v (bs @ r) = Inr (sib, r)" by metis
  show "written since v hdr (Frame_StreamIDBlocked sib) r"
    by (rule writtenI [OF _ control_type_bytes(10) [OF bs(1)]]) (simp_all add: dispatch bs v)
next
  assume "ss_StreamID ss \<le> maxVarInt8"
  then have wf: "varint_frame_wf (\<lambda>f. [ss_StreamID f]) v ss" using v by (simp add: varint_frame_wf_def)
  from stop_sending.codec [OF wf] obtain bs where bs: "StopSendingFrame_Write ss v = Inr bs"
    "StopSendingFrame_Length ss v = Inr (of_nat (length bs))" "\<And>r. ParseStopSendingFrame v (bs @ r) = Inr (ss, r)" by metis
  show "written since v hdr (Frame_StopSending ss) r"
    by (rule writtenI [OF _ control_type_bytes(11) [OF bs(1)]]) (simp_all add: dispatch bs v)
qed

lemma written_stop_waiting:
  assumes "Frame_wf v hdr (Frame_StopWaiting sw)"
  shows "written since v hdr (Frame_StopWaiting sw) r"
proof -
  have v: "\<not> UsesIETFFrameFormat v" and wf: "StopWaitingFrame_wf sw"
    and hdr: "sw_PacketNumber sw = hdr_PacketNumber hdr" "sw_PacketNumberLen sw = hdr_PacketNumberLen hdr"
    using assms by (auto simp: Frame_wf_def Let_def)
  obtain bs where bs: "StopWaitingFrame_Write sw v = Inr bs" using StopWaitingFrame_Write_eq [OF wf v] by simp
  from control_type_bytes(12) [OF wf bs] obtain ts where ts: "bs = 0x6 # ts" by auto
  then show ?thesis
    using ParseStopWaitingFrame_Write [OF wf bs] hdr v bs by (auto simp: written_def dispatch)
qed

lemma Frame_wf_simps:
  "Frame_wf v hdr (Frame_Stream f) \<longleftrightarrow> StreamFrame_wf v f"
  "Frame_wf v hdr (Frame_RstStream rst) \<longleftrightarrow> RstStreamFrame_wf v rst"
  "Frame_wf v hdr (Frame_ConnectionClose cc) \<longleftrightarrow> ConnectionCloseFrame_wf v cc"
  "Frame_wf v hdr (Frame_Goaway ga) \<longleftrightarrow> \<not> UsesIETFFrameFormat v \<and> GoawayFrame_wf v ga"
  "Frame_wf v hdr (Frame_MaxStreamID msi) \<longleftrightarrow> UsesIETFFrameFormat v \<and> msi_StreamID msi \<le> maxVarInt8"
  "Frame_wf v hdr (Frame_StreamIDBlocked sib) \<longleftrightarrow> UsesIETFFrameFormat v \<and> sib_StreamID sib \<le> maxVarInt8"
  "Frame_wf v hdr (Frame_StopSending ss) \<longleftrightarrow> UsesIETFFrameFormat v \<and> ss_StreamID ss \<le> maxVarInt8"
  by (simp_all add: Frame_wf_def Let_def)

lemma written_frame:
  assumes "Frame_wf v hdr frame" and "self_delimiting frame \<or> r = []"
  shows "written since v hdr frame r"
  using assms
  by (cases frame)
    (auto simp: Frame_wf_simps self_delimiting_def
      intro: written_stream written_ack written_control written_windows written_stream_windows written_blocked
        written_stream_blocked written_ietf_only written_stop_waiting)

text \<open>A packet: frames one after the other, the last one possibly a STREAM frame without a length.\<close>

fun Frames_Write :: "Duration \<Rightarrow> VersionNumber \<Rightarrow> Frame list \<Rightarrow> goerr + byte list" where
  "Frames_Write since v [] = Inr []"
| "Frames_Write since v (f # fs) =
     ebind (Frame_Write since f v) (\<lambda>bs. ebind (Frames_Write since v fs) (\<lambda>bss. Inr (bs @ bss)))"

lemma unpack_padding: "unpack_frames v lvl hdr (replicate k 0 @ r) = unpack_frames v lvl hdr r"
  by (induction k) simp_all

lemma unpack_frames_Frames_Write:
  assumes "\<forall>f \<in> set fs. Frame_wf v hdr f \<and> \<not> unencrypted_stream_data v lvl (received since v f)"
    and "\<forall>f \<in> set (butlast fs). self_delimiting f"
    and "fs \<noteq> [] \<longrightarrow> self_delimiting (last fs) \<or> k = 0"
  shows "\<exists>bs. Frames_Write since v fs = Inr bs
    \<and> unpack_frames v lvl hdr (bs @ replicate k 0) = Inr (map (received since v) fs)"
  using assms
proof (induction fs)
  case Nil
  show ?case using unpack_padding [of v lvl hdr k "[]"] by simp
next
  case (Cons f fs)
  obtain bss where bss: "Frames_Write since v fs = Inr bss"
    "unpack_frames v lvl hdr (bss @ replicate k 0) = Inr (map (received since v) fs)"
    using Cons by (cases fs) auto
  have delim: "self_delimiting f \<or> bss @ replicate k 0 = []"
    using Cons.prems(2,3) bss(1) by (cases fs) auto
  have "written since v hdr f (bss @ replicate k 0)"
    using Cons.prems(1) delim by (intro written_frame) auto
  then obtain t ts where t: "Frame_Write since f v = Inr (t # ts)" "t \<noteq> 0"
    "parseFrame v t hdr (t # ts @ bss @ replicate k 0) = Inr (received since v f, bss @ replicate k 0)"
    by (auto simp: written_def)
  have "unpack_frames v lvl hdr ((t # ts @ bss) @ replicate k 0) = Inr (map (received since v) (f # fs))"
    using t(2,3) bss(2) Cons.prems(1) by simp
  then show ?case using t(1) bss(1) by simp
qed

subsection \<open>Properties\<close>

text \<open>C6: Packing and unpacking agree: whatever well-formed frames a sender writes one after the other
  into a packet, in the IETF or the gQUIC format, followed by any amount of padding, the receiver that
  decrypts the packet is given exactly these frames in order. A STREAM frame without a data length must
  be last and unpadded, and below the secure levels only crypto stream data may be sent.\<close>

theorem unpack_written_packet:
  assumes "fs \<noteq> []"
    and "\<forall>f \<in> set fs. Frame_wf v hdr f \<and> \<not> unencrypted_stream_data v lvl (received since v f)"
    and "\<forall>f \<in> set (butlast fs). self_delimiting f" and "self_delimiting (last fs) \<or> k = 0"
    and "\<And>bs. Frames_Write since v fs = Inr bs \<Longrightarrow>
           aead_Open sealed (hdr_PacketNumber hdr) headerBinary = Inr (bs @ replicate k 0, lvl)"
  shows "Unpack aead_Open v headerBinary hdr sealed
    = Inr \<lparr> up_encryptionLevel = lvl, up_frames = map (received since v) fs \<rparr>"
proof -
  obtain bs where bs: "Frames_Write since v fs = Inr bs"
    "unpack_frames v lvl hdr (bs @ replicate k 0) = Inr (map (received since v) fs)"
    using unpack_frames_Frames_Write [OF assms(2,3)] assms(4) by blast
  have "bs @ replicate k 0 \<noteq> []"
  proof
    assume "bs @ replicate k 0 = []"
    with bs(2) assms(1) show False by simp
  qed
  with bs(2) assms(5) [OF bs(1)] show ?thesis by (simp add: Unpack_def)
qed

theorem unpack_written_packet_witness:
  "Unpack (\<lambda>data pn ad. Inr (data, EncryptionForwardSecure)) Version39 [] \<lparr> hdr_PacketNumber = 9, hdr_PacketNumberLen = 1 \<rparr>
     [0x07, 0x06, 4, 0, 0]
   = Inr \<lparr> up_encryptionLevel = EncryptionForwardSecure,
       up_frames = [Frame_Ping, Frame_StopWaiting \<lparr> sw_LeastUnacked = 5, sw_PacketNumberLen = 0, sw_PacketNumber = 0 \<rparr>] \<rparr>"
proof -
  let ?sw = "\<lparr> sw_LeastUnacked = 5, sw_PacketNumberLen = 1, sw_PacketNumber = 9 \<rparr>"
  have "Frames_Write 0 Version39 [Frame_Ping, Frame_StopWaiting ?sw] = Inr [0x07, 0x06, 4]"
    by (simp add: Frame_Write_def PingFrame_Write_def StopWaitingFrame_Write_def UsesIETFFrameFormat_def)
  moreover have pad: "replicate 2 (0 :: byte) = [0, 0]" by (simp add: numeral_2_eq_2)
  ultimately show ?thesis
    using unpack_written_packet [of "[Frame_Ping, Frame_StopWaiting ?sw]" Version39
        "\<lparr> hdr_PacketNumber = 9, hdr_PacketNumberLen = 1 \<rparr>" EncryptionForwardSecure 0 2
        "\<lambda>data pn ad. Inr (data, EncryptionForwardSecure)" "[0x07, 0x06, 4, 0, 0]" "[]"]
    by (simp add: Frame_wf_def StopWaitingFrame_wf_def UsesIETFFrameFormat_def received_def
        unencrypted_stream_data_def self_delimiting_def pad)
qed

text \<open>C7: No application data is accepted in the clear: in a packet that was not encrypted, every STREAM
  frame that is delivered belongs to the crypto stream.\<close>

theorem no_unencrypted_stream_data:
  assumes "Unpack aead_Open v headerBinary hdr data = Inr packet"
    and "up_encryptionLevel packet \<le> EncryptionUnencrypted" and "Frame_Stream f \<in> set (up_frames packet)"
  shows "sf_StreamID f = CryptoStreamID v"
  using assms unpack_frames_encrypted
  by (auto simp: Unpack_def ebind_Inr_iff split: sum.splits if_splits)

theorem no_unencrypted_stream_data_witness:
  "sf_StreamID \<lparr> sf_StreamID = 1, sf_FinBit = False, sf_DataLenPresent = False, sf_Offset = 0, sf_Data = [0x41] \<rparr>
     = CryptoStreamID Version39"
  by (rule no_unencrypted_stream_data [of "\<lambda>data pn ad. Inr (data, EncryptionUnencrypted)" Version39 "[]"
        "\<lparr> hdr_PacketNumber = 9, hdr_PacketNumberLen = 1 \<rparr>" "[0x80, 1, 0x41]"
        "\<lparr> up_encryptionLevel = EncryptionUnencrypted, up_frames = [Frame_Stream \<lparr> sf_StreamID = 1,
           sf_FinBit = False, sf_DataLenPresent = False, sf_Offset = 0, sf_Data = [0x41] \<rparr>] \<rparr>"])
    (simp_all add: Unpack_def parseFrame_def parseGQUICFrame_def ParseStreamFrame_def parseLegacyStreamFrame_def
      UsesIETFFrameFormat_def as_frame_def wrap_error_def be_ReadUintN_eq ReadBytes_def ReadFull_def DataLen_def
      MaxByteCount_def push_bit_eq_mult unencrypted_stream_data_def CryptoStreamID_def isGQUIC_def version_defs)

text \<open>No packet, however malformed, makes the parsers panic: unpacking either succeeds or fails with
  a QUIC error.\<close>

theorem unpack_total:
  "(\<exists>packet. Unpack aead_Open v headerBinary hdr data = Inr packet)
   \<or> (\<exists>code. Unpack aead_Open v headerBinary hdr data = Inl (QErr code))"
proof (cases "Unpack aead_Open v headerBinary hdr data")
  case (Inl e)
  then show ?thesis
    using unpack_frames_error by (fastforce simp: Unpack_def ebind_def split: sum.splits if_splits)
qed simp

end
