(* ===== verification/Vpn_Datagram.thy ===== *)
theory Vpn_Datagram
  imports Prelude
begin

section \<open>Datagrams over a QUIC stream\<close>

text \<open>
  \<^verbatim>\<open>quic_vpn/internal/datagram.go\<close> and the reading side of \<^verbatim>\<open>transmitter.go\<close>: an IP packet
  crosses a stream as its length in four bytes and then its bytes. A stream that is read is the list
  of the bytes that arrive on it before its end. A stream that is written is a state \<open>'s\<close> with the
  function \<open>wr\<close> that stands for \<open>quic.Stream.Write\<close>, or for the plain theorems the bytes written.
\<close>

record Datagram =
  Payload :: "byte list"

definition Datagram_Send ::
  "('s \<Rightarrow> byte list \<Rightarrow> goerr option \<times> 's) \<Rightarrow> Datagram \<Rightarrow> 's \<Rightarrow> goerr option \<times> 's" where
  "Datagram_Send wr d s =
     (if length (Payload d) = 0 then (None, s)
      else let sizeBuffer = be_bytes 4 (length (Payload d))
           in wr s (sizeBuffer @ Payload d))"

definition Recv :: "Datagram reader" where
  "Recv r =
     rbind (ReadFull 4 r) (\<lambda>sizeBuffer r.
       let size = be_nat sizeBuffer in
       if size > 0
       then rbind (ReadFull size r) (\<lambda>byteBuffer r. Inr (\<lparr>Payload = byteBuffer\<rparr>, r))
       else Inr (\<lparr>Payload = []\<rparr>, r))"

text \<open>The stream that only appends.\<close>

definition append_stream :: "byte list \<Rightarrow> byte list \<Rightarrow> goerr option \<times> byte list" where
  "append_stream s bs = (None, s @ bs)"

definition datagram_bytes :: "byte list \<Rightarrow> byte list" where
  "datagram_bytes p = snd (Datagram_Send append_stream \<lparr>Payload = p\<rparr> [])"

lemma datagram_bytes_eq:
  "datagram_bytes p = (if p = [] then [] else be_bytes 4 (length p) @ p)"
  by (simp add: datagram_bytes_def Datagram_Send_def append_stream_def)

lemma Send_append_stream:
  "Datagram_Send append_stream d s = (None, s @ datagram_bytes (Payload d))"
  by (simp add: Datagram_Send_def append_stream_def datagram_bytes_eq)

text \<open>
  What \<open>ListenNet_handleStream\<close> does with one stream: it writes to the tunnel interface, reports
  errors on \<open>lastError\<close> and closes the stream. A failed \<open>io.ReadFull\<close> has consumed what was left,
  so after an error the loop goes on with the empty rest.
\<close>

datatype NetEvent = TunWrite "byte list" | LastError goerr | CloseStream

lemma Recv_shorter: "Recv r = Inr (d, r') \<Longrightarrow> length r' < length r"
  by (auto simp: Recv_def rbind_Inr_iff ReadFull_Inr_iff Let_def split: if_splits)

function ListenNet_handleStream :: "byte list \<Rightarrow> NetEvent list" where
  "ListenNet_handleStream r =
     (case Recv r of
        Inl e \<Rightarrow>
          if e = EOF then [CloseStream]
          else if r = [] then [LastError e]
          else LastError e # TunWrite [] # ListenNet_handleStream []
      | Inr (d, r') \<Rightarrow> TunWrite (Payload d) # ListenNet_handleStream r')"
  by pat_completeness auto

termination
  by (relation "measure length") (auto simp: Recv_shorter)

declare ListenNet_handleStream.simps [simp del]

lemma Recv_Nil [simp]: "Recv [] = Inl EOF"
  by (simp add: Recv_def ReadFull_def)

lemma handleStream_Nil [simp]: "ListenNet_handleStream [] = [CloseStream]"
  by (simp add: ListenNet_handleStream.simps [of "[]"])

lemma handleStream_Inr:
  "Recv r = Inr (d, r') \<Longrightarrow>
   ListenNet_handleStream r = TunWrite (Payload d) # ListenNet_handleStream r'"
  by (simp add: ListenNet_handleStream.simps [of r])

lemma handleStream_Inl:
  "Recv r = Inl e \<Longrightarrow>
   ListenNet_handleStream r
     = (if e = EOF then [CloseStream] else [LastError e, TunWrite [], CloseStream])"
  by (cases "r = []") (auto simp: ListenNet_handleStream.simps [of r])

lemma Recv_datagram_bytes [codec]:
  assumes "p \<noteq> []" "length p < 2 ^ 32"
  shows "Recv (datagram_bytes p @ r) = Inr (\<lparr>Payload = p\<rparr>, r)"
proof -
  have "ReadFull 4 (be_bytes 4 (length p) @ (p @ r)) = Inr (be_bytes 4 (length p), p @ r)"
    by (rule ReadFull_append) simp
  moreover have "length p mod 256 ^ 4 = length p"
    using assms(2) by simp
  ultimately show ?thesis
    using assms(1) ReadFull_append [of p "length p" r]
    by (simp add: Recv_def datagram_bytes_eq del: be_bytes.simps)
qed

subsection \<open>Sequences of datagrams\<close>

definition send_all :: "byte list list \<Rightarrow> byte list" where
  "send_all ps = concat (map datagram_bytes ps)"

lemma send_all_simps [simp]:
  "send_all [] = []"
  "send_all (p # ps) = datagram_bytes p @ send_all ps"
  by (simp_all add: send_all_def)

definition tun_writes :: "NetEvent list \<Rightarrow> byte list list" where
  "tun_writes es = concat (map (\<lambda>e. case e of TunWrite p \<Rightarrow> [p] | _ \<Rightarrow> []) es)"

lemma tun_writes_simps [simp]:
  "tun_writes [] = []"
  "tun_writes (TunWrite p # es) = p # tun_writes es"
  "tun_writes (LastError e # es) = tun_writes es"
  "tun_writes (CloseStream # es) = tun_writes es"
  by (simp_all add: tun_writes_def)

lemma Recv_truncated:
  assumes "k < length (datagram_bytes p)" "length p < 2 ^ 32"
  shows "\<exists>e. Recv (take k (datagram_bytes p)) = Inl e"
proof -
  have p: "p \<noteq> []" using assms by (auto simp: datagram_bytes_eq)
  then have eq: "datagram_bytes p = be_bytes 4 (length p) @ p" by (simp add: datagram_bytes_eq)
  have n: "length p mod 4294967296 = length p" using assms(2) by simp
  show ?thesis
  proof (cases "4 \<le> k")
    case True
    have "k - 4 < length p" using assms True by (simp add: eq del: be_bytes.simps)
    moreover from True
    have "take k (datagram_bytes p) = be_bytes 4 (length p) @ take (k - 4) p"
      by (simp add: eq del: be_bytes.simps)
    ultimately show ?thesis
      using p n ReadFull_append [of "be_bytes 4 (length p)" 4 "take (k - 4) p"]
      by (auto simp: Recv_def ReadFull_def [of "length p"] simp del: be_bytes.simps)
  qed (auto simp: Recv_def ReadFull_def)
qed

lemma handleStream_truncated:
  assumes "Recv r = Inl e"
  shows "tun_writes (ListenNet_handleStream r) = []
         \<or> tun_writes (ListenNet_handleStream r) = [[]]"
  using assms by (auto simp: handleStream_Inl)

lemma handleStream_send:
  assumes "p \<noteq> []" "length p < 2 ^ 32"
  shows "ListenNet_handleStream (datagram_bytes p @ r) = TunWrite p # ListenNet_handleStream r"
  using handleStream_Inr [OF Recv_datagram_bytes [OF assms, of r]] by simp

lemma datagram_bytes_Nil [simp]: "datagram_bytes [] = []"
  by (simp add: datagram_bytes_eq)

text \<open>C16: Everything sent on a stream with \<open>Datagram.Send\<close> comes out on the other side's tunnel
  interface: the receiving loop, reading the bytes that a sequence of sends wrote, writes exactly the
  non-empty packets, whole, in the order they were sent, and then closes the stream at its end.\<close>

theorem datagrams_delivered:
  assumes "\<forall>p \<in> set ps. length p < 2 ^ 32"
  shows "ListenNet_handleStream (send_all ps)
         = map TunWrite (filter (\<lambda>p. p \<noteq> []) ps) @ [CloseStream]"
  using assms
proof (induction ps)
  case (Cons p ps)
  then show ?case by (cases "p = []") (simp_all add: handleStream_send)
qed simp

lemma handleStream_prefix_aux:
  assumes "\<forall>p \<in> set ps. length p < 2 ^ 32"
  shows "\<exists>n. filter (\<lambda>p. p \<noteq> []) (tun_writes (ListenNet_handleStream (take k (send_all ps))))
             = take n (filter (\<lambda>p. p \<noteq> []) ps)"
  using assms
proof (induction ps arbitrary: k)
  case (Cons p ps)
  show ?case
  proof (cases "p = []")
    case True
    with Cons show ?thesis by simp
  next
    case False
    from Cons.prems have len: "length p < 2 ^ 32" by simp
    show ?thesis
    proof (cases "k < length (datagram_bytes p)")
      case True
      then have "take k (send_all (p # ps)) = take k (datagram_bytes p)" by simp
      with Recv_truncated [OF True len] handleStream_truncated
      have "filter (\<lambda>p. p \<noteq> []) (tun_writes (ListenNet_handleStream (take k (send_all (p # ps))))) = []"
        by fastforce
      then show ?thesis by (metis take0)
    next
      case nlt: False
      then have t: "take k (send_all (p # ps))
                 = datagram_bytes p @ take (k - length (datagram_bytes p)) (send_all ps)"
        by simp
      obtain n where "filter (\<lambda>p. p \<noteq> []) (tun_writes (ListenNet_handleStream
                         (take (k - length (datagram_bytes p)) (send_all ps))))
                      = take n (filter (\<lambda>p. p \<noteq> []) ps)"
        using Cons.IH [of "k - length (datagram_bytes p)"] Cons.prems by auto
      then have "filter (\<lambda>p. p \<noteq> []) (tun_writes (ListenNet_handleStream (take k (send_all (p # ps)))))
            = take (Suc n) (filter (\<lambda>p. p \<noteq> []) (p # ps))"
        using False by (simp only: t handleStream_send [OF False len]) simp
      then show ?thesis by blast
    qed
  qed
qed simp

text \<open>A stream that is cut anywhere never delivers a damaged packet: whatever number of bytes
  of the sent datagrams arrives before the stream ends, the non-empty packets written to the tunnel
  interface are the first few of those that were sent. (The loop may write one empty packet after
  an error, because it goes on after reporting it.)\<close>

theorem datagrams_cut_stream:
  assumes "\<forall>p \<in> set ps. length p < 2 ^ 32"
  shows "\<exists>n. filter (\<lambda>p. p \<noteq> []) (tun_writes (ListenNet_handleStream (take k (send_all ps))))
             = take n (filter (\<lambda>p. p \<noteq> []) ps)"
  by (rule handleStream_prefix_aux [OF assms])

theorem datagrams_delivered_witness:
  "ListenNet_handleStream (send_all [[1, 2], [], [3]]) = [TunWrite [1, 2], TunWrite [3], CloseStream]"
  using datagrams_delivered [of "[[1, 2], [], [3]]"] by simp

theorem datagrams_cut_stream_witness:
  "\<exists>n. filter (\<lambda>p. p \<noteq> []) (tun_writes (ListenNet_handleStream (take 8 (send_all [[1, 2], [3]]))))
       = take n (filter (\<lambda>p. p \<noteq> []) [[1, 2], [3]])"
  by (rule datagrams_cut_stream) simp

text \<open>
  The loop does not treat every cut as an error: a stream that ends right after the length of a
  datagram is closed as one that ended properly.
\<close>

lemma cut_after_length_is_silent:
  assumes "p \<noteq> []" "length p < 2 ^ 32"
  shows "ListenNet_handleStream (take 4 (datagram_bytes p)) = [CloseStream]"
proof -
  have n: "length p mod 4294967296 = length p" using assms(2) by simp
  have "take 4 (datagram_bytes p) = be_bytes 4 (length p)"
    using assms by (simp add: datagram_bytes_eq del: be_bytes.simps)
  moreover have "Recv (be_bytes 4 (length p)) = Inl EOF"
    using assms(1) n ReadFull_append [of "be_bytes 4 (length p)" 4 "[]"]
    by (simp add: Recv_def ReadFull_def [of "length p"] del: be_bytes.simps)
  ultimately show ?thesis by (simp add: handleStream_Inl)
qed

end
