(* ===== verification/Vpn_Ecn.thy ===== *)
theory Vpn_Ecn
  imports Byte_Order
begin

section \<open>Congestion marks in IP packets\<close>

text \<open>
  \<^verbatim>\<open>quic_vpn/internal/ippacket.go\<close>: marking a tunnelled packet that waited longer than a round
  trip, and the Internet checksum that the IPv4 header needs afterwards. A packet is a byte list; an
  index or slice out of range is a panic. The \<open>big.Int\<close> sum is a natural number.
\<close>

definition be_word :: "byte list \<Rightarrow> nat \<Rightarrow> nat" where
  "be_word packet i = be_nat (take 2 (drop i packet))"

text \<open>\<open>for Rsh(sum, 16).Uint64() > 0\<close>: the high part is added to the low sixteen bits.\<close>

function fold_carry :: "nat \<Rightarrow> nat" where
  "fold_carry acc =
     (if (acc div 2 ^ 16) mod 2 ^ 64 > 0
      then let carry = acc div 2 ^ 16; rest = acc mod 2 ^ 16 in fold_carry (carry + rest)
      else acc)"
  by pat_completeness auto

termination
proof (relation "measure (\<lambda>n. n)")
  fix acc carry rest :: nat
  assume "0 < (acc div 2 ^ 16) mod 2 ^ 64" "carry = acc div 2 ^ 16" "rest = acc mod 2 ^ 16"
  moreover from this have "0 < acc div 2 ^ 16" by (metis mod_0 neq0_conv)
  ultimately have "carry > 0" "acc = carry * 65536 + rest" by simp_all
  then show "(carry + rest, acc) \<in> measure (\<lambda>n. n)" by simp
qed simp

declare fold_carry.simps [simp del]

definition recomputeV4Checksum :: "byte list \<Rightarrow> goerr + uint16" where
  "recomputeV4Checksum packet =
     (if length packet < 20 then Inl (Panic ''slice bounds out of range'')
      else let acc = sum_list (map (be_word packet) [0, 2, 4, 6, 8, 12, 14, 16, 18]);
               isum = (of_nat (fold_carry acc) :: uint16)
           in Inr (NOT isum))"

definition PutUint16 :: "byte list \<Rightarrow> nat \<Rightarrow> uint16 \<Rightarrow> byte list" where
  "PutUint16 packet i v = take i packet @ be_bytes 2 (unat v) @ drop (i + 2) packet"

definition MarkECN :: "byte list \<Rightarrow> goerr + byte list" where
  "MarkECN packet =
     (if packet = [] then Inl (Panic ''index out of range'')
      else if shr (packet ! 0) 4 = 4 then
        (if length packet < 2 then Inl (Panic ''index out of range'')
         else let packet = packet[1 := (packet ! 1) OR 0x3]
              in ebind (recomputeV4Checksum packet) (\<lambda>checksum. Inr (PutUint16 packet 10 checksum)))
      else if shr (packet ! 0) 4 = 6 then
        (if length packet < 2 then Inl (Panic ''index out of range'')
         else Inr (packet[1 := (packet ! 1) OR 0x30]))
      else Inr packet)"

definition MarkECE :: "byte list \<Rightarrow> goerr + byte list" where
  "MarkECE packet =
     (if 0 < length packet \<and> shr (packet ! 0) 4 = 4 then
        let tcpIndex = (packet ! 0 AND 0x0f) * 4;
            flagsIndex = tcpIndex + 3 * 4 + 1
        in if unat flagsIndex < length packet
           then Inr (packet[unat flagsIndex := (packet ! unat flagsIndex) OR 0x40])
           else Inl (Panic ''index out of range'')
      else Inr packet)"

subsection \<open>The Internet checksum\<close>

text \<open>
  What a receiver checks (RFC 791, RFC 1071): the ones' complement sum of all sixteen-bit words of
  the header, of which there are twice the header length field, is all ones.
\<close>

definition ihl :: "byte list \<Rightarrow> nat" where
  "ihl packet = unat (packet ! 0 AND 0x0f)"

definition header_sum :: "byte list \<Rightarrow> nat" where
  "header_sum packet = sum_list (map (\<lambda>k. be_word packet (2 * k)) [0..<2 * ihl packet])"

definition valid_v4_header :: "byte list \<Rightarrow> bool" where
  "valid_v4_header packet \<longleftrightarrow> fold_carry (header_sum packet) = 0xffff"

definition options_sum :: "byte list \<Rightarrow> nat" where
  "options_sum packet = sum_list (map (\<lambda>k. be_word packet (2 * k)) [10..<2 * ihl packet])"

lemma fold_carry_spec:
  assumes "n < 2 ^ 80"
  shows "fold_carry n < 65536 \<and> fold_carry n mod 65535 = n mod 65535 \<and> (fold_carry n = 0 \<longleftrightarrow> n = 0)"
  using assms
proof (induction n rule: fold_carry.induct)
  case (1 n)
  have q: "n div 2 ^ 16 < 2 ^ 64" using 1(2) by (simp add: div_less_iff_less_mult)
  then have m: "(n div 2 ^ 16) mod 2 ^ 64 = n div 2 ^ 16" by simp
  show ?case
  proof (cases "n div 2 ^ 16 = 0")
    case True
    then show ?thesis by (simp add: fold_carry.simps [of n])
  next
    case False
    let ?c = "n div 2 ^ 16" and ?r = "n mod 2 ^ 16"
    have n: "n = ?c * 65536 + ?r" by simp
    have less: "?c + ?r < 2 ^ 80" using q by simp
    have "n = 65535 * ?c + (?c + ?r)" using n by simp
    then have mod: "(?c + ?r) mod 65535 = n mod 65535" by (metis mod_mult_self4)
    have step: "fold_carry n = fold_carry (?c + ?r)"
      using False by (subst fold_carry.simps) (simp only: m Let_def neq0_conv if_True)
    have pos: "0 < ?c mod 2 ^ 64" using False by (simp only: m neq0_conv)
    have "fold_carry (?c + ?r) < 65536 \<and> fold_carry (?c + ?r) mod 65535 = (?c + ?r) mod 65535
          \<and> (fold_carry (?c + ?r) = 0 \<longleftrightarrow> ?c + ?r = 0)"
      by (rule 1(1) [OF pos refl refl less])
    moreover have "?c + ?r = 0 \<longleftrightarrow> n = 0" using False by auto
    ultimately show ?thesis by (simp only: step mod) 
  qed
qed

lemma fold_carry_ones_iff:
  assumes "n < 2 ^ 80"
  shows "fold_carry n = 0xffff \<longleftrightarrow> n > 0 \<and> n mod 65535 = 0"
proof -
  have cases: "x mod 65535 = 0 \<longleftrightarrow> x = 0 \<or> x = 65535" if "x < 65536" for x :: nat
    using that by (cases "x = 65535") auto
  note spec = fold_carry_spec [OF assms]
  then have "n mod 65535 = 0 \<longleftrightarrow> fold_carry n = 0 \<or> fold_carry n = 65535"
    using cases [of "fold_carry n"] by argo
  with spec show ?thesis by auto
qed

lemma be_word_less: "be_word p i < 65536"
proof -
  have "be_word p i < 256 ^ length (take 2 (drop i p))" unfolding be_word_def by (rule be_nat_less)
  also have "\<dots> \<le> 256 ^ 2" by (rule power_increasing) simp_all
  finally show ?thesis by simp
qed

lemma sum_words_less: "sum_list (map (\<lambda>k. be_word p (f k)) ks) \<le> 65536 * length ks"
proof (induction ks)
  case (Cons k ks)
  then show ?case using less_imp_le [OF be_word_less [of p "f k"]] by simp
qed simp

lemma ihl_less: "ihl p < 16"
proof -
  have "p ! 0 AND 0x0f = take_bit 4 (p ! 0)" by (simp add: take_bit_eq_mask mask_eq_exp_minus_1)
  then have "ihl p = take_bit 4 (unat (p ! 0))" by (simp only: ihl_def unsigned_take_bit_eq)
  then show ?thesis by (simp add: take_bit_eq_mod)
qed

lemma header_sum_less: "header_sum p < 2 ^ 80"
proof -
  have "header_sum p \<le> 65536 * length [0..<2 * ihl p]"
    unfolding header_sum_def by (rule sum_words_less)
  with ihl_less [of p] show ?thesis by simp
qed

text \<open>The words the code adds up, and the two that the header has besides.\<close>

definition summed :: "byte list \<Rightarrow> nat" where
  "summed packet = sum_list (map (be_word packet) [0, 2, 4, 6, 8, 12, 14, 16, 18])"

lemma header_sum_eq:
  assumes "5 \<le> ihl p"
  shows "header_sum p = summed p + be_word p 10 + options_sum p"
proof -
  have "[0..<2 * ihl p] = [0..<10] @ [10..<2 * ihl p]"
    using assms upt_add_eq_append [of 0 10 "2 * ihl p - 10"] by simp
  then show ?thesis
    by (simp add: header_sum_def options_sum_def summed_def upt_rec numeral_eq_Suc)
qed

subsection \<open>Marked packets\<close>

lemma length_PutUint16 [simp]: "j + 2 \<le> length p \<Longrightarrow> length (PutUint16 p j v) = length p"
  by (simp add: PutUint16_def)

lemma PutUint16_nth:
  assumes "j + 2 \<le> length p" "i \<noteq> j" "i \<noteq> Suc j"
  shows "PutUint16 p j v ! i = p ! i"
proof (cases "i < j")
  case True
  with assms show ?thesis by (simp add: PutUint16_def nth_append)
next
  case False
  with assms obtain k where "i = j + 2 + k" by (metis add_2_eq_Suc' le_Suc_ex linorder_not_less Suc_leI le_neq_implies_less)
  with assms show ?thesis by (simp add: PutUint16_def nth_append)
qed

lemma take2_drop: "i + 2 \<le> length p \<Longrightarrow> take 2 (drop i p) = [p ! i, p ! Suc i]"
  by (simp add: Cons_nth_drop_Suc [symmetric] numeral_2_eq_2)

lemma be_word_PutUint16:
  assumes "j + 2 \<le> length p" "i + 2 \<le> length p" "i + 2 \<le> j \<or> j + 2 \<le> i"
  shows "be_word (PutUint16 p j v) i = be_word p i"
  using assms by (auto simp: be_word_def take2_drop PutUint16_nth)

lemma be_word_PutUint16_same:
  fixes v :: uint16
  assumes "j + 2 \<le> length p"
  shows "be_word (PutUint16 p j v) j = unat v"
proof -
  have "be_word (PutUint16 p j v) j = be_nat (be_bytes 2 (unat v))"
    using assms by (simp add: be_word_def PutUint16_def del: be_bytes.simps)
  also have "\<dots> = unat v"
    using unsigned_less [of v, where 'a = nat] by simp
  finally show ?thesis .
qed

lemma unat_not_of_nat16:
  assumes "n < 65536"
  shows "unat (NOT (of_nat n :: uint16)) = 65535 - n"
proof -
  have "NOT (of_nat n :: uint16) = of_nat (65535 - n)"
    using assms by (simp add: not_eq_complement of_nat_diff)
  then have "unat (NOT (of_nat n :: uint16)) = (65535 - n) mod 2 ^ LENGTH(16)"
    by (simp only: unat_of_nat)
  then show ?thesis by simp
qed

lemma summed_less: "summed p < 2 ^ 80"
  using sum_words_less [of p "\<lambda>k. k" "[0, 2, 4, 6, 8, 12, 14, 16, 18]"]
  by (simp add: summed_def)

lemma recomputeV4Checksum_eq:
  assumes "20 \<le> length p"
  shows "\<exists>c. recomputeV4Checksum p = Inr c \<and> unat c = 65535 - fold_carry (summed p)"
  using assms fold_carry_spec [OF summed_less [of p]]
  by (simp add: recomputeV4Checksum_def summed_def unat_not_of_nat16 Let_def)

lemma summed_PutUint16: "20 \<le> length p \<Longrightarrow> summed (PutUint16 p 10 v) = summed p"
  by (simp add: summed_def be_word_PutUint16)

lemma be_word_update1: "2 \<le> i \<Longrightarrow> be_word (p[Suc 0 := b]) i = be_word p i"
  by (simp add: be_word_def drop_update_cancel)

lemma ihl_marked [simp]:
  "ihl (p[Suc 0 := b]) = ihl p"
  "12 \<le> length p \<Longrightarrow> ihl (PutUint16 p 10 v) = ihl p"
  by (simp_all add: ihl_def PutUint16_nth)

lemma options_sum_marked:
  assumes "20 \<le> length p" "4 * ihl p \<le> length p"
  shows "options_sum (PutUint16 (p[Suc 0 := b]) 10 v) = options_sum p"
proof -
  have "be_word (PutUint16 (p[Suc 0 := b]) 10 v) (2 * k) = be_word p (2 * k)"
    if "k \<in> set [10..<2 * ihl p]" for k
    using that assms by (simp add: be_word_PutUint16 be_word_update1)
  then have "map (\<lambda>k. be_word (PutUint16 (p[Suc 0 := b]) 10 v) (2 * k)) [10..<2 * ihl p]
             = map (\<lambda>k. be_word p (2 * k)) [10..<2 * ihl p]"
    by (rule map_cong [OF refl])
  moreover have "ihl (PutUint16 (p[Suc 0 := b]) 10 v) = ihl p" using assms by simp
  ultimately show ?thesis by (simp only: options_sum_def)
qed

lemma checksum_complements:
  fixes S :: nat
  assumes "F < 65536" "F mod 65535 = S mod 65535"
  shows "(S + (65535 - F)) mod 65535 = 0"
proof (cases "F = 65535")
  case True
  with assms show ?thesis by simp
next
  case False
  with assms have F: "F = S mod 65535" "F < 65535" by simp_all
  obtain k where "S = 65535 * k + F" using F(1) by (metis mult_div_mod_eq)
  then have "S + (65535 - F) = 65535 * (k + 1)" using F(2) by (simp add: algebra_simps)
  then show ?thesis by (metis mod_mult_self1_is_0)
qed

lemma MarkECN_v4:
  assumes "20 \<le> length p" "shr (p ! 0) 4 = 4"
  obtains c where "MarkECN p = Inr (PutUint16 (p[1 := (p ! 1) OR 3]) 10 c)"
    and "unat c = 65535 - fold_carry (summed (p[1 := (p ! 1) OR 3]))"
proof -
  obtain c where c: "recomputeV4Checksum (p[1 := (p ! 1) OR 3]) = Inr c"
    "unat c = 65535 - fold_carry (summed (p[1 := (p ! 1) OR 3]))"
    using assms recomputeV4Checksum_eq [of "p[1 := (p ! 1) OR 3]"] by auto
  moreover have "p \<noteq> []" using assms by auto
  ultimately show thesis using assms that [of c] by (simp add: MarkECN_def Let_def)
qed

lemma marked_header_sum:
  assumes "20 \<le> length p" "shr (p ! 0) 4 = 4" "5 \<le> ihl p" "4 * ihl p \<le> length p"
    and "MarkECN p = Inr q"
  shows "valid_v4_header q \<longleftrightarrow> options_sum p mod 65535 = 0"
proof -
  let ?p = "p[1 := (p ! 1) OR 3]"
  obtain c where q: "q = PutUint16 ?p 10 c" and c: "unat c = 65535 - fold_carry (summed ?p)"
    by (rule MarkECN_v4 [OF assms(1,2)]) (use assms(5) in simp)
  have sum: "header_sum q = summed ?p + (65535 - fold_carry (summed ?p)) + options_sum p"
    using assms c by (simp add: q header_sum_eq summed_PutUint16 be_word_PutUint16_same options_sum_marked)
  note F = fold_carry_spec [OF summed_less [of ?p]]
  have zero: "(summed ?p + (65535 - fold_carry (summed ?p))) mod 65535 = 0"
    using F by (intro checksum_complements) simp_all
  have pos: "0 < summed ?p + (65535 - fold_carry (summed ?p))" using F by auto
  have "header_sum q mod 65535 = options_sum p mod 65535"
    using zero unfolding sum by (metis add_0 mod_add_left_eq)
  with pos show ?thesis
    unfolding valid_v4_header_def fold_carry_ones_iff [OF header_sum_less] by (simp add: sum)
qed

text \<open>C17: Marking an IPv4 packet without options sets both congestion bits, keeps the length and
  every byte other than the traffic class and the checksum, keeps the other six bits of the traffic
  class, and leaves a header whose checksum a receiver accepts, whatever the checksum was before.\<close>

theorem markECN_v4_correct:
  assumes "20 \<le> length p" "shr (p ! 0) 4 = 4" "ihl p = 5"
  shows "\<exists>q. MarkECN p = Inr q \<and> valid_v4_header q \<and> length q = length p
             \<and> q ! 1 = (p ! 1) OR 3 \<and> (\<forall>i. i \<notin> {1, 10, 11} \<longrightarrow> q ! i = p ! i)"
proof -
  obtain c where q: "MarkECN p = Inr (PutUint16 (p[1 := (p ! 1) OR 3]) 10 c)"
    by (rule MarkECN_v4 [OF assms(1,2)])
  moreover have "valid_v4_header (PutUint16 (p[1 := (p ! 1) OR 3]) 10 c)"
    using marked_header_sum [OF assms(1,2) _ _ q] assms by (simp add: options_sum_def)
  ultimately show ?thesis using assms by (simp add: PutUint16_nth)
qed

text \<open>The checksum of the code covers the first twenty bytes only. So when an IPv4 packet has
  options, its header is accepted after marking exactly when the words of the options add up to a
  multiple of 65535; any other packet with options is discarded by the next router.\<close>

theorem markECN_ignores_options:
  assumes "20 \<le> length p" "shr (p ! 0) 4 = 4" "5 \<le> ihl p" "4 * ihl p \<le> length p"
    and "MarkECN p = Inr q"
  shows "valid_v4_header q \<longleftrightarrow> options_sum p mod 65535 = 0"
  by (rule marked_header_sum [OF assms])

text \<open>The packet of the repository's own test, and the same with a router alert option.\<close>

definition mockPingHeader :: "byte list" where
  "mockPingHeader = [0x45, 0, 0, 0x54, 0, 0, 0, 0, 0x35, 1, 0x06, 0xd8, 0xac, 0xd9, 0x11, 0x43,
                     0xc0, 0xa8, 0, 0x0d]"

definition optionsHeader :: "byte list" where
  "optionsHeader = [0x46, 0, 0, 0x18, 0, 0, 0, 0, 0x40, 1, 0, 0, 10, 0, 0, 1, 10, 0, 0, 2,
                    0x94, 4, 0, 0]"

lemma mockPingHeader_facts:
  "length mockPingHeader = 20" "shr (mockPingHeader ! 0) 4 = 4" "ihl mockPingHeader = 5"
  "(mockPingHeader ! 1) OR 3 = 3"
  by (simp_all add: mockPingHeader_def ihl_def)

theorem markECN_v4_correct_witness:
  "\<exists>q. MarkECN mockPingHeader = Inr q \<and> valid_v4_header q \<and> length q = 20
       \<and> q ! 1 = 3 \<and> (\<forall>i. i \<notin> {1, 10, 11} \<longrightarrow> q ! i = mockPingHeader ! i)"
  using markECN_v4_correct [of mockPingHeader] unfolding mockPingHeader_facts by simp

lemma optionsHeader_marked: "\<exists>q. MarkECN optionsHeader = Inr q"
proof -
  obtain c where "MarkECN optionsHeader
      = Inr (PutUint16 (optionsHeader[1 := (optionsHeader ! 1) OR 3]) 10 c)"
    by (rule MarkECN_v4 [of optionsHeader]) (simp_all add: optionsHeader_def )
  then show ?thesis by blast
qed

theorem markECN_ignores_options_witness:
  "\<exists>q. MarkECN optionsHeader = Inr q \<and> \<not> valid_v4_header q"
proof -
  obtain q where q: "MarkECN optionsHeader = Inr q" using optionsHeader_marked by blast
  have "options_sum optionsHeader = 0x9404"
    by (simp add: options_sum_def ihl_def be_word_def optionsHeader_def upt_rec)
  with markECN_ignores_options [of optionsHeader q] q show ?thesis
    by (simp add: optionsHeader_def ihl_def)
qed

end
