(* ===== verification/Vpn_Transmitter.thy ===== *)
theory Vpn_Transmitter
  imports Vpn_Datagram Vpn_Ecn "HOL-Library.Multiset"
begin

section \<open>The VPN transmitter\<close>

text \<open>
  \<^verbatim>\<open>quic_vpn/internal/transmitter.go\<close> and \<^verbatim>\<open>flow.go\<close>: goroutines that share the maps
  \<open>mapInteraction\<close> and \<open>mapQuicStream\<close> and the bounded channel \<open>toSendQueue\<close>. A flow
  (\<open>gopacket.Flow\<close>) is of a type \<open>'f\<close>, a stream of a type \<open>'s\<close>, an instant or a duration is an
  integer number of nanoseconds. The libraries that read packet headers and compare endpoints, and
  the session, are fields of the record \<open>VpnEnv\<close>.

  Each operation of a goroutine on the shared state is a function of its own; the step relation lets
  the goroutines run in any order between two of them. A receive, a send on a channel with room, a
  map access is one step.
\<close>

subsection \<open>The stable sort of the scheduler\<close>

text \<open>
  \<open>sort.SliceStable\<close> of the standard library with the comparison \<open>lt\<close>: each element goes after
  those that are smaller, and stays before the others.
\<close>

fun insert_stable :: "('a \<Rightarrow> 'a \<Rightarrow> bool) \<Rightarrow> 'a \<Rightarrow> 'a list \<Rightarrow> 'a list" where
  "insert_stable lt x [] = [x]"
| "insert_stable lt x (y # ys) =
     (if lt y x then y # insert_stable lt x ys else x # y # ys)"

fun SliceStable :: "('a \<Rightarrow> 'a \<Rightarrow> bool) \<Rightarrow> 'a list \<Rightarrow> 'a list" where
  "SliceStable lt [] = []"
| "SliceStable lt (x # xs) = insert_stable lt x (SliceStable lt xs)"

lemma insert_stable_not_Nil [simp]: "insert_stable lt x ys \<noteq> []"
  by (cases ys) auto

lemma mset_insert_stable [simp]: "mset (insert_stable lt x ys) = add_mset x (mset ys)"
  by (induction ys) auto

lemma mset_SliceStable [simp]: "mset (SliceStable lt xs) = mset xs"
  by (induction xs) auto

lemma set_insert_stable [simp]: "set (insert_stable lt x ys) = insert x (set ys)"
  by (metis mset_insert_stable set_mset_add_mset_insert set_mset_mset)

lemma set_SliceStable [simp]: "set (SliceStable lt xs) = set xs"
  by (metis mset_SliceStable set_mset_mset)

lemma length_SliceStable [simp]: "length (SliceStable lt xs) = length xs"
  by (metis mset_SliceStable size_mset)

lemma SliceStable_eq_Nil [simp]: "SliceStable lt xs = [] \<longleftrightarrow> xs = []"
  by (metis length_0_conv length_SliceStable)

text \<open>The contract of a comparison that is a strict weak order.\<close>

locale weak_order =
  fixes lt :: "'a \<Rightarrow> 'a \<Rightarrow> bool"
  assumes asym: "lt x y \<Longrightarrow> \<not> lt y x"
    and weak: "lt x z \<Longrightarrow> lt x y \<or> lt y z"
begin

definition same :: "'a \<Rightarrow> 'a \<Rightarrow> bool" where
  "same x y \<longleftrightarrow> \<not> lt x y \<and> \<not> lt y x"

lemma same_refl [simp]: "same x x"
  using asym by (auto simp: same_def)

lemma not_lt_trans: "\<not> lt y x \<Longrightarrow> \<not> lt z y \<Longrightarrow> \<not> lt z x"
  using weak by blast

lemma sorted_insert_stable:
  assumes "sorted_wrt (\<lambda>x y. \<not> lt y x) ys"
  shows "sorted_wrt (\<lambda>x y. \<not> lt y x) (insert_stable lt x ys)"
  using assms by (induction ys) (auto dest: asym weak)

lemma sorted_SliceStable: "sorted_wrt (\<lambda>x y. \<not> lt y x) (SliceStable lt xs)"
  by (induction xs) (simp_all add: sorted_insert_stable)

lemma filter_same_insert_stable:
  "filter (same a) (insert_stable lt x ys)
   = (if same a x then x # filter (same a) ys else filter (same a) ys)"
proof (induction ys)
  case (Cons y ys)
  have "same a x \<Longrightarrow> lt y x \<Longrightarrow> \<not> same a y" using weak by (auto simp: same_def)
  with Cons show ?case by auto
qed simp

lemma filter_same_SliceStable: "filter (same a) (SliceStable lt xs) = filter (same a) xs"
  by (induction xs) (simp_all add: filter_same_insert_stable)

lemma insert_stable_head:
  "\<forall>y \<in> set ys. \<not> lt y x \<Longrightarrow> insert_stable lt x ys = x # ys"
  by (cases ys) auto

lemma SliceStable_sorted: "sorted_wrt (\<lambda>x y. \<not> lt y x) xs \<Longrightarrow> SliceStable lt xs = xs"
  by (induction xs) (auto simp: insert_stable_head)

end

subsection \<open>Flows\<close>

text \<open>
  \<open>ParseV6\<close> and \<open>ParseV4\<close> are \<open>ipv6.ParseHeader\<close> and \<open>ipv4.ParseHeader\<close>, of which the code uses the
  version; \<open>TransportFlow\<close> decodes a packet as IPv4, IPv6 or an unknown layer and gives the flow of
  its transport layer, if there is one. \<open>OpenStream\<close> is the session's, given how often it was called;
  \<open>WriteError\<close> tells which calls of \<open>Write\<close> fail for reasons other than that the stream is closed.
\<close>

datatype LayerType = LayerTypeZero | LayerTypeIPv4 | LayerTypeIPv6

record ('f, 'e, 's) VpnEnv =
  ParseV6 :: "byte list \<Rightarrow> goerr + int"
  ParseV4 :: "byte list \<Rightarrow> goerr + int"
  TransportFlow :: "byte list \<Rightarrow> LayerType \<Rightarrow> 'f option"
  Flow0 :: 'f
  Src :: "'f \<Rightarrow> 'e"
  Dst :: "'f \<Rightarrow> 'e"
  LessThan :: "'e \<Rightarrow> 'e \<Rightarrow> bool"
  OpenStream :: "nat \<Rightarrow> goerr + 's"
  WriteError :: "nat \<Rightarrow> goerr option"
  Mode :: string
  Multi_streams :: bool

definition FindFlow :: "('f, 'e, 's) VpnEnv \<Rightarrow> byte list \<Rightarrow> goerr + 'f" where
  "FindFlow env packet =
     ebind (ParseV6 env packet) (\<lambda>headerV6.
       let ipType = (if headerV6 = 6 then LayerTypeIPv6 else LayerTypeZero) in
       ebind (ParseV4 env packet) (\<lambda>headerV4.
         let ipType = (if headerV4 = 4 then LayerTypeIPv4 else ipType) in
         case TransportFlow env packet ipType of
           Some f \<Rightarrow> Inr f
         | None \<Rightarrow> Inr (Flow0 env)))"

record 'f toSend =
  flow :: 'f
  packet :: "byte list"
  time :: int

definition schedule_less :: "('f, 'e, 's) VpnEnv \<Rightarrow> 'f toSend \<Rightarrow> 'f toSend \<Rightarrow> bool" where
  "schedule_less env a b =
     (if Mode env = ''client'' then LessThan env (Src env (flow a)) (Src env (flow b))
      else LessThan env (Dst env (flow a)) (Dst env (flow b)))"

lemma schedule_less_weak_order:
  assumes "weak_order (LessThan env)"
  shows "weak_order (schedule_less env)"
  using assms unfolding weak_order_def schedule_less_def by auto

interpretation ports: weak_order "(<) :: 'a::linorder \<Rightarrow> 'a \<Rightarrow> bool"
  by unfold_locales auto

interpretation flows: weak_order "schedule_less (env\<lparr>LessThan := (<)\<rparr>)"
  for env :: "('f, 'e::linorder, 's) VpnEnv"
  by (rule schedule_less_weak_order) (simp add: ports.weak_order_axioms)

text \<open>
  One turn of \<open>SchedulePackets\<close> on a queue that nobody else touches meanwhile: the packet it sends
  and the queue it leaves.
\<close>

definition schedule_turn ::
  "('f, 'e, 's) VpnEnv \<Rightarrow> 'f toSend list \<Rightarrow> ('f toSend \<times> 'f toSend list) option" where
  "schedule_turn env q =
     (case q of
        [] \<Rightarrow> None
      | top0 # rest \<Rightarrow>
          if length rest = 0 then Some (top0, [])
          else let workingSlice = SliceStable (schedule_less env) (top0 # rest)
               in Some (workingSlice ! 0, drop 1 workingSlice))"

fun schedule_turns ::
  "('f, 'e, 's) VpnEnv \<Rightarrow> nat \<Rightarrow> 'f toSend list \<Rightarrow> 'f toSend list" where
  "schedule_turns env 0 q = []"
| "schedule_turns env (Suc n) q =
     (case schedule_turn env q of
        None \<Rightarrow> []
      | Some (p, q') \<Rightarrow> p # schedule_turns env n q')"

lemma schedule_turn_eq:
  "schedule_turn env q
   = (if q = [] then None
      else Some (hd (SliceStable (schedule_less env) q), tl (SliceStable (schedule_less env) q)))"
proof (cases q)
  case (Cons top0 rest)
  then show ?thesis
    by (cases rest)
       (auto simp: schedule_turn_def Let_def hd_conv_nth [symmetric] drop_Suc)
qed (simp add: schedule_turn_def)

lemma schedule_turns_eq:
  assumes "weak_order (schedule_less env)" "length q \<le> n"
  shows "schedule_turns env n q = SliceStable (schedule_less env) q"
  using assms(2)
proof (induction n arbitrary: q)
  case (Suc n)
  show ?case
  proof (cases "SliceStable (schedule_less env) q")
    case (Cons p q')
    then have q: "q \<noteq> []" by auto
    have "sorted_wrt (\<lambda>x y. \<not> schedule_less env y x) (p # q')"
      using weak_order.sorted_SliceStable [OF assms(1), of q] Cons by simp
    then have "SliceStable (schedule_less env) q' = q'"
      by (intro weak_order.SliceStable_sorted [OF assms(1)]) simp
    moreover have "length q' \<le> n"
      using Suc.prems length_SliceStable [of "schedule_less env" q] Cons by simp
    ultimately show ?thesis using Suc.IH [of q'] q Cons by (simp add: schedule_turn_eq)
  qed (simp add: schedule_turn_eq)
qed simp

text \<open>A turn of the scheduler that nothing interrupts sends a packet that no waiting packet
  precedes in the priority order, loses and duplicates none, and keeps the packets that have equal
  priority, those of one flow among them, in the order in which they waited.\<close>

theorem schedule_turn_correct:
  assumes "weak_order (LessThan env)" "schedule_turn env q = Some (p, q')"
  shows "mset (p # q') = mset q \<and> (\<forall>x \<in> set q'. \<not> schedule_less env x p)
         \<and> (\<forall>f. filter (\<lambda>x. flow x = f) (p # q') = filter (\<lambda>x. flow x = f) q)"
proof -
  note weak = schedule_less_weak_order [OF assms(1)]
  let ?S = "SliceStable (schedule_less env) q"
  have S: "?S = p # q'" using assms(2) by (auto simp: schedule_turn_eq split: if_splits)
  have "mset (p # q') = mset q" by (metis S mset_SliceStable)
  moreover have "sorted_wrt (\<lambda>x y. \<not> schedule_less env y x) (p # q')"
    using weak_order.sorted_SliceStable [OF weak, of q] S by simp
  moreover have "filter (\<lambda>x. flow x = f) (p # q') = filter (\<lambda>x. flow x = f) q" for f
  proof -
    define a where "a = \<lparr>flow = f, packet = [], time = 0\<rparr>"
    then have a: "flow a = f" by simp
    have same: "weak_order.same (schedule_less env) a x" if "flow x = f" for x
      using a that weak_order.same_refl [OF weak, of a]
      by (auto simp: weak_order.same_def [OF weak] schedule_less_def)
    have sub: "filter (\<lambda>x. flow x = f) xs
               = filter (\<lambda>x. flow x = f) (filter (weak_order.same (schedule_less env) a) xs)" for xs
      unfolding filter_filter by (rule filter_cong) (auto simp: same)
    show ?thesis
      using weak_order.filter_same_SliceStable [OF weak, of a q] by (metis S sub)
  qed
  ultimately show ?thesis by simp
qed

definition demo_env :: "(nat, nat, nat) VpnEnv" where
  "demo_env = \<lparr>ParseV6 = (\<lambda>_. Inr 4), ParseV4 = (\<lambda>_. Inr 4),
     TransportFlow = (\<lambda>p _. case p of [] \<Rightarrow> None | b # _ \<Rightarrow> Some (unat b)), Flow0 = 0,
     Src = (\<lambda>f. f), Dst = (\<lambda>f. f), LessThan = (<), OpenStream = (\<lambda>n. Inr n), WriteError = (\<lambda>_. None),
     Mode = ''client'', Multi_streams = True\<rparr>"

definition demo_item :: "nat \<Rightarrow> byte list \<Rightarrow> nat toSend" where
  "demo_item f p = \<lparr>flow = f, packet = p, time = 0\<rparr>"

theorem schedule_turn_correct_witness:
  "schedule_turn demo_env [demo_item 7 [1], demo_item 5 [2], demo_item 7 [3], demo_item 5 [4]]
     = Some (demo_item 5 [2], [demo_item 5 [4], demo_item 7 [1], demo_item 7 [3]])
   \<and> mset [demo_item 5 [2], demo_item 5 [4], demo_item 7 [1], demo_item 7 [3]]
     = mset [demo_item 7 [1], demo_item 5 [2], demo_item 7 [3], demo_item 5 [4]]"
proof -
  have w: "weak_order (LessThan demo_env)" by (simp add: demo_env_def ports.weak_order_axioms)
  have "schedule_turn demo_env [demo_item 7 [1], demo_item 5 [2], demo_item 7 [3], demo_item 5 [4]]
     = Some (demo_item 5 [2], [demo_item 5 [4], demo_item 7 [1], demo_item 7 [3]])"
    by (simp add: schedule_turn_eq demo_item_def schedule_less_def demo_env_def)
  with schedule_turn_correct [OF w this] show ?thesis by blast
qed

text \<open>As long as nothing arrives, the turns of the scheduler empty the queue in the order of one
  stable sort of it: the sort of every turn agrees with the one before.\<close>

theorem schedule_turns_sort:
  assumes "weak_order (LessThan env)" "length q \<le> n"
  shows "schedule_turns env n q = SliceStable (schedule_less env) q"
  by (rule schedule_turns_eq [OF schedule_less_weak_order [OF assms(1)] assms(2)])

theorem schedule_turns_sort_witness:
  "schedule_turns demo_env 3 [demo_item 7 [1], demo_item 5 [2], demo_item 7 [3]]
   = [demo_item 5 [2], demo_item 7 [1], demo_item 7 [3]]"
  using schedule_turns_sort [of demo_env "[demo_item 7 [1], demo_item 5 [2], demo_item 7 [3]]" 3]
  by (simp add: demo_env_def demo_item_def schedule_less_def ports.weak_order_axioms)

end
