(* ===== verification/Vpn_Goroutines.thy ===== *)
theory Vpn_Goroutines
  imports Vpn_Transmitter
begin

section \<open>The goroutines of the VPN transmitter\<close>

text \<open>
  \<open>ListenTun\<close>, \<open>SchedulePackets\<close> and \<open>CollectUnused\<close> of \<^verbatim>\<open>transmitter.go\<close> as they run together.
  The state holds the shared maps and channel, where each goroutine is in its loop with its local
  variables, what was written to the streams, and three logs that no operation reads: \<open>accepted\<close>,
  the packets put on the channel by \<open>ListenTun\<close>, \<open>sent\<close>, those the scheduler gave to \<open>sendPacket\<close>,
  and \<open>fates\<close>, what became of each of them there: written to a stream, lost because \<open>Write\<close> failed
  and \<open>sendPacket\<close> ignores the error, not sent because it is empty, or without a stream.
\<close>

datatype 'f TunPc =
    TunRead
  | TunOpen 'f "byte list"
  | TunStore 'f "byte list"
  | TunSend "'f toSend"
  | TunStopped

datatype 'f SchedPc =
    SchedReceive
  | SchedLen "'f toSend"
  | SchedCount "'f toSend"
  | SchedTake nat "'f toSend list"
  | SchedSend "'f toSend" "'f toSend list"
  | SchedRequeue "'f toSend list"
  | SchedPanic goerr "'f toSend list"

datatype 'f ColPc = ColScan | ColLoad 'f | ColRead 'f | ColDelStream 'f | ColDelInteraction 'f

datatype 's fate = Written 's | Lost 's goerr | Empty | NoStream

record ('f, 's) TxState =
  mapInteraction :: "'f \<Rightarrow> int option"
  mapQuicStream :: "'f \<Rightarrow> 's option"
  toSendQueue :: "'f toSend list"
  lastErrors :: "goerr list"
  opened :: nat
  closedStreams :: "'s list"
  written :: "('s \<times> byte list) list"
  writes :: nat
  tunPc :: "'f TunPc"
  schedPc :: "'f SchedPc"
  colPc :: "'f ColPc"
  accepted :: "'f toSend list"
  sent :: "'f toSend list"
  fates :: "'s fate list"

text \<open>\<open>NewTransmitter\<close>: empty maps, a channel of \<open>queueCapacity\<close> packets, the goroutines at the start.\<close>

definition queueCapacity :: nat where "queueCapacity = 1000"

definition inactivityTimeout :: int where "inactivityTimeout = 1000000000"

definition NewTransmitter :: "('f, 's) TxState" where
  "NewTransmitter =
     \<lparr>mapInteraction = Map.empty, mapQuicStream = Map.empty, toSendQueue = [], lastErrors = [],
      opened = 0, closedStreams = [], written = [], writes = 0, tunPc = TunRead, schedPc = SchedReceive,
      colPc = ColScan, accepted = [], sent = [], fates = []\<rparr>"

subsection \<open>ListenTun\<close>

text \<open>
  Reading a packet (or the error of the interface), finding its flow and looking the flow up in
  \<open>mapInteraction\<close>; opening and storing the stream of a new flow; storing the time; sending on the
  channel, which blocks while the channel is full.
\<close>

definition ListenTun_read ::
  "('f, 'e, 's) VpnEnv \<Rightarrow> goerr + byte list \<Rightarrow> ('f, 's) TxState \<Rightarrow> ('f, 's) TxState" where
  "ListenTun_read env input st =
     (case ebind input (\<lambda>buf. ebind (FindFlow env buf) (\<lambda>f. Inr (buf, f))) of
        Inl err \<Rightarrow> st\<lparr>lastErrors := lastErrors st @ [err], tunPc := TunStopped\<rparr>
      | Inr (buf, found) \<Rightarrow>
          let f = (if \<not> Multi_streams env then Flow0 env else found) in
          (case mapInteraction st f of
             None \<Rightarrow> st\<lparr>tunPc := TunOpen f buf\<rparr>
           | Some _ \<Rightarrow> st\<lparr>tunPc := TunStore f buf\<rparr>))"

definition ListenTun_open ::
  "('f, 'e, 's) VpnEnv \<Rightarrow> 'f \<Rightarrow> byte list \<Rightarrow> ('f, 's) TxState \<Rightarrow> ('f, 's) TxState" where
  "ListenTun_open env f buf st =
     (case OpenStream env (opened st) of
        Inl err \<Rightarrow> st\<lparr>opened := Suc (opened st), lastErrors := lastErrors st @ [err],
                      tunPc := TunStopped\<rparr>
      | Inr newStream \<Rightarrow>
          st\<lparr>opened := Suc (opened st), mapQuicStream := (mapQuicStream st)(f \<mapsto> newStream),
             tunPc := TunStore f buf\<rparr>)"

definition ListenTun_store ::
  "int \<Rightarrow> int \<Rightarrow> 'f \<Rightarrow> byte list \<Rightarrow> ('f, 's) TxState \<Rightarrow> ('f, 's) TxState" where
  "ListenTun_store now now' f buf st =
     st\<lparr>mapInteraction := (mapInteraction st)(f \<mapsto> now),
        tunPc := TunSend \<lparr>flow = f, packet = buf, time = now'\<rparr>\<rparr>"

definition ListenTun_send :: "'f toSend \<Rightarrow> ('f, 's) TxState \<Rightarrow> ('f, 's) TxState option" where
  "ListenTun_send add st =
     (if length (toSendQueue st) < queueCapacity
      then Some (st\<lparr>toSendQueue := toSendQueue st @ [add], accepted := accepted st @ [add],
                    tunPc := TunRead\<rparr>)
      else None)"

subsection \<open>SchedulePackets\<close>

text \<open>
  The first packet is received; then the length of the queue is read, and read again when it was not
  zero; that many packets are received, one after the other, while \<open>ListenTun\<close> may add behind them.
  They are sorted, the first is sent, and the others go back one by one, each send blocking while the
  channel is full.
\<close>

definition SchedulePackets_receive :: "('f, 's) TxState \<Rightarrow> ('f, 's) TxState option" where
  "SchedulePackets_receive st =
     (case toSendQueue st of
        [] \<Rightarrow> None
      | top0 # q \<Rightarrow> Some (st\<lparr>toSendQueue := q, schedPc := SchedLen top0\<rparr>))"

definition SchedulePackets_len :: "'f toSend \<Rightarrow> ('f, 's) TxState \<Rightarrow> ('f, 's) TxState" where
  "SchedulePackets_len top0 st =
     (if length (toSendQueue st) = 0 then st\<lparr>schedPc := SchedSend top0 []\<rparr> else st\<lparr>schedPc := SchedCount top0\<rparr>)"

definition SchedulePackets_count :: "'f toSend \<Rightarrow> ('f, 's) TxState \<Rightarrow> ('f, 's) TxState" where
  "SchedulePackets_count top0 st = st\<lparr>schedPc := SchedTake (length (toSendQueue st)) [top0]\<rparr>"

definition SchedulePackets_take ::
  "('f, 'e, 's) VpnEnv \<Rightarrow> nat \<Rightarrow> 'f toSend list \<Rightarrow> ('f, 's) TxState \<Rightarrow> ('f, 's) TxState option" where
  "SchedulePackets_take env n batch st =
     (if n = 0 then
        (let workingSlice = SliceStable (schedule_less env) batch
         in Some (st\<lparr>schedPc := SchedSend (workingSlice ! 0) (drop 1 workingSlice)\<rparr>))
      else case toSendQueue st of
             [] \<Rightarrow> None
           | v # q \<Rightarrow> Some (st\<lparr>toSendQueue := q, schedPc := SchedTake (n - 1) (batch @ [v])\<rparr>))"

text \<open>
  \<open>Write\<close> of a stream: it fails on a stream that was closed, and for other reasons in the session,
  \<open>WriteError env k\<close> for the \<open>k\<close>-th call. What a call that fails may have sent of its bytes is not
  recorded.
\<close>

definition errWriteClosed :: goerr where "errWriteClosed = GoErr ''write on closed stream''"

definition stream_Write ::
  "('f, 'e, 's) VpnEnv \<Rightarrow> 's \<Rightarrow> ('f, 's) TxState \<Rightarrow> byte list \<Rightarrow> goerr option \<times> ('f, 's) TxState" where
  "stream_Write env stream st bs =
     (let st' = st\<lparr>writes := Suc (writes st)\<rparr> in
      if stream \<in> set (closedStreams st) then (Some errWriteClosed, st')
      else case WriteError env (writes st) of
             Some err \<Rightarrow> (Some err, st')
           | None \<Rightarrow> (None, st'\<lparr>written := written st @ [(stream, bs)]\<rparr>))"

definition fate_of :: "'s \<Rightarrow> Datagram \<Rightarrow> goerr option \<Rightarrow> 's fate" where
  "fate_of stream d err =
     (case err of Some e \<Rightarrow> Lost stream e | None \<Rightarrow> if Payload d = [] then Empty else Written stream)"

definition send_payload ::
  "('f, 'e, 's) VpnEnv \<Rightarrow> 'f toSend \<Rightarrow> byte list \<Rightarrow> ('f, 's) TxState \<Rightarrow> ('f, 's) TxState" where
  "send_payload env p payload st =
     (case mapQuicStream st (flow p) of
        Some stream \<Rightarrow>
          let data = \<lparr>Payload = payload\<rparr>; (err, st) = Datagram_Send (stream_Write env stream) data st
          in st\<lparr>sent := sent st @ [p], fates := fates st @ [fate_of stream data err]\<rparr>
      | None \<Rightarrow> st\<lparr>sent := sent st @ [p], fates := fates st @ [NoStream]\<rparr>)"

definition sendPacket ::
  "('f, 'e, 's) VpnEnv \<Rightarrow> int \<Rightarrow> int \<Rightarrow> 'f toSend \<Rightarrow> ('f, 's) TxState \<Rightarrow> goerr + ('f, 's) TxState" where
  "sendPacket env now rtt p st =
     ebind (if now - time p > rtt then MarkECN (packet p) else Inr (packet p)) (\<lambda>payload. Inr (send_payload env p payload st))"

definition SchedulePackets_send ::
  "('f, 'e, 's) VpnEnv \<Rightarrow> int \<Rightarrow> int \<Rightarrow> 'f toSend \<Rightarrow> 'f toSend list \<Rightarrow> ('f, 's) TxState \<Rightarrow> ('f, 's) TxState" where
  "SchedulePackets_send env now rtt p rest st =
     (case sendPacket env now rtt p st of
        Inl err \<Rightarrow> st\<lparr>schedPc := SchedPanic err (p # rest)\<rparr>
      | Inr st' \<Rightarrow> st'\<lparr>schedPc := SchedRequeue rest\<rparr>)"

definition SchedulePackets_requeue ::
  "'f toSend list \<Rightarrow> ('f, 's) TxState \<Rightarrow> ('f, 's) TxState option" where
  "SchedulePackets_requeue rest st =
     (case rest of
        [] \<Rightarrow> Some (st\<lparr>schedPc := SchedReceive\<rparr>)
      | val # rest' \<Rightarrow>
          if length (toSendQueue st) < queueCapacity
          then Some (st\<lparr>toSendQueue := toSendQueue st @ [val], schedPc := SchedRequeue rest'\<rparr>)
          else None)"

subsection \<open>CollectUnused\<close>

text \<open>
  The scan finds a flow \<open>f\<close> whose last packet is too old (\<open>Range\<close> gives the keys in no order);
  the stream is loaded and closed, a byte is read from it, which blocks until the peer sent something
  or closed its side, then the two map entries are deleted. All that time the closed stream is in the map.
\<close>

definition CollectUnused_scan ::
  "('f, 'e, 's) VpnEnv \<Rightarrow> int \<Rightarrow> 'f \<Rightarrow> ('f, 's) TxState \<Rightarrow> ('f, 's) TxState option" where
  "CollectUnused_scan env now f st =
     (if \<not> Multi_streams env then None
      else case mapInteraction st f of
             None \<Rightarrow> None
           | Some t \<Rightarrow> if now - t > inactivityTimeout then Some (st\<lparr>colPc := ColLoad f\<rparr>) else None)"

definition CollectUnused_load :: "'f \<Rightarrow> ('f, 's) TxState \<Rightarrow> ('f, 's) TxState" where
  "CollectUnused_load f st =
     (case mapQuicStream st f of
        None \<Rightarrow> st\<lparr>lastErrors := lastErrors st @ [GoErr ''Unable to load stream''], colPc := ColScan\<rparr>
      | Some stream \<Rightarrow> st\<lparr>closedStreams := closedStreams st @ [stream], colPc := ColRead f\<rparr>)"

definition CollectUnused_read :: "'f \<Rightarrow> ('f, 's) TxState \<Rightarrow> ('f, 's) TxState" where
  "CollectUnused_read f st = st\<lparr>colPc := ColDelStream f\<rparr>"

definition CollectUnused_delStream :: "'f \<Rightarrow> ('f, 's) TxState \<Rightarrow> ('f, 's) TxState" where
  "CollectUnused_delStream f st =
     st\<lparr>mapQuicStream := (mapQuicStream st)(f := None), colPc := ColDelInteraction f\<rparr>"

definition CollectUnused_delInteraction :: "'f \<Rightarrow> ('f, 's) TxState \<Rightarrow> ('f, 's) TxState" where
  "CollectUnused_delInteraction f st =
     st\<lparr>mapInteraction := (mapInteraction st)(f := None), colPc := ColScan\<rparr>"

subsection \<open>Any order of steps\<close>

inductive tx_step ::
  "('f, 'e, 's) VpnEnv \<Rightarrow> ('f, 's) TxState \<Rightarrow> ('f, 's) TxState \<Rightarrow> bool" for env where
  tun_read: "tunPc st = TunRead \<Longrightarrow> tx_step env st (ListenTun_read env input st)"
| tun_open: "tunPc st = TunOpen f buf \<Longrightarrow> tx_step env st (ListenTun_open env f buf st)"
| tun_store: "tunPc st = TunStore f buf \<Longrightarrow> tx_step env st (ListenTun_store now now' f buf st)"
| tun_send: "tunPc st = TunSend add \<Longrightarrow> ListenTun_send add st = Some st' \<Longrightarrow> tx_step env st st'"
| sched_receive:
    "schedPc st = SchedReceive \<Longrightarrow> SchedulePackets_receive st = Some st' \<Longrightarrow> tx_step env st st'"
| sched_len: "schedPc st = SchedLen top0 \<Longrightarrow> tx_step env st (SchedulePackets_len top0 st)"
| sched_count: "schedPc st = SchedCount top0 \<Longrightarrow> tx_step env st (SchedulePackets_count top0 st)"
| sched_take:
    "schedPc st = SchedTake n batch \<Longrightarrow> SchedulePackets_take env n batch st = Some st' \<Longrightarrow> tx_step env st st'"
| sched_send:
    "schedPc st = SchedSend p rest \<Longrightarrow> tx_step env st (SchedulePackets_send env now rtt p rest st)"
| sched_requeue:
    "schedPc st = SchedRequeue rest \<Longrightarrow> SchedulePackets_requeue rest st = Some st'
     \<Longrightarrow> tx_step env st st'"
| col_scan: "colPc st = ColScan \<Longrightarrow> CollectUnused_scan env now f st = Some st' \<Longrightarrow> tx_step env st st'"
| col_load: "colPc st = ColLoad f \<Longrightarrow> tx_step env st (CollectUnused_load f st)"
| col_read: "colPc st = ColRead f \<Longrightarrow> tx_step env st (CollectUnused_read f st)"
| col_delStream: "colPc st = ColDelStream f \<Longrightarrow> tx_step env st (CollectUnused_delStream f st)"
| col_delInteraction:
    "colPc st = ColDelInteraction f \<Longrightarrow> tx_step env st (CollectUnused_delInteraction f st)"

inductive tx_reachable :: "('f, 'e, 's) VpnEnv \<Rightarrow> ('f, 's) TxState \<Rightarrow> bool" for env where
  start: "tx_reachable env NewTransmitter"
| step: "tx_reachable env st \<Longrightarrow> tx_step env st st' \<Longrightarrow> tx_reachable env st'"

lemmas tun_defs =
  ListenTun_read_def ListenTun_open_def ListenTun_store_def ListenTun_send_def
lemmas sched_defs =
  SchedulePackets_receive_def SchedulePackets_len_def SchedulePackets_count_def SchedulePackets_take_def
  SchedulePackets_send_def SchedulePackets_requeue_def
lemmas col_defs =
  CollectUnused_scan_def CollectUnused_load_def CollectUnused_read_def CollectUnused_delStream_def
  CollectUnused_delInteraction_def
lemmas tx_splits =
  sum.splits option.splits if_splits prod.splits list.splits

lemma SliceStable_hd_tl:
  assumes "xs \<noteq> []"
  shows "mset xs = add_mset (SliceStable lt xs ! 0) (mset (drop 1 (SliceStable lt xs)))"
proof (cases "SliceStable lt xs")
  case (Cons y ys)
  then show ?thesis using mset_SliceStable [of lt xs] by simp
qed (use assms in simp)

lemma tx_invariant [consumes 1, case_names start step]:
  assumes "tx_reachable env st" "I NewTransmitter"
    and "\<And>st st'. I st \<Longrightarrow> tx_step env st st' \<Longrightarrow> I st'"
  shows "I st"
  using assms(1) by induction (auto intro: assms)

subsection \<open>What becomes of the packets\<close>

text \<open>The packets that the scheduler holds.\<close>

fun held :: "'f SchedPc \<Rightarrow> 'f toSend list" where
  "held SchedReceive = []"
| "held (SchedLen top0) = [top0]"
| "held (SchedCount top0) = [top0]"
| "held (SchedTake n batch) = batch"
| "held (SchedSend p rest) = p # rest"
| "held (SchedRequeue rest) = rest"
| "held (SchedPanic err rest) = rest"

text \<open>The scheduler has what it counted: it does not block when it takes the packets.\<close>

fun taking_ok :: "'f SchedPc \<Rightarrow> 'f toSend list \<Rightarrow> bool" where
  "taking_ok (SchedTake n batch) q \<longleftrightarrow> n \<le> length q \<and> batch \<noteq> []"
| "taking_ok _ q \<longleftrightarrow> True"

lemma taking_ok_append: "taking_ok pc q \<Longrightarrow> taking_ok pc (q @ q')"
  by (cases pc) auto

text \<open>A write is the datagram of a packet as it was read, or of the marked packet.\<close>

definition carries :: "'f toSend \<Rightarrow> 's \<times> byte list \<Rightarrow> bool" where
  "carries p w \<longleftrightarrow> (\<exists>payload. (payload = packet p \<or> MarkECN (packet p) = Inr payload) \<and> snd w = datagram_bytes payload)"

text \<open>What is said of a packet by its fate: the writes are those of the packets that were written, in order, and
  a packet is lost only in a stream that \<open>CollectUnused\<close> closed, or when the session fails.\<close>

inductive fates_ok :: "('f, 'e, 's) VpnEnv \<Rightarrow> 's set \<Rightarrow> 'f toSend list \<Rightarrow> 's fate list \<Rightarrow> ('s \<times> byte list) list \<Rightarrow> bool"
  for env closed where
  none: "fates_ok env closed [] [] []"
| written: "fates_ok env closed ps fs ws \<Longrightarrow> carries p (stream, bs) \<Longrightarrow>
    fates_ok env closed (ps @ [p]) (fs @ [Written stream]) (ws @ [(stream, bs)])"
| lost: "fates_ok env closed ps fs ws \<Longrightarrow> stream \<in> closed \<or> (\<exists>k. WriteError env k = Some err) \<Longrightarrow>
    fates_ok env closed (ps @ [p]) (fs @ [Lost stream err]) ws"
| empty: "fates_ok env closed ps fs ws \<Longrightarrow> packet p = [] \<or> MarkECN (packet p) = Inr [] \<Longrightarrow>
    fates_ok env closed (ps @ [p]) (fs @ [Empty]) ws"
| no_stream: "fates_ok env closed ps fs ws \<Longrightarrow> fates_ok env closed (ps @ [p]) (fs @ [NoStream]) ws"

lemma fates_ok_mono: "fates_ok env closed ps fs ws \<Longrightarrow> closed \<subseteq> closed' \<Longrightarrow> fates_ok env closed' ps fs ws"
  by (induction rule: fates_ok.induct) (auto intro: fates_ok.intros)

lemma sendPacket_cases:
  assumes "sendPacket env now rtt p st = Inr st'"
  obtains (no_stream) "mapQuicStream st (flow p) = None" "st' = st\<lparr>sent := sent st @ [p], fates := fates st @ [NoStream]\<rparr>"
  | (empty) stream where "mapQuicStream st (flow p) = Some stream" "packet p = [] \<or> MarkECN (packet p) = Inr []"
      "st' = st\<lparr>sent := sent st @ [p], fates := fates st @ [Empty]\<rparr>"
  | (lost) stream err where "mapQuicStream st (flow p) = Some stream"
      "stream \<in> set (closedStreams st) \<or> WriteError env (writes st) = Some err"
      "st' = st\<lparr>writes := Suc (writes st), sent := sent st @ [p], fates := fates st @ [Lost stream err]\<rparr>"
  | (written) stream bs where "mapQuicStream st (flow p) = Some stream" "carries p (stream, bs)" "stream \<notin> set (closedStreams st)"
      "st' = st\<lparr>writes := Suc (writes st), written := written st @ [(stream, bs)], sent := sent st @ [p],
                fates := fates st @ [Written stream]\<rparr>"
proof -
  obtain payload where pl: "payload = packet p \<or> MarkECN (packet p) = Inr payload" and st': "send_payload env p payload st = st'"
    using assms by (auto simp: sendPacket_def ebind_def split: sum.splits if_splits)
  show thesis
  proof (cases "mapQuicStream st (flow p)")
    case None
    with st' no_stream show thesis by (simp add: send_payload_def)
  next
    case (Some stream)
    note st' = st' [unfolded send_payload_def Some Datagram_Send_def stream_Write_def fate_of_def Let_def, simplified]
    show thesis
    proof (cases "payload = []")
      case True
      with pl have "packet p = [] \<or> MarkECN (packet p) = Inr []" by auto
      with True show thesis using st' Some by (intro empty) auto
    next
      case False
      note st' = st' [unfolded if_not_P [OF False], simplified False simp_thms if_False]
      consider "stream \<in> set (closedStreams st)" | err where "stream \<notin> set (closedStreams st)" "WriteError env (writes st) = Some err"
        | "stream \<notin> set (closedStreams st)" "WriteError env (writes st) = None" by (cases "WriteError env (writes st)") auto
      then show thesis
      proof cases
        case 1
        then show thesis using st' Some False lost [of stream errWriteClosed] by simp
      next
        case (2 err)
        then show thesis using st' Some False lost [of stream err] by simp
      next
        case 3
        have "carries p (stream, be_bytes 4 (length payload) @ payload)"
          using pl False by (auto simp: carries_def datagram_bytes_eq)
        then show thesis using st' Some False 3 written [of stream] by simp
      qed
    qed
  qed
qed

definition conserved :: "('f, 'e, 's) VpnEnv \<Rightarrow> ('f, 's) TxState \<Rightarrow> bool" where
  "conserved env st \<longleftrightarrow>
     mset (accepted st) = mset (sent st) + mset (toSendQueue st) + mset (held (schedPc st))
     \<and> length (toSendQueue st) \<le> queueCapacity \<and> taking_ok (schedPc st) (toSendQueue st)
     \<and> fates_ok env (set (closedStreams st)) (sent st) (fates st) (written st)"

lemma conserved_send:
  assumes "conserved env st" "schedPc st = SchedSend p rest"
  shows "conserved env (SchedulePackets_send env now rtt p rest st)"
proof (cases "sendPacket env now rtt p st")
  case (Inl err)
  then show ?thesis using assms by (auto simp: SchedulePackets_send_def conserved_def)
next
  case (Inr st')
  then have eq: "SchedulePackets_send env now rtt p rest st = st'\<lparr>schedPc := SchedRequeue rest\<rparr>" by (simp add: SchedulePackets_send_def)
  from Inr show ?thesis unfolding eq
    by (cases rule: sendPacket_cases) (use assms in \<open>auto simp: conserved_def intro: fates_ok.intros\<close>)
qed

lemma conserved_take:
  assumes "conserved env st" "schedPc st = SchedTake n batch" "SchedulePackets_take env n batch st = Some st'"
  shows "conserved env st'"
proof (cases "n = 0")
  case True
  have "batch \<noteq> []" using assms(1,2) by (simp add: conserved_def)
  from SliceStable_hd_tl [OF this, of "schedule_less env"] show ?thesis
    using assms True by (auto simp: conserved_def SchedulePackets_take_def Let_def)
qed (use assms in \<open>auto simp: conserved_def SchedulePackets_take_def split: list.splits\<close>)

lemma conserved_step:
  assumes "conserved env st" "tx_step env st st'"
  shows "conserved env st'"
  using assms(2,1)
proof cases
  case (tun_read input)
  with assms(1) show ?thesis by (auto simp: conserved_def tun_defs Let_def split: tx_splits)
next
  case (tun_open f buf)
  with assms(1) show ?thesis by (auto simp: conserved_def tun_defs split: tx_splits)
next
  case (tun_store f buf now now')
  with assms(1) show ?thesis by (auto simp: conserved_def tun_defs)
next
  case (tun_send a)
  with assms(1) show ?thesis by (auto simp: conserved_def tun_defs taking_ok_append split: if_splits)
next
  case sched_receive
  with assms(1) show ?thesis by (auto simp: conserved_def SchedulePackets_receive_def split: list.splits)
next
  case (sched_len top0)
  with assms(1) show ?thesis by (auto simp: conserved_def SchedulePackets_len_def)
next
  case (sched_count top0)
  with assms(1) show ?thesis by (auto simp: conserved_def SchedulePackets_count_def)
next
  case (sched_take n batch)
  with assms(1) show ?thesis by (blast intro: conserved_take)
next
  case (sched_send p rest now rtt)
  with assms(1) show ?thesis by (simp add: conserved_send)
next
  case (sched_requeue rest)
  with assms(1) show ?thesis
    by (auto simp: conserved_def SchedulePackets_requeue_def split: list.splits if_splits)
next
  case (col_load f)
  with assms(1) show ?thesis
    by (auto simp: conserved_def CollectUnused_load_def split: option.splits elim: fates_ok_mono)
qed (use assms(1) in \<open>auto simp: conserved_def col_defs split: tx_splits\<close>)

lemma conserved_reachable: "tx_reachable env st \<Longrightarrow> conserved env st"
  by (rule tx_invariant [where I = "conserved env"])
     (auto simp: conserved_step, simp add: conserved_def NewTransmitter_def fates_ok.none)


subsection \<open>One stream for all flows\<close>

fun tun_ok :: "'f \<Rightarrow> 'f TunPc \<Rightarrow> ('f \<Rightarrow> int option) \<Rightarrow> ('f \<Rightarrow> 's option) \<Rightarrow> nat \<Rightarrow> bool" where
  "tun_ok f0 TunRead mi ms n \<longleftrightarrow> (n \<noteq> 0 \<longrightarrow> mi f0 \<noteq> None)"
| "tun_ok f0 (TunOpen f buf) mi ms n \<longleftrightarrow> f = f0 \<and> n = 0"
| "tun_ok f0 (TunStore f buf) mi ms n \<longleftrightarrow> f = f0 \<and> ms f0 \<noteq> None"
| "tun_ok f0 (TunSend a) mi ms n \<longleftrightarrow> flow a = f0 \<and> mi f0 \<noteq> None"
| "tun_ok f0 TunStopped mi ms n \<longleftrightarrow> True"

definition single_stream :: "'f \<Rightarrow> ('f, 's) TxState \<Rightarrow> bool" where
  "single_stream f0 st \<longleftrightarrow>
     dom (mapInteraction st) \<subseteq> {f0}
     \<and> (mapInteraction st f0 \<noteq> None \<longrightarrow> mapQuicStream st f0 \<noteq> None)
     \<and> tun_ok f0 (tunPc st) (mapInteraction st) (mapQuicStream st) (opened st)
     \<and> opened st \<le> 1
     \<and> (\<forall>p \<in> set (toSendQueue st) \<union> set (held (schedPc st)).
          flow p = f0 \<and> mapQuicStream st f0 \<noteq> None)
     \<and> colPc st = ColScan \<and> closedStreams st = [] \<and> NoStream \<notin> set (fates st) \<and> taking_ok (schedPc st) (toSendQueue st)
     \<and> (\<forall>w \<in> set (written st). mapQuicStream st f0 = Some (fst w))
     \<and> (opened st = 0 \<longrightarrow> mapQuicStream st f0 = None)"

lemma single_stream_send:
  assumes "single_stream f0 st" "schedPc st = SchedSend p rest"
  shows "single_stream f0 (SchedulePackets_send env now rtt p rest st)"
proof (cases "sendPacket env now rtt p st")
  case (Inl err)
  then show ?thesis using assms by (auto simp: SchedulePackets_send_def single_stream_def)
next
  case (Inr st')
  then have eq: "SchedulePackets_send env now rtt p rest st = st'\<lparr>schedPc := SchedRequeue rest\<rparr>" by (simp add: SchedulePackets_send_def)
  from Inr show ?thesis unfolding eq
    by (cases rule: sendPacket_cases) (use assms in \<open>auto simp: single_stream_def\<close>)
qed

lemma single_stream_read:
  assumes "single_stream (Flow0 env) st" "\<not> Multi_streams env" "tunPc st = TunRead"
  shows "single_stream (Flow0 env) (ListenTun_read env input st)"
proof (cases "ebind input (\<lambda>buf. ebind (FindFlow env buf) (\<lambda>f. Inr (buf, f)))")
  case (Inl err)
  then show ?thesis using assms(1) by (simp add: ListenTun_read_def single_stream_def)
next
  case (Inr bf)
  obtain buf f where "bf = (buf, f)" by (cases bf)
  with Inr show ?thesis using assms
    by (cases "mapInteraction st (Flow0 env)") (auto simp: ListenTun_read_def single_stream_def)
qed

lemma single_stream_step:
  assumes "single_stream (Flow0 env) st" "tx_step env st st'" "\<not> Multi_streams env"
  shows "single_stream (Flow0 env) st'"
  using assms(2,1,3)
proof cases
  case (tun_read input)
  with assms(1,3) show ?thesis
    using single_stream_read by blast
next
  case (tun_open f buf)
  with assms(1) show ?thesis
    by (auto simp: single_stream_def tun_defs split: sum.splits)
next
  case (tun_store f buf now now')
  with assms(1) show ?thesis by (auto simp: single_stream_def tun_defs)
next
  case (tun_send a)
  with assms(1) show ?thesis by (auto simp: single_stream_def tun_defs taking_ok_append split: if_splits dest: subsetD [OF _ domI])
next
  case sched_receive
  with assms(1) show ?thesis by (auto simp: single_stream_def SchedulePackets_receive_def split: list.splits dest: subsetD [OF _ domI])
next
  case (sched_len top0)
  with assms(1) show ?thesis by (auto simp: single_stream_def SchedulePackets_len_def dest: subsetD [OF _ domI])
next
  case (sched_count top0)
  with assms(1) show ?thesis by (auto simp: single_stream_def SchedulePackets_count_def dest: subsetD [OF _ domI])
next
  case (sched_take n batch)
  then have sl: "batch \<noteq> []" using assms(1) by (simp add: single_stream_def)
  have "insert (SliceStable (schedule_less env) batch ! 0) (set (drop 1 (SliceStable (schedule_less env) batch))) = set batch"
    using SliceStable_hd_tl [OF sl, of "schedule_less env"] by (metis set_mset_add_mset_insert set_mset_mset)
  then show ?thesis using sched_take assms(1)
    by (auto simp: single_stream_def SchedulePackets_take_def Let_def split: list.splits if_splits dest: subsetD [OF _ domI])
next
  case (sched_send p rest now rtt)
  with single_stream_send [OF assms(1) sched_send(2)] show ?thesis by simp
next
  case (sched_requeue rest)
  with assms(1) show ?thesis
    by (auto simp: single_stream_def SchedulePackets_requeue_def split: list.splits if_splits
             dest: subsetD [OF _ domI])
qed (use assms(1) in \<open>auto simp: single_stream_def col_defs split: if_splits\<close>)

lemma single_stream_reachable:
  "tx_reachable env st \<Longrightarrow> \<not> Multi_streams env \<Longrightarrow> single_stream (Flow0 env) st"
  by (rule tx_invariant [where I = "single_stream (Flow0 env)"])
     (auto simp: single_stream_step, simp add: single_stream_def NewTransmitter_def)

text \<open>Without multi streams the VPN uses one stream: whatever the interleaving,
  at most one stream is opened and none is closed, no packet is dropped for want of a stream or written to
  another, and one that is lost was lost by the session.\<close>

lemma fates_ok_lost: "fates_ok env closed ps fs ws \<Longrightarrow> Lost stream err \<in> set fs \<Longrightarrow> stream \<in> closed \<or> (\<exists>k. WriteError env k = Some err)"
  by (induction rule: fates_ok.induct) auto

theorem single_stream_delivers:
  assumes "tx_reachable env st" "\<not> Multi_streams env"
  shows "opened st \<le> 1 \<and> closedStreams st = [] \<and> NoStream \<notin> set (fates st)
         \<and> (\<forall>stream err. Lost stream err \<in> set (fates st) \<longrightarrow> (\<exists>k. WriteError env k = Some err))
         \<and> (\<forall>w \<in> set (written st). mapQuicStream st (Flow0 env) = Some (fst w))"
proof -
  have 1: "opened st \<le> 1 \<and> closedStreams st = [] \<and> NoStream \<notin> set (fates st)
      \<and> (\<forall>w \<in> set (written st). mapQuicStream st (Flow0 env) = Some (fst w))"
    using single_stream_reachable [OF assms] by (simp add: single_stream_def)
  have "fates_ok env (set (closedStreams st)) (sent st) (fates st) (written st)"
    using conserved_reachable [OF assms(1)] by (simp add: conserved_def)
  then show ?thesis using 1 fates_ok_lost by fastforce
qed

subsection \<open>Schedules\<close>

text \<open>An execution as a list of actions, with the inputs and clock readings of each.\<close>

datatype 'f Action =
    ATunRead "goerr + byte list" | ATunOpen | ATunStore int int | ATunSend
  | ASchedReceive | ASchedLen | ASchedCount | ASchedTake | ASchedSend int int | ASchedRequeue
  | AColScan int 'f | AColLoad | AColRead | AColDelStream | AColDelInteraction

fun exec :: "('f, 'e, 's) VpnEnv \<Rightarrow> 'f Action \<Rightarrow> ('f, 's) TxState \<Rightarrow> ('f, 's) TxState option" where
  "exec env (ATunRead input) st =
     (if tunPc st = TunRead then Some (ListenTun_read env input st) else None)"
| "exec env ATunOpen st =
     (case tunPc st of TunOpen f buf \<Rightarrow> Some (ListenTun_open env f buf st) | _ \<Rightarrow> None)"
| "exec env (ATunStore now now') st =
     (case tunPc st of TunStore f buf \<Rightarrow> Some (ListenTun_store now now' f buf st) | _ \<Rightarrow> None)"
| "exec env ATunSend st = (case tunPc st of TunSend a \<Rightarrow> ListenTun_send a st | _ \<Rightarrow> None)"
| "exec env ASchedReceive st =
     (case schedPc st of SchedReceive \<Rightarrow> SchedulePackets_receive st | _ \<Rightarrow> None)"
| "exec env ASchedLen st =
     (case schedPc st of SchedLen top0 \<Rightarrow> Some (SchedulePackets_len top0 st) | _ \<Rightarrow> None)"
| "exec env ASchedCount st =
     (case schedPc st of SchedCount top0 \<Rightarrow> Some (SchedulePackets_count top0 st) | _ \<Rightarrow> None)"
| "exec env ASchedTake st =
     (case schedPc st of SchedTake n batch \<Rightarrow> SchedulePackets_take env n batch st | _ \<Rightarrow> None)"
| "exec env (ASchedSend now rtt) st =
     (case schedPc st of SchedSend p rest \<Rightarrow> Some (SchedulePackets_send env now rtt p rest st) | _ \<Rightarrow> None)"
| "exec env ASchedRequeue st =
     (case schedPc st of SchedRequeue rest \<Rightarrow> SchedulePackets_requeue rest st | _ \<Rightarrow> None)"
| "exec env (AColScan now f) st =
     (case colPc st of ColScan \<Rightarrow> CollectUnused_scan env now f st | _ \<Rightarrow> None)"
| "exec env AColLoad st =
     (case colPc st of ColLoad f \<Rightarrow> Some (CollectUnused_load f st) | _ \<Rightarrow> None)"
| "exec env AColRead st =
     (case colPc st of ColRead f \<Rightarrow> Some (CollectUnused_read f st) | _ \<Rightarrow> None)"
| "exec env AColDelStream st =
     (case colPc st of ColDelStream f \<Rightarrow> Some (CollectUnused_delStream f st) | _ \<Rightarrow> None)"
| "exec env AColDelInteraction st =
     (case colPc st of ColDelInteraction f \<Rightarrow> Some (CollectUnused_delInteraction f st) | _ \<Rightarrow> None)"

fun exec_all ::
  "('f, 'e, 's) VpnEnv \<Rightarrow> 'f Action list \<Rightarrow> ('f, 's) TxState \<Rightarrow> ('f, 's) TxState option" where
  "exec_all env [] st = Some st"
| "exec_all env (a # as) st =
     (case exec env a st of None \<Rightarrow> None | Some st' \<Rightarrow> exec_all env as st')"

lemma exec_tx_step: "exec env a st = Some st' \<Longrightarrow> tx_step env st st'"
  by (cases a) (auto intro: tx_step.intros split: TunPc.splits SchedPc.splits ColPc.splits if_splits)

lemma tx_step_exec: "tx_step env st st' \<Longrightarrow> \<exists>a. exec env a st = Some st'"
proof (induction rule: tx_step.induct)
  case (tun_read st input) then show ?case by (intro exI [of _ "ATunRead input"]) simp
next
  case (tun_store st f buf now now') then show ?case by (intro exI [of _ "ATunStore now now'"]) simp
next
  case (sched_send st p rest now rtt) then show ?case by (intro exI [of _ "ASchedSend now rtt"]) simp
next
  case (col_scan st now f st') then show ?case by (intro exI [of _ "AColScan now f"]) simp
next
  case tun_open then show ?case by (intro exI [of _ ATunOpen]) simp
next
  case tun_send then show ?case by (intro exI [of _ ATunSend]) simp
next
  case sched_receive then show ?case by (intro exI [of _ ASchedReceive]) simp
next
  case sched_len then show ?case by (intro exI [of _ ASchedLen]) simp
next
  case sched_count then show ?case by (intro exI [of _ ASchedCount]) simp
next
  case sched_take then show ?case by (intro exI [of _ ASchedTake]) simp
next
  case col_read then show ?case by (intro exI [of _ AColRead]) simp
next
  case sched_requeue then show ?case by (intro exI [of _ ASchedRequeue]) simp
next
  case col_load then show ?case by (intro exI [of _ AColLoad]) simp
next
  case col_delStream then show ?case by (intro exI [of _ AColDelStream]) simp
next
  case col_delInteraction then show ?case by (intro exI [of _ AColDelInteraction]) simp
qed

lemma exec_all_reachable:
  "exec_all env as st = Some st' \<Longrightarrow> tx_reachable env st \<Longrightarrow> tx_reachable env st'"
proof (induction as arbitrary: st)
  case (Cons a as)
  then obtain s where "exec env a st = Some s" "exec_all env as s = Some st'"
    by (auto split: option.splits)
  with Cons show ?case by (blast intro: tx_reachable.step exec_tx_step)
qed simp

lemma exec_all_reaches:
  assumes "case exec_all env as st of None \<Rightarrow> False | Some st' \<Rightarrow> P st'" "tx_reachable env st"
  shows "\<exists>st'. tx_reachable env st' \<and> P st'"
  using assms exec_all_reachable [of env as st] by (cases "exec_all env as st") auto

text \<open>One action, evaluated where the state says which branch it takes.\<close>

lemma run_read_single:
  "tunPc st = TunRead \<Longrightarrow> \<not> Multi_streams env \<Longrightarrow> FindFlow env p = Inr f \<Longrightarrow>
   exec env (ATunRead (Inr p)) st
   = Some (if mapInteraction st (Flow0 env) = None then st\<lparr>tunPc := TunOpen (Flow0 env) p\<rparr>
           else st\<lparr>tunPc := TunStore (Flow0 env) p\<rparr>)"
  by (auto simp: ListenTun_read_def split: option.splits)

lemma run_read_multi:
  "tunPc st = TunRead \<Longrightarrow> Multi_streams env \<Longrightarrow> FindFlow env p = Inr f \<Longrightarrow>
   exec env (ATunRead (Inr p)) st
   = Some (if mapInteraction st f = None then st\<lparr>tunPc := TunOpen f p\<rparr>
           else st\<lparr>tunPc := TunStore f p\<rparr>)"
  by (auto simp: ListenTun_read_def split: option.splits)

lemma run_open:
  "tunPc st = TunOpen f p \<Longrightarrow> OpenStream env (opened st) = Inr s \<Longrightarrow>
   exec env ATunOpen st
   = Some (st\<lparr>opened := Suc (opened st), mapQuicStream := (mapQuicStream st)(f \<mapsto> s),
              tunPc := TunStore f p\<rparr>)"
  by (simp add: ListenTun_open_def)

lemma run_store:
  "tunPc st = TunStore f p \<Longrightarrow>
   exec env (ATunStore now now') st
   = Some (st\<lparr>mapInteraction := (mapInteraction st)(f \<mapsto> now),
              tunPc := TunSend \<lparr>flow = f, packet = p, time = now'\<rparr>\<rparr>)"
  by (simp add: ListenTun_store_def)

lemma run_send:
  "tunPc st = TunSend a \<Longrightarrow> length (toSendQueue st) < queueCapacity \<Longrightarrow>
   exec env ATunSend st
   = Some (st\<lparr>toSendQueue := toSendQueue st @ [a], accepted := accepted st @ [a], tunPc := TunRead\<rparr>)"
  by (simp add: ListenTun_send_def)

lemma run_sched_receive:
  "schedPc st = SchedReceive \<Longrightarrow> toSendQueue st = top0 # q \<Longrightarrow>
   exec env ASchedReceive st = Some (st\<lparr>toSendQueue := q, schedPc := SchedLen top0\<rparr>)"
  "schedPc st = SchedLen top0 \<Longrightarrow>
   exec env ASchedLen st = Some (if toSendQueue st = [] then st\<lparr>schedPc := SchedSend top0 []\<rparr> else st\<lparr>schedPc := SchedCount top0\<rparr>)"
  "schedPc st = SchedCount top0 \<Longrightarrow>
   exec env ASchedCount st = Some (st\<lparr>schedPc := SchedTake (length (toSendQueue st)) [top0]\<rparr>)"
  "schedPc st = SchedTake (Suc n) batch \<Longrightarrow> toSendQueue st = v # q \<Longrightarrow>
   exec env ASchedTake st = Some (st\<lparr>toSendQueue := q, schedPc := SchedTake n (batch @ [v])\<rparr>)"
  "schedPc st = SchedTake 0 batch \<Longrightarrow>
   exec env ASchedTake st
   = Some (st\<lparr>schedPc := SchedSend (SliceStable (schedule_less env) batch ! 0) (drop 1 (SliceStable (schedule_less env) batch))\<rparr>)"
  by (simp_all add: sched_defs Let_def)

lemma run_sched_send:
  "schedPc st = SchedSend p rest \<Longrightarrow> now - time p \<le> rtt \<Longrightarrow> packet p \<noteq> [] \<Longrightarrow>
   (case mapQuicStream st (flow p) of Some stream \<Rightarrow> stream \<notin> set (closedStreams st) | None \<Rightarrow> True) \<Longrightarrow> WriteError env = (\<lambda>_. None) \<Longrightarrow>
   exec env (ASchedSend now rtt) st
   = Some ((case mapQuicStream st (flow p) of
              Some s \<Rightarrow> st\<lparr>writes := Suc (writes st), written := written st @ [(s, be_bytes 4 (length (packet p)) @ packet p)],
                          sent := sent st @ [p], fates := fates st @ [Written s]\<rparr>
            | None \<Rightarrow> st\<lparr>sent := sent st @ [p], fates := fates st @ [NoStream]\<rparr>)
           \<lparr>schedPc := SchedRequeue rest\<rparr>)"
  "schedPc st = SchedSend p rest \<Longrightarrow> now - time p \<le> rtt \<Longrightarrow> packet p \<noteq> [] \<Longrightarrow>
   mapQuicStream st (flow p) = Some stream \<Longrightarrow> stream \<in> set (closedStreams st) \<Longrightarrow>
   exec env (ASchedSend now rtt) st
   = Some (st\<lparr>writes := Suc (writes st), sent := sent st @ [p], fates := fates st @ [Lost stream errWriteClosed],
              schedPc := SchedRequeue rest\<rparr>)"
  by (auto simp: SchedulePackets_send_def sendPacket_def send_payload_def Datagram_Send_def stream_Write_def fate_of_def Let_def split: option.splits)

lemma run_sched_requeue:
  "schedPc st = SchedRequeue [] \<Longrightarrow> exec env ASchedRequeue st = Some (st\<lparr>schedPc := SchedReceive\<rparr>)"
  "schedPc st = SchedRequeue (v # rest) \<Longrightarrow> length (toSendQueue st) < queueCapacity \<Longrightarrow>
   exec env ASchedRequeue st
   = Some (st\<lparr>toSendQueue := toSendQueue st @ [v], schedPc := SchedRequeue rest\<rparr>)"
  by (simp_all add: SchedulePackets_requeue_def)

lemma run_collect:
  "colPc st = ColScan \<Longrightarrow> Multi_streams env \<Longrightarrow> mapInteraction st f = Some t \<Longrightarrow>
   now - t > inactivityTimeout \<Longrightarrow> exec env (AColScan now f) st = Some (st\<lparr>colPc := ColLoad f\<rparr>)"
  "colPc st = ColLoad f \<Longrightarrow> mapQuicStream st f = Some s \<Longrightarrow>
   exec env AColLoad st
   = Some (st\<lparr>closedStreams := closedStreams st @ [s], colPc := ColRead f\<rparr>)"
  "colPc st = ColRead f \<Longrightarrow> exec env AColRead st = Some (st\<lparr>colPc := ColDelStream f\<rparr>)"
  "colPc st = ColDelStream f \<Longrightarrow>
   exec env AColDelStream st
   = Some (st\<lparr>mapQuicStream := (mapQuicStream st)(f := None), colPc := ColDelInteraction f\<rparr>)"
  "colPc st = ColDelInteraction f \<Longrightarrow>
   exec env AColDelInteraction st
   = Some (st\<lparr>mapInteraction := (mapInteraction st)(f := None), colPc := ColScan\<rparr>)"
  by (simp_all add: col_defs)

lemmas run_simps =
  run_read_single run_read_multi run_open run_store run_send run_sched_receive run_sched_send
  run_sched_requeue run_collect

declare exec.simps [simp del]

subsection \<open>What the interleavings can do\<close>

text \<open>The libraries do their part: headers parse, streams open, endpoints compare consistently.\<close>

definition env_works :: "('f, 'e, 's) VpnEnv \<Rightarrow> bool" where
  "env_works env \<longleftrightarrow> weak_order (LessThan env) \<and> (\<exists>s. OpenStream env 0 = Inr s) \<and> WriteError env = (\<lambda>_. None)"

lemma env_worksE:
  assumes "env_works env"
  obtains s where "OpenStream env 0 = Inr s" "WriteError env = (\<lambda>_. None)" "\<forall>a b. flow a = flow b \<longrightarrow> \<not> schedule_less env a b"
  using assms weak_order.asym unfolding env_works_def schedule_less_def by metis

definition reorder_schedule :: "byte list \<Rightarrow> byte list \<Rightarrow> byte list \<Rightarrow> 'f Action list" where
  "reorder_schedule p1 p2 p3 =
     [ATunRead (Inr p1), ATunOpen, ATunStore 0 0, ATunSend,
      ATunRead (Inr p2), ATunStore 0 0, ATunSend,
      ASchedReceive, ASchedLen, ASchedCount, ASchedTake, ASchedTake,
      ATunRead (Inr p3), ATunStore 0 0, ATunSend,
      ASchedSend 0 0, ASchedRequeue, ASchedRequeue,
      ASchedReceive, ASchedLen, ASchedCount, ASchedTake, ASchedTake, ASchedSend 0 0]"

text \<open>The stable sort does not keep the packets of a flow in order, although it is there for
  that: the scheduler puts the packets it took back behind those that \<open>ListenTun\<close> added meanwhile.
  Any three packets of one flow, the flow of all packets without multi streams, can be accepted in
  the order 1, 2, 3 and be sent in the order 1, 3, 2.\<close>

theorem scheduler_reorders_a_flow:
  assumes "env_works env" "\<not> Multi_streams env"
    and "\<forall>p \<in> {p1, p2, p3}. p \<noteq> [] \<and> (\<exists>f. FindFlow env p = Inr f)"
  shows "\<exists>st. tx_reachable env st \<and> map packet (accepted st) = [p1, p2, p3]
              \<and> map packet (sent st) = [p1, p3]
              \<and> (\<forall>x \<in> set (accepted st). flow x = Flow0 env)"
proof -
  obtain s where s: "OpenStream env 0 = Inr s" "WriteError env = (\<lambda>_. None)"
    and eq: "\<forall>a b. flow a = flow b \<longrightarrow> \<not> schedule_less env a b"
    by (rule env_worksE [OF assms(1)])
  obtain f1 f2 f3 where f: "FindFlow env p1 = Inr f1" "FindFlow env p2 = Inr f2" "FindFlow env p3 = Inr f3"
    "p1 \<noteq> []" "p2 \<noteq> []" "p3 \<noteq> []"
    using assms(3) by auto
  show ?thesis
    by (rule exec_all_reaches [OF _ tx_reachable.start, where env = env and as = "reorder_schedule p1 p2 p3"])
       (simp add: reorder_schedule_def NewTransmitter_def run_simps f s eq assms(2) queueCapacity_def)
qed

definition demo_single :: "(nat, nat, nat) VpnEnv" where
  "demo_single = demo_env\<lparr>Multi_streams := False\<rparr>"

lemma demo_env_works: "env_works demo_env" "env_works demo_single"
  by (simp_all add: env_works_def demo_single_def demo_env_def ports.weak_order_axioms)

lemma demo_FindFlow:
  "FindFlow demo_env (b # p) = Inr (unat b)" "FindFlow demo_single (b # p) = Inr (unat b)"
  by (simp_all add: FindFlow_def demo_single_def demo_env_def)

theorem scheduler_reorders_a_flow_witness:
  "\<exists>st. tx_reachable demo_single st \<and> map packet (accepted st) = [[1], [2], [3]]
        \<and> map packet (sent st) = [[1], [3]] \<and> (\<forall>x \<in> set (accepted st). flow x = Flow0 demo_single)"
  by (rule scheduler_reorders_a_flow [OF demo_env_works(2)])
     (simp_all add: demo_FindFlow, simp add: demo_single_def)

definition race_schedule :: "byte list \<Rightarrow> byte list \<Rightarrow> 'f \<Rightarrow> 'f Action list" where
  "race_schedule p1 p2 f =
     [ATunRead (Inr p1), ATunOpen, ATunStore 0 0, ATunSend,
      ASchedReceive, ASchedLen, ASchedSend 0 0, ASchedRequeue,
      AColScan (inactivityTimeout + 1) f, AColLoad, AColRead,
      ATunRead (Inr p2),
      AColDelStream, AColDelInteraction,
      ATunStore (inactivityTimeout + 1) 0, ATunSend,
      ASchedReceive, ASchedLen, ASchedSend 0 0, ASchedRequeue]"

text \<open>With multi streams, \<open>CollectUnused\<close> and \<open>ListenTun\<close> race. A packet of a flow that is being
  collected can find the flow still listed and record its time after the collector has deleted the
  stream: the packet is dropped, and every goroutine is back at the start of its loop with a flow
  that is listed as active but has no stream.\<close>

theorem collector_race_drops_packets:
  assumes "env_works env" "Multi_streams env" "FindFlow env p1 = Inr f" "FindFlow env p2 = Inr f" "p1 \<noteq> []" "p2 \<noteq> []"
  shows "\<exists>st. tx_reachable env st \<and> mapInteraction st f \<noteq> None \<and> mapQuicStream st f = None
              \<and> map packet (sent st) = [p1, p2] \<and> (\<exists>s. fates st = [Written s, NoStream])
              \<and> tunPc st = TunRead \<and> schedPc st = SchedReceive \<and> colPc st = ColScan"
proof -
  obtain s where s: "OpenStream env 0 = Inr s" "WriteError env = (\<lambda>_. None)"
    and eq: "\<forall>a b. flow a = flow b \<longrightarrow> \<not> schedule_less env a b"
    by (rule env_worksE [OF assms(1)])
  show ?thesis
    by (rule exec_all_reaches [OF _ tx_reachable.start, where env = env and as = "race_schedule p1 p2 f"])
       (simp add: race_schedule_def NewTransmitter_def run_simps assms(2-) s eq queueCapacity_def
          inactivityTimeout_def)
qed

theorem collector_race_drops_packets_witness:
  "\<exists>st. tx_reachable demo_env st \<and> mapInteraction st 7 \<noteq> None \<and> mapQuicStream st 7 = None
        \<and> map packet (sent st) = [[7, 1], [7, 2]] \<and> (\<exists>s. fates st = [Written s, NoStream])
        \<and> tunPc st = TunRead \<and> schedPc st = SchedReceive \<and> colPc st = ColScan"
proof -
  have "FindFlow demo_env [7, 1] = Inr 7" "FindFlow demo_env [7, 2] = Inr 7"
    by (simp_all add: demo_FindFlow)
  then show ?thesis
    by (intro collector_race_drops_packets [OF demo_env_works(1)]) (simp_all add: demo_env_def)
qed

definition closed_schedule :: "byte list \<Rightarrow> byte list \<Rightarrow> 'f \<Rightarrow> 'f Action list" where
  "closed_schedule p1 p2 f =
     [ATunRead (Inr p1), ATunOpen, ATunStore 0 0, ATunSend,
      ASchedReceive, ASchedLen, ASchedSend 0 0, ASchedRequeue,
      AColScan (inactivityTimeout + 1) f, AColLoad,
      ATunRead (Inr p2), ATunStore (inactivityTimeout + 1) 0, ATunSend,
      ASchedReceive, ASchedLen, ASchedSend 0 0]"

text \<open>And while the collector waits for the peer in its \<open>Read\<close>, the stream that it closed is still in the map: a packet of the
  flow is written to it, the error is ignored, and the packet is lost.\<close>

theorem closed_stream_loses_packets:
  assumes "env_works env" "Multi_streams env" "FindFlow env p1 = Inr f" "FindFlow env p2 = Inr f" "p1 \<noteq> []" "p2 \<noteq> []"
  shows "\<exists>st. tx_reachable env st \<and> map packet (sent st) = [p1, p2]
              \<and> (\<exists>s. fates st = [Written s, Lost s errWriteClosed] \<and> mapQuicStream st f = Some s)"
proof -
  obtain s where s: "OpenStream env 0 = Inr s" "WriteError env = (\<lambda>_. None)"
    and eq: "\<forall>a b. flow a = flow b \<longrightarrow> \<not> schedule_less env a b"
    by (rule env_worksE [OF assms(1)])
  show ?thesis
    by (rule exec_all_reaches [OF _ tx_reachable.start, where env = env and as = "closed_schedule p1 p2 f"])
       (simp add: closed_schedule_def NewTransmitter_def run_simps assms(2-) s eq queueCapacity_def
          inactivityTimeout_def)
qed

theorem closed_stream_loses_packets_witness:
  "\<exists>st. tx_reachable demo_env st \<and> map packet (sent st) = [[7, 1], [7, 2]]
        \<and> (\<exists>s. fates st = [Written s, Lost s errWriteClosed] \<and> mapQuicStream st 7 = Some s)"
proof -
  have "FindFlow demo_env [7, 1] = Inr 7" "FindFlow demo_env [7, 2] = Inr 7"
    by (simp_all add: demo_FindFlow)
  then show ?thesis
    by (intro closed_stream_loses_packets [OF demo_env_works(1)]) (simp_all add: demo_env_def)
qed

text \<open>In such a state the flow gets no stream as long as it stays active.\<close>

lemma listed_flow_opens_no_stream:
  assumes "FindFlow env p = Inr f" "Multi_streams env" "mapInteraction st f = Some t"
  shows "ListenTun_read env (Inr p) st = st\<lparr>tunPc := TunStore f p\<rparr>"
  using assms by (simp add: ListenTun_read_def)

subsection \<open>The deadlock\<close>

lemma fill_queue:
  assumes "FindFlow env p = Inr f" "\<not> Multi_streams env"
    and "tx_reachable env st" "tunPc st = TunRead" "mapInteraction st (Flow0 env) \<noteq> None"
    and "length (toSendQueue st) + k \<le> queueCapacity"
  shows "\<exists>st'. tx_reachable env st' \<and> tunPc st' = TunRead \<and> mapInteraction st' (Flow0 env) \<noteq> None
               \<and> length (toSendQueue st') = length (toSendQueue st) + k
               \<and> schedPc st' = schedPc st \<and> sent st' = sent st \<and> colPc st' = colPc st"
  using assms(6)
proof (induction k)
  case 0
  then show ?case using assms by auto
next
  case (Suc k)
  then obtain st1 where st1: "tx_reachable env st1" "tunPc st1 = TunRead"
    "mapInteraction st1 (Flow0 env) \<noteq> None" "length (toSendQueue st1) = length (toSendQueue st) + k"
    "schedPc st1 = schedPc st" "sent st1 = sent st" "colPc st1 = colPc st"
    by auto
  have "length (toSendQueue st1) < queueCapacity" using Suc.prems st1(4) by simp
  then have "\<exists>st2. tx_reachable env st2 \<and> tunPc st2 = TunRead
      \<and> mapInteraction st2 (Flow0 env) \<noteq> None
      \<and> length (toSendQueue st2) = length (toSendQueue st1) + 1
      \<and> schedPc st2 = schedPc st1 \<and> sent st2 = sent st1 \<and> colPc st2 = colPc st1"
    using st1(1-3) assms(1,2)
    by (intro exec_all_reaches [OF _ st1(1), where as = "[ATunRead (Inr p), ATunStore 0 0, ATunSend]"])
       (auto simp: run_read_single run_store run_send)
  then show ?case using st1 by auto
qed

definition two_taken_schedule :: "byte list \<Rightarrow> 'f Action list" where
  "two_taken_schedule p =
     [ATunRead (Inr p), ATunOpen, ATunStore 0 0, ATunSend, ATunRead (Inr p), ATunStore 0 0, ATunSend,
      ASchedReceive, ASchedLen, ASchedCount, ASchedTake, ASchedTake, ASchedSend 0 0]"

text \<open>The sending half of the VPN can deadlock: the scheduler, the only reader of the channel,
  also writes to it, and blocks for ever when \<open>ListenTun\<close> filled the channel while the scheduler held
  packets. Such a state is reachable without multi streams, and no step is possible from it, so no
  packet is ever sent again.\<close>

theorem transmitter_deadlock:
  assumes "env_works env" "\<not> Multi_streams env" "FindFlow env p = Inr f" "p \<noteq> []"
  shows "\<exists>st. tx_reachable env st \<and> length (toSendQueue st) = 1000 \<and> length (sent st) = 1
              \<and> (\<forall>st'. \<not> tx_step env st st')"
proof -
  obtain s where s: "OpenStream env 0 = Inr s" "WriteError env = (\<lambda>_. None)"
    and eq: "\<forall>a b. flow a = flow b \<longrightarrow> \<not> schedule_less env a b"
    by (rule env_worksE [OF assms(1)])
  have "\<exists>st. tx_reachable env st \<and> tunPc st = TunRead \<and> mapInteraction st (Flow0 env) \<noteq> None
             \<and> toSendQueue st = [] \<and> (\<exists>w. schedPc st = SchedRequeue [w]) \<and> length (sent st) = 1
             \<and> colPc st = ColScan"
    by (rule exec_all_reaches [OF _ tx_reachable.start, where env = env and as = "two_taken_schedule p"])
       (simp add: two_taken_schedule_def NewTransmitter_def run_simps assms(2-4) s eq queueCapacity_def)
  then obtain st1 w where st1: "tx_reachable env st1" "tunPc st1 = TunRead"
      "mapInteraction st1 (Flow0 env) \<noteq> None" "toSendQueue st1 = []" "length (sent st1) = 1"
      "schedPc st1 = SchedRequeue [w]" "colPc st1 = ColScan"
    by blast
  obtain st2 where st2: "tx_reachable env st2" "tunPc st2 = TunRead"
      "mapInteraction st2 (Flow0 env) \<noteq> None" "length (toSendQueue st2) = queueCapacity"
      "schedPc st2 = SchedRequeue [w]" "length (sent st2) = 1" "colPc st2 = ColScan"
    using fill_queue [OF assms(3,2) st1(1-3), of queueCapacity] st1 by auto
  have "\<exists>st3. tx_reachable env st3 \<and> (\<exists>a. tunPc st3 = TunSend a)
      \<and> length (toSendQueue st3) = queueCapacity
      \<and> schedPc st3 = SchedRequeue [w] \<and> length (sent st3) = 1 \<and> colPc st3 = ColScan"
    using st2 assms(2,3)
    by (intro exec_all_reaches [OF _ st2(1), where as = "[ATunRead (Inr p), ATunStore 0 0]"])
       (auto simp: run_read_single run_store)
  then obtain st3 a where st3: "tx_reachable env st3" "tunPc st3 = TunSend a"
      "length (toSendQueue st3) = queueCapacity" "schedPc st3 = SchedRequeue [w]"
      "length (sent st3) = 1" "colPc st3 = ColScan"
    by blast
  have "\<not> tx_step env st3 st'" for st'
    using st3 assms(2)
    by (auto elim!: tx_step.cases
             simp: ListenTun_send_def SchedulePackets_requeue_def CollectUnused_scan_def)
  then show ?thesis using st3 by (auto simp: queueCapacity_def)
qed

theorem transmitter_deadlock_witness:
  "\<exists>st. tx_reachable demo_single st \<and> length (toSendQueue st) = 1000 \<and> length (sent st) = 1
        \<and> (\<forall>st'. \<not> tx_step demo_single st st')"
  by (rule transmitter_deadlock [OF demo_env_works(2) _ demo_FindFlow(2) [of 7 "[]"]])
     (simp_all add: demo_single_def)

text \<open>Witnesses of the invariants, on the schedules above.\<close>

lemma two_sent_reachable:
  assumes "env_works env" "\<not> Multi_streams env" "FindFlow env p = Inr f" "FindFlow env q = Inr g" "p \<noteq> []" "q \<noteq> []"
  shows "\<exists>st. tx_reachable env st \<and> map packet (sent st) = [p, q]"
proof -
  obtain s where s: "OpenStream env 0 = Inr s" "WriteError env = (\<lambda>_. None)"
    and eq: "\<forall>a b. flow a = flow b \<longrightarrow> \<not> schedule_less env a b"
    by (rule env_worksE [OF assms(1)])
  show ?thesis
    by (rule exec_all_reaches [OF _ tx_reachable.start, where env = env and as =
          "[ATunRead (Inr p), ATunOpen, ATunStore 0 0, ATunSend, ATunRead (Inr q), ATunStore 0 0,
            ATunSend, ASchedReceive, ASchedLen, ASchedCount, ASchedTake, ASchedTake, ASchedSend 0 0, ASchedRequeue,
            ASchedRequeue, ASchedReceive, ASchedLen, ASchedSend 0 0]"])
       (simp add: NewTransmitter_def run_simps s eq assms(2-) queueCapacity_def)
qed

lemma reorder_reachable:
  "\<exists>st. tx_reachable demo_single st \<and> map packet (sent st) = [[1], [3]]"
  by (rule two_sent_reachable [OF demo_env_works(2) _ demo_FindFlow(2) demo_FindFlow(2)])
     (simp_all add: demo_single_def)


theorem single_stream_delivers_witness:
  "\<exists>st :: (nat, nat) TxState. map packet (sent st) = [[1], [3]] \<and> NoStream \<notin> set (fates st)"
proof -
  obtain st where st: "tx_reachable demo_single st" "map packet (sent st) = [[1], [3]]"
    using reorder_reachable by (elim exE conjE)
  have "\<not> Multi_streams demo_single" by (simp add: demo_single_def)
  then have "NoStream \<notin> set (fates st)" using single_stream_delivers [OF st(1)] by (simp_all only: simp_thms)
  with st(2) show ?thesis by (intro exI [of _ st] conjI)
qed

end
