(* ===== verification/Ssh_Control.thy ===== *)
theory Ssh_Control
  imports Go_Strings
begin

section \<open>Control messages of port forwarding\<close>

text \<open>
  \<^verbatim>\<open>quic_ssh/port_forwarding_control.go\<close> and the addresses of \<^verbatim>\<open>utils.go\<close>. A \<open>net.IP\<close> is its bytes,
  four or sixteen; an IPv4 address crosses the stream inside the prefix 64:ff9b::/96.
\<close>

type_synonym IP = "byte list"

definition V4_TO_V6_PREFIX :: "byte list" where
  "V4_TO_V6_PREFIX = [0, 100, 255, 155, 0, 0, 0, 0, 0, 0, 0, 0]"

definition isV4EncodedInV6 :: "IP \<Rightarrow> bool" where
  "isV4EncodedInV6 remoteIP \<longleftrightarrow> take 12 remoteIP = V4_TO_V6_PREFIX"

definition getV4FromV6 :: "IP \<Rightarrow> IP" where
  "getV4FromV6 remoteIP = map (\<lambda>i. remoteIP ! i) [12..<16]"

definition ipv4to6 :: "IP \<Rightarrow> IP" where
  "ipv4to6 remoteIP = V4_TO_V6_PREFIX @ map (\<lambda>j. remoteIP ! j) [0..<4]"

text \<open>The bytes of one control message, or the error of an address of another length.\<close>

definition writeControlMessage :: "bool \<Rightarrow> uint16 \<Rightarrow> uint16 \<Rightarrow> IP \<Rightarrow> goerr + byte list" where
  "writeControlMessage local localPort remotePort remoteIP =
     (let typeBuffer = (if local then [0x01] else [0x02]);
          lengthBuffer = (if local then [19] else [21]);
          locPoBuffer = be_bytes 2 (unat localPort);
          remPoBuffer = be_bytes 2 (unat remotePort);
          protocolBuffer = [0x06]
      in ebind (if length remoteIP = 4 then Inr (ipv4to6 remoteIP)
                else if length remoteIP = 16 then Inr remoteIP
                else Inl (GoErr ''error with the values passed in argument''))
           (\<lambda>remoteIPV6.
              Inr ((typeBuffer @ lengthBuffer)
                   @ (if local then remPoBuffer else locPoBuffer @ remPoBuffer)
                   @ protocolBuffer @ remoteIPV6)))"

record ControlMessage =
  isLocalPortForwarding :: bool
  localPort :: uint16
  remotePort :: uint16
  remoteIP :: IP

text \<open>A read of the message: every failure of \<open>io.ReadFull\<close> becomes the same error.\<close>

definition ReadField :: "nat \<Rightarrow> byte list reader" where
  "ReadField n r =
     (case ReadFull n r of
        Inl err \<Rightarrow> Inl (GoErr ''error when reading stream'')
      | Inr (b, r') \<Rightarrow> Inr (b, r'))"

text \<open>
  The check of the length field sets \<open>err\<close> without returning, and the next read sets it anew: its
  outcome, \<open>lengthErr\<close>, is never used.
\<close>

definition readControlMessage :: "ControlMessage reader" where
  "readControlMessage r =
     rbind (ReadField 1 r) (\<lambda>typeBuffer r.
       if typeBuffer ! 0 = 0x01 \<or> typeBuffer ! 0 = 0x02 then
         let isLocal = (typeBuffer ! 0 = 0x01) in
         rbind (ReadField 1 r) (\<lambda>lengthBuffer r.
           let lengthErr = (lengthBuffer ! 0 \<noteq> 19 \<and> isLocal) \<or> (lengthBuffer ! 0 \<noteq> 21 \<and> \<not> isLocal) in
           rbind (if isLocal then Inr ([0, 0], r) else ReadField 2 r) (\<lambda>localPortBuffer r.
           rbind (ReadField 2 r) (\<lambda>remotePortBuffer r.
           rbind (ReadField 1 r) (\<lambda>protocolBuffer r.
           rbind (ReadField 16 r) (\<lambda>remoteIPBuffer r.
             Inr (\<lparr>isLocalPortForwarding = isLocal,
                   localPort = of_nat (be_nat localPortBuffer),
                   remotePort = of_nat (be_nat remotePortBuffer),
                   remoteIP = (if isV4EncodedInV6 remoteIPBuffer then getV4FromV6 remoteIPBuffer
                               else remoteIPBuffer)\<rparr>, r))))))
       else Inl (GoErr ''error with the values read on the stream''))"

subsection \<open>Round trip\<close>

lemma upt_four: "[0..<4] = [0, 1, 2, 3::nat]" "[12..<16] = [12, 13, 14, 15::nat]"
  by (simp_all add: upt_rec)

lemma list_of_length_4: "length xs = 4 \<Longrightarrow> map (\<lambda>j. xs ! j) [0..<4] = xs"
  by (metis map_nth)

lemma length_ipv4to6 [simp, sizes]: "length (ipv4to6 ip) = 16"
  by (simp add: ipv4to6_def V4_TO_V6_PREFIX_def)

lemma V4_embedding [codec]:
  assumes "length ip = 4"
  shows "isV4EncodedInV6 (ipv4to6 ip)" "getV4FromV6 (ipv4to6 ip) = ip"
proof -
  have len: "length V4_TO_V6_PREFIX = 12" by (simp add: V4_TO_V6_PREFIX_def)
  then show "isV4EncodedInV6 (ipv4to6 ip)"
    by (simp add: isV4EncodedInV6_def ipv4to6_def)
  have "getV4FromV6 (V4_TO_V6_PREFIX @ ip) = map (\<lambda>j. ip ! j) [0..<4]"
    using len by (simp add: getV4FromV6_def upt_four nth_append)
  then show "getV4FromV6 (ipv4to6 ip) = ip"
    using assms by (simp add: ipv4to6_def list_of_length_4)
qed

lemma ReadField_append [codec]: "length bs = n \<Longrightarrow> ReadField n (bs @ r) = Inr (bs, r)"
  by (simp add: ReadField_def ReadFull_append)

lemma ReadField_one: "ReadField (Suc 0) (b # r) = Inr ([b], r)"
  using ReadField_append [of "[b]" 1 r] by simp

lemma port_roundtrip [simp]: "of_nat (unat (p :: uint16) mod 65536) = p"
  using unsigned_less [of p, where 'a = nat] by simp

text \<open>The address the receiver gets: an IPv6 address inside the IPv4 prefix comes out as IPv4.\<close>

definition received_ip :: "IP \<Rightarrow> IP" where
  "received_ip ip = (if length ip = 16 \<and> isV4EncodedInV6 ip then getV4FromV6 ip else ip)"

text \<open>A control message that is written is read back, with whatever follows it on the stream
  left unread: the kind of request, the remote port, the address, and the local port when the
  request is a remote one. IPv4 and IPv6 addresses survive, save that an IPv6 address in 64:ff9b::/96
  comes out as the IPv4 address inside it.\<close>

theorem control_message_roundtrip:
  assumes "writeControlMessage isLocal lp rp ip = Inr bs"
  shows "readControlMessage (bs @ r)
         = Inr (\<lparr>isLocalPortForwarding = isLocal, localPort = (if isLocal then 0 else lp),
                 remotePort = rp, remoteIP = received_ip ip\<rparr>, r)
         \<and> length bs = (if isLocal then 21 else 23)"
proof -
  define ip6 where "ip6 = (if length ip = 4 then ipv4to6 ip else ip)"
  have ip6: "length ip6 = 16"
    and dec: "(if isV4EncodedInV6 ip6 then getV4FromV6 ip6 else ip6) = received_ip ip"
    and bs: "bs = (if isLocal then [0x01, 19] else [0x02, 21])
                  @ (if isLocal then [] else be_bytes 2 (unat lp)) @ be_bytes 2 (unat rp)
                  @ [0x06] @ ip6"
    using assms V4_embedding [of ip]
    by (auto simp: writeControlMessage_def Let_def ebind_Inr_iff received_ip_def ip6_def
             split: if_splits)
  have two: "ReadField 2 (be_bytes 2 x @ s) = Inr (be_bytes 2 x, s)" for x s
    by (rule ReadField_append) simp
  have ip: "ReadField 16 (ip6 @ s) = Inr (ip6, s)" for s
    by (rule ReadField_append [OF ip6])
  show ?thesis
    using ip6 dec two ip by (cases isLocal) (simp_all add: bs readControlMessage_def ReadField_one del: be_bytes.simps)
qed

text \<open>The length field of a control message is not checked: a message with any length byte is
  read as the message with the right one.\<close>

theorem control_length_ignored:
  "readControlMessage (t # l # r) = readControlMessage (t # l' # r)"
  by (simp add: readControlMessage_def ReadField_one)

theorem control_message_roundtrip_witness:
  "\<exists>bs. writeControlMessage False 8080 80 [192, 168, 0, 1] = Inr bs
        \<and> readControlMessage (bs @ [7])
          = Inr (\<lparr>isLocalPortForwarding = False, localPort = 8080, remotePort = 80,
                  remoteIP = [192, 168, 0, 1]\<rparr>, [7])"
proof -
  obtain bs where "writeControlMessage False 8080 80 [192, 168, 0, 1] = Inr bs"
    by (simp add: writeControlMessage_def)
  with control_message_roundtrip [OF this, of "[7]"] show ?thesis by (simp add: received_ip_def)
qed

subsection \<open>Addresses as text\<close>

definition hex_digit :: "nat \<Rightarrow> char" where
  "hex_digit n = (if n < 10 then char_of (48 + n) else char_of (87 + n))"

text \<open>\<open>fmt.Sprintf("%02x", int(b))\<close> of a byte.\<close>

definition hex2 :: "byte \<Rightarrow> string" where
  "hex2 b = [hex_digit (unat b div 16), hex_digit (unat b mod 16)]"

definition ipToString :: "IP \<Rightarrow> string" where
  "ipToString ip =
     (if length ip \<noteq> 4 \<and> length ip \<noteq> 16 then ''''
      else if length ip = 4
      then Itoa (int (unat (ip ! 0))) @ ''.'' @ Itoa (int (unat (ip ! 1))) @ ''.''
           @ Itoa (int (unat (ip ! 2))) @ ''.'' @ Itoa (int (unat (ip ! 3)))
      else ''['' @ foldl (\<lambda>result i. result @ '':'' @ hex2 (ip ! i) @ hex2 (ip ! (i + 1)))
                     (hex2 (ip ! 0) @ hex2 (ip ! 1)) [2, 4, 6, 8, 10, 12, 14] @ '']'')"

text \<open>\<open>encodeInt\<close> and \<open>decodeInt\<close> of the SSH program are little-endian.\<close>

definition ssh_encodeInt :: "int \<Rightarrow> byte list" where
  "ssh_encodeInt val = rev (be_bytes 4 (nat (val mod 2 ^ 32)))"

definition ssh_decodeInt :: "byte list \<Rightarrow> goerr + int" where
  "ssh_decodeInt bytes =
     (if length bytes < 4 then Inl (Panic ''index out of range'')
      else Inr (int (be_nat (rev (take 4 bytes)))))"

lemma ssh_decodeInt_encodeInt [codec]:
  "0 \<le> val \<Longrightarrow> val < 2 ^ 32 \<Longrightarrow> ssh_decodeInt (ssh_encodeInt val) = Inr val"
  by (simp add: ssh_decodeInt_def ssh_encodeInt_def)

lemma hex_digit_inj: "n < 16 \<Longrightarrow> m < 16 \<Longrightarrow> hex_digit n = hex_digit m \<Longrightarrow> n = m"
proof -
  assume "n < 16" "m < 16" and eq: "hex_digit n = hex_digit m"
  have "(of_char (hex_digit k) :: nat) = (if k < 10 then 48 + k else 87 + k)" if "k < 16" for k
    using that by (simp add: hex_digit_def)
  then have "(if n < 10 then 48 + n else 87 + n) = (if m < 10 then 48 + m else 87 + m)"
    using \<open>n < 16\<close> \<open>m < 16\<close> eq by metis
  then show "n = m" using \<open>n < 16\<close> \<open>m < 16\<close> by presburger
qed

lemma hex2_inj: "hex2 a = hex2 b \<Longrightarrow> a = b"
proof -
  assume "hex2 a = hex2 b"
  moreover have "unat a div 16 < 16" "unat b div 16 < 16"
    using unat_lt_256 [of a] unat_lt_256 [of b] by linarith+
  ultimately have "unat a div 16 = unat b div 16" "unat a mod 16 = unat b mod 16"
    by (auto simp: hex2_def intro: hex_digit_inj)
  then have "unat a = unat b" by (metis div_mult_mod_eq)
  then show "a = b" by (simp add: word_unat_eq_iff)
qed

end
