(* ===== verification/Ssh_Args.thy ===== *)
theory Ssh_Args
  imports Ssh_Control
begin

section \<open>Command line of the SSH program\<close>

text \<open>
  \<^verbatim>\<open>quic_ssh/arguments_parser.go\<close> and \<open>resolveHostname\<close> of \<^verbatim>\<open>utils.go\<close>. Outside of the tests, \<open>usage\<close>
  prints its message and exits: that is the result \<open>Inl (GoErr message)\<close>. An argument that is
  missing at the end of \<open>os.Args\<close> is an index out of range. Name resolution is the parameter
  \<open>LookupIP\<close>.
\<close>

record SSHConfig =
  bufSize :: int
  pubKeyFile :: string
  privKeyFile :: string
  authorizedPublicKeysFile :: string
  username :: string
  password :: string
  listen :: bool
  hostname :: string
  port :: int
  localPortForwarding :: bool
  remotePortForwarding :: bool
  onlyForwardPort :: bool
  confLocalPort :: uint16
  confRemotePort :: uint16
  confRemoteIP :: IP

definition SSHConfig0 :: SSHConfig where
  "SSHConfig0 = \<lparr>bufSize = 0, pubKeyFile = '''', privKeyFile = '''', authorizedPublicKeysFile = '''',
     username = '''', password = '''', listen = False, hostname = '''', port = 0,
     localPortForwarding = False, remotePortForwarding = False, onlyForwardPort = False,
     confLocalPort = 0, confRemotePort = 0, confRemoteIP = []\<rparr>"

subsection \<open>Addresses\<close>

text \<open>\<open>net.IP.To4\<close> and \<open>net.IP.To16\<close> of the standard library; \<open>None\<close> is \<open>nil\<close>.\<close>

definition v4InV6Prefix :: "byte list" where
  "v4InV6Prefix = [0, 0, 0, 0, 0, 0, 0, 0, 0, 0, 255, 255]"

definition To4 :: "IP \<Rightarrow> IP option" where
  "To4 ip = (if length ip = 4 then Some ip
             else if length ip = 16 \<and> take 12 ip = v4InV6Prefix then Some (drop 12 ip)
             else None)"

definition To16 :: "IP \<Rightarrow> IP option" where
  "To16 ip = (if length ip = 4 then Some (v4InV6Prefix @ ip)
              else if length ip = 16 then Some ip else None)"

fun resolve_loop :: "IP option \<Rightarrow> IP option \<Rightarrow> IP list \<Rightarrow> IP option \<times> IP option" where
  "resolve_loop firstV4 firstV6 [] = (firstV4, firstV6)"
| "resolve_loop firstV4 firstV6 (ip # ips) =
     (if firstV4 = None \<or> firstV6 = None then
        if To4 ip \<noteq> None \<and> firstV4 = None then resolve_loop (To4 ip) firstV6 ips
        else if To16 ip \<noteq> None \<and> firstV6 = None then resolve_loop firstV4 (To16 ip) ips
        else resolve_loop firstV4 firstV6 ips
      else (firstV4, firstV6))"

definition resolveHostname :: "(string \<Rightarrow> goerr + IP list) \<Rightarrow> string \<Rightarrow> goerr + IP option" where
  "resolveHostname LookupIP name =
     (case LookupIP name of
        Inl err \<Rightarrow> Inl (GoErr ''error when trying to resolve hostname'')
      | Inr ips \<Rightarrow>
          if length ips = 0 then Inl (GoErr ''error when trying to resolve hostname'')
          else (case resolve_loop None None ips of
                  (firstV4, firstV6) \<Rightarrow> Inr (if firstV6 \<noteq> None then firstV6 else firstV4)))"

subsection \<open>Arguments\<close>

definition Arg :: "string list \<Rightarrow> nat \<Rightarrow> goerr + string" where
  "Arg Args i = (if i < length Args then Inr (Args ! i) else Inl (Panic ''index out of range''))"

definition usage :: "string \<Rightarrow> goerr + 'a" where
  "usage message = Inl (GoErr message)"

definition stripBrackets :: "string \<Rightarrow> string" where
  "stripBrackets s =
     (if s \<noteq> [] \<and> s ! 0 = CHR ''['' \<and> s ! (length s - 1) = CHR '']''
      then take (length s - 2) (drop 1 s) else s)"

text \<open>
  The part that \<open>-L\<close> and \<open>-R\<close> share: the first and the last part of the argument are ports, what is
  between them is the host. \<open>uint16(val)\<close> takes the port modulo 65536.
\<close>

definition parseForwarding ::
  "(string \<Rightarrow> goerr + IP list) \<Rightarrow> string \<Rightarrow> SSHConfig \<Rightarrow> goerr + SSHConfig" where
  "parseForwarding LookupIP arg conf =
     (let str = Split (CHR '':'') arg;
          first = str ! 0; lst = str ! (length str - 1)
      in case Atoi first of
           Inl err \<Rightarrow> usage ''Local port not correct. Should be integer.''
         | Inr val1 \<Rightarrow>
             (case Atoi lst of
                Inl err \<Rightarrow> usage ''Remote port not correct. Should be integer.''
              | Inr val2 \<Rightarrow>
                  let lo = length first + 1;
                      hostnameStr = stripBrackets
                        (take (length arg - (length lst + 1) - lo) (drop lo arg))
                  in case resolveHostname LookupIP hostnameStr of
                       Inl err \<Rightarrow> usage ''Remote hostname cannot be resolved.''
                     | Inr ip \<Rightarrow>
                         Inr (conf\<lparr>confLocalPort := of_int val1, confRemotePort := of_int val2,
                                   confRemoteIP := (case ip of None \<Rightarrow> [] | Some a \<Rightarrow> a)\<rparr>)))"

definition parseOneArgument ::
  "(string \<Rightarrow> goerr + IP list) \<Rightarrow> string list \<Rightarrow> SSHConfig \<Rightarrow> nat \<Rightarrow> string list \<Rightarrow>
   goerr + (SSHConfig \<times> string list \<times> nat)" where
  "parseOneArgument LookupIP Args conf i unparsed =
     (let next = Arg Args (i + 1); a = Args ! i in
      if a = ''-b'' then
        ebind next (\<lambda>x. case Atoi x of
          Inl err \<Rightarrow> usage ''Buffer size not correct. Should be integer.''
        | Inr n \<Rightarrow> Inr (conf\<lparr>bufSize := n\<rparr>, unparsed, i + 1))
      else if a = ''-h'' then usage ''''
      else if a = ''-l'' then Inr (conf\<lparr>listen := True\<rparr>, unparsed, i)
      else if a = ''-L'' then
        (if remotePortForwarding conf
         then usage ''Cannot create remote and local port forwarding from a single call''
         else ebind next (\<lambda>x.
           if length (Split (CHR '':'') x) < 3 then usage ''Bad argument for local port forwarding''
           else ebind (parseForwarding LookupIP x (conf\<lparr>localPortForwarding := True\<rparr>))
                  (\<lambda>conf. Inr (conf, unparsed, i + 1))))
      else if a = ''-N'' then Inr (conf\<lparr>onlyForwardPort := True\<rparr>, unparsed, i)
      else if a = ''-R'' then
        (if localPortForwarding conf
         then usage ''Cannot create remote and local port forwarding from a single call''
         else ebind next (\<lambda>x.
           if length (Split (CHR '':'') x) \<noteq> 3 then usage ''Bad argument for remote port forwarding''
           else ebind (parseForwarding LookupIP x (conf\<lparr>remotePortForwarding := True\<rparr>))
                  (\<lambda>conf. Inr (conf, unparsed, i + 1))))
      else if a = ''--priv'' then ebind next (\<lambda>x. Inr (conf\<lparr>privKeyFile := x\<rparr>, unparsed, i + 1))
      else if a = ''--pub'' then ebind next (\<lambda>x. Inr (conf\<lparr>pubKeyFile := x\<rparr>, unparsed, i + 1))
      else if a = ''--req'' then
        ebind next (\<lambda>x. Inr (conf\<lparr>authorizedPublicKeysFile := x\<rparr>, unparsed, i + 1))
      else if a = ''--user'' then ebind next (\<lambda>x. Inr (conf\<lparr>username := x\<rparr>, unparsed, i + 1))
      else if a = ''--pass'' then ebind next (\<lambda>x. Inr (conf\<lparr>password := x\<rparr>, unparsed, i + 1))
      else Inr (conf, unparsed @ [a], i))"

lemma case_usage_iff:
  "(case m of Inl err \<Rightarrow> usage msg | Inr x \<Rightarrow> f x) = Inr y \<longleftrightarrow> (\<exists>x. m = Inr x \<and> f x = Inr y)"
  by (cases m) (simp_all add: usage_def)

lemma parseOneArgument_index:
  "parseOneArgument LookupIP Args conf i unparsed = Inr (conf', unparsed', i') \<Longrightarrow> i \<le> i' \<and> i' \<le> i + 1"
  by (auto simp: parseOneArgument_def Let_def case_usage_iff ebind_Inr_iff usage_def split: if_splits)

function parse_loop ::
  "(string \<Rightarrow> goerr + IP list) \<Rightarrow> string list \<Rightarrow> SSHConfig \<Rightarrow> nat \<Rightarrow> string list \<Rightarrow>
   goerr + (SSHConfig \<times> string list)" where
  "parse_loop LookupIP Args conf index unparsed =
     (if index < length Args then
        (case parseOneArgument LookupIP Args conf index unparsed of
           Inl err \<Rightarrow> Inl err
         | Inr (conf', unparsed', index') \<Rightarrow> parse_loop LookupIP Args conf' (index' + 1) unparsed')
      else Inr (conf, unparsed))"
  by pat_completeness auto

termination
  by (relation "measure (\<lambda>(L, Args, conf, index, unparsed). length Args - index)")
     (auto dest: parseOneArgument_index)

declare parse_loop.simps [simp del]

definition parseArguments ::
  "(string \<Rightarrow> goerr + IP list) \<Rightarrow> string list \<Rightarrow> SSHConfig \<Rightarrow> goerr + SSHConfig" where
  "parseArguments LookupIP Args conf =
     ebind (parse_loop LookupIP Args (conf\<lparr>bufSize := 100000\<rparr>) 1 []) (\<lambda>(conf, unparsed).
       if onlyForwardPort conf \<and> \<not> remotePortForwarding conf \<and> \<not> localPortForwarding conf
       then usage ''Argument -N cannot be used if no port forwarding is requested''
       else
         let conf = (if length unparsed = 2 then conf\<lparr>hostname := unparsed ! 0\<rparr> else conf) in
         ebind (if length unparsed \<ge> 1
                then (case Atoi (unparsed ! (length unparsed - 1)) of
                        Inl err \<Rightarrow> usage ''invalid port value''
                      | Inr p \<Rightarrow> Inr (conf\<lparr>port := p\<rparr>))
                else Inr conf) (\<lambda>conf.
           if length unparsed > 2 then usage ''invalid command''
           else if \<not> listen conf \<and> (hostname conf = '''' \<or> port conf = 0)
           then usage ''In non listen mode you should define an address to connect''
           else if listen conf \<and> (privKeyFile conf = '''' \<or> pubKeyFile conf = '''')
           then usage ''must specify keys for server''
           else Inr conf))"

subsection \<open>Host names\<close>

lemma resolve_loop_member:
  assumes "resolve_loop v4 v6 ips = (a, b)"
    and "\<forall>x. v4 = Some x \<longrightarrow> (\<exists>ip \<in> set all. To4 ip = Some x)"
    and "\<forall>x. v6 = Some x \<longrightarrow> (\<exists>ip \<in> set all. To16 ip = Some x)"
    and "set ips \<subseteq> set all"
  shows "(\<forall>x. a = Some x \<longrightarrow> (\<exists>ip \<in> set all. To4 ip = Some x))
         \<and> (\<forall>x. b = Some x \<longrightarrow> (\<exists>ip \<in> set all. To16 ip = Some x))"
  using assms
proof (induction v4 v6 ips rule: resolve_loop.induct)
  case (2 v4 v6 ip ips)
  then show ?case by (auto split: if_splits)
qed auto

lemma resolve_loop_mono: "v4 \<noteq> None \<or> v6 \<noteq> None \<Longrightarrow> resolve_loop v4 v6 ips \<noteq> (None, None)"
  by (induction v4 v6 ips rule: resolve_loop.induct) auto

lemma resolve_loop_finds:
  "\<exists>ip \<in> set ips. To16 ip \<noteq> None \<Longrightarrow> resolve_loop None None ips \<noteq> (None, None)"
  by (induction ips) (auto simp: resolve_loop_mono)

text \<open>Resolving a host name gives one of the addresses that the name has, as four bytes or as
  sixteen, and gives one whenever the name has an address of four or sixteen bytes at all.\<close>

theorem resolved_address_is_listed:
  assumes "LookupIP name = Inr ips" "\<exists>ip \<in> set ips. To16 ip \<noteq> None"
  shows "\<exists>x. resolveHostname LookupIP name = Inr (Some x)
             \<and> (\<exists>ip \<in> set ips. To4 ip = Some x \<or> To16 ip = Some x)"
proof -
  obtain a b where ab: "resolve_loop None None ips = (a, b)" by fastforce
  have some: "a \<noteq> None \<or> b \<noteq> None" using resolve_loop_finds [OF assms(2)] ab by auto
  have "length ips \<noteq> 0" using assms(2) by auto
  then have res: "resolveHostname LookupIP name = Inr (if b \<noteq> None then b else a)"
    using assms(1) ab by (simp add: resolveHostname_def)
  have mem: "(\<forall>x. a = Some x \<longrightarrow> (\<exists>ip \<in> set ips. To4 ip = Some x))
             \<and> (\<forall>x. b = Some x \<longrightarrow> (\<exists>ip \<in> set ips. To16 ip = Some x))"
    by (rule resolve_loop_member [OF ab]) simp_all
  show ?thesis
  proof (cases b)
    case None
    with some obtain x where "a = Some x" by auto
    with None res mem show ?thesis by auto
  next
    case (Some x)
    with res mem show ?thesis by auto
  qed
qed

definition two_ips :: "string \<Rightarrow> goerr + IP list" where
  "two_ips name = Inr [[10, 0, 0, 1], [10, 0, 0, 2]]"

theorem resolved_address_is_listed_witness:
  "\<exists>x. resolveHostname two_ips ''host'' = Inr (Some x)
       \<and> (\<exists>ip \<in> set [[10, 0, 0, 1], [10, 0, 0, 2]]. To4 ip = Some x \<or> To16 ip = Some x)"
  by (rule resolved_address_is_listed) (simp_all add: two_ips_def To16_def)

text \<open>With two IPv4 addresses it is the second that is taken, as an IPv6 address.\<close>

lemma second_v4_taken:
  "resolveHostname two_ips ''host'' = Inr (Some [0, 0, 0, 0, 0, 0, 0, 0, 0, 0, 255, 255, 10, 0, 0, 2])"
  by (simp add: resolveHostname_def two_ips_def To4_def To16_def v4InV6Prefix_def)

subsection \<open>Forwarding arguments\<close>

definition forwarding_arg :: "nat \<Rightarrow> string \<Rightarrow> nat \<Rightarrow> string" where
  "forwarding_arg lp host rp = decimal lp @ '':'' @ host @ '':'' @ decimal rp"

lemma colon_not_decimal [simp]: "CHR '':'' \<notin> set (decimal n)"
  by (rule decimal_no_char) (rule is_digit_not)

lemma Split_forwarding_arg:
  "Split (CHR '':'') (forwarding_arg lp host rp)
   = decimal lp # Split (CHR '':'') host @ [decimal rp]"
proof -
  have "Split (CHR '':'') (forwarding_arg lp host rp)
      = decimal lp # Split (CHR '':'') (host @ CHR '':'' # decimal rp)"
    by (simp add: forwarding_arg_def Split_append)
  then show ?thesis by (simp add: Split_append_sep)
qed

lemma middle_forwarding_arg:
  "take (length (forwarding_arg lp host rp) - (length (decimal rp) + 1) - (length (decimal lp) + 1))
        (drop (length (decimal lp) + 1) (forwarding_arg lp host rp)) = host"
  by (simp add: forwarding_arg_def)

lemma parseForwarding_arg:
  assumes "lp < 2 ^ 16" "rp < 2 ^ 16" "resolveHostname LookupIP (stripBrackets host) = Inr (Some ip)"
  shows "parseForwarding LookupIP (forwarding_arg lp host rp) conf
         = Inr (conf\<lparr>confLocalPort := of_nat lp, confRemotePort := of_nat rp, confRemoteIP := ip\<rparr>)"
proof -
  let ?str = "Split (CHR '':'') (forwarding_arg lp host rp)"
  have "?str ! 0 = decimal lp" by (simp add: Split_forwarding_arg)
  moreover have "?str ! (length ?str - 1) = decimal rp"
    by (simp add: Split_forwarding_arg nth_append)
  moreover have "Atoi (decimal lp) = Inr (int lp)" "Atoi (decimal rp) = Inr (int rp)"
    using assms by (simp_all add: Atoi_decimal)
  ultimately show ?thesis
    unfolding parseForwarding_def Let_def
    by (simp only: sum.case middle_forwarding_arg assms(3)) simp
qed

text \<open>The command line \<open>quic_ssh -L arg host port\<close>, and the same with \<open>-R\<close>.\<close>

definition forward_command :: "string \<Rightarrow> string \<Rightarrow> string \<Rightarrow> nat \<Rightarrow> string list" where
  "forward_command flag arg name p = [''quic_ssh'', flag, arg, name, decimal p]"

definition option_names :: "string list" where
  "option_names = [''-b'', ''-h'', ''-l'', ''-L'', ''-N'', ''-R'', ''--priv'', ''--pub'', ''--req'',
                   ''--user'', ''--pass'']"

lemma parse_plain_argument:
  assumes "Args ! i \<notin> set option_names"
  shows "parseOneArgument LookupIP Args conf i unparsed = Inr (conf, unparsed @ [Args ! i], i)"
  using assms by (simp add: parseOneArgument_def option_names_def)

lemma decimal_no_option: "decimal n \<notin> set option_names"
proof -
  have "CHR ''-'' \<notin> set (decimal n)" by (rule decimal_no_char) (rule is_digit_not)
  then show ?thesis by (auto simp: option_names_def)
qed

lemma parse_loop_step:
  assumes "index < length Args"
    and "parseOneArgument LookupIP Args conf index unparsed = Inr (conf', unparsed', index')"
  shows "parse_loop LookupIP Args conf index unparsed
         = parse_loop LookupIP Args conf' (index' + 1) unparsed'"
  using assms by (subst parse_loop.simps) simp

lemma parse_loop_plain:
  assumes "index < length Args" "Args ! index \<notin> set option_names"
  shows "parse_loop LookupIP Args conf index u
         = parse_loop LookupIP Args conf (Suc index) (u @ [Args ! index])"
  using parse_loop_step [OF assms(1) parse_plain_argument [OF assms(2)]] by simp

lemma parse_loop_error:
  assumes "index < length Args" "parseOneArgument LookupIP Args conf index unparsed = Inl err"
  shows "parse_loop LookupIP Args conf index unparsed = Inl err"
  using assms by (subst parse_loop.simps) simp

lemma parse_loop_end: "length Args \<le> index \<Longrightarrow> parse_loop LookupIP Args conf index u = Inr (conf, u)"
  by (subst parse_loop.simps) simp

lemma length_forwarding_parts: "3 \<le> length (Split (CHR '':'') (forwarding_arg lp host rp))"
  using length_Split [of "CHR '':''" host] by (simp add: Split_forwarding_arg)

lemma parse_local_forwarding:
  assumes "lp < 2 ^ 16" "rp < 2 ^ 16" "resolveHostname LookupIP (stripBrackets host) = Inr (Some ip)"
    and "Args ! i = ''-L''" "Args ! Suc i = forwarding_arg lp host rp" "Suc i < length Args"
    and "\<not> remotePortForwarding conf"
  shows "parseOneArgument LookupIP Args conf i u
         = Inr (conf\<lparr>localPortForwarding := True, confLocalPort := of_nat lp,
                     confRemotePort := of_nat rp, confRemoteIP := ip\<rparr>, u, Suc i)"
proof -
  have "\<not> length (Split (CHR '':'') (forwarding_arg lp host rp)) < 3"
    using length_forwarding_parts [of lp host rp] by linarith
  then show ?thesis using assms
    by (simp add: parseOneArgument_def Arg_def parseForwarding_arg)
qed

text \<open>Local port forwarding is understood as documented: \<open>quic_ssh -L local:host:remote server
  port\<close> gives a configuration with these ports, the resolved address of the host and the server to
  contact, for any host text, an IPv6 address in brackets among them, and any ports.\<close>

theorem local_forward_command:
  assumes "lp < 2 ^ 16" "rp < 2 ^ 16" "resolveHostname LookupIP (stripBrackets host) = Inr (Some ip)"
    and "0 < p" "p < 2 ^ 63" "name \<noteq> ''''" "name \<notin> set option_names"
  shows "parseArguments LookupIP (forward_command ''-L'' (forwarding_arg lp host rp) name p) SSHConfig0
         = Inr (SSHConfig0\<lparr>bufSize := 100000, hostname := name, port := int p,
                  localPortForwarding := True, confLocalPort := of_nat lp,
                  confRemotePort := of_nat rp, confRemoteIP := ip\<rparr>)"
proof -
  let ?A = "forward_command ''-L'' (forwarding_arg lp host rp) name p"
  let ?c0 = "SSHConfig0\<lparr>bufSize := 100000\<rparr>"
  let ?c1 = "?c0\<lparr>localPortForwarding := True, confLocalPort := of_nat lp,
                confRemotePort := of_nat rp, confRemoteIP := ip\<rparr>"
  have "parseOneArgument LookupIP ?A ?c0 (Suc 0) [] = Inr (?c1, [], Suc (Suc 0))"
    by (rule parse_local_forwarding [OF assms(1-3)]) (simp_all add: forward_command_def SSHConfig0_def)
  then have "parse_loop LookupIP ?A ?c0 (Suc 0) [] = parse_loop LookupIP ?A ?c1 (Suc (Suc (Suc 0))) []"
    by (subst parse_loop_step) (simp_all add: forward_command_def)
  also have "\<dots> = parse_loop LookupIP ?A ?c1 (Suc (Suc (Suc (Suc 0)))) [name]"
    using assms(7) by (subst parse_loop_plain) (simp_all add: forward_command_def)
  also have "\<dots> = parse_loop LookupIP ?A ?c1 (Suc (Suc (Suc (Suc (Suc 0))))) [name, decimal p]"
    using decimal_no_option [of p] by (subst parse_loop_plain) (simp_all add: forward_command_def)
  also have "\<dots> = Inr (?c1, [name, decimal p])"
    by (rule parse_loop_end) (simp add: forward_command_def)
  finally show ?thesis
    using assms(4-6) Atoi_decimal [OF assms(5)] by (simp add: parseArguments_def SSHConfig0_def)
qed

definition one_ip :: "string \<Rightarrow> goerr + IP list" where
  "one_ip name = (if name = ''::1'' then Inr [[0,0,0,0,0,0,0,0,0,0,0,0,0,0,0,1]] else Inl EOF)"

theorem local_forward_command_witness:
  "parseArguments one_ip (forward_command ''-L'' (forwarding_arg 8080 ''[::1]'' 80) ''srv'' 4433) SSHConfig0
   = Inr (SSHConfig0\<lparr>bufSize := 100000, hostname := ''srv'', port := 4433,
            localPortForwarding := True, confLocalPort := 8080, confRemotePort := 80,
            confRemoteIP := [0,0,0,0,0,0,0,0,0,0,0,0,0,0,0,1]\<rparr>)"
  using local_forward_command [of 8080 80 one_ip "''[::1]''" "[0,0,0,0,0,0,0,0,0,0,0,0,0,0,0,1]" 4433
      "''srv''"]
  by (simp add: stripBrackets_def one_ip_def resolveHostname_def To4_def To16_def v4InV6Prefix_def
      option_names_def)

text \<open>Remote port forwarding does not accept what local port forwarding accepts: an IPv6 address
  as the host, with or without brackets, is refused, because the argument then has more than three
  parts, although the code that strips brackets follows.\<close>

theorem remote_forward_refuses_ipv6:
  assumes "CHR '':'' \<in> set host"
  shows "parseArguments LookupIP (forward_command ''-R'' (forwarding_arg lp host rp) name p) SSHConfig0
         = Inl (GoErr ''Bad argument for remote port forwarding'')"
proof -
  let ?A = "forward_command ''-R'' (forwarding_arg lp host rp) name p"
  have "filter (\<lambda>x. x = CHR '':'') host \<noteq> []" using assms by (simp add: filter_empty_conv)
  then have "length (Split (CHR '':'') (forwarding_arg lp host rp)) \<noteq> 3"
    by (simp add: Split_forwarding_arg length_Split)
  then have "parseOneArgument LookupIP ?A (SSHConfig0\<lparr>bufSize := 100000\<rparr>) 1 []
             = Inl (GoErr ''Bad argument for remote port forwarding'')"
    by (simp add: parseOneArgument_def forward_command_def Arg_def usage_def SSHConfig0_def)
  then have "parse_loop LookupIP ?A (SSHConfig0\<lparr>bufSize := 100000\<rparr>) 1 []
             = Inl (GoErr ''Bad argument for remote port forwarding'')"
    by (rule parse_loop_error [rotated]) (simp add: forward_command_def)
  then show ?thesis by (simp add: parseArguments_def)
qed

theorem remote_forward_refuses_ipv6_witness:
  "parseArguments one_ip (forward_command ''-R'' (forwarding_arg 8080 ''[::1]'' 80) ''srv'' 4433) SSHConfig0
   = Inl (GoErr ''Bad argument for remote port forwarding'')"
  by (rule remote_forward_refuses_ipv6) simp

end
