(* ===== verification/Client_Auth.thy ===== *)
theory Client_Auth
  imports Prelude
begin

section \<open>Authentication of clients\<close>

text \<open>
  \<^verbatim>\<open>quic_utils/client_auth.go\<close> and its users \<^verbatim>\<open>quic_vpn/server.go\<close> and \<^verbatim>\<open>quic_ssh\<close>: the server sends
  a nonce, the client answers with a nonce of its own, its public key and a signature over both
  nonces and the connection identifier.

  The cryptography of the standard library is the record \<open>Crypto\<close>. What a reader sees of a stream
  is a list of batches: the bytes that are there when \<open>Read\<close> is called, of which it returns as many
  as fit, then those that are there at the next call, and so on. A batch that is followed by the end of the
  stream, or by an error of it, says so; \<open>Read\<close> (\<^verbatim>\<open>receive_stream.go\<close>) returns that together with the
  last of the bytes. FIN bits and errors that come on their own are batches without bytes. Reading goes on for ever
  at the end: the empty list is a stream whose FIN was read.
\<close>

subsection \<open>Keys\<close>

record PublicKey =
  N :: int
  E :: int

text \<open>\<open>big.Int.Bytes\<close>: the absolute value, big-endian, without leading zeros.\<close>

fun big_bytes :: "nat \<Rightarrow> byte list" where
  "big_bytes n = (if n = 0 then [] else big_bytes (n div 256) @ [of_nat (n mod 256)])"

declare big_bytes.simps [simp del]

lemma be_nat_big_bytes [simp]: "be_nat (big_bytes n) = n"
proof (induction n rule: big_bytes.induct)
  case (1 n)
  then show ?case
    by (subst big_bytes.simps) (simp add: be_nat_append unat_of_nat8)
qed

definition ComparePublicKeys :: "PublicKey \<Rightarrow> PublicKey \<Rightarrow> bool" where
  "ComparePublicKeys key1 key2 \<longleftrightarrow>
     E key1 = E key2 \<and> big_bytes (nat \<bar>N key1\<bar>) = big_bytes (nat \<bar>N key2\<bar>)"

lemma ComparePublicKeys_iff:
  "ComparePublicKeys key1 key2 \<longleftrightarrow> E key1 = E key2 \<and> \<bar>N key1\<bar> = \<bar>N key2\<bar>"
  unfolding ComparePublicKeys_def by (metis be_nat_big_bytes nat_eq_iff abs_ge_zero)

record 'sk Crypto =
  EncodePublicKey :: "PublicKey \<Rightarrow> goerr + byte list"
  DecodePublicKey :: "byte list \<Rightarrow> goerr + PublicKey"
  SignPKCS1v15 :: "'sk \<Rightarrow> byte list \<Rightarrow> goerr + byte list"
  VerifyPKCS1v15 :: "PublicKey \<Rightarrow> byte list \<Rightarrow> byte list \<Rightarrow> goerr option"

subsection \<open>Reading in batches\<close>

type_synonym batches = "(byte list \<times> goerr option) list"

definition after_end :: "goerr \<Rightarrow> batches" where
  "after_end err = (if err = EOF then [] else [([], Some err)])"

fun StreamRead :: "nat \<Rightarrow> batches \<Rightarrow> byte list \<times> goerr option \<times> batches" where
  "StreamRead n [] = ([], Some EOF, [])"
| "StreamRead n ((b, ending) # bs) =
     (if n = 0 then ([], if b = [] \<and> ending \<noteq> Some EOF then ending else None, (b, ending) # bs)
      else if length b > n then (take n b, None, (drop n b, ending) # bs)
      else case ending of
             Some err \<Rightarrow> (b, Some err, after_end err)
           | None \<Rightarrow> if b = [] then StreamRead n bs else (b, None, bs))"

definition readN :: "nat \<Rightarrow> batches \<Rightarrow> goerr + byte list \<times> batches" where
  "readN n bs =
     (case StreamRead n bs of
        (buf, Some err, bs') \<Rightarrow> Inl err
      | (buf, None, bs') \<Rightarrow> Inr (buf, bs'))"

definition encodeInt :: "nat \<Rightarrow> byte list" where
  "encodeInt val = be_bytes 4 val"

definition decodeInt :: "byte list \<Rightarrow> goerr + nat" where
  "decodeInt bytes =
     (if length bytes < 4 then Inl (Panic ''index out of range'') else Inr (be_nat (take 4 bytes)))"

subsection \<open>The answer\<close>

record nonceAnswer =
  rb :: "byte list"
  keySize :: "byte list"
  key :: "byte list"
  signatureSize :: "byte list"
  signature :: "byte list"

definition nonceByteSize :: nat where "nonceByteSize = 16"

definition nonceAnswer_read :: "batches \<Rightarrow> goerr + nonceAnswer \<times> batches" where
  "nonceAnswer_read bs =
     rbind (readN nonceByteSize bs) (\<lambda>rb bs.
     rbind (readN 4 bs) (\<lambda>keySize bs.
     ebind (decodeInt keySize) (\<lambda>n.
     rbind (readN n bs) (\<lambda>key bs.
     rbind (readN 4 bs) (\<lambda>signatureSize bs.
     ebind (decodeInt signatureSize) (\<lambda>m.
     rbind (readN m bs) (\<lambda>signature bs.
       Inr (\<lparr>rb = rb, keySize = keySize, key = key, signatureSize = signatureSize,
             signature = signature\<rparr>, bs))))))))"

text \<open>
  \<open>write\<close> makes one \<open>stream.Write\<close> per field and stops at the first that fails. \<open>wr k\<close> is the error
  of the \<open>k\<close>-th write to the stream; the result has the writes that were made.
\<close>

fun stream_writes ::
  "(nat \<Rightarrow> goerr option) \<Rightarrow> nat \<Rightarrow> byte list list \<Rightarrow> goerr option \<times> byte list list" where
  "stream_writes wr k [] = (None, [])"
| "stream_writes wr k (b # bs) =
     (case wr k of
        Some err \<Rightarrow> (Some err, [])
      | None \<Rightarrow> (case stream_writes wr (Suc k) bs of (err, ws) \<Rightarrow> (err, b # ws)))"

definition nonceAnswer_write ::
  "(nat \<Rightarrow> goerr option) \<Rightarrow> nat \<Rightarrow> nonceAnswer \<Rightarrow> goerr option \<times> byte list list" where
  "nonceAnswer_write wr k ans =
     stream_writes wr k [rb ans, keySize ans, key ans, signatureSize ans, signature ans]"

definition signed_content :: "nat \<Rightarrow> byte list \<Rightarrow> byte list \<Rightarrow> byte list" where
  "signed_content connectionId na nb = (na @ nb) @ be_bytes 8 connectionId"

definition sign_nonces ::
  "'sk Crypto \<Rightarrow> nat \<Rightarrow> byte list \<Rightarrow> byte list \<Rightarrow> 'sk \<Rightarrow> goerr + byte list" where
  "sign_nonces cr connectionId na nb sk =
     (case SignPKCS1v15 cr sk (signed_content connectionId na nb) of
        Inr sig \<Rightarrow> Inr sig
      | Inl err \<Rightarrow> Inl (GoErr ''failed to sign content''))"

text \<open>
  The client: its error and the writes it makes, given the batches it reads and its own nonce (or the
  error of the random source). The first write is a dummy byte whose error is ignored.
\<close>

definition ServeClientPublicKey ::
  "'sk Crypto \<Rightarrow> (nat \<Rightarrow> goerr option) \<Rightarrow> nat \<Rightarrow> batches \<Rightarrow> goerr + byte list \<Rightarrow> 'sk \<Rightarrow> PublicKey \<Rightarrow>
   goerr option \<times> byte list list" where
  "ServeClientPublicKey cr wr connectionId input nonce privateKey publicKey =
     (let dummy = snd (stream_writes wr 0 [[0]]) in
      case rbind (readN nonceByteSize input) (\<lambda>ra _.
           ebind nonce (\<lambda>rb.
           ebind (EncodePublicKey cr publicKey) (\<lambda>key.
           ebind (sign_nonces cr connectionId ra rb privateKey) (\<lambda>signature.
             Inr \<lparr>rb = rb, keySize = encodeInt (length key), key = key,
                  signatureSize = encodeInt (length signature), signature = signature\<rparr>)))) of
        Inl err \<Rightarrow> (Some err, dummy)
      | Inr answer \<Rightarrow>
          (case nonceAnswer_write wr 1 answer of (err, ws) \<Rightarrow> (err, dummy @ ws)))"

text \<open>
  The server: a key or \<open>nil\<close>, and an error or \<open>nil\<close>, or a panic. \<open>werr\<close> is the error of writing the
  nonce.
\<close>

definition AskClientPublicKey ::
  "'sk Crypto \<Rightarrow> goerr option \<Rightarrow> nat \<Rightarrow> goerr + byte list \<Rightarrow> batches \<Rightarrow>
   goerr + PublicKey option \<times> goerr option" where
  "AskClientPublicKey cr werr connectionId nonce input =
     (let input = snd (snd (StreamRead 1 input)) in
      case nonce of
        Inl err \<Rightarrow> Inr (None, Some err)
      | Inr ra \<Rightarrow>
          if werr \<noteq> None then Inr (None, werr)
          else
          (case nonceAnswer_read input of
             Inl (Panic s) \<Rightarrow> Inl (Panic s)
           | Inl err \<Rightarrow> Inr (None, Some err)
           | Inr (answer, _) \<Rightarrow>
               (case DecodePublicKey cr (key answer) of
                  Inl err \<Rightarrow> Inr (None, Some err)
                | Inr k \<Rightarrow>
                    Inr (Some k, VerifyPKCS1v15 cr k (signed_content connectionId ra (rb answer))
                                   (signature answer)))))"

subsection \<open>The decisions\<close>

text \<open>
  \<open>connectedClient.checkAuthenticity\<close> of the VPN server, with the expected key or the error of
  reading it. Comparing with a \<open>nil\<close> key dereferences it.
\<close>

definition checkAuthenticity ::
  "bool \<Rightarrow> goerr + PublicKey \<Rightarrow> goerr + PublicKey option \<times> goerr option \<Rightarrow> goerr option" where
  "checkAuthenticity Check_key expected asked =
     (if Check_key then
        (case expected of
           Inl err \<Rightarrow> Some err
         | Inr expectedKey \<Rightarrow>
             (case asked of
                Inl p \<Rightarrow> Some p
              | Inr (clientKey, err) \<Rightarrow>
                  if err \<noteq> None
                  then (case clientKey of
                          None \<Rightarrow> Some (Panic ''nil pointer dereference'')
                        | Some k \<Rightarrow>
                            if \<not> ComparePublicKeys expectedKey k
                            then Some (GoErr ''server thread: expected key != received key'')
                            else None)
                  else None))
      else None)"

text \<open>\<open>checkClientPublicKey\<close> and \<open>allowClient\<close> of the SSH server, with the keys of the authorized
  keys file when one is configured.\<close>

fun find_key :: "PublicKey \<Rightarrow> PublicKey list \<Rightarrow> bool" where
  "find_key receivedKey [] \<longleftrightarrow> False"
| "find_key receivedKey (k # ks) \<longleftrightarrow> ComparePublicKeys receivedKey k \<or> find_key receivedKey ks"

definition checkClientPublicKey :: "PublicKey list option \<Rightarrow> PublicKey \<Rightarrow> bool" where
  "checkClientPublicKey authorized receivedKey =
     (case authorized of Some authorizedKeys \<Rightarrow> find_key receivedKey authorizedKeys | None \<Rightarrow> True)"

definition allowClient ::
  "PublicKey list option \<Rightarrow> goerr + PublicKey option \<times> goerr option \<Rightarrow> goerr + bool" where
  "allowClient authorized asked =
     (case asked of
        Inl p \<Rightarrow> Inl p
      | Inr (receivedKey, err) \<Rightarrow>
          if err \<noteq> None then Inr False
          else (case receivedKey of
                  None \<Rightarrow> Inl (Panic ''nil pointer dereference'')
                | Some k \<Rightarrow> Inr (checkClientPublicKey authorized k)))"

subsection \<open>Fields that arrive whole\<close>

text \<open>
  The batches are made of whole fields: \<open>gs\<close> groups the fields that were written, each group
  arriving at once, and the stream stays open.
\<close>

definition arrive :: "byte list list list \<Rightarrow> batches" where
  "arrive gs = map (\<lambda>g. (concat g, None)) gs"

lemma StreamRead_group:
  assumes "concat gs = f # fs" "[] \<notin> set gs" "[] \<notin> set (f # fs)"
  shows "\<exists>gs'. StreamRead (length f) (arrive gs) = (f, None, arrive gs')
               \<and> concat gs' = fs \<and> [] \<notin> set gs'"
proof -
  obtain g gs1 where gs: "gs = g # gs1" using assms(1) by (cases gs) auto
  with assms obtain g' where g: "g = f # g'" by (cases g) auto
  with gs assms(1) have fs: "fs = g' @ concat gs1" by simp
  obtain n where n: "length f = Suc n" using assms(3) by (cases f) auto
  show ?thesis
  proof (cases "g' = []")
    case True
    then show ?thesis using gs g fs n assms(2) by (intro exI [of _ gs1]) (auto simp: arrive_def)
  next
    case False
    then have "concat g' \<noteq> []" using assms(3) fs by (cases g') auto
    then show ?thesis
      using gs g fs n assms(2) False by (intro exI [of _ "g' # gs1"]) (auto simp: arrive_def)
  qed
qed

lemma readN_group:
  assumes "concat gs = f # fs" "[] \<notin> set gs" "[] \<notin> set (f # fs)" "length f = n"
  obtains gs' where "readN n (arrive gs) = Inr (f, arrive gs')"
    and "concat gs' = fs" "[] \<notin> set gs'"
  using StreamRead_group [OF assms(1-3)] assms(4) that by (auto simp: readN_def)

lemma decodeInt_encodeInt [codec]: "n < 2 ^ 32 \<Longrightarrow> decodeInt (encodeInt n) = Inr n"
  by (simp add: decodeInt_def encodeInt_def)

text \<open>An answer whose size fields are right and fit, with no empty field.\<close>

definition wf_answer :: "nonceAnswer \<Rightarrow> bool" where
  "wf_answer a \<longleftrightarrow> length (rb a) = nonceByteSize
     \<and> keySize a = encodeInt (length (key a)) \<and> length (key a) < 2 ^ 32 \<and> key a \<noteq> []
     \<and> signatureSize a = encodeInt (length (signature a)) \<and> length (signature a) < 2 ^ 32
     \<and> signature a \<noteq> []"

lemma encodeInt_length [simp]: "length (encodeInt n) = 4"
  by (simp add: encodeInt_def)

lemma encodeInt_not_Nil [simp]: "encodeInt n \<noteq> []"
  by (metis encodeInt_length list.size(3) zero_neq_numeral)

lemma Nil_not_encodeInt [simp]: "[] \<noteq> encodeInt n"
  using encodeInt_not_Nil [of n] by metis

lemma stream_writes_ok [simp]: "stream_writes (\<lambda>_. None) k bs = (None, bs)"
  by (induction bs arbitrary: k) simp_all

lemma readN_exact: "b \<noteq> [] \<Longrightarrow> length b = n \<Longrightarrow> readN n ((b, None) # bs) = Inr (b, bs)"
  by (auto simp: readN_def)

lemma nonceAnswer_read_groups:
  assumes "wf_answer a" "[] \<notin> set gs"
    and "concat gs = [rb a, keySize a, key a, signatureSize a, signature a]"
  shows "\<exists>bs. nonceAnswer_read (arrive gs) = Inr (a, bs)"
proof -
  have ne: "[] \<notin> set [rb a, keySize a, key a, signatureSize a, signature a]"
    using assms(1) by (auto simp: wf_answer_def nonceByteSize_def)
  obtain g1 where 1: "readN nonceByteSize (arrive gs) = Inr (rb a, arrive g1)"
    "concat g1 = [keySize a, key a, signatureSize a, signature a]" "[] \<notin> set g1"
    using readN_group [OF assms(3,2) ne] assms(1) unfolding wf_answer_def by metis
  obtain g2 where 2: "readN 4 (arrive g1) = Inr (keySize a, arrive g2)"
    "concat g2 = [key a, signatureSize a, signature a]" "[] \<notin> set g2"
    by (rule readN_group [OF 1(2,3)]) (use ne assms(1) in \<open>auto simp: wf_answer_def\<close>)
  obtain g3 where 3: "readN (length (key a)) (arrive g2) = Inr (key a, arrive g3)"
    "concat g3 = [signatureSize a, signature a]" "[] \<notin> set g3"
    by (rule readN_group [OF 2(2,3)]) (use ne in auto)
  obtain g4 where 4: "readN 4 (arrive g3) = Inr (signatureSize a, arrive g4)"
    "concat g4 = [signature a]" "[] \<notin> set g4"
    by (rule readN_group [OF 3(2,3)]) (use ne assms(1) in \<open>auto simp: wf_answer_def\<close>)
  obtain g5 where 5: "readN (length (signature a)) (arrive g4) = Inr (signature a, arrive g5)"
    by (rule readN_group [OF 4(2,3)]) (use ne in auto)
  have "decodeInt (keySize a) = Inr (length (key a))"
       "decodeInt (signatureSize a) = Inr (length (signature a))"
    using assms(1) by (simp_all add: wf_answer_def decodeInt_encodeInt)
  then show ?thesis using 1 2 3 4 5 by (simp add: nonceAnswer_read_def)
qed

subsection \<open>Honest clients\<close>

text \<open>
  What the standard library promises of a key pair: the key survives its encoding and a signature
  made with the private key verifies with the public key.
\<close>

definition key_pair :: "'sk Crypto \<Rightarrow> 'sk \<Rightarrow> PublicKey \<Rightarrow> bool" where
  "key_pair cr sk pk \<longleftrightarrow>
     (\<exists>b. EncodePublicKey cr pk = Inr b \<and> DecodePublicKey cr b = Inr pk \<and> b \<noteq> [] \<and> length b < 2 ^ 32)
     \<and> (\<forall>c. \<exists>s. SignPKCS1v15 cr sk c = Inr s \<and> VerifyPKCS1v15 cr pk c s = None
                 \<and> s \<noteq> [] \<and> length s < 2 ^ 32)"

lemma serve_then_ask:
  assumes "key_pair cr sk pk" "length ra = 16" "length nb = 16" "[] \<notin> set gs"
    and "concat gs = snd (ServeClientPublicKey cr (\<lambda>_. None) cid [(ra, None)] (Inr nb) sk pk)"
  shows "AskClientPublicKey cr None cid (Inr ra) (arrive gs) = Inr (Some pk, None)"
proof -
  obtain b where b: "EncodePublicKey cr pk = Inr b" "DecodePublicKey cr b = Inr pk" "b \<noteq> []"
      "length b < 2 ^ 32"
    using assms(1) by (auto simp: key_pair_def)
  obtain s where s: "SignPKCS1v15 cr sk (signed_content cid ra nb) = Inr s"
      "VerifyPKCS1v15 cr pk (signed_content cid ra nb) s = None" "s \<noteq> []" "length s < 2 ^ 32"
    using assms(1) by (auto simp: key_pair_def)
  define a where "a = \<lparr>rb = nb, keySize = encodeInt (length b), key = b,
                        signatureSize = encodeInt (length s), signature = s\<rparr>"
  have wf: "wf_answer a" using b s assms(3) by (simp add: wf_answer_def a_def nonceByteSize_def)
  have "readN nonceByteSize [(ra, None)] = Inr (ra, [])"
    using assms(2) by (intro readN_exact) (auto simp: nonceByteSize_def)
  then have w: "concat gs = [0] # [rb a, keySize a, key a, signatureSize a, signature a]"
    using assms(5) b s
    by (simp add: ServeClientPublicKey_def sign_nonces_def a_def nonceAnswer_write_def)
  have "[] \<notin> set ([0] # [rb a, keySize a, key a, signatureSize a, signature a])"
    using wf by (auto simp: wf_answer_def nonceByteSize_def)
  from StreamRead_group [OF w assms(4) this] obtain g1 where
    g1: "StreamRead 1 (arrive gs) = ([0], None, arrive g1)"
    "concat g1 = [rb a, keySize a, key a, signatureSize a, signature a]" "[] \<notin> set g1"
    by auto
  from nonceAnswer_read_groups [OF wf g1(3,2)] obtain bs where
    "nonceAnswer_read (arrive g1) = Inr (a, bs)" by blast
  then show ?thesis using g1(1) b(2) s(2) by (simp add: AskClientPublicKey_def a_def)
qed

text \<open>The exchange works for an honest client: when what the client writes arrives field by
  field, in whatever groups of whole fields, the server ends up with the client's public key and no
  error, for any key pair, nonces and connection.\<close>

theorem honest_client_authenticates:
  assumes "key_pair cr sk pk" "length ra = 16" "length nb = 16" "[] \<notin> set gs"
    and "concat gs = snd (ServeClientPublicKey cr (\<lambda>_. None) cid [(ra, None)] (Inr nb) sk pk)"
  shows "AskClientPublicKey cr None cid (Inr ra) (arrive gs) = Inr (Some pk, None)"
  by (rule serve_then_ask [OF assms])

text \<open>
  A toy signature scheme for the witnesses: a key is encoded by its two numbers below 256, a
  signature is the exponent followed by the content.
\<close>

definition toy :: "byte Crypto" where
  "toy = \<lparr>EncodePublicKey = (\<lambda>k. Inr [of_int (N k), of_int (E k)]),
     DecodePublicKey = (\<lambda>b. if length b = 2 then Inr \<lparr>N = uint (b ! 0), E = uint (b ! 1)\<rparr>
                            else Inl (GoErr ''asn1'')),
     SignPKCS1v15 = (\<lambda>sk c. Inr (sk # take 40 c)),
     VerifyPKCS1v15 = (\<lambda>k c s. if s = of_int (E k) # take 40 c then None
                                else Some (GoErr ''verification error''))\<rparr>"

lemma toy_key_pair: "key_pair toy (e :: byte) \<lparr>N = 7, E = uint e\<rparr>"
proof -
  have "length (take 40 c) \<le> 40" for c :: "byte list" by simp
  then have "length (take 40 c) < 4294967295" for c :: "byte list"
    by (rule le_less_trans) simp
  then show ?thesis by (simp add: key_pair_def toy_def)
qed

theorem honest_client_authenticates_witness:
  "AskClientPublicKey toy None 5 (Inr (replicate 16 1))
     [([0], None), (concat (tl (snd (ServeClientPublicKey toy (\<lambda>_. None) 5 [(replicate 16 1, None)]
                              (Inr (replicate 16 2)) 3 \<lparr>N = 7, E = 3\<rparr>))), None)]
   = Inr (Some \<lparr>N = 7, E = 3\<rparr>, None)"
proof -
  let ?w = "snd (ServeClientPublicKey toy (\<lambda>_. None) 5 [(replicate 16 1, None)] (Inr (replicate 16 2)) 3
                   \<lparr>N = 7, E = 3\<rparr>)"
  have w: "?w = [0] # tl ?w \<and> tl ?w \<noteq> []"
    by (simp add: ServeClientPublicKey_def toy_def sign_nonces_def readN_exact nonceByteSize_def
          nonceAnswer_write_def)
  have "AskClientPublicKey toy None 5 (Inr (replicate 16 1)) (arrive [[[0]], tl ?w])
        = Inr (Some \<lparr>N = 7, E = 3\<rparr>, None)"
    by (rule honest_client_authenticates [of toy 3 _ _ "replicate 16 2"])
       (use toy_key_pair [of 3] w in auto)
  then show ?thesis by (simp add: arrive_def)
qed

subsection \<open>What the SSH server lets in\<close>

lemma find_key_iff: "find_key k ks \<longleftrightarrow> (\<exists>k' \<in> set ks. ComparePublicKeys k k')"
  by (induction ks) auto

lemma AskClientPublicKey_verified:
  assumes "AskClientPublicKey cr werr cid nonce input = Inr (Some k, None)"
  shows "\<exists>ra nb sig. nonce = Inr ra \<and> VerifyPKCS1v15 cr k (signed_content cid ra nb) sig = None"
  using assms
  by (auto simp: AskClientPublicKey_def Let_def split: sum.splits goerr.splits if_splits) blast

text \<open>C13: The SSH server with an authorized keys file lets a client in only if the client sent a key
  of that file with a signature that verifies under it, over the fresh nonce of the server, the
  nonce of the client and the identifier of this connection, whatever bytes arrived.\<close>

theorem ssh_allows_proven_keys_only:
  assumes "allowClient (Some ks) (AskClientPublicKey cr werr cid (Inr ra) input) = Inr True"
  shows "\<exists>k nb sig. (\<exists>k' \<in> set ks. ComparePublicKeys k k')
           \<and> VerifyPKCS1v15 cr k ((ra @ nb) @ be_bytes 8 cid) sig = None"
proof -
  obtain k where asked: "AskClientPublicKey cr werr cid (Inr ra) input = Inr (Some k, None)"
    and "find_key k ks"
    using assms by (auto simp: allowClient_def checkClientPublicKey_def
                         split: sum.splits option.splits if_splits)
  with AskClientPublicKey_verified [OF asked] show ?thesis
    unfolding find_key_iff signed_content_def by blast
qed

definition toy_input :: "byte \<Rightarrow> byte list \<Rightarrow> batches" where
  "toy_input e s = map (\<lambda>b. (b, None)) [[0], replicate 16 2, [0, 0, 0, 2], [7, e], encodeInt (length s), s]"

lemma decodeInt_two: "decodeInt [0, 0, 0, 2] = Inr 2"
  by (simp add: decodeInt_def)

lemma toy_asked:
  assumes "s \<noteq> []" "length s < 2 ^ 32"
  shows "AskClientPublicKey toy None cid (Inr ra) (toy_input e s)
         = Inr (Some \<lparr>N = 7, E = uint e\<rparr>,
                VerifyPKCS1v15 toy \<lparr>N = 7, E = uint e\<rparr> (signed_content cid ra (replicate 16 2)) s)"
proof -
  have "nonceAnswer_read (tl (toy_input e s))
        = Inr (\<lparr>rb = replicate 16 2, keySize = [0, 0, 0, 2], key = [7, e],
                signatureSize = encodeInt (length s), signature = s\<rparr>, [])"
    using assms
    by (simp add: nonceAnswer_read_def toy_input_def readN_exact nonceByteSize_def decodeInt_two
        decodeInt_encodeInt)
  moreover have "snd (snd (StreamRead 1 (toy_input e s))) = tl (toy_input e s)"
    by (simp add: toy_input_def)
  ultimately show ?thesis by (simp add: AskClientPublicKey_def toy_def)
qed

lemma toy_verifies: "VerifyPKCS1v15 toy \<lparr>N = 7, E = uint e\<rparr> c (e # take 40 c) = None"
  by (simp add: toy_def)

theorem ssh_allows_proven_keys_only_witness:
  "\<exists>k nb sig. (\<exists>k' \<in> set [\<lparr>N = 7, E = 3\<rparr>]. ComparePublicKeys k k')
     \<and> VerifyPKCS1v15 toy k ((replicate 16 1 @ nb) @ be_bytes 8 5) sig = None"
proof (rule ssh_allows_proven_keys_only)
  let ?s = "3 # take 40 (signed_content 5 (replicate 16 1) (replicate 16 2))"
  have "length ?s < 2 ^ 32"
    by (rule le_less_trans [of _ 41]) simp_all
  then show "allowClient (Some [\<lparr>N = 7, E = 3\<rparr>])
               (AskClientPublicKey toy None 5 (Inr (replicate 16 1)) (toy_input 3 ?s)) = Inr True"
    using toy_verifies [of 3 "signed_content 5 (replicate 16 1) (replicate 16 2)"]
    by (simp add: toy_asked allowClient_def checkClientPublicKey_def ComparePublicKeys_iff)
qed

subsection \<open>What the VPN server lets in\<close>

text \<open>The check of the VPN server does not check the key. It goes on to serve a client in exactly
  two cases: the signature verifies, under whatever key the client sent, or the signature does not
  verify but the key is the expected one, which is public. The test joins the two conditions with
  \<open>and\<close> where \<open>or\<close> is meant.\<close>

theorem vpn_check_characterised:
  "checkAuthenticity True (Inr expectedKey) (Inr (Some k, err)) = None
   \<longleftrightarrow> err = None \<or> ComparePublicKeys expectedKey k"
  by (auto simp: checkAuthenticity_def)

text \<open>So anybody is let in: a client with any key pair of its own passes the check of the VPN
  server, whatever key the server expects.\<close>

theorem vpn_accepts_any_client:
  assumes "key_pair cr sk pk" "length ra = 16" "length nb = 16" "[] \<notin> set gs"
    and "concat gs = snd (ServeClientPublicKey cr (\<lambda>_. None) cid [(ra, None)] (Inr nb) sk pk)"
  shows "checkAuthenticity True (Inr expectedKey)
           (AskClientPublicKey cr None cid (Inr ra) (arrive gs)) = None"
  by (simp add: serve_then_ask [OF assms] checkAuthenticity_def)

theorem vpn_accepts_any_client_witness:
  "checkAuthenticity True (Inr \<lparr>N = 99, E = 65537\<rparr>)
     (AskClientPublicKey toy None 5 (Inr (replicate 16 1))
       (map (\<lambda>b. (b, None)) (snd (ServeClientPublicKey toy (\<lambda>_. None) 5 [(replicate 16 1, None)] (Inr (replicate 16 2)) 3
               \<lparr>N = 7, E = 3\<rparr>)))) = None"
proof -
  let ?w = "snd (ServeClientPublicKey toy (\<lambda>_. None) 5 [(replicate 16 1, None)] (Inr (replicate 16 2)) 3
                   \<lparr>N = 7, E = 3\<rparr>)"
  have "checkAuthenticity True (Inr \<lparr>N = 99, E = 65537\<rparr>)
     (AskClientPublicKey toy None 5 (Inr (replicate 16 1)) (arrive (map (\<lambda>b. [b]) ?w))) = None"
    by (rule vpn_accepts_any_client [of toy 3 "\<lparr>N = 7, E = 3\<rparr>" _ "replicate 16 2" _ 5])
       (use toy_key_pair [of 3] in auto)
  then show ?thesis by (simp add: arrive_def comp_def)
qed

text \<open>Anybody can crash the server before authentication. A client whose size field arrives in
  fewer than four bytes makes \<open>AskClientPublicKey\<close> index out of range, and one whose key does not
  decode makes the VPN server's check dereference the \<open>nil\<close> key.\<close>

theorem unauthenticated_crash:
  assumes "length nb = 16" "0 < length sz" "length sz < 4"
    and "\<forall>b. DecodePublicKey cr bad \<noteq> Inr b" "bad \<noteq> []" "length bad < 2 ^ 32"
  shows "AskClientPublicKey cr None cid (Inr ra) (map (\<lambda>b. (b, None)) [[0], nb, sz] @ rest)
           = Inl (Panic ''index out of range'')
         \<and> checkAuthenticity True (Inr expectedKey)
             (AskClientPublicKey cr None cid (Inr ra)
                (map (\<lambda>b. (b, None)) [[0], nb, encodeInt (length bad), bad, encodeInt 1, [0]]))
           = Some (Panic ''nil pointer dereference'')"
proof
  have nb: "readN nonceByteSize ((nb, None) # r) = Inr (nb, r)" for r
    using assms(1) by (intro readN_exact) (auto simp: nonceByteSize_def)
  have "readN 4 ((sz, None) # rest) = Inr (sz, rest)"
    using assms(2,3) by (auto simp: readN_def numeral_eq_Suc)
  then show "AskClientPublicKey cr None cid (Inr ra) (map (\<lambda>b. (b, None)) [[0], nb, sz] @ rest)
           = Inl (Panic ''index out of range'')"
    using assms(3) nb by (simp add: AskClientPublicKey_def nonceAnswer_read_def decodeInt_def)
  obtain err where err: "DecodePublicKey cr bad = Inl err"
    using assms(4) by (cases "DecodePublicKey cr bad") auto
  have "nonceAnswer_read (map (\<lambda>b. (b, None)) [nb, encodeInt (length bad), bad, encodeInt 1, [0]])
        = Inr (\<lparr>rb = nb, keySize = encodeInt (length bad), key = bad, signatureSize = encodeInt 1,
                signature = [0]\<rparr>, [])"
    using assms(5,6) nb by (simp add: nonceAnswer_read_def readN_exact decodeInt_encodeInt)
  with err show "checkAuthenticity True (Inr expectedKey)
             (AskClientPublicKey cr None cid (Inr ra)
                (map (\<lambda>b. (b, None)) [[0], nb, encodeInt (length bad), bad, encodeInt 1, [0]]))
           = Some (Panic ''nil pointer dereference'')"
    by (simp add: AskClientPublicKey_def checkAuthenticity_def)
qed

theorem unauthenticated_crash_witness:
  "AskClientPublicKey toy None 5 (Inr (replicate 16 1)) [([0], None), (replicate 16 2, None), ([0, 0], None)]
     = Inl (Panic ''index out of range'')
   \<and> checkAuthenticity True (Inr \<lparr>N = 99, E = 65537\<rparr>)
       (AskClientPublicKey toy None 5 (Inr (replicate 16 1))
          (map (\<lambda>b. (b, None)) [[0], replicate 16 2, encodeInt (length [9 :: byte]), [9], encodeInt 1, [0]]))
     = Some (Panic ''nil pointer dereference'')"
  using unauthenticated_crash [of "replicate 16 2" "[0, 0]" toy "[9]" 5 "replicate 16 1" "[]" "\<lparr>N = 99, E = 65537\<rparr>"]
  by (simp add: toy_def)

subsection \<open>What the VPN client checks\<close>

text \<open>
  \<open>ClientInstance.authenticateServer\<close>: the certificate's key is compared with the configured one, and
  the client key is served, which is the second result, in the same branch only. The error of serving
  it is ignored.
\<close>

definition authenticateServer ::
  "goerr option \<Rightarrow> bool \<Rightarrow> goerr + PublicKey \<Rightarrow> PublicKey \<Rightarrow> goerr option \<times> bool" where
  "authenticateServer lastError Check_key expected serverKey =
     (case lastError of
        Some err \<Rightarrow> (Some err, False)
      | None \<Rightarrow>
          if Check_key then
            (case expected of
               Inl err \<Rightarrow> (Some err, False)
             | Inr expectedKey \<Rightarrow>
                 if \<not> ComparePublicKeys expectedKey serverKey
                 then (Some (GoErr ''key verification failed''), False)
                 else (None, True))
          else (None, False))"

lemma client_trusts_expected_server_only:
  "authenticateServer lastError True (Inr expectedKey) serverKey = (None, serves) \<Longrightarrow>
   ComparePublicKeys expectedKey serverKey \<and> serves"
  by (auto simp: authenticateServer_def split: option.splits if_splits)

text \<open>
  A server that checks the keys of its clients waits for ever for one that does not check the server.
\<close>

lemma unchecked_server_gets_no_key: "snd (authenticateServer lastError False expected serverKey) = False"
  by (auto simp: authenticateServer_def split: option.splits)

end
