(* ===== verification/Ssh_Hosts.thy ===== *)
theory Ssh_Hosts
  imports Go_Strings Client_Auth
begin

section \<open>Key files of the SSH program\<close>

text \<open>
  \<^verbatim>\<open>quic_ssh/authentication.go\<close> and the known hosts of \<^verbatim>\<open>quic_ssh/client.go\<close>. A file is its text. A
  key is one line of base64, which is wrapped into a PEM block before it is decoded; \<open>pemDecode\<close> and
  \<open>pemEncode\<close> stand for \<open>pem.Decode\<close> and \<open>pem.EncodeToMemory\<close> of the standard library.
  \<open>quic_utils.Check\<close> ends the program: that is the result \<open>Inl\<close>.
\<close>

subsection \<open>PEM markers\<close>

definition newline :: char where "newline = CHR 0x0A"

definition pem_begin :: string where "pem_begin = ''-----BEGIN RSA PUBLIC KEY-----''"

definition pem_end :: string where "pem_end = ''-----END RSA PUBLIC KEY-----''"

definition addPemMarkers :: "string \<Rightarrow> string" where
  "addPemMarkers k =
     (let nbr_line = length k div 64 + 1 in
      (pem_begin @ [newline])
      @ concat (map (\<lambda>i. if i = nbr_line - 1 then drop (i * 64) k @ [newline]
                         else take 64 (drop (i * 64) k) @ [newline]) [0..<nbr_line])
      @ (pem_end @ [newline]))"

definition removePemMarkers :: "string \<Rightarrow> string" where
  "removePemMarkers k =
     foldl (\<lambda>result part. if 0 < length part \<and> \<not> Contains part ''-----'' then result @ part else result)
       '''' (Split newline k)"

definition key_lines :: "string \<Rightarrow> string list" where
  "key_lines k = map (\<lambda>i. take 64 (drop (i * 64) k)) [0..<length k div 64] @ [drop (length k div 64 * 64) k]"

lemma concat_lines: "concat (map (\<lambda>i. take 64 (drop (i * 64) k)) [0..<n]) = take (n * 64) k"
  by (induction n) (simp_all add: take_add [symmetric] add.commute)

lemma concat_key_lines: "concat (key_lines k) = k"
  by (simp add: key_lines_def concat_lines)

lemma set_key_lines: "w \<in> set (key_lines k) \<Longrightarrow> set w \<subseteq> set k"
  by (auto simp: key_lines_def dest: in_set_takeD in_set_dropD)

lemma addPemMarkers_lines:
  "addPemMarkers k = concat (map (\<lambda>w. w @ [newline]) (pem_begin # key_lines k @ [pem_end]))"
proof -
  let ?n = "length k div 64"
  have "map (\<lambda>i. if i = ?n then drop (i * 64) k @ [newline] else take 64 (drop (i * 64) k) @ [newline])
          [0..<?n]
        = map (\<lambda>i. take 64 (drop (i * 64) k) @ [newline]) [0..<?n]"
    by simp
  then show ?thesis by (simp add: addPemMarkers_def key_lines_def comp_def del: map_eq_conv)
qed

lemma foldl_filter:
  "foldl (\<lambda>r p. if P p then r @ p else r) r ps = r @ concat (filter P ps)"
  by (induction ps arbitrary: r) auto

lemma removePemMarkers_eq:
  "removePemMarkers k = concat (filter (\<lambda>p. 0 < length p \<and> \<not> Contains p ''-----'') (Split newline k))"
  by (simp add: removePemMarkers_def foldl_filter)

lemma concat_filter_nonempty: "concat (filter (\<lambda>p. p \<noteq> [] \<and> P p) ps) = concat (filter P ps)"
  by (induction ps) auto

text \<open>The two conversions of key texts are inverse: a key text without line breaks and dashes,
  which base64 has none of, is wrapped into a PEM block of lines of at most 64 characters and comes
  back unchanged when the markers are removed, whatever its length.\<close>

theorem pem_markers_roundtrip:
  assumes "newline \<notin> set k" "CHR ''-'' \<notin> set k"
  shows "removePemMarkers (addPemMarkers k) = k
         \<and> (\<forall>line \<in> set (Split newline (addPemMarkers k)). length line \<le> 64)"
proof -
  have nl: "\<forall>w \<in> set (pem_begin # key_lines k @ [pem_end]). newline \<notin> set w"
    using set_key_lines assms(1) by (auto simp: pem_begin_def pem_end_def newline_def)
  then have split: "Split newline (addPemMarkers k) = (pem_begin # key_lines k @ [pem_end]) @ [[]]"
    unfolding addPemMarkers_lines by (rule Split_concat)
  have "\<not> Contains w ''-----''" if "w \<in> set (key_lines k)" for w
    using that set_key_lines assms(2) Contains_elem by fastforce
  then have "filter (\<lambda>p. \<not> Contains p ''-----'') (key_lines k) = key_lines k" by simp
  moreover have "Contains pem_begin ''-----''" "Contains pem_end ''-----''"
    by (simp_all add: pem_begin_def pem_end_def)
  ultimately have "removePemMarkers (addPemMarkers k) = k"
    by (simp add: removePemMarkers_eq concat_filter_nonempty split concat_key_lines)
  moreover have "length w \<le> 64" if "w \<in> set (key_lines k)" for w
    using that by (auto simp: key_lines_def)
  then have "\<forall>line \<in> set (Split newline (addPemMarkers k)). length line \<le> 64"
    unfolding split by (auto simp: pem_begin_def pem_end_def)
  ultimately show ?thesis by blast
qed

theorem pem_markers_roundtrip_witness:
  "removePemMarkers (addPemMarkers (replicate 65 CHR ''A'')) = replicate 65 CHR ''A''"
  using pem_markers_roundtrip [of "replicate 65 CHR ''A''"] by (simp add: newline_def)

subsection \<open>Authorized keys\<close>

fun getAuthorizedKeys_lines ::
  "'sk Crypto \<Rightarrow> (string \<Rightarrow> byte list option) \<Rightarrow> string list \<Rightarrow> goerr + PublicKey list" where
  "getAuthorizedKeys_lines cr pemDecode [] = Inr []"
| "getAuthorizedKeys_lines cr pemDecode (line # parts) =
     (if length line > 0 \<and> \<not> HasPrefix line ''--'' then
        (case pemDecode (addPemMarkers line) of
           None \<Rightarrow> getAuthorizedKeys_lines cr pemDecode parts
         | Some asnData \<Rightarrow>
             ebind (DecodePublicKey cr asnData) (\<lambda>pk.
             ebind (getAuthorizedKeys_lines cr pemDecode parts) (\<lambda>result. Inr (pk # result))))
      else getAuthorizedKeys_lines cr pemDecode parts)"

definition getAuthorizedKeys ::
  "'sk Crypto \<Rightarrow> (string \<Rightarrow> byte list option) \<Rightarrow> goerr + string \<Rightarrow> goerr + PublicKey list" where
  "getAuthorizedKeys cr pemDecode file =
     ebind file (\<lambda>data. getAuthorizedKeys_lines cr pemDecode (Split newline data))"

subsection \<open>Known hosts\<close>

record serverInfo =
  ip :: string
  publicKey :: "PublicKey option"

text \<open>The blocks of a line: the first that is not empty is the address, the others are keys.\<close>

fun known_blocs ::
  "'sk Crypto \<Rightarrow> (string \<Rightarrow> byte list option) \<Rightarrow> serverInfo \<Rightarrow> bool \<Rightarrow> string list \<Rightarrow>
   goerr + serverInfo \<times> bool" where
  "known_blocs cr pemDecode newHost valid [] = Inr (newHost, valid)"
| "known_blocs cr pemDecode newHost valid (bloc # subparts) =
     (if length bloc > 0 then
        if ip newHost = '''' then known_blocs cr pemDecode (newHost\<lparr>ip := bloc\<rparr>) valid subparts
        else (case pemDecode (addPemMarkers bloc) of
                Some asnData \<Rightarrow>
                  ebind (DecodePublicKey cr asnData) (\<lambda>pk.
                    known_blocs cr pemDecode (newHost\<lparr>publicKey := Some pk\<rparr>) valid subparts)
              | None \<Rightarrow> known_blocs cr pemDecode newHost False subparts)
      else known_blocs cr pemDecode newHost valid subparts)"

fun getKnownHosts_lines ::
  "'sk Crypto \<Rightarrow> (string \<Rightarrow> byte list option) \<Rightarrow> string list \<Rightarrow> goerr + serverInfo list" where
  "getKnownHosts_lines cr pemDecode [] = Inr []"
| "getKnownHosts_lines cr pemDecode (line # parts) =
     (if length line > 2 \<and> \<not> HasPrefix line ''--'' then
        ebind (known_blocs cr pemDecode \<lparr>ip = '''', publicKey = None\<rparr> True (Split CHR '' '' line))
          (\<lambda>(newHost, valid).
          ebind (getKnownHosts_lines cr pemDecode parts) (\<lambda>result.
            Inr (if valid \<and> publicKey newHost \<noteq> None then newHost # result else result)))
      else getKnownHosts_lines cr pemDecode parts)"

definition getKnownHosts ::
  "'sk Crypto \<Rightarrow> (string \<Rightarrow> byte list option) \<Rightarrow> goerr + string \<Rightarrow> goerr + serverInfo list" where
  "getKnownHosts cr pemDecode file =
     ebind file (\<lambda>data. getKnownHosts_lines cr pemDecode (Split newline data))"

fun find_host :: "serverInfo list \<Rightarrow> string \<Rightarrow> PublicKey \<Rightarrow> bool" where
  "find_host [] remoteAddr serverPk \<longleftrightarrow> False"
| "find_host (s # knownServers) remoteAddr serverPk \<longleftrightarrow>
     (ip s = remoteAddr
      \<and> (case publicKey s of Some k \<Rightarrow> ComparePublicKeys k serverPk | None \<Rightarrow> False))
     \<or> find_host knownServers remoteAddr serverPk"

definition checkRemotePublicKey ::
  "'sk Crypto \<Rightarrow> (string \<Rightarrow> byte list option) \<Rightarrow> goerr + string \<Rightarrow> string \<Rightarrow> PublicKey \<Rightarrow> goerr + bool" where
  "checkRemotePublicKey cr pemDecode file remoteAddr serverPk =
     ebind (getKnownHosts cr pemDecode file) (\<lambda>knownServers.
       Inr (find_host knownServers remoteAddr serverPk))"

text \<open>
  The question to the user: the answer decides, and a positive one appends a line to the file, the
  new text of which is the second result.
\<close>

definition askForUnknownRemotePublicKey ::
  "'sk Crypto \<Rightarrow> (byte list \<Rightarrow> string) \<Rightarrow> string \<Rightarrow> string \<Rightarrow> PublicKey \<Rightarrow> string \<Rightarrow> goerr + bool \<times> string" where
  "askForUnknownRemotePublicKey cr pemEncode answer remoteAddr serverPk data =
     ebind (EncodePublicKey cr serverPk) (\<lambda>keyPem.
       let keyHex = pemEncode keyPem in
       if answer \<in> {''yes'', ''YES'', ''y'', ''Y''}
       then Inr (True, data @ [newline] @ remoteAddr @ '' '' @ removePemMarkers keyHex)
       else Inr (False, data))"

definition allowServer ::
  "'sk Crypto \<Rightarrow> (string \<Rightarrow> byte list option) \<Rightarrow> (byte list \<Rightarrow> string) \<Rightarrow> string option \<Rightarrow> string \<Rightarrow>
   string \<Rightarrow> PublicKey \<Rightarrow> goerr + bool \<times> string option" where
  "allowServer cr pemDecode pemEncode file answer remoteAddr serverPk =
     (case file of
        None \<Rightarrow> Inr (True, None)
      | Some data \<Rightarrow>
          ebind (checkRemotePublicKey cr pemDecode (Inr data) remoteAddr serverPk) (\<lambda>resultCheck.
            if resultCheck then Inr (True, Some data)
            else ebind (askForUnknownRemotePublicKey cr pemEncode answer remoteAddr serverPk data)
                   (\<lambda>(trusted, data'). Inr (trusted, Some data'))))"

subsection \<open>A host that was accepted is known\<close>

lemma find_host_append:
  "find_host (xs @ ys) a k \<longleftrightarrow> find_host xs a k \<or> find_host ys a k"
  by (induction xs) auto

lemma getKnownHosts_lines_append:
  assumes "getKnownHosts_lines cr pd xs = Inr hs" "getKnownHosts_lines cr pd ys = Inr gs"
  shows "getKnownHosts_lines cr pd (xs @ ys) = Inr (hs @ gs)"
  using assms
proof (induction xs arbitrary: hs)
  case (Cons x xs)
  then show ?case
    by (auto simp: ebind_Inr_iff split: if_splits)
qed simp

text \<open>An address and a key text that stay one block each on a line of the file.\<close>

definition plain_address :: "string \<Rightarrow> bool" where
  "plain_address a \<longleftrightarrow> a \<noteq> '''' \<and> newline \<notin> set a \<and> CHR '' '' \<notin> set a \<and> \<not> HasPrefix a ''--''"

definition plain_key :: "string \<Rightarrow> bool" where
  "plain_key t \<longleftrightarrow> t \<noteq> '''' \<and> newline \<notin> set t \<and> CHR '' '' \<notin> set t"

lemma HasPrefix_two: "HasPrefix (a @ CHR '' '' # t) ''--'' \<longleftrightarrow> HasPrefix a ''--''"
  by (cases a; cases "tl a") auto

lemma known_line:
  assumes "plain_address a" "plain_key t"
    and "pd (addPemMarkers t) = Some asn" "DecodePublicKey cr asn = Inr pk"
  shows "getKnownHosts_lines cr pd [a @ '' '' @ t] = Inr [\<lparr>ip = a, publicKey = Some pk\<rparr>]"
proof -
  have "Split (CHR '' '') (a @ '' '' @ t) = [a, t]"
    using assms(1,2) by (simp add: plain_address_def plain_key_def Split_append)
  moreover have "2 < length (a @ '' '' @ t)"
    using assms(1,2) by (cases a; cases t) (auto simp: plain_address_def plain_key_def)
  moreover have "\<not> HasPrefix (a @ '' '' @ t) ''--''"
    using assms(1) by (simp add: HasPrefix_two plain_address_def)
  moreover have "a \<noteq> []" "t \<noteq> []" using assms by (simp_all add: plain_address_def plain_key_def)
  ultimately show ?thesis using assms(3,4) by (simp del: append_Cons append_Nil)
qed

text \<open>A server the user accepted is recognised the next time. When the user answers yes, the line
  that is appended to the known hosts file makes the check of the same address and key succeed on
  the new file, whatever readable content the file had; the earlier entries are still read.\<close>

theorem accepted_host_is_known:
  assumes "plain_address addr" "EncodePublicKey cr pk = Inr der" "DecodePublicKey cr der = Inr pk'"
    and "ComparePublicKeys pk' pk"
    and "plain_key (removePemMarkers (pemEncode der))"
    and "pemDecode (addPemMarkers (removePemMarkers (pemEncode der))) = Some der"
    and "getKnownHosts cr pemDecode (Inr data) = Inr known" "answer \<in> {''yes'', ''YES'', ''y'', ''Y''}"
  shows "\<exists>data'. askForUnknownRemotePublicKey cr pemEncode answer addr pk data = Inr (True, data')
           \<and> checkRemotePublicKey cr pemDecode (Inr data') addr pk = Inr True
           \<and> getKnownHosts cr pemDecode (Inr data') = Inr (known @ [\<lparr>ip = addr, publicKey = Some pk'\<rparr>])"
proof -
  let ?t = "removePemMarkers (pemEncode der)"
  let ?data = "data @ [newline] @ addr @ '' '' @ ?t"
  have ask: "askForUnknownRemotePublicKey cr pemEncode answer addr pk data = Inr (True, ?data)"
    using assms(2,8) by (auto simp: askForUnknownRemotePublicKey_def)
  have "newline \<notin> set (addr @ '' '' @ ?t)"
    using assms(1,5) by (simp add: plain_address_def plain_key_def newline_def)
  then have "Split newline ?data = Split newline data @ [addr @ '' '' @ ?t]"
    using Split_append_sep [of newline data "addr @ '' '' @ ?t"] Split_absent [of newline] by simp
  moreover have "getKnownHosts_lines cr pemDecode (Split newline data) = Inr known"
    using assms(7) by (simp add: getKnownHosts_def)
  moreover have "getKnownHosts_lines cr pemDecode [addr @ '' '' @ ?t]
                 = Inr [\<lparr>ip = addr, publicKey = Some pk'\<rparr>]"
    using assms(1,3,5,6) by (intro known_line) simp_all
  ultimately have known': "getKnownHosts cr pemDecode (Inr ?data)
                           = Inr (known @ [\<lparr>ip = addr, publicKey = Some pk'\<rparr>])"
    by (simp add: getKnownHosts_def getKnownHosts_lines_append)
  then have "checkRemotePublicKey cr pemDecode (Inr ?data) addr pk = Inr True"
    using assms(4) by (simp add: checkRemotePublicKey_def find_host_append)
  with ask known' show ?thesis by blast
qed

text \<open>A toy PEM for the witness: two hexadecimal-like characters, one per byte below 26.\<close>

definition toy_pemEncode :: "byte list \<Rightarrow> string" where
  "toy_pemEncode b = addPemMarkers (map (\<lambda>x. char_of (97 + unat x)) b)"

definition toy_pemDecode :: "string \<Rightarrow> byte list option" where
  "toy_pemDecode s = Some (map (\<lambda>c. of_nat (of_char c - 97)) (removePemMarkers s))"

theorem accepted_host_is_known_witness:
  "\<exists>data'. askForUnknownRemotePublicKey toy toy_pemEncode ''yes'' ''10.0.0.1:22'' \<lparr>N = 7, E = 3\<rparr> ''''
             = Inr (True, data')
           \<and> checkRemotePublicKey toy toy_pemDecode (Inr data') ''10.0.0.1:22'' \<lparr>N = 7, E = 3\<rparr> = Inr True"
proof -
  have rt: "removePemMarkers (addPemMarkers ''hd'') = ''hd''"
    by (simp add: removePemMarkers_eq addPemMarkers_lines key_lines_def pem_begin_def pem_end_def
        newline_def)
  have enc: "toy_pemEncode [7, 3] = addPemMarkers ''hd''" by (simp add: toy_pemEncode_def char_of_def bit_Suc_0_iff)
  have "\<exists>data'. askForUnknownRemotePublicKey toy toy_pemEncode ''yes'' ''10.0.0.1:22'' \<lparr>N = 7, E = 3\<rparr> ''''
             = Inr (True, data')
           \<and> checkRemotePublicKey toy toy_pemDecode (Inr data') ''10.0.0.1:22'' \<lparr>N = 7, E = 3\<rparr> = Inr True
           \<and> getKnownHosts toy toy_pemDecode (Inr data')
             = Inr ([] @ [\<lparr>ip = ''10.0.0.1:22'', publicKey = Some \<lparr>N = 7, E = 3\<rparr>\<rparr>])"
  proof (rule accepted_host_is_known [where der = "[7, 3]"])
    show "plain_address ''10.0.0.1:22''" by (simp add: plain_address_def newline_def)
    show "plain_key (removePemMarkers (toy_pemEncode [7, 3]))"
      unfolding enc rt by (simp add: plain_key_def newline_def)
    show "toy_pemDecode (addPemMarkers (removePemMarkers (toy_pemEncode [7, 3]))) = Some [7, 3]"
      unfolding enc rt by (simp add: toy_pemDecode_def rt)
    show "getKnownHosts toy toy_pemDecode (Inr '''') = Inr []" by (simp add: getKnownHosts_def)
  qed (simp_all add: toy_def ComparePublicKeys_iff)
  then show ?thesis by blast
qed

end
