(* ===== verification/Ssh_Session.thy ===== *)
theory Ssh_Session
  imports Ssh_Control Ssh_Args Ssh_Hosts
begin

section \<open>Sessions of the SSH program and byte forwarding\<close>

text \<open>
  \<^verbatim>\<open>quic_ssh/server.go\<close>, \<^verbatim>\<open>client.go\<close>, \<^verbatim>\<open>port_forwarding.go\<close> and \<^verbatim>\<open>remote_login.go\<close>, and \<open>transmit\<close> of
  \<^verbatim>\<open>quic_netcat/main.go\<close>: the choice of services, what the server does with one client, and the
  loops that copy bytes from one connection to another.
\<close>

subsection \<open>The mode\<close>

definition MODE_REM_LOGIN :: int where "MODE_REM_LOGIN = 1"
definition MODE_PORT_FORW :: int where "MODE_PORT_FORW = 2"
definition MODE_BOTH :: int where "MODE_BOTH = 3"

text \<open>\<open>setServerMode\<close>: the text that the client writes.\<close>

definition setServerMode :: "SSHConfig \<Rightarrow> string" where
  "setServerMode conf =
     (if onlyForwardPort conf then ''2''
      else if localPortForwarding conf \<or> remotePortForwarding conf then ''3''
      else ''1'')"

text \<open>\<open>askServerMode\<close>, on what arrives on the first stream before its end.\<close>

definition askServerMode :: "string \<Rightarrow> goerr + int" where
  "askServerMode r =
     (if length r \<ge> 1 then
        (let msg = take 1 r in
         if msg = ''1'' then Inr MODE_REM_LOGIN
         else if msg = ''2'' then Inr MODE_PORT_FORW
         else if msg = ''3'' then Inr MODE_BOTH
         else Inl (GoErr ''error when reading server mode on stream''))
      else Inl (GoErr ''error when reading server mode on stream''))"

subsection \<open>One client of the server\<close>

datatype ServerAction =
    CloseSession
  | LaunchPortForwarding
  | LaunchRemoteLogin
  | WaitForClientStopRequest
  | WaitStop
  | StopListener

text \<open>
  The goroutine of \<open>SSHServer.Run\<close> for an accepted session: whether its first stream was accepted,
  the outcome of \<open>allowClient\<close>, and what arrives as the mode.
\<close>

definition serveClient :: "goerr option \<Rightarrow> goerr + bool \<Rightarrow> string \<Rightarrow> goerr + ServerAction list" where
  "serveClient streamErr allowed modeText =
     (if streamErr \<noteq> None then Inr [CloseSession]
      else case allowed of
             Inl p \<Rightarrow> Inl p
           | Inr ok \<Rightarrow>
               if \<not> ok then Inr [CloseSession]
               else (case askServerMode modeText of
                       Inl err \<Rightarrow> Inr [CloseSession]
                     | Inr serverMode \<Rightarrow>
                         Inr ((if serverMode = MODE_PORT_FORW \<or> serverMode = MODE_BOTH
                               then [LaunchPortForwarding] else [])
                              @ (if serverMode = MODE_REM_LOGIN \<or> serverMode = MODE_BOTH
                                 then [LaunchRemoteLogin] else [])
                              @ (if serverMode = MODE_PORT_FORW then [WaitForClientStopRequest] else [])
                              @ [WaitStop, CloseSession, StopListener])))"

text \<open>What \<open>SSHClient.Run\<close> starts.\<close>

datatype ClientAction = LaunchForward bool | LaunchLogin | WaitForExitRequest

definition clientServices :: "SSHConfig \<Rightarrow> ClientAction list" where
  "clientServices conf =
     (if localPortForwarding conf then [LaunchForward True] else [])
     @ (if remotePortForwarding conf \<and> \<not> localPortForwarding conf then [LaunchForward False] else [])
     @ (if \<not> onlyForwardPort conf then [LaunchLogin] else [])
     @ (if onlyForwardPort conf then [WaitForExitRequest] else [])"

text \<open>C14: The server serves nobody it did not authenticate: if the server has an authorized keys file
  and starts port forwarding or a remote login for a client, then that client sent a key of the file
  with a signature over this connection's nonces that verifies under it. In every case the last
  thing done with a session is to close it and the listeners it opened.\<close>

theorem services_need_authentication:
  assumes "serveClient streamErr (allowClient (Some ks) (AskClientPublicKey cr werr cid (Inr ra) input))
             modeText = Inr actions"
    and "LaunchPortForwarding \<in> set actions \<or> LaunchRemoteLogin \<in> set actions"
  shows "(\<exists>k nb sig. find_key k ks \<and> VerifyPKCS1v15 cr k (signed_content cid ra nb) sig = None)
         \<and> CloseSession \<in> set actions"
proof -
  have "allowClient (Some ks) (AskClientPublicKey cr werr cid (Inr ra) input) = Inr True"
    using assms by (auto simp: serveClient_def split: if_splits sum.splits)
  then obtain k where asked: "AskClientPublicKey cr werr cid (Inr ra) input = Inr (Some k, None)"
    and k: "find_key k ks"
    by (auto simp: allowClient_def checkClientPublicKey_def split: sum.splits option.splits if_splits)
  have "CloseSession \<in> set actions"
    using assms(1) by (auto simp: serveClient_def split: if_splits sum.splits)
  with AskClientPublicKey_verified [OF asked] k show ?thesis by blast
qed

theorem services_need_authentication_witness:
  "\<exists>k nb sig. find_key k [\<lparr>N = 7, E = 3\<rparr>]
     \<and> VerifyPKCS1v15 toy k (signed_content 5 (replicate 16 1) nb) sig = None"
proof -
  let ?s = "3 # take 40 (signed_content 5 (replicate 16 1) (replicate 16 2))"
  have "length ?s < 2 ^ 32" by (rule le_less_trans [of _ 41]) simp_all
  then have "allowClient (Some [\<lparr>N = 7, E = 3\<rparr>])
               (AskClientPublicKey toy None 5 (Inr (replicate 16 1)) (toy_input 3 ?s)) = Inr True"
    using toy_verifies [of 3 "signed_content 5 (replicate 16 1) (replicate 16 2)"]
    by (simp add: toy_asked allowClient_def checkClientPublicKey_def ComparePublicKeys_iff)
  then have "serveClient None (allowClient (Some [\<lparr>N = 7, E = 3\<rparr>])
               (AskClientPublicKey toy None 5 (Inr (replicate 16 1)) (toy_input 3 ?s))) ''1''
             = Inr [LaunchRemoteLogin, WaitStop, CloseSession, StopListener]"
    by (simp add: serveClient_def askServerMode_def MODE_REM_LOGIN_def MODE_BOTH_def MODE_PORT_FORW_def)
  from services_need_authentication [OF this] show ?thesis by simp
qed

text \<open>Client and server agree on the services. For every configuration that the command line can
  give, what the server starts when it reads the mode that the client writes is what the client
  uses: port forwarding exactly if the client forwards a port, in either direction, a remote login
  exactly if the client starts one.\<close>

theorem mode_agreement:
  assumes "onlyForwardPort conf \<longrightarrow> localPortForwarding conf \<or> remotePortForwarding conf"
  shows "\<exists>actions. serveClient None (Inr True) (setServerMode conf @ later) = Inr actions
         \<and> (LaunchPortForwarding \<in> set actions \<longleftrightarrow> (\<exists>b. LaunchForward b \<in> set (clientServices conf)))
         \<and> (LaunchRemoteLogin \<in> set actions \<longleftrightarrow> LaunchLogin \<in> set (clientServices conf))"
  using assms
  by (auto simp: serveClient_def setServerMode_def askServerMode_def clientServices_def
      MODE_REM_LOGIN_def MODE_BOTH_def MODE_PORT_FORW_def)

theorem mode_agreement_witness:
  "\<exists>actions. serveClient None (Inr True) (setServerMode (SSHConfig0\<lparr>remotePortForwarding := True\<rparr>)) = Inr actions
     \<and> LaunchPortForwarding \<in> set actions \<and> LaunchRemoteLogin \<in> set actions"
  using mode_agreement [of "SSHConfig0\<lparr>remotePortForwarding := True\<rparr>" "[]"]
  by (auto simp: SSHConfig0_def clientServices_def)

end
