(* ===== verification/Copy_Loops.thy ===== *)
theory Copy_Loops
  imports Client_Auth "HOL-Library.Sublist"
begin

section \<open>Loops that copy bytes between connections\<close>

text \<open>
  The byte pumps of the programs: \<open>readTCPSendQUIC\<close> and \<open>readQuicSendTCP\<close> of
  \<^verbatim>\<open>quic_ssh/port_forwarding.go\<close>, \<open>receiveCommand\<close>, \<open>sendOutputResult\<close>, \<open>writeMessageLoop\<close> and
  \<open>receiveMessageLoop\<close> of \<^verbatim>\<open>quic_ssh/remote_login.go\<close> outside the tests, and \<open>transmit\<close> of
  \<^verbatim>\<open>quic_netcat/main.go\<close>. What is read is in batches, as in \<open>Client_Auth\<close>: a \<open>Read\<close> may return bytes together
  with the end or an error. Connections of the operating system, pipes and the terminal report them on
  their own, which are the batches of \<open>apart\<close>. A loop's result is the
  list of the messages it passed to \<open>Write\<close> until it returned; a loop that does not return has no
  result. \<open>wr k msg\<close> is the result of the \<open>k\<close>-th write. On return every loop reports to its channel,
  and the forwarding loops have closed the connection they write to.
\<close>

subsection \<open>The interface of a connection that is read\<close>

locale reader =
  fixes rd :: "'s \<Rightarrow> byte list \<times> goerr option \<times> 's"
    and content :: "'s \<Rightarrow> byte list"
  assumes rd_data: "rd s = (msg, None, s') \<Longrightarrow> msg \<noteq> [] \<and> content s = msg @ content s'"
    and rd_end: "rd s = (msg, Some err, s') \<Longrightarrow> content s = msg"
begin

lemma rd_induct [case_names rd]:
  assumes "\<And>s. (\<And>msg s'. rd s = (msg, None, s') \<Longrightarrow> P s') \<Longrightarrow> P s"
  shows "P s"
proof (induction "length (content s)" arbitrary: s rule: less_induct)
  case less
  show ?case
  proof (rule assms)
    fix msg s' assume "rd s = (msg, None, s')"
    then have "length (content s') < length (content s)" using rd_data by fastforce
    then show "P s'" by (rule less)
  qed
qed

lemma rd_cases:
  obtains (data) msg s' where "rd s = (msg, None, s')" "msg \<noteq> []" "content s = msg @ content s'"
  | (finished) msg err s' where "rd s = (msg, Some err, s')" "content s = msg"
proof -
  obtain msg e s' where s: "rd s = (msg, e, s')" by (metis prod_cases3)
  show thesis
  proof (cases e)
    case None
    with s rd_data show thesis by (intro data) auto
  next
    case (Some err)
    with s rd_end show thesis by (intro finished) auto
  qed
qed

end

text \<open>The bytes that arrive: what comes after an end is never read.\<close>

fun arrived :: "batches \<Rightarrow> byte list" where
  "arrived [] = []"
| "arrived ((b, ending) # bs) = b @ (if ending = None then arrived bs else [])"

lemma StreamRead_data:
  assumes "StreamRead (Suc n) bs = (msg, None, bs')"
  shows "msg \<noteq> [] \<and> arrived bs = msg @ arrived bs'"
  using assms by (induction "Suc n" bs rule: StreamRead.induct) (auto split: if_splits option.splits)

lemma StreamRead_end:
  assumes "StreamRead (Suc n) bs = (msg, Some err, bs')"
  shows "arrived bs = msg"
  using assms by (induction "Suc n" bs rule: StreamRead.induct) (auto split: if_splits option.splits)

interpretation batch: reader "StreamRead (Suc n)" arrived for n
  by unfold_locales (auto dest: StreamRead_data StreamRead_end)

text \<open>\<open>io.ReadAtLeast\<close> with a minimum of one byte: an error that comes with bytes is left for the next call.\<close>

definition ErrShortBuffer :: goerr where "ErrShortBuffer = GoErr ''short buffer''"

definition ReadAtLeast_1 :: "nat \<Rightarrow> batches \<Rightarrow> byte list \<times> goerr option \<times> batches" where
  "ReadAtLeast_1 n bs =
     (if n < 1 then ([], Some ErrShortBuffer, bs)
      else case StreamRead n bs of (msg, err, bs') \<Rightarrow> (msg, if length msg \<ge> 1 then None else err, bs'))"

lemma StreamRead_end_state: "StreamRead n bs = (msg, Some err, bs') \<Longrightarrow> n \<noteq> 0 \<Longrightarrow> arrived bs' = []"
  by (induction n bs rule: StreamRead.induct) (auto simp: after_end_def split: if_splits option.splits)

interpretation at_least: reader "ReadAtLeast_1 (Suc n)" arrived for n
proof
  fix s msg s'
  assume "ReadAtLeast_1 (Suc n) s = (msg, None, s')"
  then obtain e where "StreamRead (Suc n) s = (msg, e, s')" "msg \<noteq> [] \<or> e = None"
    by (cases "StreamRead (Suc n) s") (auto simp: ReadAtLeast_1_def Suc_le_eq split: if_splits)
  then show "msg \<noteq> [] \<and> arrived s = msg @ arrived s'"
    using batch.rd_data [of n s msg s'] batch.rd_end [of n s msg _ s'] StreamRead_end_state [of "Suc n" s msg _ s']
    by (cases e) auto
next
  fix s msg err s'
  assume "ReadAtLeast_1 (Suc n) s = (msg, Some err, s')"
  then have "StreamRead (Suc n) s = (msg, Some err, s')"
    by (auto simp: ReadAtLeast_1_def split: prod.splits if_splits)
  then show "arrived s = msg" by (rule batch.rd_end)
qed

subsection \<open>The loops\<close>

partial_function (option) readTCPSendQUIC ::
  "nat \<Rightarrow> (nat \<Rightarrow> byte list \<Rightarrow> nat \<times> goerr option) \<Rightarrow> nat \<Rightarrow> batches \<Rightarrow> byte list list option" where
  "readTCPSendQUIC bufSize wr k bs =
     (case ReadAtLeast_1 bufSize bs of
        (msg, err, bs') \<Rightarrow>
          if err \<noteq> None then Some []
          else if fst (wr k msg) \<noteq> length msg \<or> snd (wr k msg) \<noteq> None then Some [msg]
          else Option.bind (readTCPSendQUIC bufSize wr (Suc k) bs') (\<lambda>ws. Some (msg # ws)))"

declare readTCPSendQUIC.simps [code]

partial_function (option) readQuicSendTCP ::
  "nat \<Rightarrow> (nat \<Rightarrow> byte list \<Rightarrow> nat \<times> goerr option) \<Rightarrow> nat \<Rightarrow> batches \<Rightarrow> byte list list option" where
  "readQuicSendTCP bufSize wr k bs =
     (case StreamRead bufSize bs of
        (msg, err, bs') \<Rightarrow>
          if err = None \<or> length msg > 0
          then if length msg \<noteq> fst (wr k msg) \<or> snd (wr k msg) \<noteq> None then Some [msg]
               else if err \<noteq> None then Some [msg]
               else Option.bind (readQuicSendTCP bufSize wr (Suc k) bs') (\<lambda>ws. Some (msg # ws))
          else Some [])"

declare readQuicSendTCP.simps [code]

text \<open>The four loops that ignore the result of their writes.\<close>

partial_function (option) sendOutputResult :: "nat \<Rightarrow> batches \<Rightarrow> byte list list option" where
  "sendOutputResult bufSize bs =
     (case StreamRead bufSize bs of
        (msg, err, bs') \<Rightarrow>
          if err = None then Option.bind (sendOutputResult bufSize bs') (\<lambda>ws. Some (msg # ws)) else Some [])"

declare sendOutputResult.simps [code]

partial_function (option) writeMessageLoop :: "nat \<Rightarrow> batches \<Rightarrow> byte list list option" where
  "writeMessageLoop bufSize bs =
     (case StreamRead bufSize bs of
        (msg, err, bs') \<Rightarrow>
          if err = None then Option.bind (writeMessageLoop bufSize bs') (\<lambda>ws. Some (msg # ws)) else Some [])"

declare writeMessageLoop.simps [code]

partial_function (option) receiveMessageLoop :: "nat \<Rightarrow> batches \<Rightarrow> byte list list option" where
  "receiveMessageLoop bufSize bs =
     (case StreamRead bufSize bs of
        (msg, err, bs') \<Rightarrow>
          let out = (if length msg > 0 then [msg] else [])
          in if err \<noteq> None then Some out
             else Option.bind (receiveMessageLoop bufSize bs') (\<lambda>ws. Some (out @ ws)))"

declare receiveMessageLoop.simps [code]

partial_function (option) transmit :: "nat \<Rightarrow> batches \<Rightarrow> byte list list option" where
  "transmit BufSize bs =
     (case StreamRead BufSize bs of
        (msg, err, bs') \<Rightarrow>
          if err \<noteq> None then Some []
          else Option.bind (transmit BufSize bs') (\<lambda>ws. Some (msg # ws)))"

declare transmit.simps [code]

declare readTCPSendQUIC.simps [simp del] readQuicSendTCP.simps [simp del]

text \<open>\<open>receiveCommand\<close> goes on after it reported an error, to report it again to a channel that nobody
  reads any more: up to that point it is the loop above.\<close>

subsection \<open>What they copy\<close>

lemma StreamRead_bound: "StreamRead n bs = (msg, err, bs') \<Longrightarrow> length msg \<le> n"
  by (induction n bs arbitrary: msg err bs' rule: StreamRead.induct) (auto split: if_splits option.splits)

text \<open>The end comes without bytes.\<close>

definition apart :: "batches \<Rightarrow> bool" where
  "apart bs \<longleftrightarrow> (\<forall>be \<in> set bs. snd be = None \<or> fst be = [])"

lemma apart_read:
  assumes "StreamRead (Suc n) bs = (msg, err, bs')" "apart bs"
  shows "apart bs' \<and> (err \<noteq> None \<longrightarrow> msg = [])"
  using assms
  by (induction "Suc n" bs rule: StreamRead.induct) (auto simp: apart_def after_end_def split: if_splits option.splits)

definition copies :: "nat \<Rightarrow> byte list \<Rightarrow> byte list list option \<Rightarrow> bool" where
  "copies n bytes out \<longleftrightarrow>
     (\<exists>ws. out = Some ws \<and> concat ws = bytes \<and> (\<forall>w \<in> set ws. 0 < length w \<and> length w \<le> n))"

lemma copies_Cons:
  assumes "copies n bytes out" "msg \<noteq> []" "length msg \<le> n"
  shows "copies n (msg @ bytes) (Option.bind out (\<lambda>ws. Some (msg # ws)))"
  using assms by (auto simp: copies_def)

lemma copies_loop:
  assumes "\<And>bs msg bs'. StreamRead (Suc n) bs = (msg, None, bs') \<Longrightarrow> msg \<noteq> []
             \<Longrightarrow> loop bs = Option.bind (loop bs') (\<lambda>ws. Some (msg # ws))"
    and "\<And>bs msg err bs'. StreamRead (Suc n) bs = (msg, Some err, bs') \<Longrightarrow> loop bs = Some (if tail \<and> msg \<noteq> [] then [msg] else [])"
    and "tail \<or> apart bs"
  shows "copies (Suc n) (arrived bs) (loop bs)"
  using assms(3)
proof (induction bs rule: batch.rd_induct [of n])
  case (rd bs)
  show ?case
  proof (cases rule: batch.rd_cases [of n bs])
    case (data msg bs')
    with rd assms(1) StreamRead_bound [of "Suc n" bs] apart_read [of n bs] show ?thesis by (auto intro: copies_Cons)
  next
    case (finished msg err bs')
    then have "length msg \<le> Suc n" "\<not> tail \<longrightarrow> msg = []"
      using StreamRead_bound [of "Suc n" bs] apart_read [of n bs] rd.prems by auto
    with finished assms(2) show ?thesis by (auto simp: copies_def)
  qed
qed

lemma sendOutputResult_copies: "apart bs \<Longrightarrow> copies (Suc n) (arrived bs) (sendOutputResult (Suc n) bs)"
  by (rule copies_loop [where tail = False]) (simp_all add: sendOutputResult.simps)

lemma writeMessageLoop_copies: "apart bs \<Longrightarrow> copies (Suc n) (arrived bs) (writeMessageLoop (Suc n) bs)"
  by (rule copies_loop [where tail = False]) (simp_all add: writeMessageLoop.simps)

lemma transmit_copies: "apart bs \<Longrightarrow> copies (Suc n) (arrived bs) (transmit (Suc n) bs)"
  by (rule copies_loop [where tail = False]) (simp_all add: transmit.simps)

lemma receiveMessageLoop_copies: "copies (Suc n) (arrived bs) (receiveMessageLoop (Suc n) bs)"
  by (rule copies_loop [where tail = True]) (simp_all add: receiveMessageLoop.simps append_eq_Cons_conv fun_eq_iff)

text \<open>The loops of the remote login and of netcat end when their input ends. The one that reads a stream in the remote
  login has written exactly the bytes that it read by then, in order, in pieces that are not empty and fit the
  buffer, for every way the input arrives and every buffer size but zero; the others did so when no bytes
  came together with the end.\<close>

theorem loops_copy_everything:
  assumes "0 < n"
  shows "copies n (arrived bs) (receiveMessageLoop n bs)
         \<and> (apart bs \<longrightarrow> copies n (arrived bs) (transmit n bs) \<and> copies n (arrived bs) (sendOutputResult n bs)
                        \<and> copies n (arrived bs) (writeMessageLoop n bs))"
proof -
  obtain m where "n = Suc m" using assms by (cases n) auto
  then show ?thesis
    by (simp add: transmit_copies sendOutputResult_copies writeMessageLoop_copies receiveMessageLoop_copies)
qed

theorem loops_copy_everything_witness:
  "copies 2 [1, 2, 3, 4] (receiveMessageLoop 2 [([1, 2, 3], None), ([4], Some EOF)])"
  using loops_copy_everything [of 2 "[([1, 2, 3], None), ([4], Some EOF)]"] by simp

text \<open>Netcat reads a stream with the loop that drops bytes that come together with the end: the last piece of what the peer
  sent is lost whenever the FIN arrives with it, as it does when the peer closed its stream after writing.\<close>

lemma transmit_prepend:
  "\<forall>(b, ending) \<in> set bs. ending = None \<Longrightarrow> length t \<le> Suc n \<Longrightarrow>
   copies (Suc n) (concat (map fst bs)) (transmit (Suc n) (bs @ [(t, Some err)]))"
proof (induction "length (concat (map fst bs)) + length bs" arbitrary: bs rule: less_induct)
  case less
  show ?case
  proof (cases bs)
    case Nil
    then show ?thesis using less.prems(2) by (simp add: transmit.simps copies_def)
  next
    case (Cons be cs)
    then obtain b where be: "be = (b, None)" using less.prems(1) by auto
    show ?thesis
    proof (cases "length b > Suc n")
      case True
      let ?bs = "(drop (Suc n) b, None) # cs"
      have "copies (Suc n) (concat (map fst ?bs)) (transmit (Suc n) (?bs @ [(t, Some err)]))"
        using less.prems Cons True by (intro less.hyps) (auto simp: be)
      then have "copies (Suc n) (take (Suc n) b @ concat (map fst ?bs))
          (Option.bind (transmit (Suc n) (?bs @ [(t, Some err)])) (\<lambda>ws. Some (take (Suc n) b # ws)))"
        using True by (intro copies_Cons) auto
      moreover have "take (Suc n) b @ concat (map fst ?bs) = concat (map fst bs)" using Cons be by (simp flip: append_assoc)
      moreover have "transmit (Suc n) (bs @ [(t, Some err)])
          = Option.bind (transmit (Suc n) (?bs @ [(t, Some err)])) (\<lambda>ws. Some (take (Suc n) b # ws))"
        using True Cons be by (simp add: transmit.simps [of "Suc n" "(b, None) # _"])
      ultimately show ?thesis by simp
    next
      case False
      have rest: "copies (Suc n) (concat (map fst cs)) (transmit (Suc n) (cs @ [(t, Some err)]))"
        using less.prems Cons by (intro less.hyps) (auto simp: be)
      show ?thesis
      proof (cases "b = []")
        case True
        have "transmit (Suc n) (([], None) # cs @ [(t, Some err)]) = transmit (Suc n) (cs @ [(t, Some err)])"
          by (subst (1 2) transmit.simps) simp
        then show ?thesis using rest Cons be True by simp
      next
        case ne: False
        then have "copies (Suc n) (b @ concat (map fst cs))
            (Option.bind (transmit (Suc n) (cs @ [(t, Some err)])) (\<lambda>ws. Some (b # ws)))"
          using rest False by (intro copies_Cons) auto
        then show ?thesis using ne False Cons be by (simp add: transmit.simps [of "Suc n" "(b, None) # _"])
      qed
    qed
  qed
qed

theorem netcat_loses_the_last_bytes:
  assumes "\<forall>(b, ending) \<in> set bs. ending = None" "0 < n" "length t \<le> n"
  shows "arrived (bs @ [(t, Some EOF)]) = concat (map fst bs) @ t
         \<and> copies n (concat (map fst bs)) (transmit n (bs @ [(t, Some EOF)]))"
proof
  show "arrived (bs @ [(t, Some EOF)]) = concat (map fst bs) @ t"
    using assms(1) by (induction bs) auto
  obtain m where "n = Suc m" using assms(2) by (cases n) auto
  then show "copies n (concat (map fst bs)) (transmit n (bs @ [(t, Some EOF)]))"
    using transmit_prepend [OF assms(1)] assms(3) by simp
qed

theorem netcat_loses_the_last_bytes_witness:
  "arrived [([1, 2], None), ([3], Some EOF)] = [1, 2, 3] \<and> copies 2 [1, 2] (transmit 2 [([1, 2], None), ([3], Some EOF)])"
  using netcat_loses_the_last_bytes [of "[([1, 2], None)]" 2 "[3]"] by simp

subsection \<open>Forwarding\<close>

lemma readTCPSendQUIC_total:
  "\<exists>ws. readTCPSendQUIC (Suc n) wr k bs = Some ws \<and> prefix (concat ws) (arrived bs)
        \<and> ((\<forall>j m. wr j m = (length m, None)) \<longrightarrow> concat ws = arrived bs)"
proof (induction bs arbitrary: k rule: at_least.rd_induct [of n])
  case (rd bs)
  show ?case
  proof (cases rule: at_least.rd_cases [of n bs])
    case (data msg bs')
    from rd [OF data(1), of "Suc k"] obtain ws where
      "readTCPSendQUIC (Suc n) wr (Suc k) bs' = Some ws" "prefix (concat ws) (arrived bs')"
      "(\<forall>j m. wr j m = (length m, None)) \<longrightarrow> concat ws = arrived bs'" by blast
    with data show ?thesis
      by (cases "fst (wr k msg) \<noteq> length msg \<or> snd (wr k msg) \<noteq> None")
         (auto simp: readTCPSendQUIC.simps [of "Suc n" wr k bs])
  next
    case (finished msg err bs')
    moreover from finished(1) have "msg = []" by (auto simp: ReadAtLeast_1_def not_less_eq_eq split: prod.splits if_splits)
    ultimately show ?thesis by (simp add: readTCPSendQUIC.simps [of "Suc n" wr k bs])
  qed
qed

lemma readQuicSendTCP_total:
  "\<exists>ws. readQuicSendTCP (Suc n) wr k bs = Some ws \<and> prefix (concat ws) (arrived bs)
        \<and> ((\<forall>j m. wr j m = (length m, None)) \<longrightarrow> concat ws = arrived bs)"
proof (induction bs arbitrary: k rule: batch.rd_induct [of n])
  case (rd bs)
  show ?case
  proof (cases rule: batch.rd_cases [of n bs])
    case (data msg bs')
    from rd [OF data(1), of "Suc k"] obtain ws where
      "readQuicSendTCP (Suc n) wr (Suc k) bs' = Some ws" "prefix (concat ws) (arrived bs')"
      "(\<forall>j m. wr j m = (length m, None)) \<longrightarrow> concat ws = arrived bs'" by blast
    with data show ?thesis
      by (cases "length msg \<noteq> fst (wr k msg) \<or> snd (wr k msg) \<noteq> None")
         (auto simp: readQuicSendTCP.simps [of "Suc n" wr k bs])
  next
    case (finished msg err bs')
    then show ?thesis by (auto simp: readQuicSendTCP.simps [of "Suc n" wr k bs])
  qed
qed

text \<open>C19: Port forwarding ends and never alters the data: with a buffer of any size but zero, both
  directions return, whatever arrives, bytes that come together with the end or an error included, and whenever
  a write fails; what they wrote is a prefix of what arrived, and all of it when no write fails.\<close>

theorem forwarding_returns_and_copies:
  assumes "0 < n"
  shows "(\<exists>ws. readTCPSendQUIC n wr 0 bs = Some ws \<and> prefix (concat ws) (arrived bs)
               \<and> ((\<forall>j m. wr j m = (length m, None)) \<longrightarrow> concat ws = arrived bs))
       \<and> (\<exists>ws. readQuicSendTCP n wr 0 bs = Some ws \<and> prefix (concat ws) (arrived bs)
               \<and> ((\<forall>j m. wr j m = (length m, None)) \<longrightarrow> concat ws = arrived bs))"
proof -
  obtain m where "n = Suc m" using assms by (cases n) auto
  then show ?thesis using readTCPSendQUIC_total readQuicSendTCP_total by blast
qed

theorem forwarding_returns_and_copies_witness:
  "\<exists>ws. readQuicSendTCP 2 (\<lambda>_ m. (length m, None)) 0 [([1, 2, 3], None), ([4], Some EOF)] = Some ws
        \<and> concat ws = [1, 2, 3, 4]"
  using forwarding_returns_and_copies [of 2 "\<lambda>_ m. (length m, None)" "[([1, 2, 3], None), ([4], Some EOF)]"] by auto

end
