(* ===== verification/Received_History.thy ===== *)
theory Received_History
  imports Wire_Ack
begin

section \<open>Received packets and acknowledgements\<close>

text \<open>
  \<^verbatim>\<open>internal/ackhandler/received_packet_history.go\<close> and \<^verbatim>\<open>received_packet_handler.go\<close>: which packets
  were received, as a list of intervals of packet numbers, and when and with what an ACK frame is
  made of them. The doubly linked list of intervals is the list of its values from the front, where
  the smallest packet numbers are, to the back; the code walks it from the back.
\<close>

record PacketInterval =
  Start :: PacketNumber
  End :: PacketNumber

record receivedPacketHistory =
  ranges :: "PacketInterval list"
  lowestInReceivedPacketNumbers :: PacketNumber

definition newReceivedPacketHistory :: receivedPacketHistory where
  "newReceivedPacketHistory = \<lparr>ranges = [], lowestInReceivedPacketNumbers = 0\<rparr>"

definition MaxTrackedReceivedAckRanges :: nat where "MaxTrackedReceivedAckRanges = 1000"

definition errTooManyOutstandingReceivedAckRanges :: goerr where
  "errTooManyOutstandingReceivedAckRanges = QErr 69"

text \<open>The loop of \<open>ReceivedPacket\<close>, on the intervals from the back.\<close>

definition merge_ranges :: "PacketInterval \<Rightarrow> PacketInterval list \<Rightarrow> PacketInterval list" where
  "merge_ranges el prevs =
     (case prevs of
        prev # rest \<Rightarrow>
          if End prev + 1 = Start el then prev\<lparr>End := End el\<rparr> # rest else el # prevs
      | [] \<Rightarrow> [el])"

fun receive_back :: "PacketNumber \<Rightarrow> PacketInterval list \<Rightarrow> PacketInterval list" where
  "receive_back p [] = [\<lparr>Start = p, End = p\<rparr>]"
| "receive_back p (el # prevs) =
     (if p \<ge> Start el \<and> p \<le> End el then el # prevs
      else if End el = p - 1 then merge_ranges (el\<lparr>End := p\<rparr>) prevs
      else if Start el = p + 1 then merge_ranges (el\<lparr>Start := p\<rparr>) prevs
      else if p > End el then \<lparr>Start = p, End = p\<rparr> # el # prevs
      else el # receive_back p prevs)"

definition history_ReceivedPacket ::
  "PacketNumber \<Rightarrow> receivedPacketHistory \<Rightarrow> goerr + receivedPacketHistory" where
  "history_ReceivedPacket p h =
     (if length (ranges h) \<ge> MaxTrackedReceivedAckRanges
      then Inl errTooManyOutstandingReceivedAckRanges
      else if length (ranges h) = 0 then Inr (h\<lparr>ranges := [\<lparr>Start = p, End = p\<rparr>]\<rparr>)
      else Inr (h\<lparr>ranges := rev (receive_back p (rev (ranges h)))\<rparr>))"

fun delete_front :: "PacketNumber \<Rightarrow> PacketInterval list \<Rightarrow> PacketInterval list" where
  "delete_front p [] = []"
| "delete_front p (el # els) =
     (if p > Start el \<and> p \<le> End el then el\<lparr>Start := p\<rparr> # delete_front p els
      else if End el < p then delete_front p els
      else el # els)"

definition DeleteBelow :: "PacketNumber \<Rightarrow> receivedPacketHistory \<Rightarrow> receivedPacketHistory" where
  "DeleteBelow p h =
     (if p \<le> lowestInReceivedPacketNumbers h then h
      else h\<lparr>lowestInReceivedPacketNumbers := p, ranges := delete_front p (ranges h)\<rparr>)"

definition GetAckRanges :: "receivedPacketHistory \<Rightarrow> AckRange list" where
  "GetAckRanges h =
     (if length (ranges h) = 0 then []
      else map (\<lambda>el. \<lparr>ar_First = Start el, ar_Last = End el\<rparr>) (rev (ranges h)))"

definition GetHighestAckRange :: "receivedPacketHistory \<Rightarrow> AckRange" where
  "GetHighestAckRange h =
     (if length (ranges h) > 0
      then let r = last (ranges h) in \<lparr>ar_First = Start r, ar_Last = End r\<rparr>
      else \<lparr>ar_First = 0, ar_Last = 0\<rparr>)"

subsection \<open>The set of packets\<close>

definition iv_set :: "PacketInterval \<Rightarrow> PacketNumber set" where
  "iv_set el = {Start el..End el}"

definition ivs_set :: "PacketInterval list \<Rightarrow> PacketNumber set" where
  "ivs_set els = (\<Union>el \<in> set els. iv_set el)"

lemma ivs_set_simps [simp]:
  "ivs_set [] = {}"
  "ivs_set (el # els) = iv_set el \<union> ivs_set els"
  "ivs_set (xs @ ys) = ivs_set xs \<union> ivs_set ys"
  "ivs_set (rev xs) = ivs_set xs"
  by (simp_all add: ivs_set_def Un_commute)

text \<open>
  The intervals from the back: none empty, none reaching the largest 64-bit number, and at least one
  number missing between two neighbours.
\<close>

fun gap_below :: "PacketInterval \<Rightarrow> PacketInterval list \<Rightarrow> bool" where
  "gap_below el [] \<longleftrightarrow> True"
| "gap_below el (prev # _) \<longleftrightarrow> unat (End prev) + 1 < unat (Start el)"

fun wf_back :: "PacketInterval list \<Rightarrow> bool" where
  "wf_back [] \<longleftrightarrow> True"
| "wf_back (el # prevs) \<longleftrightarrow>
     unat (Start el) \<le> unat (End el) \<and> unat (End el) + 1 < 2 ^ 64 \<and> gap_below el prevs \<and> wf_back prevs"

lemma pred_eq_iff:
  "unat (e :: uint64) + 1 < 2 ^ 64 \<Longrightarrow> e = p - 1 \<longleftrightarrow> unat p = unat e + 1"
  by (metis eq_diff_eq unat_succ word_unat_eq_iff)

lemma succ_eq_iff:
  "unat (p :: uint64) + 1 < 2 ^ 64 \<Longrightarrow> s = p + 1 \<longleftrightarrow> unat s = unat p + 1"
  by (metis unat_succ word_unat_eq_iff)

lemma mem_iv_set: "x \<in> iv_set el \<longleftrightarrow> unat (Start el) \<le> unat x \<and> unat x \<le> unat (End el)"
  by (simp add: iv_set_def word_le_nat_alt)

lemma wf_back_below:
  "wf_back (el # prevs) \<Longrightarrow> x \<in> ivs_set prevs \<Longrightarrow> unat x + 1 < unat (Start el)"
proof (induction prevs arbitrary: el)
  case (Cons f prevs)
  then show ?case using Cons.IH [of f] by (force simp: mem_iv_set)
qed simp

lemma ivs_set_member: "ivs_set els = {x. \<exists>el \<in> set els. x \<in> iv_set el}"
  by (auto simp: ivs_set_def)

lemma merge_ranges_correct:
  assumes "unat (Start el) \<le> unat (End el)" "unat (End el) + 1 < 2 ^ 64" "wf_back prevs"
    and "\<forall>x \<in> ivs_set prevs. unat x < unat (Start el)"
  shows "wf_back (merge_ranges el prevs)" "ivs_set (merge_ranges el prevs) = iv_set el \<union> ivs_set prevs"
    and "unat (End el) + 1 < unat (Start nxt) \<Longrightarrow> gap_below nxt (merge_ranges el prevs)"
proof -
  have "wf_back (merge_ranges el prevs) \<and> ivs_set (merge_ranges el prevs) = iv_set el \<union> ivs_set prevs
        \<and> (unat (End el) + 1 < unat (Start nxt) \<longrightarrow> gap_below nxt (merge_ranges el prevs))"
  proof (cases prevs)
    case Nil
    with assms show ?thesis by (simp add: merge_ranges_def)
  next
    case (Cons prev rest)
    from assms(3) Cons have prev: "unat (Start prev) \<le> unat (End prev)" "unat (End prev) + 1 < 2 ^ 64"
      "gap_below prev rest" "wf_back rest" by simp_all
    have "End prev \<in> ivs_set prevs" using Cons prev by (simp add: mem_iv_set)
    with assms(4) have below: "unat (End prev) < unat (Start el)" by blast
    have succ: "unat (End prev + 1) = unat (End prev) + 1" using prev(2) by (rule unat_succ)
    have gap: "gap_below (prev\<lparr>End := End el\<rparr>) rest" using prev(3) by (cases rest) simp_all
    show ?thesis
    proof (cases "End prev + 1 = Start el")
      case True
      then have eq: "unat (Start el) = unat (End prev) + 1" using succ by simp
      have "iv_set (prev\<lparr>End := End el\<rparr>) = iv_set el \<union> iv_set prev"
        using eq prev(1) assms(1) by (auto simp: mem_iv_set)
      with True Cons prev gap assms(1,2) below show ?thesis by (auto simp: merge_ranges_def)
    next
      case False
      then have "unat (End prev) + 1 \<noteq> unat (Start el)" using succ by (metis word_unat_eq_iff)
      with False Cons assms below show ?thesis by (auto simp: merge_ranges_def)
    qed
  qed
  then show "wf_back (merge_ranges el prevs)"
    "ivs_set (merge_ranges el prevs) = iv_set el \<union> ivs_set prevs"
    "unat (End el) + 1 < unat (Start nxt) \<Longrightarrow> gap_below nxt (merge_ranges el prevs)"
    by blast+
qed

lemma receive_back_correct:
  assumes "wf_back els" "unat p + 1 < 2 ^ 64"
  shows "wf_back (receive_back p els) \<and> ivs_set (receive_back p els) = insert p (ivs_set els)
         \<and> (\<forall>nxt. gap_below nxt els \<longrightarrow> unat p + 1 < unat (Start nxt) \<longrightarrow> gap_below nxt (receive_back p els))"
  using assms(1)
proof (induction els)
  case Nil
  then show ?case using assms(2) by (auto simp: iv_set_def)
next
  case (Cons el prevs)
  from Cons.prems have el: "unat (Start el) \<le> unat (End el)" "unat (End el) + 1 < 2 ^ 64"
    "gap_below el prevs" "wf_back prevs" by simp_all
  have below: "\<forall>x \<in> ivs_set prevs. unat x + 1 < unat (Start el)"
    using wf_back_below [OF Cons.prems] by blast
  note pred = pred_eq_iff [OF el(2), of p]
  note succ = succ_eq_iff [OF assms(2), of "Start el"]
  consider (in_range) "unat (Start el) \<le> unat p" "unat p \<le> unat (End el)"
    | (at_end) "unat p = unat (End el) + 1"
    | (at_start) "unat (Start el) = unat p + 1"
    | (above) "unat p > unat (End el) + 1"
    | (lower) "unat p + 1 < unat (Start el)"
    by linarith
  then show ?case
  proof cases
    case in_range
    then have "p \<in> iv_set el" by (simp add: mem_iv_set)
    with in_range Cons.prems show ?thesis by (auto simp: word_le_nat_alt)
  next
    case at_end
    have r: "receive_back p (el # prevs) = merge_ranges (el\<lparr>End := p\<rparr>) prevs"
      using at_end pred by (simp add: word_le_nat_alt)
    have "iv_set (el\<lparr>End := p\<rparr>) = insert p (iv_set el)"
      using at_end el(1) by (auto simp: mem_iv_set word_unat_eq_iff)
    moreover have m: "unat (Start (el\<lparr>End := p\<rparr>)) \<le> unat (End (el\<lparr>End := p\<rparr>))"
      "unat (End (el\<lparr>End := p\<rparr>)) + 1 < 2 ^ 64"
      "\<forall>x \<in> ivs_set prevs. unat x < unat (Start (el\<lparr>End := p\<rparr>))"
      using at_end el assms(2) below by auto
    ultimately show ?thesis
      unfolding r using merge_ranges_correct [OF m(1,2) el(4) m(3)] by auto
  next
    case at_start
    then have neq: "\<not> (unat (Start el) \<le> unat p)" "unat p \<noteq> unat (End el) + 1" using el(1) by auto
    have r: "receive_back p (el # prevs) = merge_ranges (el\<lparr>Start := p\<rparr>) prevs"
      using at_start neq pred succ by (simp add: word_le_nat_alt)
    have "iv_set (el\<lparr>Start := p\<rparr>) = insert p (iv_set el)"
      using at_start el(1) by (auto simp: mem_iv_set word_unat_eq_iff)
    moreover have m: "unat (Start (el\<lparr>Start := p\<rparr>)) \<le> unat (End (el\<lparr>Start := p\<rparr>))"
      "unat (End (el\<lparr>Start := p\<rparr>)) + 1 < 2 ^ 64"
      "\<forall>x \<in> ivs_set prevs. unat x < unat (Start (el\<lparr>Start := p\<rparr>))"
      using at_start el below by auto
    ultimately show ?thesis
      unfolding r using merge_ranges_correct [OF m(1,2) el(4) m(3)] el(1) by auto
  next
    case above
    then have r: "receive_back p (el # prevs) = \<lparr>Start = p, End = p\<rparr> # el # prevs"
      using pred succ el(1) by (auto simp: word_le_nat_alt word_less_nat_alt)
    show ?thesis unfolding r using above Cons.prems assms(2) by (auto simp: iv_set_def)
  next
    case lower
    then have r: "receive_back p (el # prevs) = el # receive_back p prevs"
      using pred succ el(1) by (auto simp: word_le_nat_alt word_less_nat_alt)
    show ?thesis unfolding r using Cons.IH [OF el(4)] lower el by auto
  qed
qed

subsection \<open>Order from the front\<close>

definition bounded :: "PacketInterval \<Rightarrow> bool" where
  "bounded e \<longleftrightarrow> unat (Start e) \<le> unat (End e) \<and> unat (End e) + 1 < 2 ^ 64"

definition apart :: "PacketInterval \<Rightarrow> PacketInterval \<Rightarrow> bool" where
  "apart e f \<longleftrightarrow> unat (End e) + 1 < unat (Start f)"

lemma wf_back_sorted_wrt:
  "wf_back els \<longleftrightarrow> (\<forall>e \<in> set els. bounded e) \<and> sorted_wrt (\<lambda>e f. apart f e) els"
proof (induction els)
  case (Cons e els)
  have "gap_below e els \<longleftrightarrow> (\<forall>f \<in> set els. apart f e)" if wf: "wf_back els"
  proof (cases els)
    case (Cons a rest)
    with wf Cons.IH have "bounded a" "\<forall>f \<in> set rest. apart f a" by simp_all
    then have "apart f e" if "f \<in> set rest" "apart a e" for f
      using that by (fastforce simp: apart_def bounded_def)
    then show ?thesis unfolding Cons by (auto simp: apart_def)
  qed simp
  with Cons.IH show ?case by (auto simp: bounded_def)
qed simp

definition wf_front :: "PacketInterval list \<Rightarrow> bool" where
  "wf_front els \<longleftrightarrow> wf_back (rev els)"

lemma wf_front_iff: "wf_front els \<longleftrightarrow> (\<forall>e \<in> set els. bounded e) \<and> sorted_wrt apart els"
  by (simp add: wf_front_def wf_back_sorted_wrt sorted_wrt_rev)

lemma delete_front_starts:
  "\<forall>f \<in> set els. bounded f \<and> unat p \<le> unat (Start f) \<Longrightarrow> delete_front p els = els"
  by (cases els) (auto simp: word_less_nat_alt word_le_nat_alt bounded_def)

lemma delete_front_correct:
  assumes "wf_front els"
  shows "wf_front (delete_front p els) \<and> ivs_set (delete_front p els) = {x \<in> ivs_set els. p \<le> x}
         \<and> (\<forall>e. (\<forall>f \<in> set els. apart e f) \<longrightarrow> (\<forall>f \<in> set (delete_front p els). apart e f))"
  using assms
proof (induction els)
  case Nil
  then show ?case by simp
next
  case (Cons el els)
  from Cons.prems have el: "bounded el" "\<forall>f \<in> set els. apart el f" "wf_front els"
    by (simp_all add: wf_front_iff)
  have above: "\<forall>x \<in> ivs_set els. unat (End el) < unat x"
    using el(2) by (auto simp: ivs_set_def mem_iv_set apart_def)
  consider (cut) "unat (Start el) < unat p" "unat p \<le> unat (End el)" | (drop) "unat (End el) < unat p"
    | (stop) "unat p \<le> unat (Start el)"
    by linarith
  then show ?case
  proof cases
    case cut
    have "\<forall>f \<in> set els. bounded f \<and> unat p \<le> unat (Start f)"
      using el(2,3) cut by (fastforce simp: apart_def wf_front_iff)
    then have same: "delete_front p els = els" by (rule delete_front_starts)
    have d: "delete_front p (el # els) = el\<lparr>Start := p\<rparr> # els"
      using cut same by (simp add: word_less_nat_alt word_le_nat_alt)
    have "iv_set (el\<lparr>Start := p\<rparr>) = {x \<in> iv_set el. p \<le> x}"
      using cut by (auto simp: mem_iv_set word_le_nat_alt)
    moreover have "\<forall>x \<in> ivs_set els. p \<le> x" using above cut by (auto simp: word_le_nat_alt)
    ultimately show ?thesis
      unfolding d using el cut by (auto simp: wf_front_iff bounded_def apart_def)
  next
    case drop
    then have d: "delete_front p (el # els) = delete_front p els"
      by (simp add: word_less_nat_alt word_le_nat_alt)
    have "\<forall>x \<in> iv_set el. \<not> p \<le> x" using drop by (auto simp: mem_iv_set word_le_nat_alt)
    then show ?thesis unfolding d using Cons.IH [OF el(3)] by auto
  next
    case stop
    then have d: "delete_front p (el # els) = el # els"
      using el(1) by (auto simp: word_less_nat_alt word_le_nat_alt bounded_def)
    have "\<forall>x \<in> ivs_set (el # els). p \<le> x"
      using stop above el(1) by (fastforce simp: mem_iv_set word_le_nat_alt bounded_def)
    then show ?thesis unfolding d using Cons.prems by auto
  qed
qed

subsection \<open>Refinement of a set\<close>

text \<open>
  The abstract history: the set of packets received and not below a limit, and the limit. The
  detailed history refines it, as long as it has fewer intervals than it may track.
\<close>

definition received :: "receivedPacketHistory \<Rightarrow> PacketNumber set" where
  "received h = ivs_set (ranges h)"

definition wf_history :: "receivedPacketHistory \<Rightarrow> bool" where
  "wf_history h \<longleftrightarrow> wf_front (ranges h)"

lemma history_receive:
  assumes "wf_history h" "unat p + 1 < 2 ^ 64" "history_ReceivedPacket p h = Inr h'"
  shows "wf_history h' \<and> received h' = insert p (received h)
         \<and> lowestInReceivedPacketNumbers h' = lowestInReceivedPacketNumbers h"
proof (cases "ranges h = []")
  case True
  with assms show ?thesis
    by (auto simp: history_ReceivedPacket_def wf_history_def wf_front_def received_def iv_set_def
             split: if_splits)
next
  case False
  with assms(3) have h': "h' = h\<lparr>ranges := rev (receive_back p (rev (ranges h)))\<rparr>"
    by (auto simp: history_ReceivedPacket_def split: if_splits)
  have "wf_back (rev (ranges h))" using assms(1) by (simp add: wf_history_def wf_front_def)
  from receive_back_correct [OF this assms(2)] show ?thesis
    by (simp add: h' wf_history_def wf_front_def received_def)
qed

lemma history_delete:
  assumes "wf_history h" "\<forall>x \<in> received h. lowestInReceivedPacketNumbers h \<le> x"
  shows "wf_history (DeleteBelow p h) \<and> received (DeleteBelow p h) = {x \<in> received h. p \<le> x}
         \<and> (\<forall>x \<in> received (DeleteBelow p h). lowestInReceivedPacketNumbers (DeleteBelow p h) \<le> x)"
proof (cases "p \<le> lowestInReceivedPacketNumbers h")
  case True
  then have "\<forall>x \<in> received h. p \<le> x" using assms(2) by (meson order_trans)
  with True assms show ?thesis by (auto simp: DeleteBelow_def)
next
  case False
  have "wf_front (ranges h)" using assms(1) by (simp add: wf_history_def)
  from delete_front_correct [OF this, of p] False show ?thesis
    by (simp add: DeleteBelow_def wf_history_def received_def)
qed

subsection \<open>The interface of a history\<close>

text \<open>
  What the packet handler needs of a history: a set of packet numbers to which packets are added and
  from which the low ones are taken away, and ranges that cover the set and are ordered as an ACK
  frame wants them.
\<close>

definition valid_ranges :: "AckRange list \<Rightarrow> bool" where
  "valid_ranges rs \<longleftrightarrow>
     (\<forall>r \<in> set rs. unat (ar_First r) \<le> unat (ar_Last r) \<and> unat (ar_Last r) + 1 < 2 ^ 64)
     \<and> sorted_wrt (\<lambda>r s. unat (ar_Last s) + 1 < unat (ar_First r)) rs"

lemma valid_ranges_ordered: "valid_ranges rs \<Longrightarrow> ranges_ordered rs"
proof (induction rs rule: ranges_ordered.induct)
  case (1 r s rs)
  then have s: "unat (ar_Last s) + 1 < unat (ar_First r)" "unat (ar_First s) \<le> unat (ar_Last s)"
    "unat (ar_Last s) + 1 < 2 ^ 64"
    by (auto simp: valid_ranges_def)
  from unat_succ [OF s(3)] s
  have "\<not> ar_First r \<le> ar_First s" "\<not> ar_First r \<le> ar_Last s + 1"
    by (simp_all add: word_le_nat_alt)
  moreover have "valid_ranges (s # rs)" using 1(2) by (simp add: valid_ranges_def)
  ultimately show ?case using 1(1) by simp
qed simp_all

locale packet_set =
  fixes recv :: "PacketNumber \<Rightarrow> 'h \<Rightarrow> goerr + 'h"
    and del :: "PacketNumber \<Rightarrow> 'h \<Rightarrow> 'h"
    and ack_ranges :: "'h \<Rightarrow> AckRange list"
    and abs :: "'h \<Rightarrow> PacketNumber set"
    and inv :: "'h \<Rightarrow> bool"
  assumes recv_inv: "inv h \<Longrightarrow> unat p + 1 < 2 ^ 64 \<Longrightarrow> recv p h = Inr h' \<Longrightarrow> inv h'"
    and recv_abs: "inv h \<Longrightarrow> unat p + 1 < 2 ^ 64 \<Longrightarrow> recv p h = Inr h' \<Longrightarrow> abs h' = insert p (abs h)"
    and del_inv: "inv h \<Longrightarrow> inv (del p h)"
    and del_abs: "inv h \<Longrightarrow> {x \<in> abs h. p \<le> x} \<subseteq> abs (del p h) \<and> abs (del p h) \<subseteq> abs h"
    and ranges_abs: "inv h \<Longrightarrow> abs h = (\<Union>r \<in> set (ack_ranges h). {ar_First r..ar_Last r})"
    and ranges_valid: "inv h \<Longrightarrow> valid_ranges (ack_ranges h)"
begin

text \<open>The frame that is made of the ranges of a set with its largest number.\<close>

definition frame_of :: "'h \<Rightarrow> PacketNumber \<Rightarrow> int \<Rightarrow> AckFrame" where
  "frame_of h largest t =
     \<lparr>ack_LargestAcked = largest, ack_LowestAcked = ar_First (last (ack_ranges h)),
      ack_AckRanges = (if length (ack_ranges h) > 1 then ack_ranges h else []),
      ack_PacketReceivedTime = t, ack_DelayTime = 0\<rparr>"

lemma ranges_nonempty: "inv h \<Longrightarrow> abs h \<noteq> {} \<Longrightarrow> ack_ranges h \<noteq> []"
  using ranges_abs by fastforce

lemma member_iff:
  "inv h \<Longrightarrow> x \<in> abs h \<longleftrightarrow> (\<exists>r \<in> set (ack_ranges h). ar_First r \<le> x \<and> x \<le> ar_Last r)"
  using ranges_abs by auto

lemma lowest_is_least:
  assumes "inv h" "x \<in> abs h"
  shows "ar_First (last (ack_ranges h)) \<le> x"
proof -
  obtain r where r: "r \<in> set (ack_ranges h)" "ar_First r \<le> x" using assms member_iff by blast
  then obtain rs where rs: "ack_ranges h = rs @ [last (ack_ranges h)]"
    by (metis append_butlast_last_id empty_iff empty_set)
  let ?l = "last (ack_ranges h)"
  have v: "valid_ranges (rs @ [?l])" using ranges_valid [OF assms(1)] rs by simp
  show ?thesis
  proof (cases "r = ?l")
    case False
    then have "r \<in> set rs" using r(1) rs by (metis Un_iff insert_iff list.set set_append empty_iff)
    with v have "unat (ar_Last ?l) + 1 < unat (ar_First r)" "unat (ar_First ?l) \<le> unat (ar_Last ?l)"
      by (auto simp: valid_ranges_def sorted_wrt_append)
    with r(2) show ?thesis by (simp add: word_le_nat_alt)
  qed (use r in simp)
qed

lemma largest_is_first:
  assumes "inv h" "largest \<in> abs h" "\<forall>x \<in> abs h. x \<le> largest"
  shows "ar_Last (hd (ack_ranges h)) = largest"
proof -
  obtain r rs where rs: "ack_ranges h = r # rs"
    using ranges_nonempty assms(1,2) by (metis empty_iff neq_Nil_conv)
  have v: "valid_ranges (r # rs)" using ranges_valid [OF assms(1)] rs by simp
  then have "ar_First r \<le> ar_Last r" by (simp add: valid_ranges_def word_le_nat_alt)
  then have "ar_Last r \<in> abs h" using member_iff [OF assms(1)] rs by auto
  then have le: "ar_Last r \<le> largest" using assms(3) by blast
  obtain s where s: "s \<in> set (r # rs)" "largest \<le> ar_Last s"
    using member_iff [OF assms(1)] assms(2) rs by auto
  have "ar_Last s \<le> ar_Last r"
  proof (cases "s = r")
    case False
    with s(1) v show ?thesis by (force simp: valid_ranges_def word_le_nat_alt)
  qed simp
  with le s(2) rs show ?thesis by (metis list.sel(1) order.antisym order_trans)
qed

lemma frame_acks_set:
  assumes "inv h" "largest \<in> abs h" "\<forall>x \<in> abs h. x \<le> largest"
  shows "validateAckRanges (frame_of h largest t)"
    and "AcksPacket (frame_of h largest t) p \<longleftrightarrow> p \<in> abs h"
proof -
  have ne: "ack_ranges h \<noteq> []" using ranges_nonempty assms(1,2) by blast
  have v: "valid_ranges (ack_ranges h)" by (rule ranges_valid [OF assms(1)])
  have "ar_Last (ack_ranges h ! 0) = largest"
    using largest_is_first [OF assms] ne by (simp add: hd_conv_nth)
  moreover have "\<forall>r \<in> set (ack_ranges h). \<not> ar_Last r < ar_First r"
    using v by (auto simp: valid_ranges_def word_less_nat_alt)
  ultimately show "validateAckRanges (frame_of h largest t)"
    using ne valid_ranges_ordered [OF v]
    by (auto simp: validateAckRanges_def frame_of_def Let_def)
  have bounds: "p \<in> abs h \<Longrightarrow> ar_First (last (ack_ranges h)) \<le> p \<and> p \<le> largest"
    using lowest_is_least [OF assms(1)] assms(3) by blast
  show "AcksPacket (frame_of h largest t) p \<longleftrightarrow> p \<in> abs h"
  proof (cases "length (ack_ranges h) > 1")
    case True
    with ne have "HasMissingRanges (frame_of h largest t)"
      by (simp add: HasMissingRanges_def frame_of_def)
    then have "AcksPacket (frame_of h largest t) p \<longleftrightarrow>
        ar_First (last (ack_ranges h)) \<le> p \<and> p \<le> largest
        \<and> (\<exists>r \<in> set (ack_ranges h). ar_First r \<le> p \<and> p \<le> ar_Last r)"
      using True by (auto simp: AcksPacket_def frame_of_def)
    then show ?thesis using member_iff [OF assms(1), of p] bounds by blast
  next
    case False
    with ne obtain r where r: "ack_ranges h = [r]"
      by (metis One_nat_def length_0_conv length_Suc_conv less_one linorder_neqE_nat)
    then have "ar_Last r = largest" using largest_is_first [OF assms] by simp
    then have "p \<in> abs h \<longleftrightarrow> ar_First r \<le> p \<and> p \<le> largest" using member_iff [OF assms(1)] r by simp
    then show ?thesis using r by (auto simp: AcksPacket_def frame_of_def HasMissingRanges_def)
  qed
qed

end

text \<open>The code's history provides the interface.\<close>

lemma GetAckRanges_valid:
  assumes "wf_history h"
  shows "valid_ranges (GetAckRanges h)"
proof -
  have "(\<forall>e \<in> set (rev (ranges h)). bounded e) \<and> sorted_wrt (\<lambda>e f. apart f e) (rev (ranges h))"
    using assms by (simp add: wf_history_def wf_front_def wf_back_sorted_wrt)
  then show ?thesis
    by (simp add: valid_ranges_def GetAckRanges_def sorted_wrt_map bounded_def apart_def)
qed

lemma received_ranges: "received h = (\<Union>r \<in> set (GetAckRanges h). {ar_First r..ar_Last r})"
  by (auto simp: received_def ivs_set_def iv_set_def GetAckRanges_def)

lemma DeleteBelow_wf:
  "wf_history h \<Longrightarrow> wf_history (DeleteBelow p h) \<and> {x \<in> received h. p \<le> x} \<subseteq> received (DeleteBelow p h)
   \<and> received (DeleteBelow p h) \<subseteq> received h"
  using delete_front_correct [of "ranges h" p]
  by (auto simp: DeleteBelow_def wf_history_def received_def)

interpretation history:
  packet_set history_ReceivedPacket DeleteBelow GetAckRanges received wf_history
proof unfold_locales
  fix h p h' assume "wf_history h" "unat p + 1 < 2 ^ 64" "history_ReceivedPacket p h = Inr h'"
  from history_receive [OF this]
  show "wf_history h'" "received h' = insert p (received h)" by simp_all
next
  fix h p assume h: "wf_history h"
  from DeleteBelow_wf [OF h] show "wf_history (DeleteBelow p h)"
    "{x \<in> received h. p \<le> x} \<subseteq> received (DeleteBelow p h) \<and> received (DeleteBelow p h) \<subseteq> received h"
    by simp_all
  from h show "valid_ranges (GetAckRanges h)" by (rule GetAckRanges_valid)
  show "received h = (\<Union>r \<in> set (GetAckRanges h). {ar_First r..ar_Last r})"
    by (rule received_ranges)
qed

text \<open>C10: The interval list of the history refines a set of packet numbers. Adding a packet adds its
  number, in whatever order packets arrive and whether or not it is a duplicate; deleting below a
  limit removes exactly the smaller numbers; and the intervals stay non-empty, apart from each
  other and in order. (Packet numbers are below the largest 64-bit number.)\<close>

theorem history_refines_set:
  assumes "wf_history h" "unat p + 1 < 2 ^ 64" "history_ReceivedPacket p h = Inr h'"
    and "\<forall>x \<in> received h'. lowestInReceivedPacketNumbers h' \<le> x"
  shows "wf_history h' \<and> received h' = insert p (received h)
         \<and> wf_history (DeleteBelow q h') \<and> received (DeleteBelow q h') = {x \<in> insert p (received h). q \<le> x}"
  using history_receive [OF assms(1-3)] history_delete [of h' q] assms(4) by metis

theorem history_refines_set_witness:
  "\<exists>h'. history_ReceivedPacket 5 newReceivedPacketHistory = Inr h' \<and> received h' = {5}"
proof -
  obtain h' where h': "history_ReceivedPacket 5 newReceivedPacketHistory = Inr h'"
    "h' = \<lparr>ranges = [\<lparr>Start = 5, End = 5\<rparr>], lowestInReceivedPacketNumbers = 0\<rparr>"
    by (simp add: history_ReceivedPacket_def newReceivedPacketHistory_def MaxTrackedReceivedAckRanges_def)
  have "wf_history h' \<and> received h' = insert 5 (received newReceivedPacketHistory)
        \<and> wf_history (DeleteBelow 0 h') \<and> received (DeleteBelow 0 h') = {x \<in> insert 5 (received newReceivedPacketHistory). 0 \<le> x}"
    by (rule history_refines_set [OF _ _ h'(1)])
       (simp_all add: h'(2) newReceivedPacketHistory_def wf_history_def wf_front_def)
  then show ?thesis using h'(1) by (auto simp: newReceivedPacketHistory_def received_def)
qed

end
