(* ===== verification/Received_Handler.thy ===== *)
theory Received_Handler
  imports Received_History
begin

section \<open>When packets are acknowledged\<close>

text \<open>
  \<^verbatim>\<open>internal/ackhandler/received_packet_handler.go\<close>. Times are numbers of nanoseconds; the zero
  \<open>time.Time\<close>, an alarm that is not set, is \<open>None\<close>. The version field, which nothing reads, is left
  out.
\<close>

record receivedPacketHandler =
  largestObserved :: PacketNumber
  ignoreBelow :: PacketNumber
  largestObservedReceivedTime :: int
  packetHistory :: receivedPacketHistory
  ackSendDelay :: int
  packetsReceivedSinceLastAck :: nat
  retransmittablePacketsReceivedSinceLastAck :: nat
  ackQueued :: bool
  ackAlarm :: "int option"
  lastAck :: "AckFrame option"

definition AckSendDelay :: int where "AckSendDelay = 25000000"

definition RetransmittablePacketsBeforeAck :: nat where "RetransmittablePacketsBeforeAck = 10"

definition NewReceivedPacketHandler :: receivedPacketHandler where
  "NewReceivedPacketHandler =
     \<lparr>largestObserved = 0, ignoreBelow = 0, largestObservedReceivedTime = 0,
      packetHistory = newReceivedPacketHistory, ackSendDelay = AckSendDelay,
      packetsReceivedSinceLastAck = 0, retransmittablePacketsReceivedSinceLastAck = 0,
      ackQueued = False, ackAlarm = None, lastAck = None\<rparr>"

definition maybeQueueAck ::
  "PacketNumber \<Rightarrow> int \<Rightarrow> bool \<Rightarrow> receivedPacketHandler \<Rightarrow> receivedPacketHandler" where
  "maybeQueueAck packetNumber rcvTime shouldInstigateAck h =
     (let h = h\<lparr>packetsReceivedSinceLastAck := packetsReceivedSinceLastAck h + 1\<rparr>;
          h = (if shouldInstigateAck
               then h\<lparr>retransmittablePacketsReceivedSinceLastAck :=
                        retransmittablePacketsReceivedSinceLastAck h + 1\<rparr> else h);
          h = (case lastAck h of
                 None \<Rightarrow> h\<lparr>ackQueued := True\<rparr>
               | Some ack \<Rightarrow>
                   let h = (if packetNumber < ack_LargestAcked ack then h\<lparr>ackQueued := True\<rparr> else h)
                   in if ar_First (GetHighestAckRange (packetHistory h)) > ack_LargestAcked ack
                      then h\<lparr>ackQueued := True\<rparr> else h);
          h = (if \<not> ackQueued h \<and> shouldInstigateAck then
                 (if retransmittablePacketsReceivedSinceLastAck h \<ge> RetransmittablePacketsBeforeAck
                  then h\<lparr>ackQueued := True\<rparr>
                  else if ackAlarm h = None then h\<lparr>ackAlarm := Some (rcvTime + ackSendDelay h)\<rparr>
                  else h)
               else h)
      in if ackQueued h then h\<lparr>ackAlarm := None\<rparr> else h)"

definition handler_ReceivedPacket ::
  "PacketNumber \<Rightarrow> int \<Rightarrow> bool \<Rightarrow> receivedPacketHandler \<Rightarrow> goerr option \<times> receivedPacketHandler" where
  "handler_ReceivedPacket packetNumber rcvTime shouldInstigateAck h =
     (let h = (if packetNumber > largestObserved h
               then h\<lparr>largestObserved := packetNumber, largestObservedReceivedTime := rcvTime\<rparr> else h)
      in if packetNumber < ignoreBelow h then (None, h)
         else case history_ReceivedPacket packetNumber (packetHistory h) of
                Inl err \<Rightarrow> (Some err, h)
              | Inr ph \<Rightarrow>
                  (None, maybeQueueAck packetNumber rcvTime shouldInstigateAck (h\<lparr>packetHistory := ph\<rparr>)))"

definition IgnoreBelow :: "PacketNumber \<Rightarrow> receivedPacketHandler \<Rightarrow> receivedPacketHandler" where
  "IgnoreBelow p h = h\<lparr>ignoreBelow := p, packetHistory := DeleteBelow p (packetHistory h)\<rparr>"

text \<open>\<open>GetAckFrame\<close> at time \<open>now\<close>: a frame or \<open>nil\<close>, or the panic of indexing no ranges.\<close>

definition GetAckFrame ::
  "int \<Rightarrow> receivedPacketHandler \<Rightarrow> goerr + AckFrame option \<times> receivedPacketHandler" where
  "GetAckFrame now h =
     (if \<not> ackQueued h \<and> (case ackAlarm h of None \<Rightarrow> True | Some t \<Rightarrow> now < t) then Inr (None, h)
      else let ackRanges = GetAckRanges (packetHistory h) in
           if ackRanges = [] then Inl (Panic ''index out of range'')
           else let ack = \<lparr>ack_LargestAcked = largestObserved h,
                           ack_LowestAcked = ar_First (ackRanges ! (length ackRanges - 1)),
                           ack_AckRanges = (if length ackRanges > 1 then ackRanges else []),
                           ack_PacketReceivedTime = largestObservedReceivedTime h,
                           ack_DelayTime = 0\<rparr>
                in Inr (Some ack, h\<lparr>lastAck := Some ack, ackAlarm := None, ackQueued := False,
                                    packetsReceivedSinceLastAck := 0,
                                    retransmittablePacketsReceivedSinceLastAck := 0\<rparr>))"

definition GetAlarmTimeout :: "receivedPacketHandler \<Rightarrow> int option" where
  "GetAlarmTimeout h = ackAlarm h"

subsection \<open>Runs of the handler\<close>

text \<open>
  The session receives packets, asks for frames, and moves the limit when a packet confirms that an
  ACK frame arrived: to the number after the largest that frame acknowledged. A peer that numbers
  its packets in the order in which it sends them confirms it in a packet with a larger number, so
  the limit is then at most the largest number observed.

  \<open>handler_run h ps lim now\<close>: a run in which the packets \<open>ps\<close> came in, the largest limit was \<open>lim\<close>
  and the last packet came at time \<open>now\<close> ended in the state \<open>h\<close>.
\<close>

inductive handler_run ::
  "receivedPacketHandler \<Rightarrow> PacketNumber set \<Rightarrow> PacketNumber \<Rightarrow> int \<Rightarrow> bool" where
  start: "handler_run NewReceivedPacketHandler {} 0 now"
| receive: "handler_run h ps lim now \<Longrightarrow> unat p + 1 < 2 ^ 64 \<Longrightarrow> now \<le> t
    \<Longrightarrow> handler_ReceivedPacket p t ack h = (None, h') \<Longrightarrow> handler_run h' (insert p ps) lim t"
| ignore: "handler_run h ps lim now \<Longrightarrow> p \<le> largestObserved h
    \<Longrightarrow> handler_run (IgnoreBelow p h) ps (max lim p) now"
| ask: "handler_run h ps lim now \<Longrightarrow> GetAckFrame t h = Inr (f, h') \<Longrightarrow> handler_run h' ps lim now"

definition pending :: "receivedPacketHandler \<Rightarrow> bool" where
  "pending h \<longleftrightarrow> ackQueued h \<or> ackAlarm h \<noteq> None"

definition handler_inv :: "receivedPacketHandler \<Rightarrow> bool" where
  "handler_inv h \<longleftrightarrow>
     wf_history (packetHistory h)
     \<and> (if received (packetHistory h) = {} then largestObserved h = 0
        else largestObserved h \<in> received (packetHistory h))
     \<and> (\<forall>x \<in> received (packetHistory h). x \<le> largestObserved h)
     \<and> ignoreBelow h \<le> largestObserved h
     \<and> lowestInReceivedPacketNumbers (packetHistory h) \<le> largestObserved h
     \<and> (pending h \<longrightarrow> received (packetHistory h) \<noteq> {})
     \<and> (\<not> ackQueued h \<longrightarrow> retransmittablePacketsReceivedSinceLastAck h < RetransmittablePacketsBeforeAck
           \<and> (0 < retransmittablePacketsReceivedSinceLastAck h \<longrightarrow> ackAlarm h \<noteq> None))
     \<and> ackSendDelay h = AckSendDelay"

lemma maybeQueueAck_keeps [simp]:
  "packetHistory (maybeQueueAck p t b h) = packetHistory h"
  "largestObserved (maybeQueueAck p t b h) = largestObserved h"
  "ignoreBelow (maybeQueueAck p t b h) = ignoreBelow h"
  "ackSendDelay (maybeQueueAck p t b h) = ackSendDelay h"
  by (simp_all add: maybeQueueAck_def Let_def split: option.splits)

text \<open>The counters after \<open>maybeQueueAck\<close>: an ACK is queued, or the tenth packet has not come and an
  alarm is set.\<close>

lemma maybeQueueAck_counts:
  assumes "\<not> ackQueued h \<longrightarrow> retransmittablePacketsReceivedSinceLastAck h < RetransmittablePacketsBeforeAck
             \<and> (0 < retransmittablePacketsReceivedSinceLastAck h \<longrightarrow> ackAlarm h \<noteq> None)"
    and "\<not> ackQueued (maybeQueueAck p t b h)"
  shows "retransmittablePacketsReceivedSinceLastAck (maybeQueueAck p t b h) < RetransmittablePacketsBeforeAck
         \<and> (0 < retransmittablePacketsReceivedSinceLastAck (maybeQueueAck p t b h)
              \<longrightarrow> ackAlarm (maybeQueueAck p t b h) \<noteq> None)"
  using assms by (auto simp: maybeQueueAck_def Let_def split: option.splits if_splits)

lemma handler_inv_start: "handler_inv NewReceivedPacketHandler"
  by (simp add: handler_inv_def NewReceivedPacketHandler_def newReceivedPacketHistory_def received_def
      wf_history_def wf_front_def pending_def RetransmittablePacketsBeforeAck_def)

text \<open>\<open>ReceivedPacket\<close> with its updates of the largest packet seen as one step before the rest.\<close>

lemma handler_receive_cases:
  assumes "handler_ReceivedPacket p t b h = (None, h')"
  obtains h0 where "packetHistory h0 = packetHistory h" "ignoreBelow h0 = ignoreBelow h"
    "largestObserved h0 = (if p > largestObserved h then p else largestObserved h)"
    "ackSendDelay h0 = ackSendDelay h" "ackQueued h0 = ackQueued h" "ackAlarm h0 = ackAlarm h"
    "retransmittablePacketsReceivedSinceLastAck h0 = retransmittablePacketsReceivedSinceLastAck h"
    "\<not> p > largestObserved h \<longrightarrow> h0 = h"
    "p < ignoreBelow h \<and> h' = h0 \<or>
     \<not> p < ignoreBelow h \<and> (\<exists>ph. history_ReceivedPacket p (packetHistory h) = Inr ph
        \<and> h' = maybeQueueAck p t b (h0\<lparr>packetHistory := ph\<rparr>))"
proof -
  define h0 where "h0 = (if p > largestObserved h
            then h\<lparr>largestObserved := p, largestObservedReceivedTime := t\<rparr> else h)"
  have keep: "packetHistory h0 = packetHistory h" "ignoreBelow h0 = ignoreBelow h"
    "largestObserved h0 = (if p > largestObserved h then p else largestObserved h)"
    "ackSendDelay h0 = ackSendDelay h" "ackQueued h0 = ackQueued h" "ackAlarm h0 = ackAlarm h"
    "retransmittablePacketsReceivedSinceLastAck h0 = retransmittablePacketsReceivedSinceLastAck h"
    "\<not> p > largestObserved h \<longrightarrow> h0 = h"
    by (simp_all add: h0_def)
  have "handler_ReceivedPacket p t b h =
      (if p < ignoreBelow h then (None, h0)
       else case history_ReceivedPacket p (packetHistory h) of
              Inl err \<Rightarrow> (Some err, h0)
            | Inr ph \<Rightarrow> (None, maybeQueueAck p t b (h0\<lparr>packetHistory := ph\<rparr>)))"
    by (simp add: handler_ReceivedPacket_def Let_def h0_def [symmetric] keep)
  with assms have "p < ignoreBelow h \<and> h' = h0 \<or>
     \<not> p < ignoreBelow h \<and> (\<exists>ph. history_ReceivedPacket p (packetHistory h) = Inr ph
        \<and> h' = maybeQueueAck p t b (h0\<lparr>packetHistory := ph\<rparr>))"
    by (auto split: if_splits sum.splits)
  with keep show ?thesis by (rule that)
qed

definition counters_ok :: "receivedPacketHandler \<Rightarrow> bool" where
  "counters_ok h \<longleftrightarrow> (\<not> ackQueued h \<longrightarrow>
     retransmittablePacketsReceivedSinceLastAck h < RetransmittablePacketsBeforeAck
     \<and> (0 < retransmittablePacketsReceivedSinceLastAck h \<longrightarrow> ackAlarm h \<noteq> None))"

lemma handler_inv_receive:
  assumes "handler_inv h" "unat p + 1 < 2 ^ 64" "handler_ReceivedPacket p t b h = (None, h')"
  shows "handler_inv h'"
proof -
  from assms(3) obtain h0 where keep: "packetHistory h0 = packetHistory h" "ignoreBelow h0 = ignoreBelow h"
    "largestObserved h0 = (if p > largestObserved h then p else largestObserved h)"
    "ackSendDelay h0 = ackSendDelay h" "ackQueued h0 = ackQueued h" "ackAlarm h0 = ackAlarm h"
    "retransmittablePacketsReceivedSinceLastAck h0 = retransmittablePacketsReceivedSinceLastAck h"
    "\<not> p > largestObserved h \<longrightarrow> h0 = h"
    and run: "p < ignoreBelow h \<and> h' = h0 \<or>
     \<not> p < ignoreBelow h \<and> (\<exists>ph. history_ReceivedPacket p (packetHistory h) = Inr ph
        \<and> h' = maybeQueueAck p t b (h0\<lparr>packetHistory := ph\<rparr>))"
    by (rule handler_receive_cases)
  from assms(1) have wf: "wf_history (packetHistory h)"
    and obs: "if received (packetHistory h) = {} then largestObserved h = 0
        else largestObserved h \<in> received (packetHistory h)"
    and upper: "\<forall>x \<in> received (packetHistory h). x \<le> largestObserved h"
    and ign: "ignoreBelow h \<le> largestObserved h"
    and low: "lowestInReceivedPacketNumbers (packetHistory h) \<le> largestObserved h"
    and delay: "ackSendDelay h = AckSendDelay"
    and counts: "counters_ok h"
    by (simp_all add: handler_inv_def counters_ok_def)
  show ?thesis
  proof (cases "p < ignoreBelow h")
    case True
    then have "h0 = h" using ign keep(8) by auto
    with True run assms(1) show ?thesis by simp
  next
    case False
    then obtain ph where ph: "history_ReceivedPacket p (packetHistory h) = Inr ph"
      and h': "h' = maybeQueueAck p t b (h0\<lparr>packetHistory := ph\<rparr>)"
      using run by blast
    have r: "wf_history ph" "received ph = insert p (received (packetHistory h))"
      "lowestInReceivedPacketNumbers ph = lowestInReceivedPacketNumbers (packetHistory h)"
      using history_receive [OF wf assms(2) ph] by simp_all
    have "largestObserved h0 \<in> received ph"
      using obs r(2) keep(3) by (auto simp: word_gt_0 split: if_splits)
    moreover have "\<forall>x \<in> received ph. x \<le> largestObserved h0"
      using upper r(2) keep(3) by (auto intro: less_imp_le)
    moreover have "ignoreBelow h \<le> largestObserved h0" using ign keep(3) by auto
    moreover have "lowestInReceivedPacketNumbers ph \<le> largestObserved h0" using low r(3) keep(3) by auto
    moreover have "counters_ok (h0\<lparr>packetHistory := ph\<rparr>)" using counts keep by (simp add: counters_ok_def)
    ultimately show ?thesis
      using maybeQueueAck_counts [of "h0\<lparr>packetHistory := ph\<rparr>" p t b] r delay keep
      by (auto simp: handler_inv_def h' counters_ok_def)
  qed
qed

lemma DeleteBelow_keeps_largest:
  assumes "handler_inv h" "p \<le> largestObserved h"
  shows "if received (DeleteBelow p (packetHistory h)) = {} then largestObserved h = 0
         else largestObserved h \<in> received (DeleteBelow p (packetHistory h))"
    and "received (packetHistory h) \<noteq> {} \<Longrightarrow> received (DeleteBelow p (packetHistory h)) \<noteq> {}"
proof -
  have "wf_history (packetHistory h)" using assms(1) by (simp add: handler_inv_def)
  from history.del_abs [OF this, of p] assms
  show "if received (DeleteBelow p (packetHistory h)) = {} then largestObserved h = 0
         else largestObserved h \<in> received (DeleteBelow p (packetHistory h))"
    and "received (packetHistory h) \<noteq> {} \<Longrightarrow> received (DeleteBelow p (packetHistory h)) \<noteq> {}"
    by (auto simp: handler_inv_def split: if_splits)
qed

lemma handler_inv_ignore:
  assumes "handler_inv h" "p \<le> largestObserved h"
  shows "handler_inv (IgnoreBelow p h)"
proof -
  have wf: "wf_history (packetHistory h)" using assms(1) by (simp add: handler_inv_def)
  have upper: "\<forall>x \<in> received (DeleteBelow p (packetHistory h)). x \<le> largestObserved h"
    using history.del_abs [OF wf, of p] assms(1) by (auto simp: handler_inv_def)
  have low: "lowestInReceivedPacketNumbers (DeleteBelow p (packetHistory h)) \<le> largestObserved h"
    using assms by (simp add: handler_inv_def DeleteBelow_def)
  have "pending (IgnoreBelow p h) = pending h" by (simp add: pending_def IgnoreBelow_def)
  moreover have "pending h \<longrightarrow> received (packetHistory h) \<noteq> {}" using assms(1) by (simp add: handler_inv_def)
  ultimately show ?thesis
    using history.del_inv [OF wf, of p] upper low DeleteBelow_keeps_largest [OF assms] assms
    by (simp add: handler_inv_def IgnoreBelow_def)
qed

lemma GetAckFrame_state:
  assumes "GetAckFrame now h = Inr (f, h')"
  shows "(f = None \<and> h' = h) \<or> (\<exists>ack. h' = h\<lparr>lastAck := Some ack, ackAlarm := None, ackQueued := False,
           packetsReceivedSinceLastAck := 0, retransmittablePacketsReceivedSinceLastAck := 0\<rparr>)"
  using assms by (auto simp: GetAckFrame_def Let_def split: if_splits)

lemma handler_inv_ask:
  assumes "handler_inv h" "GetAckFrame now h = Inr (f, h')"
  shows "handler_inv h'"
proof (cases "h' = h")
  case True
  with assms(1) show ?thesis by simp
next
  case False
  with GetAckFrame_state [OF assms(2)] obtain ack
    where h': "h' = h\<lparr>lastAck := Some ack, ackAlarm := None, ackQueued := False,
      packetsReceivedSinceLastAck := 0, retransmittablePacketsReceivedSinceLastAck := 0\<rparr>"
    by blast
  have "\<not> pending h'" by (simp add: h' pending_def)
  with assms(1) show ?thesis by (simp add: handler_inv_def RetransmittablePacketsBeforeAck_def h')
qed

lemma maybeQueueAck_alarm:
  "ackAlarm (maybeQueueAck p t b h) = None \<or> ackAlarm (maybeQueueAck p t b h) = ackAlarm h
   \<or> ackAlarm (maybeQueueAck p t b h) = Some (t + ackSendDelay h)"
  by (simp add: maybeQueueAck_def Let_def split: option.splits)

lemma maybeQueueAck_alarm_eq:
  "ackAlarm (maybeQueueAck p t b h) = Some a \<Longrightarrow> ackAlarm h = Some a \<or> a = t + ackSendDelay h"
  using maybeQueueAck_alarm [of p t b h] by auto

lemma handler_receive_alarm:
  assumes "handler_ReceivedPacket p t b h = (None, h')"
  shows "ackAlarm h' = None \<or> ackAlarm h' = ackAlarm h \<or> ackAlarm h' = Some (t + ackSendDelay h)"
    and "ignoreBelow h' = ignoreBelow h"
proof -
  from assms obtain h0 where h0: "ignoreBelow h0 = ignoreBelow h" "ackSendDelay h0 = ackSendDelay h"
    "ackAlarm h0 = ackAlarm h"
    and "p < ignoreBelow h \<and> h' = h0 \<or>
     \<not> p < ignoreBelow h \<and> (\<exists>ph. history_ReceivedPacket p (packetHistory h) = Inr ph
        \<and> h' = maybeQueueAck p t b (h0\<lparr>packetHistory := ph\<rparr>))"
    by (rule handler_receive_cases)
  then consider "h' = h0" | ph where "h' = maybeQueueAck p t b (h0\<lparr>packetHistory := ph\<rparr>)" by blast
  then show "ackAlarm h' = None \<or> ackAlarm h' = ackAlarm h \<or> ackAlarm h' = Some (t + ackSendDelay h)"
    and "ignoreBelow h' = ignoreBelow h"
    using h0 maybeQueueAck_alarm [of p t b "h0\<lparr>packetHistory := ph\<rparr>" for ph] by (cases; auto)+
qed

lemma handler_receive_packets:
  assumes "handler_inv h" "unat p + 1 < 2 ^ 64" "handler_ReceivedPacket p t b h = (None, h')"
  shows "received (packetHistory h') =
           (if p < ignoreBelow h then received (packetHistory h) else insert p (received (packetHistory h)))"
proof -
  have wf: "wf_history (packetHistory h)" using assms(1) by (simp add: handler_inv_def)
  from assms(3) obtain h0 where h0: "packetHistory h0 = packetHistory h"
    and "p < ignoreBelow h \<and> h' = h0 \<or>
     \<not> p < ignoreBelow h \<and> (\<exists>ph. history_ReceivedPacket p (packetHistory h) = Inr ph
        \<and> h' = maybeQueueAck p t b (h0\<lparr>packetHistory := ph\<rparr>))"
    by (rule handler_receive_cases)
  then show ?thesis using history.recv_abs [OF wf assms(2)] by (elim disjE conjE exE) simp_all
qed

definition run_inv :: "receivedPacketHandler \<Rightarrow> PacketNumber set \<Rightarrow> PacketNumber \<Rightarrow> int \<Rightarrow> bool" where
  "run_inv h ps lim now \<longleftrightarrow>
     handler_inv h \<and> received (packetHistory h) \<subseteq> ps
     \<and> {x \<in> ps. lim \<le> x} \<subseteq> received (packetHistory h) \<and> ignoreBelow h \<le> lim
     \<and> (\<forall>a. ackAlarm h = Some a \<longrightarrow> a \<le> now + AckSendDelay)"

lemma handler_run_inv: "handler_run h ps lim now \<Longrightarrow> run_inv h ps lim now"
proof (induction rule: handler_run.induct)
  case (start now)
  then show ?case using handler_inv_start
    by (simp add: run_inv_def NewReceivedPacketHandler_def newReceivedPacketHistory_def received_def)
next
  case (receive h ps lim now p t ack h')
  have inv: "handler_inv h" "ackSendDelay h = AckSendDelay"
    using receive.IH by (simp_all add: run_inv_def handler_inv_def)
  note r = handler_receive_packets [OF inv(1) receive.hyps(2,4)]
  have "\<forall>a. ackAlarm h' = Some a \<longrightarrow> a \<le> t + AckSendDelay"
  proof (intro allI impI)
    fix a assume a: "ackAlarm h' = Some a"
    with handler_receive_alarm(1) [OF receive.hyps(4)] inv(2)
    consider "ackAlarm h = Some a" | "a = t + AckSendDelay" by auto
    then show "a \<le> t + AckSendDelay"
    proof cases
      case 1
      then have "a \<le> now + AckSendDelay" using receive.IH by (simp add: run_inv_def)
      with receive.hyps(3) show ?thesis by simp
    qed simp
  qed
  moreover have "received (packetHistory h') \<subseteq> insert p ps"
    "{x \<in> insert p ps. lim \<le> x} \<subseteq> received (packetHistory h')"
    using r receive.IH by (auto simp: run_inv_def)
  ultimately show ?case
    using handler_inv_receive [OF inv(1) receive.hyps(2,4)] handler_receive_alarm(2) [OF receive.hyps(4)]
      receive.IH by (simp add: run_inv_def)
next
  case (ignore h ps lim now p)
  have inv: "handler_inv h" using ignore.IH by (simp add: run_inv_def)
  then have wf: "wf_history (packetHistory h)" by (simp add: handler_inv_def)
  have "received (DeleteBelow p (packetHistory h)) \<subseteq> ps"
    "{x \<in> ps. max lim p \<le> x} \<subseteq> received (DeleteBelow p (packetHistory h))"
    using history.del_abs [OF wf, of p] ignore.IH by (auto simp: run_inv_def)
  then show ?case
    using handler_inv_ignore [OF inv ignore.hyps(2)] ignore.IH by (simp add: run_inv_def IgnoreBelow_def)
next
  case (ask h ps lim now t f h')
  have "handler_inv h'" using handler_inv_ask [OF _ ask.hyps(2)] ask.IH by (simp add: run_inv_def)
  then show ?case using GetAckFrame_state [OF ask.hyps(2)] ask.IH by (auto simp: run_inv_def)
qed

text \<open>The frame of a handler that satisfies the invariant is the frame of its set of packets.\<close>

lemma GetAckFrame_frame:
  assumes "handler_inv h" "ackQueued h \<or> (\<exists>a. ackAlarm h = Some a \<and> a \<le> now)"
  shows "\<exists>h'. GetAckFrame now h =
           Inr (Some (history.frame_of (packetHistory h) (largestObserved h) (largestObservedReceivedTime h)), h')"
    and "received (packetHistory h) \<noteq> {}"
proof -
  show ne: "received (packetHistory h) \<noteq> {}" using assms by (auto simp: handler_inv_def pending_def)
  have "wf_history (packetHistory h)" using assms(1) by (simp add: handler_inv_def)
  from history.ranges_nonempty [OF this ne] have "GetAckRanges (packetHistory h) \<noteq> []" .
  with assms(2) show "\<exists>h'. GetAckFrame now h =
      Inr (Some (history.frame_of (packetHistory h) (largestObserved h) (largestObservedReceivedTime h)), h')"
    by (auto simp: GetAckFrame_def history.frame_of_def last_conv_nth Let_def)
qed

lemma frame_acks:
  assumes "handler_inv h" "received (packetHistory h) \<noteq> {}"
  shows "validateAckRanges (history.frame_of (packetHistory h) (largestObserved h) t)"
    and "AcksPacket (history.frame_of (packetHistory h) (largestObserved h) t) p \<longleftrightarrow> p \<in> received (packetHistory h)"
  using history.frame_acks_set [of "packetHistory h" "largestObserved h"] assms
  by (auto simp: handler_inv_def)

subsection \<open>What the handler promises\<close>

text \<open>C3: In every run the handler can make an ACK frame whenever it wants to, and the frame is
  right: its ranges are valid, its largest packet is the largest observed, every packet it acknowledges
  did come in, and it acknowledges every packet that came in and is not below one of the limits the
  session set.\<close>

theorem ack_frame_is_right:
  assumes "handler_run h ps lim T"
  shows "case GetAckFrame now h of
           Inl _ \<Rightarrow> False
         | Inr (None, h') \<Rightarrow> h' = h
         | Inr (Some f, h') \<Rightarrow> validateAckRanges f \<and> ack_LargestAcked f = largestObserved h
             \<and> {p. AcksPacket f p} \<subseteq> ps \<and> {p \<in> ps. lim \<le> p} \<subseteq> {p. AcksPacket f p}
             \<and> \<not> pending h'"
proof (cases "ackQueued h \<or> (\<exists>a. ackAlarm h = Some a \<and> a \<le> now)")
  case True
  have inv: "run_inv h ps lim T" using assms by (rule handler_run_inv)
  then have hi: "handler_inv h" by (simp add: run_inv_def)
  from GetAckFrame_frame [OF hi True] obtain h' where g: "GetAckFrame now h =
      Inr (Some (history.frame_of (packetHistory h) (largestObserved h) (largestObservedReceivedTime h)), h')"
    and ne: "received (packetHistory h) \<noteq> {}"
    by blast
  have "\<not> pending h'" using g by (auto simp: GetAckFrame_def Let_def pending_def split: if_splits)
  moreover have "{p. AcksPacket (history.frame_of (packetHistory h) (largestObserved h) t) p}
      = received (packetHistory h)" for t
    using frame_acks(2) [OF hi ne] by blast
  moreover have "ack_LargestAcked (history.frame_of (packetHistory h) (largestObserved h) t) = largestObserved h"
    for t by (simp add: history.frame_of_def)
  ultimately show ?thesis using g frame_acks(1) [OF hi ne] inv by (simp add: run_inv_def)
next
  case False
  then show ?thesis by (auto simp: GetAckFrame_def split: option.splits)
qed

text \<open>A run: packet 1, the frame that acknowledges it, then packet 3.\<close>

definition example_run :: receivedPacketHandler where
  "example_run = snd (handler_ReceivedPacket 3 20 True
     (case GetAckFrame 10 (snd (handler_ReceivedPacket 1 10 True NewReceivedPacketHandler)) of
        Inr (_, h) \<Rightarrow> h | Inl _ \<Rightarrow> NewReceivedPacketHandler))"

lemmas handler_eval = handler_ReceivedPacket_def maybeQueueAck_def GetAckFrame_def
  history_ReceivedPacket_def NewReceivedPacketHandler_def newReceivedPacketHistory_def
  GetAckRanges_def GetHighestAckRange_def MaxTrackedReceivedAckRanges_def
  RetransmittablePacketsBeforeAck_def merge_ranges_def Let_def

lemma example_run_state:
  "ackQueued example_run" "largestObserved example_run = 3" "ignoreBelow example_run = 0"
  "ranges (packetHistory example_run) = [\<lparr>Start = 1, End = 1\<rparr>, \<lparr>Start = 3, End = 3\<rparr>]"
  "lowestInReceivedPacketNumbers (packetHistory example_run) = 0"
  by (simp_all add: example_run_def handler_eval word_le_nat_alt)

lemma example_run_reached: "handler_run example_run {3, 1} 0 20"
proof -
  obtain h1 where h1: "handler_ReceivedPacket 1 10 True NewReceivedPacketHandler = (None, h1)"
    by (simp add: handler_eval)
  obtain f h2 where h2: "GetAckFrame 10 h1 = Inr (f, h2)"
    using h1 by (auto simp: handler_eval)
  have h3: "handler_ReceivedPacket 3 20 True h2 = (None, example_run)"
  proof -
    have "example_run = snd (handler_ReceivedPacket 3 20 True h2)"
      by (simp add: example_run_def h1 h2)
    moreover have "fst (handler_ReceivedPacket 3 20 True h2) = None"
      using h1 h2 by (auto simp: handler_eval)
    ultimately show ?thesis by (metis prod.collapse)
  qed
  have "handler_run h1 {1} 0 10"
    using handler_run.receive [OF handler_run.start [of 0] _ _ h1] by simp
  from handler_run.receive [OF handler_run.ask [OF this h2] _ _ h3] show ?thesis by simp
qed

theorem ack_frame_is_right_witness:
  "\<exists>f h'. GetAckFrame 20 example_run = Inr (Some f, h') \<and> validateAckRanges f
     \<and> {p. AcksPacket f p} = {3, 1}"
proof -
  obtain f h' where g: "GetAckFrame 20 example_run = Inr (Some f, h')"
    by (simp add: GetAckFrame_def example_run_state GetAckRanges_def Let_def)
  with ack_frame_is_right [OF example_run_reached, of 20] show ?thesis
    by (intro exI [of _ f] exI [of _ h']) auto
qed

text \<open>C11: A retransmittable packet is acknowledged on time. However packets, limits and frames were
  mixed before, 25 ms after such a packet came in (unless it is below the limit) a frame can be made,
  and it acknowledges the packet.\<close>

theorem retransmittable_packet_is_acked_in_time:
  assumes "handler_run h ps lim T" "unat p + 1 < 2 ^ 64" "T \<le> t" "lim \<le> p"
    and "handler_ReceivedPacket p t True h = (None, h')" "t + AckSendDelay \<le> now"
  shows "\<exists>f h''. GetAckFrame now h' = Inr (Some f, h'') \<and> AcksPacket f p"
proof -
  have run: "handler_run h' (insert p ps) lim t" by (rule handler_run.receive [OF assms(1-3,5)])
  then have inv: "run_inv h' (insert p ps) lim t" by (rule handler_run_inv)
  then have hi: "handler_inv h'" by (simp add: run_inv_def)
  have "ignoreBelow h \<le> p" 
    using handler_run_inv [OF assms(1)] assms(4) by (auto simp: run_inv_def)
  then have "\<not> p < ignoreBelow h" by simp
  then obtain h0 ph where "h' = maybeQueueAck p t True (h0\<lparr>packetHistory := ph\<rparr>)"
    using handler_receive_cases [OF assms(5)] by metis
  then have "ackQueued h' \<or> ackAlarm h' \<noteq> None"
    by (simp add: maybeQueueAck_def Let_def split: option.splits)
  then have due: "ackQueued h' \<or> (\<exists>a. ackAlarm h' = Some a \<and> a \<le> now)"
    using inv assms(6) by (force simp: run_inv_def)
  from GetAckFrame_frame [OF hi due] frame_acks(2) [OF hi, of _ p] inv assms(4) show ?thesis
    by (fastforce simp: run_inv_def)
qed

theorem retransmittable_packet_is_acked_in_time_witness:
  "\<exists>f h'. GetAckFrame 25000030 (snd (handler_ReceivedPacket 2 30 True example_run)) = Inr (Some f, h')
     \<and> AcksPacket f 2"
proof -
  have "fst (handler_ReceivedPacket 2 30 True example_run) = None"
    by (simp add: handler_ReceivedPacket_def history_ReceivedPacket_def example_run_state Let_def
        MaxTrackedReceivedAckRanges_def)
  then have "handler_ReceivedPacket 2 30 True example_run
      = (None, snd (handler_ReceivedPacket 2 30 True example_run))"
    by (metis prod.collapse)
  from retransmittable_packet_is_acked_in_time [OF example_run_reached _ _ _ this, of 25000030]
  show ?thesis by (simp add: AckSendDelay_def)
qed

text \<open>C20: The limit \<open>largestAcked + 1\<close> that the session sets when an ACK frame is confirmed is not
  safe against a peer that confirms it in a packet with a small number: if that packet queued a frame
  and nothing larger came in, the limit empties the history and making the frame indexes an empty
  slice, so the peer crashes the process.\<close>

theorem late_confirmation_panics:
  assumes "handler_run h ps lim T" "ackQueued h" "unat (largestObserved h) + 1 < 2 ^ 64"
  shows "GetAckFrame now (IgnoreBelow (largestObserved h + 1) h) = Inl (Panic ''index out of range'')"
proof -
  have inv: "handler_inv h" using handler_run_inv [OF assms(1)] by (simp add: run_inv_def)
  then have wf: "wf_front (ranges (packetHistory h))"
    and upper: "\<forall>x \<in> received (packetHistory h). x \<le> largestObserved h"
    and low: "lowestInReceivedPacketNumbers (packetHistory h) \<le> largestObserved h"
    by (simp_all add: handler_inv_def wf_history_def)
  let ?p = "largestObserved h + 1"
  let ?els = "delete_front ?p (ranges (packetHistory h))"
  have above: "\<not> ?p \<le> x" if "x \<le> largestObserved h" for x
    using that unat_succ [OF assms(3)] by (simp add: word_le_nat_alt)
  from delete_front_correct [OF wf, of ?p] have d: "wf_front ?els" "ivs_set ?els = {}"
    using upper above by (auto simp: received_def)
  have "?els = []"
  proof (rule ccontr)
    assume "?els \<noteq> []"
    then obtain e where e: "e \<in> set ?els" by (meson last_in_set)
    with d(1) have "Start e \<in> iv_set e" by (auto simp: wf_front_iff bounded_def mem_iv_set)
    with e d(2) show False by (auto simp: ivs_set_def)
  qed
  then have "ranges (packetHistory (IgnoreBelow ?p h)) = []"
    using above [OF low] by (simp add: IgnoreBelow_def DeleteBelow_def)
  then show ?thesis using assms(2) by (simp add: GetAckFrame_def GetAckRanges_def IgnoreBelow_def)
qed

theorem late_confirmation_panics_witness:
  "GetAckFrame 30 (IgnoreBelow 4 example_run) = Inl (Panic ''index out of range'')"
  using late_confirmation_panics [OF example_run_reached, of 30] by (simp add: example_run_state)

end
