(* ===== verification/Flow_Control.thy ===== *)
theory Flow_Control
  imports Protocol
begin

section \<open>Flow control\<close>

text \<open>
  \<^verbatim>\<open>internal/flowcontrol\<close>: the windows of a stream and of its connection, for the data that is sent and
  for the data that is received. Times are numbers of nanoseconds. The time and the smoothed round-trip
  time are arguments of the operations that read them. So is \<open>epoch_time\<close>, the floating-point product
  \<open>time.Duration(4*fraction*float64(rtt))\<close> of the bytes read, the window size and the round-trip time,
  of whose value nothing is used. The mutexes, which only make each operation atomic, are left out. A stream's
  controller points to that of its connection; operations that reach it take and return both.
\<close>

record baseFlowController =
  bytesSent :: ByteCount
  sendWindow :: ByteCount
  bytesRead :: ByteCount
  highestReceived :: ByteCount
  receiveWindow :: ByteCount
  receiveWindowSize :: ByteCount
  maxReceiveWindowSize :: ByteCount
  epochStartTime :: int
  epochStartOffset :: ByteCount

record connectionFlowController = baseFlowController +
  lastBlockedAt :: ByteCount

record streamFlowController = baseFlowController +
  fc_streamID :: StreamID
  contributesToConnection :: bool
  receivedFinalOffset :: bool

definition MinByteCount :: "ByteCount \<Rightarrow> ByteCount \<Rightarrow> ByteCount" where
  "MinByteCount a b = (if a < b then a else b)"

definition AddBytesSent :: "ByteCount \<Rightarrow> 'c baseFlowController_scheme \<Rightarrow> 'c baseFlowController_scheme" where
  "AddBytesSent n c = c\<lparr>bytesSent := bytesSent c + n\<rparr>"

definition UpdateSendWindow :: "ByteCount \<Rightarrow> 'c baseFlowController_scheme \<Rightarrow> 'c baseFlowController_scheme" where
  "UpdateSendWindow offset c = (if offset > sendWindow c then c\<lparr>sendWindow := offset\<rparr> else c)"

definition sendWindowSize :: "'c baseFlowController_scheme \<Rightarrow> ByteCount" where
  "sendWindowSize c = (if bytesSent c > sendWindow c then 0 else sendWindow c - bytesSent c)"

definition startNewAutoTuningEpoch :: "int \<Rightarrow> 'c baseFlowController_scheme \<Rightarrow> 'c baseFlowController_scheme" where
  "startNewAutoTuningEpoch now c = c\<lparr>epochStartTime := now, epochStartOffset := bytesRead c\<rparr>"

definition AddBytesRead :: "int \<Rightarrow> ByteCount \<Rightarrow> 'c baseFlowController_scheme \<Rightarrow> 'c baseFlowController_scheme" where
  "AddBytesRead now n c =
     (let c = (if bytesRead c = 0 then startNewAutoTuningEpoch now c else c)
      in c\<lparr>bytesRead := bytesRead c + n\<rparr>)"

text \<open>Three quarters of the window: exact in \<open>float64\<close> up to windows of \<open>2 ^ 51\<close> bytes.\<close>

definition hasWindowUpdate :: "'c baseFlowController_scheme \<Rightarrow> bool" where
  "hasWindowUpdate c =
     (let bytesRemaining = receiveWindow c - bytesRead c
      in bytesRemaining \<le> of_nat (unat (receiveWindowSize c) * 3 div 4))"

definition maybeAdjustWindowSize ::
  "(ByteCount \<Rightarrow> ByteCount \<Rightarrow> int \<Rightarrow> int) \<Rightarrow> int \<Rightarrow> int
   \<Rightarrow> 'c baseFlowController_scheme \<Rightarrow> 'c baseFlowController_scheme" where
  "maybeAdjustWindowSize epoch_time now rtt c =
     (let bytesReadInEpoch = bytesRead c - epochStartOffset c in
      if bytesReadInEpoch \<le> receiveWindowSize c div 2 then c
      else if rtt = 0 then c
      else startNewAutoTuningEpoch now
             (if now - epochStartTime c < epoch_time bytesReadInEpoch (receiveWindowSize c) rtt
              then c\<lparr>receiveWindowSize := MinByteCount (2 * receiveWindowSize c) (maxReceiveWindowSize c)\<rparr>
              else c))"

definition base_getWindowUpdate ::
  "(ByteCount \<Rightarrow> ByteCount \<Rightarrow> int \<Rightarrow> int) \<Rightarrow> int \<Rightarrow> int
   \<Rightarrow> 'c baseFlowController_scheme \<Rightarrow> ByteCount \<times> 'c baseFlowController_scheme" where
  "base_getWindowUpdate epoch_time now rtt c =
     (if \<not> hasWindowUpdate c then (0, c)
      else let c = maybeAdjustWindowSize epoch_time now rtt c;
               c = c\<lparr>receiveWindow := bytesRead c + receiveWindowSize c\<rparr>
           in (receiveWindow c, c))"

definition checkFlowControlViolation :: "'c baseFlowController_scheme \<Rightarrow> bool" where
  "checkFlowControlViolation c \<longleftrightarrow> highestReceived c > receiveWindow c"

subsection \<open>The connection\<close>

definition NewConnectionFlowController :: "ByteCount \<Rightarrow> ByteCount \<Rightarrow> connectionFlowController" where
  "NewConnectionFlowController window maxWindow =
     \<lparr>bytesSent = 0, sendWindow = 0, bytesRead = 0, highestReceived = 0, receiveWindow = window,
      receiveWindowSize = window, maxReceiveWindowSize = maxWindow, epochStartTime = 0,
      epochStartOffset = 0, lastBlockedAt = 0\<rparr>"

definition conn_SendWindowSize :: "connectionFlowController \<Rightarrow> ByteCount" where
  "conn_SendWindowSize c = sendWindowSize c"

definition IsNewlyBlocked :: "connectionFlowController \<Rightarrow> (bool \<times> ByteCount) \<times> connectionFlowController" where
  "IsNewlyBlocked c =
     (if sendWindowSize c \<noteq> 0 \<or> sendWindow c = lastBlockedAt c then ((False, 0), c)
      else ((True, sendWindow c), c\<lparr>lastBlockedAt := sendWindow c\<rparr>))"

definition FlowControlReceivedTooMuchData :: uint32 where "FlowControlReceivedTooMuchData = 59"
definition StreamDataAfterTermination :: uint32 where "StreamDataAfterTermination = 2"

definition IncrementHighestReceived ::
  "ByteCount \<Rightarrow> connectionFlowController \<Rightarrow> goerr option \<times> connectionFlowController" where
  "IncrementHighestReceived increment c =
     (let c = c\<lparr>highestReceived := highestReceived c + increment\<rparr>
      in if checkFlowControlViolation c then (Some (QErr FlowControlReceivedTooMuchData), c) else (None, c))"

definition conn_GetWindowUpdate ::
  "(ByteCount \<Rightarrow> ByteCount \<Rightarrow> int \<Rightarrow> int) \<Rightarrow> int \<Rightarrow> int
   \<Rightarrow> connectionFlowController \<Rightarrow> ByteCount \<times> connectionFlowController" where
  "conn_GetWindowUpdate epoch_time now rtt c = base_getWindowUpdate epoch_time now rtt c"

definition EnsureMinimumWindowSize :: "int \<Rightarrow> ByteCount \<Rightarrow> connectionFlowController \<Rightarrow> connectionFlowController" where
  "EnsureMinimumWindowSize now inc c =
     (if inc > receiveWindowSize c
      then startNewAutoTuningEpoch now (c\<lparr>receiveWindowSize := MinByteCount inc (maxReceiveWindowSize c)\<rparr>)
      else c)"

subsection \<open>A stream\<close>

definition NewStreamFlowController ::
  "StreamID \<Rightarrow> bool \<Rightarrow> ByteCount \<Rightarrow> ByteCount \<Rightarrow> ByteCount \<Rightarrow> streamFlowController" where
  "NewStreamFlowController sid contributes window maxWindow initialSendWindow =
     \<lparr>bytesSent = 0, sendWindow = initialSendWindow, bytesRead = 0, highestReceived = 0,
      receiveWindow = window, receiveWindowSize = window, maxReceiveWindowSize = maxWindow,
      epochStartTime = 0, epochStartOffset = 0, fc_streamID = sid,
      contributesToConnection = contributes, receivedFinalOffset = False\<rparr>"

definition UpdateHighestReceived ::
  "ByteCount \<Rightarrow> bool \<Rightarrow> streamFlowController \<Rightarrow> connectionFlowController
   \<Rightarrow> goerr option \<times> streamFlowController \<times> connectionFlowController" where
  "UpdateHighestReceived byteOffset final c conn =
     (if final \<and> receivedFinalOffset c \<and> byteOffset \<noteq> highestReceived c
      then (Some (QErr StreamDataAfterTermination), c, conn)
      else if receivedFinalOffset c \<and> byteOffset > highestReceived c
      then (Some (QErr StreamDataAfterTermination), c, conn)
      else
        let c = (if final then c\<lparr>receivedFinalOffset := True\<rparr> else c) in
        if byteOffset = highestReceived c then (None, c, conn)
        else if byteOffset \<le> highestReceived c
        then (if final then (Some (QErr StreamDataAfterTermination), c, conn) else (None, c, conn))
        else
          let increment = byteOffset - highestReceived c;
              c = c\<lparr>highestReceived := byteOffset\<rparr> in
          if checkFlowControlViolation c then (Some (QErr FlowControlReceivedTooMuchData), c, conn)
          else if contributesToConnection c
          then (let (err, conn) = IncrementHighestReceived increment conn in (err, c, conn))
          else (None, c, conn))"

definition stream_AddBytesRead ::
  "int \<Rightarrow> ByteCount \<Rightarrow> streamFlowController \<Rightarrow> connectionFlowController
   \<Rightarrow> streamFlowController \<times> connectionFlowController" where
  "stream_AddBytesRead now n c conn =
     (AddBytesRead now n c, if contributesToConnection c then AddBytesRead now n conn else conn)"

definition stream_AddBytesSent ::
  "ByteCount \<Rightarrow> streamFlowController \<Rightarrow> connectionFlowController
   \<Rightarrow> streamFlowController \<times> connectionFlowController" where
  "stream_AddBytesSent n c conn =
     (AddBytesSent n c, if contributesToConnection c then AddBytesSent n conn else conn)"

definition SendWindowSize :: "streamFlowController \<Rightarrow> connectionFlowController \<Rightarrow> ByteCount" where
  "SendWindowSize c conn =
     (let window = sendWindowSize c
      in if contributesToConnection c then MinByteCount window (conn_SendWindowSize conn) else window)"

definition IsBlocked :: "streamFlowController \<Rightarrow> bool \<times> ByteCount" where
  "IsBlocked c = (if sendWindowSize c \<noteq> 0 then (False, 0) else (True, sendWindow c))"

definition HasWindowUpdate :: "streamFlowController \<Rightarrow> bool" where
  "HasWindowUpdate c \<longleftrightarrow> \<not> receivedFinalOffset c \<and> hasWindowUpdate c"

text \<open>One and a half times the window: exact in \<open>float64\<close> up to windows of \<open>2 ^ 51\<close> bytes.\<close>

definition GetWindowUpdate ::
  "(ByteCount \<Rightarrow> ByteCount \<Rightarrow> int \<Rightarrow> int) \<Rightarrow> int \<Rightarrow> int \<Rightarrow> streamFlowController \<Rightarrow> connectionFlowController
   \<Rightarrow> ByteCount \<times> streamFlowController \<times> connectionFlowController" where
  "GetWindowUpdate epoch_time now rtt c conn =
     (if receivedFinalOffset c then (0, c, conn)
      else
        let oldWindowSize = receiveWindowSize c;
            (offset, c) = base_getWindowUpdate epoch_time now rtt c;
            conn = (if receiveWindowSize c > oldWindowSize \<and> contributesToConnection c
                    then EnsureMinimumWindowSize now (of_nat (unat (receiveWindowSize c) * 3 div 2)) conn
                    else conn)
        in (offset, c, conn))"

end
