(* ===== verification/Flow_Peers.thy ===== *)
theory Flow_Peers
  imports Flow_Control
begin

section \<open>Two peers under flow control\<close>

text \<open>
  Two ends of a connection with the controllers of their streams, one direction of the data. The
  sender sends what its windows allow; frames and window updates may be lost, reordered and
  duplicated on the way, so what is on the way is a set: for each stream the end offsets of the
  frames that were sent, with their FIN bit, and the offsets that were announced.
\<close>

record flow_net =
  snd_conn :: connectionFlowController
  rcv_conn :: connectionFlowController
  snd_str :: "nat \<Rightarrow> streamFlowController"
  rcv_str :: "nat \<Rightarrow> streamFlowController"
  flight :: "nat \<Rightarrow> (ByteCount \<times> bool) set"
  credit :: "nat \<Rightarrow> ByteCount set"
  conn_credit :: "ByteCount set"

text \<open>The start: windows \<open>w\<close> for the streams and \<open>cw\<close> for the connection, with their maxima, are
  announced in the transport parameters.\<close>

definition flow_start :: "ByteCount \<Rightarrow> ByteCount \<Rightarrow> ByteCount \<Rightarrow> ByteCount \<Rightarrow> flow_net" where
  "flow_start w mw cw cmw =
     \<lparr>snd_conn = NewConnectionFlowController 0 0, rcv_conn = NewConnectionFlowController cw cmw,
      snd_str = (\<lambda>i. NewStreamFlowController (of_nat i) True 0 0 0),
      rcv_str = (\<lambda>i. NewStreamFlowController (of_nat i) True w mw 0),
      flight = (\<lambda>_. {}), credit = (\<lambda>_. {w}), conn_credit = {cw}\<rparr>"

definition sent_fin :: "flow_net \<Rightarrow> nat \<Rightarrow> bool" where
  "sent_fin st i \<longleftrightarrow> (\<exists>off. (off, True) \<in> flight st i)"

inductive flow_run :: "nat set \<Rightarrow> ByteCount \<Rightarrow> ByteCount \<Rightarrow> ByteCount \<Rightarrow> ByteCount \<Rightarrow> flow_net \<Rightarrow> bool"
  for I w mw cw cmw where
  start: "flow_run I w mw cw cmw (flow_start w mw cw cmw)"
| send: "flow_run I w mw cw cmw st \<Longrightarrow> i \<in> I \<Longrightarrow> \<not> sent_fin st i
    \<Longrightarrow> n \<le> SendWindowSize (snd_str st i) (snd_conn st)
    \<Longrightarrow> unat (bytesSent (snd_conn st)) + unat n < 2 ^ 62
    \<Longrightarrow> stream_AddBytesSent n (snd_str st i) (snd_conn st) = (s', c')
    \<Longrightarrow> flow_run I w mw cw cmw
          (st\<lparr>snd_str := (snd_str st)(i := s'), snd_conn := c',
              flight := (flight st)(i := insert (bytesSent s', fin) (flight st i))\<rparr>)"
| deliver: "flow_run I w mw cw cmw st \<Longrightarrow> i \<in> I \<Longrightarrow> (off, fin) \<in> flight st i
    \<Longrightarrow> UpdateHighestReceived off fin (rcv_str st i) (rcv_conn st) = (err, r', c')
    \<Longrightarrow> flow_run I w mw cw cmw (st\<lparr>rcv_str := (rcv_str st)(i := r'), rcv_conn := c'\<rparr>)"
| read: "flow_run I w mw cw cmw st \<Longrightarrow> i \<in> I
    \<Longrightarrow> unat (bytesRead (rcv_str st i)) + unat n \<le> unat (highestReceived (rcv_str st i))
    \<Longrightarrow> stream_AddBytesRead now n (rcv_str st i) (rcv_conn st) = (r', c')
    \<Longrightarrow> flow_run I w mw cw cmw (st\<lparr>rcv_str := (rcv_str st)(i := r'), rcv_conn := c'\<rparr>)"
| update: "flow_run I w mw cw cmw st \<Longrightarrow> i \<in> I
    \<Longrightarrow> GetWindowUpdate et now rtt (rcv_str st i) (rcv_conn st) = (off, r', c')
    \<Longrightarrow> flow_run I w mw cw cmw (st\<lparr>rcv_str := (rcv_str st)(i := r'), rcv_conn := c',
          credit := (credit st)(i := insert off (credit st i))\<rparr>)"
| conn_update: "flow_run I w mw cw cmw st \<Longrightarrow> conn_GetWindowUpdate et now rtt (rcv_conn st) = (off, c')
    \<Longrightarrow> flow_run I w mw cw cmw (st\<lparr>rcv_conn := c', conn_credit := insert off (conn_credit st)\<rparr>)"
| apply_credit: "flow_run I w mw cw cmw st \<Longrightarrow> i \<in> I \<Longrightarrow> off \<in> credit st i
    \<Longrightarrow> flow_run I w mw cw cmw (st\<lparr>snd_str := (snd_str st)(i := UpdateSendWindow off (snd_str st i))\<rparr>)"
| apply_conn_credit: "flow_run I w mw cw cmw st \<Longrightarrow> off \<in> conn_credit st
    \<Longrightarrow> flow_run I w mw cw cmw (st\<lparr>snd_conn := UpdateSendWindow off (snd_conn st)\<rparr>)"

subsection \<open>Windows as numbers\<close>

text \<open>What a receiving side keeps: its sizes, bounded by \<open>M\<close>, and its window.\<close>

definition window_ok :: "'c baseFlowController_scheme \<Rightarrow> bool" where
  "window_ok c \<longleftrightarrow>
     0 < unat (receiveWindowSize c) \<and> unat (receiveWindowSize c) \<le> unat (maxReceiveWindowSize c)
     \<and> unat (maxReceiveWindowSize c) \<le> 2 ^ 51
     \<and> unat (bytesRead c) \<le> unat (receiveWindow c) \<and> unat (bytesRead c) < 2 ^ 62"

lemma hasWindowUpdate_iff:
  assumes "window_ok c"
  shows "hasWindowUpdate c \<longleftrightarrow> unat (receiveWindow c) - unat (bytesRead c) \<le> unat (receiveWindowSize c) * 3 div 4"
proof -
  have "unat (receiveWindowSize c) * 3 div 4 \<le> unat (receiveWindowSize c)" by linarith
  moreover have "unat (receiveWindowSize c) \<le> 2 ^ 51" using assms unfolding window_ok_def by linarith
  ultimately have "unat (receiveWindowSize c) * 3 div 4 < 2 ^ 64" by (simp add: le_less_trans)
  then show ?thesis
    using assms by (simp add: hasWindowUpdate_def Let_def word_le_nat_alt unat_sub64 unat_of_nat64 window_ok_def)
qed

lemma maybeAdjustWindowSize_ok:
  assumes "window_ok c"
  shows "window_ok (maybeAdjustWindowSize et now rtt c)"
    and "unat (receiveWindowSize c) \<le> unat (receiveWindowSize (maybeAdjustWindowSize et now rtt c))"
    and "bytesRead (maybeAdjustWindowSize et now rtt c) = bytesRead c"
    and "highestReceived (maybeAdjustWindowSize et now rtt c) = highestReceived c"
    and "receiveWindow (maybeAdjustWindowSize et now rtt c) = receiveWindow c"
    and "baseFlowController.more (maybeAdjustWindowSize et now rtt c) = baseFlowController.more c"
proof -
  let ?c = "maybeAdjustWindowSize et now rtt c"
  have "unat (receiveWindowSize c) \<le> 2 ^ 51" using assms unfolding window_ok_def by linarith
  note le = this
  have two: "unat (2 * receiveWindowSize c) = 2 * unat (receiveWindowSize c)"
  proof -
    have "unat (receiveWindowSize c + receiveWindowSize c) = unat (receiveWindowSize c) + unat (receiveWindowSize c)"
      by (rule unat_add64) (use le in simp)
    then show ?thesis by (simp only: mult_2)
  qed
  define m where "m = MinByteCount (2 * receiveWindowSize c) (maxReceiveWindowSize c)"
  have size: "receiveWindowSize ?c = receiveWindowSize c \<or> receiveWindowSize ?c = m"
    unfolding maybeAdjustWindowSize_def Let_def startNewAutoTuningEpoch_def m_def [symmetric] by simp
  have same: "maxReceiveWindowSize ?c = maxReceiveWindowSize c"
    unfolding maybeAdjustWindowSize_def Let_def startNewAutoTuningEpoch_def m_def [symmetric] by simp
  show rest: "bytesRead ?c = bytesRead c" "highestReceived ?c = highestReceived c"
    "receiveWindow ?c = receiveWindow c" "baseFlowController.more ?c = baseFlowController.more c"
    unfolding maybeAdjustWindowSize_def Let_def startNewAutoTuningEpoch_def m_def [symmetric] by simp_all
  have "unat m = min (2 * unat (receiveWindowSize c)) (unat (maxReceiveWindowSize c))"
    unfolding m_def MinByteCount_def word_less_nat_alt two if_distrib [of unat] by (simp only: min_def split: if_split) linarith
  with size have "unat (receiveWindowSize ?c) = unat (receiveWindowSize c)
      \<or> unat (receiveWindowSize ?c) = min (2 * unat (receiveWindowSize c)) (unat (maxReceiveWindowSize c))"
    by auto
  then show "window_ok ?c" "unat (receiveWindowSize c) \<le> unat (receiveWindowSize ?c)"
    using assms unfolding window_ok_def rest same by linarith+
qed

lemma base_getWindowUpdate_ok:
  assumes ok: "window_ok c" and upd: "base_getWindowUpdate et now rtt c = (off, c')"
  shows "window_ok c'" and "bytesRead c' = bytesRead c" and "highestReceived c' = highestReceived c"
    and "baseFlowController.more c' = baseFlowController.more c"
    and "unat (receiveWindow c) \<le> unat (receiveWindow c')"
    and "off = receiveWindow c' \<or> off = 0 \<and> receiveWindow c' = receiveWindow c"
    and "hasWindowUpdate c \<Longrightarrow>
           off = receiveWindow c' \<and> unat (bytesRead c) + unat (receiveWindowSize c) \<le> unat off"
proof -
  define d where "d = maybeAdjustWindowSize et now rtt c"
  note d = maybeAdjustWindowSize_ok [OF ok, of et now rtt, folded d_def]
  have all: "window_ok c' \<and> bytesRead c' = bytesRead c \<and> highestReceived c' = highestReceived c
    \<and> baseFlowController.more c' = baseFlowController.more c
    \<and> unat (receiveWindow c) \<le> unat (receiveWindow c')
    \<and> (off = receiveWindow c' \<or> off = 0 \<and> receiveWindow c' = receiveWindow c)
    \<and> (hasWindowUpdate c \<longrightarrow>
           off = receiveWindow c' \<and> unat (bytesRead c) + unat (receiveWindowSize c) \<le> unat off)"
  proof (cases "hasWindowUpdate c")
    case False
    with upd ok show ?thesis by (simp add: base_getWindowUpdate_def)
  next
    case True
    then have c': "c' = d\<lparr>receiveWindow := bytesRead d + receiveWindowSize d\<rparr>"
      and off: "off = bytesRead d + receiveWindowSize d"
      using upd unfolding base_getWindowUpdate_def Let_def d_def [symmetric] by auto
    have le: "unat (receiveWindow c) - unat (bytesRead c) \<le> unat (receiveWindowSize c) * 3 div 4"
      using True hasWindowUpdate_iff [OF ok] by simp
    have bounds: "unat (bytesRead d) < 2 ^ 62" "unat (receiveWindowSize d) \<le> 2 ^ 51"
      using d(1) unfolding window_ok_def by linarith+
    then have w: "unat (bytesRead d + receiveWindowSize d) = unat (bytesRead d) + unat (receiveWindowSize d)"
      by (intro unat_add64) simp
    have "window_ok c'" using d(1) unfolding c' window_ok_def by (simp add: w)
    moreover have "unat (receiveWindow c) \<le> unat (receiveWindow c')"
      using le d(2,3) w unfolding c' by simp
    ultimately show ?thesis using d(2-6) off w by (simp add: c')
  qed
  show "window_ok c'" "bytesRead c' = bytesRead c" "highestReceived c' = highestReceived c"
    "baseFlowController.more c' = baseFlowController.more c"
    "unat (receiveWindow c) \<le> unat (receiveWindow c')"
    "off = receiveWindow c' \<or> off = 0 \<and> receiveWindow c' = receiveWindow c"
    "hasWindowUpdate c \<Longrightarrow>
           off = receiveWindow c' \<and> unat (bytesRead c) + unat (receiveWindowSize c) \<le> unat off"
    using all by blast+
qed

lemma EnsureMinimumWindowSize_ok:
  assumes "window_ok c"
  shows "window_ok (EnsureMinimumWindowSize now inc c)"
    and "bytesRead (EnsureMinimumWindowSize now inc c) = bytesRead c"
    and "highestReceived (EnsureMinimumWindowSize now inc c) = highestReceived c"
    and "receiveWindow (EnsureMinimumWindowSize now inc c) = receiveWindow c"
  using assms
  by (auto simp: EnsureMinimumWindowSize_def startNewAutoTuningEpoch_def MinByteCount_def window_ok_def
      word_less_nat_alt)

lemma GetWindowUpdate_ok:
  assumes ok: "window_ok r" "window_ok c" and upd: "GetWindowUpdate et now rtt r c = (off, r', c')"
  shows "window_ok r'" "bytesRead r' = bytesRead r" "highestReceived r' = highestReceived r"
    "baseFlowController.more r' = baseFlowController.more r" "unat (receiveWindow r) \<le> unat (receiveWindow r')"
    "off = receiveWindow r' \<or> off = 0 \<and> receiveWindow r' = receiveWindow r"
    "window_ok c'" "bytesRead c' = bytesRead c" "highestReceived c' = highestReceived c"
    "receiveWindow c' = receiveWindow c"
    and "HasWindowUpdate r \<Longrightarrow> unat (bytesRead r) + unat (receiveWindowSize r) \<le> unat off"
proof -
  obtain off1 r1 where u: "base_getWindowUpdate et now rtt r = (off1, r1)" by (meson surj_pair)
  note b = base_getWindowUpdate_ok [OF ok(1) u]
  note e = EnsureMinimumWindowSize_ok [OF ok(2)]
  have r': "receivedFinalOffset r \<and> off = 0 \<and> r' = r \<and> c' = c
      \<or> \<not> receivedFinalOffset r \<and> off = off1 \<and> r' = r1 \<and> (c' = c \<or> (\<exists>n. c' = EnsureMinimumWindowSize now n c))"
    using upd u by (auto simp: GetWindowUpdate_def Let_def split: if_splits)
  then show "window_ok r'" "bytesRead r' = bytesRead r" "highestReceived r' = highestReceived r"
    "baseFlowController.more r' = baseFlowController.more r" "unat (receiveWindow r) \<le> unat (receiveWindow r')"
    "off = receiveWindow r' \<or> off = 0 \<and> receiveWindow r' = receiveWindow r"
    using b ok by auto
  from r' show "window_ok c'" "bytesRead c' = bytesRead c" "highestReceived c' = highestReceived c"
    "receiveWindow c' = receiveWindow c"
    using e ok by auto
  show "HasWindowUpdate r \<Longrightarrow> unat (bytesRead r) + unat (receiveWindowSize r) \<le> unat off"
    using r' b(7) by (auto simp: HasWindowUpdate_def)
qed

subsection \<open>The invariant\<close>

definition str_inv :: "streamFlowController \<Rightarrow> streamFlowController \<Rightarrow> (ByteCount \<times> bool) set \<Rightarrow> ByteCount set \<Rightarrow> bool" where
  "str_inv s r fl cr \<longleftrightarrow>
     contributesToConnection s \<and> contributesToConnection r \<and> window_ok r
     \<and> unat (bytesSent s) \<le> unat (sendWindow s) \<and> unat (sendWindow s) \<le> unat (receiveWindow r)
     \<and> (\<forall>w \<in> cr. unat w \<le> unat (receiveWindow r)) \<and> receiveWindow r \<in> cr
     \<and> (\<forall>(off, fin) \<in> fl. unat off \<le> unat (bytesSent s) \<and> (fin \<longrightarrow> off = bytesSent s))
     \<and> (receivedFinalOffset r \<longrightarrow> (\<exists>off. (off, True) \<in> fl) \<and> highestReceived r = bytesSent s)
     \<and> unat (bytesRead r) \<le> unat (highestReceived r) \<and> unat (highestReceived r) \<le> unat (bytesSent s)"

definition conn_inv :: "connectionFlowController \<Rightarrow> connectionFlowController \<Rightarrow> ByteCount set \<Rightarrow> bool" where
  "conn_inv s r cr \<longleftrightarrow>
     window_ok r \<and> unat (bytesSent s) \<le> unat (sendWindow s) \<and> unat (sendWindow s) \<le> unat (receiveWindow r)
     \<and> unat (bytesSent s) < 2 ^ 62 \<and> (\<forall>w \<in> cr. unat w \<le> unat (receiveWindow r)) \<and> receiveWindow r \<in> cr"

definition flow_inv :: "nat set \<Rightarrow> flow_net \<Rightarrow> bool" where
  "flow_inv I st \<longleftrightarrow>
     (\<forall>i \<in> I. str_inv (snd_str st i) (rcv_str st i) (flight st i) (credit st i))
     \<and> conn_inv (snd_conn st) (rcv_conn st) (conn_credit st)
     \<and> unat (bytesSent (snd_conn st)) = (\<Sum>i \<in> I. unat (bytesSent (snd_str st i)))
     \<and> unat (highestReceived (rcv_conn st)) = (\<Sum>i \<in> I. unat (highestReceived (rcv_str st i)))
     \<and> unat (bytesRead (rcv_conn st)) = (\<Sum>i \<in> I. unat (bytesRead (rcv_str st i)))"

lemma sum_upd:
  assumes "finite I" "i \<in> I"
  shows "(\<Sum>j \<in> I. (g ((f(i := x)) j) :: nat)) + g (f i) = (\<Sum>j \<in> I. g (f j)) + g x"
proof -
  have "(\<Sum>j \<in> I. g ((f(i := x)) j)) = g x + (\<Sum>j \<in> I - {i}. g (f j))"
    using assms by (simp add: sum.remove)
  moreover have "(\<Sum>j \<in> I. g (f j)) = g (f i) + (\<Sum>j \<in> I - {i}. g (f j))"
    using assms by (simp add: sum.remove)
  ultimately show ?thesis by simp
qed

text \<open>The delivery of a frame that is on the way.\<close>

lemma deliver_ok:
  assumes str: "str_inv s r fl cr" and fr: "(off, fin) \<in> fl"
    and room: "unat (highestReceived c) + (unat off - unat (highestReceived r)) \<le> unat (receiveWindow c)"
    and upd: "UpdateHighestReceived off fin r c = (err, r', c')"
  shows "err = None"
    and "str_inv s r' fl cr"
    and "unat (highestReceived c') + unat (highestReceived r) = unat (highestReceived c) + unat (highestReceived r')"
    and "receiveWindow c' = receiveWindow c \<and> window_ok c' = window_ok c \<and> bytesRead c' = bytesRead c
         \<and> bytesRead r' = bytesRead r"
proof -
  let ?h = "highestReceived r"
  from str fr have off: "unat off \<le> unat (bytesSent s)" "fin \<longrightarrow> off = bytesSent s"
    and r: "unat ?h \<le> unat (bytesSent s)" "receivedFinalOffset r \<longrightarrow> ?h = bytesSent s"
      "contributesToConnection r" "unat (bytesSent s) \<le> unat (receiveWindow r)"
    by (auto simp: str_inv_def)
  define r1 where "r1 = (if fin then r\<lparr>receivedFinalOffset := True\<rparr> else r)"
  have r1: "highestReceived r1 = ?h" "receiveWindow r1 = receiveWindow r"
    "contributesToConnection r1" "window_ok r1 = window_ok r" "bytesRead r1 = bytesRead r"
    using r(3) by (simp_all add: r1_def window_ok_def)
  have no_final: "\<not> (fin \<and> receivedFinalOffset r \<and> off \<noteq> ?h)" "\<not> (receivedFinalOffset r \<and> off > ?h)"
    using off r by (auto simp: word_less_nat_alt)
  have body: "UpdateHighestReceived off fin r c =
      (if off = ?h then (None, r1, c)
       else if off \<le> ?h then (if fin then (Some (QErr StreamDataAfterTermination), r1, c) else (None, r1, c))
       else if off > receiveWindow r
       then (Some (QErr FlowControlReceivedTooMuchData), r1\<lparr>highestReceived := off\<rparr>, c)
       else (let (err, conn) = IncrementHighestReceived (off - ?h) c in (err, r1\<lparr>highestReceived := off\<rparr>, conn)))"
    unfolding UpdateHighestReceived_def if_not_P [OF no_final(1)] if_not_P [OF no_final(2)]
      r1_def [symmetric] Let_def checkFlowControlViolation_def
    using r1 by simp
  have final_inv: "off = ?h \<Longrightarrow> str_inv s r1 fl cr"
    using str off fr by (auto simp: str_inv_def r1_def window_ok_def)
  consider (same) "off = ?h" | (old) "unat off < unat ?h" | (new) "unat ?h < unat off"
    by (metis nat_neq_iff word_unat_eq_iff)
  then have "err = None \<and> str_inv s r' fl cr
    \<and> unat (highestReceived c') + unat ?h = unat (highestReceived c) + unat (highestReceived r')
    \<and> receiveWindow c' = receiveWindow c \<and> window_ok c' = window_ok c \<and> bytesRead c' = bytesRead c
    \<and> bytesRead r' = bytesRead r"
  proof cases
    case same
    then have "err = None" "r' = r1" "c' = c" using upd unfolding body by simp_all
    with final_inv [OF same] r1 show ?thesis by simp
  next
    case old
    then have "\<not> fin" "off \<noteq> ?h" "off \<le> ?h" using off r by (auto simp: word_le_nat_alt)
    then have "err = None" "r' = r" "c' = c" using upd unfolding body r1_def by simp_all
    with str show ?thesis by simp
  next
    case new
    then have n: "off \<noteq> ?h" "\<not> off \<le> ?h" by (auto simp: word_le_nat_alt)
    have viol: "\<not> off > receiveWindow r" using off r by (simp add: word_less_nat_alt)
    have incr: "unat (off - ?h) = unat off - unat ?h" using new by (intro unat_sub64) simp
    have "unat (highestReceived c + (off - ?h)) = unat (highestReceived c) + (unat off - unat ?h)"
      using room unsigned_less [of "receiveWindow c", where 'a = nat] by (subst unat_add64) (simp_all add: incr)
    note cadd = this
    have conn: "\<not> highestReceived c + (off - ?h) > receiveWindow c"
      using room by (simp add: word_less_nat_alt cadd)
    have res: "err = None" "r' = r1\<lparr>highestReceived := off\<rparr>" "c' = c\<lparr>highestReceived := highestReceived c + (off - ?h)\<rparr>"
      using upd n viol conn unfolding body IncrementHighestReceived_def checkFlowControlViolation_def
      by (simp_all add: Let_def)
    have "str_inv s r' fl cr"
      using str off new fr unfolding res r1_def str_inv_def by (auto simp: window_ok_def)
    then show ?thesis using new by (simp add: res cadd r1 window_ok_def)
  qed
  then show "err = None" "str_inv s r' fl cr"
    "unat (highestReceived c') + unat ?h = unat (highestReceived c) + unat (highestReceived r')"
    "receiveWindow c' = receiveWindow c \<and> window_ok c' = window_ok c \<and> bytesRead c' = bytesRead c
         \<and> bytesRead r' = bytesRead r"
    by simp_all
qed

lemma room_for_frame:
  assumes "flow_inv I st" "finite I" "i \<in> I" "(off, fin) \<in> flight st i"
  shows "unat (highestReceived (rcv_conn st)) + (unat off - unat (highestReceived (rcv_str st i)))
         \<le> unat (receiveWindow (rcv_conn st))"
proof -
  have str: "\<forall>j \<in> I. unat (highestReceived (rcv_str st j)) \<le> unat (bytesSent (snd_str st j))"
    using assms(1) by (simp add: flow_inv_def str_inv_def)
  have off: "unat off \<le> unat (bytesSent (snd_str st i))" using assms by (fastforce simp: flow_inv_def str_inv_def)
  let ?h = "\<lambda>j. unat (highestReceived (rcv_str st j))" and ?b = "\<lambda>j. unat (bytesSent (snd_str st j))"
  have "(\<Sum>j \<in> I. ?h j) + (unat off - ?h i) = (\<Sum>j \<in> I - {i}. ?h j) + max (?h i) (unat off)"
    using assms(2,3) by (simp add: sum.remove)
  also have "\<dots> \<le> (\<Sum>j \<in> I - {i}. ?b j) + ?b i"
    using str off assms(3) by (intro add_mono sum_mono) auto
  also have "\<dots> = (\<Sum>j \<in> I. ?b j)" using assms(2,3) by (simp add: sum.remove)
  also have "\<dots> \<le> unat (receiveWindow (rcv_conn st))"
    using assms(1) by (simp add: flow_inv_def conn_inv_def)
  finally show ?thesis using assms(1) by (simp add: flow_inv_def)
qed

lemma flow_inv_deliver:
  assumes inv: "flow_inv I st" and fin: "finite I" and i: "i \<in> I" "(off, fin') \<in> flight st i"
    and upd: "UpdateHighestReceived off fin' (rcv_str st i) (rcv_conn st) = (err, r', c')"
  shows "flow_inv I (st\<lparr>rcv_str := (rcv_str st)(i := r'), rcv_conn := c'\<rparr>)" and "err = None"
proof -
  have str: "str_inv (snd_str st i) (rcv_str st i) (flight st i) (credit st i)"
    using inv i by (simp add: flow_inv_def)
  note d = deliver_ok [OF str i(2) room_for_frame [OF inv fin i] upd]
  show "err = None" by (rule d(1))
  have "unat (highestReceived c') = (\<Sum>j \<in> I. unat (highestReceived (((rcv_str st)(i := r')) j)))"
    using sum_upd [OF fin i(1), of "\<lambda>r. unat (highestReceived r)" "rcv_str st" r'] d(3) inv
    by (simp add: flow_inv_def)
  moreover have "unat (bytesRead c') = (\<Sum>j \<in> I. unat (bytesRead (((rcv_str st)(i := r')) j)))"
    using sum_upd [OF fin i(1), of "\<lambda>r. unat (bytesRead r)" "rcv_str st" r'] d(4) inv
    by (simp add: flow_inv_def)
  ultimately show "flow_inv I (st\<lparr>rcv_str := (rcv_str st)(i := r'), rcv_conn := c'\<rparr>)"
    using inv d(2,4) by (auto simp: flow_inv_def conn_inv_def)
qed

lemma flow_inv_send:
  assumes inv: "flow_inv I st" and fin: "finite I" and i: "i \<in> I" "\<not> sent_fin st i"
    and n: "n \<le> SendWindowSize (snd_str st i) (snd_conn st)" "unat (bytesSent (snd_conn st)) + unat n < 2 ^ 62"
    and upd: "stream_AddBytesSent n (snd_str st i) (snd_conn st) = (s', c')"
  shows "flow_inv I (st\<lparr>snd_str := (snd_str st)(i := s'), snd_conn := c',
              flight := (flight st)(i := insert (bytesSent s', f) (flight st i))\<rparr>)"
proof -
  let ?s = "snd_str st i" and ?c = "snd_conn st"
  have str: "str_inv ?s (rcv_str st i) (flight st i) (credit st i)" using inv i by (simp add: flow_inv_def)
  have conn: "conn_inv ?c (rcv_conn st) (conn_credit st)" using inv by (simp add: flow_inv_def)
  have s': "s' = ?s\<lparr>bytesSent := bytesSent ?s + n\<rparr>" and c': "c' = ?c\<lparr>bytesSent := bytesSent ?c + n\<rparr>"
    using upd str by (simp_all add: stream_AddBytesSent_def AddBytesSent_def str_inv_def)
  have "n \<le> sendWindowSize ?s" "n \<le> sendWindowSize ?c"
    using n(1) str by (auto simp: SendWindowSize_def MinByteCount_def conn_SendWindowSize_def Let_def str_inv_def
        split: if_splits)
  then have room: "unat n \<le> unat (sendWindow ?s) - unat (bytesSent ?s)"
    "unat n \<le> unat (sendWindow ?c) - unat (bytesSent ?c)"
    using str conn
    by (auto simp: sendWindowSize_def str_inv_def conn_inv_def word_le_nat_alt word_less_nat_alt unat_sub64
        split: if_splits)
  have le: "unat (bytesSent ?s) + unat n \<le> unat (sendWindow ?s)"
    "unat (bytesSent ?c) + unat n \<le> unat (sendWindow ?c)"
    using room str conn by (auto simp: str_inv_def conn_inv_def)
  have sadd: "unat (bytesSent ?s + n) = unat (bytesSent ?s) + unat n"
    using le(1) unsigned_less [of "sendWindow ?s", where 'a = nat] by (intro unat_add64) simp
  have cadd: "unat (bytesSent ?c + n) = unat (bytesSent ?c) + unat n"
    using n(2) by (intro unat_add64) simp
  have no_fin: "\<forall>off. (off, True) \<notin> flight st i" using i(2) by (simp add: sent_fin_def)
  have "str_inv s' (rcv_str st i) (insert (bytesSent s', f) (flight st i)) (credit st i)"
    unfolding str_inv_def
  proof (intro conjI)
    show "\<forall>(off, fin) \<in> insert (bytesSent s', f) (flight st i).
        unat off \<le> unat (bytesSent s') \<and> (fin \<longrightarrow> off = bytesSent s')"
      using str no_fin by (fastforce simp: str_inv_def s' sadd)
    show "receivedFinalOffset (rcv_str st i) \<longrightarrow>
        (\<exists>off. (off, True) \<in> insert (bytesSent s', f) (flight st i)) \<and> highestReceived (rcv_str st i) = bytesSent s'"
      using str no_fin by (auto simp: str_inv_def)
  qed (use str le in \<open>auto simp: str_inv_def s' sadd\<close>)
  moreover have "conn_inv c' (rcv_conn st) (conn_credit st)"
    using conn le(2) n(2) by (simp add: conn_inv_def c' cadd)
  moreover have "unat (bytesSent c') = (\<Sum>j \<in> I. unat (bytesSent (((snd_str st)(i := s')) j)))"
    using sum_upd [OF fin i(1), of "\<lambda>s. unat (bytesSent s)" "snd_str st" s'] inv
    by (simp add: flow_inv_def c' cadd s' sadd)
  ultimately show ?thesis using inv by (simp add: flow_inv_def)
qed

lemma AddBytesRead_simps [simp]:
  "bytesRead (AddBytesRead now n c) = bytesRead c + n"
  "highestReceived (AddBytesRead now n c) = highestReceived c"
  "receiveWindow (AddBytesRead now n c) = receiveWindow c"
  "receiveWindowSize (AddBytesRead now n c) = receiveWindowSize c"
  "maxReceiveWindowSize (AddBytesRead now n c) = maxReceiveWindowSize c"
  "baseFlowController.more (AddBytesRead now n c) = baseFlowController.more c"
  by (simp_all add: AddBytesRead_def Let_def startNewAutoTuningEpoch_def)

lemma AddBytesRead_stream [simp]:
  "contributesToConnection (AddBytesRead now n r) = contributesToConnection r"
  "receivedFinalOffset (AddBytesRead now n r) = receivedFinalOffset r"
  by (simp_all add: AddBytesRead_def Let_def startNewAutoTuningEpoch_def)

lemma flow_inv_read:
  assumes inv: "flow_inv I st" and fin: "finite I" and i: "i \<in> I"
    and n: "unat (bytesRead (rcv_str st i)) + unat n \<le> unat (highestReceived (rcv_str st i))"
    and upd: "stream_AddBytesRead now n (rcv_str st i) (rcv_conn st) = (r', c')"
  shows "flow_inv I (st\<lparr>rcv_str := (rcv_str st)(i := r'), rcv_conn := c'\<rparr>)"
proof -
  let ?r = "rcv_str st i" and ?c = "rcv_conn st"
  have strs: "\<forall>j \<in> I. str_inv (snd_str st j) (rcv_str st j) (flight st j) (credit st j)"
    and conn: "conn_inv (snd_conn st) ?c (conn_credit st)" using inv by (simp_all add: flow_inv_def)
  then have str: "str_inv (snd_str st i) ?r (flight st i) (credit st i)" using i by blast
  have r': "r' = AddBytesRead now n ?r" and c': "c' = AddBytesRead now n ?c"
    using upd str by (auto simp: stream_AddBytesRead_def str_inv_def)
  have radd: "unat (bytesRead ?r + n) = unat (bytesRead ?r) + unat n"
    using n unsigned_less [of "highestReceived ?r", where 'a = nat] by (intro unat_add64) simp
  have reads: "(\<Sum>j \<in> I. unat (bytesRead (((rcv_str st)(i := r')) j))) = unat (bytesRead ?c) + unat n"
    using sum_upd [OF fin i, of "\<lambda>s. unat (bytesRead s)" "rcv_str st" r'] inv
    by (simp add: flow_inv_def r' radd)
  have "(\<Sum>j \<in> I. unat (bytesRead (((rcv_str st)(i := r')) j))) \<le> (\<Sum>j \<in> I. unat (bytesSent (snd_str st j)))"
  proof (rule sum_mono)
    fix j assume "j \<in> I"
    with strs n show "unat (bytesRead (((rcv_str st)(i := r')) j)) \<le> unat (bytesSent (snd_str st j))"
      by (cases "j = i") (auto simp: str_inv_def r' radd intro: order_trans)
  qed
  then have le: "unat (bytesRead ?c) + unat n \<le> unat (bytesSent (snd_conn st))"
    using reads inv by (simp add: flow_inv_def)
  then have lt: "unat (bytesRead ?c) + unat n < 2 ^ 62" using conn by (simp add: conn_inv_def)
  then have cadd: "unat (bytesRead ?c + n) = unat (bytesRead ?c) + unat n" by (intro unat_add64) simp
  have bound: "unat (bytesSent (snd_str st i)) \<le> unat (receiveWindow ?r)" "unat (highestReceived ?r) \<le> unat (bytesSent (snd_str st i))"
    using str by (auto simp: str_inv_def)
  have "unat (highestReceived ?r) < 2 ^ 62"
  proof -
    have "unat (bytesSent (snd_str st i)) \<le> (\<Sum>j \<in> I. unat (bytesSent (snd_str st j)))"
      using fin i by (intro member_le_sum) simp_all
    then show ?thesis using bound(2) conn inv by (simp add: conn_inv_def flow_inv_def)
  qed
  then have "str_inv (snd_str st i) r' (flight st i) (credit st i)"
    using str n bound by (auto simp: str_inv_def window_ok_def r' radd)
  moreover have "conn_inv (snd_conn st) c' (conn_credit st)"
    using conn le lt by (auto simp: conn_inv_def window_ok_def c' cadd)
  moreover have "unat (bytesRead c') = (\<Sum>j \<in> I. unat (bytesRead (((rcv_str st)(i := r')) j)))"
    by (simp only: reads c' AddBytesRead_simps cadd)
  moreover have "unat (highestReceived c') = (\<Sum>j \<in> I. unat (highestReceived (((rcv_str st)(i := r')) j)))"
    using sum_upd [OF fin i, of "\<lambda>s. unat (highestReceived s)" "rcv_str st" r'] inv
    by (simp add: flow_inv_def r' c')
  ultimately show ?thesis using inv by (simp add: flow_inv_def)
qed

lemma stream_more_eq:
  "baseFlowController.more r' = baseFlowController.more (r :: streamFlowController)
   \<Longrightarrow> contributesToConnection r' = contributesToConnection r
       \<and> receivedFinalOffset r' = receivedFinalOffset r"
  by (cases r; cases r') simp

lemma flow_inv_update:
  assumes inv: "flow_inv I st" and fin: "finite I" and i: "i \<in> I"
    and upd: "GetWindowUpdate et now rtt (rcv_str st i) (rcv_conn st) = (off, r', c')"
  shows "flow_inv I (st\<lparr>rcv_str := (rcv_str st)(i := r'), rcv_conn := c',
          credit := (credit st)(i := insert off (credit st i))\<rparr>)"
proof -
  let ?r = "rcv_str st i" and ?c = "rcv_conn st"
  have str: "str_inv (snd_str st i) ?r (flight st i) (credit st i)"
    and conn: "conn_inv (snd_conn st) ?c (conn_credit st)" using inv i by (simp_all add: flow_inv_def)
  then have ok: "window_ok ?r" "window_ok ?c" by (simp_all add: str_inv_def conn_inv_def)
  note u = GetWindowUpdate_ok [OF ok upd]
  have "\<forall>w \<in> insert off (credit st i). unat w \<le> unat (receiveWindow r')"
    using u(5,6) str by (auto simp: str_inv_def intro: order_trans)
  then have "str_inv (snd_str st i) r' (flight st i) (insert off (credit st i))"
    using str u(1-6) stream_more_eq [OF u(4)] by (auto simp: str_inv_def)
  moreover have "conn_inv (snd_conn st) c' (conn_credit st)"
    using conn u(7,10) by (simp add: conn_inv_def)
  moreover have "(\<Sum>j \<in> I. unat (highestReceived (((rcv_str st)(i := r')) j))) = unat (highestReceived c')"
    "(\<Sum>j \<in> I. unat (bytesRead (((rcv_str st)(i := r')) j))) = unat (bytesRead c')"
    using sum_upd [OF fin i, of "\<lambda>r. unat (highestReceived r)" "rcv_str st" r']
      sum_upd [OF fin i, of "\<lambda>r. unat (bytesRead r)" "rcv_str st" r'] u(2,3,8,9) inv
    by (simp_all add: flow_inv_def)
  ultimately show ?thesis using inv by (simp add: flow_inv_def)
qed

lemma flow_inv_conn_update:
  assumes inv: "flow_inv I st" and upd: "conn_GetWindowUpdate et now rtt (rcv_conn st) = (off, c')"
  shows "flow_inv I (st\<lparr>rcv_conn := c', conn_credit := insert off (conn_credit st)\<rparr>)"
proof -
  have conn: "conn_inv (snd_conn st) (rcv_conn st) (conn_credit st)" using inv by (simp add: flow_inv_def)
  then have "window_ok (rcv_conn st)" by (simp add: conn_inv_def)
  note u = base_getWindowUpdate_ok [OF this upd [unfolded conn_GetWindowUpdate_def]]
  have "\<forall>w \<in> insert off (conn_credit st). unat w \<le> unat (receiveWindow c')"
    using u(5,6) conn by (auto simp: conn_inv_def intro: order_trans)
  then have "conn_inv (snd_conn st) c' (insert off (conn_credit st))"
    using conn u(1,5,6) by (auto simp: conn_inv_def)
  then show ?thesis using inv u(2,3) by (simp add: flow_inv_def)
qed

lemma UpdateSendWindow_simps [simp]:
  "bytesSent (UpdateSendWindow off c) = bytesSent c"
  "sendWindow (UpdateSendWindow off c) = (if off > sendWindow c then off else sendWindow c)"
  by (simp_all add: UpdateSendWindow_def)

lemma UpdateSendWindow_stream [simp]:
  "contributesToConnection (UpdateSendWindow off s) = contributesToConnection s"
  by (simp add: UpdateSendWindow_def)

lemma flow_inv_apply:
  assumes inv: "flow_inv I st" and i: "i \<in> I" "off \<in> credit st i"
  shows "flow_inv I (st\<lparr>snd_str := (snd_str st)(i := UpdateSendWindow off (snd_str st i))\<rparr>)"
proof -
  have "str_inv (snd_str st i) (rcv_str st i) (flight st i) (credit st i)" using inv i by (simp add: flow_inv_def)
  then have "str_inv (UpdateSendWindow off (snd_str st i)) (rcv_str st i) (flight st i) (credit st i)"
    using i(2) by (auto simp: str_inv_def word_less_nat_alt)
  moreover have "(\<Sum>j \<in> I. unat (bytesSent (((snd_str st)(i := UpdateSendWindow off (snd_str st i))) j)))
      = (\<Sum>j \<in> I. unat (bytesSent (snd_str st j)))"
    by (intro sum.cong) auto
  ultimately show ?thesis using inv by (simp add: flow_inv_def)
qed

lemma flow_inv_apply_conn:
  assumes inv: "flow_inv I st" and off: "off \<in> conn_credit st"
  shows "flow_inv I (st\<lparr>snd_conn := UpdateSendWindow off (snd_conn st)\<rparr>)"
  using assms by (auto simp: flow_inv_def conn_inv_def word_less_nat_alt)

definition windows_ok :: "ByteCount \<Rightarrow> ByteCount \<Rightarrow> bool" where
  "windows_ok w mw \<longleftrightarrow> 0 < unat w \<and> unat w \<le> unat mw \<and> unat mw \<le> 2 ^ 51"

lemma flow_inv_start:
  "windows_ok w mw \<Longrightarrow> windows_ok cw cmw \<Longrightarrow> flow_inv I (flow_start w mw cw cmw)"
  by (simp add: flow_inv_def flow_start_def str_inv_def conn_inv_def windows_ok_def window_ok_def
      NewStreamFlowController_def NewConnectionFlowController_def)

lemma flow_run_inv:
  assumes "flow_run I w mw cw cmw st" "finite I" "windows_ok w mw" "windows_ok cw cmw"
  shows "flow_inv I st"
  using assms(1)
proof (induction rule: flow_run.induct)
  case start
  show ?case by (rule flow_inv_start [OF assms(3,4)])
next
  case (send st i n s' c' fin)
  from flow_inv_send [OF send.IH assms(2) send.hyps(2-6)] show ?case .
next
  case (deliver st i off fin err r' c')
  from flow_inv_deliver(1) [OF deliver.IH assms(2) deliver.hyps(2-4)] show ?case .
next
  case (read st i n now r' c')
  from flow_inv_read [OF read.IH assms(2) read.hyps(2-4)] show ?case .
next
  case (update st i et now rtt off r' c')
  from flow_inv_update [OF update.IH assms(2) update.hyps(2,3)] show ?case .
next
  case (conn_update st et now rtt off c')
  from flow_inv_conn_update [OF conn_update.IH conn_update.hyps(2)] show ?case .
next
  case (apply_credit st i off)
  from flow_inv_apply [OF apply_credit.IH apply_credit.hyps(2,3)] show ?case .
next
  case (apply_conn_credit st off)
  from flow_inv_apply_conn [OF apply_conn_credit.IH apply_conn_credit.hyps(2)] show ?case .
qed

subsection \<open>What flow control promises\<close>

text \<open>C5: A peer that sends what \<open>SendWindowSize\<close> allows is never accused of a violation: however
  many streams share the connection, and however frames and window updates are lost, reordered and
  repeated on the way, \<open>UpdateHighestReceived\<close> accepts every frame that was sent, with its FIN bit, at the level
  of the stream and at the level of the connection.\<close>

theorem honest_sender_never_violates:
  assumes "flow_run I w mw cw cmw st" "finite I" "windows_ok w mw" "windows_ok cw cmw"
    and "i \<in> I" "(off, fin) \<in> flight st i"
  shows "fst (UpdateHighestReceived off fin (rcv_str st i) (rcv_conn st)) = None"
proof -
  obtain err r' c' where u: "UpdateHighestReceived off fin (rcv_str st i) (rcv_conn st) = (err, r', c')"
    by (rule prod_cases3)
  from flow_inv_deliver(2) [OF flow_run_inv [OF assms(1-4)] assms(2,5,6) u] u show ?thesis by simp
qed

text \<open>A run: the sender learns the windows of 16 bytes and sends 10 bytes with the FIN bit.\<close>

definition example_net :: flow_net where
  "example_net = (let st = flow_start 16 64 16 64;
       st = st\<lparr>snd_str := (snd_str st)(0 := UpdateSendWindow 16 (snd_str st 0))\<rparr>;
       st = st\<lparr>snd_conn := UpdateSendWindow 16 (snd_conn st)\<rparr>;
       (s', c') = stream_AddBytesSent 10 (snd_str st 0) (snd_conn st)
     in st\<lparr>snd_str := (snd_str st)(0 := s'), snd_conn := c',
           flight := (flight st)(0 := insert (bytesSent s', True) (flight st 0))\<rparr>)"

lemmas net_eval = flow_start_def NewStreamFlowController_def NewConnectionFlowController_def
  UpdateSendWindow_def stream_AddBytesSent_def AddBytesSent_def Let_def

lemma example_net_run: "flow_run {0} 16 64 16 64 example_net"
proof -
  let ?st = "flow_start 16 64 16 64"
  let ?st1 = "?st\<lparr>snd_str := (snd_str ?st)(0 := UpdateSendWindow 16 (snd_str ?st 0))\<rparr>"
  let ?st2 = "?st1\<lparr>snd_conn := UpdateSendWindow 16 (snd_conn ?st1)\<rparr>"
  have "flow_run {0} 16 64 16 64 ?st1"
    by (rule flow_run.apply_credit [OF flow_run.start]) (simp_all add: flow_start_def)
  then have run2: "flow_run {0} 16 64 16 64 ?st2"
    by (rule flow_run.apply_conn_credit) (simp add: flow_start_def)
  obtain s' c' where a: "stream_AddBytesSent 10 (snd_str ?st2 0) (snd_conn ?st2) = (s', c')"
    by (meson surj_pair)
  have "flow_run {0} 16 64 16 64 (?st2\<lparr>snd_str := (snd_str ?st2)(0 := s'), snd_conn := c',
      flight := (flight ?st2)(0 := insert (bytesSent s', True) (flight ?st2 0))\<rparr>)"
    by (rule flow_run.send [OF run2 _ _ _ _ a])
       (simp_all add: net_eval sent_fin_def SendWindowSize_def conn_SendWindowSize_def sendWindowSize_def MinByteCount_def)
  moreover have "example_net = ?st2\<lparr>snd_str := (snd_str ?st2)(0 := s'), snd_conn := c',
      flight := (flight ?st2)(0 := insert (bytesSent s', True) (flight ?st2 0))\<rparr>"
    unfolding example_net_def Let_def using a by simp
  ultimately show ?thesis by (simp only:)
qed

theorem honest_sender_never_violates_witness:
  "fst (UpdateHighestReceived 10 True (rcv_str example_net 0) (rcv_conn example_net)) = None"
  by (rule honest_sender_never_violates [OF example_net_run, of 0])
     (simp_all add: windows_ok_def example_net_def net_eval)

text \<open>C21: Flow control does not stall a stream: when the receiver has read all that was sent on a
  stream that is not finished and the sender has used up its window, then either an offset beyond the
  window was announced before, or \<open>HasWindowUpdate\<close> holds and \<open>GetWindowUpdate\<close> announces one.\<close>

theorem blocked_sender_gets_credit:
  assumes "flow_run I w mw cw cmw st" "finite I" "windows_ok w mw" "windows_ok cw cmw"
    and "i \<in> I" "\<not> receivedFinalOffset (rcv_str st i)"
    and "sendWindowSize (snd_str st i) = 0" "bytesRead (rcv_str st i) = bytesSent (snd_str st i)"
  shows "(\<exists>off \<in> credit st i. off > sendWindow (snd_str st i))
         \<or> HasWindowUpdate (rcv_str st i)
           \<and> fst (GetWindowUpdate et now rtt (rcv_str st i) (rcv_conn st)) > sendWindow (snd_str st i)"
proof -
  let ?s = "snd_str st i" and ?r = "rcv_str st i"
  have inv: "flow_inv I st" by (rule flow_run_inv [OF assms(1-4)])
  then have str: "str_inv ?s ?r (flight st i) (credit st i)" and ok: "window_ok ?r" "window_ok (rcv_conn st)"
    using assms(5) by (auto simp: flow_inv_def str_inv_def conn_inv_def)
  have blocked: "unat (sendWindow ?s) = unat (bytesSent ?s)"
    using assms(7) str by (auto simp: sendWindowSize_def str_inv_def word_less_nat_alt split: if_splits)
  show ?thesis
  proof (cases "unat (sendWindow ?s) < unat (receiveWindow ?r)")
    case True
    with str show ?thesis by (auto simp: str_inv_def word_less_nat_alt)
  next
    case False
    then have "unat (receiveWindow ?r) = unat (bytesRead ?r)" using str blocked assms(8) by (simp add: str_inv_def)
    then have has: "HasWindowUpdate ?r"
      using hasWindowUpdate_iff [OF ok(1)] assms(6) by (simp add: HasWindowUpdate_def)
    obtain off r' c' where u: "GetWindowUpdate et now rtt ?r (rcv_conn st) = (off, r', c')"
      by (rule prod_cases3)
    from GetWindowUpdate_ok(11) [OF ok u has] ok(1) blocked assms(8)
    have "unat (sendWindow ?s) < unat off" by (simp add: window_ok_def)
    with has u show ?thesis by (simp add: word_less_nat_alt)
  qed
qed

theorem blocked_sender_gets_credit_witness:
  "\<exists>off \<in> credit (flow_start 16 64 16 64) 0. off > 0"
  using blocked_sender_gets_credit [OF flow_run.start [of "{0}" 16 64 16 64], of 0 "\<lambda>_ _ _. 0" 0 0]
  by (simp add: net_eval windows_ok_def sendWindowSize_def HasWindowUpdate_def hasWindowUpdate_def)

end
