(* ===== verification/Stream_Sorter.thy ===== *)
theory Stream_Sorter
  imports Wire_Stream
begin

section \<open>Putting stream data into order\<close>

text \<open>
  \<^verbatim>\<open>stream_frame_sorter.go\<close>: the frames of a stream that arrived, in whatever order and with whatever
  overlaps, are queued by their offset, and the bytes that did not arrive are kept as a list of gaps.
  The linked list of gaps is the list of its values; a gap the code holds an element of is named by
  where it stands in the list.
\<close>

record ByteInterval =
  bi_Start :: ByteCount
  bi_End :: ByteCount

record streamFrameSorter =
  queuedFrames :: "ByteCount \<rightharpoonup> StreamFrame"
  readPosition :: ByteCount
  gaps :: "ByteInterval list"

definition MaxStreamFrameSorterGaps :: nat where "MaxStreamFrameSorterGaps = 1000"

definition errTooManyGapsInReceivedStreamData :: goerr where
  "errTooManyGapsInReceivedStreamData = GoErr ''Too many gaps in received StreamFrame data''"

definition errDuplicateStreamData :: goerr where
  "errDuplicateStreamData = GoErr ''Duplicate Stream Data''"

definition errEmptyStreamData :: goerr where
  "errEmptyStreamData = GoErr ''Stream Data empty''"

definition newStreamFrameSorter :: streamFrameSorter where
  "newStreamFrameSorter =
     \<lparr>queuedFrames = Map.empty, readPosition = 0, gaps = [\<lparr>bi_Start = 0, bi_End = MaxByteCount\<rparr>]\<rparr>"

text \<open>The loop that skips the gaps before the frame: the gaps before, the gap, and the gaps after.\<close>

fun skip_gaps :: "ByteCount \<Rightarrow> ByteCount \<Rightarrow> ByteInterval list
    \<Rightarrow> goerr + ByteInterval list \<times> ByteInterval \<times> ByteInterval list" where
  "skip_gaps fstart fend [] = Inl (GoErr ''StreamFrameSorter BUG: no gap found'')"
| "skip_gaps fstart fend (gap # gs) =
     (if fend \<le> bi_Start gap then Inl errDuplicateStreamData
      else if fend > bi_Start gap \<and> fstart \<le> bi_End gap then Inr ([], gap, gs)
      else ebind (skip_gaps fstart fend gs) (\<lambda>(before, g, after). Inr (gap # before, g, after)))"

text \<open>
  The loop that looks for the last gap the frame reaches. \<open>endGap\<close> is the first gap itself, a gap
  after it that is in the list, or a gap that was removed from the list when the loop ended; the
  gaps between the first one and it are removed. The result holds the gaps after it.
\<close>

datatype end_gap = SameGap | LaterGap | RemovedGap

fun find_end_gap :: "ByteCount \<Rightarrow> ByteInterval \<Rightarrow> bool \<Rightarrow> ByteInterval list \<Rightarrow> (ByteCount \<rightharpoonup> StreamFrame)
    \<Rightarrow> goerr + end_gap \<times> ByteInterval \<times> ByteInterval list \<times> (ByteCount \<rightharpoonup> StreamFrame)" where
  "find_end_gap fend endGap same [] q =
     (if fend \<ge> bi_End endGap then Inl (GoErr ''StreamFrameSorter BUG: no end gap found'')
      else Inr (if same then SameGap else LaterGap, endGap, [], q))"
| "find_end_gap fend endGap same (nextEndGap # gs) q =
     (if fend \<ge> bi_End endGap then
        (if fend \<le> bi_Start nextEndGap
         then Inr (if same then SameGap else RemovedGap, endGap, nextEndGap # gs, q)
         else find_end_gap fend nextEndGap False gs (q(bi_End endGap := None)))
      else Inr (if same then SameGap else LaterGap, endGap, nextEndGap # gs, q))"

text \<open>The new gaps in the place of the first gap and of the last one.\<close>

definition shrink_gaps ::
  "ByteCount \<Rightarrow> ByteCount \<Rightarrow> ByteInterval \<Rightarrow> end_gap \<Rightarrow> ByteInterval \<Rightarrow> ByteInterval list" where
  "shrink_gaps fstart fend gap kind endGap =
     (if fstart = bi_Start gap then
        (case kind of
           SameGap \<Rightarrow> if fend \<ge> bi_End gap then [] else [gap\<lparr>bi_Start := fend\<rparr>]
         | LaterGap \<Rightarrow> (if fend \<ge> bi_End gap then [] else [gap])
                       @ [if fend < bi_End endGap then endGap\<lparr>bi_Start := fend\<rparr> else endGap]
         | RemovedGap \<Rightarrow> (if fend \<ge> bi_End gap then [] else [gap]))
      else if fend = bi_End endGap then
        gap\<lparr>bi_End := fstart\<rparr> # (if kind = LaterGap then [endGap] else [])
      else (case kind of
              SameGap \<Rightarrow> [gap\<lparr>bi_End := fstart\<rparr>, \<lparr>bi_Start = fend, bi_End = bi_End gap\<rparr>]
            | LaterGap \<Rightarrow> [gap\<lparr>bi_End := fstart\<rparr>, endGap\<lparr>bi_Start := fend\<rparr>]
            | RemovedGap \<Rightarrow> [gap\<lparr>bi_End := fstart\<rparr>]))"

text \<open>\<open>Push\<close> after its first two checks, on a frame that has data: the gaps, the queued frames and the frame that is
  left of it.\<close>

definition push_parts ::
  "StreamFrame \<Rightarrow> streamFrameSorter \<Rightarrow> goerr + ByteInterval list \<times> (ByteCount \<rightharpoonup> StreamFrame) \<times> StreamFrame" where
  "push_parts frame s =
     (let fstart = sf_Offset frame; fend = sf_Offset frame + DataLen frame in
      ebind (skip_gaps fstart fend (gaps s)) (\<lambda>(before, gap, after).
      let add = bi_Start gap - fstart;
          frame = (if fstart < bi_Start gap
                   then frame\<lparr>sf_Offset := sf_Offset frame + add, sf_Data := drop (unat add) (sf_Data frame)\<rparr>
                   else frame);
          fstart = (if fstart < bi_Start gap then fstart + add else fstart) in
      ebind (find_end_gap fend gap True after (queuedFrames s)) (\<lambda>(kind, endGap, after, q).
      let cutLen = fend - bi_End endGap;
          frame = (if fend > bi_End endGap
                   then frame\<lparr>sf_Data := take (unat (DataLen frame - cutLen)) (sf_Data frame)\<rparr> else frame);
          fend = (if fend > bi_End endGap then fend - cutLen else fend)
      in Inr (before @ shrink_gaps fstart fend gap kind endGap @ after, q, frame))))"

definition push_data :: "StreamFrame \<Rightarrow> streamFrameSorter \<Rightarrow> goerr + streamFrameSorter" where
  "push_data frame s =
     ebind (push_parts frame s) (\<lambda>(gs, q, frame).
       if length gs > MaxStreamFrameSorterGaps then Inl errTooManyGapsInReceivedStreamData
       else Inr (s\<lparr>gaps := gs, queuedFrames := q(sf_Offset frame \<mapsto> frame)\<rparr>))"

text \<open>What an error leaves: the gaps and frames are changed before they are counted. An error of the loops that look
  for the gaps, of which only the duplicate occurs, leaves the sorter as it was.\<close>

definition push_data_left :: "StreamFrame \<Rightarrow> streamFrameSorter \<Rightarrow> streamFrameSorter" where
  "push_data_left frame s =
     (case push_parts frame s of Inl err \<Rightarrow> s | Inr (gs, q, frame) \<Rightarrow> s\<lparr>gaps := gs, queuedFrames := q\<rparr>)"

lemma push_data_eq:
  "push_data frame s =
     (let fstart = sf_Offset frame; fend = sf_Offset frame + DataLen frame in
      ebind (skip_gaps fstart fend (gaps s)) (\<lambda>(before, gap, after).
      let add = bi_Start gap - fstart;
          frame = (if fstart < bi_Start gap
                   then frame\<lparr>sf_Offset := sf_Offset frame + add, sf_Data := drop (unat add) (sf_Data frame)\<rparr>
                   else frame);
          fstart = (if fstart < bi_Start gap then fstart + add else fstart) in
      ebind (find_end_gap fend gap True after (queuedFrames s)) (\<lambda>(kind, endGap, after, q).
      let cutLen = fend - bi_End endGap;
          frame = (if fend > bi_End endGap
                   then frame\<lparr>sf_Data := take (unat (DataLen frame - cutLen)) (sf_Data frame)\<rparr> else frame);
          fend = (if fend > bi_End endGap then fend - cutLen else fend);
          gs = before @ shrink_gaps fstart fend gap kind endGap @ after in
      if length gs > MaxStreamFrameSorterGaps then Inl errTooManyGapsInReceivedStreamData
      else Inr (s\<lparr>gaps := gs, queuedFrames := q(sf_Offset frame \<mapsto> frame)\<rparr>))))"
  by (simp add: push_data_def push_parts_def ebind_def Let_def split: sum.split prod.split)

definition Push :: "StreamFrame \<Rightarrow> streamFrameSorter \<Rightarrow> goerr + streamFrameSorter" where
  "Push frame s =
     (if DataLen frame = 0 then
        (if sf_FinBit frame then Inr (s\<lparr>queuedFrames := (queuedFrames s)(sf_Offset frame \<mapsto> frame)\<rparr>)
         else Inl errEmptyStreamData)
      else case queuedFrames s (sf_Offset frame) of
             None \<Rightarrow> push_data frame s
           | Some oldFrame \<Rightarrow>
               if DataLen frame \<le> DataLen oldFrame then Inl errDuplicateStreamData
               else push_data (frame\<lparr>sf_Data := drop (length (sf_Data oldFrame)) (sf_Data frame),
                                     sf_Offset := sf_Offset frame + DataLen oldFrame\<rparr>) s)"

text \<open>The sorter that a \<open>Push\<close> which returns an error leaves.\<close>

definition Push_left :: "StreamFrame \<Rightarrow> streamFrameSorter \<Rightarrow> streamFrameSorter" where
  "Push_left frame s =
     (if DataLen frame = 0 then s
      else case queuedFrames s (sf_Offset frame) of
             None \<Rightarrow> push_data_left frame s
           | Some oldFrame \<Rightarrow>
               if DataLen frame \<le> DataLen oldFrame then s
               else push_data_left (frame\<lparr>sf_Data := drop (length (sf_Data oldFrame)) (sf_Data frame),
                                          sf_Offset := sf_Offset frame + DataLen oldFrame\<rparr>) s)"

definition Head :: "streamFrameSorter \<Rightarrow> StreamFrame option" where
  "Head s = queuedFrames s (readPosition s)"

definition Pop :: "streamFrameSorter \<Rightarrow> StreamFrame option \<times> streamFrameSorter" where
  "Pop s =
     (case Head s of
        None \<Rightarrow> (None, s)
      | Some frame \<Rightarrow>
          (Some frame, s\<lparr>readPosition := readPosition s + DataLen frame,
                         queuedFrames := (queuedFrames s)(sf_Offset frame := None)\<rparr>))"

subsection \<open>The missing bytes\<close>

abbreviation gS :: "ByteInterval \<Rightarrow> nat" where "gS g \<equiv> unat (bi_Start g)"
abbreviation gE :: "ByteInterval \<Rightarrow> nat" where "gE g \<equiv> unat (bi_End g)"

definition missing :: "ByteInterval list \<Rightarrow> nat set" where
  "missing gs = (\<Union>g \<in> set gs. {gS g..<gE g})"

lemma missing_simps [simp]:
  "missing [] = {}"
  "missing (g # gs) = {gS g..<gE g} \<union> missing gs"
  "missing (gs @ hs) = missing gs \<union> missing hs"
  by (auto simp: missing_def)

definition wf_gaps :: "ByteInterval list \<Rightarrow> bool" where
  "wf_gaps gs \<longleftrightarrow> (\<forall>g \<in> set gs. gS g < gE g) \<and> sorted_wrt (\<lambda>g h. gE g < gS h) gs"

lemma wf_gaps_simps [simp]:
  "wf_gaps []"
  "wf_gaps (g # gs) \<longleftrightarrow> gS g < gE g \<and> (\<forall>h \<in> set gs. gE g < gS h) \<and> wf_gaps gs"
  "wf_gaps (gs @ hs) \<longleftrightarrow> wf_gaps gs \<and> wf_gaps hs \<and> (\<forall>g \<in> set gs. \<forall>h \<in> set hs. gE g < gS h)"
  by (auto simp: wf_gaps_def sorted_wrt_append)

lemma skip_gaps_ok:
  assumes "skip_gaps fstart fend gs = Inr (before, gap, after)"
  shows "gs = before @ gap # after" and "gS gap < unat fend" and "unat fstart \<le> gE gap"
    and "\<forall>g \<in> set before. gE g < unat fstart"
  using assms
proof (induction gs arbitrary: before)
  case (Cons g gs)
  { case 1 then show ?case using Cons.IH by (auto simp: ebind_Inr_iff split: if_splits) }
  { case 2 then show ?case using Cons.IH by (auto simp: ebind_Inr_iff word_less_nat_alt split: if_splits) }
  { case 3 then show ?case using Cons.IH by (auto simp: ebind_Inr_iff word_le_nat_alt split: if_splits) }
  { case 4 then show ?case using Cons.IH
      by (auto simp: ebind_Inr_iff word_le_nat_alt word_less_nat_alt split: if_splits) }
qed simp_all

text \<open>Without a gap for it, the frame has no missing bytes; there is a gap if one reaches beyond it.\<close>

lemma skip_gaps_error:
  assumes "skip_gaps fstart fend gs = Inl err" "wf_gaps gs" "gs \<noteq> []" "unat fend \<le> gE (last gs)"
    and "unat fstart < unat fend"
  shows "err = errDuplicateStreamData \<and> missing gs \<inter> {unat fstart..<unat fend} = {}"
  using assms
proof (induction gs)
  case (Cons g gs)
  show ?case
  proof (cases "fend \<le> bi_Start g")
    case True
    have "\<forall>h \<in> set gs. gS g < gS h" using Cons.prems(2) by auto
    with True Cons.prems(1) show ?thesis by (fastforce simp: word_le_nat_alt missing_def)
  next
    case False
    with Cons.prems have *: "\<not> fstart \<le> bi_End g" "skip_gaps fstart fend gs = Inl err"
      by (auto simp: ebind_def split: if_splits sum.splits)
    then have "gs \<noteq> []" using Cons.prems by (auto simp: word_le_nat_alt)
    with Cons.IH [OF *(2)] Cons.prems * show ?thesis by (auto simp: word_le_nat_alt)
  qed
qed simp

text \<open>
  What the second loop returns for a gap below the end of the frame: with \<open>e\<close> the end of the frame cut
  at the end of \<open>endGap\<close>, the bytes from \<open>e\<close> on that were missing are those of the result, none between
  \<open>e\<close> and the end of the frame is missing, and only frames at the end of a gap before \<open>e\<close> are deleted.
\<close>

lemma find_end_gap_ok:
  assumes "wf_gaps (eg # after)" "gS eg < unat fend" "unat fend < gE (last (eg # after))"
  shows "\<exists>kind eg' after' q'. find_end_gap fend eg same after q = Inr (kind, eg', after', q')
    \<and> (let e = min (unat fend) (gE eg') in
        gS eg' < e \<and> (kind = SameGap \<longrightarrow> same \<and> eg' = eg) \<and> (kind = LaterGap \<longrightarrow> unat fend < gE eg')
        \<and> (kind = RemovedGap \<longrightarrow> e = gE eg') \<and> (kind \<noteq> SameGap \<longrightarrow> gE eg < e \<or> \<not> same \<and> eg' = eg)
        \<and> (e < unat fend \<longrightarrow> missing (eg # after) \<inter> {e..<unat fend} = {})
        \<and> missing (eg # after) \<inter> {e..} = {e..<gE eg'} \<union> missing after'
        \<and> wf_gaps after' \<and> (\<forall>g \<in> set after'. gE eg' < gS g \<and> unat fend \<le> gS g)
        \<and> eg' \<in> set (eg # after) \<and> set after' \<subseteq> set after
        \<and> (\<exists>D. q' = q |` (- D) \<and> (\<forall>d \<in> D. unat d < e \<and> (\<exists>g \<in> set (eg # after). d = bi_End g))))"
  using assms
proof (induction after arbitrary: eg same q)
  case Nil
  then have "find_end_gap fend eg same [] q = Inr (if same then SameGap else LaterGap, eg, [], q)"
    by (simp add: word_le_nat_alt)
  moreover have "min (unat fend) (gE eg) = unat fend" using Nil by simp
  ultimately show ?case using Nil by (auto simp: Let_def intro!: exI [of _ "{}"])
next
  case (Cons nxt gs)
  from Cons.prems(1) have eg: "gS eg < gE eg" "gE eg < gS nxt" "\<forall>h \<in> set gs. gE eg < gS h"
    and wf: "wf_gaps (nxt # gs)" by auto
  then have next_gap: "gS nxt < gE nxt" "\<forall>h \<in> set gs. gE nxt < gS h" by auto
  consider (inside) "unat fend < gE eg" | (stop) "gE eg \<le> unat fend" "unat fend \<le> gS nxt"
    | (go) "gE eg \<le> unat fend" "gS nxt < unat fend" by linarith
  then show ?case
  proof cases
    case inside
    then have "find_end_gap fend eg same (nxt # gs) q = Inr (if same then SameGap else LaterGap, eg, nxt # gs, q)"
      by (simp add: word_le_nat_alt)
    moreover have "min (unat fend) (gE eg) = unat fend" using inside by simp
    moreover have "\<forall>h \<in> set (nxt # gs). gE eg < gS h \<and> unat fend \<le> gS h" using eg inside by fastforce
    moreover have "missing (eg # nxt # gs) \<inter> {unat fend..} = {unat fend..<gE eg} \<union> missing (nxt # gs)"
      using Cons.prems(2) eg inside by (fastforce simp: missing_def)
    ultimately show ?thesis using Cons.prems wf inside by (auto simp: Let_def intro!: exI [of _ "{}"])
  next
    case stop
    then have "find_end_gap fend eg same (nxt # gs) q = Inr (if same then SameGap else RemovedGap, eg, nxt # gs, q)"
      by (simp add: word_le_nat_alt)
    moreover have "min (unat fend) (gE eg) = gE eg" using stop by simp
    moreover have "\<forall>h \<in> set (nxt # gs). gE eg < gS h \<and> unat fend \<le> gS h" using eg stop next_gap by fastforce
    moreover have "missing (eg # nxt # gs) \<inter> {gE eg..<unat fend} = {}"
      "missing (eg # nxt # gs) \<inter> {gE eg..} = {gE eg..<gE eg} \<union> missing (nxt # gs)"
      using eg stop next_gap by (fastforce simp: missing_def)+
    ultimately show ?thesis using Cons.prems wf eg by (auto simp: Let_def intro!: exI [of _ "{}"])
  next
    case go
    have step: "find_end_gap fend eg same (nxt # gs) q = find_end_gap fend nxt False gs (q(bi_End eg := None))"
      using go by (simp add: word_le_nat_alt)
    have "unat fend < gE (last (nxt # gs))" using Cons.prems(3) by simp
    from Cons.IH [OF wf go(2) this, of False "q(bi_End eg := None)"] obtain kind eg' after' q'
      where r: "find_end_gap fend nxt False gs (q(bi_End eg := None)) = Inr (kind, eg', after', q')"
        and ih: "gS eg' < min (unat fend) (gE eg')" "kind \<noteq> SameGap"
        "kind = LaterGap \<longrightarrow> unat fend < gE eg'"
        "kind = RemovedGap \<longrightarrow> min (unat fend) (gE eg') = gE eg'"
        "gE nxt < min (unat fend) (gE eg') \<or> eg' = nxt"
        "min (unat fend) (gE eg') < unat fend \<longrightarrow> missing (nxt # gs) \<inter> {min (unat fend) (gE eg')..<unat fend} = {}"
        "missing (nxt # gs) \<inter> {min (unat fend) (gE eg')..} = {min (unat fend) (gE eg')..<gE eg'} \<union> missing after'"
        "wf_gaps after'" "\<forall>g \<in> set after'. gE eg' < gS g \<and> unat fend \<le> gS g"
        "eg' \<in> set (nxt # gs)" "set after' \<subseteq> set gs"
        "\<exists>D. q' = (q(bi_End eg := None)) |` (- D)
           \<and> (\<forall>d \<in> D. unat d < min (unat fend) (gE eg') \<and> (\<exists>g \<in> set (nxt # gs). d = bi_End g))"
      unfolding Let_def by blast
    let ?e = "min (unat fend) (gE eg')"
    have above: "gE eg < ?e" using ih(5) eg go next_gap by auto
    from ih(12) obtain D where D: "q' = (q(bi_End eg := None)) |` (- D)"
      "\<forall>d \<in> D. unat d < ?e \<and> (\<exists>g \<in> set (nxt # gs). d = bi_End g)" by blast
    have q': "q' = q |` (- insert (bi_End eg) D)" using D(1) by (auto simp: restrict_map_def fun_eq_iff)
    have D': "\<forall>d \<in> insert (bi_End eg) D. unat d < ?e \<and> (\<exists>g \<in> set (eg # nxt # gs). d = bi_End g)"
      using D(2) above by simp
    have m1: "missing (eg # nxt # gs) \<inter> {?e..} = {?e..<gE eg'} \<union> missing after'"
    proof -
      have "{gS eg..<gE eg} \<inter> {?e..} = {}" using above by auto
      then show ?thesis using ih(7) by (simp only: missing_simps(2) [of eg] Int_Un_distrib2 Un_empty_left)
    qed
    have m2: "?e < unat fend \<longrightarrow> missing (eg # nxt # gs) \<inter> {?e..<unat fend} = {}"
    proof -
      have "{gS eg..<gE eg} \<inter> {?e..<unat fend} = {}" using above by auto
      then show ?thesis using ih(6) by (simp only: missing_simps(2) [of eg] Int_Un_distrib2 Un_empty_left)
    qed
    have set': "eg' \<in> set (eg # nxt # gs)" "set after' \<subseteq> set (nxt # gs)" using ih(10,11) by auto
    have c1: "kind = SameGap \<longrightarrow> same \<and> eg' = eg" using ih(2) by simp
    have c3: "kind \<noteq> SameGap \<longrightarrow> gE eg < ?e \<or> \<not> same \<and> eg' = eg" using above by simp
    have "\<exists>D. q' = q |` (- D) \<and> (\<forall>d \<in> D. unat d < ?e \<and> (\<exists>g \<in> set (eg # nxt # gs). d = bi_End g))"
      using q' D' by blast
    then show ?thesis
      unfolding step r Let_def
      using ih(1,3,4,8,9) m1 m2 set' c1 c3
      by (intro exI [of _ kind] exI [of _ eg'] exI [of _ after'] exI [of _ q'] conjI) (assumption | simp only: simp_thms)+
  qed
qed

lemma shrink_gaps_ok:
  assumes "gS gap \<le> unat a" "unat a < gE gap" "unat a < unat e" "gS eg < unat e" "unat e \<le> gE eg"
    and "kind = SameGap \<Longrightarrow> eg = gap"
    and "kind = LaterGap \<Longrightarrow> gE gap < unat e \<and> unat e < gE eg \<and> gE gap < gS eg"
    and "kind = RemovedGap \<Longrightarrow> gE gap < unat e \<and> unat e = gE eg"
  shows "missing (shrink_gaps a e gap kind eg) = {gS gap..<unat a} \<union> {unat e..<gE eg}"
    and "wf_gaps (shrink_gaps a e gap kind eg)"
    and "\<forall>g \<in> set (shrink_gaps a e gap kind eg). gS gap \<le> gS g \<and> gE g \<le> gE eg
           \<and> (bi_End g = a \<or> bi_End g = bi_End eg)"
  using assms by (cases kind; auto simp: shrink_gaps_def word_le_nat_alt word_less_nat_alt word_unat_eq_iff)+

subsection \<open>The invariant\<close>

text \<open>
  \<open>slice S f\<close>: the frame \<open>f\<close> holds bytes of the stream \<open>S\<close> at its offset. The invariant of a sorter
  that is fed with frames of \<open>S\<close>: queued frames are slices of the stream without missing bytes, all
  bytes before the read position arrived, and there is a set \<open>B\<close> of positions that contains the read
  position and the ends of the gaps, such that a frame is queued at every position of \<open>B\<close> whose byte
  arrived, and ends at a position of \<open>B\<close>.
\<close>

abbreviation lo :: "StreamFrame \<Rightarrow> nat" where "lo f \<equiv> unat (sf_Offset f)"
abbreviation hi :: "StreamFrame \<Rightarrow> nat" where "hi f \<equiv> unat (sf_Offset f) + length (sf_Data f)"

definition slice :: "byte list \<Rightarrow> StreamFrame \<Rightarrow> bool" where
  "slice S f \<longleftrightarrow> hi f \<le> length S \<and> sf_Data f = take (length (sf_Data f)) (drop (lo f) S)"

definition frames_ok :: "byte list \<Rightarrow> nat set \<Rightarrow> (ByteCount \<rightharpoonup> StreamFrame) \<Rightarrow> bool" where
  "frames_ok S M q \<longleftrightarrow>
     (\<forall>k f. q k = Some f \<longrightarrow> sf_Offset f = k \<and> slice S f \<and> {lo f..<hi f} \<inter> M = {}
        \<and> (sf_Data f = [] \<longrightarrow> lo f = length S))"

definition chained :: "nat set \<Rightarrow> nat set \<Rightarrow> (ByteCount \<rightharpoonup> StreamFrame) \<Rightarrow> bool" where
  "chained B M q \<longleftrightarrow>
     (\<forall>k. unat k \<in> B \<longrightarrow> unat k \<notin> M \<longrightarrow>
        (\<exists>f. q k = Some f \<and> sf_Data f \<noteq> [] \<and> unat k + length (sf_Data f) \<in> B))"

definition sorter_inv :: "byte list \<Rightarrow> streamFrameSorter \<Rightarrow> bool" where
  "sorter_inv S s \<longleftrightarrow>
     length S < 2 ^ 62 - 1 \<and> wf_gaps (gaps s) \<and> length S \<in> missing (gaps s)
     \<and> frames_ok S (missing (gaps s)) (queuedFrames s)
     \<and> {0..<unat (readPosition s)} \<inter> missing (gaps s) = {} \<and> unat (readPosition s) \<le> length S
     \<and> (\<exists>B. unat (readPosition s) \<in> B \<and> (\<forall>g \<in> set (gaps s). gE g \<le> length S \<longrightarrow> gE g \<in> B)
          \<and> chained B (missing (gaps s)) (queuedFrames s))"

lemma frame_end_nat:
  assumes "slice S f" "length S < 2 ^ 62 - 1"
  shows "unat (sf_Offset f + DataLen f) = hi f" "unat (DataLen f) = length (sf_Data f)"
proof -
  have "hi f < 2 ^ 64" using assms by (auto simp: slice_def)
  then show "unat (sf_Offset f + DataLen f) = hi f" by (simp add: DataLen_def unat_plus_of_nat)
  from \<open>hi f < 2 ^ 64\<close> unat_plus_of_nat [of 0 "length (sf_Data f)"]
  show "unat (DataLen f) = length (sf_Data f)" by (simp add: DataLen_def)
qed

text \<open>The part \<open>[a, e)\<close> of a slice is a slice.\<close>

lemma slice_part:
  assumes "slice S f" "lo f \<le> unat a" "unat a \<le> e" "e \<le> hi f"
  shows "slice S (f\<lparr>sf_Offset := a, sf_Data := take (e - unat a) (drop (unat a - lo f) (sf_Data f))\<rparr>)"
proof -
  let ?d = "sf_Data f"
  have "?d = take (length ?d) (drop (lo f) S)" using assms(1) by (simp add: slice_def)
  then have "take (e - unat a) (drop (unat a - lo f) ?d)
      = take (e - unat a) (drop (unat a - lo f) (take (length ?d) (drop (lo f) S)))" by simp
  also have "\<dots> = take (min (e - unat a) (length ?d - (unat a - lo f))) (drop (unat a) S)"
    using assms(2) by (simp add: drop_take)
  also have "min (e - unat a) (length ?d - (unat a - lo f)) = e - unat a" using assms by simp
  finally show ?thesis using assms by (simp add: slice_def min_def)
qed

text \<open>Where the missing bytes of the gaps from the first reached gap on are.\<close>

lemma missing_before:
  "wf_gaps (gs @ g # hs) \<Longrightarrow> \<forall>h \<in> set gs. gE h < n \<Longrightarrow> x \<in> missing gs \<Longrightarrow> x < n"
  by (fastforce simp: missing_def)

lemma missing_from_gap:
  "wf_gaps (g # hs) \<Longrightarrow> n \<le> gE g \<Longrightarrow> missing (g # hs) \<inter> {..<n} = {gS g..<n}"
  by (fastforce simp: missing_def)

lemma missing_from_start: "wf_gaps (g # hs) \<Longrightarrow> x \<in> missing (g # hs) \<Longrightarrow> gS g \<le> x"
  by (fastforce simp: missing_def)

lemma last_gap_beyond:
  "wf_gaps gs \<Longrightarrow> n \<in> missing gs \<Longrightarrow> gs \<noteq> [] \<and> n < gE (last gs)"
proof (induction gs)
  case (Cons g gs)
  then show ?case
  proof (cases "gs = []")
    case False
    then have "gE g < gE (last gs)" using Cons.prems(1) last_in_set [OF False]
      by (meson less_trans wf_gaps_def wf_gaps_simps(2))
    with False Cons show ?thesis by auto
  qed auto
qed simp

text \<open>The frame and the gaps that \<open>push_data\<close> makes of what the two loops found.\<close>

lemma push_data_result:
  assumes f: "slice S f" "length S < 2 ^ 62 - 1"
    and skip: "skip_gaps (sf_Offset f) (sf_Offset f + DataLen f) (gaps s) = Inr (before, gap, after)"
    and found: "find_end_gap (sf_Offset f + DataLen f) gap True after (queuedFrames s) = Inr (kind, eg, after', q)"
    and push: "push_data f s = Inr s'"
    and a: "a = (if sf_Offset f < bi_Start gap then bi_Start gap else sf_Offset f)" "unat a \<le> hi f"
    and e: "e = (if sf_Offset f + DataLen f > bi_End eg then bi_End eg else sf_Offset f + DataLen f)"
      "unat a \<le> unat e"
  shows "s' = s\<lparr>gaps := before @ shrink_gaps a e gap kind eg @ after',
    queuedFrames := q(a \<mapsto> f\<lparr>sf_Offset := a,
       sf_Data := take (unat e - unat a) (drop (unat a - lo f) (sf_Data f))\<rparr>)\<rparr>"
proof -
  let ?fend = "sf_Offset f + DataLen f"
  note fend = frame_end_nat [OF f]
  define F where "F = (if sf_Offset f < bi_Start gap
      then f\<lparr>sf_Offset := sf_Offset f + (bi_Start gap - sf_Offset f),
             sf_Data := drop (unat (bi_Start gap - sf_Offset f)) (sf_Data f)\<rparr> else f)"
  have F: "F = f\<lparr>sf_Offset := a, sf_Data := drop (unat a - lo f) (sf_Data f)\<rparr>"
  proof (cases "sf_Offset f < bi_Start gap")
    case True
    then have "unat (bi_Start gap - sf_Offset f) = gS gap - lo f"
      by (intro unat_sub) (simp add: word_le_nat_alt word_less_nat_alt)
    with True show ?thesis by (simp add: F_def a(1))
  next
    case False
    then show ?thesis by (simp add: F_def a(1))
  qed
  have lenF: "length (sf_Data F) = hi f - unat a" using a(2) by (auto simp: F a(1) word_less_nat_alt)
  have sm: "hi f < 2 ^ 62 - 1" using f by (auto simp: slice_def)
  define G where "G = (if ?fend > bi_End eg
      then F\<lparr>sf_Data := take (unat (DataLen F - (?fend - bi_End eg))) (sf_Data F)\<rparr> else F)"
  have G: "G = f\<lparr>sf_Offset := a, sf_Data := take (unat e - unat a) (drop (unat a - lo f) (sf_Data f))\<rparr>"
  proof (cases "?fend > bi_End eg")
    case True
    then have e': "e = bi_End eg" "gE eg < hi f" using e(1) by (simp_all add: word_less_nat_alt fend)
    have c: "unat (?fend - bi_End eg) = hi f - gE eg"
      using e' fend by (subst unat_sub) (simp_all add: word_le_nat_alt)
    have "unat (DataLen F) = hi f - unat a" using lenF sm by (subst unat_DataLen) simp_all
    then have "unat (DataLen F - (?fend - bi_End eg)) = (hi f - unat a) - (hi f - gE eg)"
      using c e(2) e' by (subst unat_sub) (simp_all add: word_le_nat_alt)
    also have "\<dots> = unat e - unat a" using e' e(2) by simp
    finally show ?thesis using True by (simp add: G_def F)
  next
    case False
    then have "unat e = hi f" by (simp add: e(1) fend)
    with False lenF show ?thesis by (simp add: G_def F)
  qed
  have "(if sf_Offset f < bi_Start gap then sf_Offset f + (bi_Start gap - sf_Offset f) else sf_Offset f) = a"
    by (simp add: a(1))
  moreover have "(if ?fend > bi_End eg then ?fend - (?fend - bi_End eg) else ?fend) = e"
    by (simp add: e(1))
  moreover have "sf_Offset G = a" by (simp add: G)
  ultimately show ?thesis
    using push unfolding push_data_eq Let_def skip ebind_simps prod.case found F_def [symmetric] G_def [symmetric]
    by (simp add: G split: if_splits)
qed

text \<open>
  What \<open>push_data\<close> does to a slice \<open>[lo, hi)\<close> of the stream that does not begin where a gap ends: it
  queues the part \<open>[a, e)\<close>, which begins with a missing byte; the bytes it leaves out arrived before.
\<close>

lemma push_data_shape:
  assumes wf: "wf_gaps (gaps s)" and fin: "length S \<in> missing (gaps s)" and small: "length S < 2 ^ 62 - 1"
    and f: "slice S f" "sf_Data f \<noteq> []" and no_end: "\<forall>g \<in> set (gaps s). gE g \<noteq> lo f"
    and push: "push_data f s = Inr s'"
  shows "\<exists>a e D. lo f \<le> unat a \<and> unat a < e \<and> e \<le> hi f \<and> unat a \<in> missing (gaps s)
     \<and> missing (gaps s') = missing (gaps s) - {lo f..<hi f}
     \<and> {lo f..<unat a} \<inter> missing (gaps s) = {} \<and> {e..<hi f} \<inter> missing (gaps s) = {}
     \<and> wf_gaps (gaps s')
     \<and> (\<forall>g \<in> set (gaps s'). bi_End g = a \<or> (\<exists>h \<in> set (gaps s). bi_End g = bi_End h))
     \<and> (e \<in> missing (gaps s') \<or> (\<exists>g \<in> set (gaps s). gE g = e))
     \<and> queuedFrames s' = (queuedFrames s |` (- D))(a \<mapsto>
          f\<lparr>sf_Offset := a, sf_Data := take (e - unat a) (drop (unat a - lo f) (sf_Data f))\<rparr>)
     \<and> (\<forall>d \<in> D. unat a < unat d \<and> unat d < e) \<and> readPosition s' = readPosition s"
proof -
  let ?fend = "sf_Offset f + DataLen f"
  note fend = frame_end_nat [OF f(1) small]
  have hi: "hi f \<le> length S" using f(1) by (simp add: slice_def)
  have lohi: "lo f < hi f" using f(2) by simp
  from push obtain before gap after where skip: "skip_gaps (sf_Offset f) ?fend (gaps s) = Inr (before, gap, after)"
    by (auto simp: push_data_eq ebind_Inr_iff Let_def)
  from skip_gaps_ok [OF this] have gs: "gaps s = before @ gap # after" and gap: "gS gap < hi f" "lo f \<le> gE gap"
    and before: "\<forall>g \<in> set before. gE g < lo f"
    by (simp_all add: fend)
  have gap': "lo f < gE gap" using gap(2) no_end gs by fastforce
  have wfg: "wf_gaps (gap # after)" and wfb: "wf_gaps before"
    and apart: "\<forall>g \<in> set before. \<forall>h \<in> set (gap # after). gE g < gS h"
    using wf unfolding gs by auto
  have "hi f < gE (last (gap # after))"
    using last_gap_beyond [OF wf fin] hi unfolding gs by (cases after) simp_all
  from find_end_gap_ok [OF wfg _ this [folded fend(1)], of True "queuedFrames s"] gap(1)
  obtain kind eg after' q where found: "find_end_gap ?fend gap True after (queuedFrames s) = Inr (kind, eg, after', q)"
    and spec: "let e = min (unat ?fend) (gE eg) in
        gS eg < e \<and> (kind = SameGap \<longrightarrow> True \<and> eg = gap) \<and> (kind = LaterGap \<longrightarrow> unat ?fend < gE eg)
        \<and> (kind = RemovedGap \<longrightarrow> e = gE eg) \<and> (kind \<noteq> SameGap \<longrightarrow> gE gap < e \<or> \<not> True \<and> eg = gap)
        \<and> (e < unat ?fend \<longrightarrow> missing (gap # after) \<inter> {e..<unat ?fend} = {})
        \<and> missing (gap # after) \<inter> {e..} = {e..<gE eg} \<union> missing after'
        \<and> wf_gaps after' \<and> (\<forall>g \<in> set after'. gE eg < gS g \<and> unat ?fend \<le> gS g)
        \<and> eg \<in> set (gap # after) \<and> set after' \<subseteq> set after
        \<and> (\<exists>D. q = queuedFrames s |` (- D) \<and> (\<forall>d \<in> D. unat d < e \<and> (\<exists>g \<in> set (gap # after). d = bi_End g)))"
    unfolding fend(1) by blast
  define e where "e = min (hi f) (gE eg)"
  from spec have k: "gS eg < e" "kind = SameGap \<longrightarrow> eg = gap" "kind = LaterGap \<longrightarrow> hi f < gE eg"
    "kind = RemovedGap \<longrightarrow> e = gE eg" "kind \<noteq> SameGap \<longrightarrow> gE gap < e"
    "e < hi f \<longrightarrow> missing (gap # after) \<inter> {e..<hi f} = {}"
    "missing (gap # after) \<inter> {e..} = {e..<gE eg} \<union> missing after'"
    "wf_gaps after'" "\<forall>g \<in> set after'. gE eg < gS g"
    "eg \<in> set (gap # after)" "set after' \<subseteq> set after"
    "\<exists>D. q = queuedFrames s |` (- D) \<and> (\<forall>d \<in> D. unat d < e \<and> (\<exists>g \<in> set (gap # after). d = bi_End g))"
    by (simp_all add: Let_def fend e_def)
  define a where "a = (if sf_Offset f < bi_Start gap then bi_Start gap else sf_Offset f)"
  have a: "unat a = max (lo f) (gS gap)" by (simp add: a_def word_less_nat_alt)
  define ew where "ew = (if ?fend > bi_End eg then bi_End eg else ?fend)"
  have ew: "unat ew = e" by (simp add: ew_def e_def word_less_nat_alt fend)
  have a_gap: "gS gap \<le> unat a" "unat a < gE gap" "lo f \<le> unat a" "unat a < hi f"
    using a gap gap' lohi wfg by auto
  have ae: "unat a < e"
  proof (cases "kind = SameGap")
    case True
    with k(2) a_gap show ?thesis by (simp add: e_def)
  next
    case False
    with k(5) a_gap show ?thesis by simp
  qed
  have later: "gE gap < gS eg" if "kind = LaterGap"
  proof -
    have "eg \<noteq> gap" using k(3,5) that by (auto simp: e_def)
    with k(10) wfg show ?thesis by auto
  qed
  have e_le: "e \<le> gE eg" "e \<le> hi f" by (simp_all add: e_def)
  have e_later: "kind = LaterGap \<Longrightarrow> e < gE eg" using k(3) by (auto simp: e_def)
  have s': "s' = s\<lparr>gaps := before @ shrink_gaps a ew gap kind eg @ after',
    queuedFrames := q(a \<mapsto> f\<lparr>sf_Offset := a,
       sf_Data := take (e - unat a) (drop (unat a - lo f) (sf_Data f))\<rparr>)\<rparr>"
    using push_data_result [OF f(1) small skip found push a_def _ ew_def] a_gap ae ew by simp
  have p: "unat a < unat ew" "gS eg < unat ew" "unat ew \<le> gE eg" "kind = SameGap \<Longrightarrow> eg = gap"
    "kind = LaterGap \<Longrightarrow> gE gap < unat ew \<and> unat ew < gE eg \<and> gE gap < gS eg"
    "kind = RemovedGap \<Longrightarrow> gE gap < unat ew \<and> unat ew = gE eg"
    using ae k(1,2,4,5) e_le(1) later e_later by (simp_all add: ew)
  have sh: "missing (shrink_gaps a ew gap kind eg) = {gS gap..<unat a} \<union> {e..<gE eg}"
    "wf_gaps (shrink_gaps a ew gap kind eg)"
    "\<forall>g \<in> set (shrink_gaps a ew gap kind eg). gS gap \<le> gS g \<and> gE g \<le> gE eg
           \<and> (bi_End g = a \<or> bi_End g = bi_End eg)"
    using shrink_gaps_ok [OF a_gap(1,2) p] by (simp_all only: ew)
  from k(12) obtain D where D: "q = queuedFrames s |` (- D)"
    "\<forall>d \<in> D. unat d < e \<and> (\<exists>g \<in> set (gap # after). d = bi_End g)" by blast
  have D_above: "\<forall>d \<in> D. unat a < unat d \<and> unat d < e"
  proof -
    have "\<forall>h \<in> set (gap # after). unat a < gE h"
      using wfg a_gap(2) by (fastforce simp: wf_gaps_def)
    with D(2) show ?thesis by metis
  qed
  let ?M = "missing (gaps s)"
  let ?A = "missing (gap # after)"
  have M: "?M = missing before \<union> ?A" unfolding gs by simp
  have M': "missing (gaps s') = missing before \<union> {gS gap..<unat a} \<union> {e..<gE eg} \<union> missing after'"
    using sh(1) by (simp add: s' Un_assoc)
  have b: "\<forall>x \<in> missing before. x < lo f" using before by (fastforce simp: missing_def)
  have g: "\<forall>x \<in> ?A. gS gap \<le> x" using missing_from_start [OF wfg] by blast
  have low: "?A \<inter> {..<unat a} = {gS gap..<unat a}" using missing_from_gap [OF wfg, of "unat a"] a_gap by simp
  have c4: "unat a \<in> ?M" using a_gap by (simp add: M)
  have c6: "{lo f..<unat a} \<inter> ?M = {}" using b g a unfolding M by fastforce
  have c7: "{e..<hi f} \<inter> ?M = {}"
  proof -
    have "{e..<hi f} \<inter> missing before = {}" using b ae a_gap by fastforce
    moreover have "{e..<hi f} \<inter> ?A = {}" using k(6) by (cases "e < hi f") (simp_all add: Int_commute)
    ultimately show ?thesis by (simp only: M Int_Un_distrib Un_empty)
  qed
  have A_high: "x \<in> ?A \<longleftrightarrow> x < gE eg \<or> x \<in> missing after'" if "e \<le> x" for x
  proof -
    from that have "x \<in> ?A \<longleftrightarrow> x \<in> ?A \<inter> {e..}" by simp
    with that k(7) show ?thesis by simp
  qed
  have A_low: "x \<in> ?A \<longleftrightarrow> gS gap \<le> x" if "x < unat a" for x
  proof -
    from that have "x \<in> ?A \<longleftrightarrow> x \<in> ?A \<inter> {..<unat a}" by simp
    with that low show ?thesis by simp
  qed
  have after_high: "e \<le> x" if "x \<in> missing after'" for x
  proof -
    from that have "x \<in> {e..<gE eg} \<union> missing after'" by simp
    with k(7) have "x \<in> {e..}" by (metis Int_iff)
    then show ?thesis by simp
  qed
  have c5: "missing (gaps s') = ?M - {lo f..<hi f}"
  proof (rule set_eqI)
    fix x
    consider (1) "x < unat a" | (2) "unat a \<le> x" "x < e" | (3) "e \<le> x" by linarith
    then show "x \<in> missing (gaps s') \<longleftrightarrow> x \<in> ?M - {lo f..<hi f}"
    proof cases
      case 1
      then have "x \<notin> missing after'" using after_high [of x] ae by auto
      moreover have "x \<in> ?M \<longrightarrow> x < lo f" using c6 1 by (metis IntI atLeastLessThan_iff empty_iff not_less)
      ultimately show ?thesis unfolding M' M using 1 A_low [OF 1] ae a_gap by auto
    next
      case 2
      then have "x \<notin> missing before" using b a_gap by fastforce
      moreover have "x \<notin> missing after'" using after_high [of x] 2 by auto
      ultimately show ?thesis unfolding M' using 2 e_le a_gap by auto
    next
      case 3
      then have x: "x \<notin> missing before" using b a_gap ae by fastforce
      have "x \<in> ?M \<longrightarrow> \<not> x < hi f" using c7 3 by (metis IntI atLeastLessThan_iff empty_iff)
      then show ?thesis unfolding M' M using 3 x ae A_high [OF 3] by auto
    qed
  qed
  have c8: "wf_gaps (gaps s')"
  proof -
    have "\<forall>h \<in> set (shrink_gaps a ew gap kind eg @ after'). gS gap \<le> gS h"
      using sh(3) k(11) wfg by fastforce
    then have "\<forall>g \<in> set before. \<forall>h \<in> set (shrink_gaps a ew gap kind eg @ after'). gE g < gS h"
      using apart by fastforce
    moreover have "\<forall>g \<in> set (shrink_gaps a ew gap kind eg). \<forall>h \<in> set after'. gE g < gS h"
      using sh(3) k(9) le_less_trans by blast
    ultimately show ?thesis using sh(2) k(8) wfb by (simp add: s')
  qed
  have c9: "\<forall>g \<in> set (gaps s'). bi_End g = a \<or> (\<exists>h \<in> set (gaps s). bi_End g = bi_End h)"
    using sh(3) k(10,11) by (auto simp: s' gs)
  have c10: "e \<in> missing (gaps s') \<or> (\<exists>g \<in> set (gaps s). gE g = e)"
  proof (cases "e = gE eg")
    case True
    with k(10) show ?thesis by (auto simp: gs)
  next
    case False
    with e_le(1) show ?thesis unfolding M' by simp
  qed
  have c11: "queuedFrames s' = (queuedFrames s |` (- D))(a \<mapsto>
          f\<lparr>sf_Offset := a, sf_Data := take (e - unat a) (drop (unat a - lo f) (sf_Data f))\<rparr>)"
    "readPosition s' = readPosition s"
    by (simp_all add: s' D(1))
  show ?thesis
    using a_gap(3) ae e_le(2) c4 c5 c6 c7 c8 c9 c10 c11 D_above by blast
qed

text \<open>An error of \<open>push_data\<close> is a duplicate, all of whose bytes arrived, or too many gaps.\<close>

lemma push_data_error:
  assumes "wf_gaps (gaps s)" "length S \<in> missing (gaps s)" "length S < 2 ^ 62 - 1"
    and f: "slice S f" "sf_Data f \<noteq> []" and push: "push_data f s = Inl err"
  shows "err = errDuplicateStreamData \<and> {lo f..<hi f} \<inter> missing (gaps s) = {}
         \<or> err = errTooManyGapsInReceivedStreamData"
proof -
  note fend = frame_end_nat [OF f(1) assms(3)]
  have hi: "hi f \<le> length S" using f(1) by (simp add: slice_def)
  have ne: "gaps s \<noteq> []" "hi f < gE (last (gaps s))" using last_gap_beyond [OF assms(1,2)] hi by auto
  show ?thesis
  proof (cases "skip_gaps (sf_Offset f) (sf_Offset f + DataLen f) (gaps s)")
    case (Inl e)
    with push have "err = e" by (simp add: push_data_eq Let_def)
    with skip_gaps_error [OF Inl assms(1) ne(1)] ne(2) f(2) fend show ?thesis by auto
  next
    case (Inr r)
    obtain before gap after where r: "r = (before, gap, after)" by (cases r)
    from skip_gaps_ok [OF Inr [unfolded r]] have gs: "gaps s = before @ gap # after" "gS gap < hi f"
      by (simp_all add: fend)
    have "wf_gaps (gap # after)" using assms(1) unfolding gs by auto
    moreover have "hi f < gE (last (gap # after))" using ne(2) gs by simp
    ultimately obtain res where "find_end_gap (sf_Offset f + DataLen f) gap True after (queuedFrames s) = Inr res"
      using find_end_gap_ok [of gap after "sf_Offset f + DataLen f" True "queuedFrames s"] gs(2) fend
      by (metis (no_types, lifting))
    with push Inr r show ?thesis by (cases res) (simp add: push_data_eq Let_def split: if_splits)
  qed
qed

end
