(* ===== verification/Sorter_Delivery.thy ===== *)
theory Sorter_Delivery
  imports Stream_Sorter
begin

section \<open>What the frame sorter delivers\<close>

text \<open>
  The operations of the sorter keep its invariant when the frames it is fed with are frames of one
  stream; the bytes that are popped are the stream, in order and without holes.
\<close>

subsection \<open>Every operation keeps the invariant\<close>

lemma sorter_inv_start: "length S < 2 ^ 62 - 1 \<Longrightarrow> sorter_inv S newStreamFrameSorter"
proof -
  assume small: "length S < 2 ^ 62 - 1"
  have "unat MaxByteCount = 2 ^ 62 - 1" by (simp add: MaxByteCount_def push_bit_eq_mult)
  then show ?thesis
    using small
    by (auto simp: sorter_inv_def newStreamFrameSorter_def frames_ok_def chained_def intro!: exI [of _ "{0}"])
qed

text \<open>A gap does not end where a frame is queued, and the byte before a frame's end did arrive.\<close>

lemma gap_end_queued:
  assumes "sorter_inv S s" "g \<in> set (gaps s)" "gE g = lo f" "lo f < length S"
  shows "\<exists>f'. queuedFrames s (sf_Offset f) = Some f' \<and> sf_Data f' \<noteq> []"
proof -
  from assms(1) obtain B where B: "\<forall>g \<in> set (gaps s). gE g \<le> length S \<longrightarrow> gE g \<in> B"
    "chained B (missing (gaps s)) (queuedFrames s)" and wf: "wf_gaps (gaps s)"
    by (auto simp: sorter_inv_def)
  from assms B(1) have "lo f \<in> B" by force
  moreover have "lo f \<notin> missing (gaps s)"
  proof
    assume "lo f \<in> missing (gaps s)"
    then obtain h where h: "h \<in> set (gaps s)" "gS h \<le> lo f" "lo f < gE h" by (auto simp: missing_def)
    obtain gs1 gs2 where gs: "gaps s = gs1 @ g # gs2" using assms(2) by (meson split_list)
    have "gS g < gE g" "\<forall>k \<in> set gs1. gE k < gS g" "\<forall>k \<in> set gs2. gE g < gS k"
      using wf unfolding gs by auto
    with h assms(3) show False unfolding gs by fastforce
  qed
  ultimately show ?thesis using B(2) by (auto simp: chained_def)
qed

lemma push_data_inv:
  assumes inv: "sorter_inv S s" and f: "slice S f" "sf_Data f \<noteq> []"
    and no_end: "\<forall>g \<in> set (gaps s). gE g \<noteq> lo f" and push: "push_data f s = Inr s'"
  shows "sorter_inv S s'" and "missing (gaps s') = missing (gaps s) - {lo f..<hi f}"
    and "readPosition s' = readPosition s"
proof -
  from inv obtain B where small: "length S < 2 ^ 62 - 1" and wf: "wf_gaps (gaps s)"
    and fin: "length S \<in> missing (gaps s)" and q: "frames_ok S (missing (gaps s)) (queuedFrames s)"
    and rp: "{0..<unat (readPosition s)} \<inter> missing (gaps s) = {}" "unat (readPosition s) \<le> length S"
    and B: "unat (readPosition s) \<in> B" "\<forall>g \<in> set (gaps s). gE g \<le> length S \<longrightarrow> gE g \<in> B"
      "chained B (missing (gaps s)) (queuedFrames s)"
    by (auto simp: sorter_inv_def)
  let ?M = "missing (gaps s)" and ?M' = "missing (gaps s')"
  from push_data_shape [OF wf fin small f no_end push] obtain a e D
    where ae: "lo f \<le> unat a" "unat a < e" "e \<le> hi f" and aM: "unat a \<in> ?M"
      and M': "?M' = ?M - {lo f..<hi f}"
      and cut: "{lo f..<unat a} \<inter> ?M = {}" "{e..<hi f} \<inter> ?M = {}"
      and wf': "wf_gaps (gaps s')"
      and ends: "\<forall>g \<in> set (gaps s'). bi_End g = a \<or> (\<exists>h \<in> set (gaps s). bi_End g = bi_End h)"
      and e_end: "e \<in> ?M' \<or> (\<exists>g \<in> set (gaps s). gE g = e)"
      and q': "queuedFrames s' = (queuedFrames s |` (- D))(a \<mapsto>
          f\<lparr>sf_Offset := a, sf_Data := take (e - unat a) (drop (unat a - lo f) (sf_Data f))\<rparr>)"
      and D: "\<forall>d \<in> D. unat a < unat d \<and> unat d < e"
      and r: "readPosition s' = readPosition s"
    by blast
  let ?F = "f\<lparr>sf_Offset := a, sf_Data := take (e - unat a) (drop (unat a - lo f) (sf_Data f))\<rparr>"
  have hiS: "hi f \<le> length S" using f(1) by (simp add: slice_def)
  have F: "slice S ?F" using slice_part [OF f(1) ae(1) _ ae(3)] ae(2) by simp
  have lenF: "length (sf_Data ?F) = e - unat a" using ae by simp
  have M'sub: "?M' \<subseteq> ?M" "{unat a..<e} \<inter> ?M' = {}" using M' ae by auto
  have frames': "frames_ok S ?M' (queuedFrames s')"
    unfolding frames_ok_def
  proof (intro allI impI)
    fix k g assume k: "queuedFrames s' k = Some g"
    show "sf_Offset g = k \<and> slice S g \<and> {lo g..<hi g} \<inter> ?M' = {} \<and> (sf_Data g = [] \<longrightarrow> lo g = length S)"
    proof (cases "k = a")
      case True
      then have g: "g = ?F" using k q' by simp
      have "sf_Data ?F \<noteq> []" using lenF ae by (metis length_0_conv zero_less_diff less_irrefl)
      moreover have "hi ?F = e" using lenF ae by simp
      ultimately show ?thesis unfolding g using F M'sub(2) True by simp
    next
      case False
      then have "queuedFrames s k = Some g" using k q' by (auto simp: restrict_map_def split: if_splits)
      then show ?thesis using q M'sub(1) unfolding frames_ok_def by blast
    qed
  qed
  define B' where "B' = (B - {unat a<..<e}) \<union> {unat a, e}"
  have rpa: "unat (readPosition s) \<le> unat a"
    using rp(1) aM by (metis IntI atLeastLessThan_iff empty_iff not_less zero_le)
  have gap_ends: "\<forall>g \<in> set (gaps s'). gE g \<le> length S \<longrightarrow> gE g \<in> B'"
  proof (intro ballI impI)
    fix g assume g: "g \<in> set (gaps s')" "gE g \<le> length S"
    from g(1) wf' have "gS g < gE g" by (simp add: wf_gaps_def)
    with g(1) have "gE g - 1 \<in> ?M'" unfolding missing_def by force
    have "gE g \<notin> {unat a<..<e}"
    proof
      assume "gE g \<in> {unat a<..<e}"
      then have "gE g - 1 \<in> {unat a..<e}" by auto
      with \<open>gE g - 1 \<in> ?M'\<close> M'sub(2) show False by blast
    qed
    then show "gE g \<in> B'" using ends g B(2) by (fastforce simp: B'_def)
  qed
  have chain': "chained B' ?M' (queuedFrames s')"
    unfolding chained_def
  proof (intro allI impI)
    fix k :: ByteCount assume k: "unat k \<in> B'" "unat k \<notin> ?M'"
    show "\<exists>g. queuedFrames s' k = Some g \<and> sf_Data g \<noteq> [] \<and> unat k + length (sf_Data g) \<in> B'"
    proof (cases "k = a")
      case True
      have "unat a + length (sf_Data ?F) = e" using lenF ae(2) by simp
      moreover have "sf_Data ?F \<noteq> []" using lenF ae by (metis length_0_conv zero_less_diff less_irrefl)
      ultimately show ?thesis using True by (simp add: q' B'_def)
    next
      case False
      then have ka: "unat k \<noteq> unat a" by (simp add: word_unat_eq_iff)
      have out: "unat k < unat a \<or> e \<le> unat k" using k(1) ka ae by (auto simp: B'_def)
      have kB: "unat k \<in> B"
      proof (cases "unat k = e")
        case True
        with e_end k(2) B(2) ae hiS show ?thesis by auto
      next
        case False
        with k(1) ka show ?thesis by (simp add: B'_def)
      qed
      have kM: "unat k \<notin> ?M"
      proof
        assume kM: "unat k \<in> ?M"
        then have "unat k \<in> {lo f..<hi f}" using k(2) M' by blast
        with out have "unat k \<in> {lo f..<unat a} \<or> unat k \<in> {e..<hi f}" by auto
        with kM cut show False by blast
      qed
      from B(3) kB kM obtain g where g: "queuedFrames s k = Some g" "sf_Data g \<noteq> []"
        "unat k + length (sf_Data g) \<in> B" by (auto simp: chained_def)
      have "k \<notin> D" using D out by fastforce
      then have "queuedFrames s' k = Some g" using g(1) False by (simp add: q')
      moreover have "unat k + length (sf_Data g) \<notin> {unat a<..<e}"
      proof (cases "unat k < unat a")
        case True
        have "sf_Offset g = k" "{lo g..<hi g} \<inter> ?M = {}" using q g(1) by (auto simp: frames_ok_def)
        with aM True have "\<not> unat a < unat k + length (sf_Data g)"
          by (metis IntI atLeastLessThan_iff empty_iff less_imp_le)
        then show ?thesis by simp
      next
        case False
        with out show ?thesis by simp
      qed
      ultimately show ?thesis using g by (auto simp: B'_def)
    qed
  qed
  have "length S \<in> ?M'" using fin M' hiS by simp
  moreover have "unat (readPosition s') \<in> B'" using B(1) rpa r by (auto simp: B'_def)
  moreover have "{0..<unat (readPosition s')} \<inter> ?M' = {}" using rp(1) M'sub(1) r by auto
  ultimately show "sorter_inv S s'"
    unfolding sorter_inv_def using small wf' frames' rp(2) r gap_ends chain' by auto
  show "?M' = ?M - {lo f..<hi f}" "readPosition s' = readPosition s" by fact+
qed

text \<open>The frames of a stream that the sorter is fed with: an empty frame ends the stream.\<close>

definition frame_of_stream :: "byte list \<Rightarrow> StreamFrame \<Rightarrow> bool" where
  "frame_of_stream S f \<longleftrightarrow> slice S f \<and> (sf_Data f = [] \<longrightarrow> sf_FinBit f)
     \<and> (sf_FinBit f \<longrightarrow> hi f = length S)"

lemma queued_frame:
  assumes "sorter_inv S s" "queuedFrames s k = Some f"
  shows "sf_Offset f = k" "slice S f" "{lo f..<hi f} \<inter> missing (gaps s) = {}"
    "sf_Data f = [] \<longrightarrow> lo f = length S" "unat (DataLen f) = length (sf_Data f)"
proof -
  from assms show f: "sf_Offset f = k" "slice S f" "{lo f..<hi f} \<inter> missing (gaps s) = {}"
    "sf_Data f = [] \<longrightarrow> lo f = length S"
    by (auto simp: sorter_inv_def frames_ok_def)
  have "length S < 2 ^ 62 - 1" using assms(1) by (simp add: sorter_inv_def)
  from frame_end_nat(2) [OF f(2) this] show "unat (DataLen f) = length (sf_Data f)" .
qed

text \<open>The rest of a frame that extends a queued one.\<close>

lemma rest_of_frame:
  assumes inv: "sorter_inv S s" and f: "slice S f" and old: "queuedFrames s (sf_Offset f) = Some old"
    and longer: "\<not> DataLen f \<le> DataLen old"
  defines "f1 \<equiv> f\<lparr>sf_Data := drop (length (sf_Data old)) (sf_Data f), sf_Offset := sf_Offset f + DataLen old\<rparr>"
  shows "slice S f1" "sf_Data f1 \<noteq> []" "\<forall>g \<in> set (gaps s). gE g \<noteq> lo f1"
    "missing (gaps s) - {lo f1..<hi f1} = missing (gaps s) - {lo f..<hi f}"
    "{lo f..<hi f} \<inter> missing (gaps s) = {lo f1..<hi f1} \<inter> missing (gaps s)"
proof -
  note o = queued_frame [OF inv old]
  have small: "length S < 2 ^ 62 - 1" and wf: "wf_gaps (gaps s)" using inv by (simp_all add: sorter_inv_def)
  have len: "length (sf_Data old) < length (sf_Data f)"
    using longer o(5) frame_end_nat(2) [OF f small] by (simp add: word_le_nat_alt)
  have hiS: "hi f \<le> length S" using f by (simp add: slice_def)
  have a: "unat (sf_Offset f + DataLen old) = lo f + length (sf_Data old)"
    using unat_plus_of_nat [of "sf_Offset f" "length (sf_Data old)"] len hiS small by (simp add: DataLen_def)
  have lo1: "lo f1 = lo f + length (sf_Data old)" "hi f1 = hi f" using a len by (simp_all add: f1_def)
  have "f1 = f\<lparr>sf_Offset := sf_Offset f + DataLen old, sf_Data := drop (length (sf_Data old)) (sf_Data f)\<rparr>"
    by (cases f) (simp add: f1_def)
  then show "slice S f1" using slice_part [OF f, of "sf_Offset f + DataLen old" "hi f"] len by (simp add: a)
  show "sf_Data f1 \<noteq> []" using len by (simp add: f1_def)
  have old_bytes: "{lo f..<lo f1} \<inter> missing (gaps s) = {}" using o(1,3) lo1 by simp
  have "sf_Data old \<noteq> []" using o(1,4) hiS len by auto
  show "\<forall>g \<in> set (gaps s). gE g \<noteq> lo f1"
  proof (intro ballI notI)
    fix g assume g: "g \<in> set (gaps s)" "gE g = lo f1"
    with wf have "gS g < gE g" unfolding wf_gaps_def by blast
    with g(1) have "gE g - 1 \<in> missing (gaps s)" unfolding missing_def by force
    moreover have "gE g - 1 \<in> {lo f..<lo f1}" using g(2) lo1 \<open>sf_Data old \<noteq> []\<close> by (cases "sf_Data old") auto
    ultimately show False using old_bytes by blast
  qed
  have "{lo f..<hi f} = {lo f..<lo f1} \<union> {lo f1..<hi f1}" using lo1 len by auto
  with old_bytes show "missing (gaps s) - {lo f1..<hi f1} = missing (gaps s) - {lo f..<hi f}"
    "{lo f..<hi f} \<inter> missing (gaps s) = {lo f1..<hi f1} \<inter> missing (gaps s)"
    by blast+
qed

lemma DataLen_zero:
  assumes "slice S f" "length S < 2 ^ 62 - 1"
  shows "DataLen f = 0 \<longleftrightarrow> sf_Data f = []"
  using frame_end_nat(2) [OF assms] by (auto simp: DataLen_def)

lemma no_gap_ends_at:
  assumes "sorter_inv S s" "slice S f" "sf_Data f \<noteq> []" "queuedFrames s (sf_Offset f) = None"
  shows "\<forall>g \<in> set (gaps s). gE g \<noteq> lo f"
proof (intro ballI notI)
  fix g assume "g \<in> set (gaps s)" "gE g = lo f"
  moreover have "lo f < length S" using assms(2,3) by (cases "sf_Data f") (auto simp: slice_def)
  ultimately show False using gap_end_queued [OF assms(1)] assms(4) by fastforce
qed

lemma Push_ok:
  assumes inv: "sorter_inv S s" and f: "frame_of_stream S f" and push: "Push f s = Inr s'"
  shows "sorter_inv S s' \<and> missing (gaps s') = missing (gaps s) - {lo f..<hi f}
         \<and> readPosition s' = readPosition s"
proof -
  have small: "length S < 2 ^ 62 - 1" using inv by (simp add: sorter_inv_def)
  have sl: "slice S f" using f by (simp add: frame_of_stream_def)
  note zero = DataLen_zero [OF sl small]
  show ?thesis
  proof (cases "sf_Data f = []")
    case True
    with push zero f have s': "s' = s\<lparr>queuedFrames := (queuedFrames s)(sf_Offset f \<mapsto> f)\<rparr>"
      and at_end: "lo f = length S"
      by (auto simp: Push_def frame_of_stream_def split: if_splits)
    have "frames_ok S (missing (gaps s)) ((queuedFrames s)(sf_Offset f \<mapsto> f))"
      using inv sl True at_end by (auto simp: sorter_inv_def frames_ok_def)
    moreover have "chained B (missing (gaps s)) ((queuedFrames s)(sf_Offset f \<mapsto> f))"
      if "chained B (missing (gaps s)) (queuedFrames s)" for B
      using that inv at_end by (fastforce simp: chained_def sorter_inv_def)
    ultimately show ?thesis using inv True by (auto simp: sorter_inv_def s')
  next
    case False
    then have nz: "DataLen f \<noteq> 0" using zero by simp
    show ?thesis
    proof (cases "queuedFrames s (sf_Offset f)")
      case None
      then have "push_data f s = Inr s'" using push nz by (simp add: Push_def)
      from push_data_inv [OF inv sl False no_gap_ends_at [OF inv sl False None] this] show ?thesis by simp
    next
      case (Some old)
      with push nz have longer: "\<not> DataLen f \<le> DataLen old"
        and p: "push_data (f\<lparr>sf_Data := drop (length (sf_Data old)) (sf_Data f),
                  sf_Offset := sf_Offset f + DataLen old\<rparr>) s = Inr s'"
        by (auto simp: Push_def split: if_splits)
      note r = rest_of_frame [OF inv sl Some longer]
      from push_data_inv [OF inv r(1,2,3) p] r(4) show ?thesis by simp
    qed
  qed
qed

lemma Push_error:
  assumes inv: "sorter_inv S s" and f: "frame_of_stream S f" and push: "Push f s = Inl err"
  shows "err = errDuplicateStreamData \<and> {lo f..<hi f} \<inter> missing (gaps s) = {}
         \<or> err = errTooManyGapsInReceivedStreamData"
proof -
  have i: "length S < 2 ^ 62 - 1" "wf_gaps (gaps s)" "length S \<in> missing (gaps s)"
    using inv by (simp_all add: sorter_inv_def)
  have sl: "slice S f" using f by (simp add: frame_of_stream_def)
  note zero = DataLen_zero [OF sl i(1)]
  have nz: "DataLen f \<noteq> 0" using push f zero by (auto simp: Push_def frame_of_stream_def split: if_splits)
  then have ne: "sf_Data f \<noteq> []" using zero by simp
  show ?thesis
  proof (cases "queuedFrames s (sf_Offset f)")
    case None
    then have "push_data f s = Inl err" using push nz by (simp add: Push_def)
    from push_data_error [OF i(2,3,1) sl ne this] show ?thesis .
  next
    case (Some old)
    note o = queued_frame [OF inv Some]
    show ?thesis
    proof (cases "DataLen f \<le> DataLen old")
      case True
      then have "err = errDuplicateStreamData" using push nz Some by (simp add: Push_def)
      moreover have "{lo f..<hi f} \<subseteq> {lo old..<hi old}"
        using True o(1,5) frame_end_nat(2) [OF sl i(1)] by (auto simp: word_le_nat_alt)
      ultimately show ?thesis using o(3) by blast
    next
      case False
      then have "push_data (f\<lparr>sf_Data := drop (length (sf_Data old)) (sf_Data f),
                  sf_Offset := sf_Offset f + DataLen old\<rparr>) s = Inl err"
        using push nz Some by (simp add: Push_def)
      from push_data_error [OF i(2,3,1) _ _ this] rest_of_frame [OF inv sl Some False] show ?thesis by auto
    qed
  qed
qed

lemma Pop_ok:
  assumes inv: "sorter_inv S s" and pop: "Pop s = (Some f, s')"
  shows "sorter_inv S s'" "gaps s' = gaps s" "sf_Offset f = readPosition s" "slice S f"
    "unat (readPosition s') = hi f"
proof -
  from pop have q: "queuedFrames s (readPosition s) = Some f"
    and s': "s' = s\<lparr>readPosition := readPosition s + DataLen f, queuedFrames := (queuedFrames s)(sf_Offset f := None)\<rparr>"
    by (auto simp: Pop_def Head_def split: option.splits)
  note o = queued_frame [OF inv q]
  from inv obtain B where small: "length S < 2 ^ 62 - 1" and wf: "wf_gaps (gaps s)"
    and fin: "length S \<in> missing (gaps s)" and fr: "frames_ok S (missing (gaps s)) (queuedFrames s)"
    and rp: "{0..<unat (readPosition s)} \<inter> missing (gaps s) = {}"
    and B: "unat (readPosition s) \<in> B" "\<forall>g \<in> set (gaps s). gE g \<le> length S \<longrightarrow> gE g \<in> B"
      "chained B (missing (gaps s)) (queuedFrames s)"
    by (auto simp: sorter_inv_def)
  have hiS: "hi f \<le> length S" using o(2) by (simp add: slice_def)
  show g: "gaps s' = gaps s" and off: "sf_Offset f = readPosition s" and "slice S f"
    using o by (simp_all add: s')
  have rp': "unat (readPosition s') = hi f"
    using frame_end_nat(1) [OF o(2) small] o(1) by (simp add: s')
  then show "unat (readPosition s') = hi f" .
  have arrived: "{0..<hi f} \<inter> missing (gaps s) = {}"
  proof -
    have "{0..<hi f} = {0..<unat (readPosition s)} \<union> {lo f..<hi f}" using off by auto
    then show ?thesis using rp o(3) by (simp only: Int_Un_distrib2) simp
  qed
  have "frames_ok S (missing (gaps s)) (queuedFrames s')"
    using fr by (auto simp: frames_ok_def s' split: if_splits)
  moreover have "\<exists>B'. hi f \<in> B' \<and> (\<forall>g \<in> set (gaps s). gE g \<le> length S \<longrightarrow> gE g \<in> B')
      \<and> chained B' (missing (gaps s)) (queuedFrames s')"
  proof (cases "sf_Data f = []")
    case True
    then have "lo f \<in> missing (gaps s)" using o(4) fin by simp
    then have "chained B (missing (gaps s)) (queuedFrames s')"
      using B(3) by (fastforce simp: chained_def s')
    with True B(1,2) off show ?thesis by (intro exI [of _ B]) simp
  next
    case False
    then have "lo f \<in> {lo f..<hi f}" by simp
    then have "lo f \<notin> missing (gaps s)" using o(3) by blast
    with B(1,3) q off have "hi f \<in> B" by (fastforce simp: chained_def)
    moreover have "\<forall>g \<in> set (gaps s). hi f < gE g"
    proof
      fix g assume gg: "g \<in> set (gaps s)"
      with wf have "gS g < gE g" by (simp add: wf_gaps_def)
      with gg have "gE g - 1 \<in> missing (gaps s)" unfolding missing_def by force
      then have "\<not> gE g - 1 < hi f" using arrived by auto
      then show "hi f < gE g" using \<open>gS g < gE g\<close> by linarith
    qed
    moreover have "chained (B \<inter> {hi f..}) (missing (gaps s)) (queuedFrames s')"
      unfolding chained_def
    proof (intro allI impI)
      fix k :: ByteCount assume k: "unat k \<in> B \<inter> {hi f..}" "unat k \<notin> missing (gaps s)"
      then have "k \<noteq> sf_Offset f" using False by auto
      with k B(3) show "\<exists>fa. queuedFrames s' k = Some fa \<and> sf_Data fa \<noteq> []
          \<and> unat k + length (sf_Data fa) \<in> B \<inter> {hi f..}"
        by (fastforce simp: chained_def s')
    qed
    ultimately show ?thesis using B(2) by (intro exI [of _ "B \<inter> {hi f..}"]) fastforce
  qed
  ultimately show "sorter_inv S s'"
    unfolding sorter_inv_def g rp' using small wf fin arrived hiS by blast
qed

text \<open>When no frame is at the read position, the byte there is missing, or the stream was read.\<close>

lemma Head_None:
  assumes "sorter_inv S s" "Head s = None"
  shows "unat (readPosition s) \<in> missing (gaps s)"
  using assms by (auto simp: sorter_inv_def chained_def Head_def)

subsection \<open>Runs of the sorter\<close>

text \<open>
  \<open>sorter_run S s A out\<close>: a run in which frames of the stream \<open>S\<close> were pushed, some of them refused as
  duplicates, and frames were popped, ended in \<open>s\<close>; the frames had the bytes \<open>A\<close> of the stream, and the
  popped frames together hold \<open>out\<close>.
\<close>

inductive sorter_run :: "byte list \<Rightarrow> streamFrameSorter \<Rightarrow> nat set \<Rightarrow> byte list \<Rightarrow> bool" for S where
  start: "length S < 2 ^ 62 - 1 \<Longrightarrow> sorter_run S newStreamFrameSorter {} []"
| push: "sorter_run S s A out \<Longrightarrow> frame_of_stream S f \<Longrightarrow> Push f s = Inr s'
    \<Longrightarrow> sorter_run S s' (A \<union> {lo f..<hi f}) out"
| duplicate: "sorter_run S s A out \<Longrightarrow> frame_of_stream S f \<Longrightarrow> Push f s = Inl errDuplicateStreamData
    \<Longrightarrow> sorter_run S s (A \<union> {lo f..<hi f}) out"
| pop: "sorter_run S s A out \<Longrightarrow> Pop s = (Some f, s') \<Longrightarrow> sorter_run S s' A (out @ sf_Data f)"

lemma error_neq: "errDuplicateStreamData \<noteq> errTooManyGapsInReceivedStreamData"
  by (simp add: errDuplicateStreamData_def errTooManyGapsInReceivedStreamData_def)

lemma sorter_run_inv:
  "sorter_run S s A out \<Longrightarrow> sorter_inv S s \<and> out = take (unat (readPosition s)) S
     \<and> missing (gaps s) = {0..<2 ^ 62 - 1} - A"
proof (induction rule: sorter_run.induct)
  case start
  have "unat MaxByteCount = 2 ^ 62 - 1" by (simp add: MaxByteCount_def push_bit_eq_mult)
  then show ?case using sorter_inv_start [OF start] by (simp add: newStreamFrameSorter_def)
next
  case (push s A out f s')
  then have "sorter_inv S s' \<and> missing (gaps s') = missing (gaps s) - {lo f..<hi f}
      \<and> readPosition s' = readPosition s" using Push_ok by blast
  with push.IH show ?case by (simp add: Diff_eq Int_assoc)
next
  case (duplicate s A out f)
  then have "{lo f..<hi f} \<inter> missing (gaps s) = {}" using Push_error error_neq by blast
  with duplicate.IH show ?case by blast
next
  case (pop s A out f s')
  note p = Pop_ok [OF _ pop.hyps(2), of S]
  have rp: "unat (readPosition s) \<le> length S" "sorter_inv S s" using pop.IH by (auto simp: sorter_inv_def)
  from p(4) [OF rp(2)] p(3) [OF rp(2)] have "sf_Data f = take (length (sf_Data f)) (drop (unat (readPosition s)) S)"
    by (auto simp: slice_def)
  then have "out @ sf_Data f = take (unat (readPosition s) + length (sf_Data f)) S"
    using pop.IH by (simp add: take_add)
  with p(1,2,3,5) [OF rp(2)] pop.IH show ?case by simp
qed

text \<open>C4: The gap list refines the set of bytes that have not arrived. \<open>Push\<close> of a frame takes
  exactly its bytes out of the set, however the frame overlaps gaps and frames that are queued; it is
  refused as a duplicate only if none of its bytes is missing, and the only other error is that there
  are too many gaps: the two errors that the code calls bugs do not occur.\<close>

theorem push_refines_missing:
  assumes "sorter_run S s A out" "frame_of_stream S f"
  shows "case Push f s of
           Inr s' \<Rightarrow> missing (gaps s') = missing (gaps s) - {lo f..<hi f}
         | Inl err \<Rightarrow> err = errDuplicateStreamData \<and> missing (gaps s) \<inter> {lo f..<hi f} = {}
                    \<or> err = errTooManyGapsInReceivedStreamData"
proof -
  have inv: "sorter_inv S s" using sorter_run_inv [OF assms(1)] by simp
  show ?thesis
  proof (cases "Push f s")
    case (Inl err)
    from Push_error [OF inv assms(2) Inl] Inl show ?thesis by (simp add: Int_commute)
  next
    case (Inr s')
    from Push_ok [OF inv assms(2) Inr] Inr show ?thesis by simp
  qed
qed

text \<open>A stream of three bytes whose last two come first.\<close>

definition example_frame :: "bool \<Rightarrow> ByteCount \<Rightarrow> byte list \<Rightarrow> StreamFrame" where
  "example_frame fin off d =
     \<lparr>sf_StreamID = 5, sf_FinBit = fin, sf_DataLenPresent = True, sf_Offset = off, sf_Data = d\<rparr>"

lemmas sorter_eval = Push_def push_data_eq Let_def DataLen_def example_frame_def newStreamFrameSorter_def
  MaxByteCount_def push_bit_eq_mult shrink_gaps_def MaxStreamFrameSorterGaps_def word_le_nat_alt word_less_nat_alt

lemma example_frames: "frame_of_stream [1, 2, 3] (example_frame True 1 [2, 3])"
  "frame_of_stream [1, 2, 3] (example_frame True 0 [1, 2, 3])"
  by (simp_all add: frame_of_stream_def slice_def example_frame_def)

definition example_sorter :: streamFrameSorter where
  "example_sorter =
     \<lparr>queuedFrames = [1 \<mapsto> example_frame True 1 [2, 3]], readPosition = 0,
      gaps = [\<lparr>bi_Start = 0, bi_End = 1\<rparr>, \<lparr>bi_Start = 3, bi_End = MaxByteCount\<rparr>]\<rparr>"

lemma example_push: "Push (example_frame True 1 [2, 3]) newStreamFrameSorter = Inr example_sorter"
  by (simp add: sorter_eval example_sorter_def)

lemma example_bytes: "{} \<union> {lo (example_frame True 1 [2, 3])..<hi (example_frame True 1 [2, 3])} = {1..<3}"
  "{1..<3} \<union> {lo (example_frame True 0 [1, 2, 3])..<hi (example_frame True 0 [1, 2, 3])} = {0..<3}"
  by (auto simp: example_frame_def)

lemma example_sorter_reached: "sorter_run [1, 2, 3] example_sorter {1..<3} []"
proof -
  have "sorter_run [1, 2, 3] newStreamFrameSorter {} []" by (rule sorter_run.start) simp
  from sorter_run.push [OF this example_frames(1) example_push] show ?thesis
    by (simp only: example_bytes)
qed

theorem push_refines_missing_witness:
  "\<exists>s'. Push (example_frame True 0 [1, 2, 3]) example_sorter = Inr s'
     \<and> missing (gaps s') = missing (gaps example_sorter) - {0..<3}"
proof -
  obtain s' where s': "Push (example_frame True 0 [1, 2, 3]) example_sorter = Inr s'"
    by (simp add: sorter_eval example_sorter_def)
  from push_refines_missing [OF example_sorter_reached example_frames(2)]
  have "missing (gaps s') = missing (gaps example_sorter)
      - {lo (example_frame True 0 [1, 2, 3])..<hi (example_frame True 0 [1, 2, 3])}"
    unfolding s' sum.case .
  moreover have "{lo (example_frame True 0 [1, 2, 3])..<hi (example_frame True 0 [1, 2, 3])} = {0..<3}"
    by (auto simp: example_frame_def)
  ultimately show ?thesis using s' by metis
qed

text \<open>The frames that are popped hold the stream in order: whatever frames of the stream were
  pushed, in whatever order and however they overlap, the bytes delivered are a prefix of the stream, and
  when no frame can be popped the next byte of the stream has not arrived.\<close>

theorem sorter_delivers_in_order:
  assumes "sorter_run S s A out"
  shows "out = take (length out) S \<and> (Head s = None \<longrightarrow> length out \<notin> A)"
proof -
  from sorter_run_inv [OF assms] have i: "sorter_inv S s" "out = take (unat (readPosition s)) S"
    "missing (gaps s) = {0..<2 ^ 62 - 1} - A" by simp_all
  then have "length out = unat (readPosition s)" by (simp add: sorter_inv_def)
  with i Head_None [OF i(1)] show ?thesis by (metis DiffD2)
qed

theorem sorter_delivers_in_order_witness:
  "\<exists>s out. sorter_run [1, 2, 3] s {0..<3} out \<and> Head s = None \<and> 0 < length out
     \<and> out = take (length out) [1, 2, 3]"
proof -
  obtain s' where s': "Push (example_frame True 0 [1, 2, 3]) example_sorter = Inr s'"
    "s' = example_sorter\<lparr>queuedFrames := (queuedFrames example_sorter)(0 \<mapsto> example_frame True 0 [1]),
                         gaps := [\<lparr>bi_Start = 3, bi_End = MaxByteCount\<rparr>]\<rparr>"
    by (simp add: sorter_eval example_sorter_def)
  have r1: "sorter_run [1, 2, 3] s' {0..<3} []"
    using sorter_run.push [OF example_sorter_reached example_frames(2) s'(1)]
    by (simp only: example_bytes)
  obtain s1 where s1: "Pop s' = (Some (example_frame True 0 [1]), s1)" "readPosition s1 = 1"
    "queuedFrames s1 = [1 \<mapsto> example_frame True 1 [2, 3]]"
    by (simp add: Pop_def Head_def s'(2) example_sorter_def DataLen_def example_frame_def fun_upd_twist)
  obtain s2 where s2: "Pop s1 = (Some (example_frame True 1 [2, 3]), s2)" "Head s2 = None"
    by (simp add: Pop_def Head_def s1 DataLen_def example_frame_def)
  have "sorter_run [1, 2, 3] s2 {0..<3} [1, 2, 3]"
    using sorter_run.pop [OF sorter_run.pop [OF r1 s1(1)] s2(1)] by (simp add: example_frame_def)
  with sorter_delivers_in_order [OF this] s2(2) show ?thesis by (intro exI conjI) (auto)
qed

end
