(* ===== verification/Send_Stream.thy ===== *)
theory Send_Stream
  imports Wire_Stream Flow_Control Sorter_Delivery
begin

section \<open>The sending half of a stream\<close>

text \<open>
  \<^verbatim>\<open>send_stream.go\<close>. The methods run under the mutex of the stream, so each is one step; \<open>Write\<close>, which
  waits for the channel \<open>writeChan\<close> with the mutex unlocked, is the step up to its first wait and one
  step for every time it wakes up. The channel of capacity one is a flag. What a method tells the
  session (the \<open>streamSender\<close>) is the list of its calls; the stream's context, which is only told that
  the stream ended, is left out. The zero deadline is \<open>None\<close>.
\<close>

datatype sender_call =
    queueControlFrame Frame
  | onHasWindowUpdate StreamID
  | onHasStreamData StreamID
  | onStreamCompleted StreamID

record sendStream =
  ss_streamID :: StreamID
  writeOffset :: ByteCount
  cancelWriteErr :: "goerr option"
  ss_closeForShutdownErr :: "goerr option"
  ss_closedForShutdown :: bool
  finishedWriting :: bool
  canceledWrite :: bool
  finSent :: bool
  dataForWriting :: "byte list option"
  writeChan :: bool
  writeDeadline :: "int option"
  ss_version :: VersionNumber

definition newSendStream :: "StreamID \<Rightarrow> VersionNumber \<Rightarrow> sendStream" where
  "newSendStream sid v =
     \<lparr>ss_streamID = sid, writeOffset = 0, cancelWriteErr = None, ss_closeForShutdownErr = None,
      ss_closedForShutdown = False, finishedWriting = False, canceledWrite = False, finSent = False,
      dataForWriting = None, writeChan = False, writeDeadline = None, ss_version = v\<rparr>"

definition errDeadline :: goerr where "errDeadline = GoErr ''deadline exceeded''"

definition deadline_passed :: "int \<Rightarrow> int option \<Rightarrow> bool" where
  "deadline_passed now d = (case d of None \<Rightarrow> False | Some t \<Rightarrow> \<not> now < t)"

definition signalWrite :: "sendStream \<Rightarrow> sendStream" where
  "signalWrite s = s\<lparr>writeChan := True\<rparr>"

text \<open>A \<open>Write\<close> returns a number of bytes and an error, or it waits.\<close>

datatype write_result = Returns nat "goerr option" | Waits

definition pending_len :: "sendStream \<Rightarrow> nat" where
  "pending_len s = (case dataForWriting s of None \<Rightarrow> 0 | Some d \<Rightarrow> length d)"

text \<open>The loop of \<open>Write\<close> for \<open>n\<close> bytes, up to its end or the next wait.\<close>

definition Write_loop :: "int \<Rightarrow> nat \<Rightarrow> sendStream \<Rightarrow> write_result \<times> sendStream" where
  "Write_loop now n s =
     (let bytesWritten = n - pending_len s;
          finish = (\<lambda>err s. (Returns bytesWritten
                       (if ss_closeForShutdownErr s \<noteq> None then ss_closeForShutdownErr s
                        else if cancelWriteErr s \<noteq> None then cancelWriteErr s else err), s))
      in if deadline_passed now (writeDeadline s) then finish (Some errDeadline) (s\<lparr>dataForWriting := None\<rparr>)
         else if dataForWriting s = None \<or> canceledWrite s \<or> ss_closedForShutdown s then finish None s
         else (Waits, s))"

definition Write_begin :: "int \<Rightarrow> byte list \<Rightarrow> sendStream \<Rightarrow> write_result \<times> sendStream \<times> sender_call list" where
  "Write_begin now p s =
     (if finishedWriting s then (Returns 0 (Some (GoErr ''write on closed stream'')), s, [])
      else if canceledWrite s then (Returns 0 (cancelWriteErr s), s, [])
      else if ss_closeForShutdownErr s \<noteq> None then (Returns 0 (ss_closeForShutdownErr s), s, [])
      else if deadline_passed now (writeDeadline s) then (Returns 0 (Some errDeadline), s, [])
      else if length p = 0 then (Returns 0 None, s, [])
      else (let (r, s') = Write_loop now (length p) (s\<lparr>dataForWriting := Some p\<rparr>)
            in (r, s', [onHasStreamData (ss_streamID s)])))"

text \<open>Waking up on the channel, which takes the signal out of it, or when the deadline has passed.\<close>

definition Write_wake :: "int \<Rightarrow> nat \<Rightarrow> sendStream \<Rightarrow> (write_result \<times> sendStream) option" where
  "Write_wake now n s =
     (if writeChan s then Some (Write_loop now n (s\<lparr>writeChan := False\<rparr>))
      else if deadline_passed now (writeDeadline s) then Some (Write_loop now n s)
      else None)"

definition getDataForWriting ::
  "ByteCount \<Rightarrow> sendStream \<Rightarrow> streamFlowController \<Rightarrow> connectionFlowController
   \<Rightarrow> (byte list \<times> bool) \<times> sendStream \<times> streamFlowController \<times> connectionFlowController" where
  "getDataForWriting maxBytes s fc conn =
     (case dataForWriting s of
        None \<Rightarrow> (([], finishedWriting s \<and> \<not> finSent s), s, fc, conn)
      | Some d \<Rightarrow>
          let maxBytes = (if ss_streamID s \<noteq> CryptoStreamID (ss_version s)
                          then MinByteCount maxBytes (SendWindowSize fc conn) else maxBytes) in
          if maxBytes = 0 then (([], False), s, fc, conn)
          else
            let (ret, s) = (if of_nat (length d) > maxBytes
                            then (take (unat maxBytes) d, s\<lparr>dataForWriting := Some (drop (unat maxBytes) d)\<rparr>)
                            else (d, signalWrite (s\<lparr>dataForWriting := None\<rparr>)));
                s = s\<lparr>writeOffset := writeOffset s + of_nat (length ret)\<rparr>;
                (fc, conn) = stream_AddBytesSent (of_nat (length ret)) fc conn
            in ((ret, finishedWriting s \<and> dataForWriting s = None \<and> \<not> finSent s), s, fc, conn))"

definition popStreamFrame ::
  "ByteCount \<Rightarrow> sendStream \<Rightarrow> streamFlowController \<Rightarrow> connectionFlowController
   \<Rightarrow> goerr + (StreamFrame option \<times> bool) \<times> sendStream \<times> streamFlowController \<times> connectionFlowController
             \<times> sender_call list" where
  "popStreamFrame maxBytes s fc conn =
     (if ss_closeForShutdownErr s \<noteq> None then Inr ((None, False), s, fc, conn, [])
      else
        let frame = \<lparr>sf_StreamID = ss_streamID s, sf_FinBit = False, sf_DataLenPresent = True,
                     sf_Offset = writeOffset s, sf_Data = []\<rparr> in
        ebind (MaxDataLen frame maxBytes (ss_version s)) (\<lambda>maxDataLen.
        if maxDataLen = 0 then Inr ((None, dataForWriting s \<noteq> None), s, fc, conn, [])
        else
          let ((dat, fin), s, fc, conn) = getDataForWriting maxDataLen s fc conn;
              frame = frame\<lparr>sf_Data := dat, sf_FinBit := fin\<rparr> in
          if length dat = 0 \<and> \<not> fin then
            (if dataForWriting s = None then Inr ((None, False), s, fc, conn, [])
             else Inr ((None, \<not> fst (IsBlocked fc)), s, fc, conn, []))
          else if fin then
            Inr ((Some frame, dataForWriting s \<noteq> None), s\<lparr>finSent := True\<rparr>, fc, conn,
                 [onStreamCompleted (ss_streamID s)])
          else if ss_streamID s \<noteq> CryptoStreamID (ss_version s) \<and> fst (IsBlocked fc) then
            Inr ((Some frame, False), s, fc, conn,
                 [queueControlFrame (Frame_StreamBlocked \<lparr>sb_StreamID = ss_streamID s,
                    sb_Offset = snd (IsBlocked fc)\<rparr>)])
          else Inr ((Some frame, dataForWriting s \<noteq> None), s, fc, conn, [])))"

definition send_Close :: "sendStream \<Rightarrow> goerr option \<times> sendStream \<times> sender_call list" where
  "send_Close s =
     (if canceledWrite s then (Some (GoErr ''Close called for canceled stream''), s, [])
      else (None, s\<lparr>finishedWriting := True\<rparr>, [onHasStreamData (ss_streamID s)]))"

definition cancelWriteImpl ::
  "ApplicationErrorCode \<Rightarrow> goerr \<Rightarrow> sendStream \<Rightarrow> goerr option \<times> sendStream \<times> sender_call list" where
  "cancelWriteImpl errorCode writeErr s =
     (if canceledWrite s then (None, s, [])
      else if finishedWriting s then (Some (GoErr ''CancelWrite for closed stream''), s, [])
      else (None, signalWrite (s\<lparr>canceledWrite := True, cancelWriteErr := Some writeErr\<rparr>),
            [queueControlFrame (Frame_RstStream \<lparr>rst_StreamID = ss_streamID s, rst_ErrorCode = errorCode,
               rst_ByteOffset = writeOffset s\<rparr>),
             onStreamCompleted (ss_streamID s)]))"

definition CancelWrite ::
  "ApplicationErrorCode \<Rightarrow> sendStream \<Rightarrow> goerr option \<times> sendStream \<times> sender_call list" where
  "CancelWrite errorCode s = cancelWriteImpl errorCode (GoErr ''Write on stream canceled with error code'') s"

definition errorCodeStopping :: ApplicationErrorCode where "errorCodeStopping = 0"
definition errorCodeStoppingGQUIC :: ApplicationErrorCode where "errorCodeStoppingGQUIC = 7"

definition handleStopSendingFrame :: "StopSendingFrame \<Rightarrow> sendStream \<Rightarrow> sendStream \<times> sender_call list" where
  "handleStopSendingFrame frame s =
     (let errorCode = (if \<not> UsesIETFFrameFormat (ss_version s) then errorCodeStoppingGQUIC
                       else errorCodeStopping)
      in snd (cancelWriteImpl errorCode (GoErr ''Stream was reset with error code'') s))"

definition handleMaxStreamDataFrame ::
  "MaxStreamDataFrame \<Rightarrow> sendStream \<Rightarrow> streamFlowController \<Rightarrow> streamFlowController \<times> sender_call list" where
  "handleMaxStreamDataFrame frame s fc =
     (UpdateSendWindow (msd_ByteOffset frame) fc,
      if dataForWriting s \<noteq> None then [onHasStreamData (ss_streamID s)] else [])"

text \<open>Setting a deadline wakes a \<open>Write\<close> when it is before the old one (the zero time is before all).\<close>

definition SetWriteDeadline :: "int option \<Rightarrow> sendStream \<Rightarrow> sendStream" where
  "SetWriteDeadline t s =
     (let s' = s\<lparr>writeDeadline := t\<rparr>
      in if (case (t, writeDeadline s) of
               (None, Some _) \<Rightarrow> True | (Some t, Some old) \<Rightarrow> t < old | _ \<Rightarrow> False)
         then signalWrite s' else s')"

definition send_closeForShutdown :: "goerr option \<Rightarrow> sendStream \<Rightarrow> sendStream" where
  "send_closeForShutdown err s = signalWrite (s\<lparr>ss_closedForShutdown := True, ss_closeForShutdownErr := err\<rparr>)"

definition getWriteOffset :: "sendStream \<Rightarrow> ByteCount" where
  "getWriteOffset s = writeOffset s"

end
