(* ===== verification/Receive_Stream.thy ===== *)
theory Receive_Stream
  imports Send_Stream
begin

section \<open>The receiving half of a stream\<close>

text \<open>
  \<^verbatim>\<open>receive_stream.go\<close>. \<open>Read\<close> holds the mutex of the stream but while it waits for \<open>readChan\<close> and while
  it copies bytes out of a frame, so it is cut into steps there, between which the other methods run:
  \<open>Read_begin\<close> up to the first wait or copy, \<open>Read_wake\<close> from a wait and \<open>Read_finish\<close> from a copy to
  the next. \<open>k\<close> is the number of bytes this call has copied, \<open>n\<close> the length of its buffer.
\<close>

record receiveStream =
  rs_streamID :: StreamID
  frameQueue :: streamFrameSorter
  readPosInFrame :: int
  readOffset :: ByteCount
  rs_closeForShutdownErr :: "goerr option"
  cancelReadErr :: "goerr option"
  resetRemotelyErr :: "goerr option"
  rs_closedForShutdown :: bool
  finRead :: bool
  canceledRead :: bool
  resetRemotely :: bool
  readChan :: bool
  readDeadline :: "int option"
  rs_version :: VersionNumber

definition newReceiveStream :: "StreamID \<Rightarrow> VersionNumber \<Rightarrow> receiveStream" where
  "newReceiveStream sid v =
     \<lparr>rs_streamID = sid, frameQueue = newStreamFrameSorter, readPosInFrame = 0, readOffset = 0,
      rs_closeForShutdownErr = None, cancelReadErr = None, resetRemotelyErr = None,
      rs_closedForShutdown = False, finRead = False, canceledRead = False, resetRemotely = False,
      readChan = False, readDeadline = None, rs_version = v\<rparr>"

definition signalRead :: "receiveStream \<Rightarrow> receiveStream" where
  "signalRead s = s\<lparr>readChan := True\<rparr>"

text \<open>\<open>Read\<close> returns with an error or \<open>nil\<close>, waits, or copies out of a frame.\<close>

datatype read_result = ReadReturns "goerr option" | ReadWaits | ReadCopies StreamFrame

text \<open>The inner loop, from its head to its end or its wait.\<close>

definition Read_inner :: "int \<Rightarrow> StreamFrame option \<Rightarrow> receiveStream \<Rightarrow> read_result \<times> receiveStream" where
  "Read_inner now frame s =
     (if rs_closedForShutdown s then (ReadReturns (rs_closeForShutdownErr s), s)
      else if canceledRead s then (ReadReturns (cancelReadErr s), s)
      else if resetRemotely s then (ReadReturns (resetRemotelyErr s), s)
      else if deadline_passed now (readDeadline s) then (ReadReturns (Some errDeadline), s)
      else case frame of
             Some f \<Rightarrow> (ReadCopies f, s\<lparr>readPosInFrame := sint (readOffset s - sf_Offset f)\<rparr>)
           | None \<Rightarrow> (ReadWaits, s))"

text \<open>The head of the outer loop.\<close>

definition Read_outer :: "int \<Rightarrow> nat \<Rightarrow> nat \<Rightarrow> receiveStream \<Rightarrow> read_result \<times> receiveStream" where
  "Read_outer now n k s =
     (if k < n then
        (let frame = Head (frameQueue s)
         in if frame = None \<and> k > 0 then (ReadReturns (rs_closeForShutdownErr s), s)
            else Read_inner now frame s)
      else (ReadReturns None, s))"

definition Read_begin :: "int \<Rightarrow> nat \<Rightarrow> receiveStream \<Rightarrow> read_result \<times> receiveStream" where
  "Read_begin now n s =
     (if finRead s then (ReadReturns (Some EOF), s)
      else if canceledRead s then (ReadReturns (cancelReadErr s), s)
      else if resetRemotely s then (ReadReturns (resetRemotelyErr s), s)
      else if rs_closedForShutdown s then (ReadReturns (rs_closeForShutdownErr s), s)
      else Read_outer now n 0 s)"

definition Read_wake :: "int \<Rightarrow> receiveStream \<Rightarrow> (read_result \<times> receiveStream) option" where
  "Read_wake now s =
     (if readChan s then (let s = s\<lparr>readChan := False\<rparr> in Some (Read_inner now (Head (frameQueue s)) s))
      else if deadline_passed now (readDeadline s) then Some (Read_inner now (Head (frameQueue s)) s)
      else None)"

text \<open>The bytes that are copied out of the frame.\<close>

definition Read_copied :: "nat \<Rightarrow> nat \<Rightarrow> StreamFrame \<Rightarrow> receiveStream \<Rightarrow> byte list" where
  "Read_copied n k frame s = take (n - k) (drop (nat (readPosInFrame s)) (sf_Data frame))"

text \<open>After the copy: the accounting, the end of the frame, and on to the outer loop. A position outside
  the frame is an error, or panics when it is negative.\<close>

definition Read_finish ::
  "int \<Rightarrow> nat \<Rightarrow> nat \<Rightarrow> StreamFrame \<Rightarrow> receiveStream \<Rightarrow> streamFlowController \<Rightarrow> connectionFlowController
   \<Rightarrow> read_result \<times> receiveStream \<times> streamFlowController \<times> connectionFlowController \<times> sender_call list" where
  "Read_finish now n k frame s fc conn =
     (if k > n then (ReadReturns (Some (GoErr ''BUG: bytesRead > len(p) in stream.Read'')), s, fc, conn, [])
      else if readPosInFrame s > int (length (sf_Data frame))
      then (ReadReturns (Some (GoErr ''BUG: readPosInFrame > frame.DataLen in stream.Read'')), s, fc, conn, [])
      else if readPosInFrame s < 0
      then (ReadReturns (Some (Panic ''slice bounds out of range'')), s, fc, conn, [])
      else
        let m = min (int n - int k) (int (length (sf_Data frame)) - readPosInFrame s);
            s = s\<lparr>readPosInFrame := readPosInFrame s + m, readOffset := readOffset s + of_int m\<rparr>;
            (fc, conn) = (if \<not> resetRemotely s then stream_AddBytesRead now (of_int m) fc conn else (fc, conn));
            calls = (if HasWindowUpdate fc then [onHasWindowUpdate (rs_streamID s)] else [])
        in if readPosInFrame s \<ge> int (length (sf_Data frame)) then
             (let s = s\<lparr>frameQueue := snd (Pop (frameQueue s)), finRead := sf_FinBit frame\<rparr>
              in if sf_FinBit frame
                 then (ReadReturns (Some EOF), s, fc, conn, calls @ [onStreamCompleted (rs_streamID s)])
                 else (let (r, s) = Read_outer now n (k + nat m) s in (r, s, fc, conn, calls)))
           else (let (r, s) = Read_outer now n (k + nat m) s in (r, s, fc, conn, calls)))"

definition CancelRead :: "ApplicationErrorCode \<Rightarrow> receiveStream \<Rightarrow> receiveStream \<times> sender_call list" where
  "CancelRead errorCode s =
     (if finRead s then (s, [])
      else if canceledRead s then (s, [])
      else (signalRead (s\<lparr>canceledRead := True,
                          cancelReadErr := Some (GoErr ''Read on stream canceled with error code'')\<rparr>),
            if UsesIETFFrameFormat (rs_version s)
            then [queueControlFrame (Frame_StopSending \<lparr>ss_StreamID = rs_streamID s, ss_ErrorCode = errorCode\<rparr>)]
            else []))"

definition handleStreamFrame ::
  "StreamFrame \<Rightarrow> receiveStream \<Rightarrow> streamFlowController \<Rightarrow> connectionFlowController
   \<Rightarrow> goerr option \<times> receiveStream \<times> streamFlowController \<times> connectionFlowController" where
  "handleStreamFrame frame s fc conn =
     (let maxOffset = sf_Offset frame + DataLen frame;
          (err, fc, conn) = UpdateHighestReceived maxOffset (sf_FinBit frame) fc conn
      in if err \<noteq> None then (err, s, fc, conn)
         else case Push frame (frameQueue s) of
                Inl e \<Rightarrow> if e \<noteq> errDuplicateStreamData then (Some e, s\<lparr>frameQueue := Push_left frame (frameQueue s)\<rparr>, fc, conn)
                         else (None, signalRead s, fc, conn)
              | Inr q \<Rightarrow> (None, signalRead (s\<lparr>frameQueue := q\<rparr>), fc, conn))"

definition recv_handleRstStreamFrame ::
  "RstStreamFrame \<Rightarrow> receiveStream \<Rightarrow> streamFlowController \<Rightarrow> connectionFlowController
   \<Rightarrow> goerr option \<times> receiveStream \<times> streamFlowController \<times> connectionFlowController \<times> sender_call list" where
  "recv_handleRstStreamFrame frame s fc conn =
     (if rs_closedForShutdown s then (None, s, fc, conn, [])
      else
        let (err, fc, conn) = UpdateHighestReceived (rst_ByteOffset frame) True fc conn
        in if err \<noteq> None then (err, s, fc, conn, [])
           else if \<not> UsesIETFFrameFormat (rs_version s) \<and> rst_ErrorCode frame = 0 then (None, s, fc, conn, [])
           else if resetRemotely s then (None, s, fc, conn, [])
           else (None, signalRead (s\<lparr>resetRemotely := True,
                         resetRemotelyErr := Some (GoErr ''Stream was reset with error code'')\<rparr>),
                 fc, conn, [onStreamCompleted (rs_streamID s)]))"

definition CloseRemote ::
  "ByteCount \<Rightarrow> receiveStream \<Rightarrow> streamFlowController \<Rightarrow> connectionFlowController
   \<Rightarrow> receiveStream \<times> streamFlowController \<times> connectionFlowController" where
  "CloseRemote offset s fc conn =
     snd (handleStreamFrame \<lparr>sf_StreamID = 0, sf_FinBit = True, sf_DataLenPresent = False, sf_Offset = offset,
                             sf_Data = []\<rparr> s fc conn)"

definition onClose :: "ByteCount \<Rightarrow> receiveStream \<Rightarrow> sender_call list" where
  "onClose offset s =
     (if canceledRead s \<and> \<not> UsesIETFFrameFormat (rs_version s)
      then [queueControlFrame (Frame_RstStream \<lparr>rst_StreamID = rs_streamID s, rst_ErrorCode = 0,
              rst_ByteOffset = offset\<rparr>)]
      else [])"

definition SetReadDeadline :: "int option \<Rightarrow> receiveStream \<Rightarrow> receiveStream" where
  "SetReadDeadline t s =
     (let s' = s\<lparr>readDeadline := t\<rparr>
      in if (case (t, readDeadline s) of
               (None, Some _) \<Rightarrow> True | (Some t, Some old) \<Rightarrow> t < old | _ \<Rightarrow> False)
         then signalRead s' else s')"

definition recv_closeForShutdown :: "goerr option \<Rightarrow> receiveStream \<Rightarrow> receiveStream" where
  "recv_closeForShutdown err s = signalRead (s\<lparr>rs_closedForShutdown := True, rs_closeForShutdownErr := err\<rparr>)"

text \<open>\<open>setReadOffset\<close> of the crypto stream (\<^verbatim>\<open>crypto_stream.go\<close>).\<close>

definition setReadOffset :: "ByteCount \<Rightarrow> receiveStream \<Rightarrow> receiveStream" where
  "setReadOffset offset s = s\<lparr>readOffset := offset, frameQueue := (frameQueue s)\<lparr>readPosition := offset\<rparr>\<rparr>"

end
