(* ===== verification/Send_Runs.thy ===== *)
theory Send_Runs
  imports Send_Stream
begin

section \<open>What a stream sends\<close>

text \<open>
  Runs of the sending half: an application that writes, closes and cancels, and a session that pops
  frames. \<open>popped\<close> are the frames the session got, \<open>accepted\<close> the bytes that finished calls of \<open>Write\<close>
  reported as written, and \<open>writing\<close> what the call of \<open>Write\<close> that waits was given.
\<close>

record send_net =
  str :: sendStream
  sfc :: streamFlowController
  sconn :: connectionFlowController
  popped :: "StreamFrame list"
  accepted :: "byte list"
  writing :: "byte list option"

definition pending :: "sendStream \<Rightarrow> byte list" where
  "pending s = (case dataForWriting s of None \<Rightarrow> [] | Some d \<Rightarrow> d)"

definition sent :: "send_net \<Rightarrow> byte list" where
  "sent st = concat (map sf_Data (popped st))"

text \<open>How a call of \<open>Write\<close> with the data \<open>p\<close> that returns or waits changes the record of the run.\<close>

definition after_write :: "byte list \<Rightarrow> write_result \<Rightarrow> send_net \<Rightarrow> send_net" where
  "after_write p r st =
     (case r of
        Returns n err \<Rightarrow> st\<lparr>accepted := accepted st @ take n p, writing := None\<rparr>
      | Waits \<Rightarrow> st\<lparr>writing := Some p\<rparr>)"

text \<open>The application writes fewer than \<open>2 ^ 62 - 1\<close> bytes, the largest offset. Other streams change the
  window of the connection, and the receiving half changes its part of the stream's controller.\<close>

inductive send_run :: "StreamID \<Rightarrow> VersionNumber \<Rightarrow> send_net \<Rightarrow> bool" for sid v where
  start: "bytesSent fc = 0 \<Longrightarrow> send_run sid v
     \<lparr>str = newSendStream sid v, sfc = fc, sconn = c, popped = [], accepted = [], writing = None\<rparr>"
| begin_write: "send_run sid v st \<Longrightarrow> writing st = None \<Longrightarrow> length (sent st) + length p < 2 ^ 62 - 1
    \<Longrightarrow> Write_begin now p (str st) = (r, s', calls) \<Longrightarrow> send_run sid v (after_write p r (st\<lparr>str := s'\<rparr>))"
| wake: "send_run sid v st \<Longrightarrow> writing st = Some p \<Longrightarrow> Write_wake now (length p) (str st) = Some (r, s')
    \<Longrightarrow> send_run sid v (after_write p r (st\<lparr>str := s'\<rparr>))"
| pop: "send_run sid v st
    \<Longrightarrow> popStreamFrame m (str st) (sfc st) (sconn st) = Inr ((fo, hasMore), s', fc', c', calls)
    \<Longrightarrow> send_run sid v (st\<lparr>str := s', sfc := fc', sconn := c',
          popped := popped st @ (case fo of None \<Rightarrow> [] | Some f \<Rightarrow> [f])\<rparr>)"
| close: "send_run sid v st \<Longrightarrow> send_Close (str st) = (err, s', calls) \<Longrightarrow> send_run sid v (st\<lparr>str := s'\<rparr>)"
| cancel: "send_run sid v st \<Longrightarrow> CancelWrite code (str st) = (err, s', calls)
    \<Longrightarrow> send_run sid v (st\<lparr>str := s'\<rparr>)"
| stop: "send_run sid v st \<Longrightarrow> handleStopSendingFrame f (str st) = (s', calls) \<Longrightarrow> send_run sid v (st\<lparr>str := s'\<rparr>)"
| max_data: "send_run sid v st \<Longrightarrow> handleMaxStreamDataFrame f (str st) (sfc st) = (fc', calls)
    \<Longrightarrow> send_run sid v (st\<lparr>sfc := fc'\<rparr>)"
| deadline: "send_run sid v st \<Longrightarrow> send_run sid v (st\<lparr>str := SetWriteDeadline t (str st)\<rparr>)"
| shutdown: "send_run sid v st \<Longrightarrow> send_run sid v (st\<lparr>str := send_closeForShutdown err (str st)\<rparr>)"
| environment: "send_run sid v st \<Longrightarrow> bytesSent fc' = bytesSent (sfc st) \<Longrightarrow> sendWindow fc' = sendWindow (sfc st)
    \<Longrightarrow> contributesToConnection fc' = contributesToConnection (sfc st)
    \<Longrightarrow> send_run sid v (st\<lparr>sfc := fc', sconn := c'\<rparr>)"

subsection \<open>One frame\<close>

lemma getDataForWriting_cases:
  assumes "getDataForWriting m s fc c = ((d, fin), s', fc', c')"
    and "dataForWriting s \<noteq> Some []" "length (pending s) < 2 ^ 62"
  shows "d @ pending s' = pending s" and "d = [] \<Longrightarrow> s' = s \<and> fc' = fc"
    and "dataForWriting s' \<noteq> Some []" and "fin \<Longrightarrow> finishedWriting s \<and> dataForWriting s' = None \<and> \<not> finSent s"
    and "\<exists>w. s' = s\<lparr>dataForWriting := dataForWriting s', writeOffset := writeOffset s + of_nat (length d), writeChan := w\<rparr>"
    and "d \<noteq> [] \<Longrightarrow> bytesSent fc' = bytesSent fc + of_nat (length d) \<and> sendWindow fc' = sendWindow fc
           \<and> (ss_streamID s \<noteq> CryptoStreamID (ss_version s) \<longrightarrow> of_nat (length d) \<le> sendWindowSize fc)"
proof -
  have all: "d @ pending s' = pending s \<and> (d = [] \<longrightarrow> s' = s \<and> fc' = fc) \<and> dataForWriting s' \<noteq> Some []
    \<and> (fin \<longrightarrow> finishedWriting s \<and> dataForWriting s' = None \<and> \<not> finSent s)
    \<and> (\<exists>w. s' = s\<lparr>dataForWriting := dataForWriting s', writeOffset := writeOffset s + of_nat (length d), writeChan := w\<rparr>)
    \<and> (d \<noteq> [] \<longrightarrow> bytesSent fc' = bytesSent fc + of_nat (length d) \<and> sendWindow fc' = sendWindow fc
           \<and> (ss_streamID s \<noteq> CryptoStreamID (ss_version s) \<longrightarrow> of_nat (length d) \<le> sendWindowSize fc))"
  proof (cases "dataForWriting s")
    case None
    with assms(1) have "d = []" "s' = s" "fc' = fc" "fin = (finishedWriting s \<and> \<not> finSent s)"
      by (auto simp: getDataForWriting_def)
    moreover have "s = s\<lparr>dataForWriting := dataForWriting s, writeOffset := writeOffset s + of_nat 0, writeChan := writeChan s\<rparr>"
      by simp
    ultimately show ?thesis using None by (metis append_Nil list.size(3) not_None_eq)
  next
    case (Some dat)
    define mb where "mb = (if ss_streamID s \<noteq> CryptoStreamID (ss_version s)
                          then MinByteCount m (SendWindowSize fc c) else m)"
    have g: "getDataForWriting m s fc c =
       (if mb = 0 then (([], False), s, fc, c)
        else if of_nat (length dat) > mb
        then ((take (unat mb) dat, False),
              s\<lparr>dataForWriting := Some (drop (unat mb) dat), writeOffset := writeOffset s + of_nat (length (take (unat mb) dat))\<rparr>,
              stream_AddBytesSent (of_nat (length (take (unat mb) dat))) fc c)
        else ((dat, finishedWriting s \<and> \<not> finSent s),
              s\<lparr>dataForWriting := None, writeOffset := writeOffset s + of_nat (length dat), writeChan := True\<rparr>,
              stream_AddBytesSent (of_nat (length dat)) fc c))"
      unfolding getDataForWriting_def Some option.case mb_def [symmetric] Let_def
      by (simp add: signalWrite_def split: prod.split)
    have len: "unat (of_nat (length dat) :: uint64) = length dat" "length dat < 2 ^ 62"
      using assms(3) Some by (simp_all add: pending_def unat_of_nat64)
    have win: "ss_streamID s \<noteq> CryptoStreamID (ss_version s) \<Longrightarrow> mb \<le> sendWindowSize fc"
      by (auto simp: mb_def MinByteCount_def SendWindowSize_def Let_def)
    consider (zero) "mb = 0" | (part) "mb \<noteq> 0" "of_nat (length dat) > mb" | (all) "mb \<noteq> 0" "\<not> of_nat (length dat) > mb"
      by blast
    then show ?thesis
    proof cases
      case zero
      then have "d = []" "s' = s" "fc' = fc" "\<not> fin" using assms(1) g by simp_all
      moreover have "s = s\<lparr>dataForWriting := dataForWriting s, writeOffset := writeOffset s + of_nat 0, writeChan := writeChan s\<rparr>"
        by simp
      ultimately show ?thesis using assms(2) by (metis append_Nil list.size(3))
    next
      case part
      then have lt: "unat mb < length dat" using len by (simp add: word_less_nat_alt)
      then have d: "d = take (unat mb) dat" "\<not> fin" "length d = unat mb"
        and s': "s' = s\<lparr>dataForWriting := Some (drop (unat mb) dat), writeOffset := writeOffset s + of_nat (length d)\<rparr>"
        and fc': "fc' = AddBytesSent (of_nat (length d)) fc"
        using assms(1) g part by (auto simp: stream_AddBytesSent_def)
      have "d \<noteq> []" using d(3) part(1) by (auto simp: word_unat_eq_iff)
      moreover have "\<exists>w. s' = s\<lparr>dataForWriting := dataForWriting s', writeOffset := writeOffset s + of_nat (length d), writeChan := w\<rparr>"
        by (intro exI [of _ "writeChan s"]) (simp add: s')
      moreover have "d @ pending s' = pending s" "dataForWriting s' \<noteq> Some []"
        using lt by (simp_all add: s' Some pending_def d(1))
      moreover have "bytesSent fc' = bytesSent fc + of_nat (length d)" "sendWindow fc' = sendWindow fc"
        unfolding fc' AddBytesSent_def by simp_all
      moreover have "ss_streamID s \<noteq> CryptoStreamID (ss_version s) \<Longrightarrow> of_nat (length d) \<le> sendWindowSize fc"
        using win by (simp add: d(3))
      ultimately show ?thesis using d(2) by blast
    next
      case all
      then have d: "d = dat" "fin = (finishedWriting s \<and> \<not> finSent s)"
        and s': "s' = s\<lparr>dataForWriting := None, writeOffset := writeOffset s + of_nat (length d), writeChan := True\<rparr>"
        and fc': "fc' = AddBytesSent (of_nat (length d)) fc"
        using assms(1) g by (auto simp: stream_AddBytesSent_def)
      have "dat \<noteq> []" using assms(2) Some by simp
      moreover have "\<exists>w. s' = s\<lparr>dataForWriting := dataForWriting s', writeOffset := writeOffset s + of_nat (length d), writeChan := w\<rparr>"
        by (intro exI [of _ "True"]) (simp add: s')
      moreover have "of_nat (length d) \<le> mb" using all(2) d by simp
      moreover have "d @ pending s' = pending s" "dataForWriting s' = None"
        by (simp_all add: s' Some pending_def d(1))
      moreover have "bytesSent fc' = bytesSent fc + of_nat (length d)" "sendWindow fc' = sendWindow fc"
        unfolding fc' AddBytesSent_def by simp_all
      moreover have "ss_streamID s \<noteq> CryptoStreamID (ss_version s) \<Longrightarrow> of_nat (length d) \<le> sendWindowSize fc"
        using win \<open>of_nat (length d) \<le> mb\<close> by (blast intro: order_trans)
      ultimately show ?thesis using d by auto
    qed
  qed
  then show "d @ pending s' = pending s" "d = [] \<Longrightarrow> s' = s \<and> fc' = fc" "dataForWriting s' \<noteq> Some []"
    "fin \<Longrightarrow> finishedWriting s \<and> dataForWriting s' = None \<and> \<not> finSent s"
    "\<exists>w. s' = s\<lparr>dataForWriting := dataForWriting s', writeOffset := writeOffset s + of_nat (length d), writeChan := w\<rparr>"
    "d \<noteq> [] \<Longrightarrow> bytesSent fc' = bytesSent fc + of_nat (length d) \<and> sendWindow fc' = sendWindow fc
           \<and> (ss_streamID s \<noteq> CryptoStreamID (ss_version s) \<longrightarrow> of_nat (length d) \<le> sendWindowSize fc)"
    by blast+
qed

lemma popStreamFrame_cases:
  assumes pop: "popStreamFrame m s fc c = Inr ((fo, hasMore), s', fc', c', calls)"
    and "dataForWriting s \<noteq> Some []" "length (pending s) < 2 ^ 62"
  obtains (none) "fo = None" "s' = s" "fc' = fc"
  | (frame) d fin w where
      "fo = Some \<lparr>sf_StreamID = ss_streamID s, sf_FinBit = fin, sf_DataLenPresent = True,
                  sf_Offset = writeOffset s, sf_Data = d\<rparr>"
      "d \<noteq> [] \<or> fin" "d @ pending s' = pending s" "dataForWriting s' \<noteq> Some []"
      "fin \<Longrightarrow> finishedWriting s \<and> dataForWriting s' = None \<and> \<not> finSent s"
      "s' = s\<lparr>dataForWriting := dataForWriting s', writeOffset := writeOffset s + of_nat (length d),
              writeChan := w, finSent := finSent s \<or> fin\<rparr>"
      "bytesSent fc' = bytesSent fc + of_nat (length d)" "sendWindow fc' = sendWindow fc"
      "ss_streamID s \<noteq> CryptoStreamID (ss_version s) \<Longrightarrow> d \<noteq> [] \<Longrightarrow> of_nat (length d) \<le> sendWindowSize fc"
proof -
  let ?f = "\<lparr>sf_StreamID = ss_streamID s, sf_FinBit = False, sf_DataLenPresent = True,
             sf_Offset = writeOffset s, sf_Data = []\<rparr>"
  show thesis
  proof (cases "ss_closeForShutdownErr s \<noteq> None \<or> MaxDataLen ?f m (ss_version s) = Inr 0")
    case True
    then have "\<exists>b. popStreamFrame m s fc c = Inr ((None, b), s, fc, c, [])"
      unfolding popStreamFrame_def Let_def by (elim disjE) (auto intro: exI [of _ False])
    then have "fo = None" "s' = s" "fc' = fc" using pop by auto
    then show thesis by (rule none)
  next
    case False
    obtain n where n: "MaxDataLen ?f m (ss_version s) = Inr n" "n \<noteq> 0"
      using pop False unfolding popStreamFrame_def Let_def by (auto simp: ebind_Inr_iff)
    obtain d fin s1 fc1 c1 where g: "getDataForWriting n s fc c = ((d, fin), s1, fc1, c1)"
      by (metis prod.collapse)
    note gd = getDataForWriting_cases [OF g assms(2,3)]
    have r: "Inr ((fo, hasMore), s', fc', c', calls) =
      (if length d = 0 \<and> \<not> fin then
         (if dataForWriting s1 = None then Inr ((None, False), s1, fc1, c1, [])
          else Inr ((None, \<not> fst (IsBlocked fc1)), s1, fc1, c1, []))
       else if fin then
         Inr ((Some (?f\<lparr>sf_Data := d, sf_FinBit := fin\<rparr>), dataForWriting s1 \<noteq> None), s1\<lparr>finSent := True\<rparr>, fc1, c1,
              [onStreamCompleted (ss_streamID s1)])
       else if ss_streamID s1 \<noteq> CryptoStreamID (ss_version s1) \<and> fst (IsBlocked fc1) then
         Inr ((Some (?f\<lparr>sf_Data := d, sf_FinBit := fin\<rparr>), False), s1, fc1, c1,
              [queueControlFrame (Frame_StreamBlocked \<lparr>sb_StreamID = ss_streamID s1,
                 sb_Offset = snd (IsBlocked fc1)\<rparr>)])
       else (Inr ((Some (?f\<lparr>sf_Data := d, sf_FinBit := fin\<rparr>), dataForWriting s1 \<noteq> None), s1, fc1, c1, [])
             :: goerr + _))"
      using False n g unfolding pop [symmetric] popStreamFrame_def Let_def by simp
    show thesis
    proof (cases "d = [] \<and> \<not> fin")
      case True
      then have "fo = None" "s' = s1" "fc' = fc1" using r by (auto split: if_splits)
      with gd(2) True show thesis by (intro none) simp_all
    next
      case False
      have fo: "fo = Some (?f\<lparr>sf_Data := d, sf_FinBit := fin\<rparr>)" and s': "s' = s1\<lparr>finSent := finSent s1 \<or> fin\<rparr>"
        and fc': "fc' = fc1"
        using r False by (auto split: if_splits)
      obtain w where w: "s1 = s\<lparr>dataForWriting := dataForWriting s1, writeOffset := writeOffset s + of_nat (length d), writeChan := w\<rparr>"
        using gd(5) by blast
      have keep: "dataForWriting s' = dataForWriting s1" "pending s' = pending s1" by (simp_all add: s' pending_def)
      have fs: "finSent s1 = finSent s" by (subst w) simp
      have s'': "s' = s\<lparr>dataForWriting := dataForWriting s', writeOffset := writeOffset s + of_nat (length d),
              writeChan := w, finSent := finSent s \<or> fin\<rparr>"
        unfolding keep(1) unfolding s' fs by (subst w) simp
      show thesis
      proof (rule frame [OF _ _ _ _ _ s''])
        show "fo = Some \<lparr>sf_StreamID = ss_streamID s, sf_FinBit = fin, sf_DataLenPresent = True,
                  sf_Offset = writeOffset s, sf_Data = d\<rparr>" by (simp add: fo)
        show "d \<noteq> [] \<or> fin" using False by blast
        show "d @ pending s' = pending s" "dataForWriting s' \<noteq> Some []" using gd(1,3) keep by simp_all
        show "fin \<Longrightarrow> finishedWriting s \<and> dataForWriting s' = None \<and> \<not> finSent s" using gd(4) keep by simp
        show "bytesSent fc' = bytesSent fc + of_nat (length d)" "sendWindow fc' = sendWindow fc"
          using gd(2,6) fc' by (cases "d = []"; simp)+
        show "ss_streamID s \<noteq> CryptoStreamID (ss_version s) \<Longrightarrow> d \<noteq> [] \<Longrightarrow> of_nat (length d) \<le> sendWindowSize fc"
          using gd(6) by blast
      qed
    qed
  qed
qed

subsection \<open>The invariant of a run\<close>

definition given_up :: "sendStream \<Rightarrow> bool" where
  "given_up s \<longleftrightarrow> canceledWrite s \<or> ss_closedForShutdown s"

text \<open>The bytes \<open>S\<close> that were sent are those accepted and the first of the current \<open>Write\<close>.\<close>

definition progress :: "sendStream \<Rightarrow> byte list \<Rightarrow> byte list \<Rightarrow> byte list option \<Rightarrow> bool" where
  "progress s S acc wr \<longleftrightarrow>
     (case wr of
        None \<Rightarrow> dataForWriting s = None \<and> S = acc
      | Some p \<Rightarrow> \<exists>k \<le> length p. S = acc @ take k p \<and> pending s = drop k p)"

lemma progress_simps [simp]:
  "progress s S acc None \<longleftrightarrow> dataForWriting s = None \<and> S = acc"
  "progress s S acc (Some p) \<longleftrightarrow> (\<exists>k \<le> length p. S = acc @ take k p \<and> pending s = drop k p)"
  by (simp_all add: progress_def)

lemma progress_writeChan [simp]: "progress (s\<lparr>writeChan := c\<rparr>) S acc wr = progress s S acc wr"
  by (cases wr) (simp_all add: progress_def pending_def)

lemma sent_simps [simp]:
  "sent (st\<lparr>str := s\<rparr>) = sent st" "sent (st\<lparr>sfc := fc\<rparr>) = sent st" "sent (st\<lparr>sconn := c\<rparr>) = sent st"
  "sent (st\<lparr>accepted := a\<rparr>) = sent st" "sent (st\<lparr>writing := w\<rparr>) = sent st"
  by (simp_all add: sent_def)

definition send_inv :: "StreamID \<Rightarrow> VersionNumber \<Rightarrow> send_net \<Rightarrow> bool" where
  "send_inv sid v st \<longleftrightarrow>
     ss_streamID (str st) = sid \<and> ss_version (str st) = v
     \<and> unat (writeOffset (str st)) = length (sent st)
     \<and> length (sent st) + length (pending (str st)) < 2 ^ 62 - 1
     \<and> dataForWriting (str st) \<noteq> Some []
     \<and> (\<forall>f \<in> set (popped st). frame_of_stream (sent st) f)
     \<and> (finSent (str st) \<longrightarrow> finishedWriting (str st) \<and> dataForWriting (str st) = None)
     \<and> ((\<exists>f \<in> set (popped st). sf_FinBit f) \<longrightarrow> finSent (str st))
     \<and> (\<not> given_up (str st) \<longrightarrow> progress (str st) (sent st) (accepted st) (writing st))
     \<and> bytesSent (sfc st) = writeOffset (str st)
     \<and> (sid \<noteq> CryptoStreamID v \<longrightarrow> length (sent st) \<le> unat (sendWindow (sfc st)))"

lemma frame_of_stream_extend:
  "frame_of_stream S f \<Longrightarrow> (sf_FinBit f \<Longrightarrow> d = []) \<Longrightarrow> frame_of_stream (S @ d) f"
  by (cases "d = []") (auto simp: frame_of_stream_def slice_def)

text \<open>A step of \<open>Write\<close> changes only the data that waits and the signal.\<close>

lemma Write_loop_cases:
  assumes "Write_loop now n s = (r, s')"
  obtains (waits) "r = Waits" "s' = s" "dataForWriting s \<noteq> None" "\<not> given_up s"
  | (ends) err where "r = Returns (n - length (pending s)) err" "s' = s" "dataForWriting s = None \<or> given_up s"
  | (late) err where "r = Returns (n - length (pending s)) err" "s' = s\<lparr>dataForWriting := None\<rparr>"
proof -
  have len: "pending_len s = length (pending s)"
    by (simp add: pending_len_def pending_def split: option.splits)
  consider (1) "deadline_passed now (writeDeadline s)"
    | (2) "\<not> deadline_passed now (writeDeadline s)" "dataForWriting s = None \<or> given_up s"
    | (3) "\<not> deadline_passed now (writeDeadline s)" "\<not> (dataForWriting s = None \<or> given_up s)"
    by blast
  then show thesis
  proof cases
    case 1
    then have "\<exists>err. (r, s') = (Returns (n - length (pending s)) err, s\<lparr>dataForWriting := None\<rparr>)"
      unfolding assms [symmetric] Write_loop_def Let_def len by simp
    then show thesis using late by blast
  next
    case 2
    then have "\<exists>err. (r, s') = (Returns (n - length (pending s)) err, s)"
      unfolding assms [symmetric] Write_loop_def Let_def len by (simp add: given_up_def)
    then show thesis using ends 2 by blast
  next
    case 3
    then have "(r, s') = (Waits, s)"
      unfolding assms [symmetric] Write_loop_def Let_def len by (simp add: given_up_def)
    then show thesis using 3 by (intro waits) auto
  qed
qed

lemma after_write_simps [simp]:
  "str (after_write p r st) = str st" "sfc (after_write p r st) = sfc st" "popped (after_write p r st) = popped st"
  "sent (after_write p r st) = sent st"
  by (simp_all add: after_write_def sent_def split: write_result.splits)

lemma pending_update [simp]:
  "pending (s\<lparr>dataForWriting := None\<rparr>) = []" "pending (s\<lparr>dataForWriting := Some d\<rparr>) = d"
  "pending (s\<lparr>writeChan := w\<rparr>) = pending s"
  by (simp_all add: pending_def)

lemma given_up_update [simp]:
  "given_up (s\<lparr>dataForWriting := d\<rparr>) = given_up s" "given_up (s\<lparr>writeChan := w\<rparr>) = given_up s"
  "given_up (s\<lparr>writeOffset := off\<rparr>) = given_up s" "given_up (s\<lparr>finSent := b\<rparr>) = given_up s"
  by (simp_all add: given_up_def)

text \<open>One pass of the loop of a \<open>Write\<close> of \<open>p\<close> whose data is taken up to \<open>pending\<close>.\<close>

lemma send_inv_loop:
  assumes inv: "send_inv sid v (st\<lparr>str := s, writing := Some p\<rparr>)"
    and loop: "Write_loop now (length p) s = (r, s')"
  shows "send_inv sid v (after_write p r (st\<lparr>str := s'\<rparr>))"
  using loop
proof (cases rule: Write_loop_cases)
  case waits
  then have "after_write p r (st\<lparr>str := s'\<rparr>) = st\<lparr>str := s, writing := Some p\<rparr>"
    by (simp add: after_write_def)
  with inv show ?thesis by simp
next
  case (ends err)
  have "sent st = accepted st @ take (length p - length (pending s)) p \<and> dataForWriting s = None"
    if ng: "\<not> given_up s"
  proof -
    have "dataForWriting s = None" using ends ng by simp
    moreover from this obtain k where "k \<le> length p" "sent st = accepted st @ take k p" "[] = drop k p"
      using inv ng by (auto simp: send_inv_def pending_def)
    ultimately show ?thesis by (simp add: pending_def)
  qed
  with ends inv show ?thesis unfolding send_inv_def by (simp add: after_write_def sent_def)
next
  case (late err)
  have "sent st = accepted st @ take (length p - length (pending s)) p" if ng: "\<not> given_up s"
  proof -
    obtain k where k: "k \<le> length p" "sent st = accepted st @ take k p" "pending s = drop k p"
      using inv ng by (auto simp: send_inv_def)
    then have "length p - length (pending s) = k" by simp
    with k show ?thesis by simp
  qed
  with late inv show ?thesis unfolding send_inv_def by (simp add: after_write_def sent_def)
qed


lemma send_inv_begin:
  assumes inv: "send_inv sid v st" and w: "writing st = None" and len: "length (sent st) + length p < 2 ^ 62 - 1"
    and b: "Write_begin now p (str st) = (r, s', calls)"
  shows "send_inv sid v (after_write p r (st\<lparr>str := s'\<rparr>))"
proof -
  let ?s = "str st"
  consider (refused) err where "r = Returns 0 err" "s' = ?s"
    | (run) "Write_loop now (length p) (?s\<lparr>dataForWriting := Some p\<rparr>) = (r, s')" "\<not> finishedWriting ?s"
        "\<not> canceledWrite ?s" "p \<noteq> []"
    using b by (auto simp: Write_begin_def split: if_splits prod.splits)
  then show ?thesis
  proof cases
    case refused
    then have "after_write p r (st\<lparr>str := s'\<rparr>) = st\<lparr>writing := None\<rparr>" by (simp add: after_write_def)
    also have "\<dots> = st" using w by simp
    finally show ?thesis using inv by simp
  next
    case run
    have "sent st = accepted st" if "\<not> given_up ?s" using inv that w by (simp add: send_inv_def)
    then have "send_inv sid v (st\<lparr>str := ?s\<lparr>dataForWriting := Some p\<rparr>, writing := Some p\<rparr>)"
      using inv len run(2,4) by (auto simp: send_inv_def intro!: exI [of _ 0])
    from send_inv_loop [OF this run(1)] show ?thesis .
  qed
qed

lemma send_inv_wake:
  assumes inv: "send_inv sid v st" and w: "writing st = Some p"
    and b: "Write_wake now (length p) (str st) = Some (r, s')"
  shows "send_inv sid v (after_write p r (st\<lparr>str := s'\<rparr>))"
proof -
  obtain c where loop: "Write_loop now (length p) (str st\<lparr>writeChan := c\<rparr>) = (r, s')"
  proof (cases "writeChan (str st)")
    case True
    with b that show thesis by (simp add: Write_wake_def)
  next
    case False
    have eq: "str st\<lparr>writeChan := writeChan (str st)\<rparr> = str st" by simp
    have loop: "Write_loop now (length p) (str st) = (r, s')"
      using b False by (simp add: Write_wake_def split: if_splits)
    show thesis by (rule that [of "writeChan (str st)"]) (simp only: eq loop)
  qed
  have "st\<lparr>str := str st\<lparr>writeChan := c\<rparr>, writing := Some p\<rparr> = st\<lparr>str := str st\<lparr>writeChan := c\<rparr>\<rparr>"
    using w by simp
  moreover have "send_inv sid v (st\<lparr>str := str st\<lparr>writeChan := c\<rparr>\<rparr>)"
    using inv by (simp add: send_inv_def)
  ultimately show ?thesis using send_inv_loop [OF _ loop] by simp
qed

lemma send_inv_pop:
  assumes inv: "send_inv sid v st"
    and pop: "popStreamFrame m (str st) (sfc st) (sconn st) = Inr ((fo, hasMore), s', fc', c', calls)"
  shows "send_inv sid v (st\<lparr>str := s', sfc := fc', sconn := c',
          popped := popped st @ (case fo of None \<Rightarrow> [] | Some f \<Rightarrow> [f])\<rparr>)"
proof -
  let ?s = "str st"
  have len: "length (sent st) + length (pending ?s) < 2 ^ 62 - 1" and ne: "dataForWriting ?s \<noteq> Some []"
    and wo: "unat (writeOffset ?s) = length (sent st)" using inv by (simp_all add: send_inv_def)
  from len have "length (pending ?s) < 2 ^ 62" by linarith
  from pop ne this show ?thesis
  proof (cases rule: popStreamFrame_cases)
    case none
    then have "st\<lparr>str := s', sfc := fc', sconn := c',
          popped := popped st @ (case fo of None \<Rightarrow> [] | Some f \<Rightarrow> [f])\<rparr> = st\<lparr>sconn := c'\<rparr>" by simp
    moreover have "send_inv sid v (st\<lparr>sconn := c'\<rparr>) = send_inv sid v st"
      by (simp add: send_inv_def)
    ultimately show ?thesis using inv by simp
  next
    case (frame d fin w)
    let ?f = "\<lparr>sf_StreamID = ss_streamID ?s, sf_FinBit = fin, sf_DataLenPresent = True,
                  sf_Offset = writeOffset ?s, sf_Data = d\<rparr>"
    define st' where "st' = st\<lparr>str := s', sfc := fc', sconn := c', popped := popped st @ [?f]\<rparr>"
    have st': "str st' = s'" "sfc st' = fc'" "popped st' = popped st @ [?f]" "accepted st' = accepted st"
      "writing st' = writing st" and sent': "sent st' = sent st @ d"
      by (simp_all add: st'_def sent_def)
    have len': "length (pending ?s) = length d + length (pending s')" using frame(3) by (metis length_append)
    have wo': "unat (writeOffset ?s + of_nat (length d)) = length (sent st) + length d"
      using wo len len' by (subst unat_plus_of_nat) simp_all
    have old: "\<not> finSent ?s" if "d \<noteq> []"
      using that frame(3) inv by (auto simp: send_inv_def pending_def)
    have "frame_of_stream (sent st @ d) ?f"
      using wo frame(2) by (auto simp: frame_of_stream_def slice_def)
    moreover have "frame_of_stream (sent st @ d) g" if g: "g \<in> set (popped st)" for g
    proof (rule frame_of_stream_extend)
      show "frame_of_stream (sent st) g" using inv g by (simp add: send_inv_def)
      show "sf_FinBit g \<Longrightarrow> d = []" using inv g old by (auto simp: send_inv_def)
    qed
    ultimately have frames: "\<forall>g \<in> set (popped st'). frame_of_stream (sent st') g" by (simp add: sent' st')
    have s'_fields: "ss_streamID s' = ss_streamID ?s" "ss_version s' = ss_version ?s"
      "writeOffset s' = writeOffset ?s + of_nat (length d)" "finSent s' = (finSent ?s \<or> fin)"
      "finishedWriting s' = finishedWriting ?s" "given_up s' = given_up ?s"
      by (subst frame(6), simp add: given_up_def)+
    have none: "dataForWriting ?s = None \<Longrightarrow> dataForWriting s' = None \<and> d = []"
      using frame(3,4) by (auto simp: pending_def split: option.splits)
    have "finSent s' \<longrightarrow> finishedWriting s' \<and> dataForWriting s' = None"
      using frame(5) inv none by (auto simp: s'_fields send_inv_def)
    moreover have "(\<exists>g \<in> set (popped st'). sf_FinBit g) \<longrightarrow> finSent s'"
      using inv by (auto simp: s'_fields st' send_inv_def)
    moreover have "progress s' (sent st') (accepted st) (writing st)" if ng: "\<not> given_up ?s"
    proof (cases "writing st")
      case None
      with inv ng have "dataForWriting ?s = None" "sent st = accepted st" by (simp_all add: send_inv_def)
      with none None show ?thesis unfolding sent' by simp
    next
      case (Some p)
      with inv ng obtain k where k: "k \<le> length p" "sent st = accepted st @ take k p" "d @ pending s' = drop k p"
        using frame(3) by (auto simp: send_inv_def)
      have "length d + length (pending s') = length p - k"
        using k(3) by (metis length_append length_drop)
      moreover have "d = take (length d) (drop k p)" "pending s' = drop (length d) (drop k p)"
        by (simp_all flip: k(3))
      ultimately have "sent st @ d = accepted st @ take (k + length d) p" "pending s' = drop (k + length d) p"
        "k + length d \<le> length p"
        using k(1,2) by (simp_all add: take_add add.commute)
      with Some show ?thesis unfolding sent' by auto
    qed
    moreover have "length (sent st') + length (pending s') < 2 ^ 62 - 1" using len len' by (simp add: sent')
    moreover have "length (sent st) + length d \<le> unat (sendWindow (sfc st))" if nc: "sid \<noteq> CryptoStreamID v"
    proof (cases "d = []")
      case False
      have w: "length (sent st) \<le> unat (sendWindow (sfc st))" "unat (bytesSent (sfc st)) = length (sent st)"
        using inv nc by (simp_all add: send_inv_def)
      have "of_nat (length d) \<le> sendWindowSize (sfc st)"
        using frame(9) False nc inv by (simp add: send_inv_def)
      then have "length d \<le> unat (sendWindow (sfc st)) - unat (bytesSent (sfc st))"
        using w len len' unat_of_nat64 [of "length d"]
        by (simp add: sendWindowSize_def word_le_nat_alt word_less_nat_alt unat_sub64 split: if_splits)
      with w show ?thesis by simp
    qed (use inv nc in \<open>simp add: send_inv_def\<close>)
    ultimately have "send_inv sid v st'"
      using inv frames frame(4,7,8) wo' unfolding send_inv_def st' s'_fields by (simp add: sent')
    then show ?thesis by (simp add: frame(1) st'_def)
  qed
qed

text \<open>What the steps other than writing and popping change does not matter.\<close>

lemma send_inv_str:
  assumes inv: "send_inv sid v st"
    and same: "ss_streamID s' = ss_streamID (str st)" "ss_version s' = ss_version (str st)"
      "writeOffset s' = writeOffset (str st)" "dataForWriting s' = dataForWriting (str st)"
      "finSent s' = finSent (str st)"
    and up: "finishedWriting (str st) \<longrightarrow> finishedWriting s'" "given_up (str st) \<longrightarrow> given_up s'"
  shows "send_inv sid v (st\<lparr>str := s'\<rparr>)"
proof -
  have p: "pending s' = pending (str st)" using same(4) by (simp add: pending_def)
  then have "progress s' S acc wr = progress (str st) S acc wr" for S acc wr
    using same(4) by (cases wr) (simp_all add: progress_def)
  with inv same up p show ?thesis by (auto simp: send_inv_def)
qed

lemma send_inv_cancel:
  assumes "send_inv sid v st" "cancelWriteImpl code e (str st) = (err, s', calls)"
  shows "send_inv sid v (st\<lparr>str := s'\<rparr>)"
  by (rule send_inv_str [OF assms(1)])
     (use assms(2) in \<open>auto simp: cancelWriteImpl_def signalWrite_def given_up_def split: if_splits\<close>)

lemma send_run_inv: "send_run sid v st \<Longrightarrow> send_inv sid v st"
proof (induction rule: send_run.induct)
  case (start fc c)
  then show ?case
    by (simp add: send_inv_def newSendStream_def sent_def pending_def)
next
  case (begin_write st p now r s' calls)
  from send_inv_begin [OF begin_write.IH begin_write.hyps(2-4)] show ?case .
next
  case (wake st p now r s')
  from send_inv_wake [OF wake.IH wake.hyps(2,3)] show ?case .
next
  case (pop st m fo hasMore s' fc' c' calls)
  from send_inv_pop [OF pop.IH pop.hyps(2)] show ?case .
next
  case (close st err s' calls)
  show ?case
    by (rule send_inv_str [OF close.IH])
       (use close.hyps(2) in \<open>auto simp: send_Close_def given_up_def split: if_splits\<close>)
next
  case (cancel st code err s' calls)
  from send_inv_cancel [OF cancel.IH cancel.hyps(2) [unfolded CancelWrite_def]] show ?case .
next
  case (stop st f s' calls)
  then show ?case
    using send_inv_cancel [OF stop.IH] unfolding handleStopSendingFrame_def Let_def by (metis prod.collapse)
next
  case (max_data st f fc' calls)
  then show ?case
    by (auto simp: handleMaxStreamDataFrame_def UpdateSendWindow_def send_inv_def word_less_nat_alt)
next
  case (deadline st t)
  show ?case
    by (rule send_inv_str [OF deadline.IH]) (simp_all add: SetWriteDeadline_def Let_def signalWrite_def given_up_def)
next
  case (shutdown st err)
  show ?case
    by (rule send_inv_str [OF shutdown.IH]) (simp_all add: send_closeForShutdown_def signalWrite_def given_up_def)
next
  case (environment st fc' c')
  then show ?case by (simp add: send_inv_def)
qed

subsection \<open>What the sending half promises\<close>

text \<open>C22: However writes, frames, window updates, deadlines and cancellations are mixed, the frames
  the session pops are slices of one stream without holes, the FIN bit stands only at its end and only
  after \<open>Close\<close>; and unless the stream was given up, that stream is what the calls of \<open>Write\<close> reported
  as written, followed by the beginning of the call that waits.\<close>

theorem sent_frames_are_the_stream:
  assumes "send_run sid v st"
  shows "(\<forall>f \<in> set (popped st). frame_of_stream (sent st) f)
    \<and> ((\<exists>f \<in> set (popped st). sf_FinBit f) \<longrightarrow> finishedWriting (str st) \<and> dataForWriting (str st) = None)
    \<and> (given_up (str st)
       \<or> (\<exists>k. sent st = accepted st @ take k (case writing st of None \<Rightarrow> [] | Some p \<Rightarrow> p)))"
proof -
  have inv: "send_inv sid v st" using assms by (rule send_run_inv)
  have "\<exists>k. sent st = accepted st @ take k (case writing st of None \<Rightarrow> [] | Some p \<Rightarrow> p)"
    if "\<not> given_up (str st)"
    using inv that by (cases "writing st") (auto simp: send_inv_def)
  with inv show ?thesis by (auto simp: send_inv_def)
qed

text \<open>A stream on which three bytes wait, and the frame that takes them.\<close>

definition example_fc :: streamFlowController where
  "example_fc = NewStreamFlowController 5 False 100 100 100"

definition example_conn :: connectionFlowController where
  "example_conn = NewConnectionFlowController 100 100"

definition example_waiting :: send_net where
  "example_waiting =
     \<lparr>str = (newSendStream 5 VersionTLS)\<lparr>dataForWriting := Some [1, 2, 3]\<rparr>, sfc = example_fc,
      sconn = example_conn, popped = [], accepted = [], writing = Some [1, 2, 3]\<rparr>"

lemmas send_eval = newSendStream_def Write_begin_def Write_loop_def pending_len_def deadline_passed_def Let_def

lemma example_waiting_run: "send_run 5 VersionTLS example_waiting"
proof -
  let ?st = "\<lparr>str = newSendStream 5 VersionTLS, sfc = example_fc, sconn = example_conn, popped = [],
              accepted = [], writing = None\<rparr>"
  have r: "send_run 5 VersionTLS ?st"
    by (rule send_run.start) (simp add: example_fc_def NewStreamFlowController_def)
  have w: "Write_begin 0 [1, 2, 3] (newSendStream 5 VersionTLS)
      = (Waits, (newSendStream 5 VersionTLS)\<lparr>dataForWriting := Some [1, 2, 3]\<rparr>, [onHasStreamData 5])"
    by (simp add: send_eval)
  have "send_run 5 VersionTLS (after_write [1, 2, 3] Waits
      (?st\<lparr>str := (newSendStream 5 VersionTLS)\<lparr>dataForWriting := Some [1, 2, 3]\<rparr>\<rparr>))"
    by (rule send_run.begin_write [OF r]) (use w in \<open>simp_all add: sent_def\<close>)
  then show ?thesis by (simp add: example_waiting_def after_write_def)
qed

definition example_sent_frame :: StreamFrame where
  "example_sent_frame = \<lparr>sf_StreamID = 5, sf_FinBit = False, sf_DataLenPresent = True, sf_Offset = 0, sf_Data = [1, 2, 3]\<rparr>"

lemmas pop_eval = popStreamFrame_def getDataForWriting_def MaxDataLen_def VarIntLen_def UsesIETFFrameFormat_def
  version_defs CryptoStreamID_def SendWindowSize_def sendWindowSize_def MinByteCount_def stream_AddBytesSent_def
  AddBytesSent_def IsBlocked_def signalWrite_def Let_def NewStreamFlowController_def newSendStream_def
  word_less_nat_alt word_le_nat_alt

lemma example_pop: "\<exists>s' fc' c'. popStreamFrame 100 (str example_waiting) example_fc example_conn
    = Inr ((Some example_sent_frame, False), s', fc', c', [])"
  by (simp add: pop_eval example_waiting_def example_fc_def example_sent_frame_def)

theorem sent_frames_are_the_stream_witness:
  "\<exists>st. send_run 5 VersionTLS st \<and> popped st = [example_sent_frame]
     \<and> frame_of_stream (sent st) example_sent_frame"
proof -
  obtain s' fc' c' where "popStreamFrame 100 (str example_waiting) (sfc example_waiting) (sconn example_waiting)
    = Inr ((Some example_sent_frame, False), s', fc', c', [])"
    using example_pop by (auto simp: example_waiting_def)
  note r = send_run.pop [OF example_waiting_run this]
  from r sent_frames_are_the_stream [OF r] show ?thesis
    by (intro exI conjI) (auto simp: example_waiting_def)
qed

text \<open>A stream other than the crypto stream never sends beyond the offset its peer allowed, so the
  frames of a run lie below the stream's send window.\<close>

theorem sending_respects_the_window:
  assumes "send_run sid v st" "sid \<noteq> CryptoStreamID v" "f \<in> set (popped st)"
  shows "hi f \<le> unat (sendWindow (sfc st))"
  using send_run_inv [OF assms(1)] assms(2,3) by (fastforce simp: send_inv_def frame_of_stream_def slice_def)

theorem sending_respects_the_window_witness:
  "\<exists>st :: send_net. popped st = [example_sent_frame] \<and> hi example_sent_frame \<le> unat (sendWindow (sfc st))"
proof -
  obtain s' fc' c' where "popStreamFrame 100 (str example_waiting) (sfc example_waiting) (sconn example_waiting)
    = Inr ((Some example_sent_frame, False), s', fc', c', [])"
    using example_pop by (auto simp: example_waiting_def)
  note r = send_run.pop [OF example_waiting_run this]
  let ?st = "example_waiting\<lparr>str := s', sfc := fc', sconn := c', popped := [example_sent_frame]\<rparr>"
  have "send_run 5 VersionTLS ?st" using r by (simp add: example_waiting_def)
  from sending_respects_the_window [OF this, of example_sent_frame]
  have "popped ?st = [example_sent_frame] \<and> hi example_sent_frame \<le> unat (sendWindow (sfc ?st))"
    by (simp add: CryptoStreamID_def isGQUIC_def version_defs)
  then show ?thesis by blast
qed

text \<open>C23: \<open>CancelWrite\<close> leaves the data of the \<open>Write\<close> that waits in the stream, whatever the stream has sent
  before. When the session pops the stream after the reset (a bidirectional stream stays in the map until its
  receiving half is done), and the packet and the flow control have room for a byte, the frame it gets carries
  the beginning of this data at the offset the RST_STREAM frame named as the final one; and the flow
  control of every receiver that accepted this final offset answers the frame with the error that data came after
  the end of the stream, with which its session closes the connection.\<close>

theorem data_is_sent_after_reset:
  assumes waiting: "dataForWriting s = Some d" "d \<noteq> []" "unat (writeOffset s) + length d < 2 ^ 62"
    and is_open: "\<not> canceledWrite s" "\<not> finishedWriting s" "ss_closeForShutdownErr s = None"
    and no_crypto: "ss_streamID s \<noteq> CryptoStreamID (ss_version s)"
    and room: "MaxDataLen \<lparr>sf_StreamID = ss_streamID s, sf_FinBit = False, sf_DataLenPresent = True,
                 sf_Offset = writeOffset s, sf_Data = []\<rparr> n (ss_version s) = Inr m" "m \<noteq> 0" "SendWindowSize fc conn \<noteq> 0"
    and reset: "UpdateHighestReceived (writeOffset s) True r c = (None, r1, c1)"
  shows "\<exists>s1 calls k f rest s2 fc2 conn2 calls2.
     CancelWrite code s = (None, s1, calls)
     \<and> queueControlFrame (Frame_RstStream \<lparr>rst_StreamID = ss_streamID s, rst_ErrorCode = code,
         rst_ByteOffset = writeOffset s\<rparr>) \<in> set calls
     \<and> popStreamFrame n s1 fc conn = Inr ((Some f, rest), s2, fc2, conn2, calls2)
     \<and> 0 < k \<and> sf_Offset f = writeOffset s \<and> sf_Data f = take k d
     \<and> fst (UpdateHighestReceived (sf_Offset f + DataLen f) (sf_FinBit f) r1 c1) = Some (QErr StreamDataAfterTermination)"
proof -
  define err where "err = GoErr ''Write on stream canceled with error code''"
  define s1 where "s1 = s\<lparr>canceledWrite := True, cancelWriteErr := Some err, writeChan := True\<rparr>"
  define frame where "frame = \<lparr>sf_StreamID = ss_streamID s, sf_FinBit = False, sf_DataLenPresent = True,
                 sf_Offset = writeOffset s, sf_Data = [] :: byte list\<rparr>"
  have cancel: "CancelWrite code s = (None, s1, [queueControlFrame (Frame_RstStream \<lparr>rst_StreamID = ss_streamID s,
      rst_ErrorCode = code, rst_ByteOffset = writeOffset s\<rparr>), onStreamCompleted (ss_streamID s)])"
    using is_open by (simp add: CancelWrite_def cancelWriteImpl_def signalWrite_def s1_def err_def)
  define w where "w = MinByteCount m (SendWindowSize fc conn)"
  have w: "w \<noteq> 0" using room(2,3) by (simp add: w_def MinByteCount_def)
  define k where "k = (if of_nat (length d) > w then unat w else length d)"
  have k: "0 < k" using w waiting(2) by (simp add: k_def unat_gt_0)
  have fits: "length (take k d) \<le> length d" "take k d \<noteq> []" using k waiting(2) by simp_all
  obtain s2 fc2 conn2 where get: "getDataForWriting m s1 fc conn = ((take k d, False), s2, fc2, conn2)"
  proof -
    have "fst (getDataForWriting m s1 fc conn) = (take k d, False)"
      using waiting(1) is_open(2) no_crypto w
      by (simp add: getDataForWriting_def s1_def w_def k_def Let_def signalWrite_def split: prod.split)
    then show ?thesis using that by (cases "getDataForWriting m s1 fc conn") auto
  qed
  define f where "f = frame\<lparr>sf_Data := take k d\<rparr>"
  have pop: "\<exists>rest s2 fc2 conn2 calls2. popStreamFrame n s1 fc conn = Inr ((Some f, rest), s2, fc2, conn2, calls2)"
    using is_open(3) room(1,2) get fits(2) unfolding popStreamFrame_def
    by (simp add: s1_def frame_def f_def Let_def) (intro impI exI [of _ False], simp)
  have final: "receivedFinalOffset r1" "highestReceived r1 = writeOffset s"
    using reset by (auto simp: UpdateHighestReceived_def Let_def split: if_splits prod.splits)
  have "writeOffset s < sf_Offset f + DataLen f"
  proof -
    have len: "length (take k d) < 2 ^ 62" "unat (writeOffset s) + length (take k d) < 2 ^ 62"
      using waiting(3) fits(1) by simp_all
    then have "unat (writeOffset s + of_nat (length (take k d))) = unat (writeOffset s) + length (take k d)"
      by (simp add: unat_word_ariths unat_of_nat64)
    moreover have "0 < length (take k d)" using fits(2) by blast
    ultimately have "writeOffset s < writeOffset s + of_nat (length (take k d))" unfolding word_less_nat_alt by linarith
    then show ?thesis by (simp add: f_def frame_def DataLen_def)
  qed
  then have "fst (UpdateHighestReceived (sf_Offset f + DataLen f) (sf_FinBit f) r1 c1) = Some (QErr StreamDataAfterTermination)"
    using final by (simp add: UpdateHighestReceived_def f_def frame_def)
  with cancel pop k show ?thesis by (fastforce simp: f_def frame_def)
qed

text \<open>A stream of a run, with three bytes that wait.\<close>

theorem data_is_sent_after_reset_witness:
  "send_run 5 VersionTLS example_waiting
   \<and> (\<exists>s1 calls f rest s2 fc2 conn2 calls2. CancelWrite 7 (str example_waiting) = (None, s1, calls)
        \<and> popStreamFrame 100 s1 example_fc example_conn = Inr ((Some f, rest), s2, fc2, conn2, calls2)
        \<and> sf_Data f \<noteq> []
        \<and> fst (UpdateHighestReceived (sf_Offset f + DataLen f) (sf_FinBit f)
                 (example_fc\<lparr>receivedFinalOffset := True\<rparr>) example_conn) = Some (QErr StreamDataAfterTermination))"
proof -
  let ?s = "str example_waiting"
  have s: "dataForWriting ?s = Some [1, 2, 3]" "\<not> canceledWrite ?s" "\<not> finishedWriting ?s" "ss_closeForShutdownErr ?s = None"
    "unat (writeOffset ?s) + length [1, 2, 3 :: byte] < 2 ^ 62" "ss_streamID ?s \<noteq> CryptoStreamID (ss_version ?s)"
    by (simp_all add: example_waiting_def newSendStream_def CryptoStreamID_def isGQUIC_def version_defs)
  have room: "MaxDataLen \<lparr>sf_StreamID = ss_streamID ?s, sf_FinBit = False, sf_DataLenPresent = True,
      sf_Offset = writeOffset ?s, sf_Data = []\<rparr> 100 (ss_version ?s) = Inr 96" "(96 :: ByteCount) \<noteq> 0"
    "SendWindowSize example_fc example_conn \<noteq> 0"
    by (simp_all add: pop_eval example_waiting_def example_fc_def example_conn_def NewConnectionFlowController_def)
  have reset: "UpdateHighestReceived (writeOffset ?s) True example_fc example_conn
      = (None, example_fc\<lparr>receivedFinalOffset := True\<rparr>, example_conn)"
    by (simp add: UpdateHighestReceived_def example_fc_def NewStreamFlowController_def example_waiting_def newSendStream_def)
  from data_is_sent_after_reset [OF s(1) _ s(5,2-4,6) room reset, of 7] example_waiting_run show ?thesis by fastforce
qed

end
