(* ===== verification/Receive_Runs.thy ===== *)
theory Receive_Runs
  imports Receive_Stream Sorter_Delivery Send_Runs
begin

section \<open>What a stream delivers\<close>

text \<open>
  Runs of the receiving half: frames arrive while an application reads, cancels and sets deadlines, in
  any interleaving with the steps of \<open>Read\<close>. \<open>arrived\<close> are the offsets whose bytes arrived, \<open>got\<close> what
  the calls of \<open>Read\<close> copied, and \<open>reading\<close> where the call that has not returned stands.
\<close>

datatype read_phase = R_idle | R_wait nat nat | R_copy nat nat StreamFrame

record recv_net =
  rstr :: receiveStream
  rfc :: streamFlowController
  rconn :: connectionFlowController
  arrived :: "nat set"
  got :: "byte list"
  reading :: read_phase

fun read_phase_of :: "nat \<Rightarrow> nat \<Rightarrow> read_result \<Rightarrow> read_phase" where
  "read_phase_of n k (ReadReturns err) = R_idle"
| "read_phase_of n k ReadWaits = R_wait n k"
| "read_phase_of n k (ReadCopies f) = R_copy n k f"

text \<open>\<open>F\<close> says which frames may arrive. An error of \<open>handleStreamFrame\<close> closes the connection, so
  the run ends there.\<close>

inductive recv_run :: "(StreamFrame \<Rightarrow> bool) \<Rightarrow> StreamID \<Rightarrow> VersionNumber \<Rightarrow> recv_net \<Rightarrow> bool" for F sid v where
  start: "recv_run F sid v
     \<lparr>rstr = newReceiveStream sid v, rfc = fc, rconn = c, arrived = {}, got = [], reading = R_idle\<rparr>"
| frame: "recv_run F sid v st \<Longrightarrow> F f
    \<Longrightarrow> handleStreamFrame f (rstr st) (rfc st) (rconn st) = (None, s', fc', c')
    \<Longrightarrow> recv_run F sid v (st\<lparr>rstr := s', rfc := fc', rconn := c', arrived := arrived st \<union> {lo f..<hi f}\<rparr>)"
| reset: "recv_run F sid v st
    \<Longrightarrow> recv_handleRstStreamFrame g (rstr st) (rfc st) (rconn st) = (None, s', fc', c', calls)
    \<Longrightarrow> recv_run F sid v (st\<lparr>rstr := s', rfc := fc', rconn := c'\<rparr>)"
| cancel: "recv_run F sid v st \<Longrightarrow> CancelRead code (rstr st) = (s', calls)
    \<Longrightarrow> recv_run F sid v (st\<lparr>rstr := s'\<rparr>)"
| deadline: "recv_run F sid v st \<Longrightarrow> recv_run F sid v (st\<lparr>rstr := SetReadDeadline t (rstr st)\<rparr>)"
| shutdown: "recv_run F sid v st \<Longrightarrow> recv_run F sid v (st\<lparr>rstr := recv_closeForShutdown err (rstr st)\<rparr>)"
| environment: "recv_run F sid v st \<Longrightarrow> recv_run F sid v (st\<lparr>rfc := fc', rconn := c'\<rparr>)"
| read: "recv_run F sid v st \<Longrightarrow> reading st = R_idle \<Longrightarrow> Read_begin now n (rstr st) = (r, s')
    \<Longrightarrow> recv_run F sid v (st\<lparr>rstr := s', reading := read_phase_of n 0 r\<rparr>)"
| wake: "recv_run F sid v st \<Longrightarrow> reading st = R_wait n k \<Longrightarrow> Read_wake now (rstr st) = Some (r, s')
    \<Longrightarrow> recv_run F sid v (st\<lparr>rstr := s', reading := read_phase_of n k r\<rparr>)"
| copy: "recv_run F sid v st \<Longrightarrow> reading st = R_copy n k f
    \<Longrightarrow> Read_finish now n k f (rstr st) (rfc st) (rconn st) = (r, s', fc', c', calls)
    \<Longrightarrow> recv_run F sid v (st\<lparr>rstr := s', rfc := fc', rconn := c',
          got := got st @ Read_copied n k f (rstr st),
          reading := read_phase_of n (k + length (Read_copied n k f (rstr st))) r\<rparr>)"

subsection \<open>The frame that is read stays in the queue\<close>

lemma push_data_keeps_head:
  assumes inv: "sorter_inv S s" and f: "slice S f" "sf_Data f \<noteq> []"
    and no_end: "\<forall>g \<in> set (gaps s). gE g \<noteq> lo f" and push: "push_data f s = Inr s'"
    and head: "Head s = Some g"
  shows "Head s' = Some g"
proof -
  from inv have small: "length S < 2 ^ 62 - 1" and wf: "wf_gaps (gaps s)" and fin: "length S \<in> missing (gaps s)"
    and rp: "{0..<unat (readPosition s)} \<inter> missing (gaps s) = {}"
    by (auto simp: sorter_inv_def)
  from push_data_shape [OF wf fin small f no_end push] obtain a e D
    where ae: "unat a < e" "e \<le> hi f" and aM: "unat a \<in> missing (gaps s)"
      and q': "queuedFrames s' = (queuedFrames s |` (- D))(a \<mapsto>
          f\<lparr>sf_Offset := a, sf_Data := take (e - unat a) (drop (unat a - lo f) (sf_Data f))\<rparr>)"
      and D: "\<forall>d \<in> D. unat a < unat d" and r: "readPosition s' = readPosition s"
    by blast
  have le: "unat (readPosition s) \<le> unat a"
    using rp aM by (metis IntI atLeastLessThan_iff empty_iff not_less zero_le)
  note g = queued_frame [OF inv head [unfolded Head_def]]
  have "readPosition s \<noteq> a"
  proof
    assume a: "readPosition s = a"
    with g(3) aM g(1) have "sf_Data g = []" by force
    with g(1,4) a ae f(1) show False by (auto simp: slice_def)
  qed
  moreover have "readPosition s \<notin> D" using D le by fastforce
  ultimately show ?thesis using head by (simp add: Head_def q' r)
qed

lemma Push_keeps_head:
  assumes inv: "sorter_inv S s" and f: "frame_of_stream S f" and push: "Push f s = Inr s'"
    and head: "Head s = Some g"
  shows "\<exists>g'. Head s' = Some g' \<and> sf_Data g' = sf_Data g"
proof -
  have small: "length S < 2 ^ 62 - 1" using inv by (simp add: sorter_inv_def)
  have sl: "slice S f" using f by (simp add: frame_of_stream_def)
  note zero = DataLen_zero [OF sl small] and g = queued_frame [OF inv head [unfolded Head_def]]
  show ?thesis
  proof (cases "sf_Data f = []")
    case True
    with push zero f have s': "s' = s\<lparr>queuedFrames := (queuedFrames s)(sf_Offset f \<mapsto> f)\<rparr>"
      and at_end: "lo f = length S"
      by (auto simp: Push_def frame_of_stream_def split: if_splits)
    show ?thesis
    proof (cases "sf_Offset f = readPosition s")
      case same: True
      with g(1,2) at_end have "sf_Data g = []" by (simp add: slice_def)
      with same True show ?thesis by (simp add: Head_def s')
    next
      case False
      with head show ?thesis by (simp add: Head_def s')
    qed
  next
    case False
    then have nz: "DataLen f \<noteq> 0" using zero by simp
    show ?thesis
    proof (cases "queuedFrames s (sf_Offset f)")
      case None
      then have "push_data f s = Inr s'" using push nz by (simp add: Push_def)
      from push_data_keeps_head [OF inv sl False no_gap_ends_at [OF inv sl False None] this head] show ?thesis by simp
    next
      case (Some old)
      with push nz have longer: "\<not> DataLen f \<le> DataLen old"
        and p: "push_data (f\<lparr>sf_Data := drop (length (sf_Data old)) (sf_Data f),
                  sf_Offset := sf_Offset f + DataLen old\<rparr>) s = Inr s'"
        by (auto simp: Push_def split: if_splits)
      from push_data_keeps_head [OF inv rest_of_frame(1-3) [OF inv sl Some longer] p head] show ?thesis by simp
    qed
  qed
qed

subsection \<open>The invariant of a run\<close>

definition read_stopped :: "receiveStream \<Rightarrow> bool" where
  "read_stopped s \<longleftrightarrow> rs_closedForShutdown s \<or> canceledRead s \<or> resetRemotely s"

text \<open>The bytes \<open>g\<close> that were read are those before \<open>readOffset\<close>, which stands at the head of the queue
  or inside of its first frame.\<close>

definition recv_core :: "byte list \<Rightarrow> nat set \<Rightarrow> byte list \<Rightarrow> receiveStream \<Rightarrow> bool" where
  "recv_core S A g s \<longleftrightarrow>
     sorter_inv S (frameQueue s) \<and> missing (gaps (frameQueue s)) = {0..<2 ^ 62 - 1} - A
     \<and> g = take (unat (readOffset s)) S
     \<and> (readOffset s = readPosition (frameQueue s)
        \<or> (\<exists>f. Head (frameQueue s) = Some f \<and> unat (readPosition (frameQueue s)) \<le> unat (readOffset s)
             \<and> unat (readOffset s) < unat (readPosition (frameQueue s)) + length (sf_Data f)))"

text \<open>A call that waits without a signal has nothing to read and no reason to return; a call that
  copies does so within the bounds of the frame at the head of the queue.\<close>

fun phase_ok :: "byte list \<Rightarrow> receiveStream \<Rightarrow> read_phase \<Rightarrow> bool" where
  "phase_ok S s R_idle \<longleftrightarrow> True"
| "phase_ok S s (R_wait n k) \<longleftrightarrow>
     k < n \<and> (\<not> readChan s \<longrightarrow> Head (frameQueue s) = None \<and> \<not> read_stopped s)"
| "phase_ok S s (R_copy n k f) \<longleftrightarrow>
     k < n \<and> slice S f \<and> sf_Offset f = readPosition (frameQueue s)
     \<and> (\<exists>g. Head (frameQueue s) = Some g \<and> sf_Data g = sf_Data f)
     \<and> readPosInFrame s = int (unat (readOffset s)) - int (lo f)"

lemma recv_core_cong:
  "recv_core S A g s \<Longrightarrow> frameQueue s' = frameQueue s \<Longrightarrow> readOffset s' = readOffset s \<Longrightarrow> recv_core S A g s'"
  by (simp add: recv_core_def)

lemma phase_ok_cong:
  "phase_ok S s ph \<Longrightarrow> frameQueue s' = frameQueue s \<Longrightarrow> readOffset s' = readOffset s
   \<Longrightarrow> readPosInFrame s' = readPosInFrame s \<Longrightarrow> readChan s' \<or> readChan s' = readChan s \<and> read_stopped s' = read_stopped s
   \<Longrightarrow> phase_ok S s' ph"
  by (cases ph) auto

lemma read_offset_bounds:
  assumes "recv_core S A g s"
  shows "unat (readPosition (frameQueue s)) \<le> unat (readOffset s)" "unat (readOffset s) \<le> length S"
    "length S < 2 ^ 62 - 1"
proof -
  have i: "sorter_inv S (frameQueue s)" using assms by (simp add: recv_core_def)
  then show "length S < 2 ^ 62 - 1" by (simp add: sorter_inv_def)
  show "unat (readPosition (frameQueue s)) \<le> unat (readOffset s)" using assms by (auto simp: recv_core_def)
  show "unat (readOffset s) \<le> length S"
  proof (cases "readOffset s = readPosition (frameQueue s)")
    case True
    with i show ?thesis by (simp add: sorter_inv_def)
  next
    case False
    with assms obtain f where f: "Head (frameQueue s) = Some f"
      "unat (readOffset s) < unat (readPosition (frameQueue s)) + length (sf_Data f)"
      by (auto simp: recv_core_def)
    with queued_frame(1,2) [OF i f(1) [unfolded Head_def]] show ?thesis by (auto simp: slice_def)
  qed
qed

lemma Read_inner_ok:
  assumes core: "recv_core S A g s" and k: "k < n" and r: "Read_inner now (Head (frameQueue s)) s = (r, s')"
  shows "recv_core S A g s' \<and> phase_ok S s' (read_phase_of n k r)"
proof (cases r)
  case (ReadCopies f)
  then have h: "Head (frameQueue s) = Some f"
    and s': "s' = s\<lparr>readPosInFrame := sint (readOffset s - sf_Offset f)\<rparr>"
    using r by (auto simp: Read_inner_def split: if_splits option.splits)
  have inv: "sorter_inv S (frameQueue s)" using core by (simp add: recv_core_def)
  note f = queued_frame [OF inv h [unfolded Head_def]]
  note b = read_offset_bounds [OF core]
  have "unat (readOffset s - sf_Offset f) = unat (readOffset s) - lo f"
    using b(1) f(1) by (simp add: unat_sub64)
  moreover from this have "sint (readOffset s - sf_Offset f) = int (unat (readOffset s - sf_Offset f))"
    using b by (intro sint_small) simp
  ultimately have "sint (readOffset s - sf_Offset f) = int (unat (readOffset s)) - int (lo f)"
    using b(1) f(1) by simp
  then show ?thesis using recv_core_cong [OF core] h f(1,2) k by (simp add: s' ReadCopies)
qed (use assms in \<open>auto simp: Read_inner_def read_stopped_def split: if_splits option.splits\<close>)

lemma Read_outer_ok:
  assumes "recv_core S A g s" "Read_outer now n k s = (r, s')"
  shows "recv_core S A g s' \<and> phase_ok S s' (read_phase_of n k r)"
  using assms Read_inner_ok [OF assms(1)] by (auto simp: Read_outer_def Let_def split: if_splits)

lemma Read_begin_ok:
  assumes "recv_core S A g s" "Read_begin now n s = (r, s')"
  shows "recv_core S A g s' \<and> phase_ok S s' (read_phase_of n 0 r)"
  using assms Read_outer_ok [OF assms(1)] by (auto simp: Read_begin_def split: if_splits)

lemma Read_wake_ok:
  assumes core: "recv_core S A g s" and ph: "phase_ok S s (R_wait n k)" and r: "Read_wake now s = Some (r, s')"
  shows "recv_core S A g s' \<and> phase_ok S s' (read_phase_of n k r)"
proof -
  have k: "k < n" using ph by simp
  show ?thesis
  proof (cases "readChan s")
    case True
    then have "Read_inner now (Head (frameQueue (s\<lparr>readChan := False\<rparr>))) (s\<lparr>readChan := False\<rparr>) = (r, s')"
      using r by (simp add: Read_wake_def Let_def)
    from Read_inner_ok [OF recv_core_cong [OF core] k this] show ?thesis by simp
  next
    case False
    then have "Read_inner now (Head (frameQueue s)) s = (r, s')"
      using r by (simp add: Read_wake_def split: if_splits)
    from Read_inner_ok [OF core k this] show ?thesis .
  qed
qed

text \<open>The copy and what follows it. The checks the code calls bugs do not fail.\<close>

lemma Read_finish_ok:
  assumes core: "recv_core S A g s" and ph: "phase_ok S s (R_copy n k f)"
    and fin: "Read_finish now n k f s fc conn = (r, s', fc', conn', calls)"
  defines "d \<equiv> Read_copied n k f s"
  shows "recv_core S A (g @ d) s' \<and> phase_ok S s' (read_phase_of n (k + length d) r)"
proof -
  let ?q = "frameQueue s" and ?L = "length (sf_Data f)"
  from core have inv: "sorter_inv S ?q" and M: "missing (gaps ?q) = {0..<2 ^ 62 - 1} - A"
    and g: "g = take (unat (readOffset s)) S"
    by (auto simp: recv_core_def)
  from ph obtain f' where k: "k < n" and sl: "slice S f" and off: "sf_Offset f = readPosition ?q"
    and h: "Head ?q = Some f'" "sf_Data f' = sf_Data f"
    and pos: "readPosInFrame s = int (unat (readOffset s)) - int (lo f)" by auto
  note b = read_offset_bounds [OF core]
  define p where "p = unat (readOffset s) - lo f"
  have p: "readPosInFrame s = int p" "unat (readOffset s) = lo f + p"
    using pos b(1) off by (simp_all add: p_def)
  have pL: "p \<le> ?L" using core h b off by (auto simp: recv_core_def p_def)
  have hiS: "hi f \<le> length S" using sl by (simp add: slice_def)
  have d: "d = take (n - k) (drop p (sf_Data f))" by (simp add: d_def Read_copied_def p(1))
  then have ld: "length d = min (n - k) (?L - p)" by simp
  have dS: "d = take (length d) (drop (lo f + p) S)"
  proof -
    have "sf_Data f = take ?L (drop (lo f) S)" using sl by (simp add: slice_def)
    then have "drop p (sf_Data f) = take (?L - p) (drop (lo f + p) S)"
      by (metis add.commute drop_drop drop_take)
    then show ?thesis unfolding ld by (simp add: d min.commute)
  qed
  have m: "min (int n - int k) (int ?L - readPosInFrame s) = int (length d)"
    using k pL by (simp add: ld p(1) of_nat_diff)
  have ro: "unat (readOffset s + of_nat (length d)) = lo f + p + length d"
  proof -
    have "length d \<le> ?L - p" by (simp add: ld)
    then have "lo f + p + length d < 2 ^ 62" using b(3) pL hiS by linarith
    then show ?thesis by (subst unat_plus_of_nat) (simp_all add: p(2))
  qed
  have g': "g @ d = take (unat (readOffset s + of_nat (length d))) S"
    using dS by (simp add: g ro p(2) take_add)
  define s1 where "s1 = s\<lparr>readPosInFrame := int (p + length d), readOffset := readOffset s + of_nat (length d)\<rparr>"
  have fin': "\<exists>fc1 conn1 calls1. (r, s', fc', conn', calls) =
     (if p + length d \<ge> ?L then
        (if sf_FinBit f
         then (ReadReturns (Some EOF), s1\<lparr>frameQueue := snd (Pop ?q), finRead := sf_FinBit f\<rparr>, fc1, conn1, calls1)
         else (fst (Read_outer now n (k + length d) (s1\<lparr>frameQueue := snd (Pop ?q), finRead := sf_FinBit f\<rparr>)),
               snd (Read_outer now n (k + length d) (s1\<lparr>frameQueue := snd (Pop ?q), finRead := sf_FinBit f\<rparr>)),
               fc1, conn1, calls1))
      else (fst (Read_outer now n (k + length d) s1), snd (Read_outer now n (k + length d) s1), fc1, conn1, calls1))"
    unfolding fin [symmetric] Read_finish_def Let_def m
    using k pL
    by (simp add: p(1) s1_def split: prod.split)
  have copied: "recv_core S A (g @ d) s1" if "\<not> ?L \<le> p + length d"
    using core that h off p(2) ro g' b(1) unfolding recv_core_def s1_def by simp
  have popped: "recv_core S A (g @ d) (s1\<lparr>frameQueue := snd (Pop ?q), finRead := x\<rparr>)" if "?L \<le> p + length d" for x
  proof -
    have P: "Pop ?q = (Some f', snd (Pop ?q))" using h by (simp add: Pop_def)
    note pop = Pop_ok [OF inv P]
    have "unat (readPosition (snd (Pop ?q))) = unat (readOffset s + of_nat (length d))"
      using pop(3,5) h off ro that pL ld by simp
    then have "readOffset s + of_nat (length d) = readPosition (snd (Pop ?q))" by (simp add: word_unat_eq_iff)
    then show ?thesis using pop(1,2) M g' unfolding recv_core_def s1_def by simp
  qed
  show ?thesis
  proof (cases "?L \<le> p + length d")
    case True
    show ?thesis
    proof (cases "sf_FinBit f")
      case fb: True
      then show ?thesis using fin' True popped [OF True, of "sf_FinBit f"] by auto
    next
      case False
      then show ?thesis
        using fin' True Read_outer_ok [OF popped [OF True, of "sf_FinBit f"] prod.collapse [symmetric], of now n "k + length d"]
        by auto
    qed
  next
    case False
    then show ?thesis using fin' Read_outer_ok [OF copied [OF False] prod.collapse [symmetric], of now n "k + length d"] by auto
  qed
qed

subsection \<open>Every step keeps the invariant\<close>

lemma missing_step: "A' = A \<union> B \<Longrightarrow> M = {0..<n :: nat} - A \<Longrightarrow> M - B = {0..<n} - A'"
  by blast

lemma handleStreamFrame_ok:
  assumes core: "recv_core S (arrived st) (got st) (rstr st)" and ph: "phase_ok S (rstr st) (reading st)"
    and f: "frame_of_stream S f" and h: "handleStreamFrame f (rstr st) fc conn = (None, s', fc', conn')"
  shows "recv_core S (arrived st \<union> {lo f..<hi f}) (got st) s' \<and> phase_ok S s' (reading st)"
proof -
  let ?s = "rstr st" and ?A = "arrived st \<union> {lo f..<hi f}"
  let ?q = "frameQueue ?s"
  have inv: "sorter_inv S ?q" and M: "missing (gaps ?q) = {0..<2 ^ 62 - 1} - arrived st"
    using core by (auto simp: recv_core_def)
  consider (dup) "Push f ?q = Inl errDuplicateStreamData" "s' = signalRead ?s"
    | (new) q where "Push f ?q = Inr q" "s' = signalRead (?s\<lparr>frameQueue := q\<rparr>)"
    using h by (auto simp: handleStreamFrame_def Let_def split: sum.splits if_splits prod.splits)
  then show ?thesis
  proof cases
    case dup
    from Push_error [OF inv f dup(1)] have "{lo f..<hi f} \<inter> missing (gaps ?q) = {}"
      using error_neq by blast
    then have "missing (gaps ?q) = {0..<2 ^ 62 - 1} - ?A" using M by blast
    with core have "recv_core S ?A (got st) s'" by (simp add: recv_core_def dup(2) signalRead_def)
    moreover have "phase_ok S s' (reading st)" by (rule phase_ok_cong [OF ph]) (simp_all add: dup(2) signalRead_def)
    ultimately show ?thesis by simp
  next
    case new
    note p = Push_ok [OF inv f new(1)]
    have "missing (gaps q) = {0..<2 ^ 62 - 1} - ?A" using p M by (metis missing_step)
    moreover have "\<exists>g'. Head q = Some g' \<and> sf_Data g' = sf_Data g" if "Head ?q = Some g" for g
      by (rule Push_keeps_head [OF inv f new(1) that])
    ultimately have "recv_core S ?A (got st) s'"
      using core p unfolding recv_core_def new(2) signalRead_def by fastforce
    moreover have "phase_ok S s' (reading st)"
      using ph p Push_keeps_head [OF inv f new(1)]
      by (cases "reading st") (fastforce simp: new(2) signalRead_def)+
    ultimately show ?thesis by simp
  qed
qed

lemma recv_run_ok:
  assumes "recv_run F sid v st" "\<forall>f. F f \<longrightarrow> frame_of_stream S f" "length S < 2 ^ 62 - 1"
  shows "recv_core S (arrived st) (got st) (rstr st) \<and> phase_ok S (rstr st) (reading st)"
  using assms(1)
proof (induction rule: recv_run.induct)
  case (start fc c)
  from sorter_inv_start [OF assms(3)] have "sorter_inv S newStreamFrameSorter" .
  moreover have "missing (gaps newStreamFrameSorter) = {0..<2 ^ 62 - 1}"
    by (simp add: newStreamFrameSorter_def MaxByteCount_def push_bit_eq_mult)
  moreover have "readPosition newStreamFrameSorter = 0" by (simp add: newStreamFrameSorter_def)
  ultimately show ?case by (simp add: newReceiveStream_def recv_core_def)
next
  case (frame st f s' fc' c')
  from handleStreamFrame_ok [OF _ _ _ frame.hyps(3)] frame.IH assms(2) frame.hyps(2) show ?case by simp
next
  case (reset st g s' fc' c' calls)
  then have "frameQueue s' = frameQueue (rstr st)" "readOffset s' = readOffset (rstr st)"
    "readPosInFrame s' = readPosInFrame (rstr st)" "readChan s' \<or> s' = rstr st"
    by (auto simp: recv_handleRstStreamFrame_def signalRead_def split: if_splits prod.splits)
  with reset.IH show ?case by (auto intro: recv_core_cong phase_ok_cong)
next
  case (cancel st code s' calls)
  then have "frameQueue s' = frameQueue (rstr st)" "readOffset s' = readOffset (rstr st)"
    "readPosInFrame s' = readPosInFrame (rstr st)" "readChan s' \<or> s' = rstr st"
    by (auto simp: CancelRead_def signalRead_def split: if_splits)
  with cancel.IH show ?case by (auto intro: recv_core_cong phase_ok_cong)
next
  case (deadline st t)
  have "recv_core S (arrived st) (got st) (SetReadDeadline t (rstr st))"
    by (rule recv_core_cong [OF conjunct1 [OF deadline.IH]])
       (auto simp: SetReadDeadline_def Let_def signalRead_def split: option.splits)
  moreover have "phase_ok S (SetReadDeadline t (rstr st)) (reading st)"
    by (rule phase_ok_cong [OF conjunct2 [OF deadline.IH]])
       (auto simp: SetReadDeadline_def Let_def signalRead_def read_stopped_def split: option.splits)
  ultimately show ?case by simp
next
  case (shutdown st err)
  have "recv_core S (arrived st) (got st) (recv_closeForShutdown err (rstr st))"
    by (rule recv_core_cong [OF conjunct1 [OF shutdown.IH]]) (simp_all add: recv_closeForShutdown_def signalRead_def)
  moreover have "phase_ok S (recv_closeForShutdown err (rstr st)) (reading st)"
    by (rule phase_ok_cong [OF conjunct2 [OF shutdown.IH]]) (simp_all add: recv_closeForShutdown_def signalRead_def)
  ultimately show ?case by simp
next
  case (environment st fc' c')
  then show ?case by simp
next
  case (read st now n r s')
  from Read_begin_ok [OF conjunct1 [OF read.IH] read.hyps(3)] show ?case by simp
next
  case (wake st n k now r s')
  have "phase_ok S (rstr st) (R_wait n k)" using wake.IH wake.hyps(2) by simp
  from Read_wake_ok [OF conjunct1 [OF wake.IH] this wake.hyps(3)] show ?case by simp
next
  case (copy st n k f now r s' fc' c' calls)
  have "phase_ok S (rstr st) (R_copy n k f)" using copy.IH copy.hyps(2) by simp
  from Read_finish_ok [OF conjunct1 [OF copy.IH] this copy.hyps(3)] show ?case by simp
qed

subsection \<open>What the receiving half promises\<close>

text \<open>C24: In every run, whatever frames of a stream arrive in whatever order, and however they
  interleave with the steps of \<open>Read\<close>: the bytes that were read are a prefix of the stream; a call that
  waits and was not signalled waits for a byte that did not arrive, on a stream that was not stopped
  (no wake-up is lost); and a call that copies does so at a position inside its frame, so the checks
  that the code calls bugs never fail.\<close>

theorem reads_are_a_prefix:
  assumes run: "recv_run F sid v st" and frames: "\<forall>f. F f \<longrightarrow> frame_of_stream S f" "length S < 2 ^ 62 - 1"
  shows "got st = take (length (got st)) S
    \<and> (case reading st of
         R_idle \<Rightarrow> True
       | R_wait n k \<Rightarrow> readChan (rstr st) \<or> length (got st) \<notin> arrived st \<and> \<not> read_stopped (rstr st)
       | R_copy n k f \<Rightarrow> k < n \<and> 0 \<le> readPosInFrame (rstr st)
                         \<and> readPosInFrame (rstr st) \<le> int (length (sf_Data f)))"
proof -
  let ?s = "rstr st"
  from recv_run_ok [OF run frames] have core: "recv_core S (arrived st) (got st) ?s"
    and ph: "phase_ok S ?s (reading st)" by simp_all
  note b = read_offset_bounds [OF core]
  have inv: "sorter_inv S (frameQueue ?s)" and M: "missing (gaps (frameQueue ?s)) = {0..<2 ^ 62 - 1} - arrived st"
    and g: "got st = take (unat (readOffset ?s)) S" using core by (auto simp: recv_core_def)
  have len: "length (got st) = unat (readOffset ?s)" using b g by simp
  have wait: "length (got st) \<notin> arrived st" if "Head (frameQueue ?s) = None"
    using Head_None [OF inv that] core that M len by (auto simp: recv_core_def)
  show ?thesis
  proof (cases "reading st")
    case (R_wait n k)
    then show ?thesis using ph wait g len by auto
  next
    case (R_copy n k f)
    with ph obtain h where k: "k < n" and h: "Head (frameQueue ?s) = Some h" "sf_Data h = sf_Data f"
      and p: "readPosInFrame ?s = int (unat (readOffset ?s)) - int (lo f)" "sf_Offset f = readPosition (frameQueue ?s)"
      by auto
    have "unat (readOffset ?s) \<le> lo f + length (sf_Data f)" using core h p(2) by (auto simp: recv_core_def)
    then have "0 \<le> readPosInFrame ?s" "readPosInFrame ?s \<le> int (length (sf_Data f))"
      using b(1) p(1) arg_cong [OF p(2), of unat] by linarith+
    with k g len R_copy show ?thesis by simp
  qed (use g len in simp)
qed

text \<open>The frames that reach the peer: those the sender popped, on the way cut in two when they are
  retransmitted, and written with or without a length.\<close>

inductive carried :: "VersionNumber \<Rightarrow> StreamFrame list \<Rightarrow> StreamFrame \<Rightarrow> bool" for v fs where
  sent: "f \<in> set fs \<Longrightarrow> carried v fs f"
| split_first: "carried v fs f \<Longrightarrow> StreamFrame_wf v f \<Longrightarrow> unat maxSize \<le> 16384
    \<Longrightarrow> MaybeSplitOffFrame f maxSize v = Inr (Some g, f') \<Longrightarrow> carried v fs g"
| split_rest: "carried v fs f \<Longrightarrow> StreamFrame_wf v f \<Longrightarrow> unat maxSize \<le> 16384
    \<Longrightarrow> MaybeSplitOffFrame f maxSize v = Inr (Some g, f') \<Longrightarrow> carried v fs f'"
| length_flag: "carried v fs f \<Longrightarrow> carried v fs (f\<lparr>sf_DataLenPresent := b\<rparr>)"

lemma split_slices:
  assumes "frame_of_stream S f" "StreamFrame_wf v f" "unat maxSize \<le> 16384"
    and "MaybeSplitOffFrame f maxSize v = Inr (Some g, f')"
  shows "frame_of_stream S g \<and> frame_of_stream S f'"
proof -
  note s = MaybeSplitOffFrame_sound [OF assms(2-4)]
  have sl: "hi f \<le> length S" "sf_Data f = take (length (sf_Data f)) (drop (lo f) S)"
    using assms(1) by (simp_all add: frame_of_stream_def slice_def)
  have len: "length (sf_Data f) = length (sf_Data g) + length (sf_Data f')" by (simp flip: s(1))
  have "sf_Data g = take (length (sf_Data g)) (sf_Data f)" "sf_Data f' = drop (length (sf_Data g)) (sf_Data f)"
    by (simp_all flip: s(1))
  then have "sf_Data g = take (length (sf_Data g)) (drop (lo g) S)"
    "sf_Data f' = take (length (sf_Data f')) (drop (lo f') S)"
    using sl(2) len s(4,5) by (metis le_add1 min.absorb1 take_take, metis add.commute add_diff_cancel_left' drop_drop drop_take)
  then show ?thesis
    using assms(1) s sl(1) len by (auto simp: frame_of_stream_def slice_def)
qed

lemma carried_slices:
  "carried v fs f \<Longrightarrow> \<forall>g \<in> set fs. frame_of_stream S g \<Longrightarrow> frame_of_stream S f"
proof (induction rule: carried.induct)
  case (length_flag f b)
  then show ?case by (simp add: frame_of_stream_def slice_def)
qed (use split_slices in blast)+

text \<open>C1: From end to end: whatever the network does with the frames of a stream, and however the
  session splits them, what the calls of \<open>Read\<close> on one side copied is a prefix of what was sent; and
  unless the sender gave the stream up, of what the calls of \<open>Write\<close> on the other side reported as
  written, followed by what the call that waits was given.\<close>

theorem stream_is_reliable:
  assumes "send_run sid v sn" "recv_run (carried v (popped sn)) sid v rcv"
  shows "got rcv = take (length (got rcv)) (sent sn)
    \<and> (given_up (str sn)
       \<or> got rcv = take (length (got rcv)) (accepted sn @ (case writing sn of None \<Rightarrow> [] | Some p \<Rightarrow> p)))"
proof -
  have inv: "send_inv sid v sn" using assms(1) by (rule send_run_inv)
  then have fr: "\<forall>f \<in> set (popped sn). frame_of_stream (sent sn) f" and len: "length (sent sn) < 2 ^ 62 - 1"
    by (auto simp: send_inv_def)
  have F: "\<forall>f. carried v (popped sn) f \<longrightarrow> frame_of_stream (sent sn) f" using carried_slices fr by blast
  from recv_run_ok [OF assms(2) F len] have core: "recv_core (sent sn) (arrived rcv) (got rcv) (rstr rcv)" ..
  then have p: "got rcv = take (length (got rcv)) (sent sn)"
    using read_offset_bounds [OF core] by (auto simp: recv_core_def)
  have "\<exists>k. sent sn = accepted sn @ take k (case writing sn of None \<Rightarrow> [] | Some p \<Rightarrow> p)"
    if "\<not> given_up (str sn)"
    using inv that by (cases "writing sn") (auto simp: send_inv_def)
  moreover have "got rcv = take (length (got rcv)) (sent sn @ t)" for t
  proof -
    have "length (got rcv) \<le> length (sent sn)" using p by (metis length_take min.cobounded2 min.commute)
    then show ?thesis using p by simp
  qed
  ultimately show ?thesis using p by (metis append.assoc append_take_drop_id)
qed

subsection \<open>A stream of three bytes, and its end\<close>

abbreviation "whole_frame \<equiv> example_frame True 0 [1, 2, 3]"
abbreviation "rest_frame \<equiv> example_frame True 1 [2, 3]"

lemma example_closed:
  "\<exists>sn. send_run 5 VersionTLS sn \<and> popped sn = [whole_frame] \<and> \<not> given_up (str sn)
     \<and> accepted sn = [] \<and> writing sn = Some [1, 2, 3]"
proof -
  define s1 where "s1 = (str example_waiting)\<lparr>finishedWriting := True\<rparr>"
  have c: "send_Close (str example_waiting) = (None, s1, [onHasStreamData 5])"
    by (simp add: send_Close_def s1_def example_waiting_def newSendStream_def)
  have r: "send_run 5 VersionTLS (example_waiting\<lparr>str := s1\<rparr>)"
    by (rule send_run.close [OF example_waiting_run c])
  have "\<exists>s' fc' c' calls. popStreamFrame 100 s1 example_fc example_conn = Inr ((Some whole_frame, False), s', fc', c', calls)
      \<and> \<not> given_up s'"
    by (simp add: pop_eval s1_def example_waiting_def example_fc_def example_frame_def given_up_def)
  then obtain s' fc' c' calls where
    p: "popStreamFrame 100 s1 example_fc example_conn = Inr ((Some whole_frame, False), s', fc', c', calls)"
      "\<not> given_up s'" by blast
  have "send_run 5 VersionTLS (example_waiting\<lparr>str := s', sfc := fc', sconn := c', popped := [whole_frame]\<rparr>)"
    using send_run.pop [OF r, of 100 "Some whole_frame" False s' fc' c' calls] p(1)
    by (simp add: example_waiting_def)
  then show ?thesis using p(2) by (intro exI [of _ "example_waiting\<lparr>str := s', sfc := fc', sconn := c', popped := [whole_frame]\<rparr>"])
      (simp add: example_waiting_def)
qed

lemma rest_is_carried: "carried VersionTLS [whole_frame] rest_frame"
proof (rule carried.split_rest)
  show "carried VersionTLS [whole_frame] whole_frame" by (rule carried.sent) simp
  show "StreamFrame_wf VersionTLS whole_frame"
    by (simp add: StreamFrame_wf_def example_frame_def UsesIETFFrameFormat_def version_defs word_le_nat_alt)
  show "unat (4 :: ByteCount) \<le> 16384" by simp
  show "MaybeSplitOffFrame whole_frame 4 VersionTLS = Inr (Some (example_frame False 0 [1]), rest_frame)"
    by (simp add: MaybeSplitOffFrame_def StreamFrame_Length_def MaxDataLen_def DataLen_def VarIntLen_def
        UsesIETFFrameFormat_def version_defs example_frame_def ebind_Inr_iff word_le_nat_alt word_less_nat_alt)
qed

definition example_receiving :: receiveStream where
  "example_receiving = (newReceiveStream 5 VersionTLS)\<lparr>readChan := True,
     frameQueue := example_sorter\<lparr>queuedFrames := (queuedFrames example_sorter)(0 \<mapsto> example_frame True 0 [1]),
                                  gaps := [\<lparr>bi_Start = 3, bi_End = MaxByteCount\<rparr>]\<rparr>\<rparr>"

text \<open>Both frames arrive, the second half first.\<close>

lemma example_receiving_run:
  assumes "F whole_frame" "F rest_frame"
  shows "\<exists>fc c. recv_run F 5 VersionTLS \<lparr>rstr = example_receiving, rfc = fc, rconn = c, arrived = {0..<3},
                                         got = [], reading = R_idle\<rparr>"
proof -
  have f1: "\<exists>fc c. handleStreamFrame rest_frame (newReceiveStream 5 VersionTLS) example_fc example_conn
     = (None, (newReceiveStream 5 VersionTLS)\<lparr>readChan := True, frameQueue := example_sorter\<rparr>, fc, c)
     \<and> highestReceived fc = 3 \<and> receivedFinalOffset fc"
    using example_push
    by (simp add: handleStreamFrame_def UpdateHighestReceived_def example_fc_def NewStreamFlowController_def
        example_conn_def NewConnectionFlowController_def checkFlowControlViolation_def IncrementHighestReceived_def
        DataLen_def newReceiveStream_def signalRead_def Let_def example_frame_def word_less_nat_alt word_le_nat_alt)
  then obtain fc c where f1: "handleStreamFrame rest_frame (newReceiveStream 5 VersionTLS) example_fc example_conn
     = (None, (newReceiveStream 5 VersionTLS)\<lparr>readChan := True, frameQueue := example_sorter\<rparr>, fc, c)"
    "highestReceived fc = 3" "receivedFinalOffset fc" by blast
  have f2: "handleStreamFrame whole_frame ((newReceiveStream 5 VersionTLS)\<lparr>readChan := True, frameQueue := example_sorter\<rparr>) fc c
     = (None, example_receiving, fc, c)"
    using f1(2,3)
    by (simp add: handleStreamFrame_def UpdateHighestReceived_def sorter_eval example_sorter_def example_receiving_def
        signalRead_def newReceiveStream_def)
  note start = recv_run.start [of F 5 VersionTLS example_fc example_conn]
  have "recv_run F 5 VersionTLS \<lparr>rstr = (newReceiveStream 5 VersionTLS)\<lparr>readChan := True, frameQueue := example_sorter\<rparr>,
      rfc = fc, rconn = c, arrived = {1..<3}, got = [], reading = R_idle\<rparr>"
    using recv_run.frame [OF start assms(2), of _ fc c] f1(1) example_bytes(1) by simp
  from recv_run.frame [OF this assms(1), of example_receiving fc c] f2 example_bytes(2)
  show ?thesis by auto
qed

text \<open>\<open>Read\<close> takes the first byte out of the frame that was cut, and its FIN bit for the end of the stream.\<close>

lemma example_reads:
  assumes "F whole_frame" "F rest_frame"
  shows "\<exists>rcv :: recv_net. recv_run F 5 VersionTLS rcv \<and> arrived rcv = {0..<3} \<and> got rcv = [1] \<and> reading rcv = R_idle
    \<and> finRead (rstr rcv)"
proof -
  obtain fc c where r: "recv_run F 5 VersionTLS \<lparr>rstr = example_receiving, rfc = fc, rconn = c, arrived = {0..<3},
      got = [], reading = R_idle\<rparr>"
    using example_receiving_run [OF assms] by blast
  let ?f = "example_frame True 0 [1]"
  have b: "Read_begin 0 10 example_receiving = (ReadCopies ?f, example_receiving)"
    by (simp add: Read_begin_def Read_outer_def Read_inner_def Head_def example_receiving_def example_sorter_def
        newReceiveStream_def deadline_passed_def example_frame_def)
  have r1: "recv_run F 5 VersionTLS \<lparr>rstr = example_receiving, rfc = fc, rconn = c, arrived = {0..<3},
      got = [], reading = R_copy 10 0 ?f\<rparr>"
    using recv_run.read [OF r, of 0 10 "ReadCopies ?f" example_receiving] b by simp
  have d: "Read_copied 10 0 ?f example_receiving = [1]"
    by (simp add: Read_copied_def example_receiving_def newReceiveStream_def example_frame_def)
  have "\<exists>s' fc' c' calls. Read_finish 0 10 0 ?f example_receiving fc c = (ReadReturns (Some EOF), s', fc', c', calls) \<and> finRead s'"
    by (simp add: Read_finish_def example_receiving_def newReceiveStream_def example_frame_def Let_def split: prod.split)
  then obtain s' fc' c' calls where
    f: "Read_finish 0 10 0 ?f example_receiving fc c = (ReadReturns (Some EOF), s', fc', c', calls)" "finRead s'"
    by blast
  have "recv_run F 5 VersionTLS \<lparr>rstr = s', rfc = fc', rconn = c', arrived = {0..<3}, got = [1], reading = R_idle\<rparr>"
    using recv_run.copy [OF r1, of 10 0 ?f 0 "ReadReturns (Some EOF)" s' fc' c' calls] f(1) d by simp
  then show ?thesis using f(2)
    by (intro exI [of _ "\<lparr>rstr = s', rfc = fc', rconn = c', arrived = {0..<3}, got = [1], reading = R_idle\<rparr>"]) simp
qed

theorem reads_are_a_prefix_witness:
  "\<exists>rcv :: recv_net. recv_run (\<lambda>f. f \<in> {whole_frame, rest_frame}) 5 VersionTLS rcv \<and> got rcv = [1]
     \<and> got rcv = take (length (got rcv)) [1, 2, 3]"
proof -
  obtain rcv where r: "recv_run (\<lambda>f. f \<in> {whole_frame, rest_frame}) 5 VersionTLS rcv" "got rcv = [1]"
    using example_reads [of "\<lambda>f. f \<in> {whole_frame, rest_frame}"] by auto
  have "\<forall>f. f \<in> {whole_frame, rest_frame} \<longrightarrow> frame_of_stream [1, 2, 3] f" using example_frames by simp
  moreover have "length [1, 2, 3 :: byte] < 2 ^ 62 - 1" by simp
  ultimately have "got rcv = take (length (got rcv)) [1, 2, 3]" using reads_are_a_prefix [OF r(1)] by blast
  with r show ?thesis by blast
qed

lemma example_transfer:
  "\<exists>sn (rcv :: recv_net). send_run 5 VersionTLS sn \<and> popped sn = [whole_frame] \<and> \<not> given_up (str sn)
     \<and> accepted sn = [] \<and> writing sn = Some [1, 2, 3]
     \<and> recv_run (carried VersionTLS (popped sn)) 5 VersionTLS rcv
     \<and> arrived rcv = {0..<3} \<and> got rcv = [1] \<and> reading rcv = R_idle \<and> finRead (rstr rcv)"
proof -
  obtain sn where s: "send_run 5 VersionTLS sn" "popped sn = [whole_frame]" "\<not> given_up (str sn)"
    "accepted sn = []" "writing sn = Some [1, 2, 3]" using example_closed by blast
  have "carried VersionTLS (popped sn) whole_frame" "carried VersionTLS (popped sn) rest_frame"
    using rest_is_carried by (simp_all add: s(2) carried.sent)
  from example_reads [of "carried VersionTLS (popped sn)", OF this] s show ?thesis by blast
qed

theorem stream_is_reliable_witness:
  "\<exists>sn (rcv :: recv_net). send_run 5 VersionTLS sn \<and> recv_run (carried VersionTLS (popped sn)) 5 VersionTLS rcv
     \<and> got rcv = [1] \<and> got rcv = take (length (got rcv)) (sent sn)"
proof -
  obtain sn rcv where r: "send_run 5 VersionTLS sn" "recv_run (carried VersionTLS (popped sn)) 5 VersionTLS rcv"
    "got rcv = [1]" using example_transfer by blast
  from stream_is_reliable [OF r(1,2)] r show ?thesis by blast
qed

text \<open>C25: The end of a stream can be reported before its data was read. \<open>Push\<close> cuts the end of a frame
  that reaches into data that is queued, but leaves the FIN bit on what remains. Of a frame of three
  bytes that ends the stream, the last two are retransmitted and arrive first; when the whole frame
  comes in, all bytes have arrived, and \<open>Read\<close> returns one of them with \<open>EOF\<close>.\<close>

theorem eof_before_the_end:
  "\<exists>sn (rcv :: recv_net). send_run 5 VersionTLS sn \<and> \<not> given_up (str sn) \<and> sent sn = [1, 2, 3]
     \<and> recv_run (carried VersionTLS (popped sn)) 5 VersionTLS rcv
     \<and> arrived rcv = {0..<3} \<and> finRead (rstr rcv) \<and> got rcv = [1]"
proof -
  obtain sn rcv where "send_run 5 VersionTLS sn" "popped sn = [whole_frame]" "\<not> given_up (str sn)"
    "recv_run (carried VersionTLS (popped sn)) 5 VersionTLS rcv" "arrived rcv = {0..<3}" "got rcv = [1]"
    "finRead (rstr rcv)" using example_transfer by blast
  moreover from this have "sent sn = [1, 2, 3]" by (simp add: sent_def example_frame_def)
  ultimately show ?thesis by blast
qed

end
