(* ===== verification/Go_Float.thy ===== *)
theory Go_Float
  imports Prelude "HOL-Library.Log_Nat"
begin

section \<open>The float32 of Go\<close>

text \<open>
  Arithmetic on \<open>float32\<close> is exact arithmetic on rationals followed by \<open>float32\<close>, which rounds to 24
  significant bits, to the nearest and ties to even. The code uses it on round-trip times in
  microseconds and congestion windows in packets, so the values are 0 or far from the smallest and the
  largest \<open>float32\<close>, and neither infinities nor subnormal numbers are modelled. A conversion to an
  integer truncates.
\<close>

definition round_even :: "rat \<Rightarrow> int" where
  "round_even x =
     (let f = \<lfloor>x\<rfloor>; d = x - of_int f
      in if d < 1 / 2 \<or> d = 1 / 2 \<and> even f then f else f + 1)"

text \<open>The exponent of the greatest power of two that is not above \<open>x\<close>.\<close>

definition binade :: "rat \<Rightarrow> int" where
  "binade x =
     (let (n, d) = quotient_of x; e = int (floorlog 2 (nat n)) - int (floorlog 2 (nat d))
      in if 2 powi e \<le> x then e else e - 1)"

definition float32 :: "rat \<Rightarrow> rat" where
  "float32 x =
     (if x = 0 then 0
      else let u = 2 powi (binade \<bar>x\<bar> - 23) in of_int (round_even (x / u)) * u)"

definition trunc :: "rat \<Rightarrow> int" where
  "trunc x = (if x < 0 then - \<lfloor>- x\<rfloor> else \<lfloor>x\<rfloor>)"

subsection \<open>Rounding\<close>

lemma round_even_error: "\<bar>of_int (round_even x) - x\<bar> \<le> 1 / 2"
proof -
  have "0 \<le> x - of_int \<lfloor>x\<rfloor>" "x - of_int \<lfloor>x\<rfloor> < 1" by linarith+
  then show ?thesis unfolding round_even_def Let_def by auto
qed

lemma round_even_int [simp]: "round_even (of_int n) = n"
  by (simp add: round_even_def Let_def)

lemma binade_bounds:
  assumes "0 < x"
  shows "2 powi (binade x) \<le> x" "x < 2 powi (binade x + 1)"
proof -
  obtain n d where q: "quotient_of x = (n, d)" by fastforce
  have d: "0 < d" by (rule quotient_of_denom_pos [OF q])
  have x: "x = of_int n / of_int d" by (rule quotient_of_div [OF q])
  have n: "0 < n" using assms d by (simp add: x zero_less_divide_iff)
  define a where "a = floorlog 2 (nat n)"
  define b where "b = floorlog 2 (nat d)"
  have "2 ^ (a - 1) \<le> nat n \<and> nat n < 2 ^ a" "2 ^ (b - 1) \<le> nat d \<and> nat d < 2 ^ b"
    unfolding a_def b_def by (rule floorlog_bounds; use n d in simp)+
  moreover have pos: "0 < a" "0 < b" using n d by (simp_all add: a_def b_def floorlog_def)
  ultimately have nb: "2 ^ (a - 1) \<le> n" "n < 2 ^ a" and db: "2 ^ (b - 1) \<le> d" "d < 2 ^ b"
    by (simp_all add: nat_less_iff le_nat_iff flip: of_nat_le_iff of_nat_less_iff)
  have p: "2 powi (int k - 1) * 2 = (2 :: rat) ^ k" for k
    by (simp add: power_int_diff power_int_of_nat)
  have N: "(2 :: rat) powi (int a - 1) \<le> of_int n" "of_int n < (2 :: rat) powi int a"
    and D: "(2 :: rat) powi (int b - 1) \<le> of_int d" "of_int d < (2 :: rat) powi int b"
    using nb db pos
    by (metis Suc_pred' of_int_le_iff of_int_numeral of_int_power of_nat_Suc add_diff_cancel_left'
        power_int_of_nat add.commute plus_1_eq_Suc of_int_less_iff)+
  have "2 powi (int a - int b - 1) \<le> x"
  proof -
    have "2 powi (int a - int b - 1) * of_int d \<le> 2 powi (int a - int b - 1) * (2 :: rat) powi int b"
      using D(2) by (intro mult_left_mono) simp_all
    also have "\<dots> = 2 powi (int a - 1)" by (subst power_int_add [symmetric]) simp_all
    also have "\<dots> \<le> of_int n" by (rule N(1))
    finally show ?thesis using d by (simp add: x pos_le_divide_eq)
  qed
  moreover have "x < 2 powi (int a - int b + 1)"
  proof -
    have "of_int n < (2 :: rat) powi int a" by (rule N(2))
    also have "\<dots> = 2 powi (int a - int b + 1) * 2 powi (int b - 1)"
      by (subst power_int_add [symmetric]) simp_all
    also have "\<dots> \<le> 2 powi (int a - int b + 1) * of_int d" using D(1) by (intro mult_left_mono) simp_all
    finally show ?thesis using d by (simp add: x pos_divide_less_eq)
  qed
  ultimately show "2 powi (binade x) \<le> x" "x < 2 powi (binade x + 1)"
    by (auto simp: binade_def q a_def [symmetric] b_def [symmetric] Let_def)
qed

text \<open>The error is at most one part in \<open>2 ^ 24\<close>; integers of at most 24 bits are exact.\<close>

lemma float32_error: "\<bar>float32 x - x\<bar> \<le> \<bar>x\<bar> / 2 ^ 24"
proof (cases "x = 0")
  case False
  define u :: rat where "u = 2 powi (binade \<bar>x\<bar> - 23)"
  have u: "0 < u" by (simp add: u_def)
  have "u * 2 ^ 23 = 2 powi (binade \<bar>x\<bar>)"
    by (simp add: u_def power_int_diff)
  also have "\<dots> \<le> \<bar>x\<bar>" using False by (intro binade_bounds) simp
  finally have ux: "u * 2 ^ 23 \<le> \<bar>x\<bar>" .
  have "float32 x - x = (of_int (round_even (x / u)) - x / u) * u"
    using False u by (simp add: float32_def Let_def u_def [symmetric] algebra_simps)
  then have "\<bar>float32 x - x\<bar> = \<bar>of_int (round_even (x / u)) - x / u\<bar> * u"
    using u by (simp add: abs_mult)
  also have "\<dots> \<le> 1 / 2 * u" using u round_even_error [of "x / u"] by (intro mult_right_mono) simp_all
  also have "\<dots> \<le> \<bar>x\<bar> / 2 ^ 24" using ux by simp
  finally show ?thesis .
qed (simp add: float32_def)

lemma float32_nonneg: "0 \<le> x \<Longrightarrow> 0 \<le> float32 x"
proof -
  assume x: "0 \<le> x"
  have "\<bar>float32 x - x\<bar> \<le> x / 2 ^ 24" using float32_error [of x] x by simp
  moreover have "x / 2 ^ 24 \<le> x" using x by simp
  ultimately show ?thesis by linarith
qed

lemma float32_bounds:
  assumes "0 \<le> x"
  shows "x - x / 2 ^ 24 \<le> float32 x" "float32 x \<le> x + x / 2 ^ 24"
proof -
  have "\<bar>float32 x - x\<bar> \<le> x / 2 ^ 24" using float32_error [of x] assms by (simp only: abs_of_nonneg)
  then show "x - x / 2 ^ 24 \<le> float32 x" "float32 x \<le> x + x / 2 ^ 24" by linarith+
qed

lemma float32_int:
  assumes "\<bar>n\<bar> < 2 ^ 24"
  shows "float32 (of_int n) = of_int n"
proof (cases "n = 0")
  case False
  define x :: rat where "x = of_int n"
  define e where "e = binade \<bar>x\<bar>"
  have x: "0 < \<bar>x\<bar>" "\<bar>x\<bar> < 2 ^ 24" "1 \<le> \<bar>x\<bar>"
    using False assms by (simp_all add: x_def flip: of_int_abs)
  have e: "2 powi e \<le> \<bar>x\<bar>" "\<bar>x\<bar> < 2 powi (e + 1)" using binade_bounds [OF x(1)] by (simp_all add: e_def)
  have "e < 24"
  proof (rule ccontr)
    assume "\<not> e < 24"
    then have "(2 :: rat) powi 24 \<le> 2 powi e" by (intro power_int_increasing) simp_all
    with e x show False by simp
  qed
  define k where "k = nat (23 - e)"
  have k: "e - 23 = - int k" using \<open>e < 24\<close> by (simp add: k_def)
  have "x / 2 powi (e - 23) = of_int (n * 2 ^ k)"
    unfolding k by (simp add: x_def power_int_minus field_simps)
  then have "float32 x = of_int (n * 2 ^ k) * 2 powi (e - 23)"
    using x by (simp only: float32_def e_def [symmetric] Let_def round_even_int) auto
  also have "\<dots> = x" unfolding k by (simp add: x_def power_int_minus)
  finally show ?thesis by (simp add: x_def)
qed (simp add: float32_def)

lemma trunc_bounds: "0 \<le> x \<Longrightarrow> of_int (trunc x) \<le> x \<and> x < of_int (trunc x) + 1 \<and> 0 \<le> trunc x"
  by (simp add: trunc_def) linarith

lemma trunc_le: "0 \<le> x \<Longrightarrow> x < of_int n + 1 \<Longrightarrow> trunc x \<le> n"
  by (simp add: trunc_def) linarith

lemma le_trunc: "0 \<le> x \<Longrightarrow> of_int n \<le> x \<Longrightarrow> n \<le> trunc x"
  by (simp add: trunc_def le_floor_iff)

end
