(* ===== verification/Rtt_Stats.thy ===== *)
theory Rtt_Stats
  imports Go_Float "HOL-Library.Signed_Division"
begin

section \<open>Round-trip times\<close>

text \<open>
  \<^verbatim>\<open>internal/congestion/rtt_stats.go\<close>. Durations are nanoseconds; they are far from the limits of
  \<open>int64\<close>, so they are plain integers. A time is \<open>None\<close> when it is the zero \<open>time.Time\<close>, which is
  before every other. \<open>/\<close> on integers truncates, as \<open>sdiv\<close> does.
\<close>

definition InfDuration :: int where "InfDuration = 2 ^ 63 - 1"

abbreviation Microsecond :: int where "Microsecond \<equiv> 1000"

record rttSample =
  sample_rtt :: int
  sample_time :: "int option"

record RTTStats =
  initialRTTus :: int
  recentMinRTTwindow :: int
  minRTT :: int
  latestRTT :: int
  smoothedRTT :: int
  meanDeviation :: int
  numMinRTTsamplesRemaining :: uint32
  newMinRTT :: rttSample
  recentMinRTT :: rttSample
  halfWindowRTT :: rttSample
  quarterWindowRTT :: rttSample

definition no_sample :: rttSample where "no_sample = \<lparr>sample_rtt = 0, sample_time = None\<rparr>"

definition NewRTTStats :: RTTStats where
  "NewRTTStats =
     \<lparr>initialRTTus = 100 * 1000, recentMinRTTwindow = InfDuration, minRTT = 0, latestRTT = 0,
      smoothedRTT = 0, meanDeviation = 0, numMinRTTsamplesRemaining = 0, newMinRTT = no_sample,
      recentMinRTT = no_sample, halfWindowRTT = no_sample, quarterWindowRTT = no_sample\<rparr>"

definition before :: "int option \<Rightarrow> int \<Rightarrow> bool" where
  "before t u = (case t of None \<Rightarrow> True | Some t \<Rightarrow> t < u)"

text \<open>The fraction of the window, computed in \<open>float32\<close>.\<close>

definition window_part :: "rat \<Rightarrow> RTTStats \<Rightarrow> int" where
  "window_part fraction r =
     trunc (float32 (float32 (of_int (recentMinRTTwindow r sdiv Microsecond)) * fraction)) * Microsecond"

text \<open>The three parts of \<open>updateRecentMinRTT\<close>: the sampling that was asked for, the three recent
  samples, and their expiry.\<close>

definition sample_new_min :: "rttSample \<Rightarrow> RTTStats \<Rightarrow> RTTStats" where
  "sample_new_min new r =
     (if numMinRTTsamplesRemaining r > 0 then
        let r = r\<lparr>numMinRTTsamplesRemaining := numMinRTTsamplesRemaining r - 1\<rparr>;
            r = (if sample_rtt (newMinRTT r) = 0 \<or> sample_rtt new \<le> sample_rtt (newMinRTT r)
                 then r\<lparr>newMinRTT := new\<rparr> else r)
        in if numMinRTTsamplesRemaining r = 0
           then r\<lparr>recentMinRTT := newMinRTT r, halfWindowRTT := newMinRTT r, quarterWindowRTT := newMinRTT r\<rparr>
           else r
      else r)"

definition update_recent :: "rttSample \<Rightarrow> RTTStats \<Rightarrow> RTTStats" where
  "update_recent new r =
     (if sample_rtt (recentMinRTT r) = 0 \<or> sample_rtt new \<le> sample_rtt (recentMinRTT r)
      then r\<lparr>recentMinRTT := new, halfWindowRTT := new, quarterWindowRTT := new\<rparr>
      else if sample_rtt new \<le> sample_rtt (halfWindowRTT r)
      then r\<lparr>halfWindowRTT := new, quarterWindowRTT := new\<rparr>
      else if sample_rtt new \<le> sample_rtt (quarterWindowRTT r) then r\<lparr>quarterWindowRTT := new\<rparr>
      else r)"

definition expire_recent :: "rttSample \<Rightarrow> int \<Rightarrow> RTTStats \<Rightarrow> RTTStats" where
  "expire_recent new now r =
     (if before (sample_time (recentMinRTT r)) (now - recentMinRTTwindow r)
      then r\<lparr>recentMinRTT := halfWindowRTT r, halfWindowRTT := quarterWindowRTT r, quarterWindowRTT := new\<rparr>
      else if before (sample_time (halfWindowRTT r)) (now - window_part (1 / 2) r)
      then r\<lparr>halfWindowRTT := quarterWindowRTT r, quarterWindowRTT := new\<rparr>
      else if before (sample_time (quarterWindowRTT r)) (now - window_part (1 / 4) r)
      then r\<lparr>quarterWindowRTT := new\<rparr>
      else r)"

definition updateRecentMinRTT :: "int \<Rightarrow> int \<Rightarrow> RTTStats \<Rightarrow> RTTStats" where
  "updateRecentMinRTT sample now r =
     (let new = \<lparr>sample_rtt = sample, sample_time = Some now\<rparr>
      in expire_recent new now (update_recent new (sample_new_min new r)))"

text \<open>\<open>w * float32(a) + (1 - w) * float32(b)\<close> in microseconds, each operation rounded.\<close>

definition ewma :: "rat \<Rightarrow> int \<Rightarrow> int \<Rightarrow> int" where
  "ewma w a b =
     trunc (float32 (float32 (w * float32 (of_int a)) + float32 ((1 - w) * float32 (of_int b))))"

definition UpdateRTT :: "int \<Rightarrow> int \<Rightarrow> int \<Rightarrow> RTTStats \<Rightarrow> RTTStats" where
  "UpdateRTT sendDelta ackDelay now r =
     (if sendDelta = InfDuration \<or> sendDelta \<le> 0 then r
      else
        let r = (if minRTT r = 0 \<or> minRTT r > sendDelta then r\<lparr>minRTT := sendDelta\<rparr> else r);
            r = updateRecentMinRTT sendDelta now r;
            sample = (if sendDelta - minRTT r \<ge> ackDelay then sendDelta - ackDelay else sendDelta);
            r = r\<lparr>latestRTT := sample\<rparr>
        in if smoothedRTT r = 0 then r\<lparr>smoothedRTT := sample, meanDeviation := sample sdiv 2\<rparr>
           else
             let r = r\<lparr>meanDeviation := ewma (3 / 4) (meanDeviation r sdiv Microsecond)
                                          (\<bar>smoothedRTT r - sample\<bar> sdiv Microsecond) * Microsecond\<rparr>
             in r\<lparr>smoothedRTT := ewma (7 / 8) (smoothedRTT r sdiv Microsecond) (sample sdiv Microsecond) * Microsecond\<rparr>)"

definition SetRecentMinRTTwindow :: "int \<Rightarrow> RTTStats \<Rightarrow> RTTStats" where
  "SetRecentMinRTTwindow w r = r\<lparr>recentMinRTTwindow := w\<rparr>"

definition SampleNewRecentMinRTT :: "uint32 \<Rightarrow> RTTStats \<Rightarrow> RTTStats" where
  "SampleNewRecentMinRTT numSamples r = r\<lparr>numMinRTTsamplesRemaining := numSamples, newMinRTT := no_sample\<rparr>"

definition rtt_OnConnectionMigration :: "RTTStats \<Rightarrow> RTTStats" where
  "rtt_OnConnectionMigration r =
     r\<lparr>latestRTT := 0, minRTT := 0, smoothedRTT := 0, meanDeviation := 0, initialRTTus := 100 * 1000,
       numMinRTTsamplesRemaining := 0, recentMinRTTwindow := InfDuration, recentMinRTT := no_sample,
       halfWindowRTT := no_sample, quarterWindowRTT := no_sample\<rparr>"

definition ExpireSmoothedMetrics :: "RTTStats \<Rightarrow> RTTStats" where
  "ExpireSmoothedMetrics r =
     (let r = r\<lparr>meanDeviation := max (meanDeviation r) \<bar>smoothedRTT r - latestRTT r\<bar>\<rparr>
      in r\<lparr>smoothedRTT := max (smoothedRTT r) (latestRTT r)\<rparr>)"

subsection \<open>The weighted averages\<close>

lemma ewma_bounds:
  assumes w: "0 \<le> w" "w \<le> 1" and ab: "0 \<le> a" "0 \<le> b" "a \<le> M" "b \<le> M" and M: "M \<le> 4000000"
  shows "0 \<le> ewma w a b" "ewma w a b \<le> M" "w * of_int a + (1 - w) * of_int b - 3 / 2 < of_int (ewma w a b)"
proof -
  let ?x = "w * of_int a" and ?y = "(1 - w) * of_int b"
  define f g h where "f = float32 ?x" and "g = float32 ?y" and "h = float32 (f + g)"
  have exact: "float32 (of_int a) = of_int a" "float32 (of_int b) = of_int b"
    by (rule float32_int; use ab M in simp)+
  have pos: "0 \<le> ?x" "0 \<le> ?y" using w ab by simp_all
  have fg: "0 \<le> f" "0 \<le> g" by (simp_all add: f_def g_def float32_nonneg pos)
  have "w * of_int a \<le> w * of_int M" "(1 - w) * of_int b \<le> (1 - w) * of_int M"
    using w ab by (simp_all add: mult_left_mono)
  then have sum: "?x + ?y \<le> of_int M" by (simp add: algebra_simps)
  have e1: "\<bar>f - ?x\<bar> \<le> ?x / 2 ^ 24" "\<bar>g - ?y\<bar> \<le> ?y / 2 ^ 24" "\<bar>h - (f + g)\<bar> \<le> (f + g) / 2 ^ 24"
    using float32_error [of ?x] float32_error [of ?y] float32_error [of "f + g"] pos fg
    by (simp_all add: f_def g_def h_def)
  have M': "(of_int M :: rat) \<le> 4000000" using M by (metis of_int_le_iff of_int_numeral)
  have err: "\<bar>h - (?x + ?y)\<bar> < 1 / 2"
  proof -
    have "f + g \<le> (?x + ?y) + (?x + ?y) / 2 ^ 24" 
      using e1(1,2) unfolding add_divide_distrib by linarith
    then have fgM: "f + g \<le> 4000001" using sum M' by (simp add: field_simps)
    have "\<bar>h - (?x + ?y)\<bar> \<le> \<bar>h - (f + g)\<bar> + \<bar>f - ?x\<bar> + \<bar>g - ?y\<bar>" by linarith
    also have "\<dots> \<le> (f + g) / 2 ^ 24 + ?x / 2 ^ 24 + ?y / 2 ^ 24" using e1 by linarith
    also have "\<dots> = (f + g + (?x + ?y)) / 2 ^ 24" by (simp add: add_divide_distrib)
    also have "\<dots> \<le> 8000001 / 2 ^ 24" using fgM sum M' by (intro divide_right_mono) (linarith, simp)
    also have "\<dots> < 1 / 2" by simp
    finally show ?thesis .
  qed
  have h0: "0 \<le> h" by (simp add: h_def float32_nonneg fg)
  have E: "ewma w a b = trunc h" by (simp add: ewma_def exact f_def g_def h_def)
  show "0 \<le> ewma w a b" using trunc_bounds [OF h0] by (simp add: E)
  have "h < of_int M + 1" using err sum by linarith
  then show "ewma w a b \<le> M" unfolding E by (rule trunc_le [OF h0])
  show "?x + ?y - 3 / 2 < of_int (ewma w a b)" using trunc_bounds [OF h0] err unfolding E by linarith
qed

text \<open>The recent minima stay ordered.\<close>

definition recent_ordered :: "RTTStats \<Rightarrow> bool" where
  "recent_ordered r \<longleftrightarrow> sample_rtt (recentMinRTT r) \<le> sample_rtt (halfWindowRTT r)
     \<and> sample_rtt (halfWindowRTT r) \<le> sample_rtt (quarterWindowRTT r)"

lemma sample_new_min_ordered: "recent_ordered r \<Longrightarrow> recent_ordered (sample_new_min n r)"
  by (simp add: sample_new_min_def recent_ordered_def Let_def)

lemma update_recent_ordered:
  "recent_ordered r \<Longrightarrow> recent_ordered (update_recent n r)
     \<and> sample_rtt (quarterWindowRTT (update_recent n r)) \<le> sample_rtt n"
  by (simp add: update_recent_def recent_ordered_def)

lemma expire_recent_ordered:
  "recent_ordered r \<Longrightarrow> sample_rtt (quarterWindowRTT r) \<le> sample_rtt n \<Longrightarrow> recent_ordered (expire_recent n now r)"
  by (simp add: expire_recent_def recent_ordered_def)

lemma updateRecentMinRTT_ordered: "recent_ordered r \<Longrightarrow> recent_ordered (updateRecentMinRTT d now r)"
  unfolding updateRecentMinRTT_def Let_def
  using update_recent_ordered [OF sample_new_min_ordered] by (blast intro: expire_recent_ordered)

subsection \<open>Runs\<close>

text \<open>
  \<open>rtt_run D r ds\<close>: after measurements of at most \<open>D\<close> and the other operations, in any order, the
  statistics are \<open>r\<close>; \<open>ds\<close> are the measurements since the start or the last migration.
\<close>

inductive rtt_run :: "int \<Rightarrow> RTTStats \<Rightarrow> int list \<Rightarrow> bool" for D where
  start: "rtt_run D NewRTTStats []"
| update: "rtt_run D r ds \<Longrightarrow> 0 < d \<Longrightarrow> d \<le> D \<Longrightarrow> 0 \<le> ackDelay \<Longrightarrow> rtt_run D (UpdateRTT d ackDelay now r) (d # ds)"
| ignored: "rtt_run D r ds \<Longrightarrow> d \<le> 0 \<or> d = InfDuration \<Longrightarrow> rtt_run D (UpdateRTT d ackDelay now r) ds"
| expire: "rtt_run D r ds \<Longrightarrow> rtt_run D (ExpireSmoothedMetrics r) ds"
| window: "rtt_run D r ds \<Longrightarrow> rtt_run D (SetRecentMinRTTwindow w r) ds"
| resample: "rtt_run D r ds \<Longrightarrow> rtt_run D (SampleNewRecentMinRTT n r) ds"
| migrate: "rtt_run D r ds \<Longrightarrow> rtt_run D (rtt_OnConnectionMigration r) []"

lemma recent_keeps [simp]:
  "minRTT (sample_new_min n r) = minRTT r" "smoothedRTT (sample_new_min n r) = smoothedRTT r"
  "meanDeviation (sample_new_min n r) = meanDeviation r"
  "minRTT (update_recent n r) = minRTT r" "smoothedRTT (update_recent n r) = smoothedRTT r"
  "meanDeviation (update_recent n r) = meanDeviation r"
  "minRTT (expire_recent n now r) = minRTT r" "smoothedRTT (expire_recent n now r) = smoothedRTT r"
  "meanDeviation (expire_recent n now r) = meanDeviation r"
  by (simp_all add: sample_new_min_def update_recent_def expire_recent_def Let_def)

lemma updateRecentMinRTT_keeps [simp]:
  "minRTT (updateRecentMinRTT d now r) = minRTT r" "smoothedRTT (updateRecentMinRTT d now r) = smoothedRTT r"
  "meanDeviation (updateRecentMinRTT d now r) = meanDeviation r"
  by (simp_all add: updateRecentMinRTT_def Let_def)

lemma sdiv_nonneg: "0 \<le> (a :: int) \<Longrightarrow> 0 < b \<Longrightarrow> a sdiv b = a div b"
  by (simp add: signed_divide_int_def sgn_if)

text \<open>The parts of the statistics, with the limits they stay in.\<close>

definition rtt_ok :: "int \<Rightarrow> RTTStats \<Rightarrow> int list \<Rightarrow> bool" where
  "rtt_ok D r ds \<longleftrightarrow>
     (if ds = [] then minRTT r = 0 else minRTT r \<in> set ds \<and> (\<forall>d \<in> set ds. minRTT r \<le> d \<and> 0 < d \<and> d \<le> D))
     \<and> minRTT r \<le> latestRTT r \<and> latestRTT r \<le> D
     \<and> (minRTT r = 0 \<longrightarrow> smoothedRTT r = 0 \<and> latestRTT r = 0)
     \<and> minRTT r - 12000 \<le> smoothedRTT r \<and> 0 \<le> smoothedRTT r \<and> smoothedRTT r \<le> D
     \<and> 0 \<le> meanDeviation r \<and> meanDeviation r \<le> D"

lemma UpdateRTT_ok:
  assumes ok: "rtt_ok D r ds" and d: "0 < d" "d \<le> D" "0 \<le> ackDelay" and D: "D \<le> 4000000000"
  shows "rtt_ok D (UpdateRTT d ackDelay now r) (d # ds)"
proof -
  have ninf: "d \<noteq> InfDuration" using d D by (simp add: InfDuration_def)
  define mn where "mn = (if minRTT r = 0 \<or> minRTT r > d then d else minRTT r)"
  have mn: "mn \<in> set (d # ds)" "\<forall>x \<in> set (d # ds). mn \<le> x \<and> 0 < x \<and> x \<le> D" "mn \<le> d" "0 < mn"
    "minRTT r \<noteq> 0 \<Longrightarrow> mn \<le> minRTT r" "minRTT r = 0 \<Longrightarrow> ds = []"
    using ok d by (auto simp: rtt_ok_def mn_def split: if_splits)
  define sample where "sample = (if d - mn \<ge> ackDelay then d - ackDelay else d)"
  have sample: "mn \<le> sample" "sample \<le> D" "0 < sample" using mn(3,4) d by (auto simp: sample_def)
  define r1 where "r1 = updateRecentMinRTT d now (r\<lparr>minRTT := mn\<rparr>)"
  have r1: "minRTT r1 = mn" "smoothedRTT r1 = smoothedRTT r" "meanDeviation r1 = meanDeviation r"
    by (simp_all add: r1_def)
  have upd: "UpdateRTT d ackDelay now r =
     (if smoothedRTT r = 0 then r1\<lparr>latestRTT := sample, smoothedRTT := sample, meanDeviation := sample sdiv 2\<rparr>
      else r1\<lparr>latestRTT := sample,
              meanDeviation := ewma (3 / 4) (meanDeviation r sdiv 1000) (\<bar>smoothedRTT r - sample\<bar> sdiv 1000) * 1000,
              smoothedRTT := ewma (7 / 8) (smoothedRTT r sdiv 1000) (sample sdiv 1000) * 1000\<rparr>)"
  proof -
    have "(if minRTT r = 0 \<or> minRTT r > d then r\<lparr>minRTT := d\<rparr> else r) = r\<lparr>minRTT := mn\<rparr>" by (simp add: mn_def)
    then show ?thesis
      using ninf d(1) unfolding UpdateRTT_def Let_def by (simp add: r1_def [symmetric] r1 sample_def [symmetric])
  qed
  show ?thesis
  proof (cases "smoothedRTT r = 0")
    case True
    then show ?thesis using mn sample r1 by (simp add: upd rtt_ok_def sdiv_nonneg)
  next
    case False
    have old: "0 < smoothedRTT r" "smoothedRTT r \<le> D" "0 \<le> meanDeviation r" "meanDeviation r \<le> D"
      "minRTT r - 12000 \<le> smoothedRTT r" "minRTT r \<noteq> 0"
      using ok False by (auto simp: rtt_ok_def)
    define a b M where "a = smoothedRTT r div 1000" and "b = sample div 1000" and "M = D div 1000"
    have M: "M \<le> 4000000" "M * 1000 \<le> D" using D by (simp_all add: M_def)
    have ab: "0 \<le> a" "0 \<le> b" "a \<le> M" "b \<le> M" using old sample by (simp_all add: a_def b_def M_def zdiv_mono1)
    note e = ewma_bounds [of "7 / 8", OF _ _ ab M(1)]
    have "mn div 1000 - 11 \<le> ewma (7 / 8) a b"
    proof -
      have b: "mn div 1000 \<le> b" using sample by (simp add: b_def zdiv_mono1)
      have "mn - 12000 \<le> smoothedRTT r" using mn(5) old(5,6) by simp
      then have a: "mn div 1000 - 12 \<le> a" by (simp add: a_def)
      have "8 * (mn div 1000) - 84 \<le> 7 * a + b" using a b by linarith
      then have "(of_int (8 * (mn div 1000) - 84) :: rat) \<le> of_int (7 * a + b)" by (simp only: of_int_le_iff)
      moreover have "7 * of_int a / 8 + of_int b / 8 - 3 / 2 < (of_int (ewma (7 / 8) a b) :: rat)" using e(3) by simp
      ultimately have "of_int (mn div 1000) - 12 < (of_int (ewma (7 / 8) a b) :: rat)"
        unfolding of_int_diff of_int_mult of_int_add of_int_numeral by linarith
      then show ?thesis by linarith
    qed
    then have "mn - 12000 \<le> ewma (7 / 8) a b * 1000" by linarith
    moreover have "0 \<le> ewma (7 / 8) a b" "ewma (7 / 8) a b * 1000 \<le> D" using e(1,2) M by simp_all
    moreover have "0 \<le> ewma (3 / 4) (meanDeviation r div 1000) (\<bar>smoothedRTT r - sample\<bar> div 1000)
        \<and> ewma (3 / 4) (meanDeviation r div 1000) (\<bar>smoothedRTT r - sample\<bar> div 1000) \<le> M"
    proof -
      have "\<bar>smoothedRTT r - sample\<bar> \<le> D" using old(1,2) sample by linarith
      then have "meanDeviation r div 1000 \<le> M" "\<bar>smoothedRTT r - sample\<bar> div 1000 \<le> M"
        unfolding M_def using old(4) by (blast intro: zdiv_mono1 zero_less_numeral)+
      moreover have "0 \<le> meanDeviation r div 1000" "0 \<le> \<bar>smoothedRTT r - sample\<bar> div 1000"
        using old(3) by (simp_all add: pos_imp_zdiv_nonneg_iff)
      moreover have "0 \<le> (3 / 4 :: rat)" "(3 / 4 :: rat) \<le> 1" by simp_all
      ultimately show ?thesis using ewma_bounds(1,2) M(1) by blast
    qed
    moreover have upd': "UpdateRTT d ackDelay now r = r1\<lparr>latestRTT := sample,
        meanDeviation := ewma (3 / 4) (meanDeviation r div 1000) (\<bar>smoothedRTT r - sample\<bar> div 1000) * 1000,
        smoothedRTT := ewma (7 / 8) a b * 1000\<rparr>"
      unfolding upd using False old sample by (simp add: sdiv_nonneg a_def b_def)
    have "minRTT (UpdateRTT d ackDelay now r) = mn" "latestRTT (UpdateRTT d ackDelay now r) = sample"
      "smoothedRTT (UpdateRTT d ackDelay now r) = ewma (7 / 8) a b * 1000"
      "meanDeviation (UpdateRTT d ackDelay now r)
         = ewma (3 / 4) (meanDeviation r div 1000) (\<bar>smoothedRTT r - sample\<bar> div 1000) * 1000"
      by (simp_all add: upd' r1)
    ultimately show ?thesis using mn(1,2,4) sample M(2) unfolding rtt_ok_def by auto
  qed
qed

lemma rtt_run_ok: "rtt_run D r ds \<Longrightarrow> 0 \<le> D \<Longrightarrow> D \<le> 4000000000 \<Longrightarrow> rtt_ok D r ds"
proof (induction rule: rtt_run.induct)
  case start
  then show ?case by (simp add: rtt_ok_def NewRTTStats_def)
next
  case (update r ds d ackDelay now)
  then show ?case by (intro UpdateRTT_ok) auto
next
  case (ignored r ds d ackDelay now)
  then show ?case by (auto simp: UpdateRTT_def)
next
  case (expire r ds)
  then have ok: "rtt_ok D r ds" by simp
  then have "0 \<le> minRTT r" by (auto simp: rtt_ok_def split: if_splits)
  with ok have "\<bar>smoothedRTT r - latestRTT r\<bar> \<le> D" by (auto simp: rtt_ok_def)
  with ok show ?case by (auto simp: rtt_ok_def ExpireSmoothedMetrics_def Let_def)
next
  case (window r ds w)
  then show ?case by (auto simp: rtt_ok_def SetRecentMinRTTwindow_def)
next
  case (resample r ds n)
  then show ?case by (auto simp: rtt_ok_def SampleNewRecentMinRTT_def)
next
  case (migrate r ds)
  then show ?case by (simp add: rtt_ok_def rtt_OnConnectionMigration_def)
qed

text \<open>With measurements of up to four seconds, whatever their order and whatever delays the peer
  claims: \<open>MinRTT\<close> is the least measurement since the connection began or migrated, the latest value
  never falls below it, and in spite of the rounding of \<open>float32\<close> and the truncation to microseconds
  the smoothed value stays between it, less at most 12 microseconds, and the greatest measurement.\<close>

theorem rtt_within_measurements:
  assumes "rtt_run D r ds" "0 \<le> D" "D \<le> 4000000000"
  shows "minRTT r = (if ds = [] then 0 else Min (set ds)) \<and> minRTT r \<le> latestRTT r \<and> latestRTT r \<le> D
    \<and> minRTT r - 12 * Microsecond \<le> smoothedRTT r \<and> smoothedRTT r \<le> D
    \<and> 0 \<le> meanDeviation r \<and> meanDeviation r \<le> D"
proof -
  have ok: "rtt_ok D r ds" using rtt_run_ok [OF assms] .
  moreover have "minRTT r = Min (set ds)" if "ds \<noteq> []"
    using ok that by (intro Min_eqI [symmetric]) (auto simp: rtt_ok_def)
  ultimately show ?thesis by (auto simp: rtt_ok_def)
qed

theorem rtt_within_measurements_witness:
  "\<exists>r. rtt_run 50000000 r [50000000, 40000000] \<and> minRTT r = 40000000 \<and> smoothedRTT r \<le> 50000000
     \<and> 39988000 \<le> smoothedRTT r"
proof -
  have r: "rtt_run 50000000 (UpdateRTT 50000000 0 2 (UpdateRTT 40000000 0 1 NewRTTStats)) [50000000, 40000000]"
    by (intro rtt_run.update rtt_run.start) simp_all
  from rtt_within_measurements [OF r] show ?thesis by (intro exI [of _ "UpdateRTT 50000000 0 2 (UpdateRTT 40000000 0 1 NewRTTStats)"]) (simp add: r)
qed

end
