(* ===== verification/Cubic.thy ===== *)
theory Cubic
  imports Rtt_Stats Protocol
begin

section \<open>The cubic window\<close>

text \<open>
  \<^verbatim>\<open>internal/congestion/cubic.go\<close>. The clock is an argument \<open>now\<close>; a \<open>time.Time\<close> that may be zero is an
  option. The loop that follows the TCP window can run forever for absurd numbers of emulated
  connections, so \<open>CongestionWindowAfterAck\<close> is an option: \<open>None\<close> is a call that does not return.
\<close>

definition cubeScale :: nat where "cubeScale = 40"
definition cubeCongestionWindowScale :: int where "cubeCongestionWindowScale = 410"
definition cubeFactor :: PacketNumber where "cubeFactor = 2 ^ 40 div 410"
definition defaultNumConnections :: int where "defaultNumConnections = 2"
definition maxCubicTimeInterval :: int where "maxCubicTimeInterval = 30000000"

text \<open>The constants \<open>beta\<close> and \<open>betaLastMax\<close>, as \<open>float32\<close> holds them.\<close>

definition beta :: rat where "beta = float32 (7 / 10)"
definition betaLastMax :: rat where "betaLastMax = float32 (85 / 100)"

record Cubic =
  numConnections :: int
  epoch :: "int option"
  appLimitedStartTime :: "int option"
  lastUpdateTime :: "int option"
  lastCongestionWindow :: PacketNumber
  lastMaxCongestionWindow :: PacketNumber
  ackedPacketsCount :: PacketNumber
  estimatedTCPcongestionWindow :: PacketNumber
  originPointCongestionWindow :: PacketNumber
  timeToOriginPoint :: uint32
  lastTargetCongestionWindow :: PacketNumber

definition cubic_Reset :: "Cubic \<Rightarrow> Cubic" where
  "cubic_Reset c =
     c\<lparr>epoch := None, appLimitedStartTime := None, lastUpdateTime := None, lastCongestionWindow := 0,
       lastMaxCongestionWindow := 0, ackedPacketsCount := 0, estimatedTCPcongestionWindow := 0,
       originPointCongestionWindow := 0, timeToOriginPoint := 0, lastTargetCongestionWindow := 0\<rparr>"

definition NewCubic :: Cubic where
  "NewCubic = cubic_Reset
     \<lparr>numConnections = defaultNumConnections, epoch = None, appLimitedStartTime = None, lastUpdateTime = None,
      lastCongestionWindow = 0, lastMaxCongestionWindow = 0, ackedPacketsCount = 0,
      estimatedTCPcongestionWindow = 0, originPointCongestionWindow = 0, timeToOriginPoint = 0,
      lastTargetCongestionWindow = 0\<rparr>"

text \<open>The back-off factors for \<open>n\<close> emulated connections; every operation rounds.\<close>

definition cubic_beta :: "Cubic \<Rightarrow> rat" where
  "cubic_beta c =
     (let n = float32 (of_int (numConnections c))
      in float32 (float32 (float32 (n - 1) + beta) / n))"

definition cubic_alpha :: "Cubic \<Rightarrow> rat" where
  "cubic_alpha c =
     (let n = float32 (of_int (numConnections c)); b = cubic_beta c
      in float32 (float32 (float32 (float32 (3 * n) * n) * float32 (1 - b)) / float32 (1 + b)))"

definition OnApplicationLimited :: "int \<Rightarrow> Cubic \<Rightarrow> Cubic" where
  "OnApplicationLimited now c =
     (if appLimitedStartTime c = None then c\<lparr>appLimitedStartTime := Some now\<rparr> else c)"

text \<open>\<open>x * f\<close> in \<open>float32\<close>, truncated to a number of packets.\<close>

definition scale_window :: "PacketNumber \<Rightarrow> rat \<Rightarrow> PacketNumber" where
  "scale_window w f = of_int (trunc (float32 (float32 (of_nat (unat w)) * f)))"

definition CongestionWindowAfterPacketLoss :: "PacketNumber \<Rightarrow> Cubic \<Rightarrow> PacketNumber \<times> Cubic" where
  "CongestionWindowAfterPacketLoss current c =
     (let c = c\<lparr>lastMaxCongestionWindow :=
                  (if current < lastMaxCongestionWindow c then scale_window current betaLastMax else current)\<rparr>;
          c = c\<lparr>epoch := None\<rparr>
      in (scale_window current (cubic_beta c), c))"

text \<open>
  The greatest integer whose cube is at most \<open>n\<close>. \<open>uint32(math.Cbrt(float64(n)))\<close> is this number for
  the \<open>n\<close> below \<open>2 ^ 43\<close> that occur with windows of at most 1000 packets: a non-cube is too far from a
  cube to be rounded onto it.
\<close>

fun icbrt :: "nat \<Rightarrow> nat" where
  "icbrt n =
     (if n = 0 then 0 else let r = 2 * icbrt (n div 8) in if (r + 1) ^ 3 \<le> n then r + 1 else r)"

declare icbrt.simps [simp del]

text \<open>The value of an \<open>int64\<close> computation.\<close>

definition int64 :: "int \<Rightarrow> int" where
  "int64 x = signed_take_bit 63 x"

text \<open>The loop that advances the TCP window: \<open>acked\<close> and \<open>est\<close>.\<close>

definition requiredAckCount :: "Cubic \<Rightarrow> PacketNumber \<Rightarrow> PacketNumber" where
  "requiredAckCount c est = of_int (trunc (float32 (float32 (of_nat (unat est)) / cubic_alpha c)))"

partial_function (option) advance_tcp ::
  "(PacketNumber \<Rightarrow> PacketNumber) \<Rightarrow> PacketNumber \<Rightarrow> PacketNumber \<Rightarrow> (PacketNumber \<times> PacketNumber) option" where
  "advance_tcp required acked est =
     (if acked < required est then Some (acked, est)
      else advance_tcp required (acked - required est) (est + 1))"

declare advance_tcp.simps [code]

text \<open>The start of an epoch, or the shift of one by the time the sender was limited by the application.\<close>

definition start_epoch :: "int \<Rightarrow> PacketNumber \<Rightarrow> Cubic \<Rightarrow> Cubic" where
  "start_epoch now current c =
     (case epoch c of
        None \<Rightarrow>
          (let c = c\<lparr>epoch := Some now, ackedPacketsCount := 1, estimatedTCPcongestionWindow := current\<rparr>
           in if lastMaxCongestionWindow c \<le> current
              then c\<lparr>timeToOriginPoint := 0, originPointCongestionWindow := current\<rparr>
              else c\<lparr>timeToOriginPoint :=
                       of_nat (icbrt (unat (cubeFactor * (lastMaxCongestionWindow c - current)))),
                     originPointCongestionWindow := lastMaxCongestionWindow c\<rparr>)
      | Some e \<Rightarrow>
          (case appLimitedStartTime c of
             None \<Rightarrow> c
           | Some t \<Rightarrow> c\<lparr>epoch := Some (e + (now - t)), appLimitedStartTime := None\<rparr>))"

text \<open>The cubic function of the time since the epoch began.\<close>

definition cubic_target :: "int \<Rightarrow> Cubic \<Rightarrow> PacketNumber" where
  "cubic_target sinceEpoch c =
     (let elapsedTime = int64 ((sinceEpoch sdiv Microsecond) * 2 ^ 10) sdiv 1000000;
          offset = \<bar>int (unat (timeToOriginPoint c)) - elapsedTime\<bar>;
          delta = of_int (int64 (cubeCongestionWindowScale * offset * offset * offset) div 2 ^ cubeScale)
      in if elapsedTime > int (unat (timeToOriginPoint c))
         then originPointCongestionWindow c + delta
         else originPointCongestionWindow c - delta)"

definition CongestionWindowAfterAck ::
  "int \<Rightarrow> PacketNumber \<Rightarrow> int \<Rightarrow> Cubic \<Rightarrow> (PacketNumber \<times> Cubic) option" where
  "CongestionWindowAfterAck now current delayMin c =
     (let c = c\<lparr>ackedPacketsCount := ackedPacketsCount c + 1\<rparr>
      in if lastCongestionWindow c = current
            \<and> (case lastUpdateTime c of None \<Rightarrow> False | Some t \<Rightarrow> now - t \<le> maxCubicTimeInterval)
         then Some (max (lastTargetCongestionWindow c) (estimatedTCPcongestionWindow c), c)
         else
           let c = start_epoch now current (c\<lparr>lastCongestionWindow := current, lastUpdateTime := Some now\<rparr>);
               target = cubic_target (now + delayMin - the (epoch c)) c
           in case advance_tcp (requiredAckCount c) (ackedPacketsCount c) (estimatedTCPcongestionWindow c) of
                None \<Rightarrow> None
              | Some (acked, est) \<Rightarrow>
                  Some (if target < est then est else target,
                        c\<lparr>ackedPacketsCount := acked, estimatedTCPcongestionWindow := est,
                          lastTargetCongestionWindow := target\<rparr>))"

definition SetNumConnections :: "int \<Rightarrow> Cubic \<Rightarrow> Cubic" where
  "SetNumConnections n c = c\<lparr>numConnections := n\<rparr>"

subsection \<open>The cube root\<close>

lemma icbrt_correct: "icbrt n ^ 3 \<le> n \<and> n < (icbrt n + 1) ^ 3"
proof (induction n rule: icbrt.induct)
  case (1 n)
  show ?case
  proof (cases "n = 0")
    case False
    define r where "r = icbrt (n div 8)"
    have IH: "r ^ 3 \<le> n div 8" "n div 8 < (r + 1) ^ 3" using 1 False by (simp_all add: r_def)
    have "(2 * r) ^ 3 = 8 * r ^ 3" by (simp add: power_mult_distrib)
    then have low: "(2 * r) ^ 3 \<le> n" using IH(1) by linarith
    have "(2 * r + 2) ^ 3 = 8 * (r + 1) ^ 3"
      by (metis distrib_left_numeral mult.commute mult_2 nat_mult_1_right numeral_Bit0 one_add_one power_mult_distrib
          mult_numeral_1_right power3_eq_cube numeral_eq_Suc)
    then have high: "n < (2 * r + 2) ^ 3" using IH(2) by linarith
    show ?thesis
      using low high by (subst (1 2) icbrt.simps) (simp add: False r_def [symmetric] Let_def del: power_Suc)
  qed (simp add: icbrt.simps)
qed

subsection \<open>The loop returns\<close>

lemma advance_tcp_returns:
  assumes progress: "\<And>e. T \<le> unat e \<Longrightarrow> unat e < E \<Longrightarrow> 0 < required e" and E: "E < 2 ^ 64"
    and room: "max (unat est) T + unat acked < E"
  shows "\<exists>acked' est'. advance_tcp required acked est = Some (acked', est') \<and> unat est \<le> unat est'
    \<and> max (unat est') T + unat acked' \<le> max (unat est) T + unat acked"
  using room
proof (induction "(T - unat est) + unat acked" arbitrary: acked est rule: less_induct)
  case less
  show ?case
  proof (cases "acked < required est")
    case True
    then show ?thesis by (subst advance_tcp.simps) simp
  next
    case False
    have up: "unat (est + 1) = unat est + 1" using less.prems E by (intro unat_succ) simp
    have down: "unat (acked - required est) = unat acked - unat (required est)" "required est \<le> acked"
      using False by (simp_all add: unat_sub)
    have "0 < unat (required est) \<and> 0 < unat acked \<or> unat est < T"
    proof (cases "unat est < T")
      case False
      then have "0 < required est" using less.prems by (intro progress) simp_all
      then show ?thesis using down(2) by (auto simp: word_less_nat_alt word_le_nat_alt)
    qed simp
    then have smaller: "(T - unat (est + 1)) + unat (acked - required est) < (T - unat est) + unat acked"
      and bound: "max (unat (est + 1)) T + unat (acked - required est) \<le> max (unat est) T + unat acked"
      unfolding up down(1) by (auto simp: max_def)
    from less.hyps [OF smaller] bound less.prems obtain acked' est' where
      "advance_tcp required (acked - required est) (est + 1) = Some (acked', est')" "unat (est + 1) \<le> unat est'"
      "max (unat est') T + unat acked' \<le> max (unat (est + 1)) T + unat (acked - required est)"
      by fastforce
    then show ?thesis using False bound up by (subst advance_tcp.simps) auto
  qed
qed

lemma float32_twice: "0 \<le> x \<Longrightarrow> x / 2 \<le> float32 x \<and> float32 x \<le> 2 * x"
  using float32_bounds [of x] by simp

lemma float32_pos: "0 < x \<Longrightarrow> 0 < float32 x"
  using float32_twice [of x] by linarith

text \<open>The factors for one to a thousand emulated connections.\<close>

lemma cubic_beta_bounds:
  assumes n: "1 \<le> numConnections c" "numConnections c \<le> 1000"
  shows "0 < cubic_beta c" "cubic_beta c \<le> 1 - 1 / 4000"
proof -
  define N :: rat where "N = of_int (numConnections c)"
  have N: "1 \<le> N" "N \<le> 1000" using n unfolding N_def by (metis of_int_1_le_iff, metis of_int_le_iff of_int_numeral)
  have ex: "float32 N = N" "float32 (N - 1) = N - 1"
    using float32_int [of "numConnections c"] float32_int [of "numConnections c - 1"] n by (simp_all add: N_def)
  have b: "0 < beta" "beta \<le> 700001 / 1000000"
  proof -
    show "0 < beta" by (simp add: beta_def float32_pos)
    have "\<bar>beta - 7 / 10\<bar> \<le> 7 / 10 / 2 ^ 24" using float32_error [of "7 / 10"] by (simp add: beta_def)
    also have "(7 / 10 / 2 ^ 24 :: rat) \<le> 1 / 1000000" by simp
    finally show "beta \<le> 700001 / 1000000" by linarith
  qed
  define s where "s = float32 (N - 1 + beta)"
  have cb: "cubic_beta c = float32 (s / N)"
    by (simp only: cubic_beta_def Let_def N_def [symmetric] ex s_def)
  have pos: "0 < N - 1 + beta" using N b by linarith
  then have s0: "0 < s" by (simp add: s_def float32_pos)
  then show "0 < cubic_beta c" using N unfolding cb by (intro float32_pos) simp
  have "s \<le> (N - 1 + beta) + (N - 1 + beta) / 2 ^ 24" using float32_bounds(2) [of "N - 1 + beta"] pos by (simp add: s_def)
  moreover have "(N - 1 + beta) / 2 ^ 24 \<le> 1 / 10000" using N b by simp
  ultimately have "s \<le> (N - 1 + beta) + 1 / 10000" by linarith
  then have "s \<le> N - 299 / 1000" using b(2) by simp
  then have "s / N \<le> 1 - 299 / 1000 / N" using N by (simp add: field_simps)
  also have "\<dots> \<le> 1 - 299 / 1000 / 1000" using N by (simp add: field_simps)
  finally have q: "s / N \<le> 1 - 299 / 1000000" by simp
  have "cubic_beta c \<le> s / N + s / N / 2 ^ 24" using float32_bounds(2) [of "s / N"] s0 N by (simp add: cb)
  then show "cubic_beta c \<le> 1 - 1 / 4000" using q by simp
qed

lemma cubic_alpha_bounds:
  assumes n: "1 \<le> numConnections c" "numConnections c \<le> 1000"
  shows "1 / 10 ^ 6 \<le> cubic_alpha c" "cubic_alpha c \<le> 10 ^ 9"
proof -
  define N :: rat where "N = of_int (numConnections c)"
  have N: "1 \<le> N" "N \<le> 1000" using n unfolding N_def by (metis of_int_1_le_iff, metis of_int_le_iff of_int_numeral)
  have ex: "float32 N = N" using float32_int [of "numConnections c"] n by (simp add: N_def)
  note b = cubic_beta_bounds [OF n]
  define p q r t where "p = float32 (3 * N)" and "q = float32 (p * N)" and "r = float32 (1 - cubic_beta c)"
    and "t = float32 (1 + cubic_beta c)"
  have a: "cubic_alpha c = float32 (float32 (q * r) / t)"
    by (simp only: cubic_alpha_def Let_def N_def [symmetric] ex p_def q_def r_def t_def)
  have p: "1 \<le> p" "p \<le> 6000" using float32_twice [of "3 * N"] N by (simp_all add: p_def)
  have pN: "1 \<le> p * N" "p * N \<le> 6000 * 1000" using mult_mono [of 1 p 1 N] mult_mono [of p 6000 N 1000] p N by simp_all
  then have q: "1 / 2 \<le> q" "q \<le> 12000000" using float32_twice [of "p * N"] by (simp_all add: q_def)
  have r: "1 / 8000 \<le> r" "r \<le> 2" using float32_twice [of "1 - cubic_beta c"] b by (simp_all add: r_def)
  have qr: "1 / 16000 \<le> q * r" "q * r \<le> 24000000"
    using mult_mono [of "1 / 2" q "1 / 8000" r] mult_mono [of q 12000000 r 2] q r by simp_all
  then have f: "1 / 32000 \<le> float32 (q * r)" "float32 (q * r) \<le> 48000000"
    using float32_twice [of "q * r"] by simp_all
  have t: "1 / 2 \<le> t" "t \<le> 4" using float32_twice [of "1 + cubic_beta c"] b by (simp_all add: t_def)
  have "1 / 128000 \<le> float32 (q * r) / t" "float32 (q * r) / t \<le> 96000000"
    using f t by (simp_all add: field_simps)
  moreover define z where "z = float32 (q * r) / t"
  ultimately have z: "1 / 128000 \<le> z" "z \<le> 96000000" by simp_all
  have "0 \<le> z" by (rule order_trans [OF _ z(1)]) simp
  from float32_twice [OF this] z have "1 / 256000 \<le> cubic_alpha c" "cubic_alpha c \<le> 192000000"
    unfolding a z_def [symmetric] by simp_all
  then show "1 / 10 ^ 6 \<le> cubic_alpha c" "cubic_alpha c \<le> 10 ^ 9" by simp_all
qed

text \<open>From \<open>4 * 10 ^ 9\<close> packets on, an advance of the TCP window takes at least one acknowledgement.\<close>

lemma requiredAckCount_pos:
  assumes n: "1 \<le> numConnections c" "numConnections c \<le> 1000"
    and e: "4000000000 \<le> unat e" "unat e < 2 ^ 33"
  shows "0 < requiredAckCount c e"
proof -
  define x :: rat where "x = of_nat (unat e)"
  have x: "4000000000 \<le> x" "x \<le> 2 ^ 33"
    using e unfolding x_def by (metis of_nat_le_iff of_nat_numeral, metis less_imp_le of_nat_le_iff of_nat_numeral of_nat_power)
  note a = cubic_alpha_bounds [OF n]
  have f: "2000000000 \<le> float32 x" "float32 x \<le> 2 ^ 34" using float32_twice [of x] x by simp_all
  have a0: "0 < cubic_alpha c" using a(1) by (rule less_le_trans [rotated]) simp
  have "2 \<le> float32 x / cubic_alpha c" using f a a0 by (simp add: field_simps)
  moreover have "float32 x / cubic_alpha c \<le> 2 ^ 34 * 10 ^ 6"
  proof -
    have "float32 x * 1 \<le> 2 ^ 34 * (10 ^ 6 * cubic_alpha c)" using f a(1) by (intro mult_mono) simp_all
    then show ?thesis using a0 by (simp add: field_simps)
  qed
  ultimately have q: "1 \<le> float32 (float32 x / cubic_alpha c)" "float32 (float32 x / cubic_alpha c) \<le> 2 ^ 35 * 10 ^ 6"
    using float32_twice [of "float32 x / cubic_alpha c"] by simp_all
  define k where "k = trunc (float32 (float32 x / cubic_alpha c))"
  have k: "1 \<le> k" "k < 2 ^ 63"
  proof -
    show "1 \<le> k" unfolding k_def using q by (intro le_trunc) simp_all
    have "0 \<le> float32 (float32 x / cubic_alpha c)" using q(1) by linarith
    from trunc_bounds [OF this] have "of_int k \<le> float32 (float32 x / cubic_alpha c)" by (simp add: k_def)
    also have "\<dots> \<le> of_int (2 ^ 35 * 10 ^ 6)" using q(2) by simp
    finally have "k \<le> 2 ^ 35 * 10 ^ 6" by (simp only: of_int_le_iff)
    then show "k < 2 ^ 63" by simp
  qed
  then have "uint (of_int k :: uint64) = k" by (simp add: uint_word_of_int)
  with k have "of_int k \<noteq> (0 :: uint64)" by (metis not_one_le_zero uint_0_eq)
  then show ?thesis unfolding requiredAckCount_def x_def [symmetric] k_def [symmetric] by (simp add: word_neq_0_conv)
qed

text \<open>
  \<open>tcp_potential c\<close> bounds the counters of the TCP window: no operation but an acknowledgement
  raises it, and it by one.
\<close>

definition tcp_potential :: "Cubic \<Rightarrow> nat" where
  "tcp_potential c = max (unat (estimatedTCPcongestionWindow c)) 4000000000 + unat (ackedPacketsCount c)"

definition cubic_ok :: "Cubic \<Rightarrow> bool" where
  "cubic_ok c \<longleftrightarrow> 1 \<le> numConnections c \<and> numConnections c \<le> 1000
     \<and> (lastCongestionWindow c = 0 \<or> 2 \<le> estimatedTCPcongestionWindow c)
     \<and> (epoch c \<noteq> None \<longrightarrow> 2 \<le> estimatedTCPcongestionWindow c)"

lemma start_epoch_ok:
  assumes "2 \<le> current"
  shows "epoch (start_epoch now current c) \<noteq> None"
    "epoch c = None \<or> 2 \<le> estimatedTCPcongestionWindow c \<Longrightarrow> 2 \<le> estimatedTCPcongestionWindow (start_epoch now current c)"
    "numConnections (start_epoch now current c) = numConnections c"
    "lastCongestionWindow (start_epoch now current c) = lastCongestionWindow c"
    "1 \<le> ackedPacketsCount c \<Longrightarrow> unat current \<le> 4000000000 \<Longrightarrow> tcp_potential (start_epoch now current c) \<le> max (tcp_potential c) 4000000001"
  using assms by (auto simp: start_epoch_def Let_def tcp_potential_def split: option.splits)

lemma CongestionWindowAfterAck_ok:
  assumes ok: "cubic_ok c" and cur: "2 \<le> current" "unat current \<le> 1000" and room: "tcp_potential c < 2 ^ 33 - 2"
  shows "\<exists>w c'. CongestionWindowAfterAck now current delayMin c = Some (w, c') \<and> 2 \<le> w \<and> cubic_ok c'
    \<and> tcp_potential c' \<le> max (tcp_potential c + 1) 4000000001"
proof -
  define c1 where "c1 = c\<lparr>ackedPacketsCount := ackedPacketsCount c + 1\<rparr>"
  have acked: "unat (ackedPacketsCount c1) = unat (ackedPacketsCount c) + 1"
    using room by (simp add: c1_def tcp_potential_def unat_succ)
  then have pot1: "tcp_potential c1 = tcp_potential c + 1" by (simp add: tcp_potential_def c1_def)
  have ok1: "cubic_ok c1" using ok by (simp add: cubic_ok_def c1_def)
  define early where "early = (lastCongestionWindow c1 = current
            \<and> (case lastUpdateTime c1 of None \<Rightarrow> False | Some t \<Rightarrow> now - t \<le> maxCubicTimeInterval))"
  define c2 where "c2 = start_epoch now current (c1\<lparr>lastCongestionWindow := current, lastUpdateTime := Some now\<rparr>)"
  define target where "target = cubic_target (now + delayMin - the (epoch c2)) c2"
  have def: "CongestionWindowAfterAck now current delayMin c =
    (if early then Some (max (lastTargetCongestionWindow c1) (estimatedTCPcongestionWindow c1), c1)
     else case advance_tcp (requiredAckCount c2) (ackedPacketsCount c2) (estimatedTCPcongestionWindow c2) of
            None \<Rightarrow> None
          | Some (acked, est) \<Rightarrow>
              Some (if target < est then est else target,
                    c2\<lparr>ackedPacketsCount := acked, estimatedTCPcongestionWindow := est, lastTargetCongestionWindow := target\<rparr>))"
    by (simp only: CongestionWindowAfterAck_def Let_def c1_def [symmetric] early_def c2_def target_def)
  show ?thesis
  proof (cases early)
    case True
    then have "2 \<le> estimatedTCPcongestionWindow c1" using ok1 cur by (auto simp: early_def cubic_ok_def)
    then have "2 \<le> max (lastTargetCongestionWindow c1) (estimatedTCPcongestionWindow c1)" by (simp add: le_max_iff_disj)
    then show ?thesis using True ok1 pot1 by (simp add: def)
  next
    case False
    have a1: "1 \<le> ackedPacketsCount c1" using acked by (simp add: word_le_nat_alt)
    have ok2: "numConnections c2 = numConnections c1" "lastCongestionWindow c2 = current" "epoch c2 \<noteq> None"
      "2 \<le> estimatedTCPcongestionWindow c2" "tcp_potential c2 \<le> max (tcp_potential c1) 4000000001"
      using start_epoch_ok [OF cur(1), where now = now and c = "c1\<lparr>lastCongestionWindow := current, lastUpdateTime := Some now\<rparr>"]
        ok1 a1 cur(2) by (auto simp: c2_def cubic_ok_def tcp_potential_def)
    have n: "1 \<le> numConnections c2" "numConnections c2 \<le> 1000" using ok1 by (simp_all add: ok2 cubic_ok_def)
    have lt: "max (unat (estimatedTCPcongestionWindow c2)) 4000000000 + unat (ackedPacketsCount c2) < 2 ^ 33"
      using ok2(5) pot1 room by (simp add: tcp_potential_def)
    obtain acked est where adv: "advance_tcp (requiredAckCount c2) (ackedPacketsCount c2) (estimatedTCPcongestionWindow c2)
        = Some (acked, est)" "unat (estimatedTCPcongestionWindow c2) \<le> unat est"
      "max (unat est) 4000000000 + unat acked \<le> tcp_potential c2"
      using advance_tcp_returns [where required = "requiredAckCount c2" and T = 4000000000 and E = "2 ^ 33", OF _ _ lt]
        requiredAckCount_pos [OF n] unfolding tcp_potential_def by auto
    have est: "2 \<le> est" using ok2(4) adv(2) by (simp add: word_le_nat_alt)
    then have "2 \<le> (if target < est then est else target)" by auto
    then show ?thesis using False adv est n ok2 pot1 by (simp add: def cubic_ok_def tcp_potential_def)
  qed
qed

subsection \<open>The curve\<close>

definition elapsed_units :: "int \<Rightarrow> int" where
  "elapsed_units t = ((t div 1000) * 1024) div 1000000"

definition curve :: "int \<Rightarrow> int \<Rightarrow> int \<Rightarrow> int" where
  "curve orig T e = (if e > T then orig + 410 * (e - T) ^ 3 div 2 ^ 40 else orig - 410 * (T - e) ^ 3 div 2 ^ 40)"

lemma elapsed_units_bounds:
  assumes "0 \<le> t" "t \<le> 275000000000"
  shows "0 \<le> elapsed_units t" "elapsed_units t \<le> 281600"
proof -
  have t: "0 \<le> t div 1000" "t div 1000 \<le> 275000000" using assms by linarith+
  then show "0 \<le> elapsed_units t" by (simp add: elapsed_units_def pos_imp_zdiv_nonneg_iff)
  show "elapsed_units t \<le> 281600" using t unfolding elapsed_units_def by linarith
qed

lemma cube_le: "0 \<le> (x :: int) \<Longrightarrow> x \<le> 281600 \<Longrightarrow> 410 * x ^ 3 < 2 ^ 63"
proof -
  assume "0 \<le> x" "x \<le> 281600"
  then have "x ^ 3 \<le> 281600 ^ 3" by (intro power_mono)
  then have "410 * x ^ 3 \<le> 410 * 281600 ^ 3" by (rule mult_left_mono) simp
  also have "\<dots> < (2 ^ 63 :: int)" by simp
  finally show ?thesis .
qed

lemma int64_small: "0 \<le> x \<Longrightarrow> x < 2 ^ 63 \<Longrightarrow> int64 x = x"
proof -
  assume "0 \<le> x" "x < 2 ^ 63"
  moreover have "- (2 ^ 63) \<le> x" by (rule order_trans [OF _ \<open>0 \<le> x\<close>]) simp
  ultimately show ?thesis by (simp add: int64_def signed_take_bit_int_eq_self)
qed

lemma cubic_target_curve:
  assumes t: "0 \<le> t" "t \<le> 275000000000" and T: "unat (timeToOriginPoint c) \<le> 281600"
    and O: "unat (originPointCongestionWindow c) \<le> 1000"
    and origin: "410 * int (unat (timeToOriginPoint c)) ^ 3 div 2 ^ 40 \<le> int (unat (originPointCongestionWindow c))"
  shows "int (unat (cubic_target t c))
    = curve (int (unat (originPointCongestionWindow c))) (int (unat (timeToOriginPoint c))) (elapsed_units t)"
proof -
  define e where "e = elapsed_units t"
  define T' where "T' = int (unat (timeToOriginPoint c))"
  define w where "w = int (unat (originPointCongestionWindow c))"
  have "T' \<le> int 281600" "w \<le> int 1000" unfolding T'_def w_def using T O by (simp_all only: of_nat_le_iff)
  moreover have "0 \<le> T'" "0 \<le> w" by (simp_all only: T'_def w_def of_nat_0_le_iff)
  ultimately have T': "0 \<le> T'" "T' \<le> 281600" and w: "0 \<le> w" "w \<le> 1000" by simp_all
  note e = elapsed_units_bounds [OF t, folded e_def]
  have "0 \<le> t div 1000" "t div 1000 \<le> 275000000" using t by linarith+
  then have "0 \<le> (t div 1000) * 1024" "(t div 1000) * 1024 < 2 ^ 63" by simp_all
  then have el: "int64 ((t sdiv 1000) * 2 ^ 10) sdiv 1000000 = e"
    using t by (simp add: sdiv_nonneg int64_small e_def elapsed_units_def)
  define off where "off = \<bar>T' - e\<bar>"
  have off: "0 \<le> off" "off \<le> 281600" using T' e by (simp_all add: off_def)
  define d where "d = 410 * off ^ 3 div 2 ^ 40"
  have c3: "0 \<le> 410 * off ^ 3" "410 * off ^ 3 < 2 ^ 63" using cube_le [OF off] off by simp_all
  have delta: "int64 (cubeCongestionWindowScale * off * off * off) div 2 ^ cubeScale = d"
    using int64_small [OF c3] by (simp add: cubeCongestionWindowScale_def cubeScale_def d_def power3_eq_cube mult.assoc)
  have d: "0 \<le> d" "d < 2 ^ 23" using c3 by (simp_all add: d_def pos_imp_zdiv_nonneg_iff)
  have W: "originPointCongestionWindow c = of_int w" by (simp add: w_def)
  have target: "cubic_target t c = (if e > T' then of_int (w + d) else of_int (w - d))"
    unfolding cubic_target_def Let_def el T'_def [symmetric] off_def [symmetric] delta W by simp
  have nat: "int (unat (of_int x :: uint64)) = x" if "0 \<le> x" "x < 2 ^ 64" for x
    using that by (simp add: uint_word_of_int)
  have "int (unat (cubic_target t c)) = curve w T' e"
  proof (cases "e > T'")
    case True
    then have off': "off = e - T'" by (simp add: off_def)
    have "int (unat (of_int (w + d) :: uint64)) = w + d" using w d by (intro nat) simp_all
    then show ?thesis using True unfolding target curve_def d_def off' by presburger
  next
    case False
    then have off': "off = T' - e" by (simp add: off_def)
    have "off ^ 3 \<le> T' ^ 3" using off' e off by (intro power_mono) simp_all
    then have "d \<le> w" using origin unfolding d_def T'_def [symmetric] w_def [symmetric]
      by (meson mult_left_mono order_trans zdiv_mono1 zero_less_numeral zero_less_power zero_le_numeral)
    then have "int (unat (of_int (w - d) :: uint64)) = w - d" using w d by (intro nat) simp_all
    then show ?thesis using False unfolding target curve_def d_def off' by presburger
  qed
  then show ?thesis unfolding w_def T'_def e_def .
qed

lemma curve_mono:
  assumes "0 \<le> e1" "e1 \<le> e2"
  shows "curve orig T e1 \<le> curve orig T e2"
proof -
  have up: "0 \<le> x \<Longrightarrow> x \<le> y \<Longrightarrow> 410 * x ^ 3 div 2 ^ 40 \<le> 410 * y ^ 3 div (2 ^ 40 :: int)" for x y :: int
    by (intro zdiv_mono1 mult_left_mono power_mono) simp_all
  have pos: "0 \<le> x \<Longrightarrow> 0 \<le> 410 * x ^ 3 div (2 ^ 40 :: int)" for x :: int
    by (simp add: pos_imp_zdiv_nonneg_iff)
  show ?thesis
    using assms up [of "e1 - T" "e2 - T"] up [of "T - e2" "T - e1"] pos [of "e2 - T"] pos [of "T - e1"]
    by (auto simp: curve_def)
qed

text \<open>The cube of a rounded cube root is close to the number: for the windows below, the error is less than a packet.\<close>

lemma cube_close:
  fixes D r :: nat
  assumes "D \<le> 1000" "r ^ 3 \<le> 2681735677 * D" "2681735677 * D < (r + 1) ^ 3"
  shows "2 ^ 40 * D \<le> 410 * r ^ 3 + 2 ^ 40"
proof -
  have r: "r \<le> 14000"
  proof (rule ccontr)
    assume "\<not> r \<le> 14000"
    then have "14000 ^ 3 \<le> r ^ 3" by (intro power_mono) simp_all
    with assms(1,2) show False by simp
  qed
  then have "r * r \<le> 14000 * 14000" by (intro mult_mono) simp_all
  moreover have "(r + 1) ^ 3 = r ^ 3 + 3 * (r * r) + 3 * r + 1" by (simp add: power3_eq_cube algebra_simps)
  ultimately show ?thesis using assms(1,3) r by simp
qed

text \<open>What \<open>start_epoch\<close> sets: the window aimed at and the time to reach it.\<close>

lemma start_epoch_origin:
  assumes "epoch c = None" "unat current \<le> 1000" "unat (lastMaxCongestionWindow c) \<le> 1000"
    and c'_def: "c' = start_epoch now current c"
  shows "originPointCongestionWindow c' = max current (lastMaxCongestionWindow c)"
    and "410 * unat (timeToOriginPoint c') ^ 3 \<le> 2 ^ 40 * (unat (originPointCongestionWindow c') - unat current)"
    and "2 ^ 40 * (unat (originPointCongestionWindow c') - unat current) \<le> 410 * unat (timeToOriginPoint c') ^ 3 + 2 ^ 40"
    and "unat (timeToOriginPoint c') \<le> 281600"
    and "unat (originPointCongestionWindow c') \<le> 1000" "unat current \<le> unat (originPointCongestionWindow c')"
proof -
  define w T where "w = originPointCongestionWindow c'" and "T = timeToOriginPoint c'"
  have origin: "w = max current (lastMaxCongestionWindow c)"
    using assms(1) by (auto simp: w_def c'_def start_epoch_def Let_def max_def)
  have T: "410 * unat T ^ 3 \<le> 2 ^ 40 * (unat w - unat current) \<and> 2 ^ 40 * (unat w - unat current) \<le> 410 * unat T ^ 3 + 2 ^ 40"
  proof (cases "lastMaxCongestionWindow c \<le> current")
    case True
    then show ?thesis using assms(1) origin by (simp add: T_def c'_def start_epoch_def Let_def max_def)
  next
    case False
    define D where "D = lastMaxCongestionWindow c - current"
    have D: "unat D = unat w - unat current" "unat D \<le> 1000"
      using False assms(3) by (simp_all add: D_def origin unat_sub max_def)
    have cf: "cubeFactor = 2681735677" by (simp add: cubeFactor_def)
    have F: "unat (cubeFactor * D) = 2681735677 * unat D"
      using D(2) by (simp add: cf unat_mult_lem [THEN iffD1] unat_word_ariths)
    define r where "r = icbrt (2681735677 * unat D)"
    have r: "r ^ 3 \<le> 2681735677 * unat D" using icbrt_correct by (simp add: r_def)
    have "r < 2 ^ 32"
    proof (rule ccontr)
      assume "\<not> r < 2 ^ 32"
      then have "(2 ^ 32) ^ 3 \<le> r ^ 3" by (intro power_mono) simp_all
      with r D(2) show False by simp
    qed
    moreover have "T = of_nat r"
      using False assms(1) by (simp add: T_def c'_def start_epoch_def Let_def D_def [symmetric] F r_def)
    ultimately have "unat T = r" by (simp add: unat_of_nat)
    moreover have "2 ^ 40 * unat D \<le> 410 * r ^ 3 + 2 ^ 40"
      using cube_close [of "unat D" r] D(2) icbrt_correct [of "2681735677 * unat D"] by (simp add: r_def)
    ultimately show ?thesis using r D(1) by simp
  qed
  have wle: "unat w \<le> 1000" "unat current \<le> unat w"
    using assms(2,3) by (auto simp: origin max_def word_le_nat_alt)
  have Tle: "unat T \<le> 281600"
  proof (rule ccontr)
    assume "\<not> unat T \<le> 281600"
    then have "281600 ^ 3 \<le> unat T ^ 3" by (intro power_mono) simp_all
    with conjunct1 [OF T] wle show False by simp
  qed
  show "originPointCongestionWindow c' = max current (lastMaxCongestionWindow c)"
    "410 * unat (timeToOriginPoint c') ^ 3 \<le> 2 ^ 40 * (unat (originPointCongestionWindow c') - unat current)"
    "2 ^ 40 * (unat (originPointCongestionWindow c') - unat current) \<le> 410 * unat (timeToOriginPoint c') ^ 3 + 2 ^ 40"
    "unat (timeToOriginPoint c') \<le> 281600"
    "unat (originPointCongestionWindow c') \<le> 1000" "unat current \<le> unat (originPointCongestionWindow c')"
    using origin T Tle wle by (simp_all add: w_def T_def)
qed

text \<open>C26: After a loss the window follows a curve that starts at the reduced window (the cube root rounds by
  less than a packet), never falls while time passes, does not exceed the window of the loss before the
  origin point, and is exactly that window when the time to the origin point has passed: the subtraction
  does not wrap. This holds for windows of up to 1000 packets and for 275 seconds after the loss; then the
  cube overflows \<open>int64\<close>.\<close>

theorem cubic_curve:
  assumes "epoch c = None" "unat current \<le> 1000" "unat (lastMaxCongestionWindow c) \<le> 1000"
    and "0 \<le> t1" "t1 \<le> t2" "t2 \<le> 275000000000"
    and c'_def: "c' = start_epoch now current c"
  shows "current \<le> cubic_target t1 c' \<and> cubic_target t1 c' \<le> cubic_target t2 c'
    \<and> cubic_target 0 c' \<le> current + 1
    \<and> (elapsed_units t1 \<le> int (unat (timeToOriginPoint c')) \<longrightarrow>
         cubic_target t1 c' \<le> max current (lastMaxCongestionWindow c))
    \<and> (elapsed_units t1 = int (unat (timeToOriginPoint c')) \<longrightarrow>
         cubic_target t1 c' = max current (lastMaxCongestionWindow c))"
proof -
  define w T where "w = originPointCongestionWindow c'" and "T = timeToOriginPoint c'"
  note o = start_epoch_origin [OF assms(1-3) c'_def, folded w_def T_def]
  have Ti: "410 * int (unat T) ^ 3 \<le> 2 ^ 40 * (int (unat w) - int (unat current))"
  proof -
    have "int (410 * unat T ^ 3) \<le> int (2 ^ 40 * (unat w - unat current))" using o(2) by (simp only: of_nat_le_iff)
    then show ?thesis using o(6) by (simp only: of_nat_mult of_nat_power of_nat_numeral of_nat_diff)
  qed
  then have low: "410 * int (unat T) ^ 3 div 2 ^ 40 \<le> int (unat w) - int (unat current)"
    by (metis mult.commute nonzero_mult_div_cancel_left power_not_zero zdiv_mono1 zero_less_numeral zero_less_power zero_neq_numeral)
  have low': "410 * int (unat T) ^ 3 div 2 ^ 40 \<le> int (unat w)" using low by linarith
  have val: "int (unat (cubic_target t c')) = curve (int (unat w)) (int (unat T)) (elapsed_units t)"
    if "0 \<le> t" "t \<le> 275000000000" for t
    unfolding w_def T_def
    by (rule cubic_target_curve [OF that]) (fact o(4) [unfolded T_def] o(5) [unfolded w_def] low' [unfolded T_def w_def])+
  have el: "0 \<le> elapsed_units t1" "elapsed_units t1 \<le> elapsed_units t2"
    using elapsed_units_bounds(1) [of t1] assms(4-6) by (simp_all add: elapsed_units_def zdiv_mono1)
  have v1: "int (unat (cubic_target t1 c')) = curve (int (unat w)) (int (unat T)) (elapsed_units t1)"
    and v2: "int (unat (cubic_target t2 c')) = curve (int (unat w)) (int (unat T)) (elapsed_units t2)"
    by (rule val; use assms(4-6) in simp)+
  have v0: "int (unat (cubic_target 0 c')) = curve (int (unat w)) (int (unat T)) 0"
    using val [of 0] by (simp add: elapsed_units_def)
  have "curve (int (unat w)) (int (unat T)) 0 \<le> curve (int (unat w)) (int (unat T)) (elapsed_units t1)"
    using el(1) by (intro curve_mono) simp_all
  moreover have "int (unat current) \<le> curve (int (unat w)) (int (unat T)) 0"
    using low by (simp add: curve_def)
  ultimately have above: "unat current \<le> unat (cubic_target t1 c')" using v1 by linarith
  have grows: "unat (cubic_target t1 c') \<le> unat (cubic_target t2 c')"
    using curve_mono [OF el, of "int (unat w)" "int (unat T)"] v1 v2 by linarith
  have "2 ^ 40 * (int (unat w) - int (unat current)) \<le> 410 * int (unat T) ^ 3 + 2 ^ 40"
  proof -
    have "int (2 ^ 40 * (unat w - unat current)) \<le> int (410 * unat T ^ 3 + 2 ^ 40)" using o(3) by (simp only: of_nat_le_iff)
    then show ?thesis using o(6) by (simp only: of_nat_mult of_nat_add of_nat_power of_nat_numeral of_nat_diff)
  qed
  then have "(int (unat w) - int (unat current) - 1) * 2 ^ 40 \<le> 410 * int (unat T) ^ 3" by (simp add: algebra_simps)
  then have "int (unat w) - int (unat current) - 1 \<le> 410 * int (unat T) ^ 3 div 2 ^ 40"
    by (metis nonzero_mult_div_cancel_right power_not_zero zdiv_mono1 zero_less_numeral zero_less_power zero_neq_numeral)
  then have "int (unat (cubic_target 0 c')) \<le> int (unat current) + 1" unfolding v0 by (simp add: curve_def)
  moreover have "unat (current + 1) = unat current + 1" using assms(2) by (simp add: unat_word_ariths)
  ultimately have start: "cubic_target 0 c' \<le> current + 1" unfolding word_le_nat_alt by linarith
  have before: "cubic_target t1 c' \<le> w" if "elapsed_units t1 \<le> int (unat T)"
  proof -
    have "int (unat (cubic_target t1 c')) \<le> int (unat w)" unfolding v1 using that by (simp add: curve_def pos_imp_zdiv_nonneg_iff)
    then show ?thesis unfolding word_le_nat_alt by linarith
  qed
  have at_origin: "cubic_target t1 c' = w" if "elapsed_units t1 = int (unat T)"
  proof -
    have "int (unat (cubic_target t1 c')) = int (unat w)" unfolding v1 using that by (simp add: curve_def)
    then show ?thesis by (simp only: of_nat_eq_iff word_unat_eq_iff)
  qed
  show ?thesis unfolding T_def [symmetric] o(1) [symmetric]
    by (intro conjI impI; (rule start | erule before | erule at_origin | (unfold word_le_nat_alt, rule above grows)))
qed

theorem cubic_curve_witness:
  "17 \<le> cubic_target 0 (start_epoch 5 17 (NewCubic\<lparr>lastMaxCongestionWindow := 20\<rparr>))
   \<and> cubic_target 0 (start_epoch 5 17 (NewCubic\<lparr>lastMaxCongestionWindow := 20\<rparr>)) \<le> 18
   \<and> cubic_target 0 (start_epoch 5 17 (NewCubic\<lparr>lastMaxCongestionWindow := 20\<rparr>))
     \<le> cubic_target 1000000000 (start_epoch 5 17 (NewCubic\<lparr>lastMaxCongestionWindow := 20\<rparr>))"
  using cubic_curve [of "NewCubic\<lparr>lastMaxCongestionWindow := 20\<rparr>" 17 0 1000000000, OF _ _ _ _ _ _ refl, of 5]
  by (simp add: NewCubic_def cubic_Reset_def)

end
