(* ===== verification/Cubic_Sender.thy ===== *)
theory Cubic_Sender
  imports Cubic
begin

section \<open>Congestion control\<close>

text \<open>
  \<^verbatim>\<open>internal/congestion/\<close>: \<^verbatim>\<open>hybrid_slow_start.go\<close>, \<^verbatim>\<open>prr_sender.go\<close> and \<^verbatim>\<open>cubic_sender.go\<close>, the
  implementation of the interface \<open>SendAlgorithmWithDebugInfo\<close>. The round-trip statistics, which the
  sender shares with the handler of sent packets, are an argument.
\<close>

abbreviation DefaultTCPMSS :: ByteCount where "DefaultTCPMSS \<equiv> 1460"

subsection \<open>Hybrid slow start\<close>

definition hybridStartLowWindow :: ByteCount where "hybridStartLowWindow = 16"
definition hybridStartMinSamples :: uint32 where "hybridStartMinSamples = 8"
definition hybridStartDelayFactorExp :: nat where "hybridStartDelayFactorExp = 3"
definition hybridStartDelayMinThresholdUs :: int where "hybridStartDelayMinThresholdUs = 4000"
definition hybridStartDelayMaxThresholdUs :: int where "hybridStartDelayMaxThresholdUs = 16000"

record HybridSlowStart =
  endPacketNumber :: PacketNumber
  lastSentPacketNumber :: PacketNumber
  started :: bool
  currentMinRTT :: int
  rttSampleCount :: uint32
  hystartFound :: bool

definition StartReceiveRound :: "PacketNumber \<Rightarrow> HybridSlowStart \<Rightarrow> HybridSlowStart" where
  "StartReceiveRound lastSent s =
     s\<lparr>endPacketNumber := lastSent, currentMinRTT := 0, rttSampleCount := 0, started := True\<rparr>"

definition IsEndOfRound :: "PacketNumber \<Rightarrow> HybridSlowStart \<Rightarrow> bool" where
  "IsEndOfRound ack s \<longleftrightarrow> endPacketNumber s < ack"

definition ShouldExitSlowStart :: "int \<Rightarrow> int \<Rightarrow> ByteCount \<Rightarrow> HybridSlowStart \<Rightarrow> bool \<times> HybridSlowStart" where
  "ShouldExitSlowStart latest minimum congestionWindow s =
     (let s = (if \<not> started s then StartReceiveRound (lastSentPacketNumber s) s else s) in
      if hystartFound s then (True, s)
      else
        let s = s\<lparr>rttSampleCount := rttSampleCount s + 1\<rparr>;
            s = (if rttSampleCount s \<le> hybridStartMinSamples
                    \<and> (currentMinRTT s = 0 \<or> currentMinRTT s > latest)
                 then s\<lparr>currentMinRTT := latest\<rparr> else s);
            threshold = max (min ((minimum sdiv Microsecond) div 2 ^ hybridStartDelayFactorExp)
                                 hybridStartDelayMaxThresholdUs)
                            hybridStartDelayMinThresholdUs * Microsecond;
            s = (if rttSampleCount s = hybridStartMinSamples \<and> currentMinRTT s > minimum + threshold
                 then s\<lparr>hystartFound := True\<rparr> else s)
        in (congestionWindow \<ge> hybridStartLowWindow \<and> hystartFound s, s))"

definition hybrid_OnPacketSent :: "PacketNumber \<Rightarrow> HybridSlowStart \<Rightarrow> HybridSlowStart" where
  "hybrid_OnPacketSent n s = s\<lparr>lastSentPacketNumber := n\<rparr>"

definition hybrid_OnPacketAcked :: "PacketNumber \<Rightarrow> HybridSlowStart \<Rightarrow> HybridSlowStart" where
  "hybrid_OnPacketAcked n s = (if IsEndOfRound n s then s\<lparr>started := False\<rparr> else s)"

definition Restart :: "HybridSlowStart \<Rightarrow> HybridSlowStart" where
  "Restart s = s\<lparr>started := False, hystartFound := False\<rparr>"

subsection \<open>Proportional rate reduction\<close>

record PrrSender =
  bytesSentSinceLoss :: ByteCount
  bytesDeliveredSinceLoss :: ByteCount
  ackCountSinceLoss :: ByteCount
  bytesInFlightBeforeLoss :: ByteCount

definition prr_OnPacketSent :: "ByteCount \<Rightarrow> PrrSender \<Rightarrow> PrrSender" where
  "prr_OnPacketSent n p = p\<lparr>bytesSentSinceLoss := bytesSentSinceLoss p + n\<rparr>"

definition prr_OnPacketLost :: "ByteCount \<Rightarrow> PrrSender \<Rightarrow> PrrSender" where
  "prr_OnPacketLost inFlight p =
     p\<lparr>bytesSentSinceLoss := 0, bytesInFlightBeforeLoss := inFlight, bytesDeliveredSinceLoss := 0,
       ackCountSinceLoss := 0\<rparr>"

definition prr_OnPacketAcked :: "ByteCount \<Rightarrow> PrrSender \<Rightarrow> PrrSender" where
  "prr_OnPacketAcked n p =
     p\<lparr>bytesDeliveredSinceLoss := bytesDeliveredSinceLoss p + n, ackCountSinceLoss := ackCountSinceLoss p + 1\<rparr>"

definition prr_TimeUntilSend :: "ByteCount \<Rightarrow> ByteCount \<Rightarrow> ByteCount \<Rightarrow> PrrSender \<Rightarrow> int" where
  "prr_TimeUntilSend congestionWindow bytesInFlight slowstartThreshold p =
     (if bytesSentSinceLoss p = 0 \<or> bytesInFlight < DefaultTCPMSS then 0
      else if congestionWindow > bytesInFlight
      then (if bytesDeliveredSinceLoss p + ackCountSinceLoss p * DefaultTCPMSS \<le> bytesSentSinceLoss p
            then InfDuration else 0)
      else if bytesDeliveredSinceLoss p * slowstartThreshold > bytesSentSinceLoss p * bytesInFlightBeforeLoss p
      then 0 else InfDuration)"

subsection \<open>The sender\<close>

type_synonym Bandwidth = uint64

definition defaultMinimumCongestionWindow :: PacketNumber where "defaultMinimumCongestionWindow = 2"
definition maxBurstBytes :: ByteCount where "maxBurstBytes = 3 * DefaultTCPMSS"
definition renoBeta :: rat where "renoBeta = float32 (7 / 10)"

record connectionStats =
  slowstartPacketsLost :: PacketNumber
  slowstartBytesLost :: ByteCount

record cubicSender =
  hybridSlowStart :: HybridSlowStart
  prr :: PrrSender
  stats :: connectionStats
  cubic :: Cubic
  reno :: bool
  largestSentPacketNumber :: PacketNumber
  largestAckedPacketNumber :: PacketNumber
  largestSentAtLastCutback :: PacketNumber
  congestionWindow :: PacketNumber
  slowstartThreshold :: PacketNumber
  lastCutbackExitedSlowstart :: bool
  slowStartLargeReduction :: bool
  minCongestionWindow :: PacketNumber
  maxTCPCongestionWindow :: PacketNumber
  cs_numConnections :: int
  congestionWindowCount :: ByteCount
  initialCongestionWindow :: PacketNumber
  initialMaxCongestionWindow :: PacketNumber
  accurateBandwidth :: Bandwidth
  accurateBandwidthTime :: "int option"

definition no_prr :: PrrSender where
  "no_prr = \<lparr>bytesSentSinceLoss = 0, bytesDeliveredSinceLoss = 0, ackCountSinceLoss = 0, bytesInFlightBeforeLoss = 0\<rparr>"

definition NewCubicSender :: "bool \<Rightarrow> PacketNumber \<Rightarrow> PacketNumber \<Rightarrow> cubicSender" where
  "NewCubicSender useReno initialWindow initialMaxWindow =
     \<lparr>hybridSlowStart = \<lparr>endPacketNumber = 0, lastSentPacketNumber = 0, started = False, currentMinRTT = 0,
        rttSampleCount = 0, hystartFound = False\<rparr>,
      prr = no_prr, stats = \<lparr>slowstartPacketsLost = 0, slowstartBytesLost = 0\<rparr>, cubic = NewCubic, reno = useReno,
      largestSentPacketNumber = 0, largestAckedPacketNumber = 0, largestSentAtLastCutback = 0,
      congestionWindow = initialWindow, slowstartThreshold = initialMaxWindow, lastCutbackExitedSlowstart = False,
      slowStartLargeReduction = False, minCongestionWindow = defaultMinimumCongestionWindow,
      maxTCPCongestionWindow = initialMaxWindow, cs_numConnections = defaultNumConnections,
      congestionWindowCount = 0, initialCongestionWindow = initialWindow,
      initialMaxCongestionWindow = initialMaxWindow, accurateBandwidth = 0, accurateBandwidthTime = None\<rparr>"

definition GetCongestionWindow :: "cubicSender \<Rightarrow> ByteCount" where
  "GetCongestionWindow c = congestionWindow c * DefaultTCPMSS"

definition GetSlowStartThreshold :: "cubicSender \<Rightarrow> ByteCount" where
  "GetSlowStartThreshold c = slowstartThreshold c * DefaultTCPMSS"

definition InRecovery :: "cubicSender \<Rightarrow> bool" where
  "InRecovery c \<longleftrightarrow> largestAckedPacketNumber c \<le> largestSentAtLastCutback c \<and> largestAckedPacketNumber c \<noteq> 0"

definition InSlowStart :: "cubicSender \<Rightarrow> bool" where
  "InSlowStart c \<longleftrightarrow> GetCongestionWindow c < GetSlowStartThreshold c"

definition ExitSlowstart :: "cubicSender \<Rightarrow> cubicSender" where
  "ExitSlowstart c = c\<lparr>slowstartThreshold := congestionWindow c\<rparr>"

text \<open>A division by a window of no packets panics.\<close>

definition TimeUntilSend :: "RTTStats \<Rightarrow> ByteCount \<Rightarrow> cubicSender \<Rightarrow> goerr + int" where
  "TimeUntilSend rtt bytesInFlight c =
     (if InRecovery c
         \<and> prr_TimeUntilSend (GetCongestionWindow c) bytesInFlight (GetSlowStartThreshold c) (prr c) = 0
      then Inr 0
      else
        let d = 2 * GetCongestionWindow c div DefaultTCPMSS
        in if d = 0 then Inl (Panic ''integer divide by zero'')
           else
             let delay = smoothedRTT rtt sdiv sint d
             in Inr (if \<not> InSlowStart c then (delay * 8) sdiv 5 else delay))"

definition BandwidthFromDelta :: "ByteCount \<Rightarrow> int \<Rightarrow> Bandwidth" where
  "BandwidthFromDelta bytes d = bytes * 1000000000 div of_int d * 8"

definition BandwidthEstimate :: "RTTStats \<Rightarrow> cubicSender \<Rightarrow> Bandwidth" where
  "BandwidthEstimate rtt c =
     (if smoothedRTT rtt = 0 then 0 else BandwidthFromDelta (GetCongestionWindow c) (smoothedRTT rtt))"

text \<open>\<open>utilisation > 0.95\<close> is decided without rounding.\<close>

definition OnPacketSent ::
  "int \<Rightarrow> RTTStats \<Rightarrow> ByteCount \<Rightarrow> PacketNumber \<Rightarrow> ByteCount \<Rightarrow> bool \<Rightarrow> cubicSender \<Rightarrow> bool \<times> cubicSender" where
  "OnPacketSent now rtt bytesInFlight packetNumber bytes isRetransmittable c =
     (if \<not> isRetransmittable then (False, c)
      else
        let c = (if InRecovery c then c\<lparr>prr := prr_OnPacketSent bytes (prr c)\<rparr> else c);
            c = c\<lparr>largestSentPacketNumber := packetNumber,
                  hybridSlowStart := hybrid_OnPacketSent packetNumber (hybridSlowStart c)\<rparr>;
            c = (if 20 * unat bytesInFlight > 19 * unat (GetCongestionWindow c)
                 then c\<lparr>accurateBandwidth := BandwidthEstimate rtt c, accurateBandwidthTime := Some now\<rparr> else c)
        in (True, c))"

definition MaybeExitSlowStart :: "RTTStats \<Rightarrow> cubicSender \<Rightarrow> cubicSender" where
  "MaybeExitSlowStart rtt c =
     (if InSlowStart c then
        (let (exits, h) = ShouldExitSlowStart (latestRTT rtt) (minRTT rtt) (GetCongestionWindow c div DefaultTCPMSS)
                            (hybridSlowStart c);
             c = c\<lparr>hybridSlowStart := h\<rparr>
         in if exits then ExitSlowstart c else c)
      else c)"

definition isCwndLimited :: "ByteCount \<Rightarrow> cubicSender \<Rightarrow> bool" where
  "isCwndLimited bytesInFlight c =
     (let congestionWindow = GetCongestionWindow c in
      if bytesInFlight \<ge> congestionWindow then True
      else
        let availableBytes = congestionWindow - bytesInFlight;
            slowStartLimited = (InSlowStart c \<and> bytesInFlight > congestionWindow div 2)
        in slowStartLimited \<or> availableBytes \<le> maxBurstBytes)"

definition maybeIncreaseCwnd :: "int \<Rightarrow> RTTStats \<Rightarrow> ByteCount \<Rightarrow> cubicSender \<Rightarrow> cubicSender option" where
  "maybeIncreaseCwnd now rtt bytesInFlight c =
     (if \<not> isCwndLimited bytesInFlight c then Some (c\<lparr>cubic := OnApplicationLimited now (cubic c)\<rparr>)
      else if congestionWindow c \<ge> maxTCPCongestionWindow c then Some c
      else if InSlowStart c then Some (c\<lparr>congestionWindow := congestionWindow c + 1\<rparr>)
      else if reno c then
        (let c = c\<lparr>congestionWindowCount := congestionWindowCount c + 1\<rparr>
         in if congestionWindowCount c * of_int (cs_numConnections c) \<ge> congestionWindow c
            then Some (c\<lparr>congestionWindow := congestionWindow c + 1, congestionWindowCount := 0\<rparr>) else Some c)
      else
        (case CongestionWindowAfterAck now (congestionWindow c) (minRTT rtt) (cubic c) of
           None \<Rightarrow> None
         | Some (w, cub) \<Rightarrow>
             Some (c\<lparr>congestionWindow := min (maxTCPCongestionWindow c) w, cubic := cub\<rparr>)))"

definition OnPacketAcked ::
  "int \<Rightarrow> RTTStats \<Rightarrow> PacketNumber \<Rightarrow> ByteCount \<Rightarrow> ByteCount \<Rightarrow> cubicSender \<Rightarrow> cubicSender option" where
  "OnPacketAcked now rtt ackedPacketNumber ackedBytes bytesInFlight c =
     (let c = c\<lparr>largestAckedPacketNumber := max ackedPacketNumber (largestAckedPacketNumber c)\<rparr>
      in if InRecovery c then Some (c\<lparr>prr := prr_OnPacketAcked ackedBytes (prr c)\<rparr>)
         else case maybeIncreaseCwnd now rtt bytesInFlight c of
                None \<Rightarrow> None
              | Some c \<Rightarrow>
                  Some (if InSlowStart c
                        then c\<lparr>hybridSlowStart := hybrid_OnPacketAcked ackedPacketNumber (hybridSlowStart c)\<rparr>
                        else c))"

definition RenoBeta :: "cubicSender \<Rightarrow> rat" where
  "RenoBeta c =
     (let n = float32 (of_int (cs_numConnections c))
      in float32 (float32 (float32 (n - 1) + renoBeta) / n))"

text \<open>The two parts of \<open>OnPacketLost\<close>: a loss that belongs to the last loss event, and the reduction of
  the window.\<close>

definition lost_again :: "ByteCount \<Rightarrow> cubicSender \<Rightarrow> cubicSender" where
  "lost_again lostBytes c =
     (if lastCutbackExitedSlowstart c then
        (let c = c\<lparr>stats := (stats c)\<lparr>slowstartPacketsLost := slowstartPacketsLost (stats c) + 1,
                                       slowstartBytesLost := slowstartBytesLost (stats c) + lostBytes\<rparr>\<rparr>
         in if slowStartLargeReduction c then
              (let c = (if slowstartPacketsLost (stats c) = 1
                           \<or> slowstartBytesLost (stats c) div DefaultTCPMSS
                               > (slowstartBytesLost (stats c) - lostBytes) div DefaultTCPMSS
                        then c\<lparr>congestionWindow := max (congestionWindow c - 1) (minCongestionWindow c)\<rparr> else c)
               in c\<lparr>slowstartThreshold := congestionWindow c\<rparr>)
            else c)
      else c)"

definition reduce_window :: "cubicSender \<Rightarrow> cubicSender" where
  "reduce_window c =
     (let c = (if slowStartLargeReduction c \<and> InSlowStart c then c\<lparr>congestionWindow := congestionWindow c - 1\<rparr>
               else if reno c then c\<lparr>congestionWindow := scale_window (congestionWindow c) (RenoBeta c)\<rparr>
               else (let (w, cub) = CongestionWindowAfterPacketLoss (congestionWindow c) (cubic c)
                     in c\<lparr>congestionWindow := w, cubic := cub\<rparr>))
      in if congestionWindow c < minCongestionWindow c
         then c\<lparr>congestionWindow := minCongestionWindow c\<rparr> else c)"

definition OnPacketLost :: "PacketNumber \<Rightarrow> ByteCount \<Rightarrow> ByteCount \<Rightarrow> cubicSender \<Rightarrow> cubicSender" where
  "OnPacketLost packetNumber lostBytes bytesInFlight c =
     (if packetNumber \<le> largestSentAtLastCutback c then lost_again lostBytes c
      else
        let c = c\<lparr>lastCutbackExitedSlowstart := InSlowStart c\<rparr>;
            c = (if InSlowStart c
                 then c\<lparr>stats := (stats c)\<lparr>slowstartPacketsLost := slowstartPacketsLost (stats c) + 1\<rparr>\<rparr> else c);
            c = reduce_window (c\<lparr>prr := prr_OnPacketLost bytesInFlight (prr c)\<rparr>)
        in c\<lparr>slowstartThreshold := congestionWindow c, largestSentAtLastCutback := largestSentPacketNumber c,
             congestionWindowCount := 0\<rparr>)"

definition SetNumEmulatedConnections :: "int \<Rightarrow> cubicSender \<Rightarrow> cubicSender" where
  "SetNumEmulatedConnections n c =
     (let c = c\<lparr>cs_numConnections := max n 1\<rparr>
      in c\<lparr>cubic := SetNumConnections (cs_numConnections c) (cubic c)\<rparr>)"

definition OnRetransmissionTimeout :: "bool \<Rightarrow> cubicSender \<Rightarrow> cubicSender" where
  "OnRetransmissionTimeout packetsRetransmitted c =
     (let c = c\<lparr>largestSentAtLastCutback := 0\<rparr>
      in if \<not> packetsRetransmitted then c
         else c\<lparr>hybridSlowStart := Restart (hybridSlowStart c), cubic := cubic_Reset (cubic c),
                slowstartThreshold := congestionWindow c div 2, congestionWindow := minCongestionWindow c\<rparr>)"

definition cs_OnConnectionMigration :: "cubicSender \<Rightarrow> cubicSender" where
  "cs_OnConnectionMigration c =
     c\<lparr>hybridSlowStart := Restart (hybridSlowStart c), prr := no_prr, largestSentPacketNumber := 0,
       largestAckedPacketNumber := 0, largestSentAtLastCutback := 0, lastCutbackExitedSlowstart := False,
       cubic := cubic_Reset (cubic c), congestionWindowCount := 0,
       congestionWindow := initialCongestionWindow c, slowstartThreshold := initialMaxCongestionWindow c,
       maxTCPCongestionWindow := initialMaxCongestionWindow c\<rparr>"

definition SetSlowStartLargeReduction :: "bool \<Rightarrow> cubicSender \<Rightarrow> cubicSender" where
  "SetSlowStartLargeReduction enabled c = c\<lparr>slowStartLargeReduction := enabled\<rparr>"

definition RetransmissionDelay :: "RTTStats \<Rightarrow> int" where
  "RetransmissionDelay rtt = (if smoothedRTT rtt = 0 then 0 else smoothedRTT rtt + meanDeviation rtt * 4)"

subsection \<open>The window stays in its limits\<close>

definition cs_ok :: "cubicSender \<Rightarrow> bool" where
  "cs_ok c \<longleftrightarrow> minCongestionWindow c = 2 \<and> 2 \<le> congestionWindow c
     \<and> congestionWindow c \<le> maxTCPCongestionWindow c \<and> maxTCPCongestionWindow c \<le> 1000
     \<and> 2 \<le> initialCongestionWindow c \<and> initialCongestionWindow c \<le> initialMaxCongestionWindow c
     \<and> initialMaxCongestionWindow c \<le> 1000
     \<and> 1 \<le> cs_numConnections c \<and> cs_numConnections c \<le> 1000 \<and> cubic_ok (cubic c)"

lemma RenoBeta_bounds:
  assumes "1 \<le> cs_numConnections c" "cs_numConnections c \<le> 1000"
  shows "0 < RenoBeta c" "RenoBeta c \<le> 1 - 1 / 4000"
proof -
  have "RenoBeta c = cubic_beta ((cubic c)\<lparr>numConnections := cs_numConnections c\<rparr>)"
    by (simp add: RenoBeta_def cubic_beta_def renoBeta_def beta_def)
  then show "0 < RenoBeta c" "RenoBeta c \<le> 1 - 1 / 4000"
    using cubic_beta_bounds [of "(cubic c)\<lparr>numConnections := cs_numConnections c\<rparr>"] assms by simp_all
qed

lemma scale_window_le:
  assumes f: "0 < f" "f \<le> 1 - 1 / 4000" and w: "unat w \<le> 1000"
  shows "scale_window w f \<le> w"
proof -
  define x :: rat where "x = of_nat (unat w)"
  have "\<bar>int (unat w)\<bar> \<le> int 1000" using w by (simp only: abs_of_nat of_nat_le_iff)
  then have "\<bar>int (unat w)\<bar> < 2 ^ 24" by (rule le_less_trans) simp
  from float32_int [OF this] have ex: "float32 x = x" by (simp add: x_def)
  have x: "0 \<le> x" unfolding x_def by (rule of_nat_0_le_iff)
  have "x * f \<le> x * (1 - 1 / 4000)" using f x by (intro mult_left_mono)
  moreover have y0: "0 \<le> x * f" using x f by simp
  moreover define p where "p = x * f"
  ultimately have "p \<le> 3999 / 4000 * x" "0 \<le> p" "float32 p \<le> p + p / 2 ^ 24"
    using float32_bounds(2) [OF y0] by simp_all
  then have "float32 p \<le> x" using x by simp
  with y0 have y: "0 \<le> float32 (x * f)" "float32 (x * f) \<le> x" by (simp_all add: float32_nonneg p_def)
  define k where "k = trunc (float32 (x * f))"
  have "0 \<le> k" "of_int k \<le> x" using trunc_bounds [OF y(1)] y(2) by (simp_all add: k_def)
  then have "0 \<le> k" "of_int k \<le> (of_int (int (unat w)) :: rat)" by (simp_all only: x_def of_int_of_nat_eq)
  then have k: "0 \<le> k" "k \<le> int (unat w)" by (simp_all only: of_int_le_iff)
  moreover have "int (unat w) \<le> int 1000" using w by (simp only: of_nat_le_iff)
  then have "int (unat w) < 2 ^ 64" by (rule le_less_trans) simp
  ultimately have "uint (of_int k :: uint64) = k" by (simp add: uint_word_of_int)
  then show ?thesis using k unfolding scale_window_def x_def [symmetric] ex k_def [symmetric] by (simp add: word_le_def)
qed

lemma cubic_ok_simps [simp]:
  "cubic_ok (OnApplicationLimited now c) = cubic_ok c"
  "cubic_ok c \<Longrightarrow> cubic_ok (cubic_Reset c)"
  "cubic_ok c \<Longrightarrow> 1 \<le> n \<Longrightarrow> n \<le> 1000 \<Longrightarrow> cubic_ok (SetNumConnections n c)"
  "cubic_ok c \<Longrightarrow> cubic_ok (snd (CongestionWindowAfterPacketLoss w c))"
  by (auto simp: cubic_ok_def OnApplicationLimited_def cubic_Reset_def SetNumConnections_def
      CongestionWindowAfterPacketLoss_def Let_def)

lemma tcp_potential_simps [simp]:
  "tcp_potential (OnApplicationLimited now c) = tcp_potential c"
  "tcp_potential (cubic_Reset c) = 4000000000"
  "tcp_potential (SetNumConnections n c) = tcp_potential c"
  "tcp_potential (snd (CongestionWindowAfterPacketLoss w c)) = tcp_potential c"
  by (auto simp: tcp_potential_def OnApplicationLimited_def cubic_Reset_def SetNumConnections_def
      CongestionWindowAfterPacketLoss_def Let_def)

lemma OnPacketSent_ok:
  assumes "OnPacketSent now rtt inFlight n b retr c = (r, c')"
  shows "cubic c' = cubic c" "cs_ok c' = cs_ok c"
  using assms by (auto simp: OnPacketSent_def Let_def cs_ok_def split: if_splits)

lemma MaybeExitSlowStart_ok: "cubic (MaybeExitSlowStart rtt c) = cubic c" "cs_ok (MaybeExitSlowStart rtt c) = cs_ok c"
  by (auto simp: MaybeExitSlowStart_def ExitSlowstart_def Let_def cs_ok_def split: prod.splits)

lemma maybeIncreaseCwnd_ok:
  assumes ok: "cs_ok c" and room: "tcp_potential (cubic c) < 2 ^ 33 - 2"
  shows "\<exists>c'. maybeIncreaseCwnd now rtt inFlight c = Some c' \<and> cs_ok c'
    \<and> tcp_potential (cubic c') \<le> max (tcp_potential (cubic c) + 1) 4000000001"
proof -
  have cur: "2 \<le> congestionWindow c" "unat (congestionWindow c) \<le> 1000"
    using ok by (auto simp: cs_ok_def word_le_nat_alt)
  have cub: "cubic_ok (cubic c)" using ok by (simp add: cs_ok_def)
  obtain w cu where w: "CongestionWindowAfterAck now (congestionWindow c) (minRTT rtt) (cubic c) = Some (w, cu)"
    "2 \<le> w" "cubic_ok cu" "tcp_potential cu \<le> max (tcp_potential (cubic c) + 1) 4000000001"
    using CongestionWindowAfterAck_ok [OF cub cur room] by blast
  have inc: "2 \<le> congestionWindow c + 1 \<and> congestionWindow c + 1 \<le> maxTCPCongestionWindow c"
    if "\<not> maxTCPCongestionWindow c \<le> congestionWindow c"
  proof -
    have "unat (congestionWindow c + 1) = unat (congestionWindow c) + 1" using cur by (intro unat_succ) simp
    then show ?thesis using that cur by (simp add: word_le_nat_alt)
  qed
  have "2 \<le> min (maxTCPCongestionWindow c) w" using ok w(2) by (auto simp: cs_ok_def)
  then have "cs_ok (c\<lparr>congestionWindow := min (maxTCPCongestionWindow c) w, cubic := cu\<rparr>)"
    using ok w(3) by (simp add: cs_ok_def)
  moreover have "cs_ok (c\<lparr>cubic := OnApplicationLimited now (cubic c)\<rparr>)" using ok by (simp add: cs_ok_def)
  moreover have "cs_ok (c\<lparr>congestionWindow := congestionWindow c + 1\<rparr>)"
    "cs_ok (c\<lparr>congestionWindow := congestionWindow c + 1, congestionWindowCount := 0\<rparr>)"
    "cs_ok (c\<lparr>congestionWindowCount := k\<rparr>)"
    if "\<not> maxTCPCongestionWindow c \<le> congestionWindow c" for k
    using ok inc [OF that] by (simp_all add: cs_ok_def)
  ultimately show ?thesis using ok w(1,4) unfolding maybeIncreaseCwnd_def Let_def by auto
qed

lemma OnPacketAcked_ok:
  assumes ok: "cs_ok c" and room: "tcp_potential (cubic c) < 2 ^ 33 - 2"
  shows "\<exists>c'. OnPacketAcked now rtt n b inFlight c = Some c' \<and> cs_ok c'
    \<and> tcp_potential (cubic c') \<le> max (tcp_potential (cubic c) + 1) 4000000001"
proof -
  define c1 where "c1 = c\<lparr>largestAckedPacketNumber := max n (largestAckedPacketNumber c)\<rparr>"
  have ok1: "cs_ok c1" "cubic c1 = cubic c" using ok by (simp_all add: c1_def cs_ok_def)
  obtain c2 where c2: "maybeIncreaseCwnd now rtt inFlight c1 = Some c2" "cs_ok c2"
    "tcp_potential (cubic c2) \<le> max (tcp_potential (cubic c1) + 1) 4000000001"
    using maybeIncreaseCwnd_ok [OF ok1(1), where now = now and rtt = rtt and inFlight = inFlight] room ok1(2) by metis
  have "cs_ok (c1\<lparr>prr := p\<rparr>) = cs_ok c1" for p by (simp add: cs_ok_def)
  moreover have "cs_ok (c2\<lparr>hybridSlowStart := h\<rparr>) = cs_ok c2" for h by (simp add: cs_ok_def)
  moreover have "tcp_potential (cubic c) \<le> max (tcp_potential (cubic c) + 1) 4000000001" by simp
  ultimately show ?thesis using c2 ok1 unfolding OnPacketAcked_def Let_def c1_def [symmetric]
    by (auto simp del: max_Suc_Suc)
qed

lemma lost_again_ok:
  assumes ok: "cs_ok c"
  shows "cs_ok (lost_again b c) \<and> cubic (lost_again b c) = cubic c
    \<and> congestionWindow (lost_again b c) \<le> congestionWindow c"
proof -
  have cur: "2 \<le> congestionWindow c" using ok by (simp add: cs_ok_def)
  have "congestionWindow c - 1 \<le> congestionWindow c"
    using cur by (simp add: word_le_nat_alt unat_sub)
  with ok cur show ?thesis by (auto simp: lost_again_def Let_def cs_ok_def)
qed

lemma reduce_window_ok:
  assumes ok: "cs_ok c"
  shows "cs_ok (reduce_window c) \<and> tcp_potential (cubic (reduce_window c)) = tcp_potential (cubic c)
    \<and> congestionWindow (reduce_window c) \<le> congestionWindow c"
proof -
  have cur: "2 \<le> congestionWindow c" "unat (congestionWindow c) \<le> 1000"
    using ok by (auto simp: cs_ok_def word_le_nat_alt)
  have sub: "congestionWindow c - 1 \<le> congestionWindow c" using cur by (simp add: word_le_nat_alt unat_sub)
  have r: "scale_window (congestionWindow c) (RenoBeta c) \<le> congestionWindow c"
    using ok cur(2) by (intro scale_window_le RenoBeta_bounds) (simp_all add: cs_ok_def)
  have l: "fst (CongestionWindowAfterPacketLoss (congestionWindow c) (cubic c)) \<le> congestionWindow c"
  proof -
    have "cubic_beta (cubic c\<lparr>lastMaxCongestionWindow := m, epoch := None\<rparr>) = cubic_beta (cubic c)" for m
      by (simp add: cubic_beta_def)
    then have "fst (CongestionWindowAfterPacketLoss (congestionWindow c) (cubic c))
        = scale_window (congestionWindow c) (cubic_beta (cubic c))"
      by (simp only: CongestionWindowAfterPacketLoss_def Let_def fst_conv)
    moreover have "\<dots> \<le> congestionWindow c"
      using ok cur(2) by (intro scale_window_le cubic_beta_bounds) (simp_all add: cs_ok_def cubic_ok_def)
    ultimately show ?thesis by simp
  qed
  obtain w cu where w: "CongestionWindowAfterPacketLoss (congestionWindow c) (cubic c) = (w, cu)" by fastforce
  have cu: "cubic_ok cu" "tcp_potential cu = tcp_potential (cubic c)" "w \<le> congestionWindow c"
    using l ok w cubic_ok_simps(4) [of "cubic c" "congestionWindow c"] tcp_potential_simps(4) [of "congestionWindow c" "cubic c"]
    by (simp_all add: cs_ok_def)
  show ?thesis using ok cur sub r cu unfolding reduce_window_def Let_def w cs_ok_def prod.case
    by (auto simp: not_less)
qed

lemma OnPacketLost_ok:
  assumes ok: "cs_ok c"
  shows "cs_ok (OnPacketLost n b inFlight c) \<and> tcp_potential (cubic (OnPacketLost n b inFlight c)) = tcp_potential (cubic c)
    \<and> congestionWindow (OnPacketLost n b inFlight c) \<le> congestionWindow c"
proof (cases "n \<le> largestSentAtLastCutback c")
  case True
  then show ?thesis using lost_again_ok [OF ok] by (simp add: OnPacketLost_def)
next
  case False
  obtain x y z where o: "OnPacketLost n b inFlight c
      = (let c' = reduce_window (c\<lparr>lastCutbackExitedSlowstart := x, stats := y, prr := z\<rparr>)
         in c'\<lparr>slowstartThreshold := congestionWindow c', largestSentAtLastCutback := largestSentPacketNumber c',
               congestionWindowCount := 0\<rparr>)"
  proof (cases "InSlowStart c")
    case True
    then show thesis using False that unfolding OnPacketLost_def Let_def
      by (simp add: InSlowStart_def GetCongestionWindow_def GetSlowStartThreshold_def)
  next
    case nss: False
    have "c\<lparr>lastCutbackExitedSlowstart := False, prr := p\<rparr> = c\<lparr>lastCutbackExitedSlowstart := False, stats := stats c, prr := p\<rparr>" for p
      by simp
    then show thesis using False nss that [where x = False and y = "stats c"] unfolding OnPacketLost_def Let_def
      by (simp add: InSlowStart_def GetCongestionWindow_def GetSlowStartThreshold_def)
  qed
  have "cs_ok (c\<lparr>lastCutbackExitedSlowstart := x, stats := y, prr := z\<rparr>)" using ok by (simp add: cs_ok_def)
  from reduce_window_ok [OF this] show ?thesis unfolding o Let_def by (simp add: cs_ok_def)
qed

subsection \<open>Runs\<close>

text \<open>
  \<open>cubic_run k c\<close>: a sender for initial windows of 2 to 1000 packets, after operations in any order, \<open>k\<close>
  of them acknowledgements, for 1 to 1000 emulated connections.
\<close>

inductive cubic_run :: "nat \<Rightarrow> cubicSender \<Rightarrow> bool" where
  start: "2 \<le> initial \<Longrightarrow> initial \<le> maximum \<Longrightarrow> maximum \<le> 1000 \<Longrightarrow> cubic_run 0 (NewCubicSender useReno initial maximum)"
| sent: "cubic_run k c \<Longrightarrow> OnPacketSent now rtt inFlight n b retr c = (r, c') \<Longrightarrow> cubic_run k c'"
| acked: "cubic_run k c \<Longrightarrow> OnPacketAcked now rtt n b inFlight c = Some c' \<Longrightarrow> cubic_run (Suc k) c'"
| lost: "cubic_run k c \<Longrightarrow> cubic_run k (OnPacketLost n b inFlight c)"
| exit: "cubic_run k c \<Longrightarrow> cubic_run k (MaybeExitSlowStart rtt c)"
| timeout: "cubic_run k c \<Longrightarrow> cubic_run k (OnRetransmissionTimeout r c)"
| migration: "cubic_run k c \<Longrightarrow> cubic_run k (cs_OnConnectionMigration c)"
| connections: "cubic_run k c \<Longrightarrow> n \<le> 1000 \<Longrightarrow> cubic_run k (SetNumEmulatedConnections n c)"
| reduction: "cubic_run k c \<Longrightarrow> cubic_run k (SetSlowStartLargeReduction b c)"

lemma cubic_run_ok:
  "cubic_run k c \<Longrightarrow> k \<le> 2 ^ 32 \<Longrightarrow> cs_ok c \<and> tcp_potential (cubic c) \<le> 4000000001 + k"
proof (induction rule: cubic_run.induct)
  case (start initial maximum useReno)
  then have "2 \<le> initial" "initial \<le> maximum" by simp_all
  with start show ?case
    by (auto simp: cs_ok_def NewCubicSender_def defaultMinimumCongestionWindow_def defaultNumConnections_def NewCubic_def
        cubic_Reset_def cubic_ok_def tcp_potential_def)
next
  case (sent k c now rtt inFlight n b retr r c')
  then show ?case using OnPacketSent_ok [OF sent.hyps(2)] by simp
next
  case (acked k c now rtt n b inFlight c')
  then have "cs_ok c" "tcp_potential (cubic c) \<le> 4000000001 + k" by simp_all
  with OnPacketAcked_ok [OF this(1), where now = now and rtt = rtt and n = n and b = b and inFlight = inFlight]
    acked.hyps(2) acked.prems show ?case by fastforce
next
  case (lost k c n b inFlight)
  then show ?case using OnPacketLost_ok [of c n b inFlight] by simp
next
  case (exit k c rtt)
  then show ?case by (simp add: MaybeExitSlowStart_ok)
next
  case (timeout k c r)
  then show ?case by (auto simp: OnRetransmissionTimeout_def Let_def cs_ok_def)
next
  case (migration k c)
  then show ?case by (auto simp: cs_OnConnectionMigration_def cs_ok_def)
next
  case (connections k c n)
  then show ?case by (auto simp: SetNumEmulatedConnections_def Let_def cs_ok_def)
next
  case (reduction k c b)
  then show ?case by (simp add: SetSlowStartLargeReduction_def cs_ok_def)
qed

lemma TimeUntilSend_ok:
  assumes ok: "cs_ok c"
  shows "\<exists>d. TimeUntilSend rtt inFlight c = Inr d"
proof -
  have w: "2 \<le> congestionWindow c" "congestionWindow c \<le> 1000" using ok by (auto simp: cs_ok_def)
  have "2 * GetCongestionWindow c div DefaultTCPMSS \<noteq> 0"
  proof -
    have w': "2 \<le> unat (congestionWindow c)" "unat (congestionWindow c) \<le> 1000" using w by (simp_all add: word_le_nat_alt)
    have "unat (congestionWindow c * 1460) = unat (congestionWindow c) * 1460"
      using w' by (subst unat_mult_lem [THEN iffD1]) simp_all
    then have "unat (2 * GetCongestionWindow c) = 2 * (unat (congestionWindow c) * 1460)"
      unfolding GetCongestionWindow_def using w' by (subst unat_mult_lem [THEN iffD1]) simp_all
    then have "unat (2 * GetCongestionWindow c div DefaultTCPMSS) = 2 * (unat (congestionWindow c) * 1460) div 1460"
      by (simp add: unat_div)
    with w' have "unat (2 * GetCongestionWindow c div DefaultTCPMSS) \<noteq> 0" by simp
    then show ?thesis by (metis unat_0)
  qed
  then show ?thesis by (simp add: TimeUntilSend_def Let_def)
qed

text \<open>C12: In every run of up to \<open>2 ^ 32\<close> acknowledgements the congestion window stays between 2 and 1000
  packets, a loss never raises it, every acknowledgement is processed in finite time - the loop over the
  TCP window ends in spite of the \<open>float32\<close> factors - and the pacing delay is never divided by zero.\<close>

theorem window_in_limits:
  assumes "cubic_run k c" "k < 2 ^ 32"
  shows "2 \<le> congestionWindow c \<and> congestionWindow c \<le> 1000
    \<and> congestionWindow (OnPacketLost n b inFlight c) \<le> congestionWindow c
    \<and> OnPacketAcked now rtt n b inFlight c \<noteq> None
    \<and> (\<exists>d. TimeUntilSend rtt inFlight c = Inr d)"
proof -
  have ok: "cs_ok c" "tcp_potential (cubic c) \<le> 4000000001 + k" using cubic_run_ok [OF assms(1)] assms(2) by simp_all
  have w: "2 \<le> congestionWindow c" "congestionWindow c \<le> 1000" using ok(1) by (auto simp: cs_ok_def)
  have "\<exists>d. TimeUntilSend rtt inFlight c = Inr d" by (rule TimeUntilSend_ok [OF ok(1)])
  moreover have "OnPacketAcked now rtt n b inFlight c \<noteq> None"
    using OnPacketAcked_ok [OF ok(1), where now = now and rtt = rtt and n = n and b = b and inFlight = inFlight]
      ok(2) assms(2) by auto
  ultimately show ?thesis using w OnPacketLost_ok [OF ok(1)] by blast
qed

theorem window_in_limits_witness:
  "congestionWindow (OnPacketLost 3 1200 5000 (OnRetransmissionTimeout True (NewCubicSender False 32 1000)))
     \<le> congestionWindow (OnRetransmissionTimeout True (NewCubicSender False 32 1000))
   \<and> OnPacketAcked 7 NewRTTStats 3 1200 5000 (OnRetransmissionTimeout True (NewCubicSender False 32 1000)) \<noteq> None"
proof -
  have "cubic_run 0 (OnRetransmissionTimeout True (NewCubicSender False 32 1000))"
    by (intro cubic_run.timeout cubic_run.start) simp_all
  from window_in_limits [OF this] show ?thesis by simp
qed

end
