(* ===== verification/Sent_Packets.thy ===== *)
theory Sent_Packets
  imports Unpacker Cubic_Sender
begin

section \<open>Sent packets\<close>

text \<open>
  \<^verbatim>\<open>internal/ackhandler/\<close>: \<^verbatim>\<open>sent_packet_handler.go\<close>, \<^verbatim>\<open>packet.go\<close>, \<^verbatim>\<open>retransmittable.go\<close> and
  \<^verbatim>\<open>stop_waiting_manager.go\<close>. The linked list of packets is the list of its values, and an element of
  it is named by its value, which differs from all others in the packet number. Times are
  nanoseconds; a \<open>time.Time\<close> that may be zero is an option.
\<close>

subsection \<open>Packets\<close>

record Packet =
  pkt_PacketNumber :: PacketNumber
  pkt_PacketType :: byte
  pkt_Frames :: "Frame list"
  pkt_Length :: ByteCount
  pkt_EncryptionLevel :: EncryptionLevel
  pkt_largestAcked :: PacketNumber
  pkt_sendTime :: int
  pkt_retransmitted :: bool

fun IsFrameRetransmittable :: "Frame \<Rightarrow> bool" where
  "IsFrameRetransmittable (Frame_StopWaiting f) = False"
| "IsFrameRetransmittable (Frame_Ack f) = False"
| "IsFrameRetransmittable f = True"

definition stripNonRetransmittableFrames :: "Frame list \<Rightarrow> Frame list" where
  "stripNonRetransmittableFrames fs = filter IsFrameRetransmittable fs"

definition HasRetransmittableFrames :: "Frame list \<Rightarrow> bool" where
  "HasRetransmittableFrames fs = list_ex IsFrameRetransmittable fs"

definition GetFramesForRetransmission :: "Packet \<Rightarrow> Frame list" where
  "GetFramesForRetransmission p =
     filter (\<lambda>f. case f of Frame_Ack _ \<Rightarrow> False | Frame_StopWaiting _ \<Rightarrow> False | _ \<Rightarrow> True) (pkt_Frames p)"

subsection \<open>STOP_WAITING frames\<close>

record stopWaitingManager =
  largestLeastUnackedSent :: PacketNumber
  nextLeastUnacked :: PacketNumber
  lastStopWaitingFrame :: "StopWaitingFrame option"

definition swm_GetStopWaitingFrame :: "bool \<Rightarrow> stopWaitingManager \<Rightarrow> StopWaitingFrame option \<times> stopWaitingManager" where
  "swm_GetStopWaitingFrame force s =
     (if nextLeastUnacked s \<le> largestLeastUnackedSent s
      then (if force then lastStopWaitingFrame s else None, s)
      else
        let s = s\<lparr>largestLeastUnackedSent := nextLeastUnacked s\<rparr>;
            swf = \<lparr>sw_LeastUnacked = nextLeastUnacked s, sw_PacketNumberLen = 0, sw_PacketNumber = 0\<rparr>
        in (Some swf, s\<lparr>lastStopWaitingFrame := Some swf\<rparr>))"

definition swm_ReceivedAck :: "AckFrame \<Rightarrow> stopWaitingManager \<Rightarrow> stopWaitingManager" where
  "swm_ReceivedAck ack s =
     (if ack_LargestAcked ack \<ge> nextLeastUnacked s then s\<lparr>nextLeastUnacked := ack_LargestAcked ack + 1\<rparr> else s)"

definition QueuedRetransmissionForPacketNumber :: "PacketNumber \<Rightarrow> stopWaitingManager \<Rightarrow> stopWaitingManager" where
  "QueuedRetransmissionForPacketNumber p s =
     (if p \<ge> nextLeastUnacked s then s\<lparr>nextLeastUnacked := p + 1\<rparr> else s)"

subsection \<open>The handler\<close>

definition defaultInitialRTT :: int where "defaultInitialRTT = 100000000"
definition defaultRTOTimeout :: int where "defaultRTOTimeout = 500000000"
definition minTPLTimeout :: int where "minTPLTimeout = 10000000"
definition minRTOTimeout :: int where "minRTOTimeout = 200000000"
definition maxRTOTimeout :: int where "maxRTOTimeout = 60000000000"
definition MaxTrackedSentPackets :: PacketNumber where "MaxTrackedSentPackets = 2 * 1000"
definition MaxTrackedSkippedPackets :: nat where "MaxTrackedSkippedPackets = 10"
definition MinPacingDelay :: int where "MinPacingDelay = 100000"

definition ErrDuplicateOrOutOfOrderAck :: goerr where
  "ErrDuplicateOrOutOfOrderAck = GoErr ''SentPacketHandler: Duplicate or out-of-order ACK''"

record sentPacketHandler =
  lastSent :: PacketNumber
  nextPacketSendTime :: "int option"
  skippedPackets :: "PacketNumber list"
  largestAcked :: PacketNumber
  largestReceivedPacketWithAck :: PacketNumber
  lowestPacketNotConfirmedAcked :: PacketNumber
  packetHistory :: "Packet list"
  swm :: stopWaitingManager
  retransmissionQueue :: "Packet list"
  bytesInFlight :: ByteCount
  congestion :: cubicSender
  rttStats :: RTTStats
  handshakeComplete :: bool
  handshakeCount :: uint32
  rtoCount :: uint32
  lossTime :: "int option"
  alarm :: "int option"

definition NewSentPacketHandler :: "RTTStats \<Rightarrow> sentPacketHandler" where
  "NewSentPacketHandler rtt =
     \<lparr>lastSent = 0, nextPacketSendTime = None, skippedPackets = [], largestAcked = 0,
      largestReceivedPacketWithAck = 0, lowestPacketNotConfirmedAcked = 0, packetHistory = [],
      swm = \<lparr>largestLeastUnackedSent = 0, nextLeastUnacked = 0, lastStopWaitingFrame = None\<rparr>,
      retransmissionQueue = [], bytesInFlight = 0, congestion = NewCubicSender False 32 1000,
      rttStats = rtt, handshakeComplete = False, handshakeCount = 0, rtoCount = 0, lossTime = None,
      alarm = None\<rparr>"

definition lowestUnacked :: "sentPacketHandler \<Rightarrow> PacketNumber" where
  "lowestUnacked h = (case packetHistory h of p # _ \<Rightarrow> pkt_PacketNumber p | [] \<Rightarrow> largestAcked h + 1)"

definition SetHandshakeComplete :: "sentPacketHandler \<Rightarrow> sentPacketHandler" where
  "SetHandshakeComplete h =
     h\<lparr>retransmissionQueue := filter (\<lambda>p. pkt_EncryptionLevel p = EncryptionForwardSecure) (retransmissionQueue h),
       packetHistory := filter (\<lambda>p. \<not> pkt_EncryptionLevel p \<noteq> EncryptionForwardSecure) (packetHistory h),
       handshakeComplete := True\<rparr>"

subsection \<open>Alarms\<close>

text \<open>\<open>d << n\<close> on an \<open>int64\<close>.\<close>

definition shift_left :: "int \<Rightarrow> uint32 \<Rightarrow> int" where
  "shift_left d n = int64 (d * 2 ^ unat n)"

definition computeHandshakeTimeout :: "sentPacketHandler \<Rightarrow> int" where
  "computeHandshakeTimeout h =
     (let duration = 2 * smoothedRTT (rttStats h);
          duration = (if duration = 0 then 2 * defaultInitialRTT else duration)
      in shift_left (max duration minTPLTimeout) (handshakeCount h))"

definition computeRTOTimeout :: "sentPacketHandler \<Rightarrow> int" where
  "computeRTOTimeout h =
     (let rto = RetransmissionDelay (rttStats h);
          rto = (if rto = 0 then defaultRTOTimeout else rto);
          rto = shift_left (max rto minRTOTimeout) (rtoCount h)
      in min rto maxRTOTimeout)"

definition updateLossDetectionAlarm :: "int \<Rightarrow> sentPacketHandler \<Rightarrow> sentPacketHandler" where
  "updateLossDetectionAlarm now h =
     (if packetHistory h = [] then h\<lparr>alarm := None\<rparr>
      else if \<not> handshakeComplete h then h\<lparr>alarm := Some (now + computeHandshakeTimeout h)\<rparr>
      else if lossTime h \<noteq> None then h\<lparr>alarm := lossTime h\<rparr>
      else h\<lparr>alarm := Some (now + computeRTOTimeout h)\<rparr>)"

subsection \<open>Sending\<close>

text \<open>The loop over the numbers that were skipped, from \<open>p\<close> on.\<close>

function skip_numbers :: "PacketNumber \<Rightarrow> PacketNumber \<Rightarrow> PacketNumber list \<Rightarrow> PacketNumber list" where
  "skip_numbers n p skipped =
     (if p < n then
        (let skipped = skipped @ [p]
         in skip_numbers n (p + 1) (if length skipped > MaxTrackedSkippedPackets then tl skipped else skipped))
      else skipped)"
  by pat_completeness auto
termination
proof (relation "measure (\<lambda>(n, p, _). unat n - unat p)")
  fix n p :: PacketNumber and skipped x :: "PacketNumber list"
  assume "p < n"
  then have "unat p < unat n" by (simp add: word_less_nat_alt)
  moreover have "unat n < 2 ^ 64" using unsigned_less [of n] by simp
  ultimately have "unat p < unat n" "unat (p + 1) = unat p + 1" using unat_succ [of p] by simp_all
  then show "((n, p + 1, if MaxTrackedSkippedPackets < length x then tl x else x), n, p, skipped)
      \<in> measure (\<lambda>(n, p, _). unat n - unat p)" by simp
qed simp

declare skip_numbers.simps [simp del]

definition max_time :: "int option \<Rightarrow> int \<Rightarrow> int" where
  "max_time a b = (case a of None \<Rightarrow> b | Some a \<Rightarrow> if a > b then a else b)"

definition SentPacket :: "int \<Rightarrow> Packet \<Rightarrow> sentPacketHandler \<Rightarrow> goerr option \<times> sentPacketHandler" where
  "SentPacket now packet h =
     (if of_nat (length (retransmissionQueue h) + length (packetHistory h) + 1) > MaxTrackedSentPackets
      then (Some (GoErr ''Too many outstanding non-acked and non-retransmitted packets''), h)
      else
        let h = h\<lparr>skippedPackets := skip_numbers (pkt_PacketNumber packet) (lastSent h + 1) (skippedPackets h),
                  lastSent := pkt_PacketNumber packet\<rparr>;
            acked = (case pkt_Frames packet of Frame_Ack f # _ \<Rightarrow> ack_LargestAcked f | _ \<Rightarrow> 0);
            packet = packet\<lparr>pkt_Frames := stripNonRetransmittableFrames (pkt_Frames packet)\<rparr>;
            isRetransmittable = (pkt_Frames packet \<noteq> []);
            h = (if isRetransmittable
                 then h\<lparr>bytesInFlight := bytesInFlight h + pkt_Length packet,
                        packetHistory := packetHistory h @ [packet\<lparr>pkt_sendTime := now, pkt_largestAcked := acked\<rparr>]\<rparr>
                 else h);
            h = h\<lparr>congestion := snd (OnPacketSent now (rttStats h) (bytesInFlight h) (pkt_PacketNumber packet)
                                   (pkt_Length packet) isRetransmittable (congestion h))\<rparr>
        in case TimeUntilSend (rttStats h) (bytesInFlight h) (congestion h) of
             Inl e \<Rightarrow> (Some e, h)
           | Inr d \<Rightarrow>
               (None, updateLossDetectionAlarm now (h\<lparr>nextPacketSendTime := Some (max_time (nextPacketSendTime h) now + d)\<rparr>)))"

subsection \<open>Retransmissions\<close>

definition queuePacketForRetransmission :: "Packet \<Rightarrow> sentPacketHandler \<Rightarrow> sentPacketHandler" where
  "queuePacketForRetransmission p h =
     h\<lparr>bytesInFlight := bytesInFlight h - pkt_Length p, retransmissionQueue := retransmissionQueue h @ [p],
       packetHistory := remove1 p (packetHistory h),
       swm := QueuedRetransmissionForPacketNumber (pkt_PacketNumber p) (swm h)\<rparr>"

definition queueRTO :: "Packet \<Rightarrow> sentPacketHandler \<Rightarrow> sentPacketHandler" where
  "queueRTO p h =
     (let h = queuePacketForRetransmission p h;
          h = h\<lparr>congestion := OnPacketLost (pkt_PacketNumber p) (pkt_Length p) (bytesInFlight h) (congestion h)\<rparr>
      in h\<lparr>congestion := OnRetransmissionTimeout True (congestion h)\<rparr>)"

definition retransmit_oldest :: "sentPacketHandler \<Rightarrow> sentPacketHandler" where
  "retransmit_oldest h = (case packetHistory h of [] \<Rightarrow> h | p # _ \<Rightarrow> queueRTO p h)"

definition retransmitOldestTwoPackets :: "sentPacketHandler \<Rightarrow> sentPacketHandler" where
  "retransmitOldestTwoPackets h = retransmit_oldest (retransmit_oldest h)"

definition queueHandshakePacketsForRetransmission :: "sentPacketHandler \<Rightarrow> sentPacketHandler" where
  "queueHandshakePacketsForRetransmission h =
     fold queuePacketForRetransmission
       (filter (\<lambda>p. pkt_EncryptionLevel p < EncryptionForwardSecure) (packetHistory h)) h"

text \<open>The loop of \<open>detectLostPackets\<close>: the lost packets and the loss time. The delay is \<open>9/8\<close> of the
  round-trip time; the product is exact in \<open>float64\<close> below \<open>2 ^ 49\<close> nanoseconds.\<close>

fun detect_lost :: "int \<Rightarrow> int \<Rightarrow> PacketNumber \<Rightarrow> Packet list \<Rightarrow> int option \<Rightarrow> Packet list \<times> int option" where
  "detect_lost now delayUntilLost largest [] loss = ([], loss)"
| "detect_lost now delayUntilLost largest (p # ps) loss =
     (if pkt_PacketNumber p > largest then ([], loss)
      else
        let timeSinceSent = now - pkt_sendTime p
        in if timeSinceSent > delayUntilLost
           then (let (lost, loss) = detect_lost now delayUntilLost largest ps loss in (p # lost, loss))
           else detect_lost now delayUntilLost largest ps
                  (if loss = None then Some (now + (delayUntilLost - timeSinceSent)) else loss))"

definition lose_packet :: "Packet \<Rightarrow> sentPacketHandler \<Rightarrow> sentPacketHandler" where
  "lose_packet p h =
     (let h = queuePacketForRetransmission p h
      in h\<lparr>congestion := OnPacketLost (pkt_PacketNumber p) (pkt_Length p) (bytesInFlight h) (congestion h)\<rparr>)"

definition detectLostPackets :: "int \<Rightarrow> sentPacketHandler \<Rightarrow> sentPacketHandler" where
  "detectLostPackets now h =
     (let maxRTT = max (latestRTT (rttStats h)) (smoothedRTT (rttStats h));
          (lost, loss) = detect_lost now ((9 * maxRTT) sdiv 8) (largestAcked h) (packetHistory h) None
      in fold lose_packet lost (h\<lparr>lossTime := loss\<rparr>))"

definition OnAlarm :: "int \<Rightarrow> sentPacketHandler \<Rightarrow> sentPacketHandler" where
  "OnAlarm now h =
     updateLossDetectionAlarm now
       (if \<not> handshakeComplete h
        then (let h = queueHandshakePacketsForRetransmission h in h\<lparr>handshakeCount := handshakeCount h + 1\<rparr>)
        else if lossTime h \<noteq> None then detectLostPackets now h
        else (let h = retransmitOldestTwoPackets h in h\<lparr>rtoCount := rtoCount h + 1\<rparr>))"

definition DequeuePacketForRetransmission :: "sentPacketHandler \<Rightarrow> Packet option \<times> sentPacketHandler" where
  "DequeuePacketForRetransmission h =
     (case retransmissionQueue h of
        [] \<Rightarrow> (None, h)
      | p # ps \<Rightarrow> (Some p, h\<lparr>retransmissionQueue := ps\<rparr>))"

subsection \<open>Acknowledgements\<close>

text \<open>The ranges are visited from the lowest to the highest; \<open>rs\<close> are those from \<open>ackRangeIndex\<close> on.\<close>

fun advance_range :: "PacketNumber \<Rightarrow> AckRange list \<Rightarrow> AckRange list" where
  "advance_range n (r # r' # rs) = (if n > ar_Last r then advance_range n (r' # rs) else r # r' # rs)"
| "advance_range n [r] = [r]"
| "advance_range n [] = []"

fun newly_acked :: "AckFrame \<Rightarrow> AckRange list \<Rightarrow> Packet list \<Rightarrow> goerr + Packet list" where
  "newly_acked f rs [] = Inr []"
| "newly_acked f rs (p # ps) =
     (let n = pkt_PacketNumber p in
      if n < ack_LowestAcked f then newly_acked f rs ps
      else if n > ack_LargestAcked f then Inr []
      else if HasMissingRanges f then
        (let rs = advance_range n rs; r = hd rs
         in if n \<ge> ar_First r
            then (if n > ar_Last r then Inl (GoErr ''BUG: ackhandler would have acked wrong packet'')
                  else ebind (newly_acked f rs ps) (\<lambda>acked. Inr (p # acked)))
            else newly_acked f rs ps)
      else ebind (newly_acked f rs ps) (\<lambda>acked. Inr (p # acked)))"

definition determineNewlyAckedPackets :: "AckFrame \<Rightarrow> sentPacketHandler \<Rightarrow> goerr + Packet list" where
  "determineNewlyAckedPackets f h = newly_acked f (rev (ack_AckRanges f)) (packetHistory h)"

fun find_packet :: "PacketNumber \<Rightarrow> Packet list \<Rightarrow> Packet option" where
  "find_packet n [] = None"
| "find_packet n (p # ps) =
     (if pkt_PacketNumber p = n then Some p else if pkt_PacketNumber p > n then None else find_packet n ps)"

definition maybeUpdateRTT :: "PacketNumber \<Rightarrow> int \<Rightarrow> int \<Rightarrow> sentPacketHandler \<Rightarrow> bool \<times> sentPacketHandler" where
  "maybeUpdateRTT largest ackDelay rcvTime h =
     (case find_packet largest (packetHistory h) of
        None \<Rightarrow> (False, h)
      | Some p \<Rightarrow> (True, h\<lparr>rttStats := UpdateRTT (rcvTime - pkt_sendTime p) ackDelay rcvTime (rttStats h)\<rparr>))"

definition skippedPacketsAcked :: "AckFrame \<Rightarrow> sentPacketHandler \<Rightarrow> bool" where
  "skippedPacketsAcked f h = list_ex (AcksPacket f) (skippedPackets h)"

fun delete_index :: "PacketNumber \<Rightarrow> nat \<Rightarrow> nat \<Rightarrow> PacketNumber list \<Rightarrow> nat" where
  "delete_index low i deleteIndex [] = deleteIndex"
| "delete_index low i deleteIndex (p # ps) =
     delete_index low (i + 1) (if p < low then i + 1 else deleteIndex) ps"

definition garbageCollectSkippedPackets :: "sentPacketHandler \<Rightarrow> sentPacketHandler" where
  "garbageCollectSkippedPackets h =
     h\<lparr>skippedPackets := drop (delete_index (lowestUnacked h) 0 0 (skippedPackets h)) (skippedPackets h)\<rparr>"

definition onPacketAcked :: "Packet \<Rightarrow> sentPacketHandler \<Rightarrow> sentPacketHandler" where
  "onPacketAcked p h =
     h\<lparr>bytesInFlight := bytesInFlight h - pkt_Length p, rtoCount := 0, handshakeCount := 0,
       packetHistory := remove1 p (packetHistory h)\<rparr>"

text \<open>The loop over the packets that are newly acknowledged. \<open>None\<close>: the congestion control does not
  return.\<close>

fun process_acked ::
  "int \<Rightarrow> EncryptionLevel \<Rightarrow> Packet list \<Rightarrow> sentPacketHandler \<Rightarrow> (goerr option \<times> sentPacketHandler) option" where
  "process_acked now encLevel [] h = Some (None, h)"
| "process_acked now encLevel (p # ps) h =
     (if encLevel < pkt_EncryptionLevel p
      then Some (Some (GoErr ''Received ACK with a lower encryption level''), h)
      else
        let h = (if pkt_largestAcked p \<noteq> 0
                 then h\<lparr>lowestPacketNotConfirmedAcked := max (lowestPacketNotConfirmedAcked h) (pkt_largestAcked p + 1)\<rparr>
                 else h);
            h = onPacketAcked p h
        in case Cubic_Sender.OnPacketAcked now (rttStats h) (pkt_PacketNumber p) (pkt_Length p) (bytesInFlight h) (congestion h) of
             None \<Rightarrow> None
           | Some c \<Rightarrow> process_acked now encLevel ps (h\<lparr>congestion := c\<rparr>))"

definition ReceivedAck ::
  "int \<Rightarrow> AckFrame \<Rightarrow> PacketNumber \<Rightarrow> EncryptionLevel \<Rightarrow> int \<Rightarrow> sentPacketHandler
   \<Rightarrow> (goerr option \<times> sentPacketHandler) option" where
  "ReceivedAck now f withPacketNumber encLevel rcvTime h =
     (if ack_LargestAcked f > lastSent h then Some (Some (QErr InvalidAckData), h)
      else if withPacketNumber \<le> largestReceivedPacketWithAck h then Some (Some ErrDuplicateOrOutOfOrderAck, h)
      else
        let h = h\<lparr>largestReceivedPacketWithAck := withPacketNumber\<rparr> in
        if ack_LargestAcked f < lowestUnacked h then Some (None, h)
        else
          let h = h\<lparr>largestAcked := ack_LargestAcked f\<rparr> in
          if skippedPacketsAcked f h then Some (Some (QErr InvalidAckData), h)
          else
            let (rttUpdated, h) = maybeUpdateRTT (ack_LargestAcked f) (sint (ack_DelayTime f)) rcvTime h;
                h = (if rttUpdated then h\<lparr>congestion := MaybeExitSlowStart (rttStats h) (congestion h)\<rparr> else h)
            in case determineNewlyAckedPackets f h of
                 Inl e \<Rightarrow> Some (Some e, h)
               | Inr acked \<Rightarrow>
                   (case process_acked now encLevel acked h of
                      None \<Rightarrow> None
                    | Some (Some e, h) \<Rightarrow> Some (Some e, h)
                    | Some (None, h) \<Rightarrow>
                        let h = updateLossDetectionAlarm rcvTime (detectLostPackets rcvTime h);
                            h = garbageCollectSkippedPackets h
                        in Some (None, h\<lparr>swm := swm_ReceivedAck f (swm h)\<rparr>)))"

subsection \<open>What the session asks\<close>

definition GetStopWaitingFrame :: "bool \<Rightarrow> sentPacketHandler \<Rightarrow> StopWaitingFrame option \<times> sentPacketHandler" where
  "GetStopWaitingFrame force h = (let (f, s) = swm_GetStopWaitingFrame force (swm h) in (f, h\<lparr>swm := s\<rparr>))"

definition SendingAllowed :: "sentPacketHandler \<Rightarrow> bool" where
  "SendingAllowed h =
     (let congestionLimited = (bytesInFlight h > GetCongestionWindow (congestion h));
          maxTrackedLimited = (of_nat (length (retransmissionQueue h) + length (packetHistory h)) \<ge> MaxTrackedSentPackets);
          haveRetransmissions = (length (retransmissionQueue h) > 0)
      in \<not> maxTrackedLimited \<and> (\<not> congestionLimited \<or> haveRetransmissions))"

text \<open>\<open>math.Ceil\<close> of the quotient; it is exact for the delays of at most 100 microseconds it is taken of.\<close>

definition ShouldSendNumPackets :: "sentPacketHandler \<Rightarrow> goerr + int" where
  "ShouldSendNumPackets h =
     (case TimeUntilSend (rttStats h) (bytesInFlight h) (congestion h) of
        Inl e \<Rightarrow> Inl e
      | Inr d \<Rightarrow> Inr (if d = 0 \<or> d > MinPacingDelay then 1 else \<lceil>of_int MinPacingDelay / of_int d :: rat\<rceil>))"

end
