(* ===== verification/Sent_Runs.thy ===== *)
theory Sent_Runs
  imports Sent_Packets "HOL-Library.Multiset"
begin

section \<open>What the handler of sent packets guarantees\<close>

subsection \<open>The packets an ACK frame acknowledges\<close>

abbreviation pn :: "Packet \<Rightarrow> PacketNumber" where "pn \<equiv> pkt_PacketNumber"

definition ascending :: "AckRange list \<Rightarrow> bool" where
  "ascending rs \<longleftrightarrow> sorted_wrt (\<lambda>r s. ar_Last r < ar_First s) rs \<and> (\<forall>r \<in> set rs. ar_First r \<le> ar_Last r)"

lemma advance_range_ok:
  assumes "ascending rs" "rs \<noteq> []" "n \<le> ar_Last (last rs)"
  shows "\<exists>r rs' dropped. advance_range n rs = r # rs' \<and> rs = dropped @ r # rs' \<and> n \<le> ar_Last r
    \<and> (\<forall>d \<in> set dropped. ar_Last d < n)"
  using assms
proof (induction n rs rule: advance_range.induct)
  case (1 n r r' rs)
  show ?case
  proof (cases "n > ar_Last r")
    case True
    have "ascending (r' # rs)" using "1.prems"(1) by (simp add: ascending_def)
    with 1 True obtain q rs' dropped where q: "advance_range n (r' # rs) = q # rs'" "r' # rs = dropped @ q # rs'"
      "n \<le> ar_Last q" "\<forall>d \<in> set dropped. ar_Last d < n" by auto
    have "advance_range n (r # r' # rs) = q # rs'" using True q(1) by simp
    moreover have "r # r' # rs = (r # dropped) @ q # rs'" using q(2) by simp
    moreover have "\<forall>d \<in> set (r # dropped). ar_Last d < n" using True q(4) by simp
    ultimately show ?thesis using q(3) by blast
  next
    case False
    then show ?thesis by (intro exI [of _ r] exI [of _ "r' # rs"] exI [of _ "[]"]) simp
  qed
next
  case (2 n r)
  then show ?case by (intro exI [of _ r] exI [of _ "[]"]) simp
qed simp

definition in_ranges :: "AckRange list \<Rightarrow> PacketNumber \<Rightarrow> bool" where
  "in_ranges rs n \<longleftrightarrow> (\<exists>r \<in> set rs. ar_First r \<le> n \<and> n \<le> ar_Last r)"

lemma newly_acked_ranges:
  assumes "HasMissingRanges f" "ascending rs" "rs \<noteq> []" "ar_Last (last rs) = ack_LargestAcked f"
    and "sorted_wrt (<) (map pn ps)"
  shows "newly_acked f rs ps
    = Inr (filter (\<lambda>p. ack_LowestAcked f \<le> pn p \<and> pn p \<le> ack_LargestAcked f \<and> in_ranges rs (pn p)) ps)"
  using assms
proof (induction ps arbitrary: rs)
  case (Cons p ps)
  let ?P = "\<lambda>rs p. ack_LowestAcked f \<le> pn p \<and> pn p \<le> ack_LargestAcked f \<and> in_ranges rs (pn p)"
  have sorted: "sorted_wrt (<) (map pn ps)" and later: "\<forall>q \<in> set ps. pn p < pn q" using Cons.prems(5) by auto
  consider (below) "pn p < ack_LowestAcked f" | (above) "\<not> pn p < ack_LowestAcked f" "ack_LargestAcked f < pn p"
    | (within) "\<not> pn p < ack_LowestAcked f" "\<not> ack_LargestAcked f < pn p" by blast
  then show ?case
  proof cases
    case below
    then show ?thesis using Cons.IH [OF Cons.prems(1-4) sorted] by (auto simp: not_le not_less Let_def)
  next
    case above
    then have "filter (?P rs) ps = []" using later by (auto simp: filter_empty_conv)
    then show ?thesis using above by (auto simp: not_le not_less Let_def)
  next
    case within
    then have "pn p \<le> ar_Last (last rs)" using Cons.prems(4) by simp
    from advance_range_ok [OF Cons.prems(2,3) this] obtain r rs' dropped where
      a: "advance_range (pn p) rs = r # rs'" "rs = dropped @ r # rs'" "pn p \<le> ar_Last r"
      "\<forall>d \<in> set dropped. ar_Last d < pn p" by blast
    have asc: "ascending (r # rs')" using Cons.prems(2) a(2) by (simp add: ascending_def sorted_wrt_append)
    have last: "ar_Last (last (r # rs')) = ack_LargestAcked f" using Cons.prems(4) a(2) by simp
    have same: "in_ranges rs n \<longleftrightarrow> in_ranges (r # rs') n" if "pn p \<le> n" for n
      using a(2,4) that by (fastforce simp: in_ranges_def)
    have "filter (?P (r # rs')) ps = filter (?P rs) ps"
      using same later by (intro filter_cong) (auto intro: less_imp_le)
    with Cons.IH [OF Cons.prems(1) asc _ last sorted] have IH: "newly_acked f (r # rs') ps = Inr (filter (?P rs) ps)"
      by simp
    have hit: "in_ranges rs (pn p) \<longleftrightarrow> ar_First r \<le> pn p"
      using same [of "pn p"] asc a(3) by (fastforce simp: in_ranges_def ascending_def)
    show ?thesis using within a(1,3) IH hit Cons.prems(1) by (auto simp: not_less Let_def)
  qed
qed simp

lemma newly_acked_single:
  assumes "\<not> HasMissingRanges f" "sorted_wrt (<) (map pn ps)"
  shows "newly_acked f rs ps = Inr (filter (\<lambda>p. ack_LowestAcked f \<le> pn p \<and> pn p \<le> ack_LargestAcked f) ps)"
  using assms
proof (induction ps)
  case (Cons p ps)
  have later: "\<forall>q \<in> set ps. pn p < pn q" using Cons.prems(2) by auto
  show ?case
  proof (cases "\<not> pn p < ack_LowestAcked f \<and> ack_LargestAcked f < pn p")
    case True
    then have "filter (\<lambda>p. ack_LowestAcked f \<le> pn p \<and> pn p \<le> ack_LargestAcked f) ps = []"
      using later by (auto simp: filter_empty_conv)
    with True show ?thesis by (auto simp: not_le not_less Let_def)
  next
    case False
    then show ?thesis using Cons by (auto simp: not_le not_less Let_def)
  qed
qed simp

lemma ranges_sorted:
  "ranges_ordered rs \<Longrightarrow> \<forall>r \<in> set rs. ar_First r \<le> ar_Last r \<and> ar_Last r \<le> maxVarInt8
   \<Longrightarrow> sorted_wrt (\<lambda>r s. ar_Last s < ar_First r) rs"
proof (induction rs rule: ranges_ordered.induct)
  case (1 l r rs)
  have "\<forall>s \<in> set (r # rs). ar_Last s < ar_First l"
    using "1.prems" by (intro last_below_first) auto
  moreover have "sorted_wrt (\<lambda>r s. ar_Last s < ar_First r) (r # rs)"
    using 1 by (auto split: if_splits)
  ultimately show ?case by simp
qed simp_all

lemma newly_acked_eq:
  assumes f: "ack_wf f" "ack_LargestAcked f \<le> maxVarInt8" and ps: "sorted_wrt (<) (map pn ps)"
  shows "newly_acked f (rev (ack_AckRanges f)) ps = Inr (filter (AcksPacket f \<circ> pn) ps)"
  using f(1)
proof (cases rule: ack_wf_cases)
  case single
  have "filter (AcksPacket f \<circ> pn) ps = filter (\<lambda>p. ack_LowestAcked f \<le> pn p \<and> pn p \<le> ack_LargestAcked f) ps"
    using single(2) by (intro filter_cong) (auto simp: AcksPacket_def not_less)
  then show ?thesis using newly_acked_single [OF single(2) ps] by simp
next
  case (ranges r rs)
  have ok: "\<forall>r' \<in> set (r # rs). ar_First r' \<le> ar_Last r' \<and> ar_Last r' \<le> maxVarInt8"
    using ranges(6,7) f(2) by (meson order_trans)
  have asc: "ascending (rev (ack_AckRanges f))"
    unfolding ascending_def sorted_wrt_rev ranges(1) using ranges_sorted [OF ranges(5) ok] ok by simp
  have "filter (AcksPacket f \<circ> pn) ps = filter (\<lambda>p. ack_LowestAcked f \<le> pn p \<and> pn p \<le> ack_LargestAcked f
      \<and> in_ranges (rev (ack_AckRanges f)) (pn p)) ps"
    using ranges(3) by (intro filter_cong) (auto simp: AcksPacket_def in_ranges_def not_less)
  then show ?thesis
    using newly_acked_ranges [OF ranges(3) asc _ _ ps] ranges(1,4) by simp
qed

subsection \<open>The books of a connection\<close>

text \<open>
  \<open>books h all tracked acked deq dropped leak\<close>: of the numbers \<open>all\<close> of the packets sent, \<open>tracked\<close> are
  those of packets with retransmittable frames; each of them is in the history, in the queue of
  retransmissions, among those handed back for retransmission (\<open>deq\<close>), acknowledged or dropped when
  the handshake completed, and nowhere twice. \<open>leak\<close> are the bytes of the dropped packets.
\<close>

definition books ::
  "sentPacketHandler \<Rightarrow> PacketNumber list \<Rightarrow> PacketNumber list \<Rightarrow> PacketNumber list \<Rightarrow> PacketNumber list
   \<Rightarrow> PacketNumber list \<Rightarrow> ByteCount \<Rightarrow> bool" where
  "books h all tracked acked deq dropped leak \<longleftrightarrow>
     sorted_wrt (<) (map pn (packetHistory h))
     \<and> mset tracked = mset (map pn (packetHistory h)) + mset (map pn (retransmissionQueue h))
                      + mset deq + mset acked + mset dropped
     \<and> sorted_wrt (<) tracked \<and> set tracked \<subseteq> set all
     \<and> (\<forall>n \<in> set all. n \<le> lastSent h) \<and> lastSent h \<le> maxVarInt8
     \<and> (\<forall>s \<in> set (skippedPackets h). s \<notin> set all \<and> s \<le> lastSent h)
     \<and> bytesInFlight h = sum_list (map pkt_Length (packetHistory h)) + leak
     \<and> length (retransmissionQueue h) + length (packetHistory h) \<le> 2000
     \<and> (\<forall>p \<in> set (packetHistory h) \<union> set (retransmissionQueue h).
          pkt_Frames p \<noteq> [] \<and> list_all IsFrameRetransmittable (pkt_Frames p))
     \<and> cs_ok (congestion h) \<and> tcp_potential (cubic (congestion h)) \<le> 4000000001 + length acked"

lemma books_cong:
  "books h all tracked acked deq dropped leak \<Longrightarrow> packetHistory h' = packetHistory h
   \<Longrightarrow> retransmissionQueue h' = retransmissionQueue h \<Longrightarrow> lastSent h' = lastSent h
   \<Longrightarrow> set (skippedPackets h') \<subseteq> set (skippedPackets h) \<Longrightarrow> bytesInFlight h' = bytesInFlight h
   \<Longrightarrow> cs_ok (congestion h') = cs_ok (congestion h) \<Longrightarrow> cubic (congestion h') = cubic (congestion h)
   \<Longrightarrow> books h' all tracked acked deq dropped leak"
  by (auto simp: books_def)

lemma sorted_wrt_map_remove1: "sorted_wrt P (map f xs) \<Longrightarrow> sorted_wrt P (map f (remove1 x xs))"
  by (induction xs) (auto dest: set_remove1_subset [THEN subsetD])

lemma books_history:
  assumes "books h all tracked acked deq dropped leak"
  shows "distinct (packetHistory h)" "\<forall>p \<in> set (packetHistory h). pn p \<in> set all \<and> pn p \<le> lastSent h"
proof -
  have s: "sorted_wrt (<) (map pn (packetHistory h))" using assms by (simp add: books_def)
  have "distinct (map pn (packetHistory h))"
    using s by (simp add: strict_sorted_iff)
  then show "distinct (packetHistory h)" by (simp add: distinct_map)
  have "set_mset (mset (map pn (packetHistory h))) \<subseteq> set tracked"
    using assms by (metis (no_types, lifting) books_def mset_subset_eq_add_left set_mset_mono set_mset_mset union_assoc)
  then show "\<forall>p \<in> set (packetHistory h). pn p \<in> set all \<and> pn p \<le> lastSent h"
    using assms by (auto simp: books_def)
qed

text \<open>A packet moves from the history to the queue.\<close>

definition queues :: "Packet \<Rightarrow> sentPacketHandler \<Rightarrow> sentPacketHandler \<Rightarrow> bool" where
  "queues p h h' \<longleftrightarrow>
     packetHistory h' = remove1 p (packetHistory h) \<and> retransmissionQueue h' = retransmissionQueue h @ [p]
     \<and> bytesInFlight h' = bytesInFlight h - pkt_Length p \<and> lastSent h' = lastSent h
     \<and> skippedPackets h' = skippedPackets h
     \<and> (cs_ok (congestion h) \<longrightarrow> cs_ok (congestion h')
          \<and> tcp_potential (cubic (congestion h')) \<le> max (tcp_potential (cubic (congestion h))) 4000000000)"

lemma books_queues:
  assumes b: "books h all tracked acked deq dropped leak" and p: "p \<in> set (packetHistory h)" and q: "queues p h h'"
  shows "books h' all tracked acked deq dropped leak"
proof -
  have "mset (packetHistory h) = add_mset p (mset (remove1 p (packetHistory h)))" using p by simp
  then have m: "mset (map pn (packetHistory h)) = add_mset (pn p) (mset (map pn (remove1 p (packetHistory h))))"
    by (metis image_mset_add_mset mset_map)
  have s: "sum_list (map pkt_Length (packetHistory h))
      = pkt_Length p + sum_list (map pkt_Length (remove1 p (packetHistory h)))"
    using p by (rule sum_list_map_remove1)
  have l: "length (packetHistory h) = Suc (length (remove1 p (packetHistory h)))"
    using p by (metis One_nat_def Suc_pred length_pos_if_in_set length_remove1)
  show ?thesis
    using b p q sorted_wrt_map_remove1 [of "(<)" pn "packetHistory h" p] m s l
    unfolding books_def queues_def
    by (auto dest: set_remove1_subset [THEN subsetD])
qed

lemma queue_queues:
  "queues p h (queuePacketForRetransmission p h)" "queues p h (lose_packet p h)" "queues p h (queueRTO p h)"
proof -
  show "queues p h (queuePacketForRetransmission p h)"
    by (simp add: queues_def queuePacketForRetransmission_def)
  show "queues p h (lose_packet p h)"
    using OnPacketLost_ok [of "congestion h"]
    by (simp add: queues_def lose_packet_def queuePacketForRetransmission_def Let_def)
  have "cs_ok (OnRetransmissionTimeout True c) \<and> tcp_potential (cubic (OnRetransmissionTimeout True c)) = 4000000000"
    if "cs_ok c" for c
    using that by (auto simp: OnRetransmissionTimeout_def cs_ok_def Let_def)
  then show "queues p h (queueRTO p h)"
    using OnPacketLost_ok [of "congestion h"]
    by (simp add: queues_def queueRTO_def queuePacketForRetransmission_def Let_def)
qed

lemma books_fold_queues:
  assumes q: "\<And>p h. queues p h (g p h)"
  shows "books h all tracked acked deq dropped leak \<Longrightarrow> distinct ps \<Longrightarrow> set ps \<subseteq> set (packetHistory h)
    \<Longrightarrow> books (fold g ps h) all tracked acked deq dropped leak"
proof (induction ps arbitrary: h)
  case (Cons p ps)
  have "distinct (packetHistory h)" using books_history(1) [OF Cons.prems(1)] .
  moreover have "packetHistory (g p h) = remove1 p (packetHistory h)" using q [of p h] by (simp add: queues_def)
  ultimately have "set ps \<subseteq> set (packetHistory (g p h))" using Cons.prems(2,3) by auto
  then show ?case
    using Cons.IH [of "g p h"] books_queues [OF Cons.prems(1) _ q] Cons.prems by simp
qed simp

lemma detect_lost_subset:
  "detect_lost now d largest ps loss = (lost, loss') \<Longrightarrow> distinct ps
   \<Longrightarrow> distinct lost \<and> set lost = {p \<in> set (takeWhile (\<lambda>p. \<not> pn p > largest) ps). now - pkt_sendTime p > d}"
proof (induction ps arbitrary: loss lost)
  case (Cons p ps)
  consider (above) "largest < pn p" | (lost) "\<not> largest < pn p" "now - pkt_sendTime p > d"
    | (kept) "\<not> largest < pn p" "\<not> now - pkt_sendTime p > d" by blast
  then show ?case
  proof cases
    case above
    then show ?thesis using Cons.prems by simp
  next
    case lost
    obtain lost1 where r: "detect_lost now d largest ps loss = (lost1, loss')" "lost = p # lost1"
      using Cons.prems(1) lost by (auto simp: Let_def split: prod.splits)
    from Cons.IH [OF r(1)] Cons.prems(2) have "distinct lost1"
      "set lost1 = {p \<in> set (takeWhile (\<lambda>p. \<not> pn p > largest) ps). now - pkt_sendTime p > d}" by auto
    then show ?thesis using lost Cons.prems(2) by (auto simp: r(2) dest: set_takeWhileD)
  next
    case kept
    then show ?thesis using Cons.prems Cons.IH by (auto simp: Let_def)
  qed
qed simp

lemma books_detectLostPackets:
  assumes b: "books h all tracked acked deq dropped leak"
  shows "books (detectLostPackets now h) all tracked acked deq dropped leak"
proof -
  obtain lost loss where d: "detect_lost now ((9 * max (latestRTT (rttStats h)) (smoothedRTT (rttStats h))) sdiv 8)
      (largestAcked h) (packetHistory h) None = (lost, loss)" by fastforce
  from detect_lost_subset [OF d books_history(1) [OF b]]
  have l: "distinct lost" "set lost \<subseteq> set (packetHistory (h\<lparr>lossTime := loss\<rparr>))" by (auto dest: set_takeWhileD)
  have "books (h\<lparr>lossTime := loss\<rparr>) all tracked acked deq dropped leak" by (rule books_cong [OF b]) simp_all
  from books_fold_queues [OF queue_queues(2) this l] show ?thesis by (simp add: detectLostPackets_def d Let_def)
qed

lemma alarm_keeps [simp]:
  "packetHistory (updateLossDetectionAlarm now h) = packetHistory h"
  "retransmissionQueue (updateLossDetectionAlarm now h) = retransmissionQueue h"
  "lastSent (updateLossDetectionAlarm now h) = lastSent h"
  "skippedPackets (updateLossDetectionAlarm now h) = skippedPackets h"
  "bytesInFlight (updateLossDetectionAlarm now h) = bytesInFlight h"
  "congestion (updateLossDetectionAlarm now h) = congestion h"
  "handshakeComplete (updateLossDetectionAlarm now h) = handshakeComplete h"
  "largestReceivedPacketWithAck (updateLossDetectionAlarm now h) = largestReceivedPacketWithAck h"
  by (simp_all add: updateLossDetectionAlarm_def)

lemma books_alarm: "books h all tracked acked deq dropped leak \<Longrightarrow> books (updateLossDetectionAlarm now h) all tracked acked deq dropped leak"
  by (rule books_cong) simp_all

subsection \<open>Acknowledgements keep the books\<close>

lemma books_ack_step:
  assumes b: "books h all tracked acked deq dropped leak" and p: "p \<in> set (packetHistory h)"
    and room: "length acked < 2 ^ 32"
  defines "h1 \<equiv> onPacketAcked p h"
  shows "\<exists>c. Cubic_Sender.OnPacketAcked now rtt (pn p) (pkt_Length p) inFlight (congestion h1) = Some c
    \<and> books (h1\<lparr>congestion := c\<rparr>) all tracked (acked @ [pn p]) deq dropped leak"
proof -
  have ok: "cs_ok (congestion h1)" and pot: "tcp_potential (cubic (congestion h1)) \<le> 4000000001 + length acked"
    using b by (simp_all add: books_def h1_def onPacketAcked_def)
  from OnPacketAcked_ok [OF ok, where now = now and rtt = rtt and n = "pn p" and b = "pkt_Length p" and inFlight = inFlight]
  obtain c where c: "Cubic_Sender.OnPacketAcked now rtt (pn p) (pkt_Length p) inFlight (congestion h1) = Some c"
    "cs_ok c" "tcp_potential (cubic c) \<le> 4000000001 + (length acked + 1)" using pot room by fastforce
  have "mset (packetHistory h) = add_mset p (mset (remove1 p (packetHistory h)))" using p by simp
  then have m: "mset (map pn (packetHistory h)) = add_mset (pn p) (mset (map pn (remove1 p (packetHistory h))))"
    by (metis image_mset_add_mset mset_map)
  have s: "sum_list (map pkt_Length (packetHistory h))
      = pkt_Length p + sum_list (map pkt_Length (remove1 p (packetHistory h)))"
    using p by (rule sum_list_map_remove1)
  have l: "length (packetHistory h) = Suc (length (remove1 p (packetHistory h)))"
    using p by (metis One_nat_def Suc_pred length_pos_if_in_set length_remove1)
  have "books (h1\<lparr>congestion := c\<rparr>) all tracked (acked @ [pn p]) deq dropped leak"
    using b p c(2,3) sorted_wrt_map_remove1 [of "(<)" pn "packetHistory h" p] m s l
    unfolding books_def h1_def onPacketAcked_def
    by (auto dest: set_remove1_subset [THEN subsetD])
  with c(1) show ?thesis by blast
qed

lemma onPacketAcked_keeps [simp]:
  "packetHistory (onPacketAcked p h) = remove1 p (packetHistory h)"
  "handshakeComplete (onPacketAcked p h) = handshakeComplete h"
  by (simp_all add: onPacketAcked_def)

text \<open>The loop keeps the books if it ends without an error, and it does when the level is sufficient.\<close>

lemma books_process_acked:
  "books h all tracked acked deq dropped leak \<Longrightarrow> distinct ps \<Longrightarrow> set ps \<subseteq> set (packetHistory h)
   \<Longrightarrow> length acked + length ps \<le> 2 ^ 32
   \<Longrightarrow> (\<forall>h'. process_acked now enc ps h = Some (None, h')
           \<longrightarrow> books h' all tracked (acked @ map pn ps) deq dropped leak)
     \<and> ((\<forall>p \<in> set ps. pkt_EncryptionLevel p \<le> enc) \<longrightarrow> (\<exists>h'. process_acked now enc ps h = Some (None, h')))"
proof (induction ps arbitrary: h acked)
  case (Cons p ps)
  define h0 where "h0 = (if pkt_largestAcked p \<noteq> 0
     then h\<lparr>lowestPacketNotConfirmedAcked := max (lowestPacketNotConfirmedAcked h) (pkt_largestAcked p + 1)\<rparr> else h)"
  have h0: "packetHistory h0 = packetHistory h" by (simp add: h0_def)
  have b0: "books h0 all tracked acked deq dropped leak" by (rule books_cong [OF Cons.prems(1)]) (simp_all add: h0_def)
  have p: "p \<in> set (packetHistory h0)" using Cons.prems(3) h0 by simp
  have room: "length acked < 2 ^ 32" using Cons.prems(4) by simp
  let ?h1 = "onPacketAcked p h0"
  obtain c where c: "Cubic_Sender.OnPacketAcked now (rttStats ?h1) (pn p) (pkt_Length p) (bytesInFlight ?h1) (congestion ?h1) = Some c"
    "books (?h1\<lparr>congestion := c\<rparr>) all tracked (acked @ [pn p]) deq dropped leak"
    using books_ack_step [OF b0 p room] by blast
  have step: "process_acked now enc (p # ps) h =
      (if enc < pkt_EncryptionLevel p then Some (Some (GoErr ''Received ACK with a lower encryption level''), h)
       else process_acked now enc ps (?h1\<lparr>congestion := c\<rparr>))"
    using c(1) by (simp add: Let_def h0_def [symmetric])
  have "distinct (packetHistory h0)" using books_history(1) [OF b0] .
  then have "set ps \<subseteq> set (packetHistory (?h1\<lparr>congestion := c\<rparr>))" using Cons.prems(2,3) h0 by auto
  from Cons.IH [OF c(2) _ this] Cons.prems(2,4) show ?case unfolding step by (auto simp: not_less)
qed simp

text \<open>\<open>ReceivedAck\<close> up to the point where it knows the packets that are newly acknowledged.\<close>

definition before_acks :: "AckFrame \<Rightarrow> PacketNumber \<Rightarrow> int \<Rightarrow> sentPacketHandler \<Rightarrow> sentPacketHandler" where
  "before_acks f n rcvTime h =
     (let h = h\<lparr>largestReceivedPacketWithAck := n, largestAcked := ack_LargestAcked f\<rparr>;
          (u, h) = maybeUpdateRTT (ack_LargestAcked f) (sint (ack_DelayTime f)) rcvTime h
      in if u then h\<lparr>congestion := MaybeExitSlowStart (rttStats h) (congestion h)\<rparr> else h)"

definition after_acks :: "AckFrame \<Rightarrow> int \<Rightarrow> sentPacketHandler \<Rightarrow> sentPacketHandler" where
  "after_acks f rcvTime h =
     (let h = garbageCollectSkippedPackets (updateLossDetectionAlarm rcvTime (detectLostPackets rcvTime h))
      in h\<lparr>swm := swm_ReceivedAck f (swm h)\<rparr>)"

lemma before_acks_keeps [simp]:
  "packetHistory (before_acks f n t h) = packetHistory h"
  "retransmissionQueue (before_acks f n t h) = retransmissionQueue h"
  "lastSent (before_acks f n t h) = lastSent h" "skippedPackets (before_acks f n t h) = skippedPackets h"
  "bytesInFlight (before_acks f n t h) = bytesInFlight h"
  "cs_ok (congestion (before_acks f n t h)) = cs_ok (congestion h)"
  "cubic (congestion (before_acks f n t h)) = cubic (congestion h)"
  by (simp_all add: before_acks_def maybeUpdateRTT_def Let_def MaybeExitSlowStart_ok split: option.split)

lemma ReceivedAck_eq:
  assumes "ack_LargestAcked f \<le> lastSent h" "largestReceivedPacketWithAck h < n" "lowestUnacked h \<le> ack_LargestAcked f"
    "\<not> skippedPacketsAcked f h" and b: "books h all tracked acked deq dropped leak" and f: "ack_wf f"
  shows "ReceivedAck now f n enc t h =
    (case process_acked now enc (filter (AcksPacket f \<circ> pn) (packetHistory h)) (before_acks f n t h) of
       None \<Rightarrow> None
     | Some (Some e, h) \<Rightarrow> Some (Some e, h)
     | Some (None, h) \<Rightarrow> Some (None, after_acks f t h))"
proof -
  have g: "(lastSent h < ack_LargestAcked f) = False" "(n \<le> largestReceivedPacketWithAck h) = False"
    "(ack_LargestAcked f < lowestUnacked h) = False"
    using assms(1-3) by (simp_all add: not_less not_le)
  have big: "ack_LargestAcked f \<le> maxVarInt8" and sorted: "sorted_wrt (<) (map pn (packetHistory h))"
    using assms(1) b by (auto simp: books_def)
  have d: "determineNewlyAckedPackets f (before_acks f n t h) = Inr (filter (AcksPacket f \<circ> pn) (packetHistory h))"
    unfolding determineNewlyAckedPackets_def using newly_acked_eq [OF f big sorted] by simp
  have lu: "lowestUnacked (h\<lparr>largestReceivedPacketWithAck := n\<rparr>) = lowestUnacked h"
    by (simp add: lowestUnacked_def split: list.split)
  have sk: "skippedPacketsAcked f (h\<lparr>largestReceivedPacketWithAck := n, largestAcked := ack_LargestAcked f\<rparr>) = skippedPacketsAcked f h"
    by (simp add: skippedPacketsAcked_def)
  obtain u h2 where u: "maybeUpdateRTT (ack_LargestAcked f) (sint (ack_DelayTime f)) t
      (h\<lparr>largestReceivedPacketWithAck := n, largestAcked := ack_LargestAcked f\<rparr>) = (u, h2)" by fastforce
  have ba: "before_acks f n t h = (if u then h2\<lparr>congestion := MaybeExitSlowStart (rttStats h2) (congestion h2)\<rparr> else h2)"
    by (simp add: before_acks_def Let_def u)
  show ?thesis
    unfolding ReceivedAck_def Let_def lu sk u prod.case ba [symmetric] after_acks_def
    by (simp only: g assms(4) if_False d sum.case)
qed

lemma books_after_acks:
  assumes b: "books h all tracked acked deq dropped leak"
  shows "books (after_acks f t h) all tracked acked deq dropped leak"
  unfolding after_acks_def Let_def garbageCollectSkippedPackets_def
  by (rule books_cong [OF books_alarm [OF books_detectLostPackets [OF b]]]) (auto dest: in_set_dropD)

lemma books_ReceivedAck:
  assumes b: "books h all tracked acked deq dropped leak" and f: "ack_wf f"
    and r: "ReceivedAck now f n enc t h = Some (None, h')"
    and room: "length acked + length (filter (AcksPacket f \<circ> pn) (packetHistory h)) \<le> 2 ^ 32"
  shows "books h' all tracked (acked @ map pn (filter (AcksPacket f \<circ> pn) (packetHistory h))) deq dropped leak"
proof (cases "ack_LargestAcked f < lowestUnacked h")
  case True
  have lu: "lowestUnacked (h\<lparr>largestReceivedPacketWithAck := n\<rparr>) = lowestUnacked h"
    by (simp add: lowestUnacked_def split: list.split)
  have h': "h' = h\<lparr>largestReceivedPacketWithAck := n\<rparr>"
    using r True by (auto simp: ReceivedAck_def Let_def lu split: if_splits)
  have "\<not> AcksPacket f (pn p)" if "p \<in> set (packetHistory h)" for p
  proof -
    have "lowestUnacked h \<le> pn p"
      using b that by (cases "packetHistory h") (auto simp: lowestUnacked_def books_def)
    then show ?thesis using True by (auto simp: AcksPacket_def)
  qed
  then have none: "filter (AcksPacket f \<circ> pn) (packetHistory h) = []" by (simp add: filter_empty_conv)
  show ?thesis unfolding none using books_cong [OF b, of h'] by (simp add: h')
next
  case False
  let ?ps = "filter (AcksPacket f \<circ> pn) (packetHistory h)"
  have g: "ack_LargestAcked f \<le> lastSent h" "largestReceivedPacketWithAck h < n" "lowestUnacked h \<le> ack_LargestAcked f"
    "\<not> skippedPacketsAcked f h"
  proof -
    have lu: "lowestUnacked (h\<lparr>largestReceivedPacketWithAck := n\<rparr>) = lowestUnacked h"
      by (simp add: lowestUnacked_def split: list.split)
    show "ack_LargestAcked f \<le> lastSent h" "largestReceivedPacketWithAck h < n" "lowestUnacked h \<le> ack_LargestAcked f"
      using r False by (auto simp: ReceivedAck_def not_less not_le split: if_splits)
    show "\<not> skippedPacketsAcked f h"
      using r False by (auto simp: ReceivedAck_def Let_def lu skippedPacketsAcked_def split: if_splits)
  qed
  from r ReceivedAck_eq [OF g b f] obtain h3 where p: "process_acked now enc ?ps (before_acks f n t h) = Some (None, h3)"
    "h' = after_acks f t h3"
    by (auto split: option.splits)
  have b2: "books (before_acks f n t h) all tracked acked deq dropped leak" by (rule books_cong [OF b]) simp_all
  have "distinct ?ps" "set ?ps \<subseteq> set (packetHistory (before_acks f n t h))" using books_history(1) [OF b] by auto
  from books_process_acked [OF b2 this room] p(1) have "books h3 all tracked (acked @ map pn ?ps) deq dropped leak" by blast
  then show ?thesis unfolding p(2) by (rule books_after_acks)
qed

subsection \<open>The other operations\<close>

lemma skip_numbers_set:
  "set (skip_numbers n p skipped) \<subseteq> set skipped \<union> {q. p \<le> q \<and> q < n}"
proof (induction n p skipped rule: skip_numbers.induct)
  case (1 n p skipped)
  show ?case
  proof (cases "p < n")
    case True
    have "unat n < 2 ^ 64" using unsigned_less [of n] by simp
    with True have "unat (p + 1) = unat p + 1" by (intro unat_succ) (simp add: word_less_nat_alt)
    then have "p \<le> p + 1" by (simp add: word_le_nat_alt)
    then have "{q. p + 1 \<le> q \<and> q < n} \<subseteq> {q. p \<le> q \<and> q < n}" by auto
    moreover have "set (if length (skipped @ [p]) > MaxTrackedSkippedPackets then tl (skipped @ [p]) else skipped @ [p])
        \<subseteq> set skipped \<union> {q. p \<le> q \<and> q < n}"
      using True by (auto dest: list.set_sel(2) [rotated])
    ultimately show ?thesis
      using "1.IH" [OF True refl] True by (subst skip_numbers.simps) (auto simp: Let_def)
  qed (simp add: skip_numbers.simps)
qed

definition send_effect :: "int \<Rightarrow> Packet \<Rightarrow> sentPacketHandler \<Rightarrow> sentPacketHandler" where
  "send_effect now p h =
     (let fs = stripNonRetransmittableFrames (pkt_Frames p) in
      if fs = [] then h
      else h\<lparr>bytesInFlight := bytesInFlight h + pkt_Length p,
             packetHistory := packetHistory h @
               [p\<lparr>pkt_Frames := fs, pkt_sendTime := now,
                  pkt_largestAcked := (case pkt_Frames p of Frame_Ack f # _ \<Rightarrow> ack_LargestAcked f | _ \<Rightarrow> 0)\<rparr>]\<rparr>)"

lemma books_SentPacket:
  assumes b: "books h all tracked acked deq dropped leak" and new: "lastSent h < pn p" "pn p \<le> maxVarInt8"
    and s: "SentPacket now p h = (None, h')"
  shows "books h' (all @ [pn p]) (tracked @ (if HasRetransmittableFrames (pkt_Frames p) then [pn p] else [])) acked deq dropped leak"
proof -
  let ?fs = "stripNonRetransmittableFrames (pkt_Frames p)"
  define h1 where "h1 = h\<lparr>skippedPackets := skip_numbers (pn p) (lastSent h + 1) (skippedPackets h), lastSent := pn p\<rparr>"
  have few: "\<not> of_nat (length (retransmissionQueue h) + length (packetHistory h) + 1) > MaxTrackedSentPackets"
    using s by (auto simp: SentPacket_def split: if_splits)
  have "length (retransmissionQueue h) + length (packetHistory h) \<le> 2000" using b by (simp add: books_def)
  then have few': "length (retransmissionQueue h) + length (packetHistory h) + 1 \<le> 2000"
    using few by (simp add: MaxTrackedSentPackets_def word_less_nat_alt unat_of_nat64 not_less del: of_nat_add of_nat_Suc)
  define h2 where "h2 = send_effect now p h1"
  obtain c t where h': "h' = updateLossDetectionAlarm now (h2\<lparr>congestion := c, nextPacketSendTime := t\<rparr>)"
    "cs_ok c = cs_ok (congestion h)" "cubic c = cubic (congestion h)"
  proof -
    have cong: "congestion h2 = congestion h" by (simp add: h2_def h1_def send_effect_def Let_def)
    define c where "c = snd (OnPacketSent now (rttStats h2) (bytesInFlight h2) (pn p) (pkt_Length p) (?fs \<noteq> []) (congestion h2))"
    have c: "cs_ok c = cs_ok (congestion h)" "cubic c = cubic (congestion h)"
      using OnPacketSent_ok [of now "rttStats h2" "bytesInFlight h2" "pn p" "pkt_Length p" "?fs \<noteq> []" "congestion h2"]
      by (simp_all add: c_def cong prod_eq_iff)
    have "\<exists>t. h' = updateLossDetectionAlarm now (h2\<lparr>congestion := c, nextPacketSendTime := t\<rparr>)"
      using s few
      by (auto simp: SentPacket_def Let_def h1_def [symmetric] h2_def send_effect_def c_def split: sum.splits if_splits)
    then show thesis using that c by blast
  qed
  have up: "unat (lastSent h + 1) = unat (lastSent h) + 1"
    using new by (intro unat_succ) (simp add: word_less_nat_alt word_le_nat_alt)
  have skipped: "s \<notin> set (all @ [pn p]) \<and> s \<le> pn p" if "s \<in> set (skippedPackets h1)" for s
  proof -
    have "s \<in> set (skippedPackets h) \<or> lastSent h + 1 \<le> s \<and> s < pn p"
      using skip_numbers_set [of "pn p" "lastSent h + 1" "skippedPackets h"] that by (auto simp: h1_def)
    then show ?thesis
    proof
      assume "s \<in> set (skippedPackets h)"
      then show ?thesis using b new by (fastforce simp: books_def)
    next
      assume a: "lastSent h + 1 \<le> s \<and> s < pn p"
      then have "lastSent h < s" using up by (simp add: word_le_nat_alt word_less_nat_alt)
      then show ?thesis using a b by (fastforce simp: books_def)
    qed
  qed
  have "books h2 (all @ [pn p]) (tracked @ (if HasRetransmittableFrames (pkt_Frames p) then [pn p] else [])) acked deq dropped leak"
  proof -
    have older: "\<forall>q \<in> set (packetHistory h). pn q < pn p" "\<forall>n \<in> set all. n < pn p" "\<forall>n \<in> set tracked. n < pn p"
      using books_history(2) [OF b] b new(1) by (fastforce simp: books_def)+
    have fs: "?fs = [] \<longleftrightarrow> \<not> HasRetransmittableFrames (pkt_Frames p)" "list_all IsFrameRetransmittable ?fs"
      by (auto simp: stripNonRetransmittableFrames_def HasRetransmittableFrames_def filter_empty_conv list_ex_iff list_all_iff)
    show ?thesis
    proof (cases "HasRetransmittableFrames (pkt_Frames p)")
      case True
      then have ne: "?fs \<noteq> []" using fs(1) by simp
      then show ?thesis using True b older new(2) skipped few' fs(2)
        unfolding books_def h2_def send_effect_def Let_def h1_def
        by (auto simp: sorted_wrt_append less_imp_le algebra_simps)
    next
      case False
      then have "?fs = []" using fs(1) by simp
      then show ?thesis using False b older new(2) skipped few'
        unfolding books_def h2_def send_effect_def Let_def h1_def
        by (auto simp: less_imp_le)
    qed
  qed
  then have "books (h2\<lparr>congestion := c, nextPacketSendTime := t\<rparr>) (all @ [pn p])
      (tracked @ (if HasRetransmittableFrames (pkt_Frames p) then [pn p] else [])) acked deq dropped leak"
    by (rule books_cong) (use h'(2,3) in \<open>simp_all add: h2_def h1_def send_effect_def Let_def\<close>)
  then show ?thesis unfolding h'(1) by (rule books_alarm)
qed

subsection \<open>Runs\<close>

record sent_net =
  hand :: sentPacketHandler
  all_sent :: "PacketNumber list"
  tracked_packets :: "PacketNumber list"
  acked_packets :: "PacketNumber list"
  handed_back :: "PacketNumber list"
  dropped_packets :: "PacketNumber list"
  leaked :: ByteCount

text \<open>A session sends packets with growing numbers. An error of \<open>SentPacket\<close> or \<open>ReceivedAck\<close> closes
  it, so a run goes on only without one; the ACK frames that come in passed the parser.\<close>

inductive sent_run :: "sent_net \<Rightarrow> bool" where
  start: "sent_run \<lparr>hand = NewSentPacketHandler rtt, all_sent = [], tracked_packets = [], acked_packets = [],
                   handed_back = [], dropped_packets = [], leaked = 0\<rparr>"
| send: "sent_run st \<Longrightarrow> lastSent (hand st) < pn p \<Longrightarrow> pn p \<le> maxVarInt8
    \<Longrightarrow> SentPacket now p (hand st) = (None, h')
    \<Longrightarrow> sent_run (st\<lparr>hand := h', all_sent := all_sent st @ [pn p],
          tracked_packets := tracked_packets st @ (if HasRetransmittableFrames (pkt_Frames p) then [pn p] else [])\<rparr>)"
| ack: "sent_run st \<Longrightarrow> ack_wf f \<Longrightarrow> ReceivedAck now f n enc t (hand st) = Some (None, h')
    \<Longrightarrow> sent_run (st\<lparr>hand := h',
          acked_packets := acked_packets st @ map pn (filter (AcksPacket f \<circ> pn) (packetHistory (hand st)))\<rparr>)"
| alarm: "sent_run st \<Longrightarrow> sent_run (st\<lparr>hand := OnAlarm now (hand st)\<rparr>)"
| dequeue: "sent_run st \<Longrightarrow> DequeuePacketForRetransmission (hand st) = (Some p, h')
    \<Longrightarrow> sent_run (st\<lparr>hand := h', handed_back := handed_back st @ [pn p]\<rparr>)"
| handshake: "sent_run st
    \<Longrightarrow> sent_run (st\<lparr>hand := SetHandshakeComplete (hand st),
          dropped_packets := dropped_packets st
            @ map pn (filter (\<lambda>p. pkt_EncryptionLevel p \<noteq> EncryptionForwardSecure)
                        (packetHistory (hand st) @ retransmissionQueue (hand st))),
          leaked := leaked st + sum_list (map pkt_Length
            (filter (\<lambda>p. pkt_EncryptionLevel p \<noteq> EncryptionForwardSecure) (packetHistory (hand st))))\<rparr>)"
| stop_waiting: "sent_run st \<Longrightarrow> GetStopWaitingFrame force (hand st) = (f, h') \<Longrightarrow> sent_run (st\<lparr>hand := h'\<rparr>)"

definition books_ok :: "sent_net \<Rightarrow> bool" where
  "books_ok st \<longleftrightarrow> books (hand st) (all_sent st) (tracked_packets st) (acked_packets st) (handed_back st)
     (dropped_packets st) (leaked st)"

lemma books_retransmit_oldest:
  assumes b: "books h all tracked acked deq dropped leak"
  shows "books (retransmit_oldest h) all tracked acked deq dropped leak"
proof (cases "packetHistory h")
  case (Cons p ps)
  then have "p \<in> set (packetHistory h)" by simp
  from books_queues [OF b this queue_queues(3)] Cons show ?thesis by (simp add: retransmit_oldest_def)
qed (use b in \<open>simp add: retransmit_oldest_def\<close>)

lemma books_OnAlarm:
  assumes b: "books h all tracked acked deq dropped leak"
  shows "books (OnAlarm now h) all tracked acked deq dropped leak"
proof -
  have "books (queueHandshakePacketsForRetransmission h) all tracked acked deq dropped leak"
    unfolding queueHandshakePacketsForRetransmission_def
    using books_history(1) [OF b] by (intro books_fold_queues [OF queue_queues(1) b]) auto
  then have "books (queueHandshakePacketsForRetransmission h\<lparr>handshakeCount := c\<rparr>) all tracked acked deq dropped leak" for c
    by (rule books_cong) simp_all
  moreover have "books (retransmitOldestTwoPackets h\<lparr>rtoCount := c\<rparr>) all tracked acked deq dropped leak" for c
    by (rule books_cong [OF books_retransmit_oldest [OF books_retransmit_oldest [OF b]]])
       (simp_all add: retransmitOldestTwoPackets_def)
  ultimately show ?thesis
    unfolding OnAlarm_def Let_def using books_alarm books_detectLostPackets [OF b] by simp
qed

lemma mset_filter_split: "mset (map g xs) = mset (map g (filter P xs)) + mset (map g (filter (\<lambda>x. \<not> P x) xs))"
  by (induction xs) simp_all

lemma sum_list_filter_split:
  "sum_list (map g xs) = sum_list (map g (filter P xs)) + (sum_list (map g (filter (\<lambda>x. \<not> P x) xs)) :: uint64)"
  by (induction xs) simp_all

lemma books_handshake:
  assumes b: "books h all tracked acked deq dropped leak"
  defines "old \<equiv> \<lambda>ps. filter (\<lambda>p. pkt_EncryptionLevel p \<noteq> EncryptionForwardSecure) ps"
  shows "books (SetHandshakeComplete h) all tracked acked deq
    (dropped @ map pn (old (packetHistory h @ retransmissionQueue h)))
    (leak + sum_list (map pkt_Length (old (packetHistory h))))"
proof -
  let ?new = "\<lambda>p. pkt_EncryptionLevel p = EncryptionForwardSecure"
  have m: "mset (map pn (packetHistory h)) = mset (map pn (filter ?new (packetHistory h))) + mset (map pn (old (packetHistory h)))"
    "mset (map pn (retransmissionQueue h)) = mset (map pn (filter ?new (retransmissionQueue h))) + mset (map pn (old (retransmissionQueue h)))"
    unfolding old_def by (rule mset_filter_split)+
  have s: "sum_list (map pkt_Length (packetHistory h))
      = sum_list (map pkt_Length (filter ?new (packetHistory h))) + sum_list (map pkt_Length (old (packetHistory h)))"
    unfolding old_def by (rule sum_list_filter_split)
  have l: "length (filter ?new (retransmissionQueue h)) \<le> length (retransmissionQueue h)"
    "length (filter ?new (packetHistory h)) \<le> length (packetHistory h)" by simp_all
  have sorted: "sorted_wrt (<) (map pn (filter ?new (packetHistory h)))"
    using b by (simp add: books_def sorted_wrt_map sorted_wrt_filter)
  have o: "old (packetHistory h @ retransmissionQueue h) = old (packetHistory h) @ old (retransmissionQueue h)"
    by (simp add: old_def)
  have "mset tracked = mset (map pn (packetHistory h)) + mset (map pn (retransmissionQueue h)) + mset deq + mset acked + mset dropped"
    using b by (simp only: books_def)
  then have "mset tracked = mset (map pn (filter ?new (packetHistory h))) + mset (map pn (filter ?new (retransmissionQueue h)))
      + mset deq + mset acked + mset (dropped @ map pn (old (packetHistory h) @ old (retransmissionQueue h)))"
    unfolding m map_append mset_append by (simp only: ac_simps)
  moreover have "bytesInFlight h = sum_list (map pkt_Length (filter ?new (packetHistory h)))
      + (leak + sum_list (map pkt_Length (old (packetHistory h))))"
    using b unfolding books_def s by (simp add: algebra_simps)
  moreover have "length (filter ?new (retransmissionQueue h)) + length (filter ?new (packetHistory h)) \<le> 2000"
    using b l unfolding books_def by linarith
  moreover have "\<forall>p \<in> set (filter ?new (packetHistory h)) \<union> set (filter ?new (retransmissionQueue h)).
      pkt_Frames p \<noteq> [] \<and> list_all IsFrameRetransmittable (pkt_Frames p)"
    using b unfolding books_def by auto
  ultimately show ?thesis
    using b sorted unfolding books_def SetHandshakeComplete_def o not_not by simp
qed

lemma sent_run_ok: "sent_run st \<Longrightarrow> length (acked_packets st) \<le> 2 ^ 32 \<Longrightarrow> books_ok st"
proof (induction rule: sent_run.induct)
  case (start rtt)
  have "cubic_run 0 (NewCubicSender False 32 1000)" by (rule cubic_run.start) simp_all
  from cubic_run_ok [OF this] show ?case
    by (simp add: books_ok_def books_def NewSentPacketHandler_def)
next
  case (send st p now h')
  then show ?case using books_SentPacket [of "hand st"] by (simp add: books_ok_def)
next
  case (ack st f now n enc t h')
  then show ?case using books_ReceivedAck [OF _ ack.hyps(2,3)] by (simp add: books_ok_def)
next
  case (alarm st now)
  then show ?case by (simp add: books_ok_def books_OnAlarm)
next
  case (dequeue st p h')
  then obtain ps where "retransmissionQueue (hand st) = p # ps" "h' = (hand st)\<lparr>retransmissionQueue := ps\<rparr>"
    by (auto simp: DequeuePacketForRetransmission_def split: list.splits)
  then show ?case using dequeue by (simp add: books_ok_def books_def)
next
  case (handshake st)
  then show ?case using books_handshake [of "hand st"] by (simp add: books_ok_def)
next
  case (stop_waiting st force f h')
  then have "books_ok st" by simp
  moreover obtain s where "h' = (hand st)\<lparr>swm := s\<rparr>"
    using stop_waiting.hyps(2) by (auto simp: GetStopWaitingFrame_def Let_def split: prod.splits)
  ultimately show ?case unfolding books_ok_def by (auto elim: books_cong)
qed

subsection \<open>What the handler promises\<close>

text \<open>C2: No packet is lost track of. In every run of up to \<open>2 ^ 32\<close> acknowledged packets, each packet
  with retransmittable frames that was sent is, exactly once, in the history, in the queue of
  retransmissions, handed back to the session, acknowledged, or dropped at the end of the handshake;
  at most 2000 are tracked; and the bytes in flight are those of the history and of the dropped packets.\<close>

theorem sent_packets_accounted:
  assumes "sent_run st" "length (acked_packets st) \<le> 2 ^ 32"
  shows "mset (tracked_packets st) = mset (map pn (packetHistory (hand st))) + mset (map pn (retransmissionQueue (hand st)))
      + mset (handed_back st) + mset (acked_packets st) + mset (dropped_packets st)
    \<and> distinct (tracked_packets st)
    \<and> length (retransmissionQueue (hand st)) + length (packetHistory (hand st)) \<le> 2000
    \<and> bytesInFlight (hand st) = sum_list (map pkt_Length (packetHistory (hand st))) + leaked st"
proof -
  have "books_ok st" by (rule sent_run_ok [OF assms])
  moreover from this have "sorted_wrt (<) (tracked_packets st)" by (simp add: books_ok_def books_def)
  then have "distinct (tracked_packets st)" by (simp add: strict_sorted_iff)
  ultimately show ?thesis by (simp add: books_ok_def books_def)
qed

text \<open>C27: The walk over the ranges of an ACK frame finds exactly the packets of the history that the frame
  acknowledges, as \<open>AcksPacket\<close> says, and never fails with the error that the code calls a bug.\<close>

theorem newly_acked_packets_correct:
  assumes "sent_run st" "length (acked_packets st) \<le> 2 ^ 32" "ack_wf f" "ack_LargestAcked f \<le> lastSent (hand st)"
  shows "determineNewlyAckedPackets f (hand st) = Inr (filter (AcksPacket f \<circ> pn) (packetHistory (hand st)))"
proof -
  have b: "books_ok st" by (rule sent_run_ok [OF assms(1,2)])
  then have "sorted_wrt (<) (map pn (packetHistory (hand st)))" "ack_LargestAcked f \<le> maxVarInt8"
    using assms(4) by (auto simp: books_ok_def books_def intro: order_trans)
  then show ?thesis unfolding determineNewlyAckedPackets_def using newly_acked_eq [OF assms(3)] by blast
qed

lemma AcksPacket_largest:
  assumes "ack_wf f" shows "AcksPacket f (ack_LargestAcked f)"
  using assms
proof (cases rule: ack_wf_cases)
  case (ranges r rs)
  have "last (r # rs) \<in> set (r # rs)" by (rule last_in_set) simp
  then have "ack_LowestAcked f \<le> ack_LargestAcked f" using ranges(6-8) by (metis order_trans)
  moreover have "ar_First r \<le> ack_LargestAcked f" using ranges(4,6) by auto
  ultimately show ?thesis using ranges(1,3,4) by (auto simp: AcksPacket_def)
qed (auto simp: AcksPacket_def)

text \<open>C8: A peer that acknowledges only packets that were sent is never accused: an ACK frame of its in a
  forward-secure packet, with a number above those of earlier ones, is processed without an error and in
  finite time. The numbers that were skipped to catch optimistic peers are never among those sent.\<close>

theorem honest_acks_are_accepted:
  assumes run: "sent_run st" and few: "length (acked_packets st) + 2000 \<le> 2 ^ 32" and f: "ack_wf f"
    and honest: "\<forall>n. AcksPacket f n \<longrightarrow> n \<in> set (all_sent st)"
    and fresh: "largestReceivedPacketWithAck (hand st) < n"
  shows "\<exists>h'. ReceivedAck now f n EncryptionForwardSecure t (hand st) = Some (None, h')"
proof -
  let ?h = "hand st" and ?ps = "filter (AcksPacket f \<circ> pn) (packetHistory (hand st))"
  have b: "books ?h (all_sent st) (tracked_packets st) (acked_packets st) (handed_back st) (dropped_packets st) (leaked st)"
    using sent_run_ok [OF run] few by (simp add: books_ok_def)
  have sent: "\<forall>n \<in> set (all_sent st). n \<le> lastSent ?h" using b by (simp add: books_def)
  then have largest: "ack_LargestAcked f \<le> lastSent ?h" using honest AcksPacket_largest [OF f] by blast
  have skipped: "\<not> skippedPacketsAcked f ?h"
    using b honest by (fastforce simp: skippedPacketsAcked_def list_ex_iff books_def)
  show ?thesis
  proof (cases "ack_LargestAcked f < lowestUnacked ?h")
    case True
    have lu: "lowestUnacked (?h\<lparr>largestReceivedPacketWithAck := n\<rparr>) = lowestUnacked ?h"
      by (simp add: lowestUnacked_def split: list.split)
    show ?thesis using True fresh largest by (simp add: ReceivedAck_def Let_def lu not_less not_le)
  next
    case False
    have b2: "books (before_acks f n t ?h) (all_sent st) (tracked_packets st) (acked_packets st) (handed_back st)
        (dropped_packets st) (leaked st)" by (rule books_cong [OF b]) simp_all
    have d: "distinct ?ps" "set ?ps \<subseteq> set (packetHistory (before_acks f n t ?h))"
      using books_history(1) [OF b] by auto
    have "length ?ps \<le> length (packetHistory ?h)" by simp
    also have "\<dots> \<le> 2000" using b by (simp add: books_def)
    finally have room: "length (acked_packets st) + length ?ps \<le> 2 ^ 32" using few by linarith
    have "pkt_EncryptionLevel p \<le> EncryptionForwardSecure" for p
      by (cases "pkt_EncryptionLevel p") (simp_all add: less_eq_EncryptionLevel_def)
    then obtain h3 where "process_acked now EncryptionForwardSecure ?ps (before_acks f n t ?h) = Some (None, h3)"
      using books_process_acked [OF b2 d room] by blast
    then show ?thesis using ReceivedAck_eq [OF largest fresh _ skipped b f] False by (simp add: not_less)
  qed
qed





subsection \<open>Packets are sent again\<close>









subsection \<open>Packets that the end of the handshake drops\<close>

text \<open>C28: When the handshake completes, the packets of lower encryption levels leave the history but not the
  count of bytes in flight. If they had filled the congestion window, the connection is blocked for good:
  nothing is outstanding, but sending is not allowed, and no alarm and no ACK frame changes that.\<close>

theorem handshake_packets_block_sending:
  assumes old: "\<forall>p \<in> set (packetHistory h @ retransmissionQueue h). pkt_EncryptionLevel p \<noteq> EncryptionForwardSecure"
    and full: "bytesInFlight h > GetCongestionWindow (congestion h)"
  shows "packetHistory (SetHandshakeComplete h) = [] \<and> retransmissionQueue (SetHandshakeComplete h) = []
    \<and> \<not> SendingAllowed (SetHandshakeComplete h) \<and> \<not> SendingAllowed (OnAlarm now (SetHandshakeComplete h))
    \<and> (case ReceivedAck now f n enc t (SetHandshakeComplete h) of
         None \<Rightarrow> False | Some (e, h') \<Rightarrow> \<not> SendingAllowed h')"
proof -
  let ?h = "SetHandshakeComplete h"
  have e: "packetHistory ?h = []" "retransmissionQueue ?h = []"
    using old by (auto simp: SetHandshakeComplete_def filter_empty_conv)
  have b: "bytesInFlight ?h = bytesInFlight h" "congestion ?h = congestion h" by (simp_all add: SetHandshakeComplete_def)
  have blocked: "\<not> SendingAllowed h'"
    if "packetHistory h' = []" "retransmissionQueue h' = []" "bytesInFlight h' = bytesInFlight h" "congestion h' = congestion h" for h'
    using that full by (simp add: SendingAllowed_def)
  have "\<not> SendingAllowed (OnAlarm now ?h)"
  proof (rule blocked)
    have none: "detect_lost now d l [] loss = ([], loss)" for d l loss by simp
    show "packetHistory (OnAlarm now ?h) = []" "retransmissionQueue (OnAlarm now ?h) = []"
      "bytesInFlight (OnAlarm now ?h) = bytesInFlight h" "congestion (OnAlarm now ?h) = congestion h"
      by (simp_all add: OnAlarm_def Let_def queueHandshakePacketsForRetransmission_def retransmitOldestTwoPackets_def
          retransmit_oldest_def detectLostPackets_def e b)
  qed
  moreover have "case ReceivedAck now f n enc t ?h of None \<Rightarrow> False | Some (e, h') \<Rightarrow> packetHistory h' = []
      \<and> retransmissionQueue h' = [] \<and> bytesInFlight h' = bytesInFlight h \<and> congestion h' = congestion h"
    by (simp add: ReceivedAck_def Let_def maybeUpdateRTT_def determineNewlyAckedPackets_def
        detectLostPackets_def garbageCollectSkippedPackets_def e b)
  then have "case ReceivedAck now f n enc t ?h of None \<Rightarrow> False | Some (e, h') \<Rightarrow> \<not> SendingAllowed h'"
    using blocked by (auto split: option.splits)
  ultimately show ?thesis using e b blocked [of ?h] by simp
qed

subsection \<open>Concrete runs\<close>

lemma SentPacket_accepts:
  assumes ok: "cs_ok (congestion h)" and few: "length (retransmissionQueue h) + length (packetHistory h) < 2000"
  shows "\<exists>h'. SentPacket now p h = (None, h')
    \<and> packetHistory h' = packetHistory (send_effect now p h) \<and> bytesInFlight h' = bytesInFlight (send_effect now p h)
    \<and> retransmissionQueue h' = retransmissionQueue h \<and> lastSent h' = pn p \<and> handshakeComplete h' = handshakeComplete h
    \<and> largestReceivedPacketWithAck h' = largestReceivedPacketWithAck h
    \<and> congestionWindow (congestion h') = congestionWindow (congestion h) \<and> cs_ok (congestion h')"
proof -
  have room: "\<not> of_nat (length (retransmissionQueue h) + length (packetHistory h) + 1) > MaxTrackedSentPackets"
    using few by (simp add: MaxTrackedSentPackets_def word_less_nat_alt unat_of_nat64 not_less del: of_nat_add of_nat_Suc)
  define h2 where "h2 = send_effect now p
    (h\<lparr>skippedPackets := skip_numbers (pn p) (lastSent h + 1) (skippedPackets h), lastSent := pn p\<rparr>)"
  define c where "c = snd (OnPacketSent now (rttStats h2) (bytesInFlight h2) (pn p) (pkt_Length p)
    (stripNonRetransmittableFrames (pkt_Frames p) \<noteq> []) (congestion h2))"
  have cong: "congestion h2 = congestion h" by (simp add: h2_def send_effect_def Let_def)
  have c: "cs_ok c" "congestionWindow c = congestionWindow (congestion h)"
    using ok OnPacketSent_ok [of now "rttStats h2" "bytesInFlight h2" "pn p" "pkt_Length p"
      "stripNonRetransmittableFrames (pkt_Frames p) \<noteq> []" "congestion h2"]
    by (simp_all add: c_def cong prod_eq_iff)
      (simp_all add: OnPacketSent_def Let_def)
  obtain d where d: "TimeUntilSend (rttStats h2) (bytesInFlight h2) c = Inr d" using TimeUntilSend_ok [OF c(1)] by blast
  have "SentPacket now p h = (None, updateLossDetectionAlarm now
      (h2\<lparr>congestion := c, nextPacketSendTime := Some (max_time (nextPacketSendTime h2) now + d)\<rparr>))"
    using room d
    by (cases "stripNonRetransmittableFrames (pkt_Frames p) = []")
      (simp_all add: SentPacket_def Let_def h2_def send_effect_def c_def)
  then show ?thesis using c by (simp add: h2_def send_effect_def Let_def)
qed

abbreviation ping_packet :: "PacketNumber \<Rightarrow> Packet" where
  "ping_packet n \<equiv> \<lparr>pkt_PacketNumber = n, pkt_PacketType = 0, pkt_Frames = [Frame_Ping], pkt_Length = 1452,
     pkt_EncryptionLevel = EncryptionSecure, pkt_largestAcked = 0, pkt_sendTime = 0, pkt_retransmitted = False\<rparr>"

lemma ping_frames: "stripNonRetransmittableFrames [Frame_Ping] = [Frame_Ping]" "HasRetransmittableFrames [Frame_Ping]"
  by (simp_all add: stripNonRetransmittableFrames_def HasRetransmittableFrames_def)

lemma ping_effect:
  "packetHistory (send_effect 0 (ping_packet n) h) = packetHistory h @ [ping_packet n]"
  "bytesInFlight (send_effect 0 (ping_packet n) h) = bytesInFlight h + 1452"
  by (simp_all add: send_effect_def ping_frames Let_def)

text \<open>A run of a connection that has sent \<open>k\<close> packets before the end of the handshake.\<close>

lemma ping_run:
  "k \<le> 40 \<Longrightarrow> \<exists>st. sent_run st \<and> lastSent (hand st) = of_nat k \<and> acked_packets st = [] \<and> all_sent st = map of_nat [1..<Suc k]
    \<and> packetHistory (hand st) = map (\<lambda>n. ping_packet (of_nat n)) [1..<Suc k] \<and> retransmissionQueue (hand st) = []
    \<and> bytesInFlight (hand st) = of_nat k * 1452 \<and> congestionWindow (congestion (hand st)) = 32
    \<and> \<not> handshakeComplete (hand st) \<and> largestReceivedPacketWithAck (hand st) = 0 \<and> cs_ok (congestion (hand st))"
proof (induction k)
  case 0
  have "cubic_run 0 (NewCubicSender False 32 1000)" by (rule cubic_run.start) simp_all
  from cubic_run_ok [OF this] sent_run.start [of NewRTTStats] show ?case
    by (intro exI [of _ "\<lparr>hand = NewSentPacketHandler NewRTTStats, all_sent = [], tracked_packets = [],
        acked_packets = [], handed_back = [], dropped_packets = [], leaked = 0\<rparr>"])
      (simp add: NewSentPacketHandler_def NewCubicSender_def)
next
  case (Suc k)
  then obtain st where st: "sent_run st" "lastSent (hand st) = of_nat k" "acked_packets st = []" "all_sent st = map of_nat [1..<Suc k]"
    "packetHistory (hand st) = map (\<lambda>n. ping_packet (of_nat n)) [1..<Suc k]" "retransmissionQueue (hand st) = []"
    "bytesInFlight (hand st) = of_nat k * 1452" "congestionWindow (congestion (hand st)) = 32"
    "\<not> handshakeComplete (hand st)" "largestReceivedPacketWithAck (hand st) = 0" "cs_ok (congestion (hand st))" by auto
  let ?p = "ping_packet (of_nat (Suc k))"
  have "length (retransmissionQueue (hand st)) + length (packetHistory (hand st)) < 2000" using st(5,6) Suc.prems by simp
  from SentPacket_accepts [OF st(11) this, of 0 ?p] obtain h' where h': "SentPacket 0 ?p (hand st) = (None, h')"
    "packetHistory h' = packetHistory (hand st) @ [?p]" "bytesInFlight h' = bytesInFlight (hand st) + 1452"
    "retransmissionQueue h' = []" "lastSent h' = of_nat (Suc k)" "\<not> handshakeComplete h'"
    "largestReceivedPacketWithAck h' = 0" "congestionWindow (congestion h') = 32" "cs_ok (congestion h')"
    unfolding ping_effect st(6,8,10) using st(9) by auto
  have grow: "lastSent (hand st) < pn ?p" "pn ?p \<le> maxVarInt8"
    using Suc.prems by (simp_all add: st(2) word_less_nat_alt word_le_nat_alt unat_of_nat64 del: of_nat_Suc)
  let ?st = "st\<lparr>hand := h', all_sent := all_sent st @ [pn ?p], tracked_packets := tracked_packets st @
    (if HasRetransmittableFrames (pkt_Frames ?p) then [pn ?p] else [])\<rparr>"
  have "sent_run ?st" by (rule sent_run.send [OF st(1) grow h'(1)])
  then show ?case using st h'(2-) by (intro exI [of _ ?st]) (simp add: algebra_simps)
qed

theorem sent_packets_accounted_witness:
  "\<exists>st :: sent_net. sent_run st \<and> length (packetHistory (hand st)) = 2 \<and> distinct (tracked_packets st)
    \<and> bytesInFlight (hand st) = sum_list (map pkt_Length (packetHistory (hand st))) + leaked st"
proof -
  obtain st where st: "sent_run st" "acked_packets st = []"
    "packetHistory (hand st) = map (\<lambda>n. ping_packet (of_nat n)) [1..<Suc 2]"
    using ping_run [of 2] by auto
  then have "length (acked_packets st) \<le> 2 ^ 32" by simp
  from sent_packets_accounted [OF st(1) this] st show ?thesis by (intro exI [of _ st]) simp
qed

abbreviation ack_of_one :: AckFrame where
  "ack_of_one \<equiv> \<lparr>ack_LargestAcked = 1, ack_LowestAcked = 1, ack_AckRanges = [], ack_PacketReceivedTime = 0, ack_DelayTime = 0\<rparr>"

lemma ack_of_one: "ack_wf ack_of_one" "AcksPacket ack_of_one n \<longleftrightarrow> n = 1"
  by (auto simp: ack_wf_def validateAckRanges_def HasMissingRanges_def AcksPacket_def)

theorem newly_acked_packets_correct_witness:
  "\<exists>st :: sent_net. length (packetHistory (hand st)) = 2
    \<and> determineNewlyAckedPackets ack_of_one (hand st) = Inr [ping_packet 1]"
proof -
  obtain st where st: "sent_run st" "acked_packets st = []" "lastSent (hand st) = of_nat 2"
    "packetHistory (hand st) = map (\<lambda>n. ping_packet (of_nat n)) [1..<Suc 2]"
    using ping_run [of 2] by auto
  then have "length (acked_packets st) \<le> 2 ^ 32" "ack_LargestAcked ack_of_one \<le> lastSent (hand st)" by simp_all
  from newly_acked_packets_correct [OF st(1) this(1) ack_of_one(1) this(2)] st(4) show ?thesis
    by (intro exI [of _ st]) (simp add: ack_of_one(2) upt_rec numeral_2_eq_2)
qed

theorem honest_acks_are_accepted_witness:
  "\<exists>st :: sent_net. length (packetHistory (hand st)) = 2
    \<and> (\<exists>h'. ReceivedAck 7 ack_of_one 1 EncryptionForwardSecure 7 (hand st) = Some (None, h'))"
proof -
  obtain st where st: "sent_run st" "acked_packets st = []" "all_sent st = map of_nat [1..<Suc 2]"
    "packetHistory (hand st) = map (\<lambda>n. ping_packet (of_nat n)) [1..<Suc 2]" "largestReceivedPacketWithAck (hand st) = 0"
    using ping_run [of 2] by auto
  then have few: "length (acked_packets st) + 2000 \<le> 2 ^ 32" and honest: "\<forall>n. AcksPacket ack_of_one n \<longrightarrow> n \<in> set (all_sent st)"
    and fresh: "largestReceivedPacketWithAck (hand st) < 1"
    by (auto simp: ack_of_one(2) image_iff intro: bexI [of _ 1])
  from honest_acks_are_accepted [OF st(1) few ack_of_one(1) honest fresh] st(4) show ?thesis
    by (intro exI [of _ st]) simp
qed


text \<open>33 full packets fill the congestion window.\<close>

theorem handshake_packets_block_sending_witness:
  "\<exists>st :: sent_net. sent_run st \<and> length (packetHistory (hand st)) = 33
    \<and> packetHistory (SetHandshakeComplete (hand st)) = [] \<and> \<not> SendingAllowed (SetHandshakeComplete (hand st))
    \<and> \<not> SendingAllowed (OnAlarm 9 (SetHandshakeComplete (hand st)))"
proof -
  obtain st where st: "sent_run st" "retransmissionQueue (hand st) = []" "bytesInFlight (hand st) = of_nat 33 * 1452"
    "packetHistory (hand st) = map (\<lambda>n. ping_packet (of_nat n)) [1..<Suc 33]" "congestionWindow (congestion (hand st)) = 32"
    using ping_run [of 33] by auto
  then have "\<forall>p \<in> set (packetHistory (hand st) @ retransmissionQueue (hand st)). pkt_EncryptionLevel p \<noteq> EncryptionForwardSecure"
    "bytesInFlight (hand st) > GetCongestionWindow (congestion (hand st))"
    by (auto simp: GetCongestionWindow_def)
  from handshake_packets_block_sending [OF this] st(1,4) show ?thesis by (intro exI [of _ st]) simp
qed

end
