(* ===== verification/Handshake_Message.thy ===== *)
theory Handshake_Message
  imports Protocol Wire_Types
begin

section \<open>Handshake messages\<close>

text \<open>
  \<^verbatim>\<open>internal/handshake/handshake_message.go\<close> and \<^verbatim>\<open>tags.go\<close>: the messages of the gQUIC handshake, maps from
  tags to values, and \<^verbatim>\<open>internal/wire/public_reset.go\<close>, a packet that consists of such a message.
\<close>

type_synonym Tag = uint32

text \<open>A tag is written as four characters.\<close>

definition tag :: "string \<Rightarrow> Tag" where
  "tag s = foldr (\<lambda>c t. of_char c + shl t 8) s 0"

definition TagCHLO :: Tag where "TagCHLO = tag ''CHLO''"
definition TagREJ :: Tag where "TagREJ = tag ''REJ''"
definition TagSCFG :: Tag where "TagSCFG = tag ''SCFG''"
definition TagPAD :: Tag where "TagPAD = tag ''PAD''"
definition TagSNI :: Tag where "TagSNI = tag ''SNI''"
definition TagVER :: Tag where "TagVER = tag ''VER''"
definition TagCCS :: Tag where "TagCCS = tag ''CCS''"
definition TagCCRT :: Tag where "TagCCRT = tag ''CCRT''"
definition TagMIDS :: Tag where "TagMIDS = tag ''MIDS''"
definition TagTCID :: Tag where "TagTCID = tag ''TCID''"
definition TagPDMD :: Tag where "TagPDMD = tag ''PDMD''"
definition TagICSL :: Tag where "TagICSL = tag ''ICSL''"
definition TagCFCW :: Tag where "TagCFCW = tag ''CFCW''"
definition TagSFCW :: Tag where "TagSFCW = tag ''SFCW''"
definition TagFHL2 :: Tag where "TagFHL2 = tag ''FHL2''"
definition TagNSTP :: Tag where "TagNSTP = tag ''NSTP''"
definition TagSTK :: Tag where "TagSTK = tag ''STK''"
definition TagSNO :: Tag where "TagSNO = tag ''SNO''"
definition TagPROF :: Tag where "TagPROF = tag ''PROF''"
definition TagNONC :: Tag where "TagNONC = tag ''NONC''"
definition TagXLCT :: Tag where "TagXLCT = tag ''XLCT''"
definition TagSCID :: Tag where "TagSCID = tag ''SCID''"
definition TagKEXS :: Tag where "TagKEXS = tag ''KEXS''"
definition TagAEAD :: Tag where "TagAEAD = tag ''AEAD''"
definition TagPUBS :: Tag where "TagPUBS = tag ''PUBS''"
definition TagOBIT :: Tag where "TagOBIT = tag ''OBIT''"
definition TagEXPY :: Tag where "TagEXPY = tag ''EXPY''"
definition TagCERT :: Tag where "TagCERT = 0xff545243"
definition TagSHLO :: Tag where "TagSHLO = tag ''SHLO''"
definition TagPRST :: Tag where "TagPRST = tag ''PRST''"
definition TagRSEQ :: Tag where "TagRSEQ = tag ''RSEQ''"
definition TagRNON :: Tag where "TagRNON = tag ''RNON''"

lemmas tag_defs = tag_def TagCHLO_def TagREJ_def TagSCFG_def TagPAD_def TagSNI_def TagVER_def TagCCS_def
  TagCCRT_def TagMIDS_def TagTCID_def TagPDMD_def TagICSL_def TagCFCW_def TagSFCW_def TagFHL2_def TagNSTP_def
  TagSTK_def TagSNO_def TagPROF_def TagNONC_def TagXLCT_def TagSCID_def TagKEXS_def TagAEAD_def TagPUBS_def
  TagOBIT_def TagEXPY_def TagCERT_def TagSHLO_def TagPRST_def TagRSEQ_def TagRNON_def

subsection \<open>Writing and parsing\<close>

definition CryptoMaxParams :: uint32 where "CryptoMaxParams = 128"
definition CryptoParameterMaxLength :: uint32 where "CryptoParameterMaxLength = 4000"

abbreviation (input) CryptoTooManyEntries :: ErrorCode where "CryptoTooManyEntries \<equiv> 30"
abbreviation (input) CryptoInvalidValueLength :: ErrorCode where "CryptoInvalidValueLength \<equiv> 31"

record HandshakeMessage =
  hm_Tag :: Tag
  hm_Data :: "Tag \<rightharpoonup> byte list"

text \<open>\<open>binary.LittleEndian.Uint32\<close> of the first four bytes.\<close>

definition le_uint32 :: "byte list \<Rightarrow> uint32" where
  "le_uint32 bs = of_nat (be_nat (rev (take 4 bs)))"

text \<open>The loop over the index, eight bytes for each value.\<close>

fun parse_pairs :: "byte list \<Rightarrow> uint32 \<Rightarrow> (Tag \<rightharpoonup> byte list) \<Rightarrow> (Tag \<rightharpoonup> byte list) reader" where
  "parse_pairs index dataStart m r =
     (if index = [] then Inr (m, r)
      else
        let t = le_uint32 index; dataEnd = le_uint32 (drop 4 index);
            dataLen = dataEnd - dataStart
        in if dataLen > CryptoParameterMaxLength then Inl (QErr CryptoInvalidValueLength)
           else rbind (ReadFull (unat dataLen) r) (\<lambda>data r.
                  parse_pairs (drop 8 index) dataEnd (m(t \<mapsto> data)) r))"

declare parse_pairs.simps [simp del]

definition ParseHandshakeMessage :: "HandshakeMessage reader" where
  "ParseHandshakeMessage r =
     rbind (ReadFull 4 r) (\<lambda>slice4 r.
     let messageTag = le_uint32 slice4 in
     rbind (ReadFull 4 r) (\<lambda>slice4 r.
     let nPairs = le_uint32 slice4 in
     if nPairs > CryptoMaxParams then Inl (QErr CryptoTooManyEntries)
     else rbind (ReadFull (unat (nPairs * 8)) r) (\<lambda>index r.
          rbind (parse_pairs index 0 Map.empty r) (\<lambda>m r.
            Inr (\<lparr>hm_Tag = messageTag, hm_Data = m\<rparr>, r)))))"

definition getTagsSorted :: "HandshakeMessage \<Rightarrow> Tag list" where
  "getTagsSorted h = sorted_list_of_set (dom (hm_Data h))"

text \<open>The loop over the tags: the values, the entries of the index and the offset.\<close>

fun write_pairs :: "(Tag \<rightharpoonup> byte list) \<Rightarrow> Tag list \<Rightarrow> uint32 \<Rightarrow> byte list \<times> byte list" where
  "write_pairs m [] offset = ([], [])"
| "write_pairs m (t # ts) offset =
     (let v = the (m t); offset = offset + of_nat (length v);
          (index, values) = write_pairs m ts offset
      in (le_WriteUint32 t @ le_WriteUint32 offset @ index, v @ values))"

definition HandshakeMessage_Write :: "HandshakeMessage \<Rightarrow> byte list" where
  "HandshakeMessage_Write h =
     (let (index, values) = write_pairs (hm_Data h) (getTagsSorted h) 0
      in le_WriteUint32 (hm_Tag h) @ le_WriteUint16 (of_nat (card (dom (hm_Data h)))) @ le_WriteUint16 0
         @ index @ values)"

subsection \<open>Messages survive\<close>

lemma restrict_map_dom: "m |` dom m = m"
  by (auto simp: restrict_map_def fun_eq_iff dom_def)

definition HandshakeMessage_wf :: "HandshakeMessage \<Rightarrow> bool" where
  "HandshakeMessage_wf h \<longleftrightarrow>
     finite (dom (hm_Data h)) \<and> card (dom (hm_Data h)) \<le> 128
     \<and> (\<forall>v \<in> ran (hm_Data h). length v \<le> 4000)"

lemma le_uint32_Write: "le_uint32 (le_WriteUint32 w @ r) = w"
  by (simp add: le_uint32_def le_codec be_nat_be_bytes)

lemma length_index: "length (fst (write_pairs m ts offset)) = 8 * length ts"
  by (induction ts arbitrary: offset) (simp_all add: Let_def case_prod_unfold)

lemma parse_pairs_write:
  assumes "\<forall>t \<in> set ts. \<exists>v. m t = Some v \<and> length v \<le> 4000"
  shows "parse_pairs (fst (write_pairs m ts offset)) offset acc (snd (write_pairs m ts offset) @ r)
    = Inr (acc ++ (m |` set ts), r)"
  using assms
proof (induction ts arbitrary: offset acc)
  case Nil
  then show ?case by (simp add: parse_pairs.simps)
next
  case (Cons t ts)
  then obtain v where v: "m t = Some v" "length v \<le> 4000" by auto
  let ?off = "offset + of_nat (length v) :: uint32"
  obtain index vals where w: "write_pairs m ts ?off = (index, vals)" by fastforce
  have len: "unat (of_nat (length v) :: uint32) = length v" using v(2) by (simp add: unat_of_nat)
  have small: "\<not> (of_nat (length v) :: uint32) > CryptoParameterMaxLength"
    using v(2) len by (simp add: CryptoParameterMaxLength_def word_less_nat_alt)
  have IH: "parse_pairs index ?off (acc(t \<mapsto> v)) (vals @ r) = Inr (acc(t \<mapsto> v) ++ (m |` set ts), r)"
    using Cons.IH [of ?off "acc(t \<mapsto> v)"] Cons.prems unfolding w fst_conv snd_conv by (metis list.set_intros(2))
  have "acc(t \<mapsto> v) ++ (m |` set ts) = acc ++ (m |` set (t # ts))"
    using v(1) by (auto simp: fun_eq_iff map_add_def restrict_map_def split: option.split)
  moreover have "le_WriteUint32 t \<noteq> []" by (simp add: le_WriteUint32_def)
  ultimately show ?case
    using v(1) w small IH
    by (simp add: parse_pairs.simps [of "_ @ _"] Let_def le_uint32_Write len ReadFull_append)
qed

lemma ParseHandshakeMessage_Write:
  assumes "HandshakeMessage_wf h"
  shows "ParseHandshakeMessage (HandshakeMessage_Write h @ r) = Inr (h, r)"
proof -
  let ?ts = "getTagsSorted h" and ?n = "card (dom (hm_Data h))"
  have ts: "set ?ts = dom (hm_Data h)" "length ?ts = ?n"
    using assms by (simp_all add: getTagsSorted_def HandshakeMessage_wf_def)
  have n: "?n \<le> 128" using assms by (simp add: HandshakeMessage_wf_def)
  obtain index vals where w: "write_pairs (hm_Data h) ?ts 0 = (index, vals)" by fastforce
  have pairs: "parse_pairs index 0 Map.empty (vals @ r) = Inr (hm_Data h, r)"
  proof -
    have "\<forall>t \<in> set ?ts. \<exists>v. hm_Data h t = Some v \<and> length v \<le> 4000"
      using assms ts(1) by (auto simp: HandshakeMessage_wf_def ran_def)
    from parse_pairs_write [OF this, of 0 Map.empty r] show ?thesis
      unfolding w fst_conv snd_conv ts(1) by (simp add: restrict_map_dom)
  qed
  have index: "length index = 8 * ?n" using length_index [of "hm_Data h" ?ts 0] w ts(2) by simp
  have count: "le_uint32 (le_WriteUint16 (of_nat ?n) @ le_WriteUint16 0) = of_nat ?n"
    using n by (simp add: le_uint32_def le_codec be_nat_be_bytes unat_of_nat be_bytes_numeral)
  have few: "\<not> (of_nat ?n :: uint32) > CryptoMaxParams" "unat (of_nat ?n * 8 :: uint32) = 8 * ?n"
    using n by (simp_all add: CryptoMaxParams_def word_less_nat_alt unat_word_ariths unat_of_nat)
  have len: "length (le_WriteUint16 (of_nat ?n) @ le_WriteUint16 0) = 4" by simp
  have "ParseHandshakeMessage (HandshakeMessage_Write h @ r) =
      ParseHandshakeMessage (le_WriteUint32 (hm_Tag h) @ (le_WriteUint16 (of_nat ?n) @ le_WriteUint16 0) @ index @ vals @ r)"
    by (simp add: HandshakeMessage_Write_def w)
  also have "\<dots> = Inr (\<lparr>hm_Tag = hm_Tag h, hm_Data = hm_Data h\<rparr>, r)"
    using few pairs index le_uint32_Write [of "hm_Tag h" "[]"]
    unfolding ParseHandshakeMessage_def ReadFull_append [OF length_le_Write(2)] rbind_simps Let_def
      ReadFull_append [OF len] count
    by (simp add: ReadFull_append)
  finally show ?thesis by simp
qed

text \<open>What the parser accepts is within its limits.\<close>

lemma parse_pairs_limits:
  assumes "parse_pairs index offset acc r = Inr (m, r')" "\<forall>v \<in> ran acc. length v \<le> 4000" "finite (dom acc)"
  shows "(\<forall>v \<in> ran m. length v \<le> 4000) \<and> finite (dom m) \<and> card (dom m) \<le> card (dom acc) + (length index + 7) div 8"
  using assms
proof (induction index offset acc r rule: parse_pairs.induct)
  case (1 index dataStart acc r)
  show ?case
  proof (cases "index = []")
    case True
    then show ?thesis using "1.prems" by (auto simp: parse_pairs.simps)
  next
    case False
    let ?t = "le_uint32 index" and ?e = "le_uint32 (drop 4 index)"
    have small: "\<not> ?e - dataStart > CryptoParameterMaxLength"
      using "1.prems"(1) False by (auto simp: parse_pairs.simps [of index] Let_def split: if_splits)
    then obtain data r2 where d: "ReadFull (unat (?e - dataStart)) r = Inr (data, r2)"
      "parse_pairs (drop 8 index) ?e (acc(?t \<mapsto> data)) r2 = Inr (m, r')"
      using "1.prems"(1) False by (auto simp: parse_pairs.simps [of index] Let_def rbind_Inr_iff)
    have "length data \<le> 4000"
      using d(1) small by (simp add: ReadFull_Inr_iff CryptoParameterMaxLength_def word_less_nat_alt)
    then have "\<forall>v \<in> ran (acc(?t \<mapsto> data)). length v \<le> 4000"
      using "1.prems"(2) by (auto simp: ran_def)
    moreover have "card (dom (acc(?t \<mapsto> data))) \<le> card (dom acc) + 1"
      using "1.prems"(3) by (simp add: card_insert_if)
    moreover have "(length (drop 8 index) + 7) div 8 + 1 = (length index + 7) div 8"
      using False by (cases "length index \<ge> 8") (auto simp: Suc_le_eq not_le le_div_geq)
    ultimately show ?thesis
      using "1.IH" [OF False refl refl refl small, of data r2] d "1.prems"(3) by fastforce
  qed
qed

lemma ParseHandshakeMessage_wf:
  assumes "ParseHandshakeMessage r = Inr (h, r')"
  shows "HandshakeMessage_wf h"
proof -
  from assms obtain s n r1 r2 r3 index m where p: "ReadFull 4 r = Inr (s, r1)" "ReadFull 4 r1 = Inr (n, r2)"
    "\<not> le_uint32 n > CryptoMaxParams" "ReadFull (unat (le_uint32 n * 8)) r2 = Inr (index, r3)"
    "parse_pairs index 0 Map.empty r3 = Inr (m, r')" "h = \<lparr>hm_Tag = le_uint32 s, hm_Data = m\<rparr>"
    by (auto simp: ParseHandshakeMessage_def Let_def rbind_Inr_iff split: if_splits)
  have "length index = unat (le_uint32 n * 8)" using p(4) by (simp add: ReadFull_Inr_iff)
  also have "\<dots> = unat (le_uint32 n) * 8"
    using p(3) by (subst unat_mult_lem [THEN iffD1]) (simp_all add: CryptoMaxParams_def word_less_nat_alt)
  finally have "(length index + 7) div 8 \<le> 128"
    using p(3) by (simp add: CryptoMaxParams_def word_less_nat_alt)
  with parse_pairs_limits [OF p(5)] p(6) show ?thesis by (auto simp: HandshakeMessage_wf_def)
qed

text \<open>C29: A handshake message with at most 128 values of at most 4000 bytes survives writing and
  parsing, whatever follows it; and the parser returns no other messages.\<close>

theorem handshake_message_roundtrip:
  "HandshakeMessage_wf h \<longleftrightarrow> ParseHandshakeMessage (HandshakeMessage_Write h @ r) = Inr (h, r)"
  using ParseHandshakeMessage_Write ParseHandshakeMessage_wf by blast

subsection \<open>Public resets\<close>

record PublicReset =
  RejectedPacketNumber :: PacketNumber
  pr_Nonce :: uint64

definition WritePublicReset :: "uint64 \<Rightarrow> PacketNumber \<Rightarrow> uint64 \<Rightarrow> byte list" where
  "WritePublicReset connectionID rejectedPacketNumber nonceProof =
     [0x0a] @ be_WriteUint64 connectionID @ le_WriteUint32 TagPRST @ le_WriteUint32 2
     @ le_WriteUint32 TagRNON @ le_WriteUint32 8 @ le_WriteUint32 TagRSEQ @ le_WriteUint32 16
     @ le_WriteUint64 nonceProof @ le_WriteUint64 rejectedPacketNumber"

definition le_uint64 :: "byte list \<Rightarrow> uint64" where
  "le_uint64 bs = of_nat (be_nat (rev (take 8 bs)))"

definition ParsePublicReset :: "byte list \<Rightarrow> goerr + PublicReset" where
  "ParsePublicReset r =
     (case ParseHandshakeMessage r of
        Inl e \<Rightarrow> Inl e
      | Inr (msg, r) \<Rightarrow>
          if hm_Tag msg \<noteq> TagPRST then Inl (GoErr ''wrong public reset tag'')
          else
            ebind (case hm_Data msg TagRSEQ of
                     None \<Rightarrow> Inr 0
                   | Some rseq \<Rightarrow> if length rseq \<noteq> 8 then Inl (GoErr ''invalid RSEQ tag'') else Inr (le_uint64 rseq))
              (\<lambda>rejected.
                 case hm_Data msg TagRNON of
                   None \<Rightarrow> Inl (GoErr ''RNON missing'')
                 | Some rnon \<Rightarrow>
                     if length rnon \<noteq> 8 then Inl (GoErr ''invalid RNON tag'')
                     else Inr \<lparr>RejectedPacketNumber = rejected, pr_Nonce = le_uint64 rnon\<rparr>))"

lemma le_uint64_Write: "le_uint64 (le_WriteUint64 w) = w"
  by (simp add: le_uint64_def le_codec be_nat_be_bytes)

text \<open>A public reset is parsed as it was written, once the nine bytes of its public header are read.\<close>

theorem public_reset_roundtrip:
  "ParsePublicReset (drop 9 (WritePublicReset connID n proof)) = Inr \<lparr>RejectedPacketNumber = n, pr_Nonce = proof\<rparr>"
proof -
  let ?h = "\<lparr>hm_Tag = TagPRST, hm_Data = [TagRNON \<mapsto> le_WriteUint64 proof, TagRSEQ \<mapsto> le_WriteUint64 n]\<rparr>"
  have tags: "TagRNON < TagRSEQ" "TagRNON \<noteq> TagRSEQ" by (simp_all add: tag_defs)
  have "HandshakeMessage_wf ?h"
    using tags by (auto simp: HandshakeMessage_wf_def ran_def split: if_splits)
  moreover have "drop 9 (WritePublicReset connID n proof) = HandshakeMessage_Write ?h @ []"
    using tags
    by (simp add: WritePublicReset_def HandshakeMessage_Write_def getTagsSorted_def Let_def)
      (simp add: le_WriteUint32_def le_WriteUint16_def)
  ultimately have "ParseHandshakeMessage (drop 9 (WritePublicReset connID n proof)) = Inr (?h, [])"
    using ParseHandshakeMessage_Write by metis
  then show ?thesis using tags by (simp add: ParsePublicReset_def le_uint64_Write)
qed

end
