(* ===== verification/Tls_Syntax.thy ===== *)
theory Tls_Syntax
  imports Go_Strings Wire_Types Varint
begin

section \<open>The TLS presentation language\<close>

text \<open>
  \<^verbatim>\<open>bifurcation/mint/syntax/\<close>: \<^verbatim>\<open>encode.go\<close>, \<^verbatim>\<open>decode.go\<close> and \<^verbatim>\<open>tags.go\<close>. The code walks over Go types by
  reflection; here a type is a value of \<open>gotype\<close> and a Go value one of \<open>goval\<close>. The field of a struct
  comes with the options of its tag; the elements of an array, a slice or a pointer inherit the options.
  An error is raised as a Go panic with an error value, which \<open>marshal\<close> and \<open>unmarshal\<close> recover. Types
  that implement \<open>Marshaler\<close> and unsupported kinds of types have no counterpart.
\<close>

subsection \<open>Options\<close>

record encOpts =
  opt_head :: nat
  opt_min :: nat
  opt_max :: nat
  opt_varint :: bool

abbreviation no_opts :: encOpts where
  "no_opts \<equiv> \<lparr>opt_head = 0, opt_min = 0, opt_max = 0, opt_varint = False\<rparr>"

definition parse_token :: "string \<Rightarrow> (string \<rightharpoonup> nat) \<Rightarrow> (string \<rightharpoonup> nat)" where
  "parse_token token opts =
     (if token = ''varint'' then opts(''varint'' \<mapsto> 1)
      else
        let parts = Split (CHR ''='') token
        in if length (parts ! 0) = 0 then opts
           else if length parts = 1 then opts
           else case Atoi (parts ! 1) of
                  Inl e \<Rightarrow> opts
                | Inr val \<Rightarrow> if val \<ge> 0 then opts(parts ! 0 \<mapsto> nat val) else opts)"

definition parseTag :: "string \<Rightarrow> (string \<rightharpoonup> nat)" where
  "parseTag s = fold parse_token (Split (CHR '','') s) Map.empty"

definition lookup_opt :: "(string \<rightharpoonup> nat) \<Rightarrow> string \<Rightarrow> nat" where
  "lookup_opt opts k = (case opts k of None \<Rightarrow> 0 | Some v \<Rightarrow> v)"

definition field_opts :: "string \<Rightarrow> encOpts" where
  "field_opts s =
     (let tagOpts = parseTag s
      in \<lparr>opt_head = lookup_opt tagOpts ''head'', opt_min = lookup_opt tagOpts ''min'',
          opt_max = lookup_opt tagOpts ''max'', opt_varint = lookup_opt tagOpts ''varint'' > 0\<rparr>)"

subsection \<open>Types and values\<close>

datatype gotype =
    GUint nat
  | GArray nat gotype
  | GSlice gotype
  | GStruct "(encOpts \<times> gotype) list"
  | GPtr gotype

datatype goval = VUint uint64 | VList "goval list" | VPtr "goval option"

subsection \<open>Encoding\<close>

definition writeUint :: "uint64 \<Rightarrow> nat \<Rightarrow> byte list" where
  "writeUint u len = map (\<lambda>i. u8 (shr u (8 * (len - i - 1)))) [0..<len]"

definition varint_len :: "uint64 \<Rightarrow> nat" where
  "varint_len u =
     (if u < shl 1 6 then 1 else if u < shl 1 14 then 2 else if u < shl 1 30 then 4 else 8)"

definition varintEncoder :: "uint64 \<Rightarrow> goerr + byte list" where
  "varintEncoder u =
     (if shr u 62 > 0 then Inl (GoErr ''uint value is too big for varint'')
      else
        let varintLen = varint_len u;
            twoBits = (if varintLen = 1 then 0 else if varintLen = 2 then 1 else if varintLen = 4 then 2 else 3)
        in Inr (writeUint (u OR shl twoBits (8 * varintLen - 2)) varintLen))"

definition uintEncoder :: "nat \<Rightarrow> encOpts \<Rightarrow> uint64 \<Rightarrow> goerr + byte list" where
  "uintEncoder k opts u = (if opt_varint opts then varintEncoder u else Inr (writeUint u k))"

text \<open>The header and the checks of a slice around the bytes of its elements.\<close>

definition slice_header :: "encOpts \<Rightarrow> byte list \<Rightarrow> goerr + byte list" where
  "slice_header opts bs =
     (let n = length bs in
      if opt_max opts > 0 \<and> n > opt_max opts then Inl (GoErr ''Encoded length more than max'')
      else if n div 2 ^ (8 * opt_head opts) > 0 then Inl (GoErr ''Encoded length too long for header length'')
      else if n < opt_min opts then Inl (GoErr ''Encoded length less than min'')
      else Inr (be_bytes (opt_head opts) n @ bs))"

text \<open>Go's types rule out the last case of each function.\<close>

fun encode :: "gotype \<Rightarrow> encOpts \<Rightarrow> goval \<Rightarrow> goerr + byte list"
  and encode_all :: "gotype \<Rightarrow> encOpts \<Rightarrow> goval list \<Rightarrow> goerr + byte list"
  and encode_fields :: "(encOpts \<times> gotype) list \<Rightarrow> goval list \<Rightarrow> goerr + byte list" where
  "encode (GUint k) opts (VUint u) = uintEncoder k opts u"
| "encode (GArray n t) opts (VList vs) = encode_all t opts vs"
| "encode (GSlice t) opts (VList vs) =
     (if opt_head opts = 0 then Inl (GoErr ''Cannot encode a slice without a header length'')
      else ebind (encode_all t opts vs) (slice_header opts))"
| "encode (GStruct fs) opts (VList vs) = encode_fields fs vs"
| "encode (GPtr t) opts (VPtr None) = Inl (GoErr ''Cannot marshal a struct containing a nil pointer'')"
| "encode (GPtr t) opts (VPtr (Some v)) = encode t opts v"
| "encode t opts v = Inl (GoErr ''value of another type'')"
| "encode_all t opts [] = Inr []"
| "encode_all t opts (v # vs) = ebind (encode t opts v) (\<lambda>bs. ebind (encode_all t opts vs) (\<lambda>bs'. Inr (bs @ bs')))"
| "encode_fields [] [] = Inr []"
| "encode_fields ((opts, t) # fs) (v # vs) =
     ebind (encode t opts v) (\<lambda>bs. ebind (encode_fields fs vs) (\<lambda>bs'. Inr (bs @ bs')))"
| "encode_fields fs vs = Inl (GoErr ''value of another type'')"

definition Marshal :: "gotype \<Rightarrow> goval \<Rightarrow> goerr + byte list" where
  "Marshal t v = encode t no_opts v"

subsection \<open>Decoding\<close>

text \<open>\<open>bytes.Buffer.Next\<close>: at most \<open>n\<close> bytes.\<close>

definition Next :: "nat \<Rightarrow> byte list \<Rightarrow> byte list \<times> byte list" where
  "Next n r = (take n r, drop n r)"

definition setUintFromBuffer :: "byte list \<Rightarrow> uint64" where
  "setUintFromBuffer buf = foldl (\<lambda>val b. shl val 8 + u64 b) 0 buf"

definition varintDecoder :: "nat \<Rightarrow> uint64 reader" where
  "varintDecoder uintLen r =
     (let (first, r) = Next 1 r in
      if length first \<noteq> 1 then Inl (GoErr ''Insufficient data to read varint length'')
      else
        let twoBits = shr (hd first) 6; varintLen = 2 ^ unat twoBits in
        if uintLen < varintLen then Inl (GoErr ''Uint too small to fit varint'')
        else
          let (rest, r) = Next (varintLen - 1) r in
          if length rest \<noteq> varintLen - 1 then Inl (GoErr ''Insufficient data to read varint'')
          else Inr (setUintFromBuffer ((hd first AND 0x3f) # rest), r))"

definition uintDecoder :: "nat \<Rightarrow> encOpts \<Rightarrow> uint64 reader" where
  "uintDecoder uintLen opts r =
     (if opt_varint opts then varintDecoder uintLen r
      else
        let (buf, r) = Next uintLen r in
        if length buf \<noteq> uintLen then Inl (GoErr ''Insufficient data to read uint'')
        else Inr (setUintFromBuffer buf, r))"

text \<open>The bytes of the elements of a slice. A length that is negative as an \<open>int\<close> makes \<open>Next\<close> panic.\<close>

definition read_slice :: "encOpts \<Rightarrow> byte list reader" where
  "read_slice opts r =
     (if opt_head opts = 0 then Inl (GoErr ''Cannot decode a slice without a header length'')
      else
        let (lengthBytes, r) = Next (opt_head opts) r in
        if length lengthBytes \<noteq> opt_head opts then Inl (GoErr ''Not enough data to read header'')
        else
          let n = setUintFromBuffer lengthBytes in
          if opt_max opts > 0 \<and> unat n > opt_max opts then Inl (GoErr ''Length of vector exceeds declared max'')
          else if unat n < opt_min opts then Inl (GoErr ''Length of vector below declared min'')
          else if sint n < 0 then Inl (Panic ''slice bounds out of range'')
          else
            let (data, r) = Next (unat n) r in
            if length data \<noteq> unat n then Inl (GoErr ''Available data less than declared length'')
            else Inr (data, r))"

type_synonym 'a decoder = "byte list \<Rightarrow> (goerr + 'a \<times> byte list) option"

text \<open>The elements of a slice: until the bytes are used up, which an element of no bytes never does.\<close>

partial_function (option) decode_all :: "'a decoder \<Rightarrow> byte list \<Rightarrow> (goerr + 'a list) option" where
  "decode_all d r =
     (if r = [] then Some (Inr [])
      else case d r of
             None \<Rightarrow> None
           | Some (Inl e) \<Rightarrow> Some (Inl e)
           | Some (Inr (v, r)) \<Rightarrow> Option.bind (decode_all d r) (\<lambda>res. Some (ebind res (\<lambda>vs. Inr (v # vs)))))"

declare decode_all.simps [code]

fun decode_n :: "'a decoder \<Rightarrow> nat \<Rightarrow> 'a list decoder" where
  "decode_n d 0 r = Some (Inr ([], r))"
| "decode_n d (Suc n) r =
     (case d r of
        None \<Rightarrow> None
      | Some (Inl e) \<Rightarrow> Some (Inl e)
      | Some (Inr (v, r)) \<Rightarrow> map_option (\<lambda>res. ebind res (\<lambda>(vs, r). Inr (v # vs, r))) (decode_n d n r))"

fun decode :: "gotype \<Rightarrow> encOpts \<Rightarrow> goval decoder"
  and decode_fields :: "(encOpts \<times> gotype) list \<Rightarrow> goval list decoder" where
  "decode (GUint k) opts r = Some (rbind (uintDecoder k opts r) (\<lambda>u r. Inr (VUint u, r)))"
| "decode (GArray n t) opts r =
     map_option (\<lambda>res. ebind res (\<lambda>(vs, r). Inr (VList vs, r))) (decode_n (decode t opts) n r)"
| "decode (GSlice t) opts r =
     (case read_slice opts r of
        Inl e \<Rightarrow> Some (Inl e)
      | Inr (data, r) \<Rightarrow> map_option (\<lambda>res. ebind res (\<lambda>vs. Inr (VList vs, r))) (decode_all (decode t opts) data))"
| "decode (GStruct fs) opts r = map_option (\<lambda>res. ebind res (\<lambda>(vs, r). Inr (VList vs, r))) (decode_fields fs r)"
| "decode (GPtr t) opts r = map_option (\<lambda>res. ebind res (\<lambda>(v, r). Inr (VPtr (Some v), r))) (decode t opts r)"
| "decode_fields [] r = Some (Inr ([], r))"
| "decode_fields ((opts, t) # fs) r =
     (case decode t opts r of
        None \<Rightarrow> None
      | Some (Inl e) \<Rightarrow> Some (Inl e)
      | Some (Inr (v, r)) \<Rightarrow> map_option (\<lambda>res. ebind res (\<lambda>(vs, r). Inr (v # vs, r))) (decode_fields fs r))"

text \<open>The value and the number of bytes that were read.\<close>

definition Unmarshal :: "gotype \<Rightarrow> byte list \<Rightarrow> (goerr + goval \<times> nat) option" where
  "Unmarshal t bs =
     map_option (\<lambda>res. ebind res (\<lambda>(v, r). Inr (v, length bs - length r))) (decode t no_opts bs)"

subsection \<open>Numbers\<close>

lemma writeUint_eq: "writeUint u n = be_bytes n (unat u)"
proof (induction n)
  case (Suc n)
  have "writeUint u (Suc n) = u8 (shr u (8 * n)) # map (\<lambda>i. u8 (shr u (8 * (n - i - 1)))) [0..<n]"
    unfolding writeUint_def upt_conv_Cons [OF zero_less_Suc] list.map map_Suc_upt [symmetric] map_map by simp
  then show ?case using Suc by (simp add: writeUint_def u8_shr power_mult)
qed (simp add: writeUint_def)

lemma setUint_append: "foldl (\<lambda>val b. shl val 8 + u64 b) acc buf = acc * 256 ^ length buf + of_nat (be_nat buf)"
  by (induction buf arbitrary: acc) (simp_all add: push_bit_eq_mult algebra_simps)

lemma setUintFromBuffer_eq: "setUintFromBuffer buf = of_nat (be_nat buf)"
  by (simp add: setUintFromBuffer_def setUint_append)

lemma varintEncoder_eq: "varintEncoder u = (if u \<le> maxVarInt8 then WriteVarInt u else Inl (GoErr ''uint value is too big for varint''))"
proof (cases "u \<le> maxVarInt8")
  case True
  then have "unat u < 2 ^ 62" by (simp add: word_le_nat_alt)
  then have fits: "\<not> shr u 62 > 0" by (simp add: word_less_nat_alt unat_shr)
  have *: "u8 (a OR b :: uint64) = u8 a OR u8 b" "shr (a OR b :: uint64) n = shr a n OR shr b n" for a b n
    by (simp_all add: unsigned_or_eq drop_bit_or)
  have z: "(16384 :: byte) = 0" "(32768 :: byte) = 0" "(8388608 :: byte) = 0" "(2147483648 :: byte) = 0"
    "(49152 :: byte) = 0" "(12582912 :: byte) = 0" "(3221225472 :: byte) = 0" "(824633720832 :: byte) = 0"
    "(211106232532992 :: byte) = 0" "(54043195528445952 :: byte) = 0" "(13835058055282163712 :: byte) = 0"
    by simp_all
  consider "unat u \<le> 63" | "63 < unat u" "unat u \<le> 16383" | "16383 < unat u" "unat u \<le> 1073741823"
    | "1073741823 < unat u" by linarith
  then show ?thesis
    using True fits
    by cases (simp_all add: varintEncoder_def Let_def varint_len_def WriteVarInt_def word_le_nat_alt word_less_nat_alt
        push_bit_eq_mult writeUint_def upt_rec * z)
next
  case False
  then have "shr u 62 > 0" by (simp add: word_less_nat_alt word_le_nat_alt unat_shr div_greater_zero_iff)
  with False show ?thesis by (simp add: varintEncoder_def)
qed

lemma varint_len_eq: "u \<le> maxVarInt8 \<Longrightarrow> VarIntLen u = Inr (of_nat (varint_len u))"
  by (simp add: VarIntLen_def varint_len_def push_bit_eq_mult word_le_nat_alt word_less_nat_alt)

lemma varintDecoder_eq:
  "varintDecoder k (b # r) =
     (let n = 2 ^ (unat b div 64) in
      if k < n then Inl (GoErr ''Uint too small to fit varint'')
      else if length r < n - 1 then Inl (GoErr ''Insufficient data to read varint'')
      else Inr (of_nat (unat b mod 64 * 256 ^ (n - 1) + be_nat (take (n - 1) r)), drop (n - 1) r))"
proof -
  have "unat (shr b 6) = unat b div 64" by (simp add: unat_shr)
  then show ?thesis
    by (auto simp: varintDecoder_def Next_def Let_def setUintFromBuffer_eq and_3f not_less min_def)
qed

lemma varint_decodes:
  assumes "varintEncoder u = Inr bs" "varint_len u \<le> k"
  shows "varintDecoder k (bs @ r) = Inr (u, r)"
proof -
  have u: "u \<le> maxVarInt8" "WriteVarInt u = Inr bs" using assms(1) by (auto simp: varintEncoder_eq split: if_splits)
  obtain c b bs' where c: "c < 4" "bs = b # bs'" "length bs' = 2 ^ c - 1"
    and b: "unat b = 64 * c + unat u div 256 ^ (2 ^ c - 1)" "unat u div 256 ^ (2 ^ c - 1) < 64"
    and bs: "be_nat bs' = unat u mod 256 ^ (2 ^ c - 1)" and l: "VarIntLen u = Inr (2 ^ c)"
    by (rule varint_shape [OF u(1)]) (use u(2) in auto)
  have bd: "unat b div 64 = c" "unat b mod 64 = unat u div 256 ^ (2 ^ c - 1)" using b by simp_all
  have "varint_len u = 2 ^ c"
  proof -
    from c(1) consider "c = 0" | "c = 1" | "c = 2" | "c = 3" by linarith
    then show ?thesis
      by cases (use l varint_len_eq [OF u(1)] in \<open>auto simp: varint_len_def split: if_splits\<close>)
  qed
  then show ?thesis using assms(2) c bd bs
    by (simp add: varintDecoder_eq Let_def div_mult_mod_eq del: of_nat_add of_nat_mult)
qed

subsection \<open>Values survive\<close>

text \<open>The types the codec is used with: the elements of a slice take at least one byte.\<close>

fun takes_bytes :: "gotype \<Rightarrow> bool" where
  "takes_bytes (GUint k) \<longleftrightarrow> True"
| "takes_bytes (GArray n t) \<longleftrightarrow> n > 0 \<and> takes_bytes t"
| "takes_bytes (GSlice t) \<longleftrightarrow> True"
| "takes_bytes (GStruct fs) \<longleftrightarrow> (\<exists>f \<in> set fs. takes_bytes (snd f))"
| "takes_bytes (GPtr t) \<longleftrightarrow> takes_bytes t"

fun wf_type :: "gotype \<Rightarrow> bool" where
  "wf_type (GUint k) \<longleftrightarrow> k \<in> {1, 2, 4, 8}"
| "wf_type (GArray n t) \<longleftrightarrow> wf_type t"
| "wf_type (GSlice t) \<longleftrightarrow> wf_type t \<and> takes_bytes t"
| "wf_type (GStruct fs) \<longleftrightarrow> (\<forall>f \<in> set fs. wf_type (snd f))"
| "wf_type (GPtr t) \<longleftrightarrow> wf_type t"

text \<open>The values of a type. A number that is written with a variable length must not take more bytes
  than its type has.\<close>

fun typed :: "gotype \<Rightarrow> encOpts \<Rightarrow> goval \<Rightarrow> bool"
  and typed_fields :: "(encOpts \<times> gotype) list \<Rightarrow> goval list \<Rightarrow> bool" where
  "typed (GUint k) opts (VUint u) \<longleftrightarrow> unat u < 256 ^ k \<and> (opt_varint opts \<longrightarrow> varint_len u \<le> k)"
| "typed (GArray n t) opts (VList vs) \<longleftrightarrow> length vs = n \<and> (\<forall>v \<in> set vs. typed t opts v)"
| "typed (GSlice t) opts (VList vs) \<longleftrightarrow> (\<forall>v \<in> set vs. typed t opts v)"
| "typed (GStruct fs) opts (VList vs) \<longleftrightarrow> typed_fields fs vs"
| "typed (GPtr t) opts (VPtr v) \<longleftrightarrow> (case v of None \<Rightarrow> True | Some v \<Rightarrow> typed t opts v)"
| "typed t opts v \<longleftrightarrow> False"
| "typed_fields [] [] \<longleftrightarrow> True"
| "typed_fields ((opts, t) # fs) (v # vs) \<longleftrightarrow> typed t opts v \<and> typed_fields fs vs"
| "typed_fields fs vs \<longleftrightarrow> False"

lemma uint_decodes:
  assumes "uintEncoder k opts u = Inr bs" "typed (GUint k) opts (VUint u)"
  shows "uintDecoder k opts (bs @ r) = Inr (u, r)"
proof (cases "opt_varint opts")
  case True
  with assms varint_decodes show ?thesis by (simp add: uintEncoder_def uintDecoder_def)
next
  case False
  with assms have "bs = be_bytes k (unat u)" "unat u < 256 ^ k" by (auto simp: uintEncoder_def writeUint_eq)
  with False show ?thesis by (simp add: uintDecoder_def Next_def setUintFromBuffer_eq)
qed

lemma slice_decodes:
  assumes "slice_header opts data = Inr bs" "opt_head opts \<noteq> 0" "length bs < 2 ^ 63"
  shows "read_slice opts (bs @ r) = Inr (data, r)"
proof -
  let ?n = "length data"
  have h: "\<not> (opt_max opts > 0 \<and> ?n > opt_max opts)" "\<not> ?n div 2 ^ (8 * opt_head opts) > 0" "\<not> ?n < opt_min opts"
    "bs = be_bytes (opt_head opts) ?n @ data"
    using assms(1) by (auto simp: slice_header_def Let_def split: if_splits)
  have n: "?n < 2 ^ 63" using assms(3) h(4) by simp
  have "?n < 256 ^ opt_head opts" using h(2) by (simp add: div_greater_zero_iff power_mult)
  then have len: "setUintFromBuffer (be_bytes (opt_head opts) ?n) = of_nat ?n" by (simp add: setUintFromBuffer_eq)
  have un: "unat (of_nat ?n :: uint64) = ?n" using n by (simp add: unat_of_nat64)
  have pos: "\<not> sint (of_nat ?n :: uint64) < 0"
    using sint_small [of "of_nat ?n"] n un by simp
  show ?thesis
    using h(1,3) assms(2) n pos un
    by (simp add: read_slice_def Next_def Let_def h(4) len word_less_nat_alt)
qed

lemma be_bytes_Nil: "be_bytes n x = [] \<longleftrightarrow> n = 0"
  by (cases n) simp_all

lemma encoded_bytes:
  "encode t opts v = Inr bs \<Longrightarrow> typed t opts v \<Longrightarrow> wf_type t \<Longrightarrow> takes_bytes t \<Longrightarrow> bs \<noteq> []"
  "encode_all t opts vs = Inr bs \<Longrightarrow> \<forall>v \<in> set vs. typed t opts v \<Longrightarrow> wf_type t \<Longrightarrow> takes_bytes t \<Longrightarrow> vs \<noteq> [] \<Longrightarrow> bs \<noteq> []"
  "encode_fields fs vs = Inr bs \<Longrightarrow> typed_fields fs vs \<Longrightarrow> \<forall>f \<in> set fs. wf_type (snd f)
    \<Longrightarrow> \<exists>f \<in> set fs. takes_bytes (snd f) \<Longrightarrow> bs \<noteq> []"
proof (induction t opts v and t opts vs and fs vs arbitrary: bs and bs and bs
    rule: encode_encode_all_encode_fields.induct)
  case (1 k opts u)
  then have "k \<noteq> 0" by auto
  then show ?case using 1
    by (auto simp: uintEncoder_def writeUint_eq varintEncoder_eq WriteVarInt_def be_bytes_Nil split: if_splits)
next
  case (3 t opts vs)
  then show ?case by (auto simp: slice_header_def Let_def ebind_Inr_iff be_bytes_Nil split: if_splits)
qed (auto simp: ebind_Inr_iff)

lemma roundtrip:
  "encode t opts v = Inr bs \<Longrightarrow> typed t opts v \<Longrightarrow> wf_type t \<Longrightarrow> length bs < 2 ^ 63
   \<Longrightarrow> decode t opts (bs @ r) = Some (Inr (v, r))"
  "encode_all t opts vs = Inr bs \<Longrightarrow> \<forall>v \<in> set vs. typed t opts v \<Longrightarrow> wf_type t \<Longrightarrow> length bs < 2 ^ 63
   \<Longrightarrow> decode_n (decode t opts) (length vs) (bs @ r) = Some (Inr (vs, r))
     \<and> (takes_bytes t \<longrightarrow> decode_all (decode t opts) bs = Some (Inr vs))"
  "encode_fields fs vs = Inr bs \<Longrightarrow> typed_fields fs vs \<Longrightarrow> \<forall>f \<in> set fs. wf_type (snd f) \<Longrightarrow> length bs < 2 ^ 63
   \<Longrightarrow> decode_fields fs (bs @ r) = Some (Inr (vs, r))"
proof (induction t opts v and t opts vs and fs vs arbitrary: bs r and bs r and bs r
    rule: encode_encode_all_encode_fields.induct)
  case (1 k opts u)
  then show ?case using uint_decodes [OF _ "1.prems"(2)] by simp
next
  case (2 n t opts vs)
  then show ?case by simp
next
  case (3 t opts vs)
  then obtain data where d: "encode_all t opts vs = Inr data" "slice_header opts data = Inr bs" "opt_head opts \<noteq> 0"
    by (auto simp: ebind_Inr_iff split: if_splits)
  then have "length data \<le> length bs" by (auto simp: slice_header_def Let_def split: if_splits)
  then have "decode_all (decode t opts) data = Some (Inr vs)" using 3 d by simp
  with slice_decodes [OF d(2,3) "3.prems"(4)] show ?case by simp
next
  case (4 fs opts vs)
  then show ?case by simp
next
  case (8 t opts)
  then show ?case by (simp add: decode_all.simps)
next
  case (9 t opts v vs)
  then obtain b1 b2 where b: "encode t opts v = Inr b1" "encode_all t opts vs = Inr b2" "bs = b1 @ b2"
    by (auto simp: ebind_Inr_iff)
  have "decode_n (decode t opts) (length vs) (b2 @ r) = Some (Inr (vs, r))"
    "takes_bytes t \<longrightarrow> decode_all (decode t opts) b2 = Some (Inr vs)"
    using 9 b by simp_all
  moreover have "decode t opts (b1 @ s) = Some (Inr (v, s))" for s using 9 b by simp
  moreover have "b1 \<noteq> []" if "takes_bytes t" using encoded_bytes(1) [OF b(1)] 9 that by simp
  ultimately show ?case unfolding b(3) by (simp add: decode_all.simps [of _ "b1 @ b2"])
next
  case (11 opts t fs v vs)
  then obtain b1 b2 where b: "encode t opts v = Inr b1" "encode_fields fs vs = Inr b2" "bs = b1 @ b2"
    by (auto simp: ebind_Inr_iff)
  have "decode_fields fs (b2 @ r) = Some (Inr (vs, r))" "decode t opts (b1 @ s) = Some (Inr (v, s))" for s
    using 11 b by simp_all
  then show ?case unfolding b(3) by simp
qed (auto simp: ebind_Inr_iff)

subsection \<open>Decoding returns\<close>

fun small_heads :: "gotype \<Rightarrow> bool" where
  "small_heads (GUint k) \<longleftrightarrow> True"
| "small_heads (GArray n t) \<longleftrightarrow> small_heads t"
| "small_heads (GSlice t) \<longleftrightarrow> small_heads t"
| "small_heads (GStruct fs) \<longleftrightarrow> (\<forall>f \<in> set fs. opt_head (fst f) < 8 \<and> small_heads (snd f))"
| "small_heads (GPtr t) \<longleftrightarrow> small_heads t"

definition returns :: "bool \<Rightarrow> 'a decoder \<Rightarrow> bool" where
  "returns b d \<longleftrightarrow> (\<forall>r. \<exists>res. d r = Some res \<and> (\<forall>e. res \<noteq> Inl (Panic e))
     \<and> (\<forall>v r'. res = Inr (v, r') \<longrightarrow> length r' \<le> length r \<and> (b \<longrightarrow> length r' < length r)))"

lemma returnsE:
  assumes "returns b d"
  obtains (error) e where "d r = Some (Inl e)" "\<And>s. e \<noteq> Panic s"
  | (parsed) v r' where "d r = Some (Inr (v, r'))" "length r' \<le> length r" "b \<Longrightarrow> length r' < length r"
proof -
  from assms obtain res where res: "d r = Some res" "\<forall>e. res \<noteq> Inl (Panic e)"
    "\<forall>v r'. res = Inr (v, r') \<longrightarrow> length r' \<le> length r \<and> (b \<longrightarrow> length r' < length r)"
    unfolding returns_def by metis
  show thesis
  proof (cases res)
    case (Inl e)
    with res error show thesis by blast
  next
    case (Inr p)
    with res parsed [of "fst p" "snd p"] show thesis by (metis prod.collapse)
  qed
qed

lemma decode_all_returns:
  assumes "returns True d"
  shows "\<exists>res. decode_all d r = Some res \<and> (\<forall>e. res \<noteq> Inl (Panic e))"
proof (induction "length r" arbitrary: r rule: less_induct)
  case less
  show ?case
  proof (cases "r = []")
    case False
    from assms show ?thesis
    proof (cases rule: returnsE [of True d r])
      case (parsed v r')
      then obtain res where "decode_all d r' = Some res" "\<forall>e. res \<noteq> Inl (Panic e)" using less by blast
      then show ?thesis using False parsed by (cases res) (auto simp: decode_all.simps [of d r])
    qed (use False in \<open>auto simp: decode_all.simps [of d r]\<close>)
  qed (simp add: decode_all.simps)
qed

lemma returns_map:
  assumes "returns b d"
  shows "returns b (\<lambda>r. map_option (\<lambda>res. ebind res (\<lambda>(v, r). Inr (f v, r))) (d r))"
  unfolding returns_def
proof
  fix r
  show "\<exists>res. map_option (\<lambda>res. ebind res (\<lambda>(v, r). Inr (f v, r))) (d r) = Some res \<and> (\<forall>e. res \<noteq> Inl (Panic e))
     \<and> (\<forall>v r'. res = Inr (v, r') \<longrightarrow> length r' \<le> length r \<and> (b \<longrightarrow> length r' < length r))"
    by (rule returnsE [OF assms, of r]) auto
qed

lemma returns_seq:
  assumes "returns b d" "returns c ds"
  shows "returns (b \<or> c) (\<lambda>r. case d r of
       None \<Rightarrow> None
     | Some (Inl e) \<Rightarrow> Some (Inl e)
     | Some (Inr (v, r)) \<Rightarrow> map_option (\<lambda>res. ebind res (\<lambda>(vs, r). Inr (v # vs, r))) (ds r))"
  unfolding returns_def
proof
  fix r
  show "\<exists>res. (case d r of None \<Rightarrow> None | Some (Inl e) \<Rightarrow> Some (Inl e)
        | Some (Inr (v, r)) \<Rightarrow> map_option (\<lambda>res. ebind res (\<lambda>(vs, r). Inr (v # vs, r))) (ds r)) = Some res
      \<and> (\<forall>e. res \<noteq> Inl (Panic e))
      \<and> (\<forall>v r'. res = Inr (v, r') \<longrightarrow> length r' \<le> length r \<and> (b \<or> c \<longrightarrow> length r' < length r))"
  proof (rule returnsE [OF assms(1), of r])
    fix v r'
    assume "d r = Some (Inr (v, r'))" "length r' \<le> length r" "b \<Longrightarrow> length r' < length r"
    then show ?thesis by - (rule returnsE [OF assms(2), of r'], auto)
  qed auto
qed

lemma decode_n_returns: "returns b d \<Longrightarrow> returns (n > 0 \<and> b) (decode_n d n)"
proof (induction n)
  case (Suc n)
  have "returns (b \<or> n > 0 \<and> b) (decode_n d (Suc n))"
    using returns_seq [OF Suc.prems Suc.IH [OF Suc.prems]] by (simp only: decode_n.simps(2) [abs_def])
  moreover have "b \<or> n > 0 \<and> b \<longleftrightarrow> Suc n > 0 \<and> b" by blast
  ultimately show ?case by (simp only:)
qed (simp add: returns_def)

lemma read_slice_returns: "opt_head opts < 8 \<Longrightarrow> returns True (\<lambda>r. Some (read_slice opts r))"
  unfolding returns_def
proof
  fix r :: "byte list"
  assume h: "opt_head opts < 8"
  let ?bs = "take (opt_head opts) r"
  have "be_nat ?bs < 256 ^ length ?bs" by (rule be_nat_less)
  also have "\<dots> \<le> 256 ^ 7" using h by (intro power_increasing) simp_all
  finally have "unat (setUintFromBuffer ?bs) < 2 ^ 63" by (simp add: setUintFromBuffer_eq unat_of_nat64)
  then have "\<not> sint (setUintFromBuffer ?bs) < 0" using sint_small by fastforce
  then show "\<exists>res. Some (read_slice opts r) = Some res \<and> (\<forall>e. res \<noteq> Inl (Panic e))
      \<and> (\<forall>v r'. res = Inr (v, r') \<longrightarrow> length r' \<le> length r \<and> (True \<longrightarrow> length r' < length r))"
    by (auto simp: read_slice_def Next_def Let_def min_def split: if_splits)
qed

lemma uint_returns:
  assumes "k > 0"
  shows "returns True (\<lambda>r. Some (rbind (uintDecoder k opts r) (\<lambda>u r. Inr (VUint u, r))))"
  unfolding returns_def
proof
  fix r
  show "\<exists>res. Some (rbind (uintDecoder k opts r) (\<lambda>u r. Inr (VUint u, r))) = Some res \<and> (\<forall>e. res \<noteq> Inl (Panic e))
      \<and> (\<forall>v r'. res = Inr (v, r') \<longrightarrow> length r' \<le> length r \<and> (True \<longrightarrow> length r' < length r))"
    using assms
    by (cases r) (auto simp: uintDecoder_def varintDecoder_eq Next_def Let_def varintDecoder_def min_def
        split: if_splits)
qed

lemma decode_fields_returns:
  "\<forall>f \<in> set fs. returns (takes_bytes (snd f)) (decode (snd f) (fst f))
   \<Longrightarrow> returns (\<exists>f \<in> set fs. takes_bytes (snd f)) (decode_fields fs)"
proof (induction fs)
  case (Cons f fs)
  obtain opts t where f: "f = (opts, t)" by fastforce
  from Cons.prems have "returns (takes_bytes t) (decode t opts)" by (simp add: f)
  from returns_seq [OF this Cons.IH] Cons.prems
  have "returns (takes_bytes t \<or> (\<exists>f \<in> set fs. takes_bytes (snd f))) (decode_fields ((opts, t) # fs))"
    unfolding decode_fields.simps(2) [abs_def] by simp
  then show ?case by (simp add: f del: decode_fields.simps)
qed (simp add: returns_def)

lemma decode_returns:
  "wf_type t \<Longrightarrow> small_heads t \<Longrightarrow> opt_head opts < 8 \<Longrightarrow> returns (takes_bytes t) (decode t opts)"
proof (induction t arbitrary: opts)
  case (GUint k)
  then show ?case using uint_returns [of k opts] by (auto simp: returns_def)
next
  case (GArray n t)
  then show ?case using returns_map [OF decode_n_returns [of "takes_bytes t" "decode t opts" n], of VList]
    by (simp add: decode.simps(2) [abs_def])
next
  case (GSlice t)
  then have d: "returns True (decode t opts)" by simp
  show ?case
    unfolding returns_def
  proof
    fix r
    show "\<exists>res. decode (GSlice t) opts r = Some res \<and> (\<forall>e. res \<noteq> Inl (Panic e))
        \<and> (\<forall>v r'. res = Inr (v, r') \<longrightarrow> length r' \<le> length r \<and> (takes_bytes (GSlice t) \<longrightarrow> length r' < length r))"
    proof (rule returnsE [OF read_slice_returns [OF GSlice.prems(3)], of r])
      fix data r'
      assume data: "Some (read_slice opts r) = Some (Inr (data, r'))" "length r' \<le> length r" "True \<Longrightarrow> length r' < length r"
      from decode_all_returns [OF d, of data] obtain res where "decode_all (decode t opts) data = Some res"
        "\<forall>e. res \<noteq> Inl (Panic e)" by blast
      then show ?thesis using data by (cases res) auto
    qed auto
  qed
next
  case (GStruct fs)
  then have "\<forall>f \<in> set fs. returns (takes_bytes (snd f)) (decode (snd f) (fst f))"
    by (metis (no_types, lifting) small_heads.simps(4) snds.intros wf_type.simps(4))
  from returns_map [OF decode_fields_returns [OF this], of VList] show ?case
    by (simp add: decode.simps(4) [abs_def])
next
  case (GPtr t)
  then show ?case using returns_map [of "takes_bytes t" "decode t opts" "\<lambda>v. VPtr (Some v)"]
    by (simp add: decode.simps(5) [abs_def])
qed

lemma tls_codec_roundtrip:
  assumes t: "wf_type t" "small_heads t" and v: "typed t no_opts v" "Marshal t v = Inr bs" "length bs < 2 ^ 63"
  shows "Unmarshal t (bs @ r) = Some (Inr (v, length bs))"
  using roundtrip(1) [OF _ v(1) t(1) v(3)] v(2) by (simp add: Marshal_def Unmarshal_def)

text \<open>C30: The TLS codec of mint: what \<open>Marshal\<close> writes for a value, \<open>Unmarshal\<close> reads back, for all types whose
  slice elements take at least one byte; and on any input at all \<open>Unmarshal\<close> of such a type returns, and
  does not panic, provided that the length fields have at most 7 bytes.\<close>

theorem tls_codec_correct:
  assumes t: "wf_type t" "small_heads t" and v: "typed t no_opts v" "Marshal t v = Inr bs" "length bs < 2 ^ 63"
  shows "Unmarshal t (bs @ r) = Some (Inr (v, length bs))
    \<and> (\<exists>res. Unmarshal t any = Some res \<and> (\<forall>e. res \<noteq> Inl (Panic e)))"
proof -
  have "\<exists>res. Unmarshal t any = Some res \<and> (\<forall>e. res \<noteq> Inl (Panic e))"
    by (rule returnsE [OF decode_returns [OF t, of no_opts], of any]) (auto simp: Unmarshal_def)
  then show ?thesis using tls_codec_roundtrip [OF t v] by blast
qed

text \<open>The struct of a TLS extension, \<open>{ExtensionType uint16; ExtensionData []byte `tls:"head=2"`}\<close>.\<close>

definition Extension_type :: gotype where
  "Extension_type = GStruct [(no_opts, GUint 2), (field_opts ''head=2'', GSlice (GUint 1))]"

lemma field_opts_head: "field_opts ''head=2'' = no_opts\<lparr>opt_head := 2\<rparr>" "field_opts ''head=1'' = no_opts\<lparr>opt_head := 1\<rparr>"
  by (simp_all add: field_opts_def parseTag_def parse_token_def lookup_opt_def Atoi_def is_digit_def digits_val_def
      digit_val_def Let_def)

theorem tls_codec_correct_witness:
  "Unmarshal Extension_type ([0, 26, 0, 2, 7, 8] @ [9]) = Some (Inr (VList [VUint 26, VList [VUint 7, VUint 8]], 6))
   \<and> (\<exists>res. Unmarshal Extension_type [0, 26, 0, 9, 7] = Some res \<and> (\<forall>e. res \<noteq> Inl (Panic e)))"
  using tls_codec_correct [of Extension_type "VList [VUint 26, VList [VUint 7, VUint 8]]" "[0, 26, 0, 2, 7, 8]" "[9]"
      "[0, 26, 0, 9, 7]"]
  by (simp add: Extension_type_def field_opts_head Marshal_def uintEncoder_def writeUint_eq be_bytes_numeral slice_header_def)

end
