(* ===== verification/Transport_Params.thy ===== *)
theory Transport_Params
  imports Handshake_Message Tls_Syntax "HOL-Library.Signed_Division"
begin

section \<open>Transport parameters\<close>

text \<open>
  \<^verbatim>\<open>internal/handshake/\<close>: \<^verbatim>\<open>transport_parameters.go\<close>, \<^verbatim>\<open>tls_extension.go\<close> and the extension handlers of
  client and server, with \<^verbatim>\<open>Add\<close> and \<^verbatim>\<open>Find\<close> of \<^verbatim>\<open>bifurcation/mint/extensions.go\<close>. The channel on which a
  handler delivers the parameters of the peer is the result of \<open>Receive\<close>. Times are nanoseconds.
\<close>

abbreviation (input) InvalidCryptoMessageParameter :: ErrorCode where "InvalidCryptoMessageParameter \<equiv> 34"
abbreviation (input) VersionNegotiationMismatch :: ErrorCode where "VersionNegotiationMismatch \<equiv> 55"

abbreviation Second :: int where "Second \<equiv> 1000000000"

definition MinRemoteIdleTimeout :: int where "MinRemoteIdleTimeout = 5 * Second"
definition MaxReceivePacketSize :: ByteCount where "MaxReceivePacketSize = 1452"
definition errMalformedTag :: goerr where "errMalformedTag = QErr InvalidCryptoMessageParameter"

record TransportParameters =
  StreamFlowControlWindow :: ByteCount
  ConnectionFlowControlWindow :: ByteCount
  tp_MaxBidiStreamID :: StreamID
  tp_MaxUniStreamID :: StreamID
  MaxStreams :: uint32
  OmitConnectionID :: bool
  IdleTimeout :: int

definition no_params :: TransportParameters where
  "no_params = \<lparr>StreamFlowControlWindow = 0, ConnectionFlowControlWindow = 0, tp_MaxBidiStreamID = 0,
     tp_MaxUniStreamID = 0, MaxStreams = 0, OmitConnectionID = False, IdleTimeout = 0\<rparr>"

subsection \<open>In gQUIC handshake messages\<close>

text \<open>The value of a tag is read if the tag is there.\<close>

definition with_tag ::
  "(Tag \<rightharpoonup> byte list) \<Rightarrow> Tag \<Rightarrow> (uint32 \<Rightarrow> TransportParameters \<Rightarrow> TransportParameters)
   \<Rightarrow> TransportParameters \<Rightarrow> goerr + TransportParameters" where
  "with_tag tags t f params =
     (case tags t of
        None \<Rightarrow> Inr params
      | Some v \<Rightarrow> (case le_ReadUint32 v of Inl e \<Rightarrow> Inl errMalformedTag | Inr (v, r) \<Rightarrow> Inr (f v params)))"

definition readHelloMap :: "(Tag \<rightharpoonup> byte list) \<Rightarrow> goerr + TransportParameters" where
  "readHelloMap tags =
     ebind (with_tag tags TagTCID (\<lambda>v p. p\<lparr>OmitConnectionID := (v = 0)\<rparr>) no_params) (\<lambda>p.
     ebind (with_tag tags TagMIDS (\<lambda>v p. p\<lparr>MaxStreams := v\<rparr>) p) (\<lambda>p.
     ebind (with_tag tags TagICSL (\<lambda>v p. p\<lparr>IdleTimeout := max MinRemoteIdleTimeout (uint v * Second)\<rparr>) p) (\<lambda>p.
     ebind (with_tag tags TagSFCW (\<lambda>v p. p\<lparr>StreamFlowControlWindow := ucast v\<rparr>) p) (\<lambda>p.
     with_tag tags TagCFCW (\<lambda>v p. p\<lparr>ConnectionFlowControlWindow := ucast v\<rparr>) p))))"

definition getHelloMap :: "TransportParameters \<Rightarrow> (Tag \<rightharpoonup> byte list)" where
  "getHelloMap p =
     (let tags = [TagICSL \<mapsto> le_WriteUint32 (of_int (IdleTimeout p sdiv Second)),
                  TagMIDS \<mapsto> le_WriteUint32 (MaxStreams p),
                  TagCFCW \<mapsto> le_WriteUint32 (ucast (ConnectionFlowControlWindow p)),
                  TagSFCW \<mapsto> le_WriteUint32 (ucast (StreamFlowControlWindow p))]
      in if OmitConnectionID p then tags(TagTCID \<mapsto> [0, 0, 0, 0]) else tags)"

subsection \<open>In the TLS extension\<close>

type_synonym transportParameterID = uint16

definition initialMaxStreamDataParameterID :: transportParameterID where "initialMaxStreamDataParameterID = 0"
definition initialMaxDataParameterID :: transportParameterID where "initialMaxDataParameterID = 1"
definition initialMaxStreamIDBiDiParameterID :: transportParameterID where "initialMaxStreamIDBiDiParameterID = 2"
definition idleTimeoutParameterID :: transportParameterID where "idleTimeoutParameterID = 3"
definition omitConnectionIDParameterID :: transportParameterID where "omitConnectionIDParameterID = 4"
definition maxPacketSizeParameterID :: transportParameterID where "maxPacketSizeParameterID = 5"
definition statelessResetTokenParameterID :: transportParameterID where "statelessResetTokenParameterID = 6"
definition initialMaxStreamIDUniParameterID :: transportParameterID where "initialMaxStreamIDUniParameterID = 8"

lemmas parameter_ids = initialMaxStreamDataParameterID_def initialMaxDataParameterID_def
  initialMaxStreamIDBiDiParameterID_def idleTimeoutParameterID_def omitConnectionIDParameterID_def
  maxPacketSizeParameterID_def statelessResetTokenParameterID_def initialMaxStreamIDUniParameterID_def

type_synonym transportParameter = "transportParameterID \<times> byte list"

text \<open>The three flags of \<open>readTransportParamters\<close>: the parameters that must be there.\<close>

record found_params =
  foundInitialMaxStreamData :: bool
  foundInitialMaxData :: bool
  foundIdleTimeout :: bool

definition read_parameter ::
  "transportParameter \<Rightarrow> TransportParameters \<times> found_params \<Rightarrow> goerr + TransportParameters \<times> found_params" where
  "read_parameter p st =
     (let (i, v) = p; (params, found) = st in
      if i = initialMaxStreamDataParameterID then
        (if length v \<noteq> 4 then Inl (GoErr ''wrong length for initial_max_stream_data'')
         else Inr (params\<lparr>StreamFlowControlWindow := of_nat (be_nat v)\<rparr>, found\<lparr>foundInitialMaxStreamData := True\<rparr>))
      else if i = initialMaxDataParameterID then
        (if length v \<noteq> 4 then Inl (GoErr ''wrong length for initial_max_data'')
         else Inr (params\<lparr>ConnectionFlowControlWindow := of_nat (be_nat v)\<rparr>, found\<lparr>foundInitialMaxData := True\<rparr>))
      else if i = initialMaxStreamIDBiDiParameterID then
        (if length v \<noteq> 4 then Inl (GoErr ''wrong length for initial_max_stream_id_bidi'')
         else Inr (params\<lparr>tp_MaxBidiStreamID := of_nat (be_nat v)\<rparr>, found))
      else if i = initialMaxStreamIDUniParameterID then
        (if length v \<noteq> 4 then Inl (GoErr ''wrong length for initial_max_stream_id_uni'')
         else Inr (params\<lparr>tp_MaxUniStreamID := of_nat (be_nat v)\<rparr>, found))
      else if i = idleTimeoutParameterID then
        (if length v \<noteq> 2 then Inl (GoErr ''wrong length for idle_timeout'')
         else Inr (params\<lparr>IdleTimeout := max MinRemoteIdleTimeout (int (be_nat v) * Second)\<rparr>,
                   found\<lparr>foundIdleTimeout := True\<rparr>))
      else if i = omitConnectionIDParameterID then
        (if length v \<noteq> 0 then Inl (GoErr ''wrong length for omit_connection_id'')
         else Inr (params\<lparr>OmitConnectionID := True\<rparr>, found))
      else Inr (params, found))"

fun read_parameters ::
  "transportParameter list \<Rightarrow> TransportParameters \<times> found_params \<Rightarrow> goerr + TransportParameters \<times> found_params" where
  "read_parameters [] st = Inr st"
| "read_parameters (p # ps) st = ebind (read_parameter p st) (read_parameters ps)"

definition readTransportParamters :: "transportParameter list \<Rightarrow> goerr + TransportParameters" where
  "readTransportParamters ps =
     ebind (read_parameters ps (no_params, \<lparr>foundInitialMaxStreamData = False, foundInitialMaxData = False, foundIdleTimeout = False\<rparr>))
       (\<lambda>(params, found).
          if \<not> (foundInitialMaxStreamData found \<and> foundInitialMaxData found \<and> foundIdleTimeout found)
          then Inl (GoErr ''missing parameter'') else Inr params)"

definition getTransportParameters :: "TransportParameters \<Rightarrow> transportParameter list" where
  "getTransportParameters p =
     [(initialMaxStreamDataParameterID, be_WriteUint32 (ucast (StreamFlowControlWindow p))),
      (initialMaxDataParameterID, be_WriteUint32 (ucast (ConnectionFlowControlWindow p))),
      (initialMaxStreamIDBiDiParameterID, be_WriteUint32 (ucast (tp_MaxBidiStreamID p))),
      (initialMaxStreamIDUniParameterID, be_WriteUint32 (ucast (tp_MaxUniStreamID p))),
      (idleTimeoutParameterID, be_WriteUint16 (of_int (IdleTimeout p sdiv Second))),
      (maxPacketSizeParameterID, be_WriteUint16 (ucast MaxReceivePacketSize))]
     @ (if OmitConnectionID p then [(omitConnectionIDParameterID, [])] else [])"

subsection \<open>The structs of the extension\<close>

definition transportParameter_type :: gotype where
  "transportParameter_type = GStruct [(field_opts '''', GUint 2), (field_opts ''head=2'', GSlice (GUint 1))]"

definition clientHello_type :: gotype where
  "clientHello_type = GStruct [(field_opts '''', GUint 4), (field_opts ''head=2'', GSlice transportParameter_type)]"

definition encryptedExtensions_type :: gotype where
  "encryptedExtensions_type =
     GStruct [(field_opts '''', GUint 4), (field_opts ''head=1'', GSlice (GUint 4)),
              (field_opts ''head=2'', GSlice transportParameter_type)]"

definition param_val :: "transportParameter \<Rightarrow> goval" where
  "param_val p = VList [VUint (ucast (fst p)), VList (map (\<lambda>b. VUint (ucast b)) (snd p))]"

fun uint_of :: "goval \<Rightarrow> uint64" where
  "uint_of (VUint u) = u"
| "uint_of v = 0"

fun list_of :: "goval \<Rightarrow> goval list" where
  "list_of (VList vs) = vs"
| "list_of v = []"

definition param_of :: "goval \<Rightarrow> transportParameter" where
  "param_of v = (ucast (uint_of (list_of v ! 0)), map (\<lambda>b. ucast (uint_of b)) (list_of (list_of v ! 1)))"

definition clientHello_val :: "VersionNumber \<Rightarrow> transportParameter list \<Rightarrow> goval" where
  "clientHello_val v ps = VList [VUint (ucast v), VList (map param_val ps)]"

definition encryptedExtensions_val :: "VersionNumber \<Rightarrow> VersionNumber list \<Rightarrow> transportParameter list \<Rightarrow> goval" where
  "encryptedExtensions_val v vs ps =
     VList [VUint (ucast v), VList (map (\<lambda>v. VUint (ucast v)) vs), VList (map param_val ps)]"

subsection \<open>Extension lists\<close>

definition quicTLSExtensionType :: uint16 where "quicTLSExtensionType = 26"

type_synonym ExtensionList = "(uint16 \<times> byte list) list"

fun Extension_Add :: "uint16 \<Rightarrow> byte list \<Rightarrow> ExtensionList \<Rightarrow> ExtensionList" where
  "Extension_Add t data [] = [(t, data)]"
| "Extension_Add t data (e # el) = (if fst e = t then (t, data) # el else e # Extension_Add t data el)"

fun Extension_Find :: "uint16 \<Rightarrow> ExtensionList \<Rightarrow> byte list option" where
  "Extension_Find t [] = None"
| "Extension_Find t (e # el) = (if fst e = t then Some (snd e) else Extension_Find t el)"

subsection \<open>The handlers\<close>

definition HandshakeTypeClientHello :: byte where "HandshakeTypeClientHello = 1"
definition HandshakeTypeEncryptedExtensions :: byte where "HandshakeTypeEncryptedExtensions = 8"

record extensionHandlerServer =
  srv_ourParams :: TransportParameters
  srv_version :: VersionNumber
  srv_supportedVersions :: "VersionNumber list"

record extensionHandlerClient =
  cli_ourParams :: TransportParameters
  cli_initialVersion :: VersionNumber
  cli_supportedVersions :: "VersionNumber list"
  cli_version :: VersionNumber

text \<open>\<open>rndPos\<close> and \<open>rnd\<close> are the random numbers of \<open>GetGreasedVersions\<close>.\<close>

definition server_Send :: "byte \<Rightarrow> uint32 \<Rightarrow> byte \<Rightarrow> ExtensionList \<Rightarrow> extensionHandlerServer \<Rightarrow> goerr + ExtensionList" where
  "server_Send rndPos rnd hType el h =
     (if hType \<noteq> HandshakeTypeEncryptedExtensions then Inr el
      else
        let transportParams = getTransportParameters (srv_ourParams h) @ [(statelessResetTokenParameterID, replicate 16 42)];
            versions = GetGreasedVersions rndPos rnd (srv_supportedVersions h)
        in ebind (Marshal encryptedExtensions_type (encryptedExtensions_val (srv_version h) versions transportParams))
             (\<lambda>data. Inr (Extension_Add quicTLSExtensionType data el)))"

definition server_Receive :: "byte \<Rightarrow> ExtensionList \<Rightarrow> extensionHandlerServer \<Rightarrow> (goerr + TransportParameters option) option" where
  "server_Receive hType el h =
     (case Extension_Find quicTLSExtensionType el of
        found \<Rightarrow>
          if hType \<noteq> HandshakeTypeClientHello then
            Some (if found \<noteq> None then Inl (GoErr ''Unexpected QUIC extension in handshake message'') else Inr None)
          else case found of
                 None \<Rightarrow> Some (Inl (GoErr ''ClientHello didn't contain a QUIC extension''))
               | Some data \<Rightarrow>
                   map_option (\<lambda>res. ebind res (\<lambda>(v, read).
                     let initialVersion = ucast (uint_of (list_of v ! 0));
                         ps = map param_of (list_of (list_of v ! 1)) in
                     if initialVersion \<noteq> srv_version h \<and> IsSupportedVersion (srv_supportedVersions h) initialVersion
                     then Inl (QErr VersionNegotiationMismatch)
                     else if list_ex (\<lambda>p. fst p = statelessResetTokenParameterID) ps
                     then Inl (GoErr ''client sent a stateless reset token'')
                     else ebind (readTransportParamters ps) (\<lambda>params. Inr (Some params))))
                   (Unmarshal clientHello_type data))"

definition client_Send :: "byte \<Rightarrow> ExtensionList \<Rightarrow> extensionHandlerClient \<Rightarrow> goerr + ExtensionList" where
  "client_Send hType el h =
     (if hType \<noteq> HandshakeTypeClientHello then Inr el
      else ebind (Marshal clientHello_type (clientHello_val (cli_initialVersion h) (getTransportParameters (cli_ourParams h))))
             (\<lambda>data. Inr (Extension_Add quicTLSExtensionType data el)))"

text \<open>The check of the stateless reset tokens: all must have 16 bytes, and one must be there.\<close>

definition check_tokens :: "transportParameter list \<Rightarrow> goerr option" where
  "check_tokens ps =
     (let tokens = filter (\<lambda>p. fst p = statelessResetTokenParameterID) ps in
      if list_ex (\<lambda>p. length (snd p) \<noteq> 16) tokens then Some (GoErr ''wrong length for stateless_reset_token'')
      else if tokens = [] then Some (GoErr ''server didn't sent stateless_reset_token'') else None)"

definition check_versions :: "extensionHandlerClient \<Rightarrow> VersionNumber \<Rightarrow> VersionNumber list \<Rightarrow> bool" where
  "check_versions h negotiated serverSupportedVersions \<longleftrightarrow>
     negotiated = cli_version h
     \<and> IsSupportedVersion serverSupportedVersions (cli_version h)
     \<and> (cli_version h \<noteq> cli_initialVersion h
          \<longrightarrow> ChooseSupportedVersion (cli_supportedVersions h) serverSupportedVersions = (cli_version h, True))"

definition client_Receive :: "byte \<Rightarrow> ExtensionList \<Rightarrow> extensionHandlerClient \<Rightarrow> (goerr + TransportParameters option) option" where
  "client_Receive hType el h =
     (case Extension_Find quicTLSExtensionType el of
        found \<Rightarrow>
          if hType \<noteq> HandshakeTypeEncryptedExtensions then
            Some (if found \<noteq> None then Inl (GoErr ''Unexpected QUIC extension in handshake message'') else Inr None)
          else case found of
                 None \<Rightarrow> Some (Inl (GoErr ''EncryptedExtensions message didn't contain a QUIC extension''))
               | Some data \<Rightarrow>
                   map_option (\<lambda>res. ebind res (\<lambda>(v, read).
                     let negotiated = ucast (uint_of (list_of v ! 0));
                         versions = map (\<lambda>v. ucast (uint_of v)) (list_of (list_of v ! 1));
                         ps = map param_of (list_of (list_of v ! 2)) in
                     if \<not> check_versions h negotiated versions then Inl (QErr VersionNegotiationMismatch)
                     else case check_tokens ps of
                            Some e \<Rightarrow> Inl e
                          | None \<Rightarrow> ebind (readTransportParamters ps) (\<lambda>params. Inr (Some params))))
                   (Unmarshal encryptedExtensions_type data))"

subsection \<open>Parameters survive\<close>

definition params_wf :: "nat \<Rightarrow> TransportParameters \<Rightarrow> bool" where
  "params_wf limit p \<longleftrightarrow>
     unat (StreamFlowControlWindow p) < 2 ^ 32 \<and> unat (ConnectionFlowControlWindow p) < 2 ^ 32
     \<and> unat (tp_MaxBidiStreamID p) < 2 ^ 32 \<and> unat (tp_MaxUniStreamID p) < 2 ^ 32
     \<and> (\<exists>k. 5 \<le> k \<and> k < limit \<and> IdleTimeout p = int k * Second)"

lemma window_fits: "unat (w :: uint64) < 2 ^ 32 \<Longrightarrow> ucast (ucast w :: uint32) = w"
  by (simp add: word_unat_eq_iff unsigned_ucast_eq unsigned_take_bit_eq take_bit_nat_eq_self)

lemma idle_time: "(int k * Second) sdiv Second = int k"
  by (cases "k = 0") (simp_all add: signed_divide_int_def sgn_mult)

lemma le_ReadUint32_Write: "le_ReadUint32 (le_WriteUint32 w) = Inr (w, [])"
  using le_roundtrip(2) [of w "[]"] by simp

lemma hello_map_roundtrip:
  assumes "params_wf (2 ^ 32) p"
  shows "readHelloMap (getHelloMap p) = Inr (p\<lparr>tp_MaxBidiStreamID := 0, tp_MaxUniStreamID := 0\<rparr>)"
proof -
  obtain k where k: "5 \<le> k" "k < 2 ^ 32" "IdleTimeout p = int k * Second" using assms by (auto simp: params_wf_def)
  have tags: "TagTCID \<noteq> TagMIDS" "TagTCID \<noteq> TagICSL" "TagTCID \<noteq> TagSFCW" "TagTCID \<noteq> TagCFCW" 
    "TagMIDS \<noteq> TagTCID" "TagMIDS \<noteq> TagICSL" "TagMIDS \<noteq> TagSFCW" "TagMIDS \<noteq> TagCFCW" 
    "TagICSL \<noteq> TagTCID" "TagICSL \<noteq> TagMIDS" "TagICSL \<noteq> TagSFCW" "TagICSL \<noteq> TagCFCW" 
    "TagSFCW \<noteq> TagTCID" "TagSFCW \<noteq> TagMIDS" "TagSFCW \<noteq> TagICSL" "TagSFCW \<noteq> TagCFCW" 
    "TagCFCW \<noteq> TagTCID" "TagCFCW \<noteq> TagMIDS" "TagCFCW \<noteq> TagICSL" "TagCFCW \<noteq> TagSFCW" 
    by (simp_all add: tag_defs)
  have zero: "le_ReadUint32 [0, 0, 0, 0] = Inr (0, [])" by (simp add: le_ReadUint32_def)
  have w: "ucast (ucast (StreamFlowControlWindow p) :: uint32) = StreamFlowControlWindow p"
    "ucast (ucast (ConnectionFlowControlWindow p) :: uint32) = ConnectionFlowControlWindow p"
    using assms by (simp_all add: params_wf_def window_fits)
  have "uint (of_nat k :: uint32) = int k" using k(2) by (simp add: uint_nat unat_of_nat)
  then have t: "max MinRemoteIdleTimeout (uint (of_int (IdleTimeout p sdiv Second) :: uint32) * Second) = IdleTimeout p"
    using k unfolding k(3) idle_time by (simp add: MinRemoteIdleTimeout_def)
  show ?thesis
    by (simp add: readHelloMap_def getHelloMap_def with_tag_def Let_def le_ReadUint32_Write zero no_params_def tags t w)
qed

lemma be_nat_Write: "be_nat (be_WriteUint32 w) = unat w" "be_nat (be_WriteUint16 x) = unat x"
  by (simp_all add: be_codec)

lemma read_parameters_append:
  "read_parameters (ps @ qs) st = ebind (read_parameters ps st) (read_parameters qs)"
  by (induction ps arbitrary: st) (auto simp: ebind_def split: sum.split)

lemma transport_parameters_roundtrip:
  assumes "params_wf (2 ^ 16) p"
  shows "readTransportParamters (getTransportParameters p) = Inr (p\<lparr>MaxStreams := 0\<rparr>)"
    and "length token = 16 \<Longrightarrow> readTransportParamters (getTransportParameters p @ [(statelessResetTokenParameterID, token)])
      = Inr (p\<lparr>MaxStreams := 0\<rparr>)"
proof -
  obtain k where k: "5 \<le> k" "k < 2 ^ 16" "IdleTimeout p = int k * Second" using assms by (auto simp: params_wf_def)
  have w: "(of_nat (be_nat (be_WriteUint32 (ucast x))) :: uint64) = x" if "unat x < 2 ^ 32" for x :: uint64
    using that unfolding be_nat_Write
    by (simp add: word_unat_eq_iff unat_of_nat64 unsigned_ucast_eq unsigned_take_bit_eq take_bit_nat_eq_self)
  have "uint (of_nat k :: uint16) = int k" using k(2) by (simp add: uint_nat unat_of_nat)
  then have t: "max MinRemoteIdleTimeout (int (be_nat (be_WriteUint16 (of_int (IdleTimeout p sdiv Second)))) * Second) = IdleTimeout p"
    using k unfolding be_nat_Write k(3) idle_time by (simp add: MinRemoteIdleTimeout_def)
  define st where "st = (no_params\<lparr>StreamFlowControlWindow := StreamFlowControlWindow p,
      ConnectionFlowControlWindow := ConnectionFlowControlWindow p, tp_MaxBidiStreamID := tp_MaxBidiStreamID p,
      tp_MaxUniStreamID := tp_MaxUniStreamID p, OmitConnectionID := OmitConnectionID p, IdleTimeout := IdleTimeout p\<rparr>,
    \<lparr>foundInitialMaxStreamData = True, foundInitialMaxData = True, foundIdleTimeout = True\<rparr>)"
  have st: "read_parameters (getTransportParameters p)
      (no_params, \<lparr>foundInitialMaxStreamData = False, foundInitialMaxData = False, foundIdleTimeout = False\<rparr>) = Inr st"
    using assms
    by (simp add: st_def getTransportParameters_def read_parameter_def parameter_ids params_wf_def w t no_params_def)
  have fin: "fst st = p\<lparr>MaxStreams := 0\<rparr>" by (cases p) (simp add: st_def no_params_def)
  show "readTransportParamters (getTransportParameters p) = Inr (p\<lparr>MaxStreams := 0\<rparr>)"
    using fin by (simp add: readTransportParamters_def st st_def)
  show "readTransportParamters (getTransportParameters p @ [(statelessResetTokenParameterID, token)])
      = Inr (p\<lparr>MaxStreams := 0\<rparr>)" if "length token = 16"
    using fin by (simp add: readTransportParamters_def read_parameters_append st) (simp add: st_def read_parameter_def parameter_ids)
qed

subsection \<open>The extension on the wire\<close>

lemma widen:
  "unat (u64 (b :: byte)) = unat b" "unat (u64 (x :: uint16)) = unat x" "unat (u64 (v :: uint32)) = unat v"
  "u8 (u64 b) = b" "u16 (u64 x) = x" "u32 (u64 v) = v"
proof -
  have l: "unat b < 256" "unat x < 65536" "unat v < 4294967296"
    using unsigned_less [of x, where 'a = nat] unsigned_less [of v, where 'a = nat] by simp_all
  moreover have "unat b < 18446744073709551616" using unat_lt_256 [of b] by linarith
  ultimately show "unat (u64 b) = unat b" "unat (u64 x) = unat x" "unat (u64 v) = unat v"
    by (simp_all add: unsigned_ucast_eq unsigned_take_bit_eq take_bit_nat_eq_self)
  with l show "u8 (u64 b) = b" "u16 (u64 x) = x" "u32 (u64 v) = v"
    by (simp_all only: word_unat_eq_iff unsigned_ucast_eq unsigned_take_bit_eq) (simp_all add: take_bit_nat_eq_self)
qed

lemma field_opts_plain: "field_opts '''' = no_opts"
  by (simp add: field_opts_def parseTag_def parse_token_def lookup_opt_def)

lemmas extension_types = transportParameter_type_def clientHello_type_def encryptedExtensions_type_def
  field_opts_plain field_opts_head

lemma extension_types_ok:
  "wf_type clientHello_type" "small_heads clientHello_type"
  "wf_type encryptedExtensions_type" "small_heads encryptedExtensions_type"
  by (simp_all add: extension_types)

definition param_bytes :: "transportParameter \<Rightarrow> byte list" where
  "param_bytes p = be_bytes 2 (unat (fst p)) @ be_bytes 2 (length (snd p)) @ snd p"

lemma encode_bytes:
  "\<not> opt_varint opts \<Longrightarrow> encode_all (GUint (Suc 0)) opts (map (\<lambda>b. VUint (ucast (b :: byte))) bs) = Inr bs"
  by (induction bs) (simp_all add: uintEncoder_def writeUint_eq widen)

lemma encode_params:
  "\<forall>p \<in> set ps. length (snd p) < 65536
   \<Longrightarrow> encode_all transportParameter_type opts (map param_val ps) = Inr (concat (map param_bytes ps))"
proof (induction ps)
  case (Cons p ps)
  have "encode transportParameter_type opts (param_val p) = Inr (param_bytes p)"
    using Cons.prems
    by (simp add: extension_types param_val_def param_bytes_def uintEncoder_def writeUint_eq encode_bytes slice_header_def Let_def widen)
  with Cons show ?case by simp
qed simp

lemma typed_params: "\<forall>v \<in> set (map param_val ps). typed transportParameter_type opts v"
proof -
  have "unat (ucast (x :: uint16) :: uint64) < 65536" for x
    using unsigned_less [of x, where 'a = nat] by (simp add: widen)
  moreover have "unat (ucast (b :: byte) :: uint64) < 256" for b
    using unat_lt_256 [of b] by (simp only: widen)
  ultimately show ?thesis by (simp add: extension_types param_val_def)
qed

lemma param_of_val: "param_of (param_val p) = p"
  by (simp add: param_of_def param_val_def comp_def widen)

lemma encode_versions:
  "encode_all (GUint 4) opts (map (\<lambda>v. VUint (ucast (v :: uint32))) vs) = Inr (concat (map (\<lambda>v. be_bytes 4 (unat v)) vs))"
  if "\<not> opt_varint opts"
proof (induction vs)
  case (Cons v vs)
  with that show ?case by (simp add: uintEncoder_def writeUint_eq widen)
qed simp

lemma typed_versions: "unat (ucast (v :: uint32) :: uint64) < 4294967296"
  using unsigned_less [of v, where 'a = nat] by (simp add: widen)

lemma extension_roundtrip:
  assumes "\<forall>p \<in> set ps. length (snd p) < 65536" "length (concat (map param_bytes ps)) < 65536"
  shows "\<exists>data. Marshal clientHello_type (clientHello_val v ps) = Inr data
      \<and> Unmarshal clientHello_type data = Some (Inr (clientHello_val v ps, length data))"
    and "length vs < 64 \<Longrightarrow> \<exists>data. Marshal encryptedExtensions_type (encryptedExtensions_val v vs ps) = Inr data
      \<and> Unmarshal encryptedExtensions_type data = Some (Inr (encryptedExtensions_val v vs ps, length data))"
proof -
  let ?d = "concat (map param_bytes ps)" and ?vs = "concat (map (\<lambda>v. be_bytes 4 (unat v)) vs)"
  note u = widen(3) [of v]
  have params: "encode (GSlice transportParameter_type) (no_opts\<lparr>opt_head := 2\<rparr>) (VList (map param_val ps))
      = Inr (be_bytes 2 (length ?d) @ ?d)"
    using assms by (simp add: encode_params slice_header_def Let_def)
  have m: "Marshal clientHello_type (clientHello_val v ps) = Inr (be_bytes 4 (unat v) @ be_bytes 2 (length ?d) @ ?d)"
    using params by (simp add: Marshal_def clientHello_type_def clientHello_val_def field_opts_plain field_opts_head
        uintEncoder_def writeUint_eq u del: encode.simps(3))
  have "typed clientHello_type no_opts (clientHello_val v ps)"
    using typed_params [of ps] typed_versions [of v]
    by (simp add: clientHello_type_def clientHello_val_def field_opts_plain field_opts_head)
  from tls_codec_roundtrip [OF extension_types_ok(1,2) this m, of "[]"] assms(2) m
  show "\<exists>data. Marshal clientHello_type (clientHello_val v ps) = Inr data
      \<and> Unmarshal clientHello_type data = Some (Inr (clientHello_val v ps, length data))" by simp
  assume vs: "length vs < 64"
  have l: "length ?vs = 4 * length vs" by (induction vs) simp_all
  have versions: "encode (GSlice (GUint 4)) (no_opts\<lparr>opt_head := 1\<rparr>) (VList (map (\<lambda>v. VUint (ucast v)) vs))
      = Inr (be_bytes 1 (length ?vs) @ ?vs)"
    using vs l by (simp add: encode_versions slice_header_def Let_def)
  have m: "Marshal encryptedExtensions_type (encryptedExtensions_val v vs ps)
      = Inr (be_bytes 4 (unat v) @ (be_bytes 1 (length ?vs) @ ?vs) @ be_bytes 2 (length ?d) @ ?d)"
    using params versions
    by (simp add: Marshal_def encryptedExtensions_type_def encryptedExtensions_val_def field_opts_plain field_opts_head
        uintEncoder_def writeUint_eq u del: encode.simps(3))
  have "typed encryptedExtensions_type no_opts (encryptedExtensions_val v vs ps)"
    using typed_params [of ps] typed_versions
    by (simp add: encryptedExtensions_type_def encryptedExtensions_val_def field_opts_plain field_opts_head)
  from tls_codec_roundtrip [OF extension_types_ok(3,4) this m, of "[]"] assms(2) l vs m
  show "\<exists>data. Marshal encryptedExtensions_type (encryptedExtensions_val v vs ps) = Inr data
      \<and> Unmarshal encryptedExtensions_type data = Some (Inr (encryptedExtensions_val v vs ps, length data))" by simp
qed

subsection \<open>Handshakes\<close>

lemma Find_Add: "Extension_Find t (Extension_Add t data el) = Some data"
  by (induction el) auto

lemma list_of_nth:
  "list_of (clientHello_val v ps) = [VUint (ucast v), VList (map param_val ps)]"
  "list_of (encryptedExtensions_val v vs ps) =
     [VUint (ucast v), VList (map (\<lambda>v. VUint (ucast v)) vs), VList (map param_val ps)]"
  by (simp_all add: clientHello_val_def encryptedExtensions_val_def)

lemma params_back: "map param_of (map param_val ps) = ps"
  by (simp add: comp_def param_of_val)

lemma sent_params:
  "\<forall>q \<in> set (getTransportParameters p @ [(i, replicate 16 42)]). length (snd q) < 65536"
  "length (concat (map param_bytes (getTransportParameters p @ [(i, replicate 16 42)]))) < 65536"
  "\<forall>q \<in> set (getTransportParameters p). length (snd q) < 65536"
  "length (concat (map param_bytes (getTransportParameters p))) < 65536"
  "list_ex (\<lambda>q. fst q = statelessResetTokenParameterID) (getTransportParameters p) \<longleftrightarrow> False"
  by (simp_all add: getTransportParameters_def param_bytes_def parameter_ids)

lemma client_hello_received:
  assumes "params_wf (2 ^ 16) (cli_ourParams c)"
  shows "\<exists>el'. client_Send HandshakeTypeClientHello el c = Inr el'
    \<and> server_Receive HandshakeTypeClientHello el' s =
        Some (if cli_initialVersion c \<noteq> srv_version s \<and> cli_initialVersion c \<in> set (srv_supportedVersions s)
              then Inl (QErr VersionNegotiationMismatch)
              else Inr (Some ((cli_ourParams c)\<lparr>MaxStreams := 0\<rparr>)))"
proof -
  let ?ps = "getTransportParameters (cli_ourParams c)"
  from extension_roundtrip(1) [OF sent_params(3,4) [of "cli_ourParams c"], where v = "cli_initialVersion c"] obtain data where
    data: "Marshal clientHello_type (clientHello_val (cli_initialVersion c) ?ps) = Inr data"
      "Unmarshal clientHello_type data = Some (Inr (clientHello_val (cli_initialVersion c) ?ps, length data))" by blast
  have "client_Send HandshakeTypeClientHello el c = Inr (Extension_Add quicTLSExtensionType data el)"
    by (simp add: client_Send_def data)
  moreover have "readTransportParamters ?ps = Inr ((cli_ourParams c)\<lparr>MaxStreams := 0\<rparr>)"
    using transport_parameters_roundtrip(1) [OF assms] .
  ultimately show ?thesis
    by (simp add: server_Receive_def Find_Add data list_of_nth params_back [simplified] sent_params(5) widen Let_def)
qed

lemma check_tokens_ok: "check_tokens (getTransportParameters p @ [(statelessResetTokenParameterID, replicate 16 42)]) = None"
  by (simp add: check_tokens_def getTransportParameters_def parameter_ids Let_def)

lemma encrypted_extensions_received:
  assumes "params_wf (2 ^ 16) (srv_ourParams s)" "length (srv_supportedVersions s) < 63"
  shows "\<exists>el'. server_Send rndPos rnd HandshakeTypeEncryptedExtensions el s = Inr el'
    \<and> client_Receive HandshakeTypeEncryptedExtensions el' c =
        Some (if check_versions c (srv_version s) (GetGreasedVersions rndPos rnd (srv_supportedVersions s))
              then Inr (Some ((srv_ourParams s)\<lparr>MaxStreams := 0\<rparr>))
              else Inl (QErr VersionNegotiationMismatch))"
proof -
  let ?ps = "getTransportParameters (srv_ourParams s) @ [(statelessResetTokenParameterID, replicate 16 42)]"
  let ?vs = "GetGreasedVersions rndPos rnd (srv_supportedVersions s)"
  have "length ?vs < 64"
  proof -
    have "unat rndPos mod (length (srv_supportedVersions s) + 1) \<le> length (srv_supportedVersions s)"
      using mod_less_divisor [of "length (srv_supportedVersions s) + 1" "unat rndPos"] by linarith
    then show ?thesis using assms(2) by (simp add: GetGreasedVersions_def Let_def)
  qed
  from extension_roundtrip(2) [OF sent_params(1,2) [of "srv_ourParams s" statelessResetTokenParameterID] this, where v = "srv_version s"]
  obtain data where data: "Marshal encryptedExtensions_type (encryptedExtensions_val (srv_version s) ?vs ?ps) = Inr data"
    "Unmarshal encryptedExtensions_type data = Some (Inr (encryptedExtensions_val (srv_version s) ?vs ?ps, length data))"
    by blast
  have "server_Send rndPos rnd HandshakeTypeEncryptedExtensions el s = Inr (Extension_Add quicTLSExtensionType data el)"
    by (simp add: server_Send_def Let_def data)
  moreover have "readTransportParamters ?ps = Inr ((srv_ourParams s)\<lparr>MaxStreams := 0\<rparr>)"
    using transport_parameters_roundtrip(2) [OF assms(1)] by simp
  moreover have "map (\<lambda>v. u32 (uint_of v)) (map (\<lambda>v. VUint (u64 v)) ?vs) = ?vs" by (simp add: comp_def widen)
  ultimately show ?thesis
    using check_tokens_ok [of "srv_ourParams s"] params_back [of ?ps]
    by (simp add: client_Receive_def Find_Add data list_of_nth widen Let_def)
qed

text \<open>C31: Client and server agree on each other's transport parameters, and nobody can talk them into
  another version: when both accept the extension of the other, whatever Version Negotiation packets made
  the client restart, the version is the client's first choice if the server supports that, and otherwise the
  first version of the client that the server supports.\<close>

theorem no_version_downgrade:
  assumes p: "params_wf (2 ^ 16) (cli_ourParams c)" "params_wf (2 ^ 16) (srv_ourParams s)"
    and few: "length (srv_supportedVersions s) < 63"
    and reserved: "\<forall>v \<in> set (cli_supportedVersions c). v AND 0x0f0f0f0f \<noteq> 0x0a0a0a0a"
    and hello: "client_Send HandshakeTypeClientHello el c = Inr el1"
      "server_Receive HandshakeTypeClientHello el1 s = Some (Inr (Some clientParams))"
    and answer: "server_Send rndPos rnd HandshakeTypeEncryptedExtensions el2 s = Inr el3"
      "client_Receive HandshakeTypeEncryptedExtensions el3 c = Some (Inr (Some serverParams))"
  shows "clientParams = (cli_ourParams c)\<lparr>MaxStreams := 0\<rparr> \<and> serverParams = (srv_ourParams s)\<lparr>MaxStreams := 0\<rparr>
    \<and> cli_version c = srv_version s
    \<and> (if cli_initialVersion c \<in> set (srv_supportedVersions s) \<or> cli_version c = cli_initialVersion c
       then cli_version c = cli_initialVersion c
       else ChooseSupportedVersion (cli_supportedVersions c) (srv_supportedVersions s) = (cli_version c, True))"
proof -
  from client_hello_received [OF p(1), of el s] hello
  have a: "clientParams = (cli_ourParams c)\<lparr>MaxStreams := 0\<rparr>"
    "cli_initialVersion c = srv_version s \<or> cli_initialVersion c \<notin> set (srv_supportedVersions s)"
    by (auto split: if_splits)
  from encrypted_extensions_received [OF p(2) few, of rndPos rnd el2 c] answer
  have b: "serverParams = (srv_ourParams s)\<lparr>MaxStreams := 0\<rparr>"
    "check_versions c (srv_version s) (GetGreasedVersions rndPos rnd (srv_supportedVersions s))"
    by (auto split: if_splits)
  then show ?thesis
    using a Choose_greased [OF reserved, of rndPos rnd "srv_supportedVersions s"] by (auto simp: check_versions_def)
qed

text \<open>The handshake of a client and a server that support version 39 and TLS.\<close>

abbreviation example_params :: TransportParameters where
  "example_params \<equiv> \<lparr>StreamFlowControlWindow = 32768, ConnectionFlowControlWindow = 49152, tp_MaxBidiStreamID = 9,
     tp_MaxUniStreamID = 0, MaxStreams = 0, OmitConnectionID = False, IdleTimeout = 30 * Second\<rparr>"

lemma example_params_wf: "params_wf (2 ^ 16) example_params"
  by (auto simp: params_wf_def intro: exI [of _ 30])

theorem no_version_downgrade_witness:
  "\<exists>el1 el3. client_Send HandshakeTypeClientHello [] \<lparr>cli_ourParams = example_params, cli_initialVersion = Version39,
        cli_supportedVersions = [VersionTLS], cli_version = VersionTLS\<rparr> = Inr el1
     \<and> server_Receive HandshakeTypeClientHello el1 \<lparr>srv_ourParams = example_params, srv_version = VersionTLS,
        srv_supportedVersions = [VersionTLS]\<rparr> = Some (Inr (Some example_params))
     \<and> client_Receive HandshakeTypeEncryptedExtensions el3 \<lparr>cli_ourParams = example_params,
        cli_initialVersion = Version39, cli_supportedVersions = [VersionTLS], cli_version = VersionTLS\<rparr>
        = Some (Inr (Some example_params))
     \<and> ChooseSupportedVersion [VersionTLS] [VersionTLS] = (VersionTLS, True)"
proof -
  let ?c = "\<lparr>cli_ourParams = example_params, cli_initialVersion = Version39, cli_supportedVersions = [VersionTLS],
    cli_version = VersionTLS\<rparr>"
  let ?s = "\<lparr>srv_ourParams = example_params, srv_version = VersionTLS, srv_supportedVersions = [VersionTLS]\<rparr>"
  have p: "params_wf (2 ^ 16) (cli_ourParams ?c)" "params_wf (2 ^ 16) (srv_ourParams ?s)"
    and few: "length (srv_supportedVersions ?s) < 63"
    and reserved: "\<forall>v \<in> set (cli_supportedVersions ?c). v AND 0x0f0f0f0f \<noteq> 0x0a0a0a0a"
    using example_params_wf by (simp_all add: version_defs)
  from client_hello_received [OF p(1), of "[]" ?s] obtain el1 where el1: "client_Send HandshakeTypeClientHello [] ?c = Inr el1"
    "server_Receive HandshakeTypeClientHello el1 ?s = Some (Inr (Some example_params))" by (auto simp: version_defs)
  have "check_versions ?c (srv_version ?s) (GetGreasedVersions 0 0 (srv_supportedVersions ?s))"
    by (simp add: check_versions_def version_defs GetGreasedVersions_def generateReservedVersion_def)
  with encrypted_extensions_received [OF p(2) few, of 0 0 "[]" ?c] obtain el3 where
    el3: "server_Send 0 0 HandshakeTypeEncryptedExtensions [] ?s = Inr el3"
      "client_Receive HandshakeTypeEncryptedExtensions el3 ?c = Some (Inr (Some example_params))" by auto
  from no_version_downgrade [OF p few reserved el1 el3] el1 el3 show ?thesis by (auto simp: version_defs)
qed

end
