(* ===== verification/Wire_Header.thy ===== *)
theory Wire_Header
  imports Protocol Wire_Types
begin

section \<open>Packet headers\<close>

text \<open>
  \<^verbatim>\<open>internal/wire/\<close>: \<^verbatim>\<open>header.go\<close>, \<^verbatim>\<open>public_header.go\<close> (the header of gQUIC), \<^verbatim>\<open>ietf_header.go\<close> and
  \<^verbatim>\<open>version_negotiation.go\<close>. The record extends \<open>Header\<close>, the two fields that the frame parsers use; the
  field \<open>Raw\<close>, which the callers of the parser set, is left out.
\<close>

abbreviation (input) InvalidPacketHeader :: ErrorCode where "InvalidPacketHeader \<equiv> 3"
abbreviation (input) InvalidVersionNegotiationPacket :: ErrorCode where "InvalidVersionNegotiationPacket \<equiv> 10"
abbreviation (input) InvalidVersion :: ErrorCode where "InvalidVersion \<equiv> 20"

type_synonym ConnectionID = uint64
type_synonym PacketType = byte

definition PacketTypeInitial :: PacketType where "PacketTypeInitial = 2"
definition PacketTypeRetry :: PacketType where "PacketTypeRetry = 3"
definition PacketTypeHandshake :: PacketType where "PacketTypeHandshake = 4"
definition PacketType0RTT :: PacketType where "PacketType0RTT = 5"

lemmas packet_types = PacketTypeInitial_def PacketTypeRetry_def PacketTypeHandshake_def PacketType0RTT_def

record PacketHeader = Header +
  hdr_ConnectionID :: ConnectionID
  hdr_OmitConnectionID :: bool
  hdr_Version :: VersionNumber
  hdr_IsVersionNegotiation :: bool
  hdr_SupportedVersions :: "VersionNumber list"
  hdr_VersionFlag :: bool
  hdr_ResetFlag :: bool
  hdr_DiversificationNonce :: "byte list"
  hdr_Type :: PacketType
  hdr_IsLongHeader :: bool
  hdr_KeyPhase :: int
  hdr_isPublicHeader :: bool

definition empty_header :: PacketHeader where
  "empty_header =
     \<lparr>hdr_PacketNumber = 0, hdr_PacketNumberLen = 0, hdr_ConnectionID = 0, hdr_OmitConnectionID = False, hdr_Version = 0,
      hdr_IsVersionNegotiation = False, hdr_SupportedVersions = [], hdr_VersionFlag = False, hdr_ResetFlag = False,
      hdr_DiversificationNonce = [], hdr_Type = 0, hdr_IsLongHeader = False, hdr_KeyPhase = 0, hdr_isPublicHeader = False\<rparr>"

subsection \<open>Public headers\<close>

definition errResetAndVersionFlagSet :: goerr where
  "errResetAndVersionFlagSet = GoErr ''PublicHeader: Reset Flag and Version Flag should not be set at the same time''"
definition errReceivedOmittedConnectionID :: goerr where "errReceivedOmittedConnectionID = QErr InvalidPacketHeader"
definition errInvalidConnectionID :: goerr where "errInvalidConnectionID = QErr InvalidPacketHeader"
definition errGetLengthNotForVersionNegotiation :: goerr where
  "errGetLengthNotForVersionNegotiation = GoErr ''PublicHeader: GetLength cannot be called for VersionNegotiation packets''"
definition errPacketNumberLenNotSet :: goerr where
  "errPacketNumberLenNotSet = GoErr ''StopWaitingFrame: PacketNumberLen not set''"

definition hasPacketNumber :: "Perspective \<Rightarrow> PacketHeader \<Rightarrow> bool" where
  "hasPacketNumber packetSentBy h =
     (if hdr_ResetFlag h then False
      else if hdr_VersionFlag h \<and> packetSentBy = PerspectiveServer then False
      else True)"

definition public_flags :: "Perspective \<Rightarrow> PacketHeader \<Rightarrow> byte" where
  "public_flags pers h =
     (let b = (if hdr_VersionFlag h then 0x01 else 0);
          b = (if hdr_ResetFlag h then b OR 0x02 else b);
          b = (if \<not> hdr_OmitConnectionID h then b OR 0x08 else b);
          b = (if length (hdr_DiversificationNonce h) > 0 then b OR 0x04 else b)
      in if hasPacketNumber pers h
         then (if hdr_PacketNumberLen h = PacketNumberLen1 then b OR 0x00
               else if hdr_PacketNumberLen h = PacketNumberLen2 then b OR 0x10
               else if hdr_PacketNumberLen h = PacketNumberLen4 then b OR 0x20
               else if hdr_PacketNumberLen h = PacketNumberLen6 then b OR 0x30 else b)
         else b)"

definition write_public_number :: "PacketHeader \<Rightarrow> goerr + byte list" where
  "write_public_number h =
     (if hdr_PacketNumberLen h = PacketNumberLen1 then Inr [u8 (hdr_PacketNumber h)]
      else if hdr_PacketNumberLen h = PacketNumberLen2 then Inr (be_WriteUint16 (u16 (hdr_PacketNumber h)))
      else if hdr_PacketNumberLen h = PacketNumberLen4 then Inr (be_WriteUint32 (u32 (hdr_PacketNumber h)))
      else if hdr_PacketNumberLen h = PacketNumberLen6 then be_WriteUint48 (hdr_PacketNumber h AND (shl 1 48 - 1))
      else Inl (GoErr ''PublicHeader: PacketNumberLen not set''))"

definition writePublicHeader :: "Perspective \<Rightarrow> PacketHeader \<Rightarrow> goerr + byte list" where
  "writePublicHeader pers h =
     (if hdr_VersionFlag h \<and> hdr_ResetFlag h then Inl errResetAndVersionFlagSet
      else if length (hdr_DiversificationNonce h) > 0 \<and> length (hdr_DiversificationNonce h) \<noteq> 32
      then Inl (GoErr ''invalid diversification nonce length'')
      else
        ebind (if \<not> hasPacketNumber pers h then Inr [] else write_public_number h) (\<lambda>number.
          Inr ([public_flags pers h]
               @ (if \<not> hdr_OmitConnectionID h then be_WriteUint64 (hdr_ConnectionID h) else [])
               @ (if hdr_VersionFlag h \<and> pers = PerspectiveClient then be_WriteUint32 (hdr_Version h) else [])
               @ hdr_DiversificationNonce h @ number)))"

text \<open>The list of versions, until the reader is at its end.\<close>

function read_versions :: "byte list \<Rightarrow> VersionNumber list" where
  "read_versions r = (case be_ReadUint32 r of Inl e \<Rightarrow> [] | Inr (v, r) \<Rightarrow> v # read_versions r)"
  by pat_completeness auto
termination
  by (relation "measure length") (auto simp: be_ReadUint32_eq ReadBytes_def split: if_splits)

declare read_versions.simps [simp del]

definition parse_flags :: "byte \<Rightarrow> Perspective \<Rightarrow> goerr + PacketHeader" where
  "parse_flags b packetSentBy =
     (let h = empty_header\<lparr>hdr_ResetFlag := (b AND 0x02 > 0), hdr_VersionFlag := (b AND 0x01 > 0),
                           hdr_OmitConnectionID := (b AND 0x08 = 0)\<rparr>
      in if hdr_OmitConnectionID h \<and> packetSentBy = PerspectiveClient then Inl errReceivedOmittedConnectionID
         else Inr (if hasPacketNumber packetSentBy h
                   then h\<lparr>hdr_PacketNumberLen :=
                          (if b AND 0x30 = 0x30 then PacketNumberLen6
                           else if b AND 0x30 = 0x20 then PacketNumberLen4
                           else if b AND 0x30 = 0x10 then PacketNumberLen2 else PacketNumberLen1)\<rparr>
                   else h))"

definition parse_connection_id :: "PacketHeader \<Rightarrow> PacketHeader reader" where
  "parse_connection_id h r =
     (if \<not> hdr_OmitConnectionID h
      then rbind (be_ReadUint64 r) (\<lambda>connID r.
             if connID = 0 then Inl errInvalidConnectionID else Inr (h\<lparr>hdr_ConnectionID := connID\<rparr>, r))
      else Inr (h, r))"

definition parse_nonce :: "byte \<Rightarrow> Perspective \<Rightarrow> PacketHeader \<Rightarrow> PacketHeader reader" where
  "parse_nonce b packetSentBy h r =
     (if packetSentBy = PerspectiveServer \<and> b AND 0x04 > 0 \<and> \<not> hdr_VersionFlag h \<and> \<not> hdr_ResetFlag h
      then rbind (ReadFull 32 r) (\<lambda>nonce r. Inr (h\<lparr>hdr_DiversificationNonce := nonce\<rparr>, r))
      else Inr (h, r))"

definition parse_public_number :: "Perspective \<Rightarrow> PacketHeader \<Rightarrow> PacketHeader reader" where
  "parse_public_number packetSentBy h r =
     (if hasPacketNumber packetSentBy h
      then rbind (be_ReadUintN (hdr_PacketNumberLen h) r) (\<lambda>n r. Inr (h\<lparr>hdr_PacketNumber := n\<rparr>, r))
      else Inr (h, r))"

definition parsePublicHeader :: "Perspective \<Rightarrow> PacketHeader reader" where
  "parsePublicHeader packetSentBy r =
     rbind (ReadByte r) (\<lambda>b r.
     ebind (parse_flags b packetSentBy) (\<lambda>h.
     rbind (parse_connection_id h r) (\<lambda>h r.
     rbind (parse_nonce b packetSentBy h r) (\<lambda>h r.
     if \<not> hdr_ResetFlag h \<and> hdr_VersionFlag h then
       (if packetSentBy = PerspectiveServer then
          (if r = [] then Inl (QErr InvalidVersionNegotiationPacket)
           else if length r mod 4 \<noteq> 0 then Inl (QErr InvalidVersionNegotiationPacket)
           else Inr (h\<lparr>hdr_IsVersionNegotiation := True, hdr_SupportedVersions := read_versions r\<rparr>, []))
        else rbind (be_ReadUint32 r) (\<lambda>v r. parse_public_number packetSentBy (h\<lparr>hdr_Version := v\<rparr>) r))
     else parse_public_number packetSentBy h r))))"

definition getPublicHeaderLength :: "Perspective \<Rightarrow> PacketHeader \<Rightarrow> goerr + ByteCount" where
  "getPublicHeaderLength pers h =
     (if hdr_VersionFlag h \<and> hdr_ResetFlag h then Inl errResetAndVersionFlagSet
      else if hdr_VersionFlag h \<and> pers = PerspectiveServer then Inl errGetLengthNotForVersionNegotiation
      else if hasPacketNumber pers h
              \<and> hdr_PacketNumberLen h \<noteq> PacketNumberLen1 \<and> hdr_PacketNumberLen h \<noteq> PacketNumberLen2
              \<and> hdr_PacketNumberLen h \<noteq> PacketNumberLen4 \<and> hdr_PacketNumberLen h \<noteq> PacketNumberLen6
      then Inl errPacketNumberLenNotSet
      else Inr (1 + (if hasPacketNumber pers h then ucast (hdr_PacketNumberLen h) else 0)
                + (if \<not> hdr_OmitConnectionID h then 8 else 0) + (if hdr_VersionFlag h then 4 else 0)
                + of_nat (length (hdr_DiversificationNonce h))))"

subsection \<open>Headers of the IETF draft\<close>

text \<open>The loop over the versions writes to a slice of \<open>limit\<close> elements.\<close>

function read_version_list :: "nat \<Rightarrow> byte list \<Rightarrow> goerr + VersionNumber list" where
  "read_version_list limit r =
     (if r = [] then Inr []
      else case be_ReadUint32 r of
             Inl e \<Rightarrow> Inl (QErr InvalidVersionNegotiationPacket)
           | Inr (v, r') \<Rightarrow>
               if limit = 0 then Inl (Panic ''index out of range'')
               else ebind (read_version_list (limit - 1) r') (\<lambda>vs. Inr (v # vs)))"
  by pat_completeness auto
termination by (relation "measure fst") auto

declare read_version_list.simps [simp del]

definition parseLongHeader :: "Perspective \<Rightarrow> byte \<Rightarrow> PacketHeader reader" where
  "parseLongHeader sentBy typeByte r =
     rbind (be_ReadUint64 r) (\<lambda>connID r.
     rbind (be_ReadUint32 r) (\<lambda>v r.
     let h = empty_header\<lparr>hdr_ConnectionID := connID, hdr_Version := v\<rparr> in
     if v = 0 then
       (if sentBy = PerspectiveClient then Inl (QErr InvalidVersion)
        else if r = [] then Inl (QErr InvalidVersionNegotiationPacket)
        else ebind (read_version_list (length r div 4) r) (\<lambda>vs.
               Inr (h\<lparr>hdr_IsVersionNegotiation := True, hdr_SupportedVersions := vs\<rparr>, [])))
     else
       rbind (be_ReadUint32 r) (\<lambda>pn r.
       let h = h\<lparr>hdr_IsLongHeader := True, hdr_PacketNumber := ucast pn, hdr_PacketNumberLen := PacketNumberLen4,
                 hdr_Type := typeByte AND 0x7f\<rparr> in
       if sentBy = PerspectiveClient
          \<and> hdr_Type h \<noteq> PacketTypeInitial \<and> hdr_Type h \<noteq> PacketTypeHandshake \<and> hdr_Type h \<noteq> PacketType0RTT
       then Inl (QErr InvalidPacketHeader)
       else if sentBy = PerspectiveServer \<and> hdr_Type h \<noteq> PacketTypeRetry \<and> hdr_Type h \<noteq> PacketTypeHandshake
       then Inl (QErr InvalidPacketHeader)
       else Inr (h, r))))"

definition parseShortHeader :: "byte \<Rightarrow> PacketHeader reader" where
  "parseShortHeader typeByte r =
     (let hasConnID = (typeByte AND 0x40 > 0) in
      rbind (if hasConnID then be_ReadUint64 r else Inr (0, r)) (\<lambda>connID r.
      let pnLen = (u8 (push_bit (unat ((typeByte AND 0x3) - 1)) 1 :: uint64)) in
      rbind (be_ReadUintN pnLen r) (\<lambda>pn r.
        Inr (empty_header\<lparr>hdr_KeyPhase := uint (shr (typeByte AND 0x20) 5), hdr_OmitConnectionID := \<not> hasConnID,
               hdr_ConnectionID := connID, hdr_PacketNumber := pn, hdr_PacketNumberLen := pnLen\<rparr>, r))))"

definition parseHeader :: "Perspective \<Rightarrow> PacketHeader reader" where
  "parseHeader packetSentBy r =
     rbind (ReadByte r) (\<lambda>typeByte r.
       if typeByte AND 0x80 > 0 then parseLongHeader packetSentBy typeByte r else parseShortHeader typeByte r)"

definition writeLongHeader :: "PacketHeader \<Rightarrow> byte list" where
  "writeLongHeader h =
     [0x80 OR hdr_Type h] @ be_WriteUint64 (hdr_ConnectionID h) @ be_WriteUint32 (hdr_Version h)
     @ be_WriteUint32 (u32 (hdr_PacketNumber h))"

definition writeShortHeader :: "PacketHeader \<Rightarrow> goerr + byte list" where
  "writeShortHeader h =
     (let typeByte = (of_int (hdr_KeyPhase h * 2 ^ 5) :: byte);
          typeByte = (if \<not> hdr_OmitConnectionID h then typeByte XOR 0x40 else typeByte);
          connID = (if \<not> hdr_OmitConnectionID h then be_WriteUint64 (hdr_ConnectionID h) else [])
      in if hdr_PacketNumberLen h = PacketNumberLen1
         then Inr ([typeByte XOR 0x1] @ connID @ [u8 (hdr_PacketNumber h)])
         else if hdr_PacketNumberLen h = PacketNumberLen2
         then Inr ([typeByte XOR 0x2] @ connID @ be_WriteUint16 (u16 (hdr_PacketNumber h)))
         else if hdr_PacketNumberLen h = PacketNumberLen4
         then Inr ([typeByte XOR 0x3] @ connID @ be_WriteUint32 (u32 (hdr_PacketNumber h)))
         else Inl (GoErr ''invalid packet number length''))"

definition writeHeader :: "PacketHeader \<Rightarrow> goerr + byte list" where
  "writeHeader h = (if hdr_IsLongHeader h then Inr (writeLongHeader h) else writeShortHeader h)"

definition getHeaderLength :: "PacketHeader \<Rightarrow> goerr + ByteCount" where
  "getHeaderLength h =
     (if hdr_IsLongHeader h then Inr (1 + 8 + 4 + 4)
      else if hdr_PacketNumberLen h \<noteq> PacketNumberLen1 \<and> hdr_PacketNumberLen h \<noteq> PacketNumberLen2
              \<and> hdr_PacketNumberLen h \<noteq> PacketNumberLen4
      then Inl (GoErr ''invalid packet number length'')
      else Inr (1 + (if \<not> hdr_OmitConnectionID h then 8 else 0) + ucast (hdr_PacketNumberLen h)))"

subsection \<open>Both kinds\<close>

definition parsePacketHeader :: "Perspective \<Rightarrow> bool \<Rightarrow> PacketHeader reader" where
  "parsePacketHeader sentBy isPublicHeader r =
     (if isPublicHeader
      then rbind (parsePublicHeader sentBy r) (\<lambda>h r. Inr (h\<lparr>hdr_isPublicHeader := True\<rparr>, r))
      else parseHeader sentBy r)"

definition ParseHeaderSentByServer :: "VersionNumber \<Rightarrow> PacketHeader reader" where
  "ParseHeaderSentByServer version r =
     rbind (ReadByte r) (\<lambda>typeByte _.
       let isPublicHeader = (if typeByte AND 0x80 > 0 then False
                             else if typeByte AND 0xcf = 0x9 then True else \<not> UsesTLS version)
       in parsePacketHeader PerspectiveServer isPublicHeader r)"

definition ParseHeaderSentByClient :: "PacketHeader reader" where
  "ParseHeaderSentByClient r =
     rbind (ReadByte r) (\<lambda>typeByte _.
       parsePacketHeader PerspectiveClient (typeByte AND 0xc0 = 0) r)"

definition Header_Write :: "Perspective \<Rightarrow> VersionNumber \<Rightarrow> PacketHeader \<Rightarrow> goerr + byte list" where
  "Header_Write pers version h = (if \<not> UsesTLS version then writePublicHeader pers h else writeHeader h)"

definition Header_GetLength :: "Perspective \<Rightarrow> VersionNumber \<Rightarrow> PacketHeader \<Rightarrow> goerr + ByteCount" where
  "Header_GetLength pers version h =
     (if \<not> UsesTLS version then getPublicHeaderLength pers h else getHeaderLength h)"

subsection \<open>Version negotiation\<close>

definition ComposeGQUICVersionNegotiation :: "ConnectionID \<Rightarrow> VersionNumber list \<Rightarrow> byte list" where
  "ComposeGQUICVersionNegotiation connID versions =
     (let ph = empty_header\<lparr>hdr_ConnectionID := connID, hdr_PacketNumber := 1, hdr_VersionFlag := True,
                            hdr_IsVersionNegotiation := True\<rparr>
      in case writePublicHeader PerspectiveServer ph of
           Inl e \<Rightarrow> []
         | Inr bs \<Rightarrow> bs @ concat (map be_WriteUint32 versions))"

definition ComposeVersionNegotiation ::
  "byte \<Rightarrow> byte \<Rightarrow> uint32 \<Rightarrow> ConnectionID \<Rightarrow> VersionNumber list \<Rightarrow> byte list" where
  "ComposeVersionNegotiation rndType rndPos rnd connID versions =
     [rndType OR 0x80] @ be_WriteUint64 connID @ be_WriteUint32 0
     @ concat (map be_WriteUint32 (GetGreasedVersions rndPos rnd versions))"

subsection \<open>Headers survive\<close>

definition number_sent :: "PacketHeader \<Rightarrow> PacketNumber" where
  "number_sent h = wire_number (hdr_PacketNumberLen h) (hdr_PacketNumber h)"

lemma number_bytes:
  assumes "n \<in> {PacketNumberLen1, PacketNumberLen2, PacketNumberLen4, PacketNumberLen6}"
  shows "be_ReadUintN n (be_bytes (unat n) (unat p) @ r) = Inr (wire_number n p, r)"
proof -
  have width: "(2 :: nat) ^ (unat n * 8) = 256 ^ unat n" by (simp add: mult.commute [of _ 8] power_mult)
  have "unat (wire_number n p) = unat p mod 256 ^ unat n"
    by (simp only: wire_number_def unsigned_take_bit_eq) (simp only: take_bit_eq_mod width)
  then have "be_bytes (unat n) (unat p) = be_bytes (unat n) (unat (wire_number n p))"
    "unat (wire_number n p) < 256 ^ unat n"
    by (simp_all only: be_bytes_mod) simp
  moreover have "n \<le> 8" using assms by auto
  ultimately show ?thesis using be_ReadUintN_be_bytes [of n "wire_number n p" "unat n" r] by simp
qed

lemma write_public_number_eq:
  assumes "hdr_PacketNumberLen h \<in> {PacketNumberLen1, PacketNumberLen2, PacketNumberLen4, PacketNumberLen6}"
  shows "write_public_number h = Inr (be_bytes (unat (hdr_PacketNumberLen h)) (unat (hdr_PacketNumber h)))"
  using assms by (auto simp: write_public_number_def low_bytes low_bytes(3) [simplified])

text \<open>The headers that can be sent; fields of the other kind of header and fields that are not written
  have their default value.\<close>

definition public_wf :: "Perspective \<Rightarrow> PacketHeader \<Rightarrow> bool" where
  "public_wf pers h \<longleftrightarrow>
     hdr_isPublicHeader h \<and> \<not> hdr_IsVersionNegotiation h \<and> hdr_SupportedVersions h = [] \<and> hdr_Type h = 0
     \<and> \<not> hdr_IsLongHeader h \<and> hdr_KeyPhase h = 0
     \<and> \<not> (hdr_VersionFlag h \<and> hdr_ResetFlag h)
     \<and> (if hdr_OmitConnectionID h then pers = PerspectiveServer \<and> hdr_ConnectionID h = 0 else hdr_ConnectionID h \<noteq> 0)
     \<and> (if hdr_VersionFlag h then pers = PerspectiveClient else hdr_Version h = 0)
     \<and> (hdr_DiversificationNonce h = []
        \<or> length (hdr_DiversificationNonce h) = 32 \<and> pers = PerspectiveServer \<and> \<not> hdr_ResetFlag h)
     \<and> (if hdr_ResetFlag h then hdr_PacketNumberLen h = 0 \<and> hdr_PacketNumber h = 0
        else hdr_PacketNumberLen h \<in> {PacketNumberLen1, PacketNumberLen2, PacketNumberLen4, PacketNumberLen6})"

definition ietf_wf :: "Perspective \<Rightarrow> PacketHeader \<Rightarrow> bool" where
  "ietf_wf pers h \<longleftrightarrow>
     \<not> hdr_isPublicHeader h \<and> \<not> hdr_IsVersionNegotiation h \<and> hdr_SupportedVersions h = []
     \<and> \<not> hdr_VersionFlag h \<and> \<not> hdr_ResetFlag h \<and> hdr_DiversificationNonce h = []
     \<and> (if hdr_IsLongHeader h
        then hdr_Version h \<noteq> 0 \<and> hdr_PacketNumberLen h = PacketNumberLen4 \<and> \<not> hdr_OmitConnectionID h \<and> hdr_KeyPhase h = 0
          \<and> hdr_Type h \<in> (if pers = PerspectiveClient then {PacketTypeInitial, PacketTypeHandshake, PacketType0RTT}
                            else {PacketTypeRetry, PacketTypeHandshake})
        else hdr_Version h = 0 \<and> hdr_Type h = 0 \<and> hdr_KeyPhase h \<in> {0, 1}
          \<and> hdr_PacketNumberLen h \<in> {PacketNumberLen1, PacketNumberLen2, PacketNumberLen4}
          \<and> (if hdr_OmitConnectionID h then pers = PerspectiveServer \<and> hdr_ConnectionID h = 0 else True))"

definition header_wf :: "Perspective \<Rightarrow> VersionNumber \<Rightarrow> PacketHeader \<Rightarrow> bool" where
  "header_wf pers v h \<longleftrightarrow> (if UsesTLS v then ietf_wf pers h else public_wf pers h)"

definition ParseHeaderSentBy :: "Perspective \<Rightarrow> VersionNumber \<Rightarrow> PacketHeader reader" where
  "ParseHeaderSentBy pers v = (if pers = PerspectiveClient then ParseHeaderSentByClient else ParseHeaderSentByServer v)"

lemma be_Write_read:
  "be_ReadUint64 (be_WriteUint64 w @ r) = Inr (w, r)" "be_ReadUint32 (be_WriteUint32 v @ r) = Inr (v, r)"
  by (rule be_roundtrip)+

lemma short_header_roundtrip:
  assumes "ietf_wf pers h" "\<not> hdr_IsLongHeader h"
  shows "\<exists>b bs. writeShortHeader h = Inr (b # bs) \<and> b AND 0x80 = 0 \<and> b AND 0xcf \<noteq> 0x9
    \<and> (pers = PerspectiveClient \<longrightarrow> b AND 0xc0 \<noteq> 0)
    \<and> parseShortHeader b (bs @ r) = Inr (h\<lparr>hdr_PacketNumber := number_sent h\<rparr>, r)
    \<and> getHeaderLength h = Inr (of_nat (length (b # bs)))"
proof -
  define c where "c = (if \<not> hdr_OmitConnectionID h then 0x40 else 0 :: byte)"
  define k where "k = (of_int (hdr_KeyPhase h * 2 ^ 5) :: byte)"
  define n where "n = (if hdr_PacketNumberLen h = PacketNumberLen1 then 1
    else if hdr_PacketNumberLen h = PacketNumberLen2 then 2 else 3 :: byte)"
  define cid where "cid = (if \<not> hdr_OmitConnectionID h then be_WriteUint64 (hdr_ConnectionID h) else [])"
  define num where "num = be_bytes (unat (hdr_PacketNumberLen h)) (unat (hdr_PacketNumber h))"
  have len: "hdr_PacketNumberLen h \<in> {PacketNumberLen1, PacketNumberLen2, PacketNumberLen4}"
    and key: "hdr_KeyPhase h = 0 \<or> hdr_KeyPhase h = 1"
    and omit: "hdr_OmitConnectionID h \<longrightarrow> pers = PerspectiveServer \<and> hdr_ConnectionID h = 0"
    using assms by (auto simp: ietf_wf_def)
  have w: "writeShortHeader h = Inr ((k XOR c XOR n) # cid @ num)"
    using len by (auto simp: writeShortHeader_def Let_def k_def c_def n_def cid_def num_def low_bytes xor.assoc)
  define b where "b = k XOR c XOR n"
  have kv: "k = 0 \<and> hdr_KeyPhase h = 0 \<or> k = 32 \<and> hdr_KeyPhase h = 1" using key by (auto simp: k_def)
  have cv: "c = 0 \<and> hdr_OmitConnectionID h \<or> c = 0x40 \<and> \<not> hdr_OmitConnectionID h" by (auto simp: c_def)
  have nv: "n = 1 \<and> hdr_PacketNumberLen h = PacketNumberLen1 \<or> n = 2 \<and> hdr_PacketNumberLen h = PacketNumberLen2
    \<or> n = 3 \<and> hdr_PacketNumberLen h = PacketNumberLen4" using len by (auto simp: n_def)
  have bits: "b AND 0x80 = 0" "b AND 0xcf \<noteq> 0x9" "pers = PerspectiveClient \<longrightarrow> b AND 0xc0 \<noteq> 0"
    "b AND 0x40 > 0 \<longleftrightarrow> \<not> hdr_OmitConnectionID h" "uint (shr (b AND 0x20) 5) = hdr_KeyPhase h"
    "u8 (push_bit (unat ((b AND 0x3) - 1)) 1 :: uint64) = hdr_PacketNumberLen h"
    by (use kv cv nv omit in \<open>elim disjE conjE; simp add: b_def\<close>)+
  have num_read: "be_ReadUintN (hdr_PacketNumberLen h) (num @ r) = Inr (number_sent h, r)"
    using len unfolding num_def number_sent_def by (intro number_bytes) auto
  have "parseShortHeader b ((cid @ num) @ r) = Inr (h\<lparr>hdr_PacketNumber := number_sent h\<rparr>, r)"
    using assms omit num_read unfolding parseShortHeader_def Let_def bits(4-6)
    by (cases h) (auto simp: cid_def be_Write_read empty_header_def ietf_wf_def number_sent_def)
  moreover have "getHeaderLength h = Inr (of_nat (length (b # cid @ num)))"
    using assms len by (auto simp: getHeaderLength_def cid_def num_def ietf_wf_def)
  ultimately show ?thesis using w bits(1-3) unfolding b_def by blast
qed

lemma long_header_roundtrip:
  assumes "ietf_wf pers h" "hdr_IsLongHeader h"
  shows "\<exists>b bs. writeLongHeader h = b # bs \<and> b AND 0x80 > 0
    \<and> parseLongHeader pers b (bs @ r) = Inr (h\<lparr>hdr_PacketNumber := number_sent h\<rparr>, r)
    \<and> getHeaderLength h = Inr (of_nat (length (b # bs)))"
proof -
  let ?b = "0x80 OR hdr_Type h"
  have t: "hdr_Type h = 2 \<or> hdr_Type h = 3 \<or> hdr_Type h = 4 \<or> hdr_Type h = 5"
    using assms by (auto simp: ietf_wf_def packet_types split: if_splits)
  then have bits: "?b AND 0x80 > 0" "?b AND 0x7f = hdr_Type h" by (elim disjE; simp)+
  have n: "(u64 (u32 (hdr_PacketNumber h))) = number_sent h"
    using assms
    by (simp add: number_sent_def wire_number_def ietf_wf_def word_unat_eq_iff unsigned_ucast_eq unsigned_take_bit_eq)
  have "parseLongHeader pers ?b ((be_WriteUint64 (hdr_ConnectionID h) @ be_WriteUint32 (hdr_Version h)
      @ be_WriteUint32 (u32 (hdr_PacketNumber h))) @ r) = Inr (h\<lparr>hdr_PacketNumber := number_sent h\<rparr>, r)"
    using assms n
    by (cases h; cases pers) (auto simp: packet_types parseLongHeader_def Let_def bits be_Write_read empty_header_def ietf_wf_def
        number_sent_def)
  then show ?thesis using assms(2) bits by (auto simp: writeLongHeader_def getHeaderLength_def)
qed

lemma public_flag_bits:
  assumes "public_wf pers h"
  defines "b \<equiv> public_flags pers h"
  shows "b AND 0x80 = 0" "b AND 0xc0 = 0" "b AND 0x02 > 0 \<longleftrightarrow> hdr_ResetFlag h" "b AND 0x01 > 0 \<longleftrightarrow> hdr_VersionFlag h"
    "b AND 0x08 = 0 \<longleftrightarrow> hdr_OmitConnectionID h" "b AND 0x04 > 0 \<longleftrightarrow> hdr_DiversificationNonce h \<noteq> []"
    "hasPacketNumber pers h \<Longrightarrow> (if b AND 0x30 = 0x30 then PacketNumberLen6 else if b AND 0x30 = 0x20 then PacketNumberLen4
       else if b AND 0x30 = 0x10 then PacketNumberLen2 else PacketNumberLen1) = hdr_PacketNumberLen h"
  using assms(1) unfolding b_def public_wf_def public_flags_def Let_def hasPacketNumber_def
  by (auto split: if_splits)

lemma public_header_roundtrip:
  assumes wf: "public_wf pers h"
  shows "\<exists>b bs. writePublicHeader pers h = Inr (b # bs) \<and> b AND 0x80 = 0 \<and> b AND 0xc0 = 0
    \<and> parsePublicHeader pers ((b # bs) @ r)
        = Inr (h\<lparr>hdr_PacketNumber := number_sent h, hdr_isPublicHeader := False\<rparr>, r)
    \<and> getPublicHeaderLength pers h = Inr (of_nat (length (b # bs)))"
proof -
  define b where "b = public_flags pers h"
  note bits = public_flag_bits [OF wf, folded b_def]
  define cid where "cid = (if \<not> hdr_OmitConnectionID h then be_WriteUint64 (hdr_ConnectionID h) else [])"
  define ver where "ver = (if hdr_VersionFlag h \<and> pers = PerspectiveClient then be_WriteUint32 (hdr_Version h) else [])"
  define num where "num = (if hasPacketNumber pers h
    then be_bytes (unat (hdr_PacketNumberLen h)) (unat (hdr_PacketNumber h)) else [])"
  let ?nonce = "hdr_DiversificationNonce h"
  have has: "hasPacketNumber pers h \<longleftrightarrow> \<not> hdr_ResetFlag h"
    using wf by (auto simp: public_wf_def hasPacketNumber_def split: if_splits)
  have len: "hdr_PacketNumberLen h \<in> {PacketNumberLen1, PacketNumberLen2, PacketNumberLen4, PacketNumberLen6}"
    if "hasPacketNumber pers h" using wf that by (auto simp: public_wf_def has)
  have w: "writePublicHeader pers h = Inr (b # cid @ ver @ ?nonce @ num)"
    using wf write_public_number_eq len
    by (auto simp: writePublicHeader_def b_def cid_def ver_def num_def public_wf_def)
  define h1 where "h1 = h\<lparr>hdr_ConnectionID := 0, hdr_DiversificationNonce := [], hdr_Version := 0, hdr_PacketNumber := 0,
    hdr_isPublicHeader := False\<rparr>"
  have flags: "parse_flags b pers = Inr h1"
  proof -
    let ?e = "empty_header\<lparr>hdr_ResetFlag := hdr_ResetFlag h, hdr_VersionFlag := hdr_VersionFlag h,
        hdr_OmitConnectionID := hdr_OmitConnectionID h\<rparr>"
    have e: "?e = h1\<lparr>hdr_PacketNumberLen := 0\<rparr>"
      by (rule PacketHeader.equality) (use wf in \<open>auto simp: h1_def empty_header_def public_wf_def split: if_splits\<close>)
    have p: "hasPacketNumber pers ?e = hasPacketNumber pers h" by (simp add: hasPacketNumber_def)
    have "\<not> (hdr_OmitConnectionID h \<and> pers = PerspectiveClient)" using wf by (auto simp: public_wf_def)
    then have "parse_flags b pers = Inr (if hasPacketNumber pers h
        then ?e\<lparr>hdr_PacketNumberLen := hdr_PacketNumberLen h\<rparr> else ?e)"
      using bits(7) unfolding parse_flags_def Let_def bits(3-5) p by simp
    moreover have "hdr_PacketNumberLen h = 0" if "\<not> hasPacketNumber pers h"
      using wf that has by (simp add: public_wf_def)
    ultimately show ?thesis unfolding e by (simp add: h1_def)
  qed
  have cid: "parse_connection_id h1 (cid @ s) = Inr (h1\<lparr>hdr_ConnectionID := hdr_ConnectionID h\<rparr>, s)" for s
    using wf by (cases h) (auto simp: parse_connection_id_def h1_def cid_def be_Write_read public_wf_def split: if_splits)
  have nonce: "parse_nonce b pers (h1\<lparr>hdr_ConnectionID := c\<rparr>) (ver @ ?nonce @ num @ r)
      = Inr (h1\<lparr>hdr_ConnectionID := c, hdr_DiversificationNonce := ?nonce\<rparr>, ver @ num @ r)" for c
    using wf ReadFull_append [of ?nonce 32] unfolding parse_nonce_def bits(6)
    by (cases h) (auto simp: h1_def ver_def public_wf_def split: if_splits)
  have number: "parse_public_number pers (h1\<lparr>hdr_ConnectionID := c, hdr_DiversificationNonce := d, hdr_Version := v\<rparr>) (num @ r)
      = Inr (h1\<lparr>hdr_ConnectionID := c, hdr_DiversificationNonce := d, hdr_Version := v, hdr_PacketNumber := number_sent h\<rparr>, r)"
    for c d v
    using wf has number_bytes [OF len, of "hdr_PacketNumber h" r]
    by (cases h) (auto simp: parse_public_number_def h1_def num_def hasPacketNumber_def number_sent_def public_wf_def
        wire_number_def split: if_splits)
  have h1: "hdr_ResetFlag h1 = hdr_ResetFlag h" "hdr_VersionFlag h1 = hdr_VersionFlag h" by (simp_all add: h1_def)
  have "parsePublicHeader pers (b # (cid @ ver @ ?nonce @ num) @ r)
      = Inr (h1\<lparr>hdr_ConnectionID := hdr_ConnectionID h, hdr_DiversificationNonce := ?nonce, hdr_Version := hdr_Version h,
              hdr_PacketNumber := number_sent h\<rparr>, r)"
  proof (cases "hdr_VersionFlag h")
    case True
    then have "pers = PerspectiveClient" "\<not> hdr_ResetFlag h" using wf by (auto simp: public_wf_def)
    then show ?thesis
      unfolding parsePublicHeader_def ReadByte_simps rbind_simps flags ebind_simps append.assoc append_Cons cid nonce
      using True number [where c = "hdr_ConnectionID h" and d = ?nonce and v = "hdr_Version h"] by (simp add: h1 ver_def be_Write_read)
  next
    case False
    then have "hdr_Version h = 0" using wf by (auto simp: public_wf_def)
    moreover have "h1\<lparr>hdr_ConnectionID := c, hdr_DiversificationNonce := d, hdr_Version := 0\<rparr>
        = h1\<lparr>hdr_ConnectionID := c, hdr_DiversificationNonce := d\<rparr>" for c d
      by (simp add: h1_def)
    ultimately show ?thesis
      unfolding parsePublicHeader_def ReadByte_simps rbind_simps flags ebind_simps append.assoc append_Cons cid nonce
      using False number [where c = "hdr_ConnectionID h" and d = ?nonce and v = 0] by (simp add: h1 ver_def)
  qed
  moreover have "h1\<lparr>hdr_ConnectionID := hdr_ConnectionID h, hdr_DiversificationNonce := ?nonce, hdr_Version := hdr_Version h,
      hdr_PacketNumber := number_sent h\<rparr> = h\<lparr>hdr_PacketNumber := number_sent h, hdr_isPublicHeader := False\<rparr>"
    by (simp add: h1_def)
  moreover have "getPublicHeaderLength pers h = Inr (of_nat (length (b # cid @ ver @ ?nonce @ num)))"
    using wf has len by (auto simp: getPublicHeaderLength_def cid_def ver_def num_def public_wf_def split: if_splits)
  ultimately show ?thesis using w bits(1,2) by auto
qed

lemma header_survives:
  assumes "header_wf pers v h"
  shows "\<exists>bs. Header_Write pers v h = Inr bs \<and> Header_GetLength pers v h = Inr (of_nat (length bs))
    \<and> ParseHeaderSentBy pers v (bs @ r) = Inr (h\<lparr>hdr_PacketNumber := number_sent h\<rparr>, r)"
proof (cases "UsesTLS v")
  case False
  with assms have wf: "public_wf pers h" by (simp add: header_wf_def)
  from public_header_roundtrip [OF this] obtain b bs where p: "writePublicHeader pers h = Inr (b # bs)" "b AND 0x80 = 0"
    "b AND 0xc0 = 0" "parsePublicHeader pers ((b # bs) @ r)
        = Inr (h\<lparr>hdr_PacketNumber := number_sent h, hdr_isPublicHeader := False\<rparr>, r)"
    "getPublicHeaderLength pers h = Inr (of_nat (length (b # bs)))" by blast
  have "hdr_isPublicHeader h" using wf by (simp add: public_wf_def)
  then have "h\<lparr>hdr_PacketNumber := number_sent h, hdr_isPublicHeader := False, hdr_isPublicHeader := True\<rparr>
      = h\<lparr>hdr_PacketNumber := number_sent h\<rparr>" by (intro PacketHeader.equality) simp_all
  then show ?thesis using False p
    by (cases pers) (simp_all add: Header_Write_def Header_GetLength_def ParseHeaderSentBy_def ParseHeaderSentByClient_def
        ParseHeaderSentByServer_def parsePacketHeader_def)
next
  case True
  with assms have wf: "ietf_wf pers h" by (simp add: header_wf_def)
  show ?thesis
  proof (cases "hdr_IsLongHeader h")
    case long: True
    from long_header_roundtrip [OF wf long] obtain b bs where p: "writeLongHeader h = b # bs" "b AND 0x80 > 0"
      "parseLongHeader pers b (bs @ r) = Inr (h\<lparr>hdr_PacketNumber := number_sent h\<rparr>, r)"
      "getHeaderLength h = Inr (of_nat (length (b # bs)))" by blast
    have "b AND 0xc0 \<noteq> 0"
    proof
      assume "b AND 0xc0 = 0"
      moreover have "b AND 0x80 = (b AND 0xc0) AND 0x80" unfolding and.assoc by simp
      ultimately have "b AND 0x80 = 0 AND 0x80" by (simp only:)
      with p(2) show False by simp
    qed
    then show ?thesis using True long p
      by (cases pers) (simp_all add: Header_Write_def Header_GetLength_def ParseHeaderSentBy_def ParseHeaderSentByClient_def
          ParseHeaderSentByServer_def parsePacketHeader_def parseHeader_def writeHeader_def)
  next
    case short: False
    from short_header_roundtrip [OF wf short, of r] obtain b bs where p: "writeShortHeader h = Inr (b # bs)"
      "b AND 0x80 = 0" "b AND 0xcf \<noteq> 0x9" "pers = PerspectiveClient \<longrightarrow> b AND 0xc0 \<noteq> 0"
      "parseShortHeader b (bs @ r) = Inr (h\<lparr>hdr_PacketNumber := number_sent h\<rparr>, r)"
      "getHeaderLength h = Inr (of_nat (length (b # bs)))" by blast
    then show ?thesis using True short
      by (cases pers) (simp_all add: Header_Write_def Header_GetLength_def ParseHeaderSentBy_def ParseHeaderSentByClient_def
          ParseHeaderSentByServer_def parsePacketHeader_def parseHeader_def writeHeader_def)
  qed
qed

text \<open>C32: The header of a packet is parsed as it was written, by either peer and in every version: the
  server tells the two kinds of headers apart without knowing the version, the packet
  number arrives truncated to its length, and \<open>GetLength\<close> is the number of bytes written.\<close>

theorem header_roundtrip:
  assumes "header_wf pers v h"
  shows "\<exists>bs. Header_Write pers v h = Inr bs \<and> Header_GetLength pers v h = Inr (of_nat (length bs))
    \<and> ParseHeaderSentBy pers v (bs @ r) = Inr (h\<lparr>hdr_PacketNumber := number_sent h\<rparr>, r)"
  using assms by (rule header_survives)

theorem header_roundtrip_witness:
  "\<exists>bs. Header_Write PerspectiveClient VersionTLS (empty_header\<lparr>hdr_ConnectionID := 7, hdr_PacketNumber := 0x123456,
          hdr_PacketNumberLen := PacketNumberLen2\<rparr>) = Inr bs
     \<and> ParseHeaderSentByClient (bs @ [1, 2]) = Inr (empty_header\<lparr>hdr_ConnectionID := 7, hdr_PacketNumber := 0x3456,
          hdr_PacketNumberLen := PacketNumberLen2\<rparr>, [1, 2])"
  using header_roundtrip [of PerspectiveClient VersionTLS "empty_header\<lparr>hdr_ConnectionID := 7,
      hdr_PacketNumber := 0x123456, hdr_PacketNumberLen := PacketNumberLen2\<rparr>" "[1, 2]"]
  by (auto simp: header_wf_def UsesTLS_def ietf_wf_def empty_header_def ParseHeaderSentBy_def number_sent_def
      wire_number_def take_bit_eq_mod)

subsection \<open>Version negotiation packets survive\<close>

lemma read_versions_Write: "read_versions (concat (map be_WriteUint32 vs)) = vs"
proof (induction vs)
  case Nil
  have "be_ReadUint32 [] = Inl EOF" by (simp add: be_ReadUint32_def)
  then show ?case by (simp add: read_versions.simps)
next
  case (Cons v vs)
  then show ?case by (simp add: read_versions.simps [of "_ @ _"] be_Write_read)
qed

lemma length_versions: "length (concat (map be_WriteUint32 vs)) = 4 * length vs"
  by (induction vs) simp_all

lemma read_version_list_Write: "read_version_list (length vs) (concat (map be_WriteUint32 vs)) = Inr vs"
proof (induction vs)
  case (Cons v vs)
  have "be_WriteUint32 v \<noteq> []" by (metis length_be_Write(2) list.size(3) zero_neq_numeral)
  then show ?case using Cons by (simp add: read_version_list.simps [of _ "_ @ _"] be_Write_read)
qed (simp add: read_version_list.simps)

text \<open>A client takes the list of versions out of a version negotiation packet of either kind.\<close>

lemma gquic_version_negotiation:
  assumes "connID \<noteq> 0" "vs \<noteq> []"
  shows "\<exists>h. ParseHeaderSentByServer v (ComposeGQUICVersionNegotiation connID vs) = Inr (h, [])
    \<and> hdr_IsVersionNegotiation h \<and> hdr_ConnectionID h = connID \<and> hdr_SupportedVersions h = vs"
proof -
  have c: "ComposeGQUICVersionNegotiation connID vs = 0x09 # be_WriteUint64 connID @ concat (map be_WriteUint32 vs)"
    by (simp add: ComposeGQUICVersionNegotiation_def Let_def writePublicHeader_def public_flags_def hasPacketNumber_def
        empty_header_def)
  have "be_WriteUint32 x \<noteq> []" for x by (metis length_be_Write(2) list.size(3) zero_neq_numeral)
  then have "concat (map be_WriteUint32 vs) \<noteq> []" using assms(2) by (cases vs) simp_all
  moreover have "length (concat (map be_WriteUint32 vs)) mod 4 = 0" unfolding length_versions by simp
  ultimately show ?thesis
    using assms(1) unfolding c
    by (simp add: ParseHeaderSentByServer_def Let_def parsePacketHeader_def parsePublicHeader_def parse_flags_def
        empty_header_def hasPacketNumber_def parse_connection_id_def be_Write_read parse_nonce_def read_versions_Write
        del: length_concat)
qed

lemma ietf_version_negotiation:
  "\<exists>h. ParseHeaderSentByServer v (ComposeVersionNegotiation rndType rndPos rnd connID vs) = Inr (h, [])
    \<and> hdr_IsVersionNegotiation h \<and> hdr_ConnectionID h = connID
    \<and> hdr_SupportedVersions h = GetGreasedVersions rndPos rnd vs"
proof -
  let ?vs = "GetGreasedVersions rndPos rnd vs"
  have b: "(rndType OR 0x80) AND 0x80 > 0"
  proof -
    have "(rndType OR 0x80) AND 0x80 = (0x80 :: byte)" by (rule bit_eqI) (auto simp: bit_simps)
    then show ?thesis by simp
  qed
  have "?vs \<noteq> []" by (simp add: GetGreasedVersions_def Let_def)
  moreover have "be_WriteUint32 x \<noteq> []" for x by (metis length_be_Write(2) list.size(3) zero_neq_numeral)
  ultimately have "concat (map be_WriteUint32 ?vs) \<noteq> []" by (cases ?vs) simp_all
  moreover have "length (concat (map be_WriteUint32 ?vs)) div 4 = length ?vs" unfolding length_versions by simp
  ultimately show ?thesis
    using b unfolding ComposeVersionNegotiation_def
    by (simp add: ParseHeaderSentByServer_def Let_def parsePacketHeader_def parseHeader_def parseLongHeader_def be_Write_read
        read_version_list_Write empty_header_def del: length_concat)
qed

text \<open>C33: Version negotiation leads to the best common version: whatever version the client assumed, it
  parses the packet of the server, in the format of gQUIC or of the IETF draft, and chooses the first of its versions
  that the server supports, the version that the draft greases into the list notwithstanding.\<close>

theorem version_negotiation_finds_common_version:
  assumes "connID \<noteq> 0" "theirs \<noteq> []" "\<forall>v \<in> set ours. v AND 0x0f0f0f0f \<noteq> 0x0a0a0a0a"
  shows "\<exists>h1 h2. ParseHeaderSentByServer v (ComposeGQUICVersionNegotiation connID theirs) = Inr (h1, [])
    \<and> ParseHeaderSentByServer v (ComposeVersionNegotiation rndType rndPos rnd connID theirs) = Inr (h2, [])
    \<and> (\<forall>h \<in> {h1, h2}. hdr_IsVersionNegotiation h \<and> hdr_ConnectionID h = connID
         \<and> ChooseSupportedVersion ours (hdr_SupportedVersions h)
             = (case find (\<lambda>v. v \<in> set theirs) ours of None \<Rightarrow> (0, False) | Some v \<Rightarrow> (v, True)))"
proof -
  from gquic_version_negotiation [OF assms(1,2), of v] ietf_version_negotiation [of v rndType rndPos rnd connID theirs]
  obtain h1 h2 where h: "ParseHeaderSentByServer v (ComposeGQUICVersionNegotiation connID theirs) = Inr (h1, [])"
    "hdr_IsVersionNegotiation h1" "hdr_ConnectionID h1 = connID" "hdr_SupportedVersions h1 = theirs"
    "ParseHeaderSentByServer v (ComposeVersionNegotiation rndType rndPos rnd connID theirs) = Inr (h2, [])"
    "hdr_IsVersionNegotiation h2" "hdr_ConnectionID h2 = connID"
    "hdr_SupportedVersions h2 = GetGreasedVersions rndPos rnd theirs" by blast
  then show ?thesis using Choose_greased [OF assms(3)] ChooseSupportedVersion_eq [of ours theirs]
    by (intro exI [of _ h1] exI [of _ h2]) simp
qed

theorem version_negotiation_finds_common_version_witness:
  "\<exists>h1. ParseHeaderSentByServer Version39 (ComposeGQUICVersionNegotiation 7 [VersionTLS, Version39]) = Inr (h1, [])
     \<and> ChooseSupportedVersion SupportedVersions (hdr_SupportedVersions h1) = (Version39, True)"
proof -
  have "\<forall>v \<in> set SupportedVersions. v AND 0x0f0f0f0f \<noteq> 0x0a0a0a0a" by (simp add: version_defs)
  from version_negotiation_finds_common_version [OF _ _ this, of 7 "[VersionTLS, Version39]" Version39 1 1 1]
  obtain h1 where "ParseHeaderSentByServer Version39 (ComposeGQUICVersionNegotiation 7 [VersionTLS, Version39]) = Inr (h1, [])"
    "ChooseSupportedVersion SupportedVersions (hdr_SupportedVersions h1)
      = (case find (\<lambda>v. v \<in> set [VersionTLS, Version39]) SupportedVersions of None \<Rightarrow> (0, False) | Some v \<Rightarrow> (v, True))"
    by auto
  then show ?thesis by (intro exI [of _ h1]) (simp add: SupportedVersions_def)
qed

subsection \<open>Hostile headers\<close>

text \<open>A short header whose type has the low bits 0 is not refused; its packet number has no bytes.\<close>

theorem short_header_without_number:
  "ParseHeaderSentByServer VersionTLS [0x00, 1, 2]
     = Inr (empty_header\<lparr>hdr_OmitConnectionID := True\<rparr>, [1, 2])"
proof -
  have "unat (- 1 :: byte) = 255" by (simp add: unsigned_minus_1_eq_mask mask_eq_exp_minus_1)
  then show ?thesis
    by (simp add: ParseHeaderSentByServer_def Let_def UsesTLS_def parsePacketHeader_def parseHeader_def parseShortHeader_def
        be_ReadUintN_def be_ReadUintN_from.simps empty_header_def push_bit_eq_mult)
qed

end
