(* ===== verification/Streams_Map.thy ===== *)
theory Streams_Map
  imports Transport_Params
begin

section \<open>The streams of a connection\<close>

text \<open>
  \<^verbatim>\<open>streams_map.go\<close> with the two generic maps it is made of, \<^verbatim>\<open>streams_map_outgoing_generic.go\<close> and
  \<^verbatim>\<open>streams_map_incoming_generic.go\<close>, from which the maps of bidirectional and unidirectional streams are
  generated. The streams are a type parameter and \<open>newStream\<close> is an argument. Every method runs under the
  mutex of its map, so it is one step; a method that waits on the condition variable is the step up to its
  wait, and waiting is the result \<open>None\<close>. Control frames that a method queues are part of its result.
\<close>

abbreviation (input) TooManyOpenStreams :: ErrorCode where "TooManyOpenStreams \<equiv> 18"
abbreviation (input) InvalidStreamID :: ErrorCode where "InvalidStreamID \<equiv> 17"

subsection \<open>Streams opened by this side\<close>

record 's outgoingItemsMap =
  out_streams :: "StreamID \<rightharpoonup> 's"
  out_nextStream :: StreamID
  out_maxStream :: StreamID
  highestBlocked :: StreamID
  out_closeErr :: "goerr option"

definition newOutgoingItemsMap :: "StreamID \<Rightarrow> 's outgoingItemsMap" where
  "newOutgoingItemsMap nextStream =
     \<lparr>out_streams = Map.empty, out_nextStream = nextStream, out_maxStream = 0, highestBlocked = 0, out_closeErr = None\<rparr>"

definition openStreamImpl ::
  "(StreamID \<Rightarrow> 's) \<Rightarrow> 's outgoingItemsMap \<Rightarrow> (goerr + 's) \<times> 's outgoingItemsMap \<times> Frame list" where
  "openStreamImpl newStream m =
     (case out_closeErr m of
        Some e \<Rightarrow> (Inl e, m, [])
      | None \<Rightarrow>
          if out_nextStream m > out_maxStream m then
            (if out_maxStream m = 0 \<or> highestBlocked m < out_maxStream m
             then (Inl (QErr TooManyOpenStreams), m\<lparr>highestBlocked := out_maxStream m\<rparr>,
                   [Frame_StreamIDBlocked \<lparr>sib_StreamID = out_maxStream m\<rparr>])
             else (Inl (QErr TooManyOpenStreams), m, []))
          else
            let s = newStream (out_nextStream m)
            in (Inr s, m\<lparr>out_streams := (out_streams m)(out_nextStream m \<mapsto> s), out_nextStream := out_nextStream m + 4\<rparr>, []))"

definition out_OpenStream ::
  "(StreamID \<Rightarrow> 's) \<Rightarrow> 's outgoingItemsMap \<Rightarrow> (goerr + 's) \<times> 's outgoingItemsMap \<times> Frame list" where
  "out_OpenStream newStream m = openStreamImpl newStream m"

text \<open>One turn of the loop of \<open>OpenStreamSync\<close>. The error of a closed map is a \<open>*QuicError\<close>, which is never equal
  to the error code \<open>TooManyOpenStreams\<close> that makes the loop wait.\<close>

definition out_OpenStreamSync ::
  "(StreamID \<Rightarrow> 's) \<Rightarrow> 's outgoingItemsMap \<Rightarrow> (goerr + 's) option \<times> 's outgoingItemsMap \<times> Frame list" where
  "out_OpenStreamSync newStream m =
     (let (res, m', fs) = openStreamImpl newStream m
      in (if res = Inl (QErr TooManyOpenStreams) \<and> out_closeErr m = None then None else Some res, m', fs))"

definition out_GetStream :: "StreamID \<Rightarrow> 's outgoingItemsMap \<Rightarrow> goerr + 's option" where
  "out_GetStream sid m =
     (if sid \<ge> out_nextStream m then Inl (QErr InvalidStreamID) else Inr (out_streams m sid))"

definition out_DeleteStream :: "StreamID \<Rightarrow> 's outgoingItemsMap \<Rightarrow> goerr option \<times> 's outgoingItemsMap" where
  "out_DeleteStream sid m =
     (if out_streams m sid = None then (Some (GoErr ''Tried to delete unknown stream''), m)
      else (None, m\<lparr>out_streams := (out_streams m)(sid := None)\<rparr>))"

definition SetMaxStream :: "StreamID \<Rightarrow> 's outgoingItemsMap \<Rightarrow> 's outgoingItemsMap" where
  "SetMaxStream sid m = (if sid > out_maxStream m then m\<lparr>out_maxStream := sid\<rparr> else m)"

definition out_CloseWithError :: "goerr \<Rightarrow> 's outgoingItemsMap \<Rightarrow> 's outgoingItemsMap" where
  "out_CloseWithError err m = m\<lparr>out_closeErr := Some err\<rparr>"

subsection \<open>Streams opened by the peer\<close>

record 's incomingItemsMap =
  in_streams :: "StreamID \<rightharpoonup> 's"
  in_nextStream :: StreamID
  highestStream :: StreamID
  in_maxStream :: StreamID
  maxNumStreams :: int
  in_closeErr :: "goerr option"

definition newIncomingItemsMap :: "StreamID \<Rightarrow> StreamID \<Rightarrow> int \<Rightarrow> 's incomingItemsMap" where
  "newIncomingItemsMap nextStream initialMaxStreamID n =
     \<lparr>in_streams = Map.empty, in_nextStream = nextStream, highestStream = 0, in_maxStream = initialMaxStreamID,
      maxNumStreams = n, in_closeErr = None\<rparr>"

definition in_AcceptStream :: "'s incomingItemsMap \<Rightarrow> (goerr + 's) option \<times> 's incomingItemsMap" where
  "in_AcceptStream m =
     (case in_closeErr m of
        Some e \<Rightarrow> (Some (Inl e), m)
      | None \<Rightarrow>
          case in_streams m (in_nextStream m) of
            None \<Rightarrow> (None, m)
          | Some s \<Rightarrow> (Some (Inr s), m\<lparr>in_nextStream := in_nextStream m + 4\<rparr>))"

text \<open>The loop that opens the streams up to \<open>sid\<close>; a loop that does not end is \<open>None\<close>.\<close>

partial_function (option) open_streams ::
  "(StreamID \<Rightarrow> 's) \<Rightarrow> StreamID \<Rightarrow> StreamID \<Rightarrow> (StreamID \<rightharpoonup> 's) \<Rightarrow> (StreamID \<rightharpoonup> 's) option" where
  "open_streams newStream sid newID streams =
     (if newID \<le> sid then open_streams newStream sid (newID + 4) (streams(newID \<mapsto> newStream newID))
      else Some streams)"

declare open_streams.simps [code]

definition GetOrOpenStream ::
  "(StreamID \<Rightarrow> 's) \<Rightarrow> StreamID \<Rightarrow> 's incomingItemsMap \<Rightarrow> ((goerr + 's option) \<times> 's incomingItemsMap) option" where
  "GetOrOpenStream newStream sid m =
     (if sid > in_maxStream m then Some (Inl (GoErr ''peer tried to open stream''), m)
      else if sid \<le> highestStream m then Some (Inr (in_streams m sid), m)
      else
        let start = (if highestStream m = 0 then in_nextStream m else highestStream m + 4)
        in map_option (\<lambda>streams. (Inr (streams sid), m\<lparr>in_streams := streams, highestStream := sid\<rparr>))
             (open_streams newStream sid start (in_streams m)))"

definition in_DeleteStream :: "StreamID \<Rightarrow> 's incomingItemsMap \<Rightarrow> goerr option \<times> 's incomingItemsMap \<times> Frame list" where
  "in_DeleteStream sid m =
     (if in_streams m sid = None then (Some (GoErr ''Tried to delete unknown stream''), m, [])
      else
        let streams = (in_streams m)(sid := None);
            numNewStreams = maxNumStreams m - int (card (dom streams));
            m = m\<lparr>in_streams := streams\<rparr>
        in if numNewStreams > 0 then
             let limit = highestStream m + word_of_int (numNewStreams * 4)
             in (None, m\<lparr>in_maxStream := limit\<rparr>, [Frame_MaxStreamID \<lparr>msi_StreamID = limit\<rparr>])
           else (None, m, []))"

definition in_CloseWithError :: "goerr \<Rightarrow> 's incomingItemsMap \<Rightarrow> 's incomingItemsMap" where
  "in_CloseWithError err m = m\<lparr>in_closeErr := Some err\<rparr>"

subsection \<open>The four maps of a connection\<close>

text \<open>The kinds of streams are \<open>'b\<close> for bidirectional ones, \<open>'s\<close> for those that only send and \<open>'r\<close> for those that
  only receive. Where the code returns an interface that two kinds implement, a sum says which it is.\<close>

datatype streamType = OutgoingBidi | IncomingBidi | OutgoingUni | IncomingUni

record ('b, 's, 'r) streamsMap =
  sm_perspective :: Perspective
  outgoingBidiStreams :: "'b outgoingItemsMap"
  outgoingUniStreams :: "'s outgoingItemsMap"
  incomingBidiStreams :: "'b incomingItemsMap"
  incomingUniStreams :: "'r incomingItemsMap"

definition newStreamsMap :: "int \<Rightarrow> int \<Rightarrow> Perspective \<Rightarrow> ('b, 's, 'r) streamsMap" where
  "newStreamsMap maxIncomingStreams maxIncomingUniStreams pers =
     (let (firstOutgoingBidi, firstIncomingBidi, firstOutgoingUni, firstIncomingUni) =
        (if pers = PerspectiveServer then (1, 4, 3, 2) else (4, 1, 2, 3))
      in \<lparr>sm_perspective = pers,
          outgoingBidiStreams = newOutgoingItemsMap firstOutgoingBidi,
          outgoingUniStreams = newOutgoingItemsMap firstOutgoingUni,
          incomingBidiStreams = newIncomingItemsMap firstIncomingBidi (MaxBidiStreamID maxIncomingStreams pers) maxIncomingStreams,
          incomingUniStreams = newIncomingItemsMap firstIncomingUni (MaxUniStreamID maxIncomingUniStreams pers) maxIncomingUniStreams\<rparr>)"

definition getStreamType :: "StreamID \<Rightarrow> Perspective \<Rightarrow> streamType" where
  "getStreamType sid pers =
     (if pers = PerspectiveServer then
        (if sid mod 4 = 0 then IncomingBidi else if sid mod 4 = 1 then OutgoingBidi
         else if sid mod 4 = 2 then IncomingUni else OutgoingUni)
      else
        (if sid mod 4 = 0 then OutgoingBidi else if sid mod 4 = 1 then IncomingBidi
         else if sid mod 4 = 2 then OutgoingUni else IncomingUni))"

definition map_OpenStream ::
  "(StreamID \<Rightarrow> 'b) \<Rightarrow> ('b, 's, 'r) streamsMap \<Rightarrow> (goerr + 'b) \<times> ('b, 's, 'r) streamsMap \<times> Frame list" where
  "map_OpenStream newBidi m =
     (let (res, om, fs) = out_OpenStream newBidi (outgoingBidiStreams m) in (res, m\<lparr>outgoingBidiStreams := om\<rparr>, fs))"

definition map_OpenStreamSync ::
  "(StreamID \<Rightarrow> 'b) \<Rightarrow> ('b, 's, 'r) streamsMap \<Rightarrow> (goerr + 'b) option \<times> ('b, 's, 'r) streamsMap \<times> Frame list" where
  "map_OpenStreamSync newBidi m =
     (let (res, om, fs) = out_OpenStreamSync newBidi (outgoingBidiStreams m) in (res, m\<lparr>outgoingBidiStreams := om\<rparr>, fs))"

definition map_OpenUniStream ::
  "(StreamID \<Rightarrow> 's) \<Rightarrow> ('b, 's, 'r) streamsMap \<Rightarrow> (goerr + 's) \<times> ('b, 's, 'r) streamsMap \<times> Frame list" where
  "map_OpenUniStream newUni m =
     (let (res, om, fs) = out_OpenStream newUni (outgoingUniStreams m) in (res, m\<lparr>outgoingUniStreams := om\<rparr>, fs))"

definition map_OpenUniStreamSync ::
  "(StreamID \<Rightarrow> 's) \<Rightarrow> ('b, 's, 'r) streamsMap \<Rightarrow> (goerr + 's) option \<times> ('b, 's, 'r) streamsMap \<times> Frame list" where
  "map_OpenUniStreamSync newUni m =
     (let (res, om, fs) = out_OpenStreamSync newUni (outgoingUniStreams m) in (res, m\<lparr>outgoingUniStreams := om\<rparr>, fs))"

definition map_AcceptStream :: "('b, 's, 'r) streamsMap \<Rightarrow> (goerr + 'b) option \<times> ('b, 's, 'r) streamsMap" where
  "map_AcceptStream m =
     (let (res, im) = in_AcceptStream (incomingBidiStreams m) in (res, m\<lparr>incomingBidiStreams := im\<rparr>))"

definition map_AcceptUniStream :: "('b, 's, 'r) streamsMap \<Rightarrow> (goerr + 'r) option \<times> ('b, 's, 'r) streamsMap" where
  "map_AcceptUniStream m =
     (let (res, im) = in_AcceptStream (incomingUniStreams m) in (res, m\<lparr>incomingUniStreams := im\<rparr>))"

definition map_DeleteStream ::
  "StreamID \<Rightarrow> ('b, 's, 'r) streamsMap \<Rightarrow> goerr option \<times> ('b, 's, 'r) streamsMap \<times> Frame list" where
  "map_DeleteStream sid m =
     (case getStreamType sid (sm_perspective m) of
        IncomingBidi \<Rightarrow> let (e, im, fs) = in_DeleteStream sid (incomingBidiStreams m) in (e, m\<lparr>incomingBidiStreams := im\<rparr>, fs)
      | OutgoingBidi \<Rightarrow> let (e, om) = out_DeleteStream sid (outgoingBidiStreams m) in (e, m\<lparr>outgoingBidiStreams := om\<rparr>, [])
      | IncomingUni \<Rightarrow> let (e, im, fs) = in_DeleteStream sid (incomingUniStreams m) in (e, m\<lparr>incomingUniStreams := im\<rparr>, fs)
      | OutgoingUni \<Rightarrow> let (e, om) = out_DeleteStream sid (outgoingUniStreams m) in (e, m\<lparr>outgoingUniStreams := om\<rparr>, []))"

definition GetOrOpenReceiveStream ::
  "(StreamID \<Rightarrow> 'b) \<Rightarrow> (StreamID \<Rightarrow> 'r) \<Rightarrow> StreamID \<Rightarrow> ('b, 's, 'r) streamsMap
   \<Rightarrow> ((goerr + ('b + 'r) option) \<times> ('b, 's, 'r) streamsMap) option" where
  "GetOrOpenReceiveStream newBidi newUni sid m =
     (case getStreamType sid (sm_perspective m) of
        OutgoingBidi \<Rightarrow> Some (map_sum (\<lambda>e. e) (map_option Inl) (out_GetStream sid (outgoingBidiStreams m)), m)
      | IncomingBidi \<Rightarrow> map_option (\<lambda>(res, im). (map_sum (\<lambda>e. e) (map_option Inl) res, m\<lparr>incomingBidiStreams := im\<rparr>))
                          (GetOrOpenStream newBidi sid (incomingBidiStreams m))
      | IncomingUni \<Rightarrow> map_option (\<lambda>(res, im). (map_sum (\<lambda>e. e) (map_option Inr) res, m\<lparr>incomingUniStreams := im\<rparr>))
                          (GetOrOpenStream newUni sid (incomingUniStreams m))
      | OutgoingUni \<Rightarrow> Some (Inl (GoErr ''peer attempted to open receive stream''), m))"

definition GetOrOpenSendStream ::
  "(StreamID \<Rightarrow> 'b) \<Rightarrow> StreamID \<Rightarrow> ('b, 's, 'r) streamsMap
   \<Rightarrow> ((goerr + ('b + 's) option) \<times> ('b, 's, 'r) streamsMap) option" where
  "GetOrOpenSendStream newBidi sid m =
     (case getStreamType sid (sm_perspective m) of
        OutgoingBidi \<Rightarrow> Some (map_sum (\<lambda>e. e) (map_option Inl) (out_GetStream sid (outgoingBidiStreams m)), m)
      | IncomingBidi \<Rightarrow> map_option (\<lambda>(res, im). (map_sum (\<lambda>e. e) (map_option Inl) res, m\<lparr>incomingBidiStreams := im\<rparr>))
                          (GetOrOpenStream newBidi sid (incomingBidiStreams m))
      | OutgoingUni \<Rightarrow> Some (map_sum (\<lambda>e. e) (map_option Inr) (out_GetStream sid (outgoingUniStreams m)), m)
      | IncomingUni \<Rightarrow> Some (Inl (GoErr ''peer attempted to open send stream''), m))"

definition HandleMaxStreamIDFrame ::
  "MaxStreamIDFrame \<Rightarrow> ('b, 's, 'r) streamsMap \<Rightarrow> goerr option \<times> ('b, 's, 'r) streamsMap" where
  "HandleMaxStreamIDFrame f m =
     (let sid = msi_StreamID f in
      case getStreamType sid (sm_perspective m) of
        OutgoingBidi \<Rightarrow> (None, m\<lparr>outgoingBidiStreams := SetMaxStream sid (outgoingBidiStreams m)\<rparr>)
      | OutgoingUni \<Rightarrow> (None, m\<lparr>outgoingUniStreams := SetMaxStream sid (outgoingUniStreams m)\<rparr>)
      | _ \<Rightarrow> (Some (GoErr ''received MAX_STREAM_DATA frame for incoming stream''), m))"

definition UpdateLimits :: "TransportParameters \<Rightarrow> ('b, 's, 'r) streamsMap \<Rightarrow> ('b, 's, 'r) streamsMap" where
  "UpdateLimits p m =
     m\<lparr>outgoingBidiStreams := SetMaxStream (tp_MaxBidiStreamID p) (outgoingBidiStreams m),
       outgoingUniStreams := SetMaxStream (tp_MaxUniStreamID p) (outgoingUniStreams m)\<rparr>"

definition map_CloseWithError :: "goerr \<Rightarrow> ('b, 's, 'r) streamsMap \<Rightarrow> ('b, 's, 'r) streamsMap" where
  "map_CloseWithError err m =
     m\<lparr>outgoingBidiStreams := out_CloseWithError err (outgoingBidiStreams m),
       outgoingUniStreams := out_CloseWithError err (outgoingUniStreams m),
       incomingBidiStreams := in_CloseWithError err (incomingBidiStreams m),
       incomingUniStreams := in_CloseWithError err (incomingUniStreams m)\<rparr>"

end
