(* ===== verification/Stream_Limits.thy ===== *)
theory Stream_Limits
  imports Streams_Map
begin

section \<open>Two peers that open streams\<close>

text \<open>
  One direction of a connection: the outgoing map of the peer that opens streams and the incoming map of the
  peer that accepts them. Limits and frames can be lost, duplicated and reordered on the way, so what is on the
  way is a set: the limits that were announced and the streams that frames were sent on.
\<close>

record ('a, 'b) stream_net =
  opener :: "'a outgoingItemsMap"
  acceptor :: "'b incomingItemsMap"
  announced :: "StreamID set"
  in_use :: "StreamID set"
  taken :: "'b list"

definition stream_start :: "StreamID \<Rightarrow> nat \<Rightarrow> ('a, 'b) stream_net" where
  "stream_start f N =
     (let limit = f + 4 * word_of_int (int N - 1)
      in \<lparr>opener = newOutgoingItemsMap f, acceptor = newIncomingItemsMap f limit (int N),
          announced = {limit}, in_use = {}, taken = []\<rparr>)"

definition limits_of :: "Frame list \<Rightarrow> StreamID set" where
  "limits_of fs = {sid. Frame_MaxStreamID \<lparr>msi_StreamID = sid\<rparr> \<in> set fs}"

text \<open>Stream identifiers are sent as variable-length integers, so they stay below \<open>2^62\<close>.\<close>

inductive stream_run :: "(StreamID \<Rightarrow> 'a) \<Rightarrow> (StreamID \<Rightarrow> 'b) \<Rightarrow> StreamID \<Rightarrow> nat \<Rightarrow> ('a, 'b) stream_net \<Rightarrow> bool"
  for new1 new2 f N where
  start: "stream_run new1 new2 f N (stream_start f N)"
| opens: "stream_run new1 new2 f N st \<Longrightarrow> openStreamImpl new1 (opener st) = (res, om, fs)
    \<Longrightarrow> unat (out_nextStream (opener st)) < 2 ^ 62
    \<Longrightarrow> stream_run new1 new2 f N (st\<lparr>opener := om,
          in_use := (if isl res then in_use st else insert (out_nextStream (opener st)) (in_use st))\<rparr>)"
| grants: "stream_run new1 new2 f N st \<Longrightarrow> sid \<in> announced st
    \<Longrightarrow> stream_run new1 new2 f N (st\<lparr>opener := SetMaxStream sid (opener st)\<rparr>)"
| closes: "stream_run new1 new2 f N st \<Longrightarrow> out_DeleteStream sid (opener st) = (e, om)
    \<Longrightarrow> stream_run new1 new2 f N (st\<lparr>opener := om\<rparr>)"
| delivers: "stream_run new1 new2 f N st \<Longrightarrow> sid \<in> in_use st
    \<Longrightarrow> GetOrOpenStream new2 sid (acceptor st) = Some (res, im)
    \<Longrightarrow> stream_run new1 new2 f N (st\<lparr>acceptor := im\<rparr>)"
| deletes: "stream_run new1 new2 f N st \<Longrightarrow> in_DeleteStream sid (acceptor st) = (e, im, fs)
    \<Longrightarrow> stream_run new1 new2 f N (st\<lparr>acceptor := im, announced := announced st \<union> limits_of fs\<rparr>)"
| accepts: "stream_run new1 new2 f N st \<Longrightarrow> in_AcceptStream (acceptor st) = (Some (Inr s), im)
    \<Longrightarrow> stream_run new1 new2 f N (st\<lparr>acceptor := im, taken := taken st @ [s]\<rparr>)"

subsection \<open>The streams of one kind, counted\<close>

definition nth_id :: "StreamID \<Rightarrow> nat \<Rightarrow> StreamID" where
  "nth_id f k = f + 4 * of_nat k"

lemma unat_nth_id:
  assumes "unat f \<le> 4" "k < 2 ^ 61"
  shows "unat (nth_id f k) = unat f + 4 * k"
proof -
  have k: "unat (of_nat k :: uint64) = k" using assms(2) by (simp add: unat_of_nat64)
  have m: "unat (4 * of_nat k :: uint64) = 4 * k"
  proof -
    have "unat (of_nat (4 * k) :: uint64) = 4 * k" using assms(2) by (subst unat_of_nat64) simp_all
    then show ?thesis by simp
  qed
  show ?thesis unfolding nth_id_def using assms by (subst unat_add64) (simp_all add: m)
qed

lemma nth_id_Suc: "nth_id f (Suc k) = nth_id f k + 4"
  by (simp add: nth_id_def algebra_simps)

lemma nth_id_le:
  assumes "unat f \<le> 4" "j < 2 ^ 61" "k < 2 ^ 61"
  shows "nth_id f j \<le> nth_id f k \<longleftrightarrow> j \<le> k" "nth_id f j < nth_id f k \<longleftrightarrow> j < k" "nth_id f j = nth_id f k \<longleftrightarrow> j = k"
  using assms by (simp_all add: word_le_nat_alt word_less_nat_alt word_unat_eq_iff unat_nth_id)

lemma nth_id_inj: "unat f \<le> 4 \<Longrightarrow> n < 2 ^ 61 \<Longrightarrow> inj_on (nth_id f) {..<n}"
  by (auto simp: inj_on_def nth_id_le)

lemma open_streams_upto:
  assumes f: "unat f \<le> 4" and k: "k \<le> Suc j" "Suc j < 2 ^ 61"
  shows "open_streams new (nth_id f j) (nth_id f k) m
    = Some (\<lambda>sid. if sid \<in> nth_id f ` {k..j} then Some (new sid) else m sid)"
  using k
proof (induction "Suc j - k" arbitrary: k m)
  case 0
  then have "k = Suc j" by simp
  then have "\<not> nth_id f k \<le> nth_id f j" using 0 f by (simp add: nth_id_le)
  then show ?case using \<open>k = Suc j\<close> by (subst open_streams.simps) simp
next
  case (Suc n)
  then have le: "k \<le> j" by simp
  then have c: "nth_id f k \<le> nth_id f j" using Suc f by (simp add: nth_id_le)
  have "{k..j} = insert k {Suc k..j}" using le by auto
  then have "(\<lambda>sid. if sid \<in> nth_id f ` {Suc k..j} then Some (new sid) else (m(nth_id f k \<mapsto> new (nth_id f k))) sid)
    = (\<lambda>sid. if sid \<in> nth_id f ` {k..j} then Some (new sid) else m sid)" by (intro ext) simp
  moreover have "open_streams new (nth_id f j) (nth_id f (Suc k)) (m(nth_id f k \<mapsto> new (nth_id f k)))
    = Some (\<lambda>sid. if sid \<in> nth_id f ` {Suc k..j} then Some (new sid) else (m(nth_id f k \<mapsto> new (nth_id f k))) sid)"
    using Suc le by (intro Suc(1)) simp_all
  ultimately show ?case using c by (subst open_streams.simps) (simp add: nth_id_Suc [symmetric])
qed

text \<open>\<open>n\<close> streams were opened by the one peer, \<open>h\<close> of them are known to the other, \<open>a\<close> were accepted and \<open>d\<close>
  deleted there; \<open>j\<close> deletions are known to the first peer. The limit that \<open>j\<close> deletions allow:\<close>

definition limit :: "StreamID \<Rightarrow> nat \<Rightarrow> nat \<Rightarrow> StreamID" where
  "limit f N j = nth_id f (N + j) - 4"

lemma limit_Suc: "0 < N \<Longrightarrow> limit f N j = nth_id f (N + j - 1)"
  by (cases "N + j") (auto simp: limit_def nth_id_Suc)

definition opener_inv :: "StreamID \<Rightarrow> nat \<Rightarrow> nat \<Rightarrow> nat \<Rightarrow> 'a outgoingItemsMap \<Rightarrow> bool" where
  "opener_inv f N n d om \<longleftrightarrow>
     out_nextStream om = nth_id f n \<and> out_closeErr om = None
     \<and> (out_maxStream om = 0 \<and> n = 0 \<or> (\<exists>j \<le> d. out_maxStream om = limit f N j \<and> n \<le> N + j))"

definition acceptor_inv :: "(StreamID \<Rightarrow> 'b) \<Rightarrow> StreamID \<Rightarrow> nat \<Rightarrow> nat \<Rightarrow> nat \<Rightarrow> nat \<Rightarrow> 'b incomingItemsMap \<Rightarrow> bool" where
  "acceptor_inv new2 f N h d a im \<longleftrightarrow>
     highestStream im = (if h = 0 then 0 else nth_id f (h - 1)) \<and> in_closeErr im = None
     \<and> maxNumStreams im = int N \<and> in_maxStream im = limit f N d \<and> in_nextStream im = nth_id f a \<and> a \<le> h
     \<and> dom (in_streams im) \<subseteq> nth_id f ` {..<h} \<and> card (dom (in_streams im)) + d = h
     \<and> (\<forall>sid s. in_streams im sid = Some s \<longrightarrow> s = new2 sid)"

definition net_inv :: "(StreamID \<Rightarrow> 'b) \<Rightarrow> StreamID \<Rightarrow> nat \<Rightarrow> ('a, 'b) stream_net \<Rightarrow> bool" where
  "net_inv new2 f N st \<longleftrightarrow>
     (\<exists>n h d a. opener_inv f N n d (opener st) \<and> acceptor_inv new2 f N h d a (acceptor st)
        \<and> h \<le> n \<and> n \<le> 2 ^ 60 \<and> in_use st = nth_id f ` {..<n}
        \<and> announced st \<subseteq> limit f N ` {..d} \<and> limit f N d \<in> announced st
        \<and> taken st = map (\<lambda>k. new2 (nth_id f k)) [0..<a])"

lemma opener_bound:
  assumes "opener_inv f N n d om"
  shows "n \<le> N + d"
  using assms by (auto simp: opener_inv_def)

subsection \<open>Every step keeps the invariant\<close>

definition kind_ok :: "StreamID \<Rightarrow> nat \<Rightarrow> bool" where
  "kind_ok f N \<longleftrightarrow> 0 < unat f \<and> unat f \<le> 4 \<and> 0 < N \<and> N < 2 ^ 60"

lemma kind_okD:
  assumes "kind_ok f N"
  shows "0 < unat f" "unat f \<le> 4" "0 < N" "N < 2 ^ 60"
  using assms by (simp_all add: kind_ok_def)

lemma limit_less:
  assumes "kind_ok f N" "j < 2 ^ 60 + 1" "k < 2 ^ 60 + 1"
  shows "limit f N j < limit f N k \<longleftrightarrow> j < k"
  using assms by (auto simp: limit_Suc nth_id_le kind_ok_def)

lemma opens_ok:
  assumes kind: "kind_ok f N" and inv: "opener_inv f N n d om" and bounds: "n \<le> 2 ^ 60" "d \<le> n" "unat (out_nextStream om) < 2 ^ 62"
    and step: "openStreamImpl new om = (res, om', fs)"
  shows "if isl res then opener_inv f N n d om' else opener_inv f N (Suc n) d om' \<and> n < 2 ^ 60"
    and "isl res \<longleftrightarrow> out_maxStream om < nth_id f n"
proof -
  note f = kind_okD(1,2) [OF kind] and N = kind_okD(3,4) [OF kind]
  have next_id: "out_nextStream om = nth_id f n" "out_closeErr om = None" using inv by (auto simp: opener_inv_def)
  have n: "n < 2 ^ 60" using bounds next_id f by (simp add: unat_nth_id)
  show l: "isl res \<longleftrightarrow> out_maxStream om < nth_id f n"
    using step next_id by (auto simp: openStreamImpl_def Let_def split: if_splits)
  show "if isl res then opener_inv f N n d om' else opener_inv f N (Suc n) d om' \<and> n < 2 ^ 60"
  proof (cases "isl res")
    case True
    with step next_id inv show ?thesis by (auto simp: openStreamImpl_def Let_def opener_inv_def split: if_splits)
  next
    case False
    then have ge: "nth_id f n \<le> out_maxStream om" using l by simp
    moreover have "0 < nth_id f n" using f bounds by (simp add: word_less_nat_alt unat_nth_id)
    ultimately obtain j where j: "j \<le> d" "out_maxStream om = limit f N j" "n \<le> N + j"
      using inv by (auto simp: opener_inv_def)
    then have "n \<le> N + j - 1" using ge N f bounds by (simp add: limit_Suc nth_id_le)
    then have "Suc n \<le> N + j" using N by simp
    with j step next_id ge False show ?thesis using n
      by (auto simp: openStreamImpl_def Let_def opener_inv_def nth_id_Suc split: if_splits)
  qed
qed

lemma grants_ok:
  assumes kind: "kind_ok f N" and inv: "opener_inv f N n d om" and bounds: "n \<le> 2 ^ 60" "d \<le> n" and sid: "sid \<in> limit f N ` {..d}"
  shows "opener_inv f N n d (SetMaxStream sid om)"
proof (cases "out_maxStream om < sid")
  case True
  obtain j where j: "j \<le> d" "sid = limit f N j" using sid by auto
  have "n \<le> N + j"
  proof (cases "out_maxStream om = 0 \<and> n = 0")
    case False
    then obtain i where "i \<le> d" "out_maxStream om = limit f N i" "n \<le> N + i" using inv by (auto simp: opener_inv_def)
    then show ?thesis using True j bounds by (simp add: limit_less [OF kind])
  qed simp
  with True j inv show ?thesis by (auto simp: opener_inv_def SetMaxStream_def)
qed (use inv in \<open>simp add: SetMaxStream_def\<close>)

lemma delivers_ok:
  assumes kind: "kind_ok f N" and inv: "acceptor_inv new2 f N h d a im" and bounds: "h \<le> n" "n \<le> 2 ^ 60" "n \<le> N + d" and k: "k < n"
  shows "\<exists>r im'. GetOrOpenStream new2 (nth_id f k) im = Some (Inr r, im') \<and> acceptor_inv new2 f N (max h (Suc k)) d a im'"
proof -
  note f = kind_okD(1,2) [OF kind] and N = kind_okD(3,4) [OF kind]
  have d: "d \<le> h" and high: "highestStream im = (if h = 0 then 0 else nth_id f (h - 1))"
    and max: "in_maxStream im = nth_id f (N + d - 1)" using inv N by (auto simp: acceptor_inv_def limit_Suc)
  have ok: "\<not> nth_id f k > in_maxStream im"
    using k bounds d f N unfolding max by (simp add: nth_id_le not_less)
  have known: "nth_id f k \<le> highestStream im \<longleftrightarrow> k < h"
    using k bounds f unfolding high by (auto simp: nth_id_le word_le_nat_alt unat_nth_id)
  show ?thesis
  proof (cases "k < h")
    case True
    then show ?thesis using inv ok known by (simp add: GetOrOpenStream_def max_absorb1)
  next
    case False
    define streams where "streams = (\<lambda>sid. if sid \<in> nth_id f ` {h..k} then Some (new2 sid) else in_streams im sid)"
    have start: "(if highestStream im = 0 then in_nextStream im else highestStream im + 4) = nth_id f h"
    proof (cases "h = 0")
      case True
      then show ?thesis using inv high by (simp add: acceptor_inv_def)
    next
      case False
      then obtain h' where "h = Suc h'" by (cases h) simp_all
      moreover have "nth_id f h' \<noteq> 0"
        using f bounds \<open>h = Suc h'\<close> by (simp add: word_unat_eq_iff unat_nth_id)
      ultimately show ?thesis using high by (simp add: nth_id_Suc)
    qed
    have open_k: "open_streams new2 (nth_id f k) (nth_id f h) (in_streams im) = Some streams"
      unfolding streams_def using False k bounds f by (intro open_streams_upto) simp_all
    have res: "GetOrOpenStream new2 (nth_id f k) im
        = Some (Inr (streams (nth_id f k)), im\<lparr>in_streams := streams, highestStream := nth_id f k\<rparr>)"
      using ok known False unfolding GetOrOpenStream_def Let_def start open_k by simp
    have dom: "dom streams = dom (in_streams im) \<union> nth_id f ` {h..k}" by (auto simp: streams_def split: if_splits)
    have sub: "dom (in_streams im) \<subseteq> nth_id f ` {..<h}" and card: "card (dom (in_streams im)) + d = h"
      using inv by (auto simp: acceptor_inv_def)
    have inj: "inj_on (nth_id f) {..<n}" using nth_id_inj f bounds by simp
    have "nth_id f ` {..<h} \<inter> nth_id f ` {h..k} = nth_id f ` ({..<h} \<inter> {h..k})"
      using bounds k by (intro inj_on_image_Int [OF inj, symmetric]) auto
    moreover have "{..<h} \<inter> {h..k} = {}" by auto
    ultimately have disj: "dom (in_streams im) \<inter> nth_id f ` {h..k} = {}" using sub by blast
    have "card (nth_id f ` {h..k}) = Suc k - h" using k by (subst card_image [OF inj_on_subset [OF inj]]) auto
    then have "card (dom streams) = card (dom (in_streams im)) + (Suc k - h)"
      unfolding dom using disj finite_subset [OF sub] by (subst card_Un_disjoint) simp_all
    then have cards: "card (dom streams) + d = Suc k" using card False by simp
    have "{..<h} \<subseteq> {..<Suc k}" "{h..k} \<subseteq> {..<Suc k}" using False by auto
    then have sub': "dom streams \<subseteq> nth_id f ` {..<Suc k}" using sub
      unfolding dom by (intro Un_least) (rule order_trans [OF _ image_mono], assumption+, rule image_mono)
    have vals: "\<forall>sid s. streams sid = Some s \<longrightarrow> s = new2 sid"
      using inv by (auto simp: acceptor_inv_def streams_def)
    have "acceptor_inv new2 f N (Suc k) d a (im\<lparr>in_streams := streams, highestStream := nth_id f k\<rparr>)"
      using inv cards False sub' vals by (simp add: acceptor_inv_def)
    moreover have "max h (Suc k) = Suc k" using False by simp
    ultimately show ?thesis using res by simp
  qed
qed

lemma deletes_ok:
  assumes kind: "kind_ok f N" and inv: "acceptor_inv new2 f N h d a im" and bounds: "h \<le> N + d" "h \<le> 2 ^ 60"
    and step: "in_DeleteStream sid im = (e, im', fs)"
  shows "e \<noteq> None \<and> im' = im \<and> fs = []
    \<or> acceptor_inv new2 f N h (Suc d) a im' \<and> Suc d \<le> h \<and> limits_of fs = {limit f N (Suc d)}"
proof (cases "in_streams im sid")
  case None
  then show ?thesis using step by (auto simp: in_DeleteStream_def)
next
  case (Some s)
  note f = kind_okD(1,2) [OF kind] and N = kind_okD(3,4) [OF kind]
  let ?m = "(in_streams im)(sid := None)"
  have sub: "dom (in_streams im) \<subseteq> nth_id f ` {..<h}" and card: "card (dom (in_streams im)) + d = h"
    using inv by (auto simp: acceptor_inv_def)
  have fin: "finite (dom (in_streams im))" using finite_subset [OF sub] by simp
  have dom: "dom ?m = dom (in_streams im) - {sid}" by auto
  have mem: "sid \<in> dom (in_streams im)" using Some by auto
  have c: "card (dom ?m) + Suc d = h" unfolding dom using card mem fin card_Suc_Diff1 [OF fin mem] by simp
  then have h: "h = Suc (h - 1)" by simp
  have num: "int N - int (card (dom ?m)) = int (N + Suc d - h)" using c bounds by simp
  then have pos: "int N - int (card (dom ?m)) > 0" using bounds by simp
  have high: "highestStream im = nth_id f (h - 1)" using inv h by (auto simp: acceptor_inv_def)
  have lim: "highestStream im + word_of_int ((int N - int (card (dom ?m))) * 4) = limit f N (Suc d)"
  proof -
    have "nth_id f (h - 1) + word_of_int (int (N + Suc d - h) * 4) = nth_id f (h - 1 + (N + Suc d - h))"
      by (simp add: nth_id_def algebra_simps)
    also have "h - 1 + (N + Suc d - h) = N + Suc d - 1" using h bounds by linarith
    finally show ?thesis using N unfolding high num by (simp add: limit_Suc)
  qed
  have "(e, im', fs) = (None, im\<lparr>in_streams := ?m, in_maxStream := limit f N (Suc d)\<rparr>,
      [Frame_MaxStreamID \<lparr>msi_StreamID = limit f N (Suc d)\<rparr>])"
    using step Some pos lim inv by (simp add: in_DeleteStream_def Let_def acceptor_inv_def)
  moreover have "acceptor_inv new2 f N h (Suc d) a (im\<lparr>in_streams := ?m, in_maxStream := limit f N (Suc d)\<rparr>)"
    using inv c sub unfolding acceptor_inv_def dom by (auto split: if_splits)
  ultimately show ?thesis using c by (auto simp: limits_of_def)
qed

lemma accepts_ok:
  assumes kind: "kind_ok f N" and inv: "acceptor_inv new2 f N h d a im" and bounds: "h \<le> 2 ^ 60"
    and step: "in_AcceptStream im = (Some (Inr s), im')"
  shows "acceptor_inv new2 f N h d (Suc a) im' \<and> s = new2 (nth_id f a)"
proof -
  note f = kind_okD(1,2) [OF kind]
  have next_id: "in_nextStream im = nth_id f a" and sub: "dom (in_streams im) \<subseteq> nth_id f ` {..<h}" and a: "a \<le> h"
    using inv by (auto simp: acceptor_inv_def)
  have s: "in_streams im (nth_id f a) = Some s" "im' = im\<lparr>in_nextStream := nth_id f (Suc a)\<rparr>"
    using step inv next_id by (auto simp: in_AcceptStream_def acceptor_inv_def nth_id_Suc split: option.splits)
  then have "nth_id f a \<in> nth_id f ` {..<h}" using sub by auto
  then obtain i where i: "i < h" "nth_id f a = nth_id f i" by auto
  then have "a < h" using f bounds a by (simp add: nth_id_le)
  with inv s show ?thesis by (auto simp: acceptor_inv_def)
qed

lemma net_inv_start:
  assumes "kind_ok f N"
  shows "net_inv new2 f N (stream_start f N)"
proof -
  have l: "f + 4 * word_of_int (int N - 1) = limit f N 0"
    by (simp add: limit_def nth_id_def algebra_simps)
  have "opener_inv f N 0 0 (newOutgoingItemsMap f)" by (simp add: opener_inv_def newOutgoingItemsMap_def nth_id_def)
  moreover have "acceptor_inv new2 f N 0 0 0 (newIncomingItemsMap f (limit f N 0) (int N))"
    by (simp add: acceptor_inv_def newIncomingItemsMap_def nth_id_def)
  ultimately show ?thesis
    unfolding net_inv_def stream_start_def Let_def l
    by (intro exI [of _ "0::nat"]) simp
qed

lemma opener_inv_mono: "opener_inv f N n d om \<Longrightarrow> d \<le> d' \<Longrightarrow> opener_inv f N n d' om"
  unfolding opener_inv_def by (meson order_trans)

lemma net_inv_run:
  assumes kind: "kind_ok f N" and run: "stream_run new1 new2 f N st"
  shows "net_inv new2 f N st"
  using run
proof (induction rule: stream_run.induct)
  case start
  then show ?case by (rule net_inv_start [OF kind])
next
  case (opens st res om fs)
  then obtain n h d a where i: "opener_inv f N n d (opener st)" "acceptor_inv new2 f N h d a (acceptor st)"
    "h \<le> n" "n \<le> 2 ^ 60" "in_use st = nth_id f ` {..<n}" "announced st \<subseteq> limit f N ` {..d}" "limit f N d \<in> announced st"
    "taken st = map (\<lambda>k. new2 (nth_id f k)) [0..<a]" by (auto simp: net_inv_def)
  have d: "d \<le> n" using i(2,3) by (auto simp: acceptor_inv_def)
  note o = opens_ok(1) [OF kind i(1,4) d opens(3,2)]
  have next_id: "out_nextStream (opener st) = nth_id f n" using i(1) by (simp add: opener_inv_def)
  show ?case
  proof (cases "isl res")
    case True
    with i o show ?thesis unfolding net_inv_def by (intro exI [of _ n] exI [of _ h] exI [of _ d] exI [of _ a]) simp
  next
    case False
    with i o next_id show ?thesis unfolding net_inv_def
      by (intro exI [of _ "Suc n"] exI [of _ h] exI [of _ d] exI [of _ a]) (simp add: lessThan_Suc)
  qed
next
  case (grants st sid)
  then obtain n h d a where i: "opener_inv f N n d (opener st)" "acceptor_inv new2 f N h d a (acceptor st)"
    "h \<le> n" "n \<le> 2 ^ 60" "in_use st = nth_id f ` {..<n}" "announced st \<subseteq> limit f N ` {..d}" "limit f N d \<in> announced st"
    "taken st = map (\<lambda>k. new2 (nth_id f k)) [0..<a]" by (auto simp: net_inv_def)
  have d: "d \<le> n" using i(2,3) by (auto simp: acceptor_inv_def)
  have "opener_inv f N n d (SetMaxStream sid (opener st))"
    using grants(2) i by (intro grants_ok [OF kind i(1,4) d]) blast
  with i show ?case unfolding net_inv_def by (intro exI [of _ n] exI [of _ h] exI [of _ d] exI [of _ a]) simp
next
  case (closes st sid e om)
  then obtain n h d a where i: "opener_inv f N n d (opener st)" "acceptor_inv new2 f N h d a (acceptor st)"
    "h \<le> n" "n \<le> 2 ^ 60" "in_use st = nth_id f ` {..<n}" "announced st \<subseteq> limit f N ` {..d}" "limit f N d \<in> announced st"
    "taken st = map (\<lambda>k. new2 (nth_id f k)) [0..<a]" by (auto simp: net_inv_def)
  have "opener_inv f N n d om"
    using closes(2) i(1) by (auto simp: out_DeleteStream_def opener_inv_def split: if_splits)
  with i show ?case unfolding net_inv_def by (intro exI [of _ n] exI [of _ h] exI [of _ d] exI [of _ a]) simp
next
  case (delivers st sid res im)
  then obtain n h d a where i: "opener_inv f N n d (opener st)" "acceptor_inv new2 f N h d a (acceptor st)"
    "h \<le> n" "n \<le> 2 ^ 60" "in_use st = nth_id f ` {..<n}" "announced st \<subseteq> limit f N ` {..d}" "limit f N d \<in> announced st"
    "taken st = map (\<lambda>k. new2 (nth_id f k)) [0..<a]" by (auto simp: net_inv_def)
  obtain k where k: "k < n" "sid = nth_id f k" using delivers(2) i(5) by auto
  from delivers_ok [OF kind i(2,3,4) opener_bound [OF i(1)] k(1)] delivers(3)
  have "acceptor_inv new2 f N (max h (Suc k)) d a im" by (auto simp: k(2))
  with i k(1) show ?case unfolding net_inv_def
    by (intro exI [of _ n] exI [of _ "max h (Suc k)"] exI [of _ d] exI [of _ a]) simp
next
  case (deletes st sid e im fs)
  then obtain n h d a where i: "opener_inv f N n d (opener st)" "acceptor_inv new2 f N h d a (acceptor st)"
    "h \<le> n" "n \<le> 2 ^ 60" "in_use st = nth_id f ` {..<n}" "announced st \<subseteq> limit f N ` {..d}" "limit f N d \<in> announced st"
    "taken st = map (\<lambda>k. new2 (nth_id f k)) [0..<a]" by (auto simp: net_inv_def)
  have "h \<le> N + d" "h \<le> 2 ^ 60" using i(3,4) opener_bound [OF i(1)] by simp_all
  from deletes_ok [OF kind i(2) this deletes(2)] show ?case
  proof
    assume "e \<noteq> None \<and> im = acceptor st \<and> fs = []"
    with i show ?thesis unfolding net_inv_def
      by (intro exI [of _ n] exI [of _ h] exI [of _ d] exI [of _ a]) (simp add: limits_of_def)
  next
    assume "acceptor_inv new2 f N h (Suc d) a im \<and> Suc d \<le> h \<and> limits_of fs = {limit f N (Suc d)}"
    with i opener_inv_mono [OF i(1), of "Suc d"] show ?thesis unfolding net_inv_def
      by (intro exI [of _ n] exI [of _ h] exI [of _ "Suc d"] exI [of _ a]) (auto simp: atMost_Suc)
  qed
next
  case (accepts st s im)
  then obtain n h d a where i: "opener_inv f N n d (opener st)" "acceptor_inv new2 f N h d a (acceptor st)"
    "h \<le> n" "n \<le> 2 ^ 60" "in_use st = nth_id f ` {..<n}" "announced st \<subseteq> limit f N ` {..d}" "limit f N d \<in> announced st"
    "taken st = map (\<lambda>k. new2 (nth_id f k)) [0..<a]" by (auto simp: net_inv_def)
  have "h \<le> 2 ^ 60" using i by simp
  from accepts_ok [OF kind i(2) this accepts(2)] i show ?case unfolding net_inv_def
    by (intro exI [of _ n] exI [of _ h] exI [of _ d] exI [of _ "Suc a"]) simp
qed

subsection \<open>What the peers can rely on\<close>

text \<open>C34: The stream limits fit together: whatever the network does with frames and limits, a frame on a
  stream that the peer opened is never refused, no more than the allowed number of streams is open, and
  \<open>AcceptStream\<close> returns the streams in the order of their identifiers, each once.\<close>

theorem opened_streams_are_accepted:
  assumes "kind_ok f N" "stream_run new1 new2 f N st" "sid \<in> in_use st"
  shows "(\<exists>r im. GetOrOpenStream new2 sid (acceptor st) = Some (Inr r, im))
    \<and> card (dom (in_streams (acceptor st))) \<le> N
    \<and> taken st = map (\<lambda>k. new2 (nth_id f k)) [0..<length (taken st)]"
proof -
  obtain n h d a where i: "opener_inv f N n d (opener st)" "acceptor_inv new2 f N h d a (acceptor st)"
    "h \<le> n" "n \<le> 2 ^ 60" "in_use st = nth_id f ` {..<n}"
    "taken st = map (\<lambda>k. new2 (nth_id f k)) [0..<a]" using net_inv_run [OF assms(1,2)] by (auto simp: net_inv_def)
  obtain k where k: "k < n" "sid = nth_id f k" using assms(3) i(5) by auto
  have "card (dom (in_streams (acceptor st))) + d = h" using i(2) by (simp add: acceptor_inv_def)
  then have "card (dom (in_streams (acceptor st))) \<le> N" using opener_bound [OF i(1)] i(3) by linarith
  with delivers_ok [OF assms(1) i(2,3,4) opener_bound [OF i(1)] k(1)] i(6) k(2) show ?thesis by auto
qed

text \<open>C35: No stream is lost to the limits: when the peer knows the latest limit and its frames have arrived,
  it is only refused a new stream while as many streams as the limit allows are open.\<close>

theorem blocked_only_at_the_limit:
  assumes "kind_ok f N" "stream_run new1 new2 f N st"
    and "out_maxStream (opener st) = in_maxStream (acceptor st)" "\<forall>sid \<in> in_use st. sid \<le> highestStream (acceptor st)"
    and "openStreamImpl new1 (opener st) = (Inl e, om, fs)"
  shows "card (dom (in_streams (acceptor st))) = N"
proof -
  obtain n h d a where i: "opener_inv f N n d (opener st)" "acceptor_inv new2 f N h d a (acceptor st)"
    "h \<le> n" "n \<le> 2 ^ 60" "in_use st = nth_id f ` {..<n}" using net_inv_run [OF assms(1,2)] by (auto simp: net_inv_def)
  note f = kind_okD [OF assms(1)]
  have d: "card (dom (in_streams (acceptor st))) + d = h" and max: "in_maxStream (acceptor st) = limit f N d"
    and high: "highestStream (acceptor st) = (if h = 0 then 0 else nth_id f (h - 1))"
    using i(2) by (auto simp: acceptor_inv_def)
  have "out_nextStream (opener st) > out_maxStream (opener st)"
    using assms(5) i(1) by (auto simp: openStreamImpl_def Let_def opener_inv_def split: if_splits)
  then have "limit f N d < nth_id f n" using i(1) max assms(3) by (simp add: opener_inv_def)
  then have n: "n = N + d" using f i(3,4) d opener_bound [OF i(1)] by (simp add: limit_Suc nth_id_le)
  then have "nth_id f (n - 1) \<in> in_use st" using f i(5) by simp
  then have "nth_id f (n - 1) \<le> highestStream (acceptor st)" using assms(4) by blast
  then have "n \<le> h" using n f i(3,4) high by (cases "h = 0") (auto simp: nth_id_le word_le_nat_alt unat_nth_id)
  then show ?thesis using d i(3) n by simp
qed

lemma two_streams_run:
  fixes N :: nat assumes "0 < N" "N < 2 ^ 60"
  shows "\<exists>st. stream_run (\<lambda>_. ()) (\<lambda>sid. sid) 4 N st \<and> in_use st = {4} \<and> highestStream (acceptor st) = 4
    \<and> out_nextStream (opener st) = 8 \<and> out_closeErr (opener st) = None
    \<and> out_maxStream (opener st) = limit 4 N 0 \<and> in_maxStream (acceptor st) = limit 4 N 0"
proof -
  have kind: "kind_ok 4 N" using assms by (simp add: kind_ok_def)
  let ?l = "limit 4 N 0" and ?new = "\<lambda>_ :: StreamID. ()" and ?id = "\<lambda>sid :: StreamID. sid"
  have l: "4 + 4 * word_of_int (int N - 1) = ?l" by (simp add: limit_def nth_id_def algebra_simps)
  have unat_l: "unat ?l = 4 * N" using assms by (simp add: limit_Suc unat_nth_id diff_mult_distrib2)
  then have big: "\<not> 4 > ?l" "0 < ?l" using assms by (auto simp: word_less_nat_alt)
  let ?s = "stream_start 4 N :: (unit, StreamID) stream_net"
  have start: "announced ?s = {?l}" "opener ?s = newOutgoingItemsMap 4"
    "acceptor ?s = newIncomingItemsMap 4 ?l (int N)" "in_use ?s = {}"
    by (simp_all only: stream_start_def Let_def l stream_net.select_convs)
  let ?s1 = "?s\<lparr>opener := SetMaxStream ?l (opener ?s)\<rparr>"
  have r1: "stream_run ?new ?id 4 N ?s1" by (rule stream_run.grants [OF stream_run.start]) (simp add: start)
  have o1: "opener ?s1 = (newOutgoingItemsMap 4)\<lparr>out_maxStream := ?l\<rparr>" using big
    by (simp add: start SetMaxStream_def newOutgoingItemsMap_def)
  let ?o2 = "(newOutgoingItemsMap 4)\<lparr>out_maxStream := ?l, out_streams := [4 \<mapsto> ()], out_nextStream := 8\<rparr>"
  have o2: "openStreamImpl ?new (opener ?s1) = (Inr (), ?o2, [])"
    using big unfolding o1 by (simp add: openStreamImpl_def newOutgoingItemsMap_def)
  let ?s2 = "?s1\<lparr>opener := ?o2, in_use := insert 4 (in_use ?s1)\<rparr>"
  have r2: "stream_run ?new ?id 4 N ?s2"
    using stream_run.opens [OF r1 o2] by (simp add: o1 newOutgoingItemsMap_def)
  let ?a2 = "acceptor ?s2"
  have "open_streams ?id (nth_id 4 0) (nth_id 4 0) Map.empty
    = Some (\<lambda>sid. if sid \<in> nth_id 4 ` {0..0} then Some sid else None)" by (intro open_streams_upto) simp_all
  then have os: "open_streams ?id 4 4 Map.empty = Some (\<lambda>sid. if sid = 4 then Some sid else None)"
    by (simp add: nth_id_def)
  have g: "GetOrOpenStream ?id 4 ?a2 = Some (Inr (Some 4),
      ?a2\<lparr>in_streams := \<lambda>sid. if sid = 4 then Some sid else None, highestStream := 4\<rparr>)"
    using big os by (simp add: GetOrOpenStream_def start newIncomingItemsMap_def)
  have "4 \<in> in_use ?s2" by simp
  note r3 = stream_run.delivers [OF r2 this g]
  show ?thesis
    by (rule exI, intro conjI, rule r3) (simp_all add: start newOutgoingItemsMap_def newIncomingItemsMap_def)
qed

theorem opened_streams_are_accepted_witness:
  "\<exists>st r im. stream_run (\<lambda>_. ()) (\<lambda>sid. sid) 4 100 st
     \<and> GetOrOpenStream (\<lambda>sid. sid) 4 (acceptor st) = Some (Inr r, im) \<and> card (dom (in_streams (acceptor st))) \<le> 100"
proof -
  obtain st where st: "stream_run (\<lambda>_. ()) (\<lambda>sid. sid) 4 100 st" "in_use st = {4}"
    using two_streams_run [of 100] by auto
  have "kind_ok 4 100" by (simp add: kind_ok_def)
  from opened_streams_are_accepted [OF this st(1), of 4] st show ?thesis by auto
qed

theorem blocked_only_at_the_limit_witness:
  "\<exists>st om fs. stream_run (\<lambda>_. ()) (\<lambda>sid. sid) 4 1 st
     \<and> openStreamImpl (\<lambda>_. ()) (opener st) = (Inl (QErr TooManyOpenStreams), om, fs)
     \<and> card (dom (in_streams (acceptor st))) = 1"
proof -
  obtain st where st: "stream_run (\<lambda>_. ()) (\<lambda>sid. sid) 4 1 st" "in_use st = {4}" "highestStream (acceptor st) = 4"
    "out_nextStream (opener st) = 8" "out_closeErr (opener st) = None"
    "out_maxStream (opener st) = limit 4 1 0" "in_maxStream (acceptor st) = limit 4 1 0"
    using two_streams_run [of 1] by auto
  have "limit 4 1 0 = 4" by (simp add: limit_def nth_id_def)
  with st(4,5,6) have "\<exists>om fs. openStreamImpl (\<lambda>_. ()) (opener st) = (Inl (QErr TooManyOpenStreams), om, fs)"
    by (simp add: openStreamImpl_def)
  then obtain om fs where o: "openStreamImpl (\<lambda>_. ()) (opener st) = (Inl (QErr TooManyOpenStreams), om, fs)" by blast
  have "kind_ok 4 1" by (simp add: kind_ok_def)
  from blocked_only_at_the_limit [OF this st(1) _ _ o] st o show ?thesis by auto
qed

subsection \<open>A stream that ends before it is accepted\<close>

datatype in_op = OpOpen StreamID | OpDelete StreamID | OpAccept

fun in_ops :: "(StreamID \<Rightarrow> 's) \<Rightarrow> in_op list \<Rightarrow> 's incomingItemsMap \<Rightarrow> 's incomingItemsMap option" where
  "in_ops new [] m = Some m"
| "in_ops new (OpOpen sid # ops) m = Option.bind (GetOrOpenStream new sid m) (\<lambda>(_, m'). in_ops new ops m')"
| "in_ops new (OpDelete sid # ops) m = in_ops new ops (fst (snd (in_DeleteStream sid m)))"
| "in_ops new (OpAccept # ops) m = in_ops new ops (snd (in_AcceptStream m))"

lemma open_streams_above:
  assumes "unat sid < 2 ^ 62" "unat k < 2 ^ 63" "open_streams new sid k m = Some m'" "x < k"
  shows "m' x = m x"
  using assms
proof (induction "unat sid + 4 - unat k" arbitrary: k m rule: less_induct)
  case less
  show ?case
  proof (cases "k \<le> sid")
    case False
    with less show ?thesis by (subst (asm) open_streams.simps) simp
  next
    case True
    then have k: "unat k \<le> unat sid" "unat (k + 4) = unat k + 4"
      using less.prems by (simp_all add: word_le_nat_alt unat_add64)
    have next_turn: "open_streams new sid (k + 4) (m(k \<mapsto> new k)) = Some m'"
      using less.prems(3) True by (subst (asm) open_streams.simps) simp
    have "m' x = (m(k \<mapsto> new k)) x"
      using k less.prems(1,4) by (intro less.hyps [OF _ less.prems(1) _ next_turn]) (simp_all add: word_less_nat_alt)
    then show ?thesis using less.prems(4) by auto
  qed
qed

definition stuck :: "'s incomingItemsMap \<Rightarrow> bool" where
  "stuck m \<longleftrightarrow> in_closeErr m = None \<and> in_streams m (in_nextStream m) = None
     \<and> 0 < unat (in_nextStream m) \<and> in_nextStream m \<le> highestStream m \<and> unat (highestStream m) < 2 ^ 62"

lemma stuck_Accept: "stuck m \<Longrightarrow> in_AcceptStream m = (None, m)"
  by (simp add: stuck_def in_AcceptStream_def)

lemma stuck_Delete: "stuck m \<Longrightarrow> stuck (fst (snd (in_DeleteStream sid m)))"
  by (auto simp: stuck_def in_DeleteStream_def Let_def)

lemma stuck_Open:
  assumes "stuck m" "unat sid < 2 ^ 62" "GetOrOpenStream new sid m = Some (r, m')"
  shows "stuck m'"
proof (cases "sid > in_maxStream m \<or> sid \<le> highestStream m")
  case True
  with assms show ?thesis by (auto simp: GetOrOpenStream_def split: if_splits)
next
  case False
  have h: "0 < unat (highestStream m)" using assms(1) by (auto simp: stuck_def word_le_nat_alt)
  have h4: "unat (highestStream m + 4) = unat (highestStream m) + 4"
    using assms(1) by (intro trans [OF unat_add64]) (simp_all add: stuck_def)
  obtain streams where s: "open_streams new sid (highestStream m + 4) (in_streams m) = Some streams"
    "m' = m\<lparr>in_streams := streams, highestStream := sid\<rparr>"
    using assms(3) False h by (auto simp: GetOrOpenStream_def Let_def split: if_splits)
  have "streams (in_nextStream m) = in_streams m (in_nextStream m)"
    using assms(1,2) h4 by (intro open_streams_above [OF _ _ s(1)])
      (auto simp: stuck_def word_less_nat_alt word_le_nat_alt)
  with assms(1,2) False show ?thesis by (auto simp: stuck_def s(2))
qed

text \<open>C36: A stream that ends before it was accepted, as when the peer resets it at once, blocks
  \<open>AcceptStream\<close> for good: whatever streams the peer opens and closes afterwards, none is returned.\<close>

theorem deleted_stream_blocks_accept:
  assumes "in_closeErr m = None" "0 < unat (in_nextStream m)" "in_nextStream m \<le> highestStream m"
    and "unat (highestStream m) < 2 ^ 62"
    and "in_DeleteStream (in_nextStream m) m = (None, m1, fs)"
    and "\<forall>sid. OpOpen sid \<in> set ops \<longrightarrow> unat sid < 2 ^ 62" "in_ops new ops m1 = Some m2"
  shows "in_AcceptStream m2 = (None, m2)"
proof -
  have "stuck m1" using assms(1-5) by (auto simp: stuck_def in_DeleteStream_def Let_def split: if_splits)
  with assms(6,7) have "stuck m2"
  proof (induction ops arbitrary: m1)
    case (Cons x ops)
    show ?case
    proof (cases x)
      case (OpOpen sid)
      with Cons.prems obtain r m' where "GetOrOpenStream new sid m1 = Some (r, m')" "in_ops new ops m' = Some m2"
        by (auto simp: bind_eq_Some_conv)
      note step = this
      have "unat sid < 2 ^ 62" using Cons.prems(1) OpOpen by simp
      then have "stuck m'" using stuck_Open [OF Cons.prems(3) _ step(1)] by simp
      with Cons step(2) show ?thesis by simp
    next
      case OpAccept
      with Cons.prems show ?thesis by (intro Cons.IH) (simp_all add: stuck_Accept)
    qed (use Cons stuck_Delete in auto)
  qed simp
  then show ?thesis by (rule stuck_Accept)
qed

theorem deleted_stream_blocks_accept_witness:
  "\<exists>m2. in_ops (\<lambda>sid. sid) [OpOpen 4, OpDelete 4, OpOpen 8] (newIncomingItemsMap 4 400 100) = Some m2
     \<and> in_AcceptStream m2 = (None, m2) \<and> in_streams m2 8 = Some 8"
proof -
  let ?id = "\<lambda>sid :: StreamID. sid"
  note os = open_streams.simps [of ?id]
  let ?fresh = "newIncomingItemsMap 4 400 100 :: StreamID incomingItemsMap"
  let ?m = "?fresh\<lparr>in_streams := [4 \<mapsto> 4], highestStream := 4\<rparr>"
  let ?m1 = "?fresh\<lparr>in_streams := Map.empty, highestStream := 4, in_maxStream := 404\<rparr>"
  let ?m2 = "?m1\<lparr>in_streams := [8 \<mapsto> 8], highestStream := 8\<rparr>"
  have g: "GetOrOpenStream ?id 4 ?fresh = Some (Inr (Some 4), ?m)"
    by (simp add: GetOrOpenStream_def newIncomingItemsMap_def os)
  have d: "in_DeleteStream 4 ?m = (None, ?m1, [Frame_MaxStreamID \<lparr>msi_StreamID = 404\<rparr>])"
    by (simp add: in_DeleteStream_def newIncomingItemsMap_def Let_def)
  have g2: "GetOrOpenStream ?id 8 ?m1 = Some (Inr (Some 8), ?m2)"
    by (simp add: GetOrOpenStream_def newIncomingItemsMap_def os)
  have blocked: "in_AcceptStream ?m2 = (None, ?m2)"
    using d by (intro deleted_stream_blocks_accept [of ?m ?m1 _ "[OpOpen 8]" ?id])
      (simp_all add: newIncomingItemsMap_def g2 [unfolded newIncomingItemsMap_def, simplified])
  have run: "in_ops ?id [OpOpen 4, OpDelete 4, OpOpen 8] ?fresh = Some ?m2"
    unfolding in_ops.simps g Option.bind.simps prod.case d fst_conv snd_conv g2 ..
  have there: "in_streams ?m2 8 = Some 8" by simp
  show ?thesis by (rule exI [of _ ?m2]) (intro conjI run blocked there)
qed

end
