(* ===== verification/Stream_Framer.thy ===== *)
theory Stream_Framer
  imports Wire_Stream
begin

section \<open>The framer\<close>

text \<open>
  \<^verbatim>\<open>stream_framer.go\<close>: the queue of the streams that have data to send, served in turns. The two
  interfaces it uses, \<open>streamGetter\<close> and the methods of the streams, are arguments over a state \<open>'w\<close> of
  everything behind them: \<open>get id\<close> says whether the stream is there, \<open>pop id n\<close> takes a frame of at most \<open>n\<close> bytes
  off it and says whether there is more, and \<open>popCrypto\<close> does so for the crypto stream.
\<close>

definition MinStreamFrameSize :: ByteCount where "MinStreamFrameSize = 128"

record streamFramer =
  framer_version :: VersionNumber
  activeStreams :: "StreamID set"
  streamQueue :: "StreamID list"
  hasCryptoStreamData :: bool

definition newStreamFramer :: "VersionNumber \<Rightarrow> streamFramer" where
  "newStreamFramer v = \<lparr>framer_version = v, activeStreams = {}, streamQueue = [], hasCryptoStreamData = False\<rparr>"

definition AddActiveStream :: "StreamID \<Rightarrow> streamFramer \<Rightarrow> streamFramer" where
  "AddActiveStream sid f =
     (if sid = CryptoStreamID (framer_version f) then f\<lparr>hasCryptoStreamData := True\<rparr>
      else if sid \<notin> activeStreams f
      then f\<lparr>streamQueue := streamQueue f @ [sid], activeStreams := insert sid (activeStreams f)\<rparr>
      else f)"

type_synonym 'w stream_getter = "StreamID \<Rightarrow> 'w \<Rightarrow> (goerr + bool) \<times> 'w"
type_synonym 'w frame_popper = "StreamID \<Rightarrow> ByteCount \<Rightarrow> 'w \<Rightarrow> goerr + (StreamFrame option \<times> bool) \<times> 'w"

definition PopCryptoStreamFrame ::
  "(ByteCount \<Rightarrow> 'w \<Rightarrow> goerr + (StreamFrame option \<times> bool) \<times> 'w) \<Rightarrow> ByteCount \<Rightarrow> streamFramer \<Rightarrow> 'w
   \<Rightarrow> goerr + StreamFrame option \<times> streamFramer \<times> 'w" where
  "PopCryptoStreamFrame popCrypto maxLen f w =
     ebind (popCrypto maxLen w) (\<lambda>((frame, hasMoreData), w). Inr (frame, f\<lparr>hasCryptoStreamData := hasMoreData\<rparr>, w))"

text \<open>The turn of the first stream of the queue, and the loop over the streams that were queued at the start.\<close>

definition pop_turn ::
  "'w stream_getter \<Rightarrow> 'w frame_popper \<Rightarrow> ByteCount \<Rightarrow> streamFramer \<Rightarrow> 'w
   \<Rightarrow> goerr + StreamFrame option \<times> streamFramer \<times> 'w" where
  "pop_turn get pop maxLen f w =
     (case streamQueue f of
        [] \<Rightarrow> Inl (Panic ''index out of range'')
      | sid # queue \<Rightarrow>
          let f = f\<lparr>streamQueue := queue\<rparr>; (str, w) = get sid w in
          if str \<noteq> Inr True then Inr (None, f\<lparr>activeStreams := activeStreams f - {sid}\<rparr>, w)
          else
            ebind (pop sid maxLen w) (\<lambda>((frame, hasMoreData), w).
              Inr (frame, if hasMoreData then f\<lparr>streamQueue := streamQueue f @ [sid]\<rparr>
                          else f\<lparr>activeStreams := activeStreams f - {sid}\<rparr>, w)))"

fun pop_turns ::
  "'w stream_getter \<Rightarrow> 'w frame_popper \<Rightarrow> nat \<Rightarrow> ByteCount \<Rightarrow> ByteCount \<Rightarrow> streamFramer \<Rightarrow> 'w
   \<Rightarrow> goerr + StreamFrame list \<times> streamFramer \<times> 'w" where
  "pop_turns get pop 0 maxTotalLen currentLen f w = Inr ([], f, w)"
| "pop_turns get pop (Suc n) maxTotalLen currentLen f w =
     (if maxTotalLen - currentLen < MinStreamFrameSize then Inr ([], f, w)
      else ebind (pop_turn get pop (maxTotalLen - currentLen) f w) (\<lambda>(frame, f, w).
             case frame of
               None \<Rightarrow> pop_turns get pop n maxTotalLen currentLen f w
             | Some frame \<Rightarrow>
                 ebind (StreamFrame_Length frame (framer_version f)) (\<lambda>len.
                 ebind (pop_turns get pop n maxTotalLen (currentLen + len) f w) (\<lambda>(frames, f, w).
                   Inr (frame # frames, f, w)))))"

definition PopStreamFrames ::
  "'w stream_getter \<Rightarrow> 'w frame_popper \<Rightarrow> ByteCount \<Rightarrow> streamFramer \<Rightarrow> 'w
   \<Rightarrow> goerr + StreamFrame list \<times> streamFramer \<times> 'w" where
  "PopStreamFrames get pop maxTotalLen f w = pop_turns get pop (length (streamQueue f)) maxTotalLen 0 f w"

subsection \<open>What the framer relies on and what it promises\<close>

text \<open>The contract of the streams: as long as the state behind them is good, a stream gives a well-formed
  frame within the limit, or none.\<close>

locale stream_source =
  fixes get :: "'w stream_getter" and pop :: "'w frame_popper" and good :: "'w \<Rightarrow> bool"
    and v :: VersionNumber and ids :: "StreamID set"
  assumes get_good: "good w \<Longrightarrow> sid \<in> ids \<Longrightarrow> get sid w = (r, w') \<Longrightarrow> good w'"
    and pop_good: "good w \<Longrightarrow> sid \<in> ids \<Longrightarrow> get sid w = (Inr True, w') \<Longrightarrow> unat n \<le> 16384 \<Longrightarrow>
      \<exists>fo more w''. pop sid n w' = Inr ((fo, more), w'') \<and> good w''
        \<and> (\<forall>f. fo = Some f \<longrightarrow> StreamFrame_wf v f \<and> sf_StreamID f = sid \<and> sf_DataLenPresent f
               \<and> (\<exists>l. StreamFrame_Length f v = Inr l \<and> l \<le> n))"

definition framer_ok :: "VersionNumber \<Rightarrow> StreamID set \<Rightarrow> streamFramer \<Rightarrow> bool" where
  "framer_ok v ids f \<longleftrightarrow> framer_version f = v \<and> distinct (streamQueue f) \<and> activeStreams f = set (streamQueue f)
     \<and> set (streamQueue f) \<subseteq> ids"

lemma framer_ok_new: "framer_ok v ids (newStreamFramer v)"
  by (simp add: framer_ok_def newStreamFramer_def)

lemma framer_ok_Add: "framer_ok v ids f \<Longrightarrow> sid \<in> ids \<Longrightarrow> framer_ok v ids (AddActiveStream sid f)"
  by (auto simp: framer_ok_def AddActiveStream_def)

text \<open>The length of a list of frames, and that they lie within a limit.\<close>

fun total_length :: "VersionNumber \<Rightarrow> StreamFrame list \<Rightarrow> nat" where
  "total_length v [] = 0"
| "total_length v (f # fs) = (case StreamFrame_Length f v of Inl _ \<Rightarrow> 0 | Inr l \<Rightarrow> unat l) + total_length v fs"

context stream_source
begin

lemma pop_turn_ok:
  assumes "good w" "framer_ok v ids f" "streamQueue f = sid # queue" "unat n \<le> 16384"
  shows "\<exists>fo f' w'. pop_turn get pop n f w = Inr (fo, f', w') \<and> good w' \<and> framer_ok v ids f'
    \<and> streamQueue f' \<in> {queue, queue @ [sid]}
    \<and> (\<forall>g. fo = Some g \<longrightarrow> StreamFrame_wf v g \<and> sf_StreamID g = sid \<and> sf_DataLenPresent g
           \<and> (\<exists>l. StreamFrame_Length g v = Inr l \<and> l \<le> n))"
proof -
  obtain r w1 where g: "get sid w = (r, w1)" by fastforce
  have sid: "sid \<in> ids" using assms(2,3) by (simp add: framer_ok_def)
  show ?thesis
  proof (cases "r = Inr True")
    case False
    then show ?thesis
      using assms g get_good [OF assms(1) sid g] by (auto simp: pop_turn_def framer_ok_def)
  next
    case True
    with pop_good [OF assms(1) sid g [unfolded True] assms(4)] obtain fo more w2 where
      "pop sid n w1 = Inr ((fo, more), w2)" "good w2"
      "\<forall>f. fo = Some f \<longrightarrow> StreamFrame_wf v f \<and> sf_StreamID f = sid \<and> sf_DataLenPresent f
        \<and> (\<exists>l. StreamFrame_Length f v = Inr l \<and> l \<le> n)" by blast
    then show ?thesis
      using assms g True by (cases more) (auto simp: pop_turn_def framer_ok_def)
  qed
qed

text \<open>The frames fit, and the streams that had their turn are behind those that did not.\<close>

lemma pop_turns_ok:
  assumes "good w" "framer_ok v ids f" "streamQueue f = todo @ behind" "length todo = n"
    and "unat currentLen \<le> unat maxTotalLen" "unat maxTotalLen \<le> 16384"
  shows "\<exists>fs f' w'. pop_turns get pop n maxTotalLen currentLen f w = Inr (fs, f', w') \<and> good w' \<and> framer_ok v ids f'
    \<and> unat currentLen + total_length v fs \<le> unat maxTotalLen
    \<and> (\<exists>served rest kept. todo = served @ rest \<and> streamQueue f' = rest @ behind @ kept \<and> set kept \<subseteq> set served
         \<and> length fs \<le> length served)
    \<and> (\<forall>g \<in> set fs. StreamFrame_wf v g \<and> sf_DataLenPresent g)"
  using assms
proof (induction n arbitrary: todo behind currentLen f w)
  case 0
  then show ?case by auto
next
  case (Suc n)
  from Suc.prems(4) obtain sid todo' where todo: "todo = sid # todo'" by (cases todo) auto
  show ?case
  proof (cases "maxTotalLen - currentLen < MinStreamFrameSize")
    case True
    have "\<exists>served rest kept. todo = served @ rest \<and> todo @ behind = rest @ behind @ kept \<and> set kept \<subseteq> set served
        \<and> (0 :: nat) \<le> length served" by (intro exI [of _ "[]"] exI [of _ todo]) simp
    with Suc.prems True show ?thesis by simp
  next
    case False
    let ?n = "maxTotalLen - currentLen"
    have n: "unat ?n = unat maxTotalLen - unat currentLen" using Suc.prems(5) by (rule unat_sub64)
    with Suc.prems(6) have "unat ?n \<le> 16384" by simp
    from pop_turn_ok [OF Suc.prems(1,2) _ this, of sid "todo' @ behind"] Suc.prems(3) todo
    obtain fo f1 w1 where t: "pop_turn get pop ?n f w = Inr (fo, f1, w1)" "good w1" "framer_ok v ids f1"
      "streamQueue f1 \<in> {todo' @ behind, todo' @ behind @ [sid]}"
      "\<forall>g. fo = Some g \<longrightarrow> StreamFrame_wf v g \<and> sf_StreamID g = sid \<and> sf_DataLenPresent g
        \<and> (\<exists>l. StreamFrame_Length g v = Inr l \<and> l \<le> ?n)" by auto
    obtain rear where rear: "streamQueue f1 = todo' @ behind @ rear" "set rear \<subseteq> {sid}" using t(4) by auto
    have len: "length todo' = n" using Suc.prems(4) todo by simp
    define len1 where "len1 = (case fo of None \<Rightarrow> 0 | Some g \<Rightarrow> (case StreamFrame_Length g v of Inl _ \<Rightarrow> 0 | Inr l \<Rightarrow> l))"
    have l1: "unat len1 \<le> unat maxTotalLen - unat currentLen" "unat (currentLen + len1) = unat currentLen + unat len1"
    proof -
      show "unat len1 \<le> unat maxTotalLen - unat currentLen"
        using t(5) n by (auto simp: len1_def word_le_nat_alt split: option.split)
      then show "unat (currentLen + len1) = unat currentLen + unat len1"
        using Suc.prems(5,6) by (intro unat_add64) simp
    qed
    have "unat (currentLen + len1) \<le> unat maxTotalLen" using l1 Suc.prems(5) by simp
    from Suc.IH [OF t(2,3) _ len this Suc.prems(6), of "behind @ rear"] rear
    obtain fs f' w' served rest kept where r: "pop_turns get pop n maxTotalLen (currentLen + len1) f1 w1 = Inr (fs, f', w')"
      "good w'" "framer_ok v ids f'" "unat (currentLen + len1) + total_length v fs \<le> unat maxTotalLen"
      "todo' = served @ rest" "streamQueue f' = rest @ (behind @ rear) @ kept" "set kept \<subseteq> set served"
      "length fs \<le> length served" "\<forall>g \<in> set fs. StreamFrame_wf v g \<and> sf_DataLenPresent g" by auto
    have fair: "\<exists>served' rest' kept'. todo = served' @ rest' \<and> streamQueue f' = rest' @ behind @ kept'
        \<and> set kept' \<subseteq> set served' \<and> length fs < length served'"
      using r(5-8) rear(2) todo by (intro exI [of _ "sid # served"] exI [of _ rest] exI [of _ "rear @ kept"]) auto
    show ?thesis
    proof (cases fo)
      case None
      then have "pop_turns get pop (Suc n) maxTotalLen currentLen f w = Inr (fs, f', w')"
        using False t(1) r(1) by (simp add: len1_def)
      with r(2-4,9) l1 fair show ?thesis by (auto intro: less_imp_le)
    next
      case (Some g)
      with t(5) obtain l where l: "StreamFrame_wf v g" "sf_DataLenPresent g" "StreamFrame_Length g v = Inr l" by auto
      then have "len1 = l" by (simp add: len1_def Some)
      moreover have "framer_version f1 = v" using t(3) by (simp add: framer_ok_def)
      ultimately have "pop_turns get pop (Suc n) maxTotalLen currentLen f w = Inr (g # fs, f', w')"
        using False t(1) r(1) l by (simp add: Some)
      moreover have "unat currentLen + total_length v (g # fs) \<le> unat maxTotalLen"
        using r(4) l1 l(3) \<open>len1 = l\<close> by simp
      ultimately show ?thesis using r(2,3,9) fair l(1,2) by (auto simp: Suc_le_eq)
    qed
  qed
qed

lemma PopStreamFrames_ok:
  assumes "good w" "framer_ok v ids f" "unat maxTotalLen \<le> 16384"
  shows "\<exists>fs f' w'. PopStreamFrames get pop maxTotalLen f w = Inr (fs, f', w') \<and> good w' \<and> framer_ok v ids f'
    \<and> total_length v fs \<le> unat maxTotalLen
    \<and> (\<exists>served rest kept. streamQueue f = served @ rest \<and> streamQueue f' = rest @ kept \<and> set kept \<subseteq> set served
         \<and> length fs \<le> length served)
    \<and> (\<forall>g \<in> set fs. StreamFrame_wf v g \<and> sf_DataLenPresent g)"
  using pop_turns_ok [OF assms(1,2), of "streamQueue f" "[]" "length (streamQueue f)" 0 maxTotalLen] assms(3)
  by (simp add: PopStreamFrames_def)

end

end
