(* ===== verification/Packet_Numbers.thy ===== *)
theory Packet_Numbers
  imports Protocol
begin

section \<open>The numbers of the packets that are sent\<close>

text \<open>
  \<^verbatim>\<open>packet_number_generator.go\<close>. A packet number is left out now and then, so that a peer that acknowledges
  packets it did not get is found out. The result of \<open>rand.Read\<close> is an argument: two bytes or an error.
\<close>

record packetNumberGenerator =
  averagePeriod :: PacketNumber
  pn_next :: PacketNumber
  nextToSkip :: PacketNumber

definition newPacketNumberGenerator :: "PacketNumber \<Rightarrow> PacketNumber \<Rightarrow> packetNumberGenerator" where
  "newPacketNumberGenerator initial averagePeriod' =
     \<lparr>averagePeriod = averagePeriod', pn_next = initial, nextToSkip = 0\<rparr>"

definition Peek :: "packetNumberGenerator \<Rightarrow> PacketNumber" where
  "Peek p = pn_next p"

definition getRandomNumber :: "goerr + byte \<times> byte \<Rightarrow> goerr + uint16" where
  "getRandomNumber rnd = ebind rnd (\<lambda>(b0, b1). Inr (push_bit 8 (ucast b0) + ucast b1))"

definition generateNewSkip :: "goerr + byte \<times> byte \<Rightarrow> packetNumberGenerator \<Rightarrow> goerr option \<times> packetNumberGenerator" where
  "generateNewSkip rnd p =
     (case getRandomNumber rnd of
        Inl e \<Rightarrow> (Some e, p)
      | Inr num \<Rightarrow>
          let skip = ucast num * (averagePeriod p - 1) div 32767
          in (None, p\<lparr>nextToSkip := pn_next p + 2 + skip\<rparr>))"

definition pn_Pop :: "goerr + byte \<times> byte \<Rightarrow> packetNumberGenerator \<Rightarrow> PacketNumber \<times> packetNumberGenerator" where
  "pn_Pop rnd p =
     (let next = pn_next p; p = p\<lparr>pn_next := next + 1\<rparr>
      in (next, if pn_next p = nextToSkip p then snd (generateNewSkip rnd (p\<lparr>pn_next := pn_next p + 1\<rparr>)) else p))"

fun pops :: "(goerr + byte \<times> byte) list \<Rightarrow> packetNumberGenerator \<Rightarrow> PacketNumber list" where
  "pops [] p = []"
| "pops (rnd # rnds) p = (let (n, p) = pn_Pop rnd p in n # pops rnds p)"

lemma pn_next_Pop:
  "pn_next (snd (pn_Pop rnd p)) = (if pn_next p + 1 = nextToSkip p then pn_next p + 2 else pn_next p + 1)"
  by (auto simp: pn_Pop_def generateNewSkip_def Let_def ac_simps split: sum.split)

text \<open>Two packet numbers in a row are never skipped: after a number was skipped, the next to be skipped is
  at least two further.\<close>

theorem no_two_numbers_skipped:
  assumes "pn_next p + 1 = nextToSkip p" "unat (pn_next p) < 2 ^ 62" "unat (averagePeriod p) < 2 ^ 40" "0 < averagePeriod p"
    and "pn_Pop (Inr (b0, b1)) p = (n, p')"
  shows "n = pn_next p \<and> pn_next p' = n + 2 \<and> unat (nextToSkip p') \<ge> unat (pn_next p') + 2"
proof -
  define num :: uint16 where "num = push_bit 8 (ucast b0) + ucast b1"
  define skip :: uint64 where "skip = ucast num * (averagePeriod p - 1) div 32767"
  have p': "n = pn_next p" "pn_next p' = pn_next p + 2" "nextToSkip p' = pn_next p + 2 + 2 + skip"
    using assms(1,5) by (auto simp: pn_Pop_def generateNewSkip_def getRandomNumber_def Let_def num_def skip_def ac_simps)
  have "unat skip \<le> unat (ucast num * (averagePeriod p - 1) :: uint64) div 32767"
    unfolding skip_def by (simp add: unat_div)
  also have "unat (ucast num * (averagePeriod p - 1) :: uint64) \<le> unat (ucast num :: uint64) * unat (averagePeriod p - 1)"
    by (simp add: unat_word_ariths)
  also have "\<dots> \<le> 2 ^ 16 * 2 ^ 40"
  proof (rule mult_mono)
    show "unat (ucast num :: uint64) \<le> 2 ^ 16"
      using unsigned_less [of num, where 'a = nat] by (simp add: unsigned_ucast_eq unsigned_take_bit_eq take_bit_nat_eq_self)
    show "unat (averagePeriod p - 1) \<le> 2 ^ 40"
      using assms(3,4) by (subst unat_sub64) (simp_all add: word_less_nat_alt)
  qed simp_all
  finally have "unat skip < 2 ^ 56" by (simp add: div_le_mono le_less_trans)
  note small = this assms(2)
  have n2: "unat (pn_next p + 2) = unat (pn_next p) + 2" using small by (intro trans [OF unat_add64]) simp_all
  have n4: "unat (pn_next p + 2 + 2) = unat (pn_next p) + 4" using small n2 by (intro trans [OF unat_add64]) simp_all
  have "unat (pn_next p + 2 + 2 + skip) = unat (pn_next p) + 4 + unat skip"
    using small n4 by (intro trans [OF unat_add64]) simp_all
  then show ?thesis unfolding p' using n2 by simp
qed

text \<open>But the generator of a connection never skips a number: the first number to be skipped is 0, which is
  behind it, and a new one is only drawn when a number is skipped.\<close>

theorem no_number_is_skipped:
  assumes "0 < unat initial" "unat initial + length rnds < 2 ^ 64"
  shows "pops rnds (newPacketNumberGenerator initial period) = map (\<lambda>k. initial + of_nat k) [0..<length rnds]"
proof -
  have "pops rnds p = map (\<lambda>k. pn_next p + of_nat k) [0..<length rnds]"
    if "nextToSkip p = 0" "0 < unat (pn_next p)" "unat (pn_next p) + length rnds < 2 ^ 64" for p
    using that
  proof (induction rnds arbitrary: p)
    case (Cons rnd rnds)
    have n: "unat (pn_next p + 1) = unat (pn_next p) + 1" using Cons.prems by (intro unat_succ) simp
    then have "pn_next p + 1 \<noteq> 0" by (metis add_is_0 one_neq_zero unat_0)
    then have pop: "pn_Pop rnd p = (pn_next p, p\<lparr>pn_next := pn_next p + 1\<rparr>)"
      using Cons.prems(1) by (simp add: pn_Pop_def Let_def)
    have "pops rnds (p\<lparr>pn_next := pn_next p + 1\<rparr>) = map (\<lambda>k. pn_next p + 1 + of_nat k) [0..<length rnds]"
      using Cons.IH [of "p\<lparr>pn_next := pn_next p + 1\<rparr>"] Cons.prems n by simp
    then show ?case by (simp add: pop map_upt_Suc ac_simps del: upt_Suc)
  qed simp
  then show ?thesis using assms by (simp add: newPacketNumberGenerator_def)
qed

theorem no_number_is_skipped_witness:
  "pops (replicate 1000 (Inr (1, 2))) (newPacketNumberGenerator 1 500) = map (\<lambda>k. 1 + of_nat k) [0..<1000]"
  using no_number_is_skipped [of 1 "replicate 1000 (Inr (1, 2))" 500] by simp

end
