(* ===== verification/Packet_Packer.thy ===== *)
theory Packet_Packer
  imports Stream_Framer Packet_Numbers Wire_Header Sent_Packets
begin

section \<open>Packing packets\<close>

text \<open>
  \<^verbatim>\<open>packet_packer.go\<close>. The interfaces are records of their methods: a \<open>sealer\<close> with its overhead, the
  \<open>CryptoSetup\<close> as far as the packer uses it, and the \<open>streamFrameSource\<close>, which is the framer, with the state
  \<open>'w\<close> behind it. \<open>since\<close> is the time since the packets that an ACK frame acknowledges were received, and \<open>rnd\<close>
  the random bytes of the packet number generator. A method returns its result with the state it leaves.
\<close>

record sealer =
  Overhead :: nat
  Seal :: "byte list \<Rightarrow> PacketNumber \<Rightarrow> byte list \<Rightarrow> byte list"

record crypto_setup =
  GetSealer :: "EncryptionLevel \<times> sealer"
  GetSealerForCryptoStream :: "EncryptionLevel \<times> sealer"
  GetSealerWithEncryptionLevel :: "EncryptionLevel \<Rightarrow> goerr + sealer"
  DiversificationNonce :: "byte list"

record 'w frame_source =
  src_get :: "'w stream_getter"
  src_pop :: "'w frame_popper"
  src_popCrypto :: "ByteCount \<Rightarrow> 'w \<Rightarrow> goerr + (StreamFrame option \<times> bool) \<times> 'w"

record packedPacket =
  pp_header :: PacketHeader
  pp_raw :: "byte list"
  pp_frames :: "Frame list"
  pp_encryptionLevel :: EncryptionLevel

record packetPacker =
  packer_connectionID :: ConnectionID
  packer_perspective :: Perspective
  packer_version :: VersionNumber
  packer_generator :: packetNumberGenerator
  controlFrames :: "Frame list"
  packer_stopWaiting :: "StopWaitingFrame option"
  packer_ackFrame :: "AckFrame option"
  leastUnacked :: PacketNumber
  omitConnectionID :: bool
  hasSentPacket :: bool
  numNonRetransmittableAcks :: int

definition SkipPacketAveragePeriodLength :: PacketNumber where "SkipPacketAveragePeriodLength = 500"
definition MinInitialPacketSize :: nat where "MinInitialPacketSize = 1200"
definition MaxNonRetransmittableAcks :: int where "MaxNonRetransmittableAcks = 19"
definition NonForwardSecurePacketSizeReduction :: ByteCount where "NonForwardSecurePacketSizeReduction = 50"

definition newPacketPacker :: "ConnectionID \<Rightarrow> PacketNumber \<Rightarrow> Perspective \<Rightarrow> VersionNumber \<Rightarrow> packetPacker" where
  "newPacketPacker connID initialPacketNumber pers v =
     \<lparr>packer_connectionID = connID, packer_perspective = pers, packer_version = v,
      packer_generator = newPacketNumberGenerator initialPacketNumber SkipPacketAveragePeriodLength,
      controlFrames = [], packer_stopWaiting = None, packer_ackFrame = None, leastUnacked = 0,
      omitConnectionID = False, hasSentPacket = False, numNonRetransmittableAcks = 0\<rparr>"

definition QueueControlFrame :: "Frame \<Rightarrow> packetPacker \<Rightarrow> packetPacker" where
  "QueueControlFrame frame p =
     (case frame of
        Frame_StopWaiting f \<Rightarrow> p\<lparr>packer_stopWaiting := Some f\<rparr>
      | Frame_Ack f \<Rightarrow> p\<lparr>packer_ackFrame := Some f\<rparr>
      | _ \<Rightarrow> p\<lparr>controlFrames := controlFrames p @ [frame]\<rparr>)"

definition SetLeastUnacked :: "PacketNumber \<Rightarrow> packetPacker \<Rightarrow> packetPacker" where
  "SetLeastUnacked n p = p\<lparr>leastUnacked := n\<rparr>"

definition SetOmitConnectionID :: "packetPacker \<Rightarrow> packetPacker" where
  "SetOmitConnectionID p = p\<lparr>omitConnectionID := True\<rparr>"

definition level_ge :: "EncryptionLevel \<Rightarrow> EncryptionLevel \<Rightarrow> bool" where
  "level_ge a b = (b \<le> a)"

definition canSendData :: "EncryptionLevel \<Rightarrow> packetPacker \<Rightarrow> bool" where
  "canSendData encLevel p =
     (if packer_perspective p = PerspectiveClient then level_ge encLevel EncryptionSecure
      else encLevel = EncryptionForwardSecure)"

definition getHeader :: "crypto_setup \<Rightarrow> EncryptionLevel \<Rightarrow> packetPacker \<Rightarrow> PacketHeader" where
  "getHeader cs encLevel p =
     (let pnum = Peek (packer_generator p);
          v = packer_version p;
          client = (packer_perspective p = PerspectiveClient);
          h = empty_header\<lparr>hdr_ConnectionID := packer_connectionID p, hdr_PacketNumber := pnum,
                hdr_PacketNumberLen := GetPacketNumberLengthForHeader pnum (leastUnacked p)\<rparr>;
          h = (if UsesTLS v \<and> encLevel \<noteq> EncryptionForwardSecure
               then h\<lparr>hdr_PacketNumberLen := PacketNumberLen4, hdr_IsLongHeader := True,
                      hdr_Type := (if \<not> hasSentPacket p \<and> client then PacketTypeInitial else PacketTypeHandshake)\<rparr>
               else h);
          h = (if omitConnectionID p \<and> encLevel = EncryptionForwardSecure then h\<lparr>hdr_OmitConnectionID := True\<rparr> else h)
      in if \<not> UsesTLS v then
           (let h = (if \<not> client \<and> encLevel = EncryptionSecure
                     then h\<lparr>hdr_DiversificationNonce := DiversificationNonce cs\<rparr> else h)
            in if client \<and> encLevel \<noteq> EncryptionForwardSecure then h\<lparr>hdr_VersionFlag := True, hdr_Version := v\<rparr> else h)
         else if encLevel \<noteq> EncryptionForwardSecure then h\<lparr>hdr_Version := v\<rparr> else h)"

text \<open>Setting the field \<open>DataLenPresent\<close> of the last frame, if it is a STREAM frame.\<close>

definition set_last_DataLen :: "bool \<Rightarrow> Frame list \<Rightarrow> Frame list" where
  "set_last_DataLen b fs =
     (if fs = [] then [] else
      case last fs of Frame_Stream f \<Rightarrow> butlast fs @ [Frame_Stream (f\<lparr>sf_DataLenPresent := b\<rparr>)] | _ \<Rightarrow> fs)"

definition padding_length :: "PacketHeader \<Rightarrow> sealer \<Rightarrow> nat \<Rightarrow> nat" where
  "padding_length h s len = (if hdr_Type h = PacketTypeInitial then MinInitialPacketSize - Overhead s - len else 0)"

definition writeAndSealPacket ::
  "Duration \<Rightarrow> goerr + byte \<times> byte \<Rightarrow> PacketHeader \<Rightarrow> Frame list \<Rightarrow> sealer \<Rightarrow> packetPacker
   \<Rightarrow> (goerr + byte list \<times> Frame list) \<times> packetPacker" where
  "writeAndSealPacket since rnd h payloadFrames s p =
     (case Header_Write (packer_perspective p) (packer_version p) h of
        Inl e \<Rightarrow> (Inl e, p)
      | Inr header \<Rightarrow>
          if hdr_Type h = PacketTypeInitial \<and> payloadFrames = [] then (Inl (Panic ''index out of range''), p)
          else
            let frames = (if hdr_Type h = PacketTypeInitial then set_last_DataLen True payloadFrames else payloadFrames)
            in case Frames_Write since (packer_version p) frames of
                 Inl e \<Rightarrow> (Inl e, p)
               | Inr bs \<Rightarrow>
                   let payload = bs @ replicate (padding_length h s (length header + length bs)) 0 in
                   if length header + length payload + Overhead s > unat MaxPacketSize
                   then (Inl (GoErr ''PacketPacker BUG: packet too large''), p)
                   else
                     let raw = header @ Seal s payload (hdr_PacketNumber h) header;
                         (num, g) = pn_Pop rnd (packer_generator p);
                         p = p\<lparr>packer_generator := g\<rparr>
                     in if num \<noteq> hdr_PacketNumber h
                        then (Inl (GoErr ''packetPacker BUG: Peeked and Popped packet numbers do not match''), p)
                        else (Inr (raw, frames), p\<lparr>hasSentPacket := True\<rparr>))"

definition seal_frames ::
  "Duration \<Rightarrow> goerr + byte \<times> byte \<Rightarrow> PacketHeader \<Rightarrow> Frame list \<Rightarrow> EncryptionLevel \<times> sealer \<Rightarrow> packetPacker
   \<Rightarrow> (goerr + packedPacket) \<times> packetPacker" where
  "seal_frames since rnd h frames sl p =
     (let (res, p) = writeAndSealPacket since rnd h frames (snd sl) p
      in (ebind res (\<lambda>(raw, frames). Inr \<lparr>pp_header = h, pp_raw = raw, pp_frames = frames, pp_encryptionLevel = fst sl\<rparr>), p))"

definition PackConnectionClose ::
  "crypto_setup \<Rightarrow> Duration \<Rightarrow> goerr + byte \<times> byte \<Rightarrow> ConnectionCloseFrame \<Rightarrow> packetPacker
   \<Rightarrow> (goerr + packedPacket) \<times> packetPacker" where
  "PackConnectionClose cs since rnd ccf p =
     seal_frames since rnd (getHeader cs (fst (GetSealer cs)) p) [Frame_ConnectionClose ccf] (GetSealer cs) p"

definition with_number :: "PacketHeader \<Rightarrow> StopWaitingFrame \<Rightarrow> StopWaitingFrame" where
  "with_number h f = f\<lparr>sw_PacketNumber := hdr_PacketNumber h, sw_PacketNumberLen := hdr_PacketNumberLen h\<rparr>"

definition PackAckPacket ::
  "crypto_setup \<Rightarrow> Duration \<Rightarrow> goerr + byte \<times> byte \<Rightarrow> packetPacker \<Rightarrow> (goerr + packedPacket) \<times> packetPacker" where
  "PackAckPacket cs since rnd p =
     (case packer_ackFrame p of
        None \<Rightarrow> (Inl (GoErr ''packet packer BUG: no ack frame queued''), p)
      | Some ack \<Rightarrow>
          let h = getHeader cs (fst (GetSealer cs)) p;
              frames = Frame_Ack ack #
                (case packer_stopWaiting p of None \<Rightarrow> [] | Some f \<Rightarrow> [Frame_StopWaiting (with_number h f)])
          in seal_frames since rnd h frames (GetSealer cs) (p\<lparr>packer_stopWaiting := None, packer_ackFrame := None\<rparr>))"

subsection \<open>New packets\<close>

text \<open>Control frames are taken from the end of the queue while they fit.\<close>

fun take_control_frames ::
  "VersionNumber \<Rightarrow> ByteCount \<Rightarrow> ByteCount \<Rightarrow> Frame list \<Rightarrow> goerr + Frame list \<times> ByteCount \<times> Frame list" where
  "take_control_frames v maxSize payloadLength [] = Inr ([], payloadLength, [])"
| "take_control_frames v maxSize payloadLength (frame # frames) =
     ebind (Frame_Length frame v) (\<lambda>len.
       if payloadLength + len > maxSize then Inr ([], payloadLength, frame # frames)
       else ebind (take_control_frames v maxSize (payloadLength + len) frames) (\<lambda>(taken, l, rest).
              Inr (frame # taken, l, rest)))"

definition ack_and_stop_waiting :: "packetPacker \<Rightarrow> Frame list" where
  "ack_and_stop_waiting p =
     (case packer_ackFrame p of None \<Rightarrow> [] | Some f \<Rightarrow> [Frame_Ack f]) @
     (case packer_stopWaiting p of None \<Rightarrow> [] | Some f \<Rightarrow> [Frame_StopWaiting f])"

fun total_Length :: "VersionNumber \<Rightarrow> Frame list \<Rightarrow> goerr + ByteCount" where
  "total_Length v [] = Inr 0"
| "total_Length v (f # fs) = ebind (Frame_Length f v) (\<lambda>l. ebind (total_Length v fs) (\<lambda>ls. Inr (l + ls)))"

definition composeNextPacket ::
  "'w frame_source \<Rightarrow> ByteCount \<Rightarrow> bool \<Rightarrow> packetPacker \<Rightarrow> streamFramer \<Rightarrow> 'w
   \<Rightarrow> goerr + Frame list \<times> packetPacker \<times> streamFramer \<times> 'w" where
  "composeNextPacket src maxFrameSize canSendStreamFrames p f w =
     (let v = packer_version p; first = ack_and_stop_waiting p in
      ebind (total_Length v first) (\<lambda>payloadLength.
      ebind (take_control_frames v maxFrameSize payloadLength (rev (controlFrames p))) (\<lambda>(taken, payloadLength, rest).
      let p = p\<lparr>controlFrames := rev rest\<rparr> in
      if payloadLength > maxFrameSize then Inl (GoErr ''Packet Packer BUG: packet payload too large'')
      else if \<not> canSendStreamFrames then Inr (first @ taken, p, f, w)
      else
        let maxFrameSize = maxFrameSize + (if UsesIETFFrameFormat v then 1 else 2) in
        ebind (PopStreamFrames (src_get src) (src_pop src) (maxFrameSize - payloadLength) f w) (\<lambda>(fs, f, w).
        Inr (first @ taken @ set_last_DataLen False (map Frame_Stream fs), p, f, w)))))"

definition packCryptoPacket ::
  "crypto_setup \<Rightarrow> 'w frame_source \<Rightarrow> Duration \<Rightarrow> goerr + byte \<times> byte \<Rightarrow> packetPacker \<Rightarrow> streamFramer \<Rightarrow> 'w
   \<Rightarrow> (goerr + packedPacket option) \<times> packetPacker \<times> streamFramer \<times> 'w" where
  "packCryptoPacket cs src since rnd p f w =
     (let (encLevel, s) = GetSealerForCryptoStream cs; h = getHeader cs encLevel p in
      case Header_GetLength (packer_perspective p) (packer_version p) h of
        Inl e \<Rightarrow> (Inl e, p, f, w)
      | Inr headerLength \<Rightarrow>
          let maxLen = MaxPacketSize - of_nat (Overhead s) - NonForwardSecurePacketSizeReduction - headerLength in
          case PopCryptoStreamFrame (src_popCrypto src) maxLen f w of
            Inl e \<Rightarrow> (Inl e, p, f, w)
          | Inr (None, f, w) \<Rightarrow> (Inl (Panic ''nil pointer dereference''), p, f, w)
          | Inr (Some sf, f, w) \<Rightarrow>
              let (res, p) = seal_frames since rnd h [Frame_Stream (sf\<lparr>sf_DataLenPresent := False\<rparr>)] (encLevel, s) p
              in (map_sum (\<lambda>e. e) Some res, p, f, w))"

text \<open>A packet with nothing but an ACK, every so often, gets a PING.\<close>

definition add_ping :: "bool \<Rightarrow> Frame list \<Rightarrow> packetPacker \<Rightarrow> Frame list \<times> packetPacker" where
  "add_ping stopWaiting frames p =
     (if packer_ackFrame p = None then (frames, p)
      else if length frames = 1 \<or> stopWaiting \<and> length frames = 2 then
        (if numNonRetransmittableAcks p \<ge> MaxNonRetransmittableAcks
         then (frames @ [Frame_Ping], p\<lparr>numNonRetransmittableAcks := 0\<rparr>)
         else (frames, p\<lparr>numNonRetransmittableAcks := numNonRetransmittableAcks p + 1\<rparr>))
      else (frames, p\<lparr>numNonRetransmittableAcks := 0\<rparr>))"

definition PackPacket ::
  "crypto_setup \<Rightarrow> 'w frame_source \<Rightarrow> Duration \<Rightarrow> goerr + byte \<times> byte \<Rightarrow> packetPacker \<Rightarrow> streamFramer \<Rightarrow> 'w
   \<Rightarrow> (goerr + packedPacket option) \<times> packetPacker \<times> streamFramer \<times> 'w" where
  "PackPacket cs src since rnd p f w =
     (if \<not> hasSentPacket p \<and> \<not> hasCryptoStreamData f then (Inr None, p, f, w)
      else if hasCryptoStreamData f then packCryptoPacket cs src since rnd p f w
      else
        let (encLevel, s) = GetSealer cs; h = getHeader cs encLevel p in
        case Header_GetLength (packer_perspective p) (packer_version p) h of
          Inl e \<Rightarrow> (Inl e, p, f, w)
        | Inr headerLength \<Rightarrow>
            let p = p\<lparr>packer_stopWaiting := map_option (with_number h) (packer_stopWaiting p)\<rparr>;
                maxSize = MaxPacketSize - of_nat (Overhead s) - headerLength in
            case composeNextPacket src maxSize (canSendData encLevel p) p f w of
              Inl e \<Rightarrow> (Inl e, p, f, w)
            | Inr (payloadFrames, p, f, w) \<Rightarrow>
                let stopWaiting = (packer_stopWaiting p \<noteq> None) in
                if payloadFrames = [] then (Inr None, p, f, w)
                else if length payloadFrames = 1 \<and> stopWaiting then (Inr None, p, f, w)
                else
                  let (payloadFrames, p) = add_ping stopWaiting payloadFrames p;
                      p = p\<lparr>packer_stopWaiting := None, packer_ackFrame := None\<rparr>;
                      (res, p) = seal_frames since rnd h payloadFrames (encLevel, s) p
                  in (map_sum (\<lambda>e. e) Some res, p, f, w))"

subsection \<open>Retransmissions\<close>

text \<open>A packet of the handshake is packed as it was. \<open>rnd\<close> gives the random bytes for each packet number.\<close>

definition packHandshakeRetransmission ::
  "crypto_setup \<Rightarrow> Duration \<Rightarrow> (PacketNumber \<Rightarrow> goerr + byte \<times> byte) \<Rightarrow> Packet \<Rightarrow> packetPacker
   \<Rightarrow> (goerr + packedPacket) \<times> packetPacker" where
  "packHandshakeRetransmission cs since rnd packet p =
     (case GetSealerWithEncryptionLevel cs (pkt_EncryptionLevel packet) of
        Inl e \<Rightarrow> (Inl e, p)
      | Inr s \<Rightarrow>
          let p = (if pkt_PacketType packet = PacketTypeInitial then p\<lparr>hasSentPacket := False\<rparr> else p);
              h = getHeader cs (pkt_EncryptionLevel packet) p;
              pack = (\<lambda>frames p. seal_frames since (rnd (hdr_PacketNumber h)) h frames (pkt_EncryptionLevel packet, s) p)
          in if UsesStopWaitingFrames (packer_version p) then
               (case packer_stopWaiting p of
                  None \<Rightarrow> (Inl (GoErr ''PacketPacker BUG: Handshake retransmissions must contain a STOP_WAITING frame''), p)
                | Some swf \<Rightarrow> pack (Frame_StopWaiting (with_number h swf) # pkt_Frames packet) (p\<lparr>packer_stopWaiting := None\<rparr>))
             else pack (pkt_Frames packet) p)"

text \<open>The loop over the STREAM frames, which are split when they do not fit; one that does not end is \<open>None\<close>.\<close>

partial_function (option) take_stream_frames ::
  "VersionNumber \<Rightarrow> ByteCount \<Rightarrow> ByteCount \<Rightarrow> StreamFrame list \<Rightarrow> (goerr + StreamFrame list \<times> StreamFrame list) option" where
  "take_stream_frames v maxSize payloadLength fs =
     (if fs = [] \<or> \<not> payloadLength + MinStreamFrameSize < maxSize then Some (Inr ([], fs))
      else
        case MaybeSplitOffFrame (hd fs) (maxSize - payloadLength) v of
          Inl e \<Rightarrow> Some (Inl e)
        | Inr (sf, frame) \<Rightarrow>
            let (frameToAdd, fs) = (case sf of Some sf \<Rightarrow> (sf, frame # tl fs) | None \<Rightarrow> (frame, tl fs)) in
            case StreamFrame_Length frameToAdd v of
              Inl e \<Rightarrow> Some (Inl e)
            | Inr len \<Rightarrow>
                Option.bind (take_stream_frames v maxSize (payloadLength + len) fs) (\<lambda>res.
                  Some (ebind res (\<lambda>(taken, rest). Inr (frameToAdd # taken, rest)))))"

declare take_stream_frames.simps [code]

text \<open>The frames of one packet of a retransmission, with those that are left.\<close>

definition retransmission_frames ::
  "PacketHeader \<Rightarrow> ByteCount \<Rightarrow> packetPacker \<Rightarrow> Frame list \<Rightarrow> StreamFrame list
   \<Rightarrow> (goerr + Frame list \<times> Frame list \<times> StreamFrame list) option" where
  "retransmission_frames h maxSize p control streams =
     (let v = packer_version p;
          swf = (if UsesStopWaitingFrames v then map_option (\<lambda>f. [Frame_StopWaiting (with_number h f)]) (packer_stopWaiting p)
                 else Some [])
      in case swf of
           None \<Rightarrow> Some (Inl (GoErr ''PacketPacker BUG: Handshake retransmissions must contain a STOP_WAITING frame''))
         | Some frames \<Rightarrow>
             case ebind (total_Length v frames) (\<lambda>l. take_control_frames v maxSize l control) of
               Inl e \<Rightarrow> Some (Inl e)
             | Inr (taken, payloadLength, control) \<Rightarrow>
                 Option.bind (take_stream_frames v (maxSize + (if UsesIETFFrameFormat v then 1 else 2)) payloadLength streams) (\<lambda>res.
                   Some (ebind res (\<lambda>(sfs, streams).
                     let frames = frames @ taken @ map Frame_Stream sfs
                     in if frames = [] then Inl (Panic ''index out of range'')
                        else Inr (set_last_DataLen False frames, control, streams)))))"

partial_function (option) retransmission_packets ::
  "crypto_setup \<Rightarrow> Duration \<Rightarrow> (PacketNumber \<Rightarrow> goerr + byte \<times> byte) \<Rightarrow> Frame list \<Rightarrow> StreamFrame list \<Rightarrow> packetPacker
   \<Rightarrow> ((goerr + packedPacket list) \<times> packetPacker) option" where
  "retransmission_packets cs since rnd control streams p =
     (if control = [] \<and> streams = [] then Some (Inr [], p\<lparr>packer_stopWaiting := None\<rparr>)
      else
        let (encLevel, s) = GetSealer cs; h = getHeader cs encLevel p in
        case Header_GetLength (packer_perspective p) (packer_version p) h of
          Inl e \<Rightarrow> Some (Inl e, p)
        | Inr headerLength \<Rightarrow>
            Option.bind (retransmission_frames h (MaxPacketSize - of_nat (Overhead s) - headerLength) p control streams) (\<lambda>res.
              case res of
                Inl e \<Rightarrow> Some (Inl e, p)
              | Inr (frames, control, streams) \<Rightarrow>
                  (case seal_frames since (rnd (hdr_PacketNumber h)) h frames (encLevel, s) p of
                     (Inl e, p) \<Rightarrow> Some (Inl e, p)
                   | (Inr packet, p) \<Rightarrow>
                       Option.bind (retransmission_packets cs since rnd control streams p) (\<lambda>(res, p).
                         Some (ebind res (\<lambda>packets. Inr (packet # packets)), p)))))"

declare retransmission_packets.simps [code]

definition stream_frames :: "Frame list \<Rightarrow> StreamFrame list" where
  "stream_frames fs = concat (map (\<lambda>f. case f of Frame_Stream sf \<Rightarrow> [sf\<lparr>sf_DataLenPresent := True\<rparr>] | _ \<Rightarrow> []) fs)"

definition PackRetransmission ::
  "crypto_setup \<Rightarrow> Duration \<Rightarrow> (PacketNumber \<Rightarrow> goerr + byte \<times> byte) \<Rightarrow> Packet \<Rightarrow> packetPacker
   \<Rightarrow> ((goerr + packedPacket list) \<times> packetPacker) option" where
  "PackRetransmission cs since rnd packet p =
     (if pkt_EncryptionLevel packet \<noteq> EncryptionForwardSecure then
        (let (res, p) = packHandshakeRetransmission cs since rnd packet p in Some (ebind res (\<lambda>pp. Inr [pp]), p))
      else
        retransmission_packets cs since rnd (filter (\<lambda>f. case f of Frame_Stream _ \<Rightarrow> False | _ \<Rightarrow> True) (pkt_Frames packet))
          (stream_frames (pkt_Frames packet)) p)"

end
