(* ===== verification/Stream_Pair.thy ===== *)
theory Stream_Pair
  imports Receive_Stream Streams_Map
begin

section \<open>Bidirectional streams\<close>

text \<open>
  \<^verbatim>\<open>stream.go\<close>: a stream is its two halves, which share a flow controller. Each half reports to a
  \<open>uniStreamSender\<close>, which passes everything on but the end of the half: the session is told that the
  stream ended when both halves did.
\<close>

record stream =
  recv_half :: receiveStream
  send_half :: sendStream
  str_fc :: streamFlowController
  receiveStreamCompleted :: bool
  sendStreamCompleted :: bool
  str_version :: VersionNumber

text \<open>The constructor sets the version of the halves, not the stream's own.\<close>

definition newStream :: "StreamID \<Rightarrow> streamFlowController \<Rightarrow> VersionNumber \<Rightarrow> stream" where
  "newStream sid fc v =
     \<lparr>recv_half = newReceiveStream sid v, send_half = newSendStream sid v, str_fc = fc,
      receiveStreamCompleted = False, sendStreamCompleted = False, str_version = 0\<rparr>"

definition checkIfCompleted :: "stream \<Rightarrow> sender_call list" where
  "checkIfCompleted s =
     (if sendStreamCompleted s \<and> receiveStreamCompleted s then [onStreamCompleted (ss_streamID (send_half s))] else [])"

fun senderForSendStream :: "sender_call list \<Rightarrow> stream \<Rightarrow> stream \<times> sender_call list" where
  "senderForSendStream [] s = (s, [])"
| "senderForSendStream (c # cs) s =
     (let (s, now) = (case c of onStreamCompleted _ \<Rightarrow> let s = s\<lparr>sendStreamCompleted := True\<rparr> in (s, checkIfCompleted s)
                              | _ \<Rightarrow> (s, [c]));
          (s, later) = senderForSendStream cs s
      in (s, now @ later))"

fun senderForReceiveStream :: "sender_call list \<Rightarrow> stream \<Rightarrow> stream \<times> sender_call list" where
  "senderForReceiveStream [] s = (s, [])"
| "senderForReceiveStream (c # cs) s =
     (let (s, now) = (case c of onStreamCompleted _ \<Rightarrow> let s = s\<lparr>receiveStreamCompleted := True\<rparr> in (s, checkIfCompleted s)
                              | _ \<Rightarrow> (s, [c]));
          (s, later) = senderForReceiveStream cs s
      in (s, now @ later))"

definition str_handleStopSendingFrame :: "StopSendingFrame \<Rightarrow> stream \<Rightarrow> stream \<times> sender_call list" where
  "str_handleStopSendingFrame frame s =
     (let (ss, calls) = handleStopSendingFrame frame (send_half s)
      in senderForSendStream calls (s\<lparr>send_half := ss\<rparr>))"

definition str_handleRstStreamFrame ::
  "RstStreamFrame \<Rightarrow> stream \<Rightarrow> connectionFlowController
   \<Rightarrow> goerr option \<times> stream \<times> connectionFlowController \<times> sender_call list" where
  "str_handleRstStreamFrame frame s conn =
     (let (err, rs, fc, conn, calls) = recv_handleRstStreamFrame frame (recv_half s) (str_fc s) conn;
          (s, calls) = senderForReceiveStream calls (s\<lparr>recv_half := rs, str_fc := fc\<rparr>)
      in if err \<noteq> None then (err, s, conn, calls)
         else if \<not> UsesIETFFrameFormat (str_version s) then
           (let (s, more) = str_handleStopSendingFrame
                  \<lparr>ss_StreamID = ss_streamID (send_half s), ss_ErrorCode = rst_ErrorCode frame\<rparr> s
            in (None, s, conn, calls @ more))
         else (None, s, conn, calls))"

definition str_Close :: "stream \<Rightarrow> goerr option \<times> stream \<times> sender_call list" where
  "str_Close s =
     (let (err, ss, calls) = send_Close (send_half s);
          (s, calls) = senderForSendStream calls (s\<lparr>send_half := ss\<rparr>)
      in if err \<noteq> None then (err, s, calls)
         else let (s, more) = senderForReceiveStream (onClose (getWriteOffset (send_half s)) (recv_half s)) s
              in (None, s, calls @ more))"

definition str_SetDeadline :: "int option \<Rightarrow> stream \<Rightarrow> stream" where
  "str_SetDeadline t s = s\<lparr>recv_half := SetReadDeadline t (recv_half s), send_half := SetWriteDeadline t (send_half s)\<rparr>"

definition str_closeForShutdown :: "goerr option \<Rightarrow> stream \<Rightarrow> stream" where
  "str_closeForShutdown err s =
     s\<lparr>send_half := send_closeForShutdown err (send_half s), recv_half := recv_closeForShutdown err (recv_half s)\<rparr>"

text \<open>The methods of the halves that the stream promotes, with what they report.\<close>

definition str_handleStreamFrame ::
  "StreamFrame \<Rightarrow> stream \<Rightarrow> connectionFlowController \<Rightarrow> goerr option \<times> stream \<times> connectionFlowController" where
  "str_handleStreamFrame frame s conn =
     (let (err, rs, fc, conn) = handleStreamFrame frame (recv_half s) (str_fc s) conn
      in (err, s\<lparr>recv_half := rs, str_fc := fc\<rparr>, conn))"

definition str_handleMaxStreamDataFrame :: "MaxStreamDataFrame \<Rightarrow> stream \<Rightarrow> stream \<times> sender_call list" where
  "str_handleMaxStreamDataFrame frame s =
     (let (fc, calls) = handleMaxStreamDataFrame frame (send_half s) (str_fc s)
      in senderForSendStream calls (s\<lparr>str_fc := fc\<rparr>))"

definition str_popStreamFrame ::
  "ByteCount \<Rightarrow> stream \<Rightarrow> connectionFlowController
   \<Rightarrow> goerr + (StreamFrame option \<times> bool) \<times> stream \<times> connectionFlowController \<times> sender_call list" where
  "str_popStreamFrame maxBytes s conn =
     ebind (popStreamFrame maxBytes (send_half s) (str_fc s) conn) (\<lambda>(res, ss, fc, conn, calls).
       let (s, calls) = senderForSendStream calls (s\<lparr>send_half := ss, str_fc := fc\<rparr>) in Inr (res, s, conn, calls))"

definition str_Read_finish ::
  "int \<Rightarrow> nat \<Rightarrow> nat \<Rightarrow> StreamFrame \<Rightarrow> stream \<Rightarrow> connectionFlowController
   \<Rightarrow> read_result \<times> stream \<times> connectionFlowController \<times> sender_call list" where
  "str_Read_finish now n k frame s conn =
     (let (res, rs, fc, conn, calls) = Read_finish now n k frame (recv_half s) (str_fc s) conn;
          (s, calls) = senderForReceiveStream calls (s\<lparr>recv_half := rs, str_fc := fc\<rparr>)
      in (res, s, conn, calls))"

subsection \<open>When a stream ends\<close>

lemma sender_states:
  "fst (senderForReceiveStream calls s)
    = (if \<exists>i. onStreamCompleted i \<in> set calls then s\<lparr>receiveStreamCompleted := True\<rparr> else s)"
  "fst (senderForSendStream calls s)
    = (if \<exists>i. onStreamCompleted i \<in> set calls then s\<lparr>sendStreamCompleted := True\<rparr> else s)"
proof -
  show "fst (senderForReceiveStream calls s)
      = (if \<exists>i. onStreamCompleted i \<in> set calls then s\<lparr>receiveStreamCompleted := True\<rparr> else s)"
  proof (induction calls arbitrary: s)
    case (Cons c cs)
    then show ?case by (cases c) (auto simp: Let_def split_beta)
  qed simp
  show "fst (senderForSendStream calls s)
      = (if \<exists>i. onStreamCompleted i \<in> set calls then s\<lparr>sendStreamCompleted := True\<rparr> else s)"
  proof (induction calls arbitrary: s)
    case (Cons c cs)
    then show ?case by (cases c) (auto simp: Let_def split_beta)
  qed simp
qed

lemma sender_keeps:
  "send_half (fst (senderForReceiveStream calls s)) = send_half s"
  "recv_half (fst (senderForReceiveStream calls s)) = recv_half s"
  "str_fc (fst (senderForReceiveStream calls s)) = str_fc s"
  "str_version (fst (senderForReceiveStream calls s)) = str_version s"
  "sendStreamCompleted (fst (senderForReceiveStream calls s)) = sendStreamCompleted s"
  by (simp_all add: sender_states)

text \<open>The session hears of the end of the stream exactly when the one half ends and the other has ended.\<close>

lemma completed_calls:
  "onStreamCompleted sid \<in> set (snd (senderForReceiveStream calls s))
    \<longleftrightarrow> sid = ss_streamID (send_half s) \<and> sendStreamCompleted s \<and> (\<exists>i. onStreamCompleted i \<in> set calls)"
  "onStreamCompleted sid \<in> set (snd (senderForSendStream calls s))
    \<longleftrightarrow> sid = ss_streamID (send_half s) \<and> receiveStreamCompleted s \<and> (\<exists>i. onStreamCompleted i \<in> set calls)"
proof -
  show "onStreamCompleted sid \<in> set (snd (senderForReceiveStream calls s))
    \<longleftrightarrow> sid = ss_streamID (send_half s) \<and> sendStreamCompleted s \<and> (\<exists>i. onStreamCompleted i \<in> set calls)"
  proof (induction calls arbitrary: s)
    case (Cons c cs)
    then show ?case by (cases c) (auto simp: Let_def split_beta checkIfCompleted_def)
  qed simp
  show "onStreamCompleted sid \<in> set (snd (senderForSendStream calls s))
    \<longleftrightarrow> sid = ss_streamID (send_half s) \<and> receiveStreamCompleted s \<and> (\<exists>i. onStreamCompleted i \<in> set calls)"
  proof (induction calls arbitrary: s)
    case (Cons c cs)
    then show ?case by (cases c) (auto simp: Let_def split_beta checkIfCompleted_def)
  qed simp
qed

text \<open>In gQUIC the reset of a stream by the peer should reset the other direction too. But the version that
  the stream looks at is never set, so the sending half goes on.\<close>

theorem reset_keeps_sending:
  assumes "str_handleRstStreamFrame frame (newStream sid fc Version39) conn = (err, s, conn', calls)"
  shows "send_half s = newSendStream sid Version39 \<and> \<not> sendStreamCompleted s"
proof -
  let ?s = "newStream sid fc Version39"
  obtain e rs fc1 c cs where r: "recv_handleRstStreamFrame frame (recv_half ?s) (str_fc ?s) conn = (e, rs, fc1, c, cs)"
    by (metis surj_pair)
  define s1 where "s1 = fst (senderForReceiveStream cs (?s\<lparr>recv_half := rs, str_fc := fc1\<rparr>))"
  have "UsesIETFFrameFormat (str_version s1)"
    by (simp add: s1_def sender_keeps newStream_def UsesIETFFrameFormat_def version_defs)
  then have "s = s1"
    using assms by (auto simp: str_handleRstStreamFrame_def r s1_def Let_def split: prod.splits if_splits)
  then show ?thesis by (simp add: s1_def sender_keeps newStream_def)
qed

lemma Read_finish_end:
  assumes "sf_FinBit f" "0 \<le> readPosInFrame rs" "k \<le> n" "readPosInFrame rs \<le> int (length (sf_Data f))"
    and "int (length (sf_Data f)) - readPosInFrame rs \<le> int n - int k"
  shows "\<exists>rs' fc' conn' calls i. Read_finish now n k f rs fc conn
    = (ReadReturns (Some EOF), rs', fc', conn', calls @ [onStreamCompleted i])"
proof -
  define m where "m = min (int n - int k) (int (length (sf_Data f)) - readPosInFrame rs)"
  define rs1 where "rs1 = rs\<lparr>readPosInFrame := readPosInFrame rs + m, readOffset := readOffset rs + of_int m\<rparr>"
  have m: "readPosInFrame rs1 \<ge> int (length (sf_Data f))" using assms(5) by (simp add: rs1_def m_def)
  obtain fc1 conn1 where u: "(if \<not> resetRemotely rs1 then stream_AddBytesRead now (of_int m) fc conn else (fc, conn)) = (fc1, conn1)"
    by (metis surj_pair)
  have "\<not> k > n" "\<not> readPosInFrame rs > int (length (sf_Data f))" "\<not> readPosInFrame rs < 0" using assms by simp_all
  then show ?thesis
    unfolding Read_finish_def Let_def m_def [symmetric] rs1_def [symmetric] u prod.case
    using m assms(1) by simp
qed

text \<open>The end of a stream can be reported twice: when the peer's reset arrives while \<open>Read\<close> copies the
  bytes of the last frame, both end the receiving half. The second report makes the session delete a stream that
  is gone, which is an error that closes the connection.\<close>

theorem stream_completed_twice:
  assumes "sendStreamCompleted s" "\<not> rs_closedForShutdown (recv_half s)" "\<not> resetRemotely (recv_half s)"
    and "UpdateHighestReceived (rst_ByteOffset frame) True (str_fc s) conn = (None, fc, conn1)"
    and "UsesIETFFrameFormat (rs_version (recv_half s))" "UsesIETFFrameFormat (str_version s)"
    and "str_handleRstStreamFrame frame s conn = (err, s1, conn2, calls1)"
    and "sf_FinBit f" "0 \<le> readPosInFrame (recv_half s)" "k \<le> n"
      "readPosInFrame (recv_half s) \<le> int (length (sf_Data f))" "int (length (sf_Data f)) - readPosInFrame (recv_half s) \<le> int n - int k"
    and "str_Read_finish now n k f s1 conn2 = (res, s2, conn3, calls2)"
  shows "onStreamCompleted (ss_streamID (send_half s)) \<in> set calls1 \<and> onStreamCompleted (ss_streamID (send_half s)) \<in> set calls2
    \<and> (in_DeleteStream (ss_streamID (send_half s)) m = (None, m1, fs)
        \<longrightarrow> fst (in_DeleteStream (ss_streamID (send_half s)) m1) \<noteq> None)"
proof -
  let ?i = "ss_streamID (send_half s)"
  define rs where "rs = signalRead ((recv_half s)\<lparr>resetRemotely := True,
    resetRemotelyErr := Some (GoErr ''Stream was reset with error code'')\<rparr>)"
  have r: "recv_handleRstStreamFrame frame (recv_half s) (str_fc s) conn
      = (None, rs, fc, conn1, [onStreamCompleted (rs_streamID (recv_half s))])"
    using assms(2-5) by (simp add: recv_handleRstStreamFrame_def rs_def)
  define s0 where "s0 = s\<lparr>recv_half := rs, str_fc := fc\<rparr>"
  have route: "senderForReceiveStream [onStreamCompleted (rs_streamID (recv_half s))] s0
      = (s0\<lparr>receiveStreamCompleted := True\<rparr>, [onStreamCompleted ?i])"
    using assms(1) by (simp add: checkIfCompleted_def s0_def)
  have "str_handleRstStreamFrame frame s conn = (None, s0\<lparr>receiveStreamCompleted := True\<rparr>, conn1, [onStreamCompleted ?i])"
    using assms(6) unfolding str_handleRstStreamFrame_def r Let_def prod.case s0_def [symmetric] route
    by (simp add: s0_def)
  then have s1: "s1 = s0\<lparr>receiveStreamCompleted := True\<rparr>" "calls1 = [onStreamCompleted ?i]" "conn2 = conn1"
    using assms(7) by simp_all
  have "readPosInFrame rs = readPosInFrame (recv_half s)" by (simp add: rs_def signalRead_def)
  then obtain rs2 fc2 c2 cs2 i where fin: "Read_finish now n k f (recv_half s1) (str_fc s1) conn2
      = (ReadReturns (Some EOF), rs2, fc2, c2, cs2 @ [onStreamCompleted i])"
    using Read_finish_end [of f rs k n now fc conn2] assms(8-12) by (auto simp: s1(1) s0_def)
  have "calls2 = snd (senderForReceiveStream (cs2 @ [onStreamCompleted i]) (s1\<lparr>recv_half := rs2, str_fc := fc2\<rparr>))"
    using assms(13) unfolding str_Read_finish_def fin Let_def by (simp add: split_beta)
  then have "onStreamCompleted ?i \<in> set calls2"
    using assms(1) by (simp only: completed_calls) (auto simp: s1(1) s0_def)
  moreover have "fst (in_DeleteStream ?i m1) \<noteq> None" if "in_DeleteStream ?i m = (None, m1, fs)"
    using that by (auto simp: in_DeleteStream_def Let_def split: if_splits)
  ultimately show ?thesis by (simp add: s1)
qed

text \<open>A stream of one byte whose sending half has ended and whose last frame is queued.\<close>

definition one_byte_frame :: StreamFrame where
  "one_byte_frame = \<lparr>sf_StreamID = 4, sf_FinBit = True, sf_DataLenPresent = True, sf_Offset = 0, sf_Data = [0x41]\<rparr>"

definition one_byte_stream :: stream where
  "one_byte_stream =
     \<lparr>recv_half = (newReceiveStream 4 VersionTLS)\<lparr>frameQueue := newStreamFrameSorter\<lparr>queuedFrames := [0 \<mapsto> one_byte_frame]\<rparr>\<rparr>,
      send_half = newSendStream 4 VersionTLS,
      str_fc = (NewStreamFlowController 4 False 100 100 0)\<lparr>highestReceived := 1, receivedFinalOffset := True\<rparr>,
      receiveStreamCompleted = False, sendStreamCompleted = True, str_version = 0\<rparr>"

theorem stream_completed_twice_witness:
  "\<exists>err s1 s2 conn2 conn3 calls1 calls2 res.
     Head (frameQueue (recv_half one_byte_stream)) = Some one_byte_frame
     \<and> str_handleRstStreamFrame \<lparr>rst_StreamID = 4, rst_ErrorCode = 1, rst_ByteOffset = 1\<rparr> one_byte_stream
          (NewConnectionFlowController 100 100) = (err, s1, conn2, calls1)
     \<and> str_Read_finish 0 10 0 one_byte_frame s1 conn2 = (res, s2, conn3, calls2)
     \<and> onStreamCompleted 4 \<in> set calls1 \<and> onStreamCompleted 4 \<in> set calls2"
proof -
  let ?frame = "\<lparr>rst_StreamID = 4, rst_ErrorCode = 1, rst_ByteOffset = 1\<rparr>" and ?conn = "NewConnectionFlowController 100 100"
  obtain err s1 conn2 calls1 where rst: "str_handleRstStreamFrame ?frame one_byte_stream ?conn = (err, s1, conn2, calls1)"
    by (metis surj_pair)
  obtain res s2 conn3 calls2 where fin: "str_Read_finish 0 10 0 one_byte_frame s1 conn2 = (res, s2, conn3, calls2)"
    by (metis surj_pair)
  have u: "UpdateHighestReceived 1 True (str_fc one_byte_stream) ?conn = (None, str_fc one_byte_stream, ?conn)"
    by (simp add: one_byte_stream_def UpdateHighestReceived_def NewStreamFlowController_def Let_def)
  have "onStreamCompleted (ss_streamID (send_half one_byte_stream)) \<in> set calls1
      \<and> onStreamCompleted (ss_streamID (send_half one_byte_stream)) \<in> set calls2"
    using stream_completed_twice [OF _ _ _ _ _ _ rst _ _ _ _ _ fin, where fc = "str_fc one_byte_stream" and ?conn1.0 = ?conn
        and m = "newIncomingItemsMap 4 400 100 :: unit incomingItemsMap" and fs = "[]"
        and ?m1.0 = "newIncomingItemsMap 4 400 100"] u
    by (simp add: one_byte_stream_def one_byte_frame_def newReceiveStream_def UsesIETFFrameFormat_def version_defs)
  then have "onStreamCompleted 4 \<in> set calls1" "onStreamCompleted 4 \<in> set calls2"
    by (simp_all add: one_byte_stream_def newSendStream_def)
  moreover have "Head (frameQueue (recv_half one_byte_stream)) = Some one_byte_frame"
    by (simp add: one_byte_stream_def newStreamFrameSorter_def Head_def)
  ultimately show ?thesis using rst fin by blast
qed

end
