(* ===== verification/Streams_Legacy.thy ===== *)
theory Streams_Legacy
  imports Streams_Map Go_Float
begin

section \<open>The streams of a gQUIC connection\<close>

text \<open>
  \<^verbatim>\<open>streams_map_legacy.go\<close>: one map with the bidirectional streams of both peers. The stream type is a
  parameter; what the map does to all streams, \<open>closeForShutdown\<close> and \<open>handleMaxStreamDataFrame\<close>, are arguments.
  The two parts of \<open>getOrOpenStream\<close>, under the read lock and under the lock, do the same lookup, so it is one step.
\<close>

definition MaxStreamsMinimumIncrement :: uint32 where "MaxStreamsMinimumIncrement = 10"
definition MaxStreamsMultiplier :: rat where "MaxStreamsMultiplier = 11 / 10"

text \<open>Rounding to the 53 significant bits of a \<open>float64\<close>, as \<open>float32\<close> does to 24.\<close>

definition float64 :: "rat \<Rightarrow> rat" where
  "float64 x =
     (if x = 0 then 0
      else let u = 2 powi (binade \<bar>x\<bar> - 52) in of_int (round_even (x / u)) * u)"

definition MaxUint32 :: "uint32 \<Rightarrow> uint32 \<Rightarrow> uint32" where
  "MaxUint32 a b = (if a < b then b else a)"

record 's streamsMapLegacy =
  leg_perspective :: Perspective
  leg_streams :: "StreamID \<rightharpoonup> 's"
  nextStreamToOpen :: StreamID
  highestStreamOpenedByPeer :: StreamID
  leg_closeErr :: "goerr option"
  nextStreamToAccept :: StreamID
  numOutgoingStreams :: uint32
  numIncomingStreams :: uint32
  maxIncomingStreams :: uint32
  maxOutgoingStreams :: uint32

definition newStreamsMapLegacy :: "int \<Rightarrow> Perspective \<Rightarrow> 's streamsMapLegacy" where
  "newStreamsMapLegacy maxStreams pers =
     \<lparr>leg_perspective = pers, leg_streams = Map.empty,
      nextStreamToOpen = (if pers = PerspectiveServer then 2 else 3),
      highestStreamOpenedByPeer = (if pers = PerspectiveServer then 1 else 0),
      leg_closeErr = None,
      nextStreamToAccept = (if pers = PerspectiveServer then 3 else 2),
      numOutgoingStreams = 0, numIncomingStreams = 0,
      maxIncomingStreams = MaxUint32 (word_of_int maxStreams + MaxStreamsMinimumIncrement)
        (word_of_int (trunc (float64 (float64 (of_int maxStreams) * float64 MaxStreamsMultiplier)))),
      maxOutgoingStreams = 0\<rparr>"

definition streamInitiatedBy :: "StreamID \<Rightarrow> Perspective" where
  "streamInitiatedBy sid = (if sid mod 2 = 0 then PerspectiveServer else PerspectiveClient)"

definition putStream :: "StreamID \<Rightarrow> 's \<Rightarrow> 's streamsMapLegacy \<Rightarrow> goerr option \<times> 's streamsMapLegacy" where
  "putStream sid s m =
     (if leg_streams m sid \<noteq> None then (Some (GoErr ''a stream with this ID already exists''), m)
      else (None, m\<lparr>leg_streams := (leg_streams m)(sid \<mapsto> s)\<rparr>))"

definition openRemoteStream ::
  "(StreamID \<Rightarrow> 's) \<Rightarrow> StreamID \<Rightarrow> 's streamsMapLegacy \<Rightarrow> goerr option \<times> 's streamsMapLegacy" where
  "openRemoteStream newStream sid m =
     (if numIncomingStreams m \<ge> maxIncomingStreams m then (Some (QErr TooManyOpenStreams), m)
      else
        let maxStreamIDDelta = ucast (4 * maxIncomingStreams m) :: StreamID in
        if sid + maxStreamIDDelta < highestStreamOpenedByPeer m then (Some (QErr InvalidStreamID), m)
        else
          let m = m\<lparr>numIncomingStreams := numIncomingStreams m + 1,
                    highestStreamOpenedByPeer :=
                      (if sid > highestStreamOpenedByPeer m then sid else highestStreamOpenedByPeer m)\<rparr>
          in putStream sid (newStream sid) m)"

text \<open>The loop that opens the peer's streams up to \<open>sid\<close>; it stops at the first error.\<close>

partial_function (option) open_remote_streams ::
  "(StreamID \<Rightarrow> 's) \<Rightarrow> StreamID \<Rightarrow> StreamID \<Rightarrow> 's streamsMapLegacy \<Rightarrow> (goerr option \<times> 's streamsMapLegacy) option" where
  "open_remote_streams newStream sid i m =
     (if i \<le> sid then
        (case openRemoteStream newStream i m of
           (Some e, m) \<Rightarrow> Some (Some e, m)
         | (None, m) \<Rightarrow> open_remote_streams newStream sid (i + 2) m)
      else Some (None, m))"

declare open_remote_streams.simps [code]

definition getOrOpenStream ::
  "(StreamID \<Rightarrow> 's) \<Rightarrow> StreamID \<Rightarrow> 's streamsMapLegacy \<Rightarrow> ((goerr + 's option) \<times> 's streamsMapLegacy) option" where
  "getOrOpenStream newStream sid m =
     (if leg_streams m sid \<noteq> None then Some (Inr (leg_streams m sid), m)
      else if leg_perspective m = streamInitiatedBy sid then
        (if sid \<le> nextStreamToOpen m then Some (Inr None, m) else Some (Inl (QErr InvalidStreamID), m))
      else if sid \<le> highestStreamOpenedByPeer m then Some (Inr None, m)
      else map_option (\<lambda>(err, m). (case err of Some e \<Rightarrow> Inl e | None \<Rightarrow> Inr (leg_streams m sid), m))
             (open_remote_streams newStream sid (highestStreamOpenedByPeer m + 2) m))"

definition leg_openStreamImpl :: "(StreamID \<Rightarrow> 's) \<Rightarrow> 's streamsMapLegacy \<Rightarrow> (goerr + 's) \<times> 's streamsMapLegacy" where
  "leg_openStreamImpl newStream m =
     (if numOutgoingStreams m \<ge> maxOutgoingStreams m then (Inl (QErr TooManyOpenStreams), m)
      else
        let sid = nextStreamToOpen m; s = newStream sid;
            (err, m) = putStream sid s (m\<lparr>numOutgoingStreams := numOutgoingStreams m + 1, nextStreamToOpen := sid + 2\<rparr>)
        in (case err of Some e \<Rightarrow> Inl e | None \<Rightarrow> Inr s, m))"

definition leg_OpenStream :: "(StreamID \<Rightarrow> 's) \<Rightarrow> 's streamsMapLegacy \<Rightarrow> (goerr + 's) \<times> 's streamsMapLegacy" where
  "leg_OpenStream newStream m =
     (case leg_closeErr m of Some e \<Rightarrow> (Inl e, m) | None \<Rightarrow> leg_openStreamImpl newStream m)"

definition leg_OpenStreamSync :: "(StreamID \<Rightarrow> 's) \<Rightarrow> 's streamsMapLegacy \<Rightarrow> (goerr + 's) option \<times> 's streamsMapLegacy" where
  "leg_OpenStreamSync newStream m =
     (case leg_closeErr m of
        Some e \<Rightarrow> (Some (Inl e), m)
      | None \<Rightarrow> let (res, m) = leg_openStreamImpl newStream m
                in (if res = Inl (QErr TooManyOpenStreams) then None else Some res, m))"

definition leg_AcceptStream :: "'s streamsMapLegacy \<Rightarrow> (goerr + 's) option \<times> 's streamsMapLegacy" where
  "leg_AcceptStream m =
     (case leg_closeErr m of
        Some e \<Rightarrow> (Some (Inl e), m)
      | None \<Rightarrow>
          case leg_streams m (nextStreamToAccept m) of
            None \<Rightarrow> (None, m)
          | Some s \<Rightarrow> (Some (Inr s), m\<lparr>nextStreamToAccept := nextStreamToAccept m + 2\<rparr>))"

definition errMapAccess :: goerr where "errMapAccess = GoErr ''streamsMap: Error accessing the streams map''"

definition leg_DeleteStream :: "StreamID \<Rightarrow> 's streamsMapLegacy \<Rightarrow> goerr option \<times> 's streamsMapLegacy" where
  "leg_DeleteStream sid m =
     (if leg_streams m sid = None then (Some errMapAccess, m)
      else
        let m = m\<lparr>leg_streams := (leg_streams m)(sid := None)\<rparr>
        in (None, if streamInitiatedBy sid = leg_perspective m
                  then m\<lparr>numOutgoingStreams := numOutgoingStreams m - 1\<rparr>
                  else m\<lparr>numIncomingStreams := numIncomingStreams m - 1\<rparr>))"

definition leg_CloseWithError :: "(goerr \<Rightarrow> 's \<Rightarrow> 's) \<Rightarrow> goerr \<Rightarrow> 's streamsMapLegacy \<Rightarrow> 's streamsMapLegacy" where
  "leg_CloseWithError shutdown err m =
     m\<lparr>leg_closeErr := Some err, leg_streams := map_option (shutdown err) \<circ> leg_streams m\<rparr>"

definition leg_UpdateLimits ::
  "(MaxStreamDataFrame \<Rightarrow> 's \<Rightarrow> 's) \<Rightarrow> TransportParameters \<Rightarrow> 's streamsMapLegacy \<Rightarrow> 's streamsMapLegacy" where
  "leg_UpdateLimits update params m =
     m\<lparr>maxOutgoingStreams := MaxStreams params,
       leg_streams := (\<lambda>sid. map_option
          (update \<lparr>msd_StreamID = sid, msd_ByteOffset = StreamFlowControlWindow params\<rparr>) (leg_streams m sid))\<rparr>"

definition countStreams :: "'s streamsMapLegacy \<Rightarrow> uint32" where
  "countStreams m = numIncomingStreams m + numOutgoingStreams m"

subsection \<open>The counters\<close>

text \<open>The streams of either side, and the invariant of the map: the counters count them, their
  identifiers were handed out, and the peer has no more than the maximum open.\<close>

definition own :: "'s streamsMapLegacy \<Rightarrow> StreamID set" where
  "own m = {sid \<in> dom (leg_streams m). streamInitiatedBy sid = leg_perspective m}"

definition theirs :: "'s streamsMapLegacy \<Rightarrow> StreamID set" where
  "theirs m = {sid \<in> dom (leg_streams m). streamInitiatedBy sid \<noteq> leg_perspective m}"

definition leg_inv :: "'s streamsMapLegacy \<Rightarrow> bool" where
  "leg_inv m \<longleftrightarrow>
     finite (dom (leg_streams m)) \<and> unat (numOutgoingStreams m) = card (own m)
     \<and> unat (numIncomingStreams m) = card (theirs m) \<and> numIncomingStreams m \<le> maxIncomingStreams m
     \<and> streamInitiatedBy (nextStreamToOpen m) = leg_perspective m
     \<and> (\<forall>sid \<in> own m. sid < nextStreamToOpen m) \<and> (\<forall>sid \<in> theirs m. sid \<le> highestStreamOpenedByPeer m)"

lemma streamInitiatedBy_add2: "streamInitiatedBy (sid + 2) = streamInitiatedBy sid"
  unfolding streamInitiatedBy_def even_iff_mod_2_eq_zero [symmetric] by simp

lemma putStream_new:
  "leg_streams m sid = None \<Longrightarrow> putStream sid s m = (None, m\<lparr>leg_streams := (leg_streams m)(sid \<mapsto> s)\<rparr>)"
  by (simp add: putStream_def)

lemma openRemoteStream_ok:
  assumes inv: "leg_inv m" and sid: "streamInitiatedBy sid \<noteq> leg_perspective m" "highestStreamOpenedByPeer m < sid"
    and step: "openRemoteStream new sid m = (err, m')"
  shows "leg_inv m' \<and> leg_perspective m' = leg_perspective m \<and> maxIncomingStreams m' = maxIncomingStreams m
    \<and> (err = None \<longrightarrow> highestStreamOpenedByPeer m' = sid)"
proof (cases "err = None")
  case True
  have fresh: "leg_streams m sid = None"
    using inv sid by (auto simp: leg_inv_def theirs_def not_less [symmetric])
  define m1 where "m1 = m\<lparr>numIncomingStreams := numIncomingStreams m + 1, highestStreamOpenedByPeer := sid\<rparr>"
  have room: "numIncomingStreams m < maxIncomingStreams m" and m': "m' = m1\<lparr>leg_streams := (leg_streams m1)(sid \<mapsto> new sid)\<rparr>"
    using step True sid(2) fresh
    by (auto simp: openRemoteStream_def Let_def putStream_def m1_def not_le split: if_splits)
  have own: "own m' = own m" using sid(1) by (auto simp: own_def m' m1_def)
  have theirs: "theirs m' = insert sid (theirs m)" using sid(1) by (auto simp: theirs_def m' m1_def)
  have "finite (theirs m)" using inv by (simp add: leg_inv_def theirs_def)
  moreover have "sid \<notin> theirs m" using fresh by (simp add: theirs_def domIff)
  ultimately have "card (theirs m') = Suc (card (theirs m))" unfolding theirs by simp
  moreover have "unat (numIncomingStreams m + 1) = Suc (unat (numIncomingStreams m))"
  proof -
    have "unat (numIncomingStreams m) + 1 < 2 ^ 32"
      using room unsigned_less [of "maxIncomingStreams m", where 'a = nat] by (simp add: word_less_nat_alt)
    then show ?thesis by (simp add: unat_word_ariths)
  qed
  ultimately have "leg_inv m'"
    using inv room sid(2) own theirs
    by (auto simp: leg_inv_def m' m1_def word_le_nat_alt word_less_nat_alt intro: order_trans less_imp_le)
  then show ?thesis by (simp add: m' m1_def)
next
  case False
  have "leg_streams m sid = None"
    using inv sid by (auto simp: leg_inv_def theirs_def not_less [symmetric])
  then have "m' = m" using False step by (auto simp: openRemoteStream_def Let_def putStream_def split: if_splits)
  with inv False show ?thesis by auto
qed

text \<open>The loop ends, and whatever it opened is counted.\<close>

lemma open_remote_streams_ok:
  assumes "leg_inv m" "streamInitiatedBy i \<noteq> leg_perspective m" "highestStreamOpenedByPeer m < i"
    and "unat sid < 2 ^ 62"
  shows "\<exists>err m'. open_remote_streams new sid i m = Some (err, m') \<and> leg_inv m'"
  using assms
proof (induction "unat sid + 2 - unat i" arbitrary: i m rule: less_induct)
  case less
  show ?case
  proof (cases "i \<le> sid")
    case False
    then show ?thesis using less.prems by (subst open_remote_streams.simps) simp
  next
    case True
    then have i: "unat i \<le> unat sid" "unat (i + 2) = unat i + 2"
      using less.prems by (simp_all add: word_le_nat_alt unat_add64)
    obtain err m1 where s: "openRemoteStream new i m = (err, m1)" by fastforce
    note ok = openRemoteStream_ok [OF less.prems(1-3) s]
    show ?thesis
    proof (cases err)
      case None
      then have "\<exists>err m'. open_remote_streams new sid (i + 2) m1 = Some (err, m') \<and> leg_inv m'"
        using ok i less.prems(2,4)
        by (intro less.hyps) (simp_all add: streamInitiatedBy_add2 word_less_nat_alt)
      then show ?thesis using True s None by (subst open_remote_streams.simps) simp
    qed (use True s ok in \<open>subst open_remote_streams.simps, simp\<close>)
  qed
qed

lemma getOrOpenStream_ok:
  assumes "leg_inv m" "unat sid < 2 ^ 62" "unat (highestStreamOpenedByPeer m) < 2 ^ 62"
    and "streamInitiatedBy (highestStreamOpenedByPeer m) \<noteq> leg_perspective m"
  shows "\<exists>res m'. getOrOpenStream new sid m = Some (res, m') \<and> leg_inv m'"
proof -
  have "unat (highestStreamOpenedByPeer m + 2) = unat (highestStreamOpenedByPeer m) + 2"
    using assms(3) by (intro trans [OF unat_add64]) simp_all
  then have "\<exists>err m'. open_remote_streams new sid (highestStreamOpenedByPeer m + 2) m = Some (err, m') \<and> leg_inv m'"
    using assms by (intro open_remote_streams_ok) (simp_all add: streamInitiatedBy_add2 word_less_nat_alt)
  then show ?thesis using assms(1) by (auto simp: getOrOpenStream_def)
qed

text \<open>A frame for the stream that this side opens next is taken for one on a stream that was closed.\<close>

theorem next_stream_taken_for_closed:
  assumes "leg_inv m"
  shows "getOrOpenStream new (nextStreamToOpen m) m = Some (Inr None, m)"
proof -
  have "leg_streams m (nextStreamToOpen m) = None"
    using assms by (auto simp: leg_inv_def own_def)
  with assms show ?thesis by (simp add: getOrOpenStream_def leg_inv_def)
qed

end
