(* ===== verification/Session_Streams.thy ===== *)
theory Session_Streams
  imports Stream_Pair Streams_Legacy Stream_Framer
begin

section \<open>The streams behind a session\<close>

text \<open>
  The part of \<^verbatim>\<open>session.go\<close> that deals with streams, and \<^verbatim>\<open>window_update_queue.go\<close>. The interface \<open>streamManager\<close>
  is a datatype with the two maps that implement it. A session gives its streams a \<open>streamSender\<close>, itself: what
  a stream reports is carried out by \<open>report\<close>, but for the frames to be queued and the streams that have data,
  which go to the packer and the framer and are collected in \<open>ses_calls\<close>. A loop of a map that does not end
  is the error \<open>no_return\<close>.
\<close>

record uni_send =
  us_stream :: sendStream
  us_fc :: streamFlowController

record uni_recv =
  ur_stream :: receiveStream
  ur_fc :: streamFlowController

datatype streamManager =
    IETF "(stream, uni_send, uni_recv) streamsMap"
  | GQUIC "stream streamsMapLegacy"

record session_streams =
  ses_version :: VersionNumber
  maxReceiveStreamWindow :: ByteCount
  peerStreamWindow :: ByteCount
  ses_map :: streamManager
  ses_cryptoStream :: stream
  ses_conn :: connectionFlowController
  windowUpdates :: "StreamID set"
  ses_calls :: "sender_call list"
  ses_closeErr :: "goerr option"

definition ReceiveStreamFlowControlWindow :: ByteCount where "ReceiveStreamFlowControlWindow = 32768"

definition no_return :: goerr where "no_return = Panic ''does not return''"

definition newFlowController :: "session_streams \<Rightarrow> StreamID \<Rightarrow> streamFlowController" where
  "newFlowController s sid =
     NewStreamFlowController sid (StreamContributesToConnectionFlowControl (ses_version s) sid)
       ReceiveStreamFlowControlWindow (maxReceiveStreamWindow s) (peerStreamWindow s)"

definition newBidi :: "session_streams \<Rightarrow> StreamID \<Rightarrow> stream" where
  "newBidi s sid = newStream sid (newFlowController s sid) (ses_version s)"

definition newUniReceive :: "session_streams \<Rightarrow> StreamID \<Rightarrow> uni_recv" where
  "newUniReceive s sid = \<lparr>ur_stream = newReceiveStream sid (ses_version s), ur_fc = newFlowController s sid\<rparr>"

subsection \<open>Finding a stream and writing it back\<close>

definition getSendStream :: "StreamID \<Rightarrow> session_streams \<Rightarrow> (goerr + (stream + uni_send) option) \<times> session_streams" where
  "getSendStream sid s =
     (case ses_map s of
        IETF m \<Rightarrow> (case GetOrOpenSendStream (newBidi s) sid m of
                     None \<Rightarrow> (Inl no_return, s) | Some (res, m) \<Rightarrow> (res, s\<lparr>ses_map := IETF m\<rparr>))
      | GQUIC m \<Rightarrow> (case getOrOpenStream (newBidi s) sid m of
                     None \<Rightarrow> (Inl no_return, s)
                   | Some (res, m) \<Rightarrow> (map_sum (\<lambda>e. e) (map_option Inl) res, s\<lparr>ses_map := GQUIC m\<rparr>)))"

definition getReceiveStream :: "StreamID \<Rightarrow> session_streams \<Rightarrow> (goerr + (stream + uni_recv) option) \<times> session_streams" where
  "getReceiveStream sid s =
     (case ses_map s of
        IETF m \<Rightarrow> (case GetOrOpenReceiveStream (newBidi s) (newUniReceive s) sid m of
                     None \<Rightarrow> (Inl no_return, s) | Some (res, m) \<Rightarrow> (res, s\<lparr>ses_map := IETF m\<rparr>))
      | GQUIC m \<Rightarrow> (case getOrOpenStream (newBidi s) sid m of
                     None \<Rightarrow> (Inl no_return, s)
                   | Some (res, m) \<Rightarrow> (map_sum (\<lambda>e. e) (map_option Inl) res, s\<lparr>ses_map := GQUIC m\<rparr>)))"

text \<open>The maps hold pointers; a stream that changed is written back where it is, if it still is.\<close>

definition update_at :: "StreamID \<Rightarrow> 's \<Rightarrow> (StreamID \<rightharpoonup> 's) \<Rightarrow> (StreamID \<rightharpoonup> 's)" where
  "update_at sid str m = (if m sid = None then m else m(sid \<mapsto> str))"

definition put_bidi :: "StreamID \<Rightarrow> stream \<Rightarrow> session_streams \<Rightarrow> session_streams" where
  "put_bidi sid str s =
     s\<lparr>ses_map := (case ses_map s of
        IETF m \<Rightarrow> IETF (if getStreamType sid (sm_perspective m) = OutgoingBidi
                        then m\<lparr>outgoingBidiStreams := (outgoingBidiStreams m)
                                 \<lparr>out_streams := update_at sid str (out_streams (outgoingBidiStreams m))\<rparr>\<rparr>
                        else m\<lparr>incomingBidiStreams := (incomingBidiStreams m)
                                 \<lparr>in_streams := update_at sid str (in_streams (incomingBidiStreams m))\<rparr>\<rparr>)
      | GQUIC m \<Rightarrow> GQUIC (m\<lparr>leg_streams := update_at sid str (leg_streams m)\<rparr>))\<rparr>"

definition put_send :: "StreamID \<Rightarrow> uni_send \<Rightarrow> session_streams \<Rightarrow> session_streams" where
  "put_send sid str s =
     s\<lparr>ses_map := (case ses_map s of
        IETF m \<Rightarrow> IETF (m\<lparr>outgoingUniStreams := (outgoingUniStreams m)
                            \<lparr>out_streams := update_at sid str (out_streams (outgoingUniStreams m))\<rparr>\<rparr>)
      | GQUIC m \<Rightarrow> GQUIC m)\<rparr>"

definition put_recv :: "StreamID \<Rightarrow> uni_recv \<Rightarrow> session_streams \<Rightarrow> session_streams" where
  "put_recv sid str s =
     s\<lparr>ses_map := (case ses_map s of
        IETF m \<Rightarrow> IETF (m\<lparr>incomingUniStreams := (incomingUniStreams m)
                            \<lparr>in_streams := update_at sid str (in_streams (incomingUniStreams m))\<rparr>\<rparr>)
      | GQUIC m \<Rightarrow> GQUIC m)\<rparr>"

subsection \<open>What the streams report\<close>

definition ses_onStreamCompleted :: "StreamID \<Rightarrow> session_streams \<Rightarrow> session_streams" where
  "ses_onStreamCompleted sid s =
     (let (err, m, frames) =
        (case ses_map s of
           IETF m \<Rightarrow> (let (err, m, fs) = map_DeleteStream sid m in (err, IETF m, fs))
         | GQUIC m \<Rightarrow> (let (err, m) = leg_DeleteStream sid m in (err, GQUIC m, [])))
      in s\<lparr>ses_map := m, ses_calls := ses_calls s @ map queueControlFrame frames,
           ses_closeErr := (if ses_closeErr s = None then err else ses_closeErr s)\<rparr>)"

definition windowUpdateQueue_Add :: "StreamID \<Rightarrow> session_streams \<Rightarrow> session_streams" where
  "windowUpdateQueue_Add sid s = s\<lparr>windowUpdates := insert sid (windowUpdates s)\<rparr>"

fun report :: "sender_call list \<Rightarrow> session_streams \<Rightarrow> session_streams" where
  "report [] s = s"
| "report (c # cs) s =
     report cs (case c of
         onStreamCompleted sid \<Rightarrow> ses_onStreamCompleted sid s
       | onHasWindowUpdate sid \<Rightarrow> windowUpdateQueue_Add sid s
       | _ \<Rightarrow> s\<lparr>ses_calls := ses_calls s @ [c]\<rparr>)"

subsection \<open>Frames from the peer\<close>

definition ses_handleStreamFrame :: "StreamFrame \<Rightarrow> session_streams \<Rightarrow> goerr option \<times> session_streams" where
  "ses_handleStreamFrame frame s =
     (if sf_StreamID frame = CryptoStreamID (ses_version s) then
        (if sf_FinBit frame then (Some (GoErr ''Received STREAM frame with FIN bit for the crypto stream''), s)
         else let (err, str, conn) = str_handleStreamFrame frame (ses_cryptoStream s) (ses_conn s)
              in (err, s\<lparr>ses_cryptoStream := str, ses_conn := conn\<rparr>))
      else
        case getReceiveStream (sf_StreamID frame) s of
          (Inl e, s) \<Rightarrow> (Some e, s)
        | (Inr None, s) \<Rightarrow> (None, s)
        | (Inr (Some (Inl str)), s) \<Rightarrow>
            let (err, str, conn) = str_handleStreamFrame frame str (ses_conn s)
            in (err, put_bidi (sf_StreamID frame) str (s\<lparr>ses_conn := conn\<rparr>))
        | (Inr (Some (Inr ur)), s) \<Rightarrow>
            let (err, rs, fc, conn) = handleStreamFrame frame (ur_stream ur) (ur_fc ur) (ses_conn s)
            in (err, put_recv (sf_StreamID frame) \<lparr>ur_stream = rs, ur_fc = fc\<rparr> (s\<lparr>ses_conn := conn\<rparr>)))"

definition ses_handleRstStreamFrame :: "RstStreamFrame \<Rightarrow> session_streams \<Rightarrow> goerr option \<times> session_streams" where
  "ses_handleRstStreamFrame frame s =
     (if rst_StreamID frame = CryptoStreamID (ses_version s)
      then (Some (GoErr ''Received RST_STREAM frame for the crypto stream''), s)
      else
        case getReceiveStream (rst_StreamID frame) s of
          (Inl e, s) \<Rightarrow> (Some e, s)
        | (Inr None, s) \<Rightarrow> (None, s)
        | (Inr (Some (Inl str)), s) \<Rightarrow>
            let (err, str, conn, calls) = str_handleRstStreamFrame frame str (ses_conn s)
            in (err, report calls (put_bidi (rst_StreamID frame) str (s\<lparr>ses_conn := conn\<rparr>)))
        | (Inr (Some (Inr ur)), s) \<Rightarrow>
            let (err, rs, fc, conn, calls) = recv_handleRstStreamFrame frame (ur_stream ur) (ur_fc ur) (ses_conn s)
            in (err, report calls (put_recv (rst_StreamID frame) \<lparr>ur_stream = rs, ur_fc = fc\<rparr> (s\<lparr>ses_conn := conn\<rparr>))))"

definition ses_handleMaxStreamDataFrame :: "MaxStreamDataFrame \<Rightarrow> session_streams \<Rightarrow> goerr option \<times> session_streams" where
  "ses_handleMaxStreamDataFrame frame s =
     (if msd_StreamID frame = CryptoStreamID (ses_version s) then
        (let (str, calls) = str_handleMaxStreamDataFrame frame (ses_cryptoStream s)
         in (None, report calls (s\<lparr>ses_cryptoStream := str\<rparr>)))
      else
        case getSendStream (msd_StreamID frame) s of
          (Inl e, s) \<Rightarrow> (Some e, s)
        | (Inr None, s) \<Rightarrow> (None, s)
        | (Inr (Some (Inl str)), s) \<Rightarrow>
            let (str, calls) = str_handleMaxStreamDataFrame frame str
            in (None, report calls (put_bidi (msd_StreamID frame) str s))
        | (Inr (Some (Inr us)), s) \<Rightarrow>
            let (fc, calls) = handleMaxStreamDataFrame frame (us_stream us) (us_fc us)
            in (None, report calls (put_send (msd_StreamID frame) (us\<lparr>us_fc := fc\<rparr>) s)))"

definition ses_handleStopSendingFrame :: "StopSendingFrame \<Rightarrow> session_streams \<Rightarrow> goerr option \<times> session_streams" where
  "ses_handleStopSendingFrame frame s =
     (if ss_StreamID frame = CryptoStreamID (ses_version s)
      then (Some (GoErr ''Received a STOP_SENDING frame for the crypto stream''), s)
      else
        case getSendStream (ss_StreamID frame) s of
          (Inl e, s) \<Rightarrow> (Some e, s)
        | (Inr None, s) \<Rightarrow> (None, s)
        | (Inr (Some (Inl str)), s) \<Rightarrow>
            let (str, calls) = str_handleStopSendingFrame frame str
            in (None, report calls (put_bidi (ss_StreamID frame) str s))
        | (Inr (Some (Inr us)), s) \<Rightarrow>
            let (ss, calls) = handleStopSendingFrame frame (us_stream us)
            in (None, report calls (put_send (ss_StreamID frame) (us\<lparr>us_stream := ss\<rparr>) s)))"

definition ses_handleMaxStreamIDFrame :: "MaxStreamIDFrame \<Rightarrow> session_streams \<Rightarrow> goerr option \<times> session_streams" where
  "ses_handleMaxStreamIDFrame frame s =
     (case ses_map s of
        IETF m \<Rightarrow> (let (err, m) = HandleMaxStreamIDFrame frame m in (err, s\<lparr>ses_map := IETF m\<rparr>))
      | GQUIC m \<Rightarrow> (Some (GoErr ''gQUIC doesn't have MAX_STREAM_ID frames''), s))"

definition ses_handleMaxDataFrame :: "MaxDataFrame \<Rightarrow> session_streams \<Rightarrow> session_streams" where
  "ses_handleMaxDataFrame frame s = s\<lparr>ses_conn := UpdateSendWindow (md_ByteOffset frame) (ses_conn s)\<rparr>"

subsection \<open>Data for the peer\<close>

text \<open>The interfaces of the framer, on the streams of the session.\<close>

definition ses_get :: "session_streams stream_getter" where
  "ses_get sid s = (let (res, s) = getSendStream sid s in (map_sum (\<lambda>e. e) (\<lambda>str. str \<noteq> None) res, s))"

definition ses_pop :: "session_streams frame_popper" where
  "ses_pop sid n s =
     (case getSendStream sid s of
        (Inr (Some (Inl str)), s) \<Rightarrow>
          ebind (str_popStreamFrame n str (ses_conn s)) (\<lambda>(res, str, conn, calls).
            Inr (res, report calls (put_bidi sid str (s\<lparr>ses_conn := conn\<rparr>))))
      | (Inr (Some (Inr us)), s) \<Rightarrow>
          ebind (popStreamFrame n (us_stream us) (us_fc us) (ses_conn s)) (\<lambda>(res, ss, fc, conn, calls).
            Inr (res, report calls (put_send sid \<lparr>us_stream = ss, us_fc = fc\<rparr> (s\<lparr>ses_conn := conn\<rparr>))))
      | _ \<Rightarrow> Inl (Panic ''nil pointer dereference''))"

definition ses_popCrypto :: "ByteCount \<Rightarrow> session_streams \<Rightarrow> goerr + (StreamFrame option \<times> bool) \<times> session_streams" where
  "ses_popCrypto n s =
     ebind (str_popStreamFrame n (ses_cryptoStream s) (ses_conn s)) (\<lambda>(res, str, conn, calls).
       Inr (res, report calls (s\<lparr>ses_cryptoStream := str, ses_conn := conn\<rparr>)))"

subsection \<open>Window updates\<close>

text \<open>\<open>QueueAll\<close> goes over the set of streams in an order that is an argument. The streams that are gone, and
  those without an update, stay in the set.\<close>

definition window_update_of ::
  "(ByteCount \<Rightarrow> ByteCount \<Rightarrow> int \<Rightarrow> int) \<Rightarrow> int \<Rightarrow> int \<Rightarrow> StreamID \<Rightarrow> session_streams \<Rightarrow> ByteCount \<times> session_streams" where
  "window_update_of epoch now rtt sid s =
     (if sid = CryptoStreamID (ses_version s) then
        (let str = ses_cryptoStream s; (offset, fc, conn) = GetWindowUpdate epoch now rtt (str_fc str) (ses_conn s)
         in (offset, s\<lparr>ses_cryptoStream := str\<lparr>str_fc := fc\<rparr>, ses_conn := conn\<rparr>))
      else
        case getReceiveStream sid s of
          (Inr (Some (Inl str)), s) \<Rightarrow>
            let (offset, fc, conn) = GetWindowUpdate epoch now rtt (str_fc str) (ses_conn s)
            in (offset, put_bidi sid (str\<lparr>str_fc := fc\<rparr>) (s\<lparr>ses_conn := conn\<rparr>))
        | (Inr (Some (Inr ur)), s) \<Rightarrow>
            let (offset, fc, conn) = GetWindowUpdate epoch now rtt (ur_fc ur) (ses_conn s)
            in (offset, put_recv sid (ur\<lparr>ur_fc := fc\<rparr>) (s\<lparr>ses_conn := conn\<rparr>))
        | (_, s) \<Rightarrow> (0, s))"

fun QueueAll ::
  "(ByteCount \<Rightarrow> ByteCount \<Rightarrow> int \<Rightarrow> int) \<Rightarrow> int \<Rightarrow> int \<Rightarrow> StreamID list \<Rightarrow> session_streams \<Rightarrow> Frame list \<times> session_streams" where
  "QueueAll epoch now rtt [] s = ([], s)"
| "QueueAll epoch now rtt (sid # sids) s =
     (let (offset, s) = window_update_of epoch now rtt sid s
      in if offset = 0 then QueueAll epoch now rtt sids s
         else let (fs, s) = QueueAll epoch now rtt sids (s\<lparr>windowUpdates := windowUpdates s - {sid}\<rparr>)
              in (Frame_MaxStreamData \<lparr>msd_StreamID = sid, msd_ByteOffset = offset\<rparr> # fs, s))"

subsection \<open>The application\<close>

text \<open>What a map queues goes to the packer.\<close>

definition ses_OpenStream :: "session_streams \<Rightarrow> (goerr + stream) \<times> session_streams" where
  "ses_OpenStream s =
     (case ses_map s of
        IETF m \<Rightarrow> (let (res, m, fs) = map_OpenStream (newBidi s) m
                   in (res, s\<lparr>ses_map := IETF m, ses_calls := ses_calls s @ map queueControlFrame fs\<rparr>))
      | GQUIC m \<Rightarrow> (let (res, m) = leg_OpenStream (newBidi s) m in (res, s\<lparr>ses_map := GQUIC m\<rparr>)))"

definition newUniSend :: "session_streams \<Rightarrow> StreamID \<Rightarrow> uni_send" where
  "newUniSend s sid = \<lparr>us_stream = newSendStream sid (ses_version s), us_fc = newFlowController s sid\<rparr>"

definition ses_OpenUniStream :: "session_streams \<Rightarrow> (goerr + uni_send) \<times> session_streams" where
  "ses_OpenUniStream s =
     (case ses_map s of
        IETF m \<Rightarrow> (let (res, m, fs) = map_OpenUniStream (newUniSend s) m
                   in (res, s\<lparr>ses_map := IETF m, ses_calls := ses_calls s @ map queueControlFrame fs\<rparr>))
      | GQUIC m \<Rightarrow> (Inl (GoErr ''gQUIC doesn't support unidirectional streams''), s))"

definition ses_AcceptStream :: "session_streams \<Rightarrow> (goerr + stream) option \<times> session_streams" where
  "ses_AcceptStream s =
     (case ses_map s of
        IETF m \<Rightarrow> (let (res, m) = map_AcceptStream m in (res, s\<lparr>ses_map := IETF m\<rparr>))
      | GQUIC m \<Rightarrow> (let (res, m) = leg_AcceptStream m in (res, s\<lparr>ses_map := GQUIC m\<rparr>)))"

definition ses_AcceptUniStream :: "session_streams \<Rightarrow> (goerr + uni_recv) option \<times> session_streams" where
  "ses_AcceptUniStream s =
     (case ses_map s of
        IETF m \<Rightarrow> (let (res, m) = map_AcceptUniStream m in (res, s\<lparr>ses_map := IETF m\<rparr>))
      | GQUIC m \<Rightarrow> (Some (Inl (GoErr ''gQUIC doesn't support unidirectional streams'')), s))"

text \<open>The limits of the peer, when they arrive, and the end of all streams. \<open>order\<close> is the order in which the loop over the
  streams of gQUIC meets them.\<close>

definition ses_UpdateLimits :: "StreamID list \<Rightarrow> TransportParameters \<Rightarrow> session_streams \<Rightarrow> session_streams" where
  "ses_UpdateLimits order params s =
     (let frame = (\<lambda>sid. \<lparr>msd_StreamID = sid, msd_ByteOffset = StreamFlowControlWindow params\<rparr>);
          (m, calls) = (case ses_map s of
            IETF m \<Rightarrow> (IETF (UpdateLimits params m), [])
          | GQUIC m \<Rightarrow> (GQUIC (leg_UpdateLimits (\<lambda>f b. fst (str_handleMaxStreamDataFrame f b)) params m),
                        concat (map (\<lambda>sid. case leg_streams m sid of None \<Rightarrow> []
                                            | Some b \<Rightarrow> snd (str_handleMaxStreamDataFrame (frame sid) b)) order)))
      in (report calls (s\<lparr>peerStreamWindow := StreamFlowControlWindow params, ses_map := m\<rparr>))
           \<lparr>ses_conn := UpdateSendWindow (ConnectionFlowControlWindow params) (ses_conn s)\<rparr>)"

definition ses_CloseWithError :: "goerr \<Rightarrow> session_streams \<Rightarrow> session_streams" where
  "ses_CloseWithError err s =
     s\<lparr>ses_cryptoStream := str_closeForShutdown (Some err) (ses_cryptoStream s),
       ses_map := (case ses_map s of
          IETF m \<Rightarrow> IETF (map_CloseWithError err m)
        | GQUIC m \<Rightarrow> GQUIC (leg_CloseWithError (\<lambda>e. str_closeForShutdown (Some e)) err m))\<rparr>"

text \<open>The application holds the streams it opened or accepted and calls their methods: here on a stream that is still in its
  map. What a method of one half reports goes through the \<open>uniStreamSender\<close> of that half, or, for a unidirectional stream,
  to the session itself. \<open>Read\<close> and \<open>Write\<close> are the steps they are cut into.\<close>

definition find_bidi :: "StreamID \<Rightarrow> session_streams \<Rightarrow> stream option" where
  "find_bidi sid s =
     (case ses_map s of
        IETF m \<Rightarrow> (case getStreamType sid (sm_perspective m) of
                     OutgoingBidi \<Rightarrow> out_streams (outgoingBidiStreams m) sid
                   | IncomingBidi \<Rightarrow> in_streams (incomingBidiStreams m) sid
                   | _ \<Rightarrow> None)
      | GQUIC m \<Rightarrow> leg_streams m sid)"

definition find_uni_send :: "StreamID \<Rightarrow> session_streams \<Rightarrow> uni_send option" where
  "find_uni_send sid s = (case ses_map s of IETF m \<Rightarrow> out_streams (outgoingUniStreams m) sid | GQUIC m \<Rightarrow> None)"

definition find_uni_recv :: "StreamID \<Rightarrow> session_streams \<Rightarrow> uni_recv option" where
  "find_uni_recv sid s = (case ses_map s of IETF m \<Rightarrow> in_streams (incomingUniStreams m) sid | GQUIC m \<Rightarrow> None)"

definition find_sender :: "StreamID \<Rightarrow> session_streams \<Rightarrow> sendStream option" where
  "find_sender sid s =
     (case find_bidi sid s of Some b \<Rightarrow> Some (send_half b) | None \<Rightarrow> map_option us_stream (find_uni_send sid s))"

definition on_send ::
  "(sendStream \<Rightarrow> sendStream \<times> sender_call list) \<Rightarrow> StreamID \<Rightarrow> session_streams \<Rightarrow> session_streams" where
  "on_send meth sid s =
     (case find_bidi sid s of
        Some b \<Rightarrow> let (ss, calls) = meth (send_half b); (b, calls) = senderForSendStream calls (b\<lparr>send_half := ss\<rparr>)
                  in report calls (put_bidi sid b s)
      | None \<Rightarrow>
          case find_uni_send sid s of
            Some us \<Rightarrow> let (ss, calls) = meth (us_stream us) in report calls (put_send sid (us\<lparr>us_stream := ss\<rparr>) s)
          | None \<Rightarrow> s)"

definition on_recv ::
  "(receiveStream \<Rightarrow> streamFlowController \<Rightarrow> connectionFlowController
      \<Rightarrow> receiveStream \<times> streamFlowController \<times> connectionFlowController \<times> sender_call list)
   \<Rightarrow> StreamID \<Rightarrow> session_streams \<Rightarrow> session_streams" where
  "on_recv meth sid s =
     (case find_bidi sid s of
        Some b \<Rightarrow> let (rs, fc, conn, calls) = meth (recv_half b) (str_fc b) (ses_conn s);
                      (b, calls) = senderForReceiveStream calls (b\<lparr>recv_half := rs, str_fc := fc\<rparr>)
                  in report calls (put_bidi sid b (s\<lparr>ses_conn := conn\<rparr>))
      | None \<Rightarrow>
          case find_uni_recv sid s of
            Some ur \<Rightarrow> let (rs, fc, conn, calls) = meth (ur_stream ur) (ur_fc ur) (ses_conn s)
                       in report calls (put_recv sid \<lparr>ur_stream = rs, ur_fc = fc\<rparr> (s\<lparr>ses_conn := conn\<rparr>))
          | None \<Rightarrow> s)"

definition app_Write :: "int \<Rightarrow> byte list \<Rightarrow> StreamID \<Rightarrow> session_streams \<Rightarrow> session_streams" where
  "app_Write now p = on_send (\<lambda>ss. snd (Write_begin now p ss))"

definition app_Write_wake :: "int \<Rightarrow> nat \<Rightarrow> StreamID \<Rightarrow> session_streams \<Rightarrow> session_streams" where
  "app_Write_wake now n = on_send (\<lambda>ss. (case Write_wake now n ss of None \<Rightarrow> ss | Some (_, ss') \<Rightarrow> ss', []))"

definition app_CancelWrite :: "ApplicationErrorCode \<Rightarrow> StreamID \<Rightarrow> session_streams \<Rightarrow> session_streams" where
  "app_CancelWrite code = on_send (\<lambda>ss. snd (CancelWrite code ss))"

definition app_SetWriteDeadline :: "int option \<Rightarrow> StreamID \<Rightarrow> session_streams \<Rightarrow> session_streams" where
  "app_SetWriteDeadline t = on_send (\<lambda>ss. (SetWriteDeadline t ss, []))"

definition app_Close :: "StreamID \<Rightarrow> session_streams \<Rightarrow> session_streams" where
  "app_Close sid s =
     (case find_bidi sid s of
        Some b \<Rightarrow> let (_, b, calls) = str_Close b in report calls (put_bidi sid b s)
      | None \<Rightarrow> on_send (\<lambda>ss. snd (send_Close ss)) sid s)"

definition app_Read_begin :: "int \<Rightarrow> nat \<Rightarrow> StreamID \<Rightarrow> session_streams \<Rightarrow> session_streams" where
  "app_Read_begin now n = on_recv (\<lambda>rs fc conn. (snd (Read_begin now n rs), fc, conn, []))"

definition app_Read_wake :: "int \<Rightarrow> StreamID \<Rightarrow> session_streams \<Rightarrow> session_streams" where
  "app_Read_wake now =
     on_recv (\<lambda>rs fc conn. (case Read_wake now rs of None \<Rightarrow> rs | Some (_, rs') \<Rightarrow> rs', fc, conn, []))"

definition app_Read_finish :: "int \<Rightarrow> nat \<Rightarrow> nat \<Rightarrow> StreamFrame \<Rightarrow> StreamID \<Rightarrow> session_streams \<Rightarrow> session_streams" where
  "app_Read_finish now n k frame = on_recv (\<lambda>rs fc conn. snd (Read_finish now n k frame rs fc conn))"

definition app_CancelRead :: "ApplicationErrorCode \<Rightarrow> StreamID \<Rightarrow> session_streams \<Rightarrow> session_streams" where
  "app_CancelRead code = on_recv (\<lambda>rs fc conn. let (rs, calls) = CancelRead code rs in (rs, fc, conn, calls))"

definition app_SetReadDeadline :: "int option \<Rightarrow> StreamID \<Rightarrow> session_streams \<Rightarrow> session_streams" where
  "app_SetReadDeadline t = on_recv (\<lambda>rs fc conn. (SetReadDeadline t rs, fc, conn, []))"

end
