(* ===== verification/Session_Frames.thy ===== *)
theory Session_Frames
  imports Session_Streams Send_Runs
begin

section \<open>What the streams of a session keep to\<close>

text \<open>
  The type invariant of the streams of a session: every sending half lies in the map under its own identifier, has
  the version of the session, and its data ends within the offsets that a frame can carry. All that a
  session does with its streams keeps it, and it is what the framer relies on: the session is an instance of
  \<open>stream_source\<close>.
\<close>

subsection \<open>One sending half\<close>

definition id_ok :: "VersionNumber \<Rightarrow> StreamID \<Rightarrow> bool" where
  "id_ok v sid \<longleftrightarrow> (if UsesIETFFrameFormat v then sid \<le> maxVarInt8 else sid < shl 1 32)"

definition send_ok :: "VersionNumber \<Rightarrow> StreamID \<Rightarrow> sendStream \<Rightarrow> bool" where
  "send_ok v sid s \<longleftrightarrow> ss_streamID s = sid \<and> ss_version s = v \<and> id_ok v sid \<and> dataForWriting s \<noteq> Some []
     \<and> unat (writeOffset s) + length (pending s) < 2 ^ 62"

lemma id_ok_less: "id_ok v sid \<Longrightarrow> k \<le> sid \<Longrightarrow> id_ok v k"
  by (auto simp: id_ok_def split: if_splits)

lemma send_ok_new: "id_ok v sid \<Longrightarrow> send_ok v sid (newSendStream sid v)"
  by (simp add: send_ok_def newSendStream_def pending_def)

lemma send_ok_stop: "send_ok v sid s \<Longrightarrow> send_ok v sid (fst (handleStopSendingFrame frame s))"
  by (simp add: handleStopSendingFrame_def Let_def cancelWriteImpl_def signalWrite_def send_ok_def pending_def)

text \<open>The limit that \<open>MaxDataLen\<close> gives does not depend on the data, and a frame with that much data fits.\<close>

lemma MaxDataLen_cong:
  assumes "sf_StreamID f = sf_StreamID g" "sf_Offset f = sf_Offset g" "sf_DataLenPresent f = sf_DataLenPresent g"
  shows "MaxDataLen f m v = MaxDataLen g m v"
proof -
  have "headerLengthLegacy f v = headerLengthLegacy g v"
    using assms by (simp add: headerLengthLegacy_def calculateStreamIDLength_def getOffsetLength_def)
  then show ?thesis unfolding MaxDataLen_def maxDataLenLegacy_def assms by simp
qed

lemma frame_within_MaxDataLen:
  assumes "StreamFrame_wf v f" "MaxDataLen f m v = Inr n" "n \<noteq> 0" "length (sf_Data f) \<le> unat n" "unat m \<le> 16384"
  shows "\<exists>l. StreamFrame_Length f v = Inr l \<and> l \<le> m"
proof -
  define h where "h = stream_header v f + len_field v f 0"
  define k where "k = unat m - h"
  define k' where "k' = (if sf_DataLenPresent f \<and> UsesIETFFrameFormat v \<and> 63 < k then k - 1 else k)"
  have n: "n = of_nat (if unat m < h then 0 else k')"
    using MaxDataLen_eq [OF assms(1,5)] assms(2) by (simp add: h_def k_def k'_def cong: if_cong)
  with assms(3) have hm: "h \<le> unat m" by (auto split: if_splits)
  have k: "k \<le> 16384" "k' \<le> 16384" using assms(5) by (auto simp: k_def k'_def)
  with n hm have "unat n = k'" by (simp add: unat_of_nat)
  with assms(4) have len: "length (sf_Data f) \<le> k'" by simp
  have mono: "len_field v f a \<le> len_field v f b" if "a \<le> b" for a b
    using that by (auto simp: len_field_def varint_size_def)
  have "len_field v f k' + k' \<le> len_field v f 0 + k" by (rule len_field_step [OF k'_def k(1)])
  define t where "t = stream_header v f + len_field v f (length (sf_Data f)) + length (sf_Data f)"
  have "t \<le> unat m" using \<open>len_field v f k' + k' \<le> _\<close> mono [OF len] len hm by (simp add: h_def k_def t_def)
  then have "unat (of_nat t :: uint64) \<le> unat m" using assms(5) by (simp add: unat_of_nat64)
  then show ?thesis using StreamFrame_Length_eq [OF assms(1)] by (simp add: word_le_nat_alt t_def [symmetric] del: of_nat_add)
qed

lemma MaxDataLen_bound:
  assumes "StreamFrame_wf v f" "unat n \<le> 16384"
  shows "\<exists>m. MaxDataLen f n v = Inr m \<and> unat m \<le> unat n"
proof -
  have "unat (of_nat k :: uint64) \<le> unat n" if "k \<le> unat n" for k
    using that assms(2) by (simp add: unat_of_nat64)
  then show ?thesis unfolding MaxDataLen_eq [OF assms] by (auto intro!: diff_le_self le_trans [OF diff_le_self])
qed

lemma getDataForWriting_length:
  assumes "getDataForWriting n s fc c = ((d, fin), s', fc', c')" "length (pending s) < 2 ^ 62"
  shows "length d \<le> unat n"
proof (cases "dataForWriting s")
  case (Some dat)
  then have len: "unat (of_nat (length dat) :: uint64) = length dat" using assms(2) by (simp add: pending_def unat_of_nat64)
  have "MinByteCount n w \<le> n" for w by (auto simp: MinByteCount_def)
  then show ?thesis
    using assms(1) Some len
    by (auto simp: getDataForWriting_def Let_def split_beta word_less_nat_alt word_le_nat_alt not_less
        split: if_splits intro: order_trans)
qed (use assms(1) in \<open>simp add: getDataForWriting_def\<close>)

text \<open>Popping a frame never fails, and the frame is well-formed and fits.\<close>

lemma popStreamFrame_ok:
  assumes ok: "send_ok v sid s" and n: "unat n \<le> 16384"
  shows "\<exists>fo more s' fc' c' calls. popStreamFrame n s fc c = Inr ((fo, more), s', fc', c', calls)
    \<and> send_ok v sid s'
    \<and> (\<forall>f. fo = Some f \<longrightarrow> StreamFrame_wf v f \<and> sf_StreamID f = sid \<and> sf_DataLenPresent f
           \<and> (\<exists>l. StreamFrame_Length f v = Inr l \<and> l \<le> n))"
proof -
  let ?f = "\<lparr>sf_StreamID = ss_streamID s, sf_FinBit = False, sf_DataLenPresent = True, sf_Offset = writeOffset s, sf_Data = []\<rparr>"
  have wo: "unat (writeOffset s) + length (pending s) < 2 ^ 62" "dataForWriting s \<noteq> Some []" "length (pending s) < 2 ^ 62"
    and sid: "ss_streamID s = sid" "ss_version s = v" "id_ok v sid" using ok by (simp_all add: send_ok_def)
  have "StreamFrame_wf v (?f\<lparr>sf_FinBit := True\<rparr>)"
    using wo(1) sid by (auto simp: StreamFrame_wf_def id_ok_def)
  moreover have "MaxDataLen ?f n v = MaxDataLen (?f\<lparr>sf_FinBit := True\<rparr>) n v" by (rule MaxDataLen_cong) simp_all
  ultimately obtain m where m: "MaxDataLen ?f n v = Inr m" "unat m \<le> unat n"
    using MaxDataLen_bound [of v "?f\<lparr>sf_FinBit := True\<rparr>", OF _ n] by metis
  obtain d1 fin1 s1 fc1 c1 where g: "getDataForWriting m s fc c = ((d1, fin1), s1, fc1, c1)" by (metis prod.collapse)
  have "\<not> isl (popStreamFrame n s fc c)"
    unfolding popStreamFrame_def Let_def sid(2) m(1) ebind_simps g by simp
  then obtain fo more s' fc' c' calls where pop: "popStreamFrame n s fc c = Inr ((fo, more), s', fc', c', calls)"
    by (metis prod.collapse sum.collapse(2))
  from pop wo(2,3) show ?thesis
  proof (cases rule: popStreamFrame_cases)
    case none
    then show ?thesis using pop ok by simp
  next
    case (frame d fin w)
    have m0: "m \<noteq> 0" using pop m(1) frame(1) sid(2) by (auto simp: popStreamFrame_def Let_def split: if_splits)
    have "d = d1"
      using pop frame(1) m0 unfolding popStreamFrame_def Let_def sid(2) m(1) ebind_simps g
      by (auto split: if_splits)
    with getDataForWriting_length [OF g wo(3)] have d: "length d \<le> unat m" by simp
    let ?g = "?f\<lparr>sf_Data := d, sf_FinBit := fin\<rparr>"
    have fo: "fo = Some ?g" using frame(1) by simp
    have len: "length (pending s) = length d + length (pending s')" using frame(3) by (metis length_append)
    have wf: "StreamFrame_wf v ?g" using frame(2) wo(1) sid len d m(2) n by (auto simp: StreamFrame_wf_def id_ok_def)
    moreover have "\<exists>l. StreamFrame_Length ?g v = Inr l \<and> l \<le> n"
      using MaxDataLen_cong [of ?g ?f n v] m(1) d by (intro frame_within_MaxDataLen [OF wf _ m0 _ n]) simp_all
    moreover have "send_ok v sid s'"
    proof -
      have "unat (writeOffset s + of_nat (length d)) = unat (writeOffset s) + length d"
        using wo(1) len by (subst unat_plus_of_nat) simp_all
      then have "unat (writeOffset s') + length (pending s') < 2 ^ 62" using wo(1) len by (subst frame(6)) simp
      moreover have "ss_streamID s' = sid" "ss_version s' = v" by (subst frame(6), simp add: sid)+
      ultimately show ?thesis using sid frame(4) by (simp add: send_ok_def)
    qed
    ultimately show ?thesis using pop sid(1) unfolding fo by auto
  qed
qed

subsection \<open>The maps\<close>

text \<open>All sending halves of a session with the identifiers they are found under.\<close>

definition in_map :: "('s \<Rightarrow> sendStream) \<Rightarrow> (StreamID \<rightharpoonup> 's) \<Rightarrow> (StreamID \<times> sendStream) set" where
  "in_map f m = {(sid, f x) |sid x. m sid = Some x}"

definition senders :: "session_streams \<Rightarrow> (StreamID \<times> sendStream) set" where
  "senders s =
     (case ses_map s of
        IETF m \<Rightarrow> in_map send_half (out_streams (outgoingBidiStreams m)) \<union> in_map send_half (in_streams (incomingBidiStreams m))
                  \<union> in_map us_stream (out_streams (outgoingUniStreams m))
      | GQUIC m \<Rightarrow> in_map send_half (leg_streams m))"

definition streams_ok :: "VersionNumber \<Rightarrow> session_streams \<Rightarrow> bool" where
  "streams_ok v s \<longleftrightarrow> ses_version s = v \<and> (\<forall>(sid, ss) \<in> senders s. send_ok v sid ss)"

lemma in_map_update: "in_map f (update_at sid x m) \<subseteq> insert (sid, f x) (in_map f m)"
  by (auto simp: in_map_def update_at_def)

lemma in_map_delete: "in_map f (m(sid := None)) \<subseteq> in_map f m"
  by (auto simp: in_map_def)

lemma streams_ok_frame:
  assumes "ses_version s' = ses_version s" "ses_map s' = ses_map s"
  shows "streams_ok v s' = streams_ok v s"
  using assms by (simp add: streams_ok_def senders_def)

lemma streams_ok_mono:
  assumes "streams_ok v s" "ses_version s' = ses_version s" "senders s' \<subseteq> senders s \<union> {x. send_ok v (fst x) (snd x)}"
  shows "streams_ok v s'"
  using assms by (fastforce simp: streams_ok_def)

lemma put_bidi_ok:
  assumes "streams_ok v s" "send_ok v sid (send_half b)"
  shows "streams_ok v (put_bidi sid b s)"
  using assms(1)
proof (rule streams_ok_mono)
  have "senders (put_bidi sid b s) \<subseteq> insert (sid, send_half b) (senders s)"
    using in_map_update [of send_half sid b]
    by (cases "ses_map s") (simp_all add: put_bidi_def senders_def, blast)
  then show "senders (put_bidi sid b s) \<subseteq> senders s \<union> {x. send_ok v (fst x) (snd x)}" using assms(2) by auto
qed (simp add: put_bidi_def)

lemma put_send_ok:
  assumes "streams_ok v s" "send_ok v sid (us_stream us)"
  shows "streams_ok v (put_send sid us s)"
  using assms(1)
proof (rule streams_ok_mono)
  have "senders (put_send sid us s) \<subseteq> insert (sid, us_stream us) (senders s)"
    using in_map_update [of us_stream sid us]
    by (cases "ses_map s") (simp_all add: put_send_def senders_def, blast+)
  then show "senders (put_send sid us s) \<subseteq> senders s \<union> {x. send_ok v (fst x) (snd x)}" using assms(2) by auto
qed (simp add: put_send_def)

lemma put_recv_ok: "streams_ok v s \<Longrightarrow> streams_ok v (put_recv sid ur s)"
  by (cases "ses_map s") (simp_all add: put_recv_def streams_ok_def senders_def)

lemma Delete_ok:
  assumes "streams_ok v s"
  shows "streams_ok v (ses_onStreamCompleted sid s)"
  using assms
proof (rule streams_ok_mono)
  have "senders (ses_onStreamCompleted sid s) \<subseteq> senders s"
  proof (cases "ses_map s")
    case (IETF m)
    then show ?thesis
      using in_map_delete [of send_half] in_map_delete [of us_stream]
      by (cases "getStreamType sid (sm_perspective m)")
        (simp_all add: ses_onStreamCompleted_def map_DeleteStream_def out_DeleteStream_def in_DeleteStream_def senders_def Let_def,
         blast+)
  next
    case (GQUIC m)
    then show ?thesis
      using in_map_delete [of send_half]
      by (auto simp: ses_onStreamCompleted_def leg_DeleteStream_def senders_def Let_def)
  qed
  then show "senders (ses_onStreamCompleted sid s) \<subseteq> senders s \<union> {x. send_ok v (fst x) (snd x)}" by blast
qed (simp add: ses_onStreamCompleted_def split_beta)

lemma report_ok: "streams_ok v s \<Longrightarrow> streams_ok v (report calls s)"
proof (induction calls arbitrary: s)
  case (Cons c cs)
  have "streams_ok v (s\<lparr>ses_calls := x\<rparr>)" "streams_ok v (windowUpdateQueue_Add sid s)" for x sid
    using Cons.prems by (simp_all add: windowUpdateQueue_Add_def streams_ok_def senders_def)
  with Cons show ?case by (cases c) (simp_all add: Delete_ok)
qed simp

text \<open>Opening streams adds new ones with identifiers up to that of the frame.\<close>

lemma open_streams_new:
  assumes "open_streams new sid k m = Some m'"
  shows "m' x = Some y \<longrightarrow> m x = Some y \<or> x \<le> sid \<and> y = new x"
  using assms
proof (induction rule: open_streams.raw_induct [rotated, consumes 1, case_names turn])
  case (turn f new sid k m m')
  show ?case
  proof (cases "k \<le> sid")
    case True
    with turn(2) have "f new sid (k + 4) (m(k \<mapsto> new k)) = Some m'" by simp
    from turn(1) [OF this] True show ?thesis by (auto split: if_splits)
  qed (use turn(2) in simp)
qed

lemma open_remote_streams_new:
  assumes "open_remote_streams new sid k m = Some res"
  shows "leg_streams (snd res) x = Some y \<longrightarrow> leg_streams m x = Some y \<or> x \<le> sid \<and> y = new x"
  using assms
proof (induction rule: open_remote_streams.raw_induct [rotated, consumes 1, case_names turn])
  case (turn f new sid k m res)
  obtain err m1 where o: "openRemoteStream new k m = (err, m1)" by fastforce
  have m1: "leg_streams m1 x = Some y \<longrightarrow> leg_streams m x = Some y \<or> x = k \<and> y = new x"
    using o by (auto simp: openRemoteStream_def putStream_def Let_def split: if_splits)
  show ?case
  proof (cases "k \<le> sid \<and> err = None")
    case True
    with turn(2) o have "f new sid (k + 2) m1 = Some res" by simp
    from turn(1) [OF this] True m1 show ?thesis by auto
  qed (use turn(2) m1 in \<open>auto simp: o split: if_splits\<close>)
qed

text \<open>Looking for a stream opens streams, and looking again finds the same one.\<close>

lemma GetOrOpenStream_new:
  assumes "GetOrOpenStream new sid m = Some (res, m')"
  shows "in_streams m' x = Some y \<longrightarrow> in_streams m x = Some y \<or> x \<le> sid \<and> y = new x"
    and "res = Inr (Some y) \<longrightarrow> in_streams m' sid = Some y \<and> GetOrOpenStream new sid m' = Some (res, m')"
proof -
  show "in_streams m' x = Some y \<longrightarrow> in_streams m x = Some y \<or> x \<le> sid \<and> y = new x"
    using assms open_streams_new [of new sid _ "in_streams m" _ x y]
    by (auto simp: GetOrOpenStream_def Let_def split: if_splits)
  show "res = Inr (Some y) \<longrightarrow> in_streams m' sid = Some y \<and> GetOrOpenStream new sid m' = Some (res, m')"
    using assms by (auto simp: GetOrOpenStream_def Let_def split: if_splits)
qed

lemma getOrOpenStream_new:
  assumes "getOrOpenStream new sid m = Some (res, m')"
  shows "leg_streams m' x = Some y \<longrightarrow> leg_streams m x = Some y \<or> x \<le> sid \<and> y = new x"
    and "res = Inr (Some y) \<longrightarrow> leg_streams m' sid = Some y \<and> getOrOpenStream new sid m' = Some (res, m')"
proof -
  show "leg_streams m' x = Some y \<longrightarrow> leg_streams m x = Some y \<or> x \<le> sid \<and> y = new x"
    using assms open_remote_streams_new [of new sid _ m "(_, m')" x y]
    by (auto simp: getOrOpenStream_def split: if_splits)
  show "res = Inr (Some y) \<longrightarrow> leg_streams m' sid = Some y \<and> getOrOpenStream new sid m' = Some (res, m')"
    using assms by (auto simp: getOrOpenStream_def split: if_splits option.splits)
qed

lemma ses_map_same: "ses_map s = m \<Longrightarrow> s\<lparr>ses_map := m\<rparr> = s"
  by auto

lemma newBidi_map: "newBidi (s\<lparr>ses_map := m\<rparr>) = newBidi s" "newUniReceive (s\<lparr>ses_map := m\<rparr>) = newUniReceive s"
  by (simp_all add: fun_eq_iff newBidi_def newUniReceive_def newFlowController_def)

lemma newBidi_ok: "id_ok v sid \<Longrightarrow> ses_version s = v \<Longrightarrow> x \<le> sid \<Longrightarrow> send_ok v x (send_half (newBidi s x))"
  using send_ok_new id_ok_less by (auto simp: newBidi_def newStream_def)

lemma in_map_new:
  assumes "\<And>x y. m' x = Some y \<longrightarrow> m x = Some y \<or> x \<le> sid \<and> y = newBidi s x" "id_ok v sid" "ses_version s = v"
  shows "in_map send_half m' \<subseteq> in_map send_half m \<union> {x. send_ok v (fst x) (snd x)}"
  using assms(1) newBidi_ok [OF assms(2,3)] by (fastforce simp: in_map_def)

lemma getSendStream_ok:
  assumes "streams_ok v s" "id_ok v sid" "getSendStream sid s = (res, s')"
  shows "streams_ok v s'" "ses_conn s' = ses_conn s"
    and "res = Inr (Some (Inl b)) \<Longrightarrow> send_ok v sid (send_half b)"
    and "res = Inr (Some (Inr us)) \<Longrightarrow> send_ok v sid (us_stream us)"
    and "res = Inr (Some x) \<Longrightarrow> getSendStream sid s' = (res, s')"
proof -
  have v: "ses_version s = v" using assms(1) by (simp add: streams_ok_def)
  have "streams_ok v s' \<and> ses_conn s' = ses_conn s \<and> (res = Inr (Some x) \<longrightarrow> getSendStream sid s' = (res, s')
    \<and> (case x of Inl b \<Rightarrow> (sid, send_half b) \<in> senders s' | Inr us \<Rightarrow> (sid, us_stream us) \<in> senders s'))" for x
  proof (cases "ses_map s")
    case (GQUIC m)
    show ?thesis
    proof (cases "getOrOpenStream (newBidi s) sid m")
      case (Some r)
      obtain r1 m' where r: "r = (r1, m')" by fastforce
      note g = Some [unfolded r]
      have s': "s' = s\<lparr>ses_map := GQUIC m'\<rparr>" "res = map_sum (\<lambda>e. e) (map_option Inl) r1"
        using assms(3) GQUIC g by (simp_all add: getSendStream_def)
      have "in_map send_half (leg_streams m') \<subseteq> in_map send_half (leg_streams m) \<union> {x. send_ok v (fst x) (snd x)}"
        by (rule in_map_new [OF getOrOpenStream_new(1) [OF g] assms(2) v])
      then have "streams_ok v s'"
        using GQUIC by (intro streams_ok_mono [OF assms(1)]) (simp_all add: s' senders_def)
      moreover have "getSendStream sid s' = (res, s') \<and> (case x of Inl b \<Rightarrow> (sid, send_half b) \<in> senders s' | Inr us \<Rightarrow> (sid, us_stream us) \<in> senders s')"
        if res: "res = Inr (Some x)"
      proof -
        obtain b where b: "r1 = Inr (Some b)" "x = Inl b" using res s'(2) by (cases r1) auto
        with getOrOpenStream_new(2) [OF g, of b] show ?thesis
          by (auto simp: s' getSendStream_def newBidi_map senders_def in_map_def)
      qed
      ultimately show ?thesis by (simp add: s')
    qed (use assms GQUIC in \<open>auto simp: getSendStream_def\<close>)
  next
    case (IETF m)
    show ?thesis
    proof (cases "getStreamType sid (sm_perspective m)")
      case IncomingBidi
      show ?thesis
      proof (cases "GetOrOpenStream (newBidi s) sid (incomingBidiStreams m)")
        case (Some r)
        obtain r1 m' where r: "r = (r1, m')" by fastforce
        note g = Some [unfolded r]
        have s': "s' = s\<lparr>ses_map := IETF (m\<lparr>incomingBidiStreams := m'\<rparr>)\<rparr>" "res = map_sum (\<lambda>e. e) (map_option Inl) r1"
          using assms(3) IETF IncomingBidi g by (simp_all add: getSendStream_def GetOrOpenSendStream_def)
        have "in_map send_half (in_streams m') \<subseteq> in_map send_half (in_streams (incomingBidiStreams m)) \<union> {x. send_ok v (fst x) (snd x)}"
          by (rule in_map_new [OF GetOrOpenStream_new(1) [OF g] assms(2) v])
        then have "streams_ok v s'"
          using IETF by (intro streams_ok_mono [OF assms(1)]) (auto simp: s' senders_def)
        moreover have "getSendStream sid s' = (res, s') \<and> (case x of Inl b \<Rightarrow> (sid, send_half b) \<in> senders s' | Inr us \<Rightarrow> (sid, us_stream us) \<in> senders s')"
          if res: "res = Inr (Some x)"
        proof -
          obtain b where b: "r1 = Inr (Some b)" "x = Inl b" using res s'(2) by (cases r1) auto
          with GetOrOpenStream_new(2) [OF g, of b] IncomingBidi show ?thesis
            by (auto simp: s' getSendStream_def GetOrOpenSendStream_def newBidi_map senders_def in_map_def)
        qed
        ultimately show ?thesis by (simp add: s')
      qed (use assms IETF IncomingBidi in \<open>auto simp: getSendStream_def GetOrOpenSendStream_def\<close>)
    next
      case OutgoingBidi
      then have "s' = s" "res = map_sum (\<lambda>e. e) (map_option Inl) (out_GetStream sid (outgoingBidiStreams m))"
        using assms(3) IETF by (auto simp: getSendStream_def GetOrOpenSendStream_def)
      then show ?thesis
        using assms IETF by (auto simp: out_GetStream_def senders_def in_map_def)
    next
      case OutgoingUni
      then have "s' = s" "res = map_sum (\<lambda>e. e) (map_option Inr) (out_GetStream sid (outgoingUniStreams m))"
        using assms(3) IETF by (auto simp: getSendStream_def GetOrOpenSendStream_def)
      then show ?thesis
        using assms IETF by (auto simp: out_GetStream_def senders_def in_map_def)
    qed (use assms IETF in \<open>auto simp: getSendStream_def GetOrOpenSendStream_def ses_map_same\<close>)
  qed
  then show "streams_ok v s'" "ses_conn s' = ses_conn s" and "res = Inr (Some x) \<Longrightarrow> getSendStream sid s' = (res, s')"
    and "res = Inr (Some (Inl b)) \<Longrightarrow> send_ok v sid (send_half b)"
    and "res = Inr (Some (Inr us)) \<Longrightarrow> send_ok v sid (us_stream us)"
    by (fastforce simp: streams_ok_def)+
qed

lemma getReceiveStream_ok:
  assumes "streams_ok v s" "id_ok v sid" "getReceiveStream sid s = (res, s')"
  shows "streams_ok v s'" and "res = Inr (Some (Inl b)) \<Longrightarrow> send_ok v sid (send_half b)"
proof -
  have v: "ses_version s = v" using assms(1) by (simp add: streams_ok_def)
  have "streams_ok v s' \<and> (res = Inr (Some (Inl b)) \<longrightarrow> (sid, send_half b) \<in> senders s')" for b
  proof (cases "ses_map s")
    case (GQUIC m)
    show ?thesis
    proof (cases "getOrOpenStream (newBidi s) sid m")
      case (Some r)
      obtain r1 m' where r: "r = (r1, m')" by fastforce
      note g = Some [unfolded r]
      have s': "s' = s\<lparr>ses_map := GQUIC m'\<rparr>" "res = map_sum (\<lambda>e. e) (map_option Inl) r1"
        using assms(3) GQUIC g by (simp_all add: getReceiveStream_def)
      have "in_map send_half (leg_streams m') \<subseteq> in_map send_half (leg_streams m) \<union> {x. send_ok v (fst x) (snd x)}"
        by (rule in_map_new [OF getOrOpenStream_new(1) [OF g] assms(2) v])
      then have "streams_ok v s'"
        using GQUIC by (intro streams_ok_mono [OF assms(1)]) (simp_all add: s' senders_def)
      moreover have "r1 = Inr (Some b)" if "res = Inr (Some (Inl b))" using that s'(2) by (cases r1) auto
      ultimately show ?thesis
        using getOrOpenStream_new(2) [OF g, of b] by (auto simp: s'(1) senders_def in_map_def)
    qed (use assms GQUIC in \<open>auto simp: getReceiveStream_def\<close>)
  next
    case (IETF m)
    show ?thesis
    proof (cases "getStreamType sid (sm_perspective m)")
      case IncomingBidi
      show ?thesis
      proof (cases "GetOrOpenStream (newBidi s) sid (incomingBidiStreams m)")
        case (Some r)
        obtain r1 m' where r: "r = (r1, m')" by fastforce
        note g = Some [unfolded r]
        have s': "s' = s\<lparr>ses_map := IETF (m\<lparr>incomingBidiStreams := m'\<rparr>)\<rparr>" "res = map_sum (\<lambda>e. e) (map_option Inl) r1"
          using assms(3) IETF IncomingBidi g by (simp_all add: getReceiveStream_def GetOrOpenReceiveStream_def)
        have "in_map send_half (in_streams m') \<subseteq> in_map send_half (in_streams (incomingBidiStreams m)) \<union> {x. send_ok v (fst x) (snd x)}"
          by (rule in_map_new [OF GetOrOpenStream_new(1) [OF g] assms(2) v])
        then have "streams_ok v s'"
          using IETF by (intro streams_ok_mono [OF assms(1)]) (auto simp: s' senders_def)
        moreover have "r1 = Inr (Some b)" if "res = Inr (Some (Inl b))" using that s'(2) by (cases r1) auto
        ultimately show ?thesis
          using GetOrOpenStream_new(2) [OF g, of b] by (auto simp: s'(1) senders_def in_map_def)
      qed (use assms IETF IncomingBidi in \<open>auto simp: getReceiveStream_def GetOrOpenReceiveStream_def\<close>)
    next
      case OutgoingBidi
      then have "s' = s" "res = map_sum (\<lambda>e. e) (map_option Inl) (out_GetStream sid (outgoingBidiStreams m))"
        using assms(3) IETF by (auto simp: getReceiveStream_def GetOrOpenReceiveStream_def)
      then show ?thesis
        using assms IETF by (auto simp: out_GetStream_def senders_def in_map_def)
    next
      case OutgoingUni
      then show ?thesis
        using assms IETF by (auto simp: getReceiveStream_def GetOrOpenReceiveStream_def ses_map_same)
    next
      case IncomingUni
      show ?thesis
      proof (cases "GetOrOpenStream (newUniReceive s) sid (incomingUniStreams m)")
        case (Some r)
        obtain r1 m' where r: "r = (r1, m')" by fastforce
        have s': "s' = s\<lparr>ses_map := IETF (m\<lparr>incomingUniStreams := m'\<rparr>)\<rparr>" "res = map_sum (\<lambda>e. e) (map_option Inr) r1"
          using assms(3) IETF IncomingUni Some r by (simp_all add: getReceiveStream_def GetOrOpenReceiveStream_def)
        then have "streams_ok v s'" using assms(1) IETF by (simp add: streams_ok_def senders_def)
        with s'(2) show ?thesis by (cases r1) auto
      qed (use assms IETF IncomingUni in \<open>auto simp: getReceiveStream_def GetOrOpenReceiveStream_def\<close>)
    qed
  qed
  then show "streams_ok v s'" "res = Inr (Some (Inl b)) \<Longrightarrow> send_ok v sid (send_half b)"
    by (fastforce simp: streams_ok_def)+
qed

subsection \<open>The operations\<close>

lemma sender_keeps_send: "send_half (fst (senderForSendStream calls b)) = send_half b"
  by (simp add: sender_states)

lemma str_calls_send_half:
  "send_half (fst (snd (str_handleStreamFrame frame b conn))) = send_half b"
  "send_half (fst (str_handleMaxStreamDataFrame mframe b)) = send_half b"
  "send_half (fst (str_handleStopSendingFrame sframe b)) = fst (handleStopSendingFrame sframe (send_half b))"
  by (simp_all add: str_handleStreamFrame_def str_handleMaxStreamDataFrame_def str_handleStopSendingFrame_def
      sender_keeps_send Let_def split_beta)

lemma str_Rst_ok:
  "send_ok v sid (send_half b) \<Longrightarrow> send_ok v sid (send_half (fst (snd (str_handleRstStreamFrame frame b conn))))"
  by (simp add: str_handleRstStreamFrame_def Let_def split_beta str_calls_send_half sender_keeps send_ok_stop)

lemma streams_ok_fields:
  "streams_ok v (s\<lparr>ses_conn := c\<rparr>) = streams_ok v s" "streams_ok v (s\<lparr>ses_cryptoStream := b\<rparr>) = streams_ok v s"
  "streams_ok v (s\<lparr>windowUpdates := w\<rparr>) = streams_ok v s"
  by (simp_all add: streams_ok_def senders_def)

lemma ses_handleStreamFrame_ok:
  assumes "streams_ok v s" "id_ok v (sf_StreamID frame)"
  shows "streams_ok v (snd (ses_handleStreamFrame frame s))"
proof (cases "sf_StreamID frame = CryptoStreamID (ses_version s)")
  case False
  obtain res s1 where g: "getReceiveStream (sf_StreamID frame) s = (res, s1)" by fastforce
  note ok = getReceiveStream_ok [OF assms g]
  consider e where "res = Inl e" | "res = Inr None" | b where "res = Inr (Some (Inl b))" | ur where "res = Inr (Some (Inr ur))"
    by (cases res) (auto, metis not_None_eq sum.exhaust)
  then show ?thesis
    by cases (use False g ok in \<open>auto simp: ses_handleStreamFrame_def Let_def split_beta streams_ok_fields str_calls_send_half
        intro!: put_bidi_ok put_recv_ok\<close>)
qed (use assms in \<open>simp add: ses_handleStreamFrame_def Let_def split_beta streams_ok_fields\<close>)

lemma ses_handleRstStreamFrame_ok:
  assumes "streams_ok v s" "id_ok v (rst_StreamID frame)"
  shows "streams_ok v (snd (ses_handleRstStreamFrame frame s))"
proof (cases "rst_StreamID frame = CryptoStreamID (ses_version s)")
  case False
  obtain res s1 where g: "getReceiveStream (rst_StreamID frame) s = (res, s1)" by fastforce
  note ok = getReceiveStream_ok [OF assms g]
  consider e where "res = Inl e" | "res = Inr None" | b where "res = Inr (Some (Inl b))" | ur where "res = Inr (Some (Inr ur))"
    by (cases res) (auto, metis not_None_eq sum.exhaust)
  then show ?thesis
    by cases (use False g ok in \<open>auto simp: ses_handleRstStreamFrame_def Let_def split_beta streams_ok_fields
        intro!: put_bidi_ok put_recv_ok report_ok str_Rst_ok\<close>)
qed (use assms in \<open>simp add: ses_handleRstStreamFrame_def\<close>)

lemma ses_handleMaxStreamDataFrame_ok:
  assumes "streams_ok v s" "id_ok v (msd_StreamID frame)"
  shows "streams_ok v (snd (ses_handleMaxStreamDataFrame frame s))"
proof (cases "msd_StreamID frame = CryptoStreamID (ses_version s)")
  case False
  obtain res s1 where g: "getSendStream (msd_StreamID frame) s = (res, s1)" by fastforce
  note ok = getSendStream_ok [OF assms g]
  consider e where "res = Inl e" | "res = Inr None" | b where "res = Inr (Some (Inl b))" | us where "res = Inr (Some (Inr us))"
    by (cases res) (auto, metis not_None_eq sum.exhaust)
  then show ?thesis
    by cases (use False g ok in \<open>auto simp: ses_handleMaxStreamDataFrame_def Let_def split_beta str_calls_send_half
        intro!: put_bidi_ok put_send_ok report_ok\<close>)
qed (use assms in \<open>auto simp: ses_handleMaxStreamDataFrame_def Let_def split_beta streams_ok_fields intro!: report_ok\<close>)

lemma ses_handleStopSendingFrame_ok:
  assumes "streams_ok v s" "id_ok v (ss_StreamID frame)"
  shows "streams_ok v (snd (ses_handleStopSendingFrame frame s))"
proof (cases "ss_StreamID frame = CryptoStreamID (ses_version s)")
  case False
  obtain res s1 where g: "getSendStream (ss_StreamID frame) s = (res, s1)" by fastforce
  note ok = getSendStream_ok [OF assms g]
  consider e where "res = Inl e" | "res = Inr None" | b where "res = Inr (Some (Inl b))" | us where "res = Inr (Some (Inr us))"
    by (cases res) (auto, metis not_None_eq sum.exhaust)
  then show ?thesis
    by cases (use False g ok in \<open>auto simp: ses_handleStopSendingFrame_def Let_def split_beta str_calls_send_half
        intro!: put_bidi_ok put_send_ok report_ok send_ok_stop\<close>)
qed (use assms in \<open>simp add: ses_handleStopSendingFrame_def\<close>)

lemma ses_handleMax_ok:
  "streams_ok v s \<Longrightarrow> streams_ok v (snd (ses_handleMaxStreamIDFrame mframe s))"
  "streams_ok v s \<Longrightarrow> streams_ok v (ses_handleMaxDataFrame dframe s)"
  by (auto simp: ses_handleMaxStreamIDFrame_def HandleMaxStreamIDFrame_def SetMaxStream_def Let_def ses_handleMaxDataFrame_def
      streams_ok_def senders_def split: streamManager.splits streamType.splits)

lemma ses_get_ok: "streams_ok v s \<Longrightarrow> id_ok v sid \<Longrightarrow> ses_get sid s = (r, s') \<Longrightarrow> streams_ok v s'"
  by (cases "getSendStream sid s") (auto simp: ses_get_def dest: getSendStream_ok(1))

lemma ses_pop_ok:
  assumes "streams_ok v s" "id_ok v sid" "ses_get sid s = (Inr True, s')" "unat n \<le> 16384"
  shows "\<exists>fo more s''. ses_pop sid n s' = Inr ((fo, more), s'') \<and> streams_ok v s''
    \<and> (\<forall>f. fo = Some f \<longrightarrow> StreamFrame_wf v f \<and> sf_StreamID f = sid \<and> sf_DataLenPresent f
           \<and> (\<exists>l. StreamFrame_Length f v = Inr l \<and> l \<le> n))"
proof -
  obtain res where g: "getSendStream sid s = (res, s')" and res: "map_sum (\<lambda>e. e) (\<lambda>str. str \<noteq> None) res = Inr True"
    using assms(3) by (cases "getSendStream sid s") (auto simp: ses_get_def)
  from res obtain x where x: "res = Inr (Some x)" by (cases res) auto
  note ok = getSendStream_ok [OF assms(1,2) g]
  note again = ok(5) [OF x, unfolded x]
  show ?thesis
  proof (cases x)
    case (Inl b)
    obtain fo more ss fc conn calls where p: "popStreamFrame n (send_half b) (str_fc b) (ses_conn s') = Inr ((fo, more), ss, fc, conn, calls)"
      "send_ok v sid ss" "\<forall>f. fo = Some f \<longrightarrow> StreamFrame_wf v f \<and> sf_StreamID f = sid \<and> sf_DataLenPresent f
           \<and> (\<exists>l. StreamFrame_Length f v = Inr l \<and> l \<le> n)"
      using popStreamFrame_ok [OF ok(3) assms(4)] x Inl by blast
    define b' where "b' = fst (senderForSendStream calls (b\<lparr>send_half := ss, str_fc := fc\<rparr>))"
    define s2 where "s2 = report (snd (senderForSendStream calls (b\<lparr>send_half := ss, str_fc := fc\<rparr>)))
      (put_bidi sid b' (s'\<lparr>ses_conn := conn\<rparr>))"
    have "ses_pop sid n s' = Inr ((fo, more), s2)"
      using again p(1) Inl by (simp add: ses_pop_def str_popStreamFrame_def Let_def split_beta s2_def b'_def)
    moreover have "send_half b' = ss" by (simp add: b'_def sender_keeps_send)
    then have "streams_ok v s2" using ok(1) p(2) by (simp add: s2_def report_ok put_bidi_ok streams_ok_fields)
    ultimately show ?thesis using p(3) by blast
  next
    case (Inr us)
    obtain fo more ss fc conn calls where p: "popStreamFrame n (us_stream us) (us_fc us) (ses_conn s') = Inr ((fo, more), ss, fc, conn, calls)"
      "send_ok v sid ss" "\<forall>f. fo = Some f \<longrightarrow> StreamFrame_wf v f \<and> sf_StreamID f = sid \<and> sf_DataLenPresent f
           \<and> (\<exists>l. StreamFrame_Length f v = Inr l \<and> l \<le> n)"
      using popStreamFrame_ok [OF ok(4) assms(4)] x Inr by blast
    define s2 where "s2 = report calls (put_send sid \<lparr>us_stream = ss, us_fc = fc\<rparr> (s'\<lparr>ses_conn := conn\<rparr>))"
    have "ses_pop sid n s' = Inr ((fo, more), s2)"
      using again p(1) Inr by (simp add: ses_pop_def s2_def)
    moreover have "streams_ok v s2" using ok(1) p(2) by (simp add: s2_def report_ok put_send_ok streams_ok_fields)
    ultimately show ?thesis using p(3) by blast
  qed
qed

interpretation ses: stream_source ses_get ses_pop "streams_ok v" v "{sid. id_ok v sid}" for v
proof unfold_locales
  show "streams_ok v w'" if "streams_ok v w" "sid \<in> {sid. id_ok v sid}" "ses_get sid w = (r, w')" for w sid r w'
    using that by (auto intro: ses_get_ok)
qed (use ses_pop_ok in blast)

lemma find_ok:
  "streams_ok v s \<Longrightarrow> find_bidi sid s = Some b \<Longrightarrow> send_ok v sid (send_half b)"
  "streams_ok v s \<Longrightarrow> find_uni_send sid s = Some us \<Longrightarrow> send_ok v sid (us_stream us)"
  by (fastforce simp: streams_ok_def find_bidi_def senders_def in_map_def split: streamManager.splits streamType.splits)
    (fastforce simp: streams_ok_def find_uni_send_def senders_def in_map_def split: streamManager.splits)

text \<open>The methods of the two halves, on any stream.\<close>

lemma on_send_ok:
  assumes "streams_ok v s"
    and "\<And>ss. find_sender sid s = Some ss \<Longrightarrow> send_ok v sid ss \<Longrightarrow> send_ok v sid (fst (meth ss))"
  shows "streams_ok v (on_send meth sid s)"
proof (cases "find_bidi sid s")
  case (Some b)
  then have "send_ok v sid (fst (meth (send_half b)))" using assms find_ok(1) by (simp add: find_sender_def)
  then show ?thesis
    using assms(1) Some by (simp add: on_send_def Let_def split_beta sender_keeps_send report_ok put_bidi_ok)
next
  case bidi: None
  show ?thesis
  proof (cases "find_uni_send sid s")
    case (Some us)
    then have "send_ok v sid (fst (meth (us_stream us)))" using assms find_ok(2) bidi by (simp add: find_sender_def)
    then show ?thesis using assms(1) Some bidi by (simp add: on_send_def split_beta report_ok put_send_ok)
  qed (use assms(1) bidi in \<open>simp add: on_send_def\<close>)
qed

lemma on_recv_ok:
  assumes "streams_ok v s"
  shows "streams_ok v (on_recv meth sid s)"
proof (cases "find_bidi sid s")
  case (Some b)
  then show ?thesis using assms find_ok(1) [OF assms Some]
    by (simp add: on_recv_def Let_def split_beta sender_keeps report_ok put_bidi_ok streams_ok_fields)
next
  case None
  then show ?thesis using assms
    by (cases "find_uni_recv sid s")
      (simp_all add: on_recv_def Let_def split_beta report_ok put_recv_ok streams_ok_fields)
qed

lemma send_methods_ok:
  assumes "send_ok v sid s"
  shows "unat (writeOffset s) + length p < 2 ^ 62 \<Longrightarrow> send_ok v sid (fst (snd (Write_begin now p s)))"
    and "send_ok v sid (case Write_wake now n s of None \<Rightarrow> s | Some (_, s') \<Rightarrow> s')"
    and "send_ok v sid (fst (snd (CancelWrite code s)))" and "send_ok v sid (SetWriteDeadline t s)"
    and "send_ok v sid (fst (snd (send_Close s)))" and "send_ok v sid (send_closeForShutdown e s)"
  using assms
  by (simp_all add: Write_begin_def Write_wake_def Write_loop_def Let_def CancelWrite_def cancelWriteImpl_def signalWrite_def
      SetWriteDeadline_def send_Close_def send_closeForShutdown_def send_ok_def pending_def)

lemma app_ok:
  assumes "streams_ok v s"
  shows "(\<And>ss. find_sender sid s = Some ss \<Longrightarrow> unat (writeOffset ss) + length p < 2 ^ 62) \<Longrightarrow>
      streams_ok v (app_Write now p sid s)"
    and "streams_ok v (app_Write_wake now n sid s)" and "streams_ok v (app_CancelWrite code sid s)"
    and "streams_ok v (app_SetWriteDeadline t sid s)" and "streams_ok v (app_Close sid s)"
    and "streams_ok v (app_Read_begin now n sid s)" and "streams_ok v (app_Read_wake now sid s)"
    and "streams_ok v (app_Read_finish now n k frame sid s)" and "streams_ok v (app_CancelRead code sid s)"
    and "streams_ok v (app_SetReadDeadline t sid s)"
proof -
  have "send_ok v sid (send_half (fst (snd (str_Close b))))" if "send_ok v sid (send_half b)" for b
    using send_methods_ok(5) [OF that]
    by (simp add: str_Close_def Let_def split_beta sender_keeps sender_keeps_send)
  then show "streams_ok v (app_Close sid s)"
    using assms find_ok(1) [OF assms]
    by (auto simp: app_Close_def Let_def split_beta intro!: report_ok put_bidi_ok on_send_ok send_methods_ok split: option.split)
qed (use assms in \<open>auto simp: app_Write_def app_Write_wake_def app_CancelWrite_def app_SetWriteDeadline_def app_Read_begin_def
      app_Read_wake_def app_Read_finish_def app_CancelRead_def app_SetReadDeadline_def intro!: on_send_ok on_recv_ok send_methods_ok\<close>)

lemma ses_CloseWithError_ok:
  assumes "streams_ok v s"
  shows "streams_ok v (ses_CloseWithError e s)"
  using assms
  by (auto simp: ses_CloseWithError_def map_CloseWithError_def out_CloseWithError_def in_CloseWithError_def leg_CloseWithError_def
      str_closeForShutdown_def streams_ok_def senders_def in_map_def send_methods_ok split: streamManager.splits)

definition next_id :: "session_streams \<Rightarrow> StreamID" where
  "next_id s = (case ses_map s of IETF m \<Rightarrow> out_nextStream (outgoingBidiStreams m) | GQUIC m \<Rightarrow> nextStreamToOpen m)"

lemma ses_OpenStream_ok:
  assumes "streams_ok v s" "id_ok v (next_id s)"
  shows "streams_ok v (snd (ses_OpenStream s))"
proof (rule streams_ok_mono [OF assms(1)])
  have v: "ses_version s = v" using assms(1) by (simp add: streams_ok_def)
  note new = newBidi_ok [OF assms(2) v order_refl]
  show "senders (snd (ses_OpenStream s)) \<subseteq> senders s \<union> {x. send_ok v (fst x) (snd x)}"
  proof (cases "ses_map s")
    case (IETF m)
    then show ?thesis using new
      by (auto simp: ses_OpenStream_def map_OpenStream_def out_OpenStream_def openStreamImpl_def next_id_def senders_def in_map_def
          Let_def split: option.splits if_splits)
  next
    case (GQUIC m)
    then show ?thesis using new
      by (auto simp: ses_OpenStream_def leg_OpenStream_def leg_openStreamImpl_def putStream_def next_id_def senders_def in_map_def
          Let_def split: option.splits if_splits)
  qed
qed (simp add: ses_OpenStream_def split_beta split: streamManager.split)

definition next_uni_id :: "session_streams \<Rightarrow> StreamID" where
  "next_uni_id s = (case ses_map s of IETF m \<Rightarrow> out_nextStream (outgoingUniStreams m) | GQUIC m \<Rightarrow> 0)"

lemma ses_OpenUniStream_ok:
  assumes "streams_ok v s" "id_ok v (next_uni_id s)"
  shows "streams_ok v (snd (ses_OpenUniStream s))"
proof (rule streams_ok_mono [OF assms(1)])
  have "ses_version s = v" using assms(1) by (simp add: streams_ok_def)
  then have "send_ok v (next_uni_id s) (us_stream (newUniSend s (next_uni_id s)))"
    using send_ok_new [OF assms(2)] by (simp add: newUniSend_def)
  then show "senders (snd (ses_OpenUniStream s)) \<subseteq> senders s \<union> {x. send_ok v (fst x) (snd x)}"
    by (cases "ses_map s")
      (auto simp: ses_OpenUniStream_def map_OpenUniStream_def out_OpenStream_def openStreamImpl_def next_uni_id_def senders_def
        in_map_def Let_def split: option.splits if_splits)
qed (simp add: ses_OpenUniStream_def split_beta split: streamManager.split)

lemma ses_UpdateLimits_ok:
  assumes "streams_ok v s"
  shows "streams_ok v (ses_UpdateLimits order params s)"
proof -
  have "streams_ok v (s\<lparr>peerStreamWindow := w, ses_map := IETF (UpdateLimits params m)\<rparr>)" if "ses_map s = IETF m" for w m
    using assms that by (simp add: UpdateLimits_def SetMaxStream_def streams_ok_def senders_def in_map_def)
  moreover have "streams_ok v (s\<lparr>peerStreamWindow := w,
      ses_map := GQUIC (leg_UpdateLimits (\<lambda>f b. fst (str_handleMaxStreamDataFrame f b)) params m)\<rparr>)" if "ses_map s = GQUIC m" for w m
    using assms that by (auto simp: leg_UpdateLimits_def streams_ok_def senders_def in_map_def str_calls_send_half)
  ultimately show ?thesis
    by (cases "ses_map s") (simp_all add: ses_UpdateLimits_def streams_ok_fields report_ok)
qed

lemma ses_AcceptUniStream_ok: "streams_ok v s \<Longrightarrow> streams_ok v (snd (ses_AcceptUniStream s))"
  by (simp add: ses_AcceptUniStream_def map_AcceptUniStream_def in_AcceptStream_def streams_ok_def senders_def
      Let_def split_beta split: streamManager.splits option.splits)

lemma ses_AcceptStream_ok: "streams_ok v s \<Longrightarrow> streams_ok v (snd (ses_AcceptStream s))"
  by (simp add: ses_AcceptStream_def map_AcceptStream_def in_AcceptStream_def leg_AcceptStream_def streams_ok_def senders_def
      Let_def split_beta split: streamManager.splits option.splits)

lemma window_update_of_ok:
  assumes "streams_ok v s" "id_ok v sid"
  shows "streams_ok v (snd (window_update_of epoch now rtt sid s))"
proof (cases "sid = CryptoStreamID (ses_version s)")
  case False
  obtain res s1 where g: "getReceiveStream sid s = (res, s1)" by fastforce
  note ok = getReceiveStream_ok [OF assms g]
  consider e where "res = Inl e" | "res = Inr None" | b where "res = Inr (Some (Inl b))" | ur where "res = Inr (Some (Inr ur))"
    by (cases res) (auto, metis not_None_eq sum.exhaust)
  then show ?thesis
    by cases (use False g ok in \<open>auto simp: window_update_of_def Let_def split_beta streams_ok_fields intro!: put_bidi_ok put_recv_ok\<close>)
qed (use assms in \<open>simp add: window_update_of_def Let_def split_beta streams_ok_fields\<close>)

lemma QueueAll_ok:
  "streams_ok v s \<Longrightarrow> \<forall>sid \<in> set sids. id_ok v sid \<Longrightarrow> streams_ok v (snd (QueueAll epoch now rtt sids s))"
proof (induction sids arbitrary: s)
  case (Cons sid sids)
  then have "streams_ok v (snd (window_update_of epoch now rtt sid s))" by (intro window_update_of_ok) simp_all
  with Cons show ?case by (simp add: Let_def split_beta streams_ok_fields)
qed simp

subsection \<open>Runs of a session\<close>

text \<open>The steps: frames of the peer, whose identifiers are those that the parser lets through, every method the application
  can call on a stream of its own, the steps of a \<open>Read\<close> or \<open>Write\<close> that waits, what a stream reports that
  left its map while the application still holds it, what the session sends, and its end. A \<open>Write\<close> stays within the
  offsets of a stream; \<open>OpenStreamSync\<close> changes the streams as \<open>OpenStream\<close> does, and \<open>SetDeadline\<close> is
  the two deadlines.\<close>

inductive ses_step :: "VersionNumber \<Rightarrow> session_streams \<Rightarrow> session_streams \<Rightarrow> bool" for v where
  stream_frame: "id_ok v (sf_StreamID f) \<Longrightarrow> ses_step v s (snd (ses_handleStreamFrame f s))"
| rst_frame: "id_ok v (rst_StreamID f) \<Longrightarrow> ses_step v s (snd (ses_handleRstStreamFrame f s))"
| max_stream_data: "id_ok v (msd_StreamID f) \<Longrightarrow> ses_step v s (snd (ses_handleMaxStreamDataFrame f s))"
| stop_sending: "id_ok v (ss_StreamID f) \<Longrightarrow> ses_step v s (snd (ses_handleStopSendingFrame f s))"
| max_stream_id: "ses_step v s (snd (ses_handleMaxStreamIDFrame f s))"
| max_data: "ses_step v s (ses_handleMaxDataFrame f s)"
| transport_parameters: "ses_step v s (ses_UpdateLimits order params s)"
| open_stream: "id_ok v (next_id s) \<Longrightarrow> ses_step v s (snd (ses_OpenStream s))"
| open_uni_stream: "id_ok v (next_uni_id s) \<Longrightarrow> ses_step v s (snd (ses_OpenUniStream s))"
| accept: "ses_step v s (snd (ses_AcceptStream s))"
| accept_uni: "ses_step v s (snd (ses_AcceptUniStream s))"
| write_begin: "(\<And>ss. find_sender sid s = Some ss \<Longrightarrow> unat (writeOffset ss) + length p < 2 ^ 62) \<Longrightarrow>
    ses_step v s (app_Write now p sid s)"
| write_wake: "ses_step v s (app_Write_wake now k sid s)"
| close: "ses_step v s (app_Close sid s)"
| cancel_write: "ses_step v s (app_CancelWrite code sid s)"
| write_deadline: "ses_step v s (app_SetWriteDeadline t sid s)"
| read_begin: "ses_step v s (app_Read_begin now k sid s)"
| read_wake: "ses_step v s (app_Read_wake now sid s)"
| read_finish: "ses_step v s (app_Read_finish now k j f sid s)"
| cancel_read: "ses_step v s (app_CancelRead code sid s)"
| read_deadline: "ses_step v s (app_SetReadDeadline t sid s)"
| late_report: "ses_step v s (report calls s)"
| send_frames: "framer_ok v {sid. id_ok v sid} fr \<Longrightarrow> unat n \<le> 16384 \<Longrightarrow>
    PopStreamFrames ses_get ses_pop n fr s = Inr (fs, fr', s') \<Longrightarrow> ses_step v s s'"
| window_updates: "\<forall>sid \<in> set sids. id_ok v sid \<Longrightarrow> ses_step v s (snd (QueueAll epoch now rtt sids s))"
| close_session: "ses_step v s (ses_CloseWithError e s)"

lemma ses_step_ok: "ses_step v s s' \<Longrightarrow> streams_ok v s \<Longrightarrow> streams_ok v s'"
proof (induction rule: ses_step.induct)
  case (send_frames fr n s fs fr' s')
  with ses.PopStreamFrames_ok [OF send_frames.prems send_frames.hyps(1,2)] show ?case by auto
qed (auto intro: ses_handleStreamFrame_ok ses_handleRstStreamFrame_ok ses_handleMaxStreamDataFrame_ok
      ses_handleStopSendingFrame_ok ses_handleMax_ok ses_OpenStream_ok ses_AcceptStream_ok app_ok QueueAll_ok
      ses_OpenUniStream_ok ses_AcceptUniStream_ok ses_UpdateLimits_ok report_ok ses_CloseWithError_ok)

lemma ses_steps_ok: "(ses_step v)\<^sup>*\<^sup>* s s' \<Longrightarrow> streams_ok v s \<Longrightarrow> streams_ok v s'"
  by (induction rule: rtranclp_induct) (auto intro: ses_step_ok)

definition no_streams :: "session_streams \<Rightarrow> bool" where
  "no_streams s \<longleftrightarrow> (\<exists>a b pers. ses_map s = IETF (newStreamsMap a b pers)) \<or> (\<exists>n pers. ses_map s = GQUIC (newStreamsMapLegacy n pers))"

lemma no_streams_ok: "no_streams s \<Longrightarrow> ses_version s = v \<Longrightarrow> streams_ok v s"
  by (auto simp: no_streams_def streams_ok_def senders_def in_map_def newStreamsMap_def newOutgoingItemsMap_def
      newIncomingItemsMap_def newStreamsMapLegacy_def Let_def split: if_splits)

lemma id_ok_1: "id_ok v 1"
  by (simp add: id_ok_def word_le_nat_alt word_less_nat_alt push_bit_eq_mult)

text \<open>A server whose client allows streams, which opens one and writes three bytes.\<close>

definition new_session :: session_streams where
  "new_session =
     \<lparr>ses_version = VersionTLS, maxReceiveStreamWindow = 100, peerStreamWindow = 100,
      ses_map = IETF (newStreamsMap 10 10 PerspectiveServer),
      ses_cryptoStream = newStream 0 (NewStreamFlowController 0 False 100 100 100) VersionTLS,
      ses_conn = NewConnectionFlowController 100 100, windowUpdates = {}, ses_calls = [], ses_closeErr = None\<rparr>"

definition session_with_stream :: session_streams where
  "session_with_stream = snd (ses_OpenStream (snd (ses_handleMaxStreamIDFrame \<lparr>msi_StreamID = 5\<rparr> new_session)))"

definition writing_session :: session_streams where
  "writing_session = app_Write 0 [1, 2, 3] 1 session_with_stream"

lemma session_with_stream_found: "find_bidi 1 session_with_stream = Some (newBidi new_session 1)"
  by (simp add: session_with_stream_def ses_OpenStream_def ses_handleMaxStreamIDFrame_def new_session_def
      HandleMaxStreamIDFrame_def newStreamsMap_def getStreamType_def SetMaxStream_def newOutgoingItemsMap_def
      map_OpenStream_def out_OpenStream_def openStreamImpl_def find_bidi_def newBidi_def newFlowController_def Let_def)

lemma writing_session_run: "(ses_step VersionTLS)\<^sup>*\<^sup>* new_session writing_session"
proof -
  let ?s1 = "snd (ses_handleMaxStreamIDFrame \<lparr>msi_StreamID = 5\<rparr> new_session)"
  have "next_id ?s1 = 1"
    by (simp add: next_id_def ses_handleMaxStreamIDFrame_def new_session_def
      HandleMaxStreamIDFrame_def newStreamsMap_def getStreamType_def SetMaxStream_def newOutgoingItemsMap_def Let_def)
  then have "id_ok VersionTLS (next_id ?s1)" by (simp add: id_ok_1)
  then have "ses_step VersionTLS ?s1 session_with_stream" unfolding session_with_stream_def by (rule open_stream)
  moreover have "ses_step VersionTLS new_session ?s1" by (rule max_stream_id)
  moreover have "ses_step VersionTLS session_with_stream writing_session"
    unfolding writing_session_def
    by (rule write_begin) (simp add: find_sender_def session_with_stream_found newBidi_def newStream_def newSendStream_def)
  ultimately show ?thesis by (meson rtranclp.rtrancl_into_rtrancl rtranclp.rtrancl_refl)
qed

lemma new_session_ok: "no_streams new_session" "ses_version new_session = VersionTLS"
  by (auto simp: no_streams_def new_session_def)



text \<open>C38: Filling a packet with stream data never fails; the frames are well-formed and fit into the room there is,
  there are no more frames than streams that were served, and the streams are served in turns: those that were not served are
  first in the queue the next time.\<close>

theorem packet_is_filled_in_turns:
  assumes start: "no_streams s" "ses_version s = v" and run: "(ses_step v)\<^sup>*\<^sup>* s s'"
    and fr: "framer_ok v {sid. id_ok v sid} fr" and n: "unat n \<le> 16384"
  shows "\<exists>fs fr' s''. PopStreamFrames ses_get ses_pop n fr s' = Inr (fs, fr', s'') \<and> framer_ok v {sid. id_ok v sid} fr'
    \<and> total_length v fs \<le> unat n \<and> (\<forall>g \<in> set fs. StreamFrame_wf v g \<and> sf_DataLenPresent g)
    \<and> (\<exists>served rest kept. streamQueue fr = served @ rest \<and> streamQueue fr' = rest @ kept \<and> set kept \<subseteq> set served
         \<and> length fs \<le> length served)"
proof -
  have "streams_ok v s'" using ses_steps_ok [OF run no_streams_ok [OF start]] .
  from ses.PopStreamFrames_ok [OF this fr n] show ?thesis by blast
qed

theorem packet_is_filled_in_turns_witness:
  "\<exists>fs fr' s''. PopStreamFrames ses_get ses_pop 1000 (AddActiveStream 1 (newStreamFramer VersionTLS)) writing_session = Inr (fs, fr', s'')
     \<and> total_length VersionTLS fs \<le> 1000"
proof -
  have "framer_ok VersionTLS {sid. id_ok VersionTLS sid} (AddActiveStream 1 (newStreamFramer VersionTLS))"
    by (simp add: framer_ok_Add framer_ok_new id_ok_1)
  from packet_is_filled_in_turns [OF new_session_ok writing_session_run this, of 1000] show ?thesis by auto
qed

end
