(* ===== verification/Packer_Runs.thy ===== *)
theory Packer_Runs
  imports Packet_Packer Session_Frames
begin

section \<open>Packets that reach the peer\<close>

text \<open>
  The packer with the framer and the streams of a session behind it, up to the receiver's parser of headers and
  unpacker: what is packed fits into a packet, and the peer is given the frames that were put into it.
\<close>

subsection \<open>Sizes\<close>

definition wire_size :: "Duration \<Rightarrow> VersionNumber \<Rightarrow> Frame \<Rightarrow> nat" where
  "wire_size since v f = (case Frame_Write since f v of Inl _ \<Rightarrow> 0 | Inr bs \<Rightarrow> length bs)"

definition wire_sizes :: "Duration \<Rightarrow> VersionNumber \<Rightarrow> Frame list \<Rightarrow> nat" where
  "wire_sizes since v fs = sum_list (map (wire_size since v) fs)"

lemma wire_sizes_simps [simp]:
  "wire_sizes since v [] = 0" "wire_sizes since v (f # fs) = wire_size since v f + wire_sizes since v fs"
  "wire_sizes since v (fs @ gs) = wire_sizes since v fs + wire_sizes since v gs"
  by (simp_all add: wire_sizes_def)

lemma wf_frame_size:
  assumes "Frame_wf v hdr f"
  shows "\<exists>bs. Frame_Write since f v = Inr bs \<and> length bs = wire_size since v f"
    and "Frame_Length f v = Inr (of_nat (wire_size since v f))"
proof -
  have "written since v hdr f []" using assms by (intro written_frame) simp_all
  then show "\<exists>bs. Frame_Write since f v = Inr bs \<and> length bs = wire_size since v f"
    "Frame_Length f v = Inr (of_nat (wire_size since v f))"
    by (auto simp: written_def wire_size_def)
qed

lemma Frames_Write_size:
  assumes "\<forall>f \<in> set fs. Frame_wf v hdr f"
  shows "\<exists>bs. Frames_Write since v fs = Inr bs \<and> length bs = wire_sizes since v fs"
  using assms
proof (induction fs)
  case (Cons f fs)
  then obtain bs bss where "Frames_Write since v fs = Inr bss" "length bss = wire_sizes since v fs"
    "Frame_Write since f v = Inr bs" "length bs = wire_size since v f"
    using wf_frame_size(1) [of v hdr f since] by auto
  then show ?case by simp
qed simp

lemma total_Length_size:
  assumes "\<forall>f \<in> set fs. Frame_wf v hdr f"
  shows "total_Length v fs = Inr (of_nat (wire_sizes since v fs))"
  using assms
proof (induction fs)
  case (Cons f fs)
  then show ?case using wf_frame_size(2) [of v hdr f since] by simp
qed simp

text \<open>Control frames are taken while there is room.\<close>

lemma take_control_frames_ok:
  assumes "\<forall>f \<in> set fs. Frame_wf v hdr f \<and> wire_size since v f < 2 ^ 32" "l \<le> unat maxSize" "unat maxSize < 2 ^ 32"
  shows "\<exists>taken l' rest. take_control_frames v maxSize (of_nat l) fs = Inr (taken, of_nat l', rest) \<and> fs = taken @ rest
    \<and> l' = l + wire_sizes since v taken \<and> l' \<le> unat maxSize"
  using assms
proof (induction fs arbitrary: l)
  case (Cons f fs)
  let ?n = "wire_size since v f"
  have len: "Frame_Length f v = Inr (of_nat ?n)" using Cons.prems(1) by (auto intro: wf_frame_size(2))
  have "l + ?n < 2 ^ 64" using Cons.prems by simp
  then have u: "unat (of_nat l + of_nat ?n :: uint64) = l + ?n" by (simp add: of_nat_add [symmetric] unat_of_nat64 del: of_nat_add)
  show ?case
  proof (cases "l + ?n \<le> unat maxSize")
    case True
    with Cons obtain taken l' rest where "take_control_frames v maxSize (of_nat (l + ?n)) fs = Inr (taken, of_nat l', rest)"
      "fs = taken @ rest" "l' = (l + ?n) + wire_sizes since v taken" "l' \<le> unat maxSize" by fastforce
    moreover have "\<not> maxSize < of_nat l + of_nat ?n" using True u by (simp add: word_less_nat_alt)
    ultimately show ?thesis using len by auto
  next
    case False
    then have "maxSize < of_nat l + of_nat ?n" using u by (simp add: word_less_nat_alt)
    then have "take_control_frames v maxSize (of_nat l) (f # fs) = Inr ([], of_nat l, f # fs)" using len by simp
    with Cons.prems(2) show ?thesis by auto
  qed
qed auto

text \<open>STREAM frames; the last one loses its length field.\<close>

lemma WriteVarInt_length: "WriteVarInt i = Inr bs \<Longrightarrow> length bs \<le> 8"
  by (auto simp: WriteVarInt_def split: if_splits)

lemma StreamFrame_Write_length:
  assumes "StreamFrame_wf v f" "StreamFrame_Write f v = Inr bs"
  shows "length bs \<le> 25 + length (sf_Data f)"
proof (cases "UsesIETFFrameFormat v")
  case True
  then show ?thesis
    using assms(2) by (fastforce simp: StreamFrame_Write_def Let_def ebind_Inr_iff dest: WriteVarInt_length split: if_splits)
next
  case False
  then have "sf_StreamID f < shl 1 32" using assms(1) by (simp add: StreamFrame_wf_def)
  then show ?thesis
    using assms(2) False unat_getOffsetLength [of f] unat_calculateStreamIDLength [of f]
    by (auto simp: StreamFrame_Write_def StreamFrame_writeLegacy_def write_StreamID_eq write_Offset_eq ebind_Inr_iff split: if_splits)
qed

lemma stream_wire_size:
  assumes "StreamFrame_wf v f"
  shows "wire_size since v (Frame_Stream f) = stream_header v f + len_field v f (length (sf_Data f)) + length (sf_Data f)"
    (is "_ = ?n")
proof -
  obtain bs where bs: "StreamFrame_Write f v = Inr bs" "StreamFrame_Length f v = Inr (of_nat (length bs))"
    using ParseStreamFrame_Write [OF assms, of "[]"] StreamFrame_Length_eq [OF assms] wf_frame_size [of v undefined "Frame_Stream f" since] assms
    by (auto simp: Frame_wf_simps Frame_Write_def Frame_Length_def wire_size_def)
  have d: "length (sf_Data f) < 2 ^ 62" by (rule StreamFrame_wf_limits [OF assms])
  have "?n < 2 ^ 64" using d stream_header_bounds [of v f] len_field_bound [of v f "length (sf_Data f)"] by simp
  moreover have "length bs < 2 ^ 64" using StreamFrame_Write_length [OF assms bs(1)] d by simp
  moreover have "(of_nat (length bs) :: uint64) = of_nat ?n" using bs(2) StreamFrame_Length_eq [OF assms] by simp
  ultimately have "length bs = ?n" by (metis unat_of_nat64)
  then show ?thesis using bs(1) by (simp add: wire_size_def Frame_Write_def)
qed

lemma total_length_wire:
  assumes "\<forall>f \<in> set fs. StreamFrame_wf v f"
  shows "total_length v fs = wire_sizes since v (map Frame_Stream fs)"
  using assms
proof (induction fs)
  case (Cons f fs)
  then have wf: "StreamFrame_wf v f" by simp
  have "wire_size since v (Frame_Stream f) < 2 ^ 64"
    using stream_wire_size [OF wf, of since] StreamFrame_wf_limits(5) [OF wf] stream_header_bounds [of v f]
      len_field_bound [of v f "length (sf_Data f)"] by simp
  then show ?case
    using Cons StreamFrame_Length_eq [OF wf] stream_wire_size [OF wf, of since]
    by (simp add: unat_of_nat64 del: of_nat_add)
qed simp

lemma shortened_wire_size:
  assumes "StreamFrame_wf v f" "sf_DataLenPresent f"
  shows "wire_size since v (Frame_Stream (f\<lparr>sf_DataLenPresent := False\<rparr>)) + (if UsesIETFFrameFormat v then 1 else 2)
    \<le> wire_size since v (Frame_Stream f)"
proof -
  let ?g = "f\<lparr>sf_DataLenPresent := False\<rparr>"
  have wf: "StreamFrame_wf v ?g" using assms(1) by (cases "UsesIETFFrameFormat v") (simp_all add: StreamFrame_wf_def)
  have "stream_header v ?g = stream_header v f"
    by (simp add: stream_header_def calculateStreamIDLength_def getOffsetLength_def)
  then show ?thesis
    using stream_wire_size [OF assms(1), of since] stream_wire_size [OF wf, of since] assms(2)
      varint_size_bounds(1) [of "length (sf_Data f)"]
    by (simp add: len_field_def)
qed

lemma set_last_streams:
  assumes "\<forall>f \<in> set fs. StreamFrame_wf v f \<and> sf_DataLenPresent f"
  defines "gs \<equiv> set_last_DataLen False (map Frame_Stream fs)"
  shows "\<forall>g \<in> set gs. \<exists>f. g = Frame_Stream f \<and> StreamFrame_wf v f" "\<forall>g \<in> set (butlast gs). self_delimiting g"
    and "gs = [] \<longleftrightarrow> fs = []"
    and "fs \<noteq> [] \<Longrightarrow> wire_sizes since v gs + (if UsesIETFFrameFormat v then 1 else 2) \<le> total_length v fs"
proof -
  have "(\<forall>g \<in> set gs. \<exists>f. g = Frame_Stream f \<and> StreamFrame_wf v f) \<and> (\<forall>g \<in> set (butlast gs). self_delimiting g)
    \<and> (gs = [] \<longleftrightarrow> fs = []) \<and> (fs \<noteq> [] \<longrightarrow> wire_sizes since v gs + (if UsesIETFFrameFormat v then 1 else 2) \<le> total_length v fs)"
  proof (cases fs rule: rev_cases)
    case (snoc fs' f)
    have f: "StreamFrame_wf v f" "sf_DataLenPresent f" using assms(1) snoc by simp_all
    have gs: "gs = map Frame_Stream fs' @ [Frame_Stream (f\<lparr>sf_DataLenPresent := False\<rparr>)]"
      by (simp add: gs_def snoc set_last_DataLen_def)
    have "StreamFrame_wf v (f\<lparr>sf_DataLenPresent := False\<rparr>)"
      using f(1) by (cases "UsesIETFFrameFormat v") (simp_all add: StreamFrame_wf_def)
    moreover have "total_length v fs = wire_sizes since v (map Frame_Stream fs)"
      using assms(1) by (intro total_length_wire) simp
    ultimately show ?thesis
      using assms(1) shortened_wire_size [OF f, of since] by (auto simp: gs snoc self_delimiting_def)
  qed (simp add: gs_def set_last_DataLen_def)
  then show "\<forall>g \<in> set gs. \<exists>f. g = Frame_Stream f \<and> StreamFrame_wf v f" "\<forall>g \<in> set (butlast gs). self_delimiting g"
    "gs = [] \<longleftrightarrow> fs = []" "fs \<noteq> [] \<Longrightarrow> wire_sizes since v gs + (if UsesIETFFrameFormat v then 1 else 2) \<le> total_length v fs"
    by blast+
qed

subsection \<open>The header\<close>

text \<open>What the parser makes of the header: the fields that are not sent have their default.\<close>

definition seen :: "VersionNumber \<Rightarrow> PacketHeader \<Rightarrow> PacketHeader" where
  "seen v h = h\<lparr>hdr_isPublicHeader := \<not> UsesTLS v,
                hdr_ConnectionID := (if hdr_OmitConnectionID h then 0 else hdr_ConnectionID h)\<rparr>"

definition packer_ok :: "VersionNumber \<Rightarrow> packetPacker \<Rightarrow> bool" where
  "packer_ok v p \<longleftrightarrow> packer_version p = v \<and> v \<noteq> 0 \<and> packer_connectionID p \<noteq> 0
     \<and> (omitConnectionID p \<longrightarrow> packer_perspective p = PerspectiveServer)"

lemma seen_same:
  assumes "hdr_OmitConnectionID h \<longrightarrow> \<not> hdr_IsLongHeader h"
  shows "Header_Write pers v (seen v h) = Header_Write pers v h" "Header_GetLength pers v (seen v h) = Header_GetLength pers v h"
proof -
  have "write_public_number (seen v h) = write_public_number h" "hasPacketNumber pers (seen v h) = hasPacketNumber pers h"
    "public_flags pers (seen v h) = public_flags pers h"
    by (simp_all add: seen_def write_public_number_def hasPacketNumber_def public_flags_def Let_def)
  note same = this
  show "Header_Write pers v (seen v h) = Header_Write pers v h"
    using assms unfolding Header_Write_def writePublicHeader_def writeHeader_def writeLongHeader_def writeShortHeader_def same
    by (auto simp: seen_def Let_def)
  show "Header_GetLength pers v (seen v h) = Header_GetLength pers v h"
    unfolding Header_GetLength_def getPublicHeaderLength_def getHeaderLength_def same by (simp add: seen_def)
qed

lemma getHeader_long: "hdr_OmitConnectionID (getHeader cs lvl p) \<longrightarrow> \<not> hdr_IsLongHeader (getHeader cs lvl p)"
  by (simp add: getHeader_def empty_header_def Let_def)

lemma getHeader_wf:
  assumes "packer_ok v p" "length (DiversificationNonce cs) = 32"
  shows "header_wf (packer_perspective p) v (seen v (getHeader cs lvl p))"
  using assms
  by (cases "packer_perspective p") (auto simp: packer_ok_def header_wf_def public_wf_def ietf_wf_def seen_def getHeader_def empty_header_def
      GetPacketNumberLengthForHeader_def Let_def split: if_splits)

lemma getHeader_length:
  fixes lvl :: EncryptionLevel
  assumes "packer_ok v p" "length (DiversificationNonce cs) = 32"
  defines "h \<equiv> getHeader cs lvl p"
  shows "\<exists>bs. Header_Write (packer_perspective p) v h = Inr bs \<and> length bs \<le> 60
    \<and> Header_GetLength (packer_perspective p) v h = Inr (of_nat (length bs))
    \<and> (\<forall>r. ParseHeaderSentBy (packer_perspective p) v (bs @ r) = Inr ((seen v h)\<lparr>hdr_PacketNumber := number_sent (seen v h)\<rparr>, r))"
proof -
  note same = seen_same [OF getHeader_long, of "packer_perspective p" v cs lvl p]
  note wf = getHeader_wf [OF assms(1,2), of lvl]
  obtain bs where bs: "Header_Write (packer_perspective p) v h = Inr bs"
    "Header_GetLength (packer_perspective p) v h = Inr (of_nat (length bs))"
    using header_survives [OF wf] same by (auto simp: h_def)
  have "ParseHeaderSentBy (packer_perspective p) v (bs @ r) = Inr ((seen v h)\<lparr>hdr_PacketNumber := number_sent (seen v h)\<rparr>, r)" for r
    using header_survives [OF wf, of r] same bs(1) by (auto simp: h_def)
  moreover have "length bs \<le> 60"
  proof -
    have "packer_version p = v" using assms(1) by (simp add: packer_ok_def)
    have hl: "hdr_PacketNumberLen h \<in> {PacketNumberLen1, PacketNumberLen2, PacketNumberLen4, PacketNumberLen6}"
      "length (hdr_DiversificationNonce h) \<le> 32"
      using assms(2) by (auto simp: h_def getHeader_def empty_header_def GetPacketNumberLengthForHeader_def Let_def)
    then have n: "write_public_number h = Inr num \<Longrightarrow> length num \<le> 6" for num
      using write_public_number_eq [OF hl(1)] by auto
    show ?thesis
      using bs(1) hl
      by (auto simp: Header_Write_def writePublicHeader_def writeHeader_def writeLongHeader_def writeShortHeader_def ebind_Inr_iff Let_def
          dest!: n split: if_splits)
  qed
  ultimately show ?thesis using bs by blast
qed

subsection \<open>The frames of a packet\<close>

definition session_source :: "session_streams frame_source" where
  "session_source = \<lparr>src_get = ses_get, src_pop = ses_pop, src_popCrypto = ses_popCrypto\<rparr>"

definition control_ok :: "Duration \<Rightarrow> VersionNumber \<Rightarrow> Frame \<Rightarrow> bool" where
  "control_ok since v f \<longleftrightarrow> (\<forall>hdr. Frame_wf v hdr f) \<and> (\<forall>sf. f \<noteq> Frame_Stream sf) \<and> wire_size since v f < 2 ^ 32"

text \<open>The frames that can be written one after the other, the last one possibly without a length.\<close>

definition payload_ok :: "VersionNumber \<Rightarrow> Header \<Rightarrow> bool \<Rightarrow> Frame list \<Rightarrow> bool" where
  "payload_ok v hdr streams fs \<longleftrightarrow> (\<forall>f \<in> set fs. Frame_wf v hdr f) \<and> (\<forall>f \<in> set (butlast fs). self_delimiting f)
     \<and> (\<not> streams \<longrightarrow> (\<forall>f \<in> set fs. \<forall>sf. f \<noteq> Frame_Stream sf))"

lemma payload_ok_append:
  assumes "\<forall>f \<in> set fs. Frame_wf v hdr f \<and> (\<forall>sf. f \<noteq> Frame_Stream sf)" "payload_ok v hdr streams gs"
  shows "payload_ok v hdr streams (fs @ gs)"
  using assms by (cases "gs = []") (auto simp: payload_ok_def butlast_append self_delimiting_def split: Frame.splits dest: in_set_butlastD)

lemma composeNextPacket_ok:
  assumes ok: "streams_ok v w" "framer_ok v {sid. id_ok v sid} f" "packer_version p = v"
    and control: "\<forall>fr \<in> set (controlFrames p). control_ok since v fr"
    and first: "\<forall>fr \<in> set (ack_and_stop_waiting p). Frame_wf v hdr fr" "wire_sizes since v (ack_and_stop_waiting p) \<le> unat maxSize"
    and max: "unat maxSize \<le> 1200"
  shows "\<exists>fs rest f' w'. composeNextPacket session_source maxSize streams p f w
      = Inr (ack_and_stop_waiting p @ fs, p\<lparr>controlFrames := rest\<rparr>, f', w')
    \<and> payload_ok v hdr streams (ack_and_stop_waiting p @ fs) \<and> wire_sizes since v (ack_and_stop_waiting p @ fs) \<le> unat maxSize
    \<and> set rest \<subseteq> set (controlFrames p) \<and> streams_ok v w' \<and> framer_ok v {sid. id_ok v sid} f'"
proof -
  let ?first = "ack_and_stop_waiting p"
  have nostream: "\<forall>fr \<in> set ?first. \<forall>sf. fr \<noteq> Frame_Stream sf" by (auto simp: ack_and_stop_waiting_def split: option.splits)
  obtain taken l rest where t: "take_control_frames v maxSize (of_nat (wire_sizes since v ?first)) (rev (controlFrames p)) = Inr (taken, of_nat l, rest)"
    "rev (controlFrames p) = taken @ rest" "l = wire_sizes since v ?first + wire_sizes since v taken" "l \<le> unat maxSize"
    using take_control_frames_ok [of "rev (controlFrames p)" v hdr since "wire_sizes since v ?first" maxSize] control first(2) max
    by (auto simp: control_ok_def)
  define rest' where "rest' = rev rest"
  have sub: "set taken \<subseteq> set (controlFrames p)" "set rest' \<subseteq> set (controlFrames p)"
    unfolding rest'_def using t(2) by (metis Un_upper1 set_append set_rev, metis Un_upper2 set_append set_rev)
  have ul: "unat (of_nat l :: uint64) = l" using t(4) max by (simp add: unat_of_nat64)
  have tf: "\<forall>fr \<in> set (?first @ taken). Frame_wf v hdr fr \<and> (\<forall>sf. fr \<noteq> Frame_Stream sf)"
    using first(1) nostream control sub(1) by (auto simp: control_ok_def)
  have c: "composeNextPacket session_source maxSize streams p f w =
    (if \<not> streams then Inr (?first @ taken, p\<lparr>controlFrames := rest'\<rparr>, f, w)
     else ebind (PopStreamFrames ses_get ses_pop (maxSize + (if UsesIETFFrameFormat v then 1 else 2) - of_nat l) f w) (\<lambda>(fs, f, w).
        Inr (?first @ taken @ set_last_DataLen False (map Frame_Stream fs), p\<lparr>controlFrames := rest'\<rparr>, f, w)))"
    using total_Length_size [OF first(1), of since] t(1,4) ul
    by (simp add: composeNextPacket_def session_source_def ok(3) word_less_nat_alt rest'_def)
  show ?thesis
  proof (cases streams)
    case False
    moreover have "payload_ok v hdr streams (?first @ taken @ [])"
      using payload_ok_append [OF tf, of streams "[]"] by (simp add: payload_ok_def)
    ultimately show ?thesis using c t(3,4) sub(2) ok by (auto; blast)
  next
    case True
    define d :: nat where "d = (if UsesIETFFrameFormat v then 1 else 2)"
    define n where "n = maxSize + (if UsesIETFFrameFormat v then 1 else 2) - of_nat l"
    have "unat (maxSize + (if UsesIETFFrameFormat v then 1 else 2)) = unat maxSize + d"
      using max by (auto simp: d_def intro!: trans [OF unat_add64])
    then have n: "unat n = unat maxSize + d - l" "unat n \<le> 16384"
      using t(4) ul max unat_sub64 [of "of_nat l" "maxSize + (if UsesIETFFrameFormat v then 1 else 2)"]
      by (auto simp: n_def d_def split: if_splits)
    from ses.PopStreamFrames_ok [OF ok(1,2) n(2)] obtain fs f' w' where
      p: "PopStreamFrames ses_get ses_pop n f w = Inr (fs, f', w')" "streams_ok v w'" "framer_ok v {sid. id_ok v sid} f'"
        "total_length v fs \<le> unat n" "\<forall>g \<in> set fs. StreamFrame_wf v g \<and> sf_DataLenPresent g" by blast
    note l = set_last_streams [OF p(5)]
    let ?gs = "set_last_DataLen False (map Frame_Stream fs)"
    have "wire_sizes since v ?gs + l \<le> unat maxSize"
    proof (cases "fs = []")
      case False
      then show ?thesis using l(4) [OF False, of since] p(4) n(1) t(4) by (simp add: d_def split: if_splits)
    qed (use t(4) in \<open>simp add: set_last_DataLen_def\<close>)
    moreover have "payload_ok v hdr streams ?gs"
      using l(1,2) True by (auto simp: payload_ok_def Frame_wf_simps)
    then have "payload_ok v hdr streams ((?first @ taken) @ ?gs)" by (rule payload_ok_append [OF tf])
    ultimately show ?thesis using c True p(1-3) t(3) sub(2) by (auto simp: n_def; blast)
  qed
qed

text \<open>A PING is only added where there is nothing but the ACK and the STOP_WAITING frame.\<close>

lemma add_ping_cases:
  assumes "add_ping (packer_stopWaiting p \<noteq> None) (ack_and_stop_waiting p @ fs) p = (frames, p')"
  shows "(frames = ack_and_stop_waiting p @ fs \<or> frames = ack_and_stop_waiting p @ [Frame_Ping])
    \<and> p' = p\<lparr>numNonRetransmittableAcks := numNonRetransmittableAcks p'\<rparr>"
proof -
  have "length (ack_and_stop_waiting p) = (if packer_ackFrame p = None then 0 else 1) + (if packer_stopWaiting p = None then 0 else 1)"
    by (simp add: ack_and_stop_waiting_def split: option.split)
  then have "frames = ack_and_stop_waiting p @ fs \<or> frames = ack_and_stop_waiting p @ [Frame_Ping]"
    using assms by (auto simp: add_ping_def split: if_splits)
  moreover have "p' \<in> {p, p\<lparr>numNonRetransmittableAcks := 0\<rparr>, p\<lparr>numNonRetransmittableAcks := numNonRetransmittableAcks p + 1\<rparr>}"
    using assms unfolding add_ping_def by (auto split: if_splits)
  then have "p' = p\<lparr>numNonRetransmittableAcks := numNonRetransmittableAcks p'\<rparr>" by (elim insertE) simp_all
  ultimately show ?thesis by blast
qed

lemma payload_ok_ping:
  assumes "\<forall>fr \<in> set (ack_and_stop_waiting p). Frame_wf v hdr fr"
  shows "payload_ok v hdr streams (ack_and_stop_waiting p @ [Frame_Ping])" "wire_size since v Frame_Ping = 1"
proof -
  have "\<forall>fr \<in> set (ack_and_stop_waiting p). \<forall>sf. fr \<noteq> Frame_Stream sf" by (auto simp: ack_and_stop_waiting_def split: option.splits)
  then show "payload_ok v hdr streams (ack_and_stop_waiting p @ [Frame_Ping])"
    using assms by (intro payload_ok_append) (auto simp: payload_ok_def Frame_wf_def)
  show "wire_size since v Frame_Ping = 1" by (simp add: wire_size_def Frame_Write_def PingFrame_Write_def)
qed

subsection \<open>Sealing\<close>

lemma writeAndSealPacket_ok:
  assumes "payload_ok v hdr streams frames" "packer_version p = v" "hdr_Type h \<noteq> PacketTypeInitial"
    and "Header_Write (packer_perspective p) v h = Inr hb" "hdr_PacketNumber h = Peek (packer_generator p)"
    and "length hb + wire_sizes since v frames + Overhead s \<le> 1200"
  shows "\<exists>bs g. Frames_Write since v frames = Inr bs \<and> length bs = wire_sizes since v frames
    \<and> writeAndSealPacket since rnd h frames s p
      = (Inr (hb @ Seal s bs (hdr_PacketNumber h) hb, frames), p\<lparr>packer_generator := g, hasSentPacket := True\<rparr>)"
proof -
  obtain bs where bs: "Frames_Write since v frames = Inr bs" "length bs = wire_sizes since v frames"
    using Frames_Write_size [of frames v hdr since] assms(1) by (auto simp: payload_ok_def)
  have "fst (pn_Pop rnd (packer_generator p)) = Peek (packer_generator p)" by (simp add: pn_Pop_def Peek_def Let_def)
  then obtain g where g: "pn_Pop rnd (packer_generator p) = (hdr_PacketNumber h, g)"
    using assms(5) by (metis prod.collapse)
  then have "writeAndSealPacket since rnd h frames s p
      = (Inr (hb @ Seal s bs (hdr_PacketNumber h) hb, frames), p\<lparr>packer_generator := g, hasSentPacket := True\<rparr>)"
    using bs assms by (simp add: writeAndSealPacket_def padding_length_def MaxPacketSize_def Let_def)
  with bs show ?thesis by blast
qed

subsection \<open>From the packer to the peer\<close>

definition frame_header :: "PacketHeader \<Rightarrow> Header" where
  "frame_header h = \<lparr>hdr_PacketNumber = hdr_PacketNumber h, hdr_PacketNumberLen = hdr_PacketNumberLen h\<rparr>"

text \<open>A peer with the key gets the header, up to the upper bits of the packet number, and the frames.\<close>

definition reaches_peer ::
  "(byte list \<Rightarrow> PacketNumber \<Rightarrow> byte list \<Rightarrow> goerr + byte list \<times> EncryptionLevel) \<Rightarrow> Duration \<Rightarrow> Perspective
   \<Rightarrow> VersionNumber \<Rightarrow> packedPacket \<Rightarrow> bool" where
  "reaches_peer aead_Open since pers v pkt \<longleftrightarrow> length (pp_raw pkt) \<le> unat MaxPacketSize
     \<and> (\<exists>headerBinary data. pp_raw pkt = headerBinary @ data
          \<and> ParseHeaderSentBy pers v (pp_raw pkt)
              = Inr ((seen v (pp_header pkt))\<lparr>hdr_PacketNumber := number_sent (seen v (pp_header pkt))\<rparr>, data)
          \<and> Unpack aead_Open v headerBinary (frame_header (pp_header pkt)) data
              = Inr \<lparr>up_encryptionLevel = pp_encryptionLevel pkt, up_frames = map (received since v) (pp_frames pkt)\<rparr>)"

lemma sealed_packet_reaches_peer:
  assumes p: "packer_ok v p" "length (DiversificationNonce cs) = 32"
    and h: "h = getHeader cs lvl p0" "packer_generator p0 = packer_generator p" "packer_ok v p0"
      "packer_perspective p0 = packer_perspective p"
    and frames: "payload_ok v (frame_header h) streams frames" "frames \<noteq> []" "streams \<longrightarrow> EncryptionSecure \<le> lvl"
    and ty: "hdr_Type h \<noteq> PacketTypeInitial"
    and size: "\<And>hb. Header_Write (packer_perspective p) v h = Inr hb \<Longrightarrow> length hb + wire_sizes since v frames + Overhead s \<le> 1200"
    and seal: "\<And>pl n hb. length (Seal s pl n hb) = length pl + Overhead s" "\<And>pl n hb. aead_Open (Seal s pl n hb) n hb = Inr (pl, lvl)"
  shows "\<exists>raw p'. seal_frames since rnd h frames (lvl, s) p
      = (Inr \<lparr>pp_header = h, pp_raw = raw, pp_frames = frames, pp_encryptionLevel = lvl\<rparr>, p')
    \<and> packer_ok v p' \<and> controlFrames p' = controlFrames p
    \<and> reaches_peer aead_Open since (packer_perspective p) v \<lparr>pp_header = h, pp_raw = raw, pp_frames = frames, pp_encryptionLevel = lvl\<rparr>"
proof -
  obtain hb where hb: "Header_Write (packer_perspective p) v h = Inr hb"
    "\<And>r. ParseHeaderSentBy (packer_perspective p) v (hb @ r) = Inr ((seen v h)\<lparr>hdr_PacketNumber := number_sent (seen v h)\<rparr>, r)"
    using getHeader_length [OF h(3) p(2), of lvl] by (auto simp: h(1,4))
  have v: "packer_version p = v" using p(1) by (simp add: packer_ok_def)
  have num: "hdr_PacketNumber h = Peek (packer_generator p)"
    by (simp add: h(1) getHeader_def empty_header_def h(2) Let_def)
  obtain bs g where w: "Frames_Write since v frames = Inr bs" "length bs = wire_sizes since v frames"
    "writeAndSealPacket since rnd h frames s p
      = (Inr (hb @ Seal s bs (hdr_PacketNumber h) hb, frames), p\<lparr>packer_generator := g, hasSentPacket := True\<rparr>)"
    using writeAndSealPacket_ok [OF frames(1) v ty hb(1) num size [OF hb(1)]] by blast
  let ?data = "Seal s bs (hdr_PacketNumber h) hb"
  have "Unpack aead_Open v hb (frame_header h) ?data
      = Inr \<lparr>up_encryptionLevel = lvl, up_frames = map (received since v) frames\<rparr>"
  proof (rule unpack_written_packet [OF frames(2), where k = 0])
    have "\<not> unencrypted_stream_data v lvl (received since v f)" if "f \<in> set frames" for f
    proof -
      have "\<not> lvl \<le> EncryptionUnencrypted" if "EncryptionSecure \<le> lvl"
        using that by (cases lvl) (simp_all add: less_eq_EncryptionLevel_def)
      then show ?thesis
        using that frames(1,3) by (cases f) (auto simp: payload_ok_def unencrypted_stream_data_def received_def)
    qed
    then show "\<forall>f \<in> set frames. Frame_wf v (frame_header h) f \<and> \<not> unencrypted_stream_data v lvl (received since v f)"
      using frames(1) by (simp add: payload_ok_def)
    show "\<forall>f \<in> set (butlast frames). self_delimiting f" using frames(1) by (simp add: payload_ok_def)
    show "aead_Open ?data (hdr_PacketNumber (frame_header h)) hb = Inr (bs' @ replicate 0 0, lvl)"
      if "Frames_Write since v frames = Inr bs'" for bs'
      using that w(1) seal(2) by (simp add: frame_header_def)
  qed simp
  then have "reaches_peer aead_Open since (packer_perspective p) v
      \<lparr>pp_header = h, pp_raw = hb @ ?data, pp_frames = frames, pp_encryptionLevel = lvl\<rparr>"
    using size [OF hb(1)] w(2) seal(1) hb(2) by (auto simp: reaches_peer_def MaxPacketSize_def)
  moreover have "packer_ok v (p\<lparr>packer_generator := g, hasSentPacket := True\<rparr>)" using p(1) by (simp add: packer_ok_def)
  ultimately show ?thesis using w(3) by (simp add: seal_frames_def)
qed

definition numbered :: "PacketHeader \<Rightarrow> packetPacker \<Rightarrow> packetPacker" where
  "numbered h p = p\<lparr>packer_stopWaiting := map_option (with_number h) (packer_stopWaiting p)\<rparr>"

text \<open>C39: Packing a packet with new data never fails, and what is packed arrives: for every run of the streams of a
  session, and whatever control frames, ACK and STOP_WAITING frame are queued, as long as the latter two leave some
  room, \<open>PackPacket\<close> gives no packet or one that fits into the maximum size, whose header the peer parses up
  to the upper bits of the packet number, and that the peer, with the key, unpacks to exactly the frames that were put
  into it. No stream data is packed below the secure levels, as the unpacker would refuse it.\<close>

theorem packed_packet_reaches_peer:
  assumes run: "no_streams w0" "ses_version w0 = v" "(ses_step v)\<^sup>*\<^sup>* w0 w"
    and fr: "framer_ok v {sid. id_ok v sid} f" "\<not> hasCryptoStreamData f"
    and p: "packer_ok v p" "length (DiversificationNonce cs) = 32"
    and control: "\<forall>c \<in> set (controlFrames p). control_ok since v c"
    and sl: "GetSealer cs = (lvl, s)" and h: "h = getHeader cs lvl p"
    and first: "\<forall>c \<in> set (ack_and_stop_waiting (numbered h p)). Frame_wf v (frame_header h) c"
      "wire_sizes since v (ack_and_stop_waiting (numbered h p)) \<le> 1000"
    and seal: "Overhead s \<le> 100" "\<And>pl n hb. length (Seal s pl n hb) = length pl + Overhead s"
      "\<And>pl n hb. aead_Open (Seal s pl n hb) n hb = Inr (pl, lvl)"
  shows "\<exists>res p' f' w'. PackPacket cs session_source since rnd p f w = (Inr res, p', f', w')
    \<and> packer_ok v p' \<and> set (controlFrames p') \<subseteq> set (controlFrames p) \<and> framer_ok v {sid. id_ok v sid} f' \<and> streams_ok v w'
    \<and> (\<forall>pkt. res = Some pkt \<longrightarrow> reaches_peer aead_Open since (packer_perspective p) v pkt)"
proof (cases "hasSentPacket p")
  case False
  then have "PackPacket cs session_source since rnd p f w = (Inr None, p, f, w)" using fr(2) by (simp add: PackPacket_def)
  then show ?thesis using p(1) fr(1) ses_steps_ok [OF run(3) no_streams_ok [OF run(1,2)]] by auto
next
  case True
  define q where "q = numbered h p"
  have q: "packer_ok v q" "controlFrames q = controlFrames p" "packer_perspective q = packer_perspective p"
    "packer_generator q = packer_generator p" "packer_version q = v" "packer_version p = v"
    using p(1) by (simp_all add: q_def numbered_def packer_ok_def)
  obtain hb where hb: "Header_Write (packer_perspective p) v h = Inr hb" "length hb \<le> 60"
    "Header_GetLength (packer_perspective p) v h = Inr (of_nat (length hb))"
    using getHeader_length [OF p, of lvl] by (auto simp: h)
  define maxSize where "maxSize = MaxPacketSize - of_nat (Overhead s) - of_nat (length hb)"
  have maxSize: "unat maxSize = 1200 - Overhead s - length hb"
  proof -
    have "unat (of_nat (Overhead s) :: uint64) = Overhead s" "unat (of_nat (length hb) :: uint64) = length hb"
      using seal(1) hb(2) by (simp_all add: unat_of_nat64)
    then show ?thesis using seal(1) hb(2) unfolding maxSize_def MaxPacketSize_def by (subst unat_sub64; subst unat_sub64; simp)
  qed
  have ok: "streams_ok v w" using ses_steps_ok [OF run(3) no_streams_ok [OF run(1,2)]] .
  have control_q: "\<forall>c \<in> set (controlFrames q). control_ok since v c" using control q(2) by simp
  have "wire_sizes since v (ack_and_stop_waiting q) \<le> unat maxSize" "unat maxSize \<le> 1200"
    using first(2) maxSize seal(1) hb(2) by (simp_all add: q_def)
  from composeNextPacket_ok [OF ok fr(1) q(5) control_q first(1) [folded q_def] this, of "canSendData lvl p"]
  obtain fs rest f' w' where c: "composeNextPacket session_source maxSize (canSendData lvl p) q f w
      = Inr (ack_and_stop_waiting q @ fs, q\<lparr>controlFrames := rest\<rparr>, f', w')"
    "payload_ok v (frame_header h) (canSendData lvl p) (ack_and_stop_waiting q @ fs)"
    "wire_sizes since v (ack_and_stop_waiting q @ fs) \<le> unat maxSize"
    "set rest \<subseteq> set (controlFrames p)" "streams_ok v w'" "framer_ok v {sid. id_ok v sid} f'"
    using q(2) by auto
  define q1 where "q1 = q\<lparr>controlFrames := rest\<rparr>"
  define payload where "payload = ack_and_stop_waiting q @ fs"
  have q1: "packer_ok v q1" "packer_stopWaiting q1 = packer_stopWaiting q" "ack_and_stop_waiting q1 = ack_and_stop_waiting q"
    using q(1) by (simp_all add: q1_def packer_ok_def ack_and_stop_waiting_def)
  obtain frames q2 where ap: "add_ping (packer_stopWaiting q1 \<noteq> None) payload q1 = (frames, q2)" by fastforce
  define q3 where "q3 = q2\<lparr>packer_stopWaiting := None, packer_ackFrame := None\<rparr>"
  have same: "canSendData lvl q = canSendData lvl p" by (simp add: canSendData_def q(3))
  have pack: "PackPacket cs session_source since rnd p f w =
    (if payload = [] \<or> length payload = 1 \<and> packer_stopWaiting q1 \<noteq> None then (Inr None, q1, f', w')
     else let (res, p) = seal_frames since rnd h frames (lvl, s) q3 in (map_sum (\<lambda>e. e) Some res, p, f', w'))"
    using True fr(2) sl hb(3) c(1) ap q(6) same
    by (cases "packer_stopWaiting q1") (simp_all add: PackPacket_def h [symmetric] numbered_def [symmetric] q_def [symmetric] maxSize_def [symmetric] payload_def [symmetric]
        q1_def [symmetric] q3_def [symmetric] Let_def)
  show ?thesis
  proof (cases "payload = [] \<or> length payload = 1 \<and> packer_stopWaiting q1 \<noteq> None")
    case True
    then show ?thesis using pack q1(1) c(4-6) by (auto simp: q1_def)
  next
    case False
    note pc = add_ping_cases [of q1 fs, OF ap [unfolded payload_def, folded q1(3)]]
    then have q2: "q2 = q1\<lparr>numNonRetransmittableAcks := numNonRetransmittableAcks q2\<rparr>" by blast
    have q3: "packer_ok v q3" "packer_generator q3 = packer_generator p" "packer_perspective q3 = packer_perspective p"
      "controlFrames q3 = rest"
      unfolding q3_def by (subst q2, use q1(1) q(3,4) in \<open>simp add: q1_def packer_ok_def\<close>)+
    have payload: "payload_ok v (frame_header h) (canSendData lvl p) frames \<and> wire_sizes since v frames \<le> unat maxSize \<and> frames \<noteq> []"
    proof (cases "frames = ack_and_stop_waiting q @ fs")
      case False
      then have "frames = ack_and_stop_waiting q @ [Frame_Ping]" using pc q1(3) by simp
      then show ?thesis
        using payload_ok_ping [OF first(1) [folded q_def]] first(2) [folded q_def] maxSize seal(1) hb(2) by simp
    qed (use c(2,3) False in \<open>simp add: payload_def\<close>)
    have lvl: "canSendData lvl p \<longrightarrow> EncryptionSecure \<le> lvl"
      by (simp add: canSendData_def level_ge_def less_eq_EncryptionLevel_def)
    have ty: "hdr_Type h \<noteq> PacketTypeInitial"
      using True by (simp add: h getHeader_def empty_header_def PacketTypeInitial_def PacketTypeHandshake_def Let_def)
    have size: "length hb' + wire_sizes since v frames + Overhead s \<le> 1200" if "Header_Write (packer_perspective q3) v h = Inr hb'" for hb'
      using that hb(1,2) q3(3) payload maxSize seal(1) by auto
    obtain raw p' where "seal_frames since rnd h frames (lvl, s) q3
        = (Inr \<lparr>pp_header = h, pp_raw = raw, pp_frames = frames, pp_encryptionLevel = lvl\<rparr>, p')"
      "packer_ok v p'" "controlFrames p' = controlFrames q3"
      "reaches_peer aead_Open since (packer_perspective q3) v \<lparr>pp_header = h, pp_raw = raw, pp_frames = frames, pp_encryptionLevel = lvl\<rparr>"
      using sealed_packet_reaches_peer [OF q3(1) p(2) h _ p(1) _ _ _ lvl ty size seal(2,3)] payload q3(2,3) by metis
    then show ?thesis using pack [unfolded if_not_P [OF False]] c(4-6) q3(3,4) by simp
  qed
qed

text \<open>A server that has a MAX_DATA frame and stream data to send, with an AEAD that adds a tag of 12 bytes.\<close>

definition sample_setup :: crypto_setup where
  "sample_setup =
     \<lparr>GetSealer = (EncryptionForwardSecure, \<lparr>Overhead = 12, Seal = (\<lambda>pl n hb. pl @ replicate 12 0)\<rparr>),
      GetSealerForCryptoStream = (EncryptionForwardSecure, \<lparr>Overhead = 12, Seal = (\<lambda>pl n hb. pl @ replicate 12 0)\<rparr>),
      GetSealerWithEncryptionLevel = (\<lambda>lvl. Inl (GoErr ''no sealer'')), DiversificationNonce = replicate 32 0\<rparr>"

definition sample_packer :: packetPacker where
  "sample_packer = QueueControlFrame (Frame_MaxData \<lparr>md_ByteOffset = 1000\<rparr>)
     ((newPacketPacker 7 1 PerspectiveServer VersionTLS)\<lparr>hasSentPacket := True\<rparr>)"

definition sample_open :: "byte list \<Rightarrow> PacketNumber \<Rightarrow> byte list \<Rightarrow> goerr + byte list \<times> EncryptionLevel" where
  "sample_open d n hb = Inr (take (length d - 12) d, EncryptionForwardSecure)"

lemma sample_control_ok: "\<forall>c \<in> set (controlFrames sample_packer). control_ok 0 VersionTLS c"
proof -
  have "Frame_wf VersionTLS hdr (Frame_MaxData \<lparr>md_ByteOffset = 1000\<rparr>)" for hdr by (simp add: Frame_wf_def word_le_nat_alt)
  moreover from this have "wire_size 0 VersionTLS (Frame_MaxData \<lparr>md_ByteOffset = 1000\<rparr>) < 2 ^ 32"
    by (auto simp: wire_size_def Frame_Write_def MaxDataFrame_Write_def windowUpdateFrame_Write_def ebind_def
        dest: WriteVarInt_length split: sum.split)
  ultimately show ?thesis
    by (simp add: sample_packer_def QueueControlFrame_def newPacketPacker_def control_ok_def)
qed

theorem packed_packet_reaches_peer_witness:
  "\<exists>res p' f' w'. PackPacket sample_setup session_source 0 (Inr (0, 0)) sample_packer
       (AddActiveStream 1 (newStreamFramer VersionTLS)) writing_session = (Inr res, p', f', w')
     \<and> packer_ok VersionTLS p'"
proof -
  let ?f = "AddActiveStream 1 (newStreamFramer VersionTLS)"
  have f: "framer_ok VersionTLS {sid. id_ok VersionTLS sid} ?f" "\<not> hasCryptoStreamData ?f"
    by (simp_all add: framer_ok_Add framer_ok_new id_ok_1)
      (simp add: AddActiveStream_def newStreamFramer_def CryptoStreamID_def isGQUIC_def version_defs)
  have p: "packer_ok VersionTLS sample_packer" "length (DiversificationNonce sample_setup) = 32"
    "packer_ackFrame sample_packer = None" "packer_stopWaiting sample_packer = None"
    by (simp_all add: packer_ok_def sample_packer_def QueueControlFrame_def newPacketPacker_def sample_setup_def VersionTLS_def)
  have "ack_and_stop_waiting (numbered h sample_packer) = []" for h
    using p(3,4) by (simp add: ack_and_stop_waiting_def numbered_def)
  then show ?thesis
    using sample_control_ok packed_packet_reaches_peer [OF new_session_ok writing_session_run f p(1,2) _ _ refl, of 0 EncryptionForwardSecure
        "\<lparr>Overhead = 12, Seal = (\<lambda>pl n hb. pl @ replicate 12 0)\<rparr>" sample_open "Inr (0, 0)"]
    by (fastforce simp: sample_setup_def sample_open_def)
qed

subsection \<open>An ACK frame that fits no packet\<close>

lemma VarIntLen_bounds: "VarIntLen i = Inr l \<Longrightarrow> 1 \<le> unat l \<and> unat l \<le> 8"
  by (auto simp: VarIntLen_def split: if_splits)

lemma length_ack_blocks_bounds:
  assumes "length_ack_blocks lowest rs = Inr n" "length rs \<le> 1000"
  shows "2 * length rs \<le> unat n \<and> unat n \<le> 16 * length rs"
  using assms
proof (induction rs arbitrary: lowest n)
  case (Cons r rs)
  then obtain gap block m where g: "VarIntLen (lowest - ar_Last r - 2) = Inr gap" "VarIntLen (ar_Last r - ar_First r) = Inr block"
    "length_ack_blocks (ar_First r) rs = Inr m" "n = gap + block + m"
    by (auto simp: ebind_Inr_iff)
  have m: "2 * length rs \<le> unat m \<and> unat m \<le> 16 * length rs" using Cons.IH [OF g(3)] Cons.prems(2) by simp
  note b = VarIntLen_bounds [OF g(1)] VarIntLen_bounds [OF g(2)]
  have "unat (gap + block) = unat gap + unat block" using b by (intro unat_add64) simp
  moreover from this have "unat (gap + block + m) = unat gap + unat block + unat m"
    using b m Cons.prems(2) by (intro trans [OF unat_add64]) simp_all
  ultimately show ?case using b m g(4) by simp
qed simp

lemma many_ranges_length:
  assumes "AckFrame_Length_IETF a = Inr l" "600 \<le> length (ack_AckRanges a)" "length (ack_AckRanges a) \<le> 1000"
  shows "1200 < unat l \<and> unat l < 2 ^ 20"
proof -
  have m: "HasMissingRanges a" using assms(2) by (auto simp: HasMissingRanges_def)
  from assms(1) obtain largest delay num first n lowest where g: "VarIntLen (ack_LargestAcked a) = Inr largest"
    "VarIntLen (encodeAckDelay (ack_DelayTime a)) = Inr delay"
    "VarIntLen (of_nat (length (ack_AckRanges a) - 1)) = Inr num" "VarIntLen (ack_LargestAcked a - lowest) = Inr first"
    "length_ack_blocks lowest (tl (ack_AckRanges a)) = Inr n" "l = 1 + largest + delay + num + first + n"
    using m by (auto simp: AckFrame_Length_IETF_def ebind_Inr_iff Let_def)
  note b = VarIntLen_bounds [OF g(1)] VarIntLen_bounds [OF g(2)] VarIntLen_bounds [OF g(3)] VarIntLen_bounds [OF g(4)]
  have n: "2 * (length (ack_AckRanges a) - 1) \<le> unat n \<and> unat n \<le> 16 * (length (ack_AckRanges a) - 1)"
    using length_ack_blocks_bounds [OF g(5)] assms(3) by simp
  define x where "x = 1 + largest + delay + num + first"
  have "unat x = 1 + unat largest + unat delay + unat num + unat first"
    using b unfolding x_def by (simp add: unat_word_ariths)
  moreover have "unat (x + n) = unat x + unat n" using calculation b n assms(3) by (intro unat_add64) auto
  ultimately show ?thesis using b n assms(2,3) by (auto simp: g(6) x_def [symmetric])
qed

text \<open>C40: A received packet history may hold a thousand ranges, and its ACK frame takes at least two bytes for each: from
  600 ranges on, the ACK frame of the IETF format is larger than a packet. The packer then returns an error whatever else
  is queued, which closes the connection, and a peer can bring this about by leaving out every other
  packet number.\<close>

theorem many_ack_ranges_fit_no_packet:
  assumes p: "packer_ok v p" "length (DiversificationNonce cs) = 32" "hasSentPacket p" "\<not> hasCryptoStreamData f"
    and v: "UsesIETFFrameFormat v" "packer_stopWaiting p = None"
    and control: "\<forall>c \<in> set (controlFrames p). control_ok since v c"
    and ack: "packer_ackFrame p = Some a" "Frame_wf v hdr (Frame_Ack a)" "600 \<le> length (ack_AckRanges a)" "length (ack_AckRanges a) \<le> 1000"
    and small: "Overhead (snd (GetSealer cs)) \<le> 100"
  shows "PackPacket cs src since rnd p f w = (Inl (GoErr ''Packet Packer BUG: packet payload too large''), p, f, w)"
proof -
  obtain lvl s where sl: "GetSealer cs = (lvl, s)" by fastforce
  define h where "h = getHeader cs lvl p"
  obtain hb :: "byte list" where hb: "length hb \<le> 60" "Header_GetLength (packer_perspective p) v h = Inr (of_nat (length hb))"
    unfolding h_def using getHeader_length [OF p(1,2), of lvl] by blast
  define maxSize where "maxSize = MaxPacketSize - of_nat (Overhead s) - of_nat (length hb)"
  have maxSize: "unat maxSize \<le> 1200"
  proof -
    have "unat (of_nat (Overhead s) :: uint64) = Overhead s" "unat (of_nat (length hb) :: uint64) = length hb"
      using small sl hb(1) by (simp_all add: unat_of_nat64)
    then show ?thesis using small sl hb(1) unfolding maxSize_def MaxPacketSize_def by (subst unat_sub64; subst unat_sub64; simp)
  qed
  obtain l where l: "Frame_Length (Frame_Ack a) v = Inr l" "AckFrame_Length_IETF a = Inr l"
    using wf_frame_size(2) [OF ack(2)] v(1) by (auto simp: Frame_Length_def AckFrame_Length_def)
  have big: "1200 < unat l" "unat l < 2 ^ 20" using many_ranges_length [OF l(2) ack(3,4)] by simp_all
  have none: "take_control_frames v maxSize l cs = Inr ([], l, cs)" if "\<forall>c \<in> set cs. control_ok since v c" for cs
  proof (cases cs)
    case (Cons c cs')
    then have "Frame_Length c v = Inr (of_nat (wire_size since v c))" "wire_size since v c < 2 ^ 32"
      using that wf_frame_size(2) by (auto simp: control_ok_def)
    moreover from this have "unat (l + of_nat (wire_size since v c)) = unat l + wire_size since v c"
      using big by (intro trans [OF unat_add64]) (simp_all add: unat_of_nat64)
    ultimately show ?thesis using Cons big(1) maxSize by (simp add: word_less_nat_alt)
  qed simp
  have "ack_and_stop_waiting p = [Frame_Ack a]" by (simp add: ack_and_stop_waiting_def ack(1) v(2))
  then have "composeNextPacket src maxSize can p f w = Inl (GoErr ''Packet Packer BUG: packet payload too large'')" for can
    using none [of "rev (controlFrames p)"] control l(1) big(1) maxSize p(1)
    by (simp add: composeNextPacket_def packer_ok_def word_less_nat_alt)
  moreover have same: "p\<lparr>packer_stopWaiting := None\<rparr> = p" using v(2) by (intro packetPacker.equality) simp_all
  ultimately show ?thesis
    using sl hb(2) p(1,3,4) v(2)
    by (simp add: PackPacket_def same h_def [symmetric] packer_ok_def maxSize_def [symmetric] Let_def)
qed

text \<open>The packets with even numbers up to 1200 came in.\<close>

definition nth_packet :: "nat \<Rightarrow> PacketNumber" where
  "nth_packet k = of_nat k"

lemma nth_packet: "k < 2 ^ 64 \<Longrightarrow> unat (nth_packet k) = k" "nth_packet k + 1 = nth_packet (Suc k)"
  by (simp_all add: nth_packet_def unat_of_nat64)

fun even_ranges :: "nat \<Rightarrow> AckRange list" where
  "even_ranges 0 = []"
| "even_ranges (Suc n) = \<lparr>ar_First = nth_packet (2 * Suc n), ar_Last = nth_packet (2 * Suc n)\<rparr> # even_ranges n"

lemma even_ranges:
  "length (even_ranges n) = n"
  "0 < n \<Longrightarrow> ar_First (last (even_ranges n)) = 2 \<and> ar_Last (even_ranges n ! 0) = nth_packet (2 * n)"
  "n \<le> 1000 \<Longrightarrow> r \<in> set (even_ranges n) \<Longrightarrow> ar_First r = ar_Last r \<and> unat (ar_Last r) \<le> 2 * n"
  "n \<le> 1000 \<Longrightarrow> ranges_ordered (even_ranges n)"
proof -
  show "length (even_ranges n) = n" by (induction n) simp_all
  show "0 < n \<Longrightarrow> ar_First (last (even_ranges n)) = 2 \<and> ar_Last (even_ranges n ! 0) = nth_packet (2 * n)"
  proof (induction n)
    case (Suc n)
    then show ?case by (cases n) (simp_all add: nth_packet_def)
  qed simp
  show "n \<le> 1000 \<Longrightarrow> r \<in> set (even_ranges n) \<Longrightarrow> ar_First r = ar_Last r \<and> unat (ar_Last r) \<le> 2 * n"
    by (induction n) (auto simp: nth_packet)
  show "n \<le> 1000 \<Longrightarrow> ranges_ordered (even_ranges n)"
  proof (induction n)
    case (Suc n)
    then show ?case by (cases n) (simp_all add: word_le_nat_alt nth_packet)
  qed simp
qed

definition even_ack :: AckFrame where
  "even_ack =
     \<lparr>ack_LargestAcked = 1200, ack_LowestAcked = 2, ack_AckRanges = even_ranges 600, ack_PacketReceivedTime = 0, ack_DelayTime = 0\<rparr>"

lemma even_ack_wf: "Frame_wf VersionTLS hdr (Frame_Ack even_ack)"
proof -
  define rs where "rs = even_ranges 600"
  have rs: "length rs = 600" "ar_First (last rs) = 2" "ranges_ordered rs" "ar_Last (rs ! 0) = 1200"
    "\<And>r. r \<in> set rs \<Longrightarrow> ar_First r = ar_Last r \<and> unat (ar_Last r) \<le> 1200"
    using even_ranges(1,2,4) [of 600] even_ranges(3) [of 600] unfolding rs_def by (simp_all add: nth_packet_def)
  have ack: "ack_AckRanges even_ack = rs" "ack_LargestAcked even_ack = 1200" "ack_LowestAcked even_ack = 2" "ack_DelayTime even_ack = 0"
    by (simp_all add: even_ack_def rs_def)
  have "ack_wf even_ack"
    using rs unfolding ack_wf_def validateAckRanges_def HasMissingRanges_def ack Let_def by (auto simp: word_le_nat_alt)
  then show ?thesis using rs(1) unfolding Frame_wf_def ack by (simp add: UsesIETFFrameFormat_def version_defs word_le_nat_alt ack)
qed

theorem many_ack_ranges_fit_no_packet_witness:
  "fst (PackPacket sample_setup session_source 0 (Inr (0, 0)) (QueueControlFrame (Frame_Ack even_ack) sample_packer)
      (newStreamFramer VersionTLS) writing_session) = Inl (GoErr ''Packet Packer BUG: packet payload too large'')"
proof -
  let ?p = "QueueControlFrame (Frame_Ack even_ack) sample_packer"
  have p: "packer_ok VersionTLS ?p" "length (DiversificationNonce sample_setup) = 32" "hasSentPacket ?p"
    "\<not> hasCryptoStreamData (newStreamFramer VersionTLS)" "UsesIETFFrameFormat VersionTLS" "packer_stopWaiting ?p = None"
    "packer_ackFrame ?p = Some even_ack"
    by (simp_all add: packer_ok_def sample_packer_def QueueControlFrame_def newPacketPacker_def sample_setup_def newStreamFramer_def
        UsesIETFFrameFormat_def version_defs)
  have "\<forall>c \<in> set (controlFrames ?p). control_ok 0 VersionTLS c"
    using sample_control_ok by (simp add: QueueControlFrame_def)
  moreover have "length (ack_AckRanges even_ack) = 600" "Overhead (snd (GetSealer sample_setup)) \<le> 100"
    by (simp_all add: even_ack_def even_ranges(1) sample_setup_def)
  ultimately show ?thesis
    using many_ack_ranges_fit_no_packet [OF p(1-6) _ p(7) even_ack_wf, where since = 0 and src = session_source] by simp
qed

end
