(* ===== verification/Session.thy ===== *)
theory Session
  imports Packer_Runs Received_Handler Transport_Params Handshake_Message
begin

section \<open>The session\<close>

text \<open>
  \<^verbatim>\<open>session.go\<close>: the run loop of a connection, what it does with a packet and how it sends. The components keep
  their own state; \<open>session_env\<close> are the parts that are not modelled: the keys of the crypto setup, the writing to the
  connection, the random bytes of the packet numbers, the order of iterations over maps and the floating-point test of the
  window auto-tuning. \<open>None\<close> as a result is a loop of a component that does not return. What the streams report to
  the session is delivered to the packer and the framer after each operation on them.
\<close>

record receivedPacket =
  rp_header :: PacketHeader
  rp_raw :: "byte list"
  rp_data :: "byte list"
  rp_rcvTime :: int

record session_env =
  env_crypto :: crypto_setup
  env_open :: "byte list \<Rightarrow> PacketNumber \<Rightarrow> byte list \<Rightarrow> goerr + byte list \<times> EncryptionLevel"
  env_write :: "byte list \<Rightarrow> goerr option"
  env_rnd :: "PacketNumber \<Rightarrow> goerr + byte \<times> byte"
  env_order :: "StreamID set \<Rightarrow> StreamID list"
  env_epoch :: "ByteCount \<Rightarrow> ByteCount \<Rightarrow> int \<Rightarrow> int"

text \<open>The field \<open>sn_closed\<close> is what was sent to \<open>closeChan\<close> first, and \<open>sn_waits\<close> that the run loop waits for itself
  in \<open>Close\<close>. \<open>sn_written\<close> is what was written to the connection.\<close>

record session =
  sn_perspective :: Perspective
  sn_version :: VersionNumber
  sn_KeepAlive :: bool
  sn_IdleTimeout :: int
  sn_HandshakeTimeout :: int
  sn_streams :: session_streams
  sn_framer :: streamFramer
  sn_packer :: packetPacker
  sn_sent :: sentPacketHandler
  sn_rcvd :: receivedPacketHandler
  sn_receivedPackets :: "receivedPacket list"
  sn_closed :: "(goerr option \<times> bool) option"
  sn_waits :: bool
  sn_undecryptable :: "receivedPacket list"
  receivedTooManyUndecrytablePacketsTime :: "int option"
  sn_handshakeComplete :: bool
  receivedFirstPacket :: bool
  receivedFirstForwardSecurePacket :: bool
  lastRcvdPacketNumber :: PacketNumber
  largestRcvdPacketNumber :: PacketNumber
  sessionCreationTime :: int
  lastNetworkActivityTime :: int
  pacingDeadline :: "int option"
  peerIdleTimeout :: "int option"
  keepAlivePingSent :: bool
  sn_written :: "byte list list"

definition MaxUndecryptablePackets :: nat where "MaxUndecryptablePackets = 10"
definition MaxSessionUnprocessedPackets :: nat where "MaxSessionUnprocessedPackets = 1000"
definition PublicResetTimeout :: int where "PublicResetTimeout = 500000000"

abbreviation (input) HandshakeTimeout :: ErrorCode where "HandshakeTimeout \<equiv> 67"
abbreviation (input) NetworkIdleTimeout :: ErrorCode where "NetworkIdleTimeout \<equiv> 25"
abbreviation (input) PeerGoingAway :: ErrorCode where "PeerGoingAway \<equiv> 16"

subsection \<open>Closing\<close>

definition close_with :: "goerr option \<Rightarrow> bool \<Rightarrow> session \<Rightarrow> session" where
  "close_with e remote s = (if sn_closed s = None then s\<lparr>sn_closed := Some (e, remote)\<rparr> else s)"

definition closeLocal :: "goerr option \<Rightarrow> session \<Rightarrow> session" where
  "closeLocal e s = close_with e False s"

definition closeRemote :: "goerr option \<Rightarrow> session \<Rightarrow> session" where
  "closeRemote e s = close_with e True s"

text \<open>\<open>Close\<close>, called by the run loop itself, waits for the end of the run loop.\<close>

definition Close_in_loop :: "goerr option \<Rightarrow> session \<Rightarrow> session" where
  "Close_in_loop e s = (closeLocal e s)\<lparr>sn_waits := True\<rparr>"

subsection \<open>What the streams report\<close>

fun deliver_calls :: "sender_call list \<Rightarrow> session \<Rightarrow> session" where
  "deliver_calls [] s = s"
| "deliver_calls (c # cs) s =
     deliver_calls cs (case c of
         queueControlFrame f \<Rightarrow> s\<lparr>sn_packer := QueueControlFrame f (sn_packer s)\<rparr>
       | onHasStreamData sid \<Rightarrow> s\<lparr>sn_framer := AddActiveStream sid (sn_framer s)\<rparr>
       | _ \<Rightarrow> s)"

definition deliver :: "session_streams \<Rightarrow> session \<Rightarrow> session" where
  "deliver w s =
     (let s = deliver_calls (ses_calls w) (s\<lparr>sn_streams := w\<lparr>ses_calls := [], ses_closeErr := None\<rparr>\<rparr>)
      in case ses_closeErr w of None \<Rightarrow> s | Some e \<Rightarrow> Close_in_loop (Some e) s)"

definition on_streams :: "(session_streams \<Rightarrow> goerr option \<times> session_streams) \<Rightarrow> session \<Rightarrow> goerr option \<times> session" where
  "on_streams f s = (let (err, w) = f (sn_streams s) in (err, deliver w s))"

subsection \<open>Received packets\<close>

definition ses_handleAckFrame ::
  "int \<Rightarrow> AckFrame \<Rightarrow> EncryptionLevel \<Rightarrow> session \<Rightarrow> (goerr option \<times> session) option" where
  "ses_handleAckFrame now f encLevel s =
     map_option (\<lambda>(err, h).
         case err of
           Some e \<Rightarrow> (Some e, s\<lparr>sn_sent := h\<rparr>)
         | None \<Rightarrow> (None, s\<lparr>sn_sent := h, sn_rcvd := IgnoreBelow (lowestPacketNotConfirmedAcked h) (sn_rcvd s)\<rparr>))
       (ReceivedAck now f (lastRcvdPacketNumber s) encLevel (lastNetworkActivityTime s) (sn_sent s))"

definition handle_frame :: "int \<Rightarrow> EncryptionLevel \<Rightarrow> Frame \<Rightarrow> session \<Rightarrow> (goerr option \<times> session) option" where
  "handle_frame now encLevel frame s =
     (case frame of
        Frame_Stream f \<Rightarrow> Some (on_streams (ses_handleStreamFrame f) s)
      | Frame_Ack f \<Rightarrow> ses_handleAckFrame now f encLevel s
      | Frame_ConnectionClose f \<Rightarrow> Some (None, closeRemote (Some (QErr (cc_ErrorCode f))) s)
      | Frame_Goaway f \<Rightarrow> Some (Some (GoErr ''unimplemented: handling GOAWAY frames''), s)
      | Frame_StopWaiting f \<Rightarrow> Some (None, s)
      | Frame_RstStream f \<Rightarrow> Some (on_streams (ses_handleRstStreamFrame f) s)
      | Frame_MaxData f \<Rightarrow> Some (on_streams (\<lambda>w. (None, ses_handleMaxDataFrame f w)) s)
      | Frame_MaxStreamData f \<Rightarrow> Some (on_streams (ses_handleMaxStreamDataFrame f) s)
      | Frame_MaxStreamID f \<Rightarrow> Some (on_streams (ses_handleMaxStreamIDFrame f) s)
      | Frame_Blocked f \<Rightarrow> Some (None, s)
      | Frame_StreamBlocked f \<Rightarrow> Some (None, s)
      | Frame_StreamIDBlocked f \<Rightarrow> Some (None, s)
      | Frame_StopSending f \<Rightarrow> Some (on_streams (ses_handleStopSendingFrame f) s)
      | Frame_Ping \<Rightarrow> Some (None, s))"

fun handleFrames :: "int \<Rightarrow> EncryptionLevel \<Rightarrow> Frame list \<Rightarrow> session \<Rightarrow> (goerr option \<times> session) option" where
  "handleFrames now encLevel [] s = Some (None, s)"
| "handleFrames now encLevel (frame # frames) s =
     Option.bind (handle_frame now encLevel frame s) (\<lambda>(err, s).
       if err = None \<or> err = Some ErrDuplicateOrOutOfOrderAck then handleFrames now encLevel frames s
       else Some (err, s))"

text \<open>The number that is inferred is stored in the header: it is what a later attempt to handle the packet starts from.\<close>

definition infer_number :: "session \<Rightarrow> receivedPacket \<Rightarrow> receivedPacket" where
  "infer_number s p =
     (let hdr = rp_header p
      in p\<lparr>rp_header := hdr\<lparr>hdr_PacketNumber :=
           InferPacketNumber (hdr_PacketNumberLen hdr) (largestRcvdPacketNumber s) (hdr_PacketNumber hdr)\<rparr>\<rparr>)"

text \<open>The client also hands the diversification nonce of the header to the crypto setup.\<close>

definition handlePacketImpl ::
  "session_env \<Rightarrow> int \<Rightarrow> receivedPacket \<Rightarrow> session \<Rightarrow> (goerr option \<times> session) option" where
  "handlePacketImpl env now p s =
     (let s = s\<lparr>receivedFirstPacket := True, lastNetworkActivityTime := rp_rcvTime p, keepAlivePingSent := False\<rparr>;
          hdr = rp_header (infer_number s p);
          pnum = hdr_PacketNumber hdr
      in case Unpack (env_open env) (sn_version s) (rp_raw p) \<lparr>hdr_PacketNumber = pnum, hdr_PacketNumberLen = hdr_PacketNumberLen hdr\<rparr>
                (rp_data p) of
           Inl e \<Rightarrow> Some (Some e, s)
         | Inr packet \<Rightarrow>
             let s = (if \<not> receivedFirstForwardSecurePacket s \<and> up_encryptionLevel packet = EncryptionForwardSecure
                      then s\<lparr>receivedFirstForwardSecurePacket := True, sn_sent := SetHandshakeComplete (sn_sent s)\<rparr> else s);
                 s = s\<lparr>lastRcvdPacketNumber := pnum, largestRcvdPacketNumber := max (largestRcvdPacketNumber s) pnum\<rparr>;
                 (err, s) = (if hdr_Type hdr \<noteq> PacketTypeRetry
                             then (let (err, r) = handler_ReceivedPacket pnum (rp_rcvTime p) (HasRetransmittableFrames (up_frames packet)) (sn_rcvd s)
                                   in (err, s\<lparr>sn_rcvd := r\<rparr>))
                             else (None, s))
             in if err \<noteq> None then Some (err, s)
                else handleFrames now (up_encryptionLevel packet) (up_frames packet) s)"

definition handlePacket :: "receivedPacket \<Rightarrow> session \<Rightarrow> session" where
  "handlePacket p s =
     (if length (sn_receivedPackets s) < MaxSessionUnprocessedPackets
      then s\<lparr>sn_receivedPackets := sn_receivedPackets s @ [p]\<rparr> else s)"

definition tryQueueingUndecryptablePacket :: "int \<Rightarrow> receivedPacket \<Rightarrow> session \<Rightarrow> session" where
  "tryQueueingUndecryptablePacket now p s =
     (if sn_handshakeComplete s then s
      else if length (sn_undecryptable s) + 1 > MaxUndecryptablePackets
      then (if receivedTooManyUndecrytablePacketsTime s = None then s\<lparr>receivedTooManyUndecrytablePacketsTime := Some now\<rparr> else s)
      else s\<lparr>sn_undecryptable := sn_undecryptable s @ [p]\<rparr>)"

definition tryDecryptingQueuedPackets :: "session \<Rightarrow> session" where
  "tryDecryptingQueuedPackets s = (fold handlePacket (sn_undecryptable s) s)\<lparr>sn_undecryptable := []\<rparr>"

subsection \<open>Sending\<close>

text \<open>The time since the packets were received that the queued ACK frame acknowledges.\<close>

definition since_received :: "int \<Rightarrow> session \<Rightarrow> Duration" where
  "since_received now s =
     (case packer_ackFrame (sn_packer s) of None \<Rightarrow> 0 | Some a \<Rightarrow> word_of_int (now - ack_PacketReceivedTime a))"

definition queue_frame :: "Frame \<Rightarrow> session \<Rightarrow> session" where
  "queue_frame f s = s\<lparr>sn_packer := QueueControlFrame f (sn_packer s)\<rparr>"

definition sendPackedPacket :: "session_env \<Rightarrow> int \<Rightarrow> packedPacket \<Rightarrow> session \<Rightarrow> goerr option \<times> session" where
  "sendPackedPacket env now packet s =
     (case SentPacket now \<lparr>pkt_PacketNumber = hdr_PacketNumber (pp_header packet), pkt_PacketType = hdr_Type (pp_header packet),
              pkt_Frames = pp_frames packet, pkt_Length = of_nat (length (pp_raw packet)),
              pkt_EncryptionLevel = pp_encryptionLevel packet, pkt_largestAcked = 0, pkt_sendTime = 0, pkt_retransmitted = False\<rparr>
              (sn_sent s) of
        (Some e, h) \<Rightarrow> (Some e, s\<lparr>sn_sent := h\<rparr>)
      | (None, h) \<Rightarrow> (env_write env (pp_raw packet), s\<lparr>sn_sent := h, sn_written := sn_written s @ [pp_raw packet]\<rparr>))"

fun send_all :: "session_env \<Rightarrow> int \<Rightarrow> packedPacket list \<Rightarrow> session \<Rightarrow> goerr option \<times> session" where
  "send_all env now [] s = (None, s)"
| "send_all env now (packet # packets) s =
     (case sendPackedPacket env now packet s of
        (Some e, s) \<Rightarrow> (Some e, s)
      | (None, s) \<Rightarrow> send_all env now packets s)"

definition queue_stop_waiting :: "bool \<Rightarrow> session \<Rightarrow> session" where
  "queue_stop_waiting force s =
     (let (swf, h) = GetStopWaitingFrame force (sn_sent s); s = s\<lparr>sn_sent := h\<rparr>
      in case swf of None \<Rightarrow> s | Some f \<Rightarrow> queue_frame (Frame_StopWaiting f) s)"

text \<open>The control frames that go before a packet: window updates, a BLOCKED frame and an ACK.\<close>

definition queue_updates :: "session_env \<Rightarrow> int \<Rightarrow> session \<Rightarrow> session" where
  "queue_updates env now s =
     (let rtt = smoothedRTT (rttStats (sn_sent s));
          s = s\<lparr>sn_packer := SetLeastUnacked (lowestUnacked (sn_sent s)) (sn_packer s)\<rparr>;
          (offset, conn) = conn_GetWindowUpdate (env_epoch env) now rtt (ses_conn (sn_streams s));
          s = (if offset \<noteq> 0 then queue_frame (Frame_MaxData \<lparr>md_ByteOffset = offset\<rparr>) s else s);
          ((isBlocked, offset), conn) = IsNewlyBlocked conn;
          s = (if isBlocked then queue_frame (Frame_Blocked \<lparr>bl_Offset = offset\<rparr>) s else s);
          w = (sn_streams s)\<lparr>ses_conn := conn\<rparr>;
          (frames, w) = QueueAll (env_epoch env) now rtt (env_order env (windowUpdates w)) w
      in deliver w (fold queue_frame frames s))"

definition queue_ack :: "int \<Rightarrow> session \<Rightarrow> goerr + bool \<times> session" where
  "queue_ack now s =
     ebind (GetAckFrame now (sn_rcvd s)) (\<lambda>(ack, r).
       let s = s\<lparr>sn_rcvd := r\<rparr>
       in Inr (case ack of None \<Rightarrow> (False, s) | Some f \<Rightarrow> (True, queue_frame (Frame_Ack f) s)))"

text \<open>Initial packets are not retransmitted once a packet came in: the loop takes them off the queue.\<close>

fun next_retransmission :: "bool \<Rightarrow> Packet list \<Rightarrow> Packet option \<times> Packet list" where
  "next_retransmission got [] = (None, [])"
| "next_retransmission got (p # ps) =
     (if got \<and> pkt_PacketType p = PacketTypeInitial then next_retransmission got ps else (Some p, ps))"

definition send_retransmission :: "session_env \<Rightarrow> int \<Rightarrow> Packet \<Rightarrow> session \<Rightarrow> ((goerr + bool) \<times> session) option" where
  "send_retransmission env now packet s =
     (let s = (if UsesStopWaitingFrames (sn_version s) then queue_stop_waiting True s else s)
      in map_option (\<lambda>(res, p).
           let s = s\<lparr>sn_packer := p\<rparr> in
           case res of
             Inl e \<Rightarrow> (Inl e, s)
           | Inr packets \<Rightarrow> (case send_all env now packets s of (Some e, s) \<Rightarrow> (Inl e, s) | (None, s) \<Rightarrow> (Inr True, s)))
         (PackRetransmission (env_crypto env) (since_received now s) (env_rnd env) packet (sn_packer s)))"

definition send_new_packet :: "session_env \<Rightarrow> int \<Rightarrow> bool \<Rightarrow> session \<Rightarrow> (goerr + bool) \<times> session" where
  "send_new_packet env now ack s =
     (let s = (if UsesStopWaitingFrames (sn_version s) \<and> ack then queue_stop_waiting False s else s);
          (res, p, f, w) = PackPacket (env_crypto env) session_source (since_received now s)
             (env_rnd env (Peek (packer_generator (sn_packer s)))) (sn_packer s) (sn_framer s) (sn_streams s);
          s = deliver w (s\<lparr>sn_packer := p, sn_framer := f\<rparr>)
      in case res of
           Inl e \<Rightarrow> (Inl e, s)
         | Inr None \<Rightarrow> (Inr False, s)
         | Inr (Some packet) \<Rightarrow>
             (case sendPackedPacket env now packet s of (Some e, s) \<Rightarrow> (Inl e, s) | (None, s) \<Rightarrow> (Inr True, s)))"

definition sn_sendPacket :: "session_env \<Rightarrow> int \<Rightarrow> session \<Rightarrow> ((goerr + bool) \<times> session) option" where
  "sn_sendPacket env now s =
     (case queue_ack now (queue_updates env now s) of
        Inl e \<Rightarrow> Some (Inl e, s)
      | Inr (ack, s) \<Rightarrow>
          let (packet, queue) = next_retransmission (receivedFirstPacket s) (retransmissionQueue (sn_sent s));
              s = s\<lparr>sn_sent := (sn_sent s)\<lparr>retransmissionQueue := queue\<rparr>\<rparr>
          in case packet of
               Some packet \<Rightarrow> send_retransmission env now packet s
             | None \<Rightarrow> Some (send_new_packet env now ack s))"

definition maybeSendAckOnlyPacket :: "session_env \<Rightarrow> int \<Rightarrow> session \<Rightarrow> goerr option \<times> session" where
  "maybeSendAckOnlyPacket env now s =
     (case queue_ack now s of
        Inl e \<Rightarrow> (Some e, s)
      | Inr (False, s) \<Rightarrow> (None, s)
      | Inr (True, s) \<Rightarrow>
          let s = (if UsesStopWaitingFrames (sn_version s) then queue_stop_waiting False s else s);
              (res, p) = PackAckPacket (env_crypto env) (since_received now s)
                 (env_rnd env (Peek (packer_generator (sn_packer s)))) (sn_packer s);
              s = s\<lparr>sn_packer := p\<rparr>
          in case res of Inl e \<Rightarrow> (Some e, s) | Inr packet \<Rightarrow> sendPackedPacket env now packet s)"

text \<open>At most \<open>n\<close> packets; pacing starts when all of them were sent.\<close>

fun send_packets :: "session_env \<Rightarrow> int \<Rightarrow> nat \<Rightarrow> session \<Rightarrow> (goerr option \<times> session) option" where
  "send_packets env now 0 s = Some (None, s\<lparr>pacingDeadline := nextPacketSendTime (sn_sent s)\<rparr>)"
| "send_packets env now (Suc n) s =
     Option.bind (sn_sendPacket env now s) (\<lambda>(res, s).
       case res of
         Inl e \<Rightarrow> Some (Some e, s)
       | Inr sentPacket \<Rightarrow>
           if \<not> sentPacket \<or> \<not> SendingAllowed (sn_sent s) then Some (None, s) else send_packets env now n s)"

definition sendPackets :: "session_env \<Rightarrow> int \<Rightarrow> session \<Rightarrow> (goerr option \<times> session) option" where
  "sendPackets env now s =
     (let s = s\<lparr>pacingDeadline := None\<rparr> in
      if \<not> SendingAllowed (sn_sent s) then Some (maybeSendAckOnlyPacket env now s)
      else case ShouldSendNumPackets (sn_sent s) of
             Inl e \<Rightarrow> Some (Some e, s)
           | Inr n \<Rightarrow> send_packets env now (nat n) s)"

definition sendConnectionClose :: "session_env \<Rightarrow> ErrorCode \<Rightarrow> byte list \<Rightarrow> session \<Rightarrow> goerr option \<times> session" where
  "sendConnectionClose env code reason s =
     (let p = SetLeastUnacked (lowestUnacked (sn_sent s)) (sn_packer s);
          (res, p) = PackConnectionClose (env_crypto env) 0 (env_rnd env (Peek (packer_generator p)))
             \<lparr>cc_ErrorCode = code, cc_ReasonPhrase = reason\<rparr> p;
          s = s\<lparr>sn_packer := p\<rparr>
      in case res of
           Inl e \<Rightarrow> (Some e, s)
         | Inr packet \<Rightarrow> (env_write env (pp_raw packet), s\<lparr>sn_written := sn_written s @ [pp_raw packet]\<rparr>))"

subsection \<open>The end of the session\<close>

abbreviation (input) InternalError :: ErrorCode where "InternalError \<equiv> 1"

definition errCloseSessionForNewVersion :: goerr where
  "errCloseSessionForNewVersion = GoErr ''closing session in order to recreate it with a new version''"

definition ErrCloseSessionForRetry :: goerr where
  "ErrCloseSessionForRetry = GoErr ''closing session in order to recreate after a retry''"

text \<open>The message of an error is not part of the model; it is an argument where it is sent.\<close>

definition ToQuicError :: "goerr \<Rightarrow> ErrorCode" where
  "ToQuicError e = (case e of QErr code \<Rightarrow> code | _ \<Rightarrow> InternalError)"

definition sendPublicReset :: "session_env \<Rightarrow> PacketNumber \<Rightarrow> session \<Rightarrow> goerr option \<times> session" where
  "sendPublicReset env rejectedPacketNumber s =
     (let raw = WritePublicReset (packer_connectionID (sn_packer s)) rejectedPacketNumber 0
      in (env_write env raw, s\<lparr>sn_written := sn_written s @ [raw]\<rparr>))"

text \<open>\<open>experiment\<close> is whether the error is one of the two that end a handshake with an experimental tag.\<close>

definition handleCloseError ::
  "session_env \<Rightarrow> bool \<Rightarrow> byte list \<Rightarrow> goerr option \<times> bool \<Rightarrow> session \<Rightarrow> goerr option \<times> session" where
  "handleCloseError env experiment reason closeErr s =
     (let err = (case fst closeErr of None \<Rightarrow> QErr PeerGoingAway | Some e \<Rightarrow> e);
          code = ToQuicError err;
          s = s\<lparr>sn_streams := ses_CloseWithError (QErr code) (sn_streams s)\<rparr>
      in if err = errCloseSessionForNewVersion \<or> err = ErrCloseSessionForRetry then (None, s)
         else if snd closeErr then (None, s)
         else if code = DecryptionFailure \<or> experiment then sendPublicReset env (lastRcvdPacketNumber s) s
         else sendConnectionClose env code reason s)"

subsection \<open>The run loop\<close>

definition processTransportParameters :: "session_env \<Rightarrow> TransportParameters \<Rightarrow> session \<Rightarrow> session" where
  "processTransportParameters env params s =
     (let order = env_order env (case ses_map (sn_streams s) of IETF m \<Rightarrow> {} | GQUIC m \<Rightarrow> dom (leg_streams m));
          s = deliver (ses_UpdateLimits order params (sn_streams s)) (s\<lparr>peerIdleTimeout := Some (IdleTimeout params)\<rparr>)
      in if OmitConnectionID params then s\<lparr>sn_packer := SetOmitConnectionID (sn_packer s)\<rparr> else s)"

definition earlier :: "int option \<Rightarrow> int \<Rightarrow> int" where
  "earlier t deadline = (case t of None \<Rightarrow> deadline | Some t \<Rightarrow> min deadline t)"

text \<open>The time for which \<open>maybeResetTimer\<close> sets the timer.\<close>

definition timer_deadline :: "session \<Rightarrow> goerr + int" where
  "timer_deadline s =
     ebind (if sn_KeepAlive s \<and> sn_handshakeComplete s \<and> \<not> keepAlivePingSent s
            then (case peerIdleTimeout s of
                    None \<Rightarrow> Inl (Panic ''nil pointer dereference'')
                  | Some t \<Rightarrow> Inr (lastNetworkActivityTime s + t sdiv 2))
            else Inr (lastNetworkActivityTime s + sn_IdleTimeout s))
       (\<lambda>deadline.
          let deadline = earlier (GetAlarmTimeout (sn_rcvd s)) deadline;
              deadline = earlier (alarm (sn_sent s)) deadline;
              deadline = (if \<not> sn_handshakeComplete s then min deadline (sessionCreationTime s + sn_HandshakeTimeout s) else deadline);
              deadline = earlier (map_option (\<lambda>t. t + PublicResetTimeout) (receivedTooManyUndecrytablePacketsTime s)) deadline
          in Inr (earlier (pacingDeadline s) deadline))"

text \<open>A panic ends the program.\<close>

definition closing_with :: "goerr option \<Rightarrow> session \<Rightarrow> goerr + session" where
  "closing_with err s =
     (case err of None \<Rightarrow> Inr s | Some (Panic m) \<Rightarrow> Inl (Panic m) | Some e \<Rightarrow> Inr (closeLocal (Some e) s))"

definition close_on_timeout :: "int \<Rightarrow> session \<Rightarrow> session" where
  "close_on_timeout now s =
     (let s = (case receivedTooManyUndecrytablePacketsTime s of
                 None \<Rightarrow> s
               | Some t \<Rightarrow> if t + PublicResetTimeout < now \<and> sn_undecryptable s \<noteq> [] then closeLocal (Some (QErr DecryptionFailure)) s else s);
          s = (if \<not> sn_handshakeComplete s \<and> now - sessionCreationTime s \<ge> sn_HandshakeTimeout s
               then closeLocal (Some (QErr HandshakeTimeout)) s else s)
      in if sn_handshakeComplete s \<and> now - lastNetworkActivityTime s \<ge> sn_IdleTimeout s
         then closeLocal (Some (QErr NetworkIdleTimeout)) s else s)"

definition send_and_check :: "session_env \<Rightarrow> int \<Rightarrow> session \<Rightarrow> (goerr + session) option" where
  "send_and_check env now s =
     map_option (\<lambda>(err, s). map_sum (\<lambda>e. e) (close_on_timeout now) (closing_with err s)) (sendPackets env now s)"

text \<open>The part of a turn after the \<open>select\<close>.\<close>

definition after_event :: "session_env \<Rightarrow> int \<Rightarrow> session \<Rightarrow> (goerr + session) option" where
  "after_event env now s =
     (let s = (case alarm (sn_sent s) of
                 None \<Rightarrow> s
               | Some timeout \<Rightarrow> if timeout < now then s\<lparr>sn_sent := OnAlarm now (sn_sent s)\<rparr> else s);
          deadline = (if pacingDeadline s = None then nextPacketSendTime (sn_sent s) else None);
          paced = (case deadline of
                     None \<Rightarrow> send_and_check env now s
                   | Some d \<Rightarrow> if now < d then Some (Inr (s\<lparr>pacingDeadline := Some d\<rparr>)) else send_and_check env now s)
      in if sn_KeepAlive s \<and> \<not> keepAlivePingSent s \<and> sn_handshakeComplete s
         then (case peerIdleTimeout s of
                 None \<Rightarrow> Some (Inl (Panic ''nil pointer dereference''))
               | Some t \<Rightarrow>
                   if now - lastNetworkActivityTime s \<ge> t sdiv 2
                   then send_and_check env now ((queue_frame Frame_Ping s)\<lparr>keepAlivePingSent := True\<rparr>)
                   else paced)
         else paced)"

text \<open>What the \<open>select\<close> of a turn can wait for.\<close>

datatype event =
    TimerFires
  | SendingScheduled
  | PacketReceived
  | ParamsReceived TransportParameters
  | HandshakeDone
  | KeysChanged

text \<open>The state when a packet from the channel was handled, and whether the turn goes on.\<close>

definition packet_event :: "session_env \<Rightarrow> int \<Rightarrow> receivedPacket \<Rightarrow> session \<Rightarrow> (goerr + bool \<times> session) option" where
  "packet_event env now p s0 =
     map_option (\<lambda>(err, s).
         if err = None then Inr (True, s)
         else if err = Some (QErr DecryptionFailure) then Inr (False, tryQueueingUndecryptablePacket now (infer_number s0 p) s)
         else map_sum (\<lambda>e. e) (Pair False) (closing_with err s))
       (handlePacketImpl env now p s0)"

definition handle_event :: "session_env \<Rightarrow> int \<Rightarrow> event \<Rightarrow> session \<Rightarrow> (goerr + bool \<times> session) option" where
  "handle_event env now ev s =
     (case ev of
        TimerFires \<Rightarrow> Some (Inr (True, s))
      | SendingScheduled \<Rightarrow> Some (Inr (True, s))
      | PacketReceived \<Rightarrow>
          (case sn_receivedPackets s of
             [] \<Rightarrow> Some (Inr (True, s))
           | p # ps \<Rightarrow> packet_event env now p (s\<lparr>sn_receivedPackets := ps\<rparr>))
      | ParamsReceived params \<Rightarrow> Some (Inr (True, processTransportParameters env params s))
      | HandshakeDone \<Rightarrow>
          Some (Inr (True, (if \<not> UsesTLS (sn_version s) \<and> sn_perspective s = PerspectiveClient then queue_frame Frame_Ping else (\<lambda>s. s))
                             (s\<lparr>sn_handshakeComplete := True\<rparr>)))
      | KeysChanged \<Rightarrow> Some (Inr (True, tryDecryptingQueuedPackets s)))"

text \<open>A turn of the loop. \<open>Inl\<close> is a panic, \<open>None\<close> a turn that does not end: a loop of a component, or the
  session waiting for itself in \<open>Close\<close>.\<close>

definition run_turn :: "session_env \<Rightarrow> int \<Rightarrow> event \<Rightarrow> session \<Rightarrow> (goerr + session) option" where
  "run_turn env now ev s =
     (case timer_deadline s of
        Inl e \<Rightarrow> Some (Inl e)
      | Inr _ \<Rightarrow>
          Option.bind (handle_event env now ev s) (\<lambda>res.
            case res of
              Inl e \<Rightarrow> Some (Inl e)
            | Inr (goes_on, s) \<Rightarrow>
                if sn_waits s then None
                else if goes_on then Option.bind (after_event env now s) (\<lambda>res.
                       case res of Inl e \<Rightarrow> Some (Inl e) | Inr s \<Rightarrow> if sn_waits s then None else Some (Inr s))
                else Some (Inr s)))"

text \<open>The steps: a turn of the loop while it is not closed, a packet from the server, a call of the application.\<close>

definition from_application :: "session_streams \<Rightarrow> session \<Rightarrow> session" where
  "from_application w s =
     (let s = deliver_calls (ses_calls w) (s\<lparr>sn_streams := w\<lparr>ses_calls := [], ses_closeErr := None\<rparr>\<rparr>)
      in case ses_closeErr w of None \<Rightarrow> s | Some e \<Rightarrow> closeLocal (Some e) s)"

inductive run_step :: "session_env \<Rightarrow> session \<Rightarrow> session \<Rightarrow> bool" for env where
  turn: "sn_closed s = None \<Longrightarrow> run_turn env now ev s = Some (Inr s') \<Longrightarrow> run_step env s s'"
| packet: "run_step env s (handlePacket p s)"
| call: "ses_step (sn_version s) (sn_streams s) w \<Longrightarrow> run_step env s (from_application w s)"
| close: "run_step env s (closeLocal e s)"

subsection \<open>A new session\<close>

text \<open>The fields of \<open>Config\<close> that the session reads. The congestion controller starts as \<open>NewSentPacketHandler\<close> sets it up.\<close>

record Config =
  cfg_HandshakeTimeout :: int
  cfg_IdleTimeout :: int
  cfg_KeepAlive :: bool
  cfg_MaxReceiveStreamFlowControlWindow :: ByteCount
  cfg_MaxReceiveConnectionFlowControlWindow :: ByteCount
  cfg_MaxIncomingStreams :: int
  cfg_MaxIncomingUniStreams :: int

definition ReceiveConnectionFlowControlWindow :: ByteCount where "ReceiveConnectionFlowControlWindow = 49152"

definition newCryptoStream :: "Config \<Rightarrow> VersionNumber \<Rightarrow> stream" where
  "newCryptoStream cfg v =
     newStream (CryptoStreamID v)
       (NewStreamFlowController (CryptoStreamID v) (StreamContributesToConnectionFlowControl v (CryptoStreamID v))
          ReceiveStreamFlowControlWindow (cfg_MaxReceiveStreamFlowControlWindow cfg) 0) v"

definition preSetup :: "Perspective \<Rightarrow> VersionNumber \<Rightarrow> Config \<Rightarrow> session_streams" where
  "preSetup pers v cfg =
     \<lparr>ses_version = v, maxReceiveStreamWindow = cfg_MaxReceiveStreamFlowControlWindow cfg, peerStreamWindow = 0,
      ses_map = (if UsesTLS v then IETF (newStreamsMap (cfg_MaxIncomingStreams cfg) (cfg_MaxIncomingUniStreams cfg) pers)
                 else GQUIC (newStreamsMapLegacy (cfg_MaxIncomingStreams cfg) pers)),
      ses_cryptoStream = newCryptoStream cfg v,
      ses_conn = NewConnectionFlowController ReceiveConnectionFlowControlWindow (cfg_MaxReceiveConnectionFlowControlWindow cfg),
      windowUpdates = {}, ses_calls = [], ses_closeErr = None\<rparr>"

definition postSetup ::
  "Perspective \<Rightarrow> VersionNumber \<Rightarrow> ConnectionID \<Rightarrow> PacketNumber \<Rightarrow> Config \<Rightarrow> int \<Rightarrow> session_streams \<Rightarrow> session" where
  "postSetup pers v connID initialPacketNumber cfg now w =
     \<lparr>sn_perspective = pers, sn_version = v, sn_KeepAlive = cfg_KeepAlive cfg, sn_IdleTimeout = cfg_IdleTimeout cfg,
      sn_HandshakeTimeout = cfg_HandshakeTimeout cfg, sn_streams = w, sn_framer = newStreamFramer v,
      sn_packer = newPacketPacker connID initialPacketNumber pers v, sn_sent = NewSentPacketHandler NewRTTStats,
      sn_rcvd = NewReceivedPacketHandler, sn_receivedPackets = [], sn_closed = None, sn_waits = False,
      sn_undecryptable = [], receivedTooManyUndecrytablePacketsTime = None, sn_handshakeComplete = False,
      receivedFirstPacket = False, receivedFirstForwardSecurePacket = False, lastRcvdPacketNumber = 0,
      largestRcvdPacketNumber = 0, sessionCreationTime = now, lastNetworkActivityTime = now, pacingDeadline = None,
      peerIdleTimeout = None, keepAlivePingSent = False, sn_written = []\<rparr>"

definition newSession ::
  "Perspective \<Rightarrow> VersionNumber \<Rightarrow> ConnectionID \<Rightarrow> PacketNumber \<Rightarrow> Config \<Rightarrow> int \<Rightarrow> session" where
  "newSession pers v connID initialPacketNumber cfg now =
     postSetup pers v connID initialPacketNumber cfg now (preSetup pers v cfg)"

end
