(* ===== verification/Session_Runs.thy ===== *)
theory Session_Runs
  imports Session
begin

section \<open>Runs of a session\<close>

text \<open>
  What holds for every run of the loop of a session: the bounds of its queues, what an undecryptable packet does, and
  the timer after too many of them.
\<close>

subsection \<open>What sending and receiving leave as it is\<close>

text \<open>The fields that only the run loop itself changes.\<close>

definition loop_fields :: "session \<Rightarrow>
    (int option \<times> receivedPacket list \<times> receivedPacket list) \<times> (VersionNumber \<times> Perspective \<times> bool \<times> int \<times> int \<times> int \<times> bool \<times> int)" where
  "loop_fields s =
     ((receivedTooManyUndecrytablePacketsTime s, sn_undecryptable s, sn_receivedPackets s),
      (sn_version s, sn_perspective s, sn_KeepAlive s, sn_IdleTimeout s, sn_HandshakeTimeout s, sessionCreationTime s,
       sn_handshakeComplete s, lastNetworkActivityTime s))"

named_theorems keeps_loop

lemma loop_fields_simps [simp]:
  "loop_fields (s\<lparr>sn_streams := a\<rparr>) = loop_fields s" "loop_fields (s\<lparr>sn_packer := b\<rparr>) = loop_fields s"
  "loop_fields (s\<lparr>sn_framer := c\<rparr>) = loop_fields s" "loop_fields (s\<lparr>sn_sent := d\<rparr>) = loop_fields s"
  "loop_fields (s\<lparr>sn_rcvd := e\<rparr>) = loop_fields s" "loop_fields (s\<lparr>sn_closed := f\<rparr>) = loop_fields s"
  "loop_fields (s\<lparr>sn_waits := g\<rparr>) = loop_fields s" "loop_fields (s\<lparr>sn_written := h\<rparr>) = loop_fields s"
  "loop_fields (s\<lparr>pacingDeadline := i\<rparr>) = loop_fields s" "loop_fields (s\<lparr>lastRcvdPacketNumber := j\<rparr>) = loop_fields s"
  "loop_fields (s\<lparr>largestRcvdPacketNumber := j\<rparr>) = loop_fields s" "loop_fields (s\<lparr>receivedFirstPacket := k\<rparr>) = loop_fields s"
  "loop_fields (s\<lparr>keepAlivePingSent := m\<rparr>) = loop_fields s"
  "loop_fields (s\<lparr>receivedFirstForwardSecurePacket := n\<rparr>) = loop_fields s" "loop_fields (s\<lparr>peerIdleTimeout := q\<rparr>) = loop_fields s"
  by (simp_all add: loop_fields_def)

lemma deliver_calls_loop [keeps_loop]: "loop_fields (deliver_calls cs s) = loop_fields s"
  by (induction cs s rule: deliver_calls.induct) (auto split: sender_call.split)

lemma close_loop [keeps_loop]:
  "loop_fields (closeLocal e s) = loop_fields s" "loop_fields (closeRemote e s) = loop_fields s"
  "loop_fields (Close_in_loop e s) = loop_fields s"
  by (simp_all add: closeLocal_def closeRemote_def Close_in_loop_def close_with_def)

lemma deliver_loop [keeps_loop]: "loop_fields (deliver w s) = loop_fields s" "loop_fields (from_application w s) = loop_fields s"
  by (simp_all add: deliver_def from_application_def Let_def keeps_loop split: option.split)

lemma on_streams_loop: "on_streams f s = (e, s') \<Longrightarrow> loop_fields s' = loop_fields s"
  by (auto simp: on_streams_def keeps_loop split: prod.splits)

lemma handle_frame_loop: "handle_frame now lvl f s = Some (e, s') \<Longrightarrow> loop_fields s' = loop_fields s"
  by (auto simp: handle_frame_def ses_handleAckFrame_def keeps_loop dest!: on_streams_loop split: Frame.splits option.splits)

lemma handleFrames_loop: "handleFrames now lvl fs s = Some (e, s') \<Longrightarrow> loop_fields s' = loop_fields s"
proof (induction now lvl fs s rule: handleFrames.induct)
  case (2 now lvl f fs s)
  from "2.prems" obtain e1 s1 where h: "handle_frame now lvl f s = Some (e1, s1)"
    by (auto simp: bind_eq_Some_conv)
  with "2.prems" "2.IH" handle_frame_loop [OF h] show ?case by (auto split: if_splits)
qed simp

lemma handlePacketImpl_loop:
  assumes "handlePacketImpl env now p s = Some (e, s')"
  shows "loop_fields s' = loop_fields (s\<lparr>lastNetworkActivityTime := rp_rcvTime p\<rparr>)"
  using assms
  by (auto simp: handlePacketImpl_def Let_def split: sum.splits prod.splits if_splits dest!: handleFrames_loop)
    (simp_all add: loop_fields_def)

subsection \<open>Sending\<close>

lemma queue_frame_loop [keeps_loop]: "loop_fields (queue_frame f s) = loop_fields s"
  by (simp add: queue_frame_def)

lemma queue_stop_waiting_loop [keeps_loop]: "loop_fields (queue_stop_waiting force s) = loop_fields s"
  by (simp add: queue_stop_waiting_def Let_def keeps_loop split: prod.split option.split)

lemma fold_queue_frame_loop [keeps_loop]: "loop_fields (fold queue_frame fs s) = loop_fields s"
  by (induction fs arbitrary: s) (simp_all add: keeps_loop)

lemma queue_updates_loop [keeps_loop]: "loop_fields (queue_updates env now s) = loop_fields s"
  by (simp add: queue_updates_def Let_def keeps_loop split: prod.split)

lemma queue_ack_loop: "queue_ack now s = Inr (b, s') \<Longrightarrow> loop_fields s' = loop_fields s"
  by (auto simp: queue_ack_def ebind_def keeps_loop Let_def split: sum.splits option.splits)

lemma sendPackedPacket_loop: "sendPackedPacket env now packet s = (e, s') \<Longrightarrow> loop_fields s' = loop_fields s"
  by (auto simp: sendPackedPacket_def split: prod.splits option.splits)

lemma send_all_loop: "send_all env now packets s = (e, s') \<Longrightarrow> loop_fields s' = loop_fields s"
  by (induction env now packets s rule: send_all.induct) (auto dest!: sendPackedPacket_loop split: prod.splits option.splits)

lemma send_retransmission_loop:
  assumes "send_retransmission env now packet s = Some (res, s')"
  shows "loop_fields s' = loop_fields s"
proof -
  define t where "t = (if UsesStopWaitingFrames (sn_version s) then queue_stop_waiting True s else s)"
  have t: "loop_fields t = loop_fields s" by (simp add: t_def keeps_loop)
  from assms obtain r p where
    "(case r of Inl e \<Rightarrow> (Inl e, t\<lparr>sn_packer := p\<rparr>)
      | Inr packets \<Rightarrow> (case send_all env now packets (t\<lparr>sn_packer := p\<rparr>) of (Some e, s) \<Rightarrow> (Inl e, s) | (None, s) \<Rightarrow> (Inr True, s)))
     = (res, s')"
    by (auto simp: send_retransmission_def t_def [symmetric] Let_def)
  then show ?thesis using t by (auto dest!: send_all_loop split: sum.split_asm prod.split_asm option.split_asm)
qed

lemma send_new_packet_loop:
  assumes "send_new_packet env now ack s = (res, s')"
  shows "loop_fields s' = loop_fields s"
  using assms
  by (auto simp: send_new_packet_def Let_def keeps_loop dest!: sendPackedPacket_loop
      split: sum.splits prod.splits option.splits if_splits)

lemma sn_sendPacket_loop: "sn_sendPacket env now s = Some (res, s') \<Longrightarrow> loop_fields s' = loop_fields s"
  by (auto simp: sn_sendPacket_def Let_def keeps_loop dest!: queue_ack_loop send_retransmission_loop send_new_packet_loop
      split: sum.splits prod.splits option.splits)

lemma maybeSendAckOnlyPacket_loop: "maybeSendAckOnlyPacket env now s = (e, s') \<Longrightarrow> loop_fields s' = loop_fields s"
  by (auto simp: maybeSendAckOnlyPacket_def Let_def keeps_loop dest!: queue_ack_loop sendPackedPacket_loop
      split: sum.splits prod.splits option.splits bool.splits if_splits)

lemma send_packets_loop: "send_packets env now n s = Some (e, s') \<Longrightarrow> loop_fields s' = loop_fields s"
proof (induction n arbitrary: s)
  case (Suc n)
  from Suc.prems obtain res s1 where h: "sn_sendPacket env now s = Some (res, s1)"
    by (auto simp: bind_eq_Some_conv)
  with Suc sn_sendPacket_loop [OF h] show ?case by (auto split: sum.splits if_splits)
qed auto

lemma sendPackets_loop: "sendPackets env now s = Some (e, s') \<Longrightarrow> loop_fields s' = loop_fields s"
  by (auto simp: sendPackets_def Let_def dest!: maybeSendAckOnlyPacket_loop send_packets_loop split: if_splits sum.splits)

lemma closing_with_loop: "closing_with e s = Inr s' \<Longrightarrow> loop_fields s' = loop_fields s"
  by (auto simp: closing_with_def keeps_loop split: option.splits goerr.splits)

lemma close_on_timeout_loop [keeps_loop]: "loop_fields (close_on_timeout now s) = loop_fields s"
  by (simp add: close_on_timeout_def Let_def keeps_loop split: option.split)

lemma map_sum_Inr_iff: "map_sum g f x = Inr y \<longleftrightarrow> (\<exists>z. x = Inr z \<and> y = f z)"
  by (cases x) auto

lemma send_and_check_loop: "send_and_check env now s = Some (Inr s') \<Longrightarrow> loop_fields s' = loop_fields s"
  by (auto simp: send_and_check_def map_sum_Inr_iff keeps_loop dest!: sendPackets_loop closing_with_loop)

lemma after_event_loop: "after_event env now s = Some (Inr s') \<Longrightarrow> loop_fields s' = loop_fields s"
  by (auto simp: after_event_def Let_def keeps_loop dest!: send_and_check_loop split: option.split_asm if_split_asm)

subsection \<open>The turns\<close>

text \<open>The queues of packets, of which neither is longer than its channel or slice was made for.\<close>

definition queues_ok :: "session \<Rightarrow> bool" where
  "queues_ok s \<longleftrightarrow> length (sn_undecryptable s) \<le> MaxUndecryptablePackets
     \<and> length (sn_receivedPackets s) \<le> MaxSessionUnprocessedPackets"

lemma loop_fields_D:
  assumes "loop_fields s' = loop_fields s"
  shows "receivedTooManyUndecrytablePacketsTime s' = receivedTooManyUndecrytablePacketsTime s"
    and "queues_ok s' = queues_ok s" and "sn_handshakeComplete s' = sn_handshakeComplete s"
    and "lastNetworkActivityTime s' = lastNetworkActivityTime s" and "sn_IdleTimeout s' = sn_IdleTimeout s"
    and "sn_HandshakeTimeout s' = sn_HandshakeTimeout s" and "sessionCreationTime s' = sessionCreationTime s"
  using assms by (simp_all add: loop_fields_def queues_ok_def)

lemma handlePacket_keeps:
  "receivedTooManyUndecrytablePacketsTime (handlePacket p s) = receivedTooManyUndecrytablePacketsTime s"
  "queues_ok s \<Longrightarrow> queues_ok (handlePacket p s)"
  by (simp_all add: handlePacket_def queues_ok_def)

lemma tryDecryptingQueuedPackets_keeps:
  "receivedTooManyUndecrytablePacketsTime (tryDecryptingQueuedPackets s) = receivedTooManyUndecrytablePacketsTime s"
  "queues_ok s \<Longrightarrow> queues_ok (tryDecryptingQueuedPackets s)"
proof -
  have "receivedTooManyUndecrytablePacketsTime (fold handlePacket ps s) = receivedTooManyUndecrytablePacketsTime s
      \<and> (queues_ok s \<longrightarrow> queues_ok (fold handlePacket ps s))" for ps
    by (induction ps arbitrary: s) (simp_all add: handlePacket_keeps)
  then show "receivedTooManyUndecrytablePacketsTime (tryDecryptingQueuedPackets s) = receivedTooManyUndecrytablePacketsTime s"
    "queues_ok s \<Longrightarrow> queues_ok (tryDecryptingQueuedPackets s)"
    by (simp_all add: tryDecryptingQueuedPackets_def queues_ok_def)
qed

lemma tryQueueing_keeps:
  "receivedTooManyUndecrytablePacketsTime s = Some t \<Longrightarrow>
     receivedTooManyUndecrytablePacketsTime (tryQueueingUndecryptablePacket now p s) = Some t"
  "queues_ok s \<Longrightarrow> queues_ok (tryQueueingUndecryptablePacket now p s)"
  by (simp_all add: tryQueueingUndecryptablePacket_def queues_ok_def)

lemma processTransportParameters_loop [keeps_loop]: "loop_fields (processTransportParameters env params s) = loop_fields s"
  by (simp add: processTransportParameters_def Let_def keeps_loop)

lemma packet_event_keeps:
  assumes "packet_event env now p s = Some (Inr (b, s'))"
  shows "receivedTooManyUndecrytablePacketsTime s = Some t \<Longrightarrow> receivedTooManyUndecrytablePacketsTime s' = Some t"
    and "queues_ok s \<Longrightarrow> queues_ok s'"
proof -
  from assms obtain e s1 where h: "handlePacketImpl env now p s = Some (e, s1)"
    and s': "s' = s1 \<or> s' = tryQueueingUndecryptablePacket now (infer_number s p) s1 \<or> closing_with e s1 = Inr s'"
    by (auto simp: packet_event_def map_sum_Inr_iff split: if_split_asm)
  have same: "receivedTooManyUndecrytablePacketsTime s1 = receivedTooManyUndecrytablePacketsTime s" "queues_ok s1 = queues_ok s"
    using loop_fields_D(1,2) [OF handlePacketImpl_loop [OF h]] by (simp_all add: queues_ok_def)
  show "receivedTooManyUndecrytablePacketsTime s = Some t \<Longrightarrow> receivedTooManyUndecrytablePacketsTime s' = Some t"
    using s' same(1) tryQueueing_keeps(1) loop_fields_D(1) [OF closing_with_loop] by metis
  show "queues_ok s \<Longrightarrow> queues_ok s'"
    using s' same(2) tryQueueing_keeps(2) loop_fields_D(2) [OF closing_with_loop] by metis
qed

lemma handle_event_keeps:
  assumes "handle_event env now ev s = Some (Inr (b, s'))"
  shows "receivedTooManyUndecrytablePacketsTime s = Some t \<Longrightarrow> receivedTooManyUndecrytablePacketsTime s' = Some t"
    and "queues_ok s \<Longrightarrow> queues_ok s'"
proof -
  note keep = tryDecryptingQueuedPackets_keeps
    loop_fields_D(1,2) [OF processTransportParameters_loop] loop_fields_D(1,2) [OF queue_frame_loop]
  show "receivedTooManyUndecrytablePacketsTime s = Some t \<Longrightarrow> receivedTooManyUndecrytablePacketsTime s' = Some t"
    using assms packet_event_keeps(1) [of env now _ _ b s']
    by (auto simp: handle_event_def keep split: event.split_asm list.split_asm if_split_asm)
  show "queues_ok s \<Longrightarrow> queues_ok s'"
    using assms packet_event_keeps(2) [of env now _ _ b s']
    by (auto simp: handle_event_def keep split: event.split_asm list.split_asm if_split_asm)
      (simp_all add: queues_ok_def)
qed

lemma bind_sum_iff:
  "Option.bind m (case_sum (\<lambda>e. Some (Inl e)) g) = Some (Inr y) \<longleftrightarrow> (\<exists>x. m = Some (Inr x) \<and> g x = Some (Inr y))"
  by (cases m) (auto split: sum.split_asm)

lemma run_turn_keeps:
  assumes "run_turn env now ev s = Some (Inr s')"
  shows "receivedTooManyUndecrytablePacketsTime s = Some t \<Longrightarrow> receivedTooManyUndecrytablePacketsTime s' = Some t"
    and "queues_ok s \<Longrightarrow> queues_ok s'"
proof -
  from assms obtain b s1 where ev: "handle_event env now ev s = Some (Inr (b, s1))"
    and "s' = s1 \<or> after_event env now s1 = Some (Inr s')"
    by (auto simp: run_turn_def bind_sum_iff split: sum.split_asm if_split_asm)
  then show "receivedTooManyUndecrytablePacketsTime s = Some t \<Longrightarrow> receivedTooManyUndecrytablePacketsTime s' = Some t"
    and "queues_ok s \<Longrightarrow> queues_ok s'"
    using handle_event_keeps loop_fields_D(1,2) [OF after_event_loop] by metis+
qed

lemma run_step_keeps:
  assumes "run_step env s s'"
  shows "receivedTooManyUndecrytablePacketsTime s = Some t \<Longrightarrow> receivedTooManyUndecrytablePacketsTime s' = Some t"
    and "queues_ok s \<Longrightarrow> queues_ok s'"
  using assms loop_fields_D(1,2) [OF close_loop(1)] loop_fields_D(1,2) [OF deliver_loop(2)]
  by (cases; simp add: run_turn_keeps handlePacket_keeps)+

theorem session_queues_bounded: "(run_step env)\<^sup>*\<^sup>* (newSession pers v connID n cfg now) s \<Longrightarrow> queues_ok s"
proof (induction rule: rtranclp_induct)
  case base
  show ?case by (simp add: newSession_def postSetup_def queues_ok_def)
qed (simp add: run_step_keeps(2))

subsection \<open>The timer\<close>

lemma run_steps_too_many:
  assumes "(run_step env)\<^sup>*\<^sup>* s s'" "receivedTooManyUndecrytablePacketsTime s = Some t"
  shows "receivedTooManyUndecrytablePacketsTime s' = Some t"
  using assms by (induction rule: rtranclp_induct) (auto intro: run_step_keeps)

lemma timer_deadline_le:
  assumes "timer_deadline s = Inr d"
  shows "receivedTooManyUndecrytablePacketsTime s = Some t \<Longrightarrow> d \<le> t + PublicResetTimeout"
    and "pacingDeadline s = Some t' \<Longrightarrow> d \<le> t'"
  using assms by (auto simp: timer_deadline_def ebind_def Let_def earlier_def split: sum.split_asm option.split_asm if_split_asm)

text \<open>Once a session dropped an undecryptable packet because its queue for them was full, its timer is due half a
  second later for the rest of its life, also when the keys came and the queue was emptied: whatever happens after
  that, the timer is set to a time in the past, and the loop runs without waiting.\<close>

theorem timer_overdue_forever:
  assumes "receivedTooManyUndecrytablePacketsTime s = Some t"
    and "(run_step env)\<^sup>*\<^sup>* (tryDecryptingQueuedPackets s) s'" "timer_deadline s' = Inr d"
  shows "d \<le> t + PublicResetTimeout"
  using assms timer_deadline_le(1) run_steps_too_many [OF assms(2)] by (simp add: tryDecryptingQueuedPackets_keeps)

definition timed_out :: "int \<Rightarrow> session \<Rightarrow> bool" where
  "timed_out now s \<longleftrightarrow> (if sn_handshakeComplete s then sn_IdleTimeout s \<le> now - lastNetworkActivityTime s
                        else sn_HandshakeTimeout s \<le> now - sessionCreationTime s)"

lemma close_on_timeout_closes: "timed_out now s \<Longrightarrow> sn_closed (close_on_timeout now s) \<noteq> None"
  by (cases "sn_handshakeComplete s")
    (auto simp: timed_out_def close_on_timeout_def Let_def closeLocal_def close_with_def split: option.split)

lemma timed_out_loop: "loop_fields s' = loop_fields s \<Longrightarrow> timed_out now s' = timed_out now s"
  using loop_fields_D [of s' s] by (simp add: timed_out_def)

lemma send_and_check_closes:
  assumes "send_and_check env now s = Some (Inr s')" "timed_out now s"
  shows "sn_closed s' \<noteq> None"
proof -
  from assms(1) obtain e s1 s2 where "sendPackets env now s = Some (e, s1)" "closing_with e s1 = Inr s2" "s' = close_on_timeout now s2"
    by (auto simp: send_and_check_def map_sum_Inr_iff)
  moreover from this have "timed_out now s2"
    using assms(2) timed_out_loop [OF sendPackets_loop] timed_out_loop [OF closing_with_loop] by blast
  ultimately show ?thesis by (simp add: close_on_timeout_closes)
qed

lemma after_event_closes:
  assumes "after_event env now s = Some (Inr s')" "timed_out now s"
  shows "sn_closed s' \<noteq> None \<or> pacingDeadline s = None \<and> pacingDeadline s' \<noteq> None"
proof -
  define s1 where "s1 = (case alarm (sn_sent s) of None \<Rightarrow> s
               | Some timeout \<Rightarrow> if timeout < now then s\<lparr>sn_sent := OnAlarm now (sn_sent s)\<rparr> else s)"
  define s2 where "s2 = (queue_frame Frame_Ping s1)\<lparr>keepAlivePingSent := True\<rparr>"
  have same: "loop_fields s1 = loop_fields s" "loop_fields s2 = loop_fields s" "pacingDeadline s1 = pacingDeadline s"
    by (simp_all add: s2_def s1_def keeps_loop split: option.split)
  consider "send_and_check env now s1 = Some (Inr s')" | "send_and_check env now s2 = Some (Inr s')"
    | d where "pacingDeadline s1 = None" "s' = s1\<lparr>pacingDeadline := Some d\<rparr>"
    using assms(1) unfolding after_event_def s1_def [symmetric] Let_def s2_def [symmetric]
    by (auto split: option.split_asm if_split_asm)
  then show ?thesis
    using send_and_check_closes assms(2) timed_out_loop [OF same(1)] timed_out_loop [OF same(2)] same(3) by cases auto
qed

lemma timer_turn:
  assumes "run_turn env now TimerFires s = Some (Inr s')"
  shows "after_event env now s = Some (Inr s')"
  using assms by (auto simp: run_turn_def bind_sum_iff handle_event_def split: sum.split_asm if_split_asm)

text \<open>A session that is idle for too long, or whose handshake takes too long, is closed by the second turn in which
  the timer fires: the first may find that it has to wait for the pacing of its packets.\<close>

theorem session_times_out:
  assumes "if sn_handshakeComplete s then sn_IdleTimeout s \<le> now - lastNetworkActivityTime s
           else sn_HandshakeTimeout s \<le> now - sessionCreationTime s"
    and "run_turn env now TimerFires s = Some (Inr s1)"
    and "now \<le> now'" "run_turn env now' TimerFires s1 = Some (Inr s2)"
  shows "sn_closed s1 \<noteq> None \<or> sn_closed s2 \<noteq> None"
proof (rule disjCI)
  assume "\<not> sn_closed s2 \<noteq> None"
  moreover have "timed_out now s" using assms(1) by (simp add: timed_out_def)
  ultimately show "sn_closed s1 \<noteq> None"
    using after_event_closes [OF timer_turn [OF assms(2)]] after_event_closes [OF timer_turn [OF assms(4)]]
      timed_out_loop [OF after_event_loop [OF timer_turn [OF assms(2)]], of now] assms(3)
    by (auto simp: timed_out_def split: if_split_asm)
qed

subsection \<open>Packets that cannot be decrypted\<close>

lemma alarm_queue: "retransmissionQueue (updateLossDetectionAlarm now h) = retransmissionQueue h"
  by (simp add: updateLossDetectionAlarm_def Let_def)

lemma SentPacket_queue: "SentPacket now packet h = (e, h') \<Longrightarrow> retransmissionQueue h' = retransmissionQueue h"
  by (auto simp: SentPacket_def Let_def alarm_queue split: sum.split_asm if_split_asm)

lemma deliver_calls_sent:
  "sn_sent (deliver_calls cs s) = sn_sent s" "receivedFirstPacket (deliver_calls cs s) = receivedFirstPacket s"
  by (induction cs s rule: deliver_calls.induct) (auto split: sender_call.split)

lemma deliver_sent: "sn_sent (deliver w s) = sn_sent s" "receivedFirstPacket (deliver w s) = receivedFirstPacket s"
  by (simp_all add: deliver_def Let_def deliver_calls_sent Close_in_loop_def closeLocal_def close_with_def split: option.split)

lemma queue_updates_sent:
  "sn_sent (queue_updates env now s) = sn_sent s" "receivedFirstPacket (queue_updates env now s) = receivedFirstPacket s"
proof -
  have "sn_sent (fold queue_frame fs s) = sn_sent s \<and> receivedFirstPacket (fold queue_frame fs s) = receivedFirstPacket s" for fs s
    by (induction fs arbitrary: s) (simp_all add: queue_frame_def)
  then show "sn_sent (queue_updates env now s) = sn_sent s" "receivedFirstPacket (queue_updates env now s) = receivedFirstPacket s"
    by (simp_all add: queue_updates_def Let_def deliver_sent queue_frame_def split: prod.split)
qed

lemma queue_ack_sent:
  "queue_ack now s = Inr (b, s') \<Longrightarrow> sn_sent s' = sn_sent s \<and> receivedFirstPacket s' = receivedFirstPacket s"
  by (auto simp: queue_ack_def ebind_def queue_frame_def Let_def split: sum.splits option.splits)

lemma queue_stop_waiting_queue: "retransmissionQueue (sn_sent (queue_stop_waiting force s)) = retransmissionQueue (sn_sent s)"
  by (simp add: queue_stop_waiting_def GetStopWaitingFrame_def queue_frame_def Let_def split: prod.split option.split)

lemma sendPackedPacket_queue:
  "sendPackedPacket env now packet s = (e, s') \<Longrightarrow> retransmissionQueue (sn_sent s') = retransmissionQueue (sn_sent s)"
  by (auto simp: sendPackedPacket_def dest!: SentPacket_queue split: prod.splits option.splits)

lemma send_new_packet_queue:
  "send_new_packet env now ack s = (res, s') \<Longrightarrow> retransmissionQueue (sn_sent s') = retransmissionQueue (sn_sent s)"
  by (auto simp: send_new_packet_def Let_def deliver_sent queue_stop_waiting_queue dest!: sendPackedPacket_queue
      split: sum.splits prod.splits option.splits if_splits)

lemma next_retransmission_initials:
  "\<forall>q \<in> set qs. pkt_PacketType q = PacketTypeInitial \<Longrightarrow> next_retransmission True qs = (None, [])"
  by (induction qs) auto

text \<open>A packet that the AEAD refuses, which anyone who saw the connection ID can send, changes nothing but the time of the last activity, the
  flag for the PING and the flag that a packet came in: no frame is handled, no ACK is due, no packet number is
  recorded. But with that flag set, the next packet that is sent takes all Initial packets off the queue of
  retransmissions: the handshake packets of a client are lost for good when the server never got them.\<close>

theorem undecryptable_packet_stops_initials:
  assumes "\<forall>n. \<exists>x. env_open env (rp_data p) n (rp_raw p) = Inl x"
    and "\<forall>q \<in> set (retransmissionQueue (sn_sent s)). pkt_PacketType q = PacketTypeInitial"
    and s1: "s1 = s\<lparr>receivedFirstPacket := True, lastNetworkActivityTime := rp_rcvTime p, keepAlivePingSent := False\<rparr>"
    and sent: "sn_sendPacket env now' s1 = Some (Inr b, s2)"
  shows "handlePacketImpl env now p s = Some (Some (QErr DecryptionFailure), s1) \<and> retransmissionQueue (sn_sent s2) = []"
proof
  obtain x where "env_open env (rp_data p) (InferPacketNumber (hdr_PacketNumberLen (rp_header p))
      (largestRcvdPacketNumber s1) (hdr_PacketNumber (rp_header p))) (rp_raw p) = Inl x"
    using assms(1) by blast
  then show "handlePacketImpl env now p s = Some (Some (QErr DecryptionFailure), s1)"
    unfolding s1 by (simp add: handlePacketImpl_def infer_number_def Unpack_def Let_def)
  from sent obtain ack s3 where ack: "queue_ack now' (queue_updates env now' s1) = Inr (ack, s3)"
    by (auto simp: sn_sendPacket_def split: sum.split_asm)
  then have "sn_sent s3 = sn_sent s" "receivedFirstPacket s3" using s1 by (simp_all add: queue_ack_sent queue_updates_sent)
  with sent ack next_retransmission_initials [OF assms(2)] show "retransmissionQueue (sn_sent s2) = []"
    by (auto simp: sn_sendPacket_def Let_def dest!: send_new_packet_queue)
qed

text \<open>A packet that could not be decrypted is handled a second time with the number that was inferred the first time
  in its header. Inference from a whole number is not the identity: with one byte on the wire and 590 as the largest number,
  88 is 600, and 600 is 856. The nonce of the second attempt is wrong, and the packet is never decrypted.\<close>

lemma number_inferred_twice:
  "InferPacketNumber PacketNumberLen1 590 88 = 600 \<and> InferPacketNumber PacketNumberLen1 590 600 = 856"
  by (simp add: InferPacketNumber_def closestTo_def delta_def word_less_nat_alt push_bit_eq_mult)

subsection \<open>A client with nothing to send\<close>

text \<open>
  The hypotheses can hold: a client whose handshake has not begun, whose timer fires and which sends. The keys of
  \<open>sample_env\<close> refuse everything.
\<close>

definition sample_env :: session_env where
  "sample_env = \<lparr>env_crypto = sample_setup, env_open = (\<lambda>d n r. Inl (GoErr ''cipher: message authentication failed'')),
     env_write = (\<lambda>_. None), env_rnd = (\<lambda>_. Inr (0, 0)), env_order = (\<lambda>_. []), env_epoch = (\<lambda>_ _ x. x)\<rparr>"
definition sample_config :: Config where
  "sample_config = \<lparr>cfg_HandshakeTimeout = 10000000000, cfg_IdleTimeout = 30000000000, cfg_KeepAlive = False,
     cfg_MaxReceiveStreamFlowControlWindow = 6000000, cfg_MaxReceiveConnectionFlowControlWindow = 9000000,
     cfg_MaxIncomingStreams = 100, cfg_MaxIncomingUniStreams = 100\<rparr>"
definition sample_client :: session where
  "sample_client = newSession PerspectiveClient VersionTLS 7 1 sample_config 0"

definition quiet :: "session \<Rightarrow> bool" where
  "quiet s \<longleftrightarrow> sn_streams s = preSetup PerspectiveClient VersionTLS sample_config \<and> sn_framer s = newStreamFramer VersionTLS
     \<and> (\<exists>n. sn_packer s = (newPacketPacker 7 1 PerspectiveClient VersionTLS)\<lparr>leastUnacked := n\<rparr>)
     \<and> (\<exists>q. sn_sent s = (NewSentPacketHandler NewRTTStats)\<lparr>retransmissionQueue := q\<rparr>
            \<and> (q = [] \<or> receivedFirstPacket s \<and> (\<forall>p \<in> set q. pkt_PacketType p = PacketTypeInitial)))
     \<and> sn_rcvd s = NewReceivedPacketHandler \<and> sn_version s = VersionTLS \<and> \<not> sn_waits s \<and> \<not> sn_KeepAlive s"

lemma quiet_updates:
  assumes "quiet s"
  shows "queue_updates sample_env now s = s\<lparr>sn_packer := (sn_packer s)\<lparr>leastUnacked := 1\<rparr>\<rparr>"
proof -
  define c where "c = NewConnectionFlowController ReceiveConnectionFlowControlWindow (cfg_MaxReceiveConnectionFlowControlWindow sample_config)"
  have c: "base_getWindowUpdate f now rtt c = (0, c)" "IsNewlyBlocked c = ((False, 0), c)" for f rtt
    by (simp_all add: hasWindowUpdate_def c_def base_getWindowUpdate_def IsNewlyBlocked_def NewConnectionFlowController_def Let_def sendWindowSize_def ReceiveConnectionFlowControlWindow_def)
  have w: "ses_conn (sn_streams s) = c" "ses_calls (sn_streams s) = []" "ses_closeErr (sn_streams s) = None"
    and l: "lowestUnacked (sn_sent s) = 1"
    using assms by (auto simp: quiet_def preSetup_def c_def lowestUnacked_def NewSentPacketHandler_def)
  have same: "(sn_streams s)\<lparr>ses_calls := [], ses_closeErr := None, ses_conn := c\<rparr> = sn_streams s" using w by (cases "sn_streams s") simp
  show ?thesis
    by (simp add: queue_updates_def w c l conn_GetWindowUpdate_def sample_env_def Let_def deliver_def SetLeastUnacked_def same)
qed

lemma quiet_send:
  assumes "quiet s"
  shows "\<exists>s'. sn_sendPacket sample_env now s = Some (Inr False, s') \<and> quiet s' \<and> retransmissionQueue (sn_sent s') = []"
proof -
  define s1 where "s1 = s\<lparr>sn_packer := (sn_packer s)\<lparr>leastUnacked := 1\<rparr>\<rparr>"
  define s2 where "s2 = s1\<lparr>sn_sent := (sn_sent s)\<lparr>retransmissionQueue := []\<rparr>\<rparr>"
  have ack: "queue_ack now s1 = Inr (False, s1)"
    using assms by (simp add: queue_ack_def s1_def quiet_def GetAckFrame_def NewReceivedPacketHandler_def Let_def)
  have q: "next_retransmission (receivedFirstPacket s1) (retransmissionQueue (sn_sent s1)) = (None, [])"
    using assms next_retransmission_initials by (auto simp: quiet_def s1_def)
  have quiet: "quiet s2" using assms by (auto simp: quiet_def s2_def s1_def)
  have new: "send_new_packet sample_env now False s2 = (Inr False, s2)"
    if "quiet s2" for s2
  proof -
    have "ses_calls (sn_streams s2) = []" "ses_closeErr (sn_streams s2) = None"
      "\<not> hasSentPacket (sn_packer s2)" "\<not> hasCryptoStreamData (sn_framer s2)" "sn_version s2 = VersionTLS"
      using that by (auto simp: quiet_def preSetup_def newPacketPacker_def newStreamFramer_def)
    moreover have "(sn_streams s2)\<lparr>ses_calls := [], ses_closeErr := None\<rparr> = sn_streams s2"
      using calculation(1,2) by (cases "sn_streams s2") simp
    ultimately show ?thesis by (simp add: send_new_packet_def PackPacket_def deliver_def Let_def)
  qed
  have "sn_sendPacket sample_env now s = Some (Inr False, s2)"
    using ack q new [OF quiet] by (simp add: sn_sendPacket_def quiet_updates [OF assms] s1_def [symmetric]) (simp add: s2_def s1_def)
  with quiet show ?thesis by (auto simp: s2_def)
qed

lemma quiet_sent:
  assumes "quiet s"
  shows "alarm (sn_sent s) = None" "nextPacketSendTime (sn_sent s) = None" "SendingAllowed (sn_sent s) \<or> retransmissionQueue (sn_sent s) \<noteq> []"
    "ShouldSendNumPackets (sn_sent s) = Inr 1"
proof -
  let ?c = "NewCubicSender False 32 1000"
  have "TimeUntilSend NewRTTStats 0 ?c = Inr 0"
    by (simp add: TimeUntilSend_def InRecovery_def NewCubicSender_def GetCongestionWindow_def NewRTTStats_def Let_def)
  then show "ShouldSendNumPackets (sn_sent s) = Inr 1"
    using assms by (auto simp: quiet_def NewSentPacketHandler_def ShouldSendNumPackets_def)
  show "alarm (sn_sent s) = None" "nextPacketSendTime (sn_sent s) = None" "SendingAllowed (sn_sent s) \<or> retransmissionQueue (sn_sent s) \<noteq> []"
    using assms by (auto simp: quiet_def NewSentPacketHandler_def SendingAllowed_def MaxTrackedSentPackets_def)
qed

lemma quiet_timeout: "quiet (close_on_timeout now s) = quiet s"
  by (simp add: close_on_timeout_def Let_def closeLocal_def close_with_def quiet_def split: option.split)

lemma quiet_turn:
  assumes "quiet s" "retransmissionQueue (sn_sent s) = []"
  shows "\<exists>s'. run_turn sample_env now TimerFires s = Some (Inr s') \<and> quiet s' \<and> retransmissionQueue (sn_sent s') = []"
proof -
  define s1 where "s1 = s\<lparr>pacingDeadline := None\<rparr>"
  have s1: "quiet s1" "sn_sent s1 = sn_sent s" using assms by (simp_all add: s1_def quiet_def)
  obtain s2 where s2: "sn_sendPacket sample_env now s1 = Some (Inr False, s2)" "quiet s2" "retransmissionQueue (sn_sent s2) = []" using quiet_send [OF s1(1)] by blast
  have "sendPackets sample_env now s = Some (None, s2)"
    using quiet_sent [OF assms(1)] assms(2) s1(2) s2(1) by (simp add: sendPackets_def s1_def [symmetric] Let_def numeral_eq_Suc)
  then have "send_and_check sample_env now s = Some (Inr (close_on_timeout now s2))"
    by (simp add: send_and_check_def closing_with_def)
  moreover have "quiet (close_on_timeout now s2)" using s2(2) quiet_timeout by simp
  moreover have "retransmissionQueue (sn_sent (close_on_timeout now s2)) = []"
    using s2(3) by (simp add: close_on_timeout_def Let_def closeLocal_def close_with_def split: option.split)
  moreover obtain d where "timer_deadline s = Inr d"
    using assms(1) by (simp add: quiet_def timer_deadline_def ebind_def Let_def)
  moreover have "\<not> sn_waits s" "\<not> sn_KeepAlive s" "\<not> sn_waits (close_on_timeout now s2)"
    using assms(1) calculation(2) by (simp_all add: quiet_def)
  ultimately show ?thesis
    using quiet_sent(1,2) [OF assms(1)]
    by (simp add: run_turn_def handle_event_def after_event_def Let_def)
qed

lemma sample_client_quiet: "quiet sample_client" "retransmissionQueue (sn_sent sample_client) = []"
  by (auto simp: quiet_def sample_client_def newSession_def postSetup_def sample_config_def preSetup_def NewSentPacketHandler_def newPacketPacker_def)

theorem timer_overdue_forever_witness:
  "\<exists>d. timer_deadline (tryDecryptingQueuedPackets (sample_client\<lparr>receivedTooManyUndecrytablePacketsTime := Some 5\<rparr>)) = Inr d \<and> d \<le> 500000005"
proof -
  obtain d where "timer_deadline (tryDecryptingQueuedPackets (sample_client\<lparr>receivedTooManyUndecrytablePacketsTime := Some 5\<rparr>)) = Inr d"
    by (simp add: timer_deadline_def ebind_def Let_def tryDecryptingQueuedPackets_def sample_client_def newSession_def postSetup_def sample_config_def)
  then show ?thesis
    using timer_overdue_forever [of "sample_client\<lparr>receivedTooManyUndecrytablePacketsTime := Some 5\<rparr>" 5 sample_env]
    by (auto simp: PublicResetTimeout_def)
qed

theorem session_times_out_witness:
  "\<exists>s1 s2. run_turn sample_env 10000000000 TimerFires sample_client = Some (Inr s1)
     \<and> run_turn sample_env 10000000001 TimerFires s1 = Some (Inr s2) \<and> (sn_closed s1 \<noteq> None \<or> sn_closed s2 \<noteq> None)"
proof -
  obtain s1 where s1: "run_turn sample_env 10000000000 TimerFires sample_client = Some (Inr s1)" "quiet s1" "retransmissionQueue (sn_sent s1) = []"
    using quiet_turn [OF sample_client_quiet] by blast
  obtain s2 where "run_turn sample_env 10000000001 TimerFires s1 = Some (Inr s2)" using quiet_turn [OF s1(2,3)] by blast
  then show ?thesis
    using s1(1) session_times_out [of sample_client 10000000000 sample_env s1 10000000001 s2]
    by (auto simp: sample_client_def newSession_def postSetup_def sample_config_def)
qed

definition sample_initial :: Packet where
  "sample_initial = \<lparr>pkt_PacketNumber = 1, pkt_PacketType = PacketTypeInitial, pkt_Frames = [Frame_Ping], pkt_Length = 1200,
     pkt_EncryptionLevel = EncryptionUnencrypted, pkt_largestAcked = 0, pkt_sendTime = 0, pkt_retransmitted = False\<rparr>"

definition sample_forged :: receivedPacket where
  "sample_forged = \<lparr>rp_header = empty_header, rp_raw = [], rp_data = [1, 2, 3], rp_rcvTime = 7\<rparr>"

theorem undecryptable_packet_stops_initials_witness:
  "\<exists>s1 s2. handlePacketImpl sample_env 8 sample_forged
        (sample_client\<lparr>sn_sent := (sn_sent sample_client)\<lparr>retransmissionQueue := [sample_initial]\<rparr>\<rparr>) = Some (Some (QErr DecryptionFailure), s1)
     \<and> retransmissionQueue (sn_sent s1) = [sample_initial]
     \<and> sn_sendPacket sample_env 9 s1 = Some (Inr False, s2) \<and> retransmissionQueue (sn_sent s2) = []"
proof -
  let ?s = "sample_client\<lparr>sn_sent := (sn_sent sample_client)\<lparr>retransmissionQueue := [sample_initial]\<rparr>\<rparr>"
  define s1 where "s1 = ?s\<lparr>receivedFirstPacket := True, lastNetworkActivityTime := rp_rcvTime sample_forged, keepAlivePingSent := False\<rparr>"
  have "quiet s1"
    using sample_client_quiet(1) by (auto simp: s1_def quiet_def sample_initial_def)
  then obtain s2 where s2: "sn_sendPacket sample_env 9 s1 = Some (Inr False, s2)" using quiet_send by blast
  have "\<forall>n. \<exists>x. env_open sample_env (rp_data sample_forged) n (rp_raw sample_forged) = Inl x" by (simp add: sample_env_def)
  then show ?thesis
    using undecryptable_packet_stops_initials [OF _ _ s1_def s2, of 8] s2
    by (auto simp: sample_initial_def s1_def)
qed

end
