(* ===== verification/Spec2Isabelle.thy ===== *)
theory Spec2Isabelle
  imports Unpacker Vpn_Goroutines Ssh_Session Copy_Loops Received_Handler Flow_Peers Receive_Runs Sent_Runs Transport_Params Wire_Header Stream_Limits Session_Runs
begin

text \<open>
  A verification library for the repository "New applications above QUIC": three programs, a VPN, a remote shell with port
  forwarding and a netcat, and the QUIC implementation \<^verbatim>\<open>quic-go\<close> they run on, with the thesis' changes to it. The Go code is
  under \<^verbatim>\<open>src/src\<close>; in what follows, the files of \<^verbatim>\<open>quic-go\<close> are named relative to
  \<^verbatim>\<open>github.com/lucas-clemente/quic-go\<close>.

  \<^bold>\<open>The program.\<close> A session (\<^verbatim>\<open>session.go\<close>) is a loop that takes packets and timers. A packet goes through the parser of its
  header and the unpacker, which opens it with the AEAD and parses its frames; the frames go to the streams, the flow
  control and the handlers of sent and received packets. When it sends, the session collects window updates and ACK
  frames, and the packer fills a packet with them and with what the framer takes from the streams. The applications
  open streams and call their methods from other goroutines. All three authenticate with keys over a stream; the VPN then
  carries IP packets as datagrams on one stream per flow, the shell carries control messages and bytes, the netcat bytes.

  \<^bold>\<open>How code became definitions.\<close> One definition per function, with its name; a name that clashes gets a prefix
  (\<open>ses_\<close>, \<open>str_\<close>, \<open>sn_\<close>, \<open>map_\<close>, \<open>leg_\<close>, \<open>in_\<close>, \<open>out_\<close>, \<open>be_\<close>, \<open>le_\<close>). A struct is a record, a method takes the record and
  returns it updated. Unsigned integers are words of their width, so that additions wrap; \<open>int64\<close> values such as times
  are integers, cut to 64 bits by \<open>int64\<close> where they can overflow; floating-point numbers are rationals with the rounding
  written out (\<open>float32\<close>, \<open>float64\<close>). A function that can fail returns \<open>goerr + 'a\<close>, and a run-time panic (a slice bound, a nil
  pointer, a division by zero) is the error \<open>Panic\<close>. The reader of a buffer is the list of bytes that are left. Clocks, random
  numbers and the order of an iteration over a map are arguments. A mutex makes a method one step; a method that waits
  with the mutex unlocked is cut there, and goroutines are step relations over these steps in any order.

  \<^bold>\<open>Loops.\<close> Loops are structural recursions, or \<open>function\<close>s with a measure. Those that might not end are
  \<open>partial_function (option)\<close>, where \<open>None\<close> is the loop that does not return: the copying loops, the update of the window
  of TCP in \<open>Cubic\<close>, the opening of streams up to an identifier, the decoding of a vector, and the splitting of a
  retransmission; there is no fuel. That the copying loops, the window update and the decoder return is part of
  \<open>forwarding_returns_and_copies\<close>, \<open>window_in_limits\<close> and \<open>tls_codec_correct\<close>.

  \<^bold>\<open>The theories.\<close>

  \<^item> Foundations. \<open>Prelude\<close>: integers, errors, readers, bytes, and the collections \<open>codec\<close> and \<open>sizes\<close>. \<open>Byte_Order\<close>,
    \<open>Varint\<close>, \<open>Float16\<close>: \<^verbatim>\<open>internal/utils\<close>. \<open>Protocol\<close>: \<^verbatim>\<open>internal/protocol\<close>. \<open>Go_Float\<close>, \<open>Go_Strings\<close>: what the code
    uses of the standard library.
  \<^item> Frames and packets, \<^verbatim>\<open>internal/wire\<close>. \<open>Wire_Types\<close>, \<open>Wire_Control\<close>, \<open>Wire_Stream\<close>, \<open>Wire_Ack\<close>: parsing, writing and
    measuring of each frame in the IETF and gQUIC formats. \<open>Wire_Header\<close>: headers, version negotiation, public resets.
    \<open>Unpacker\<close>: \<^verbatim>\<open>packet_unpacker.go\<close>.
  \<^item> Streams. \<open>Stream_Sorter\<close>, \<open>Sorter_Delivery\<close>: \<^verbatim>\<open>stream_frame_sorter.go\<close>. \<open>Flow_Control\<close>, \<open>Flow_Peers\<close>:
    \<^verbatim>\<open>internal/flowcontrol\<close>. \<open>Send_Stream\<close>, \<open>Send_Runs\<close>: \<^verbatim>\<open>send_stream.go\<close>. \<open>Receive_Stream\<close>, \<open>Receive_Runs\<close>:
    \<^verbatim>\<open>receive_stream.go\<close>. \<open>Stream_Pair\<close>: \<^verbatim>\<open>stream.go\<close>. \<open>Streams_Map\<close>, \<open>Stream_Limits\<close>, \<open>Streams_Legacy\<close>: the maps of streams of the
    IETF versions and of gQUIC.
  \<^item> Acknowledgement and congestion, \<^verbatim>\<open>internal/ackhandler\<close> and \<^verbatim>\<open>internal/congestion\<close>. \<open>Received_History\<close>,
    \<open>Received_Handler\<close>: what is acknowledged and when. \<open>Rtt_Stats\<close>, \<open>Cubic\<close>, \<open>Cubic_Sender\<close>: round-trip times and the
    congestion window. \<open>Sent_Packets\<close>, \<open>Sent_Runs\<close>: sent packets, losses, alarms and retransmissions.
  \<^item> Handshake. \<open>Handshake_Message\<close>: the messages of gQUIC. \<open>Tls_Syntax\<close>: the presentation language in \<^verbatim>\<open>mint\<close>.
    \<open>Transport_Params\<close>: transport parameters and the extension handlers of TLS.
  \<^item> The session. \<open>Packet_Numbers\<close>, \<open>Stream_Framer\<close>, \<open>Packet_Packer\<close>, \<open>Packer_Runs\<close>: the packer and what it
    relies on. \<open>Session_Streams\<close>, \<open>Session_Frames\<close>: the streams behind a session, the frames for them and the methods that an
    application calls. \<open>Session\<close>, \<open>Session_Runs\<close>: the run loop.
  \<^item> The programs. \<open>Client_Auth\<close>: \<^verbatim>\<open>quic_utils\<close> and the decisions of the servers. \<open>Vpn_Datagram\<close>, \<open>Vpn_Ecn\<close>,
    \<open>Vpn_Transmitter\<close>, \<open>Vpn_Goroutines\<close>: \<^verbatim>\<open>quic_vpn\<close>. \<open>Ssh_Args\<close>, \<open>Ssh_Control\<close>, \<open>Ssh_Hosts\<close>, \<open>Ssh_Session\<close>: \<^verbatim>\<open>quic_ssh\<close>.
    \<open>Copy_Loops\<close>: the copying loops of \<^verbatim>\<open>quic_ssh\<close> and \<^verbatim>\<open>quic_netcat\<close>.

  \<^bold>\<open>What is shown.\<close> The properties carry an identifier \<open>C\<close> with a number in the text before them. In the order of the
  layers:

  \<^item> Formats are round trips, with the announced lengths: STREAM and the other frames, packets, headers, handshake messages,
    the types of TLS, datagrams. Versions that both sides have are found, and a downgrade is noticed.
  \<^item> A receiver that gets the frames of a sender, split, repeated and in any order, delivers the bytes that were
    written (\<open>stream_is_reliable\<close>), from a sorter that refines the set of missing bytes, a sender that sends slices of what
    was written and a reader that gets a prefix.
  \<^item> A sender that keeps to its windows is never accused of exceeding them and gets credit again; streams that a peer may open
    are accepted, once each, in order.
  \<^item> The ACK frame says what came in, in time; honest ACK frames are accepted; the bytes in flight are those of the
    outstanding packets; when packets are outstanding an alarm is set, and the second alarm in a row at the latest sends one
    of them again; the congestion window keeps its limits and follows its curve.
  \<^item> The streams of a session keep their types whatever the peer and the application do; the packets that it fills fit, and the
    peer unpacks what was put into them.
  \<^item> A server serves only clients with a proven key; the VPN accounts for every packet; the copying loops return and copy.
  \<^item> Where the code does not do what it means to, the theorem says so, among them \<open>late_confirmation_panics\<close>,
    \<open>data_is_sent_after_reset\<close>, \<open>eof_before_the_end\<close>, \<open>handshake_packets_block_sending\<close>, \<open>deleted_stream_blocks_accept\<close>,
    \<open>many_ack_ranges_fit_no_packet\<close>, \<open>closed_stream_loses_packets\<close>, \<open>netcat_loses_the_last_bytes\<close>, \<open>timer_overdue_forever\<close> and
    \<open>undecryptable_packet_stops_initials\<close>.

  Each theorem with hypotheses has a \<open>_witness\<close>, which applies it at concrete data.

  \<^bold>\<open>Interfaces.\<close> Each locale is interpreted on the definitions of the code: \<open>byte_order\<close> on both byte orders,
  \<open>frame_codec\<close> on every frame but STOP_WAITING, whose bytes depend on the header, \<open>packet_set\<close> on the history of received packets, \<open>stream_source\<close> (what the framer asks
  of the streams) on the streams of a session, \<open>reader\<close> (what a copying loop reads from) on the reads of a QUIC stream and
  of \<open>io.ReadAtLeast\<close>, \<open>weak_order\<close> on the priorities of the VPN's scheduler.

  \<^bold>\<open>Parameters.\<close> Code that is not part of the repository, or that is cryptography, is an argument: the AEADs (opening
  undoes sealing), signatures and key encodings, the parsers of IP headers, name resolution, the errors of a connection's
  \<open>Write\<close>. Numbers are bounded where the code's own are: stream offsets and packet numbers below \<open>2 ^ 62\<close>, packets of at
  most 16384 bytes, congestion windows of up to 1000 packets; the text of a property names its bounds.

  \<^bold>\<open>What is left out.\<close> The crypto setups, cookies and TLS itself, which are sequences of calls of cryptographic
  libraries; sockets and the table of sessions in \<^verbatim>\<open>server.go\<close> and \<^verbatim>\<open>client.go\<close>; HTTP; tunnel devices, terminals and command
  lines other than that of the shell; logging, pools of buffers, contexts and the channels that only wake a goroutine;
  generated code, vendored packages and the older copies of the libraries that the experiments use. The linked lists are
  the lists of their values. The text of an error is kept only where the code looks at it.
\<close>

end
